(* ===== verification/Prelude.thy ===== *)
theory Prelude
  imports Main "HOL-Library.Word"
begin

text \<open>
  Shared ground of the development: names for the machine integers of the server headers
  (\<^verbatim>\<open>uchar\<close>, \<^verbatim>\<open>uint16\<close>, \<^verbatim>\<open>uint\<close>/\<^verbatim>\<open>uint32\<close>, \<^verbatim>\<open>ulonglong\<close>/\<^verbatim>\<open>size_t\<close> on the bundled
  64-bit build), the collections of simplification rules that the component theories fill,
  and the lemmas on words, bits and lists that more than one component uses.
\<close>

unbundle bit_operations_syntax

section \<open>Machine integers\<close>

type_synonym uchar = "8 word"
type_synonym uint16 = "16 word"
type_synonym uint32 = "32 word"
type_synonym ulonglong = "64 word"

text \<open>Addresses of nodes and objects in the pointer structures.\<close>

type_synonym addr = nat

text \<open>Collections: bit-level facts of the modelled routines, and the abstraction equations
  that turn an operation of a data structure into the operation of its abstract value.\<close>

named_theorems bits_of \<open>bit-level characterisation of modelled word routines\<close>
named_theorems abs_simps \<open>abstraction equations of modelled operations\<close>

section \<open>Words and bits\<close>

text \<open>The set of bit positions of a word, and their number.\<close>

definition bit_set :: "'a::len word \<Rightarrow> nat set" where
  "bit_set w = {i. bit w i}"

definition pop_count :: "'a::len word \<Rightarrow> nat" where
  "pop_count w = card (bit_set w)"

lemma bit_set_iff [simp]: "i \<in> bit_set w \<longleftrightarrow> bit w i"
  by (simp add: bit_set_def)

lemma bit_set_subset: "bit_set (w :: 'a::len word) \<subseteq> {..<LENGTH('a)}"
  by (auto dest: bit_imp_le_length)

lemma finite_bit_set [simp, intro]: "finite (bit_set w)"
  by (rule finite_subset [OF bit_set_subset]) simp

lemma bit_set_eq_iff: "bit_set v = bit_set w \<longleftrightarrow> v = w"
proof
  assume "bit_set v = bit_set w"
  then have "bit v n = bit w n" for n by (simp add: bit_set_def set_eq_iff)
  then show "v = w" by (simp add: bit_eq_iff)
qed simp

lemma bit_set_0 [simp]: "bit_set 0 = {}"
  by (simp add: bit_set_def)

lemma bit_set_empty_iff [simp]: "bit_set w = {} \<longleftrightarrow> w = 0"
  using bit_set_eq_iff [of w 0] by simp

lemma bit_set_and [simp]: "bit_set (v AND w) = bit_set v \<inter> bit_set w"
  by (auto simp: bit_simps)

lemma bit_set_or [simp]: "bit_set (v OR w) = bit_set v \<union> bit_set w"
  by (auto simp: bit_simps)

lemma bit_set_and_not [simp]: "bit_set (v AND NOT w) = bit_set v - bit_set w"
  by (auto simp: bit_simps dest: bit_imp_le_length)

lemma bit_set_minus_1 [simp]: "bit_set (- 1 :: 'a::len word) = {..<LENGTH('a)}"
  by (auto simp: bit_simps)

lemma bit_set_push_bit_1:
  "n < LENGTH('a) \<Longrightarrow> bit_set (push_bit n 1 :: 'a::len word) = {n}"
  by (auto simp: bit_simps)

lemma bit_set_exp:
  "n < LENGTH('a) \<Longrightarrow> bit_set (2 ^ n :: 'a::len word) = {n}"
  by (auto simp: bit_simps)

lemma bit_set_mask: "n \<le> LENGTH('a) \<Longrightarrow> bit_set (mask n :: 'a::len word) = {..<n}"
  by (auto simp: bit_simps)

lemma and_push_bit_1_eq_0_iff:
  assumes "n < LENGTH('a)"
  shows "w AND push_bit n 1 = 0 \<longleftrightarrow> \<not> bit (w :: 'a::len word) n"
proof -
  have "w AND push_bit n 1 = 0 \<longleftrightarrow> bit_set w \<inter> {n} = {}"
    using assms by (simp add: bit_set_exp flip: bit_set_empty_iff)
  then show ?thesis by auto
qed

lemma unat_drop_bit: "unat (drop_bit n w) = unat (w :: 'a::len word) div 2 ^ n"
  by (simp add: unat_drop_bit_eq) (simp add: drop_bit_eq_div)

lemma unat_less [simp]: "unat (w :: 'a::len word) < 2 ^ LENGTH('a)"
  by (rule unsigned_less)

lemma bit_less_8: "bit (w :: uchar) i \<Longrightarrow> i < 8"
  using bit_imp_le_length [of w i] by simp

lemma bit_less_16: "bit (w :: uint16) i \<Longrightarrow> i < 16"
  using bit_imp_le_length [of w i] by simp

lemma bit_less_32: "bit (w :: uint32) i \<Longrightarrow> i < 32"
  using bit_imp_le_length [of w i] by simp

lemma bit_less_64: "bit (w :: ulonglong) i \<Longrightarrow> i < 64"
  using bit_imp_le_length [of w i] by simp

lemmas bit_less = bit_less_8 bit_less_16 bit_less_32 bit_less_64

lemma bit_le_Max: "bit w i \<Longrightarrow> i \<le> Max (bit_set w)"
  by simp

lemma unat_exp:
  assumes "n < LENGTH('a)" shows "unat (2 ^ n :: 'a::len word) = 2 ^ n"
proof -
  have "unat (of_nat (2 ^ n) :: 'a word) = 2 ^ n mod 2 ^ LENGTH('a)" by (rule unat_of_nat)
  also have "\<dots> = 2 ^ n" using assms by (intro mod_less power_strict_increasing) auto
  finally show ?thesis by simp
qed

lemma unat_and_mask: "unat (w AND mask k) = unat (w :: 'a::len word) mod 2 ^ k"
  by (simp only: unsigned_take_bit_eq flip: take_bit_eq_mask) (simp only: take_bit_eq_mod)

lemma sint_small_32: "unat (w :: uint32) < 2 ^ 31 \<Longrightarrow> sint w = int (unat w)"
proof -
  assume a: "unat w < 2 ^ 31"
  have u: "uint w = int (unat w)" by simp
  have "0 \<le> uint w" "uint w < 2 ^ 31" using iffD2 [OF of_nat_less_iff [where 'a = int], OF a] by simp_all
  then have "signed_take_bit 31 (uint w) = uint w" by (intro signed_take_bit_int_eq_self) linarith+
  then show ?thesis unfolding u [symmetric] by (simp add: sint_uint)
qed

lemma sint_small_64: "unat (w :: ulonglong) < 2 ^ 63 \<Longrightarrow> sint w = int (unat w)"
proof -
  assume a: "unat w < 2 ^ 63"
  have u: "uint w = int (unat w)" by simp
  have "0 \<le> uint w" "uint w < 2 ^ 63" using iffD2 [OF of_nat_less_iff [where 'a = int], OF a] by simp_all
  then have "signed_take_bit 63 (uint w) = uint w" by (intro signed_take_bit_int_eq_self) linarith+
  then show ?thesis unfolding u [symmetric] by (simp add: sint_uint)
qed

lemma unat_of_nat_32: "n < 2 ^ 32 \<Longrightarrow> unat (of_nat n :: uint32) = n"
  by (simp add: unat_of_nat)

section \<open>Three-way comparison\<close>

text \<open>The C convention of comparison functions: negative, zero or positive.\<close>

definition cmp3 :: "'a::linorder \<Rightarrow> 'a \<Rightarrow> int" where
  "cmp3 a b = (if a < b then - 1 else if a = b then 0 else 1)"

lemma cmp3_eq_0_iff [simp]: "cmp3 a b = 0 \<longleftrightarrow> a = b"
  by (auto simp: cmp3_def)

lemma cmp3_swap: "cmp3 a b = - cmp3 b a"
  by (auto simp: cmp3_def)

lemma cmp3_le_0_iff [simp]: "cmp3 a b \<le> 0 \<longleftrightarrow> a \<le> b"
  by (auto simp: cmp3_def)

text \<open>The sign of \<^verbatim>\<open>memcmp\<close> on blocks of the same length.\<close>

fun memcmp_list :: "uchar list \<Rightarrow> uchar list \<Rightarrow> int" where
  "memcmp_list (x # xs) (y # ys) = (if x = y then memcmp_list xs ys else if x < y then - 1 else 1)"
| "memcmp_list _ _ = 0"

lemma memcmp_list_0_iff: "length xs = length ys \<Longrightarrow> memcmp_list xs ys = 0 \<longleftrightarrow> xs = ys"
  by (induction xs ys rule: list_induct2) auto

lemma memcmp_list_swap: "memcmp_list xs ys = - memcmp_list ys xs"
  by (induction xs ys rule: memcmp_list.induct) (auto simp: not_less_iff_gr_or_eq)

lemma memcmp_list_sgn: "sgn (memcmp_list xs ys) = memcmp_list xs ys"
  by (induction xs ys rule: memcmp_list.induct) auto

lemma memcmp_list_trans:
  "length xs = length ys \<Longrightarrow> length ys = length zs \<Longrightarrow> memcmp_list xs ys \<le> 0 \<Longrightarrow> memcmp_list ys zs \<le> 0 \<Longrightarrow> memcmp_list xs zs \<le> 0"
  by (induction xs ys zs rule: list_induct3) (auto split: if_splits)

lemma memcmp_list_zeros: "memcmp_list (replicate n 0) ys \<le> 0"
proof (induction n arbitrary: ys)
  case (Suc n)
  then show ?case by (cases ys) (auto simp: word_gt_0)
qed simp

end
