(* ===== verification/Bits.thy ===== *)
theory Bits
  imports Prelude
begin

text \<open>
  The bit routines of \<^verbatim>\<open>my_bit.h\<close>: base-2 logarithms, population count, rounding to a power
  of two, clearing the highest bit, bit reversal, masks, and the search for the lowest set
  bit. Every routine is a word function at the source's width; the theorems relate it to the
  set of bit positions of its argument.
\<close>

section \<open>The routines of my\_bit.h\<close>

subsection \<open>Base-2 logarithm\<close>

definition my_bit_log2_hex_digit :: "uchar \<Rightarrow> uint32" where
  "my_bit_log2_hex_digit value =
     (if value AND 0x0C \<noteq> 0 then (if value AND 0x08 \<noteq> 0 then 3 else 2)
      else (if value AND 0x02 \<noteq> 0 then 1 else 0))"

definition my_bit_log2_uint8 :: "uchar \<Rightarrow> uint32" where
  "my_bit_log2_uint8 value =
     (if value AND 0xF0 \<noteq> 0 then my_bit_log2_hex_digit (drop_bit 4 value) + 4
      else my_bit_log2_hex_digit value)"

definition my_bit_log2_uint16 :: "uint16 \<Rightarrow> uint32" where
  "my_bit_log2_uint16 value =
     (if value AND 0xFF00 \<noteq> 0 then my_bit_log2_uint8 (ucast (drop_bit 8 value)) + 8
      else my_bit_log2_uint8 (ucast value))"

definition my_bit_log2_uint32 :: "uint32 \<Rightarrow> uint32" where
  "my_bit_log2_uint32 value =
     (if value AND 0xFFFF0000 \<noteq> 0 then my_bit_log2_uint16 (ucast (drop_bit 16 value)) + 16
      else my_bit_log2_uint16 (ucast value))"

definition my_bit_log2_uint64 :: "ulonglong \<Rightarrow> uint32" where
  "my_bit_log2_uint64 value =
     (if value AND 0xFFFFFFFF00000000 \<noteq> 0
      then my_bit_log2_uint32 (ucast (drop_bit 32 value)) + 32
      else my_bit_log2_uint32 (ucast value))"

definition my_bit_log2_size_t :: "ulonglong \<Rightarrow> uint32" where
  "my_bit_log2_size_t value = my_bit_log2_uint64 value"

subsection \<open>Population count\<close>

definition my_count_bits_uint32 :: "uint32 \<Rightarrow> uint32" where
  "my_count_bits_uint32 v =
     (let v = v - (drop_bit 1 v AND 0x55555555);
          v = (v AND 0x33333333) + (drop_bit 2 v AND 0x33333333)
      in drop_bit 24 (((v + drop_bit 4 v) AND 0x0F0F0F0F) * 0x01010101))"

definition my_count_bits :: "ulonglong \<Rightarrow> uint32" where
  "my_count_bits x = my_count_bits_uint32 (ucast x) + my_count_bits_uint32 (ucast (drop_bit 32 x))"

subsection \<open>Powers of two, highest bit, reversal\<close>

definition my_round_up_to_next_power :: "uint32 \<Rightarrow> uint32" where
  "my_round_up_to_next_power v =
     (let v = v - 1;
          v = v OR drop_bit 1 v;
          v = v OR drop_bit 2 v;
          v = v OR drop_bit 4 v;
          v = v OR drop_bit 8 v;
          v = v OR drop_bit 16 v
      in v + 1)"

definition my_clear_highest_bit :: "uint32 \<Rightarrow> uint32" where
  "my_clear_highest_bit v =
     (let w = drop_bit 1 v;
          w = w OR drop_bit 1 w;
          w = w OR drop_bit 2 w;
          w = w OR drop_bit 4 w;
          w = w OR drop_bit 8 w;
          w = w OR drop_bit 16 w
      in v AND w)"

text \<open>The table \<^verbatim>\<open>_my_bits_reverse_table\<close> is an \<^verbatim>\<open>extern\<close> of the header, so it is a parameter,
  indexed by a byte.\<close>

definition my_reverse_bits :: "(uchar \<Rightarrow> uchar) \<Rightarrow> uint32 \<Rightarrow> uint32" where
  "my_reverse_bits table key =
     push_bit 24 (ucast (table (ucast (key AND 255)))) OR
     push_bit 16 (ucast (table (ucast (drop_bit 8 key AND 255)))) OR
     push_bit 8 (ucast (table (ucast (drop_bit 16 key AND 255)))) OR
     ucast (table (ucast (drop_bit 24 key)))"

subsection \<open>Masks\<close>

text \<open>The shift distance \<open>n - 1\<close> is defined in C only for \<open>0 \<le> n - 1 < 64\<close>; other arguments
  give no value.\<close>

definition my_set_bits :: "int \<Rightarrow> ulonglong option" where
  "my_set_bits n =
     (if 0 \<le> n - 1 \<and> n - 1 < 64
      then Some (push_bit 1 (push_bit (nat (n - 1)) 1 - 1) OR 1) else None)"

definition last_byte_mask :: "uint32 \<Rightarrow> uchar" where
  "last_byte_mask nbits =
     (let used = (nbits - 1) AND 7 in ucast (push_bit (unat used) (2 :: uint32) - 1))"

subsection \<open>Lowest set bit\<close>

definition last_bit :: "nat \<Rightarrow> uint32" where
  "last_bit i = [32, 0, 1, 0, 2, 0, 1, 0, 3, 0, 1, 0, 2, 0, 1, 0] ! i"

partial_function (option) find_first_bit_loop :: "ulonglong \<Rightarrow> uint32 \<Rightarrow> uint32 option" where
  "find_first_bit_loop n shift =
     (let b = last_bit (unat (drop_bit (unat shift) n AND 0xF))
      in if b = 32 then find_first_bit_loop n (shift + 4) else Some (shift + b))"

definition my_find_first_bit :: "ulonglong \<Rightarrow> uint32 option" where
  "my_find_first_bit n = (if n = 0 then Some 64 else find_first_bit_loop n 0)"

section \<open>Correctness\<close>

subsection \<open>Logarithms\<close>

text \<open>The contract of a logarithm routine: the result is the position of the highest set
  bit, and 0 for the argument 0.\<close>

definition is_log2 :: "nat \<Rightarrow> uint32 \<Rightarrow> bool" where
  "is_log2 v r \<longleftrightarrow> (if v = 0 then r = 0 else 2 ^ unat r \<le> v \<and> v < 2 ^ Suc (unat r))"

lemma is_log2_small: "is_log2 v r \<Longrightarrow> v < 2 ^ k \<Longrightarrow> k \<le> 64 \<Longrightarrow> v \<noteq> 0 \<Longrightarrow> unat r < k"
  unfolding is_log2_def using power_strict_increasing_iff [of "2::nat" "unat r" k]
  by (metis le_less_trans one_less_numeral_iff semiring_norm(76))

text \<open>One halving step, shared by every width: if the high half is non-zero its logarithm is
  shifted up by the half width, otherwise the low half is used as it is.\<close>

lemma is_log2_high:
  assumes "is_log2 (v div 2 ^ k) r" and "v div 2 ^ k \<noteq> 0" and "v < 2 ^ (2 * k)" and "k \<le> 32"
  shows "is_log2 v (r + of_nat k)"
proof -
  have "v div 2 ^ k < 2 ^ k"
    using assms(3) by (simp add: less_mult_imp_div_less mult_2 power_add)
  then have "unat r < k" using assms is_log2_small [of "v div 2 ^ k" r k] by simp
  then have r: "unat (r + of_nat k) = unat r + k"
    using assms(4) by (simp add: unat_word_ariths unat_of_nat)
  from assms(1,2) have lo: "2 ^ unat r \<le> v div 2 ^ k" and hi: "v div 2 ^ k < 2 ^ Suc (unat r)"
    by (simp_all add: is_log2_def)
  from lo have "2 ^ unat r * 2 ^ k \<le> v" by (simp add: less_eq_div_iff_mult_less_eq)
  moreover from hi have "v < 2 ^ Suc (unat r) * 2 ^ k"
    by (simp add: div_less_iff_less_mult)
  moreover from assms(2) have "v \<noteq> 0" by (cases v) auto
  ultimately show ?thesis by (simp add: is_log2_def r power_add)
qed

text \<open>A test against the mask of the high half is a comparison with the half's power.\<close>

lemma and_high_mask_iff:
  fixes v m :: "'a::len word"
  assumes "m = NOT (mask k)"
  shows "v AND m \<noteq> 0 \<longleftrightarrow> unat v div 2 ^ k \<noteq> 0"
proof -
  have "v AND m = 0 \<longleftrightarrow> bit_set v - bit_set (mask k :: 'a word) = {}"
    by (simp only: assms bit_set_and_not flip: bit_set_empty_iff)
  also have "\<dots> \<longleftrightarrow> bit_set (drop_bit k v) = {}"
    by (auto simp: bit_simps set_eq_iff dest: bit_imp_le_length)
      (metis add.commute le_add_diff_inverse not_le)
  also have "\<dots> \<longleftrightarrow> unat (drop_bit k v) = 0" by (simp add: unat_0_iff)
  finally show ?thesis by (simp add: unat_drop_bit)
qed

lemma is_log2_step:
  fixes v :: "'a::len word" and h :: "'b::len word"
  assumes "LENGTH('a) = 2 * k" and "k \<le> LENGTH('b)" and "k \<le> 32" and m: "m = NOT (mask k)"
    and f: "\<And>w :: 'b word. is_log2 (unat w) (f w)"
  shows "is_log2 (unat v)
    (if v AND m \<noteq> 0 then f (ucast (drop_bit k v)) + of_nat k else f (ucast v))"
proof (cases "unat v div 2 ^ k = 0")
  case True
  then have "unat v < 2 ^ k" by (simp add: div_eq_0_iff)
  also have "(2::nat) ^ k \<le> 2 ^ LENGTH('b)" using assms(2) by simp
  finally have "unat (ucast v :: 'b word) = unat v" by (simp add: unsigned_ucast_eq take_bit_nat_eq_self)
  then show ?thesis using f [of "ucast v"] True and_high_mask_iff [OF m, of v] by simp
next
  case False
  have v: "unat v < 2 ^ (2 * k)" using unat_less [of v] assms(1) by simp
  then have "unat v div 2 ^ k < 2 ^ k" by (simp add: less_mult_imp_div_less mult_2 power_add)
  also have "(2::nat) ^ k \<le> 2 ^ LENGTH('b)" using assms(2) by simp
  finally have u: "unat (ucast (drop_bit k v) :: 'b word) = unat v div 2 ^ k"
    by (simp add: unsigned_ucast_eq take_bit_nat_eq_self unat_drop_bit)
  have "is_log2 (unat v div 2 ^ k) (f (ucast (drop_bit k v)))"
    using f [of "ucast (drop_bit k v)"] by (simp add: u)
  from is_log2_high [OF this False v assms(3)] show ?thesis
    using False and_high_mask_iff [OF m, of v] by simp
qed

lemma my_bit_log2_hex_digit_cases:
  "unat v < 16 \<Longrightarrow> is_log2 (unat v) (my_bit_log2_hex_digit v)"
proof -
  assume "unat v < 16"
  then have "unat v \<in> set [0..<16]" by simp
  moreover have "\<forall>n \<in> set [0..<16]. is_log2 n (my_bit_log2_hex_digit (of_nat n))"
    by code_simp
  ultimately have "is_log2 (unat v) (my_bit_log2_hex_digit (of_nat (unat v)))" by blast
  then show ?thesis by simp
qed

lemma my_bit_log2_uint8_is_log2: "is_log2 (unat v) (my_bit_log2_uint8 v)"
proof (cases "unat v div 2 ^ 4 = 0")
  case True
  then have "unat v < 16" by (simp add: div_eq_0_iff)
  with True show ?thesis
    using my_bit_log2_hex_digit_cases and_high_mask_iff [of "0xF0" 4 v]
    by (simp add: my_bit_log2_uint8_def mask_eq_exp_minus_1)
next
  case False
  have v: "unat v < 2 ^ (2 * 4)" using unat_less [of v] by simp
  have "is_log2 (unat v div 2 ^ 4) (my_bit_log2_hex_digit (drop_bit 4 v))"
    using my_bit_log2_hex_digit_cases [of "drop_bit 4 v"] v by (simp add: unat_drop_bit)
  from is_log2_high [OF this False v] show ?thesis
    using False and_high_mask_iff [of "0xF0" 4 v]
    by (simp add: my_bit_log2_uint8_def mask_eq_exp_minus_1)
qed

lemma my_bit_log2_uint16_is_log2: "is_log2 (unat v) (my_bit_log2_uint16 v)"
  using is_log2_step [of 8 "0xFF00" my_bit_log2_uint8 v]
  by (simp add: my_bit_log2_uint16_def my_bit_log2_uint8_is_log2 mask_eq_exp_minus_1 split: if_splits)

lemma my_bit_log2_uint32_is_log2: "is_log2 (unat v) (my_bit_log2_uint32 v)"
  using is_log2_step [of 16 "0xFFFF0000" my_bit_log2_uint16 v]
  by (simp add: my_bit_log2_uint32_def my_bit_log2_uint16_is_log2 mask_eq_exp_minus_1 split: if_splits)

lemma my_bit_log2_uint64_is_log2: "is_log2 (unat v) (my_bit_log2_uint64 v)"
  using is_log2_step [of 32 "0xFFFFFFFF00000000" my_bit_log2_uint32 v]
  by (simp add: my_bit_log2_uint64_def my_bit_log2_uint32_is_log2 mask_eq_exp_minus_1 split: if_splits)

subsection \<open>Smearing the highest bit\<close>

definition smear :: "uint32 \<Rightarrow> uint32" where
  "smear v =
     (let v = v OR drop_bit 1 v; v = v OR drop_bit 2 v; v = v OR drop_bit 4 v;
          v = v OR drop_bit 8 v; v = v OR drop_bit 16 v in v)"

text \<open>After a smearing step of distance \<open>m\<close>, a bit is set when one of the next \<open>2 * m\<close> bits was.\<close>

definition window :: "uint32 \<Rightarrow> nat \<Rightarrow> uint32 \<Rightarrow> bool" where
  "window v m w \<longleftrightarrow> (\<forall>i. bit w i \<longleftrightarrow> (\<exists>j. i \<le> j \<and> j < i + m \<and> bit v j))"

lemma window_step:
  assumes "window v m w" and n: "n = m + m"
  shows "window v n (w OR drop_bit m w)"
  unfolding window_def
proof (intro allI iffI)
  fix i assume "bit (w OR drop_bit m w) i"
  then have "bit w i \<or> bit w (m + i)" by (simp add: bit_simps)
  then obtain k where k: "k \<le> m" "bit w (k + i)"
    using that [of 0] that [of m] by auto
  with assms(1) obtain j where "k + i \<le> j" "j < k + i + m" "bit v j"
    unfolding window_def by blast
  with k(1) n show "\<exists>j\<ge>i. j < i + n \<and> bit v j" by (intro exI [of _ j]) simp
next
  fix i assume "\<exists>j\<ge>i. j < i + n \<and> bit v j"
  then obtain j where j: "i \<le> j" "j < i + n" "bit v j" by blast
  show "bit (w OR drop_bit m w) i"
  proof (cases "j < i + m")
    case True
    with j assms show ?thesis by (auto simp: window_def bit_simps)
  next
    case False
    with j n have "m + i \<le> j" "j < m + i + m" by auto
    with j assms have "bit w (m + i)" by (auto simp: window_def)
    then show ?thesis by (simp add: bit_simps)
  qed
qed

lemma bit_smear [bits_of]: "bit (smear v) i \<longleftrightarrow> (\<exists>j \<ge> i. bit v j)"
proof -
  have start: "window v 1 v" by (auto simp: window_def le_less_Suc_eq)
  have "window v 32 (smear v)"
    unfolding smear_def Let_def by (intro window_step start) simp_all
  then have "bit (smear v) i \<longleftrightarrow> (\<exists>j\<ge>i. j < i + 32 \<and> bit v j)" by (simp add: window_def)
  also have "\<dots> \<longleftrightarrow> (\<exists>j \<ge> i. bit v j)" 
    using bit_less_32 [of v] by (metis trans_less_add2)
  finally show ?thesis .
qed

lemma smear_eq_mask:
  assumes "v \<noteq> 0" shows "smear v = mask (Suc (Max (bit_set v)))"
proof -
  have ne: "bit_set v \<noteq> {}" using assms by simp
  have *: "(\<exists>j \<ge> i. bit v j) \<longleftrightarrow> i \<le> Max (bit_set v)" for i
    using Max_ge_iff [OF finite_bit_set ne, of i] by auto
  have "Max (bit_set v) < 32"
    using Max_in [OF finite_bit_set ne] bit_set_subset [of v] by auto
  then show ?thesis
    by (auto simp: bit_eq_iff bits_of * bit_simps less_Suc_eq_le)
qed

lemma smear_0 [simp]: "smear 0 = 0"
  by (simp add: smear_def)

lemma my_round_up_to_next_power_smear: "my_round_up_to_next_power v = smear (v - 1) + 1"
  by (simp add: my_round_up_to_next_power_def smear_def Let_def)

lemma my_clear_highest_bit_smear: "my_clear_highest_bit v = v AND smear (drop_bit 1 v)"
  by (simp add: my_clear_highest_bit_def smear_def Let_def)

lemma bit_set_my_clear_highest_bit:
  "bit_set (my_clear_highest_bit v) = bit_set v - {Max (bit_set v)}" if "v \<noteq> 0"
proof -
  have ne: "bit_set v \<noteq> {}" using that by simp
  have *: "bit (smear (drop_bit (Suc 0) v)) i \<longleftrightarrow> i < Max (bit_set v)" for i
  proof -
    have "bit (smear (drop_bit (Suc 0) v)) i \<longleftrightarrow> (\<exists>j. i < j \<and> bit v j)"
      by (simp add: bits_of bit_simps) (metis Suc_le_D Suc_le_eq Suc_le_mono)
    also have "\<dots> \<longleftrightarrow> i < Max (bit_set v)"
      using Max_gr_iff [OF finite_bit_set ne, of i] by auto
    finally show ?thesis .
  qed
  have "bit v i \<and> i < Max (bit_set v) \<longleftrightarrow> bit v i \<and> i \<noteq> Max (bit_set v)" for i
    by (metis bit_le_Max le_neq_implies_less less_irrefl)
  then show ?thesis
    by (simp add: set_eq_iff my_clear_highest_bit_smear bit_and_iff * del: Max_less_iff Max_gr_iff)
qed

text \<open>The highest bit read as a power of two.\<close>

lemma unat_bounds_Max_bit:
  fixes v :: "'a::len word" assumes "v \<noteq> 0"
  shows "2 ^ Max (bit_set v) \<le> unat v \<and> unat v < 2 ^ Suc (Max (bit_set v))"
proof -
  let ?h = "Max (bit_set v)"
  have ne: "bit_set v \<noteq> {}" using assms by simp
  have h: "bit v ?h" using Max_in [OF finite_bit_set ne] by simp
  have "bit (unat v) ?h" using h by (simp add: bit_unsigned_iff)
  then have "odd (unat v div 2 ^ ?h)" by (simp add: bit_iff_odd)
  then have lo: "2 ^ ?h \<le> unat v"
    by (metis div_less even_zero not_le)
  have "\<not> bit v i" if "Suc ?h \<le> i" for i
    using that bit_le_Max [of v i] by linarith
  then have "take_bit (Suc ?h) v = v"
    by (auto simp: bit_eq_iff bit_simps) (meson not_less_eq_eq not_le)
  then have "unat v = take_bit (Suc ?h) (unat v)" by (metis unsigned_take_bit_eq)
  then have "unat v < 2 ^ Suc ?h" by (metis take_bit_nat_less_exp)
  with lo show ?thesis by simp
qed

subsection \<open>Population count\<close>

text \<open>The word is read as a number in base 16. \<open>nibbles n f x\<close> applies \<open>f\<close> to each of the
  lowest \<open>n\<close> hexadecimal digits, \<open>repeat_digit n d\<close> is the mask with \<open>n\<close> digits \<open>d\<close>.\<close>

fun nibbles :: "nat \<Rightarrow> (nat \<Rightarrow> nat) \<Rightarrow> nat \<Rightarrow> nat" where
  "nibbles 0 f x = 0"
| "nibbles (Suc n) f x = f (x mod 16) + 16 * nibbles n f (x div 16)"

fun repeat_digit :: "nat \<Rightarrow> nat \<Rightarrow> nat" where
  "repeat_digit 0 d = 0"
| "repeat_digit (Suc n) d = d + 16 * repeat_digit n d"

definition bit_sum :: "nat \<Rightarrow> nat \<Rightarrow> nat" where
  "bit_sum n x = (\<Sum>i<n. of_bool (bit x i))"

lemma and_nibble:
  "(x::nat) AND y = (x mod 16 AND y mod 16) + 16 * (x div 16 AND y div 16)"
proof -
  have "(x AND y) mod 16 = x mod 16 AND y mod 16"
    using take_bit_and [of 4 x y] by (simp add: take_bit_eq_mod)
  moreover have "(x AND y) div 16 = x div 16 AND y div 16"
    using drop_bit_and [of 4 x y] by (simp add: drop_bit_eq_div)
  ultimately show ?thesis using mult_div_mod_eq [of 16 "x AND y"] by simp
qed

lemma and_nibble_cons:
  "a < 16 \<Longrightarrow> c < 16 \<Longrightarrow> (a + 16 * b) AND (c + 16 * d) = (a AND c) + 16 * ((b::nat) AND d)"
  using and_nibble [of "a + 16 * b" "c + 16 * d"] by simp

lemma nibbles_comp:
  "(\<And>y. y < 16 \<Longrightarrow> f y < 16) \<Longrightarrow> nibbles n g (nibbles n f x) = nibbles n (\<lambda>y. g (f y)) x"
  by (induction n arbitrary: x) simp_all

lemma nibbles_cong:
  "(\<And>y. y < 16 \<Longrightarrow> f y = g y) \<Longrightarrow> nibbles n f x = nibbles n g x"
  by (induction n arbitrary: x) simp_all

text \<open>Stage 1 and 2 of the routine work inside each hexadecimal digit: what a shift brings in
  from the neighbour is masked out.\<close>

definition stage1 :: "nat \<Rightarrow> nat" where "stage1 y = y - (y div 2 AND 5)"
definition stage2 :: "nat \<Rightarrow> nat" where "stage2 y = (y AND 3) + (y div 4 AND 3)"

lemma repeat_digit_mod: "repeat_digit (Suc n) 5 mod 16 = 5" "repeat_digit (Suc n) 3 mod 16 = 3"
  and repeat_digit_div: "repeat_digit (Suc n) 5 div 16 = repeat_digit n 5"
    "repeat_digit (Suc n) 3 div 16 = repeat_digit n 3"
  by simp_all

lemma div_swap: "(x::nat) div a div b = x div b div a"
  by (metis div_mult2_eq mult.commute)

lemma shift1_mask5: "(x div 2) mod 16 AND 5 = (x mod 16) div 2 AND (5::nat)"
proof -
  have "\<forall>y \<in> set [0..<32]. (y div 2) mod 16 AND 5 = (y mod 16) div 2 AND (5::nat)" by code_simp
  moreover have "x mod 32 \<in> set [0..<32]" by (simp only: set_upt atLeastLessThan_iff) simp
  ultimately have "((x mod 32) div 2) mod 16 AND 5 = ((x mod 32) mod 16) div 2 AND 5"
    by (rule bspec)
  moreover have "((x mod 32) div 2) mod 16 = (x div 2) mod 16"
    using mod_mult2_eq [of x 2 16] by simp
  moreover have "(x mod 32) mod 16 = x mod 16" by (rule mod_mod_cancel) simp
  ultimately show ?thesis by (simp only:)
qed

lemma shift2_mask3: "(x div 4) mod 16 AND 3 = (x mod 16) div 4 AND (3::nat)"
proof -
  have "\<forall>y \<in> set [0..<64]. (y div 4) mod 16 AND 3 = (y mod 16) div 4 AND (3::nat)" by code_simp
  moreover have "x mod 64 \<in> set [0..<64]" by (simp only: set_upt atLeastLessThan_iff) simp
  ultimately have "((x mod 64) div 4) mod 16 AND 3 = ((x mod 64) mod 16) div 4 AND 3"
    by (rule bspec)
  moreover have "((x mod 64) div 4) mod 16 = (x div 4) mod 16"
    using mod_mult2_eq [of x 4 16] by simp
  moreover have "(x mod 64) mod 16 = x mod 16" by (rule mod_mod_cancel) simp
  ultimately show ?thesis by (simp only:)
qed

lemma and_le_left: "(x::nat) AND y \<le> x"
  using AND_upper1 [of "int x" "int y"] by (simp flip: of_nat_and_eq)

lemma diff_digits:
  "x = lo + 16 * hi \<Longrightarrow> z = a + 16 * b \<Longrightarrow> a \<le> lo \<Longrightarrow> b \<le> hi \<Longrightarrow>
    x - z = (lo - a) + 16 * (hi - b :: nat)"
  by simp

lemma stage1_all: "x < 16 ^ n \<Longrightarrow> x - (x div 2 AND repeat_digit n 5) = nibbles n stage1 x"
proof (induction n arbitrary: x)
  case 0
  then show ?case by simp
next
  case (Suc n)
  let ?lo = "x mod 16" and ?hi = "x div 16"
  have IH: "?hi - (?hi div 2 AND repeat_digit n 5) = nibbles n stage1 ?hi"
    using Suc.prems by (intro Suc.IH) (simp add: less_mult_imp_div_less mult.commute)
  have "x - (x div 2 AND repeat_digit (Suc n) 5)
      = (?lo - (?lo div 2 AND 5)) + 16 * (?hi - (?hi div 2 AND repeat_digit n 5))"
  proof (rule diff_digits)
    show "x = ?lo + 16 * ?hi" by (rule mod_mult_div_eq [symmetric])
    show "x div 2 AND repeat_digit (Suc n) 5 = (?lo div 2 AND 5) + 16 * (?hi div 2 AND repeat_digit n 5)"
      by (subst and_nibble) (simp only: repeat_digit_mod repeat_digit_div shift1_mask5 div_swap [of x 2 16])
    show "?lo div 2 AND 5 \<le> ?lo" "?hi div 2 AND repeat_digit n 5 \<le> ?hi"
      by (meson and_le_left div_le_dividend le_trans)+
  qed
  then show ?case by (simp only: IH nibbles.simps stage1_def [of "x mod 16"])
qed

lemma stage2_all:
  "(x AND repeat_digit n 3) + (x div 4 AND repeat_digit n 3) = nibbles n stage2 x"
proof (induction n arbitrary: x)
  case 0
  then show ?case by simp
next
  case (Suc n)
  have "x AND repeat_digit (Suc n) 3 = (x mod 16 AND 3) + 16 * (x div 16 AND repeat_digit n 3)"
    by (subst and_nibble) (simp only: repeat_digit_mod repeat_digit_div)
  moreover have "x div 4 AND repeat_digit (Suc n) 3
      = (x mod 16 div 4 AND 3) + 16 * (x div 16 div 4 AND repeat_digit n 3)"
    by (subst and_nibble) (simp only: repeat_digit_mod repeat_digit_div shift2_mask3 div_swap [of x 4 16])
  ultimately show ?case using Suc.IH [of "x div 16"]
    unfolding nibbles.simps stage2_def by linarith
qed

lemma stages_count_nibble: "y < 16 \<Longrightarrow> stage1 y < 16 \<and> stage2 (stage1 y) = bit_sum 4 y"
proof -
  assume "y < 16"
  then have "y \<in> set [0..<16]" by simp
  moreover have "\<forall>y \<in> set [0..<16]. stage1 y < 16 \<and> stage2 (stage1 y) = bit_sum 4 y" by code_simp
  ultimately show ?thesis by (rule bspec [rotated])
qed

lemma bit_sum_Suc: "bit_sum (Suc n) x = of_bool (odd x) + bit_sum n (x div 2)"
  unfolding bit_sum_def by (subst sum.lessThan_Suc_shift) (simp add: bit_Suc bit_0)

lemma bit_sum_nibble:
  "bit_sum (Suc (Suc (Suc (Suc n)))) x = bit_sum 4 (x mod 16) + bit_sum n (x div 16)"
proof -
  have "bit_sum 4 (x mod 16) = bit_sum 4 x"
    unfolding bit_sum_def by (rule sum.cong) (simp_all add: bit_simps flip: take_bit_eq_mod [of 4 x, simplified])
  moreover have "bit_sum 4 x = of_bool (odd x) + of_bool (odd (x div 2))
      + of_bool (odd (x div 2 div 2)) + of_bool (odd (x div 2 div 2 div 2))"
    unfolding numeral_eq_Suc by (simp only: bit_sum_Suc numeral_eq_Suc pred_numeral_simps BitM.simps)
      (simp add: bit_sum_def numeral_eq_Suc)
  moreover have "x div 16 = x div 2 div 2 div 2 div 2" by (simp only: flip: div_mult2_eq) simp
  ultimately show ?thesis by (simp only: bit_sum_Suc add.assoc)
qed

lemma bit_sum_le: "bit_sum n x \<le> n"
  unfolding bit_sum_def using sum_bounded_above [of "{..<n}" "\<lambda>i. of_bool (bit x i)" "1::nat"] by simp

text \<open>Stage 3 adds the digits of neighbouring bytes; the multiplication sums the four bytes
  into the top one. No sum overflows its lane because each digit is at most 4.\<close>

lemma byte3_of_sum:
  assumes "L < 2 ^ 24" and "S < 256"
  shows "(L + 2 ^ 24 * S + 2 ^ 32 * H) mod 2 ^ 32 div 2 ^ 24 = (S :: nat)"
proof -
  have "(L + 2 ^ 24 * S + 2 ^ 32 * H) mod 2 ^ 32 = L + 2 ^ 24 * S"
    using assms by (subst mod_mult_self2) simp
  then show ?thesis using assms by simp
qed

lemma horizontal_sum:
  assumes "c0 \<le> 4" "c1 \<le> 4" "c2 \<le> 4" "c3 \<le> 4" "c4 \<le> 4" "c5 \<le> 4" "c6 \<le> 4" "c7 \<le> (4::nat)"
    and v: "v = c0 + 16 * (c1 + 16 * (c2 + 16 * (c3 + 16 * (c4 + 16 * (c5 + 16 * (c6 + 16 * c7))))))"
  shows "((v + v div 16) AND 0x0F0F0F0F) * 0x01010101 mod 2 ^ 32 div 2 ^ 24
       = c0 + c1 + c2 + c3 + c4 + c5 + c6 + c7"
proof -
  have "v div 16 = c1 + 16 * (c2 + 16 * (c3 + 16 * (c4 + 16 * (c5 + 16 * (c6 + 16 * c7)))))"
    using assms by simp
  then have sum: "v + v div 16 = (c0 + c1) + 16 * ((c1 + c2) + 16 * ((c2 + c3) + 16 * ((c3 + c4)
      + 16 * ((c4 + c5) + 16 * ((c5 + c6) + 16 * ((c6 + c7) + 16 * c7))))))"
    using v by simp
  have low: "a AND 15 = a" if "a < 16" for a :: nat
    using that take_bit_eq_mask [of 4 a] by (simp add: take_bit_nat_eq_self mask_eq_exp_minus_1)
  have mask: "(0x0F0F0F0F :: nat) = 15 + 16 * (0 + 16 * (15 + 16 * (0 + 16 * (15 + 16 * (0 + 16 * (15 + 16 * 0))))))"
    by simp
  have "(v + v div 16) AND 0x0F0F0F0F
      = (c0 + c1) + 256 * (c2 + c3) + 65536 * (c4 + c5) + 16777216 * (c6 + c7)"
    unfolding sum mask using assms(1-8) by (simp only: and_nibble_cons low) (simp add: and_nibble_cons low)
  then have "((v + v div 16) AND 0x0F0F0F0F) * 0x01010101
      = ((c0 + c1) + 256 * (c0 + c1 + c2 + c3) + 65536 * (c0 + c1 + c2 + c3 + c4 + c5))
        + 2 ^ 24 * (c0 + c1 + c2 + c3 + c4 + c5 + c6 + c7)
        + 2 ^ 32 * ((c2 + c3 + c4 + c5 + c6 + c7) + 256 * (c4 + c5 + c6 + c7) + 65536 * (c6 + c7))"
    by (simp add: algebra_simps)
  also have "\<dots> mod 2 ^ 32 div 2 ^ 24 = c0 + c1 + c2 + c3 + c4 + c5 + c6 + c7"
    using assms(1-8) by (intro byte3_of_sum) simp_all
  finally show ?thesis .
qed

lemma repeat_digit_8: "repeat_digit 8 5 = 0x55555555" "repeat_digit 8 3 = 0x33333333"
proof -
  have "8 = Suc (Suc (Suc (Suc (Suc (Suc (Suc (Suc 0)))))))" by simp
  then show "repeat_digit 8 5 = 0x55555555" "repeat_digit 8 3 = 0x33333333"
    by (simp_all only: repeat_digit.simps) simp_all
qed

lemma nibbles_8: "nibbles 8 f x = f (x mod 16) + 16 * (f (x div 16 mod 16) + 16 * (f (x div 16 div 16 mod 16)
    + 16 * (f (x div 16 div 16 div 16 mod 16) + 16 * (f (x div 16 div 16 div 16 div 16 mod 16)
    + 16 * (f (x div 16 div 16 div 16 div 16 div 16 mod 16)
    + 16 * (f (x div 16 div 16 div 16 div 16 div 16 div 16 mod 16)
    + 16 * f (x div 16 div 16 div 16 div 16 div 16 div 16 div 16 mod 16)))))))"
proof -
  have "8 = Suc (Suc (Suc (Suc (Suc (Suc (Suc (Suc 0)))))))" by simp
  then show ?thesis by (simp only: nibbles.simps mult_0_right add_0_right)
qed

lemma bit_sum_32: "bit_sum 32 x = bit_sum 4 (x mod 16) + bit_sum 4 (x div 16 mod 16)
    + bit_sum 4 (x div 16 div 16 mod 16) + bit_sum 4 (x div 16 div 16 div 16 mod 16)
    + bit_sum 4 (x div 16 div 16 div 16 div 16 mod 16)
    + bit_sum 4 (x div 16 div 16 div 16 div 16 div 16 mod 16)
    + bit_sum 4 (x div 16 div 16 div 16 div 16 div 16 div 16 mod 16)
    + bit_sum 4 (x div 16 div 16 div 16 div 16 div 16 div 16 div 16 mod 16)"
proof -
  have z: "bit_sum 0 y = 0" for y by (simp add: bit_sum_def)
  have *: "bit_sum (n + 4) y = bit_sum 4 (y mod 16) + bit_sum n (y div 16)" for n y
    using bit_sum_nibble [of n y] by (simp only: numeral_2_eq_2 numeral_Bit0 add_Suc_right add_0_right numeral_One One_nat_def)
  have "(32::nat) = 0 + 4 + 4 + 4 + 4 + 4 + 4 + 4 + 4" by simp
  then show ?thesis by (simp only: * z add_0_right)
qed

lemma nibble_bound:
  assumes "\<And>y. f y \<le> (4::nat)"
  shows "f a + 16 * (f b + 16 * (f c + 16 * (f d + 16 * (f e + 16 * (f g + 16 * (f h + 16 * f i)))))) \<le> 0x44444444"
  using assms [of a] assms [of b] assms [of c] assms [of d] assms [of e] assms [of g] assms [of h] assms [of i]
  by simp

lemma pop_count_bit_sum: "pop_count (v :: uint32) = bit_sum 32 (unat v)"
proof -
  have "bit_set v = {i \<in> {..<32}. bit (unat v) i}"
    using bit_less_32 [of v] by (auto simp: bit_unsigned_iff)
  then show ?thesis
    unfolding pop_count_def bit_sum_def by (simp add: sum.If_cases of_bool_def Int_def)
qed

lemma my_count_bits_uint32_pop_count: "unat (my_count_bits_uint32 v) = pop_count v"
proof -
  let ?x = "unat v"
  define v1 where "v1 = v - (drop_bit 1 v AND 0x55555555)"
  define v2 where "v2 = (v1 AND 0x33333333) + (drop_bit 2 v1 AND 0x33333333)"
  define d where "d i = bit_sum 4 (?x div 16 ^ i mod 16)" for i
  have x: "?x < 16 ^ 8" using unat_less [of v] by simp
  have "drop_bit 1 v AND 0x55555555 \<le> v"
    by (simp add: word_le_nat_alt unsigned_and_eq unat_drop_bit le_trans [OF and_le_left])
  then have "unat v1 = ?x - (?x div 2 AND repeat_digit 8 5)"
    by (simp add: v1_def unat_sub unsigned_and_eq unat_drop_bit repeat_digit_8)
  then have v1: "unat v1 = nibbles 8 stage1 ?x" using stage1_all [OF x] by simp
  have "(unat v1 AND 0x33333333) + (unat v1 div 4 AND 0x33333333) < 2 ^ 32"
    using and_le_left [of "0x33333333" "unat v1"] and_le_left [of "0x33333333" "unat v1 div 4"]
    by (simp add: and.commute)
  then have "unat v2 = (unat v1 AND repeat_digit 8 3) + (unat v1 div 4 AND repeat_digit 8 3)"
    by (simp add: v2_def unat_word_ariths unsigned_and_eq unat_drop_bit repeat_digit_8)
  also have "\<dots> = nibbles 8 stage2 (nibbles 8 stage1 ?x)" by (simp only: stage2_all v1)
  also have "\<dots> = nibbles 8 (bit_sum 4) ?x"
    using stages_count_nibble by (simp add: nibbles_comp cong: nibbles_cong)
  finally have v2: "unat v2 = nibbles 8 (bit_sum 4) ?x" .
  have le: "bit_sum 4 y \<le> 4" for y by (rule bit_sum_le)
  have "unat v2 \<le> 0x44444444" using le unfolding v2 nibbles_8 by (rule nibble_bound) 
  then have "unat v2 + unat v2 div 16 < 2 ^ 32" by simp
  then have "unat (my_count_bits_uint32 v)
      = ((unat v2 + unat v2 div 16) AND 0x0F0F0F0F) * 0x01010101 mod 2 ^ 32 div 2 ^ 24"
    unfolding my_count_bits_uint32_def Let_def v1_def [symmetric] v2_def [symmetric]
    by (simp add: unat_word_ariths unsigned_and_eq unat_drop_bit)
  also have "\<dots> = bit_sum 32 ?x"
    unfolding bit_sum_32 by (rule horizontal_sum [OF _ _ _ _ _ _ _ _ v2 [unfolded nibbles_8]]) (rule le)+
  finally show ?thesis by (simp only: pop_count_bit_sum)
qed

lemma my_count_bits_pop_count: "unat (my_count_bits x) = pop_count x"
proof -
  let ?lo = "ucast x :: uint32" and ?hi = "ucast (drop_bit 32 x) :: uint32"
  have lo: "bit ?lo i \<longleftrightarrow> i < 32 \<and> bit x i" for i by (auto simp: bit_simps)
  have hi: "bit ?hi i \<longleftrightarrow> bit x (32 + i)" for i
    using bit_less_64 [of x "32 + i"] by (auto simp: bit_simps)
  have "bit_set x = bit_set ?lo \<union> (\<lambda>i. 32 + i) ` bit_set ?hi"
  proof (rule set_eqI)
    fix i show "i \<in> bit_set x \<longleftrightarrow> i \<in> bit_set ?lo \<union> (\<lambda>i. 32 + i) ` bit_set ?hi"
      by (cases "i < 32") (auto simp: lo hi image_iff intro!: bexI [of _ "i - 32"])
  qed
  moreover have "bit_set ?lo \<inter> (\<lambda>i. 32 + i) ` bit_set ?hi = {}" by (auto simp: lo)
  ultimately have "pop_count x = pop_count ?lo + pop_count ?hi"
    unfolding pop_count_def by (simp add: card_Un_disjoint card_image)
  moreover have "pop_count ?lo \<le> 32" "pop_count ?hi \<le> 32"
    unfolding pop_count_def using card_mono [OF _ bit_set_subset [of ?lo]]
      card_mono [OF _ bit_set_subset [of ?hi]] by simp_all
  ultimately show ?thesis
    by (simp add: my_count_bits_def unat_word_ariths my_count_bits_uint32_pop_count)
qed

text \<open>The parallel bit count of \<^verbatim>\<open>my_count_bits\<close> returns the number of set bits of its 64-bit
  argument, for every argument.\<close>

theorem my_count_bits_correct:
  "unat (my_count_bits x) = pop_count x \<and> unat (my_count_bits_uint32 v) = pop_count v"
  by (simp add: my_count_bits_pop_count my_count_bits_uint32_pop_count)

subsection \<open>Rounding, clearing and reversing\<close>

lemma smear_minus_1_power:
  assumes "1 < unat v"
  shows "\<exists>h < 32. my_round_up_to_next_power v = 2 ^ Suc h \<and> 2 ^ h < unat v \<and> unat v \<le> 2 ^ Suc h"
proof -
  let ?w = "v - 1"
  have w: "unat ?w = unat v - 1" using assms by (intro unat_minus_one) auto
  with assms have ne: "?w \<noteq> 0" by (auto simp flip: unat_0_iff)
  let ?h = "Max (bit_set ?w)"
  have "?h \<in> bit_set ?w" using ne by (intro Max_in) auto
  then have "?h < 32" using bit_less_32 by auto
  moreover have "my_round_up_to_next_power v = 2 ^ Suc ?h"
    using smear_eq_mask [OF ne] by (simp add: my_round_up_to_next_power_smear mask_eq_exp_minus_1)
  moreover from unat_bounds_Max_bit [OF ne] w assms have "2 ^ ?h < unat v \<and> unat v \<le> 2 ^ Suc ?h"
    by linarith
  ultimately show ?thesis by blast
qed

text \<open>\<^verbatim>\<open>my_round_up_to_next_power\<close> returns the least power of two that is not below its argument
  when the argument lies between 1 and 2 to the 31; the argument 0 and every argument above
  2 to the 31, for which no 32-bit answer exists, give 0.\<close>

theorem my_round_up_to_next_power_correct:
  "unat (my_round_up_to_next_power v) =
     (if 0 < unat v \<and> unat v \<le> 2 ^ 31 then 2 ^ (LEAST k. unat v \<le> 2 ^ k) else 0)"
proof -
  consider "unat v = 0" | "unat v = 1" | "1 < unat v" by linarith
  then show ?thesis
  proof cases
    case 1
    then have "v = 0" by (simp add: unat_0_iff)
    moreover have "smear (- 1) = - 1"
      by (auto simp: bit_eq_iff bits_of)
    ultimately show ?thesis by (simp add: my_round_up_to_next_power_smear)
  next
    case 2
    then have "v = 1" by (metis unat_1 word_unat_eq_iff)
    moreover have "(LEAST k. (1::nat) \<le> 2 ^ k) = 0" by (rule Least_equality) auto
    ultimately show ?thesis by (simp add: my_round_up_to_next_power_smear)
  next
    case 3
    from smear_minus_1_power [OF this] obtain h where h: "h < 32"
      "my_round_up_to_next_power v = 2 ^ Suc h" "2 ^ h < unat v" "unat v \<le> 2 ^ Suc h" by blast
    have least: "(LEAST k. unat v \<le> 2 ^ k) = Suc h"
    proof (rule Least_equality)
      show "unat v \<le> 2 ^ Suc h" by fact
      fix k assume "unat v \<le> 2 ^ k"
      with h(3) have "(2::nat) ^ h < 2 ^ k" by (rule less_le_trans)
      then show "Suc h \<le> k" by simp
    qed
    show ?thesis
    proof (cases "h = 31")
      case True
      then show ?thesis using h by simp
    next
      case False
      with h(1) have "Suc h \<le> 31" by simp
      then have "(2::nat) ^ Suc h \<le> 2 ^ 31" by (intro power_increasing) simp_all
      then have "unat v \<le> 2 ^ 31" using h(4) by linarith
      moreover have "unat (2 ^ Suc h :: uint32) = 2 ^ Suc h"
        using \<open>Suc h \<le> 31\<close> by (intro unat_exp) simp
      ultimately show ?thesis using 3 h(2) least by simp
    qed
  qed
qed

text \<open>\<^verbatim>\<open>my_clear_highest_bit\<close> clears exactly the highest set bit and keeps every other bit.\<close>

theorem my_clear_highest_bit_correct:
  "bit_set (my_clear_highest_bit v) = bit_set v - {Max (bit_set v)}"
  by (cases "v = 0") (simp_all add: bit_set_my_clear_highest_bit, simp add: my_clear_highest_bit_def)

definition reverses_byte :: "(uchar \<Rightarrow> uchar) \<Rightarrow> bool" where
  "reverses_byte table \<longleftrightarrow> (\<forall>b. \<forall>i < 8. bit (table b) i = bit b (7 - i))"

text \<open>With the reversal table holding the reversal of every byte, \<^verbatim>\<open>my_reverse_bits\<close> reverses all
  32 bits of its argument.\<close>

theorem my_reverse_bits_correct:
  assumes "reverses_byte table" and "i < 32"
  shows "bit (my_reverse_bits table key) i = bit key (31 - i)"
proof -
  have t: "bit (table b) j = (j < 8 \<and> bit b (7 - j))" for b j
    using assms(1) bit_less_8 [of "table b" j] by (auto simp: reverses_byte_def)
  have m: "(255 :: uint32) = mask 8" by (simp add: mask_eq_exp_minus_1)
  consider "i < 8" | "8 \<le> i" "i < 16" | "16 \<le> i" "i < 24" | "24 \<le> i" using assms(2) by linarith
  then show ?thesis using assms(2)
    by cases (auto simp: my_reverse_bits_def t m bit_simps)
qed

theorem my_reverse_bits_correct_witness:
  "reverses_byte word_reverse \<and> bit (my_reverse_bits word_reverse 1) 31 = bit (1 :: uint32) 0"
proof -
  have "reverses_byte word_reverse" by (simp add: reverses_byte_def bit_word_reverse_iff)
  from my_reverse_bits_correct [OF this, of 31 1] this show ?thesis by simp
qed

subsection \<open>Logarithm, masks, lowest set bit\<close>

text \<open>\<^verbatim>\<open>my_bit_log2_uint64\<close>, which cascades through the 32-, 16-, 8- and 4-bit routines, returns
  the position of the highest set bit, and 0 for the argument 0.\<close>

theorem my_bit_log2_uint64_correct:
  "my_bit_log2_uint64 v = (if v = 0 then 0 else of_nat (Max (bit_set v)))"
proof (cases "v = 0")
  case True
  then show ?thesis using my_bit_log2_uint64_is_log2 [of v] by (simp add: is_log2_def)
next
  case False
  let ?r = "unat (my_bit_log2_uint64 v)" and ?h = "Max (bit_set v)"
  from False my_bit_log2_uint64_is_log2 [of v]
  have r: "2 ^ ?r \<le> unat v" "unat v < 2 ^ Suc ?r" by (simp_all add: is_log2_def unat_0_iff)
  with unat_bounds_Max_bit [OF False] have "(2::nat) ^ ?r < 2 ^ Suc ?h" "(2::nat) ^ ?h < 2 ^ Suc ?r"
    by linarith+
  then have "?r < Suc ?h" "?h < Suc ?r"
    using power_less_imp_less_exp [of "2::nat"] by (metis one_less_numeral_iff semiring_norm(76))+
  then have "?r = ?h" by linarith
  moreover have "my_bit_log2_uint64 v = of_nat ?r" by simp
  ultimately show ?thesis using False by simp
qed

text \<open>\<^verbatim>\<open>my_set_bits\<close> returns the mask of the \<open>n\<close> lowest bits for every \<open>n\<close> from 1 to 64, the full
  word included, where the plain expression \<open>(1 << n) - 1\<close> would shift out of range.\<close>

theorem my_set_bits_correct:
  assumes "1 \<le> n" and "n \<le> 64"
  shows "my_set_bits n = Some (mask (nat n))"
proof -
  let ?k = "nat (n - 1)"
  have k: "?k < 64" "nat n = Suc ?k" using assms by auto
  have "push_bit 1 (mask ?k) OR 1 = (mask (Suc ?k) :: ulonglong)"
    using k by (simp add: mask_Suc_double or.commute mult.commute push_bit_eq_mult)
  then show ?thesis using assms k by (simp add: my_set_bits_def mask_eq_exp_minus_1)
qed

theorem my_set_bits_correct_witness: "my_set_bits 64 = Some (mask (nat 64)) \<and> my_set_bits 3 = Some 7"
  using my_set_bits_correct [of 64] my_set_bits_correct [of 3] by (simp add: mask_eq_exp_minus_1)

lemma last_byte_mask_correct: "last_byte_mask n = mask (Suc (unat (n - 1) mod 8))"
proof -
  have "unat ((n - 1) AND 7) = unat (n - 1) mod 8"
    using unat_and_mask [of "n - 1" 3] by (simp add: mask_eq_exp_minus_1)
  moreover have "ucast (push_bit k (2 :: uint32) - 1) = (mask (Suc k) :: uchar)" if "k < 8" for k
  proof -
    have "push_bit k (2 :: uint32) - 1 = mask (Suc k)" by (simp add: push_bit_eq_mult mask_eq_exp_minus_1)
    moreover have "ucast (mask (Suc k) :: uint32) = (mask (Suc k) :: uchar)"
      using that by (auto simp: bit_eq_iff bit_simps)
    ultimately show ?thesis by simp
  qed
  ultimately show ?thesis by (simp add: last_byte_mask_def Let_def)
qed

lemma last_bit_table:
  "y < 16 \<Longrightarrow> (if y = 0 then last_bit y = 32
     else bit y (unat (last_bit y)) \<and> unat (last_bit y) < 4 \<and> (\<forall>j < unat (last_bit y). \<not> bit y j))"
proof -
  assume "y < 16"
  then have "y \<in> set [0..<16]" by simp
  moreover have "\<forall>y \<in> set [0..<16]. if y = 0 then last_bit y = 32
     else bit y (unat (last_bit y)) \<and> unat (last_bit y) < 4 \<and> (\<forall>j \<in> set [0..<unat (last_bit y)]. \<not> bit y j)"
    by code_simp
  ultimately show ?thesis by (simp only: set_upt atLeastLessThan_iff le0 simp_thms Ball_def) blast
qed

definition nibble_at :: "ulonglong \<Rightarrow> nat \<Rightarrow> nat" where
  "nibble_at n s = unat (drop_bit s n AND 0xF)"

lemma bit_nibble_at [bits_of]: "bit (nibble_at n s) i \<longleftrightarrow> i < 4 \<and> bit n (s + i)"
proof -
  have m: "(0xF :: ulonglong) = mask 4" by (simp add: mask_eq_exp_minus_1)
  show ?thesis unfolding nibble_at_def m using bit_less_64 [of n "s + i"]
    by (auto simp: bit_unsigned_iff bit_simps)
qed

lemma nibble_at_less: "nibble_at n s < 16"
  unfolding nibble_at_def using unat_and_mask [of "drop_bit s n" 4] by (simp add: mask_eq_exp_minus_1)

lemma last_bit_nibble_at:
  assumes "bit n m" and "\<And>j. bit n j \<Longrightarrow> m \<le> j" and "s \<le> m"
  shows "last_bit (nibble_at n s) = (if m < s + 4 then of_nat (m - s) else 32)"
proof (cases "m < s + 4")
  case True
  let ?y = "nibble_at n s" and ?l = "unat (last_bit (nibble_at n s))"
  have ym: "bit ?y (m - s)" using True assms by (simp add: bits_of)
  then have "?y \<noteq> 0" by (metis bit_0_eq bot_apply bot_bool_def)
  with last_bit_table [OF nibble_at_less, of n s]
  have l: "bit ?y ?l" "\<And>j. j < ?l \<Longrightarrow> \<not> bit ?y j" by simp_all
  have "m \<le> s + ?l" using l(1) assms(2) by (simp add: bits_of)
  moreover have "\<not> m - s < ?l" using l(2) ym by blast
  ultimately have "?l = m - s" by linarith
  moreover have "last_bit ?y = of_nat ?l" by simp
  ultimately show ?thesis using True by simp
next
  case False
  have "\<not> bit (nibble_at n s) i" for i using False assms(2) [of "s + i"] by (auto simp: bits_of)
  then have "nibble_at n s = 0" by (simp add: bit_eq_iff)
  with False show ?thesis using last_bit_table [OF nibble_at_less, of n s] by simp
qed

lemma find_first_bit_loop_Min:
  assumes "bit n m" and min: "\<And>j. bit n j \<Longrightarrow> m \<le> j" and "4 * k \<le> m"
  shows "find_first_bit_loop n (of_nat (4 * k)) = Some (of_nat m)"
  using assms(3)
proof (induction "m - 4 * k" arbitrary: k rule: less_induct)
  case less
  have "m < 64" using assms(1) by (rule bit_less_64)
  then have s: "unat (of_nat (4 * k) :: uint32) = 4 * k" using less.prems by (simp add: unat_of_nat del: of_nat_mult)
  have step: "find_first_bit_loop n (of_nat (4 * k)) =
    (if last_bit (nibble_at n (4 * k)) = 32 then find_first_bit_loop n (of_nat (4 * Suc k))
     else Some (of_nat (4 * k) + last_bit (nibble_at n (4 * k))))"
    by (subst find_first_bit_loop.simps) (simp add: Let_def nibble_at_def s add.commute del: of_nat_mult)
  note l = last_bit_nibble_at [OF assms(1) min less.prems]
  show ?case
  proof (cases "m < 4 * k + 4")
    case True
    then have "unat (of_nat (m - 4 * k) :: uint32) \<noteq> 32" using \<open>m < 64\<close> by (simp add: unat_of_nat)
    then have "(of_nat (m - 4 * k) :: uint32) \<noteq> 32" by auto
    moreover have "of_nat (4 * k) + of_nat (m - 4 * k) = (of_nat m :: uint32)"
      using less.prems by (simp flip: of_nat_add)
    ultimately show ?thesis using step l True by simp
  next
    case False
    then show ?thesis using step l less.hyps [of "Suc k"] by simp
  qed
qed

lemma my_find_first_bit_Min:
  assumes "n \<noteq> 0"
  shows "my_find_first_bit n = Some (of_nat (Min (bit_set n)))"
proof -
  have "Min (bit_set n) \<in> bit_set n" using assms by (intro Min_in) auto
  then show ?thesis
    using find_first_bit_loop_Min [of n "Min (bit_set n)" 0] assms
    by (simp add: my_find_first_bit_def)
qed

text \<open>\<^verbatim>\<open>my_find_first_bit\<close> always returns: 64 for the argument 0, otherwise the position of the
  lowest set bit, found by a search four bits at a time.\<close>

theorem my_find_first_bit_correct:
  "my_find_first_bit n = Some (if n = 0 then 64 else of_nat (Min (bit_set n)))"
  using my_find_first_bit_Min [of n] by (simp add: my_find_first_bit_def)

end
