(* ===== verification/Byte_Order.thy ===== *)
theory Byte_Order
  imports Prelude
begin

text \<open>
  Reading and storing integers in memory: the low-byte-first macros of
  \<^verbatim>\<open>byte_order_generic.h\<close> with their optimised counterparts in
  \<^verbatim>\<open>byte_order_generic_x86_64.h\<close>, and the high-byte-first macros of \<^verbatim>\<open>myisampack.h\<close> that the
  storage engines use for keys and file pointers. Memory is a function from addresses to
  bytes; a store returns the updated memory. Signed reads return the word whose \<^const>\<open>sint\<close>
  is the C value. On the bundled 64-bit Windows build \<^verbatim>\<open>ulong\<close> has 32 bits.
\<close>

section \<open>Memory\<close>

type_synonym mem = "nat \<Rightarrow> uchar"

text \<open>The machine loads and stores behind \<^verbatim>\<open>*((uint16 *) p)\<close> and its kin on a little-endian
  processor.\<close>

definition load16 :: "mem \<Rightarrow> nat \<Rightarrow> uint16" where
  "load16 m p = ucast (m p) OR push_bit 8 (ucast (m (p + 1)))"

definition load32 :: "mem \<Rightarrow> nat \<Rightarrow> uint32" where
  "load32 m p = ucast (load16 m p) OR push_bit 16 (ucast (load16 m (p + 2)))"

definition load64 :: "mem \<Rightarrow> nat \<Rightarrow> ulonglong" where
  "load64 m p = ucast (load32 m p) OR push_bit 32 (ucast (load32 m (p + 4)))"

definition store16 :: "mem \<Rightarrow> nat \<Rightarrow> uint16 \<Rightarrow> mem" where
  "store16 m p v = m(p := ucast v, p + 1 := ucast (drop_bit 8 v))"

definition store32 :: "mem \<Rightarrow> nat \<Rightarrow> uint32 \<Rightarrow> mem" where
  "store32 m p v = store16 (store16 m p (ucast v)) (p + 2) (ucast (drop_bit 16 v))"

definition store64 :: "mem \<Rightarrow> nat \<Rightarrow> ulonglong \<Rightarrow> mem" where
  "store64 m p v = store32 (store32 m p (ucast v)) (p + 4) (ucast (drop_bit 32 v))"

section \<open>byte\_order\_generic.h\<close>

definition sint2korr :: "mem \<Rightarrow> nat \<Rightarrow> uint16" where
  "sint2korr m p =
     (ucast (m p) :: uint16) OR push_bit 8 (ucast (m (p + 1)) :: uint16)"

definition sint3korr :: "mem \<Rightarrow> nat \<Rightarrow> uint32" where
  "sint3korr m p =
     (if m (p + 2) AND 128 \<noteq> 0
      then push_bit 24 255 OR push_bit 16 (ucast (m (p + 2)) :: uint32) OR push_bit 8 (ucast (m (p + 1)) :: uint32) OR (ucast (m p) :: uint32)
      else push_bit 16 (ucast (m (p + 2)) :: uint32) OR push_bit 8 (ucast (m (p + 1)) :: uint32) OR (ucast (m p) :: uint32))"

definition sint4korr :: "mem \<Rightarrow> nat \<Rightarrow> uint32" where
  "sint4korr m p =
     (ucast (m p) :: uint32) OR push_bit 8 (ucast (m (p + 1)) :: uint32) OR push_bit 16 (ucast (m (p + 2)) :: uint32) OR push_bit 24 (ucast (m (p + 3)) :: uint32)"

definition uint2korr :: "mem \<Rightarrow> nat \<Rightarrow> uint16" where
  "uint2korr m p =
     (ucast (m p) :: uint16) OR push_bit 8 (ucast (m (p + 1)) :: uint16)"

definition uint3korr :: "mem \<Rightarrow> nat \<Rightarrow> uint32" where
  "uint3korr m p =
     (ucast (m p) :: uint32) OR push_bit 8 (ucast (m (p + 1)) :: uint32) OR push_bit 16 (ucast (m (p + 2)) :: uint32)"

definition uint4korr :: "mem \<Rightarrow> nat \<Rightarrow> uint32" where
  "uint4korr m p =
     (ucast (m p) :: uint32) OR push_bit 8 (ucast (m (p + 1)) :: uint32) OR push_bit 16 (ucast (m (p + 2)) :: uint32) OR push_bit 24 (ucast (m (p + 3)) :: uint32)"

definition uint5korr :: "mem \<Rightarrow> nat \<Rightarrow> ulonglong" where
  "uint5korr m p =
     ucast ((ucast (m p) :: uint32) OR push_bit 8 (ucast (m (p + 1)) :: uint32) OR push_bit 16 (ucast (m (p + 2)) :: uint32) OR push_bit 24 (ucast (m (p + 3)) :: uint32)) OR
     push_bit 32 (ucast (m (p + 4)) :: ulonglong)"

definition uint6korr :: "mem \<Rightarrow> nat \<Rightarrow> ulonglong" where
  "uint6korr m p =
     ucast ((ucast (m p) :: uint32) OR push_bit 8 (ucast (m (p + 1)) :: uint32) OR push_bit 16 (ucast (m (p + 2)) :: uint32) OR push_bit 24 (ucast (m (p + 3)) :: uint32)) OR
     push_bit 32 (ucast (m (p + 4)) :: ulonglong) OR push_bit 40 (ucast (m (p + 5)) :: ulonglong)"

definition uint8korr :: "mem \<Rightarrow> nat \<Rightarrow> ulonglong" where
  "uint8korr m p =
     ucast ((ucast (m p) :: uint32) OR push_bit 8 (ucast (m (p + 1)) :: uint32) OR push_bit 16 (ucast (m (p + 2)) :: uint32) OR push_bit 24 (ucast (m (p + 3)) :: uint32)) OR
     push_bit 32 (ucast ((ucast (m (p + 4)) :: uint32) OR push_bit 8 (ucast (m (p + 5)) :: uint32) OR push_bit 16 (ucast (m (p + 6)) :: uint32) OR push_bit 24 (ucast (m (p + 7)) :: uint32)))"

definition sint8korr :: "mem \<Rightarrow> nat \<Rightarrow> ulonglong" where
  "sint8korr m p =
     uint8korr m p"

definition int2store :: "mem \<Rightarrow> nat \<Rightarrow> uint32 \<Rightarrow> mem" where
  "int2store m p a =
     m(p := ucast a, p + 1 := ucast (drop_bit 8 a))"

definition int3store :: "mem \<Rightarrow> nat \<Rightarrow> uint32 \<Rightarrow> mem" where
  "int3store m p a =
     m(p := ucast a, p + 1 := ucast (drop_bit 8 a), p + 2 := ucast (drop_bit 16 a))"

definition int4store :: "mem \<Rightarrow> nat \<Rightarrow> uint32 \<Rightarrow> mem" where
  "int4store m p a =
     m(p := ucast a, p + 1 := ucast (drop_bit 8 a), p + 2 := ucast (drop_bit 16 a), p + 3 := ucast (drop_bit 24 a))"

definition int5store :: "mem \<Rightarrow> nat \<Rightarrow> ulonglong \<Rightarrow> mem" where
  "int5store m p a =
     m(p := ucast a, p + 1 := ucast (drop_bit 8 a), p + 2 := ucast (drop_bit 16 a), p + 3 := ucast (drop_bit 24 a), p + 4 := ucast (drop_bit 32 a))"

definition int6store :: "mem \<Rightarrow> nat \<Rightarrow> ulonglong \<Rightarrow> mem" where
  "int6store m p a =
     m(p := ucast a, p + 1 := ucast (drop_bit 8 a), p + 2 := ucast (drop_bit 16 a), p + 3 := ucast (drop_bit 24 a), p + 4 := ucast (drop_bit 32 a), p + 5 := ucast (drop_bit 40 a))"

definition int8store :: "mem \<Rightarrow> nat \<Rightarrow> ulonglong \<Rightarrow> mem" where
  "int8store m p a =
     (let def_temp = ucast a; def_temp2 = ucast (drop_bit 32 a)
      in int4store (int4store m p def_temp) (p + 4) def_temp2)"

section \<open>byte\_order\_generic\_x86\_64.h\<close>

definition sint2korr_x86_64 :: "mem \<Rightarrow> nat \<Rightarrow> uint16" where
  "sint2korr_x86_64 m p =
     load16 m p"

definition sint3korr_x86_64 :: "mem \<Rightarrow> nat \<Rightarrow> uint32" where
  "sint3korr_x86_64 m p =
     (if m (p + 2) AND 128 \<noteq> 0
      then push_bit 24 255 OR push_bit 16 (ucast (m (p + 2)) :: uint32) OR push_bit 8 (ucast (m (p + 1)) :: uint32) OR (ucast (m p) :: uint32)
      else push_bit 16 (ucast (m (p + 2)) :: uint32) OR push_bit 8 (ucast (m (p + 1)) :: uint32) OR (ucast (m p) :: uint32))"

definition sint4korr_x86_64 :: "mem \<Rightarrow> nat \<Rightarrow> uint32" where
  "sint4korr_x86_64 m p =
     load32 m p"

definition uint2korr_x86_64 :: "mem \<Rightarrow> nat \<Rightarrow> uint16" where
  "uint2korr_x86_64 m p =
     load16 m p"

definition uint3korr_x86_64 :: "mem \<Rightarrow> nat \<Rightarrow> uint32" where
  "uint3korr_x86_64 m p =
     (ucast (m p) :: uint32) OR push_bit 8 (ucast (m (p + 1)) :: uint32) OR push_bit 16 (ucast (m (p + 2)) :: uint32)"

definition uint4korr_x86_64 :: "mem \<Rightarrow> nat \<Rightarrow> uint32" where
  "uint4korr_x86_64 m p =
     load32 m p"

definition uint5korr_x86_64 :: "mem \<Rightarrow> nat \<Rightarrow> ulonglong" where
  "uint5korr_x86_64 m p =
     (let a = ucast (load32 m p); b = ucast (m (p + 4)) in a OR push_bit 32 b)"

definition uint6korr_x86_64 :: "mem \<Rightarrow> nat \<Rightarrow> ulonglong" where
  "uint6korr_x86_64 m p =
     (let a = ucast (load32 m p); b = ucast (load16 m (p + 4)) in a OR push_bit 32 b)"

definition uint8korr_x86_64 :: "mem \<Rightarrow> nat \<Rightarrow> ulonglong" where
  "uint8korr_x86_64 m p =
     load64 m p"

definition sint8korr_x86_64 :: "mem \<Rightarrow> nat \<Rightarrow> ulonglong" where
  "sint8korr_x86_64 m p =
     load64 m p"

definition int2store_x86_64 :: "mem \<Rightarrow> nat \<Rightarrow> uint32 \<Rightarrow> mem" where
  "int2store_x86_64 m p a =
     store16 m p (ucast a)"

definition int3store_x86_64 :: "mem \<Rightarrow> nat \<Rightarrow> uint32 \<Rightarrow> mem" where
  "int3store_x86_64 m p a =
     m(p := ucast a, p + 1 := ucast (drop_bit 8 a), p + 2 := ucast (drop_bit 16 a))"

definition int4store_x86_64 :: "mem \<Rightarrow> nat \<Rightarrow> uint32 \<Rightarrow> mem" where
  "int4store_x86_64 m p a =
     store32 m p a"

definition int5store_x86_64 :: "mem \<Rightarrow> nat \<Rightarrow> ulonglong \<Rightarrow> mem" where
  "int5store_x86_64 m p a =
     (store32 m p (ucast a))(p + 4 := ucast (drop_bit 32 a))"

definition int6store_x86_64 :: "mem \<Rightarrow> nat \<Rightarrow> ulonglong \<Rightarrow> mem" where
  "int6store_x86_64 m p a =
     store16 (store32 m p (ucast a)) (p + 4) (ucast (drop_bit 32 a))"

definition int8store_x86_64 :: "mem \<Rightarrow> nat \<Rightarrow> ulonglong \<Rightarrow> mem" where
  "int8store_x86_64 m p a =
     store64 m p a"

text \<open>The byte-swap instruction that the inline assembly issues.\<close>

definition bswapq :: "ulonglong \<Rightarrow> ulonglong" where
  "bswapq v =
     push_bit 56 (drop_bit 0 v AND 255) OR
     push_bit 48 (drop_bit 8 v AND 255) OR
     push_bit 40 (drop_bit 16 v AND 255) OR
     push_bit 32 (drop_bit 24 v AND 255) OR
     push_bit 24 (drop_bit 32 v AND 255) OR
     push_bit 16 (drop_bit 40 v AND 255) OR
     push_bit 8 (drop_bit 48 v AND 255) OR
     push_bit 0 (drop_bit 56 v AND 255)"

definition mi_uint5korr_x86_64 :: "mem \<Rightarrow> nat \<Rightarrow> ulonglong" where
  "mi_uint5korr_x86_64 m p =
     (let a = ucast (load32 m p); b = ucast (m (p + 4));
          v = push_bit 24 (a OR push_bit 32 b) in bswapq v)"

definition mi_uint6korr_x86_64 :: "mem \<Rightarrow> nat \<Rightarrow> ulonglong" where
  "mi_uint6korr_x86_64 m p =
     (let a = ucast (load32 m p); b = ucast (load16 m (p + 4));
          v = push_bit 16 (a OR push_bit 32 b) in bswapq v)"

definition mi_uint7korr_x86_64 :: "mem \<Rightarrow> nat \<Rightarrow> ulonglong" where
  "mi_uint7korr_x86_64 m p =
     (let a = ucast (load32 m p); b = ucast (load16 m (p + 4)); c = ucast (m (p + 6));
          v = push_bit 8 (a OR push_bit 32 b OR push_bit 48 c) in bswapq v)"

definition mi_uint8korr_x86_64 :: "mem \<Rightarrow> nat \<Rightarrow> ulonglong" where
  "mi_uint8korr_x86_64 m p =
     bswapq (load64 m p)"

section \<open>myisampack.h\<close>

definition mi_sint1korr :: "mem \<Rightarrow> nat \<Rightarrow> uchar" where
  "mi_sint1korr m p =
     m p"

definition mi_uint1korr :: "mem \<Rightarrow> nat \<Rightarrow> uchar" where
  "mi_uint1korr m p =
     m p"

definition mi_sint2korr :: "mem \<Rightarrow> nat \<Rightarrow> uint16" where
  "mi_sint2korr m p =
     (ucast (m (p + 1)) :: uint16) OR push_bit 8 (ucast (m p) :: uint16)"

definition mi_sint3korr :: "mem \<Rightarrow> nat \<Rightarrow> uint32" where
  "mi_sint3korr m p =
     (if m p AND 128 \<noteq> 0
      then push_bit 24 255 OR push_bit 16 (ucast (m p) :: uint32) OR push_bit 8 (ucast (m (p + 1)) :: uint32) OR (ucast (m (p + 2)) :: uint32)
      else push_bit 16 (ucast (m p) :: uint32) OR push_bit 8 (ucast (m (p + 1)) :: uint32) OR (ucast (m (p + 2)) :: uint32))"

definition mi_sint4korr :: "mem \<Rightarrow> nat \<Rightarrow> uint32" where
  "mi_sint4korr m p =
     (ucast (m (p + 3)) :: uint32) OR push_bit 8 (ucast (m (p + 2)) :: uint32) OR push_bit 16 (ucast (m (p + 1)) :: uint32) OR push_bit 24 (ucast (m p) :: uint32)"

definition mi_uint2korr :: "mem \<Rightarrow> nat \<Rightarrow> uint16" where
  "mi_uint2korr m p =
     (ucast (m (p + 1)) :: uint16) OR push_bit 8 (ucast (m p) :: uint16)"

definition mi_uint3korr :: "mem \<Rightarrow> nat \<Rightarrow> uint32" where
  "mi_uint3korr m p =
     (ucast (m (p + 2)) :: uint32) OR push_bit 8 (ucast (m (p + 1)) :: uint32) OR push_bit 16 (ucast (m p) :: uint32)"

definition mi_uint4korr :: "mem \<Rightarrow> nat \<Rightarrow> uint32" where
  "mi_uint4korr m p =
     (ucast (m (p + 3)) :: uint32) OR push_bit 8 (ucast (m (p + 2)) :: uint32) OR push_bit 16 (ucast (m (p + 1)) :: uint32) OR push_bit 24 (ucast (m p) :: uint32)"

definition mi_uint5korr :: "mem \<Rightarrow> nat \<Rightarrow> ulonglong" where
  "mi_uint5korr m p =
     ucast ((ucast (m (p + 4)) :: uint32) OR push_bit 8 (ucast (m (p + 3)) :: uint32) OR push_bit 16 (ucast (m (p + 2)) :: uint32) OR push_bit 24 (ucast (m (p + 1)) :: uint32)) OR
     push_bit 32 (ucast (m p) :: ulonglong)"

definition mi_uint6korr :: "mem \<Rightarrow> nat \<Rightarrow> ulonglong" where
  "mi_uint6korr m p =
     ucast ((ucast (m (p + 5)) :: uint32) OR push_bit 8 (ucast (m (p + 4)) :: uint32) OR push_bit 16 (ucast (m (p + 3)) :: uint32) OR push_bit 24 (ucast (m (p + 2)) :: uint32)) OR
     push_bit 32 (ucast ((ucast (m (p + 1)) :: uint32) OR push_bit 8 (ucast (m p) :: uint32)))"

definition mi_uint7korr :: "mem \<Rightarrow> nat \<Rightarrow> ulonglong" where
  "mi_uint7korr m p =
     ucast ((ucast (m (p + 6)) :: uint32) OR push_bit 8 (ucast (m (p + 5)) :: uint32) OR push_bit 16 (ucast (m (p + 4)) :: uint32) OR push_bit 24 (ucast (m (p + 3)) :: uint32)) OR
     push_bit 32 (ucast ((ucast (m (p + 2)) :: uint32) OR push_bit 8 (ucast (m (p + 1)) :: uint32) OR push_bit 16 (ucast (m p) :: uint32)))"

definition mi_uint8korr :: "mem \<Rightarrow> nat \<Rightarrow> ulonglong" where
  "mi_uint8korr m p =
     ucast ((ucast (m (p + 7)) :: uint32) OR push_bit 8 (ucast (m (p + 6)) :: uint32) OR push_bit 16 (ucast (m (p + 5)) :: uint32) OR push_bit 24 (ucast (m (p + 4)) :: uint32)) OR
     push_bit 32 (ucast ((ucast (m (p + 3)) :: uint32) OR push_bit 8 (ucast (m (p + 2)) :: uint32) OR push_bit 16 (ucast (m (p + 1)) :: uint32) OR push_bit 24 (ucast (m p) :: uint32)))"

definition mi_sint8korr :: "mem \<Rightarrow> nat \<Rightarrow> ulonglong" where
  "mi_sint8korr m p =
     mi_uint8korr m p"

definition mi_int1store :: "mem \<Rightarrow> nat \<Rightarrow> uint32 \<Rightarrow> mem" where
  "mi_int1store m p a =
     m(p := ucast a)"

definition mi_int2store :: "mem \<Rightarrow> nat \<Rightarrow> uint32 \<Rightarrow> mem" where
  "mi_int2store m p def_temp =
     m(p + 1 := ucast def_temp, p := ucast (drop_bit 8 def_temp))"

definition mi_int3store :: "mem \<Rightarrow> nat \<Rightarrow> uint32 \<Rightarrow> mem" where
  "mi_int3store m p def_temp =
     m(p + 2 := ucast def_temp, p + 1 := ucast (drop_bit 8 def_temp), p := ucast (drop_bit 16 def_temp))"

definition mi_int4store :: "mem \<Rightarrow> nat \<Rightarrow> uint32 \<Rightarrow> mem" where
  "mi_int4store m p def_temp =
     m(p + 3 := ucast def_temp, p + 2 := ucast (drop_bit 8 def_temp), p + 1 := ucast (drop_bit 16 def_temp), p := ucast (drop_bit 24 def_temp))"

definition mi_int5store :: "mem \<Rightarrow> nat \<Rightarrow> ulonglong \<Rightarrow> mem" where
  "mi_int5store m p a =
     (let def_temp = ucast a :: uint32; def_temp2 = ucast (drop_bit 32 a) :: uint32
      in m(p + 4 := ucast def_temp, p + 3 := ucast (drop_bit 8 def_temp), p + 2 := ucast (drop_bit 16 def_temp), p + 1 := ucast (drop_bit 24 def_temp), p := ucast def_temp2))"

definition mi_int6store :: "mem \<Rightarrow> nat \<Rightarrow> ulonglong \<Rightarrow> mem" where
  "mi_int6store m p a =
     (let def_temp = ucast a :: uint32; def_temp2 = ucast (drop_bit 32 a) :: uint32
      in m(p + 5 := ucast def_temp, p + 4 := ucast (drop_bit 8 def_temp), p + 3 := ucast (drop_bit 16 def_temp), p + 2 := ucast (drop_bit 24 def_temp), p + 1 := ucast def_temp2, p := ucast (drop_bit 8 def_temp2)))"

definition mi_int7store :: "mem \<Rightarrow> nat \<Rightarrow> ulonglong \<Rightarrow> mem" where
  "mi_int7store m p a =
     (let def_temp = ucast a :: uint32; def_temp2 = ucast (drop_bit 32 a) :: uint32
      in m(p + 6 := ucast def_temp, p + 5 := ucast (drop_bit 8 def_temp), p + 4 := ucast (drop_bit 16 def_temp), p + 3 := ucast (drop_bit 24 def_temp), p + 2 := ucast def_temp2, p + 1 := ucast (drop_bit 8 def_temp2), p := ucast (drop_bit 16 def_temp2)))"

definition mi_int8store :: "mem \<Rightarrow> nat \<Rightarrow> ulonglong \<Rightarrow> mem" where
  "mi_int8store m p a =
     (let def_temp3 = ucast a; def_temp4 = ucast (drop_bit 32 a)
      in mi_int4store (mi_int4store m p def_temp4) (p + 4) def_temp3)"

text \<open>Floating-point values are moved byte by byte; the value is its object representation, the
  bytes at its address. The three variants are those of the preprocessor: big-endian,
  little-endian with big-endian word order for doubles, and plain little-endian.\<close>

definition mi_float4store_be :: "mem \<Rightarrow> nat \<Rightarrow> (nat \<Rightarrow> uchar) \<Rightarrow> mem" where
  "mi_float4store_be m p v =
     m(p := v 0, p + 1 := v 1, p + 2 := v 2, p + 3 := v 3)"

definition mi_float4get_be :: "mem \<Rightarrow> nat \<Rightarrow> (nat \<Rightarrow> uchar)" where
  "mi_float4get_be m p =
     (\<lambda>_. 0)(0 := m (p + 0), 1 := m (p + 1), 2 := m (p + 2), 3 := m (p + 3))"

definition mi_float8store_be :: "mem \<Rightarrow> nat \<Rightarrow> (nat \<Rightarrow> uchar) \<Rightarrow> mem" where
  "mi_float8store_be m p v =
     m(p := v 0, p + 1 := v 1, p + 2 := v 2, p + 3 := v 3, p + 4 := v 4, p + 5 := v 5, p + 6 := v 6, p + 7 := v 7)"

definition mi_float8get_be :: "mem \<Rightarrow> nat \<Rightarrow> (nat \<Rightarrow> uchar)" where
  "mi_float8get_be m p =
     (\<lambda>_. 0)(0 := m (p + 0), 1 := m (p + 1), 2 := m (p + 2), 3 := m (p + 3), 4 := m (p + 4), 5 := m (p + 5), 6 := m (p + 6), 7 := m (p + 7))"

definition mi_float8store_mixed :: "mem \<Rightarrow> nat \<Rightarrow> (nat \<Rightarrow> uchar) \<Rightarrow> mem" where
  "mi_float8store_mixed m p v =
     m(p := v 3, p + 1 := v 2, p + 2 := v 1, p + 3 := v 0, p + 4 := v 7, p + 5 := v 6, p + 6 := v 5, p + 7 := v 4)"

definition mi_float8get_mixed :: "mem \<Rightarrow> nat \<Rightarrow> (nat \<Rightarrow> uchar)" where
  "mi_float8get_mixed m p =
     (\<lambda>_. 0)(0 := m (p + 3), 1 := m (p + 2), 2 := m (p + 1), 3 := m (p + 0), 4 := m (p + 7), 5 := m (p + 6), 6 := m (p + 5), 7 := m (p + 4))"

definition mi_float4store_le :: "mem \<Rightarrow> nat \<Rightarrow> (nat \<Rightarrow> uchar) \<Rightarrow> mem" where
  "mi_float4store_le m p v =
     m(p := v 3, p + 1 := v 2, p + 2 := v 1, p + 3 := v 0)"

definition mi_float4get_le :: "mem \<Rightarrow> nat \<Rightarrow> (nat \<Rightarrow> uchar)" where
  "mi_float4get_le m p =
     (\<lambda>_. 0)(0 := m (p + 3), 1 := m (p + 2), 2 := m (p + 1), 3 := m (p + 0))"

definition mi_float8store_le :: "mem \<Rightarrow> nat \<Rightarrow> (nat \<Rightarrow> uchar) \<Rightarrow> mem" where
  "mi_float8store_le m p v =
     m(p := v 7, p + 1 := v 6, p + 2 := v 5, p + 3 := v 4, p + 4 := v 3, p + 5 := v 2, p + 6 := v 1, p + 7 := v 0)"

definition mi_float8get_le :: "mem \<Rightarrow> nat \<Rightarrow> (nat \<Rightarrow> uchar)" where
  "mi_float8get_le m p =
     (\<lambda>_. 0)(0 := m (p + 7), 1 := m (p + 6), 2 := m (p + 5), 3 := m (p + 4), 4 := m (p + 3), 5 := m (p + 2), 6 := m (p + 1), 7 := m (p + 0))"

text \<open>Row numbers and file sizes: 8 bytes with \<^verbatim>\<open>BIG_TABLES\<close> and a 64-bit \<^verbatim>\<open>off_t\<close>, otherwise 4 bytes
  after 4 zero bytes, where a size of \<^verbatim>\<open>HA_OFFSET_ERROR\<close> (all ones) fills all 8 bytes.\<close>

definition mi_rowstore :: "bool \<Rightarrow> mem \<Rightarrow> nat \<Rightarrow> ulonglong \<Rightarrow> mem" where
  "mi_rowstore big_tables m p a =
     (if big_tables then mi_int8store m p a
      else mi_int4store (mi_int4store m p 0) (p + 4) (ucast a))"

definition mi_rowkorr :: "bool \<Rightarrow> mem \<Rightarrow> nat \<Rightarrow> ulonglong" where
  "mi_rowkorr big_tables m p =
     (if big_tables then mi_uint8korr m p else ucast (mi_uint4korr m (p + 4)))"

definition mi_sizestore :: "bool \<Rightarrow> mem \<Rightarrow> nat \<Rightarrow> ulonglong \<Rightarrow> mem" where
  "mi_sizestore big_off_t m p a =
     (if big_off_t then mi_int8store m p a
      else if a = - 1 then m(p := 255, p + 1 := 255, p + 2 := 255, p + 3 := 255,
             p + 4 := 255, p + 5 := 255, p + 6 := 255, p + 7 := 255)
      else mi_int4store (mi_int4store m p 0) (p + 4) (ucast a))"

definition mi_sizekorr :: "bool \<Rightarrow> mem \<Rightarrow> nat \<Rightarrow> ulonglong" where
  "mi_sizekorr big_off_t m p =
     (if big_off_t then mi_uint8korr m p else ucast (mi_uint4korr m (p + 4)))"

section \<open>Reference definitions\<close>

text \<open>Reading and storing \<open>n\<close> bytes, low byte first and high byte first, for any word type.\<close>

primrec le_load :: "nat \<Rightarrow> mem \<Rightarrow> nat \<Rightarrow> 'a::len word" where
  "le_load 0 m p = 0"
| "le_load (Suc n) m p = ucast (m p) OR push_bit 8 (le_load n m (Suc p))"

primrec le_store :: "nat \<Rightarrow> mem \<Rightarrow> nat \<Rightarrow> 'a::len word \<Rightarrow> mem" where
  "le_store 0 m p v = m"
| "le_store (Suc n) m p v = le_store n (m(p := ucast v)) (Suc p) (drop_bit 8 v)"

primrec be_load :: "nat \<Rightarrow> mem \<Rightarrow> nat \<Rightarrow> 'a::len word" where
  "be_load 0 m p = 0"
| "be_load (Suc n) m p = push_bit (8 * n) (ucast (m p)) OR be_load n m (Suc p)"

primrec be_store :: "nat \<Rightarrow> mem \<Rightarrow> nat \<Rightarrow> 'a::len word \<Rightarrow> mem" where
  "be_store 0 m p v = m"
| "be_store (Suc n) m p v = be_store n (m(p := ucast (drop_bit (8 * n) v))) (Suc p) v"

lemma bit_le_load [bits_of]:
  "bit (le_load n m p :: 'a::len word) i \<longleftrightarrow>
     i < LENGTH('a) \<and> i < 8 * n \<and> bit (m (p + i div 8)) (i mod 8)"
proof (induction n arbitrary: p i)
  case 0
  then show ?case by simp
next
  case (Suc n)
  show ?case
  proof (cases "i < 8")
    case True
    then show ?thesis by (auto simp: bit_simps)
  next
    case False
    then have "i div 8 = Suc ((i - 8) div 8)" "i mod 8 = (i - 8) mod 8" by (simp_all add: div_if mod_if)
    with False show ?thesis using bit_less_8 [of "m p" i] by (auto simp: bit_simps Suc.IH)
  qed
qed

lemma bit_be_load [bits_of]:
  "bit (be_load n m p :: 'a::len word) i \<longleftrightarrow>
     i < LENGTH('a) \<and> i < 8 * n \<and> bit (m (p + (n - 1 - i div 8))) (i mod 8)"
proof (induction n arbitrary: p)
  case 0
  then show ?case by simp
next
  case (Suc n)
  show ?case
  proof (cases "8 * n \<le> i \<and> i < 8 * n + 8")
    case True
    then have d: "i div 8 = n" by auto
    then have "i mod 8 = i - 8 * n" by (metis minus_mult_div_eq_mod)
    with d True show ?thesis by (auto simp: bit_simps Suc.IH)
  next
    case False
    have "i < 8 * n \<Longrightarrow> Suc p + (n - 1 - i div 8) = p + (Suc n - 1 - i div 8)" by auto
    with False show ?thesis using bit_less_8 [of "m p" "i - 8 * n"] by (auto simp: bit_simps Suc.IH)
  qed
qed

lemma le_store_apply:
  "le_store n m p v q = (if p \<le> q \<and> q < p + n then ucast (drop_bit (8 * (q - p)) v) else m q)"
proof (induction n arbitrary: m p v)
  case 0
  then show ?case by auto
next
  case (Suc n)
  have "8 * (q - Suc p) + 8 = 8 * (q - p)" if "Suc p \<le> q" using that by simp
  then show ?case by (auto simp: Suc.IH le_Suc_eq not_less_eq_eq)
qed

lemma be_store_apply:
  "be_store n m p v q = (if p \<le> q \<and> q < p + n then ucast (drop_bit (8 * (p + n - 1 - q)) v) else m q)"
proof (induction n arbitrary: m p)
  case 0
  then show ?case by auto
next
  case (Suc n)
  have "p + Suc n - 1 - q = n" if "q = p" using that by simp
  then show ?case by (auto simp: Suc.IH)
qed

text \<open>Each macro is the reference operation at its width.\<close>

lemma le_load_numeral [simp]:
  "le_load (numeral k) m p = ucast (m p) OR push_bit 8 (le_load (pred_numeral k) m (Suc p))"
  by (simp add: numeral_eq_Suc)

lemma be_load_numeral [simp]:
  "be_load (numeral k) m p = push_bit (8 * pred_numeral k) (ucast (m p)) OR be_load (pred_numeral k) m (Suc p)"
  by (simp add: numeral_eq_Suc)

lemma mask_255: "(255 :: 'a::len word) = mask 8"
  by (simp add: mask_eq_exp_minus_1)

lemma addr_Suc:
  "p + 3 = Suc (Suc (Suc p))" "p + 4 = Suc (Suc (Suc (Suc p)))" "p + 5 = Suc (Suc (Suc (Suc (Suc p))))"
  "p + 6 = Suc (Suc (Suc (Suc (Suc (Suc p)))))" "p + 7 = Suc (Suc (Suc (Suc (Suc (Suc (Suc p))))))"
  by simp_all

lemma ucast_or: "ucast (a OR b) = (ucast a OR ucast b :: 'b::len word)"
  by (rule bit_word_eqI) (auto simp: bit_simps)

lemma ucast_push_byte:
  "n + 8 \<le> 32 \<Longrightarrow> ucast (push_bit n (ucast (b :: uchar)) :: uint32) = (push_bit n (ucast b) :: ulonglong)"
  by (rule bit_word_eqI) (auto simp: bit_simps dest: bit_less_8)

lemma ucast_byte: "ucast (ucast (b :: uchar) :: uint32) = (ucast b :: ulonglong)"
  by (rule bit_word_eqI) (auto simp: bit_simps dest: bit_less_8)

lemmas unroll = addr_Suc ucast_or ucast_push_byte ucast_byte or.assoc push_bit_or

lemma korr_le_load [abs_simps]:
  "uint2korr m p = le_load 2 m p"
  "uint3korr m p = le_load 3 m p"
  "uint4korr m p = le_load 4 m p"
  "uint5korr m p = le_load 5 m p"
  "uint6korr m p = le_load 6 m p"
  "uint8korr m p = le_load 8 m p"
  by (simp_all add: uint2korr_def uint3korr_def uint4korr_def uint5korr_def uint6korr_def
      uint8korr_def unroll)

lemma load_le_load:
  "load16 m p = le_load 2 m p"
  "load32 m p = le_load 4 m p"
  "load64 m p = le_load 8 m p"
proof -
  have "ucast (push_bit 8 (ucast (b :: uchar)) :: uint16) = (push_bit 8 (ucast b) :: uint32)"
    "ucast (ucast (b :: uchar) :: uint16) = (ucast b :: uint32)" for b
    by (rule bit_word_eqI, auto simp: bit_simps dest: bit_less_8)+
  then show "load16 m p = le_load 2 m p" "load32 m p = le_load 4 m p" "load64 m p = le_load 8 m p"
    by (simp_all add: load16_def load32_def load64_def unroll)
qed

lemma korr_x86_64_le_load [abs_simps]:
  "uint2korr_x86_64 m p = le_load 2 m p"
  "uint3korr_x86_64 m p = le_load 3 m p"
  "uint4korr_x86_64 m p = le_load 4 m p"
  "uint5korr_x86_64 m p = le_load 5 m p"
  "uint6korr_x86_64 m p = le_load 6 m p"
  "uint8korr_x86_64 m p = le_load 8 m p"
proof -
  have b: "ucast (push_bit 8 (ucast (b :: uchar)) :: uint16) = (push_bit 8 (ucast b) :: ulonglong)"
    "ucast (ucast (b :: uchar) :: uint16) = (ucast b :: ulonglong)" for b
    by (rule bit_word_eqI, auto simp: bit_simps dest: bit_less_8)+
  show "uint2korr_x86_64 m p = le_load 2 m p" "uint3korr_x86_64 m p = le_load 3 m p"
    "uint4korr_x86_64 m p = le_load 4 m p" "uint8korr_x86_64 m p = le_load 8 m p"
    by (simp_all add: uint2korr_x86_64_def uint3korr_x86_64_def uint4korr_x86_64_def
        uint8korr_x86_64_def load_le_load del: le_load_numeral)
      (simp add: unroll)
  show "uint5korr_x86_64 m p = le_load 5 m p" "uint6korr_x86_64 m p = le_load 6 m p"
    by (simp_all add: uint5korr_x86_64_def uint6korr_x86_64_def load_le_load Let_def unroll b)
qed

lemma mi_korr_be_load [abs_simps]:
  "mi_uint2korr m p = be_load 2 m p"
  "mi_uint3korr m p = be_load 3 m p"
  "mi_uint4korr m p = be_load 4 m p"
  "mi_uint5korr m p = be_load 5 m p"
  "mi_uint6korr m p = be_load 6 m p"
  "mi_uint7korr m p = be_load 7 m p"
  "mi_uint8korr m p = be_load 8 m p"
  by (simp_all add: mi_uint2korr_def mi_uint3korr_def mi_uint4korr_def mi_uint5korr_def
      mi_uint6korr_def mi_uint7korr_def mi_uint8korr_def unroll ac_simps)

lemma le_store_numeral [simp]:
  "le_store (numeral k) m p v = le_store (pred_numeral k) (m(p := ucast v)) (Suc p) (drop_bit 8 v)"
  by (simp add: numeral_eq_Suc)

lemma be_store_numeral [simp]:
  "be_store (numeral k) m p v =
     be_store (pred_numeral k) (m(p := ucast (drop_bit (8 * pred_numeral k) v))) (Suc p) v"
  by (simp add: numeral_eq_Suc)

lemma ucast_drop_byte:
  "n + 8 \<le> 32 \<Longrightarrow> (ucast (drop_bit n (ucast (a :: ulonglong) :: uint32)) :: uchar) = ucast (drop_bit n a)"
  by (rule bit_word_eqI) (auto simp: bit_simps)

lemma ucast_drop_byte':
  "n + 8 \<le> 16 \<Longrightarrow> (ucast (drop_bit n (ucast (a :: 'a::len word) :: uint16)) :: uchar) = ucast (drop_bit n a)"
  "(ucast (ucast (a :: 'a::len word) :: uint16) :: uchar) = ucast a"
  "(ucast (ucast (b :: ulonglong) :: uint32) :: uchar) = ucast b"
  by (rule bit_word_eqI, auto simp: bit_simps)+

lemma store_le_store [abs_simps]:
  "int2store m p a = le_store 2 m p a"
  "int3store m p a = le_store 3 m p a"
  "int4store m p a = le_store 4 m p a"
  "int5store m p b = le_store 5 m p b"
  "int6store m p b = le_store 6 m p b"
  "int8store m p b = le_store 8 m p b"
  by (simp_all add: int2store_def int3store_def int4store_def int5store_def int6store_def
      int8store_def Let_def addr_Suc ucast_drop_byte ucast_drop_byte')

lemma store_x86_64_le_store [abs_simps]:
  "int2store_x86_64 m p a = le_store 2 m p a"
  "int3store_x86_64 m p a = le_store 3 m p a"
  "int4store_x86_64 m p a = le_store 4 m p a"
  "int5store_x86_64 m p b = le_store 5 m p b"
  "int6store_x86_64 m p b = le_store 6 m p b"
  "int8store_x86_64 m p b = le_store 8 m p b"
  by (simp_all add: int2store_x86_64_def int3store_x86_64_def int4store_x86_64_def
      int5store_x86_64_def int6store_x86_64_def int8store_x86_64_def store16_def store32_def
      store64_def addr_Suc ucast_drop_byte ucast_drop_byte')

lemma mi_store_be_store [abs_simps]:
  "mi_int1store m p a = be_store 1 m p a"
  "mi_int2store m p a = be_store 2 m p a"
  "mi_int3store m p a = be_store 3 m p a"
  "mi_int4store m p a = be_store 4 m p a"
  "mi_int5store m p b = be_store 5 m p b"
  "mi_int6store m p b = be_store 6 m p b"
  "mi_int7store m p b = be_store 7 m p b"
  "mi_int8store m p b = be_store 8 m p b"
  by (rule ext, simp add: mi_int1store_def mi_int2store_def mi_int3store_def mi_int4store_def
      mi_int5store_def mi_int6store_def mi_int7store_def mi_int8store_def Let_def addr_Suc
      ucast_drop_byte ucast_drop_byte')+

lemma bit_swapped_byte:
  fixes v :: ulonglong
  assumes "k \<le> 7"
  shows "bit (push_bit (56 - 8 * k) (drop_bit (8 * k) v AND 255)) i \<longleftrightarrow>
    i < 64 \<and> i div 8 = 7 - k \<and> bit v (8 * k + i mod 8)"
proof (cases "56 - 8 * k \<le> i \<and> i < 56 - 8 * k + 8")
  case True
  then have d: "i div 8 = 7 - k" using assms by auto
  then have "i mod 8 = i - (56 - 8 * k)" using assms minus_mult_div_eq_mod [of i 8] by simp
  with True d show ?thesis using assms by (auto simp: mask_255 bit_simps)
next
  case False
  then have "i div 8 \<noteq> 7 - k" using assms by auto
  with False show ?thesis by (auto simp: mask_255 bit_simps)
qed

lemma bit_bswapq [bits_of]:
  "bit (bswapq v) i \<longleftrightarrow> i < 64 \<and> bit v (8 * (7 - i div 8) + i mod 8)"
proof (cases "i < 64")
  case True
  then have q: "i div 8 = 0 \<or> i div 8 = 1 \<or> i div 8 = 2 \<or> i div 8 = 3 \<or> i div 8 = 4 \<or>
      i div 8 = 5 \<or> i div 8 = 6 \<or> i div 8 = 7" by auto
  note byte = bit_swapped_byte [of 0 v i] bit_swapped_byte [of 1 v i] bit_swapped_byte [of 2 v i]
    bit_swapped_byte [of 3 v i] bit_swapped_byte [of 4 v i] bit_swapped_byte [of 5 v i]
    bit_swapped_byte [of 6 v i] bit_swapped_byte [of 7 v i]
  show ?thesis
    unfolding bswapq_def bit_or_iff using byte q True by (elim disjE) simp_all
next
  case False
  then show ?thesis using bit_less_64 [of "bswapq v" i] by blast
qed

lemma bswapq_le_load:
  assumes "n \<le> 8"
  shows "bswapq (push_bit (8 * (8 - n)) (le_load n m p)) = be_load n m p"
proof (rule bit_word_eqI)
  fix i assume "i < LENGTH(64)"
  let ?j = "8 * (7 - i div 8) + i mod 8"
  show "bit (bswapq (push_bit (8 * (8 - n)) (le_load n m p))) i = bit (be_load n m p :: ulonglong) i"
  proof (cases "i div 8 < n")
    case True
    then have "?j - 8 * (8 - n) = 8 * (n - 1 - i div 8) + i mod 8" "8 * (8 - n) \<le> ?j"
      "i < 8 * n" "?j < 64" using assms by auto
    moreover have "8 * (n - 1 - i div 8) + i mod 8 < 8 * n"
      "8 * (n - 1 - i div 8) + i mod 8 < 64" using True assms by linarith+
    ultimately show ?thesis using \<open>i < LENGTH(64)\<close> by (simp add: bits_of bit_push_bit_iff)
  next
    case False
    then have "?j < 8 * (8 - n)" "\<not> i < 8 * n" using assms \<open>i < LENGTH(64)\<close> by auto
    then show ?thesis by (auto simp: bits_of bit_push_bit_iff)
  qed
qed

lemma mi_korr_x86_64_be_load [abs_simps]:
  "mi_uint5korr_x86_64 m p = be_load 5 m p"
  "mi_uint6korr_x86_64 m p = be_load 6 m p"
  "mi_uint7korr_x86_64 m p = be_load 7 m p"
  "mi_uint8korr_x86_64 m p = be_load 8 m p"
proof -
  have b: "ucast (push_bit 8 (ucast (b :: uchar)) :: uint16) = (push_bit 8 (ucast b) :: ulonglong)"
    "ucast (ucast (b :: uchar) :: uint16) = (ucast b :: ulonglong)" for b
    by (rule bit_word_eqI, auto simp: bit_simps dest: bit_less_8)+
  have load: "ucast (load32 m p) OR push_bit 32 (ucast (m (p + 4))) = (le_load 5 m p :: ulonglong)"
    "ucast (load32 m p) OR push_bit 32 (ucast (load16 m (p + 4))) = (le_load 6 m p :: ulonglong)"
    "ucast (load32 m p) OR push_bit 32 (ucast (load16 m (p + 4))) OR push_bit 48 (ucast (m (p + 6)))
      = (le_load 7 m p :: ulonglong)"
    by (simp_all add: load_le_load unroll b)
  show "mi_uint5korr_x86_64 m p = be_load 5 m p" "mi_uint6korr_x86_64 m p = be_load 6 m p"
    "mi_uint7korr_x86_64 m p = be_load 7 m p" "mi_uint8korr_x86_64 m p = be_load 8 m p"
    using bswapq_le_load [of 5 m p] bswapq_le_load [of 6 m p] bswapq_le_load [of 7 m p]
      bswapq_le_load [of 8 m p]
    by (simp_all only: mi_uint5korr_x86_64_def mi_uint6korr_x86_64_def mi_uint7korr_x86_64_def
        mi_uint8korr_x86_64_def Let_def load load_le_load(3))
      (simp_all del: le_load_numeral be_load_numeral)
qed

section \<open>The codec interface\<close>

text \<open>What the callers of a store/read pair rely on: a value read back from where it was stored
  is the stored value cut to the width, bytes outside the field are untouched, and a read
  depends on the bytes of its field only.\<close>

locale codec =
  fixes store :: "mem \<Rightarrow> nat \<Rightarrow> 'a::len word \<Rightarrow> mem"
    and load :: "mem \<Rightarrow> nat \<Rightarrow> 'b::len word"
    and width :: nat
  assumes load_store: "load (store m p v) p = ucast (take_bit (8 * width) v)"
    and store_frame: "q < p \<or> p + width \<le> q \<Longrightarrow> store m p v q = m q"
    and load_local: "(\<And>i. i < width \<Longrightarrow> m (p + i) = m' (p + i)) \<Longrightarrow> load m p = load m' p"
begin

lemma load_disjoint:
  "q + width \<le> p \<or> p + width \<le> q \<Longrightarrow> load (store m p v) q = load m q"
  by (rule load_local, rule store_frame) auto

end

text \<open>Storing a list of values in consecutive fields.\<close>

fun store_all :: "(mem \<Rightarrow> nat \<Rightarrow> 'v \<Rightarrow> mem) \<Rightarrow> nat \<Rightarrow> mem \<Rightarrow> nat \<Rightarrow> 'v list \<Rightarrow> mem" where
  "store_all st w m p [] = m"
| "store_all st w m p (v # vs) = store_all st w (st m p v) (p + w) vs"

context codec
begin

lemma store_all_frame: "q < p \<Longrightarrow> store_all store width m p vs q = m q"
  by (induction vs arbitrary: m p) (auto simp: store_frame)

lemma load_before_store_all: "q + width \<le> p \<Longrightarrow> load (store_all store width m p vs) q = load m q"
  by (rule load_local) (auto intro: store_all_frame)

lemma load_store_all:
  "i < length vs \<Longrightarrow> load (store_all store width m p vs) (p + i * width) = ucast (take_bit (8 * width) (vs ! i))"
proof (induction vs arbitrary: m p i)
  case Nil
  then show ?case by simp
next
  case (Cons v vs)
  show ?case
  proof (cases i)
    case 0
    then show ?thesis by (simp add: load_before_store_all load_store)
  next
    case (Suc j)
    then show ?thesis using Cons.IH [of j "store m p v" "p + width"] Cons.prems by (simp add: add.assoc)
  qed
qed

end

lemma le_load_le_store:
  "le_load n (le_store n m p (v :: 'a::len word)) p = (ucast (take_bit (8 * n) v) :: 'b::len word)"
proof (rule bit_word_eqI)
  fix i assume "i < LENGTH('b)"
  have "p + i div 8 < p + n \<longleftrightarrow> i < 8 * n" by auto
  moreover have "8 * (i div 8) + i mod 8 = i" by simp
  ultimately show "bit (le_load n (le_store n m p v) p :: 'b word) i
      = bit (ucast (take_bit (8 * n) v) :: 'b word) i"
    using \<open>i < LENGTH('b)\<close> by (auto simp: bits_of le_store_apply bit_simps)
qed

lemma be_load_be_store:
  "be_load n (be_store n m p (v :: 'a::len word)) p = (ucast (take_bit (8 * n) v) :: 'b::len word)"
proof (rule bit_word_eqI)
  fix i assume i: "i < LENGTH('b)"
  show "bit (be_load n (be_store n m p v) p :: 'b word) i = bit (ucast (take_bit (8 * n) v) :: 'b word) i"
  proof (cases "i < 8 * n")
    case True
    then have "p + (n - 1 - i div 8) < p + n" "p + n - 1 - (p + (n - 1 - i div 8)) = i div 8" by auto
    moreover have "8 * (i div 8) + i mod 8 = i" by simp
    ultimately show ?thesis using True i by (auto simp: bits_of be_store_apply bit_simps)
  qed (simp add: bits_of bit_simps)
qed

lemma le_load_cong: "(\<And>i. i < n \<Longrightarrow> m (p + i) = m' (p + i)) \<Longrightarrow> le_load n m p = le_load n m' p"
  by (rule bit_word_eqI) (auto simp: bits_of)

lemma be_load_cong:
  assumes "\<And>i. i < n \<Longrightarrow> m (p + i) = m' (p + i)"
  shows "be_load n m p = be_load n m' p"
proof (rule bit_word_eqI)
  fix i
  have "i < 8 * n \<Longrightarrow> m (p + (n - 1 - i div 8)) = m' (p + (n - 1 - i div 8))" by (rule assms) auto
  then show "bit (be_load n m p :: 'a::len word) i = bit (be_load n m' p :: 'a word) i"
    by (auto simp only: bits_of)
qed

lemma codec_le: "codec (le_store n) (le_load n) n"
  by unfold_locales (auto simp: le_load_le_store le_store_apply intro: le_load_cong)

lemma codec_be: "codec (be_store n) (be_load n) n"
  by unfold_locales (auto simp: be_load_be_store be_store_apply intro: be_load_cong)


interpretation le2: codec int2store uint2korr 2
  unfolding abs_simps [abs_def] by (rule codec_le)
interpretation le3: codec int3store uint3korr 3
  unfolding abs_simps [abs_def] by (rule codec_le)
interpretation le4: codec int4store uint4korr 4
  unfolding abs_simps [abs_def] by (rule codec_le)
interpretation le5: codec int5store uint5korr 5
  unfolding abs_simps [abs_def] by (rule codec_le)
interpretation le6: codec int6store uint6korr 6
  unfolding abs_simps [abs_def] by (rule codec_le)
interpretation le8: codec int8store uint8korr 8
  unfolding abs_simps [abs_def] by (rule codec_le)
interpretation x2: codec int2store_x86_64 uint2korr_x86_64 2
  unfolding abs_simps [abs_def] by (rule codec_le)
interpretation x3: codec int3store_x86_64 uint3korr_x86_64 3
  unfolding abs_simps [abs_def] by (rule codec_le)
interpretation x4: codec int4store_x86_64 uint4korr_x86_64 4
  unfolding abs_simps [abs_def] by (rule codec_le)
interpretation x5: codec int5store_x86_64 uint5korr_x86_64 5
  unfolding abs_simps [abs_def] by (rule codec_le)
interpretation x6: codec int6store_x86_64 uint6korr_x86_64 6
  unfolding abs_simps [abs_def] by (rule codec_le)
interpretation x8: codec int8store_x86_64 uint8korr_x86_64 8
  unfolding abs_simps [abs_def] by (rule codec_le)
interpretation mi2: codec mi_int2store mi_uint2korr 2
  unfolding abs_simps [abs_def] by (rule codec_be)
interpretation mi3: codec mi_int3store mi_uint3korr 3
  unfolding abs_simps [abs_def] by (rule codec_be)
interpretation mi4: codec mi_int4store mi_uint4korr 4
  unfolding abs_simps [abs_def] by (rule codec_be)
interpretation mi5: codec mi_int5store mi_uint5korr 5
  unfolding abs_simps [abs_def] by (rule codec_be)
interpretation mi6: codec mi_int6store mi_uint6korr 6
  unfolding abs_simps [abs_def] by (rule codec_be)
interpretation mi7: codec mi_int7store mi_uint7korr 7
  unfolding abs_simps [abs_def] by (rule codec_be)
interpretation mi8: codec mi_int8store mi_uint8korr 8
  unfolding abs_simps [abs_def] by (rule codec_be)

section \<open>Properties\<close>

lemma ucast_16_32: "ucast (ucast (x :: uint16) :: uint32) = x"
  by (rule bit_word_eqI) (auto simp: bit_simps dest: bit_less)

lemma word_cut:
  "ucast (take_bit 16 (a :: uint32)) = (ucast a :: uint16)"
  "take_bit 32 (a :: uint32) = a" "take_bit 64 (b :: ulonglong) = b"
  by (rule bit_word_eqI, auto simp: bit_simps dest: bit_less)+

lemma signed_loads_x86_64:
  "sint2korr_x86_64 m p = sint2korr m p" "sint3korr_x86_64 m p = sint3korr m p"
  "sint4korr_x86_64 m p = sint4korr m p" "sint8korr_x86_64 m p = sint8korr m p"
  using korr_x86_64_le_load [of m p] korr_le_load [of m p]
  by (simp_all add: sint2korr_x86_64_def sint2korr_def sint3korr_x86_64_def sint3korr_def sint4korr_x86_64_def sint4korr_def
    sint8korr_x86_64_def sint8korr_def uint2korr_x86_64_def uint2korr_def uint4korr_x86_64_def uint4korr_def uint8korr_x86_64_def)

text \<open>C37. The optimised macros for x86-64, which use whole-word loads, stores and the byte-swap
  instruction, compute the same values, unsigned and signed, and the same memory as the byte-by-byte macros.\<close>

theorem x86_64_macros_equiv:
  "uint2korr_x86_64 = uint2korr \<and> uint3korr_x86_64 = uint3korr \<and> uint4korr_x86_64 = uint4korr \<and>
   uint5korr_x86_64 = uint5korr \<and> uint6korr_x86_64 = uint6korr \<and> uint8korr_x86_64 = uint8korr \<and>
   int2store_x86_64 = int2store \<and> int3store_x86_64 = int3store \<and> int4store_x86_64 = int4store \<and>
   int5store_x86_64 = int5store \<and> int6store_x86_64 = int6store \<and> int8store_x86_64 = int8store \<and>
   mi_uint5korr_x86_64 = mi_uint5korr \<and> mi_uint6korr_x86_64 = mi_uint6korr \<and>
   mi_uint7korr_x86_64 = mi_uint7korr \<and> mi_uint8korr_x86_64 = mi_uint8korr \<and>
   sint2korr_x86_64 = sint2korr \<and> sint3korr_x86_64 = sint3korr \<and> sint4korr_x86_64 = sint4korr \<and> sint8korr_x86_64 = sint8korr"
  by (intro conjI ext) (simp_all only: abs_simps signed_loads_x86_64)

text \<open>An integer stored low byte first in 2, 3, 4, 5, 6 or 8 bytes reads back as its value cut to
  that width.\<close>

theorem little_endian_round_trip:
  "uint2korr (int2store m p a) p = ucast a \<and>
   uint3korr (int3store m p a) p = take_bit 24 a \<and>
   uint4korr (int4store m p a) p = a \<and>
   uint5korr (int5store m p b) p = take_bit 40 b \<and>
   uint6korr (int6store m p b) p = take_bit 48 b \<and>
   uint8korr (int8store m p b) p = b"
  using le2.load_store [of m p a] le3.load_store [of m p a] le4.load_store [of m p a]
      le5.load_store [of m p b] le6.load_store [of m p b] le8.load_store [of m p b]
  by (simp add: word_cut)

text \<open>The same for the high-byte-first macros of the storage engines, in 2 to 8 bytes, with row
  numbers and file sizes in their 8-byte form.\<close>

theorem big_endian_round_trip:
  "mi_uint2korr (mi_int2store m p a) p = ucast a \<and>
   mi_uint3korr (mi_int3store m p a) p = take_bit 24 a \<and>
   mi_uint4korr (mi_int4store m p a) p = a \<and>
   mi_uint5korr (mi_int5store m p b) p = take_bit 40 b \<and>
   mi_uint6korr (mi_int6store m p b) p = take_bit 48 b \<and>
   mi_uint7korr (mi_int7store m p b) p = take_bit 56 b \<and>
   mi_uint8korr (mi_int8store m p b) p = b \<and>
   mi_rowkorr True (mi_rowstore True m p b) p = b \<and>
   mi_sizekorr True (mi_sizestore True m p b) p = b"
  using mi2.load_store [of m p a] mi3.load_store [of m p a] mi4.load_store [of m p a]
      mi5.load_store [of m p b] mi6.load_store [of m p b] mi7.load_store [of m p b]
      mi8.load_store [of m p b]
  by (simp add: word_cut mi_rowkorr_def mi_rowstore_def mi_sizekorr_def mi_sizestore_def)

text \<open>The unsigned value of a big-endian field, and the byte comparison that orders keys.\<close>

primrec be_value :: "nat \<Rightarrow> mem \<Rightarrow> nat \<Rightarrow> nat" where
  "be_value 0 m p = 0"
| "be_value (Suc n) m p = unat (m p) * 2 ^ (8 * n) + be_value n m (Suc p)"

primrec memcmp :: "nat \<Rightarrow> mem \<Rightarrow> nat \<Rightarrow> mem \<Rightarrow> nat \<Rightarrow> int" where
  "memcmp 0 m p m' q = 0"
| "memcmp (Suc n) m p m' q =
     (if m p = m' q then memcmp n m (Suc p) m' (Suc q) else if m p < m' q then - 1 else 1)"

lemma be_value_less: "be_value n m p < 2 ^ (8 * n)"
proof (induction n arbitrary: p)
  case (Suc n)
  have "unat (m p) \<le> 255" using unat_less [of "m p"] by simp
  then have "unat (m p) * 2 ^ (8 * n) \<le> 255 * 2 ^ (8 * n)" by (rule mult_right_mono) simp
  moreover have "(2::nat) ^ (8 * Suc n) = 256 * 2 ^ (8 * n)" by (simp add: power_add)
  ultimately show ?case using Suc.IH [of "Suc p"] unfolding be_value.simps by linarith
qed simp

lemma memcmp_be_value: "memcmp n m p m' q = cmp3 (be_value n m p) (be_value n m' q)"
proof (induction n arbitrary: p q)
  case (Suc n)
  have less: "x < y \<Longrightarrow> r < 2 ^ (8 * n) \<Longrightarrow> x * 2 ^ (8 * n) + r < y * 2 ^ (8 * n) + s" for x y r s :: nat
    using mult_le_mono1 [of "Suc x" y "2 ^ (8 * n)"] by simp
  show ?case
  proof (cases "m p = m' q")
    case True
    then show ?thesis by (simp add: Suc.IH cmp3_def)
  next
    case False
    then have "unat (m p) < unat (m' q) \<or> unat (m' q) < unat (m p)"
      by (metis linorder_neqE_nat word_unat_eq_iff)
    then show ?thesis
      using less [of "unat (m p)" "unat (m' q)" "be_value n m (Suc p)" "be_value n m' (Suc q)"]
        less [of "unat (m' q)" "unat (m p)" "be_value n m' (Suc q)" "be_value n m (Suc p)"]
        be_value_less [of n m "Suc p"] be_value_less [of n m' "Suc q"]
      by (auto simp: cmp3_def word_less_nat_alt)
  qed
qed (simp add: cmp3_def)

lemma unat_be_load: "8 * n \<le> LENGTH('a) \<Longrightarrow> unat (be_load n m p :: 'a::len word) = be_value n m p"
proof (induction n arbitrary: p)
  case (Suc n)
  let ?hi = "push_bit (8 * n) (ucast (m p)) :: 'a word" and ?lo = "be_load n m (Suc p) :: 'a word"
  have "?hi AND ?lo = 0" by (rule bit_word_eqI) (auto simp: bits_of bit_simps)
  then have sum: "?hi OR ?lo = ?hi + ?lo" by (rule disjunctive_add_eq_or [symmetric])
  have top: "be_value (Suc n) m p < 2 ^ LENGTH('a)"
    using be_value_less [of "Suc n" m p] power_increasing [OF Suc.prems, of "2::nat"] by linarith
  have "unat (m p) < 2 ^ LENGTH('a)"
    using unat_less [of "m p"] power_increasing [of 8 "LENGTH('a)" "2::nat"] Suc.prems by simp
  then have "unat (ucast (m p) :: 'a word) = unat (m p)"
    by (simp add: unsigned_ucast_eq take_bit_nat_eq_self)
  then have "unat ?hi = unat (m p) * 2 ^ (8 * n)"
    using top unsigned_push_bit_eq [of "8 * n" "ucast (m p) :: 'a word", where 'a = nat]
    by (simp add: push_bit_eq_mult take_bit_nat_eq_self)
  moreover have "unat ?lo = be_value n m (Suc p)" using Suc by simp
  ultimately show ?case using top by (simp add: sum unat_word_ariths)
qed simp

lemma memcmp_be_load:
  assumes "8 * n \<le> LENGTH('a)"
  shows "memcmp n m p m' q = cmp3 (be_load n m p :: 'a::len word) (be_load n m' q)"
  unfolding memcmp_be_value cmp3_def word_less_nat_alt word_unat_eq_iff
  by (simp add: unat_be_load [OF assms])

text \<open>High-byte-first storage keeps the order: comparing the stored bytes of two unsigned keys
  with \<^verbatim>\<open>memcmp\<close> gives the comparison of the keys, for 2-, 4- and 8-byte keys.\<close>

theorem mi_store_order:
  "memcmp 2 (mi_int2store m p (ucast x)) p (mi_int2store m' q (ucast y)) q = cmp3 (x :: uint16) y \<and>
   memcmp 4 (mi_int4store m p a) p (mi_int4store m' q b) q = cmp3 a b \<and>
   memcmp 8 (mi_int8store m p c) p (mi_int8store m' q d) q = cmp3 c d"
proof -
  have "be_load 2 (mi_int2store m p (ucast x)) p = x" for m p and x :: uint16
    using mi2.load_store [of m p "ucast x"] by (simp only: mi_korr_be_load) (simp add: word_cut ucast_16_32)
  moreover have "be_load 4 (mi_int4store m p a) p = a" for m p a
    using mi4.load_store [of m p a] by (simp only: mi_korr_be_load) (simp add: word_cut)
  moreover have "be_load 8 (mi_int8store m p c) p = c" for m p c
    using mi8.load_store [of m p c] by (simp only: mi_korr_be_load) (simp add: word_cut)
  ultimately show ?thesis
    using memcmp_be_load [of 2, where 'a = 16] memcmp_be_load [of 4, where 'a = 32]
      memcmp_be_load [of 8, where 'a = 64] by simp
qed

lemma sint3_le: "sint3korr m p = signed_take_bit 23 (le_load 3 m p)"
  and sint3_be: "mi_sint3korr m p = signed_take_bit 23 (be_load 3 m p)"
proof -
  have sign: "b AND 128 \<noteq> 0 \<longleftrightarrow> bit b 7" for b :: uchar
    using and_push_bit_1_eq_0_iff [of 7 b] by simp
  have "(if bit b 7 then push_bit 24 255 OR w else w) = signed_take_bit 23 (w :: uint32)"
    if w: "\<And>i. bit w i \<Longrightarrow> i < 24" "bit w 23 = bit b 7" for w and b :: uchar
  proof (rule bit_word_eqI)
    fix i assume "i < LENGTH(32)"
    then show "bit (if bit b 7 then push_bit 24 255 OR w else w) i = bit (signed_take_bit 23 w) i"
      using w(1) [of i] w(2)
      by (cases "i = 23"; cases "i < 24") (auto simp: mask_255 bit_simps min_def)
  qed
  note ext = this
  have w1: "bit (le_load 3 m p :: uint32) i \<Longrightarrow> i < 24" "bit (le_load 3 m p :: uint32) 23 = bit (m (p + 2)) 7"
    and w2: "bit (be_load 3 m p :: uint32) i \<Longrightarrow> i < 24" "bit (be_load 3 m p :: uint32) 23 = bit (m p) 7" for i
    by (simp_all add: bits_of del: le_load_numeral be_load_numeral)
  show "sint3korr m p = signed_take_bit 23 (le_load 3 m p)"
    using ext [of "le_load 3 m p" "m (p + 2)", OF w1] unfolding sint3korr_def sign
    by (simp add: unroll ac_simps split: if_splits)
  show "mi_sint3korr m p = signed_take_bit 23 (be_load 3 m p)"
    using ext [of "be_load 3 m p" "m p", OF w2] unfolding mi_sint3korr_def sign
    by (simp add: unroll ac_simps split: if_splits)
qed

lemma signed_24_bit:
  fixes a :: uint32
  assumes "- (2 ^ 23) \<le> sint a" and "sint a < 2 ^ 23"
  shows "signed_take_bit 23 (take_bit 24 a) = a"
proof -
  have "signed_take_bit 23 (sint a) = sint a" using assms by (simp add: signed_take_bit_int_eq_self)
  then have "signed_take_bit 23 (of_int (sint a)) = (of_int (sint a) :: uint32)"
    by (metis of_int_signed_take_bit)
  moreover have "signed_take_bit 23 (take_bit 24 a) = signed_take_bit 23 a"
    by (rule bit_word_eqI) (simp add: bit_simps min_def)
  ultimately show ?thesis by simp
qed

text \<open>A signed number of 24 bits survives storing and sign-extending reading in 3 bytes, in both
  byte orders.\<close>

theorem sint3korr_round_trip:
  assumes "- (2 ^ 23) \<le> sint a" and "sint a < 2 ^ 23"
  shows "sint3korr (int3store m p a) p = a \<and> mi_sint3korr (mi_int3store m p a) p = a"
proof -
  have "le_load 3 (int3store m p a) p = take_bit 24 a" "be_load 3 (mi_int3store m p a) p = take_bit 24 a"
    using le3.load_store [of m p a] mi3.load_store [of m p a] by (simp_all only: korr_le_load mi_korr_be_load) simp_all
  then show ?thesis by (simp only: sint3_le sint3_be signed_24_bit [OF assms])
qed

theorem sint3korr_round_trip_witness:
  "sint3korr (int3store (\<lambda>_. 0) 0 (- 5)) 0 = - 5 \<and> mi_sint3korr (mi_int3store (\<lambda>_. 0) 0 (- 5)) 0 = - 5"
  using sint3korr_round_trip [of "- 5" "\<lambda>_. 0" 0] by simp

text \<open>Values stored one after the other in 3-byte fields, as in a row of medium integers, are all
  still readable when the last one has been stored: later fields never damage earlier ones.\<close>

theorem int3store_row:
  assumes "i < length vs"
  shows "uint3korr (store_all int3store 3 m p vs) (p + i * 3) = take_bit 24 (vs ! i)"
  using le3.load_store_all [OF assms, of m p] by simp

theorem int3store_row_witness:
  "uint3korr (store_all int3store 3 (\<lambda>_. 0) 100 [7, 258, 9]) (100 + 1 * 3) = 258"
  using int3store_row [of 1 "[7, 258, 9]" "\<lambda>_. 0" 100] by simp

text \<open>Floating-point values: in each of the three byte-order variants of the preprocessor,
  reading back a stored double gives its object representation.\<close>

theorem mi_float8_round_trip:
  "map (mi_float8get_be (mi_float8store_be m p v) p) [0..<8] = map v [0..<8] \<and>
   map (mi_float8get_mixed (mi_float8store_mixed m p v) p) [0..<8] = map v [0..<8] \<and>
   map (mi_float8get_le (mi_float8store_le m p v) p) [0..<8] = map v [0..<8] \<and>
   map (mi_float4get_be (mi_float4store_be m p v) p) [0..<4] = map v [0..<4] \<and>
   map (mi_float4get_le (mi_float4store_le m p v) p) [0..<4] = map v [0..<4]"
  by (simp add: mi_float8get_be_def mi_float8store_be_def mi_float8get_mixed_def mi_float8store_mixed_def
      mi_float8get_le_def mi_float8store_le_def mi_float4get_be_def mi_float4store_be_def
      mi_float4get_le_def mi_float4store_le_def upt_rec) (simp add: numeral_eq_Suc)

end
