(* ===== verification/Int_Types.thy ===== *)
theory Int_Types
  imports Bits
begin

text \<open>
  The integer value classes of \<^verbatim>\<open>sql_type_int.h\<close>: nullable 64-bit integers with SQL's bitwise
  operators, and the signed/unsigned hybrid that holds the result of \<^verbatim>\<open>val_int()\<close>. The classes
  are records that extend each other the way the C++ classes inherit. A \<^verbatim>\<open>longlong\<close> is a 64-bit
  word read with \<^const>\<open>sint\<close>, its conversion to \<^verbatim>\<open>ulonglong\<close> keeps the bits.
\<close>

section \<open>Longlong and Longlong\_null\<close>

record Longlong =
  m_value :: ulonglong

record Longlong_null = Longlong +
  m_is_null :: bool

definition mk_null :: Longlong_null where
  "mk_null = \<lparr>m_value = 0, m_is_null = True\<rparr>"

definition mk_value :: "ulonglong \<Rightarrow> Longlong_null" where
  "mk_value nr = \<lparr>m_value = nr, m_is_null = False\<rparr>"

definition or_op :: "Longlong_null \<Rightarrow> Longlong_null \<Rightarrow> Longlong_null" where
  "or_op a b = (if m_is_null a \<or> m_is_null b then mk_null else mk_value (m_value a OR m_value b))"

definition and_op :: "Longlong_null \<Rightarrow> Longlong_null \<Rightarrow> Longlong_null" where
  "and_op a b = (if m_is_null a \<or> m_is_null b then mk_null else mk_value (m_value a AND m_value b))"

definition xor_op :: "Longlong_null \<Rightarrow> Longlong_null \<Rightarrow> Longlong_null" where
  "xor_op a b = (if m_is_null a \<or> m_is_null b then mk_null else mk_value (m_value a XOR m_value b))"

definition not_op :: "Longlong_null \<Rightarrow> Longlong_null" where
  "not_op a = (if m_is_null a then a else mk_value (NOT (m_value a)))"

definition shl_op :: "Longlong_null \<Rightarrow> Longlong_null \<Rightarrow> Longlong_null" where
  "shl_op a llshift =
     (if m_is_null a \<or> m_is_null llshift then mk_null
      else let shift = ucast (m_value llshift) :: uint32;
               res = (if shift < 8 * 8 then push_bit (unat shift) (m_value a) else 0)
           in mk_value res)"

definition shr_op :: "Longlong_null \<Rightarrow> Longlong_null \<Rightarrow> Longlong_null" where
  "shr_op a llshift =
     (if m_is_null a \<or> m_is_null llshift then mk_null
      else let shift = ucast (m_value llshift) :: uint32;
               res = (if shift < 8 * 8 then drop_bit (unat shift) (m_value a) else 0)
           in mk_value res)"

definition bit_count :: "Longlong_null \<Rightarrow> Longlong_null" where
  "bit_count a = (if m_is_null a then a else mk_value (ucast (my_count_bits (m_value a))))"

section \<open>Longlong\_hybrid\<close>

record Longlong_hybrid = Longlong +
  m_unsigned :: bool

definition mk_hybrid :: "ulonglong \<Rightarrow> bool \<Rightarrow> Longlong_hybrid" where
  "mk_hybrid nr unsigned_flag = \<lparr>m_value = nr, m_unsigned = unsigned_flag\<rparr>"

definition cmp_signed :: "Longlong_hybrid \<Rightarrow> Longlong_hybrid \<Rightarrow> int" where
  "cmp_signed a b =
     (if sint (m_value a) < sint (m_value b) then - 1
      else if m_value a = m_value b then 0 else 1)"

definition cmp_unsigned :: "Longlong_hybrid \<Rightarrow> Longlong_hybrid \<Rightarrow> int" where
  "cmp_unsigned a b =
     (if m_value a < m_value b then - 1 else if m_value a = m_value b then 0 else 1)"

definition LONGLONG_MAX :: ulonglong where "LONGLONG_MAX = 0x7FFFFFFFFFFFFFFF"
definition LONGLONG_MIN :: ulonglong where "LONGLONG_MIN = 0x8000000000000000"

definition is_unsigned_outside_of_signed_range :: "Longlong_hybrid \<Rightarrow> bool" where
  "is_unsigned_outside_of_signed_range a \<longleftrightarrow> m_unsigned a \<and> LONGLONG_MAX < m_value a"

definition neg :: "Longlong_hybrid \<Rightarrow> bool" where
  "neg a \<longleftrightarrow> sint (m_value a) < 0 \<and> \<not> m_unsigned a"

definition hybrid_abs :: "Longlong_hybrid \<Rightarrow> ulonglong" where
  "hybrid_abs a =
     (if m_unsigned a then m_value a
      else if m_value a = LONGLONG_MIN then LONGLONG_MAX + 1
      else if sint (m_value a) < 0 then - m_value a else m_value a)"

definition to_ulonglong :: "Longlong_hybrid \<Rightarrow> ulonglong \<Rightarrow> ulonglong" where
  "to_ulonglong a upper_bound =
     (if neg a then 0 else if upper_bound < m_value a then upper_bound else m_value a)"

definition to_uint :: "Longlong_hybrid \<Rightarrow> uint32 \<Rightarrow> uint32" where
  "to_uint a upper_bound = ucast (to_ulonglong a (ucast upper_bound))"

definition cmp :: "Longlong_hybrid \<Rightarrow> Longlong_hybrid \<Rightarrow> int" where
  "cmp a b =
     (if m_unsigned a = m_unsigned b
      then (if m_unsigned a then cmp_unsigned a b else cmp_signed a b)
      else if is_unsigned_outside_of_signed_range a then 1
      else if is_unsigned_outside_of_signed_range b then - 1
      else cmp_signed a b)"

definition eq_hybrid :: "Longlong_hybrid \<Rightarrow> Longlong_hybrid \<Rightarrow> bool" where
  "eq_hybrid a b \<longleftrightarrow> cmp a b = 0"

definition eq_ulonglong :: "Longlong_hybrid \<Rightarrow> ulonglong \<Rightarrow> bool" where
  "eq_ulonglong a nr \<longleftrightarrow> cmp a (mk_hybrid nr True) = 0"

definition eq_uint :: "Longlong_hybrid \<Rightarrow> uint32 \<Rightarrow> bool" where
  "eq_uint a nr \<longleftrightarrow> cmp a (mk_hybrid (ucast nr) True) = 0"

definition eq_longlong :: "Longlong_hybrid \<Rightarrow> ulonglong \<Rightarrow> bool" where
  "eq_longlong a nr \<longleftrightarrow> cmp a (mk_hybrid nr False) = 0"

definition eq_int :: "Longlong_hybrid \<Rightarrow> uint32 \<Rightarrow> bool" where
  "eq_int a nr \<longleftrightarrow> cmp a (mk_hybrid (scast nr) False) = 0"

section \<open>Longlong\_hybrid\_null\<close>

record Longlong_hybrid_null = Longlong_hybrid +
  m_hybrid_is_null :: bool

definition mk_hybrid_null :: "Longlong_null \<Rightarrow> bool \<Rightarrow> Longlong_hybrid_null" where
  "mk_hybrid_null nr unsigned_flag =
     \<lparr>m_value = m_value nr, m_unsigned = unsigned_flag, m_hybrid_is_null = m_is_null nr\<rparr>"

section \<open>Correctness\<close>

text \<open>The number a hybrid denotes, and the SQL value a nullable integer denotes.\<close>

definition hybrid_val :: "Longlong_hybrid \<Rightarrow> int" where
  "hybrid_val a = (if m_unsigned a then uint (m_value a) else sint (m_value a))"

definition sql_val :: "Longlong_null \<Rightarrow> ulonglong option" where
  "sql_val a = (if m_is_null a then None else Some (m_value a))"

lemma uint_range_64: "0 \<le> uint (w :: ulonglong) \<and> uint w < 2 ^ 64"
  using unsigned_less [of w] by simp

lemma sint_uint_64:
  "sint (w :: ulonglong) = (if uint w < 2 ^ 63 then uint w else uint w - 2 ^ 64)"
proof -
  have "sint w = signed_take_bit 63 (uint w)" by (simp add: sint_uint)
  also have "\<dots> = uint w - 2 ^ 64 * of_bool (bit (uint w) 63)"
    using uint_range_64 [of w] by (simp add: signed_take_bit_eq_take_bit_minus take_bit_int_eq_self)
  also have "bit (uint w) 63 \<longleftrightarrow> \<not> uint w < 2 ^ 63"
  proof -
    have "uint w div 2 ^ 63 = (if uint w < 2 ^ 63 then 0 else 1)"
      using uint_range_64 [of w] by (auto simp: div_pos_pos_trivial intro: int_div_pos_eq [of _ _ _ "uint w - 2 ^ 63"])
    then show ?thesis by (simp add: bit_iff_odd)
  qed
  finally show ?thesis by auto
qed

lemma word_eq_uint_64: "v = w \<longleftrightarrow> uint (v :: ulonglong) = uint w"
  by (simp add: word_uint_eq_iff)

lemma LONGLONG_uint: "uint LONGLONG_MAX = 2 ^ 63 - 1" "uint LONGLONG_MIN = 2 ^ 63"
  by (simp_all add: LONGLONG_MAX_def LONGLONG_MIN_def)

lemmas hybrid_defs = hybrid_val_def sint_uint_64 word_eq_uint_64 word_less_def LONGLONG_uint
  is_unsigned_outside_of_signed_range_def neg_def

lemma cmp_signed_cmp3:
  "cmp_signed a b = cmp3 (sint (m_value a)) (sint (m_value b))"
  using uint_range_64 [of "m_value a"] uint_range_64 [of "m_value b"]
  by (auto simp: cmp_signed_def cmp3_def sint_uint_64 word_eq_uint_64; insert uint_range_64 [of "m_value a"] uint_range_64 [of "m_value b"]; linarith)

lemma cmp_unsigned_cmp3:
  "cmp_unsigned a b = cmp3 (uint (m_value a)) (uint (m_value b))"
  by (auto simp: cmp_unsigned_def cmp3_def word_eq_uint_64 word_less_def)

lemma cmp_cmp3: "cmp a b = cmp3 (hybrid_val a) (hybrid_val b)"
  using uint_range_64 [of "m_value a"] uint_range_64 [of "m_value b"]
  by (auto simp: cmp_def cmp_signed_cmp3 cmp_unsigned_cmp3 hybrid_defs cmp3_def; insert uint_range_64 [of "m_value a"] uint_range_64 [of "m_value b"]; linarith)

lemma uint_uminus_64: "uint (- w :: ulonglong) = (if uint w = 0 then 0 else 2 ^ 64 - uint w)"
  using uint_range_64 [of w] by (auto simp: uint_word_ariths zmod_zminus1_eq_if)

lemma uint_hybrid_abs: "uint (hybrid_abs a) = \<bar>hybrid_val a\<bar>"
proof -
  have max1: "uint (LONGLONG_MAX + 1) = 2 ^ 63" by (simp add: LONGLONG_MAX_def)
  show ?thesis
    using uint_range_64 [of "m_value a"]
    by (auto simp: hybrid_abs_def hybrid_defs max1 uint_uminus_64)
qed

lemma uint_to_ulonglong:
  "uint (to_ulonglong a upper_bound) = max 0 (min (hybrid_val a) (uint upper_bound))"
  using uint_range_64 [of "m_value a"] uint_range_64 [of upper_bound]
  by (auto simp: to_ulonglong_def hybrid_defs)

lemma uint_less_32: "uint (n :: uint32) < 2 ^ 32"
  using unsigned_less [of n] by simp

lemma uint_ucast_32: "uint (ucast (n :: uint32) :: ulonglong) = uint n"
  using uint_less_32 [of n] by (simp add: unsigned_ucast_eq take_bit_int_eq_self)

lemma sint_scast_32: "sint (scast (n :: uint32) :: ulonglong) = sint n"
proof -
  have "sint (scast n :: ulonglong) = signed_take_bit 63 (sint n)"
    by (simp add: signed_scast_eq)
  also have "\<dots> = signed_take_bit 63 (signed_take_bit 31 (uint n))" by (simp add: sint_uint)
  also have "\<dots> = signed_take_bit 31 (uint n)"
    by (simp add: min_def)
  finally show ?thesis by (simp add: sint_uint)
qed

lemma shift_count:
  "unat (ucast (s :: ulonglong) :: uint32) = unat s mod 2 ^ 32"
  "(ucast (s :: ulonglong) :: uint32) < 64 \<longleftrightarrow> unat s mod 2 ^ 32 < 64"
  by (simp_all add: unsigned_ucast_eq word_less_nat_alt take_bit_eq_mod)

lemma shift_ge_64:
  "\<not> n < 64 \<Longrightarrow> push_bit n (v :: ulonglong) = 0"
  "\<not> n < 64 \<Longrightarrow> drop_bit n (v :: ulonglong) = 0"
  by (auto intro!: bit_word_eqI simp: bit_simps dest: bit_less)

lemma count_ucast: "ucast (my_count_bits v) = (of_nat (pop_count v) :: ulonglong)"
proof -
  have "unat (my_count_bits v) = pop_count v" by (rule my_count_bits_pop_count)
  then have "of_nat (unat (my_count_bits v)) = (of_nat (pop_count v) :: ulonglong)" by simp
  then show ?thesis by simp
qed

text \<open>Strict lifting of a binary operation to nullable integers.\<close>

definition lift2_val ::
  "(ulonglong \<Rightarrow> ulonglong \<Rightarrow> ulonglong) \<Rightarrow> Longlong_null \<Rightarrow> Longlong_null \<Rightarrow> ulonglong option" where
  "lift2_val f a b =
     (case sql_val a of None \<Rightarrow> None | Some v \<Rightarrow> map_option (f v) (sql_val b))"

lemma hybrid_val_mk [simp]:
  "hybrid_val (mk_hybrid nr True) = uint nr" "hybrid_val (mk_hybrid nr False) = sint nr"
  by (simp_all add: hybrid_val_def mk_hybrid_def)

text \<open>Comparing two hybrids of any signedness compares the numbers they denote, although the
  code only compares 64-bit words; the five equality tests decide equality with the denoted
  number, for arguments of each width and signedness.\<close>

theorem longlong_hybrid_cmp_correct:
  "cmp a b = cmp3 (hybrid_val a) (hybrid_val b)
   \<and> (eq_hybrid a b \<longleftrightarrow> hybrid_val a = hybrid_val b)
   \<and> (eq_ulonglong a nr \<longleftrightarrow> hybrid_val a = uint nr)
   \<and> (eq_longlong a nr \<longleftrightarrow> hybrid_val a = sint nr)
   \<and> (eq_uint a n \<longleftrightarrow> hybrid_val a = uint n)
   \<and> (eq_int a n \<longleftrightarrow> hybrid_val a = sint n)"
  by (simp add: cmp_cmp3 eq_hybrid_def eq_ulonglong_def eq_longlong_def eq_uint_def eq_int_def
      sint_scast_32 uint_ucast_32 del: unsigned_ucast_eq)

text \<open>The absolute value is the mathematical one on the whole range, the smallest signed
  value included; conversion to an unsigned number clamps the denoted value to the interval from
  0 to the given bound, at 64 and at 32 bits.\<close>

theorem longlong_hybrid_conversions:
  "uint (hybrid_abs a) = \<bar>hybrid_val a\<bar>
   \<and> uint (to_ulonglong a bound) = max 0 (min (hybrid_val a) (uint bound))
   \<and> uint (to_uint a bound32) = max 0 (min (hybrid_val a) (uint bound32))"
proof -
  have "uint (to_uint a bound32) = take_bit 32 (uint (to_ulonglong a (ucast bound32)))"
    by (simp add: to_uint_def unsigned_ucast_eq)
  also have "\<dots> = uint (to_ulonglong a (ucast bound32))"
    by (intro take_bit_int_eq_self)
       (use uint_less_32 [of bound32] in \<open>simp_all add: uint_to_ulonglong uint_ucast_32 max_def min_less_iff_disj del: unsigned_ucast_eq\<close>)
  finally show ?thesis
    by (simp add: uint_hybrid_abs uint_to_ulonglong uint_ucast_32)
qed

text \<open>The SQL operators on nullable integers return NULL exactly when an operand is NULL;
  otherwise they compute bitwise on the 64-bit values, and the shift count that counts is the
  right operand modulo 2 to the 32: counts from 64 on give 0, but a count of 2 to the 32 shifts
  by nothing.\<close>

theorem longlong_null_operators:
  "sql_val (or_op a b) = lift2_val (OR) a b
   \<and> sql_val (and_op a b) = lift2_val (AND) a b
   \<and> sql_val (xor_op a b) = lift2_val (XOR) a b
   \<and> sql_val (not_op a) = map_option NOT (sql_val a)
   \<and> sql_val (shl_op a b) = lift2_val (\<lambda>v s. push_bit (unat s mod 2 ^ 32) v) a b
   \<and> sql_val (shr_op a b) = lift2_val (\<lambda>v s. drop_bit (unat s mod 2 ^ 32) v) a b
   \<and> sql_val (bit_count a) = map_option (\<lambda>v. of_nat (pop_count v)) (sql_val a)"
  by (simp add: lift2_val_def sql_val_def or_op_def and_op_def xor_op_def not_op_def shl_op_def
      shr_op_def bit_count_def mk_null_def mk_value_def Let_def shift_count shift_ge_64
      count_ucast)

end
