(* ===== verification/Sql_Bitmap.thy ===== *)
theory Sql_Bitmap
  imports Bits
begin

text \<open>
  The bitmaps of \<^verbatim>\<open>sql_bitmap.h\<close> (key maps and column sets of the optimizer) and their iterators.
  The template parameter \<^verbatim>\<open>width\<close> is the first argument of every operation; an index is a natural
  number below it, so that the 32-bit index arithmetic of the code does not wrap. A bitmap is its
  array of 64-bit elements. The theory shows that the class implements finite sets of numbers below
  its width, and that the iterator enumerates exactly that set in increasing order.
\<close>

section \<open>Table\_map\_iterator\<close>

record Table_map_iterator =
  bmp :: ulonglong

definition TMI_BITMAP_END :: nat where "TMI_BITMAP_END = 64"

text \<open>\<^const>\<open>None\<close> stands for a search that does not return; it is shown never to occur.\<close>

definition next_bit :: "Table_map_iterator \<Rightarrow> (nat \<times> Table_map_iterator) option" where
  "next_bit t =
     (if bmp t = 0 then Some (TMI_BITMAP_END, t)
      else case my_find_first_bit (bmp t) of None \<Rightarrow> None
           | Some b \<Rightarrow> Some (unat b, t\<lparr>bmp := bmp t AND NOT (push_bit (unat b) 1)\<rparr>))"

section \<open>Bitmap\<close>

record Bitmap =
  buffer :: "ulonglong list"

definition BITS_PER_ELEMENT :: nat where "BITS_PER_ELEMENT = 64"

definition ARRAY_ELEMENTS :: "nat \<Rightarrow> nat" where
  "ARRAY_ELEMENTS width = (width + BITS_PER_ELEMENT - 1) div BITS_PER_ELEMENT"

definition ALL_BITS_SET :: ulonglong where "ALL_BITS_SET = - 1"

definition bit_index :: "nat \<Rightarrow> nat \<Rightarrow> nat" where
  "bit_index width n = (if ARRAY_ELEMENTS width = 1 then 0 else n div BITS_PER_ELEMENT)"

definition bit_mask :: "nat \<Rightarrow> nat \<Rightarrow> ulonglong" where
  "bit_mask width n =
     (if ARRAY_ELEMENTS width = 1 then push_bit n 1 else push_bit (n mod BITS_PER_ELEMENT) 1)"

definition last_element_mask :: "nat \<Rightarrow> nat \<Rightarrow> ulonglong" where
  "last_element_mask width n = bit_mask width n - 1"

definition bm_set_bit :: "nat \<Rightarrow> nat \<Rightarrow> Bitmap \<Rightarrow> Bitmap" where
  "bm_set_bit width n b =
     b\<lparr>buffer := (buffer b)[bit_index width n :=
        buffer b ! bit_index width n OR bit_mask width n]\<rparr>"

definition clear_bit :: "nat \<Rightarrow> nat \<Rightarrow> Bitmap \<Rightarrow> Bitmap" where
  "clear_bit width n b =
     b\<lparr>buffer := (buffer b)[bit_index width n :=
        buffer b ! bit_index width n AND NOT (bit_mask width n)]\<rparr>"

definition is_set :: "nat \<Rightarrow> nat \<Rightarrow> Bitmap \<Rightarrow> bool" where
  "is_set width n b \<longleftrightarrow> buffer b ! bit_index width n AND bit_mask width n \<noteq> 0"

definition set_prefix :: "nat \<Rightarrow> nat \<Rightarrow> Bitmap \<Rightarrow> Bitmap" where
  "set_prefix width prefix_size b =
     (let prefix_size = (if prefix_size > width then width else prefix_size);
          idx = prefix_size div BITS_PER_ELEMENT;
          full = replicate idx ALL_BITS_SET;
          part = (if prefix_size mod BITS_PER_ELEMENT \<noteq> 0
                  then [last_element_mask width prefix_size] else []);
          idx' = idx + length part
      in b\<lparr>buffer := full @ part @ replicate (ARRAY_ELEMENTS width - idx') 0\<rparr>)"

definition is_prefix :: "nat \<Rightarrow> nat \<Rightarrow> Bitmap \<Rightarrow> bool" where
  "is_prefix width prefix_size b =
     (let idx = prefix_size div BITS_PER_ELEMENT;
          part = prefix_size mod BITS_PER_ELEMENT \<noteq> 0
      in if \<exists>i\<in>set [0..<idx]. buffer b ! i \<noteq> ALL_BITS_SET then False
         else if part \<and> buffer b ! idx \<noteq> last_element_mask width prefix_size then False
         else let idx' = (if part then idx + 1 else idx)
              in \<forall>i\<in>set [idx'..<ARRAY_ELEMENTS width]. buffer b ! i = 0)"

definition set_all :: "nat \<Rightarrow> Bitmap \<Rightarrow> Bitmap" where
  "set_all width b =
     (if width mod BITS_PER_ELEMENT \<noteq> 0 then set_prefix width width b
      else if ARRAY_ELEMENTS width > 1
      then b\<lparr>buffer := replicate (ARRAY_ELEMENTS width) (- 1)\<rparr>
      else b\<lparr>buffer := (buffer b)[0 := ALL_BITS_SET]\<rparr>)"

definition clear_all :: "nat \<Rightarrow> Bitmap \<Rightarrow> Bitmap" where
  "clear_all width b =
     (if ARRAY_ELEMENTS width > 1
      then b\<lparr>buffer := replicate (ARRAY_ELEMENTS width) 0\<rparr>
      else b\<lparr>buffer := (buffer b)[0 := 0]\<rparr>)"

text \<open>The loops that combine two bitmaps element by element.\<close>

definition zip_elements ::
  "nat \<Rightarrow> (ulonglong \<Rightarrow> ulonglong \<Rightarrow> ulonglong) \<Rightarrow> Bitmap \<Rightarrow> Bitmap \<Rightarrow> Bitmap" where
  "zip_elements width f b other =
     b\<lparr>buffer := map (\<lambda>i. f (buffer b ! i) (buffer other ! i)) [0..<ARRAY_ELEMENTS width]\<rparr>"

definition intersect :: "nat \<Rightarrow> Bitmap \<Rightarrow> Bitmap \<Rightarrow> Bitmap" where
  "intersect width b other = zip_elements width (\<lambda>x y. x AND y) b other"

definition subtract :: "nat \<Rightarrow> Bitmap \<Rightarrow> Bitmap \<Rightarrow> Bitmap" where
  "subtract width b other = zip_elements width (\<lambda>x y. x AND NOT y) b other"

definition merge :: "nat \<Rightarrow> Bitmap \<Rightarrow> Bitmap \<Rightarrow> Bitmap" where
  "merge width b other = zip_elements width (\<lambda>x y. x OR y) b other"

definition intersect_and_pad :: "nat \<Rightarrow> ulonglong \<Rightarrow> bool \<Rightarrow> Bitmap \<Rightarrow> Bitmap" where
  "intersect_and_pad width map2buff pad_with_ones b =
     (let first = buffer b ! 0 AND map2buff;
          rest = replicate (ARRAY_ELEMENTS width - 1) (if pad_with_ones then ALL_BITS_SET else 0);
          buf = first # rest
      in b\<lparr>buffer :=
           if ARRAY_ELEMENTS width > 1 \<and> width mod BITS_PER_ELEMENT \<noteq> 0 \<and> pad_with_ones
           then buf[ARRAY_ELEMENTS width - 1 := last_element_mask width width] else buf\<rparr>)"

definition intersect_ulonglong :: "nat \<Rightarrow> ulonglong \<Rightarrow> Bitmap \<Rightarrow> Bitmap" where
  "intersect_ulonglong width map2buff b = intersect_and_pad width map2buff False b"

definition intersect_extended :: "nat \<Rightarrow> ulonglong \<Rightarrow> Bitmap \<Rightarrow> Bitmap" where
  "intersect_extended width map2buff b =
     intersect_and_pad width map2buff (map2buff AND push_bit 63 1 \<noteq> 0) b"

definition is_clear_all :: "nat \<Rightarrow> Bitmap \<Rightarrow> bool" where
  "is_clear_all width b \<longleftrightarrow> (\<forall>i\<in>set [0..<ARRAY_ELEMENTS width]. buffer b ! i = 0)"

definition is_subset :: "nat \<Rightarrow> Bitmap \<Rightarrow> Bitmap \<Rightarrow> bool" where
  "is_subset width b other \<longleftrightarrow>
     (\<forall>i\<in>set [0..<ARRAY_ELEMENTS width]. buffer b ! i AND NOT (buffer other ! i) = 0)"

definition is_overlapping :: "nat \<Rightarrow> Bitmap \<Rightarrow> Bitmap \<Rightarrow> bool" where
  "is_overlapping width b other \<longleftrightarrow>
     (\<exists>i\<in>set [0..<ARRAY_ELEMENTS width]. buffer b ! i AND buffer other ! i \<noteq> 0)"

definition bitmap_eq :: "nat \<Rightarrow> Bitmap \<Rightarrow> Bitmap \<Rightarrow> bool" where
  "bitmap_eq width b other \<longleftrightarrow>
     (if ARRAY_ELEMENTS width > 1 then buffer b = buffer other
      else buffer b ! 0 = buffer other ! 0)"

definition bitmap_to_ulonglong :: "Bitmap \<Rightarrow> ulonglong" where
  "bitmap_to_ulonglong b = buffer b ! 0"

definition bits_set :: "nat \<Rightarrow> Bitmap \<Rightarrow> uint32" where
  "bits_set width b =
     foldl (\<lambda>res i. res + my_count_bits (buffer b ! i)) 0 [0..<ARRAY_ELEMENTS width]"

section \<open>Iterator\<close>

record Iterator =
  offset :: nat
  tmi :: Table_map_iterator

definition mk_Iterator :: "Bitmap \<Rightarrow> Iterator" where
  "mk_Iterator other = \<lparr>offset = 0, tmi = \<lparr>bmp = buffer other ! 0\<rparr>\<rparr>"

text \<open>The endless loop of \<^verbatim>\<open>operator++\<close>: it leaves an element whose bits are used up for the next
  one, until a bit is found or the width is reached.\<close>

function iterator_next :: "nat \<Rightarrow> Bitmap \<Rightarrow> Iterator \<Rightarrow> (nat \<times> Iterator) option" where
  "iterator_next width b it =
     (case next_bit (tmi it) of None \<Rightarrow> None
      | Some (nextbit, t) \<Rightarrow>
         if nextbit \<noteq> TMI_BITMAP_END then Some (offset it + nextbit, it\<lparr>tmi := t\<rparr>)
         else if offset it + BITS_PER_ELEMENT \<ge> width then Some (width, it\<lparr>tmi := t\<rparr>)
         else let off = offset it + BITS_PER_ELEMENT
              in iterator_next width b
                   \<lparr>offset = off, tmi = \<lparr>bmp = buffer b ! (off div BITS_PER_ELEMENT)\<rparr>\<rparr>)"
  by pat_completeness auto
termination
  by (relation "measure (\<lambda>(width, b, it). width - offset it)") (auto simp: BITS_PER_ELEMENT_def)

declare iterator_next.simps [simp del]

section \<open>The set a bitmap denotes\<close>

definition bset :: "Bitmap \<Rightarrow> nat set" where
  "bset b = {n. n div 64 < length (buffer b) \<and> bit (buffer b ! (n div 64)) (n mod 64)}"

text \<open>A bitmap in memory has the declared number of elements; an initialised one has no bit at or
  above its width.\<close>

definition bm_raw :: "nat \<Rightarrow> Bitmap \<Rightarrow> bool" where
  "bm_raw width b \<longleftrightarrow> 0 < width \<and> length (buffer b) = ARRAY_ELEMENTS width"

definition bm_ok :: "nat \<Rightarrow> Bitmap \<Rightarrow> bool" where
  "bm_ok width b \<longleftrightarrow> bm_raw width b \<and> bset b \<subseteq> {..<width}"

lemma in_bset: "n \<in> bset b \<longleftrightarrow> n div 64 < length (buffer b) \<and> bit (buffer b ! (n div 64)) (n mod 64)"
  by (simp add: bset_def)

lemma in_bset_elem: "j < 64 \<Longrightarrow> 64 * i + j \<in> bset b \<longleftrightarrow> i < length (buffer b) \<and> bit (buffer b ! i) j"
  by (simp add: in_bset)

lemma bm_raw_length: "bm_raw w b \<Longrightarrow> length (buffer b) = ARRAY_ELEMENTS w"
  by (simp add: bm_raw_def)

lemma bm_raw_pos: "bm_raw w b \<Longrightarrow> 0 < w"
  by (simp add: bm_raw_def)

lemma bm_ok_raw [simp]: "bm_ok w b \<Longrightarrow> bm_raw w b"
  by (simp add: bm_ok_def)

lemma div_less_elements: "n < w \<Longrightarrow> n div 64 < ARRAY_ELEMENTS w"
  by (simp add: ARRAY_ELEMENTS_def BITS_PER_ELEMENT_def)

lemma elements_pos: "0 < w \<Longrightarrow> 0 < ARRAY_ELEMENTS w"
  by (simp add: ARRAY_ELEMENTS_def BITS_PER_ELEMENT_def)

lemma elements_1:
  assumes "0 < w" shows "ARRAY_ELEMENTS w = 1 \<longleftrightarrow> w \<le> 64"
proof -
  obtain k where k: "w = Suc k" using assms by (cases w) auto
  then have "ARRAY_ELEMENTS w = (k + 64) div 64" by (simp add: ARRAY_ELEMENTS_def BITS_PER_ELEMENT_def)
  also have "\<dots> = Suc (k div 64)" by simp
  finally show ?thesis using k by (auto simp: div_eq_0_iff)
qed

lemma bit_index_div: "n < w \<Longrightarrow> bit_index w n = n div 64"
  using elements_1 [of w] by (simp add: bit_index_def BITS_PER_ELEMENT_def)

lemma bit_mask_mod: "n < w \<Longrightarrow> bit_mask w n = push_bit (n mod 64) 1"
  using elements_1 [of w] by (simp add: bit_mask_def BITS_PER_ELEMENT_def)

lemma last_element_mask_mod:
  assumes "n \<le> w" and "n mod 64 \<noteq> 0"
  shows "last_element_mask w n = mask (n mod 64)"
proof -
  have "0 < w" using assms by (cases w) auto
  then have "bit_mask w n = 2 ^ (n mod 64)"
    using assms elements_1 [of w] by (cases "n = 64") (auto simp: bit_mask_def BITS_PER_ELEMENT_def)
  then show ?thesis by (simp add: last_element_mask_def mask_eq_exp_minus_1)
qed

lemma same_elem_iff: "m div 64 = n div 64 \<and> m mod 64 = n mod 64 \<longleftrightarrow> m = (n :: nat)"
  using div_mult_mod_eq [of m 64] div_mult_mod_eq [of n 64] by metis

lemma bset_bm_set_bit:
  assumes "bm_raw w b" "n < w"
  shows "bset (bm_set_bit w n b) = insert n (bset b)"
proof (rule set_eqI)
  fix m
  show "m \<in> bset (bm_set_bit w n b) \<longleftrightarrow> m \<in> insert n (bset b)"
    using assms div_less_elements [of n w] same_elem_iff [of m n]
    by (auto simp: bm_raw_length in_bset bm_set_bit_def bit_index_div bit_mask_mod nth_list_update bit_simps)
qed

lemma bset_clear_bit:
  assumes "bm_raw w b" "n < w"
  shows "bset (clear_bit w n b) = bset b - {n}"
proof (rule set_eqI)
  fix m
  show "m \<in> bset (clear_bit w n b) \<longleftrightarrow> m \<in> bset b - {n}"
    using assms div_less_elements [of n w] same_elem_iff [of m n]
    by (auto simp: bm_raw_length in_bset clear_bit_def bit_index_div bit_mask_mod nth_list_update bit_simps)
qed

lemma is_set_iff: "bm_raw w b \<Longrightarrow> n < w \<Longrightarrow> is_set w n b \<longleftrightarrow> n \<in> bset b"
  by (simp add: bm_raw_length is_set_def in_bset bit_index_div bit_mask_mod div_less_elements
      and_push_bit_1_eq_0_iff del: push_bit_of_1)

text \<open>Two bitmaps of one width that denote the same set are equal in memory.\<close>

lemma buffer_eqI:
  assumes "length (buffer b) = length (buffer c)" "bset b = bset c"
  shows "buffer b = buffer c"
proof (rule nth_equalityI)
  fix i assume i: "i < length (buffer b)"
  have "bit (buffer b ! i) j \<longleftrightarrow> bit (buffer c ! i) j" if "j < 64" for j
    using in_bset_elem [OF that, of i b] in_bset_elem [OF that, of i c] i assms by simp
  then show "buffer b ! i = buffer c ! i" by (intro bit_word_eqI) simp
qed (rule assms(1))

text \<open>The elements of a bitmap that holds a prefix of the numbers.\<close>

definition prefix_elem :: "nat \<Rightarrow> nat \<Rightarrow> ulonglong" where
  "prefix_elem p i = (if i < p div 64 then - 1 else if i = p div 64 then mask (p mod 64) else 0)"

lemma bit_prefix_elem: "j < 64 \<Longrightarrow> bit (prefix_elem p i) j \<longleftrightarrow> 64 * i + j < p"
proof -
  assume "j < 64"
  moreover have "p = 64 * (p div 64) + p mod 64" "p mod 64 < 64" by simp_all
  ultimately have "64 * i + j < p \<longleftrightarrow> i < p div 64 \<or> i = p div 64 \<and> j < p mod 64" by linarith
  then show ?thesis using \<open>j < 64\<close> by (auto simp: prefix_elem_def bit_simps)
qed

lemma prefix_elem_high: "p \<le> 64 * i \<Longrightarrow> prefix_elem p i = 0"
proof -
  assume "p \<le> 64 * i"
  then have "bit (prefix_elem p i) j \<longleftrightarrow> False" if "j < 64" for j using that by (simp add: bit_prefix_elem)
  then show ?thesis by (intro bit_word_eqI) simp
qed

lemma bset_prefix:
  assumes "length (buffer b) = N" "\<And>i. i < N \<Longrightarrow> buffer b ! i = prefix_elem p i" "p \<le> 64 * N"
  shows "bset b = {..<p}"
proof (rule set_eqI)
  fix n :: nat
  have n: "64 * (n div 64) + n mod 64 = n" by simp
  then have "n < p \<Longrightarrow> n div 64 < N" using assms(3) by linarith
  then show "n \<in> bset b \<longleftrightarrow> n \<in> {..<p}"
    using bit_prefix_elem [of "n mod 64" p "n div 64"] assms n by (auto simp: in_bset)
qed

lemma elements_bound: "w \<le> 64 * ARRAY_ELEMENTS w"
  by (simp add: ARRAY_ELEMENTS_def BITS_PER_ELEMENT_def)

lemma elements_of_prefix:
  "(q :: nat) \<le> 64 * N \<Longrightarrow> q div 64 + (if q mod 64 \<noteq> 0 then 1 else 0) \<le> N"
  using div_mult_mod_eq [of q 64] by (simp split: if_splits; linarith)

lemma set_prefix_nth:
  assumes p: "p = min prefix_size w" and i: "i < ARRAY_ELEMENTS w"
  shows "buffer (set_prefix w prefix_size b) ! i = prefix_elem p i"
proof -
  have "(if prefix_size > w then w else prefix_size) = p" using p by auto
  moreover have "last_element_mask w p = mask (p mod 64)" if "p mod 64 \<noteq> 0"
    using that p by (intro last_element_mask_mod) auto
  ultimately show ?thesis
    using i by (auto simp: set_prefix_def prefix_elem_def nth_append BITS_PER_ELEMENT_def
        ALL_BITS_SET_def Let_def nth_Cons split: nat.splits)
qed

lemma set_prefix_length:
  assumes "0 < w" shows "length (buffer (set_prefix w p b)) = ARRAY_ELEMENTS w"
proof -
  let ?p = "min p w"
  have "(if p > w then w else p) = ?p" by auto
  moreover have "?p div 64 + (if ?p mod 64 \<noteq> 0 then 1 else 0) \<le> ARRAY_ELEMENTS w"
    using elements_bound [of w] by (intro elements_of_prefix) simp
  ultimately show ?thesis
    by (simp add: set_prefix_def BITS_PER_ELEMENT_def Let_def split: if_splits)
qed

lemma bset_set_prefix:
  assumes "0 < w" shows "bset (set_prefix w p b) = {..<min p w}"
  using elements_bound [of w] set_prefix_length [OF assms] set_prefix_nth [OF refl]
  by (intro bset_prefix) auto

lemma all_less_split:
  assumes "k + (if part then 1 else 0) \<le> (N :: nat)"
  shows "(\<forall>i<N. P i) \<longleftrightarrow> (\<forall>i<k. P i) \<and> (part \<longrightarrow> P k)
    \<and> (\<forall>i. k + (if part then 1 else 0) \<le> i \<longrightarrow> i < N \<longrightarrow> P i)"
proof -
  have "i < N \<longleftrightarrow> i < k \<or> part \<and> i = k \<or> k + (if part then 1 else 0) \<le> i \<and> i < N" for i
    using assms by (auto split: if_splits)
  then show ?thesis by blast
qed

lemma is_prefix_iff:
  assumes "bm_raw w b" "p \<le> w"
  shows "is_prefix w p b \<longleftrightarrow> bset b = {..<p}"
proof -
  have pN: "p div 64 + (if p mod 64 \<noteq> 0 then 1 else 0) \<le> ARRAY_ELEMENTS w"
    using elements_bound [of w] assms(2) by (intro elements_of_prefix) simp
  let ?P = "\<lambda>i. buffer b ! i = prefix_elem p i"
  let ?idx = "p div 64" and ?idx' = "p div 64 + (if p mod 64 \<noteq> 0 then 1 else 0)"
  have "is_prefix w p b \<longleftrightarrow>
      (\<forall>i < ?idx. ?P i) \<and> (p mod 64 \<noteq> 0 \<longrightarrow> ?P ?idx) \<and> (\<forall>i. ?idx' \<le> i \<longrightarrow> i < ARRAY_ELEMENTS w \<longrightarrow> ?P i)"
  proof (cases "p mod 64 = 0")
    case True
    then show ?thesis
      by (auto simp: is_prefix_def prefix_elem_def BITS_PER_ELEMENT_def ALL_BITS_SET_def) metis
  next
    case False
    then show ?thesis using last_element_mask_mod [OF assms(2)]
      by (auto simp: is_prefix_def prefix_elem_def BITS_PER_ELEMENT_def ALL_BITS_SET_def Let_def)
  qed
  also have "\<dots> \<longleftrightarrow> (\<forall>i < ARRAY_ELEMENTS w. ?P i)"
    using all_less_split [OF pN, of ?P] by simp
  also have "\<dots> \<longleftrightarrow> bset b = {..<p}"
  proof
    assume "\<forall>i < ARRAY_ELEMENTS w. buffer b ! i = prefix_elem p i"
    then show "bset b = {..<p}"
      using assms elements_bound [of w] by (intro bset_prefix) (auto simp: bm_raw_length)
  next
    assume eq: "bset b = {..<p}"
    show "\<forall>i < ARRAY_ELEMENTS w. buffer b ! i = prefix_elem p i"
    proof (intro allI impI bit_word_eqI)
      fix i j assume i: "i < ARRAY_ELEMENTS w" and "j < LENGTH(64)"
      then have j: "j < 64" by simp
      show "bit (buffer b ! i) j \<longleftrightarrow> bit (prefix_elem p i) j"
        using in_bset_elem [OF j, of i b] eq i assms(1) by (simp add: bit_prefix_elem [OF j] bm_raw_length)
    qed
  qed
  finally show ?thesis .
qed

lemma in_replicate_bset:
  assumes "buffer b = replicate N v"
  shows "n \<in> bset b \<longleftrightarrow> n div 64 < N \<and> bit v (n mod 64)"
  using assms by (auto simp: in_bset)

lemma bset_set_all:
  assumes "bm_raw w b" shows "bset (set_all w b) = {..<w}"
proof (cases "w mod 64 = 0")
  case False
  then show ?thesis using assms bset_set_prefix [of w w b]
    by (simp add: set_all_def BITS_PER_ELEMENT_def bm_raw_def)
next
  case True
  then obtain k where k: "w = 64 * k" by auto
  have w: "0 < w" using assms by (simp add: bm_raw_def)
  have N: "ARRAY_ELEMENTS w = w div 64"
    using k by (simp add: ARRAY_ELEMENTS_def BITS_PER_ELEMENT_def)
  have "buffer (set_all w b) = replicate (w div 64) (- 1)"
  proof (cases "ARRAY_ELEMENTS w > 1")
    case False
    then have "ARRAY_ELEMENTS w = 1" using elements_pos [OF w] by simp
    then show ?thesis using assms True N
      by (cases "buffer b") (auto simp: set_all_def BITS_PER_ELEMENT_def ALL_BITS_SET_def bm_raw_def)
  qed (simp add: set_all_def BITS_PER_ELEMENT_def True N)
  moreover have "n div 64 < w div 64 \<longleftrightarrow> n < w" for n
    using k by (simp add: div_less_iff_less_mult mult.commute)
  ultimately show ?thesis by (simp add: bset_def set_eq_iff bit_simps cong: conj_cong)
qed

lemma clear_all_buffer: "bm_raw w b \<Longrightarrow> buffer (clear_all w b) = replicate (ARRAY_ELEMENTS w) 0"
proof (cases "ARRAY_ELEMENTS w > 1")
  case False
  assume raw: "bm_raw w b"
  then have "ARRAY_ELEMENTS w = 1" using False elements_pos [of w] by (simp add: bm_raw_def)
  then show ?thesis using raw by (cases "buffer b") (auto simp: clear_all_def bm_raw_def)
qed (simp add: clear_all_def)

lemma bset_clear_all: "bm_raw w b \<Longrightarrow> bset (clear_all w b) = {}"
  by (auto simp: in_replicate_bset [OF clear_all_buffer])

lemma in_zip_elements:
  "bm_raw w b \<Longrightarrow> bm_raw w c \<Longrightarrow> n \<in> bset (zip_elements w f b c) \<longleftrightarrow>
     n div 64 < ARRAY_ELEMENTS w \<and> bit (f (buffer b ! (n div 64)) (buffer c ! (n div 64))) (n mod 64)"
  by (auto simp: in_bset zip_elements_def)

lemma bset_binary:
  assumes "bm_raw w b" "bm_raw w c"
  shows "bset (intersect w b c) = bset b \<inter> bset c"
    and "bset (subtract w b c) = bset b - bset c"
    and "bset (merge w b c) = bset b \<union> bset c"
  using assms
  by (auto simp: intersect_def subtract_def merge_def in_zip_elements in_bset [of _ b]
      in_bset [of _ c] bit_simps bm_raw_length)

lemma is_clear_all_iff: 
  assumes "bm_raw w b" shows "is_clear_all w b \<longleftrightarrow> bset b = {}"
proof -
  have "is_clear_all w b \<longleftrightarrow> buffer b = buffer (clear_all w b)"
    using assms by (auto simp: is_clear_all_def clear_all_buffer bm_raw_length list_eq_iff_nth_eq)
  also have "\<dots> \<longleftrightarrow> bset b = {}"
  proof
    assume "buffer b = buffer (clear_all w b)"
    then show "bset b = {}" using bset_clear_all [OF assms] by (simp add: bset_def)
  next
    assume "bset b = {}"
    then show "buffer b = buffer (clear_all w b)"
      using assms bset_clear_all [OF assms] by (intro buffer_eqI) (simp_all add: clear_all_buffer bm_raw_length)
  qed
  finally show ?thesis .
qed

lemma raw_ops [simp]:
  "bm_raw w b \<Longrightarrow> bm_raw w (bm_set_bit w n b)"
  "bm_raw w b \<Longrightarrow> bm_raw w (clear_bit w n b)"
  "bm_raw w b \<Longrightarrow> bm_raw w (set_prefix w p b)"
  "bm_raw w b \<Longrightarrow> bm_raw w (set_all w b)"
  "bm_raw w b \<Longrightarrow> bm_raw w (clear_all w b)"
  "0 < w \<Longrightarrow> bm_raw w (zip_elements w f b c)"
  by (simp_all add: bm_raw_def bm_set_bit_def clear_bit_def set_prefix_length set_all_def
      clear_all_def zip_elements_def)

lemma is_subset_iff:
  assumes "bm_raw w b" "bm_raw w c" shows "is_subset w b c \<longleftrightarrow> bset b \<subseteq> bset c"
proof -
  have "is_subset w b c \<longleftrightarrow> is_clear_all w (subtract w b c)"
    by (simp add: is_subset_def is_clear_all_def subtract_def zip_elements_def)
  moreover have "bm_raw w (subtract w b c)" using assms by (simp add: subtract_def bm_raw_pos)
  ultimately show ?thesis
    using is_clear_all_iff [of w "subtract w b c"] bset_binary(2) [OF assms] by simp
qed

lemma is_overlapping_iff:
  assumes "bm_raw w b" "bm_raw w c" shows "is_overlapping w b c \<longleftrightarrow> bset b \<inter> bset c \<noteq> {}"
proof -
  have "is_overlapping w b c \<longleftrightarrow> \<not> is_clear_all w (intersect w b c)"
    by (simp add: is_overlapping_def is_clear_all_def intersect_def zip_elements_def)
  moreover have "bm_raw w (intersect w b c)" using assms by (simp add: intersect_def bm_raw_pos)
  ultimately show ?thesis
    using is_clear_all_iff [of w "intersect w b c"] bset_binary(1) [OF assms] by simp
qed

lemma bitmap_eq_iff:
  assumes "bm_raw w b" "bm_raw w c" shows "bitmap_eq w b c \<longleftrightarrow> bset b = bset c"
proof -
  have len: "length (buffer b) = ARRAY_ELEMENTS w" "length (buffer c) = ARRAY_ELEMENTS w"
    using assms by (simp_all add: bm_raw_length)
  have "buffer b = buffer c" if "ARRAY_ELEMENTS w = 1" "buffer b ! 0 = buffer c ! 0"
    using that len by (intro nth_equalityI) simp_all
  then have "bitmap_eq w b c \<longleftrightarrow> buffer b = buffer c"
    using elements_pos [OF bm_raw_pos [OF assms(1)]]
    by (auto simp: bitmap_eq_def not_less_eq less_Suc_eq)
  also have "\<dots> \<longleftrightarrow> bset b = bset c"
    using buffer_eqI [of b c] len by (auto simp: bset_def)
  finally show ?thesis .
qed

lemma prefix_elem_inner:
  assumes "0 < w" "i < ARRAY_ELEMENTS w"
  shows "prefix_elem w i =
    (if i = ARRAY_ELEMENTS w - 1 \<and> w mod 64 \<noteq> 0 then mask (w mod 64) else - 1)"
proof (cases "w mod 64 = 0")
  case True
  then obtain k where "w = 64 * k" by auto
  then show ?thesis using assms(2) by (simp add: ARRAY_ELEMENTS_def BITS_PER_ELEMENT_def prefix_elem_def)
next
  case False
  then obtain r where "w mod 64 = Suc r" by (cases "w mod 64") auto
  then have "w + 63 = 64 * Suc (w div 64) + r" "r < 64"
    using div_mult_mod_eq [of w 64] mod_less_divisor [of 64 w] by simp_all
  then have "ARRAY_ELEMENTS w = Suc (w div 64)"
    by (simp add: ARRAY_ELEMENTS_def BITS_PER_ELEMENT_def)
  then show ?thesis using assms(2) False by (auto simp: prefix_elem_def)
qed

lemma intersect_and_pad_nth:
  assumes "bm_raw w b" "i < ARRAY_ELEMENTS w"
  shows "buffer (intersect_and_pad w m pad b) ! i =
    (if i = 0 then buffer b ! 0 AND m else if pad then prefix_elem w i else 0)"
proof -
  have "0 < w" using assms(1) by (rule bm_raw_pos)
  note pe = prefix_elem_inner [OF this assms(2)]
  have lm: "w mod 64 \<noteq> 0 \<Longrightarrow> last_element_mask w w = mask (w mod 64)"
    by (rule last_element_mask_mod) simp_all
  show ?thesis
  proof (cases i)
    case 0
    then show ?thesis by (simp add: intersect_and_pad_def Let_def del: list_update.simps)
  next
    case (Suc k)
    then have "(first # replicate (ARRAY_ELEMENTS w - 1) v) ! i = v" for first v :: ulonglong
      using assms(2) by simp
    then show ?thesis using Suc assms(2) pe lm
      by (simp add: intersect_and_pad_def BITS_PER_ELEMENT_def ALL_BITS_SET_def Let_def
          nth_list_update del: list_update.simps)
  qed
qed

lemma raw_intersect_and_pad: "bm_raw w b \<Longrightarrow> bm_raw w (intersect_and_pad w m pad b)"
  using elements_pos [of w] by (simp add: bm_raw_def intersect_and_pad_def Let_def del: list_update.simps)

lemma bset_intersect_and_pad:
  assumes "bm_raw w b"
  shows "bset (intersect_and_pad w m pad b) = bset b \<inter> bit_set m \<union> (if pad then {64..<w} else {})"
proof (rule set_eqI)
  fix n :: nat
  have len: "length (buffer (intersect_and_pad w m pad b)) = ARRAY_ELEMENTS w"
    using bm_raw_length [OF raw_intersect_and_pad [OF assms]] .
  have N: "0 < ARRAY_ELEMENTS w" using elements_pos [OF bm_raw_pos [OF assms]] .
  show "n \<in> bset (intersect_and_pad w m pad b) \<longleftrightarrow>
      n \<in> bset b \<inter> bit_set m \<union> (if pad then {64..<w} else {})"
  proof (cases "n < 64")
    case True
    then show ?thesis using N assms
      by (auto simp: in_bset len intersect_and_pad_nth bm_raw_length bit_simps)
  next
    case False
    then have "n div 64 \<noteq> 0" "\<not> bit m n" by (auto dest: bit_less)
    moreover have "bit (prefix_elem w (n div 64)) (n mod 64) \<longleftrightarrow> n < w"
      by (simp add: bit_prefix_elem)
    ultimately show ?thesis using assms False div_less_elements [of n w]
      by (auto simp: in_bset len intersect_and_pad_nth)
  qed
qed

lemma my_count_bits_of_nat: "my_count_bits v = of_nat (pop_count v)"
  by (simp flip: my_count_bits_pop_count)

lemma foldl_add_of_nat:
  "foldl (\<lambda>res i. res + of_nat (f i)) a xs = a + (of_nat (sum_list (map f xs)) :: 'a::len word)"
  by (induction xs arbitrary: a) (simp_all add: add.assoc)

lemma bset_snoc:
  "bset \<lparr>buffer = xs @ [x]\<rparr> = bset \<lparr>buffer = xs\<rparr> \<union> (\<lambda>j. 64 * length xs + j) ` bit_set x" (is "?L = ?R")
proof (rule set_eqI)
  fix n :: nat
  have n: "n = 64 * (n div 64) + n mod 64" by simp
  have "n \<in> (\<lambda>j. 64 * length xs + j) ` bit_set x \<longleftrightarrow> n div 64 = length xs \<and> bit x (n mod 64)"
  proof
    assume "n \<in> (\<lambda>j. 64 * length xs + j) ` bit_set x"
    then obtain j where "n = 64 * length xs + j" "bit x j" by auto
    then show "n div 64 = length xs \<and> bit x (n mod 64)" using bit_less_64 [of x j] by simp
  next
    assume "n div 64 = length xs \<and> bit x (n mod 64)"
    then show "n \<in> (\<lambda>j. 64 * length xs + j) ` bit_set x" using n by (metis bit_set_iff imageI)
  qed
  then show "n \<in> ?L \<longleftrightarrow> n \<in> ?R" by (auto simp: in_bset nth_append)
qed

lemma card_bset: "card (bset \<lparr>buffer = xs\<rparr>) = sum_list (map pop_count xs) \<and> finite (bset \<lparr>buffer = xs\<rparr>)"
proof (induction xs rule: rev_induct)
  case (snoc x xs)
  have "bset \<lparr>buffer = xs\<rparr> \<inter> (\<lambda>j. 64 * length xs + j) ` bit_set x = {}"
    by (auto simp: in_bset)
  then show ?case using snoc by (simp add: bset_snoc card_Un_disjoint card_image pop_count_def)
qed (simp add: bset_def)

lemma finite_bset [simp]: "finite (bset b)"
  using card_bset [of "buffer b"] by (simp add: bset_def)

lemma bits_set_card:
  assumes "bm_raw w b" shows "bits_set w b = of_nat (card (bset b))"
proof -
  have "map (\<lambda>i. pop_count (buffer b ! i)) [0..<length (buffer b)] = map pop_count (buffer b)"
    by (intro nth_equalityI) simp_all
  then have "bits_set w b = of_nat (sum_list (map pop_count (buffer b)))"
    unfolding bits_set_def my_count_bits_of_nat foldl_add_of_nat
    by (simp only: bm_raw_length [OF assms] add_0)
  moreover have "card (bset b) = sum_list (map pop_count (buffer b))"
    using card_bset [of "buffer b"] by (simp add: bset_def)
  ultimately show ?thesis by (simp only:)
qed

section \<open>The iterator enumerates the set\<close>

lemma next_bit_0: "bmp t = 0 \<Longrightarrow> next_bit t = Some (64, t)"
  by (simp add: next_bit_def TMI_BITMAP_END_def)

lemma next_bit_Min:
  assumes "bmp t \<noteq> 0"
  shows "\<exists>t'. next_bit t = Some (Min (bit_set (bmp t)), t')
    \<and> bit_set (bmp t') = bit_set (bmp t) - {Min (bit_set (bmp t))}"
proof -
  let ?m = "Min (bit_set (bmp t))"
  have "?m \<in> bit_set (bmp t)" using assms by (intro Min_in) auto
  then have "?m < 64" using bit_less_64 by simp
  then have "unat (of_nat ?m :: uint32) = ?m" by (simp add: unat_of_nat)
  then show ?thesis using assms \<open>?m < 64\<close>
    by (simp add: next_bit_def my_find_first_bit_Min bit_set_exp del: bit_set_and)
qed

text \<open>What an iterator still has to return.\<close>

definition it_rem :: "Bitmap \<Rightarrow> Iterator \<Rightarrow> nat set" where
  "it_rem b it = (\<lambda>j. offset it + j) ` bit_set (bmp (tmi it)) \<union> {n \<in> bset b. offset it + 64 \<le> n}"

definition it_ok :: "nat \<Rightarrow> Bitmap \<Rightarrow> Iterator \<Rightarrow> bool" where
  "it_ok w b it \<longleftrightarrow> 64 dvd offset it \<and> offset it < w \<and> it_rem b it \<subseteq> bset b"

lemma it_rem_elem:
  assumes "64 dvd off" "off div 64 < length (buffer b)"
  shows "it_rem b \<lparr>offset = off, tmi = \<lparr>bmp = buffer b ! (off div 64)\<rparr>\<rparr> = {n \<in> bset b. off \<le> n}"
    (is "?L = ?R")
proof (rule set_eqI)
  fix n :: nat
  obtain k where k: "off = 64 * k" using assms(1) by auto
  have "n \<in> (\<lambda>j. off + j) ` bit_set (buffer b ! k) \<longleftrightarrow> n \<in> bset b \<and> off \<le> n \<and> n < off + 64"
  proof
    assume "n \<in> (\<lambda>j. off + j) ` bit_set (buffer b ! k)"
    then obtain j where "n = off + j" "bit (buffer b ! k) j" by auto
    then show "n \<in> bset b \<and> off \<le> n \<and> n < off + 64"
      using bit_less_64 [of "buffer b ! k" j] in_bset_elem [of j k b] k assms(2) by simp
  next
    assume n: "n \<in> bset b \<and> off \<le> n \<and> n < off + 64"
    then have "n = 64 * k + (n - off)" "n - off < 64" using k by auto
    then have "n - off \<in> bit_set (buffer b ! k)" using in_bset_elem [of "n - off" k b] n by simp
    then show "n \<in> (\<lambda>j. off + j) ` bit_set (buffer b ! k)"
      using n by (intro image_eqI [of _ _ "n - off"]) simp_all
  qed
  then show "n \<in> ?L \<longleftrightarrow> n \<in> ?R" using k by (auto simp: it_rem_def)
qed

lemma mk_Iterator_ok:
  assumes "bm_ok w b"
  shows "it_ok w b (mk_Iterator b)" "it_rem b (mk_Iterator b) = bset b"
proof -
  have "0 < w" "0 < length (buffer b)"
    using assms elements_pos [of w] by (auto simp: bm_ok_def bm_raw_def)
  then show "it_rem b (mk_Iterator b) = bset b" "it_ok w b (mk_Iterator b)"
    using it_rem_elem [of 0 b] by (simp_all add: mk_Iterator_def it_ok_def)
qed

lemma iterator_next_rem:
  assumes "bm_ok w b" "it_ok w b it"
  shows "\<exists>it'. iterator_next w b it = Some (if it_rem b it = {} then w else Min (it_rem b it), it')
    \<and> it_ok w b it' \<and> it_rem b it' = it_rem b it - {Min (it_rem b it)}"
  using assms
proof (induction w b it rule: iterator_next.induct)
  case (1 w b it)
  let ?bits = "bit_set (bmp (tmi it))" and ?R = "it_rem b it"
  have fin: "finite ?R" using 1(3) finite_bset by (auto simp: it_ok_def intro: finite_subset)
  show ?case
  proof (cases "bmp (tmi it) = 0")
    case False
    obtain t' where t': "next_bit (tmi it) = Some (Min ?bits, t')" "bit_set (bmp t') = ?bits - {Min ?bits}"
      using next_bit_Min [OF False] by auto
    have m: "Min ?bits \<in> ?bits" using False by (intro Min_in) auto
    then have m64: "Min ?bits < 64" using bit_less_64 by simp
    have min: "Min ?R = offset it + Min ?bits"
      using m m64 fin by (intro Min_eqI) (auto simp: it_rem_def)
    have "?R \<noteq> {}" using m by (auto simp: it_rem_def)
    moreover have "iterator_next w b it = Some (Min ?R, it\<lparr>tmi := t'\<rparr>)"
      using t' m64 min by (subst iterator_next.simps) (simp add: TMI_BITMAP_END_def)
    moreover have "it_rem b (it\<lparr>tmi := t'\<rparr>) = ?R - {Min ?R}"
    proof -
      have "(\<lambda>j. offset it + j) ` (?bits - {Min ?bits}) =
          (\<lambda>j. offset it + j) ` ?bits - {offset it + Min ?bits}"
        by (simp add: image_set_diff)
      moreover have "offset it + Min ?bits \<notin> {n \<in> bset b. offset it + 64 \<le> n}" using m64 by simp
      ultimately show ?thesis unfolding min unfolding it_rem_def by (simp add: t'(2) Un_Diff)
    qed
    ultimately show ?thesis using 1(3) by (auto simp: it_ok_def)
  next
    case True
    note nb = next_bit_0 [OF True]
    have R: "?R = {n \<in> bset b. offset it + 64 \<le> n}" using True by (simp add: it_rem_def)
    show ?thesis
    proof (cases "offset it + 64 \<ge> w")
      case fin_it: True
      then have "?R = {}" using 1(2) R by (auto simp: bm_ok_def)
      moreover have "iterator_next w b it = Some (w, it\<lparr>tmi := tmi it\<rparr>)"
        using nb fin_it by (subst iterator_next.simps) (simp add: TMI_BITMAP_END_def BITS_PER_ELEMENT_def)
      ultimately show ?thesis using 1(3) by simp
    next
      case go: False
      let ?it = "\<lparr>offset = offset it + 64, tmi = \<lparr>bmp = buffer b ! ((offset it + 64) div 64)\<rparr>\<rparr>"
      have rem: "it_rem b ?it = ?R"
        using R go 1(2,3) div_less_elements [of "offset it + 64" w] it_rem_elem [of "offset it + 64" b]
        by (simp add: it_ok_def bm_ok_def bm_raw_def)
      then have ok: "it_ok w b ?it" using 1(3) go by (simp add: it_ok_def)
      have step: "iterator_next w b it = iterator_next w b ?it"
        using nb go
        by (subst iterator_next.simps) (simp add: TMI_BITMAP_END_def BITS_PER_ELEMENT_def Let_def)
      show ?thesis unfolding step
        using 1(1) [OF nb refl _ _ refl, unfolded TMI_BITMAP_END_def BITS_PER_ELEMENT_def] 1(2) go ok
        unfolding rem by simp
    qed
  qed
qed

text \<open>The loop in which the iterator is used: call it until it returns the end mark.\<close>

fun drain :: "nat \<Rightarrow> nat \<Rightarrow> Bitmap \<Rightarrow> Iterator \<Rightarrow> nat list option" where
  "drain 0 w b it = None"
| "drain (Suc fuel) w b it =
     (case iterator_next w b it of None \<Rightarrow> None
      | Some (n, it') \<Rightarrow> if n = w then Some [] else map_option (Cons n) (drain fuel w b it'))"

lemma drain_rem:
  assumes "bm_ok w b" "it_ok w b it" "card (it_rem b it) < fuel"
  shows "drain fuel w b it = Some (sorted_list_of_set (it_rem b it))"
  using assms(2,3)
proof (induction fuel arbitrary: it)
  case (Suc fuel)
  let ?R = "it_rem b it"
  obtain it' where it': "iterator_next w b it = Some (if ?R = {} then w else Min ?R, it')"
      "it_ok w b it'" "it_rem b it' = ?R - {Min ?R}"
    using iterator_next_rem [OF assms(1) Suc.prems(1)] by auto
  have sub: "?R \<subseteq> bset b" "bset b \<subseteq> {..<w}"
    using Suc.prems(1) assms(1) by (simp_all add: it_ok_def bm_ok_def)
  then have fin: "finite ?R" using finite_bset finite_subset by blast
  show ?case
  proof (cases "?R = {}")
    case False
    have "Min ?R \<in> ?R" using False fin by (rule Min_in [rotated])
    then have "Min ?R \<noteq> w" "card (it_rem b it') < fuel"
      using sub Suc.prems(2) fin it'(3) card_Suc_Diff1 [of ?R "Min ?R"] by auto
    then show ?thesis
      using it' False Suc.IH [OF it'(2)] fin by (simp add: sorted_list_of_set_nonempty)
  qed (simp add: it'(1))
qed simp

section \<open>Sets of numbers below a bound\<close>

text \<open>The contract of the class towards the optimizer: an implementation of sets of numbers below
  a bound, with the laws of each operation. \<^term>\<open>raw\<close> is memory of the right shape whose content may
  be anything, \<^term>\<open>inv\<close> an initialised set.\<close>

locale bounded_set =
  fixes raw inv :: "'b \<Rightarrow> bool" and abs :: "'b \<Rightarrow> nat set" and bound :: nat
    and empty full :: "'b \<Rightarrow> 'b" and add del :: "nat \<Rightarrow> 'b \<Rightarrow> 'b" and mem :: "nat \<Rightarrow> 'b \<Rightarrow> bool"
    and inter diff union :: "'b \<Rightarrow> 'b \<Rightarrow> 'b" and subs :: "'b \<Rightarrow> 'b \<Rightarrow> bool"
  assumes inv_raw: "inv b \<Longrightarrow> raw b" and inv_bound: "inv b \<Longrightarrow> abs b \<subseteq> {..<bound}"
    and empty: "raw b \<Longrightarrow> inv (empty b) \<and> abs (empty b) = {}"
    and full: "raw b \<Longrightarrow> inv (full b) \<and> abs (full b) = {..<bound}"
    and add: "inv b \<Longrightarrow> n < bound \<Longrightarrow> inv (add n b) \<and> abs (add n b) = insert n (abs b)"
    and del: "inv b \<Longrightarrow> n < bound \<Longrightarrow> inv (del n b) \<and> abs (del n b) = abs b - {n}"
    and mem: "inv b \<Longrightarrow> n < bound \<Longrightarrow> mem n b \<longleftrightarrow> n \<in> abs b"
    and inter: "inv b \<Longrightarrow> inv c \<Longrightarrow> inv (inter b c) \<and> abs (inter b c) = abs b \<inter> abs c"
    and diff: "inv b \<Longrightarrow> inv c \<Longrightarrow> inv (diff b c) \<and> abs (diff b c) = abs b - abs c"
    and union: "inv b \<Longrightarrow> inv c \<Longrightarrow> inv (union b c) \<and> abs (union b c) = abs b \<union> abs c"
    and subs: "inv b \<Longrightarrow> inv c \<Longrightarrow> subs b c \<longleftrightarrow> abs b \<subseteq> abs c"
begin

lemma add_all:
  "inv b \<Longrightarrow> set ns \<subseteq> {..<bound} \<Longrightarrow> inv (fold add ns b) \<and> abs (fold add ns b) = abs b \<union> set ns"
  by (induction ns arbitrary: b) (auto simp: add)

lemma of_list:
  "raw b \<Longrightarrow> set ns \<subseteq> {..<bound} \<Longrightarrow>
     inv (fold add ns (empty b)) \<and> abs (fold add ns (empty b)) = set ns"
  using add_all [of "empty b" ns] empty [of b] by simp

lemma complement:
  "raw a \<Longrightarrow> inv b \<Longrightarrow> inv (diff (full a) b) \<and> abs (diff (full a) b) = {..<bound} - abs b"
  using diff [of "full a" b] full [of a] by simp

lemma de_morgan:
  "raw a \<Longrightarrow> inv b \<Longrightarrow> inv c \<Longrightarrow>
     abs (diff (full a) (union b c)) = abs (inter (diff (full a) b) (diff (full a) c))"
  using complement [of a b] complement [of a c] complement [of a "union b c"] union [of b c]
    inter [of "diff (full a) b" "diff (full a) c"] by auto

end

lemma bm_ok_intro: "bm_raw w b \<Longrightarrow> bset b \<subseteq> {..<w} \<Longrightarrow> bm_ok w b"
  by (simp add: bm_ok_def)

lemmas bset_ops = bset_bm_set_bit bset_clear_bit bset_clear_all bset_set_all bset_binary bset_set_prefix

interpretation bm: bounded_set "bm_raw w" "bm_ok w" bset w "clear_all w" "set_all w"
  "bm_set_bit w" "clear_bit w" "is_set w" "intersect w" "subtract w" "merge w" "is_subset w" for w
proof
  fix b c :: Bitmap
  assume bc: "bm_ok w b" "bm_ok w c"
  then have raw: "bm_raw w (intersect w b c)" "bm_raw w (subtract w b c)" "bm_raw w (merge w b c)"
    using raw_ops(6) [OF bm_raw_pos [OF bm_ok_raw [OF bc(1)]]]
    by (simp_all add: intersect_def subtract_def merge_def)
  show "bm_ok w (intersect w b c) \<and> bset (intersect w b c) = bset b \<inter> bset c"
    "bm_ok w (subtract w b c) \<and> bset (subtract w b c) = bset b - bset c"
    "bm_ok w (merge w b c) \<and> bset (merge w b c) = bset b \<union> bset c"
    "is_subset w b c \<longleftrightarrow> bset b \<subseteq> bset c"
    using raw bc by (auto simp: bm_ok_def bset_binary is_subset_iff)
qed (auto simp: bm_ok_def bset_ops is_set_iff)

section \<open>Properties\<close>



text \<open>C40. Calling the iterator of a bitmap until it returns its end mark ends after one call more
  than there are set bits and yields the elements of the set in increasing order, each exactly
  once, across element boundaries.\<close>

theorem bitmap_iterator_enumerates:
  assumes "bm_ok w b" "card (bset b) < fuel"
  shows "drain fuel w b (mk_Iterator b) = Some (sorted_list_of_set (bset b))"
  using drain_rem [OF assms(1) mk_Iterator_ok(1) [OF assms(1)]] mk_Iterator_ok(2) [OF assms(1)] assms(2)
  by simp

theorem bitmap_iterator_enumerates_witness:
  "drain 71 70 (set_all 70 \<lparr>buffer = [5, 7]\<rparr>) (mk_Iterator (set_all 70 \<lparr>buffer = [5, 7]\<rparr>)) = Some [0..<70]"
proof -
  let ?b = "set_all 70 \<lparr>buffer = [5, 7]\<rparr>"
  have "bm_raw 70 \<lparr>buffer = [5, 7]\<rparr>"
    by (simp add: bm_raw_def ARRAY_ELEMENTS_def BITS_PER_ELEMENT_def)
  then have "bm_ok 70 ?b" "bset ?b = {..<70}" using bm.full by blast+
  then show ?thesis using bitmap_iterator_enumerates [of 70 ?b 71]
    by (simp add: lessThan_atLeast0)
qed

text \<open>The tests decide what their names say of the denoted sets: equality in memory is equality
  of the sets, overlapping is a common element, being a prefix is being the set of the numbers below
  the given one; and the number of set bits is the cardinality.\<close>

theorem bitmap_tests_correct:
  assumes "bm_ok w b" "bm_ok w c" "p \<le> w"
  shows "(bitmap_eq w b c \<longleftrightarrow> bset b = bset c)
    \<and> (is_overlapping w b c \<longleftrightarrow> bset b \<inter> bset c \<noteq> {})
    \<and> (is_clear_all w b \<longleftrightarrow> bset b = {})
    \<and> (is_prefix w p b \<longleftrightarrow> bset b = {..<p})
    \<and> is_prefix w p (set_prefix w p b)
    \<and> bits_set w b = of_nat (card (bset b))"
  using assms bset_set_prefix [of w p b] bm_raw_pos [OF bm_ok_raw [OF assms(1)]]
  by (simp add: bitmap_eq_iff is_overlapping_iff is_clear_all_iff is_prefix_iff bits_set_card
      min_absorb1)

theorem bitmap_tests_correct_witness:
  "is_prefix 70 65 (set_prefix 70 65 (set_all 70 \<lparr>buffer = [5, 7]\<rparr>))"
proof -
  have "bm_raw 70 \<lparr>buffer = [5, 7]\<rparr>"
    by (simp add: bm_raw_def ARRAY_ELEMENTS_def BITS_PER_ELEMENT_def)
  then have "bm_ok 70 (set_all 70 \<lparr>buffer = [5, 7]\<rparr>)" using bm.full by blast
  from bitmap_tests_correct [OF this this, of 65] show ?thesis by simp
qed

text \<open>Intersecting with a 64-bit map keeps of the first 64 numbers those in the map; the numbers
  from 64 on are dropped, or, in the extended form and when bit 63 of the map is set, all become
  members up to the width whatever they were before.\<close>

theorem bitmap_intersect_word:
  assumes "bm_ok w b"
  shows "bm_ok w (intersect_ulonglong w m b) \<and> bm_ok w (intersect_extended w m b)
    \<and> bset (intersect_ulonglong w m b) = bset b \<inter> bit_set m
    \<and> bset (intersect_extended w m b) = bset b \<inter> bit_set m \<union> (if bit m 63 then {64..<w} else {})"
proof -
  have raw: "bm_raw w (intersect_and_pad w m pad b)" for pad
    using assms by (simp add: raw_intersect_and_pad)
  have sub: "bset b \<subseteq> {..<w}" using assms by (simp add: bm_ok_def)
  have bset: "bset (intersect_and_pad w m pad b) = bset b \<inter> bit_set m \<union> (if pad then {64..<w} else {})" for pad
    using assms by (simp add: bset_intersect_and_pad)
  have "bm_ok w (intersect_and_pad w m pad b)" for pad
    using sub by (intro bm_ok_intro [OF raw]) (auto simp: bset)
  moreover have "m AND push_bit 63 1 \<noteq> 0 \<longleftrightarrow> bit m 63"
    using and_push_bit_1_eq_0_iff [of 63 m] by simp
  ultimately show ?thesis unfolding intersect_ulonglong_def intersect_extended_def
    by (simp only: bset) simp
qed

theorem bitmap_intersect_word_witness:
  "bset (intersect_extended 70 (- 2) (set_all 70 \<lparr>buffer = [5, 7]\<rparr>)) = {1..<70}"
proof -
  have "bm_raw 70 \<lparr>buffer = [5, 7]\<rparr>"
    by (simp add: bm_raw_def ARRAY_ELEMENTS_def BITS_PER_ELEMENT_def)
  then have ok: "bm_ok 70 (set_all 70 \<lparr>buffer = [5, 7]\<rparr>)" "bset (set_all 70 \<lparr>buffer = [5, 7]\<rparr>) = {..<70}"
    using bm.full by blast+
  have bit: "bit (- 2 :: ulonglong) j \<longleftrightarrow> 0 < j \<and> j < 64" for j
    using bit_minus_2_iff [where 'a = "64 word"] by (auto simp: possible_bit_word)
  have "bit_set (- 2 :: ulonglong) = {1..<64}" by (auto simp: bit_set_def bit)
  then show ?thesis
    using bitmap_intersect_word [OF ok(1), of "- 2"] unfolding ok(2) by (simp add: bit) auto
qed

end
