(* ===== verification/Intrusive_List.thy ===== *)
theory Intrusive_List
  imports Prelude
begin

text \<open>
  Doubly linked intrusive lists: the heap of link fields, chains in it, and the contract that the
  list classes of the server (\<^verbatim>\<open>ilist.h\<close>, the \<^verbatim>\<open>I_List\<close> of \<^verbatim>\<open>sql_list.h\<close>, \<^verbatim>\<open>sql_plist.h\<close>) offer. An
  address is a natural number; a heap gives the two link fields of the node at each address.
\<close>

record links =
  next_of :: "addr \<Rightarrow> addr"
  prev_of :: "addr \<Rightarrow> addr"

definition set_next :: "addr \<Rightarrow> addr \<Rightarrow> links \<Rightarrow> links" where
  "set_next a b h = h\<lparr>next_of := (next_of h)(a := b)\<rparr>"

definition set_prev :: "addr \<Rightarrow> addr \<Rightarrow> links \<Rightarrow> links" where
  "set_prev a b h = h\<lparr>prev_of := (prev_of h)(a := b)\<rparr>"

lemma set_link_simps [simp]:
  "next_of (set_next a b h) x = (if x = a then b else next_of h x)"
  "prev_of (set_next a b h) = prev_of h"
  "prev_of (set_prev a b h) x = (if x = a then b else prev_of h x)"
  "next_of (set_prev a b h) = next_of h"
  by (simp_all add: set_next_def set_prev_def)

section \<open>Chains\<close>

text \<open>Neighbours in the list point at each other.\<close>

fun linked :: "links \<Rightarrow> addr list \<Rightarrow> bool" where
  "linked h (a # b # xs) \<longleftrightarrow> next_of h a = b \<and> prev_of h b = a \<and> linked h (b # xs)"
| "linked h _ \<longleftrightarrow> True"

lemma linked_append: "linked h (xs @ a # ys) \<longleftrightarrow> linked h (xs @ [a]) \<and> linked h (a # ys)"
  by (induction xs rule: induct_list012) (auto simp: neq_Nil_conv split: list.splits)

lemma linked_cong:
  assumes "\<And>x. x \<in> set (butlast xs) \<Longrightarrow> next_of h' x = next_of h x"
    and "\<And>x. x \<in> set (tl xs) \<Longrightarrow> prev_of h' x = prev_of h x"
  shows "linked h' xs = linked h xs"
  using assms by (induction xs rule: induct_list012) auto

text \<open>Two chains whose ends are linked to each other form one chain.\<close>

lemma linked_join:
  assumes "linked h (P @ [p])" "linked h (c # Q)" "next_of h' p = c" "prev_of h' c = p"
    and "\<And>x. x \<in> set P \<union> set (butlast (c # Q)) \<Longrightarrow> next_of h' x = next_of h x"
    and "\<And>x. x \<in> set (tl (P @ [p])) \<union> set Q \<Longrightarrow> prev_of h' x = prev_of h x"
  shows "linked h' (P @ p # c # Q)"
proof -
  have "linked h' (P @ [p])" using assms(1,5,6) linked_cong [of "P @ [p]" h' h] by simp
  moreover have "linked h' (c # Q)" using assms(2,5,6) linked_cong [of "c # Q" h' h] by simp
  ultimately show ?thesis using assms(3,4) linked_append [of h' P p "c # Q"] by simp
qed

section \<open>The contract of an intrusive list\<close>

text \<open>
  \<^term>\<open>rep h l xs\<close>: in heap \<^term>\<open>h\<close> the list object \<^term>\<open>l\<close> holds the elements \<^term>\<open>xs\<close> in this order.
  \<^term>\<open>own l\<close> are the addresses of the object itself, \<^term>\<open>ok\<close> the addresses an element may have. Every operation keeps lists that share no
  address with the one it works on.
\<close>

locale intrusive_list =
  fixes rep :: "'h \<Rightarrow> 'l \<Rightarrow> addr list \<Rightarrow> bool" and own :: "'l \<Rightarrow> addr set" and ok :: "addr \<Rightarrow> bool"
    and push_back push_front remove :: "'h \<Rightarrow> 'l \<Rightarrow> addr \<Rightarrow> 'h"
  assumes distinct: "rep h l xs \<Longrightarrow> distinct xs \<and> own l \<inter> set xs = {} \<and> (\<forall>x\<in>set xs. ok x)"
    and push_back: "rep h l xs \<Longrightarrow> ok v \<Longrightarrow> v \<notin> own l \<union> set xs \<Longrightarrow> rep (push_back h l v) l (xs @ [v])"
    and push_front: "rep h l xs \<Longrightarrow> ok v \<Longrightarrow> v \<notin> own l \<union> set xs \<Longrightarrow> rep (push_front h l v) l (v # xs)"
    and remove: "rep h l (xs @ v # ys) \<Longrightarrow> rep (remove h l v) l (xs @ ys)"
    and frame_push_back: "rep h l xs \<Longrightarrow> rep h m ys \<Longrightarrow> ok v \<Longrightarrow> v \<notin> own l \<union> set xs \<Longrightarrow>
      (insert v (own l \<union> set xs)) \<inter> (own m \<union> set ys) = {} \<Longrightarrow> rep (push_back h l v) m ys"
    and frame_remove: "rep h l xs \<Longrightarrow> rep h m ys \<Longrightarrow> v \<in> set xs \<Longrightarrow>
      (own l \<union> set xs) \<inter> (own m \<union> set ys) = {} \<Longrightarrow> rep (remove h l v) m ys"
begin

lemma push_back_all:
  "rep h l xs \<Longrightarrow> distinct vs \<Longrightarrow> \<forall>v\<in>set vs. ok v \<Longrightarrow> set vs \<inter> (own l \<union> set xs) = {} \<Longrightarrow>
     rep (fold (\<lambda>v h. push_back h l v) vs h) l (xs @ vs)"
proof (induction vs arbitrary: h xs)
  case (Cons v vs)
  then have "rep (push_back h l v) l (xs @ [v])" by (intro push_back) auto
  from Cons.IH [OF this] Cons.prems show ?case by auto
qed simp

lemma push_front_all:
  "rep h l xs \<Longrightarrow> distinct vs \<Longrightarrow> \<forall>v\<in>set vs. ok v \<Longrightarrow> set vs \<inter> (own l \<union> set xs) = {} \<Longrightarrow>
     rep (fold (\<lambda>v h. push_front h l v) vs h) l (rev vs @ xs)"
proof (induction vs arbitrary: h xs)
  case (Cons v vs)
  then have "rep (push_front h l v) l (v # xs)" by (intro push_front) auto
  from Cons.IH [OF this] Cons.prems show ?case by auto
qed simp

text \<open>Moving one element to the end of another list, and a whole list element by element.\<close>

lemma move_one:
  assumes "rep h l (xs @ v # ys)" "rep h m zs"
    "(own l \<union> set (xs @ v # ys)) \<inter> (own m \<union> set zs) = {}"
  shows "rep (push_back (remove h l v) m v) l (xs @ ys) \<and> rep (push_back (remove h l v) m v) m (zs @ [v])"
proof -
  have l: "rep (remove h l v) l (xs @ ys)" using remove [OF assms(1)] .
  have m: "rep (remove h l v) m zs" using frame_remove [OF assms(1,2)] assms(3) by simp
  have v: "ok v" "v \<notin> own m \<union> set zs" "v \<notin> own l \<union> set (xs @ ys)"
    using assms(3) distinct [OF assms(1)] by auto
  show ?thesis using push_back [OF m v(1,2)] frame_push_back [OF m l v(1,2)] assms(3) v(3) by auto
qed

lemma move_all:
  "rep h l xs \<Longrightarrow> rep h m zs \<Longrightarrow> (own l \<union> set xs) \<inter> (own m \<union> set zs) = {} \<Longrightarrow>
    rep (fold (\<lambda>v h. push_back (remove h l v) m v) xs h) l []
    \<and> rep (fold (\<lambda>v h. push_back (remove h l v) m v) xs h) m (zs @ xs)"
proof (induction xs arbitrary: h zs)
  case (Cons v xs)
  have "v \<notin> own l \<union> set xs" using distinct [OF Cons.prems(1)] by auto
  then show ?case
    using Cons.IH [of "push_back (remove h l v) m v" "zs @ [v]"] move_one [of h l "[]" v xs m zs] Cons.prems
    by auto
qed simp

end

end
