(* ===== verification/Ilist.thy ===== *)
theory Ilist
  imports Intrusive_List
begin

text \<open>
  \<^verbatim>\<open>ilist.h\<close>: the intrusive doubly linked list with a sentinel node and its variant with a
  counter. A list object is the address of its sentinel; iterators are node addresses. The model is
  the release build, in which the debug-only reset of the links of an erased node is absent.
\<close>

section \<open>ilist\<close>

type_synonym iterator = addr

definition Iterator_inc :: "links \<Rightarrow> iterator \<Rightarrow> iterator" where
  "Iterator_inc h it = next_of h it"

definition Iterator_dec :: "links \<Rightarrow> iterator \<Rightarrow> iterator" where
  "Iterator_dec h it = prev_of h it"

text \<open>The postfix operators return the old position beside the new one.\<close>

definition Iterator_post_inc :: "links \<Rightarrow> iterator \<Rightarrow> iterator \<times> iterator" where
  "Iterator_post_inc h it = (let tmp = it in (tmp, Iterator_inc h it))"

definition Iterator_post_dec :: "links \<Rightarrow> iterator \<Rightarrow> iterator \<times> iterator" where
  "Iterator_post_dec h it = (let tmp = it in (tmp, Iterator_dec h it))"

definition ilist :: "addr \<Rightarrow> links \<Rightarrow> links" where
  "ilist sentinel h = set_prev sentinel sentinel (set_next sentinel sentinel h)"

definition begin_it :: "links \<Rightarrow> addr \<Rightarrow> iterator" where
  "begin_it h sentinel = next_of h sentinel"

definition end_it :: "addr \<Rightarrow> iterator" where
  "end_it sentinel = sentinel"

definition ilist_front :: "links \<Rightarrow> addr \<Rightarrow> addr" where
  "ilist_front h sentinel = begin_it h sentinel"

definition ilist_back :: "links \<Rightarrow> addr \<Rightarrow> addr" where
  "ilist_back h sentinel = Iterator_dec h (end_it sentinel)"

definition empty :: "links \<Rightarrow> addr \<Rightarrow> bool" where
  "empty h sentinel \<longleftrightarrow> next_of h sentinel = sentinel"

definition clear :: "addr \<Rightarrow> links \<Rightarrow> links" where
  "clear sentinel h = set_prev sentinel sentinel (set_next sentinel sentinel h)"

definition insert_node :: "iterator \<Rightarrow> addr \<Rightarrow> links \<Rightarrow> links" where
  "insert_node pos value h =
     (let curr = pos;
          prev = prev_of h pos;
          h = set_next prev value h;
          h = set_prev curr value h;
          h = set_prev value prev h
      in set_next value curr h)"

definition insert_result :: "addr \<Rightarrow> iterator" where
  "insert_result value = value"

definition erase :: "iterator \<Rightarrow> links \<Rightarrow> links" where
  "erase pos h =
     (let prev = prev_of h pos;
          nxt = next_of h pos;
          h = set_next prev nxt h
      in set_prev nxt prev h)"

definition erase_result :: "iterator \<Rightarrow> links \<Rightarrow> iterator" where
  "erase_result pos h = next_of h pos"

definition push_back :: "links \<Rightarrow> addr \<Rightarrow> addr \<Rightarrow> links" where
  "push_back h sentinel value = insert_node (end_it sentinel) value h"

definition pop_back :: "links \<Rightarrow> addr \<Rightarrow> links" where
  "pop_back h sentinel = erase (end_it sentinel) h"

definition push_front :: "links \<Rightarrow> addr \<Rightarrow> addr \<Rightarrow> links" where
  "push_front h sentinel value = insert_node (begin_it h sentinel) value h"

definition pop_front :: "links \<Rightarrow> addr \<Rightarrow> links" where
  "pop_front h sentinel = erase (begin_it h sentinel) h"

definition remove :: "links \<Rightarrow> addr \<Rightarrow> addr \<Rightarrow> links" where
  "remove h sentinel value = erase value h"

section \<open>sized\_ilist\<close>

text \<open>The heap together with the counter of the list object; the counter wraps at 64 bits.\<close>

record sized = links +
  size_of :: "addr \<Rightarrow> ulonglong"

definition links_part :: "sized \<Rightarrow> links" where
  "links_part h = \<lparr>next_of = next_of h, prev_of = prev_of h\<rparr>"

definition with_links :: "sized \<Rightarrow> links \<Rightarrow> sized" where
  "with_links h l = h\<lparr>next_of := next_of l, prev_of := prev_of l\<rparr>"

definition sized_ilist :: "addr \<Rightarrow> sized \<Rightarrow> sized" where
  "sized_ilist s h = (with_links h (ilist s (links_part h)))\<lparr>size_of := (size_of h)(s := 0)\<rparr>"

definition sized_clear :: "addr \<Rightarrow> sized \<Rightarrow> sized" where
  "sized_clear s h = (with_links h (clear s (links_part h)))\<lparr>size_of := (size_of h)(s := 0)\<rparr>"

definition sized_insert :: "addr \<Rightarrow> iterator \<Rightarrow> addr \<Rightarrow> sized \<Rightarrow> sized" where
  "sized_insert s pos value h =
     (let h = h\<lparr>size_of := (size_of h)(s := size_of h s + 1)\<rparr>
      in with_links h (insert_node pos value (links_part h)))"

definition sized_erase :: "addr \<Rightarrow> iterator \<Rightarrow> sized \<Rightarrow> sized" where
  "sized_erase s pos h =
     (let h = h\<lparr>size_of := (size_of h)(s := size_of h s - 1)\<rparr>
      in with_links h (erase pos (links_part h)))"

definition sized_push_back :: "sized \<Rightarrow> addr \<Rightarrow> addr \<Rightarrow> sized" where
  "sized_push_back h s value = sized_insert s (end_it s) value h"

definition sized_pop_back :: "sized \<Rightarrow> addr \<Rightarrow> sized" where
  "sized_pop_back h s = sized_erase s (end_it s) h"

definition sized_push_front :: "sized \<Rightarrow> addr \<Rightarrow> addr \<Rightarrow> sized" where
  "sized_push_front h s value = sized_insert s (begin_it (links_part h) s) value h"

definition sized_pop_front :: "sized \<Rightarrow> addr \<Rightarrow> sized" where
  "sized_pop_front h s = sized_erase s (begin_it (links_part h) s) h"

definition sized_remove :: "sized \<Rightarrow> addr \<Rightarrow> addr \<Rightarrow> sized" where
  "sized_remove h s value = sized_erase s value h"

section \<open>The sequence a list holds\<close>

definition holds :: "links \<Rightarrow> addr \<Rightarrow> addr list \<Rightarrow> bool" where
  "holds h s xs \<longleftrightarrow> linked h (s # xs @ [s]) \<and> distinct (s # xs)"

lemma holds_ilist: "holds (ilist s h) s []" and holds_clear: "holds (clear s h) s []"
  by (simp_all add: holds_def ilist_def clear_def)

lemma insert_node_fields:
  assumes "next_of h p = c" "prev_of h c = p" "v \<noteq> p" "v \<noteq> c"
  shows "next_of (insert_node c v h) x = (if x = v then c else if x = p then v else next_of h x)"
    and "prev_of (insert_node c v h) x = (if x = v then p else if x = c then v else prev_of h x)"
  using assms by (simp_all add: insert_node_def Let_def)

lemma erase_fields:
  assumes "prev_of h v = p" "next_of h v = c"
  shows "next_of (erase v h) x = (if x = p then c else next_of h x)"
    and "prev_of (erase v h) x = (if x = c then p else prev_of h x)"
  using assms by (simp_all add: erase_def Let_def)

text \<open>The ring cut at a position: a part that starts with the sentinel, a part that ends with it.\<close>

lemma ring_split:
  assumes "holds h s (xs @ ys)"
  obtains P p c Q where "s # xs = P @ [p]" "ys @ [s] = c # Q" "linked h (P @ [p])" "linked h (c # Q)"
    "next_of h p = c" "prev_of h c = p" "p \<notin> set P" "c \<notin> set Q"
    "set P \<inter> set (butlast (c # Q)) = {}" "set (tl (P @ [p])) \<inter> set (c # Q) = {}"
    "p \<notin> set (butlast (c # Q))"
proof -
  obtain P p where P: "s # xs = P @ [p]" by (metis append_butlast_last_id list.distinct(1))
  obtain c Q where Q: "ys @ [s] = c # Q" by (cases "ys @ [s]") auto
  have "P @ p # c # Q = s # (xs @ ys) @ [s]" using P Q by (metis append.assoc append_Cons append_Nil)
  then have ring: "linked h (P @ p # c # Q)" and d: "distinct (s # xs @ ys)"
    using assms by (simp_all add: holds_def)
  then have l: "linked h (P @ [p])" "linked h (c # Q)" "next_of h p = c" "prev_of h c = p"
    using linked_append [of h P p "c # Q"] by simp_all
  have sets: "set P \<subseteq> set (s # xs)" "p \<in> set (s # xs)" "distinct (P @ [p])" "tl (P @ [p]) = xs"
  proof -
    have "set (s # xs) = set P \<union> {p}" unfolding P by simp
    then show "set P \<subseteq> set (s # xs)" "p \<in> set (s # xs)" by blast+
    show "distinct (P @ [p])" "tl (P @ [p]) = xs" using d by (simp_all flip: P)
  qed
  have qs: "butlast (c # Q) = ys" "distinct (c # Q)" "set (c # Q) = insert s (set ys)"
    using d by (simp_all flip: Q)
  show thesis
  proof (rule that [OF P Q l])
    show "p \<notin> set P" "c \<notin> set Q" using sets(3) qs(2) by simp_all
    show "set P \<inter> set (butlast (c # Q)) = {}" unfolding qs(1) using sets(1) d by auto
    show "set (tl (P @ [p])) \<inter> set (c # Q) = {}" unfolding qs(3) sets(4) using d by auto
    show "p \<notin> set (butlast (c # Q))" unfolding qs(1) using sets(2) d by auto
  qed
qed

lemma holds_insert:
  assumes "holds h s (xs @ ys)" "v \<notin> set (s # xs @ ys)" "pos = hd (ys @ [s])"
  shows "holds (insert_node pos v h) s (xs @ v # ys)"
proof -
  obtain P p c Q where r: "s # xs = P @ [p]" "ys @ [s] = c # Q" "linked h (P @ [p])" "linked h (c # Q)"
    "next_of h p = c" "prev_of h c = p" "p \<notin> set P" "c \<notin> set Q"
    "set P \<inter> set (butlast (c # Q)) = {}" "set (tl (P @ [p])) \<inter> set (c # Q) = {}"
    "p \<notin> set (butlast (c # Q))"
    using ring_split [OF assms(1)] .
  have v: "v \<notin> set (P @ [p])" "v \<notin> set (c # Q)" using assms(2) by (auto simp flip: r(1,2))
  have pos: "pos = c" using assms(3) r(2) by simp
  note f = insert_node_fields [OF r(5,6), of v]
  have "linked (insert_node c v h) (c # Q) = linked h (c # Q)"
  proof (rule linked_cong)
    show "next_of (insert_node c v h) x = next_of h x" if "x \<in> set (butlast (c # Q))" for x
      using that r(11) v(2) in_set_butlastD [of x "c # Q"] f v by auto
    show "prev_of (insert_node c v h) x = prev_of h x" if "x \<in> set (tl (c # Q))" for x
      using that r(8) v f by auto
  qed
  then have "linked (insert_node c v h) (v # c # Q)" using r(4) v f by simp
  moreover have "linked (insert_node c v h) (P @ [p] @ [v])"
  proof -
    have "linked (insert_node c v h) (P @ p # v # [])"
    proof (rule linked_join [OF r(3)])
      show "next_of (insert_node c v h) x = next_of h x" if "x \<in> set P \<union> set (butlast [v])" for x
        using that r(7) v f by auto
      show "prev_of (insert_node c v h) x = prev_of h x" if "x \<in> set (tl (P @ [p])) \<union> set []" for x
        using that r(10) v f list.set_sel(2) [of "P @ [p]" x] by auto
    qed (use v f in auto)
    then show ?thesis by simp
  qed
  ultimately have "linked (insert_node c v h) ((P @ [p]) @ v # c # Q)"
    using linked_append [of "insert_node c v h" "P @ [p]" v "c # Q"] by simp
  then show ?thesis using assms(1,2) pos by (auto simp: holds_def simp flip: r(1,2))
qed

lemma holds_erase:
  assumes "holds h s (xs @ v # ys)"
  shows "holds (erase v h) s (xs @ ys) \<and> erase_result v h = hd (ys @ [s])"
proof -
  obtain P p c Q where r: "s # xs = P @ [p]" "(v # ys) @ [s] = c # Q" "linked h (P @ [p])" "linked h (c # Q)"
    "next_of h p = c" "prev_of h c = p" "p \<notin> set P" "c \<notin> set Q"
    "set P \<inter> set (butlast (c # Q)) = {}" "set (tl (P @ [p])) \<inter> set (c # Q) = {}"
    "p \<notin> set (butlast (c # Q))"
    using ring_split [OF assms] .
  obtain c' Q' where Q: "ys @ [s] = c' # Q'" by (cases "ys @ [s]") auto
  have v: "c = v" "Q = c' # Q'" using r(2) Q by simp_all
  have "distinct (ys @ [s])" using assms by (auto simp: holds_def)
  then have c': "c' \<notin> set Q'" unfolding Q by simp
  have n: "prev_of h v = p" "next_of h v = c'" using r(4,6) v by simp_all
  note f = erase_fields [OF n]
  have "linked (erase v h) (P @ p # c' # Q')"
  proof (rule linked_join [OF r(3)])
    show "linked h (c' # Q')" using r(4) v by simp
    show "next_of (erase v h) x = next_of h x" if "x \<in> set P \<union> set (butlast (c' # Q'))" for x
      using that r(7,11) v by (auto simp: f split: if_splits)
    show "prev_of (erase v h) x = prev_of h x" if "x \<in> set (tl (P @ [p])) \<union> set Q'" for x
      using that r(10) v c' by (auto simp: f)
  qed (simp_all add: f)
  moreover have "P @ p # c' # Q' = s # (xs @ ys) @ [s]"
    using r(1) Q by (metis append.assoc append_Cons append_Nil)
  ultimately have "linked (erase v h) (s # (xs @ ys) @ [s])" by simp
  then show ?thesis using assms n Q by (auto simp: holds_def erase_result_def)
qed

text \<open>The neighbours of a node of the ring are nodes of the ring.\<close>

lemma linked_next: "linked h (a # xs) \<Longrightarrow> x \<in> set (butlast (a # xs)) \<Longrightarrow> next_of h x \<in> set xs"
  by (induction xs arbitrary: a) (auto split: if_splits)

lemma linked_prev: "linked h (a # xs) \<Longrightarrow> x \<in> set xs \<Longrightarrow> prev_of h x \<in> set (butlast (a # xs))"
  by (induction xs arbitrary: a) (auto split: if_splits)

lemma ring_neighbours:
  assumes "holds h s xs" "x \<in> set (s # xs)"
  shows "next_of h x \<in> set (s # xs)" "prev_of h x \<in> set (s # xs)"
  using assms linked_next [of h s "xs @ [s]" x] linked_prev [of h s "xs @ [s]" x]
  by (auto simp: holds_def butlast_append)

lemma holds_cong:
  assumes "\<And>x. x \<in> set (s # xs) \<Longrightarrow> next_of h' x = next_of h x \<and> prev_of h' x = prev_of h x"
  shows "holds h' s xs = holds h s xs"
proof -
  have "linked h' (s # xs @ [s]) = linked h (s # xs @ [s])"
    using assms by (intro linked_cong) (auto simp: butlast_append split: if_splits)
  then show ?thesis by (simp add: holds_def)
qed

lemma insert_node_frame:
  assumes "holds h s xs" "pos \<in> set (s # xs)" "x \<notin> set (s # xs)" "x \<noteq> v"
  shows "next_of (insert_node pos v h) x = next_of h x" "prev_of (insert_node pos v h) x = prev_of h x"
  using assms ring_neighbours [OF assms(1,2)] by (auto simp: insert_node_def Let_def)

lemma erase_frame:
  assumes "holds h s xs" "v \<in> set (s # xs)" "x \<notin> set (s # xs)"
  shows "next_of (erase v h) x = next_of h x" "prev_of (erase v h) x = prev_of h x"
  using assms ring_neighbours [OF assms(1,2)] by (auto simp: erase_def Let_def)

lemma begin_hd: "holds h s xs \<Longrightarrow> begin_it h s = hd (xs @ [s])"
  by (cases xs) (simp_all add: holds_def begin_it_def)

lemma back_last: "holds h s xs \<Longrightarrow> ilist_back h s = last (s # xs)"
  by (cases xs rule: rev_cases)
     (use linked_append [of h "s # butlast xs" "last xs" "[s]"] in
       \<open>auto simp: holds_def ilist_back_def Iterator_dec_def end_it_def\<close>)

lemma holds_push_back: "holds h s xs \<Longrightarrow> v \<notin> set (s # xs) \<Longrightarrow> holds (push_back h s v) s (xs @ [v])"
  using holds_insert [of h s xs "[]" v s] by (simp add: push_back_def end_it_def)

lemma holds_push_front: "holds h s xs \<Longrightarrow> v \<notin> set (s # xs) \<Longrightarrow> holds (push_front h s v) s (v # xs)"
  using holds_insert [of h s "[]" xs v "hd (xs @ [s])"] by (simp add: push_front_def begin_hd)

lemma holds_pop_front: "holds h s (x # xs) \<Longrightarrow> holds (pop_front h s) s xs"
  using holds_erase [of h s "[]" x xs] by (simp add: pop_front_def begin_hd)

lemma holds_remove: "holds h s (xs @ v # ys) \<Longrightarrow> holds (remove h s v) s (xs @ ys)"
  using holds_erase [of h s xs v ys] by (simp add: remove_def)

interpretation il: intrusive_list holds "\<lambda>s. {s}" "\<lambda>_. True" push_back push_front remove
proof
  fix h s xs m ys v
  assume h: "holds h s xs" "holds h m ys"
  { assume d: "v \<notin> {s} \<union> set xs" "insert v ({s} \<union> set xs) \<inter> ({m} \<union> set ys) = {}"
    have "holds (push_back h s v) m ys = holds h m ys"
    proof (rule holds_cong)
      fix x assume "x \<in> set (m # ys)"
      then have "x \<notin> set (s # xs)" "x \<noteq> v" using d by auto
      then show "next_of (push_back h s v) x = next_of h x \<and> prev_of (push_back h s v) x = prev_of h x"
        using insert_node_frame [OF h(1), of s x v] by (simp add: push_back_def end_it_def)
    qed
    then show "holds (push_back h s v) m ys" using h by simp }
  { assume d: "v \<in> set xs" "({s} \<union> set xs) \<inter> ({m} \<union> set ys) = {}"
    have "holds (remove h s v) m ys = holds h m ys"
    proof (rule holds_cong)
      fix x assume "x \<in> set (m # ys)"
      then have "x \<notin> set (s # xs)" using d by auto
      then show "next_of (remove h s v) x = next_of h x \<and> prev_of (remove h s v) x = prev_of h x"
        using erase_frame [OF h(1), of v x] d(1) by (simp add: remove_def)
    qed
    then show "holds (remove h s v) m ys" using h by simp }
qed (auto simp: holds_push_back holds_push_front holds_remove, auto simp: holds_def)

section \<open>Traversal\<close>

text \<open>The loops over a list, forward from the beginning and backward from the end, with a bound on
  the number of steps.\<close>

fun walk :: "nat \<Rightarrow> links \<Rightarrow> addr \<Rightarrow> iterator \<Rightarrow> addr list option" where
  "walk 0 h s it = None"
| "walk (Suc fuel) h s it =
     (if it = end_it s then Some [] else map_option (Cons it) (walk fuel h s (Iterator_inc h it)))"

fun walk_back :: "nat \<Rightarrow> links \<Rightarrow> addr \<Rightarrow> iterator \<Rightarrow> addr list option" where
  "walk_back 0 h s it = None"
| "walk_back (Suc fuel) h s it =
     (if it = begin_it h s then Some []
      else map_option (Cons (Iterator_dec h it)) (walk_back fuel h s (Iterator_dec h it)))"

lemma walk_linked:
  "linked h (xs @ [s]) \<Longrightarrow> s \<notin> set xs \<Longrightarrow> length xs < fuel \<Longrightarrow> walk fuel h s (hd (xs @ [s])) = Some xs"
proof (induction xs arbitrary: fuel)
  case Nil
  then show ?case by (cases fuel) (simp_all add: end_it_def)
next
  case (Cons x xs)
  then obtain f where f: "fuel = Suc f" "length xs < f" by (cases fuel) auto
  have "next_of h x = hd (xs @ [s])" "linked h (xs @ [s])" using Cons.prems(1) by (cases xs; simp)+
  then show ?case using Cons f by (auto simp: end_it_def Iterator_inc_def)
qed

lemma walk_back_linked:
  "linked h (xs @ [y]) \<Longrightarrow> distinct (xs @ [y]) \<Longrightarrow> begin_it h s = hd (xs @ [y]) \<Longrightarrow>
     length xs < fuel \<Longrightarrow> walk_back fuel h s y = Some (rev xs)"
proof (induction xs arbitrary: fuel y rule: rev_induct)
  case Nil
  then show ?case by (cases fuel) simp_all
next
  case (snoc x xs)
  then obtain f where f: "fuel = Suc f" "length xs < f" by (cases fuel) auto
  have l: "linked h (xs @ [x])" "prev_of h y = x"
    using snoc.prems(1) linked_append [of h xs x "[y]"] by simp_all
  have b: "begin_it h s = hd (xs @ [x])" using snoc.prems(3) by (simp add: hd_append)
  then have "y \<noteq> begin_it h s" using snoc.prems(2) hd_in_set [of "xs @ [x]"] by auto
  then show ?case using snoc.IH [OF l(1) _ b f(2)] snoc.prems(2) f(1) l(2)
    by (simp add: Iterator_dec_def)
qed

lemma holds_walk: "holds h s xs \<Longrightarrow> length xs < fuel \<Longrightarrow> walk fuel h s (begin_it h s) = Some xs"
  using walk_linked [of h xs s fuel] begin_hd [of h s xs] linked_append [of h "[]" s "xs @ [s]"]
  by (cases xs) (simp_all add: holds_def)

lemma holds_walk_back:
  assumes "holds h s xs" "length xs < fuel"
  shows "walk_back fuel h s (end_it s) = Some (rev xs)"
  unfolding end_it_def
proof (rule walk_back_linked [OF _ _ begin_hd [OF assms(1)] assms(2)])
  show "linked h (xs @ [s])" using assms(1) by (cases xs) (simp_all add: holds_def)
  show "distinct (xs @ [s])" using assms(1) by (simp add: holds_def)
qed

section \<open>Removing the last element\<close>

lemma linked_next_prev: "linked h (a # xs) \<Longrightarrow> x \<in> set (butlast (a # xs)) \<Longrightarrow> prev_of h (next_of h x) = x"
  by (induction xs arbitrary: a) (auto split: if_splits)

lemma pop_back_step:
  assumes "holds h s (x # xs)" "y \<in> set (x # xs)"
  shows "next_of (pop_back h s) y \<in> set (x # xs)"
proof -
  have s: "next_of h s = x" "s \<notin> set (x # xs)" using assms(1) by (simp_all add: holds_def)
  have "next_of h y \<noteq> s" if "y \<noteq> prev_of h s"
    using linked_next_prev [of h s "(x # xs) @ [s]" y] assms that
    by (auto simp: holds_def butlast_append)
  then show ?thesis
    using ring_neighbours(1) [OF assms(1), of y] assms(2) s
    by (auto simp: pop_back_def erase_fields [OF refl refl] end_it_def)
qed

lemma pop_back_walk:
  assumes "holds h s (x # xs)"
  shows "y \<in> set (x # xs) \<Longrightarrow> walk fuel (pop_back h s) s y = None"
proof (induction fuel arbitrary: y)
  case (Suc fuel)
  have "s \<notin> set (x # xs)" using assms by (simp add: holds_def)
  then show ?case using Suc.IH [OF pop_back_step [OF assms Suc.prems]] Suc.prems
    by (auto simp: end_it_def Iterator_inc_def)
qed simp

section \<open>The counter of sized\_ilist\<close>

definition sized_holds :: "sized \<Rightarrow> addr \<Rightarrow> addr list \<Rightarrow> bool" where
  "sized_holds h s xs \<longleftrightarrow> holds (links_part h) s xs \<and> size_of h s = of_nat (length xs)"

lemma links_with_links [simp]:
  "links_part (with_links h l) = l" "size_of (with_links h l) = size_of h"
  "links_part (h\<lparr>size_of := f\<rparr>) = links_part h"
  by (simp_all add: links_part_def with_links_def)

lemma sized_links [abs_simps]:
  "links_part (sized_push_back h s v) = push_back (links_part h) s v"
  "links_part (sized_push_front h s v) = push_front (links_part h) s v"
  "links_part (sized_pop_front h s) = pop_front (links_part h) s"
  "links_part (sized_pop_back h s) = pop_back (links_part h) s"
  "links_part (sized_remove h s v) = remove (links_part h) s v"
  "links_part (sized_ilist s h) = ilist s (links_part h)"
  "links_part (sized_clear s h) = clear s (links_part h)"
  by (simp_all add: sized_push_back_def sized_push_front_def sized_pop_front_def sized_pop_back_def
      sized_remove_def sized_ilist_def sized_clear_def sized_insert_def sized_erase_def Let_def
      push_back_def push_front_def pop_front_def pop_back_def remove_def)

lemma sized_size [abs_simps]:
  "size_of (sized_push_back h s v) m = (if m = s then size_of h s + 1 else size_of h m)"
  "size_of (sized_push_front h s v) m = (if m = s then size_of h s + 1 else size_of h m)"
  "size_of (sized_pop_front h s) m = (if m = s then size_of h s - 1 else size_of h m)"
  "size_of (sized_pop_back h s) m = (if m = s then size_of h s - 1 else size_of h m)"
  "size_of (sized_remove h s v) m = (if m = s then size_of h s - 1 else size_of h m)"
  "size_of (sized_ilist s h) m = (if m = s then 0 else size_of h m)"
  "size_of (sized_clear s h) m = (if m = s then 0 else size_of h m)"
  by (simp_all add: sized_push_back_def sized_push_front_def sized_pop_front_def sized_pop_back_def
      sized_remove_def sized_ilist_def sized_clear_def sized_insert_def sized_erase_def Let_def)

interpretation sil: intrusive_list sized_holds "\<lambda>s. {s}" "\<lambda>_. True" sized_push_back sized_push_front sized_remove
proof
  fix h s xs v assume "sized_holds h s xs"
  then have "holds (links_part h) s xs" "size_of h s = of_nat (length xs)" by (simp_all add: sized_holds_def)
  then show "distinct xs \<and> {s} \<inter> set xs = {} \<and> (\<forall>x\<in>set xs. True)"
    "v \<notin> {s} \<union> set xs \<Longrightarrow> sized_holds (sized_push_back h s v) s (xs @ [v])"
    "v \<notin> {s} \<union> set xs \<Longrightarrow> sized_holds (sized_push_front h s v) s (v # xs)"
    by (auto simp: sized_holds_def abs_simps holds_push_back holds_push_front il.distinct)
next
  fix h s xs v ys assume "sized_holds h s (xs @ v # ys)"
  then show "sized_holds (sized_remove h s v) s (xs @ ys)"
    by (simp add: sized_holds_def abs_simps holds_remove)
next
  fix h s xs m ys v
  assume h: "sized_holds h s xs" "sized_holds h m ys"
  { assume d: "v \<notin> {s} \<union> set xs" "insert v ({s} \<union> set xs) \<inter> ({m} \<union> set ys) = {}"
    then show "sized_holds (sized_push_back h s v) m ys"
      using h il.frame_push_back [of "links_part h" s xs m ys v]
      by (auto simp: sized_holds_def abs_simps) }
  { assume d: "v \<in> set xs" "({s} \<union> set xs) \<inter> ({m} \<union> set ys) = {}"
    then show "sized_holds (sized_remove h s v) m ys"
      using h il.frame_remove [of "links_part h" s xs m ys v]
      by (auto simp: sized_holds_def abs_simps) }
qed

section \<open>Properties\<close>

text \<open>A concrete heap: the list with sentinel 1 and the elements 2 and 3.\<close>

definition demo :: links where
  "demo = push_back (push_back (ilist 1 \<lparr>next_of = (\<lambda>_. 0), prev_of = (\<lambda>_. 0)\<rparr>) 1 2) 1 3"

lemma demo_holds: "holds demo 1 [2, 3]"
  using holds_push_back [OF holds_push_back [OF holds_ilist, of 2 1], of 3] by (simp add: demo_def)

text \<open>C30. The pointer updates of \<^verbatim>\<open>ilist\<close> implement sequences: inserting before a position, erasing a
  position, pushing at either end, popping at the front and removing an element give the sequence
  with the element put in or taken out there, keep the ring closed in both directions, and erasing
  returns the position after the erased one; front and back are the first and last element.\<close>

theorem ilist_implements_sequence:
  assumes "holds h s (xs @ x # ys)" "v \<notin> set (s # xs @ x # ys)"
  shows "holds (insert_node x v h) s (xs @ v # x # ys)
    \<and> holds (erase x h) s (xs @ ys) \<and> erase_result x h = hd (ys @ [s])
    \<and> holds (remove h s x) s (xs @ ys)
    \<and> holds (push_back h s v) s ((xs @ x # ys) @ [v])
    \<and> holds (push_front h s v) s (v # xs @ x # ys)
    \<and> holds (pop_front h s) s (tl (xs @ x # ys))
    \<and> ilist_front h s = hd (xs @ x # ys) \<and> ilist_back h s = last (xs @ x # ys)
    \<and> holds (clear s h) s [] \<and> \<not> empty h s \<and> empty (clear s h) s"
proof -
  have "holds h s (hd (xs @ x # ys) # tl (xs @ x # ys))" using assms(1) by simp
  note pf = holds_pop_front [OF this]
  have b: "begin_it h s = hd (xs @ x # ys)" using begin_hd [OF assms(1)] by (simp add: hd_append)
  have "s \<notin> set (xs @ x # ys)" using assms(1) by (auto simp: holds_def)
  then have "begin_it h s \<noteq> s" using b hd_in_set [of "xs @ x # ys"] by auto
  then have e: "\<not> empty h s" by (simp add: empty_def begin_it_def)
  show ?thesis
    using holds_insert [OF assms, of x] holds_erase [OF assms(1)] holds_remove [OF assms(1)]
      holds_push_back [OF assms] holds_push_front [OF assms] pf b e back_last [OF assms(1)]
      holds_clear [of s h]
    by (simp add: ilist_front_def empty_def clear_def)
qed

theorem ilist_implements_sequence_witness: "holds (insert_node 3 9 demo) 1 [2, 9, 3]"
  using ilist_implements_sequence [of demo 1 "[2]" 3 "[]" 9] demo_holds by simp

text \<open>A loop over the list from the beginning forward, or from the end backward, ends after as
  many steps as there are elements and visits them in order, or in reverse order.\<close>

theorem ilist_traversal:
  assumes "holds h s xs" "length xs < fuel"
  shows "walk fuel h s (begin_it h s) = Some xs \<and> walk_back fuel h s (end_it s) = Some (rev xs)"
  using holds_walk [OF assms] holds_walk_back [OF assms] by simp

theorem ilist_traversal_witness: "walk 3 demo 1 (begin_it demo 1) = Some [2, 3]"
  using ilist_traversal [OF demo_holds, of 3] by simp

text \<open>\<^verbatim>\<open>pop_back\<close> erases the position after the last element, which is the sentinel, instead of
  the last element: on a non-empty list no element is taken out, the beginning stays the first
  element, and from then on a loop over the list never ends.\<close>

theorem ilist_pop_back_erases_sentinel:
  assumes "holds h s (x # xs)"
  shows "begin_it (pop_back h s) s = x \<and> (\<forall>fuel. walk fuel (pop_back h s) s (begin_it (pop_back h s) s) = None)"
proof -
  have s: "next_of h s = x" "s \<noteq> x" using assms by (simp_all add: holds_def)
  have "begin_it (pop_back h s) s = x"
    using s by (simp add: begin_it_def pop_back_def erase_fields [OF refl refl] end_it_def)
  then show ?thesis using pop_back_walk [OF assms, of x] by simp
qed

theorem ilist_pop_back_erases_sentinel_witness: "walk 1000 (pop_back demo 1) 1 (begin_it (pop_back demo 1) 1) = None"
  using ilist_pop_back_erases_sentinel [OF demo_holds] by blast

text \<open>Moving every element of one \<^verbatim>\<open>sized_ilist\<close> to the end of another, one by one, leaves the
  first empty with counter 0 and appends the elements in order to the second, whose counter is again
  the number of its elements.\<close>

theorem sized_ilist_move_all:
  assumes "sized_holds h s xs" "sized_holds h m zs" "insert s (set xs) \<inter> insert m (set zs) = {}"
  shows "sized_holds (fold (\<lambda>v h. sized_push_back (sized_remove h s v) m v) xs h) s []
    \<and> sized_holds (fold (\<lambda>v h. sized_push_back (sized_remove h s v) m v) xs h) m (zs @ xs)"
  using sil.move_all [OF assms(1,2)] assms(3) by simp

definition sized_demo :: sized where
  "sized_demo = sized_ilist 5 (sized_push_back (sized_push_back (sized_ilist 1
     \<lparr>next_of = (\<lambda>_. 0), prev_of = (\<lambda>_. 0), size_of = (\<lambda>_. 0)\<rparr>) 1 2) 1 3)"

theorem sized_ilist_move_all_witness:
  "sized_holds (fold (\<lambda>v h. sized_push_back (sized_remove h 1 v) 5 v) [2, 3] sized_demo) 5 [2, 3]"
proof -
  have "sized_holds sized_demo 1 [2, 3]" "sized_holds sized_demo 5 []"
    by (simp_all add: sized_demo_def sized_holds_def abs_simps holds_def ilist_def push_back_def
        insert_node_def end_it_def)
  from sized_ilist_move_all [OF this] show ?thesis by simp
qed

end
