(* ===== verification/Cells.thy ===== *)
theory Cells
  imports Prelude
begin

text \<open>
  Singly linked chains addressed through pointer-to-pointer cells, the way \<^verbatim>\<open>sql_list.h\<close> and
  \<^verbatim>\<open>sql_plist.h\<close> walk them: a cell is the \<^verbatim>\<open>first\<close> field of a list object or the \<^verbatim>\<open>next\<close> field of a
  node. The lemmas say how a write to one cell changes a chain.
\<close>

definition NULL :: addr where "NULL = 0"

datatype cell = First addr | Next addr

record cells =
  first_f :: "addr \<Rightarrow> addr"
  next_f :: "addr \<Rightarrow> addr"

fun get :: "'a cells_scheme \<Rightarrow> cell \<Rightarrow> addr" where
  "get st (First l) = first_f st l"
| "get st (Next n) = next_f st n"

fun put :: "cell \<Rightarrow> addr \<Rightarrow> 'a cells_scheme \<Rightarrow> 'a cells_scheme" where
  "put (First l) v st = st\<lparr>first_f := (first_f st)(l := v)\<rparr>"
| "put (Next n) v st = st\<lparr>next_f := (next_f st)(n := v)\<rparr>"

lemma get_put [simp]: "get (put c v st) d = (if d = c then v else get st d)"
  by (cases c; cases d) auto

lemma put_more [simp]: "cells.more (put c v st) = cells.more st"
  by (cases c) auto

declare get.simps [simp del] put.simps [simp del]

lemma First_notin [simp]: "First l \<notin> Next ` A"
  by auto

text \<open>Starting at a cell, the nodes of a chain, ending with a pointer to the terminator.\<close>

fun seg :: "'a cells_scheme \<Rightarrow> cell \<Rightarrow> addr list \<Rightarrow> addr \<Rightarrow> bool" where
  "seg st c [] t \<longleftrightarrow> get st c = t"
| "seg st c (n # ns) t \<longleftrightarrow> get st c = n \<and> seg st (Next n) ns t"

text \<open>The cell that holds the terminator.\<close>

definition last_cell :: "cell \<Rightarrow> addr list \<Rightarrow> cell" where
  "last_cell c ns = (if ns = [] then c else Next (last ns))"

lemma last_cell_simps [simp]:
  "last_cell c [] = c" "last_cell c (n # ns) = last_cell (Next n) ns"
  "last_cell c (ns @ [n]) = Next n"
  by (auto simp: last_cell_def)

lemma last_cell_append [simp]: "last_cell c (ns @ ms) = last_cell (last_cell c ns) ms"
  by (auto simp: last_cell_def)

lemma last_cell_in: "last_cell c ns \<in> insert c (Next ` set ns)"
  by (auto simp: last_cell_def)

lemma seg_append: "seg st c (ns @ ms) t \<longleftrightarrow> seg st c ns (hd (ms @ [t])) \<and> seg st (last_cell c ns) ms t"
  by (induction ns arbitrary: c) (auto simp: neq_Nil_conv, cases ms, auto)

lemma seg_hd: "seg st c ns t \<Longrightarrow> get st c = hd (ns @ [t])"
  by (cases ns) auto

lemma seg_last: "seg st c ns t \<Longrightarrow> get st (last_cell c ns) = t"
  by (induction ns arbitrary: c) auto

lemma seg_cong:
  "(\<And>d. d \<in> insert c (Next ` set ns) \<Longrightarrow> get st' d = get st d) \<Longrightarrow> seg st' c ns t = seg st c ns t"
  by (induction ns arbitrary: c) auto

lemma seg_frame: "d \<notin> insert c (Next ` set ns) \<Longrightarrow> seg (put d v st) c ns t = seg st c ns t"
  by (rule seg_cong) auto

lemma seg_put_last:
  "seg st c ns t \<Longrightarrow> distinct ns \<Longrightarrow> c \<notin> Next ` set ns \<Longrightarrow> seg (put (last_cell c ns) v st) c ns v"
proof (induction ns arbitrary: c)
  case (Cons n ns)
  have "last_cell (Next n) ns \<in> insert (Next n) (Next ` set ns)" by (rule last_cell_in)
  then have "c \<noteq> last_cell (Next n) ns" using Cons.prems(3) by auto
  then show ?case using Cons by (auto simp: image_iff)
qed simp

lemma seg_unique: "seg st c ns t \<Longrightarrow> seg st c ms t \<Longrightarrow> t \<notin> set ns \<Longrightarrow> t \<notin> set ms \<Longrightarrow> ns = ms"
proof (induction ns arbitrary: c ms)
  case Nil
  then show ?case by (cases ms) auto
next
  case (Cons n ns)
  then show ?case by (cases ms) auto
qed

text \<open>The same chain seen from the value of its first cell.\<close>

fun chain :: "'a cells_scheme \<Rightarrow> addr \<Rightarrow> addr list \<Rightarrow> addr \<Rightarrow> bool" where
  "chain st v [] t \<longleftrightarrow> v = t"
| "chain st v (n # ns) t \<longleftrightarrow> v = n \<and> chain st (get st (Next n)) ns t"

lemma seg_chain: "seg st c ns t = chain st (get st c) ns t"
  by (induction ns arbitrary: c) auto

lemma chain_cong: "(\<And>n. n \<in> set ns \<Longrightarrow> get st' (Next n) = get st (Next n)) \<Longrightarrow> chain st' v ns t = chain st v ns t"
  by (induction ns arbitrary: v) auto

lemma chain_frame: "d \<notin> Next ` set ns \<Longrightarrow> chain (put d w st) v ns t = chain st v ns t"
  by (rule chain_cong) auto

lemma chain_hd: "chain st v ns t \<Longrightarrow> v = hd (ns @ [t])"
  by (cases ns) auto

lemma seg_append_chain:
  "seg st c (ns @ ms) t \<longleftrightarrow> seg st c ns (hd (ms @ [t])) \<and> chain st (get st (last_cell c ns)) ms t"
  by (simp add: seg_append seg_chain [of _ "last_cell c ns"])

text \<open>Writing the address of a chain into the last cell of another one joins them; insertion and
  removal in the middle are instances.\<close>

lemma seg_join:
  assumes "seg st c ns t0" "distinct ns" "c \<notin> Next ` set ns" "chain st v ms t"
    and "last_cell c ns \<notin> Next ` set ms"
  shows "seg (put (last_cell c ns) v st) c (ns @ ms) t"
proof -
  have "seg (put (last_cell c ns) v st) c ns v" using assms(1-3) by (rule seg_put_last)
  then show ?thesis
    using assms(4,5) chain_frame [of "last_cell c ns" ms v st v t] chain_hd [of st v ms t]
    by (simp add: seg_append_chain)
qed

lemma last_cell_disjoint:
  "distinct (ns @ ms) \<Longrightarrow> c \<notin> Next ` set ms \<Longrightarrow> last_cell c ns \<notin> Next ` set ms"
  using last_cell_in [of c ns] by auto

lemma seg_insert:
  assumes "seg st c (ns @ ms) t" "distinct (ns @ ms)" "c \<notin> Next ` set (ns @ n # ms)" "n \<notin> set (ns @ ms)"
  shows "seg (put (last_cell c ns) n (put (Next n) (get st (last_cell c ns)) st)) c (ns @ n # ms) t"
proof (rule seg_join)
  let ?st = "put (Next n) (get st (last_cell c ns)) st"
  have f: "Next n \<notin> insert c (Next ` set ns)" "Next n \<notin> Next ` set ms" using assms(3,4) by auto
  show "seg ?st c ns (hd (ms @ [t]))" using assms(1) by (simp add: seg_frame [OF f(1)] seg_append)
  show "chain ?st n (n # ms) t" using assms(1) by (simp add: chain_frame [OF f(2)] seg_append_chain)
  show "last_cell c ns \<notin> Next ` set (n # ms)"
    using assms last_cell_disjoint [of ns "n # ms" c] by auto
qed (use assms in auto)

lemma seg_delete:
  assumes "seg st c (ns @ n # ms) t" "distinct (ns @ n # ms)" "c \<notin> Next ` set (ns @ n # ms)"
  shows "seg (put (last_cell c ns) (get st (Next n)) st) c (ns @ ms) t"
proof (rule seg_join)
  show "seg st c ns n" "chain st (get st (Next n)) ms t" using assms(1) by (auto simp: seg_append_chain)
  show "last_cell c ns \<notin> Next ` set ms" using assms by (intro last_cell_disjoint) auto
qed (use assms in auto)

end
