(* ===== verification/Sql_List.thy ===== *)
theory Sql_List
  imports Cells
begin

text \<open>
  The non-intrusive list of \<^verbatim>\<open>sql_list.h\<close>: \<^verbatim>\<open>base_list\<close> with its typed wrapper \<^verbatim>\<open>List\<close>, and the
  iterators. Nodes and list objects live in one store; \<^verbatim>\<open>list_node **\<close> pointers are cells. A pointer
  to a payload is an address, 0 the null pointer. Memory allocation is outside the code: the address
  of the new node, or \<^const>\<open>NULL\<close> when there is no memory, is an argument of the operation.
\<close>

section \<open>The store\<close>

record store = cells +
  info_f :: "addr \<Rightarrow> addr"
  last_f :: "addr \<Rightarrow> cell"
  elements_f :: "addr \<Rightarrow> uint32"

definition end_of_list :: addr where "end_of_list = 1"

definition set_info :: "addr \<Rightarrow> addr \<Rightarrow> store \<Rightarrow> store" where
  "set_info n v st = st\<lparr>info_f := (info_f st)(n := v)\<rparr>"

definition set_last :: "addr \<Rightarrow> cell \<Rightarrow> store \<Rightarrow> store" where
  "set_last l c st = st\<lparr>last_f := (last_f st)(l := c)\<rparr>"

definition set_elements :: "addr \<Rightarrow> uint32 \<Rightarrow> store \<Rightarrow> store" where
  "set_elements l k st = st\<lparr>elements_f := (elements_f st)(l := k)\<rparr>"

text \<open>\<^verbatim>\<open>new list_node(info, next)\<close> at the address the allocator returned.\<close>

definition list_node :: "addr \<Rightarrow> addr \<Rightarrow> addr \<Rightarrow> store \<Rightarrow> store" where
  "list_node n info_par next_par st =
     (if n = NULL then st else set_info n info_par (put (Next n) next_par st))"

section \<open>base\_list\<close>

definition list_eq :: "store \<Rightarrow> addr \<Rightarrow> addr \<Rightarrow> bool" where
  "list_eq st l rhs \<longleftrightarrow>
     elements_f st l = elements_f st rhs \<and> get st (First l) = get st (First rhs)
     \<and> last_f st l = last_f st rhs"

definition assign :: "addr \<Rightarrow> addr \<Rightarrow> store \<Rightarrow> store" where
  "assign l rhs st =
     (let st = set_elements l (elements_f st rhs) st;
          st = put (First l) (get st (First rhs)) st
      in set_last l (if elements_f st l \<noteq> 0 then last_f st rhs else First l) st)"

definition empty :: "addr \<Rightarrow> store \<Rightarrow> store" where
  "empty l st = set_last l (First l) (put (First l) end_of_list (set_elements l 0 st))"

text \<open>The boolean results follow the code: true means failure.\<close>

definition push_back :: "addr \<Rightarrow> addr \<Rightarrow> addr \<Rightarrow> store \<Rightarrow> bool \<times> store" where
  "push_back l info new st =
     (let st = list_node new info end_of_list st;
          st = put (last_f st l) new st
      in if get st (last_f st l) \<noteq> NULL
         then let st = set_last l (Next (get st (last_f st l))) st
              in (False, set_elements l (elements_f st l + 1) st)
         else (True, st))"

definition push_front_impl :: "addr \<Rightarrow> addr \<Rightarrow> store \<Rightarrow> bool \<times> store" where
  "push_front_impl l node st =
     (if node \<noteq> NULL
      then let st = (if last_f st l = First l then set_last l (Next node) st else st);
               st = put (First l) node st
           in (False, set_elements l (elements_f st l + 1) st)
      else (True, st))"

definition push_front :: "addr \<Rightarrow> addr \<Rightarrow> addr \<Rightarrow> store \<Rightarrow> bool \<times> store" where
  "push_front l info new st = push_front_impl l new (list_node new info (get st (First l)) st)"

definition remove :: "addr \<Rightarrow> cell \<Rightarrow> store \<Rightarrow> store" where
  "remove l prev st =
     (let node = get st (Next (get st prev));
          st = set_elements l (elements_f st l - 1) st;
          st = (if elements_f st l = 0 then set_last l (First l) st
                else if last_f st l = Next (get st prev) then set_last l prev st
                else st)
      in put prev node st)"

definition is_empty :: "store \<Rightarrow> addr \<Rightarrow> bool" where
  "is_empty st l \<longleftrightarrow> get st (First l) = end_of_list"

definition append :: "addr \<Rightarrow> addr \<Rightarrow> store \<Rightarrow> store" where
  "append l ls st =
     (if \<not> is_empty st ls then
        if is_empty st l then assign l ls st
        else let st = put (last_f st l) (get st (First ls)) st;
                 st = set_last l (last_f st ls) st
             in set_elements l (elements_f st l + elements_f st ls) st
      else st)"

definition pop :: "addr \<Rightarrow> store \<Rightarrow> addr \<times> store" where
  "pop l st =
     (if get st (First l) = end_of_list then (NULL, st)
      else let tmp = get st (First l);
               st = put (First l) (get st (Next tmp)) st;
               st = set_elements l (elements_f st l - 1) st;
               st = (if elements_f st l = 0 then set_last l (First l) st else st)
           in (info_f st tmp, st))"

text \<open>The loop of \<^verbatim>\<open>disjoin\<close>: \<^const>\<open>None\<close> when it does not end; the flag tells the early return.\<close>

partial_function (option) disjoin_loop ::
  "addr \<Rightarrow> store \<Rightarrow> cell \<Rightarrow> addr \<Rightarrow> uint32 \<Rightarrow> (bool \<times> cell \<times> uint32) option" where
  "disjoin_loop list_first st prev node elements =
     (if node \<noteq> end_of_list \<and> node \<noteq> list_first then
        let prev = Next node;
            node = get st (Next node);
            elements = elements + 1
        in if node = end_of_list then Some (True, prev, elements)
           else disjoin_loop list_first st prev node elements
      else Some (False, prev, elements))"

definition disjoin :: "addr \<Rightarrow> addr \<Rightarrow> store \<Rightarrow> store option" where
  "disjoin l ls st =
     (case disjoin_loop (get st (First ls)) st (First l) (get st (First l)) 0 of
        None \<Rightarrow> None
      | Some (returned, prev, elements) \<Rightarrow>
          let st = set_elements l elements st
          in Some (if returned then st else set_last l prev (put prev end_of_list st)))"

definition prepend :: "addr \<Rightarrow> addr \<Rightarrow> store \<Rightarrow> store" where
  "prepend l ls st =
     (if \<not> is_empty st ls then
        let st = (if is_empty st l then set_last l (last_f st ls) st else st);
            st = put (last_f st ls) (get st (First l)) st;
            st = put (First l) (get st (First ls)) st
        in set_elements l (elements_f st l + elements_f st ls) st
      else st)"

definition swap :: "addr \<Rightarrow> addr \<Rightarrow> store \<Rightarrow> store" where
  "swap l rhs st =
     (let rhs_last = last_f st rhs;
          f = get st (First l);
          st = put (First l) (get st (First rhs)) st;
          st = put (First rhs) f st;
          e = elements_f st l;
          st = set_elements l (elements_f st rhs) st;
          st = set_elements rhs e st;
          st = set_last rhs (if last_f st l = First l then First rhs else last_f st l) st
      in set_last l (if rhs_last = First rhs then First l else rhs_last) st)"

definition head :: "store \<Rightarrow> addr \<Rightarrow> addr" where
  "head st l = info_f st (get st (First l))"

text \<open>The search of \<^verbatim>\<open>add_unique\<close> with the client's equality test.\<close>

partial_function (option) find_node ::
  "(addr \<Rightarrow> addr \<Rightarrow> bool) \<Rightarrow> store \<Rightarrow> addr \<Rightarrow> addr \<Rightarrow> addr option" where
  "find_node eq st info node =
     (if node \<noteq> end_of_list \<and> \<not> eq (info_f st node) info
      then find_node eq st info (get st (Next node)) else Some node)"

definition add_unique ::
  "(addr \<Rightarrow> addr \<Rightarrow> bool) \<Rightarrow> addr \<Rightarrow> addr \<Rightarrow> addr \<Rightarrow> store \<Rightarrow> (bool \<times> store) option" where
  "add_unique eq l info new st =
     (case find_node eq st info (get st (First l)) of
        None \<Rightarrow> None
      | Some node \<Rightarrow> Some (if node = end_of_list then push_back l info new st else (True, st)))"

fun elem_loop :: "store \<Rightarrow> nat \<Rightarrow> addr \<Rightarrow> addr \<Rightarrow> addr" where
  "elem_loop st 0 node data = data"
| "elem_loop st (Suc k) node data =
     (if node = end_of_list then NULL
      else elem_loop st k (get st (Next node)) (info_f st node))"

definition elem :: "store \<Rightarrow> addr \<Rightarrow> uint32 \<Rightarrow> addr" where
  "elem st l n = elem_loop st (unat n + 1) (get st (First l)) NULL"

text \<open>The debug check of the invariants; \<^const>\<open>None\<close> when the walk does not end.\<close>

partial_function (option) check_list_loop ::
  "store \<Rightarrow> addr \<Rightarrow> uint32 \<Rightarrow> (addr \<times> uint32) option option" where
  "check_list_loop st node cnt =
     (if get st (Next node) \<noteq> end_of_list then
        if info_f st node = NULL then Some None
        else check_list_loop st (get st (Next node)) (cnt + 1)
      else Some (Some (node, cnt)))"

definition check_list :: "store \<Rightarrow> addr \<Rightarrow> bool option" where
  "check_list st l =
     (case check_list_loop st (get st (First l)) 0 of
        None \<Rightarrow> None
      | Some None \<Rightarrow> Some False
      | Some (Some (node, cnt)) \<Rightarrow>
          if last_f st l \<noteq> Next node then Some False
          else if cnt + 1 \<noteq> elements_f st l then Some False
          else Some True)"

definition after :: "addr \<Rightarrow> addr \<Rightarrow> addr \<Rightarrow> addr \<Rightarrow> store \<Rightarrow> store" where
  "after l info node new st =
     (let st = list_node new info (get st (Next node)) st;
          st = put (Next node) new st;
          st = set_elements l (elements_f st l + 1) st
      in if last_f st l = Next node then set_last l (Next new) st else st)"

section \<open>base\_list\_iterator\<close>

record base_list_iterator =
  it_list :: addr
  el :: cell
  prev :: "cell option"
  current :: addr

definition init :: "addr \<Rightarrow> base_list_iterator" where
  "init list_par = \<lparr>it_list = list_par, el = First list_par, prev = None, current = NULL\<rparr>"

definition next_it :: "store \<Rightarrow> base_list_iterator \<Rightarrow> addr \<times> base_list_iterator" where
  "next_it st it =
     (let it = it\<lparr>prev := Some (el it)\<rparr>;
          it = it\<lparr>current := get st (el it)\<rparr>;
          it = it\<lparr>el := Next (current it)\<rparr>
      in (info_f st (current it), it))"

definition peek :: "store \<Rightarrow> base_list_iterator \<Rightarrow> addr" where
  "peek st it = info_f st (get st (el it))"

definition next_fast :: "store \<Rightarrow> base_list_iterator \<Rightarrow> addr \<times> base_list_iterator" where
  "next_fast st it = (let tmp = get st (el it) in (info_f st tmp, it\<lparr>el := Next tmp\<rparr>))"

definition rewind :: "base_list_iterator \<Rightarrow> base_list_iterator" where
  "rewind it = it\<lparr>el := First (it_list it)\<rparr>"

definition replace_elem :: "addr \<Rightarrow> base_list_iterator \<Rightarrow> store \<Rightarrow> addr \<times> store" where
  "replace_elem element it st = (info_f st (current it), set_info (current it) element st)"

definition replace_list :: "addr \<Rightarrow> base_list_iterator \<Rightarrow> store \<Rightarrow> addr \<times> store" where
  "replace_list new_list it st =
     (let ret_value = info_f st (current it)
      in if \<not> is_empty st new_list then
           let st = put (last_f st new_list) (get st (Next (current it))) st;
               st = set_info (current it) (info_f st (get st (First new_list))) st;
               st = put (Next (current it)) (get st (Next (get st (First new_list)))) st;
               st = (if last_f st (it_list it) = Next (current it) \<and> elements_f st new_list > 1
                     then set_last (it_list it) (last_f st new_list) st else st)
           in (ret_value, set_elements (it_list it)
                 (elements_f st (it_list it) + (elements_f st new_list - 1)) st)
         else (ret_value, st))"

definition remove_it :: "base_list_iterator \<Rightarrow> store \<Rightarrow> base_list_iterator \<times> store" where
  "remove_it it st =
     (case prev it of None \<Rightarrow> (it, st)
      | Some p \<Rightarrow> (it\<lparr>el := p, current := NULL\<rparr>, remove (it_list it) p st))"

definition after_it :: "addr \<Rightarrow> addr \<Rightarrow> base_list_iterator \<Rightarrow> store \<Rightarrow> base_list_iterator \<times> store" where
  "after_it element new it st =
     (let st = after (it_list it) element (current it) new st;
          it = it\<lparr>current := get st (Next (current it))\<rparr>
      in (it\<lparr>el := Next (current it)\<rparr>, st))"

definition is_last :: "base_list_iterator \<Rightarrow> bool" where
  "is_last it \<longleftrightarrow> el it = Next end_of_list"

definition at_end :: "base_list_iterator \<Rightarrow> bool" where
  "at_end it \<longleftrightarrow> current it = end_of_list"

definition sublist :: "addr \<Rightarrow> uint32 \<Rightarrow> base_list_iterator \<Rightarrow> store \<Rightarrow> store" where
  "sublist ls elm it st =
     (let st = put (First ls) (get st (el it)) st;
          st = set_last ls (last_f st (it_list it)) st
      in set_elements ls elm st)"

section \<open>List\<close>

text \<open>\<^verbatim>\<open>delete_elements\<close> calls the destructor on every payload; the model returns them in order.\<close>

partial_function (option) delete_loop :: "store \<Rightarrow> addr \<Rightarrow> addr list \<Rightarrow> addr list option" where
  "delete_loop st element deleted =
     (if element \<noteq> end_of_list
      then delete_loop st (get st (Next element)) (deleted @ [info_f st element])
      else Some deleted)"

definition delete_elements :: "addr \<Rightarrow> store \<Rightarrow> (addr list \<times> store) option" where
  "delete_elements l st =
     (case delete_loop st (get st (First l)) [] of
        None \<Rightarrow> None | Some deleted \<Rightarrow> Some (deleted, empty l st))"

definition make :: "addr \<Rightarrow> addr \<Rightarrow> addr \<Rightarrow> store \<Rightarrow> addr \<times> store" where
  "make first res new st =
     (if res = NULL then (NULL, st)
      else let (failed, st) = push_back res first new (empty res st)
           in (if failed then NULL else res, st))"

text \<open>The forward iterator of \<^verbatim>\<open>List\<close> is a node address; a range loop runs it from the first node to
  the end mark.\<close>

definition List_Iterator_inc :: "store \<Rightarrow> addr \<Rightarrow> addr" where
  "List_Iterator_inc st node = get st (Next node)"

definition List_Iterator_deref :: "store \<Rightarrow> addr \<Rightarrow> addr" where
  "List_Iterator_deref st node = info_f st node"

section \<open>The sequence a list holds\<close>

lemma put_fields [simp]:
  "info_f (put c v st) = info_f st" "last_f (put c v st) = last_f st"
  "elements_f (put c v st) = elements_f st"
  by (cases c; simp add: put.simps)+

lemma get_def_cases:
  "get st c = (case c of First l \<Rightarrow> first_f st l | Next n \<Rightarrow> next_f st n)"
  by (cases c) (simp_all add: get.simps)

lemma set_fields [simp]:
  "get (set_info n v st) = get st" "get (set_last l c st) = get st" "get (set_elements l k st) = get st"
  "info_f (set_info n v st) x = (if x = n then v else info_f st x)"
  "last_f (set_info n v st) = last_f st" "elements_f (set_info n v st) = elements_f st"
  "last_f (set_last l c st) x = (if x = l then c else last_f st x)"
  "info_f (set_last l c st) = info_f st" "elements_f (set_last l c st) = elements_f st"
  "elements_f (set_elements l k st) x = (if x = l then k else elements_f st x)"
  "info_f (set_elements l k st) = info_f st" "last_f (set_elements l k st) = last_f st"
  by (auto simp: set_info_def set_last_def set_elements_def fun_eq_iff get_def_cases split: cell.splits)

lemma put_set [simp]:
  "put c v (set_info n i st) = set_info n i (put c v st)"
  "put c v (set_last l d st) = set_last l d (put c v st)"
  "put c v (set_elements l k st) = set_elements l k (put c v st)"
  by (cases c; simp add: put.simps set_info_def set_last_def set_elements_def)+

text \<open>Chains only depend on the cells.\<close>

lemma seg_get: "get st' = get st \<Longrightarrow> seg st' c ns t = seg st c ns t"
  by (rule seg_cong) simp

lemma seg_set_fields [simp]:
  "seg (set_info n v st) c ns t = seg st c ns t" "seg (set_last l d st) c ns t = seg st c ns t"
  "seg (set_elements l k st) c ns t = seg st c ns t"
  by (rule seg_get; simp)+

lemma chain_set_fields [simp]:
  "chain (set_info n v st) w ns t = chain st w ns t" "chain (set_last l d st) w ns t = chain st w ns t"
  "chain (set_elements l k st) w ns t = chain st w ns t"
  by (rule chain_cong; simp)+

definition eol_ok :: "store \<Rightarrow> bool" where
  "eol_ok st \<longleftrightarrow> get st (Next end_of_list) = end_of_list \<and> info_f st end_of_list = NULL"

definition nodes_ok :: "addr list \<Rightarrow> bool" where
  "nodes_ok ns \<longleftrightarrow> distinct ns \<and> NULL \<notin> set ns \<and> end_of_list \<notin> set ns \<and> length ns < 2 ^ 32"

definition blist :: "store \<Rightarrow> addr \<Rightarrow> addr list \<Rightarrow> bool" where
  "blist st l ns \<longleftrightarrow> seg st (First l) ns end_of_list \<and> last_f st l = last_cell (First l) ns
     \<and> elements_f st l = of_nat (length ns) \<and> nodes_ok ns \<and> eol_ok st"

text \<open>The payloads in order.\<close>

definition infos :: "store \<Rightarrow> addr list \<Rightarrow> addr list" where
  "infos st ns = map (info_f st) ns"

lemma of_nat_eq_0_32: "n < 2 ^ 32 \<Longrightarrow> (of_nat n :: uint32) = 0 \<longleftrightarrow> n = 0"
  by (simp add: word_unat_eq_iff unat_of_nat)

lemma NULL_neq_EOL [simp]: "NULL \<noteq> end_of_list" "end_of_list \<noteq> NULL"
  by (simp_all add: NULL_def end_of_list_def)

lemma blist_empty: "eol_ok st \<Longrightarrow> blist (empty l st) l []"
  by (simp add: blist_def empty_def nodes_ok_def eol_ok_def)

lemma is_empty_iff: "blist st l ns \<Longrightarrow> is_empty st l \<longleftrightarrow> ns = []"
  by (cases ns) (auto simp: blist_def is_empty_def nodes_ok_def)

text \<open>A node that may be linked into a list.\<close>

definition fresh :: "addr list \<Rightarrow> addr \<Rightarrow> bool" where
  "fresh ns n \<longleftrightarrow> n \<noteq> NULL \<and> n \<noteq> end_of_list \<and> n \<notin> set ns \<and> length ns + 1 < 2 ^ 32"

lemma nodes_ok_insert: "nodes_ok (ns @ ms) \<Longrightarrow> fresh (ns @ ms) n \<Longrightarrow> nodes_ok (ns @ n # ms)"
  by (auto simp: nodes_ok_def fresh_def)

lemma last_cell_not_eol: "nodes_ok ns \<Longrightarrow> last_cell (First l) ns \<noteq> Next end_of_list"
  using last_cell_in [of "First l" ns] by (auto simp: nodes_ok_def)

lemma eol_ok_put: "eol_ok st \<Longrightarrow> c \<noteq> Next end_of_list \<Longrightarrow> eol_ok (put c v st)"
  by (simp add: eol_ok_def)

lemma push_back_ok:
  assumes "blist st l ns" "fresh ns n"
  shows "\<exists>st'. push_back l info n st = (False, st') \<and> blist st' l (ns @ [n])
    \<and> infos st' (ns @ [n]) = infos st ns @ [info]"
proof -
  let ?c = "last_cell (First l) ns"
  let ?st = "put ?c n (set_info n info (put (Next n) end_of_list st))"
  have n: "n \<noteq> NULL" "n \<noteq> end_of_list" "n \<notin> set ns" using assms(2) by (auto simp: fresh_def)
  have b: "seg st (First l) ns end_of_list" "last_f st l = ?c" "elements_f st l = of_nat (length ns)"
      "nodes_ok ns" "eol_ok st" using assms(1) by (simp_all add: blist_def)
  have "seg (put ?c n (put (Next n) end_of_list st)) (First l) (ns @ [n]) end_of_list"
    using seg_insert [of st "First l" ns "[]" end_of_list n] b n seg_last [OF b(1)]
    by (simp add: nodes_ok_def)
  then have "seg ?st (First l) (ns @ [n]) end_of_list" by (rule seg_get [THEN iffD1, rotated]) (simp add: fun_eq_iff)
  moreover have "push_back l info n st =
      (False, set_elements l (elements_f st l + 1) (set_last l (Next n) ?st))"
    using b n(1) by (simp add: push_back_def list_node_def Let_def)
  moreover have "eol_ok ?st" using b(5) n(2) last_cell_not_eol [OF b(4), of l] by (simp add: eol_ok_def)
  ultimately show ?thesis
    using b n nodes_ok_insert [of ns "[]" n] assms(2) by (simp add: blist_def infos_def eol_ok_def)
qed

text \<open>When the allocation fails, the null pointer is stored where the end mark was.\<close>

lemma push_back_fail:
  assumes "blist st l ns"
  shows "push_back l info NULL st = (True, put (last_cell (First l) ns) NULL st)"
  using assms by (simp add: push_back_def list_node_def Let_def blist_def)

lemma push_front_ok:
  assumes "blist st l ns" "fresh ns n"
  shows "\<exists>st'. push_front l info n st = (False, st') \<and> blist st' l (n # ns)
    \<and> infos st' (n # ns) = info # infos st ns"
proof -
  let ?st = "put (First l) n (set_info n info (put (Next n) (get st (First l)) st))"
  have n: "n \<noteq> NULL" "n \<noteq> end_of_list" "n \<notin> set ns" using assms(2) by (auto simp: fresh_def)
  have b: "seg st (First l) ns end_of_list" "last_f st l = last_cell (First l) ns"
      "elements_f st l = of_nat (length ns)" "nodes_ok ns" "eol_ok st"
    using assms(1) by (simp_all add: blist_def)
  have "seg (put (First l) n (put (Next n) (get st (First l)) st)) (First l) (n # ns) end_of_list"
    using seg_insert [of st "First l" "[]" ns end_of_list n] b n by (simp add: nodes_ok_def)
  then have "seg ?st (First l) (n # ns) end_of_list"
    by (rule seg_get [THEN iffD1, rotated]) (simp add: fun_eq_iff)
  moreover have "last_f st l = First l \<longleftrightarrow> ns = []" using b(2) by (simp add: last_cell_def)
  then obtain st' where st': "push_front l info n st = (False, st')" "get st' = get ?st" "info_f st' = info_f ?st"
      "last_f st' l = last_cell (First l) (n # ns)" "elements_f st' l = elements_f st l + 1"
    using b(2) n(1) by (auto simp: push_front_def push_front_impl_def list_node_def Let_def fun_eq_iff last_cell_def)
  moreover have "eol_ok st'" using b(5) n(2) st'(2,3) by (simp add: eol_ok_def)
  ultimately show ?thesis
    using b n nodes_ok_insert [of "[]" ns n] assms(2) seg_get [OF st'(2)]
    by (auto simp: blist_def infos_def)
qed

lemma remove_ok:
  assumes "blist st l (ns @ n # ms)" "p = last_cell (First l) ns"
  shows "blist (remove l p st) l (ns @ ms)" "info_f (remove l p st) = info_f st"
proof -
  let ?k = "ns @ n # ms"
  have b: "seg st (First l) ?k end_of_list" "last_f st l = last_cell (First l) ?k"
      "elements_f st l = of_nat (length ?k)" "nodes_ok ?k" "eol_ok st"
    using assms(1) by (simp_all add: blist_def)
  have p: "get st p = n" using b(1) assms(2) by (simp add: seg_append_chain)
  have "nodes_ok ns" "nodes_ok (ns @ ms)" using b(4) by (auto simp: nodes_ok_def)
  have "elements_f st l - 1 = of_nat (length (ns @ ms))" using b(3) by simp
  moreover have "(of_nat (length (ns @ ms)) :: uint32) = 0 \<longleftrightarrow> ns @ ms = []"
    using \<open>nodes_ok (ns @ ms)\<close> of_nat_eq_0_32 [of "length (ns @ ms)"] by (simp add: nodes_ok_def)
  moreover have "last_cell (First l) ?k = Next n \<longleftrightarrow> ms = []"
    using b(4) by (cases ms rule: rev_cases) (auto simp: nodes_ok_def)
  moreover have "ms \<noteq> [] \<Longrightarrow> last_cell (Next n) ms = last_cell (last_cell (First l) ns) ms"
    by (simp add: last_cell_def)
  ultimately have "last_f (remove l p st) l = last_cell (First l) (ns @ ms)"
      "elements_f (remove l p st) l = of_nat (length (ns @ ms))"
      "get (remove l p st) = get (put p (get st (Next n)) st)"
    using b(2) p assms(2) by (auto simp: remove_def Let_def fun_eq_iff)
  moreover have "seg (put p (get st (Next n)) st) (First l) (ns @ ms) end_of_list"
    using seg_delete [OF b(1)] b(4) assms(2) by (simp add: nodes_ok_def)
  moreover show inf: "info_f (remove l p st) = info_f st" by (simp add: remove_def Let_def)
  moreover have "eol_ok (put p (get st (Next n)) st)"
    using b(5) assms(2) last_cell_not_eol [OF \<open>nodes_ok ns\<close>, of l] by (intro eol_ok_put) simp_all
  ultimately show "blist (remove l p st) l (ns @ ms)"
    using \<open>nodes_ok (ns @ ms)\<close> seg_get [of "remove l p st" "put p (get st (Next n)) st"]
    by (simp add: blist_def eol_ok_def)
qed

lemma pop_ok:
  assumes "blist st l (n # ns)"
  shows "fst (pop l st) = info_f st n" "blist (snd (pop l st)) l ns" "info_f (snd (pop l st)) = info_f st"
proof -
  have b: "seg st (First l) (n # ns) end_of_list" "last_f st l = last_cell (First l) (n # ns)"
      "elements_f st l = of_nat (length (n # ns))" "nodes_ok (n # ns)"
    using assms by (simp_all add: blist_def)
  have "last_cell (Next n) ns = Next n \<longleftrightarrow> ns = []"
    using b(4) by (cases ns rule: rev_cases) (auto simp: nodes_ok_def)
  then have same: "last_f (snd (pop l st)) l = last_f (remove l (First l) st) l"
    "elements_f (snd (pop l st)) l = elements_f (remove l (First l) st) l"
    "get (snd (pop l st)) = get (remove l (First l) st)"
    "info_f (snd (pop l st)) = info_f (remove l (First l) st)"
    using b of_nat_eq_0_32 [of "length ns"]
    by (auto simp: pop_def remove_def Let_def nodes_ok_def fun_eq_iff)
  have r: "blist (remove l (First l) st) l ns" "info_f (remove l (First l) st) = info_f st"
    using remove_ok [of st l "[]" n ns "First l"] assms by simp_all
  show "blist (snd (pop l st)) l ns" "info_f (snd (pop l st)) = info_f st"
    using r same seg_get [OF same(3)] by (simp_all add: blist_def eol_ok_def)
  show "fst (pop l st) = info_f st n" using b by (auto simp: pop_def Let_def nodes_ok_def)
qed

lemma pop_empty: "blist st l [] \<Longrightarrow> pop l st = (NULL, st)"
  by (simp add: pop_def blist_def)

lemma append_ok:
  assumes "blist st l ns" "blist st k ms" "l \<noteq> k" "distinct (ns @ ms)" "length (ns @ ms) < 2 ^ 32"
  shows "blist (append l k st) l (ns @ ms)" "info_f (append l k st) = info_f st"
proof -
  show "info_f (append l k st) = info_f st" by (simp add: append_def assign_def Let_def)
  have b: "seg st (First l) ns end_of_list" "last_f st l = last_cell (First l) ns"
      "elements_f st l = of_nat (length ns)" "nodes_ok ns" "eol_ok st"
    and k: "seg st (First k) ms end_of_list" "last_f st k = last_cell (First k) ms"
      "elements_f st k = of_nat (length ms)" "nodes_ok ms"
    using assms(1,2) by (simp_all add: blist_def)
  have ok: "nodes_ok (ns @ ms)" using b(4) k(4) assms(4,5) by (auto simp: nodes_ok_def)
  have ch: "chain st (get st (First k)) ms end_of_list" using k(1) by (simp add: seg_chain)
  note e = is_empty_iff [OF assms(1)] is_empty_iff [OF assms(2)]
  have seg: "seg (put (last_cell (First l) ns) (get st (First k)) st) (First l) (ns @ ms) end_of_list"
    using b(1) _ _ ch by (rule seg_join) (use assms(4) last_cell_disjoint [of ns ms "First l"] in auto)
  have eol: "eol_ok (put (last_cell (First l) ns) (get st (First k)) st)"
    using b(5) last_cell_not_eol [OF b(4)] by (intro eol_ok_put) auto
  show "blist (append l k st) l (ns @ ms)"
  proof (cases "ns = [] \<or> ms = []")
    case True
    then show ?thesis
      using assms(1-3) e ok seg eol k b of_nat_eq_0_32 [of "length ms"]
      by (auto simp: append_def assign_def Let_def blist_def eol_ok_def nodes_ok_def last_cell_def)
  next
    case False
    then have "append l k st = set_elements l (elements_f st l + elements_f st k)
        (set_last l (last_f st k) (put (last_cell (First l) ns) (get st (First k)) st))"
      using e assms(3) b(2) by (simp add: append_def Let_def)
    moreover have "last_cell (First k) ms = last_cell (First l) (ns @ ms)"
      using False by (simp add: last_cell_def)
    ultimately show ?thesis
      using seg ok eol b k by (simp add: blist_def eol_ok_def)
  qed
qed

lemma prepend_ok:
  assumes "blist st l ns" "blist st k ms" "l \<noteq> k" "distinct (ms @ ns)" "length (ms @ ns) < 2 ^ 32"
  shows "blist (prepend l k st) l (ms @ ns)" "info_f (prepend l k st) = info_f st"
proof -
  show "info_f (prepend l k st) = info_f st" by (simp add: prepend_def Let_def)
  have b: "seg st (First l) ns end_of_list" "last_f st l = last_cell (First l) ns"
      "elements_f st l = of_nat (length ns)" "nodes_ok ns" "eol_ok st"
    and k: "seg st (First k) ms end_of_list" "last_f st k = last_cell (First k) ms"
      "elements_f st k = of_nat (length ms)" "nodes_ok ms"
    using assms(1,2) by (simp_all add: blist_def)
  note e = is_empty_iff [OF assms(1)] is_empty_iff [OF assms(2)]
  have ok: "nodes_ok (ms @ ns)" using b(4) k(4) assms(4,5) by (auto simp: nodes_ok_def)
  let ?c = "last_cell (First k) ms"
  let ?st1 = "put ?c (get st (First l)) st"
  show "blist (prepend l k st) l (ms @ ns)"
  proof (cases "ms = []")
    case True
    then show ?thesis using assms(1) e by (simp add: prepend_def)
  next
    case False
    have c: "?c = Next (last ms)" using False by (simp add: last_cell_def)
    have "chain st (get st (First l)) ns end_of_list" using b(1) by (simp add: seg_chain)
    then have "seg ?st1 (First k) (ms @ ns) end_of_list"
      using k(1) _ _ by (intro seg_join) (use assms(4) last_cell_disjoint [of ms ns "First k"] in auto)
    then have "chain ?st1 (get st (First k)) (ms @ ns) end_of_list" using c by (simp add: seg_chain)
    then have "seg (put (First l) (get st (First k)) ?st1) (First l) (ms @ ns) end_of_list"
      by (simp add: seg_chain chain_frame)
    moreover have "eol_ok (put (First l) (get st (First k)) ?st1)"
      using b(5) last_cell_not_eol [OF k(4), of k] by (simp add: eol_ok_def)
    moreover have "last_cell (First l) (ms @ ns) = (if ns = [] then last_f st k else last_f st l)"
      using b(2) k(2) c False by (simp add: last_cell_def)
    moreover have "get (prepend l k st) = get (put (First l) (get st (First k)) ?st1)"
        "last_f (prepend l k st) l = (if ns = [] then last_f st k else last_f st l)"
        "elements_f (prepend l k st) l = elements_f st l + elements_f st k"
        "info_f (prepend l k st) = info_f st"
      using e assms(3) False c k(2) by (auto simp: prepend_def Let_def fun_eq_iff)
    ultimately show ?thesis
      using ok b k seg_get [of "prepend l k st" "put (First l) (get st (First k)) ?st1"]
      by (simp add: blist_def eol_ok_def)
  qed
qed

lemma disjoin_loop_tail:
  assumes "ms \<noteq> []" "f = hd ms"
  shows "chain st v (ns @ ms) end_of_list \<Longrightarrow> distinct (ns @ ms) \<Longrightarrow> end_of_list \<notin> set (ns @ ms) \<Longrightarrow>
    disjoin_loop f st c v e = Some (False, last_cell c ns, e + of_nat (length ns))"
proof (induction ns arbitrary: c v e)
  case Nil
  then have "v = f" using assms chain_hd [of st v ms end_of_list] by simp
  then show ?case by (subst disjoin_loop.simps) simp
next
  case (Cons n ns)
  have "f \<in> set ms" using assms by simp
  then have "v = n" "n \<noteq> f" "n \<noteq> end_of_list" using Cons.prems by auto
  moreover have "get st (Next n) = hd (ns @ ms)" "hd (ns @ ms) \<in> set (ns @ ms)"
    using Cons.prems(1) assms(1) chain_hd [of st "get st (Next n)" "ns @ ms" end_of_list]
      hd_in_set [of "ns @ ms"] by (simp_all add: hd_append)
  moreover then have "get st (Next n) \<noteq> end_of_list" using Cons.prems(3) by auto
  ultimately show ?case
    using Cons by (subst disjoin_loop.simps) (simp add: Let_def add.assoc)
qed

lemma disjoin_loop_whole:
  "chain st v ns end_of_list \<Longrightarrow> end_of_list \<notin> set ns \<Longrightarrow>
    disjoin_loop end_of_list st c v e = Some (ns \<noteq> [], last_cell c ns, e + of_nat (length ns))"
proof (induction ns arbitrary: c v e)
  case (Cons n ns)
  show ?case
  proof (cases ns)
    case Nil
    then show ?thesis using Cons.prems by (subst disjoin_loop.simps) simp
  next
    case (Cons m ms)
    then have "get st (Next n) \<noteq> end_of_list" using Cons.prems by auto
    then show ?thesis using Cons.IH [of "get st (Next n)" "Next n" "e + 1"] Cons.prems Cons
      by (subst disjoin_loop.simps) (simp add: Let_def add.assoc)
  qed
qed (subst disjoin_loop.simps, simp)

text \<open>\<^verbatim>\<open>disjoin\<close> with a list that is a tail of this one cuts the tail off.\<close>

lemma disjoin_ok:
  assumes "blist st l (ns @ ms)" "get st (First k) = hd (ms @ [end_of_list])"
  shows "\<exists>st'. disjoin l k st = Some st' \<and> blist st' l ns \<and> info_f st' = info_f st"
proof -
  have b: "seg st (First l) (ns @ ms) end_of_list" "last_f st l = last_cell (First l) (ns @ ms)"
      "nodes_ok (ns @ ms)" "eol_ok st"
    using assms(1) by (simp_all add: blist_def)
  have ch: "chain st (get st (First l)) (ns @ ms) end_of_list" using b(1) by (simp add: seg_chain)
  have ok: "nodes_ok ns" using b(3) by (auto simp: nodes_ok_def)
  let ?c = "last_cell (First l) ns"
  have seg: "seg (put ?c end_of_list st) (First l) ns end_of_list"
    using seg_put_last [of st "First l" ns] b(1) ok by (auto simp: seg_append_chain nodes_ok_def)
  have eol: "eol_ok (put ?c end_of_list st)"
    using b(4) last_cell_not_eol [OF ok, of l] by (intro eol_ok_put) auto
  show ?thesis
  proof (cases "ms = []")
    case True
    then have "disjoin_loop (get st (First k)) st (First l) (get st (First l)) 0 =
        Some (ns \<noteq> [], ?c, of_nat (length ns))"
      using ch b(3) assms(2) disjoin_loop_whole [of st "get st (First l)" ns "First l" 0]
      by (simp add: nodes_ok_def)
    then show ?thesis using True b seg eol ok
      by (auto simp: disjoin_def Let_def blist_def eol_ok_def)
  next
    case False
    then have "disjoin_loop (get st (First k)) st (First l) (get st (First l)) 0 =
        Some (False, ?c, of_nat (length ns))"
      using ch b(3) assms(2) disjoin_loop_tail [of ms "get st (First k)" st "get st (First l)" ns "First l" 0]
      by (simp add: nodes_ok_def)
    then show ?thesis using seg eol ok by (simp add: disjoin_def Let_def blist_def eol_ok_def)
  qed
qed

lemma swap_ok:
  assumes "blist st l ns" "blist st k ms" "l \<noteq> k"
  shows "blist (swap l k st) l ms" "blist (swap l k st) k ns" "info_f (swap l k st) = info_f st"
  using assms
  by (auto simp: swap_def Let_def blist_def eol_ok_def seg_chain chain_frame last_cell_def)

lemma find_node_find:
  "chain st v ns end_of_list \<Longrightarrow> end_of_list \<notin> set ns \<Longrightarrow>
    find_node eq st info v =
      Some (case find (\<lambda>n. eq (info_f st n) info) ns of None \<Rightarrow> end_of_list | Some n \<Rightarrow> n)"
proof (induction ns arbitrary: v)
  case (Cons n ns)
  then show ?case by (subst find_node.simps) auto
qed (subst find_node.simps, simp)

lemma elem_loop_nth:
  "chain st v ns end_of_list \<Longrightarrow> end_of_list \<notin> set ns \<Longrightarrow>
    elem_loop st (Suc k) v d = (if k < length ns then info_f st (ns ! k) else NULL)"
proof (induction k arbitrary: v ns d)
  case 0
  then show ?case by (cases ns) auto
next
  case (Suc k)
  then show ?case by (cases ns) (auto simp del: elem_loop.simps simp: elem_loop.simps(2) [of _ "Suc k"])
qed

lemma after_ok:
  assumes "blist st l (ns @ x # ms)" "fresh (ns @ x # ms) n"
  shows "blist (after l info x n st) l (ns @ x # n # ms)"
    "infos (after l info x n st) (ns @ x # n # ms) = infos st (ns @ [x]) @ info # infos st ms"
proof -
  let ?k = "ns @ x # ms"
  have b: "seg st (First l) ?k end_of_list" "last_f st l = last_cell (First l) ?k"
      "elements_f st l = of_nat (length ?k)" "nodes_ok ?k" "eol_ok st"
    using assms(1) by (simp_all add: blist_def)
  have n: "n \<noteq> NULL" "n \<noteq> end_of_list" "n \<notin> set ?k" "x \<noteq> end_of_list" "x \<noteq> n"
    using assms(2) b(4) by (auto simp: fresh_def nodes_ok_def)
  let ?st = "put (Next x) n (set_info n info (put (Next n) (get st (Next x)) st))"
  have "seg (put (Next x) n (put (Next n) (get st (Next x)) st)) (First l) ((ns @ [x]) @ n # ms) end_of_list"
    using seg_insert [of st "First l" "ns @ [x]" ms end_of_list n] b n by (simp add: nodes_ok_def)
  then have "seg ?st (First l) (ns @ x # n # ms) end_of_list" by simp
  moreover have "last_cell (First l) ?k = Next x \<longleftrightarrow> ms = []"
    using b(4) by (cases ms rule: rev_cases) (auto simp: nodes_ok_def)
  moreover then have "last_f (after l info x n st) l = last_cell (First l) (ns @ x # n # ms)"
    using b(2) n(1) by (cases "ms = []") (auto simp: after_def Let_def list_node_def last_cell_def)
  moreover have "get (after l info x n st) = get ?st" "info_f (after l info x n st) = info_f ?st"
      "elements_f (after l info x n st) l = elements_f st l + 1"
    using n(1) by (simp_all add: after_def Let_def list_node_def)
  moreover have "nodes_ok (ns @ x # n # ms)"
    using nodes_ok_insert [of "ns @ [x]" ms n] b(4) assms(2) by simp
  moreover have "eol_ok ?st" using b(5) n by (simp add: eol_ok_def)
  ultimately show "blist (after l info x n st) l (ns @ x # n # ms)"
    "infos (after l info x n st) (ns @ x # n # ms) = infos st (ns @ [x]) @ info # infos st ms"
    using b(3) n seg_get [of "after l info x n st" ?st]
    by (auto simp: blist_def eol_ok_def infos_def)
qed

lemma check_list_loop_last:
  "chain st v (ns @ [n]) end_of_list \<Longrightarrow> end_of_list \<notin> set (ns @ [n]) \<Longrightarrow> NULL \<notin> info_f st ` set ns \<Longrightarrow>
    check_list_loop st v c = Some (Some (n, c + of_nat (length ns)))"
proof (induction ns arbitrary: v c)
  case Nil
  then show ?case by (subst check_list_loop.simps) simp
next
  case (Cons m ns)
  have "get st (Next m) = hd (ns @ [n])"
    using Cons.prems(1) chain_hd [of st "get st (Next m)" "ns @ [n]" end_of_list] by (cases ns) simp_all
  then have "get st (Next m) \<noteq> end_of_list" using Cons.prems(2) hd_in_set [of "ns @ [n]"] by auto
  then show ?case using Cons by (subst check_list_loop.simps) (auto simp: add.assoc image_iff)
qed

lemma check_list_ok:
  assumes "blist st l ns" "NULL \<notin> info_f st ` set ns"
  shows "check_list st l = Some (ns \<noteq> [])"
proof (cases ns rule: rev_cases)
  case Nil
  then have "get st (First l) = end_of_list" "last_f st l = First l" "get st (Next end_of_list) = end_of_list"
    using assms(1) by (simp_all add: blist_def eol_ok_def)
  then show ?thesis using Nil
    by (simp add: check_list_def check_list_loop.simps [of st end_of_list])
next
  case (snoc ms n)
  have b: "seg st (First l) (ms @ [n]) end_of_list" "last_f st l = Next n"
      "elements_f st l = of_nat (length ms) + 1" "end_of_list \<notin> set (ms @ [n])"
    using assms(1) snoc by (simp_all add: blist_def nodes_ok_def)
  have "chain st (get st (First l)) (ms @ [n]) end_of_list" using b(1) seg_chain by blast
  then have "check_list_loop st (get st (First l)) 0 = Some (Some (n, of_nat (length ms)))"
    using check_list_loop_last [of st "get st (First l)" ms n 0] b(4) assms(2) snoc by auto
  then show ?thesis using b snoc by (simp add: check_list_def)
qed

lemma delete_loop_infos:
  "chain st v ns end_of_list \<Longrightarrow> end_of_list \<notin> set ns \<Longrightarrow> delete_loop st v d = Some (d @ infos st ns)"
proof (induction ns arbitrary: v d)
  case (Cons n ns)
  then show ?case by (subst delete_loop.simps) (auto simp: infos_def)
qed (subst delete_loop.simps, simp add: infos_def)

section \<open>Iterators\<close>

text \<open>An iterator before \<^term>\<open>ms\<close> in the list \<^term>\<open>ns @ ms\<close>, and one standing on \<^term>\<open>x\<close>.\<close>

definition it_before :: "base_list_iterator \<Rightarrow> addr \<Rightarrow> addr list \<Rightarrow> bool" where
  "it_before it l ns \<longleftrightarrow> it_list it = l \<and> el it = last_cell (First l) ns"

definition it_on :: "base_list_iterator \<Rightarrow> addr \<Rightarrow> addr list \<Rightarrow> addr \<Rightarrow> bool" where
  "it_on it l ns x \<longleftrightarrow> it_list it = l \<and> el it = Next x \<and> current it = x
     \<and> prev it = Some (last_cell (First l) ns)"

lemma it_before_init: "it_before (init l) l []"
  by (simp add: it_before_def init_def)

lemma it_on_before: "it_on it l ns x \<Longrightarrow> it_before it l (ns @ [x])"
  by (simp add: it_on_def it_before_def)

lemma next_it_on:
  assumes "blist st l (ns @ x # ms)" "it_before it l ns"
  shows "\<exists>it'. next_it st it = (info_f st x, it') \<and> it_on it' l ns x" "peek st it = info_f st x"
    "\<exists>it'. next_fast st it = (info_f st x, it') \<and> it_before it' l (ns @ [x])"
proof -
  have "get st (el it) = x" using assms by (simp add: blist_def seg_append_chain it_before_def)
  then show "\<exists>it'. next_it st it = (info_f st x, it') \<and> it_on it' l ns x" "peek st it = info_f st x"
    "\<exists>it'. next_fast st it = (info_f st x, it') \<and> it_before it' l (ns @ [x])"
    using assms(2) by (simp_all add: next_it_def Let_def it_on_def it_before_def peek_def next_fast_def)
qed

lemma next_it_end:
  assumes "blist st l ns" "it_before it l ns"
  shows "fst (next_it st it) = NULL" "at_end (snd (next_it st it))" "is_last (snd (next_it st it))"
    "peek st it = NULL" "fst (next_fast st it) = NULL"
proof -
  have "get st (el it) = end_of_list" "info_f st end_of_list = NULL"
    using assms by (auto simp: blist_def it_before_def eol_ok_def dest: seg_last)
  then show "fst (next_it st it) = NULL" "at_end (snd (next_it st it))" "is_last (snd (next_it st it))"
    "peek st it = NULL" "fst (next_fast st it) = NULL"
    by (simp_all add: next_it_def Let_def at_end_def is_last_def peek_def next_fast_def)
qed

lemma remove_it_ok:
  assumes "blist st l (ns @ x # ms)" "it_on it l ns x"
  shows "blist (snd (remove_it it st)) l (ns @ ms)" "it_before (fst (remove_it it st)) l ns"
    "info_f (snd (remove_it it st)) = info_f st"
  using assms remove_ok [OF assms(1)] by (simp_all add: remove_it_def it_on_def it_before_def)

lemma after_it_ok:
  assumes "blist st l (ns @ x # ms)" "it_on it l ns x" "fresh (ns @ x # ms) n"
  shows "blist (snd (after_it info n it st)) l (ns @ x # n # ms)"
    "it_before (fst (after_it info n it st)) l (ns @ [x, n])" "current (fst (after_it info n it st)) = n"
    "infos (snd (after_it info n it st)) (ns @ x # n # ms) = infos st (ns @ [x]) @ info # infos st ms"
proof -
  have a: "blist (after l info x n st) l (ns @ x # n # ms)" using after_ok(1) [OF assms(1,3)] .
  then have "get (after l info x n st) (Next x) = n"
    by (simp add: blist_def seg_append_chain)
  then show "blist (snd (after_it info n it st)) l (ns @ x # n # ms)"
    "it_before (fst (after_it info n it st)) l (ns @ [x, n])" "current (fst (after_it info n it st)) = n"
    "infos (snd (after_it info n it st)) (ns @ x # n # ms) = infos st (ns @ [x]) @ info # infos st ms"
    using a assms(2) after_ok(2) [OF assms(1,3)]
    by (simp_all add: after_it_def Let_def it_on_def it_before_def last_cell_def)
qed

text \<open>The two loops clients write: collect the payloads until the null pointer comes, and remove
  the elements that satisfy a test.\<close>

fun collect :: "nat \<Rightarrow> store \<Rightarrow> base_list_iterator \<Rightarrow> addr list option" where
  "collect 0 st it = None"
| "collect (Suc fuel) st it =
     (case next_it st it of (x, it') \<Rightarrow>
        if x = NULL then Some [] else map_option (Cons x) (collect fuel st it'))"

fun remove_if :: "nat \<Rightarrow> (addr \<Rightarrow> bool) \<Rightarrow> base_list_iterator \<Rightarrow> store \<Rightarrow> store option" where
  "remove_if 0 P it st = None"
| "remove_if (Suc fuel) P it st =
     (case next_it st it of (x, it') \<Rightarrow>
        if x = NULL then Some st
        else if P x then (case remove_it it' st of (it'', st') \<Rightarrow> remove_if fuel P it'' st')
        else remove_if fuel P it' st)"

lemma collect_before:
  assumes "blist st l (ns @ ms)" "it_before it l ns" "NULL \<notin> info_f st ` set ms" "length ms < fuel"
  shows "collect fuel st it = Some (infos st ms)"
  using assms
proof (induction ms arbitrary: ns it fuel)
  case Nil
  then obtain k where "fuel = Suc k" by (cases fuel) auto
  then show ?case using next_it_end(1) [of st l ns it] Nil
    by (cases "next_it st it") (simp add: infos_def)
next
  case (Cons x ms)
  then obtain k where k: "fuel = Suc k" by (cases fuel) auto
  obtain it' where it': "next_it st it = (info_f st x, it')" "it_on it' l ns x"
    using next_it_on(1) [OF Cons.prems(1,2)] by auto
  from Cons.IH [of "ns @ [x]" it' k] Cons.prems it' it_on_before [OF it'(2)] k
  show ?case by (auto simp: infos_def)
qed

lemma remove_if_before:
  assumes "blist st l (ns @ ms)" "it_before it l ns" "NULL \<notin> info_f st ` set ms" "length ms < fuel"
  shows "\<exists>st'. remove_if fuel P it st = Some st' \<and> info_f st' = info_f st
    \<and> blist st' l (ns @ filter (\<lambda>x. \<not> P (info_f st x)) ms)"
  using assms
proof (induction ms arbitrary: ns it fuel st)
  case Nil
  then obtain k where "fuel = Suc k" by (cases fuel) auto
  then show ?case using next_it_end(1) [of st l ns it] Nil
    by (cases "next_it st it") simp
next
  case (Cons x ms)
  then obtain k where k: "fuel = Suc k" by (cases fuel) auto
  obtain it' where it': "next_it st it = (info_f st x, it')" "it_on it' l ns x"
    using next_it_on(1) [OF Cons.prems(1,2)] by auto
  show ?case
  proof (cases "P (info_f st x)")
    case True
    obtain it2 st2 where r: "remove_it it' st = (it2, st2)" by fastforce
    have "blist st2 l (ns @ ms)" "it_before it2 l ns" "info_f st2 = info_f st"
      using remove_it_ok [OF Cons.prems(1) it'(2)] r by simp_all
    with Cons.IH [of st2 ns it2 k] Cons.prems it' k r True show ?thesis by auto
  next
    case False
    with Cons.IH [of st "ns @ [x]" it' k] Cons.prems it' it_on_before [OF it'(2)] k
    show ?thesis by auto
  qed
qed

text \<open>Replacing the current element by a whole list: its first node is dropped, its payload and the
  remaining nodes take the place of the current payload.\<close>

lemma replace_list_ok:
  assumes "blist st l (ns @ x # ms)" "it_on it l ns x" "blist st k (m # ks)" "l \<noteq> k"
    "distinct (ns @ x # ms @ m # ks)" "length (ns @ x # ms @ m # ks) < 2 ^ 32"
  shows "fst (replace_list k it st) = info_f st x"
    "blist (snd (replace_list k it st)) l (ns @ x # ks @ ms)"
    "infos (snd (replace_list k it st)) (ns @ x # ks @ ms) = infos st ns @ infos st (m # ks) @ infos st ms"
proof -
  have b: "seg st (First l) (ns @ x # ms) end_of_list" "last_f st l = last_cell (Next x) ms"
      "elements_f st l = of_nat (length ns + length ms) + 1" "nodes_ok (ns @ x # ms)" "eol_ok st"
    and k: "chain st (get st (Next m)) ks end_of_list" "get st (First k) = m"
      "last_f st k = last_cell (Next m) ks" "elements_f st k = of_nat (length ks) + 1" "nodes_ok (m # ks)"
    using assms(1,3) by (simp_all add: blist_def seg_chain)
  have it: "it_list it = l" "current it = x" using assms(2) by (simp_all add: it_on_def)
  have ne: "\<not> is_empty st k" using is_empty_iff [OF assms(3)] by simp
  let ?c = "last_cell (Next m) ks"
  have c: "?c \<in> Next ` set (m # ks)" "?c \<noteq> Next x" "?c \<notin> Next ` set ms" "?c \<noteq> Next end_of_list"
    "?c \<notin> insert (First l) (Next ` set ns)"
    using last_cell_in [of "Next m" ks] assms(5) k(5) by (auto simp: nodes_ok_def)
  let ?st1 = "put ?c (get st (Next x)) st"
  have tail: "chain st (get st (Next x)) ms end_of_list" using b(1) by (simp add: seg_append_chain)
  have "seg st (Next m) ks end_of_list" using k(1) by (simp add: seg_chain)
  then have "seg ?st1 (Next m) (ks @ ms) end_of_list"
    by (rule seg_join) (use assms(5) k(5) tail c in \<open>auto simp: nodes_ok_def\<close>)
  then have ch: "chain ?st1 (get ?st1 (Next m)) (ks @ ms) end_of_list" by (simp add: seg_chain)
  have "seg ?st1 (First l) (ns @ x # ms) end_of_list"
  proof -
    have "seg ?st1 (First l) (ns @ x # ms) end_of_list = seg st (First l) (ns @ x # ms) end_of_list"
      by (rule seg_frame) (use c in auto)
    then show ?thesis using b(1) by simp
  qed
  then have "seg ?st1 (First l) (ns @ [x]) (hd (ms @ [end_of_list]))"
    using seg_append [of ?st1 "First l" "ns @ [x]" ms] by simp
  then have seg: "seg (put (last_cell (First l) (ns @ [x])) (get ?st1 (Next m)) ?st1) (First l) ((ns @ [x]) @ ks @ ms) end_of_list"
    by (rule seg_join) (use assms(5) ch in auto)
  let ?st = "snd (replace_list k it st)"
  have kcell: "get st (First k) = m" "Next x \<noteq> Next m" using k(2) assms(5) by auto
  have fk: "?c \<noteq> First k" "First k \<noteq> ?c" using c(1) by auto
  have st: "get ?st = get (put (Next x) (get ?st1 (Next m)) ?st1)"
    "info_f ?st = (info_f st)(x := info_f st m)"
    "last_f ?st l = (if last_f st l = Next x \<and> elements_f st k > 1 then last_f st k else last_f st l)"
    "elements_f ?st l = elements_f st l + (elements_f st k - 1)"
    using ne kcell fk it k(3) assms(4) by (auto simp: replace_list_def Let_def fun_eq_iff)
  have "seg ?st (First l) (ns @ x # ks @ ms) end_of_list" using seg seg_get [OF st(1)] by simp
  moreover have "eol_ok ?st" using b(4,5) c(4) st(1,2) by (auto simp: eol_ok_def nodes_ok_def)
  moreover have "nodes_ok (ns @ x # ks @ ms)" using b(4) k(5) assms(5,6) by (auto simp: nodes_ok_def)
  moreover have "last_f ?st l = last_cell (First l) (ns @ x # ks @ ms)"
  proof -
    have "last_f st l = Next x \<longleftrightarrow> ms = []"
      using b(2) assms(5) by (cases ms rule: rev_cases) auto
    moreover have "elements_f st k > 1 \<longleftrightarrow> ks \<noteq> []"
      using k(4) assms(6) unat_of_nat [of "length ks + 1", where 'a = 32]
      by (cases ks) (auto simp: word_less_nat_alt)
    ultimately show ?thesis using st(3) b(2) k(3) by (auto simp: last_cell_def)
  qed
  ultimately show "blist ?st l (ns @ x # ks @ ms)"
    using st(4) b(3) k(4) by (simp add: blist_def)
  show "fst (replace_list k it st) = info_f st x" using it by (simp add: replace_list_def Let_def)
  show "infos ?st (ns @ x # ks @ ms) = infos st ns @ infos st (m # ks) @ infos st ms"
    using st(2) assms(5) by (auto simp: infos_def)
qed

section \<open>Queues and stacks\<close>

text \<open>Running a push over pairs of payload and new node, and popping a number of times.\<close>

fun pushes :: "(addr \<Rightarrow> addr \<Rightarrow> 's \<Rightarrow> bool \<times> 's) \<Rightarrow> (addr \<times> addr) list \<Rightarrow> 's \<Rightarrow> 's option" where
  "pushes g [] st = Some st"
| "pushes g ((info, new) # ps) st =
     (case g info new st of (failed, st') \<Rightarrow> if failed then None else pushes g ps st')"

fun pops :: "('s \<Rightarrow> addr \<times> 's) \<Rightarrow> nat \<Rightarrow> 's \<Rightarrow> addr list \<times> 's" where
  "pops g 0 st = ([], st)"
| "pops g (Suc k) st = (case g st of (x, st') \<Rightarrow> case pops g k st' of (xs, st'') \<Rightarrow> (x # xs, st''))"

text \<open>The contract of a list object that clients use as queue or stack: \<^term>\<open>rep st l ns\<close> says that
  the object holds the nodes, \<^term>\<open>vals\<close> reads their payloads.\<close>

locale list_object =
  fixes rep :: "'s \<Rightarrow> 'l \<Rightarrow> addr list \<Rightarrow> bool" and vals :: "'s \<Rightarrow> addr list \<Rightarrow> addr list"
    and ok :: "addr list \<Rightarrow> addr \<Rightarrow> bool"
    and push_b push_f :: "'l \<Rightarrow> addr \<Rightarrow> addr \<Rightarrow> 's \<Rightarrow> bool \<times> 's" and pop_f :: "'l \<Rightarrow> 's \<Rightarrow> addr \<times> 's"
  assumes push_b: "rep st l ns \<Longrightarrow> ok ns n \<Longrightarrow> \<exists>st'. push_b l v n st = (False, st')
      \<and> rep st' l (ns @ [n]) \<and> vals st' (ns @ [n]) = vals st ns @ [v]"
    and push_f: "rep st l ns \<Longrightarrow> ok ns n \<Longrightarrow> \<exists>st'. push_f l v n st = (False, st')
      \<and> rep st' l (n # ns) \<and> vals st' (n # ns) = v # vals st ns"
    and pop_f: "rep st l (n # ns) \<Longrightarrow> \<exists>st'. pop_f l st = (hd (vals st (n # ns)), st')
      \<and> rep st' l ns \<and> vals st' ns = tl (vals st (n # ns))"
    and vals_length: "length (vals st ns) = length ns"
begin

lemma pushes_back:
  assumes "rep st l ns" "\<And>i. i < length ps \<Longrightarrow> ok (ns @ map snd (take i ps)) (snd (ps ! i))"
  shows "\<exists>st'. pushes (push_b l) ps st = Some st' \<and> rep st' l (ns @ map snd ps)
    \<and> vals st' (ns @ map snd ps) = vals st ns @ map fst ps"
  using assms
proof (induction ps arbitrary: st ns)
  case (Cons p ps)
  obtain v n where p: "p = (v, n)" by (cases p)
  have "ok ns n" using Cons.prems(2) [of 0] p by simp
  then obtain st' where st': "push_b l v n st = (False, st')" "rep st' l (ns @ [n])"
      "vals st' (ns @ [n]) = vals st ns @ [v]" using push_b [OF Cons.prems(1), of n v] by auto
  have "ok ((ns @ [n]) @ map snd (take i ps)) (snd (ps ! i))" if "i < length ps" for i
    using Cons.prems(2) [of "Suc i"] that p by simp
  from Cons.IH [OF st'(2) this] st' p show ?case by simp
qed simp

lemma pushes_front:
  assumes "rep st l ns" "\<And>i. i < length ps \<Longrightarrow> ok (rev (map snd (take i ps)) @ ns) (snd (ps ! i))"
  shows "\<exists>st'. pushes (push_f l) ps st = Some st' \<and> rep st' l (rev (map snd ps) @ ns)
    \<and> vals st' (rev (map snd ps) @ ns) = rev (map fst ps) @ vals st ns"
  using assms
proof (induction ps arbitrary: st ns)
  case (Cons p ps)
  obtain v n where p: "p = (v, n)" by (cases p)
  have "ok ns n" using Cons.prems(2) [of 0] p by simp
  then obtain st' where st': "push_f l v n st = (False, st')" "rep st' l (n # ns)"
      "vals st' (n # ns) = v # vals st ns" using push_f [OF Cons.prems(1), of n v] by auto
  have "ok (rev (map snd (take i ps)) @ n # ns) (snd (ps ! i))" if "i < length ps" for i
    using Cons.prems(2) [of "Suc i"] that p by simp
  from Cons.IH [OF st'(2) this] st' p show ?case by simp
qed simp

lemma pops_all:
  "rep st l ns \<Longrightarrow> \<exists>st'. pops (pop_f l) (length ns) st = (vals st ns, st') \<and> rep st' l []"
proof (induction ns arbitrary: st)
  case Nil
  then show ?case using vals_length [of st "[]"] by simp
next
  case (Cons n ns)
  obtain st' where st': "pop_f l st = (hd (vals st (n # ns)), st')" "rep st' l ns"
      "vals st' ns = tl (vals st (n # ns))" using pop_f [OF Cons.prems] by auto
  have "vals st (n # ns) \<noteq> []" using vals_length [of st "n # ns"] by auto
  then show ?case using Cons.IH [OF st'(2)] st' by auto
qed

lemma queue_and_stack:
  assumes "rep st l []" "\<And>i. i < length ps \<Longrightarrow> ok (map snd (take i ps)) (snd (ps ! i))"
    "\<And>i. i < length ps \<Longrightarrow> ok (rev (map snd (take i ps))) (snd (ps ! i))"
  shows "\<exists>st'. pushes (push_b l) ps st = Some st' \<and> fst (pops (pop_f l) (length ps) st') = map fst ps"
    "\<exists>st'. pushes (push_f l) ps st = Some st' \<and> fst (pops (pop_f l) (length ps) st') = rev (map fst ps)"
proof -
  have v: "vals st [] = []" using vals_length [of st "[]"] by simp
  obtain st' where "pushes (push_b l) ps st = Some st'" "rep st' l (map snd ps)" "vals st' (map snd ps) = map fst ps"
    using pushes_back [OF assms(1)] assms(2) v by auto
  then show "\<exists>st'. pushes (push_b l) ps st = Some st' \<and> fst (pops (pop_f l) (length ps) st') = map fst ps"
    using pops_all [of st' l "map snd ps"] by auto
  obtain st' where "pushes (push_f l) ps st = Some st'" "rep st' l (rev (map snd ps))"
      "vals st' (rev (map snd ps)) = rev (map fst ps)"
    using pushes_front [OF assms(1)] assms(3) v by auto
  then show "\<exists>st'. pushes (push_f l) ps st = Some st' \<and> fst (pops (pop_f l) (length ps) st') = rev (map fst ps)"
    using pops_all [of st' l "rev (map snd ps)"] by auto
qed

end

interpretation bl: list_object blist infos fresh push_back push_front pop
proof
  fix st l n ns assume "blist st l (n # ns)"
  from pop_ok [OF this] show "\<exists>st'. pop l st = (hd (infos st (n # ns)), st') \<and> blist st' l ns
      \<and> infos st' ns = tl (infos st (n # ns))"
    by (cases "pop l st") (simp add: infos_def)
qed ((rule push_back_ok push_front_ok, assumption+)+, simp add: infos_def)

section \<open>Properties\<close>

lemma fresh_prefix:
  assumes "distinct ns" "NULL \<notin> set ns" "end_of_list \<notin> set ns" "length ns < 2 ^ 32" "i < length ns"
  shows "fresh (take i ns) (ns ! i)" "fresh (rev (take i ns)) (ns ! i)"
proof -
  have "ns ! i \<in> set ns" using assms(5) by simp
  moreover have "ns ! i \<notin> set (take i ns)"
    using assms(1,5) by (auto simp: in_set_conv_nth nth_eq_iff_index_eq)
  moreover have "ns ! i \<noteq> NULL" "ns ! i \<noteq> end_of_list" using \<open>ns ! i \<in> set ns\<close> assms(2,3) by metis+
  ultimately show "fresh (take i ns) (ns ! i)" "fresh (rev (take i ns)) (ns ! i)"
    using assms(2-5) by (auto simp: fresh_def simp del: nth_mem)
qed

lemma chain_ends_differ:
  "chain st v ns s \<Longrightarrow> chain st v ms t \<Longrightarrow> s \<notin> set ms \<Longrightarrow> t \<notin> set ns \<Longrightarrow> s = t"
  by (induction ns arbitrary: v ms) (case_tac [!] ms, auto)

text \<open>A list used as a queue, by pushing at the back and popping, returns the payloads in the
  order they came; used as a stack, by pushing at the front, it returns them in reverse. No push
  fails while memory is available.\<close>

theorem list_queue_and_stack:
  assumes "blist st l []" "distinct (map snd ps)" "NULL \<notin> set (map snd ps)"
    "end_of_list \<notin> set (map snd ps)" "length ps < 2 ^ 32"
  shows "(\<exists>st'. pushes (push_back l) ps st = Some st' \<and> fst (pops (pop l) (length ps) st') = map fst ps)
    \<and> (\<exists>st'. pushes (push_front l) ps st = Some st' \<and> fst (pops (pop l) (length ps) st') = rev (map fst ps))"
proof -
  have f: "fresh (map snd (take i ps)) (snd (ps ! i))" "fresh (rev (map snd (take i ps))) (snd (ps ! i))"
    if "i < length ps" for i
    using fresh_prefix [of "map snd ps" i] assms(2-5) that by (simp_all add: take_map)
  show ?thesis using bl.queue_and_stack [OF assms(1), of ps] f by simp
qed

definition eol_store :: store where
  "eol_store = \<lparr>first_f = (\<lambda>_. 0), next_f = (\<lambda>_. 0)(end_of_list := end_of_list), info_f = (\<lambda>_. 0),
     last_f = First, elements_f = (\<lambda>_. 0)\<rparr>"

lemma eol_store_ok: "eol_ok eol_store"
  by (simp add: eol_ok_def eol_store_def get.simps end_of_list_def NULL_def)

theorem list_queue_and_stack_witness:
  "\<exists>st'. pushes (push_back 5) [(70, 20), (71, 21)] (empty 5 eol_store) = Some st'
     \<and> fst (pops (pop 5) (Suc (Suc 0)) st') = [70, 71]"
  using list_queue_and_stack [of "empty 5 eol_store" 5 "[(70, 20), (71, 21)]"]
    blist_empty [OF eol_store_ok, of 5]
  by (simp add: NULL_def end_of_list_def del: pushes.simps pops.simps)

text \<open>C23. Appending and prepending another list, exchanging two lists and cutting off a shared tail
  give the concatenation, the exchanged sequences and the part before the tail, with the last
  pointer, the element counter and the end mark in order again; the tail search ends.\<close>

theorem list_whole_list_operations:
  assumes "blist st l ns" "blist st k ms" "l \<noteq> k" "distinct (ns @ ms)" "length (ns @ ms) < 2 ^ 32"
  shows "blist (append l k st) l (ns @ ms) \<and> blist (prepend l k st) l (ms @ ns)
    \<and> blist (swap l k st) l ms \<and> blist (swap l k st) k ns
    \<and> (\<exists>st'. disjoin l k (append l k st) = Some st' \<and> blist st' l ns)"
proof -
  have "get (append l k st) (First k) = hd (ms @ [end_of_list])"
  proof -
    have "get (append l k st) (First k) = get st (First k)"
      using assms(1,3) last_cell_in [of "First l" ns]
      by (auto simp: append_def assign_def Let_def blist_def)
    then show ?thesis using assms(2) by (auto simp: blist_def dest: seg_hd)
  qed
  then show ?thesis
    using append_ok [OF assms] prepend_ok [OF assms(1-3)] assms(4,5) swap_ok [OF assms(1-3)]
      disjoin_ok [of "append l k st" l ns ms k] by auto
qed

theorem list_whole_list_operations_witness:
  "blist (append 5 6 (empty 6 (empty 5 eol_store))) 5 []"
proof -
  have "blist (empty 6 (empty 5 eol_store)) 5 []" "blist (empty 6 (empty 5 eol_store)) 6 []"
    using eol_store_ok by (simp_all add: blist_def empty_def nodes_ok_def eol_ok_def)
  from list_whole_list_operations [OF this] show ?thesis by simp
qed

text \<open>Walking the list with the iterator until the null pointer ends after as many steps as
  there are elements and yields the payloads in order. Removing through the iterator, inside that
  loop, the elements that satisfy a test also ends; it leaves exactly the other elements, in order,
  in a well-formed list.\<close>

theorem list_iterator_loops:
  assumes "blist st l ns" "NULL \<notin> set (infos st ns)" "length ns < fuel"
  shows "collect fuel st (init l) = Some (infos st ns)
    \<and> (\<exists>st'. remove_if fuel P (init l) st = Some st'
         \<and> blist st' l (filter (\<lambda>n. \<not> P (info_f st n)) ns)
         \<and> collect fuel st' (init l) = Some (filter (\<lambda>x. \<not> P x) (infos st ns)))"
proof -
  have n: "NULL \<notin> info_f st ` set ns" using assms(2) by (simp add: infos_def)
  have c: "collect fuel st (init l) = Some (infos st ns)"
    using collect_before [of st l "[]" ns "init l"] assms(1,3) n it_before_init by simp
  let ?ms = "filter (\<lambda>n. \<not> P (info_f st n)) ns"
  obtain st' where st': "remove_if fuel P (init l) st = Some st'" "info_f st' = info_f st" "blist st' l ?ms"
    using remove_if_before [of st l "[]" ns "init l" fuel P] assms(1,3) n it_before_init by auto
  have "length ?ms < fuel" using assms(3) length_filter_le [of _ ns] le_less_trans by blast
  then have "collect fuel st' (init l) = Some (infos st' ?ms)"
    using collect_before [of st' l "[]" ?ms "init l" fuel] st' n it_before_init by auto
  then show ?thesis using c st' by (simp add: infos_def filter_map comp_def)
qed

theorem list_iterator_loops_witness: "collect 1 (empty 5 eol_store) (init 5) = Some []"
  using list_iterator_loops [OF blist_empty [OF eol_store_ok, of 5], of 1] by (simp add: infos_def)

text \<open>Editing at an iterator position: inserting after the current element puts the new payload
  right behind it and moves the iterator onto it; replacing the current element by the elements of
  another non-empty list returns the old payload and splices the other payloads in its place.\<close>

theorem list_iterator_edit:
  assumes "blist st l (ns @ x # ms)" "it_on it l ns x" "fresh (ns @ x # ms) n"
    and "blist st k (m # ks)" "l \<noteq> k" "distinct (ns @ x # ms @ m # ks)"
    "length (ns @ x # ms @ m # ks) < 2 ^ 32"
  shows "blist (snd (after_it info n it st)) l (ns @ x # n # ms)
    \<and> infos (snd (after_it info n it st)) (ns @ x # n # ms) = infos st (ns @ [x]) @ info # infos st ms
    \<and> current (fst (after_it info n it st)) = n
    \<and> fst (replace_list k it st) = info_f st x
    \<and> blist (snd (replace_list k it st)) l (ns @ x # ks @ ms)
    \<and> infos (snd (replace_list k it st)) (ns @ x # ks @ ms)
        = infos st ns @ infos st (m # ks) @ infos st ms"
  using after_it_ok [OF assms(1,2,3), of info] replace_list_ok [OF assms(1,2,4-7)] by auto

definition two_lists :: store where
  "two_lists = snd (push_back 6 71 21 (empty 6 (snd (push_back 5 70 20 (empty 5 eol_store)))))"

theorem list_iterator_edit_witness:
  "infos (snd (replace_list 6 (snd (next_it two_lists (init 5))) two_lists)) [20] = [71]"
proof -
  have b: "blist two_lists 5 ([] @ 20 # [])" "blist two_lists 6 (21 # [])"
    by (simp_all add: two_lists_def blist_def push_back_def empty_def list_node_def Let_def eol_store_def
        get.simps put.simps NULL_def end_of_list_def nodes_ok_def eol_ok_def
        set_elements_def set_info_def set_last_def)
  have "it_on (snd (next_it two_lists (init 5))) 5 [] 20"
    using next_it_on(1) [OF b(1) it_before_init] by auto
  note e = list_iterator_edit [OF b(1) this _ b(2), of 22 0]
  have i: "infos two_lists [21] = [71]"
    by (simp add: infos_def two_lists_def push_back_def empty_def list_node_def Let_def eol_store_def
        get.simps put.simps NULL_def end_of_list_def set_elements_def set_info_def set_last_def)
  show ?thesis using e i by (simp add: fresh_def NULL_def end_of_list_def infos_def)
qed

text \<open>When the allocation of the new node fails, \<^verbatim>\<open>push_back\<close> reports the failure but has already
  stored the null pointer in the place of the end mark: the nodes are still reachable, the chain
  ends with a null pointer, and the object is no well-formed list of any nodes any more.\<close>

theorem list_push_back_failure:
  assumes "blist st l ns"
  shows "fst (push_back l info NULL st) \<and> seg (snd (push_back l info NULL st)) (First l) ns NULL
    \<and> (\<forall>ms. \<not> blist (snd (push_back l info NULL st)) l ms)"
proof -
  let ?st = "put (last_cell (First l) ns) NULL st"
  have pb: "push_back l info NULL st = (True, ?st)" using push_back_fail [OF assms] .
  have seg: "seg ?st (First l) ns NULL"
    using assms by (intro seg_put_last) (auto simp: blist_def nodes_ok_def)
  have "\<not> blist ?st l ms" for ms
  proof
    assume "blist ?st l ms"
    then have "NULL = end_of_list"
      using seg assms by (intro chain_ends_differ [of ?st "get ?st (First l)" ns _ ms])
        (auto simp: blist_def seg_chain nodes_ok_def)
    then show False by simp
  qed
  then show ?thesis using pb seg by simp
qed

theorem list_push_back_failure_witness: "fst (push_back 5 70 NULL (empty 5 eol_store))"
  using list_push_back_failure [OF blist_empty [OF eol_store_ok]] by blast

text \<open>Access and checks: the n-th element is returned or the null pointer past the end, a unique
  insertion refuses exactly the payloads that are equal to one in the list, the deletion of all
  elements visits every payload once and ends, and the debug check of a well-formed list without null
  payloads accepts it exactly if it is not empty.\<close>

theorem list_access:
  assumes "blist st l ns" "NULL \<notin> set (infos st ns)" "fresh ns n"
  shows "elem st l k = (if unat k < length ns then infos st ns ! unat k else NULL)
    \<and> (\<exists>r. add_unique eq l v n st = Some r \<and> (fst r \<longleftrightarrow> (\<exists>x\<in>set (infos st ns). eq x v))
         \<and> blist (snd r) l (if fst r then ns else ns @ [n]))
    \<and> (\<exists>st'. delete_elements l st = Some (infos st ns, st') \<and> blist st' l [])
    \<and> check_list st l = Some (ns \<noteq> [])"
proof -
  have ch: "chain st (get st (First l)) ns end_of_list" "end_of_list \<notin> set ns" "eol_ok st"
    using assms(1) by (simp_all add: blist_def seg_chain nodes_ok_def)
  have "elem st l k = (if unat k < length ns then infos st ns ! unat k else NULL)"
    using elem_loop_nth [OF ch(1,2), of "unat k" NULL] by (simp add: elem_def infos_def)
  moreover have "\<exists>r. add_unique eq l v n st = Some r \<and> (fst r \<longleftrightarrow> (\<exists>x\<in>set (infos st ns). eq x v))
         \<and> blist (snd r) l (if fst r then ns else ns @ [n])"
  proof (cases "find (\<lambda>n. eq (info_f st n) v) ns")
    case None
    then have "\<not> (\<exists>x\<in>set (infos st ns). eq x v)" by (auto simp: find_None_iff infos_def)
    then show ?thesis using None find_node_find [OF ch(1,2), of eq v] push_back_ok [OF assms(1,3), of v]
      by (auto simp: add_unique_def)
  next
    case (Some m)
    then have "m \<in> set ns" "eq (info_f st m) v" by (auto simp: find_Some_iff)
    then show ?thesis using Some find_node_find [OF ch(1,2), of eq v] ch(2) assms(1)
      by (auto simp: add_unique_def infos_def)
  qed
  moreover have "\<exists>st'. delete_elements l st = Some (infos st ns, st') \<and> blist st' l []"
    using delete_loop_infos [OF ch(1,2), of "[]"] blist_empty [OF ch(3)] by (simp add: delete_elements_def)
  moreover have "check_list st l = Some (ns \<noteq> [])"
    using check_list_ok [OF assms(1)] assms(2) by (simp add: infos_def)
  ultimately show ?thesis by blast
qed

theorem list_access_witness: "check_list (empty 5 eol_store) 5 = Some False"
  using list_access [OF blist_empty [OF eol_store_ok, of 5], of 20] 
  by (simp add: infos_def fresh_def NULL_def end_of_list_def)

end
