(* ===== verification/Bubble_Sort.thy ===== *)
theory Bubble_Sort
  imports Sql_List "HOL-Library.Multiset"
begin

text \<open>
  \<^verbatim>\<open>bubble_sort\<close> of \<^verbatim>\<open>sql_list.h\<close>: the payload pointers of a list are exchanged through references
  into the nodes that the iterator hands out. A \<^verbatim>\<open>T **\<close> reference into a node is the address of the
  node. The comparison function is a parameter.
\<close>

section \<open>The routine\<close>

definition ref :: "base_list_iterator \<Rightarrow> addr" where
  "ref it = current it"

text \<open>The inner loop: item1 and ref1 are the payload and place of the element moved upwards.\<close>

partial_function (option) bubble_inner ::
  "(addr \<Rightarrow> addr \<Rightarrow> int) \<Rightarrow> addr \<Rightarrow> store \<Rightarrow> base_list_iterator \<Rightarrow> addr \<Rightarrow> addr \<Rightarrow> bool
    \<Rightarrow> (store \<times> base_list_iterator \<times> addr \<times> bool) option" where
  "bubble_inner sort_func last_ref st it item1 ref1 sw =
     (case next_it st it of (item2, it) \<Rightarrow>
        if item2 \<noteq> NULL \<and> ref it \<noteq> last_ref then
          let ref2 = ref it
          in if sort_func item1 item2 > 0
             then bubble_inner sort_func last_ref (set_info ref2 item1 (set_info ref1 item2 st))
                    it item1 ref2 True
             else bubble_inner sort_func last_ref st it item2 ref2 sw
        else Some (st, it, ref1, sw))"

partial_function (option) bubble_outer ::
  "(addr \<Rightarrow> addr \<Rightarrow> int) \<Rightarrow> store \<Rightarrow> base_list_iterator \<Rightarrow> addr \<Rightarrow> store option" where
  "bubble_outer sort_func st it ref1 =
     (let last_ref = ref1 in
      case next_it st it of (item1, it) \<Rightarrow>
      case bubble_inner sort_func last_ref st it item1 (ref it) False of
        None \<Rightarrow> None
      | Some (st, it, ref1, sw) \<Rightarrow>
          if sw then bubble_outer sort_func st (rewind it) ref1 else Some st)"

definition bubble_sort :: "(addr \<Rightarrow> addr \<Rightarrow> int) \<Rightarrow> addr \<Rightarrow> store \<Rightarrow> store option" where
  "bubble_sort sort_func l st = bubble_outer sort_func st (init l) NULL"

section \<open>One pass on the sequence of payloads\<close>

fun bubble :: "('a \<Rightarrow> 'a \<Rightarrow> int) \<Rightarrow> 'a \<Rightarrow> 'a list \<Rightarrow> 'a list \<times> bool" where
  "bubble f x [] = ([x], False)"
| "bubble f x (y # ys) =
     (if f x y > 0 then (y # fst (bubble f x ys), True)
      else (x # fst (bubble f y ys), snd (bubble f y ys)))"

lemma bubble_mset: "mset (fst (bubble f x ys)) = mset (x # ys)"
  by (induction f x ys rule: bubble.induct) (auto simp: add_mset_commute)

lemma bubble_length: "length (fst (bubble f x ys)) = Suc (length ys)"
  by (induction f x ys rule: bubble.induct) auto

lemma bubble_set: "set (fst (bubble f x ys)) = insert x (set ys)"
  using arg_cong [OF bubble_mset [of f x ys], of set_mset] by simp

lemma bubble_unchanged: "\<not> snd (bubble f x ys) \<Longrightarrow> fst (bubble f x ys) = x # ys"
  by (induction f x ys rule: bubble.induct) (auto split: if_splits)

definition total_preorder_on :: "'a set \<Rightarrow> ('a \<Rightarrow> 'a \<Rightarrow> int) \<Rightarrow> bool" where
  "total_preorder_on A f \<longleftrightarrow> (\<forall>a\<in>A. \<forall>b\<in>A. f a b \<le> 0 \<or> f b a \<le> 0)
     \<and> (\<forall>a\<in>A. \<forall>b\<in>A. \<forall>c\<in>A. f a b \<le> 0 \<longrightarrow> f b c \<le> 0 \<longrightarrow> f a c \<le> 0)"

lemma total_preorderD:
  assumes "total_preorder_on A f" "a \<in> A" "b \<in> A"
  shows "f a b \<le> 0 \<or> f b a \<le> 0" "c \<in> A \<Longrightarrow> f a b \<le> 0 \<Longrightarrow> f b c \<le> 0 \<Longrightarrow> f a c \<le> 0"
  using assms unfolding total_preorder_on_def by blast+

lemma bubble_last:
  assumes "total_preorder_on A f" "insert x (set ys) \<subseteq> A"
  shows "f x (last (fst (bubble f x ys))) \<le> 0 \<and> (\<forall>y\<in>set ys. f y (last (fst (bubble f x ys))) \<le> 0)"
  using assms
proof (induction f x ys rule: bubble.induct)
  case (1 f x)
  then show ?case using total_preorderD(1) [of A f x x] by simp
next
  case (2 f x y ys)
  have ne: "fst (bubble f z ys) \<noteq> []" for z using bubble_length [of f z ys] by auto
  have in_A: "last (fst (bubble f z ys)) \<in> A" if "z \<in> A" for z
    using last_in_set [OF ne, of z] bubble_set [of f z ys] "2.prems"(2) that by auto
  show ?case
  proof (cases "f x y > 0")
    case True
    then have "f y x \<le> 0" using total_preorderD(1) [of A f x y] "2.prems" by auto
    then have "f y (last (fst (bubble f x ys))) \<le> 0"
      using 2(1) [OF True "2.prems"(1)] "2.prems"(2) in_A [of x] total_preorderD(2) [OF "2.prems"(1), of y x] by auto
    then show ?thesis using True 2(1) [OF True "2.prems"(1)] "2.prems"(2) ne by auto
  next
    case False
    then have "f x (last (fst (bubble f y ys))) \<le> 0"
      using 2(2) [OF False "2.prems"(1)] "2.prems"(2) in_A [of y] total_preorderD(2) [OF "2.prems"(1), of x y] by auto
    then show ?thesis using False 2(2) [OF False "2.prems"(1)] "2.prems"(2) ne by auto
  qed
qed

lemma bubble_unchanged_sorted:
  assumes "total_preorder_on A f" "insert x (set ys) \<subseteq> A" "\<not> snd (bubble f x ys)"
  shows "sorted_wrt (\<lambda>a b. f a b \<le> 0) (x # ys)"
  using assms
proof (induction f x ys rule: bubble.induct)
  case (2 f x y ys)
  have xy: "\<not> 0 < f x y" using "2.prems"(3) by auto
  then have s: "sorted_wrt (\<lambda>a b. f a b \<le> 0) (y # ys)" using 2 by auto
  have "f x z \<le> 0" if "z \<in> set ys" for z
    using that s xy total_preorderD(2) [OF "2.prems"(1), of x y z] "2.prems"(2) by auto
  then show ?case using s xy by auto
qed simp

section \<open>The loops\<close>

lemma blist_cells:
  assumes "get st' = get st" "last_f st' = last_f st" "elements_f st' = elements_f st"
    "info_f st' end_of_list = info_f st end_of_list"
  shows "blist st' l ns = blist st l ns"
  using seg_get [OF assms(1)] assms by (simp add: blist_def eol_ok_def)

text \<open>The two stores differ at most in the payloads of some nodes.\<close>

definition same_but :: "store \<Rightarrow> addr set \<Rightarrow> store \<Rightarrow> bool" where
  "same_but st A st' \<longleftrightarrow> get st' = get st \<and> last_f st' = last_f st \<and> elements_f st' = elements_f st
     \<and> (\<forall>n. n \<notin> A \<longrightarrow> info_f st' n = info_f st n)"

lemma same_but_blist: "same_but st A st' \<Longrightarrow> end_of_list \<notin> A \<Longrightarrow> blist st' l ns = blist st l ns"
  by (rule blist_cells) (auto simp: same_but_def)

lemma bubble_inner_ok:
  assumes "blist st l (A @ r # B @ C)" "it_on it l A' r" "info_f st r = x"
    and "NULL \<notin> set (infos st (r # B @ C))" "C = [] \<or> hd C = last_ref" "last_ref \<notin> set B"
  shows "\<exists>st' it'. bubble_inner f last_ref st it x r sw =
      Some (st', it', last (r # B), sw \<or> snd (bubble f x (infos st B)))
    \<and> same_but st (set (r # B)) st' \<and> infos st' (r # B) = fst (bubble f x (infos st B))
    \<and> it_list it' = l"
  using assms
proof (induction B arbitrary: A A' r x st it sw)
  case Nil
  have bef: "it_before it l (A @ [r])" using Nil(2) by (simp add: it_on_def it_before_def)
  have "fst (next_it st it) = NULL \<or> ref (snd (next_it st it)) = last_ref"
  proof (cases C)
    case Nil2: Nil
    then show ?thesis using next_it_end(1) [of st l "A @ [r]" it] Nil(1) bef by simp
  next
    case (Cons c C')
    then have "blist st l ((A @ [r]) @ c # C')" using Nil(1) by simp
    from next_it_on(1) [OF this bef] show ?thesis using Nil(5) Cons by (auto simp: ref_def it_on_def)
  qed
  moreover have "it_list (snd (next_it st it)) = l"
    using Nil(2) by (simp add: next_it_def Let_def it_on_def)
  ultimately obtain i2 it2 where n: "next_it st it = (i2, it2)" "i2 = NULL \<or> ref it2 = last_ref"
      "it_list it2 = l" by (cases "next_it st it") auto
  then have "bubble_inner f last_ref st it x r sw = Some (st, it2, r, sw)"
    by (subst bubble_inner.simps) auto
  then show ?case using n(3) Nil(3) by (simp add: infos_def same_but_def)
next
  case (Cons b B)
  have bl: "blist st l ((A @ [r]) @ b # B @ C)" using Cons.prems(1) by simp
  have bef: "it_before it l (A @ [r])" using Cons.prems(2) by (simp add: it_on_def it_before_def)
  obtain it' where it': "next_it st it = (info_f st b, it')" "it_on it' l (A @ [r]) b"
    using next_it_on(1) [OF bl bef] by auto
  have go: "info_f st b \<noteq> NULL" "ref it' \<noteq> last_ref"
    using Cons.prems(4,6) it'(2) by (auto simp: infos_def ref_def it_on_def)
  have ref: "ref it' = b" using it'(2) by (simp add: ref_def it_on_def)
  have d: "distinct (A @ r # b # B @ C)" "end_of_list \<notin> set (A @ r # b # B @ C)"
    using Cons.prems(1) by (auto simp: blist_def nodes_ok_def)
  show ?case
  proof (cases "f x (info_f st b) > 0")
    case True
    let ?st = "set_info b x (set_info r (info_f st b) st)"
    have same: "same_but st {r, b} ?st" by (auto simp: same_but_def fun_eq_iff)
    have "blist ?st l ((A @ [r]) @ b # B @ C)"
      using bl d same_but_blist [OF same] by simp
    moreover have inf: "info_f ?st b = x" "infos ?st B = infos st B" "infos ?st C = infos st C"
      "info_f ?st r = info_f st b"
      using d by (auto simp: infos_def)
    moreover have "NULL \<notin> set (infos ?st (b # B @ C))"
      using Cons.prems(3,4) inf by (auto simp: infos_def)
    ultimately obtain st' it2 where st':
      "bubble_inner f last_ref ?st it' x b True = Some (st', it2, last (b # B), True)"
      "same_but ?st (set (b # B)) st'" "infos st' (b # B) = fst (bubble f x (infos st B))" "it_list it2 = l"
      using Cons.IH [of ?st "A @ [r]" b it' "A @ [r]" x True] it'(2) Cons.prems(5,6) by auto
    have "bubble_inner f last_ref st it x r sw = bubble_inner f last_ref ?st it' x b True"
      using it'(1) go True ref by (subst bubble_inner.simps) simp
    moreover have "info_f st' r = info_f st b" using st'(2) inf(4) d by (auto simp: same_but_def)
    moreover have "same_but st (set (r # b # B)) st'" using st'(2) same by (auto simp: same_but_def)
    ultimately show ?thesis using st' True by (auto simp: infos_def)
  next
    case False
    obtain st' it2 where st':
      "bubble_inner f last_ref st it' (info_f st b) b sw =
         Some (st', it2, last (b # B), sw \<or> snd (bubble f (info_f st b) (infos st B)))"
      "same_but st (set (b # B)) st'" "infos st' (b # B) = fst (bubble f (info_f st b) (infos st B))"
      "it_list it2 = l"
      using Cons.IH [OF bl it'(2) refl, of sw] Cons.prems(4,5,6) by (auto simp: infos_def)
    have "bubble_inner f last_ref st it x r sw = bubble_inner f last_ref st it' (info_f st b) b sw"
      using it'(1) go False ref by (subst bubble_inner.simps) simp
    moreover have "info_f st' r = x" using st'(2) Cons.prems(3) d by (auto simp: same_but_def)
    moreover have "same_but st (set (r # b # B)) st'" using st'(2) by (auto simp: same_but_def)
    ultimately show ?thesis using st' False by (auto simp: infos_def)
  qed
qed

lemma infos_append: "infos st (xs @ ys) = infos st xs @ infos st ys"
  by (simp add: infos_def)

lemma infos_Cons: "infos st (x # xs) = info_f st x # infos st xs"
  by (simp add: infos_def)

lemma infos_same: "same_but st A st' \<Longrightarrow> A \<inter> set xs = {} \<Longrightarrow> infos st' xs = infos st xs"
  by (auto simp: same_but_def infos_def)

lemma bubble_outer_ok:
  assumes "blist st l (P @ C)" "P \<noteq> []" "it_before it l []" "NULL \<notin> set (infos st (P @ C))"
    and "if C = [] then last_ref = NULL else last_ref = hd C"
    and "total_preorder_on (set (infos st (P @ C))) f" "sorted_wrt (\<lambda>a b. f a b \<le> 0) (infos st C)"
    and "\<forall>a\<in>set (infos st P). \<forall>c\<in>set (infos st C). f a c \<le> 0"
  shows "\<exists>st'. bubble_outer f st it last_ref = Some st' \<and> same_but st (set P) st'
    \<and> mset (infos st' (P @ C)) = mset (infos st (P @ C))
    \<and> sorted_wrt (\<lambda>a b. f a b \<le> 0) (infos st' (P @ C))"
  using assms
proof (induction "length P" arbitrary: P C st it last_ref rule: less_induct)
  case less
  note prems = less.prems
  obtain r B where P: "P = r # B" using prems(2) by (cases P) auto
  let ?x = "info_f st r" and ?ys = "infos st B"
  have d: "distinct (P @ C)" "NULL \<notin> set (P @ C)" "end_of_list \<notin> set (P @ C)"
    using prems(1) by (auto simp: blist_def nodes_ok_def)
  have bl: "blist st l ([] @ r # B @ C)" using prems(1) P by simp
  obtain it1 where it1: "next_it st it = (?x, it1)" "it_on it1 l [] r"
    using next_it_on(1) [OF bl prems(3)] by auto
  have ref: "ref it1 = r" using it1(2) by (simp add: ref_def it_on_def)
  have lr: "C = [] \<or> hd C = last_ref" "last_ref \<notin> set B"
    using prems(5) d P by (auto split: if_splits)
  obtain st1 it2 where st1:
    "bubble_inner f last_ref st it1 ?x r False = Some (st1, it2, last P, snd (bubble f ?x ?ys))"
    "same_but st (set P) st1" "infos st1 P = fst (bubble f ?x ?ys)" "it_list it2 = l"
    using bubble_inner_ok [OF bl it1(2) refl _ lr, of f False] prems(4) P by (auto simp: infos_def)
  have step: "bubble_outer f st it last_ref =
      (if snd (bubble f ?x ?ys) then bubble_outer f st1 (rewind it2) (last P) else Some st1)"
    using it1(1) ref st1(1) by (subst bubble_outer.simps) simp
  have C1: "infos st1 C = infos st C" using infos_same [OF st1(2)] d by auto
  have Pst: "infos st P = ?x # ?ys" using P by (simp add: infos_def)
  have ms: "mset (infos st1 (P @ C)) = mset (infos st (P @ C))"
    using st1(3) C1 Pst bubble_mset [of f ?x ?ys] by (simp add: infos_append)
  then have sets: "set (infos st1 (P @ C)) = set (infos st (P @ C))" using mset_eq_setD by blast
  have setP: "set (infos st1 P) = set (infos st P)" using st1(3) Pst bubble_set [of f ?x ?ys] by simp
  show ?case
  proof (cases "snd (bubble f ?x ?ys)")
    case False
    have "sorted_wrt (\<lambda>a b. f a b \<le> 0) (?x # ?ys)"
      using prems(6) Pst False by (intro bubble_unchanged_sorted) (auto simp: infos_append)
    then have "sorted_wrt (\<lambda>a b. f a b \<le> 0) (infos st1 (P @ C))"
      using bubble_unchanged [OF False] st1(3) C1 prems(7,8) Pst by (auto simp: infos_append sorted_wrt_append)
    then show ?thesis using step False st1(2) ms by auto
  next
    case True
    then have "B \<noteq> []" by (auto simp: infos_def)
    then obtain Q z where Q: "P = Q @ [z]" "Q \<noteq> []" using P by (cases B rule: rev_cases) auto
    have last: "f a (info_f st1 z) \<le> 0" if "a \<in> set (infos st P)" for a
    proof -
      have "last (infos st1 P) = info_f st1 z" using Q by (simp add: infos_def)
      then show ?thesis using bubble_last [OF prems(6), of ?x ?ys] that st1(3) Pst
        by (auto simp: infos_append)
    qed
    have z: "info_f st1 z \<in> set (infos st P)" using setP Q by (auto simp: infos_def)
    have sub: "set (infos st1 Q) \<subseteq> set (infos st P)" using setP Q by (auto simp: infos_def)
    have "\<exists>st'. bubble_outer f st1 (rewind it2) z = Some st' \<and> same_but st1 (set Q) st'
      \<and> mset (infos st' (Q @ z # C)) = mset (infos st1 (Q @ z # C))
      \<and> sorted_wrt (\<lambda>a b. f a b \<le> 0) (infos st' (Q @ z # C))"
    proof (rule less.hyps)
      show "length Q < length P" "Q \<noteq> []" using Q by simp_all
      show "blist st1 l (Q @ z # C)" using same_but_blist [OF st1(2)] d prems(1) Q by auto
      show "it_before (rewind it2) l []" using st1(4) by (simp add: it_before_def rewind_def)
      show "NULL \<notin> set (infos st1 (Q @ z # C))" using sets prems(4) Q by auto
      show "total_preorder_on (set (infos st1 (Q @ z # C))) f" using sets prems(6) Q by auto
      show "sorted_wrt (\<lambda>a b. f a b \<le> 0) (infos st1 (z # C))"
        using prems(7,8) z by (simp add: infos_Cons C1)
      show "\<forall>a\<in>set (infos st1 Q). \<forall>c\<in>set (infos st1 (z # C)). f a c \<le> 0"
        using prems(8) sub last by (auto simp: infos_Cons C1)
    qed simp
    then obtain st' where st': "bubble_outer f st1 (rewind it2) z = Some st'" "same_but st1 (set Q) st'"
      "mset (infos st' (Q @ z # C)) = mset (infos st1 (Q @ z # C))"
      "sorted_wrt (\<lambda>a b. f a b \<le> 0) (infos st' (Q @ z # C))" by blast
    moreover have "same_but st (set P) st'" using st1(2) st'(2) Q by (auto simp: same_but_def)
    ultimately show ?thesis using step True ms Q by auto
  qed
qed

section \<open>Properties\<close>

text \<open>C24. \<^verbatim>\<open>bubble_sort\<close> ends on every well-formed list without null payloads and a comparison function
  that is a total preorder on the payloads: it leaves the nodes, counters and pointers of the list as
  they were, and the payloads are a permutation of the old ones in the order of the comparison
  function. The shortening of every pass to the place of the last comparison is sound.\<close>

theorem bubble_sort_correct:
  assumes "blist st l ns" "NULL \<notin> set (infos st ns)" "total_preorder_on (set (infos st ns)) f"
  shows "\<exists>st'. bubble_sort f l st = Some st' \<and> blist st' l ns
    \<and> mset (infos st' ns) = mset (infos st ns) \<and> sorted_wrt (\<lambda>a b. f a b \<le> 0) (infos st' ns)"
proof (cases "ns = []")
  case True
  have e: "get st (First l) = end_of_list" "get st (Next end_of_list) = end_of_list"
      "info_f st end_of_list = NULL"
    using assms(1) True by (auto simp: blist_def eol_ok_def)
  have "bubble_sort f l st = Some st"
    unfolding bubble_sort_def
    by (subst bubble_outer.simps, subst bubble_inner.simps)
       (simp add: next_it_def init_def e Let_def)
  then show ?thesis using assms(1) True by (simp add: infos_def)
next
  case False
  have "end_of_list \<notin> set ns" using assms(1) by (simp add: blist_def nodes_ok_def)
  then show ?thesis
    using bubble_outer_ok [of st l ns "[]" "init l" NULL f] False assms it_before_init [of l]
      same_but_blist [of st "set ns" _ l ns] by (auto simp: bubble_sort_def infos_def)
qed

definition three :: store where
  "three = snd (push_back 5 71 22 (snd (push_back 5 70 21 (snd (push_back 5 72 20 (empty 5 eol_store))))))"

theorem bubble_sort_correct_witness:
  "\<exists>st'. bubble_sort (\<lambda>a b. int a - int b) 5 three = Some st'
     \<and> sorted_wrt (\<lambda>a b. int a - int b \<le> 0) (infos st' [20, 21, 22])"
proof -
  have b: "blist three 5 [20, 21, 22]" "infos three [20, 21, 22] = [72, 70, 71]"
    by (simp_all add: three_def blist_def push_back_def empty_def list_node_def Let_def eol_store_def
        get.simps put.simps NULL_def end_of_list_def nodes_ok_def eol_ok_def
        set_elements_def set_info_def set_last_def infos_def)
  have "total_preorder_on A (\<lambda>a b. int a - int b)" for A by (auto simp: total_preorder_on_def)
  then show ?thesis using bubble_sort_correct [OF b(1), of "\<lambda>a b. int a - int b"] b(2)
    by (auto simp: NULL_def)
qed

end
