(* ===== verification/Sql_I_List.thy ===== *)
theory Sql_I_List
  imports Cells
begin

text \<open>
  \<^verbatim>\<open>SQL_I_List\<close> of \<^verbatim>\<open>sql_list.h\<close>: the null-terminated intrusive list of the parser, with a pointer to
  the cell where the next element goes. The place of the link inside an element is chosen by the
  caller of \<^verbatim>\<open>link_in_list\<close> and is an argument here too.
\<close>

record istore = cells +
  i_elements :: "addr \<Rightarrow> uint32"
  i_next :: "addr \<Rightarrow> cell"

definition set_i_elements :: "addr \<Rightarrow> uint32 \<Rightarrow> istore \<Rightarrow> istore" where
  "set_i_elements l k st = st\<lparr>i_elements := (i_elements st)(l := k)\<rparr>"

definition set_i_next :: "addr \<Rightarrow> cell \<Rightarrow> istore \<Rightarrow> istore" where
  "set_i_next l c st = st\<lparr>i_next := (i_next st)(l := c)\<rparr>"

definition empty :: "addr \<Rightarrow> istore \<Rightarrow> istore" where
  "empty l st = set_i_next l (First l) (put (First l) NULL (set_i_elements l 0 st))"

definition copy_construct :: "addr \<Rightarrow> addr \<Rightarrow> istore \<Rightarrow> istore" where
  "copy_construct l tmp st =
     (let st = set_i_elements l (i_elements st tmp) st;
          st = put (First l) (get st (First tmp)) st
      in set_i_next l (if i_elements st l \<noteq> 0 then i_next st tmp else First l) st)"

definition assign :: "addr \<Rightarrow> addr \<Rightarrow> istore \<Rightarrow> istore" where
  "assign l tmp st =
     (let st = set_i_elements l (i_elements st tmp) st;
          st = put (First l) (get st (First tmp)) st
      in set_i_next l (i_next st tmp) st)"

definition link_in_list :: "addr \<Rightarrow> addr \<Rightarrow> cell \<Rightarrow> istore \<Rightarrow> istore" where
  "link_in_list l element next_ptr st =
     (let st = set_i_elements l (i_elements st l + 1) st;
          st = put (i_next st l) element st;
          st = set_i_next l next_ptr st
      in put (i_next st l) NULL st)"

definition save_and_clear :: "addr \<Rightarrow> addr \<Rightarrow> istore \<Rightarrow> istore" where
  "save_and_clear l save st = empty l (assign save l st)"

definition push_front :: "addr \<Rightarrow> addr \<Rightarrow> istore \<Rightarrow> istore" where
  "push_front l save st =
     (let st = put (i_next st save) (get st (First l)) st;
          st = put (First l) (get st (First save)) st
      in set_i_elements l (i_elements st l + i_elements st save) st)"

definition push_back :: "addr \<Rightarrow> addr \<Rightarrow> istore \<Rightarrow> istore" where
  "push_back l save st =
     (if get st (First save) \<noteq> NULL then
        let st = put (i_next st l) (get st (First save)) st;
            st = set_i_next l (i_next st save) st
        in set_i_elements l (i_elements st l + i_elements st save) st
      else st)"

section \<open>The sequence a list i_holds\<close>

definition i_holds :: "istore \<Rightarrow> addr \<Rightarrow> addr list \<Rightarrow> bool" where
  "i_holds st l ns \<longleftrightarrow> seg st (First l) ns NULL \<and> i_next st l = last_cell (First l) ns
     \<and> i_elements st l = of_nat (length ns) \<and> distinct ns \<and> NULL \<notin> set ns"

lemma i_fields [simp]:
  "i_elements (put c v st) = i_elements st" "i_next (put c v st) = i_next st"
  "get (set_i_elements l k st) = get st" "get (set_i_next l d st) = get st"
  "i_next (set_i_elements l k st) = i_next st" "i_elements (set_i_next l d st) = i_elements st"
  "i_elements (set_i_elements l k st) m = (if m = l then k else i_elements st m)"
  "i_next (set_i_next l d st) m = (if m = l then d else i_next st m)"
  "put c v (set_i_elements l k st) = set_i_elements l k (put c v st)"
  "put c v (set_i_next l d st) = set_i_next l d (put c v st)"
  by (cases c; simp add: put.simps set_i_elements_def set_i_next_def fun_eq_iff;
      (intro allI; rename_tac e; case_tac e; simp add: get.simps)?)+

lemma seg_i_fields [simp]:
  "seg (set_i_elements l k st) c ns t = seg st c ns t" "seg (set_i_next l d st) c ns t = seg st c ns t"
  by (rule seg_cong; simp)+

lemma chain_i_fields [simp]:
  "chain (set_i_elements l k st) v ns t = chain st v ns t" "chain (set_i_next l d st) v ns t = chain st v ns t"
  by (rule chain_cong; simp)+

lemma i_holds_empty: "i_holds (empty l st) l []"
  by (simp add: i_holds_def empty_def)

lemma i_holds_link_in_list:
  assumes "i_holds st l ns" "n \<noteq> NULL" "n \<notin> set ns"
  shows "i_holds (link_in_list l n (Next n) st) l (ns @ [n])"
proof -
  let ?c = "last_cell (First l) ns"
  have h: "seg st (First l) ns NULL" "i_next st l = ?c" "distinct ns" using assms(1) by (simp_all add: i_holds_def)
  have c: "?c \<noteq> Next n" using last_cell_in [of "First l" ns] assms(3) by auto
  have "seg (put ?c n st) (First l) ns n" using h by (intro seg_put_last) auto
  then have "seg (put (Next n) NULL (put ?c n st)) (First l) ns n"
    using assms(3) by (subst seg_frame) auto
  then have "seg (put (Next n) NULL (put ?c n st)) (First l) (ns @ [n]) NULL" using c by (simp add: seg_append)
  then show ?thesis using assms h by (auto simp: i_holds_def link_in_list_def Let_def)
qed

lemma i_holds_push_back:
  assumes "i_holds st l ns" "i_holds st k ms" "l \<noteq> k" "distinct (ns @ ms)"
  shows "i_holds (push_back l k st) l (ns @ ms)"
proof (cases ms)
  case Nil
  then show ?thesis using assms by (simp add: push_back_def i_holds_def)
next
  case (Cons m ms')
  have "seg (put (last_cell (First l) ns) (get st (First k)) st) (First l) (ns @ ms) NULL"
    using assms last_cell_disjoint [of ns ms "First l"]
    by (intro seg_join) (auto simp: i_holds_def seg_chain)
  moreover have "get st (First k) = m" "m \<noteq> NULL" "last_cell (First k) ms = last_cell (First l) (ns @ ms)"
    using assms(2) Cons by (auto simp: i_holds_def last_cell_def)
  ultimately show ?thesis using assms by (auto simp: push_back_def Let_def i_holds_def)
qed

lemma i_holds_push_front:
  assumes "i_holds st l ns" "i_holds st k ms" "l \<noteq> k" "distinct (ms @ ns)" "ns \<noteq> []"
  shows "i_holds (push_front l k st) l (ms @ ns)"
proof -
  let ?c = "last_cell (First k) ms" and ?v = "get st (First l)"
  have "chain st ?v ns NULL" using assms(1) by (simp add: i_holds_def seg_chain)
  then have "seg (put ?c ?v st) (First k) (ms @ ns) NULL"
    using assms last_cell_disjoint [of ms ns "First k"] by (intro seg_join) (auto simp: i_holds_def)
  then have "chain (put ?c ?v st) (get (put ?c ?v st) (First k)) (ms @ ns) NULL" by (simp add: seg_chain)
  then have "seg (put (First l) (get (put ?c ?v st) (First k)) (put ?c ?v st)) (First l) (ms @ ns) NULL"
    by (simp add: seg_chain chain_frame)
  moreover have "last_cell (First l) ns = last_cell (First l) (ms @ ns)" using assms(5) by (simp add: last_cell_def)
  moreover have "i_next st k = ?c" using assms(2) by (simp add: i_holds_def)
  ultimately show ?thesis using assms
    by (auto simp: push_front_def Let_def i_holds_def)
qed

section \<open>Properties\<close>

lemma i_holds_copy_construct:
  assumes "i_holds st l ns" "l \<noteq> k" "length ns < 2 ^ 32"
  shows "i_holds (copy_construct k l st) k ns"
proof -
  have "(of_nat (length ns) :: uint32) = 0 \<longleftrightarrow> ns = []"
    using assms(3) by (simp add: word_unat_eq_iff unat_of_nat)
  then show ?thesis using assms(1,2)
    by (auto simp: copy_construct_def Let_def i_holds_def seg_chain chain_frame last_cell_def)
qed

definition i_blank :: istore where
  "i_blank = \<lparr>first_f = (\<lambda>_. 0), next_f = (\<lambda>_. 0), i_elements = (\<lambda>_. 0), i_next = First\<rparr>"

lemma i_blank_holds: "i_holds i_blank l []"
  by (simp add: i_holds_def i_blank_def get.simps NULL_def)

text \<open>Linking an element appends it; appending a saved list and putting a saved list in front of
  a list that is not empty concatenate the sequences, with counter and tail pointer in order; the
  copy constructor gives a second list over the same nodes.\<close>

theorem sql_i_list_operations:
  assumes "i_holds st l ns" "i_holds st k ms" "l \<noteq> k" "distinct (ns @ ms)" "n \<noteq> NULL" "n \<notin> set ns"
    "length ns < 2 ^ 32"
  shows "i_holds (link_in_list l n (Next n) st) l (ns @ [n])
    \<and> i_holds (push_back l k st) l (ns @ ms)
    \<and> (ns \<noteq> [] \<longrightarrow> i_holds (push_front l k st) l (ms @ ns))
    \<and> i_holds (copy_construct k l st) k ns"
  using assms i_holds_link_in_list [OF assms(1,5,6)] i_holds_push_back [OF assms(1-4)]
    i_holds_push_front [OF assms(1-3)] i_holds_copy_construct [OF assms(1,3,7)] by auto

theorem sql_i_list_operations_witness: "i_holds (link_in_list 5 20 (Next 20) i_blank) 5 [20]"
  using sql_i_list_operations [OF i_blank_holds [of 5] i_blank_holds [of 6], of 20] by (simp add: NULL_def)

text \<open>Putting a saved list in front of an empty list links the saved elements but leaves the tail
  pointer at the head of the list: the next element linked replaces all of them, while the counter
  still counts them.\<close>

theorem sql_i_list_push_front_onto_empty:
  assumes "i_holds st l []" "i_holds st k ms" "l \<noteq> k" "ms \<noteq> []" "n \<noteq> NULL"
  shows "seg (push_front l k st) (First l) ms NULL
    \<and> seg (link_in_list l n (Next n) (push_front l k st)) (First l) [n] NULL
    \<and> i_elements (link_in_list l n (Next n) (push_front l k st)) l = of_nat (length ms + 1)"
proof -
  let ?c = "last_cell (First k) ms"
  have h: "get st (First l) = NULL" "i_next st l = First l" "i_next st k = ?c" "i_elements st l = 0"
    "i_elements st k = of_nat (length ms)" using assms(1,2) by (simp_all add: i_holds_def)
  have "seg (put ?c NULL st) (First k) ms NULL"
    using assms(2) by (intro seg_put_last) (auto simp: i_holds_def)
  then have "chain (put ?c NULL st) (get st (First k)) ms NULL"
    using assms(4) by (auto simp: seg_chain last_cell_def)
  then have "seg (put (First l) (get st (First k)) (put ?c NULL st)) (First l) ms NULL"
    by (simp add: seg_chain chain_frame)
  moreover have "get (put ?c NULL st) (First k) = get st (First k)" using assms(4) by (simp add: last_cell_def)
  ultimately show ?thesis using h assms(3)
    by (simp add: push_front_def link_in_list_def Let_def add.commute)
qed

theorem sql_i_list_push_front_onto_empty_witness:
  "seg (link_in_list 5 21 (Next 21) (push_front 5 6 (link_in_list 6 20 (Next 20) i_blank))) (First 5) [21] NULL"
proof -
  have "i_holds (link_in_list 6 20 (Next 20) i_blank) 6 [20]"
    using i_holds_link_in_list [OF i_blank_holds, of 20 6] by (simp add: NULL_def)
  moreover have "i_holds (link_in_list 6 20 (Next 20) i_blank) 5 []"
    by (simp add: i_holds_def link_in_list_def i_blank_def Let_def get.simps put.simps
        set_i_elements_def set_i_next_def NULL_def)
  ultimately show ?thesis using sql_i_list_push_front_onto_empty [of _ 5 6 "[20]" 21] by (simp add: NULL_def)
qed

text \<open>Saving an empty list copies a tail pointer that points into the list it was saved from: after
  new elements have been linked, putting the saved list back in front makes the list empty although
  its counter says otherwise.\<close>

theorem sql_i_list_save_empty_then_push_front:
  assumes "i_holds st l []" "l \<noteq> k" "n \<noteq> NULL"
    "st1 = link_in_list l n (Next n) (save_and_clear l k st)"
  shows "i_holds st1 l [n] \<and> get (push_front l k st1) (First l) = NULL
    \<and> i_elements (push_front l k st1) l = 1"
proof -
  have "get st (First l) = NULL" "i_next st l = First l" "i_elements st l = 0"
    using assms(1) by (simp_all add: i_holds_def)
  then have st1: "get st1 (First k) = NULL" "i_next st1 k = First l" "i_elements st1 k = 0"
    using assms(2,4) by (auto simp: link_in_list_def save_and_clear_def assign_def empty_def Let_def)
  have "i_holds st1 l [n]"
    using i_holds_link_in_list [OF i_holds_empty [of l "assign k l st"] assms(3)] assms(4) 
    by (simp add: save_and_clear_def)
  then show ?thesis using st1 assms(2) by (simp add: push_front_def Let_def i_holds_def)
qed

theorem sql_i_list_save_empty_then_push_front_witness:
  "get (push_front 5 6 (link_in_list 5 20 (Next 20) (save_and_clear 5 6 i_blank))) (First 5) = NULL"
  using sql_i_list_save_empty_then_push_front [OF i_blank_holds [of 5], of 6 20] by (simp add: NULL_def)

end
