(* ===== verification/Sql_Ilink.thy ===== *)
theory Sql_Ilink
  imports Cells Intrusive_List
begin

text \<open>
  \<^verbatim>\<open>ilink\<close>, \<^verbatim>\<open>base_ilist\<close> and \<^verbatim>\<open>I_List\<close> of \<^verbatim>\<open>sql_list.h\<close>: intrusive lists whose elements can take themselves
  out of the list. An element keeps a pointer to the cell that points to it. The embedded end node
  \<^verbatim>\<open>last\<close> of a list object has the address of the object. Construction with \<^verbatim>\<open>my_malloc\<close> is outside
  the model; the virtual destructor of an element is its \<^verbatim>\<open>unlink\<close>.
\<close>

record ilinks = cells +
  prev_f :: "addr \<Rightarrow> cell option"

definition set_prev_f :: "addr \<Rightarrow> cell option \<Rightarrow> ilinks \<Rightarrow> ilinks" where
  "set_prev_f n c st = st\<lparr>prev_f := (prev_f st)(n := c)\<rparr>"

definition ilink :: "addr \<Rightarrow> ilinks \<Rightarrow> ilinks" where
  "ilink n st = put (Next n) NULL (set_prev_f n None st)"

definition unlink :: "addr \<Rightarrow> ilinks \<Rightarrow> ilinks" where
  "unlink n st =
     (let st = (case prev_f st n of None \<Rightarrow> st | Some p \<Rightarrow> put p (get st (Next n)) st);
          st = (if get st (Next n) \<noteq> NULL
                then set_prev_f (get st (Next n)) (prev_f st n) st else st)
      in put (Next n) NULL (set_prev_f n None st))"

definition empty :: "addr \<Rightarrow> ilinks \<Rightarrow> ilinks" where
  "empty l st = set_prev_f l (Some (First l)) (put (First l) l st)"

definition base_ilist :: "addr \<Rightarrow> ilinks \<Rightarrow> ilinks" where
  "base_ilist l st = empty l (ilink l st)"

definition is_empty :: "ilinks \<Rightarrow> addr \<Rightarrow> bool" where
  "is_empty st l \<longleftrightarrow> get st (First l) = l"

definition is_last :: "ilinks \<Rightarrow> addr \<Rightarrow> addr \<Rightarrow> bool" where
  "is_last st l p \<longleftrightarrow> get st (Next p) = NULL \<or> get st (Next p) = l"

definition append :: "ilinks \<Rightarrow> addr \<Rightarrow> addr \<Rightarrow> ilinks" where
  "append st l a =
     (let st = set_prev_f (get st (First l)) (Some (Next a)) st;
          st = put (Next a) (get st (First l)) st;
          st = set_prev_f a (Some (First l)) st
      in put (First l) a st)"

definition push_back :: "ilinks \<Rightarrow> addr \<Rightarrow> addr \<Rightarrow> ilinks" where
  "push_back st l a =
     (let st = (case prev_f st l of None \<Rightarrow> st | Some p \<Rightarrow> put p a st);
          st = put (Next a) l st;
          st = set_prev_f a (prev_f st l) st
      in set_prev_f l (Some (Next a)) st)"

definition get_link :: "addr \<Rightarrow> ilinks \<Rightarrow> addr \<times> ilinks" where
  "get_link l st =
     (let first_link = get st (First l)
      in if first_link = l then (NULL, st) else (first_link, unlink first_link st))"

definition head :: "ilinks \<Rightarrow> addr \<Rightarrow> addr" where
  "head st l = (if get st (First l) \<noteq> l then get st (First l) else NULL)"

definition move_elements_to :: "addr \<Rightarrow> addr \<Rightarrow> ilinks \<Rightarrow> ilinks" where
  "move_elements_to l new_owner st =
     (let st = put (First new_owner) (get st (First l)) st;
          st = set_prev_f new_owner (prev_f st l) (put (Next new_owner) (get st (Next l)) st)
      in empty l st)"

record base_ilist_iterator =
  it_list :: addr
  el :: cell
  current :: addr

definition mk_iterator :: "addr \<Rightarrow> base_ilist_iterator" where
  "mk_iterator l = \<lparr>it_list = l, el = First l, current = NULL\<rparr>"

definition iterator_next :: "ilinks \<Rightarrow> base_ilist_iterator \<Rightarrow> addr \<times> base_ilist_iterator" where
  "iterator_next st it =
     (let it = it\<lparr>current := get st (el it)\<rparr>
      in if current it = it_list it then (NULL, it)
         else (current it, it\<lparr>el := Next (current it)\<rparr>))"

section \<open>Chains with back pointers to cells\<close>

lemma prev_simps [simp]:
  "prev_f (put c v st) = prev_f st" "get (set_prev_f n d st) = get st"
  "prev_f (set_prev_f n d st) m = (if m = n then d else prev_f st m)"
proof -
  show "prev_f (put c v st) = prev_f st" by (cases c) (simp_all add: put.simps)
  show "get (set_prev_f n d st) = get st"
  proof
    fix e show "get (set_prev_f n d st) e = get st e" by (cases e) (simp_all add: get.simps set_prev_f_def)
  qed
qed (simp add: set_prev_f_def)

fun dseg :: "ilinks \<Rightarrow> cell \<Rightarrow> addr list \<Rightarrow> addr \<Rightarrow> bool" where
  "dseg st c [] t \<longleftrightarrow> get st c = t \<and> prev_f st t = Some c"
| "dseg st c (n # ns) t \<longleftrightarrow> get st c = n \<and> prev_f st n = Some c \<and> dseg st (Next n) ns t"

lemma dseg_append: "dseg st c (ns @ ms) t \<longleftrightarrow> dseg st c ns (hd (ms @ [t])) \<and> dseg st (last_cell c ns) ms t"
  by (induction ns arbitrary: c) (auto, (cases ms, auto)+)

lemma dseg_cong:
  assumes "\<And>d. d \<in> insert c (Next ` set ns) \<Longrightarrow> get st' d = get st d"
    and "\<And>n. n \<in> set (ns @ [t]) \<Longrightarrow> prev_f st' n = prev_f st n"
  shows "dseg st' c ns t = dseg st c ns t"
  using assms by (induction ns arbitrary: c) auto

lemma dseg_last: "dseg st c ns t \<Longrightarrow> get st (last_cell c ns) = t \<and> prev_f st t = Some (last_cell c ns)"
  by (induction ns arbitrary: c) auto

lemma dseg_hd: "dseg st c ns t \<Longrightarrow> get st c = hd (ns @ [t])"
  by (cases ns) auto

lemma dseg_retarget:
  assumes "dseg st c ns t" "distinct ns" "c \<notin> Next ` set ns"
    and "get st' (last_cell c ns) = t'" "prev_f st' t' = Some (last_cell c ns)"
    and "\<And>d. d \<in> insert c (Next ` set ns) \<Longrightarrow> d \<noteq> last_cell c ns \<Longrightarrow> get st' d = get st d"
    and "\<And>n. n \<in> set ns \<Longrightarrow> prev_f st' n = prev_f st n"
  shows "dseg st' c ns t'"
  using assms
proof (induction ns arbitrary: c)
  case (Cons n ns)
  have "last_cell (Next n) ns \<in> insert (Next n) (Next ` set ns)" by (rule last_cell_in)
  then have "c \<noteq> last_cell (Next n) ns" using Cons.prems(3) by auto
  then show ?case using Cons by (auto simp: image_iff)
qed simp

lemma dseg_restart:
  assumes "dseg st c ns t" "distinct (ns @ [t])" "get st' c' = get st c"
    and "prev_f st' (hd (ns @ [t])) = Some c'"
    and "\<And>n. n \<in> set ns \<Longrightarrow> get st' (Next n) = get st (Next n)"
    and "\<And>n. n \<in> set (ns @ [t]) \<Longrightarrow> n \<noteq> hd (ns @ [t]) \<Longrightarrow> prev_f st' n = prev_f st n"
  shows "dseg st' c' ns t"
proof (cases ns)
  case Nil
  then show ?thesis using assms by simp
next
  case (Cons n ms)
  have "dseg st' (Next n) ms t = dseg st (Next n) ms t"
    by (rule dseg_cong) (use assms(2,5,6) Cons in auto)
  then show ?thesis using assms Cons by simp
qed

definition ik_holds :: "ilinks \<Rightarrow> addr \<Rightarrow> addr list \<Rightarrow> bool" where
  "ik_holds st l ns \<longleftrightarrow> dseg st (First l) ns l \<and> distinct (l # ns) \<and> NULL \<notin> set (l # ns)"

lemma ik_holds_base_ilist: "l \<noteq> NULL \<Longrightarrow> ik_holds (base_ilist l st) l []"
  by (simp add: ik_holds_def base_ilist_def empty_def)

lemma ik_holds_push_back:
  assumes "ik_holds st l ns" "a \<notin> set (l # ns)" "a \<noteq> NULL"
  shows "ik_holds (push_back st l a) l (ns @ [a])"
proof -
  let ?c = "last_cell (First l) ns"
  have h: "dseg st (First l) ns l" "distinct (l # ns)" using assms(1) by (simp_all add: ik_holds_def)
  have c: "?c \<noteq> Next a" using last_cell_in [of "First l" ns] assms(2) by auto
  have p: "prev_f st l = Some ?c" using dseg_last [OF h(1)] by simp
  have f: "get (push_back st l a) d = (if d = Next a then l else if d = ?c then a else get st d)"
      "prev_f (push_back st l a) n = (if n = l then Some (Next a) else if n = a then Some ?c else prev_f st n)"
    for d n using p by (simp_all add: push_back_def Let_def)
  have "dseg (push_back st l a) (First l) ns a"
    by (rule dseg_retarget [OF h(1)]) (use h c assms(2) in \<open>auto simp: f\<close>)
  then have "dseg (push_back st l a) (First l) (ns @ [a]) l"
    using c assms(2) by (simp add: dseg_append f)
  then show ?thesis using assms by (auto simp: ik_holds_def)
qed

lemma ik_holds_append:
  assumes "ik_holds st l ns" "a \<notin> set (l # ns)" "a \<noteq> NULL"
  shows "ik_holds (append st l a) l (a # ns)"
proof -
  have h: "dseg st (First l) ns l" "distinct (ns @ [l])" using assms(1) by (simp_all add: ik_holds_def)
  let ?f = "hd (ns @ [l])"
  have g: "get st (First l) = ?f" using dseg_hd [OF h(1)] .
  have "?f \<in> set (ns @ [l])" by (rule hd_in_set) simp
  then have fa: "?f \<noteq> a" using assms(2) by auto
  have f: "get (append st l a) d = (if d = First l then a else if d = Next a then ?f else get st d)"
      "prev_f (append st l a) n = (if n = a then Some (First l) else if n = ?f then Some (Next a) else prev_f st n)"
    for d n using g by (simp_all add: append_def Let_def)
  have "dseg (append st l a) (Next a) ns l"
    by (rule dseg_restart [OF h]) (use g fa assms(2) in \<open>auto simp: f\<close>)
  then show ?thesis using assms by (auto simp: ik_holds_def f)
qed

lemma ik_holds_unlink:
  assumes "ik_holds st l (ns @ n # ms)"
  shows "ik_holds (unlink n st) l (ns @ ms)"
    and "get (unlink n st) (Next n) = NULL" "prev_f (unlink n st) n = None"
proof -
  let ?c = "last_cell (First l) ns" and ?f = "hd (ms @ [l])"
  have h: "dseg st (First l) (ns @ n # ms) l" "distinct (l # ns @ n # ms)" "NULL \<notin> set (l # ns @ n # ms)"
    using assms by (simp_all add: ik_holds_def)
  then have d: "dseg st (First l) ns n" "dseg st (Next n) ms l" "prev_f st n = Some ?c"
    by (simp_all add: dseg_append)
  have g: "get st (Next n) = ?f" using dseg_hd [OF d(2)] .
  have fin: "?f \<in> set (ms @ [l])" by (rule hd_in_set) simp
  then have fx: "?f \<noteq> NULL" "?f \<noteq> n" "?f \<notin> set ns" using h(2,3) by auto
  have c: "?c \<noteq> Next n" "\<And>m. m \<in> set ms \<Longrightarrow> Next m \<noteq> ?c"
    using last_cell_in [of "First l" ns] h(2) by auto
  have f: "get (unlink n st) d = (if d = Next n then NULL else if d = ?c then ?f else get st d)"
      "prev_f (unlink n st) m = (if m = n then None else if m = ?f then Some ?c else prev_f st m)" for d m
    using d(3) g fx c by (auto simp: unlink_def Let_def)
  show "get (unlink n st) (Next n) = NULL" "prev_f (unlink n st) n = None" by (simp_all add: f)
  have "dseg (unlink n st) (First l) ns ?f"
    by (rule dseg_retarget [OF d(1)]) (use h(2) c fx in \<open>auto simp: f\<close>)
  moreover have "dseg (unlink n st) ?c ms l"
    by (rule dseg_restart [OF d(2)]) (use h(2) c fx g in \<open>auto simp: f\<close>)
  ultimately show "ik_holds (unlink n st) l (ns @ ms)" using h(2,3) by (auto simp: ik_holds_def dseg_append)
qed

text \<open>Lists that share no node are not touched.\<close>

lemma ik_holds_frame:
  assumes "ik_holds st m ys" "\<And>d. d \<in> insert (First m) (Next ` set ys) \<Longrightarrow> get st' d = get st d"
    "\<And>n. n \<in> set (m # ys) \<Longrightarrow> prev_f st' n = prev_f st n"
  shows "ik_holds st' m ys"
  using assms dseg_cong [of "First m" ys st' st m] by (auto simp: ik_holds_def)

interpretation ik: intrusive_list ik_holds "\<lambda>l. {l}" "\<lambda>v. v \<noteq> NULL" push_back append "\<lambda>st l v. unlink v st"
proof
  fix st l xs m ys v
  assume h: "ik_holds st l xs" "ik_holds st m ys"
  { assume v: "v \<noteq> NULL" "v \<notin> {l} \<union> set xs" "insert v ({l} \<union> set xs) \<inter> ({m} \<union> set ys) = {}"
    have "prev_f st l = Some (last_cell (First l) xs)" using h(1) by (auto simp: ik_holds_def dest: dseg_last)
    then show "ik_holds (push_back st l v) m ys"
      using last_cell_in [of "First l" xs] v
      by (intro ik_holds_frame [OF h(2)]) (auto simp: push_back_def Let_def) }
  { assume v: "v \<in> set xs" "({l} \<union> set xs) \<inter> ({m} \<union> set ys) = {}"
    obtain as bs where xs: "xs = as @ v # bs" using split_list [OF v(1)] by auto
    have n: "prev_f st v = Some (last_cell (First l) as)" "get st (Next v) = hd (bs @ [l])"
      using h(1) xs by (auto simp: ik_holds_def dseg_append dest: dseg_hd)
    have "hd (bs @ [l]) \<in> set (bs @ [l])" by (rule hd_in_set) simp
    then have "hd (bs @ [l]) \<in> {l} \<union> set xs" "last_cell (First l) as \<in> insert (First l) (Next ` set xs)"
      using last_cell_in [of "First l" as] xs by auto
    then show "ik_holds (unlink v st) m ys"
      using n v by (intro ik_holds_frame [OF h(2)]) (auto simp: unlink_def Let_def) }
qed (auto simp: ik_holds_push_back ik_holds_append ik_holds_unlink, auto simp: ik_holds_def)

text \<open>The loop over a list with the iterator.\<close>

fun ik_walk :: "nat \<Rightarrow> ilinks \<Rightarrow> base_ilist_iterator \<Rightarrow> addr list option" where
  "ik_walk 0 st it = None"
| "ik_walk (Suc fuel) st it =
     (case iterator_next st it of (x, it') \<Rightarrow>
        if x = NULL then Some [] else map_option (Cons x) (ik_walk fuel st it'))"

lemma ik_walk_dseg:
  assumes "dseg st (el it) ns (it_list it)" "it_list it \<notin> set ns" "NULL \<notin> set ns" "length ns < fuel"
  shows "ik_walk fuel st it = Some ns"
  using assms
proof (induction ns arbitrary: it fuel)
  case Nil
  then show ?case by (cases fuel) (simp_all add: iterator_next_def Let_def)
next
  case (Cons n ns)
  then obtain f where f: "fuel = Suc f" by (cases fuel) auto
  then show ?case
    using Cons.IH [of "it\<lparr>current := n, el := Next n\<rparr>" f] Cons.prems by (auto simp: iterator_next_def Let_def)
qed

section \<open>Properties\<close>

definition ik_blank :: ilinks where
  "ik_blank = base_ilist 6 (base_ilist 5 \<lparr>first_f = (\<lambda>_. 0), next_f = (\<lambda>_. 0), prev_f = (\<lambda>_. None)\<rparr>)"

lemma ik_blank_holds: "ik_holds ik_blank 5 []" "ik_holds ik_blank 6 []"
  by (simp_all add: ik_blank_def ik_holds_def base_ilist_def empty_def ilink_def set_prev_f_def get.simps
      put.simps NULL_def)

text \<open>Elements put at either end of an \<^verbatim>\<open>I_List\<close> are found there; an element takes itself out of
  the list it is in without access to the list, and is then unlinked; \<^verbatim>\<open>get\<close> takes out the first
  element; the loop over the list ends and visits the elements in order.\<close>

theorem i_list_operations:
  assumes "ik_holds st l (ns @ n # ms)" "a \<notin> set (l # ns @ n # ms)" "a \<noteq> NULL"
    "length (ns @ n # ms) < fuel"
  shows "ik_holds (push_back st l a) l ((ns @ n # ms) @ [a]) \<and> ik_holds (append st l a) l (a # ns @ n # ms)
    \<and> ik_holds (unlink n st) l (ns @ ms)
    \<and> get (unlink n st) (Next n) = NULL \<and> prev_f (unlink n st) n = None
    \<and> fst (get_link l st) = hd (ns @ n # ms) \<and> ik_holds (snd (get_link l st)) l (tl (ns @ n # ms))
    \<and> head st l = hd (ns @ n # ms) \<and> ik_walk fuel st (mk_iterator l) = Some (ns @ n # ms)"
proof -
  let ?k = "ns @ n # ms"
  have d: "dseg st (First l) ?k l" "l \<notin> set ?k" "NULL \<notin> set ?k" using assms(1) by (auto simp: ik_holds_def)
  have "get st (First l) = hd ?k" using dseg_hd [OF d(1)] by (simp add: hd_append)
  moreover have "hd ?k \<in> set ?k" by (rule hd_in_set) simp
  then have "hd ?k \<noteq> l" using d(2) by auto
  moreover have "ik_holds st l ([] @ hd ?k # tl ?k)" using assms(1) by simp
  then have "ik_holds (unlink (hd ?k) st) l (tl ?k)" using ik_holds_unlink(1) [of st l "[]" "hd ?k" "tl ?k"] by simp
  moreover have "ik_walk fuel st (mk_iterator l) = Some ?k"
    using d assms(4) by (intro ik_walk_dseg) (simp_all add: mk_iterator_def)
  ultimately show ?thesis
    using ik_holds_push_back [OF assms(1-3)] ik_holds_append [OF assms(1-3)] ik_holds_unlink [OF assms(1)]
    by (simp add: get_link_def head_def Let_def)
qed

theorem i_list_operations_witness: "ik_walk 2 (push_back ik_blank 5 20) (mk_iterator 5) = Some [20]"
  using i_list_operations [of "push_back ik_blank 5 20" 5 "[]" 20 "[]" 21 2]
    ik_holds_push_back [OF ik_blank_holds(1), of 20] by (simp add: NULL_def)

text \<open>The element by element transfer from one list to another, in the order of the first, with
  \<^verbatim>\<open>unlink\<close> and \<^verbatim>\<open>push_back\<close>, empties the first and appends its elements to the second.\<close>

theorem i_list_move_all:
  assumes "ik_holds st l xs" "ik_holds st m zs" "insert l (set xs) \<inter> insert m (set zs) = {}"
  shows "ik_holds (fold (\<lambda>v st. push_back (unlink v st) m v) xs st) l []
    \<and> ik_holds (fold (\<lambda>v st. push_back (unlink v st) m v) xs st) m (zs @ xs)"
  using ik.move_all [OF assms(1,2)] assms(3) by simp

theorem i_list_move_all_witness:
  "ik_holds (fold (\<lambda>v st. push_back (unlink v st) 6 v) [20] (push_back ik_blank 5 20)) 6 [20]"
proof -
  have "ik_holds (push_back ik_blank 5 20) 5 [20]" using ik_holds_push_back [OF ik_blank_holds(1), of 20] by (simp add: NULL_def)
  moreover have "ik_holds (push_back ik_blank 5 20) 6 []"
    using ik.frame_push_back [OF ik_blank_holds, of 20] by (simp add: NULL_def)
  ultimately show ?thesis using i_list_move_all [of _ 5 "[20]" 6 "[]"] by simp
qed

text \<open>\<^verbatim>\<open>move_elements_to\<close> copies the head and the end node by value. The last element still points
  to the end node of the old owner: walking the new owner first returns the elements and then the end
  node of the old list as if it were an element. The result is no well-formed list.\<close>

theorem i_list_move_elements_to_keeps_old_end:
  assumes "ik_holds st l (ns @ [n])" "ik_holds st k []" "l \<noteq> k" "k \<notin> set (ns @ [n])"
  shows "get (move_elements_to l k st) (Next n) = l
    \<and> seg (move_elements_to l k st) (First k) (ns @ [n]) l
    \<and> (\<forall>ms. \<not> ik_holds (move_elements_to l k st) k ms)"
proof -
  let ?st = "move_elements_to l k st"
  have h: "dseg st (First l) (ns @ [n]) l" "l \<notin> set (ns @ [n])" using assms(1) by (auto simp: ik_holds_def)
  have "seg st (First l) xs t" if "dseg st (First l) xs t" for xs t
    using that by (induction xs arbitrary: t rule: rev_induct) (auto simp: seg_append dseg_append)
  then have "chain st (get st (First l)) (ns @ [n]) l" using h(1) seg_chain by blast
  moreover have "get ?st (Next x) = get st (Next x)" if "x \<in> set (ns @ [n])" for x
    using that assms(4) by (auto simp: move_elements_to_def empty_def Let_def)
  moreover have "get ?st (First k) = get st (First l)"
    using assms(3) by (simp add: move_elements_to_def empty_def Let_def)
  ultimately have "chain ?st (get ?st (First k)) (ns @ [n]) l"
    using chain_cong [of "ns @ [n]" ?st st "get st (First l)" l] by metis
  then have s: "seg ?st (First k) (ns @ [n]) l" using seg_chain by blast
  have g: "get ?st (Next n) = l" using seg_last [OF s] by simp
  have "\<not> ik_holds ?st k ms" for ms
  proof
    assume "ik_holds ?st k ms"
    moreover have "get ?st (First k) = hd (ns @ [n])" using seg_hd [OF s] by (simp add: hd_append)
    moreover have "prev_f ?st (hd (ns @ [n])) = Some (First l)"
    proof -
      have "hd (ns @ [n]) \<in> set (ns @ [n])" by (rule hd_in_set) simp
      then have "hd (ns @ [n]) \<noteq> k" "hd (ns @ [n]) \<noteq> l" using assms(4) h(2) by auto
      moreover have "prev_f st (hd (ns @ [n])) = Some (First l)" using h(1) by (cases ns) auto
      ultimately show ?thesis by (simp add: move_elements_to_def empty_def Let_def)
    qed
    ultimately have "Some (First l) = Some (First k)" by (cases ms) (auto simp: ik_holds_def)
    then show False using assms(3) by simp
  qed
  then show ?thesis using s g by blast
qed

theorem i_list_move_elements_to_keeps_old_end_witness:
  "get (move_elements_to 5 6 (push_back ik_blank 5 20)) (Next 20) = 5"
proof -
  have "ik_holds (push_back ik_blank 5 20) 5 ([] @ [20])" using ik_holds_push_back [OF ik_blank_holds(1), of 20] by (simp add: NULL_def)
  moreover have "ik_holds (push_back ik_blank 5 20) 6 []"
    using ik.frame_push_back [OF ik_blank_holds, of 20] by (simp add: NULL_def)
  ultimately show ?thesis using i_list_move_elements_to_keeps_old_end [of _ 5 "[]" 20 6] by simp
qed

end
