(* ===== verification/Sql_Plist.thy ===== *)
theory Sql_Plist
  imports Cells Intrusive_List
begin

text \<open>
  \<^verbatim>\<open>I_P_List\<close> of \<^verbatim>\<open>sql_plist.h\<close>, the intrusive list with policies, which the lock manager uses. The
  adapter \<^verbatim>\<open>B\<close> that names the two link fields of an element is the choice of the cells; the counting
  policy \<^verbatim>\<open>C\<close> and the insertion policy \<^verbatim>\<open>I\<close> are parameters of the operations. The list is terminated
  by the null pointer.
\<close>

record plinks = cells +
  prev_p :: "addr \<Rightarrow> cell option"
  m_last :: "addr \<Rightarrow> cell"
  m_counter :: "addr \<Rightarrow> uint32"

definition set_prev_p :: "addr \<Rightarrow> cell option \<Rightarrow> plinks \<Rightarrow> plinks" where
  "set_prev_p n c st = st\<lparr>prev_p := (prev_p st)(n := c)\<rparr>"

section \<open>The policies\<close>

datatype counting = I_P_List_null_counter | I_P_List_counter

definition upd_counter :: "counting \<Rightarrow> addr \<Rightarrow> uint32 \<Rightarrow> plinks \<Rightarrow> plinks" where
  "upd_counter C l k st =
     (case C of I_P_List_null_counter \<Rightarrow> st
      | I_P_List_counter \<Rightarrow> st\<lparr>m_counter := (m_counter st)(l := k)\<rparr>)"

definition reset :: "counting \<Rightarrow> addr \<Rightarrow> plinks \<Rightarrow> plinks" where
  "reset C l st = upd_counter C l 0 st"

definition inc :: "counting \<Rightarrow> addr \<Rightarrow> plinks \<Rightarrow> plinks" where
  "inc C l st = upd_counter C l (m_counter st l + 1) st"

definition dec :: "counting \<Rightarrow> addr \<Rightarrow> plinks \<Rightarrow> plinks" where
  "dec C l st = upd_counter C l (m_counter st l - 1) st"

definition swap_counter :: "counting \<Rightarrow> addr \<Rightarrow> addr \<Rightarrow> plinks \<Rightarrow> plinks" where
  "swap_counter C l rhs st =
     (let c = m_counter st l in upd_counter C rhs c (upd_counter C l (m_counter st rhs) st))"

datatype insertion = I_P_List_no_push_back | I_P_List_fast_push_back

definition set_last :: "insertion \<Rightarrow> addr \<Rightarrow> cell \<Rightarrow> plinks \<Rightarrow> plinks" where
  "set_last I l a st =
     (case I of I_P_List_no_push_back \<Rightarrow> st
      | I_P_List_fast_push_back \<Rightarrow> st\<lparr>m_last := (m_last st)(l := a)\<rparr>)"

definition swap_last :: "insertion \<Rightarrow> addr \<Rightarrow> addr \<Rightarrow> plinks \<Rightarrow> plinks" where
  "swap_last I l rhs st =
     (let a = m_last st l in set_last I rhs a (set_last I l (m_last st rhs) st))"

section \<open>The list\<close>

definition empty :: "counting \<Rightarrow> insertion \<Rightarrow> addr \<Rightarrow> plinks \<Rightarrow> plinks" where
  "empty C I l st = set_last I l (First l) (reset C l (put (First l) NULL st))"

definition is_empty :: "plinks \<Rightarrow> addr \<Rightarrow> bool" where
  "is_empty st l \<longleftrightarrow> get st (First l) = NULL"

definition push_front :: "counting \<Rightarrow> insertion \<Rightarrow> plinks \<Rightarrow> addr \<Rightarrow> addr \<Rightarrow> plinks" where
  "push_front C I st l a =
     (let st = put (Next a) (get st (First l)) st;
          st = (if get st (First l) \<noteq> NULL
                then set_prev_p (get st (First l)) (Some (Next a)) st
                else set_last I l (Next a) st);
          st = put (First l) a st;
          st = set_prev_p a (Some (First l)) st
      in inc C l st)"

definition push_back :: "counting \<Rightarrow> insertion \<Rightarrow> plinks \<Rightarrow> addr \<Rightarrow> addr \<Rightarrow> plinks" where
  "push_back C I st l a =
     (let last = m_last st l;
          st = put (Next a) (get st last) st;
          st = put last a st;
          st = set_prev_p a (Some last) st;
          st = set_last I l (Next a) st
      in inc C l st)"

definition insert_after :: "counting \<Rightarrow> insertion \<Rightarrow> plinks \<Rightarrow> addr \<Rightarrow> addr \<Rightarrow> addr \<Rightarrow> plinks" where
  "insert_after C I st l pos a =
     (if pos = NULL then push_front C I st l a
      else let st = put (Next a) (get st (Next pos)) st;
               st = set_prev_p a (Some (Next pos)) st;
               st = put (Next pos) a st;
               st = (if get st (Next a) \<noteq> NULL
                     then set_prev_p (get st (Next a)) (Some (Next a)) st
                     else set_last I l (Next a) st)
           in inc C l st)"

definition remove :: "counting \<Rightarrow> insertion \<Rightarrow> plinks \<Rightarrow> addr \<Rightarrow> addr \<Rightarrow> plinks" where
  "remove C I st l a =
     (let nxt = get st (Next a)
      in case prev_p st a of None \<Rightarrow> st
         | Some p \<Rightarrow>
             let st = (if nxt \<noteq> NULL then set_prev_p nxt (Some p) st else set_last I l p st);
                 st = put p nxt st
             in dec C l st)"

definition front_p :: "plinks \<Rightarrow> addr \<Rightarrow> addr" where
  "front_p st l = get st (First l)"

definition pop_front :: "counting \<Rightarrow> insertion \<Rightarrow> plinks \<Rightarrow> addr \<Rightarrow> addr \<times> plinks" where
  "pop_front C I st l =
     (let result = front_p st l
      in (result, if result \<noteq> NULL then remove C I st l result else st))"

definition swap :: "counting \<Rightarrow> insertion \<Rightarrow> addr \<Rightarrow> addr \<Rightarrow> plinks \<Rightarrow> plinks" where
  "swap C I l rhs st =
     (let f = get st (First l);
          st = put (First rhs) f (put (First l) (get st (First rhs)) st);
          st = swap_last I l rhs st;
          st = (if get st (First l) \<noteq> NULL then set_prev_p (get st (First l)) (Some (First l)) st
                else set_last I l (First l) st);
          st = (if get st (First rhs) \<noteq> NULL then set_prev_p (get st (First rhs)) (Some (First rhs)) st
                else set_last I l (First rhs) st)
      in swap_counter C l rhs st)"

text \<open>The iterator saves the next element before it returns the current one.\<close>

record I_P_List_iterator =
  itp_list :: addr
  itp_current :: addr

definition mk_iterator :: "plinks \<Rightarrow> addr \<Rightarrow> I_P_List_iterator" where
  "mk_iterator st l = \<lparr>itp_list = l, itp_current = get st (First l)\<rparr>"

definition iterator_post_inc :: "plinks \<Rightarrow> I_P_List_iterator \<Rightarrow> addr \<times> I_P_List_iterator" where
  "iterator_post_inc st it =
     (let result = itp_current it
      in (result, if result \<noteq> NULL then it\<lparr>itp_current := get st (Next result)\<rparr> else it))"

definition iterator_pre_inc :: "plinks \<Rightarrow> I_P_List_iterator \<Rightarrow> addr \<times> I_P_List_iterator" where
  "iterator_pre_inc st it =
     (let c = get st (Next (itp_current it)) in (c, it\<lparr>itp_current := c\<rparr>))"

definition iterator_rewind :: "plinks \<Rightarrow> I_P_List_iterator \<Rightarrow> I_P_List_iterator" where
  "iterator_rewind st it = it\<lparr>itp_current := get st (First (itp_list it))\<rparr>"

section \<open>The sequence a list p_holds\<close>

lemma plinks_simps [simp]:
  "prev_p (put c v st) = prev_p st" "m_last (put c v st) = m_last st" "m_counter (put c v st) = m_counter st"
  "get (set_prev_p n d st) = get st" "m_last (set_prev_p n d st) = m_last st"
  "m_counter (set_prev_p n d st) = m_counter st"
  "prev_p (set_prev_p n d st) m = (if m = n then d else prev_p st m)"
  "get (set_last I l a st) = get st" "prev_p (set_last I l a st) = prev_p st"
  "m_counter (set_last I l a st) = m_counter st"
  "m_last (set_last I l a st) m =
     (if I = I_P_List_fast_push_back \<and> m = l then a else m_last st m)"
  "get (upd_counter C l k st) = get st" "prev_p (upd_counter C l k st) = prev_p st"
  "m_last (upd_counter C l k st) = m_last st"
  "m_counter (upd_counter C l k st) m = (if C = I_P_List_counter \<and> m = l then k else m_counter st m)"
proof -
  show "prev_p (put c v st) = prev_p st" "m_last (put c v st) = m_last st" "m_counter (put c v st) = m_counter st"
    by (cases c; simp add: put.simps)+
  have get: "get (set_prev_p n d st) e = get st e" "get (set_last I l a st) e = get st e"
      "get (upd_counter C l k st) e = get st e" for e
    by (cases e; simp add: get.simps set_prev_p_def set_last_def upd_counter_def split: insertion.split counting.split)+
  then show "get (set_prev_p n d st) = get st" "get (set_last I l a st) = get st"
      "get (upd_counter C l k st) = get st" by auto
qed (auto simp: set_prev_p_def set_last_def upd_counter_def split: insertion.split counting.split)

fun pseg :: "plinks \<Rightarrow> cell \<Rightarrow> addr list \<Rightarrow> addr \<Rightarrow> bool" where
  "pseg st c [] t \<longleftrightarrow> get st c = t"
| "pseg st c (n # ns) t \<longleftrightarrow> get st c = n \<and> prev_p st n = Some c \<and> pseg st (Next n) ns t"

lemma pseg_append: "pseg st c (ns @ ms) t \<longleftrightarrow> pseg st c ns (hd (ms @ [t])) \<and> pseg st (last_cell c ns) ms t"
  by (induction ns arbitrary: c) (auto, cases ms, auto)

lemma pseg_cong:
  assumes "\<And>d. d \<in> insert c (Next ` set ns) \<Longrightarrow> get st' d = get st d"
    and "\<And>n. n \<in> set ns \<Longrightarrow> prev_p st' n = prev_p st n"
  shows "pseg st' c ns t = pseg st c ns t"
  using assms by (induction ns arbitrary: c) auto

lemma pseg_last: "pseg st c ns t \<Longrightarrow> get st (last_cell c ns) = t"
  by (induction ns arbitrary: c) auto

lemma pseg_hd: "pseg st c ns t \<Longrightarrow> get st c = hd (ns @ [t])"
  by (cases ns) auto

lemma pseg_retarget:
  assumes "pseg st c ns t" "distinct ns" "c \<notin> Next ` set ns" "get st' (last_cell c ns) = t'"
    and "\<And>d. d \<in> insert c (Next ` set ns) \<Longrightarrow> d \<noteq> last_cell c ns \<Longrightarrow> get st' d = get st d"
    and "\<And>n. n \<in> set ns \<Longrightarrow> prev_p st' n = prev_p st n"
  shows "pseg st' c ns t'"
  using assms
proof (induction ns arbitrary: c)
  case (Cons n ns)
  have "last_cell (Next n) ns \<in> insert (Next n) (Next ` set ns)" by (rule last_cell_in)
  then have "c \<noteq> last_cell (Next n) ns" using Cons.prems(3) by auto
  then show ?case using Cons by (auto simp: image_iff)
qed simp

lemma pseg_restart:
  assumes "pseg st c ns t" "distinct ns" "get st' c' = get st c"
    and "ns \<noteq> [] \<Longrightarrow> prev_p st' (hd ns) = Some c'"
    and "\<And>n. n \<in> set ns \<Longrightarrow> get st' (Next n) = get st (Next n)"
    and "\<And>n. n \<in> set ns \<Longrightarrow> n \<noteq> hd ns \<Longrightarrow> prev_p st' n = prev_p st n"
  shows "pseg st' c' ns t"
proof (cases ns)
  case (Cons n ms)
  have "pseg st' (Next n) ms t = pseg st (Next n) ms t"
    by (rule pseg_cong) (use assms(2,5,6) Cons in auto)
  then show ?thesis using assms Cons by simp
qed (use assms in simp)

definition p_holds :: "counting \<Rightarrow> insertion \<Rightarrow> plinks \<Rightarrow> addr \<Rightarrow> addr list \<Rightarrow> bool" where
  "p_holds C I st l ns \<longleftrightarrow> pseg st (First l) ns NULL \<and> distinct (l # ns) \<and> NULL \<notin> set ns
     \<and> (I = I_P_List_fast_push_back \<longrightarrow> m_last st l = last_cell (First l) ns)
     \<and> (C = I_P_List_counter \<longrightarrow> m_counter st l = of_nat (length ns))"

lemmas op_defs = Let_def inc_def dec_def reset_def

lemma p_holds_empty: "p_holds C I (empty C I l st) l []"
  by (simp add: p_holds_def empty_def op_defs)

text \<open>All insertions put a node between two parts of the chain.\<close>

lemma p_holds_insert:
  assumes "p_holds C I st l (ns @ ms)" "a \<notin> set (l # ns @ ms)" "a \<noteq> NULL" "c = last_cell (First l) ns"
    and "get st' = (get st)(Next a := hd (ms @ [NULL]), c := a)"
    and "prev_p st' = (if ms = [] then prev_p st else (prev_p st)(hd ms := Some (Next a)))(a := Some c)"
    and "I = I_P_List_fast_push_back \<Longrightarrow> m_last st' l = (if ms = [] then Next a else m_last st l)"
    and "C = I_P_List_counter \<Longrightarrow> m_counter st' l = m_counter st l + 1"
  shows "p_holds C I st' l (ns @ a # ms)"
proof -
  have h: "pseg st (First l) ns (hd (ms @ [NULL]))" "pseg st c ms NULL" "distinct (l # ns @ ms)"
    using assms(1,4) by (simp_all add: p_holds_def pseg_append)
  have c: "c \<noteq> Next a" "\<And>m. m \<in> set ms \<Longrightarrow> Next m \<noteq> c"
    using last_cell_in [of "First l" ns] assms(2,4) h(3) by auto
  have hd_ms: "ms \<noteq> [] \<Longrightarrow> hd ms \<in> set ms" by simp
  have p: "prev_p st' a = Some c" "\<And>n. n \<in> set ns \<Longrightarrow> prev_p st' n = prev_p st n"
    using assms(2,6) h(3) hd_ms by auto
  have "pseg st' (First l) ns a"
    by (rule pseg_retarget [OF h(1)]) (use h(3) c assms(2,4,5) p(2) in auto)
  moreover have "pseg st' (Next a) ms NULL"
    by (rule pseg_restart [OF h(2)]) (use h(2,3) c assms(2,5,6) hd_ms pseg_hd [OF h(2)] in auto)
  moreover have "get st' c = a" using assms(5) by simp
  ultimately have "pseg st' (First l) (ns @ a # ms) NULL" using p(1) assms(4) by (simp add: pseg_append)
  then show ?thesis using assms(1-4,7,8) by (auto simp: p_holds_def last_cell_def)
qed

lemma hd_null_iff: "NULL \<notin> set ms \<Longrightarrow> hd (ms @ [NULL]) = NULL \<longleftrightarrow> ms = []"
  by (cases ms) auto

lemma p_holds_push_front:
  assumes "p_holds C I st l ns" "a \<notin> set (l # ns)" "a \<noteq> NULL"
  shows "p_holds C I (push_front C I st l a) l (a # ns)"
proof -
  have f: "get st (First l) = hd (ns @ [NULL])" "NULL \<notin> set ns"
    using assms(1) pseg_hd by (auto simp: p_holds_def)
  have "p_holds C I (push_front C I st l a) l ([] @ a # ns)"
    by (rule p_holds_insert [where st = st]) (use assms f hd_null_iff [of ns] in
      \<open>auto simp: push_front_def op_defs fun_eq_iff\<close>)
  then show ?thesis by simp
qed

lemma p_holds_push_back:
  assumes "p_holds C I_P_List_fast_push_back st l ns" "a \<notin> set (l # ns)" "a \<noteq> NULL"
  shows "p_holds C I_P_List_fast_push_back (push_back C I_P_List_fast_push_back st l a) l (ns @ [a])"
proof -
  have f: "m_last st l = last_cell (First l) ns" "get st (last_cell (First l) ns) = NULL"
    using assms(1) pseg_last by (auto simp: p_holds_def)
  show ?thesis
    by (rule p_holds_insert [where st = st and c = "last_cell (First l) ns"]) (use assms f in
      \<open>auto simp: push_back_def op_defs fun_eq_iff\<close>)
qed

lemma p_holds_insert_after:
  assumes "p_holds C I st l (ns @ x # ms)" "a \<notin> set (l # ns @ x # ms)" "a \<noteq> NULL"
  shows "p_holds C I (insert_after C I st l x a) l (ns @ x # a # ms)"
proof -
  have f: "get st (Next x) = hd (ms @ [NULL])" "NULL \<notin> set (ns @ x # ms)" "distinct (ns @ x # ms)"
    using assms(1) pseg_hd by (auto simp: p_holds_def pseg_append)
  have "hd (ms @ [NULL]) \<noteq> a" using assms(2,3) by (cases ms) auto
  then have "p_holds C I (insert_after C I st l x a) l ((ns @ [x]) @ a # ms)"
    using assms f hd_null_iff [of ms]
    by (intro p_holds_insert [where st = st and c = "Next x"])
       (auto simp: insert_after_def op_defs fun_eq_iff)
  then show ?thesis by simp
qed

lemma remove_fields:
  assumes "p_holds C I st l (ns @ a # ms)"
  shows "get (remove C I st l a) = (get st)(last_cell (First l) ns := hd (ms @ [NULL]))"
    "prev_p (remove C I st l a) =
       (if ms = [] then prev_p st else (prev_p st)(hd ms := Some (last_cell (First l) ns)))"
    "m_last (remove C I st l a) m = (if I = I_P_List_fast_push_back \<and> ms = [] \<and> m = l
       then last_cell (First l) ns else m_last st m)"
    "m_counter (remove C I st l a) m = (if C = I_P_List_counter \<and> m = l then m_counter st l - 1 else m_counter st m)"
proof -
  have "get st (Next a) = hd (ms @ [NULL])" "prev_p st a = Some (last_cell (First l) ns)" "NULL \<notin> set ms"
    using assms pseg_hd by (auto simp: p_holds_def pseg_append)
  then show "get (remove C I st l a) = (get st)(last_cell (First l) ns := hd (ms @ [NULL]))"
    "prev_p (remove C I st l a) =
       (if ms = [] then prev_p st else (prev_p st)(hd ms := Some (last_cell (First l) ns)))"
    "m_last (remove C I st l a) m = (if I = I_P_List_fast_push_back \<and> ms = [] \<and> m = l
       then last_cell (First l) ns else m_last st m)"
    "m_counter (remove C I st l a) m = (if C = I_P_List_counter \<and> m = l then m_counter st l - 1 else m_counter st m)"
    using hd_null_iff [of ms] by (auto simp: remove_def op_defs fun_eq_iff)
qed

lemma p_holds_remove:
  assumes "p_holds C I st l (ns @ a # ms)"
  shows "p_holds C I (remove C I st l a) l (ns @ ms)"
proof -
  let ?c = "last_cell (First l) ns"
  have h: "pseg st (First l) ns a" "pseg st (Next a) ms NULL" "distinct (l # ns @ a # ms)"
    using assms by (simp_all add: p_holds_def pseg_append)
  have c: "\<And>m. m \<in> set ms \<Longrightarrow> Next m \<noteq> ?c" using last_cell_in [of "First l" ns] h(3) by auto
  have hd_ms: "ms \<noteq> [] \<Longrightarrow> hd ms \<in> set ms" by simp
  note f = remove_fields [OF assms]
  have "pseg (remove C I st l a) (First l) ns (hd (ms @ [NULL]))"
    by (rule pseg_retarget [OF h(1)]) (use h(3) hd_ms f in auto)
  moreover have "pseg (remove C I st l a) ?c ms NULL"
    by (rule pseg_restart [OF h(2)]) (use h(3) c f pseg_hd [OF h(2)] in auto)
  ultimately show ?thesis using assms f by (auto simp: p_holds_def pseg_append last_cell_def)
qed

lemma p_holds_pop_front:
  assumes "p_holds C I st l (n # ns)"
  shows "fst (pop_front C I st l) = n" "p_holds C I (snd (pop_front C I st l)) l ns"
proof -
  have "get st (First l) = n" "n \<noteq> NULL" using assms by (auto simp: p_holds_def)
  then show "fst (pop_front C I st l) = n" "p_holds C I (snd (pop_front C I st l)) l ns"
    using p_holds_remove [of C I st l "[]" n ns] assms by (simp_all add: pop_front_def front_p_def)
qed

lemma p_holds_frame:
  assumes "p_holds C I st m ys" "\<And>d. d \<in> insert (First m) (Next ` set ys) \<Longrightarrow> get st' d = get st d"
    "\<And>n. n \<in> set ys \<Longrightarrow> prev_p st' n = prev_p st n" "m_last st' m = m_last st m" "m_counter st' m = m_counter st m"
  shows "p_holds C I st' m ys"
  using assms pseg_cong [of "First m" ys st' st NULL] by (auto simp: p_holds_def)

interpretation pl: intrusive_list "p_holds C I_P_List_fast_push_back" "\<lambda>l. {l}" "\<lambda>v. v \<noteq> NULL"
  "push_back C I_P_List_fast_push_back" "push_front C I_P_List_fast_push_back"
  "remove C I_P_List_fast_push_back" for C
proof
  let ?F = I_P_List_fast_push_back
  fix st l xs m ys v
  assume h: "p_holds C ?F st l xs" "p_holds C ?F st m ys"
  { assume v: "v \<noteq> NULL" "v \<notin> {l} \<union> set xs" "insert v ({l} \<union> set xs) \<inter> ({m} \<union> set ys) = {}"
    have "m_last st l = last_cell (First l) xs" using h(1) by (simp add: p_holds_def)
    then show "p_holds C ?F (push_back C ?F st l v) m ys"
      using last_cell_in [of "First l" xs] v
      by (intro p_holds_frame [OF h(2)]) (auto simp: push_back_def op_defs) }
  { assume v: "v \<in> set xs" "({l} \<union> set xs) \<inter> ({m} \<union> set ys) = {}"
    obtain as bs where xs: "xs = as @ v # bs" using split_list [OF v(1)] by auto
    have "bs \<noteq> [] \<Longrightarrow> hd bs \<in> set xs" using xs by simp
    then have hd_bs: "bs \<noteq> [] \<Longrightarrow> hd bs \<notin> set ys" using v(2) by auto
    have "last_cell (First l) as \<in> insert (First l) (Next ` set xs)"
      using last_cell_in [of "First l" as] xs by auto
    then show "p_holds C ?F (remove C ?F st l v) m ys"
      using v hd_bs h(1) unfolding xs
      by (intro p_holds_frame [OF h(2)]) (auto simp: remove_fields [of C ?F st l as v bs] split: if_splits) }
qed (auto simp: p_holds_push_back p_holds_push_front p_holds_remove, auto simp: p_holds_def)

text \<open>The loop that removes elements while iterating: the iterator has already moved on.\<close>

fun p_remove_if :: "nat \<Rightarrow> (addr \<Rightarrow> bool) \<Rightarrow> counting \<Rightarrow> insertion \<Rightarrow> addr \<Rightarrow> I_P_List_iterator \<Rightarrow> plinks
    \<Rightarrow> plinks option" where
  "p_remove_if 0 P C I l it st = None"
| "p_remove_if (Suc fuel) P C I l it st =
     (case iterator_post_inc st it of (x, it') \<Rightarrow>
        if x = NULL then Some st
        else p_remove_if fuel P C I l it' (if P x then remove C I st l x else st))"

lemma p_remove_if_ok:
  assumes "p_holds C I st l (ns @ ms)" "itp_current it = hd (ms @ [NULL])" "length ms < fuel"
  shows "\<exists>st'. p_remove_if fuel P C I l it st = Some st' \<and> p_holds C I st' l (ns @ filter (\<lambda>x. \<not> P x) ms)"
  using assms
proof (induction ms arbitrary: ns it st fuel)
  case Nil
  then show ?case by (cases fuel) (simp_all add: iterator_post_inc_def)
next
  case (Cons x ms)
  then obtain f where f: "fuel = Suc f" "length ms < f" by (cases fuel) auto
  have x: "x \<noteq> NULL" "get st (Next x) = hd (ms @ [NULL])"
    using Cons.prems(1) pseg_hd by (auto simp: p_holds_def pseg_append)
  then obtain it' where it': "iterator_post_inc st it = (x, it')" "itp_current it' = hd (ms @ [NULL])"
    using Cons.prems(2) by (simp add: iterator_post_inc_def)
  show ?case
  proof (cases "P x")
    case True
    then show ?thesis using Cons.IH [OF p_holds_remove [OF Cons.prems(1)] it'(2) f(2)] f it' x by simp
  next
    case False
    then show ?thesis using Cons.IH [of st "ns @ [x]" it' f] Cons.prems(1) f it' x by simp
  qed
qed

lemma p_holds_swap:
  assumes "p_holds C I_P_List_no_push_back st l ns" "p_holds C I_P_List_no_push_back st k ms" "l \<noteq> k"
    "(insert l (set ns)) \<inter> (insert k (set ms)) = {}"
  shows "p_holds C I_P_List_no_push_back (swap C I_P_List_no_push_back l k st) l ms
    \<and> p_holds C I_P_List_no_push_back (swap C I_P_List_no_push_back l k st) k ns"
proof -
  let ?st = "swap C I_P_List_no_push_back l k st"
  have h: "pseg st (First l) ns NULL" "distinct ns" "NULL \<notin> set ns" "pseg st (First k) ms NULL"
      "distinct ms" "NULL \<notin> set ms"
    using assms(1,2) by (simp_all add: p_holds_def)
  have g: "get st (First l) = hd (ns @ [NULL])" "get st (First k) = hd (ms @ [NULL])"
    using pseg_hd h by blast+
  have n: "ns \<noteq> [] \<Longrightarrow> hd ns \<notin> set ms" "ms \<noteq> [] \<Longrightarrow> hd ms \<notin> set ns"
      "ns \<noteq> [] \<Longrightarrow> ms \<noteq> [] \<Longrightarrow> hd ms \<noteq> hd ns"
    using assms(4) hd_in_set [of ns] hd_in_set [of ms] by (metis disjoint_iff insertCI)+
  have f: "get ?st = (get st)(First l := hd (ms @ [NULL]), First k := hd (ns @ [NULL]))"
    "prev_p ?st x = (if ns \<noteq> [] \<and> x = hd ns then Some (First k)
       else if ms \<noteq> [] \<and> x = hd ms then Some (First l) else prev_p st x)"
    "C = I_P_List_counter \<Longrightarrow> m_counter ?st = (m_counter st)(l := m_counter st k, k := m_counter st l)" for x
    using assms(3) g hd_null_iff [OF h(3)] hd_null_iff [OF h(6)]
    by (auto simp: swap_def swap_last_def swap_counter_def Let_def fun_eq_iff)
  have "pseg ?st (First l) ms NULL"
    by (rule pseg_restart [OF h(4,5)]) (use f g n assms(3,4) in auto)
  moreover have "pseg ?st (First k) ns NULL"
    by (rule pseg_restart [OF h(1,2)]) (use f g n assms(3,4) in auto)
  ultimately show ?thesis using assms f(3) h by (auto simp: p_holds_def)
qed

section \<open>Properties\<close>

definition p_blank :: plinks where
  "p_blank = \<lparr>first_f = (\<lambda>_. 0), next_f = (\<lambda>_. 0), prev_p = (\<lambda>_. None), m_last = First, m_counter = (\<lambda>_. 0)\<rparr>"

lemma p_blank_holds: "p_holds C I p_blank l []"
  by (simp add: p_holds_def p_blank_def get.simps NULL_def)

text \<open>Under every counting policy and insertion policy, putting an element in front, after a given
  element or (with the fast policy) at the end, removing an element and taking the first one give the
  sequence with that element put in or taken out, with back pointers, counter and tail pointer in
  order.\<close>

theorem plist_operations:
  assumes "p_holds C I st l (ns @ x # ms)" "a \<notin> set (l # ns @ x # ms)" "a \<noteq> NULL"
  shows "p_holds C I (push_front C I st l a) l (a # ns @ x # ms)
    \<and> p_holds C I (insert_after C I st l x a) l (ns @ x # a # ms)
    \<and> (I = I_P_List_fast_push_back \<longrightarrow> p_holds C I (push_back C I st l a) l ((ns @ x # ms) @ [a]))
    \<and> p_holds C I (remove C I st l x) l (ns @ ms)
    \<and> fst (pop_front C I st l) = hd (ns @ x # ms)
    \<and> p_holds C I (snd (pop_front C I st l)) l (tl (ns @ x # ms))"
proof -
  have "p_holds C I st l (hd (ns @ x # ms) # tl (ns @ x # ms))" using assms(1) by simp
  from p_holds_pop_front [OF this] show ?thesis
    using p_holds_push_front [OF assms] p_holds_insert_after [OF assms] p_holds_push_back [of C st l "ns @ x # ms" a]
      p_holds_remove [OF assms(1)] assms by auto
qed

theorem plist_operations_witness:
  "p_holds I_P_List_counter I_P_List_fast_push_back
     (remove I_P_List_counter I_P_List_fast_push_back
       (push_front I_P_List_counter I_P_List_fast_push_back p_blank 5 20) 5 20) 5 []"
proof -
  have "p_holds I_P_List_counter I_P_List_fast_push_back
      (push_front I_P_List_counter I_P_List_fast_push_back p_blank 5 20) 5 ([] @ 20 # [])"
    using p_holds_push_front [OF p_blank_holds, of 20 5] by (simp add: NULL_def)
  from plist_operations [OF this, of 21] show ?thesis by (simp add: NULL_def)
qed

text \<open>Removing elements inside a loop over the list is safe, because the iterator moves on before it
  returns an element: the loop ends and leaves exactly the elements that fail the test, in order.\<close>

theorem plist_remove_while_iterating:
  assumes "p_holds C I st l ns" "length ns < fuel"
  shows "\<exists>st'. p_remove_if fuel P C I l (mk_iterator st l) st = Some st'
    \<and> p_holds C I st' l (filter (\<lambda>x. \<not> P x) ns)"
proof -
  have "itp_current (mk_iterator st l) = hd (ns @ [NULL])"
    using assms(1) pseg_hd by (auto simp: mk_iterator_def p_holds_def)
  then show ?thesis using p_remove_if_ok [of C I st l "[]" ns "mk_iterator st l" fuel P] assms by simp
qed

theorem plist_remove_while_iterating_witness:
  "\<exists>st'. p_remove_if 2 (\<lambda>x. x = 20) I_P_List_counter I_P_List_no_push_back 5
     (mk_iterator (push_front I_P_List_counter I_P_List_no_push_back p_blank 5 20) 5)
     (push_front I_P_List_counter I_P_List_no_push_back p_blank 5 20) = Some st'
     \<and> p_holds I_P_List_counter I_P_List_no_push_back st' 5 []"
proof -
  have "p_holds I_P_List_counter I_P_List_no_push_back
      (push_front I_P_List_counter I_P_List_no_push_back p_blank 5 20) 5 [20]"
    using p_holds_push_front [OF p_blank_holds, of 20 5] by (simp add: NULL_def)
  from plist_remove_while_iterating [OF this, of 2 "\<lambda>x. x = 20"] show ?thesis by simp
qed

text \<open>Exchanging two lists that share no element gives each the sequence of the other, with the back
  pointers of the first elements and the counters exchanged too, for the insertion policy without a
  tail pointer, the only one the parameter type of \<^verbatim>\<open>swap\<close> admits.\<close>

theorem plist_swap:
  assumes "p_holds C I_P_List_no_push_back st l ns" "p_holds C I_P_List_no_push_back st k ms"
    "insert l (set ns) \<inter> insert k (set ms) = {}"
  shows "p_holds C I_P_List_no_push_back (swap C I_P_List_no_push_back l k st) l ms
    \<and> p_holds C I_P_List_no_push_back (swap C I_P_List_no_push_back l k st) k ns"
  using p_holds_swap [OF assms(1,2) _ assms(3)] assms(3) by auto

theorem plist_swap_witness:
  "p_holds I_P_List_counter I_P_List_no_push_back (swap I_P_List_counter I_P_List_no_push_back 5 6 p_blank) 5 []"
  using plist_swap [OF p_blank_holds [of _ _ 5] p_blank_holds [of _ _ 6]] by simp

text \<open>With a tail pointer the exchange would be wrong: the last branch of \<^verbatim>\<open>swap\<close> resets the tail
  pointer of this list where it means the one of the other list.\<close>

lemma plist_swap_fast_tail:
  assumes "p_holds C I_P_List_fast_push_back st l []" "p_holds C I_P_List_fast_push_back st k ms"
    "ms \<noteq> []" "l \<noteq> k"
  shows "m_last (swap C I_P_List_fast_push_back l k st) l = First k"
    "\<not> p_holds C I_P_List_fast_push_back (swap C I_P_List_fast_push_back l k st) l ms"
proof -
  have "get st (First l) = NULL" using assms(1) by (simp add: p_holds_def)
  then show "m_last (swap C I_P_List_fast_push_back l k st) l = First k"
    using assms(4) by (simp add: swap_def swap_last_def swap_counter_def Let_def)
  then show "\<not> p_holds C I_P_List_fast_push_back (swap C I_P_List_fast_push_back l k st) l ms"
    using assms(3) by (simp add: p_holds_def last_cell_def)
qed

end
