(* ===== verification/Lifo_Buffer.thy ===== *)
theory Lifo_Buffer
  imports Prelude
begin

text \<open>
  The bidirectional LIFO buffers of \<^verbatim>\<open>sql_lifo_buffer.h\<close> that the multi-range-read code uses for keys
  and row identifiers. Memory maps addresses, taken as integers, to bytes. The two classes share the
  record; the virtual functions dispatch on the direction. The sorting routine \<^verbatim>\<open>my_qsort2\<close> is a
  parameter.
\<close>

type_synonym memory = "int \<Rightarrow> uchar"

definition memcpy :: "int \<Rightarrow> int \<Rightarrow> nat \<Rightarrow> memory \<Rightarrow> memory" where
  "memcpy dst src n m = (\<lambda>a. if dst \<le> a \<and> a < dst + int n then m (src + (a - dst)) else m a)"

definition bytes :: "memory \<Rightarrow> int \<Rightarrow> nat \<Rightarrow> uchar list" where
  "bytes m a n = map (\<lambda>i. m (a + int i)) [0..<n]"

section \<open>Lifo\_buffer\<close>

datatype enum_direction = BACKWARD | FORWARD

record Lifo_buffer =
  direction :: enum_direction
  size1 :: nat
  size2 :: nat
  write_ptr1 :: int
  write_ptr2 :: int
  read_ptr1 :: int
  read_ptr2 :: int
  start :: int
  end_ptr :: int
  pos :: int

section \<open>Forward\_lifo\_buffer\<close>

definition fwd_used_size :: "Lifo_buffer \<Rightarrow> nat" where
  "fwd_used_size b = nat (pos b - start b)"

definition fwd_reset :: "Lifo_buffer \<Rightarrow> Lifo_buffer" where
  "fwd_reset b = b\<lparr>pos := start b\<rparr>"

definition fwd_end_of_space :: "Lifo_buffer \<Rightarrow> int" where
  "fwd_end_of_space b = pos b"

definition fwd_have_space_for :: "Lifo_buffer \<Rightarrow> nat \<Rightarrow> bool" where
  "fwd_have_space_for b n \<longleftrightarrow> pos b + int n < end_ptr b"

definition fwd_write_bytes :: "int \<Rightarrow> nat \<Rightarrow> memory \<times> Lifo_buffer \<Rightarrow> memory \<times> Lifo_buffer" where
  "fwd_write_bytes data n s =
     (let (m, b) = s; m = memcpy (pos b) data n m in (m, b\<lparr>pos := pos b + int n\<rparr>))"

definition fwd_write :: "memory \<times> Lifo_buffer \<Rightarrow> memory \<times> Lifo_buffer" where
  "fwd_write s =
     (let b = snd s; s = fwd_write_bytes (write_ptr1 b) (size1 b) s
      in if size2 b \<noteq> 0 then fwd_write_bytes (write_ptr2 b) (size2 b) s else s)"

definition fwd_have_data :: "Lifo_buffer \<Rightarrow> int \<Rightarrow> nat \<Rightarrow> bool" where
  "fwd_have_data b position n \<longleftrightarrow> position - start b \<ge> int n"

text \<open>Returns the new position and the pointer to the bytes.\<close>

definition fwd_read_bytes :: "int \<Rightarrow> nat \<Rightarrow> int \<times> int" where
  "fwd_read_bytes position n = (let p = position - int n in (p, p))"

text \<open>The position and the two pointers are passed in and out; the flag is true at the end.\<close>

definition fwd_read_at :: "Lifo_buffer \<Rightarrow> int \<times> int \<times> int \<Rightarrow> bool \<times> int \<times> int \<times> int" where
  "fwd_read_at b args =
     (let (position, ptr1, ptr2) = args
      in if \<not> fwd_have_data b position (size1 b + size2 b) then (True, position, ptr1, ptr2)
         else let (position, ptr2) = (if size2 b \<noteq> 0 then fwd_read_bytes position (size2 b)
                                      else (position, ptr2));
                  (position, ptr1) = fwd_read_bytes position (size1 b)
              in (False, position, ptr1, ptr2))"

definition fwd_grow :: "int \<Rightarrow> int \<Rightarrow> Lifo_buffer \<Rightarrow> Lifo_buffer" where
  "fwd_grow unused_start unused_end b = b\<lparr>end_ptr := unused_end\<rparr>"

definition fwd_used_area :: "Lifo_buffer \<Rightarrow> int" where
  "fwd_used_area b = start b"

section \<open>Backward\_lifo\_buffer\<close>

definition bwd_used_size :: "Lifo_buffer \<Rightarrow> nat" where
  "bwd_used_size b = nat (end_ptr b - pos b)"

definition bwd_reset :: "Lifo_buffer \<Rightarrow> Lifo_buffer" where
  "bwd_reset b = b\<lparr>pos := end_ptr b\<rparr>"

definition bwd_end_of_space :: "Lifo_buffer \<Rightarrow> int" where
  "bwd_end_of_space b = end_ptr b"

definition bwd_have_space_for :: "Lifo_buffer \<Rightarrow> nat \<Rightarrow> bool" where
  "bwd_have_space_for b n \<longleftrightarrow> pos b - int n \<ge> start b"

definition bwd_write_bytes :: "int \<Rightarrow> nat \<Rightarrow> memory \<times> Lifo_buffer \<Rightarrow> memory \<times> Lifo_buffer" where
  "bwd_write_bytes data n s =
     (let (m, b) = s; b = b\<lparr>pos := pos b - int n\<rparr> in (memcpy (pos b) data n m, b))"

definition bwd_write :: "memory \<times> Lifo_buffer \<Rightarrow> memory \<times> Lifo_buffer" where
  "bwd_write s =
     (let b = snd s;
          s = (if write_ptr2 b \<noteq> 0 then bwd_write_bytes (write_ptr2 b) (size2 b) s else s)
      in bwd_write_bytes (write_ptr1 b) (size1 b) s)"

definition bwd_have_data :: "Lifo_buffer \<Rightarrow> int \<Rightarrow> nat \<Rightarrow> bool" where
  "bwd_have_data b position n \<longleftrightarrow> end_ptr b - position \<ge> int n"

definition bwd_read_bytes :: "int \<Rightarrow> nat \<Rightarrow> int \<times> int" where
  "bwd_read_bytes position n = (let ret = position in (position + int n, ret))"

definition bwd_read_at :: "Lifo_buffer \<Rightarrow> int \<times> int \<times> int \<Rightarrow> bool \<times> int \<times> int \<times> int" where
  "bwd_read_at b args =
     (let (position, ptr1, ptr2) = args
      in if \<not> bwd_have_data b position (size1 b + size2 b) then (True, position, ptr1, ptr2)
         else let (position, ptr1) = bwd_read_bytes position (size1 b);
                  (position, ptr2) = (if size2 b \<noteq> 0 then bwd_read_bytes position (size2 b)
                                      else (position, ptr2))
              in (False, position, ptr1, ptr2))"

text \<open>Returns the bounds of the space given back.\<close>

definition bwd_remove_unused_space :: "Lifo_buffer \<Rightarrow> (int \<times> int) \<times> Lifo_buffer" where
  "bwd_remove_unused_space b = ((start b, pos b), b\<lparr>start := pos b\<rparr>)"

definition bwd_used_area :: "Lifo_buffer \<Rightarrow> int" where
  "bwd_used_area b = pos b"

section \<open>Operations of the base class\<close>

definition used_size :: "Lifo_buffer \<Rightarrow> nat" where
  "used_size b = (case direction b of FORWARD \<Rightarrow> fwd_used_size b | BACKWARD \<Rightarrow> bwd_used_size b)"

definition reset :: "Lifo_buffer \<Rightarrow> Lifo_buffer" where
  "reset b = (case direction b of FORWARD \<Rightarrow> fwd_reset b | BACKWARD \<Rightarrow> bwd_reset b)"

definition have_space_for :: "Lifo_buffer \<Rightarrow> nat \<Rightarrow> bool" where
  "have_space_for b n =
     (case direction b of FORWARD \<Rightarrow> fwd_have_space_for b n | BACKWARD \<Rightarrow> bwd_have_space_for b n)"

definition write_elem :: "memory \<times> Lifo_buffer \<Rightarrow> memory \<times> Lifo_buffer" where
  "write_elem s = (case direction (snd s) of FORWARD \<Rightarrow> fwd_write s | BACKWARD \<Rightarrow> bwd_write s)"

definition read_at :: "Lifo_buffer \<Rightarrow> int \<times> int \<times> int \<Rightarrow> bool \<times> int \<times> int \<times> int" where
  "read_at b args =
     (case direction b of FORWARD \<Rightarrow> fwd_read_at b args | BACKWARD \<Rightarrow> bwd_read_at b args)"

definition read_elem :: "Lifo_buffer \<Rightarrow> bool \<times> Lifo_buffer" where
  "read_elem b =
     (let (eof, p, p1, p2) = read_at b (pos b, read_ptr1 b, read_ptr2 b)
      in (eof, b\<lparr>pos := p, read_ptr1 := p1, read_ptr2 := p2\<rparr>))"

definition used_area :: "Lifo_buffer \<Rightarrow> int" where
  "used_area b = (case direction b of FORWARD \<Rightarrow> fwd_used_area b | BACKWARD \<Rightarrow> bwd_used_area b)"

definition set_buffer_space :: "int \<Rightarrow> int \<Rightarrow> Lifo_buffer \<Rightarrow> Lifo_buffer" where
  "set_buffer_space start_arg end_arg b = reset (b\<lparr>start := start_arg, end_ptr := end_arg\<rparr>)"

definition setup_writing :: "nat \<Rightarrow> nat \<Rightarrow> Lifo_buffer \<Rightarrow> Lifo_buffer" where
  "setup_writing len1 len2 b = b\<lparr>size1 := len1, size2 := len2\<rparr>"

definition can_write :: "Lifo_buffer \<Rightarrow> bool" where
  "can_write b = have_space_for b (size1 b + size2 b)"

definition is_empty :: "Lifo_buffer \<Rightarrow> bool" where
  "is_empty b \<longleftrightarrow> used_size b = 0"

definition sort_buffer ::
  "(int \<Rightarrow> nat \<Rightarrow> nat \<Rightarrow> memory \<Rightarrow> memory) \<Rightarrow> memory \<times> Lifo_buffer \<Rightarrow> memory \<times> Lifo_buffer" where
  "sort_buffer my_qsort2 s =
     (let (m, b) = s; elem_size = size1 b + size2 b; n_elements = used_size b div elem_size
      in (my_qsort2 (used_area b) n_elements elem_size m, b))"

section \<open>Lifo\_buffer\_iterator\<close>

record Lifo_buffer_iterator =
  it_pos :: int
  it_read_ptr1 :: int
  it_read_ptr2 :: int

definition it_init :: "Lifo_buffer \<Rightarrow> Lifo_buffer_iterator \<Rightarrow> Lifo_buffer_iterator" where
  "it_init b it = it\<lparr>it_pos := pos b\<rparr>"

definition it_read :: "Lifo_buffer \<Rightarrow> Lifo_buffer_iterator \<Rightarrow> bool \<times> Lifo_buffer_iterator" where
  "it_read b it =
     (let (eof, p, p1, p2) = read_at b (it_pos it, it_read_ptr1 it, it_read_ptr2 it)
      in (eof, it\<lparr>it_pos := p, it_read_ptr1 := p1, it_read_ptr2 := p2\<rparr>))"

section \<open>The stack of elements in a buffer\<close>

type_synonym elem = "uchar list \<times> uchar list"

lemma bytes_length [simp]: "length (bytes m a n) = n"
  by (simp add: bytes_def)

lemma bytes_cong: "(\<And>i. a \<le> i \<Longrightarrow> i < a + int n \<Longrightarrow> m' i = m i) \<Longrightarrow> bytes m' a n = bytes m a n"
  by (auto simp: bytes_def)

lemma memcpy_0 [simp]: "memcpy dst src 0 m = m"
  by (auto simp: memcpy_def fun_eq_iff)

lemma bytes_memcpy: "bytes (memcpy dst src n m) dst n = bytes m src n"
  by (auto simp: bytes_def memcpy_def)

lemma bytes_memcpy_other:
  "a + int k \<le> dst \<or> dst + int n \<le> a \<Longrightarrow> bytes (memcpy dst src n m) a k = bytes m a k"
  by (rule bytes_cong) (auto simp: memcpy_def)

text \<open>The elements from the most recently written one on, at a reading position.\<close>

fun elems_at :: "enum_direction \<Rightarrow> nat \<Rightarrow> nat \<Rightarrow> memory \<Rightarrow> int \<Rightarrow> int \<Rightarrow> elem list \<Rightarrow> bool" where
  "elems_at d s1 s2 m p base [] \<longleftrightarrow> p = base"
| "elems_at FORWARD s1 s2 m p base ((d1, d2) # es) \<longleftrightarrow>
     bytes m (p - int s2) s2 = d2 \<and> bytes m (p - int s2 - int s1) s1 = d1
     \<and> elems_at FORWARD s1 s2 m (p - int (s1 + s2)) base es"
| "elems_at BACKWARD s1 s2 m p base ((d1, d2) # es) \<longleftrightarrow>
     bytes m p s1 = d1 \<and> bytes m (p + int s1) s2 = d2
     \<and> elems_at BACKWARD s1 s2 m (p + int (s1 + s2)) base es"

definition base :: "Lifo_buffer \<Rightarrow> int" where
  "base b = (case direction b of FORWARD \<Rightarrow> start b | BACKWARD \<Rightarrow> end_ptr b)"

definition stack :: "memory \<Rightarrow> Lifo_buffer \<Rightarrow> elem list \<Rightarrow> bool" where
  "stack m b es \<longleftrightarrow> elems_at (direction b) (size1 b) (size2 b) m (pos b) (base b) es
     \<and> start b \<le> pos b \<and> pos b \<le> end_ptr b \<and> 0 < size1 b + size2 b"

lemma base_upd [simp]:
  "base (b\<lparr>pos := p\<rparr>) = base b" "base (b\<lparr>read_ptr1 := q\<rparr>) = base b" "base (b\<lparr>read_ptr2 := q\<rparr>) = base b"
  by (simp_all add: base_def split: enum_direction.split)

lemma elems_at_range:
  "elems_at FORWARD s1 s2 m p bs es \<Longrightarrow> p = bs + int (length es) * int (s1 + s2)"
  "elems_at BACKWARD s1 s2 m p bs es \<Longrightarrow> p = bs - int (length es) * int (s1 + s2)"
proof -
  show "elems_at FORWARD s1 s2 m p bs es \<Longrightarrow> p = bs + int (length es) * int (s1 + s2)"
  proof (induction es arbitrary: p)
    case (Cons e es)
    then have "p - int (s1 + s2) = bs + int (length es) * int (s1 + s2)" by (cases e) auto
    then show ?case by (simp add: algebra_simps)
  qed simp
  show "elems_at BACKWARD s1 s2 m p bs es \<Longrightarrow> p = bs - int (length es) * int (s1 + s2)"
  proof (induction es arbitrary: p)
    case (Cons e es)
    then have "p + int (s1 + s2) = bs - int (length es) * int (s1 + s2)" by (cases e) auto
    then show ?case by (simp add: algebra_simps)
  qed simp
qed

lemma elems_at_cong:
  "elems_at FORWARD s1 s2 m p bs es \<Longrightarrow> (\<And>a. bs \<le> a \<Longrightarrow> a < p \<Longrightarrow> m' a = m a) \<Longrightarrow> elems_at FORWARD s1 s2 m' p bs es"
  "elems_at BACKWARD s1 s2 m p bs es \<Longrightarrow> (\<And>a. p \<le> a \<Longrightarrow> a < bs \<Longrightarrow> m' a = m a) \<Longrightarrow> elems_at BACKWARD s1 s2 m' p bs es"
proof -
  show "elems_at FORWARD s1 s2 m p bs es \<Longrightarrow> (\<And>a. bs \<le> a \<Longrightarrow> a < p \<Longrightarrow> m' a = m a) \<Longrightarrow> elems_at FORWARD s1 s2 m' p bs es"
  proof (induction es arbitrary: p)
    case (Cons e es)
    obtain d1 d2 where e: "e = (d1, d2)" by (cases e)
    have r: "elems_at FORWARD s1 s2 m (p - int (s1 + s2)) bs es" using Cons.prems(1) e by simp
    then have le: "bs \<le> p - int (s1 + s2)" using elems_at_range(1) by fastforce
    have "elems_at FORWARD s1 s2 m' (p - int (s1 + s2)) bs es"
      using Cons.prems(2) by (intro Cons.IH [OF r]) simp
    moreover have "bytes m' (p - int s2) s2 = bytes m (p - int s2) s2"
        "bytes m' (p - int s2 - int s1) s1 = bytes m (p - int s2 - int s1) s1"
      using le Cons.prems(2) by (auto intro!: bytes_cong)
    ultimately show ?case using Cons.prems(1) e by simp
  qed simp
  show "elems_at BACKWARD s1 s2 m p bs es \<Longrightarrow> (\<And>a. p \<le> a \<Longrightarrow> a < bs \<Longrightarrow> m' a = m a) \<Longrightarrow> elems_at BACKWARD s1 s2 m' p bs es"
  proof (induction es arbitrary: p)
    case (Cons e es)
    obtain d1 d2 where e: "e = (d1, d2)" by (cases e)
    have r: "elems_at BACKWARD s1 s2 m (p + int (s1 + s2)) bs es" using Cons.prems(1) e by simp
    then have le: "p + int (s1 + s2) \<le> bs" using elems_at_range(2) by fastforce
    have "elems_at BACKWARD s1 s2 m' (p + int (s1 + s2)) bs es"
      using Cons.prems(2) by (intro Cons.IH [OF r]) simp
    moreover have "bytes m' p s1 = bytes m p s1" "bytes m' (p + int s1) s2 = bytes m (p + int s1) s2"
      using le Cons.prems(2) by (auto intro!: bytes_cong)
    ultimately show ?case using Cons.prems(1) e by simp
  qed simp
qed

text \<open>The source of a write: the two parts lie outside the buffer space, the second one has an address
  when it has a size.\<close>

definition src :: "memory \<Rightarrow> Lifo_buffer \<Rightarrow> elem \<Rightarrow> bool" where
  "src m b e \<longleftrightarrow> bytes m (write_ptr1 b) (size1 b) = fst e \<and> bytes m (write_ptr2 b) (size2 b) = snd e
     \<and> (write_ptr1 b + int (size1 b) \<le> start b \<or> end_ptr b \<le> write_ptr1 b)
     \<and> (write_ptr2 b + int (size2 b) \<le> start b \<or> end_ptr b \<le> write_ptr2 b)
     \<and> (size2 b \<noteq> 0 \<longrightarrow> write_ptr2 b \<noteq> 0)"

lemma fwd_write_ok:
  assumes "stack m b es" "direction b = FORWARD" "src m b e" "can_write b"
  shows "\<exists>m'. fwd_write (m, b) = (m', b\<lparr>pos := pos b + int (size1 b + size2 b)\<rparr>)
    \<and> stack m' (b\<lparr>pos := pos b + int (size1 b + size2 b)\<rparr>) (e # es)
    \<and> (\<forall>a. a < pos b \<or> pos b + int (size1 b + size2 b) \<le> a \<longrightarrow> m' a = m a)"
proof -
  let ?m1 = "memcpy (pos b) (write_ptr1 b) (size1 b) m"
  let ?m' = "memcpy (pos b + int (size1 b)) (write_ptr2 b) (size2 b) ?m1"
  have b: "start b \<le> pos b" "pos b + int (size1 b + size2 b) < end_ptr b"
    using assms by (auto simp: stack_def can_write_def have_space_for_def fwd_have_space_for_def)
  have w: "fwd_write (m, b) = (?m', b\<lparr>pos := pos b + int (size1 b + size2 b)\<rparr>)"
  proof (cases "size2 b = 0")
    case True
    then have "?m' = ?m1" by simp
    then show ?thesis using True by (simp add: fwd_write_def fwd_write_bytes_def)
  qed (simp add: fwd_write_def fwd_write_bytes_def algebra_simps)
  have "bytes ?m' (pos b + int (size1 b)) (size2 b) = snd e"
    using assms(3) b by (auto simp: bytes_memcpy src_def intro!: bytes_memcpy_other [THEN trans])
  moreover have "bytes ?m' (pos b) (size1 b) = fst e"
    using assms(3) by (subst bytes_memcpy_other) (auto simp: bytes_memcpy src_def)
  moreover have fr: "\<forall>a. a < pos b \<or> pos b + int (size1 b + size2 b) \<le> a \<longrightarrow> ?m' a = m a"
    by (auto simp: memcpy_def)
  moreover have "elems_at FORWARD (size1 b) (size2 b) ?m' (pos b) (start b) es"
    by (rule elems_at_cong(1) [of _ _ m]) (use assms(1,2) fr in \<open>auto simp: stack_def base_def\<close>)
  ultimately have "stack ?m' (b\<lparr>pos := pos b + int (size1 b + size2 b)\<rparr>) (e # es)"
    using assms(1,2) b by (cases e) (auto simp: stack_def base_def)
  then show ?thesis using w fr by blast
qed

lemma bwd_write_ok:
  assumes "stack m b es" "direction b = BACKWARD" "src m b e" "can_write b"
  shows "\<exists>m'. bwd_write (m, b) = (m', b\<lparr>pos := pos b - int (size1 b + size2 b)\<rparr>)
    \<and> stack m' (b\<lparr>pos := pos b - int (size1 b + size2 b)\<rparr>) (e # es)
    \<and> (\<forall>a. a < pos b - int (size1 b + size2 b) \<or> pos b \<le> a \<longrightarrow> m' a = m a)"
proof -
  let ?p = "pos b - int (size1 b + size2 b)"
  let ?m1 = "memcpy (pos b - int (size2 b)) (write_ptr2 b) (size2 b) m"
  let ?m' = "memcpy ?p (write_ptr1 b) (size1 b) ?m1"
  have b: "pos b \<le> end_ptr b" "start b \<le> ?p"
    using assms by (auto simp: stack_def can_write_def have_space_for_def bwd_have_space_for_def)
  have w: "bwd_write (m, b) = (?m', b\<lparr>pos := ?p\<rparr>)"
  proof (cases "write_ptr2 b = 0")
    case True
    then have "size2 b = 0" using assms(3) by (auto simp: src_def)
    then have "?m1 = m" by simp
    then show ?thesis using True \<open>size2 b = 0\<close> by (simp add: bwd_write_def bwd_write_bytes_def)
  qed (simp add: bwd_write_def bwd_write_bytes_def algebra_simps)
  have "bytes ?m' ?p (size1 b) = fst e"
    using assms(3) b by (auto simp: bytes_memcpy src_def intro!: bytes_memcpy_other [THEN trans])
  moreover have "bytes ?m' (?p + int (size1 b)) (size2 b) = snd e"
    using assms(3) bytes_memcpy [of "pos b - int (size2 b)" "write_ptr2 b" "size2 b" m]
    by (subst bytes_memcpy_other) (auto simp: src_def)
  moreover have fr: "\<forall>a. a < ?p \<or> pos b \<le> a \<longrightarrow> ?m' a = m a" by (auto simp: memcpy_def)
  moreover have "elems_at BACKWARD (size1 b) (size2 b) ?m' (pos b) (end_ptr b) es"
    by (rule elems_at_cong(2) [of _ _ m]) (use assms(1,2) fr in \<open>auto simp: stack_def base_def\<close>)
  ultimately have "stack ?m' (b\<lparr>pos := ?p\<rparr>) (e # es)"
    using assms(1,2) b by (cases e) (auto simp: stack_def base_def)
  then show ?thesis using w fr by blast
qed

lemma elems_size_nonneg: "0 \<le> int (length es) * int (size1 b + size2 b)"
  by simp

lemma elems_size_Suc:
  "int (Suc (length es)) * int (size1 b + size2 b)
     = int (length es) * int (size1 b + size2 b) + int (size1 b + size2 b)"
  by (simp add: algebra_simps)

text \<open>Reading at a position, in both directions.\<close>

lemma read_at_elem:
  assumes "elems_at (direction b) (size1 b) (size2 b) m p (base b) (e # es)"
  shows "\<exists>p' q1 q2. read_at b (p, p1, p2) = (False, p', q1, q2)
    \<and> bytes m q1 (size1 b) = fst e \<and> bytes m q2 (size2 b) = snd e
    \<and> elems_at (direction b) (size1 b) (size2 b) m p' (base b) es"
proof (cases "direction b")
  case FORWARD
  obtain d1 d2 where e: "e = (d1, d2)" by (cases e)
  have r: "elems_at FORWARD (size1 b) (size2 b) m (p - int (size1 b + size2 b)) (start b) es"
    using assms FORWARD e by (simp add: base_def)
  have "fwd_have_data b p (size1 b + size2 b)"
    using elems_at_range(1) [OF r] elems_size_nonneg [of es b] unfolding fwd_have_data_def by linarith
  then have "read_at b (p, p1, p2) = (False, p - int (size1 b + size2 b), p - int (size2 b) - int (size1 b),
      if size2 b \<noteq> 0 then p - int (size2 b) else p2)"
    using FORWARD by (simp add: read_at_def fwd_read_at_def fwd_read_bytes_def Let_def)
  moreover have "bytes m p2 0 = []" by (simp add: bytes_def)
  ultimately show ?thesis using assms FORWARD e r by (auto simp: base_def bytes_def)
next
  case BACKWARD
  obtain d1 d2 where e: "e = (d1, d2)" by (cases e)
  have r: "elems_at BACKWARD (size1 b) (size2 b) m (p + int (size1 b + size2 b)) (end_ptr b) es"
    using assms BACKWARD e by (simp add: base_def)
  have "bwd_have_data b p (size1 b + size2 b)"
    using elems_at_range(2) [OF r] elems_size_nonneg [of es b] unfolding bwd_have_data_def by linarith
  then have "read_at b (p, p1, p2) = (False, p + int (size1 b + size2 b), p,
      if size2 b \<noteq> 0 then p + int (size1 b) else p2)"
    using BACKWARD by (simp add: read_at_def bwd_read_at_def bwd_read_bytes_def Let_def)
  then show ?thesis using assms BACKWARD e r by (auto simp: base_def bytes_def)
qed

lemma read_at_end:
  assumes "0 < size1 b + size2 b"
  shows "read_at b (base b, p1, p2) = (True, base b, p1, p2)"
  using assms by (cases "direction b")
    (auto simp: read_at_def base_def fwd_read_at_def fwd_have_data_def bwd_read_at_def bwd_have_data_def)

text \<open>Reading changes no field but the position and the read pointers.\<close>

lemma read_elem_ok:
  assumes "stack m b (e # es)"
  shows "\<exists>p q1 q2. read_elem b = (False, b\<lparr>pos := p, read_ptr1 := q1, read_ptr2 := q2\<rparr>)
    \<and> bytes m q1 (size1 b) = fst e \<and> bytes m q2 (size2 b) = snd e
    \<and> stack m (b\<lparr>pos := p, read_ptr1 := q1, read_ptr2 := q2\<rparr>) es"
proof -
  obtain p q1 q2 where r: "read_at b (pos b, read_ptr1 b, read_ptr2 b) = (False, p, q1, q2)"
      "bytes m q1 (size1 b) = fst e" "bytes m q2 (size2 b) = snd e"
      "elems_at (direction b) (size1 b) (size2 b) m p (base b) es"
    using read_at_elem [of b m "pos b" e es "read_ptr1 b" "read_ptr2 b"] assms by (auto simp: stack_def)
  obtain d1 d2 where e: "e = (d1, d2)" by (cases e)
  have "start b \<le> p \<and> p \<le> end_ptr b"
  proof (cases "direction b")
    case FORWARD
    have "elems_at FORWARD (size1 b) (size2 b) m (pos b) (start b) (e # es)"
      using assms FORWARD by (simp add: stack_def base_def)
    then have "pos b = start b + int (Suc (length es)) * int (size1 b + size2 b)"
      using elems_at_range(1) by fastforce
    moreover have "p = start b + int (length es) * int (size1 b + size2 b)"
      using r(4) FORWARD elems_at_range(1) by (simp add: base_def)
    ultimately show ?thesis
      using assms elems_size_nonneg [of es b] elems_size_Suc [of es b] unfolding stack_def by linarith
  next
    case BACKWARD
    have "elems_at BACKWARD (size1 b) (size2 b) m (pos b) (end_ptr b) (e # es)"
      using assms BACKWARD by (simp add: stack_def base_def)
    then have "pos b = end_ptr b - int (Suc (length es)) * int (size1 b + size2 b)"
      using elems_at_range(2) by fastforce
    moreover have "p = end_ptr b - int (length es) * int (size1 b + size2 b)"
      using r(4) BACKWARD elems_at_range(2) by (simp add: base_def)
    ultimately show ?thesis
      using assms elems_size_nonneg [of es b] elems_size_Suc [of es b] unfolding stack_def by linarith
  qed
  then have "stack m (b\<lparr>pos := p, read_ptr1 := q1, read_ptr2 := q2\<rparr>) es"
    using r(4) assms by (simp add: stack_def)
  then show ?thesis using r by (auto simp: read_elem_def)
qed

lemma read_elem_end:
  assumes "stack m b []" shows "read_elem b = (True, b)"
proof -
  have "pos b = base b" "0 < size1 b + size2 b" using assms by (auto simp: stack_def)
  then show ?thesis using read_at_end [of b "read_ptr1 b" "read_ptr2 b"] by (simp add: read_elem_def)
qed

lemma write_elem_ok:
  assumes "stack m b es" "src m b e" "can_write b"
  shows "\<exists>m' p. write_elem (m, b) = (m', b\<lparr>pos := p\<rparr>) \<and> stack m' (b\<lparr>pos := p\<rparr>) (e # es)
    \<and> (\<forall>a. a < start b \<or> end_ptr b \<le> a \<longrightarrow> m' a = m a)"
proof (cases "direction b")
  case FORWARD
  have "start b \<le> pos b" "pos b + int (size1 b + size2 b) < end_ptr b"
    using assms(1,3) FORWARD by (auto simp: stack_def can_write_def have_space_for_def fwd_have_space_for_def)
  then show ?thesis using fwd_write_ok [OF assms(1) FORWARD assms(2,3)] FORWARD
    by (fastforce simp: write_elem_def)
next
  case BACKWARD
  have "pos b \<le> end_ptr b" "start b \<le> pos b - int (size1 b + size2 b)"
    using assms(1,3) BACKWARD by (auto simp: stack_def can_write_def have_space_for_def bwd_have_space_for_def)
  then show ?thesis using bwd_write_ok [OF assms(1) BACKWARD assms(2,3)] BACKWARD
    by (fastforce simp: write_elem_def)
qed

section \<open>The contract of a LIFO buffer\<close>

text \<open>The data of a client: it puts an element where the write pointers point and calls write; after
  a successful read it fetches the element through the read pointers.\<close>

definition store_bytes :: "int \<Rightarrow> uchar list \<Rightarrow> memory \<Rightarrow> memory" where
  "store_bytes a ds m = (\<lambda>x. if a \<le> x \<and> x < a + int (length ds) then ds ! nat (x - a) else m x)"

definition push_elem :: "elem \<Rightarrow> memory \<times> Lifo_buffer \<Rightarrow> memory \<times> Lifo_buffer" where
  "push_elem e s =
     (let (m, b) = s
      in write_elem (store_bytes (write_ptr2 b) (snd e) (store_bytes (write_ptr1 b) (fst e) m), b))"

definition pop_elem :: "memory \<times> Lifo_buffer \<Rightarrow> elem option \<times> (memory \<times> Lifo_buffer)" where
  "pop_elem s =
     (let (m, b) = s; (eof, b') = read_elem b
      in (if eof then None
          else Some (bytes m (read_ptr1 b') (size1 b'), bytes m (read_ptr2 b') (size2 b')), (m, b')))"

definition room :: "memory \<times> Lifo_buffer \<Rightarrow> bool" where
  "room s \<longleftrightarrow> can_write (snd s)"

text \<open>The element sizes and the place of the source areas, which do not change.\<close>

definition src_areas :: "Lifo_buffer \<Rightarrow> bool" where
  "src_areas b \<longleftrightarrow>
     (write_ptr1 b + int (size1 b) \<le> start b \<or> end_ptr b \<le> write_ptr1 b)
     \<and> (write_ptr2 b + int (size2 b) \<le> start b \<or> end_ptr b \<le> write_ptr2 b)
     \<and> (write_ptr1 b + int (size1 b) \<le> write_ptr2 b \<or> write_ptr2 b + int (size2 b) \<le> write_ptr1 b)
     \<and> (size2 b \<noteq> 0 \<longrightarrow> write_ptr2 b \<noteq> 0)"

definition lifo :: "nat \<Rightarrow> nat \<Rightarrow> memory \<times> Lifo_buffer \<Rightarrow> elem list \<Rightarrow> bool" where
  "lifo s1 s2 s es \<longleftrightarrow> stack (fst s) (snd s) es \<and> src_areas (snd s)
     \<and> size1 (snd s) = s1 \<and> size2 (snd s) = s2"

lemma bytes_store: "length ds = n \<Longrightarrow> bytes (store_bytes a ds m) a n = ds"
  by (auto simp: bytes_def store_bytes_def intro: nth_equalityI)

lemma bytes_store_other:
  "a + int n \<le> x \<or> x + int (length ds) \<le> a \<Longrightarrow> bytes (store_bytes x ds m) a n = bytes m a n"
  by (rule bytes_cong) (auto simp: store_bytes_def)

lemma stack_outside:
  assumes "stack m b es" "\<And>a. start b \<le> a \<Longrightarrow> a < end_ptr b \<Longrightarrow> m' a = m a"
  shows "stack m' b es"
proof (cases "direction b")
  case FORWARD
  have "elems_at FORWARD (size1 b) (size2 b) m' (pos b) (start b) es"
    by (rule elems_at_cong(1) [of _ _ m]) (use assms FORWARD in \<open>auto simp: stack_def base_def\<close>)
  then show ?thesis using assms(1) FORWARD by (simp add: stack_def base_def)
next
  case BACKWARD
  have "elems_at BACKWARD (size1 b) (size2 b) m' (pos b) (end_ptr b) es"
    by (rule elems_at_cong(2) [of _ _ m]) (use assms BACKWARD in \<open>auto simp: stack_def base_def\<close>)
  then show ?thesis using assms(1) BACKWARD by (simp add: stack_def base_def)
qed

lemma push_elem_ok:
  assumes "lifo s1 s2 s es" "room s" "length (fst e) = s1" "length (snd e) = s2"
  shows "lifo s1 s2 (push_elem e s) (e # es)"
proof -
  obtain m b where s: "s = (m, b)" by (cases s)
  have h: "stack m b es" "src_areas b" "size1 b = s1" "size2 b = s2" "can_write b"
    using assms(1,2) s by (simp_all add: lifo_def room_def)
  let ?m = "store_bytes (write_ptr2 b) (snd e) (store_bytes (write_ptr1 b) (fst e) m)"
  have "src ?m b e"
    using h(2-4) assms(3,4) by (auto simp: src_def src_areas_def bytes_store bytes_store_other)
  moreover have "stack ?m b es"
    by (rule stack_outside [OF h(1)]) (use h(2-4) assms(3,4) in \<open>auto simp: store_bytes_def src_areas_def\<close>)
  ultimately obtain m' p where "write_elem (?m, b) = (m', b\<lparr>pos := p\<rparr>)" "stack m' (b\<lparr>pos := p\<rparr>) (e # es)"
    using write_elem_ok [of ?m b es e] h(5) by blast
  then show ?thesis using h(2-4) s by (simp add: lifo_def push_elem_def src_areas_def)
qed

lemma pop_elem_ok:
  assumes "lifo s1 s2 s (e # es)"
  shows "\<exists>s'. pop_elem s = (Some e, s') \<and> lifo s1 s2 s' es"
proof -
  obtain m b where s: "s = (m, b)" by (cases s)
  have h: "stack m b (e # es)" "src_areas b" "size1 b = s1" "size2 b = s2" using assms s by (simp_all add: lifo_def)
  obtain p q1 q2 where r: "read_elem b = (False, b\<lparr>pos := p, read_ptr1 := q1, read_ptr2 := q2\<rparr>)"
      "bytes m q1 (size1 b) = fst e" "bytes m q2 (size2 b) = snd e"
      "stack m (b\<lparr>pos := p, read_ptr1 := q1, read_ptr2 := q2\<rparr>) es"
    using read_elem_ok [OF h(1)] by blast
  then show ?thesis using h s by (simp add: pop_elem_def lifo_def src_areas_def)
qed

lemma pop_elem_end: "lifo s1 s2 s [] \<Longrightarrow> pop_elem s = (None, s)"
  using read_elem_end [of "fst s" "snd s"] by (cases s) (simp add: pop_elem_def lifo_def)

text \<open>Writing a sequence of elements, each after the check for room, and reading a number of times.\<close>

fun push_seq :: "('s \<Rightarrow> bool) \<Rightarrow> ('e \<Rightarrow> 's \<Rightarrow> 's) \<Rightarrow> 'e list \<Rightarrow> 's \<Rightarrow> 's option" where
  "push_seq rm push [] s = Some s"
| "push_seq rm push (e # es) s = (if rm s then push_seq rm push es (push e s) else None)"

fun pop_seq :: "('s \<Rightarrow> 'e option \<times> 's) \<Rightarrow> nat \<Rightarrow> 's \<Rightarrow> 'e list \<times> 's" where
  "pop_seq get 0 s = ([], s)"
| "pop_seq get (Suc k) s =
     (case get s of (None, s') \<Rightarrow> ([], s')
      | (Some e, s') \<Rightarrow> case pop_seq get k s' of (es, s'') \<Rightarrow> (e # es, s''))"

locale lifo_queue =
  fixes rep :: "'s \<Rightarrow> 'e list \<Rightarrow> bool" and rm :: "'s \<Rightarrow> bool" and valid :: "'e \<Rightarrow> bool"
    and push :: "'e \<Rightarrow> 's \<Rightarrow> 's" and get :: "'s \<Rightarrow> 'e option \<times> 's"
  assumes push: "rep s es \<Longrightarrow> rm s \<Longrightarrow> valid e \<Longrightarrow> rep (push e s) (e # es)"
    and get_top: "rep s (e # es) \<Longrightarrow> \<exists>s'. get s = (Some e, s') \<and> rep s' es"
    and get_end: "rep s [] \<Longrightarrow> get s = (None, s)"
begin

lemma push_seq_rep:
  "rep s es \<Longrightarrow> \<forall>e\<in>set xs. valid e \<Longrightarrow> push_seq rm push xs s = Some s' \<Longrightarrow> rep s' (rev xs @ es)"
  by (induction xs arbitrary: s es) (fastforce split: if_splits dest: push)+

lemma pop_seq_rep:
  "rep s es \<Longrightarrow> length es \<le> k \<Longrightarrow> \<exists>s'. pop_seq get k s = (es, s') \<and> rep s' []"
proof (induction k arbitrary: s es)
  case (Suc k)
  show ?case
  proof (cases es)
    case Nil
    then show ?thesis using Suc.prems get_end [of s] by simp
  next
    case (Cons e es')
    then obtain s' where "get s = (Some e, s')" "rep s' es'" using get_top Suc.prems by blast
    then show ?thesis using Suc.IH [of s' es'] Suc.prems Cons by auto
  qed
qed simp

lemma push_then_pop:
  assumes "rep s []" "\<forall>e\<in>set xs. valid e" "push_seq rm push xs s = Some s'" "length xs \<le> k"
  shows "fst (pop_seq get k s') = rev xs"
  using push_seq_rep [OF assms(1-3)] pop_seq_rep [of s' "rev xs" k] assms(4) by auto

end

interpretation lb: lifo_queue "lifo s1 s2" room "\<lambda>e. length (fst e) = s1 \<and> length (snd e) = s2"
  push_elem pop_elem for s1 s2
  by unfold_locales (blast intro: push_elem_ok pop_elem_ok pop_elem_end)+

section \<open>Properties\<close>

text \<open>Reading all elements through an iterator.\<close>

fun iterate :: "nat \<Rightarrow> memory \<Rightarrow> Lifo_buffer \<Rightarrow> Lifo_buffer_iterator \<Rightarrow> elem list option" where
  "iterate 0 m b it = None"
| "iterate (Suc fuel) m b it =
     (case it_read b it of (eof, it') \<Rightarrow>
        if eof then Some []
        else map_option (Cons (bytes m (it_read_ptr1 it') (size1 b), bytes m (it_read_ptr2 it') (size2 b)))
               (iterate fuel m b it'))"

lemma iterate_elems:
  assumes "elems_at (direction b) (size1 b) (size2 b) m (it_pos it) (base b) es" "0 < size1 b + size2 b"
    "length es < fuel"
  shows "iterate fuel m b it = Some es"
  using assms
proof (induction es arbitrary: it fuel)
  case Nil
  then obtain f where "fuel = Suc f" by (cases fuel) auto
  then show ?case using Nil read_at_end [OF Nil(2), of "it_read_ptr1 it" "it_read_ptr2 it"]
    by (simp add: it_read_def)
next
  case (Cons e es)
  then obtain f where f: "fuel = Suc f" "length es < f" by (cases fuel) auto
  obtain p q1 q2 where r: "read_at b (it_pos it, it_read_ptr1 it, it_read_ptr2 it) = (False, p, q1, q2)"
      "bytes m q1 (size1 b) = fst e" "bytes m q2 (size2 b) = snd e"
      "elems_at (direction b) (size1 b) (size2 b) m p (base b) es"
    using read_at_elem [OF Cons.prems(1), of "it_read_ptr1 it" "it_read_ptr2 it"] by blast
  then show ?case
    using Cons.IH [of "it\<lparr>it_pos := p, it_read_ptr1 := q1, it_read_ptr2 := q2\<rparr>" f] Cons.prems(2) f
    by (simp add: it_read_def)
qed

text \<open>A forward buffer of 16 bytes at address 100 for elements of one and two bytes, written from
  addresses 10 and 20.\<close>

definition demo_buffer :: "enum_direction \<Rightarrow> Lifo_buffer" where
  "demo_buffer d = set_buffer_space 100 116 (setup_writing 1 2
     \<lparr>direction = d, size1 = 0, size2 = 0, write_ptr1 = 10, write_ptr2 = 20, read_ptr1 = 0,
      read_ptr2 = 0, start = 0, end_ptr = 0, pos = 0\<rparr>)"

lemma demo_buffer_lifo: "lifo 1 2 (m, demo_buffer d) []"
  by (cases d) (simp_all add: demo_buffer_def lifo_def stack_def src_areas_def set_buffer_space_def
      setup_writing_def reset_def fwd_reset_def bwd_reset_def base_def)

text \<open>C33. In both directions the buffer is last-in-first-out: after any sequence of writes, each made
  when the buffer reported room, reading returns the elements in reverse order, byte for byte and
  in both parts, and then reports the end.\<close>

theorem lifo_buffer_last_in_first_out:
  assumes "lifo s1 s2 s []" "\<forall>e\<in>set xs. length (fst e) = s1 \<and> length (snd e) = s2"
    "push_seq room push_elem xs s = Some s'" "length xs \<le> k"
  shows "fst (pop_seq pop_elem k s') = rev xs"
  by (rule lb.push_then_pop [OF assms])

theorem lifo_buffer_last_in_first_out_witness:
  "\<exists>s'. push_seq room push_elem [([1], [2, 3]), ([4], [5, 6])] (\<lambda>_. 0, demo_buffer BACKWARD) = Some s'
     \<and> fst (pop_seq pop_elem 9 s') = [([4], [5, 6]), ([1], [2, 3])]"
proof -
  let ?xs = "[([1], [2, 3]), ([4], [5, 6])] :: elem list"
  obtain s' where s': "push_seq room push_elem ?xs (\<lambda>_. 0, demo_buffer BACKWARD) = Some s'"
    by (simp add: room_def can_write_def have_space_for_def bwd_have_space_for_def push_elem_def
        write_elem_def bwd_write_def bwd_write_bytes_def demo_buffer_def set_buffer_space_def
        setup_writing_def reset_def bwd_reset_def Let_def)
  have "fst (pop_seq pop_elem 9 s') = rev ?xs"
    by (rule lifo_buffer_last_in_first_out [OF demo_buffer_lifo _ s']) simp_all
  then show ?thesis using s' by (intro exI [of _ s']) simp
qed

text \<open>A write changes no byte outside the space of the buffer, and walking the buffer with an
  iterator ends, returns the same elements as reading would, from the last written to the first, and
  leaves the buffer as it is.\<close>

theorem lifo_buffer_write_confined_iterate:
  assumes "stack m b es" "src m b e" "can_write b" "length es + 1 < fuel"
  shows "\<exists>m' b'. write_elem (m, b) = (m', b')
    \<and> (\<forall>a. a < start b \<or> end_ptr b \<le> a \<longrightarrow> m' a = m a)
    \<and> iterate fuel m' b' (it_init b' it) = Some (e # es)"
proof -
  obtain m' p where w: "write_elem (m, b) = (m', b\<lparr>pos := p\<rparr>)" "stack m' (b\<lparr>pos := p\<rparr>) (e # es)"
      "\<forall>a. a < start b \<or> end_ptr b \<le> a \<longrightarrow> m' a = m a"
    using write_elem_ok [OF assms(1-3)] by blast
  have "iterate fuel m' (b\<lparr>pos := p\<rparr>) (it_init (b\<lparr>pos := p\<rparr>) it) = Some (e # es)"
    using w(2) assms(4) by (intro iterate_elems) (simp_all add: stack_def it_init_def)
  then show ?thesis using w by auto
qed

theorem lifo_buffer_write_confined_iterate_witness:
  "\<exists>m' b'. write_elem (\<lambda>_. 0, demo_buffer FORWARD) = (m', b') \<and> m' 116 = 0"
proof -
  have "stack (\<lambda>_. 0) (demo_buffer FORWARD) []" using demo_buffer_lifo [of "\<lambda>_. 0" FORWARD] by (simp add: lifo_def)
  moreover have "src (\<lambda>_. 0) (demo_buffer FORWARD) ([0], [0, 0])" "can_write (demo_buffer FORWARD)"
      "end_ptr (demo_buffer FORWARD) = 116"
    by (simp_all add: src_def demo_buffer_def set_buffer_space_def setup_writing_def reset_def fwd_reset_def
        bytes_def can_write_def have_space_for_def fwd_have_space_for_def numeral_2_eq_2)
  ultimately show ?thesis
    using lifo_buffer_write_confined_iterate [of "\<lambda>_. 0" "demo_buffer FORWARD" "[]" "([0], [0, 0])" 2
      "\<lparr>it_pos = 0, it_read_ptr1 = 0, it_read_ptr2 = 0\<rparr>"] by auto
qed

text \<open>Handing space from a backward buffer to the forward buffer in front of it keeps both stacks:
  giving back the unused space and growing by it leave the elements of each buffer as they are, and the
  two spaces are adjacent and disjoint again.\<close>

theorem lifo_buffer_space_transfer:
  assumes "stack m f es" "direction f = FORWARD" "stack m b ds" "direction b = BACKWARD"
    "end_ptr f = start b" "bwd_remove_unused_space b = ((us, ue), b')"
  shows "stack m (fwd_grow us ue f) es \<and> stack m b' ds \<and> end_ptr (fwd_grow us ue f) = start b'
    \<and> us = end_ptr f"
  using assms
  by (auto simp: stack_def base_def bwd_remove_unused_space_def fwd_grow_def split: enum_direction.splits)

theorem lifo_buffer_space_transfer_witness:
  "stack (\<lambda>_. 0) (fwd_grow 100 116 ((demo_buffer FORWARD)\<lparr>start := 90, end_ptr := 100, pos := 90\<rparr>)) []"
proof -
  let ?f = "(demo_buffer FORWARD)\<lparr>start := 90, end_ptr := 100, pos := 90\<rparr>"
  have "stack (\<lambda>_. 0) ?f []" "direction ?f = FORWARD" "stack (\<lambda>_. 0) (demo_buffer BACKWARD) []"
      "direction (demo_buffer BACKWARD) = BACKWARD" "end_ptr ?f = start (demo_buffer BACKWARD)"
      "fst (bwd_remove_unused_space (demo_buffer BACKWARD)) = (100, 116)"
    by (simp_all add: demo_buffer_def set_buffer_space_def setup_writing_def reset_def fwd_reset_def
        bwd_reset_def stack_def base_def bwd_remove_unused_space_def)
  then show ?thesis
    using lifo_buffer_space_transfer [of "\<lambda>_. 0" ?f "[]" "demo_buffer BACKWARD" "[]" 100 116]
    by (metis prod.collapse)
qed

end
