(* ===== verification/Arrays.thy ===== *)
theory Arrays
  imports Prelude "HOL-Library.Multiset" "HOL-Library.Sublist"
begin

text \<open>
  The array classes of the server: \<^verbatim>\<open>Bounds_checked_array\<close> of \<^verbatim>\<open>sql_array.h\<close> and \<^verbatim>\<open>span\<close> of \<^verbatim>\<open>span.h\<close>,
  views of memory they do not own, and \<^verbatim>\<open>Mem_root_array\<close> of \<^verbatim>\<open>mem_root_array.h\<close>, a vector that allocates
  from a memory root. Element memory maps element addresses to values. Whether the n-th allocation
  of a number of bytes succeeds is a parameter.
\<close>

section \<open>Bounds\_checked\_array\<close>

record Bounds_checked_array =
  bca_array :: addr
  bca_size :: nat

definition bca_reset :: Bounds_checked_array where
  "bca_reset = \<lparr>bca_array = 0, bca_size = 0\<rparr>"

definition bca_reset_to :: "addr \<Rightarrow> nat \<Rightarrow> Bounds_checked_array" where
  "bca_reset_to array_arg size_arg = \<lparr>bca_array = array_arg, bca_size = size_arg\<rparr>"

definition bca_resize :: "nat \<Rightarrow> Bounds_checked_array \<Rightarrow> Bounds_checked_array" where
  "bca_resize new_size a = a\<lparr>bca_size := new_size\<rparr>"

definition bca_at :: "(addr \<Rightarrow> 'a) \<Rightarrow> Bounds_checked_array \<Rightarrow> nat \<Rightarrow> 'a" where
  "bca_at m a n = m (bca_array a + n)"

definition bca_is_null :: "Bounds_checked_array \<Rightarrow> bool" where
  "bca_is_null a \<longleftrightarrow> bca_array a = 0"

definition bca_pop_front :: "Bounds_checked_array \<Rightarrow> Bounds_checked_array" where
  "bca_pop_front a = a\<lparr>bca_array := bca_array a + 1, bca_size := bca_size a - 1\<rparr>"

definition bca_begin :: "Bounds_checked_array \<Rightarrow> addr" where
  "bca_begin a = bca_array a"

definition bca_end :: "Bounds_checked_array \<Rightarrow> addr" where
  "bca_end a = bca_array a + bca_size a"

definition bca_eq :: "Bounds_checked_array \<Rightarrow> Bounds_checked_array \<Rightarrow> bool" where
  "bca_eq a b \<longleftrightarrow> bca_array a = bca_array b \<and> bca_size a = bca_size b"

section \<open>span\<close>

record span =
  span_data :: addr
  span_size :: nat

definition span_of :: "addr \<Rightarrow> nat \<Rightarrow> span" where
  "span_of ptr cnt = \<lparr>span_data = ptr, span_size = cnt\<rparr>"

definition span_range :: "addr \<Rightarrow> addr \<Rightarrow> span" where
  "span_range p q = \<lparr>span_data = p, span_size = q - p\<rparr>"

definition span_first :: "span \<Rightarrow> nat \<Rightarrow> span" where
  "span_first s cnt = span_of (span_data s) 1"

definition span_last :: "span \<Rightarrow> nat \<Rightarrow> span" where
  "span_last s cnt = span_of (span_data s + span_size s - 1) 1"

definition subspan :: "span \<Rightarrow> nat \<Rightarrow> nat \<Rightarrow> span" where
  "subspan s offset cnt = span_of (span_data s + offset) cnt"

definition span_empty :: "span \<Rightarrow> bool" where
  "span_empty s \<longleftrightarrow> span_size s = 0"

definition span_at :: "(addr \<Rightarrow> 'a) \<Rightarrow> span \<Rightarrow> nat \<Rightarrow> 'a" where
  "span_at m s idx = m (span_data s + idx)"

definition span_front :: "(addr \<Rightarrow> 'a) \<Rightarrow> span \<Rightarrow> 'a" where
  "span_front m s = m (span_data s)"

definition span_back :: "(addr \<Rightarrow> 'a) \<Rightarrow> span \<Rightarrow> 'a" where
  "span_back m s = m (span_data s + (span_size s - 1))"

definition span_begin :: "span \<Rightarrow> addr" where
  "span_begin s = span_data s"

definition span_end :: "span \<Rightarrow> addr" where
  "span_end s = span_data s + span_size s"

section \<open>Mem\_root\_array\<close>

text \<open>
  The slots of the current block: \<^const>\<open>None\<close> is raw memory. \<^verbatim>\<open>m_root\<close> counts the allocations made from
  the memory root; the lists of built and destroyed elements record the constructor and
  destructor calls. An operation returns \<^const>\<open>None\<close> when it would touch a slot outside the block.
\<close>

record 'a Mem_root_array =
  m_root :: nat
  m_array :: "'a option list"
  m_size :: nat
  m_capacity :: nat
  built :: "'a list"
  destroyed :: "'a list"

text \<open>What is fixed for an array type: the element size, whether destructors are trivial, and the
  outcome of the allocations.\<close>

record env =
  element_size :: nat
  has_trivial_destructor :: bool
  alloc_root :: "nat \<Rightarrow> nat \<Rightarrow> bool"

definition mra_new :: "'a Mem_root_array" where
  "mra_new = \<lparr>m_root = 0, m_array = [], m_size = 0, m_capacity = 0, built = [], destroyed = []\<rparr>"

definition mra_at :: "'a Mem_root_array \<Rightarrow> nat \<Rightarrow> 'a option" where
  "mra_at a n = (if n < length (m_array a) then m_array a ! n else None)"

definition mra_empty :: "'a Mem_root_array \<Rightarrow> bool" where
  "mra_empty a \<longleftrightarrow> m_size a = 0"

text \<open>Constructing and destroying the element in a slot.\<close>

definition construct :: "nat \<Rightarrow> 'a \<Rightarrow> 'a Mem_root_array \<Rightarrow> 'a Mem_root_array option" where
  "construct i x a =
     (if i < length (m_array a)
      then Some (a\<lparr>m_array := (m_array a)[i := Some x], built := x # built a\<rparr>) else None)"

definition destroy :: "nat \<Rightarrow> 'a Mem_root_array \<Rightarrow> 'a Mem_root_array option" where
  "destroy i a =
     (case mra_at a i of None \<Rightarrow> None
      | Some x \<Rightarrow> Some (a\<lparr>m_array := (m_array a)[i := None], destroyed := x # destroyed a\<rparr>))"

fun destroy_range :: "nat \<Rightarrow> nat \<Rightarrow> 'a Mem_root_array \<Rightarrow> 'a Mem_root_array option" where
  "destroy_range ix 0 a = Some a"
| "destroy_range ix (Suc k) a =
     (case destroy ix a of None \<Rightarrow> None | Some a' \<Rightarrow> destroy_range (Suc ix) k a')"

definition chop :: "env \<Rightarrow> nat \<Rightarrow> 'a Mem_root_array \<Rightarrow> 'a Mem_root_array option" where
  "chop E p a =
     (case (if \<not> has_trivial_destructor E then destroy_range p (m_size a - p) a else Some a) of
        None \<Rightarrow> None | Some a' \<Rightarrow> Some (a'\<lparr>m_size := p\<rparr>))"

definition mra_clear :: "env \<Rightarrow> 'a Mem_root_array \<Rightarrow> 'a Mem_root_array option" where
  "mra_clear E a = (if \<not> mra_empty a then chop E 0 a else Some a)"

text \<open>The copy loop of \<^verbatim>\<open>reserve\<close> from the old slots into the new block.\<close>

fun copy_loop :: "env \<Rightarrow> 'a option list \<Rightarrow> nat \<Rightarrow> nat \<Rightarrow> 'a Mem_root_array \<Rightarrow> 'a Mem_root_array option" where
  "copy_loop E old ix 0 a = Some a"
| "copy_loop E old ix (Suc k) a =
     (case (if ix < length old then old ! ix else None) of None \<Rightarrow> None
      | Some x \<Rightarrow>
          case construct ix x a of None \<Rightarrow> None
          | Some a' \<Rightarrow>
              copy_loop E old (Suc ix) k
                (if has_trivial_destructor E then a' else a'\<lparr>destroyed := x # destroyed a'\<rparr>))"

definition reserve :: "env \<Rightarrow> nat \<Rightarrow> 'a Mem_root_array \<Rightarrow> (bool \<times> 'a Mem_root_array) option" where
  "reserve E n a =
     (if n \<le> m_capacity a then Some (False, a)
      else let bytes = n * element_size E mod 2 ^ 64;
               ok = alloc_root E (m_root a) bytes;
               a = a\<lparr>m_root := m_root a + 1\<rparr>
           in if \<not> ok then Some (True, a)
              else case copy_loop E (m_array a) 0 (m_size a)
                     (a\<lparr>m_array := replicate (bytes div element_size E) None\<rparr>) of
                     None \<Rightarrow> None
                   | Some a' \<Rightarrow> Some (False, a'\<lparr>m_capacity := n\<rparr>))"

definition mra_push_back :: "env \<Rightarrow> 'a \<Rightarrow> 'a Mem_root_array \<Rightarrow> (bool \<times> 'a Mem_root_array) option" where
  "mra_push_back E element a =
     (case (if m_capacity a = 0 then reserve E 20 a else Some (False, a)) of None \<Rightarrow> None
      | Some (fail, a) \<Rightarrow>
        if fail then Some (True, a)
        else case (if m_size a = m_capacity a then reserve E (m_capacity a * 2 mod 2 ^ 64) a
                   else Some (False, a)) of None \<Rightarrow> None
        | Some (fail, a) \<Rightarrow>
          if fail then Some (True, a)
          else case construct (m_size a) element (a\<lparr>m_size := m_size a + 1\<rparr>) of None \<Rightarrow> None
            | Some a' \<Rightarrow> Some (False, a'))"

definition mra_pop_back :: "env \<Rightarrow> 'a Mem_root_array \<Rightarrow> 'a Mem_root_array option" where
  "mra_pop_back E a =
     (case (if \<not> has_trivial_destructor E then destroy (m_size a - 1) a else Some a) of
        None \<Rightarrow> None | Some a' \<Rightarrow> Some (a'\<lparr>m_size := m_size a' - 1\<rparr>))"

text \<open>The loops of \<^verbatim>\<open>resize\<close>, which ignore the result of \<^verbatim>\<open>push_back\<close>; \<^const>\<open>None\<close> also when they do not end.\<close>

partial_function (option) grow_loop :: "env \<Rightarrow> nat \<Rightarrow> 'a \<Rightarrow> 'a Mem_root_array \<Rightarrow> 'a Mem_root_array option" where
  "grow_loop E n val a =
     (if n \<noteq> m_size a
      then case mra_push_back E val a of None \<Rightarrow> None | Some (_, a') \<Rightarrow> grow_loop E n val a'
      else Some a)"

partial_function (option) shrink_loop :: "env \<Rightarrow> nat \<Rightarrow> 'a Mem_root_array \<Rightarrow> 'a Mem_root_array option" where
  "shrink_loop E n a =
     (if n \<noteq> m_size a
      then case mra_pop_back E a of None \<Rightarrow> None | Some a' \<Rightarrow> shrink_loop E n a'
      else Some a)"

definition mra_resize :: "env \<Rightarrow> nat \<Rightarrow> 'a \<Rightarrow> 'a Mem_root_array \<Rightarrow> 'a Mem_root_array option" where
  "mra_resize E n val a =
     (if n = m_size a then Some a
      else if n > m_size a then
        case reserve E n a of None \<Rightarrow> None
        | Some (fail, a) \<Rightarrow> if \<not> fail then grow_loop E n val a else Some a
      else case (if \<not> has_trivial_destructor E then shrink_loop E n a else Some a) of
             None \<Rightarrow> None | Some a' \<Rightarrow> Some (a'\<lparr>m_size := n\<rparr>))"

section \<open>Views denote sequences\<close>

definition bca_elems :: "(addr \<Rightarrow> 'a) \<Rightarrow> Bounds_checked_array \<Rightarrow> 'a list" where
  "bca_elems m a = map m [bca_begin a..<bca_end a]"

definition span_elems :: "(addr \<Rightarrow> 'a) \<Rightarrow> span \<Rightarrow> 'a list" where
  "span_elems m s = map m [span_begin s..<span_end s]"

lemma map_upt_take: "k \<le> n \<Longrightarrow> map m [a..<a + k] = take k (map m [a..<a + n])"
  by (simp add: take_map take_upt)

lemma map_upt_drop: "map m [a + k..<a + n] = drop k (map m [a..<a + n])"
  by (simp add: drop_map drop_upt)

lemmas bca_defs = bca_elems_def bca_begin_def bca_end_def bca_at_def bca_resize_def bca_pop_front_def
  bca_eq_def bca_reset_def bca_reset_to_def bca_is_null_def

lemmas span_defs = span_elems_def span_begin_def span_end_def span_of_def span_range_def span_first_def
  span_last_def subspan_def span_at_def span_front_def span_back_def span_empty_def

lemma bca_elems_resize: "k \<le> bca_size a \<Longrightarrow> bca_elems m (bca_resize k a) = take k (bca_elems m a)"
  by (simp add: bca_defs map_upt_take)

lemma bca_elems_pop_front: "0 < bca_size a \<Longrightarrow> bca_elems m (bca_pop_front a) = tl (bca_elems m a)"
  using map_upt_drop [of m "bca_array a" 1 "bca_size a"] by (simp add: bca_defs drop_Suc)

text \<open>A bounds-checked array denotes the elements of a stretch of memory: indexing within the
  bound reads that element, setting a smaller bound keeps a prefix, popping the front keeps the
  tail, the pointer range has as many elements as the size, and two arrays that compare equal denote
  the same elements in every memory.\<close>

theorem bounds_checked_array_view:
  assumes "n < bca_size a" and "k \<le> bca_size a"
  shows "length (bca_elems m a) = bca_size a \<and> bca_at m a n = bca_elems m a ! n
       \<and> bca_elems m (bca_resize k a) = take k (bca_elems m a)
       \<and> bca_elems m (bca_pop_front a) = tl (bca_elems m a)
       \<and> (bca_eq a b \<longleftrightarrow> a = b) \<and> bca_elems m bca_reset = []"
proof -
  have "bca_eq a b \<longleftrightarrow> a = b" by (cases a; cases b) (simp add: bca_defs)
  moreover have "bca_at m a n = bca_elems m a ! n" "length (bca_elems m a) = bca_size a"
    "bca_elems m bca_reset = []"
    using assms(1) by (simp_all add: bca_defs)
  ultimately show ?thesis using assms bca_elems_resize bca_elems_pop_front by (metis gr_zeroI less_zeroE)
qed

theorem bounds_checked_array_view_witness:
  "bca_elems (\<lambda>i. i) (bca_resize 1 (bca_reset_to 7 3)) = [7]
   \<and> bca_elems (\<lambda>i. i) (bca_pop_front (bca_reset_to 7 3)) = [8, 9]"
  using bounds_checked_array_view [of 2 "bca_reset_to 7 3" 1 "\<lambda>i. i" bca_reset]
  by (simp add: bca_elems_def bca_begin_def bca_end_def bca_reset_to_def upt_rec)

text \<open>A span denotes the elements of a stretch of memory. Element access, front and back agree with
  the list, \<^verbatim>\<open>subspan\<close> is the sublist at the offset with the given count, and a span built from two
  pointers covers the elements between them; but \<^verbatim>\<open>first\<close> and \<^verbatim>\<open>last\<close> ignore their count and always
  return one element.\<close>

theorem span_view:
  assumes "i < span_size s" and "offset + cnt \<le> span_size s"
  shows "span_at m s i = span_elems m s ! i \<and> span_front m s = hd (span_elems m s)
       \<and> span_back m s = List.last (span_elems m s)
       \<and> span_elems m (subspan s offset cnt) = take cnt (drop offset (span_elems m s))
       \<and> span_elems m (span_range (span_begin s) (span_end s)) = span_elems m s
       \<and> span_elems m (span_first s cnt) = take 1 (span_elems m s)
       \<and> span_elems m (span_last s cnt) = drop (span_size s - 1) (span_elems m s)"
proof -
  let ?d = "span_data s" and ?n = "span_size s"
  have pos: "0 < ?n" using assms(1) by simp
  have len: "length (span_elems m s) = ?n" by (simp add: span_defs)
  have nth: "span_elems m s ! j = m (?d + j)" if "j < ?n" for j
    using that by (simp add: span_defs)
  have "span_elems m (subspan s offset cnt) = take cnt (drop offset (span_elems m s))"
  proof -
    have "span_elems m (subspan s offset cnt) = take cnt (map m [?d + offset..<?d + ?n])"
      using assms(2) map_upt_take [of cnt "?n - offset" m "?d + offset"] by (simp add: span_defs)
    then show ?thesis by (simp add: map_upt_drop span_elems_def span_begin_def span_end_def)
  qed
  moreover have "span_front m s = hd (span_elems m s)" "span_back m s = List.last (span_elems m s)"
    using pos len nth [of 0] nth [of "?n - 1"]
    by (simp_all add: hd_conv_nth last_conv_nth span_front_def span_back_def flip: length_0_conv)
  moreover have "span_elems m (span_range (span_begin s) (span_end s)) = span_elems m s"
    by (simp add: span_defs)
  moreover have "span_elems m (span_first s cnt) = take 1 (span_elems m s)"
    using pos map_upt_take [of 1 ?n m ?d] by (simp add: span_defs)
  moreover have "span_elems m (span_last s cnt) = drop (?n - 1) (span_elems m s)"
    using pos map_upt_drop [of m ?d "?n - 1" ?n] by (simp add: span_defs)
  ultimately show ?thesis using nth [OF assms(1)] by (simp add: span_at_def)
qed

theorem span_view_witness:
  "span_elems (\<lambda>i. i) (subspan (span_of 5 4) 1 2) = [6, 7] \<and> span_elems (\<lambda>i. i) (span_first (span_of 5 4) 2) = [5]"
  using span_view [of 3 "span_of 5 4" 1 2 "\<lambda>i. i"]
  by (simp add: span_elems_def span_begin_def span_end_def span_of_def upt_rec)

section \<open>Mem\_root\_array holds a vector\<close>

definition fits :: "env \<Rightarrow> nat \<Rightarrow> bool" where
  "fits E n \<longleftrightarrow> 0 < element_size E \<and> n * element_size E < 2 ^ 64"

definition balanced :: "env \<Rightarrow> 'a Mem_root_array \<Rightarrow> 'a multiset \<Rightarrow> bool" where
  "balanced E a M \<longleftrightarrow> \<not> has_trivial_destructor E \<longrightarrow> mset (built a) = mset (destroyed a) + M"

definition mra_holds :: "env \<Rightarrow> 'a Mem_root_array \<Rightarrow> 'a list \<Rightarrow> bool" where
  "mra_holds E a xs \<longleftrightarrow> length (m_array a) = m_capacity a \<and> fits E (m_capacity a)
     \<and> m_size a = length xs \<and> length xs \<le> m_capacity a
     \<and> take (length xs) (m_array a) = map Some xs \<and> balanced E a (mset xs)"

lemma fits_less: "fits E n \<Longrightarrow> n < 2 ^ 64"
proof -
  assume "fits E n"
  then have "n * 1 \<le> n * element_size E" "n * element_size E < 2 ^ 64"
    using mult_le_mono2 [of 1 "element_size E" n] by (simp_all add: fits_def)
  then show ?thesis by linarith
qed

lemma mra_holds_new: "0 < element_size E \<Longrightarrow> mra_holds E mra_new []"
  by (simp add: mra_holds_def mra_new_def fits_def balanced_def)

lemma mra_holds_at:
  assumes "mra_holds E a xs" and "i < length xs"
  shows "mra_at a i = Some (xs ! i)"
proof -
  have "take (length xs) (m_array a) ! i = map Some xs ! i" using assms by (simp add: mra_holds_def)
  then show ?thesis using assms by (auto simp: mra_holds_def mra_at_def)
qed

lemma mra_holds_take:
  assumes "mra_holds E a xs" and "p \<le> length xs"
  shows "take p (m_array a) = map Some (take p xs)"
proof -
  have "take p (m_array a) = take p (take (length xs) (m_array a))" using assms(2) by (simp add: min_def)
  also have "\<dots> = map Some (take p xs)" using assms(1) by (simp add: mra_holds_def take_map)
  finally show ?thesis .
qed

text \<open>The elements destroyed by the loop of \<^verbatim>\<open>chop\<close> are those of the range.\<close>

lemma destroy_range_correct:
  assumes "\<And>i. i < length ys \<Longrightarrow> mra_at a (ix + i) = Some (ys ! i)"
  shows "\<exists>l. destroy_range ix (length ys) a = Some (a\<lparr>m_array := l, destroyed := rev ys @ destroyed a\<rparr>)
           \<and> length l = length (m_array a) \<and> take ix l = take ix (m_array a)"
  using assms
proof (induction ys arbitrary: ix a)
  case Nil
  show ?case by (rule exI [of _ "m_array a"]) simp
next
  case (Cons y ys)
  let ?a = "a\<lparr>m_array := (m_array a)[ix := None], destroyed := y # destroyed a\<rparr>"
  have y: "mra_at a ix = Some y" using Cons.prems [of 0] by simp
  have "mra_at ?a (Suc ix + i) = Some (ys ! i)" if "i < length ys" for i
    using Cons.prems [of "Suc i"] that by (simp add: mra_at_def split: if_splits)
  from Cons.IH [OF this] obtain l where
    l: "destroy_range (Suc ix) (length ys) ?a = Some (?a\<lparr>m_array := l, destroyed := rev ys @ destroyed ?a\<rparr>)"
       "length l = length (m_array ?a)" "take (Suc ix) l = take (Suc ix) (m_array ?a)" by blast
  have "take ix l = take ix (take (Suc ix) l)" by (simp add: min_def)
  also have "\<dots> = take ix (m_array a)" unfolding l(3) by (simp add: min_def)
  finally show ?case using l y by (intro exI [of _ l]) (simp add: destroy_def)
qed

lemma chop_correct:
  assumes "mra_holds E a xs" and "p \<le> length xs"
  shows "\<exists>a'. chop E p a = Some a' \<and> mra_holds E a' (take p xs)"
proof (cases "has_trivial_destructor E")
  case True
  then show ?thesis using assms mra_holds_take [OF assms]
    by (auto simp: chop_def mra_holds_def balanced_def min_def)
next
  case False
  have "mra_at a (p + i) = Some (drop p xs ! i)" if "i < length (drop p xs)" for i
    using mra_holds_at [OF assms(1), of "p + i"] that by simp
  from destroy_range_correct [OF this] obtain l where
    l: "destroy_range p (length xs - p) a
          = Some (a\<lparr>m_array := l, destroyed := rev (drop p xs) @ destroyed a\<rparr>)"
       "length l = length (m_array a)" "take p l = take p (m_array a)" by auto
  have "take p l = map Some (take p xs)"
    unfolding l(3) by (rule mra_holds_take [OF assms])
  moreover have "mset xs = mset (take p xs) + mset (drop p xs)"
    by (metis append_take_drop_id mset_append)
  ultimately show ?thesis
    using assms False l by (auto simp: chop_def mra_holds_def balanced_def min_def)
qed

text \<open>The copy loop moves every element; a copy is built for each original that is destroyed.\<close>

lemma copy_loop_correct:
  assumes "\<And>i. i < length ys \<Longrightarrow> ix + i < length old \<and> old ! (ix + i) = Some (ys ! i)"
    and "ix + length ys \<le> length (m_array a)"
  shows "\<exists>l. copy_loop E old ix (length ys) a
      = Some (a\<lparr>m_array := l, built := rev ys @ built a,
               destroyed := (if has_trivial_destructor E then [] else rev ys) @ destroyed a\<rparr>)
      \<and> length l = length (m_array a) \<and> take (ix + length ys) l = take ix (m_array a) @ map Some ys"
  using assms
proof (induction ys arbitrary: ix a)
  case Nil
  show ?case by (rule exI [of _ "m_array a"]) simp
next
  case (Cons y ys)
  let ?a = "a\<lparr>m_array := (m_array a)[ix := Some y], built := y # built a,
              destroyed := (if has_trivial_destructor E then [] else [y]) @ destroyed a\<rparr>"
  have y: "ix < length old" "old ! ix = Some y" using Cons.prems(1) [of 0] by auto
  have ix: "ix < length (m_array a)" using Cons.prems(2) by simp
  have "Suc ix + i < length old \<and> old ! (Suc ix + i) = Some (ys ! i)" if "i < length ys" for i
    using Cons.prems(1) [of "Suc i"] that by simp
  moreover have "Suc ix + length ys \<le> length (m_array ?a)" using Cons.prems(2) by simp
  ultimately obtain l where
    l: "copy_loop E old (Suc ix) (length ys) ?a
          = Some (?a\<lparr>m_array := l, built := rev ys @ built ?a,
               destroyed := (if has_trivial_destructor E then [] else rev ys) @ destroyed ?a\<rparr>)"
       "length l = length (m_array ?a)"
       "take (Suc ix + length ys) l = take (Suc ix) (m_array ?a) @ map Some ys"
    using Cons.IH [of "Suc ix" ?a] by blast
  have "take (Suc ix) (m_array ?a) = take ix (m_array a) @ [Some y]"
    using ix by (simp add: take_Suc_conv_app_nth)
  then show ?case using l y ix
    by (intro exI [of _ l]) (cases "has_trivial_destructor E"; simp add: construct_def)
qed

text \<open>Reserving keeps the contents; it fails only when the memory root does.\<close>

lemma reserve_correct:
  assumes "mra_holds E a xs" and "fits E n"
  shows "\<exists>fail a'. reserve E n a = Some (fail, a') \<and> mra_holds E a' xs
           \<and> (fail \<longrightarrow> n > m_capacity a \<and> \<not> alloc_root E (m_root a) (n * element_size E))
           \<and> (\<not> fail \<longrightarrow> m_capacity a' = max n (m_capacity a))"
proof (cases "n \<le> m_capacity a \<or> \<not> alloc_root E (m_root a) (n * element_size E)")
  case True
  then show ?thesis using assms
    by (auto simp: reserve_def Let_def mra_holds_def fits_def balanced_def max_def)
next
  case False
  let ?a = "a\<lparr>m_root := m_root a + 1, m_array := replicate n None\<rparr>"
  have n: "n * element_size E mod 2 ^ 64 = n * element_size E" "n * element_size E div element_size E = n"
    using assms(2) by (auto simp: fits_def)
  have xs: "length xs \<le> n" "m_size a = length xs" using assms(1) False by (auto simp: mra_holds_def)
  have "0 + i < length (m_array a) \<and> m_array a ! (0 + i) = Some (xs ! i)" if "i < length xs" for i
    using mra_holds_at [OF assms(1) that] by (auto simp: mra_at_def split: if_splits)
  from copy_loop_correct [OF this, where a = ?a and E = E] xs obtain l where
    l: "copy_loop E (m_array a) 0 (length xs) ?a
          = Some (?a\<lparr>m_array := l, built := rev xs @ built ?a,
               destroyed := (if has_trivial_destructor E then [] else rev xs) @ destroyed ?a\<rparr>)"
       "length l = n" "take (length xs) l = map Some xs" by auto
  show ?thesis using False n xs l assms
    by (auto simp: reserve_def Let_def mra_holds_def balanced_def max_def)
qed

lemma construct_at_end:
  assumes "mra_holds E a xs" and "length xs < m_capacity a"
  shows "\<exists>a'. construct (m_size a) x (a\<lparr>m_size := m_size a + 1\<rparr>) = Some a'
           \<and> mra_holds E a' (xs @ [x]) \<and> m_capacity a' = m_capacity a"
  using assms
  by (auto simp: construct_def mra_holds_def balanced_def take_Suc_conv_app_nth)

text \<open>Sizes up to which appending cannot overflow the byte count of the block.\<close>

definition room :: "env \<Rightarrow> nat \<Rightarrow> bool" where
  "room E n \<longleftrightarrow> fits E (max 20 (2 * n))"

lemma fits_mono: "fits E n \<Longrightarrow> k \<le> n \<Longrightarrow> fits E k"
  unfolding fits_def by (meson le_less_trans mult_le_mono1)

lemma room_mono: "room E n \<Longrightarrow> k \<le> n \<Longrightarrow> room E k"
  unfolding room_def by (rule fits_mono) auto

lemma push_back_room:
  assumes "mra_holds E a xs" and "length xs < m_capacity a"
  shows "\<exists>a'. mra_push_back E x a = Some (False, a') \<and> mra_holds E a' (xs @ [x])
           \<and> m_capacity a' = m_capacity a"
proof -
  have "mra_push_back E x a = (case construct (m_size a) x (a\<lparr>m_size := m_size a + 1\<rparr>) of
      None \<Rightarrow> None | Some a' \<Rightarrow> Some (False, a'))"
    using assms by (simp add: mra_push_back_def mra_holds_def)
  then show ?thesis using construct_at_end [OF assms, of x] by auto
qed

text \<open>The two reservations of \<^verbatim>\<open>push_back\<close> leave a free slot or report failure.\<close>

lemma push_back_correct:
  assumes h: "mra_holds E a xs" and r: "room E (length xs)"
  shows "\<exists>fail a'. mra_push_back E x a = Some (fail, a') \<and> mra_holds E a' (if fail then xs else xs @ [x])
           \<and> (fail \<longrightarrow> length xs = m_capacity a \<and> (\<exists>n k. \<not> alloc_root E n k))
           \<and> (\<not> fail \<and> length xs < m_capacity a \<longrightarrow> m_capacity a' = m_capacity a)"
proof (cases "m_capacity a = 0")
  case True
  then have xs: "xs = []" using h by (simp add: mra_holds_def)
  have "fits E 20" using r by (auto simp: room_def intro: fits_mono)
  from reserve_correct [OF h this] obtain fail a' where
    a': "reserve E 20 a = Some (fail, a')" "mra_holds E a' xs"
        "fail \<longrightarrow> \<not> alloc_root E (m_root a) (20 * element_size E)"
        "\<not> fail \<longrightarrow> m_capacity a' = max 20 (m_capacity a)" by blast
  show ?thesis
  proof (cases fail)
    case True
    then show ?thesis using a' \<open>m_capacity a = 0\<close> xs by (auto simp: mra_push_back_def)
  next
    case False
    then have "m_capacity a' = 20" "m_size a' = 0" using a' True xs by (auto simp: mra_holds_def)
    then show ?thesis using a' False True xs construct_at_end [OF a'(2), of x]
      by (auto simp: mra_push_back_def)
  qed
next
  case False
  show ?thesis
  proof (cases "length xs = m_capacity a")
    case True
    have f: "fits E (m_capacity a * 2)" using r True by (auto simp: room_def intro: fits_mono)
    then have m: "m_capacity a * 2 mod 2 ^ 64 = m_capacity a * 2" using fits_less by simp
    from reserve_correct [OF h f] obtain fail a' where
      a': "reserve E (m_capacity a * 2) a = Some (fail, a')" "mra_holds E a' xs"
          "fail \<longrightarrow> \<not> alloc_root E (m_root a) (m_capacity a * 2 * element_size E)"
          "\<not> fail \<longrightarrow> m_capacity a' = max (m_capacity a * 2) (m_capacity a)" by blast
    have push: "mra_push_back E x a = (if fail then Some (True, a') else
        case construct (m_size a') x (a'\<lparr>m_size := m_size a' + 1\<rparr>) of
          None \<Rightarrow> None | Some a' \<Rightarrow> Some (False, a'))"
      using False True h a'(1) m by (simp add: mra_push_back_def mra_holds_def)
    show ?thesis
    proof (cases fail)
      case t: True
      have "mra_push_back E x a = Some (True, a')" using t push by simp
      then show ?thesis using t a'(2,3) True by (intro exI [of _ True] exI [of _ a']) auto
    next
      case f: False
      have c: "length xs < m_capacity a'" using a' f True False by auto
      obtain a'' where "construct (m_size a') x (a'\<lparr>m_size := m_size a' + 1\<rparr>) = Some a''"
        "mra_holds E a'' (xs @ [x])" using construct_at_end [OF a'(2) c, of x] by blast
      then have "mra_push_back E x a = Some (False, a'')" using f push by simp
      then show ?thesis using \<open>mra_holds E a'' (xs @ [x])\<close> True by auto
    qed
  next
    case F: False
    then have "length xs < m_capacity a" using h by (simp add: mra_holds_def)
    then show ?thesis using push_back_room [OF h, of x] by auto
  qed
qed

lemma pop_back_correct:
  assumes h: "mra_holds E a xs" and "xs \<noteq> []"
  shows "\<exists>a'. mra_pop_back E a = Some a' \<and> mra_holds E a' (butlast xs)"
proof -
  obtain ys y where xs: "xs = ys @ [y]" using assms(2) by (metis rev_exhaust)
  have y: "mra_at a (length ys) = Some y" using mra_holds_at [OF h, of "length ys"] xs by simp
  have "take (length ys) (m_array a) = map Some ys" using mra_holds_take [OF h, of "length ys"] xs by simp
  then show ?thesis using h y xs
    by (cases "has_trivial_destructor E") (auto simp: mra_pop_back_def mra_holds_def balanced_def destroy_def)
qed

section \<open>The contract of a vector\<close>

text \<open>Appending all of a list, ignoring failed appends as the callers that drop the result do.\<close>

fun append_all :: "('a \<Rightarrow> 'v \<Rightarrow> (bool \<times> 'v) option) \<Rightarrow> 'a list \<Rightarrow> 'v \<Rightarrow> (bool \<times> 'v) option" where
  "append_all push [] v = Some (False, v)"
| "append_all push (x # xs) v =
     (case push x v of None \<Rightarrow> None
      | Some (fail, v') \<Rightarrow>
          case append_all push xs v' of None \<Rightarrow> None | Some (fails, v'') \<Rightarrow> Some (fail \<or> fails, v''))"

locale growing_vector =
  fixes holds :: "'v \<Rightarrow> 'a list \<Rightarrow> bool"
    and roomy :: "nat \<Rightarrow> bool"
    and push :: "'a \<Rightarrow> 'v \<Rightarrow> (bool \<times> 'v) option"
    and pop :: "'v \<Rightarrow> 'v option"
  assumes push_law: "holds v xs \<Longrightarrow> roomy (length xs) \<Longrightarrow>
      \<exists>fail v'. push x v = Some (fail, v') \<and> holds v' (if fail then xs else xs @ [x])"
    and pop_law: "holds v xs \<Longrightarrow> xs \<noteq> [] \<Longrightarrow> \<exists>v'. pop v = Some v' \<and> holds v' (butlast xs)"
    and roomy_mono: "roomy n \<Longrightarrow> k \<le> n \<Longrightarrow> roomy k"
begin

lemma append_all_subseq:
  assumes "holds v xs" and "roomy (length xs + length ys)"
  shows "\<exists>fails v' zs. append_all push ys v = Some (fails, v') \<and> holds v' (xs @ zs) \<and> subseq zs ys
           \<and> (\<not> fails \<longrightarrow> zs = ys)"
  using assms
proof (induction ys arbitrary: v xs)
  case Nil
  then show ?case by (intro exI [of _ False] exI [of _ v] exI [of _ "[]"]) simp
next
  case (Cons y ys)
  obtain fail v' where v': "push y v = Some (fail, v')" "holds v' (if fail then xs else xs @ [y])"
    using push_law [OF Cons.prems(1) roomy_mono [OF Cons.prems(2)]] by fastforce
  have "roomy (length (if fail then xs else xs @ [y]) + length ys)"
    using Cons.prems(2) by (rule roomy_mono) simp
  from Cons.IH [OF v'(2) this] obtain fails v'' zs where
    "append_all push ys v' = Some (fails, v'')" "holds v'' ((if fail then xs else xs @ [y]) @ zs)"
    "subseq zs ys" "\<not> fails \<longrightarrow> zs = ys" by blast
  then show ?case using v'(1)
    by (intro exI [of _ "fail \<or> fails"] exI [of _ v''] exI [of _ "(if fail then [] else [y]) @ zs"])
       auto
qed

lemma push_pop:
  assumes "holds v xs" and "roomy (length xs)" and "push x v = Some (False, v')"
  shows "\<exists>v''. pop v' = Some v'' \<and> holds v'' xs"
  using push_law [OF assms(1,2), of x] pop_law [of v' "xs @ [x]"] assms(3) by auto

end

interpretation mra: growing_vector "mra_holds E" "room E" "mra_push_back E" "mra_pop_back E" for E
proof unfold_locales
  show "\<exists>fail v'. mra_push_back E x v = Some (fail, v') \<and> mra_holds E v' (if fail then xs else xs @ [x])"
    if "mra_holds E v xs" "room E (length xs)" for v :: "'a Mem_root_array" and xs x
    using push_back_correct [OF that, of x] by blast
qed (auto intro: pop_back_correct room_mono)

section \<open>Resizing\<close>

text \<open>With the capacity reserved the growing loop ends after the missing elements.\<close>

lemma grow_loop_correct:
  assumes "mra_holds E a xs" and "length xs + k \<le> m_capacity a"
  shows "\<exists>a'. grow_loop E (length xs + k) val a = Some a' \<and> mra_holds E a' (xs @ replicate k val)"
  using assms
proof (induction k arbitrary: a xs)
  case 0
  then show ?case by (subst grow_loop.simps) (simp add: mra_holds_def)
next
  case (Suc k)
  obtain a' where a': "mra_push_back E val a = Some (False, a')" "mra_holds E a' (xs @ [val])"
    "m_capacity a' = m_capacity a"
    using push_back_room [OF Suc.prems(1), of val] Suc.prems(2) by auto
  have "grow_loop E (length xs + Suc k) val a = grow_loop E (length (xs @ [val]) + k) val a'"
    using a'(1) Suc.prems(1) by (subst grow_loop.simps) (simp add: mra_holds_def)
  then show ?case using Suc.IH [OF a'(2)] Suc.prems(2) a'(3) by simp
qed

lemma shrink_loop_correct:
  assumes "mra_holds E a xs" and "n \<le> length xs"
  shows "\<exists>a'. shrink_loop E n a = Some a' \<and> mra_holds E a' (take n xs)"
  using assms
proof (induction xs arbitrary: a rule: rev_induct)
  case Nil
  then show ?case by (subst shrink_loop.simps) (simp add: mra_holds_def)
next
  case (snoc x xs)
  show ?case
  proof (cases "n = length (xs @ [x])")
    case True
    then show ?thesis using snoc.prems by (subst shrink_loop.simps) (simp add: mra_holds_def)
  next
    case False
    obtain a' where a': "mra_pop_back E a = Some a'" "mra_holds E a' xs"
      using pop_back_correct [OF snoc.prems(1)] by auto
    have "shrink_loop E n a = shrink_loop E n a'"
      using a'(1) snoc.prems(1) False by (subst shrink_loop.simps) (simp add: mra_holds_def)
    then show ?thesis using snoc.IH [OF a'(2)] snoc.prems(2) False by simp
  qed
qed

text \<open>Resizing a \<^verbatim>\<open>Mem_root_array\<close> to a size whose byte count does not overflow always returns: a
  smaller size keeps a prefix (destroying the rest), a larger one appends copies of the value, and
  when the memory root cannot provide the new block the contents are unchanged. No access leaves the
  block, and constructor and destructor calls stay balanced.\<close>

theorem mem_root_array_resize:
  assumes h: "mra_holds E a xs" and n: "fits E n"
  shows "\<exists>a'. mra_resize E n val a = Some a'
     \<and> (mra_holds E a' (take n xs @ replicate (n - length xs) val)
        \<or> mra_holds E a' xs \<and> m_capacity a < n \<and> \<not> alloc_root E (m_root a) (n * element_size E))"
proof -
  have size: "m_size a = length xs" using h by (simp add: mra_holds_def)
  consider "n = length xs" | "n > length xs" | "n < length xs" by linarith
  then show ?thesis
  proof cases
    case 1
    then show ?thesis using h size by (simp add: mra_resize_def)
  next
    case 2
    obtain fail a' where a': "reserve E n a = Some (fail, a')" "mra_holds E a' xs"
      "fail \<longrightarrow> m_capacity a < n \<and> \<not> alloc_root E (m_root a) (n * element_size E)"
      "\<not> fail \<longrightarrow> m_capacity a' = max n (m_capacity a)"
      using reserve_correct [OF h n] by blast
    have "mra_resize E n val a = (if \<not> fail then grow_loop E n val a' else Some a')"
      using 2 size a'(1) by (simp add: mra_resize_def)
    moreover have "\<not> fail \<Longrightarrow> \<exists>b. grow_loop E n val a' = Some b \<and> mra_holds E b (xs @ replicate (n - length xs) val)"
      using grow_loop_correct [OF a'(2), of "n - length xs" val] 2 a'(4) by simp
    ultimately show ?thesis using a'(2,3) 2 by (cases fail) auto
  next
    case 3
    obtain a' where "shrink_loop E n a = Some a'" "mra_holds E a' (take n xs)"
      using shrink_loop_correct [OF h less_imp_le [OF 3]] by blast
    moreover have "mra_holds E (a\<lparr>m_size := n\<rparr>) (take n xs)" if "has_trivial_destructor E"
      using chop_correct [OF h, of n] 3 that by (simp add: chop_def)
    moreover have "mra_holds E (a'\<lparr>m_size := n\<rparr>) (take n xs)" if "mra_holds E a' (take n xs)"
      using that 3 by (simp add: mra_holds_def balanced_def)
    ultimately show ?thesis using 3 size by (auto simp: mra_resize_def)
  qed
qed

theorem mem_root_array_resize_witness:
  "\<exists>a'. mra_resize \<lparr>element_size = 8, has_trivial_destructor = False, alloc_root = \<lambda>_ _. True\<rparr> 2 CHR ''x'' mra_new
          = Some a'
     \<and> mra_holds \<lparr>element_size = 8, has_trivial_destructor = False, alloc_root = \<lambda>_ _. True\<rparr> a' ''xx''"
proof -
  have "replicate 2 CHR ''x'' = ''xx''" by (simp add: numeral_2_eq_2)
  then show ?thesis
    using mem_root_array_resize
      [of "\<lparr>element_size = 8, has_trivial_destructor = False, alloc_root = \<lambda>_ _. True\<rparr>" mra_new "[]" 2 "CHR ''x''"]
    by (simp add: mra_holds_new fits_def)
qed

text \<open>C32. Appending a list of elements to a \<^verbatim>\<open>Mem_root_array\<close> always returns. The contents become the old ones
  followed by a subsequence of the new elements, all of them when no append reported failure; an
  append fails only if the memory root refused a block. Popping after a successful append gives
  the contents back.\<close>

theorem mem_root_array_append:
  assumes "mra_holds E a xs" and "room E (length xs + length ys)"
  shows "(\<exists>fails a' zs. append_all (mra_push_back E) ys a = Some (fails, a') \<and> mra_holds E a' (xs @ zs)
             \<and> subseq zs ys \<and> (\<not> fails \<longrightarrow> zs = ys))
       \<and> (\<forall>x a'. mra_push_back E x a = Some (True, a') \<longrightarrow> (\<exists>n k. \<not> alloc_root E n k))
       \<and> (\<forall>x a'. mra_push_back E x a = Some (False, a') \<longrightarrow>
            (\<exists>a''. mra_pop_back E a' = Some a'' \<and> mra_holds E a'' xs))"
proof -
  have r: "room E (length xs)" using assms(2) by (rule room_mono) simp
  have "\<exists>n k. \<not> alloc_root E n k" if "mra_push_back E x a = Some (True, a')" for x a'
    using push_back_correct [OF assms(1) r, of x] that by auto
  then show ?thesis
    using mra.append_all_subseq [OF assms] mra.push_pop [OF assms(1) r] by blast
qed

theorem mem_root_array_append_witness:
  "\<exists>fails a' zs. append_all (mra_push_back \<lparr>element_size = 4, has_trivial_destructor = True, alloc_root = \<lambda>_ _. True\<rparr>)
        ''ab'' mra_new = Some (fails, a')
     \<and> mra_holds \<lparr>element_size = 4, has_trivial_destructor = True, alloc_root = \<lambda>_ _. True\<rparr> a' zs
     \<and> subseq zs ''ab'' \<and> (\<not> fails \<longrightarrow> zs = ''ab'')"
  using mem_root_array_append
    [of "\<lparr>element_size = 4, has_trivial_destructor = True, alloc_root = \<lambda>_ _. True\<rparr>" mra_new "[]" "''ab''"]
  by (simp add: mra_holds_new room_def fits_def)

text \<open>Clearing or destroying a \<^verbatim>\<open>Mem_root_array\<close> destroys every element exactly once: afterwards the
  destroyed elements are those that were ever built. With trivial destructors none is run.\<close>

theorem mem_root_array_clear:
  assumes "mra_holds E a xs" and "\<not> has_trivial_destructor E"
  shows "\<exists>a'. mra_clear E a = Some a' \<and> mra_holds E a' [] \<and> mset (built a') = mset (destroyed a')"
proof -
  have "\<exists>a'. mra_clear E a = Some a' \<and> mra_holds E a' []"
    using assms chop_correct [OF assms(1), of 0]
    by (auto simp: mra_clear_def mra_empty_def mra_holds_def)
  then show ?thesis using assms(2) by (auto simp: mra_holds_def balanced_def)
qed

theorem mem_root_array_clear_witness:
  "\<exists>a'. mra_clear \<lparr>element_size = 4, has_trivial_destructor = False, alloc_root = \<lambda>_ _. False\<rparr>
        \<lparr>m_root = 1, m_array = [Some CHR ''a'', None], m_size = 1, m_capacity = 2, built = ''a'', destroyed = []\<rparr>
      = Some a' \<and> mset (built a') = mset (destroyed a')"
  using mem_root_array_clear
    [of "\<lparr>element_size = 4, has_trivial_destructor = False, alloc_root = \<lambda>_ _. False\<rparr>"
        "\<lparr>m_root = 1, m_array = [Some CHR ''a'', None], m_size = 1, m_capacity = 2, built = ''a'', destroyed = []\<rparr>"
        "''a''"]
  by (auto simp: mra_holds_def fits_def balanced_def)

text \<open>The byte count is a product of two sizes and wraps: a block that is too small is then filled
  past its end.\<close>

lemma grow_loop_overrun:
  assumes "m_capacity a = n" and "m_size a + k = length (m_array a)" and "length (m_array a) < n"
  shows "grow_loop E n val a = None"
  using assms
proof (induction k arbitrary: a)
  case 0
  then have "mra_push_back E val a = None" by (simp add: mra_push_back_def construct_def)
  then show ?case using 0 by (subst grow_loop.simps) simp
next
  case (Suc k)
  let ?a = "a\<lparr>m_size := m_size a + 1, m_array := (m_array a)[m_size a := Some val], built := val # built a\<rparr>"
  have "mra_push_back E val a = Some (False, ?a)"
    using Suc.prems by (simp add: mra_push_back_def construct_def)
  then have "grow_loop E n val a = grow_loop E n val ?a"
    using Suc.prems by (subst grow_loop.simps) simp
  then show ?case using Suc.IH [of ?a] Suc.prems by simp
qed

text \<open>The size computation of \<^verbatim>\<open>reserve\<close> is not guarded: when the element count times the element
  size exceeds 64 bits and the memory root grants the wrapped, too small request, resizing an
  empty array constructs elements past the end of the block.\<close>

theorem mem_root_array_resize_overflow:
  assumes "0 < element_size E" and "n < 2 ^ 64" and "2 ^ 64 \<le> n * element_size E" and "\<And>i k. alloc_root E i k"
  shows "mra_resize E n val mra_new = None"
proof -
  let ?b = "n * element_size E mod 2 ^ 64 div element_size E"
  let ?a = "mra_new\<lparr>m_root := 1, m_array := replicate ?b None, m_capacity := n\<rparr>"
  have n: "0 < n" using assms(3) by (cases n) auto
  have "?b < n"
  proof -
    have "n * element_size E mod 2 ^ 64 < n * element_size E"
      by (rule less_le_trans [OF mod_less_divisor assms(3)]) simp
    then show ?thesis using assms(1) by (simp add: div_less_iff_less_mult)
  qed
  then have "grow_loop E n val ?a = None"
    by (intro grow_loop_overrun [of _ _ "?b"]) (simp_all add: mra_new_def)
  then show ?thesis using n assms(4) by (simp add: mra_resize_def reserve_def mra_new_def Let_def)
qed

theorem mem_root_array_resize_overflow_witness:
  "mra_resize \<lparr>element_size = 8, has_trivial_destructor = True, alloc_root = \<lambda>_ _. True\<rparr> (2 ^ 61 + 1) True mra_new = None"
  by (rule mem_root_array_resize_overflow) simp_all

end
