(* ===== verification/Sql_String.thy ===== *)
theory Sql_String
  imports Byte_Order "HOL-Library.Monad_Syntax" "HOL-Library.Sublist"
begin

text \<open>
  The string classes of \<^verbatim>\<open>sql_string.h\<close>: \<^verbatim>\<open>Binary_string\<close>, \<^verbatim>\<open>Charset\<close>, \<^verbatim>\<open>String\<close> and the buffer templates.
  Memory is a set of blocks; a pointer is \<^verbatim>\<open>NULL\<close> or an offset in a block. Reading, writing or freeing
  what the program must not touch has the value \<^const>\<open>None\<close>. The sizes are natural numbers, the conversions
  to \<^verbatim>\<open>uint32\<close> and the wrap-around of \<^verbatim>\<open>size_t\<close> written out. The allocation routines \<^verbatim>\<open>real_alloc\<close> and
  \<^verbatim>\<open>realloc_raw\<close>, which are not part of the headers, are parameters.
\<close>

section \<open>Blocks and pointers\<close>

datatype ptr = NULL | At nat nat

record heap =
  blocks :: "nat \<Rightarrow> uchar list option"
  next_block :: nat

definition wf_heap :: "heap \<Rightarrow> bool" where
  "wf_heap h \<longleftrightarrow> (\<forall>b \<ge> next_block h. blocks h b = None)"

fun padd :: "ptr \<Rightarrow> nat \<Rightarrow> ptr" where
  "padd NULL n = NULL"
| "padd (At b i) n = At b (i + n)"

fun load :: "heap \<Rightarrow> ptr \<Rightarrow> nat \<Rightarrow> uchar list option" where
  "load h NULL n = (if n = 0 then Some [] else None)"
| "load h (At b i) n =
     (case blocks h b of None \<Rightarrow> None
      | Some bs \<Rightarrow> if i + n \<le> length bs then Some (take n (drop i bs)) else None)"

definition overwrite :: "nat \<Rightarrow> uchar list \<Rightarrow> uchar list \<Rightarrow> uchar list" where
  "overwrite i xs bs = take i bs @ xs @ drop (i + length xs) bs"

fun store :: "ptr \<Rightarrow> uchar list \<Rightarrow> heap \<Rightarrow> heap option" where
  "store NULL xs h = (if xs = [] then Some h else None)"
| "store (At b i) xs h =
     (case blocks h b of None \<Rightarrow> None
      | Some bs \<Rightarrow>
          if i + length xs \<le> length bs
          then Some (h\<lparr>blocks := (blocks h)(b := Some (overwrite i xs bs))\<rparr>) else None)"

fun my_free :: "ptr \<Rightarrow> heap \<Rightarrow> heap option" where
  "my_free NULL h = Some h"
| "my_free (At b i) h =
     (if i = 0 \<and> blocks h b \<noteq> None then Some (h\<lparr>blocks := (blocks h)(b := None)\<rparr>) else None)"

definition u32 :: "nat \<Rightarrow> nat" where
  "u32 n = n mod 2 ^ 32"

definition u64 :: "nat \<Rightarrow> nat" where
  "u64 n = n mod 2 ^ 64"

section \<open>Binary\_string\<close>

record Binary_string =
  Ptr :: ptr
  str_length :: nat
  Alloced_length :: nat
  extra_alloc :: nat
  alloced :: bool
  thread_specific :: bool

type_synonym bstate = "heap \<times> Binary_string"

text \<open>The type of the allocation routines: true means out of memory.\<close>

type_synonym allocator = "nat \<Rightarrow> bstate \<Rightarrow> bool \<times> bstate"

definition init_private_data :: Binary_string where
  "init_private_data =
     \<lparr>Ptr = NULL, str_length = 0, Alloced_length = 0, extra_alloc = 0, alloced = False, thread_specific = False\<rparr>"

definition free_buffer :: "bstate \<Rightarrow> bstate option" where
  "free_buffer st =
     (let (h, s) = st
      in if alloced s
         then do { h \<leftarrow> my_free (Ptr s) h; Some (h, s\<lparr>alloced := False\<rparr>) }
         else Some (h, s))"

definition bs_new_length :: "allocator \<Rightarrow> nat \<Rightarrow> heap \<Rightarrow> bstate" where
  "bs_new_length real_alloc length_arg h = snd (real_alloc length_arg (h, init_private_data))"

definition bs_of_const :: "ptr \<Rightarrow> nat \<Rightarrow> Binary_string" where
  "bs_of_const str len =
     \<lparr>Ptr = str, str_length = u32 len, Alloced_length = 0, extra_alloc = 0, alloced = False, thread_specific = False\<rparr>"

definition bs_of_buffer :: "ptr \<Rightarrow> nat \<Rightarrow> Binary_string" where
  "bs_of_buffer str len =
     \<lparr>Ptr = str, str_length = u32 len, Alloced_length = u32 len, extra_alloc = 0, alloced = False,
      thread_specific = False\<rparr>"

definition bs_copy_of :: "Binary_string \<Rightarrow> Binary_string" where
  "bs_copy_of str = str\<lparr>extra_alloc := 0, alloced := False, thread_specific := False\<rparr>"

definition set_length :: "nat \<Rightarrow> Binary_string \<Rightarrow> Binary_string" where
  "set_length len s = s\<lparr>str_length := u32 len\<rparr>"

definition bs_is_empty :: "Binary_string \<Rightarrow> bool" where
  "bs_is_empty s \<longleftrightarrow> str_length s = 0"

definition bs_end :: "Binary_string \<Rightarrow> ptr" where
  "bs_end s = padd (Ptr s) (str_length s)"

fun has_8bit_loop :: "heap \<Rightarrow> ptr \<Rightarrow> nat \<Rightarrow> bool option" where
  "has_8bit_loop h c 0 = Some False"
| "has_8bit_loop h c (Suc n) =
     do { x \<leftarrow> load h c 1; if \<not> hd x < 128 then Some True else has_8bit_loop h (padd c 1) n }"

definition has_8bit_bytes :: "bstate \<Rightarrow> bool option" where
  "has_8bit_bytes st = (let (h, s) = st in has_8bit_loop h (Ptr s) (str_length s))"

definition bin_eq :: "heap \<Rightarrow> Binary_string \<Rightarrow> Binary_string \<Rightarrow> bool option" where
  "bin_eq h s other =
     (if str_length s = str_length other
      then do { x \<leftarrow> load h (Ptr s) (str_length s); y \<leftarrow> load h (Ptr other) (str_length s); Some (x = y) }
      else Some False)"

definition bs_chop :: "bstate \<Rightarrow> bstate option" where
  "bs_chop st =
     (let (h, s) = st
      in if str_length s \<noteq> 0
         then let s = s\<lparr>str_length := str_length s - 1\<rparr>
              in do { h \<leftarrow> store (padd (Ptr s) (str_length s)) [0] h; Some (h, s) }
         else Some (h, s))"

subsection \<open>Appending without checks\<close>

definition q_append_char :: "uchar \<Rightarrow> bstate \<Rightarrow> bstate option" where
  "q_append_char c st =
     (let (h, s) = st
      in do { h \<leftarrow> store (padd (Ptr s) (str_length s)) [c] h;
              Some (h, s\<lparr>str_length := u32 (str_length s + 1)\<rparr>) })"

definition q_append2b :: "uint32 \<Rightarrow> bstate \<Rightarrow> bstate option" where
  "q_append2b n st =
     (let (h, s) = st
      in do { h \<leftarrow> store (padd (Ptr s) (str_length s)) (map (int2store (\<lambda>_. 0) 0 n) [0..<2]) h;
              Some (h, s\<lparr>str_length := u32 (str_length s + 2)\<rparr>) })"

definition q_append_uint32 :: "uint32 \<Rightarrow> bstate \<Rightarrow> bstate option" where
  "q_append_uint32 n st =
     (let (h, s) = st
      in do { h \<leftarrow> store (padd (Ptr s) (str_length s)) (map (int4store (\<lambda>_. 0) 0 n) [0..<4]) h;
              Some (h, s\<lparr>str_length := u32 (str_length s + 4)\<rparr>) })"

definition q_append :: "ptr \<Rightarrow> nat \<Rightarrow> bstate \<Rightarrow> bstate option" where
  "q_append data data_len st =
     (let (h, s) = st
      in do { h \<leftarrow> (if data_len \<noteq> 0
                    then do { xs \<leftarrow> load h data data_len; store (padd (Ptr s) (str_length s)) xs h }
                    else Some h);
              Some (h, s\<lparr>str_length := u32 (str_length s + u32 data_len)\<rparr>) })"

text \<open>A double is stored as the eight bytes of its object representation.\<close>

definition q_append_double :: "ulonglong \<Rightarrow> bstate \<Rightarrow> bstate option" where
  "q_append_double d st =
     (let (h, s) = st
      in do { h \<leftarrow> store (padd (Ptr s) (str_length s)) (map (int8store (\<lambda>_. 0) 0 d) [0..<8]) h;
              Some (h, s\<lparr>str_length := u32 (str_length s + 8)\<rparr>) })"

definition q_append_lex :: "ptr \<times> nat \<Rightarrow> bstate \<Rightarrow> bstate option" where
  "q_append_lex ls st = q_append (fst ls) (u32 (snd ls)) st"

definition qs_append_char :: "uchar \<Rightarrow> bstate \<Rightarrow> bstate option" where
  "qs_append_char c st =
     (let (h, s) = st
      in do { h \<leftarrow> store (padd (Ptr s) (str_length s)) [c] h;
              Some (h, s\<lparr>str_length := u32 (str_length s + 1)\<rparr>) })"

text \<open>The conversion \<^verbatim>\<open>ll2str\<close> is a parameter: the bytes it writes, its terminating zero included.\<close>

definition qs_append_longlong :: "(int \<Rightarrow> int \<Rightarrow> uchar list) \<Rightarrow> int \<Rightarrow> int \<Rightarrow> bstate \<Rightarrow> bstate option" where
  "qs_append_longlong ll2str i radix st =
     (let (h, s) = st; xs = ll2str i radix
      in do { h \<leftarrow> store (padd (Ptr s) (str_length s)) xs h;
              Some (h, s\<lparr>str_length := u32 (str_length s + u32 (length xs - 1))\<rparr>) })"

definition write_at_position :: "nat \<Rightarrow> uint32 \<Rightarrow> bstate \<Rightarrow> bstate option" where
  "write_at_position position val st =
     (let (h, s) = st
      in do { h \<leftarrow> store (padd (Ptr s) position) (map (int4store (\<lambda>_. 0) 0 val) [0..<4]) h; Some (h, s) })"

subsection \<open>Buffer handling\<close>

definition set_thread_specific :: "Binary_string \<Rightarrow> Binary_string" where
  "set_thread_specific s = (if \<not> alloced s then s\<lparr>thread_specific := True\<rparr> else s)"

definition set_extra_allocation :: "nat \<Rightarrow> Binary_string \<Rightarrow> Binary_string" where
  "set_extra_allocation len s = s\<lparr>extra_alloc := u32 len\<rparr>"

definition mark_as_const :: "Binary_string \<Rightarrow> Binary_string" where
  "mark_as_const s = s\<lparr>Alloced_length := 0\<rparr>"

fun ptr_in :: "ptr \<Rightarrow> ptr \<Rightarrow> nat \<Rightarrow> bool" where
  "ptr_in (At b i) (At c j) n \<longleftrightarrow> b = c \<and> j \<le> i \<and> i < j + n"
| "ptr_in _ _ _ \<longleftrightarrow> False"

definition uses_buffer_owned_by :: "Binary_string \<Rightarrow> Binary_string \<Rightarrow> bool" where
  "uses_buffer_owned_by this s \<longleftrightarrow> alloced s \<and> ptr_in (Ptr this) (Ptr s) (Alloced_length s)"

definition bs_swap :: "Binary_string \<Rightarrow> Binary_string \<Rightarrow> Binary_string \<times> Binary_string" where
  "bs_swap this s =
     (this\<lparr>Ptr := Ptr s, str_length := str_length s, Alloced_length := Alloced_length s, alloced := alloced s\<rparr>,
      s\<lparr>Ptr := Ptr this, str_length := str_length this, Alloced_length := Alloced_length this,
        alloced := alloced this\<rparr>)"

definition set_alloced :: "ptr \<Rightarrow> nat \<Rightarrow> nat \<Rightarrow> bstate \<Rightarrow> bstate option" where
  "set_alloced str len alloced_len st =
     do { (h, s) \<leftarrow> free_buffer st;
          Some (h, s\<lparr>Ptr := str, str_length := u32 len, Alloced_length := u32 alloced_len\<rparr>) }"

definition set_buffer :: "ptr \<Rightarrow> nat \<Rightarrow> bstate \<Rightarrow> bstate option" where
  "set_buffer str arg_length st = set_alloced str arg_length arg_length st"

definition set_const :: "ptr \<Rightarrow> nat \<Rightarrow> bstate \<Rightarrow> bstate option" where
  "set_const str len st =
     do { (h, s) \<leftarrow> free_buffer st;
          Some (h, s\<lparr>Ptr := str, str_length := u32 len, Alloced_length := 0\<rparr>) }"

definition set_substring :: "Binary_string \<Rightarrow> nat \<Rightarrow> nat \<Rightarrow> bstate \<Rightarrow> bstate option" where
  "set_substring str offset len st =
     do { (h, s) \<leftarrow> free_buffer st;
          Some (h, s\<lparr>Ptr := padd (Ptr str) offset, str_length := u32 len,
                     Alloced_length := (if Alloced_length str \<noteq> 0
                       then u32 (u64 (Alloced_length str + 2 ^ 64 - offset)) else 0)\<rparr>) }"

definition to_lex_cstring :: "Binary_string \<Rightarrow> ptr \<times> nat" where
  "to_lex_cstring s = (Ptr s, str_length s)"

definition bs_reset :: "ptr \<Rightarrow> nat \<Rightarrow> nat \<Rightarrow> bstate \<Rightarrow> bstate option" where
  "bs_reset ptr_arg length_arg alloced_length_arg st =
     do { (h, s) \<leftarrow> set_alloced ptr_arg length_arg alloced_length_arg st;
          Some (h, s\<lparr>alloced := (ptr_arg \<noteq> NULL)\<rparr>) }"

definition bs_release :: "Binary_string \<Rightarrow> ptr \<times> Binary_string" where
  "bs_release s = (Ptr s, init_private_data)"

definition set_buffer_if_not_allocated :: "ptr \<Rightarrow> nat \<Rightarrow> Binary_string \<Rightarrow> Binary_string" where
  "set_buffer_if_not_allocated str arg_length s =
     (if \<not> alloced s
      then s\<lparr>Ptr := str, str_length := u32 arg_length, Alloced_length := u32 arg_length\<rparr> else s)"

text \<open>Assignment from a different object.\<close>

definition bs_assign :: "Binary_string \<Rightarrow> bstate \<Rightarrow> bstate option" where
  "bs_assign s st = set_alloced (Ptr s) (str_length s) (Alloced_length s) st"

definition bs_free :: "bstate \<Rightarrow> bstate option" where
  "bs_free st =
     do { (h, s) \<leftarrow> free_buffer st;
          Some (h, s\<lparr>Ptr := NULL, str_length := 0, Alloced_length := 0, extra_alloc := 0\<rparr>) }"

text \<open>The state of this string and of the one moved from.\<close>

definition bs_move :: "Binary_string \<Rightarrow> bstate \<Rightarrow> (bstate \<times> Binary_string) option" where
  "bs_move s st =
     do { (h, this) \<leftarrow> set_alloced (Ptr s) (str_length s) (Alloced_length s) st;
          Some ((h, this\<lparr>extra_alloc := extra_alloc s, alloced := alloced s,
                         thread_specific := thread_specific s\<rparr>),
                s\<lparr>alloced := False\<rparr>) }"

subsection \<open>Growing and appending\<close>

definition bs_alloc :: "allocator \<Rightarrow> nat \<Rightarrow> bstate \<Rightarrow> bool \<times> bstate" where
  "bs_alloc real_alloc arg_length st =
     (let s = snd st
      in if arg_length \<le> Alloced_length s \<and> Alloced_length s \<noteq> 0 then (False, st)
         else real_alloc arg_length st)"

text \<open>The flag is true when the allocation failed.\<close>

definition bs_realloc :: "allocator \<Rightarrow> nat \<Rightarrow> bstate \<Rightarrow> (bool \<times> bstate) option" where
  "bs_realloc realloc_raw arg_length st =
     (let (fail, st) = realloc_raw (u64 (arg_length + 1)) st
      in if fail then Some (True, st)
         else let (h, s) = st
              in do { h \<leftarrow> store (padd (Ptr s) arg_length) [0] h; Some (False, h, s) })"

definition realloc_with_extra :: "allocator \<Rightarrow> nat \<Rightarrow> bstate \<Rightarrow> (bool \<times> bstate) option" where
  "realloc_with_extra realloc_raw arg_length st =
     (let (h, s) = st;
          s = (if extra_alloc s < 4096 then s\<lparr>extra_alloc := u32 (extra_alloc s * 2 + 128)\<rparr> else s);
          (fail, st) = realloc_raw (u64 (arg_length + extra_alloc s)) (h, s)
      in if fail then Some (True, st)
         else let (h, s) = st
              in do { h \<leftarrow> store (padd (Ptr s) arg_length) [0] h; Some (False, h, s) })"

definition realloc_with_extra_if_needed :: "allocator \<Rightarrow> nat \<Rightarrow> bstate \<Rightarrow> (bool \<times> bstate) option" where
  "realloc_with_extra_if_needed realloc_raw arg_length st =
     (let (h, s) = st
      in if arg_length < Alloced_length s
         then do { h \<leftarrow> store (padd (Ptr s) arg_length) [0] h; Some (False, h, s) }
         else realloc_with_extra realloc_raw arg_length st)"

definition bs_append :: "allocator \<Rightarrow> ptr \<Rightarrow> nat \<Rightarrow> bstate \<Rightarrow> (bool \<times> bstate) option" where
  "bs_append realloc_raw data sz st =
     (if sz = 0 then Some (False, st)
      else do { (fail, st) \<leftarrow> realloc_with_extra_if_needed realloc_raw (u64 (str_length (snd st) + sz)) st;
                if fail then Some (True, st)
                else do { st \<leftarrow> q_append data sz st; Some (False, st) } })"

definition bs_append_string :: "allocator \<Rightarrow> Binary_string \<Rightarrow> bstate \<Rightarrow> (bool \<times> bstate) option" where
  "bs_append_string realloc_raw s st = bs_append realloc_raw (Ptr s) (str_length s) st"

definition append_char :: "allocator \<Rightarrow> uchar \<Rightarrow> bstate \<Rightarrow> (bool \<times> bstate) option" where
  "append_char realloc_raw chr st =
     (let s = snd st
      in if str_length s < Alloced_length s
         then do { st \<leftarrow> q_append_char chr st; Some (False, st) }
         else do { (fail, st) \<leftarrow> realloc_with_extra realloc_raw (u32 (str_length s + 1)) st;
                   if fail then Some (True, st)
                   else do { st \<leftarrow> q_append_char chr st; Some (False, st) } })"

text \<open>The digit table \<^verbatim>\<open>_dig_vec_lower\<close> is a parameter.\<close>

fun append_hex :: "allocator \<Rightarrow> (nat \<Rightarrow> uchar) \<Rightarrow> ptr \<Rightarrow> nat \<Rightarrow> bstate \<Rightarrow> (bool \<times> bstate) option" where
  "append_hex realloc_raw dig src 0 st = Some (False, st)"
| "append_hex realloc_raw dig src (Suc n) st =
     do { x \<leftarrow> load (fst st) src 1;
          (fail, st) \<leftarrow> append_char realloc_raw (dig (unat (drop_bit 4 (hd x)))) st;
          if fail then Some (True, st)
          else do { x \<leftarrow> load (fst st) src 1;
                    (fail, st) \<leftarrow> append_char realloc_raw (dig (unat (hd x AND 0x0F))) st;
                    if fail then Some (True, st)
                    else append_hex realloc_raw dig (padd src 1) n st } }"

definition append_with_step :: "allocator \<Rightarrow> ptr \<Rightarrow> nat \<Rightarrow> nat \<Rightarrow> bstate \<Rightarrow> (bool \<times> bstate) option" where
  "append_with_step realloc_raw data arg_length step_alloc st =
     (let new_length = u32 (arg_length + str_length (snd st))
      in do { (fail, st) \<leftarrow> (if new_length > Alloced_length (snd st)
                             then bs_realloc realloc_raw (u32 (new_length + step_alloc)) st
                             else Some (False, st));
              if fail then Some (True, st)
              else do { st \<leftarrow> q_append data arg_length st; Some (False, st) } })"

text \<open>The address of the empty literal that \<^verbatim>\<open>c_ptr\<close> returns for a null string is a parameter.\<close>

definition c_ptr :: "allocator \<Rightarrow> ptr \<Rightarrow> bstate \<Rightarrow> (ptr \<times> bstate) option" where
  "c_ptr realloc_raw empty_literal st =
     (let (h, s) = st
      in if Ptr s = NULL then Some (empty_literal, st)
         else do { terminated \<leftarrow> (if \<not> alloced s
                                  then do { x \<leftarrow> load h (padd (Ptr s) (str_length s)) 1; Some (hd x = 0) }
                                  else Some False);
                   if terminated then Some (Ptr s, st)
                   else if str_length s < Alloced_length s
                   then do { h \<leftarrow> store (padd (Ptr s) (str_length s)) [0] h; Some (Ptr s, h, s) }
                   else do { (fail, st) \<leftarrow> bs_realloc realloc_raw (str_length s) st;
                             Some (Ptr (snd st), st) } })"

definition c_ptr_safe :: "allocator \<Rightarrow> bstate \<Rightarrow> (ptr \<times> bstate) option" where
  "c_ptr_safe realloc_raw st =
     (let (h, s) = st
      in if Ptr s \<noteq> NULL \<and> str_length s < Alloced_length s
         then do { h \<leftarrow> store (padd (Ptr s) (str_length s)) [0] h; Some (Ptr s, h, s) }
         else do { (fail, st) \<leftarrow> bs_realloc realloc_raw (str_length s) st; Some (Ptr (snd st), st) })"

definition c_ptr_quick :: "allocator \<Rightarrow> bstate \<Rightarrow> (ptr \<times> bstate) option" where
  "c_ptr_quick realloc_raw st = c_ptr_safe realloc_raw st"

definition bs_reserve :: "allocator \<Rightarrow> nat \<Rightarrow> bstate \<Rightarrow> (bool \<times> bstate) option" where
  "bs_reserve realloc_raw space_needed st =
     bs_realloc realloc_raw (u64 (str_length (snd st) + space_needed)) st"

text \<open>Returns the area to fill, or \<^const>\<open>NULL\<close> when out of memory.\<close>

definition prep_append :: "allocator \<Rightarrow> nat \<Rightarrow> nat \<Rightarrow> bstate \<Rightarrow> (ptr \<times> bstate) option" where
  "prep_append realloc_raw arg_length step_alloc st =
     (let new_length = u32 (arg_length + str_length (snd st))
      in do { (fail, st) \<leftarrow> (if new_length > Alloced_length (snd st)
                             then bs_realloc realloc_raw (u32 (new_length + step_alloc)) st
                             else Some (False, st));
              if fail then Some (NULL, st)
              else let (h, s) = st
                   in Some (padd (Ptr s) (str_length s), h, s\<lparr>str_length := u32 (str_length s + arg_length)\<rparr>) })"

text \<open>The length encoding \<^verbatim>\<open>net_store_length\<close> is a parameter: the bytes it stores for a length.\<close>

definition q_net_store_length :: "(nat \<Rightarrow> uchar list) \<Rightarrow> nat \<Rightarrow> bstate \<Rightarrow> bstate option" where
  "q_net_store_length net_store_length len st =
     (let (h, s) = st; xs = net_store_length len
      in do { h \<leftarrow> store (padd (Ptr s) (str_length s)) xs h;
              Some (h, s\<lparr>str_length := u32 (str_length s + length xs)\<rparr>) })"

definition q_net_store_data :: "(nat \<Rightarrow> uchar list) \<Rightarrow> ptr \<Rightarrow> nat \<Rightarrow> bstate \<Rightarrow> bstate option" where
  "q_net_store_data net_store_length from_ptr len st =
     do { st \<leftarrow> q_net_store_length net_store_length len st; q_append from_ptr (u32 len) st }"

section \<open>Charset and String\<close>

text \<open>Of a character set only what the classes read directly; its functions are parameters.\<close>

record CHARSET_INFO =
  cs_number :: nat
  mbminlen :: nat
  mbmaxlen :: nat

definition is_good_for_ft :: "CHARSET_INFO \<Rightarrow> CHARSET_INFO \<Rightarrow> bool" where
  "is_good_for_ft my_charset_bin m_charset \<longleftrightarrow> m_charset \<noteq> my_charset_bin \<and> mbminlen m_charset = 1"

record String =
  base :: Binary_string
  m_charset :: CHARSET_INFO

type_synonym sstate = "heap \<times> String"

text \<open>An operation of \<^verbatim>\<open>Binary_string\<close> on the base object.\<close>

definition on_base :: "(bstate \<Rightarrow> bstate option) \<Rightarrow> sstate \<Rightarrow> sstate option" where
  "on_base f st = (let (h, s) = st in do { (h, b) \<leftarrow> f (h, base s); Some (h, s\<lparr>base := b\<rparr>) })"

definition set_charset :: "CHARSET_INFO \<Rightarrow> sstate \<Rightarrow> sstate" where
  "set_charset cs st = (fst st, (snd st)\<lparr>m_charset := cs\<rparr>)"

definition string_of_const :: "ptr \<Rightarrow> nat \<Rightarrow> CHARSET_INFO \<Rightarrow> String" where
  "string_of_const str len cs = \<lparr>base = bs_of_const str len, m_charset = cs\<rparr>"

definition string_of_buffer :: "ptr \<Rightarrow> nat \<Rightarrow> CHARSET_INFO \<Rightarrow> String" where
  "string_of_buffer str len cs = \<lparr>base = bs_of_buffer str len, m_charset = cs\<rparr>"

definition string_set_substring :: "String \<Rightarrow> nat \<Rightarrow> nat \<Rightarrow> sstate \<Rightarrow> sstate option" where
  "string_set_substring str offset arg_length st =
     do { st \<leftarrow> on_base (set_substring (base str) offset arg_length) st;
          Some (set_charset (m_charset str) st) }"

definition string_set_buffer :: "ptr \<Rightarrow> nat \<Rightarrow> CHARSET_INFO \<Rightarrow> sstate \<Rightarrow> sstate option" where
  "string_set_buffer str arg_length cs st =
     do { st \<leftarrow> on_base (set_buffer str arg_length) st; Some (set_charset cs st) }"

definition string_set_const :: "ptr \<Rightarrow> nat \<Rightarrow> CHARSET_INFO \<Rightarrow> sstate \<Rightarrow> sstate option" where
  "string_set_const str arg_length cs st =
     do { st \<leftarrow> on_base (set_const str arg_length) st; Some (set_charset cs st) }"

definition string_set_buffer_if_not_allocated :: "ptr \<Rightarrow> nat \<Rightarrow> CHARSET_INFO \<Rightarrow> sstate \<Rightarrow> sstate" where
  "string_set_buffer_if_not_allocated str arg_length cs st =
     (let (h, s) = st
      in set_charset cs (h, s\<lparr>base := set_buffer_if_not_allocated str arg_length (base s)\<rparr>))"

definition string_reset :: "ptr \<Rightarrow> nat \<Rightarrow> nat \<Rightarrow> CHARSET_INFO \<Rightarrow> sstate \<Rightarrow> sstate option" where
  "string_reset ptr_arg length_arg alloced_length_arg cs st =
     do { st \<leftarrow> on_base (bs_reset ptr_arg length_arg alloced_length_arg) st; Some (set_charset cs st) }"

definition string_assign :: "String \<Rightarrow> sstate \<Rightarrow> sstate option" where
  "string_assign s st = on_base (bs_assign (base s)) (set_charset (m_charset s) st)"

definition string_swap :: "String \<Rightarrow> String \<Rightarrow> String \<times> String" where
  "string_swap this s =
     (let (a, b) = bs_swap (base this) (base s)
      in (\<lparr>base = a, m_charset = m_charset s\<rparr>, \<lparr>base = b, m_charset = m_charset this\<rparr>))"

definition is_ascii :: "sstate \<Rightarrow> bool option" where
  "is_ascii st =
     (let (h, s) = st
      in if str_length (base s) = 0 then Some True
         else if mbminlen (m_charset s) > 1 then Some False
         else map_option Not (has_8bit_bytes (h, base s)))"

text \<open>Copying with conversion. The routine \<^verbatim>\<open>well_formed_copy\<close> is a parameter: from the target character
  set, the room in the target, the source character set, the source bytes and the character limit it
  gives the bytes written.\<close>

definition string_copy_convert ::
  "allocator \<Rightarrow> (CHARSET_INFO \<Rightarrow> nat \<Rightarrow> CHARSET_INFO \<Rightarrow> uchar list \<Rightarrow> nat \<Rightarrow> uchar list)
   \<Rightarrow> CHARSET_INFO \<Rightarrow> CHARSET_INFO \<Rightarrow> ptr \<Rightarrow> nat \<Rightarrow> nat \<Rightarrow> sstate \<Rightarrow> (bool \<times> sstate) option" where
  "string_copy_convert real_alloc well_formed_copy tocs fromcs src src_length nchars st =
     (let (h, s) = st; (fail, h, b) = bs_alloc real_alloc (u64 (mbmaxlen tocs * src_length)) (h, base s)
      in if fail then Some (True, h, s\<lparr>base := b\<rparr>)
         else do { xs \<leftarrow> load h src (u32 src_length);
                   let ys = well_formed_copy tocs (Alloced_length b) fromcs xs (u32 nchars);
                   h \<leftarrow> store (Ptr b) ys h;
                   Some (False, set_charset tocs (h, s\<lparr>base := b\<lparr>str_length := length ys\<rparr>\<rparr>)) })"

text \<open>\<^verbatim>\<open>StringBuffer\<close>: a string over a member array; the address of the array is a parameter.\<close>

definition StringBuffer_new :: "ptr \<Rightarrow> nat \<Rightarrow> CHARSET_INFO \<Rightarrow> String" where
  "StringBuffer_new buff buff_sz cs =
     (let s = string_of_buffer buff buff_sz cs in s\<lparr>base := set_length 0 (base s)\<rparr>)"

definition StringBuffer_set_buffer_if_not_allocated ::
  "ptr \<Rightarrow> nat \<Rightarrow> CHARSET_INFO \<Rightarrow> sstate \<Rightarrow> sstate" where
  "StringBuffer_set_buffer_if_not_allocated buff buff_sz cs st =
     (let (h, s) = st; b = base s;
          b = (if \<not> alloced b then b\<lparr>Ptr := buff, Alloced_length := u32 buff_sz\<rparr> else b);
          b = b\<lparr>str_length := 0\<rparr>
      in set_charset cs (h, s\<lparr>base := b\<rparr>))"

definition BinaryStringBuffer_new :: "ptr \<Rightarrow> nat \<Rightarrow> Binary_string" where
  "BinaryStringBuffer_new buff buff_sz = set_length 0 (bs_of_buffer buff buff_sz)"

section \<open>Loads and stores\<close>

fun block_of :: "ptr \<Rightarrow> nat set" where
  "block_of NULL = {}"
| "block_of (At b i) = {b}"

lemma padd_padd [simp]: "padd (padd p i) j = padd p (i + j)"
  by (cases p) simp_all

lemma padd_0 [simp]: "padd p 0 = p"
  by (cases p) simp_all

lemma block_of_padd [simp]: "block_of (padd p i) = block_of p"
  by (cases p) simp_all

lemma length_overwrite [simp]: "i + length xs \<le> length bs \<Longrightarrow> length (overwrite i xs bs) = length bs"
  by (simp add: overwrite_def)

lemma load_length: "load h p n = Some xs \<Longrightarrow> length xs = n"
  by (cases p) (auto split: if_splits option.splits)

lemma load_cong: "(\<And>b. b \<in> block_of p \<Longrightarrow> blocks h' b = blocks h b) \<Longrightarrow> load h' p n = load h p n"
  by (cases p) auto

lemma load_live: "load h p n = Some xs \<Longrightarrow> n \<noteq> 0 \<Longrightarrow> b \<in> block_of p \<Longrightarrow> blocks h b \<noteq> None"
  by (cases p) (auto split: option.splits)

lemma load_prefix:
  assumes "load h p n = Some xs" and "k \<le> n"
  shows "load h p k = Some (take k xs)"
  using assms by (cases p) (auto split: option.splits if_splits simp: min_def)

lemma store_Nil: "load h p n \<noteq> None \<Longrightarrow> store p [] h = Some h"
  by (cases p) (auto simp: overwrite_def fun_upd_idem split: option.splits if_splits)

text \<open>Writing inside the readable part of a block: a defined heap that differs in that block only,
  with the bytes in place and the bytes before them kept.\<close>

lemma store_within:
  assumes "load h p n \<noteq> None" and "k + length ys \<le> n"
  shows "\<exists>h'. store (padd p k) ys h = Some h' \<and> next_block h' = next_block h
      \<and> (\<forall>b. b \<notin> block_of p \<longrightarrow> blocks h' b = blocks h b)
      \<and> (\<forall>b. blocks h' b = None \<longleftrightarrow> blocks h b = None)
      \<and> load h' p n \<noteq> None
      \<and> (\<forall>j xs. load h p j = Some xs \<longrightarrow> j \<le> k \<longrightarrow> load h' p j = Some xs)
      \<and> (\<forall>xs. load h p k = Some xs \<longrightarrow> load h' p (k + length ys) = Some (xs @ ys))"
proof (cases p)
  case NULL
  then show ?thesis using assms by (auto split: if_splits)
next
  case (At b i)
  then obtain bs where bs: "blocks h b = Some bs" "i + n \<le> length bs"
    using assms(1) by (auto split: option.splits if_splits)
  let ?o = "overwrite (i + k) ys bs"
  have len: "length ?o = length bs" using bs assms(2) by simp
  have "take j (drop i ?o) = take j (drop i bs)" if "j \<le> k" for j
    using that bs(2) assms(2) by (simp add: overwrite_def drop_append take_append min_def take_drop)
  moreover have "take (k + length ys) (drop i ?o) = take k (drop i bs) @ ys"
    using bs(2) assms(2) by (simp add: overwrite_def take_append take_drop add.commute)
  ultimately show ?thesis using At bs assms(2) len by (auto split: if_splits)
qed

section \<open>The text of a string\<close>

text \<open>The block a string may write to: none for a constant string.\<close>

definition own :: "Binary_string \<Rightarrow> nat set" where
  "own s = (if Alloced_length s = 0 then {} else block_of (Ptr s))"

definition bs_holds :: "heap \<Rightarrow> Binary_string \<Rightarrow> uchar list \<Rightarrow> bool" where
  "bs_holds h s xs \<longleftrightarrow> wf_heap h \<and> load h (Ptr s) (str_length s) = Some xs
     \<and> load h (Ptr s) (Alloced_length s) \<noteq> None \<and> (Alloced_length s \<noteq> 0 \<longrightarrow> str_length s \<le> Alloced_length s)
     \<and> str_length s < 2 ^ 32 \<and> Alloced_length s < 2 ^ 32 \<and> extra_alloc s < 2 ^ 32
     \<and> (alloced s \<longrightarrow> Alloced_length s \<noteq> 0 \<and> (\<exists>b. Ptr s = At b 0))"

text \<open>Blocks of others are kept.\<close>

definition frame :: "heap \<Rightarrow> Binary_string \<Rightarrow> heap \<Rightarrow> bool" where
  "frame h s h' \<longleftrightarrow> (\<forall>b. b \<notin> own s \<longrightarrow> blocks h b \<noteq> None \<longrightarrow> blocks h' b = blocks h b)"

text \<open>What the string classes rely on in \<^verbatim>\<open>realloc_raw\<close>: the text is kept, a failure changes nothing, success
  provides the room asked for, and only the string's own block or fresh ones change.\<close>

definition realloc_ok :: "allocator \<Rightarrow> bool" where
  "realloc_ok R \<longleftrightarrow> (\<forall>n h s xs fail h' s'.
     bs_holds h s xs \<longrightarrow> length xs \<le> n \<longrightarrow> R n (h, s) = (fail, h', s') \<longrightarrow>
       bs_holds h' s' xs \<and> extra_alloc s' = extra_alloc s \<and> frame h s h'
       \<and> own s' \<subseteq> own s \<union> {b. blocks h b = None}
       \<and> (fail \<longrightarrow> h' = h \<and> s' = s) \<and> (\<not> fail \<longrightarrow> n \<le> Alloced_length s'))"

lemma realloc_okD:
  assumes "realloc_ok R" and "bs_holds h s xs" and "length xs \<le> n" and "R n (h, s) = (fail, h', s')"
  shows "bs_holds h' s' xs" and "extra_alloc s' = extra_alloc s" and "frame h s h'"
    and "own s' \<subseteq> own s \<union> {b. blocks h b = None}" and "fail \<Longrightarrow> h' = h \<and> s' = s"
    and "\<not> fail \<Longrightarrow> n \<le> Alloced_length s'"
  using assms unfolding realloc_ok_def by blast+

lemma bs_holds_length: "bs_holds h s xs \<Longrightarrow> length xs = str_length s"
  by (auto simp: bs_holds_def dest: load_length)

lemma bs_holds_load: "bs_holds h s xs \<Longrightarrow> load h (Ptr s) (str_length s) = Some xs"
  by (simp add: bs_holds_def)

lemma frame_refl [simp]: "frame h s h"
  by (simp add: frame_def)

text \<open>Two steps compose when the second only writes to what the first left the string.\<close>

lemma frame_trans:
  assumes "frame h s h'" and "own s' \<subseteq> own s \<union> {b. blocks h b = None}" and "frame h' s' h''"
  shows "frame h s h''"
  unfolding frame_def
proof (intro allI impI)
  fix b assume b: "b \<notin> own s" "blocks h b \<noteq> None"
  then have "blocks h' b = blocks h b" "b \<notin> own s'" using assms(1,2) by (auto simp: frame_def)
  then show "blocks h'' b = blocks h b" using assms(3) b by (simp add: frame_def)
qed

text \<open>Writing into the buffer behind the text, and counting the bytes as text.\<close>

lemma bs_store_end:
  assumes h: "bs_holds h s xs" and room: "str_length s + length ys \<le> Alloced_length s"
  shows "\<exists>h'. store (padd (Ptr s) (str_length s)) ys h = Some h' \<and> frame h s h'
     \<and> bs_holds h' s xs \<and> bs_holds h' (s\<lparr>str_length := str_length s + length ys\<rparr>) (xs @ ys)"
proof (cases "Alloced_length s = 0")
  case True
  then have "ys = []" "str_length s = 0" using room by auto
  moreover have "store (Ptr s) [] h = Some h" using h by (auto simp: bs_holds_def intro: store_Nil)
  ultimately show ?thesis using h by (auto simp: bs_holds_def)
next
  case False
  then have own: "own s = block_of (Ptr s)" by (simp add: own_def)
  from store_within [of h "Ptr s" "Alloced_length s" "str_length s" ys] h room
  obtain h' where h': "store (padd (Ptr s) (str_length s)) ys h = Some h'" "next_block h' = next_block h"
      "\<And>b. b \<notin> block_of (Ptr s) \<Longrightarrow> blocks h' b = blocks h b" "\<And>b. blocks h' b = None \<longleftrightarrow> blocks h b = None"
      "load h' (Ptr s) (Alloced_length s) \<noteq> None" "load h' (Ptr s) (str_length s) = Some xs"
      "load h' (Ptr s) (str_length s + length ys) = Some (xs @ ys)"
    unfolding bs_holds_def by blast
  then show ?thesis using h room own False
    by (intro exI [of _ h']) (auto simp: bs_holds_def frame_def wf_heap_def)
qed

text \<open>Writing a byte further behind the text, as the growing operations do with the terminator.\<close>

lemma bs_store_beyond:
  assumes h: "bs_holds h s xs" and room: "str_length s \<le> n" "n < Alloced_length s"
  shows "\<exists>h'. store (padd (Ptr s) n) [c] h = Some h' \<and> frame h s h' \<and> bs_holds h' s xs"
proof -
  have own: "own s = block_of (Ptr s)" using room by (simp add: own_def)
  from store_within [of h "Ptr s" "Alloced_length s" n "[c]"] h room
  obtain h' where h': "store (padd (Ptr s) n) [c] h = Some h'" "next_block h' = next_block h"
      "\<And>b. b \<notin> block_of (Ptr s) \<Longrightarrow> blocks h' b = blocks h b" "\<And>b. blocks h' b = None \<longleftrightarrow> blocks h b = None"
      "load h' (Ptr s) (Alloced_length s) \<noteq> None" "load h' (Ptr s) (str_length s) = Some xs"
    unfolding bs_holds_def by auto
  then show ?thesis using h own
    by (intro exI [of _ h']) (auto simp: bs_holds_def frame_def wf_heap_def)
qed

text \<open>A step that may fail to allocate.\<close>

definition bs_step :: "(bool \<times> bstate) option \<Rightarrow> bstate \<Rightarrow> uchar list \<Rightarrow> uchar list \<Rightarrow> (Binary_string \<Rightarrow> bool) \<Rightarrow> bool" where
  "bs_step r st xs ys P \<longleftrightarrow> (\<exists>fail h' s'. r = Some (fail, h', s') \<and> bs_holds h' s' (if fail then xs else ys)
     \<and> frame (fst st) (snd st) h' \<and> own s' \<subseteq> own (snd st) \<union> {b. blocks (fst st) b = None} \<and> (\<not> fail \<longrightarrow> P s'))"

lemma bs_realloc_step:
  assumes R: "realloc_ok R" and h: "bs_holds h s xs" and n: "length xs \<le> n" "n + 1 < 2 ^ 64"
  shows "bs_step (bs_realloc R n (h, s)) (h, s) xs xs (\<lambda>s'. n < Alloced_length s')"
proof -
  obtain fail h' s' where r: "R (n + 1) (h, s) = (fail, h', s')" by (metis prod_cases3)
  note R' = realloc_okD [OF R h _ r]
  have u: "u64 (n + 1) = n + 1" using n by (simp add: u64_def)
  show ?thesis
  proof (cases fail)
    case True
    then show ?thesis using r u R' n h by (auto simp: bs_realloc_def bs_step_def)
  next
    case False
    then have a: "n + 1 \<le> Alloced_length s'" and h': "bs_holds h' s' xs" using R' n by auto
    from h' have "str_length s' = length xs" by (simp add: bs_holds_length)
    with a n bs_store_beyond [OF h', of n 0] obtain h'' where
      "store (padd (Ptr s') n) [0] h' = Some h''" "frame h' s' h''" "bs_holds h'' s' xs" by auto
    then show ?thesis using False r u R' n a
      by (auto simp: bs_realloc_def bs_step_def intro: frame_trans)
  qed
qed

lemma extra_growth:
  "extra_alloc s < 2 ^ 32 \<Longrightarrow>
   (if extra_alloc s < 4096 then s\<lparr>extra_alloc := u32 (extra_alloc s * 2 + 128)\<rparr> else s)
     = s\<lparr>extra_alloc := (if extra_alloc s < 4096 then extra_alloc s * 2 + 128 else extra_alloc s)\<rparr>"
  by (simp add: u32_def)

lemma bs_holds_extra: "bs_holds h s xs \<Longrightarrow> e < 2 ^ 32 \<Longrightarrow> bs_holds h (s\<lparr>extra_alloc := e\<rparr>) xs"
  by (simp add: bs_holds_def)

lemma own_update [simp]:
  "own (s\<lparr>extra_alloc := e\<rparr>) = own s" "own (s\<lparr>str_length := n\<rparr>) = own s"
  by (simp_all add: own_def)

lemma frame_update [simp]:
  "frame h (s\<lparr>extra_alloc := e\<rparr>) h' = frame h s h'" "frame h (s\<lparr>str_length := n\<rparr>) h' = frame h s h'"
  by (simp_all add: frame_def)

lemma realloc_with_extra_step:
  assumes R: "realloc_ok R" and h: "bs_holds h s xs" and n: "length xs \<le> n" "n < 2 ^ 63"
  shows "bs_step (realloc_with_extra R n (h, s)) (h, s) xs xs (\<lambda>s'. n < Alloced_length s')"
proof -
  define e where "e = (if extra_alloc s < 4096 then extra_alloc s * 2 + 128 else extra_alloc s)"
  have e: "e < 2 ^ 32" "0 < e" using h by (auto simp: e_def bs_holds_def)
  have es: "(if extra_alloc s < 4096 then s\<lparr>extra_alloc := u32 (extra_alloc s * 2 + 128)\<rparr> else s)
              = s\<lparr>extra_alloc := e\<rparr>"
    using h extra_growth [of s] by (simp add: e_def bs_holds_def)
  have h1: "bs_holds h (s\<lparr>extra_alloc := e\<rparr>) xs" using h e by (simp add: bs_holds_extra)
  obtain fail h' s' where r: "R (n + e) (h, s\<lparr>extra_alloc := e\<rparr>) = (fail, h', s')" by (metis prod_cases3)
  note R' = realloc_okD [OF R h1 _ r]
  have u: "u64 (n + e) = n + e" using n e by (simp add: u64_def)
  show ?thesis
  proof (cases fail)
    case True
    have "realloc_with_extra R n (h, s) = Some (True, h', s')"
      unfolding realloc_with_extra_def Let_def case_prod_conv es using r u True by simp
    then show ?thesis using R' n True by (auto simp: bs_step_def)
  next
    case False
    then have a: "n + e \<le> Alloced_length s'" and h': "bs_holds h' s' xs" using R' n by auto
    from h' have "str_length s' = length xs" by (simp add: bs_holds_length)
    with a n e bs_store_beyond [OF h', of n 0] obtain h'' where
      st: "store (padd (Ptr s') n) [0] h' = Some h''" and "frame h' s' h''" "bs_holds h'' s' xs" by auto
    have "realloc_with_extra R n (h, s) = Some (False, h'', s')"
      unfolding realloc_with_extra_def Let_def case_prod_conv es using r u st False by simp
    moreover have "frame h s h''" using frame_trans [of h "s\<lparr>extra_alloc := e\<rparr>" h' s' h''] R' n \<open>frame h' s' h''\<close> by simp
    ultimately show ?thesis using R' n a e \<open>bs_holds h'' s' xs\<close> False by (auto simp: bs_step_def)
  qed
qed

lemma realloc_if_needed_step:
  assumes R: "realloc_ok R" and h: "bs_holds h s xs" and n: "length xs \<le> n" "n < 2 ^ 63"
  shows "bs_step (realloc_with_extra_if_needed R n (h, s)) (h, s) xs xs (\<lambda>s'. n < Alloced_length s')"
proof (cases "n < Alloced_length s")
  case True
  have "str_length s \<le> n" using n bs_holds_length [OF h] by simp
  from bs_store_beyond [OF h this True, of 0] obtain h' where
    "store (padd (Ptr s) n) [0] h = Some h'" "frame h s h'" "bs_holds h' s xs" by blast
  then show ?thesis using True by (auto simp: realloc_with_extra_if_needed_def bs_step_def)
next
  case False
  then show ?thesis using realloc_with_extra_step [OF R h n] by (simp add: realloc_with_extra_if_needed_def)
qed

text \<open>Appending bytes for which there is room.\<close>

lemma q_append_room:
  assumes h: "bs_holds h s xs" and d: "load h data n = Some ys" and room: "str_length s + n \<le> Alloced_length s"
  shows "\<exists>h' s'. q_append data n (h, s) = Some (h', s') \<and> bs_holds h' s' (xs @ ys) \<and> frame h s h' \<and> own s' = own s"
proof -
  have n: "length ys = n" using d by (rule load_length)
  have lt: "str_length s + n < 2 ^ 32" using h room by (simp add: bs_holds_def)
  from bs_store_end [OF h, of ys] room n obtain h' where
    h': "store (padd (Ptr s) (str_length s)) ys h = Some h'" "frame h s h'"
       "bs_holds h' (s\<lparr>str_length := str_length s + n\<rparr>) (xs @ ys)" by auto
  have u: "u32 (str_length s + u32 n) = str_length s + n" using lt by (simp add: u32_def)
  show ?thesis
  proof (cases "n = 0")
    case True
    then show ?thesis using h n u by (auto simp: q_append_def)
  next
    case False
    then show ?thesis using h' d u by (simp add: q_append_def)
  qed
qed

lemma q_append_char_room:
  assumes h: "bs_holds h s xs" and room: "str_length s < Alloced_length s"
  shows "\<exists>h' s'. q_append_char c (h, s) = Some (h', s') \<and> bs_holds h' s' (xs @ [c]) \<and> frame h s h' \<and> own s' = own s"
proof -
  from bs_store_end [OF h, of "[c]"] room obtain h' where
    h': "store (padd (Ptr s) (str_length s)) [c] h = Some h'" "frame h s h'"
       "bs_holds h' (s\<lparr>str_length := str_length s + 1\<rparr>) (xs @ [c])" by auto
  have "u32 (str_length s + 1) = str_length s + 1" using h room by (simp add: u32_def bs_holds_def)
  then show ?thesis using h' by (simp add: q_append_char_def)
qed

text \<open>A growing step followed by a write to the room it made.\<close>

lemma bs_step_then:
  assumes st: "bs_step r (h, s) xs xs P"
    and w: "\<And>h' s'. bs_holds h' s' xs \<Longrightarrow> P s' \<Longrightarrow> frame h s h' \<Longrightarrow>
      \<exists>h'' s''. f (h', s') = Some (h'', s'') \<and> bs_holds h'' s'' ys \<and> frame h' s' h'' \<and> own s'' = own s'"
  shows "bs_step (do { (fail, st) \<leftarrow> r; if fail then Some (True, st) else do { st \<leftarrow> f st; Some (False, st) } })
           (h, s) xs ys (\<lambda>_. True)"
proof -
  from st obtain fail h' s' where r: "r = Some (fail, h', s')" "bs_holds h' s' xs" "frame h s h'"
    "own s' \<subseteq> own s \<union> {b. blocks h b = None}" "\<not> fail \<longrightarrow> P s'" by (auto simp: bs_step_def split: if_splits)
  show ?thesis
  proof (cases fail)
    case True
    then show ?thesis using r by (auto simp: bs_step_def intro!: exI [of _ True])
  next
    case False
    with r w obtain h'' s'' where "f (h', s') = Some (h'', s'')" "bs_holds h'' s'' ys" "frame h' s' h''"
      "own s'' = own s'" by blast
    then show ?thesis using r False frame_trans [of h s h' s' h''] by (auto simp: bs_step_def)
  qed
qed

lemma frame_load:
  assumes "frame h s h'" and "load h p n = Some ys" and "block_of p \<inter> own s = {}" and "n \<noteq> 0"
  shows "load h' p n = Some ys"
proof -
  have "blocks h' b = blocks h b" if "b \<in> block_of p" for b
    using load_live [OF assms(2,4) that] assms(1,3) that by (auto simp: frame_def)
  then show ?thesis using load_cong [of p h' h n] assms(2) by simp
qed

lemma bs_append_step:
  assumes R: "realloc_ok R" and h: "bs_holds h s xs" and d: "load h data n = Some ys"
    and "block_of data \<inter> own s = {}" and "n < 2 ^ 62"
  shows "bs_step (bs_append R data n (h, s)) (h, s) xs (xs @ ys) (\<lambda>_. True)"
proof (cases "n = 0")
  case True
  then show ?thesis using h load_length [OF d] by (auto simp: bs_append_def bs_step_def)
next
  case False
  have len: "length xs = str_length s" "str_length s < 2 ^ 32" using h bs_holds_length by (auto simp: bs_holds_def)
  have u: "u64 (str_length s + n) = str_length s + n" using len assms(5) by (simp add: u64_def)
  have lt: "str_length s + n < 2 ^ 63" using len assms(5) by simp
  have "bs_step (realloc_with_extra_if_needed R (str_length s + n) (h, s)) (h, s) xs xs
          (\<lambda>s'. str_length s + n < Alloced_length s')"
    using realloc_if_needed_step [OF R h, of "str_length s + n"] len lt by simp
  then have "bs_step (do { (fail, st) \<leftarrow> realloc_with_extra_if_needed R (str_length s + n) (h, s);
      if fail then Some (True, st) else do { st \<leftarrow> q_append data n st; Some (False, st) } })
    (h, s) xs (xs @ ys) (\<lambda>_. True)"
  proof (rule bs_step_then)
    fix h' s' assume h': "bs_holds h' s' xs" "str_length s + n < Alloced_length s'" "frame h s h'"
    have "str_length s' = str_length s" using h'(1) len bs_holds_length by simp
    then show "\<exists>h'' s''. q_append data n (h', s') = Some (h'', s'') \<and> bs_holds h'' s'' (xs @ ys)
        \<and> frame h' s' h'' \<and> own s'' = own s'"
      using h' frame_load [OF h'(3) d assms(4) False] by (intro q_append_room) auto
  qed
  then show ?thesis using False u by (simp add: bs_append_def)
qed

lemma append_char_step:
  assumes R: "realloc_ok R" and h: "bs_holds h s xs" and n: "length xs + 1 < 2 ^ 32"
  shows "bs_step (append_char R c (h, s)) (h, s) xs (xs @ [c]) (\<lambda>_. True)"
proof (cases "str_length s < Alloced_length s")
  case True
  then show ?thesis using q_append_char_room [OF h True, of c] by (auto simp: append_char_def bs_step_def)
next
  case False
  have len: "length xs = str_length s" using h bs_holds_length by simp
  have u: "u32 (str_length s + 1) = str_length s + 1" using n len by (simp add: u32_def)
  have "bs_step (realloc_with_extra R (str_length s + 1) (h, s)) (h, s) xs xs
          (\<lambda>s'. str_length s + 1 < Alloced_length s')"
    using realloc_with_extra_step [OF R h, of "str_length s + 1"] len n by simp
  then have "bs_step (do { (fail, st) \<leftarrow> realloc_with_extra R (str_length s + 1) (h, s);
      if fail then Some (True, st) else do { st \<leftarrow> q_append_char c st; Some (False, st) } })
    (h, s) xs (xs @ [c]) (\<lambda>_. True)"
    by (rule bs_step_then) (auto intro!: q_append_char_room dest: bs_holds_length simp: len)
  then show ?thesis using False u by (simp add: append_char_def)
qed

text \<open>Each byte becomes two digits; on failure a prefix of the digits has been appended.\<close>

definition hex_digits :: "(nat \<Rightarrow> uchar) \<Rightarrow> uchar list \<Rightarrow> uchar list" where
  "hex_digits dig ys = concat (map (\<lambda>x. [dig (unat x div 16), dig (unat x mod 16)]) ys)"

lemma nibbles: "unat (drop_bit 4 x) = unat (x :: uchar) div 16" "unat (x AND 0x0F) = unat (x :: uchar) mod 16"
proof -
  show "unat (drop_bit 4 x) = unat x div 16" by (simp add: unat_drop_bit)
  show "unat (x AND 0x0F) = unat x mod 16" using unat_and_mask [of x 4] by (simp add: mask_eq_exp_minus_1)
qed

lemma load_Cons:
  assumes "load h p (Suc n) = Some (y # ys)"
  shows "load h p 1 = Some [y]" and "load h (padd p 1) n = Some ys"
proof -
  obtain b i bs where p: "p = At b i" "blocks h b = Some bs" "i + Suc n \<le> length bs"
    "take (Suc n) (drop i bs) = y # ys"
    using assms by (cases p) (auto split: option.splits if_splits)
  then obtain zs where zs: "drop i bs = y # zs" "take n zs = ys" by (cases "drop i bs") auto
  then have "drop (Suc i) bs = zs" by (metis drop_Suc list.sel(3) tl_drop)
  then show "load h p 1 = Some [y]" "load h (padd p 1) n = Some ys" using p zs by simp_all
qed

lemma bs_stepE:
  assumes "bs_step r (h, s) xs ys P"
  obtains fail h' s' where "r = Some (fail, h', s')" "bs_holds h' s' (if fail then xs else ys)" "frame h s h'"
    "own s' \<subseteq> own s \<union> {b. blocks h b = None}" "\<not> fail \<Longrightarrow> P s'"
  using assms by (auto simp: bs_step_def)

lemma own_trans:
  assumes "frame h s h1" and "own s1 \<subseteq> own s \<union> {b. blocks h b = None}"
    and "own s2 \<subseteq> own s1 \<union> {b. blocks h1 b = None}"
  shows "own s2 \<subseteq> own s \<union> {b. blocks h b = None}"
proof
  fix x assume x: "x \<in> own s2"
  show "x \<in> own s \<union> {b. blocks h b = None}"
  proof (rule ccontr)
    assume n: "x \<notin> own s \<union> {b. blocks h b = None}"
    then have "blocks h1 x = blocks h x" using assms(1) by (auto simp: frame_def)
    then have "x \<in> own s1" using assms(3) x n by auto
    then show False using assms(2) n by blast
  qed
qed

text \<open>A live block outside the string stays outside it.\<close>

lemma outside_step:
  assumes "own s' \<subseteq> own s \<union> {b. blocks h b = None}" and "block_of p \<inter> own s = {}"
    and "load h p n = Some ys" and "n \<noteq> 0"
  shows "block_of p \<inter> own s' = {}"
  using assms(1,2) load_live [OF assms(3,4)] by blast

lemma append_hex_steps:
  assumes R: "realloc_ok R" and "bs_holds h s xs" and "load h src (length ys) = Some ys"
    and "block_of src \<inter> own s = {}" and "length xs + 2 * length ys < 2 ^ 32"
  shows "\<exists>fail h' s' zs. append_hex R dig src (length ys) (h, s) = Some (fail, h', s') \<and> bs_holds h' s' (xs @ zs)
           \<and> prefix zs (hex_digits dig ys) \<and> (\<not> fail \<longrightarrow> zs = hex_digits dig ys) \<and> frame h s h'"
  using assms(2-)
proof (induction ys arbitrary: src h s xs)
  case Nil
  then show ?case by (auto simp: hex_digits_def)
next
  case (Cons y ys)
  let ?a = "dig (unat y div 16)" and ?b = "dig (unat y mod 16)"
  have hd: "hex_digits dig (y # ys) = ?a # ?b # hex_digits dig ys" by (simp add: hex_digits_def)
  have y: "load h src 1 = Some [y]" using load_Cons(1) Cons.prems(2) by simp
  obtain f1 h1 s1 where 1: "append_char R ?a (h, s) = Some (f1, h1, s1)" "bs_holds h1 s1 (if f1 then xs else xs @ [?a])"
      "frame h s h1" "own s1 \<subseteq> own s \<union> {b. blocks h b = None}"
    by (rule bs_stepE [OF append_char_step [OF R Cons.prems(1), of ?a]]) (use Cons.prems(4) in auto)
  show ?case
  proof (cases f1)
    case True
    then show ?thesis using 1 y hd by (auto simp: nibbles intro!: exI [of _ "[]"])
  next
    case False
    have src1: "load h1 src (length (y # ys)) = Some (y # ys)" "block_of src \<inter> own s1 = {}"
      using frame_load [OF 1(3) Cons.prems(2,3)] outside_step [OF 1(4) Cons.prems(3,2)] by simp_all
    have y1: "load h1 src 1 = Some [y]" using load_Cons(1) src1(1) by simp
    have h1: "bs_holds h1 s1 (xs @ [?a])" using 1(2) False by simp
    obtain f2 h2 s2 where 2: "append_char R ?b (h1, s1) = Some (f2, h2, s2)"
        "bs_holds h2 s2 (if f2 then xs @ [?a] else (xs @ [?a]) @ [?b])" "frame h1 s1 h2"
        "own s2 \<subseteq> own s1 \<union> {b. blocks h1 b = None}"
      by (rule bs_stepE [OF append_char_step [OF R h1, of ?b]]) (use Cons.prems(4) in auto)
    have f12: "frame h s h2" using frame_trans [OF 1(3,4) 2(3)] .
    show ?thesis
    proof (cases f2)
      case True
      then show ?thesis using 1 2 y y1 hd False f12 by (auto simp: nibbles intro!: exI [of _ "[?a]"])
    next
      case F2: False
      have src2: "load h2 (padd src 1) (length ys) = Some ys" "block_of (padd src 1) \<inter> own s2 = {}"
        using load_Cons(2) frame_load [OF 2(3) src1] outside_step [OF 2(4) src1(2,1)] by simp_all
      have h2: "bs_holds h2 s2 (xs @ [?a, ?b])" using 2(2) F2 by simp
      from Cons.IH [OF h2 src2] Cons.prems(4) obtain fail h3 s3 zs where
        3: "append_hex R dig (padd src 1) (length ys) (h2, s2) = Some (fail, h3, s3)"
           "bs_holds h3 s3 ((xs @ [?a, ?b]) @ zs)" "prefix zs (hex_digits dig ys)"
           "\<not> fail \<longrightarrow> zs = hex_digits dig ys" "frame h2 s2 h3" by auto
      have "own s2 \<subseteq> own s \<union> {b. blocks h b = None}" using own_trans [OF 1(3,4) 2(4)] .
      then have "frame h s h3" using frame_trans [OF f12 _ 3(5)] by blast
      then show ?thesis using 1 2 3 y y1 hd False F2
        by (auto simp: nibbles intro!: exI [of _ "?a # ?b # zs"])
    qed
  qed
qed

section \<open>An allocator that meets the contract\<close>

definition sample_realloc :: allocator where
  "sample_realloc n st =
     (let (h, s) = st
      in if n \<le> Alloced_length s then (False, st)
         else if 2 ^ 32 \<le> n then (True, st)
         else case (load h (Ptr s) (str_length s), if alloced s then my_free (Ptr s) h else Some h) of
           (Some xs, Some h1) \<Rightarrow>
             (False, \<lparr>blocks = (blocks h1)(next_block h := Some (xs @ replicate (n - length xs) 0)),
                      next_block = next_block h + 1\<rparr>,
              s\<lparr>Ptr := At (next_block h) 0, Alloced_length := n, alloced := True\<rparr>)
         | _ \<Rightarrow> (True, st))"

lemma sample_realloc_ok: "realloc_ok sample_realloc"
  unfolding realloc_ok_def
proof (intro allI impI)
  fix n h s xs fail h' s'
  assume h: "bs_holds h s xs" and n: "length xs \<le> n" and r: "sample_realloc n (h, s) = (fail, h', s')"
  let ?G = "bs_holds h' s' xs \<and> extra_alloc s' = extra_alloc s \<and> frame h s h'
       \<and> own s' \<subseteq> own s \<union> {b. blocks h b = None}
       \<and> (fail \<longrightarrow> h' = h \<and> s' = s) \<and> (\<not> fail \<longrightarrow> n \<le> Alloced_length s')"
  have load: "load h (Ptr s) (str_length s) = Some xs" and len: "length xs = str_length s"
    using h bs_holds_length by (auto simp: bs_holds_def)
  have fresh: "blocks h b = None" if "next_block h \<le> b" for b using h that by (simp add: bs_holds_def wf_heap_def)
  consider "n \<le> Alloced_length s" | "Alloced_length s < n" "2 ^ 32 \<le> n" | "Alloced_length s < n" "n < 2 ^ 32" by linarith
  then show ?G
  proof cases
    case 3
    obtain h1 where h1: "(if alloced s then my_free (Ptr s) h else Some h) = Some h1"
      "\<And>b. b \<notin> own s \<Longrightarrow> blocks h1 b = blocks h b" "\<And>b. blocks h b = None \<Longrightarrow> blocks h1 b = None"
    proof (cases "alloced s")
      case True
      then obtain b where b: "Ptr s = At b 0" "Alloced_length s \<noteq> 0" using h by (auto simp: bs_holds_def)
      then have "blocks h b \<noteq> None" using load by (auto split: option.splits)
      then show ?thesis using that [of "h\<lparr>blocks := (blocks h)(b := None)\<rparr>"] True b by (auto simp: own_def)
    next
      case False
      then show ?thesis using that [of h] by simp
    qed
    have r': "fail = False" "s' = s\<lparr>Ptr := At (next_block h) 0, Alloced_length := n, alloced := True\<rparr>"
      "h' = \<lparr>blocks = (blocks h1)(next_block h := Some (xs @ replicate (n - length xs) 0)), next_block = next_block h + 1\<rparr>"
      using r 3 load h1(1) by (auto simp: sample_realloc_def)
    have "frame h s h'" using h1(2) fresh [of "next_block h"] by (auto simp: r' frame_def)
    moreover have "bs_holds h' s' xs" using h n 3 len h1(3) fresh by (auto simp: r' bs_holds_def wf_heap_def)
    ultimately show ?G using fresh [of "next_block h"] 3 by (auto simp: r' own_def)
  qed (use r h in \<open>auto simp: sample_realloc_def\<close>)
qed

text \<open>A heap with a constant text, a source and a buffer.\<close>

definition sample_heap :: heap where
  "sample_heap = \<lparr>blocks = [0 \<mapsto> [72, 105, 0], 1 \<mapsto> [33, 250], 2 \<mapsto> [0, 0, 0, 0]], next_block = 3\<rparr>"

lemma sample_heap_const: "bs_holds sample_heap (bs_of_const (At 0 0) 2) [72, 105]"
  by (simp add: bs_holds_def sample_heap_def wf_heap_def bs_of_const_def u32_def)

lemma sample_heap_load: "load sample_heap (At 1 0) 2 = Some [33, 250]"
  by (simp add: sample_heap_def)

lemma own_const [simp]: "own (bs_of_const p n) = {}"
  by (simp add: own_def bs_of_const_def)

section \<open>Appending\<close>

text \<open>C31. Appending bytes to a \<^verbatim>\<open>Binary_string\<close>, given a reallocation routine that keeps the text and provides
  the room asked for, touches no memory outside its blocks and returns. On success the text is the
  old one followed by the bytes, on failure it is unchanged; every live block the string may not
  write to keeps its bytes, so a constant string is copied before it grows.\<close>

theorem binary_string_append:
  assumes "realloc_ok R" and "bs_holds h s xs" and "load h data n = Some ys"
    and "block_of data \<inter> own s = {}" and "n < 2 ^ 62"
  shows "\<exists>fail h' s'. bs_append R data n (h, s) = Some (fail, h', s')
     \<and> bs_holds h' s' (if fail then xs else xs @ ys)
     \<and> (\<forall>b. b \<notin> own s \<longrightarrow> blocks h b \<noteq> None \<longrightarrow> blocks h' b = blocks h b)"
  using bs_append_step [OF assms] unfolding bs_step_def frame_def fst_conv snd_conv by blast

theorem binary_string_append_witness:
  "\<exists>fail h' s'. bs_append sample_realloc (At 1 0) 2 (sample_heap, bs_of_const (At 0 0) 2) = Some (fail, h', s')
     \<and> bs_holds h' s' (if fail then [72, 105] else [72, 105, 33, 250]) \<and> blocks h' 0 = Some [72, 105, 0]"
proof -
  have d: "block_of (At 1 0) \<inter> own (bs_of_const (At 0 0) 2) = {}" "(2 :: nat) < 2 ^ 62" by simp_all
  obtain fail h' s' where r:
    "bs_append sample_realloc (At 1 0) 2 (sample_heap, bs_of_const (At 0 0) 2) = Some (fail, h', s')"
    "bs_holds h' s' (if fail then [72, 105] else [72, 105] @ [33, 250])"
    "\<forall>b. b \<notin> own (bs_of_const (At 0 0) 2) \<longrightarrow> blocks sample_heap b \<noteq> None \<longrightarrow> blocks h' b = blocks sample_heap b"
    using binary_string_append [OF sample_realloc_ok sample_heap_const sample_heap_load d] by blast
  have "blocks h' 0 = Some [72, 105, 0]" using r(3) [rule_format, of 0] by (simp add: sample_heap_def)
  then show ?thesis using r(1,2) by (intro exI [of _ fail] exI [of _ h'] exI [of _ s']) (simp split: if_splits)
qed

text \<open>Appending the hexadecimal form of a byte string appends two digits per byte, high nibble first.
  When memory runs out the digits appended so far stay; other live blocks keep their bytes.\<close>

theorem binary_string_append_hex:
  assumes "realloc_ok R" and "bs_holds h s xs" and "load h src (length ys) = Some ys"
    and "block_of src \<inter> own s = {}" and "length xs + 2 * length ys < 2 ^ 32"
  shows "\<exists>fail h' s' zs. append_hex R dig src (length ys) (h, s) = Some (fail, h', s') \<and> bs_holds h' s' (xs @ zs)
     \<and> prefix zs (concat (map (\<lambda>x. [dig (unat x div 16), dig (unat x mod 16)]) ys))
     \<and> (\<not> fail \<longrightarrow> zs = concat (map (\<lambda>x. [dig (unat x div 16), dig (unat x mod 16)]) ys))
     \<and> (\<forall>b. b \<notin> own s \<longrightarrow> blocks h b \<noteq> None \<longrightarrow> blocks h' b = blocks h b)"
  using append_hex_steps [OF assms] unfolding hex_digits_def frame_def by blast

theorem binary_string_append_hex_witness:
  "\<exists>fail h' s' zs. append_hex sample_realloc (\<lambda>i. of_nat (48 + i)) (At 1 0) 2 (sample_heap, bs_of_const (At 0 0) 2)
        = Some (fail, h', s') \<and> bs_holds h' s' ([72, 105] @ zs) \<and> prefix zs [50, 49, 63, 58]
     \<and> (\<not> fail \<longrightarrow> zs = [50, 49, 63, 58])"
proof -
  let ?d = "(\<lambda>i. of_nat (48 + i)) :: nat \<Rightarrow> uchar"
  have two: "length [33 :: uchar, 250] = 2" by simp
  have hex: "concat (map (\<lambda>x. [?d (unat x div 16), ?d (unat x mod 16)]) [33 :: uchar, 250]) = [50, 49, 63, 58]" by simp
  have d: "block_of (At 1 0) \<inter> own (bs_of_const (At 0 0) 2) = {}"
    "length [72 :: uchar, 105] + 2 * length [33 :: uchar, 250] < 2 ^ 32" by simp_all
  from binary_string_append_hex
    [OF sample_realloc_ok sample_heap_const sample_heap_load [folded two] d, of ?d, unfolded hex, unfolded two]
  show ?thesis by blast
qed

lemma append_with_step_correct:
  assumes R: "realloc_ok R" and h: "bs_holds h s xs" and d: "load h data n = Some ys"
    and o: "block_of data \<inter> own s = {}" and lt: "length xs + n + step < 2 ^ 32"
  shows "bs_step (append_with_step R data n step (h, s)) (h, s) xs (xs @ ys) (\<lambda>_. True)"
proof -
  have len: "length xs = str_length s" using h bs_holds_length by simp
  have u: "u32 (n + str_length s) = n + str_length s" "u32 (n + str_length s + step) = n + str_length s + step"
    using lt len by (auto simp: u32_def)
  let ?g = "if n + str_length s > Alloced_length s then bs_realloc R (n + str_length s + step) (h, s) else Some (False, h, s)"
  have "bs_step ?g (h, s) xs xs (\<lambda>s'. n + str_length s \<le> Alloced_length s')"
  proof (cases "n + str_length s > Alloced_length s")
    case True
    then show ?thesis using bs_realloc_step [OF R h, of "n + str_length s + step"] len lt
      by (fastforce simp: bs_step_def)
  next
    case False
    then show ?thesis using h by (auto simp: bs_step_def)
  qed
  then have "bs_step (do { (fail, st) \<leftarrow> ?g;
      if fail then Some (True, st) else do { st \<leftarrow> q_append data n st; Some (False, st) } })
    (h, s) xs (xs @ ys) (\<lambda>_. True)"
  proof (rule bs_step_then)
    fix h' s' assume h': "bs_holds h' s' xs" "n + str_length s \<le> Alloced_length s'" "frame h s h'"
    have l: "str_length s' = str_length s" using h'(1) len bs_holds_length by simp
    show "\<exists>h'' s''. q_append data n (h', s') = Some (h'', s'') \<and> bs_holds h'' s'' (xs @ ys)
        \<and> frame h' s' h'' \<and> own s'' = own s'"
    proof (cases "n = 0")
      case True
      then have "ys = []" using load_length [OF d] by simp
      then show ?thesis using h' True by (auto simp: q_append_def u32_def bs_holds_def)
    next
      case False
      then show ?thesis using h' l frame_load [OF h'(3) d o] by (intro q_append_room) auto
    qed
  qed
  then show ?thesis unfolding append_with_step_def Let_def snd_conv u by simp
qed

lemma store_outside: "load h p (k + length ys) = None \<Longrightarrow> ys \<noteq> [] \<Longrightarrow> store (padd p k) ys h = None"
  by (cases p) (auto split: option.splits if_splits)

text \<open>Appending with a step computes the new length in 32 bits. If the lengths do not overflow, the text
  is extended or memory ran out; if they do overflow, the wrapped length is below the capacity, nothing
  is reallocated, and the copy runs past the end of a buffer that does not hold the sum.\<close>

theorem binary_string_append_with_step:
  assumes "realloc_ok R" and "bs_holds h s xs" and "load h data n = Some ys"
    and "block_of data \<inter> own s = {}"
  shows "(length xs + n + step < 2 ^ 32 \<longrightarrow>
            (\<exists>fail h' s'. append_with_step R data n step (h, s) = Some (fail, h', s')
               \<and> bs_holds h' s' (if fail then xs else xs @ ys)))
       \<and> (n < 2 ^ 32 \<and> 2 ^ 32 \<le> length xs + n \<and> Alloced_length s \<noteq> 0 \<and> load h (Ptr s) (str_length s + n) = None \<longrightarrow>
            append_with_step R data n step (h, s) = None)"
proof (intro conjI impI)
  assume "length xs + n + step < 2 ^ 32"
  from append_with_step_correct [OF assms this]
  show "\<exists>fail h' s'. append_with_step R data n step (h, s) = Some (fail, h', s')
          \<and> bs_holds h' s' (if fail then xs else xs @ ys)" unfolding bs_step_def by blast
next
  assume a: "n < 2 ^ 32 \<and> 2 ^ 32 \<le> length xs + n \<and> Alloced_length s \<noteq> 0 \<and> load h (Ptr s) (str_length s + n) = None"
  have len: "length xs = str_length s" "str_length s \<le> Alloced_length s" "str_length s < 2 ^ 32"
    using assms(2) a bs_holds_length by (auto simp: bs_holds_def)
  have "u32 (n + str_length s) = n + str_length s - 2 ^ 32"
    using a len unfolding u32_def by (subst le_mod_geq) auto
  then have "\<not> u32 (n + str_length s) > Alloced_length s" using a len by linarith
  moreover have ys: "length ys = n" "ys \<noteq> []" using load_length [OF assms(3)] a len by auto
  moreover have "store (padd (Ptr s) (str_length s)) ys h = None"
    using store_outside [of h "Ptr s" "str_length s" ys] a ys by simp
  ultimately show "append_with_step R data n step (h, s) = None"
    using assms(3) by (auto simp: append_with_step_def q_append_def)
qed

theorem binary_string_append_with_step_witness:
  "append_with_step sample_realloc (At 1 0) 20 0
     (\<lparr>blocks = [0 \<mapsto> replicate (2 ^ 32 - 10) 0, 1 \<mapsto> replicate 20 0], next_block = 2\<rparr>,
      bs_of_buffer (At 0 0) (2 ^ 32 - 10)) = None"
proof -
  define n :: nat where "n = 2 ^ 32 - 10"
  let ?h = "\<lparr>blocks = [0 \<mapsto> replicate n 0, 1 \<mapsto> replicate 20 0], next_block = 2\<rparr> :: heap"
  have n: "n < 2 ^ 32" "0 < n" "2 ^ 32 \<le> n + 20" by (simp_all add: n_def)
  then have s: "bs_of_buffer (At 0 0) n
      = \<lparr>Ptr = At 0 0, str_length = n, Alloced_length = n, extra_alloc = 0, alloced = False, thread_specific = False\<rparr>"
    by (simp add: bs_of_buffer_def u32_def)
  have h: "bs_holds ?h (bs_of_buffer (At 0 0) n) (replicate n 0)"
    using n unfolding s by (simp add: bs_holds_def wf_heap_def)
  have d: "load ?h (At 1 0) 20 = Some (replicate 20 0)" "block_of (At 1 0) \<inter> own (bs_of_buffer (At 0 0) n) = {}"
    unfolding s by (simp_all add: own_def)
  have "load ?h (Ptr (bs_of_buffer (At 0 0) n)) (str_length (bs_of_buffer (At 0 0) n) + 20) = None"
    unfolding s by simp
  moreover have "(20 :: nat) < 2 ^ 32" "2 ^ 32 \<le> length (replicate n (0 :: uchar)) + 20"
    "Alloced_length (bs_of_buffer (At 0 0) n) \<noteq> 0" using n unfolding s by simp_all
  ultimately have "append_with_step sample_realloc (At 1 0) 20 0 (?h, bs_of_buffer (At 0 0) n) = None"
    using binary_string_append_with_step [OF sample_realloc_ok h d, of 0] by blast
  then show ?thesis by (simp only: n_def)
qed

section \<open>Terminated text\<close>

lemma bs_store_end_terminated:
  assumes h: "bs_holds h s xs" and room: "str_length s < Alloced_length s"
  shows "\<exists>h'. store (padd (Ptr s) (str_length s)) [0] h = Some h' \<and> frame h s h' \<and> bs_holds h' s xs
           \<and> load h' (Ptr s) (length xs + 1) = Some (xs @ [0])"
proof -
  from bs_store_end [OF h, of "[0]"] room obtain h' where
    "store (padd (Ptr s) (str_length s)) [0] h = Some h'" "frame h s h'" "bs_holds h' s xs"
    "bs_holds h' (s\<lparr>str_length := str_length s + 1\<rparr>) (xs @ [0])" by auto
  then show ?thesis using bs_holds_length [OF h] by (auto simp: bs_holds_def)
qed

text \<open>Reallocating for the length of the text terminates it.\<close>

lemma bs_realloc_terminates:
  assumes R: "realloc_ok R" and h: "bs_holds h s xs"
  shows "\<exists>fail h' s'. bs_realloc R (str_length s) (h, s) = Some (fail, h', s') \<and> bs_holds h' s' xs \<and> frame h s h'
     \<and> (if fail then \<exists>st. fst (R (str_length s + 1) st) else load h' (Ptr s') (length xs + 1) = Some (xs @ [0]))"
proof -
  have len: "length xs = str_length s" "str_length s < 2 ^ 32" using h bs_holds_length by (auto simp: bs_holds_def)
  have u: "u64 (str_length s + 1) = str_length s + 1" using len by (simp add: u64_def)
  obtain fail h' s' where r: "R (str_length s + 1) (h, s) = (fail, h', s')" by (metis prod_cases3)
  note R' = realloc_okD [OF R h _ r]
  show ?thesis
  proof (cases fail)
    case True
    then have "bs_realloc R (str_length s) (h, s) = Some (True, h', s')" using r u by (simp add: bs_realloc_def)
    moreover have "fst (R (str_length s + 1) (h, s))" using True r by simp
    ultimately show ?thesis using R' len
      by (intro exI [of _ True] exI [of _ h'] exI [of _ s']) auto
  next
    case False
    have h': "bs_holds h' s' xs" and l: "str_length s' = str_length s" using R' len bs_holds_length by auto
    from bs_store_end_terminated [OF h'] R' len False l obtain h'' where
      h'': "store (padd (Ptr s') (str_length s)) [0] h' = Some h''" "frame h' s' h''" "bs_holds h'' s' xs"
         "load h'' (Ptr s') (length xs + 1) = Some (xs @ [0])" by auto
    then have "bs_realloc R (str_length s) (h, s) = Some (False, h'', s')" using r u False by (simp add: bs_realloc_def)
    moreover have "frame h s h''" using frame_trans [of h s h' s' h''] R' len h'' by simp
    ultimately show ?thesis using h'' by (intro exI [of _ False] exI [of _ h''] exI [of _ s']) simp
  qed
qed

lemma load_snoc:
  assumes "load h p (n + 1) \<noteq> None"
  shows "\<exists>c. load h (padd p n) 1 = Some [c] \<and> (\<forall>xs. load h p n = Some xs \<longrightarrow> load h p (n + 1) = Some (xs @ [c]))"
proof -
  obtain b i bs where p: "p = At b i" "blocks h b = Some bs" "i + n < length bs"
    using assms by (cases p) (auto split: option.splits if_splits)
  then have "take 1 (drop (i + n) bs) = [bs ! (i + n)]" by (simp add: take_Suc_conv_app_nth)
  moreover have "take (n + 1) (drop i bs) = take n (drop i bs) @ [bs ! (i + n)]"
    using p(3) by (simp add: take_Suc_conv_app_nth)
  ultimately show ?thesis using p by auto
qed

text \<open>\<^verbatim>\<open>c_ptr\<close> of a non-null string that owns its buffer, or whose buffer has an accessible byte behind
  the text, returns a pointer to the text followed by a zero byte, unless memory runs out; the
  string keeps its text and other blocks keep their bytes. On a string over foreign memory with no
  accessible byte behind the text it reads out of bounds.\<close>

theorem binary_string_c_ptr:
  assumes R: "realloc_ok R" and h: "bs_holds h s xs" and p: "Ptr s \<noteq> NULL"
  shows "(alloced s \<or> load h (Ptr s) (str_length s + 1) \<noteq> None \<longrightarrow>
            (\<exists>p' h' s'. c_ptr R e (h, s) = Some (p', h', s') \<and> p' = Ptr s' \<and> bs_holds h' s' xs \<and> frame h s h'
               \<and> (load h' p' (length xs + 1) = Some (xs @ [0]) \<or> (\<exists>n st. fst (R n st)))))
       \<and> (\<not> alloced s \<and> load h (Ptr s) (str_length s + 1) = None \<longrightarrow> c_ptr R e (h, s) = None)"
proof (intro conjI impI)
  let ?C = "\<exists>p' h' s'. c_ptr R e (h, s) = Some (p', h', s') \<and> p' = Ptr s' \<and> bs_holds h' s' xs \<and> frame h s h'
               \<and> (load h' p' (length xs + 1) = Some (xs @ [0]) \<or> (\<exists>n st. fst (R n st)))"
  assume a: "alloced s \<or> load h (Ptr s) (str_length s + 1) \<noteq> None"
  have len: "length xs = str_length s" and load: "load h (Ptr s) (str_length s) = Some xs"
    using h bs_holds_length by (auto simp: bs_holds_def)
  let ?rest = "if str_length s < Alloced_length s
     then do { h \<leftarrow> store (padd (Ptr s) (str_length s)) [0] h; Some (Ptr s, h, s) }
     else do { (fail, st) \<leftarrow> bs_realloc R (str_length s) (h, s); Some (Ptr (snd st), st) }"
  have rest: ?C if "c_ptr R e (h, s) = ?rest"
  proof (cases "str_length s < Alloced_length s")
    case True
    then show ?thesis using that bs_store_end_terminated [OF h True] by auto
  next
    case False
    obtain fail h' s' where r: "bs_realloc R (str_length s) (h, s) = Some (fail, h', s')" "bs_holds h' s' xs" "frame h s h'"
      "if fail then \<exists>st. fst (R (str_length s + 1) st) else load h' (Ptr s') (length xs + 1) = Some (xs @ [0])"
      using bs_realloc_terminates [OF R h] by blast
    have "c_ptr R e (h, s) = Some (Ptr s', h', s')" using that False r(1) by simp
    then show ?thesis using r(2-) by (intro exI [of _ "Ptr s'"] exI [of _ h'] exI [of _ s']) (auto split: if_splits)
  qed
  show ?C
  proof (cases "alloced s")
    case True
    then show ?thesis using rest p by (simp add: c_ptr_def)
  next
    case False
    then obtain c where c: "load h (padd (Ptr s) (str_length s)) 1 = Some [c]" "load h (Ptr s) (str_length s + 1) = Some (xs @ [c])"
      using load_snoc [of h "Ptr s" "str_length s"] a load by auto
    show ?thesis
    proof (cases "c = 0")
      case True
      then have "c_ptr R e (h, s) = Some (Ptr s, h, s)" using p False c(1) by (simp add: c_ptr_def)
      then show ?thesis using h c(2) True len by auto
    next
      case nz: False
      then show ?thesis using rest p False c(1) by (simp add: c_ptr_def)
    qed
  qed
next
  assume a: "\<not> alloced s \<and> load h (Ptr s) (str_length s + 1) = None"
  then obtain b i where b: "Ptr s = At b i" using p by (cases "Ptr s") auto
  then have "load h (padd (Ptr s) (str_length s)) 1 = None" using a by (auto split: option.splits if_splits)
  then show "c_ptr R e (h, s) = None" using a p by (simp add: c_ptr_def)
qed

theorem binary_string_c_ptr_witness:
  "c_ptr sample_realloc NULL (sample_heap, bs_of_const (At 1 0) 2) = None
   \<and> (\<exists>p' h' s'. c_ptr sample_realloc NULL (sample_heap, bs_of_const (At 0 0) 2) = Some (p', h', s')
        \<and> bs_holds h' s' [72, 105])"
proof
  have h: "bs_holds sample_heap (bs_of_const (At 1 0) 2) [33, 250]" and n: "Ptr (bs_of_const (At 1 0) 2) \<noteq> NULL"
    by (simp_all add: bs_holds_def sample_heap_def wf_heap_def bs_of_const_def u32_def)
  have "\<not> alloced (bs_of_const (At 1 0) 2)
      \<and> load sample_heap (Ptr (bs_of_const (At 1 0) 2)) (str_length (bs_of_const (At 1 0) 2) + 1) = None"
    by (simp add: sample_heap_def bs_of_const_def u32_def)
  then show "c_ptr sample_realloc NULL (sample_heap, bs_of_const (At 1 0) 2) = None"
    using binary_string_c_ptr [OF sample_realloc_ok h n, of NULL] by blast
  have n: "Ptr (bs_of_const (At 0 0) 2) \<noteq> NULL" by (simp add: bs_of_const_def)
  have "load sample_heap (Ptr (bs_of_const (At 0 0) 2)) (str_length (bs_of_const (At 0 0) 2) + 1) \<noteq> None"
    by (simp add: sample_heap_def bs_of_const_def u32_def)
  then show "\<exists>p' h' s'. c_ptr sample_realloc NULL (sample_heap, bs_of_const (At 0 0) 2) = Some (p', h', s')
        \<and> bs_holds h' s' [72, 105]"
    using binary_string_c_ptr [OF sample_realloc_ok sample_heap_const n, of NULL] by blast
qed

section \<open>Ownership of buffers\<close>

text \<open>The block a string has to free.\<close>

definition to_free :: "Binary_string \<Rightarrow> nat set" where
  "to_free s = (if alloced s then block_of (Ptr s) else {})"

definition without :: "heap \<Rightarrow> nat set \<Rightarrow> heap" where
  "without h B = h\<lparr>blocks := (\<lambda>b. if b \<in> B then None else blocks h b)\<rparr>"

lemma without_empty [simp]: "without h {} = h"
  by (simp add: without_def)

lemma without_without [simp]: "without (without h A) B = without h (A \<union> B)"
  by (auto simp: without_def fun_eq_iff)

lemma load_without: "block_of p \<inter> B = {} \<Longrightarrow> load (without h B) p n = load h p n"
  by (rule load_cong) (auto simp: without_def)

lemma free_buffer_correct:
  assumes "bs_holds h s xs"
  shows "free_buffer (h, s) = Some (without h (to_free s), s\<lparr>alloced := False\<rparr>)"
proof (cases "alloced s")
  case True
  then obtain b where b: "Ptr s = At b 0" "Alloced_length s \<noteq> 0" using assms by (auto simp: bs_holds_def)
  then have "blocks h b \<noteq> None" using assms by (auto simp: bs_holds_def split: option.splits)
  then show ?thesis using True b by (auto simp: free_buffer_def to_free_def without_def fun_upd_def)
next
  case False
  then have "s\<lparr>alloced := False\<rparr> = s" by simp
  then show ?thesis using False by (simp add: free_buffer_def to_free_def)
qed

lemma bs_holds_without:
  assumes "bs_holds h s xs" and "block_of (Ptr s) \<inter> B = {}"
  shows "bs_holds (without h B) s xs"
  using assms load_without [OF assms(2)] by (auto simp: bs_holds_def wf_heap_def without_def)

lemma bs_free_correct:
  assumes "bs_holds h s xs"
  shows "\<exists>s'. bs_free (h, s) = Some (without h (to_free s), s') \<and> Ptr s' = NULL \<and> \<not> alloced s'"
  using free_buffer_correct [OF assms] by (simp add: bs_free_def)

lemma set_alloced_correct:
  assumes "bs_holds h t ys" and "bs_holds h s xs"
  shows "set_alloced (Ptr s) (str_length s) (Alloced_length s) (h, t)
    = Some (without h (to_free t), t\<lparr>Ptr := Ptr s, str_length := str_length s,
        Alloced_length := Alloced_length s, alloced := False\<rparr>)"
  using assms(2) free_buffer_correct [OF assms(1)] by (simp add: set_alloced_def bs_holds_def u32_def)

text \<open>Moving a string into another frees the buffer of the target and hands over the text and the
  buffer. When both are destroyed afterwards each block that either owned has been freed exactly
  once and no other block is touched.\<close>

theorem binary_string_move:
  assumes t: "bs_holds h t ys" and s: "bs_holds h s xs" and d: "block_of (Ptr s) \<inter> to_free t = {}"
  shows "\<exists>h' t' s'. bs_move s (h, t) = Some ((h', t'), s') \<and> bs_holds h' t' xs \<and> to_free t' = to_free s
     \<and> (\<exists>s'' t''. bs_free (h', s') = Some (h', s'') \<and> bs_free (h', t') = Some (without h (to_free t \<union> to_free s), t''))"
proof -
  let ?h = "without h (to_free t)"
  let ?t = "t\<lparr>Ptr := Ptr s, str_length := str_length s, Alloced_length := Alloced_length s,
              extra_alloc := extra_alloc s, alloced := alloced s, thread_specific := thread_specific s\<rparr>"
  have m: "bs_move s (h, t) = Some ((?h, ?t), s\<lparr>alloced := False\<rparr>)"
    using set_alloced_correct [OF t s] by (simp add: bs_move_def)
  have h: "bs_holds ?h ?t xs" using bs_holds_without [OF s d] by (simp add: bs_holds_def)
  have f: "to_free ?t = to_free s" by (simp add: to_free_def)
  have "bs_holds ?h (s\<lparr>alloced := False\<rparr>) xs" using bs_holds_without [OF s d] by (simp add: bs_holds_def)
  from bs_free_correct [OF this] bs_free_correct [OF h] f show ?thesis using m h by (auto simp: to_free_def)
qed

theorem binary_string_move_witness:
  "\<exists>h' t' s'. bs_move ((bs_of_buffer (At 2 0) 4)\<lparr>alloced := True\<rparr>) (sample_heap, bs_of_const (At 0 0) 2) = Some ((h', t'), s')
     \<and> bs_holds h' t' [0, 0, 0, 0] \<and> to_free t' = {2}"
proof -
  have b: "bs_holds sample_heap ((bs_of_buffer (At 2 0) 4)\<lparr>alloced := True\<rparr>) [0, 0, 0, 0]"
    by (simp add: bs_holds_def sample_heap_def wf_heap_def bs_of_buffer_def u32_def)
  have "to_free (bs_of_const (At 0 0) 2) = {}" "to_free ((bs_of_buffer (At 2 0) 4)\<lparr>alloced := True\<rparr>) = {2}"
    by (simp_all add: to_free_def bs_of_const_def bs_of_buffer_def)
  then show ?thesis using binary_string_move [OF sample_heap_const b] by auto
qed

text \<open>Swapping exchanges the texts and the buffers to free of two strings (the growth step and the
  thread flag stay where they are); releasing a buffer leaves an empty string with nothing to free,
  and resetting another empty string to it restores the text and the ownership; assignment and the copy
  constructor share the text without owning it.\<close>

theorem binary_string_swap_release:
  assumes s: "bs_holds h s xs" and t: "bs_holds h t ys"
  shows "(let (s', t') = bs_swap s t in bs_holds h s' ys \<and> bs_holds h t' xs \<and> to_free s' = to_free t \<and> to_free t' = to_free s
            \<and> extra_alloc s' = extra_alloc s \<and> extra_alloc t' = extra_alloc t)
     \<and> (let (p, s') = bs_release s in bs_holds h s' [] \<and> to_free s' = {}
          \<and> (alloced s \<longrightarrow> (\<exists>r. bs_reset p (str_length s) (Alloced_length s) (h, s') = Some (h, r) \<and> bs_holds h r xs
               \<and> to_free r = to_free s)))
     \<and> bs_holds h (bs_copy_of s) xs \<and> to_free (bs_copy_of s) = {}
     \<and> (to_free t = {} \<longrightarrow> (\<exists>r. bs_assign s (h, t) = Some (h, r) \<and> bs_holds h r xs \<and> to_free r = {}))"
proof (intro conjI)
  show "let (s', t') = bs_swap s t in bs_holds h s' ys \<and> bs_holds h t' xs \<and> to_free s' = to_free t \<and> to_free t' = to_free s
            \<and> extra_alloc s' = extra_alloc s \<and> extra_alloc t' = extra_alloc t"
    using s t by (simp add: bs_swap_def bs_holds_def to_free_def)
  show "let (p, s') = bs_release s in bs_holds h s' [] \<and> to_free s' = {}
          \<and> (alloced s \<longrightarrow> (\<exists>r. bs_reset p (str_length s) (Alloced_length s) (h, s') = Some (h, r) \<and> bs_holds h r xs
               \<and> to_free r = to_free s))"
    using s by (auto simp: bs_release_def bs_holds_def init_private_data_def to_free_def bs_reset_def set_alloced_def
      free_buffer_def u32_def)
  show "bs_holds h (bs_copy_of s) xs" "to_free (bs_copy_of s) = {}"
    using s by (simp_all add: bs_copy_of_def bs_holds_def to_free_def)
  show "to_free t = {} \<longrightarrow> (\<exists>r. bs_assign s (h, t) = Some (h, r) \<and> bs_holds h r xs \<and> to_free r = {})"
    using set_alloced_correct [OF t s] s t by (auto simp: bs_assign_def bs_holds_def to_free_def)
qed

theorem binary_string_swap_release_witness:
  "bs_holds sample_heap (bs_copy_of (bs_of_const (At 0 0) 2)) [72, 105]"
  using binary_string_swap_release [OF sample_heap_const sample_heap_const] by blast

section \<open>Substrings, comparison and fixed buffers\<close>

lemma load_drop:
  assumes "load h p n = Some xs" and "k + m \<le> n"
  shows "load h (padd p k) m = Some (take m (drop k xs))"
  using assms by (cases p) (auto split: option.splits if_splits simp: take_drop ac_simps)

lemma load_defined: "load h p n \<noteq> None \<Longrightarrow> k + m \<le> n \<Longrightarrow> load h (padd p k) m \<noteq> None"
  using load_drop by fastforce

text \<open>Setting a string to a substring of another makes it share that part of the text without owning
  it; it may write up to the end of the other's buffer.\<close>

theorem binary_string_substring:
  assumes s: "bs_holds h s xs" and t: "bs_holds h t ys" and n: "offset + len \<le> length xs"
    and d: "block_of (Ptr s) \<inter> to_free t = {}"
  shows "\<exists>h' t'. set_substring s offset len (h, t) = Some (h', t') \<and> bs_holds h' t' (take len (drop offset xs))
     \<and> to_free t' = {} \<and> own t' \<subseteq> own s"
proof -
  let ?h = "without h (to_free t)"
  have l: "length xs = str_length s" "str_length s < 2 ^ 32" "Alloced_length s < 2 ^ 32"
    "Alloced_length s \<noteq> 0 \<longrightarrow> str_length s \<le> Alloced_length s"
    using s bs_holds_length by (auto simp: bs_holds_def)
  let ?a = "if Alloced_length s \<noteq> 0 then Alloced_length s - offset else 0"
  let ?t = "t\<lparr>Ptr := padd (Ptr s) offset, str_length := len, Alloced_length := ?a, alloced := False\<rparr>"
  have u: "u32 len = len" using n l by (simp add: u32_def)
  have a: "(if Alloced_length s \<noteq> 0 then u32 (u64 (Alloced_length s + 2 ^ 64 - offset)) else 0) = ?a"
  proof (cases "Alloced_length s = 0")
    case False
    then have "offset \<le> Alloced_length s" using n l by simp
    then have "Alloced_length s + 2 ^ 64 - offset = (Alloced_length s - offset) + 2 ^ 64" by simp
    then have "u64 (Alloced_length s + 2 ^ 64 - offset) = (Alloced_length s - offset) mod 2 ^ 64"
      unfolding u64_def by (simp only: mod_add_self2)
    then show ?thesis using False l by (simp add: u32_def)
  qed simp
  have st: "set_substring s offset len (h, t) = Some (?h, ?t)"
    unfolding set_substring_def free_buffer_correct [OF t] u a by simp
  have s': "bs_holds ?h s xs" using bs_holds_without [OF s d] .
  have "load ?h (padd (Ptr s) offset) len = Some (take len (drop offset xs))"
    using load_drop [of ?h "Ptr s" "str_length s" xs offset len] s' n l by (simp add: bs_holds_def)
  moreover have "load ?h (padd (Ptr s) offset) ?a \<noteq> None"
  proof (cases "Alloced_length s = 0")
    case True
    have "load ?h (padd (Ptr s) offset) 0 \<noteq> None"
      using load_defined [of ?h "Ptr s" "str_length s" offset 0] s' n l by (simp add: bs_holds_def)
    then show ?thesis using True by simp
  next
    case False
    then show ?thesis using load_defined [of ?h "Ptr s" "Alloced_length s" offset "Alloced_length s - offset"] s' n l
      by (simp add: bs_holds_def)
  qed
  ultimately have "bs_holds ?h ?t (take len (drop offset xs))" using s' t n l
    by (auto simp: bs_holds_def)
  then show ?thesis using st by (auto simp: to_free_def own_def)
qed

theorem binary_string_substring_witness:
  "\<exists>h' t'. set_substring (bs_of_const (At 0 0) 2) 1 1 (sample_heap, init_private_data) = Some (h', t') \<and> bs_holds h' t' [105]"
proof -
  have "bs_holds sample_heap init_private_data []"
    by (simp add: bs_holds_def sample_heap_def wf_heap_def init_private_data_def)
  from binary_string_substring [OF sample_heap_const this, of 1 1] show ?thesis
    by (auto simp: to_free_def init_private_data_def)
qed

lemma has_8bit_loop_correct:
  "load h p (length xs) = Some xs \<Longrightarrow> has_8bit_loop h p (length xs) = Some (\<exists>x \<in> set xs. \<not> x < 128)"
proof (induction xs arbitrary: p)
  case (Cons x xs)
  then have "load h p 1 = Some [x]" "load h (padd p 1) (length xs) = Some xs" using load_Cons [of h p "length xs" x xs] by simp_all
  then show ?case using Cons.IH by simp
qed simp

text \<open>The tests on strings read only the text: byte equality is equality of the texts, and in a
  character set with one-byte units the ASCII test holds exactly when every byte is below 128.\<close>

theorem binary_string_tests:
  assumes "bs_holds h s xs" and "bs_holds h t ys"
  shows "bin_eq h s t = Some (xs = ys)
     \<and> has_8bit_bytes (h, s) = Some (\<exists>x \<in> set xs. \<not> x < 128)
     \<and> (mbminlen cs \<le> 1 \<longrightarrow> is_ascii (h, \<lparr>base = s, m_charset = cs\<rparr>) = Some (\<forall>x \<in> set xs. x < 128))"
proof -
  note l = bs_holds_length [OF assms(1)] bs_holds_length [OF assms(2)]
    bs_holds_load [OF assms(1)] bs_holds_load [OF assms(2)]
  have e: "has_8bit_bytes (h, s) = Some (\<exists>x \<in> set xs. \<not> x < 128)"
    using has_8bit_loop_correct [of h "Ptr s" xs] l by (simp add: has_8bit_bytes_def)
  have "bin_eq h s t = Some (xs = ys)"
    using l by (cases "str_length s = str_length t") (auto simp: bin_eq_def)
  moreover have "is_ascii (h, \<lparr>base = s, m_charset = cs\<rparr>) = Some (\<forall>x \<in> set xs. x < 128)" if "mbminlen cs \<le> 1"
    using that e l by (auto simp: is_ascii_def)
  ultimately show ?thesis using e by blast
qed

theorem binary_string_tests_witness:
  "bin_eq sample_heap (bs_of_const (At 0 0) 2) (bs_of_const (At 0 0) 2) = Some True
   \<and> has_8bit_bytes (sample_heap, bs_of_const (At 0 0) 2) = Some False"
  using binary_string_tests [OF sample_heap_const sample_heap_const] by simp

section \<open>Binary fields in a string\<close>

lemma overwrite_mid:
  "length as = i \<Longrightarrow> k + length ys \<le> length xs \<Longrightarrow> overwrite (i + k) ys (as @ xs @ cs) = as @ overwrite k ys xs @ cs"
  by (simp add: overwrite_def)

lemma store_load_overwrite:
  assumes "load h p n = Some xs" and "k + length ys \<le> n" and "0 < n"
  shows "\<exists>h'. store (padd p k) ys h = Some h' \<and> load h' p n = Some (overwrite k ys xs)
           \<and> next_block h' = next_block h \<and> (\<forall>b. blocks h' b = None \<longleftrightarrow> blocks h b = None)
           \<and> (\<forall>m. load h p m \<noteq> None \<longrightarrow> load h' p m \<noteq> None)"
proof -
  obtain b i bs where p: "p = At b i" "blocks h b = Some bs" "i + n \<le> length bs" "xs = take n (drop i bs)"
    using assms(1,3) by (cases p) (auto split: option.splits if_splits)
  have "bs = take i bs @ xs @ drop (i + n) bs" unfolding p(4) by (simp add: add.commute [of i] flip: drop_drop)
  then have "overwrite (i + k) ys bs = take i bs @ overwrite k ys xs @ drop (i + n) bs"
    using overwrite_mid [of "take i bs" i k ys xs "drop (i + n) bs"] p(3,4) assms(2) by simp
  then have "take n (drop i (overwrite (i + k) ys bs)) = overwrite k ys xs"
    using p(3,4) assms(2) by simp
  moreover have "length (overwrite (i + k) ys bs) = length bs" using p(3) assms(2) by simp
  ultimately show ?thesis using p(1-3) assms(2)
    by (intro exI [of _ "h\<lparr>blocks := (blocks h)(b := Some (overwrite (i + k) ys bs))\<rparr>"]) (simp split: if_splits)
qed

lemma bs_overwrite:
  assumes h: "bs_holds h s xs" and k: "k + length ys \<le> length xs" and "xs \<noteq> []"
  shows "\<exists>h'. store (padd (Ptr s) k) ys h = Some h' \<and> bs_holds h' s (overwrite k ys xs)"
proof -
  have l: "k + length ys \<le> str_length s" "0 < str_length s" using assms(2,3) unfolding bs_holds_length [OF h, symmetric] by simp_all
  from store_load_overwrite [OF bs_holds_load [OF h] l] obtain h' where
    h': "store (padd (Ptr s) k) ys h = Some h'" "load h' (Ptr s) (str_length s) = Some (overwrite k ys xs)"
      "next_block h' = next_block h" "\<And>b. blocks h' b = None \<longleftrightarrow> blocks h b = None"
      "\<And>m. load h (Ptr s) m \<noteq> None \<Longrightarrow> load h' (Ptr s) m \<noteq> None" by blast
  moreover have "wf_heap h'" using h h'(3,4) by (simp add: bs_holds_def wf_heap_def)
  ultimately show ?thesis using h by (simp add: bs_holds_def)
qed

definition field4 :: "uint32 \<Rightarrow> uchar list" where
  "field4 n = map (int4store (\<lambda>_. 0) 0 n) [0..<4]"

lemma field4_read:
  assumes "k + 4 \<le> length xs"
  shows "uint4korr ((!) (overwrite k (field4 v) xs)) k = v"
proof -
  have "overwrite k (field4 v) xs ! (k + i) = int4store (\<lambda>_. 0) 0 v (0 + i)" if "i < 4" for i
    using assms that by (simp add: overwrite_def nth_append field4_def)
  then have "le_load 4 ((!) (overwrite k (field4 v) xs)) k = le_load 4 (\<lambda>i. int4store (\<lambda>_. 0) 0 v (i - k)) k"
    by (intro le_load_cong) simp
  also have "\<dots> = (le_load 4 (int4store (\<lambda>_. 0) 0 v) 0 :: uint32)" by (simp add: Suc_diff_Suc diff_add_inverse2 numeral_2_eq_2 numeral_3_eq_3)
  also have "\<dots> = v" using le4.load_store [of "\<lambda>_. 0" 0 v] by (simp only: korr_le_load) (simp add: word_cut)
  finally show ?thesis by (simp only: korr_le_load)
qed

text \<open>A 32-bit integer appended to a string with room for it extends the text by four bytes from which
  the little-endian read gives the integer back, and writing an integer at an earlier position
  replaces the four bytes there, again readable, and keeps the length.\<close>

theorem binary_string_integer_fields:
  assumes h: "bs_holds h s xs"
  shows "(str_length s + 4 \<le> Alloced_length s \<longrightarrow>
            (\<exists>h' s' ys. q_append_uint32 v (h, s) = Some (h', s') \<and> bs_holds h' s' (xs @ ys)
               \<and> uint4korr ((!) (xs @ ys)) (length xs) = v))
       \<and> (position + 4 \<le> length xs \<longrightarrow>
            (\<exists>h' ys. write_at_position position v (h, s) = Some (h', s) \<and> bs_holds h' s ys
               \<and> length ys = length xs \<and> uint4korr ((!) ys) position = v
               \<and> take position ys = take position xs \<and> drop (position + 4) ys = drop (position + 4) xs))"
proof (intro conjI impI)
  assume room: "str_length s + 4 \<le> Alloced_length s"
  then obtain h' where h': "store (padd (Ptr s) (str_length s)) (field4 v) h = Some h'"
    "bs_holds h' (s\<lparr>str_length := str_length s + 4\<rparr>) (xs @ field4 v)"
    using bs_store_end [OF h, of "field4 v"] by (auto simp: field4_def)
  have "u32 (str_length s + 4) = str_length s + 4" using h room by (simp add: u32_def bs_holds_def)
  then have "q_append_uint32 v (h, s) = Some (h', s\<lparr>str_length := str_length s + 4\<rparr>)"
    using h'(1) by (simp add: q_append_uint32_def field4_def)
  moreover have "uint4korr ((!) (xs @ field4 v)) (length xs) = v"
    using field4_read [of "length xs" "xs @ field4 v" v] by (simp add: overwrite_def field4_def)
  ultimately show "\<exists>h' s' ys. q_append_uint32 v (h, s) = Some (h', s') \<and> bs_holds h' s' (xs @ ys)
      \<and> uint4korr ((!) (xs @ ys)) (length xs) = v" using h'(2) by blast
next
  assume pos: "position + 4 \<le> length xs"
  obtain h' where h': "store (padd (Ptr s) position) (field4 v) h = Some h'" "bs_holds h' s (overwrite position (field4 v) xs)"
    using bs_overwrite [OF h, of position "field4 v"] pos by (cases xs) (auto simp: field4_def)
  then have "write_at_position position v (h, s) = Some (h', s)" by (simp add: write_at_position_def field4_def)
  moreover have "length (overwrite position (field4 v) xs) = length xs"
    "take position (overwrite position (field4 v) xs) = take position xs"
    "drop (position + 4) (overwrite position (field4 v) xs) = drop (position + 4) xs"
    using pos by (simp_all add: overwrite_def field4_def)
  ultimately show "\<exists>h' ys. write_at_position position v (h, s) = Some (h', s) \<and> bs_holds h' s ys
      \<and> length ys = length xs \<and> uint4korr ((!) ys) position = v
      \<and> take position ys = take position xs \<and> drop (position + 4) ys = drop (position + 4) xs"
    using h'(2) field4_read [OF pos] by blast
qed

theorem binary_string_integer_fields_witness:
  "\<exists>h' s' ys. q_append_uint32 7 (sample_heap, BinaryStringBuffer_new (At 2 0) 4) = Some (h', s') \<and> bs_holds h' s' ys
     \<and> uint4korr ((!) ys) 0 = 7"
proof -
  have "bs_holds sample_heap (BinaryStringBuffer_new (At 2 0) 4) []"
    by (simp add: bs_holds_def sample_heap_def wf_heap_def BinaryStringBuffer_new_def bs_of_buffer_def set_length_def u32_def)
  from binary_string_integer_fields [OF this, of 7 0] show ?thesis
    by (simp add: BinaryStringBuffer_new_def bs_of_buffer_def set_length_def u32_def)
qed

text \<open>Chopping drops the last byte of the text and leaves a zero in its place; it does so even when the
  string is marked constant, so the memory a constant string points to is modified.\<close>

theorem binary_string_chop:
  assumes h: "bs_holds h s (xs @ [c])"
  shows "\<exists>h' s'. bs_chop (h, s) = Some (h', s') \<and> bs_holds h' s' xs \<and> own s' = own s
     \<and> load h' (Ptr s) (length xs + 1) = Some (xs @ [0])"
proof -
  have l: "str_length s = length xs + 1" using bs_holds_length [OF h] by simp
  obtain h' where h': "store (padd (Ptr s) (length xs)) [0] h = Some h'" "bs_holds h' s (overwrite (length xs) [0] (xs @ [c]))"
    using bs_overwrite [OF h, of "length xs" "[0]"] by auto
  have o: "overwrite (length xs) [0] (xs @ [c]) = xs @ [0]" by (simp add: overwrite_def)
  let ?s = "s\<lparr>str_length := length xs\<rparr>"
  have "bs_chop (h, s) = Some (h', ?s)" using l h'(1) by (simp add: bs_chop_def)
  moreover have ld: "load h' (Ptr s) (length xs + 1) = Some (xs @ [0])" using h'(2) l o by (simp add: bs_holds_def)
  moreover have "load h' (Ptr s) (length xs) = Some xs" using load_prefix [OF ld, of "length xs"] by simp
  then have "bs_holds h' ?s xs" using h'(2) l by (auto simp: bs_holds_def)
  ultimately show ?thesis by auto
qed

theorem binary_string_chop_witness:
  "\<exists>h' s'. bs_chop (sample_heap, bs_of_const (At 0 0) 2) = Some (h', s') \<and> bs_holds h' s' [72]
     \<and> load h' (At 0 0) 2 = Some [72, 0]"
proof -
  have "bs_holds sample_heap (bs_of_const (At 0 0) 2) ([72] @ [105])" using sample_heap_const by simp
  from binary_string_chop [OF this] show ?thesis by (simp add: bs_of_const_def numeral_2_eq_2) blast
qed

section \<open>StringBuffer\<close>

text \<open>A \<^verbatim>\<open>StringBuffer\<close> starts empty over its member array, and appending fewer bytes than the array has
  never calls the allocator, whatever it would do, and keeps the text in the array.\<close>

theorem string_buffer_append:
  assumes wf: "wf_heap h" and b: "load h buff sz \<noteq> None" and sz: "sz < 2 ^ 32"
    and d: "load h data n = Some ys" and o: "block_of data \<inter> block_of buff = {}" and n: "n < sz"
  shows "\<exists>h' s'. bs_append R data n (h, base (StringBuffer_new buff sz cs)) = Some (False, h', s')
     \<and> bs_holds h' s' ys \<and> Ptr s' = buff \<and> \<not> alloced s'"
proof -
  define s where "s = base (StringBuffer_new buff sz cs)"
  have s: "s = \<lparr>Ptr = buff, str_length = 0, Alloced_length = sz, extra_alloc = 0, alloced = False, thread_specific = False\<rparr>"
    using sz by (simp add: s_def StringBuffer_new_def string_of_buffer_def bs_of_buffer_def set_length_def u32_def)
  have "load h buff 0 = Some []" using b load_prefix [of h buff sz _ 0] by auto
  then have h: "bs_holds h s []" using wf b sz by (simp add: s bs_holds_def)
  have u: "u64 n = n" "u32 n = n" using n sz by (simp_all add: u64_def u32_def)
  show ?thesis
  proof (cases "n = 0")
    case True
    then have "ys = []" using load_length [OF d] by simp
    then show ?thesis using h True unfolding s_def [symmetric] by (simp add: bs_append_def s)
  next
    case False
    from bs_store_beyond [OF h, of n 0] n obtain h1 where
      h1: "store (padd buff n) [0] h = Some h1" "frame h s h1" "bs_holds h1 s []" by (auto simp: s)
    have "load h1 data n = Some ys"
      using frame_load [OF h1(2) d _ False] o n by (simp add: own_def s)
    then obtain h' where "store (padd (Ptr s) (str_length s)) ys h1 = Some h'" "bs_holds h' (s\<lparr>str_length := str_length s + n\<rparr>) ([] @ ys)"
      "load h1 data n = Some ys"
      using bs_store_end [OF h1(3), of ys] load_length [OF d] n by (auto simp: s)
    then show ?thesis using h1(1) False n u unfolding s_def [symmetric]
      by (simp add: bs_append_def realloc_with_extra_if_needed_def q_append_def s)
  qed
qed

theorem string_buffer_append_witness:
  "\<exists>h' s'. bs_append (\<lambda>n st. (True, st)) (At 1 0) 2
        (sample_heap, base (StringBuffer_new (At 2 0) 4 \<lparr>cs_number = 63, mbminlen = 1, mbmaxlen = 1\<rparr>)) = Some (False, h', s')
     \<and> bs_holds h' s' [33, 250]"
  using string_buffer_append [of sample_heap "At 2 0" 4 "At 1 0" 2 "[33, 250]" "\<lambda>n st. (True, st)"
      "\<lparr>cs_number = 63, mbminlen = 1, mbmaxlen = 1\<rparr>"] sample_heap_load
  by (fastforce simp: wf_heap_def sample_heap_def)

end
