(* ===== verification/Thread_Cache.thy ===== *)
theory Thread_Cache
  imports Prelude
begin

text \<open>
  The cache of connection threads of \<^verbatim>\<open>thread_cache.h\<close>: threads that have finished a connection park in
  the cache until a new connection is queued for them, the cache is flushed or a timeout elapses.
  Every section under \<^verbatim>\<open>LOCK_thread_cache\<close> is one step of a transition system, and so is every signal that
  is sent after the lock was released. The condition variables are lists of waiting threads; waking a
  thread moves it to the threads that will run on when they get the lock. A waiting thread can be woken by a
  signal, a broadcast or a timeout, and by nothing at all (a spurious wake-up). The variable
  \<^verbatim>\<open>thread_cache_size\<close> of the server can be set at any time. The queue of connections is the sequence that the
  intrusive list class maintains. The increment of \<^verbatim>\<open>final_flush\<close>, which is made without the lock, is taken to be atomic.
\<close>

section \<open>State\<close>

type_synonym thread = nat
type_synonym connect = nat

text \<open>The fields of the class and the variable of the server; the threads at its condition variables, where the flag of
  a woken thread records a timeout; the signals still to be sent by threads that have released the lock; the
  history of the connections accepted and served, and the number of final flushes. The number of cached threads is
  at most the largest size of the cache (below), so that its 32 bits never overflow for sizes below \<open>2 ^ 32\<close>; the number
  of flush requests has its 32 bits.\<close>

record Thread_cache =
  conn_list :: "connect list"
  cached_thread_count :: nat
  kill_cached_threads :: uint32
  thread_cache_size :: nat
  waiters :: "thread list"
  woken :: "(thread \<times> bool) list"
  flush_waiters :: "thread list"
  flush_woken :: "thread list"
  enqueue_signals :: nat
  flush_signals :: nat
  accepted :: "connect list"
  served :: "connect list"
  final_flushes :: nat

definition tc_init :: "nat \<Rightarrow> Thread_cache" where
  "tc_init cache_size = \<lparr>conn_list = [], cached_thread_count = 0, kill_cached_threads = 0, thread_cache_size = cache_size,
     waiters = [], woken = [], flush_waiters = [], flush_woken = [], enqueue_signals = 0, flush_signals = 0,
     accepted = [], served = [], final_flushes = 0\<rparr>"

section \<open>Operations\<close>

text \<open>\<^verbatim>\<open>enqueue\<close>: the flag is the result.\<close>

definition enqueue :: "connect \<Rightarrow> Thread_cache \<Rightarrow> bool \<times> Thread_cache" where
  "enqueue c s =
     (if cached_thread_count s \<noteq> 0
      then (True, s\<lparr>conn_list := conn_list s @ [c], cached_thread_count := cached_thread_count s - 1,
                    enqueue_signals := enqueue_signals s + 1, accepted := accepted s @ [c]\<rparr>)
      else (False, s))"

text \<open>The outcomes of a section of \<^verbatim>\<open>park\<close>: it returns a connection or null, or waits.\<close>

datatype park_outcome = Serve connect | Return_Null | Wait

definition park_begin :: "thread \<Rightarrow> Thread_cache \<Rightarrow> park_outcome \<times> Thread_cache" where
  "park_begin t s =
     (case conn_list s of
        c # cs \<Rightarrow> (Serve c, s\<lparr>conn_list := cs, cached_thread_count := cached_thread_count s + 1,
                              served := served s @ [c]\<rparr>)
      | [] \<Rightarrow>
          if cached_thread_count s < thread_cache_size s \<and> kill_cached_threads s = 0
          then (Wait, s\<lparr>cached_thread_count := cached_thread_count s + 1, waiters := waiters s @ [t]\<rparr>)
          else (Return_Null, s))"

text \<open>The section after the timed wait returned, with its error being a timeout or not. A thread that saw
  a flush request signals \<^verbatim>\<open>COND_flush_thread_cache\<close> after releasing the lock.\<close>

definition park_resume :: "thread \<Rightarrow> bool \<Rightarrow> Thread_cache \<Rightarrow> park_outcome \<times> Thread_cache" where
  "park_resume t timed_out s =
     (let flushed = kill_cached_threads s \<noteq> 0;
          signal = (if flushed then 1 else 0)
      in case conn_list s of
           c # cs \<Rightarrow> (Serve c, s\<lparr>conn_list := cs, flush_signals := flush_signals s + signal,
                                 served := served s @ [c]\<rparr>)
         | [] \<Rightarrow>
             if flushed \<or> timed_out
             then (Return_Null, s\<lparr>cached_thread_count := cached_thread_count s - 1,
                                  flush_signals := flush_signals s + signal\<rparr>)
             else (Wait, s\<lparr>waiters := waiters s @ [t]\<rparr>))"

text \<open>One test of the loop of \<^verbatim>\<open>flush\<close>: broadcast and wait, or finish. The flag tells that it finished.\<close>

definition flush_loop :: "thread \<Rightarrow> Thread_cache \<Rightarrow> bool \<times> Thread_cache" where
  "flush_loop t s =
     (if cached_thread_count s \<noteq> 0
      then (False, s\<lparr>waiters := [], woken := woken s @ map (\<lambda>t. (t, False)) (waiters s),
                     flush_waiters := flush_waiters s @ [t]\<rparr>)
      else (True, s\<lparr>kill_cached_threads := kill_cached_threads s - 1\<rparr>))"

definition flush_begin :: "thread \<Rightarrow> Thread_cache \<Rightarrow> bool \<times> Thread_cache" where
  "flush_begin t s = flush_loop t (s\<lparr>kill_cached_threads := kill_cached_threads s + 1\<rparr>)"

text \<open>The increment that \<^verbatim>\<open>final_flush\<close> makes before it calls \<^verbatim>\<open>flush\<close>.\<close>

definition final_flush_begin :: "Thread_cache \<Rightarrow> Thread_cache" where
  "final_flush_begin s = s\<lparr>kill_cached_threads := kill_cached_threads s + 1, final_flushes := final_flushes s + 1\<rparr>"

definition tc_size :: "Thread_cache \<Rightarrow> nat" where
  "tc_size s = cached_thread_count s"

section \<open>Interleavings\<close>

text \<open>The steps that need nobody from outside: signals and woken threads running on.\<close>

inductive progress :: "Thread_cache \<Rightarrow> Thread_cache \<Rightarrow> bool" where
  Signal: "0 < enqueue_signals s \<Longrightarrow> waiters s = xs @ t # ys \<Longrightarrow>
     progress s (s\<lparr>enqueue_signals := enqueue_signals s - 1, waiters := xs @ ys, woken := woken s @ [(t, False)]\<rparr>)"
| Signal_Nobody: "0 < enqueue_signals s \<Longrightarrow> waiters s = [] \<Longrightarrow>
     progress s (s\<lparr>enqueue_signals := enqueue_signals s - 1\<rparr>)"
| Resume: "woken s = xs @ (t, timed_out) # ys \<Longrightarrow>
     progress s (snd (park_resume t timed_out (s\<lparr>woken := xs @ ys\<rparr>)))"
| Flush_Signal: "0 < flush_signals s \<Longrightarrow> flush_waiters s = xs @ t # ys \<Longrightarrow>
     progress s (s\<lparr>flush_signals := flush_signals s - 1, flush_waiters := xs @ ys, flush_woken := flush_woken s @ [t]\<rparr>)"
| Flush_Signal_Nobody: "0 < flush_signals s \<Longrightarrow> flush_waiters s = [] \<Longrightarrow>
     progress s (s\<lparr>flush_signals := flush_signals s - 1\<rparr>)"
| Flush_Resume: "flush_woken s = xs @ t # ys \<Longrightarrow>
     progress s (snd (flush_loop t (s\<lparr>flush_woken := xs @ ys\<rparr>)))"

text \<open>In addition new requests, threads that come to park, timeouts, flush requests, and a new value of the size, which
  is never set above a limit.\<close>

inductive regular_step :: "nat \<Rightarrow> Thread_cache \<Rightarrow> Thread_cache \<Rightarrow> bool" for size_limit where
  Progress: "progress s s' \<Longrightarrow> regular_step size_limit s s'"
| Enqueue: "regular_step size_limit s (snd (enqueue c s))"
| Park: "regular_step size_limit s (snd (park_begin t s))"
| Timeout: "waiters s = xs @ t # ys \<Longrightarrow>
     regular_step size_limit s (s\<lparr>waiters := xs @ ys, woken := woken s @ [(t, True)]\<rparr>)"
| Flush: "regular_step size_limit s (snd (flush_begin t s))"
| Final_Flush: "regular_step size_limit s (final_flush_begin s)"
| Set_Size: "n \<le> size_limit \<Longrightarrow> regular_step size_limit s (s\<lparr>thread_cache_size := n\<rparr>)"

text \<open>Spurious wake-ups, at either condition variable, and all steps.\<close>

inductive spurious :: "Thread_cache \<Rightarrow> Thread_cache \<Rightarrow> bool" where
  Spurious: "waiters s = xs @ t # ys \<Longrightarrow> spurious s (s\<lparr>waiters := xs @ ys, woken := woken s @ [(t, False)]\<rparr>)"
| Flush_Spurious: "flush_waiters s = xs @ t # ys \<Longrightarrow>
     spurious s (s\<lparr>flush_waiters := xs @ ys, flush_woken := flush_woken s @ [t]\<rparr>)"

definition step :: "nat \<Rightarrow> Thread_cache \<Rightarrow> Thread_cache \<Rightarrow> bool" where
  "step size_limit s s' \<longleftrightarrow> regular_step size_limit s s' \<or> spurious s s'"

definition reachable :: "nat \<Rightarrow> Thread_cache \<Rightarrow> bool" where
  "reachable size_limit s \<longleftrightarrow> (\<exists>n \<le> size_limit. (step size_limit)\<^sup>*\<^sup>* (tc_init n) s)"

text \<open>The flushes that have not finished.\<close>

definition flushers :: "Thread_cache \<Rightarrow> nat" where
  "flushers s = length (flush_waiters s) + length (flush_woken s)"

lemmas tc_ops = enqueue_def park_begin_def park_resume_def flush_loop_def flush_begin_def final_flush_begin_def

section \<open>Invariant\<close>

text \<open>Every thread that is parked is either counted as free or reserved for a queued connection; no more
  threads are parked than the cache may hold; connections are served in the order of acceptance;
  every queued connection has a woken thread or a signal on its way; and the number of flush requests is that of
  the flushes that have not finished, with the final ones, up to wrap-around.\<close>

definition tc_inv :: "nat \<Rightarrow> Thread_cache \<Rightarrow> bool" where
  "tc_inv size_limit s \<longleftrightarrow>
     cached_thread_count s + length (conn_list s) = length (waiters s) + length (woken s)
   \<and> length (waiters s) + length (woken s) \<le> size_limit
   \<and> thread_cache_size s \<le> size_limit
   \<and> accepted s = served s @ conn_list s
   \<and> length (conn_list s) \<le> length (woken s) + enqueue_signals s
   \<and> kill_cached_threads s = of_nat (flushers s + final_flushes s)"

lemma tc_inv_init: "n \<le> size_limit \<Longrightarrow> tc_inv size_limit (tc_init n)"
  by (simp add: tc_inv_def tc_init_def flushers_def)

lemma tc_inv_progress: "progress s s' \<Longrightarrow> tc_inv size_limit s \<Longrightarrow> tc_inv size_limit s'"
  by (induction rule: progress.induct)
     (auto simp: tc_inv_def tc_ops flushers_def Let_def split: list.splits if_splits)

lemma tc_inv_regular: "regular_step size_limit s s' \<Longrightarrow> tc_inv size_limit s \<Longrightarrow> tc_inv size_limit s'"
proof (induction rule: regular_step.induct)
  case (Progress s s')
  then show ?case by (rule tc_inv_progress)
qed (auto simp: tc_inv_def tc_ops flushers_def Let_def split: list.splits if_splits)

lemma tc_inv_spurious: "spurious s s' \<Longrightarrow> tc_inv size_limit s \<Longrightarrow> tc_inv size_limit s'"
  by (induction rule: spurious.induct) (auto simp: tc_inv_def flushers_def)

lemma tc_inv_step: "step size_limit s s' \<Longrightarrow> tc_inv size_limit s \<Longrightarrow> tc_inv size_limit s'"
  unfolding step_def using tc_inv_regular tc_inv_spurious by blast

lemma reachable_inv:
  assumes "reachable size_limit s" shows "tc_inv size_limit s"
proof -
  obtain n where n: "n \<le> size_limit" and "(step size_limit)\<^sup>*\<^sup>* (tc_init n) s" using assms by (auto simp: reachable_def)
  from this(2) show ?thesis
    by (induction rule: rtranclp_induct) (auto simp: tc_inv_init n intro: tc_inv_step)
qed

text \<open>C2. In every interleaving of requests, parking threads, timeouts, spurious wake-ups, flushes and changes of the size
  the thread cache keeps its counts right: the free threads and the queued connections together are the parked
  threads, waiting or woken; these never exceed the largest size that the cache was given; connections are served in
  the order in which they were accepted, none lost and none twice; and the number of flush requests is that of the
  flushes that have not finished and of the final ones, up to wrap-around.\<close>

theorem thread_cache_invariant:
  assumes "reachable size_limit s"
  shows "cached_thread_count s + length (conn_list s) = length (waiters s) + length (woken s)
     \<and> length (waiters s) + length (woken s) \<le> size_limit
     \<and> accepted s = served s @ conn_list s
     \<and> kill_cached_threads s = of_nat (flushers s + final_flushes s)"
  using reachable_inv [OF assms] by (simp add: tc_inv_def)

lemma reachable_init: "n \<le> size_limit \<Longrightarrow> reachable size_limit (tc_init n)"
  by (auto simp: reachable_def)

lemma reachable_step: "reachable size_limit s \<Longrightarrow> step size_limit s s' \<Longrightarrow> reachable size_limit s'"
  unfolding reachable_def by (meson rtranclp.rtrancl_into_rtrancl)

lemma reachable_regular: "reachable size_limit s \<Longrightarrow> regular_step size_limit s s' \<Longrightarrow> reachable size_limit s'"
  by (auto simp: step_def intro: reachable_step)

text \<open>Two threads park, and a connection is queued for one of them.\<close>

definition sample :: Thread_cache where
  "sample = snd (enqueue 7 (snd (park_begin 2 (snd (park_begin 1 (tc_init 2))))))"

lemma sample_eq: "sample = (tc_init 2)\<lparr>conn_list := [7], cached_thread_count := 1, waiters := [1, 2], enqueue_signals := 1, accepted := [7]\<rparr>"
  by (simp add: sample_def tc_ops tc_init_def)

lemma sample_reachable: "reachable 2 sample"
proof -
  have "reachable 2 (tc_init 2)" by (rule reachable_init) simp
  then have "reachable 2 (snd (park_begin 1 (tc_init 2)))" by (rule reachable_regular) (rule regular_step.Park)
  then have "reachable 2 (snd (park_begin 2 (snd (park_begin 1 (tc_init 2)))))" by (rule reachable_regular) (rule regular_step.Park)
  then show ?thesis unfolding sample_def by (rule reachable_regular) (rule regular_step.Enqueue)
qed

theorem thread_cache_invariant_witness:
  "length (waiters sample) + length (woken sample) \<le> 2 \<and> length (waiters sample) = 2 \<and> accepted sample = served sample @ [7]"
  using thread_cache_invariant [OF sample_reachable] by (simp add: sample_eq tc_init_def)

section \<open>Queued connections are served\<close>

text \<open>While connections are queued every internal step comes closer to serving one.\<close>

definition serve_measure :: "Thread_cache \<Rightarrow> nat \<times> nat" where
  "serve_measure s = (length (conn_list s), 2 * enqueue_signals s + 2 * flush_signals s + length (flush_woken s))"

lemma serve_measure_decreases:
  assumes "progress s s'" and "conn_list s \<noteq> []"
  shows "(serve_measure s', serve_measure s) \<in> less_than <*lex*> less_than"
  using assms
  by (induction rule: progress.induct)
     (auto simp: serve_measure_def tc_ops Let_def split: list.splits if_splits)

lemma serve_wf: "wf {(s', s). progress s s' \<and> conn_list s \<noteq> []}"
proof (rule wf_subset)
  show "wf (inv_image (less_than <*lex*> less_than) serve_measure)" by blast
  show "{(s', s). progress s s' \<and> conn_list s \<noteq> []} \<subseteq> inv_image (less_than <*lex*> less_than) serve_measure"
    by (auto simp: in_inv_image intro: serve_measure_decreases)
qed

lemma signal_enabled: "0 < enqueue_signals s \<Longrightarrow> \<exists>s'. progress s s'"
  using progress.Signal [of s "[]" "hd (waiters s)" "tl (waiters s)"] progress.Signal_Nobody [of s]
  by (cases "waiters s") auto

lemma resume_enabled: "woken s \<noteq> [] \<Longrightarrow> \<exists>s'. progress s s'"
  using progress.Resume [of s "[]" "fst (hd (woken s))" "snd (hd (woken s))" "tl (woken s)"]
  by (cases "woken s") auto

lemma serve_enabled:
  assumes "tc_inv size_limit s" and "conn_list s \<noteq> []"
  shows "\<exists>s'. progress s s'"
proof (cases "woken s = []")
  case True
  then have "0 < enqueue_signals s" using assms by (cases "conn_list s") (auto simp: tc_inv_def)
  then show ?thesis by (rule signal_enabled)
qed (rule resume_enabled)

lemma progress_accepted: "progress s s' \<Longrightarrow> accepted s' = accepted s"
  by (induction rule: progress.induct) (auto simp: tc_ops Let_def split: list.splits)

lemma progress_serves:
  assumes "tc_inv size_limit s"
  shows "\<exists>s'. progress\<^sup>*\<^sup>* s s' \<and> conn_list s' = [] \<and> served s' = accepted s"
  using assms
proof (induction s rule: wf_induct_rule [OF serve_wf])
  case (1 s)
  show ?case
  proof (cases "conn_list s = []")
    case True
    then show ?thesis using 1(2) by (intro exI [of _ s]) (simp add: tc_inv_def)
  next
    case False
    then obtain s1 where s1: "progress s s1" using serve_enabled [OF 1(2)] by blast
    obtain s' where "progress\<^sup>*\<^sup>* s1 s'" "conn_list s' = []" "served s' = accepted s1"
      using 1(1) [of s1] s1 False tc_inv_progress [OF s1 1(2)] by auto
    then show ?thesis using s1 progress_accepted [OF s1] by (auto intro: converse_rtranclp_into_rtranclp)
  qed
qed

text \<open>C22. No wakeup is lost: as long as connections are queued some internal step (a signal that is still to
  be sent, or a woken thread) is enabled, no infinite run of internal steps keeps a connection in the
  queue, and the internal steps alone lead to a state in which everything accepted has been served.\<close>

theorem thread_cache_serves_all:
  assumes "reachable size_limit s"
  shows "(conn_list s \<noteq> [] \<longrightarrow> (\<exists>s'. progress s s'))
     \<and> \<not> (\<exists>f. f 0 = s \<and> (\<forall>i. progress (f i) (f (Suc i)) \<and> conn_list (f i) \<noteq> []))
     \<and> (\<exists>s'. progress\<^sup>*\<^sup>* s s' \<and> conn_list s' = [] \<and> served s' = accepted s)"
proof (intro conjI impI)
  have inv: "tc_inv size_limit s" using assms by (rule reachable_inv)
  show "\<exists>s'. progress s s'" if "conn_list s \<noteq> []" using serve_enabled [OF inv that] .
  show "\<exists>s'. progress\<^sup>*\<^sup>* s s' \<and> conn_list s' = [] \<and> served s' = accepted s" using progress_serves [OF inv] .
  show "\<not> (\<exists>f. f 0 = s \<and> (\<forall>i. progress (f i) (f (Suc i)) \<and> conn_list (f i) \<noteq> []))"
    using serve_wf unfolding wf_iff_no_infinite_down_chain by blast
qed

theorem thread_cache_serves_all_witness:
  "\<exists>s'. progress\<^sup>*\<^sup>* sample s' \<and> served s' = [7]"
  using thread_cache_serves_all [OF sample_reachable] by (auto simp: sample_eq tc_init_def)

section \<open>Flushing\<close>

text \<open>As long as the flush requests are fewer than \<open>2 ^ 32\<close>, a flush that has not finished keeps the cache closed.\<close>

definition few_flushes :: "Thread_cache \<Rightarrow> bool" where
  "few_flushes s \<longleftrightarrow> flushers s + final_flushes s < 2 ^ 32"

lemma kill_nonzero:
  assumes "tc_inv size_limit s" and "few_flushes s" and "flushers s \<noteq> 0"
  shows "kill_cached_threads s \<noteq> 0"
proof -
  have "unat (of_nat k :: uint32) = k" if "k < 2 ^ 32" for k
    using that by (simp add: unsigned_of_nat take_bit_nat_eq_self)
  from this [OF assms(2) [unfolded few_flushes_def]] have "unat (kill_cached_threads s) = flushers s + final_flushes s"
    using assms(1) by (simp only: tc_inv_def)
  then show ?thesis using assms(3) by (metis add_is_0 unat_0)
qed

text \<open>Runs in which at most one flush waits at a time.\<close>

definition single_step :: "nat \<Rightarrow> Thread_cache \<Rightarrow> Thread_cache \<Rightarrow> bool" where
  "single_step size_limit s s' \<longleftrightarrow> step size_limit s s' \<and> flushers s' \<le> 1 \<and> few_flushes s'"

definition flush_inv :: "Thread_cache \<Rightarrow> bool" where
  "flush_inv s \<longleftrightarrow> flushers s \<le> 1 \<and> few_flushes s
     \<and> (flushers s \<noteq> 0 \<longrightarrow> waiters s = [])
     \<and> (flush_waiters s \<noteq> [] \<longrightarrow> woken s \<noteq> [] \<or> 0 < flush_signals s)"

lemma flush_inv_progress:
  assumes "progress s s'" and "tc_inv size_limit s" and "flush_inv s"
  shows "flush_inv s'"
proof -
  have "flushers s \<noteq> 0 \<Longrightarrow> kill_cached_threads s \<noteq> 0" using kill_nonzero assms(2,3) by (auto simp: flush_inv_def)
  with assms show ?thesis
    by (induction rule: progress.induct)
       (auto simp: flush_inv_def flushers_def few_flushes_def tc_inv_def tc_ops Let_def split: list.splits if_splits)
qed

lemma flush_inv_spurious: "spurious s s' \<Longrightarrow> flush_inv s \<Longrightarrow> flush_inv s'"
  by (induction rule: spurious.induct) (auto simp: flush_inv_def flushers_def few_flushes_def)

lemma flush_inv_step:
  assumes "step size_limit s s'" and "flushers s' \<le> 1" and "few_flushes s'" and "tc_inv size_limit s" and "flush_inv s"
  shows "flush_inv s'"
  using assms(1) unfolding step_def
proof
  assume "regular_step size_limit s s'"
  moreover have "flushers s \<noteq> 0 \<Longrightarrow> kill_cached_threads s \<noteq> 0" using kill_nonzero assms(4,5) by (auto simp: flush_inv_def)
  ultimately show ?thesis using assms(2-)
  proof (induction rule: regular_step.induct)
    case (Progress s s')
    then show ?case using flush_inv_progress by blast
  qed (auto simp: flush_inv_def flushers_def few_flushes_def tc_inv_def tc_ops split: list.splits if_splits)
qed (use flush_inv_spurious assms(5) in blast)

lemma single_reachable_inv:
  assumes "n \<le> size_limit" and "(single_step size_limit)\<^sup>*\<^sup>* (tc_init n) s"
  shows "tc_inv size_limit s \<and> flush_inv s"
  using assms(2)
proof (induction rule: rtranclp_induct)
  case base
  have "flush_inv (tc_init n)" by (simp add: flush_inv_def flushers_def few_flushes_def tc_init_def)
  then show ?case using tc_inv_init [OF assms(1)] by blast
next
  case (step s s')
  then show ?case using tc_inv_step flush_inv_step unfolding single_step_def by blast
qed

text \<open>While a flush is under way every internal step comes closer to its end.\<close>

definition flush_measure :: "Thread_cache \<Rightarrow> nat" where
  "flush_measure s = 3 * length (woken s) + 2 * flush_signals s + length (flush_woken s) + enqueue_signals s"

lemma flush_measure_decreases:
  assumes "progress s s'" and "tc_inv size_limit s" and "flush_inv s" and "flushers s \<noteq> 0"
  shows "flush_measure s' < flush_measure s"
proof -
  have "kill_cached_threads s \<noteq> 0" using kill_nonzero assms(2-4) by (auto simp: flush_inv_def)
  with assms show ?thesis
    by (induction rule: progress.induct)
       (auto simp: flush_measure_def flush_inv_def flushers_def tc_ops Let_def split: list.splits if_splits)
qed

lemma flush_signal_enabled: "0 < flush_signals s \<Longrightarrow> \<exists>s'. progress s s'"
  using progress.Flush_Signal [of s "[]" "hd (flush_waiters s)" "tl (flush_waiters s)"] progress.Flush_Signal_Nobody [of s]
  by (cases "flush_waiters s") auto

lemma flush_resume_enabled: "flush_woken s \<noteq> [] \<Longrightarrow> \<exists>s'. progress s s'"
  using progress.Flush_Resume [of s "[]" "hd (flush_woken s)" "tl (flush_woken s)"] by (cases "flush_woken s") auto

lemma flush_enabled:
  assumes "flush_inv s" and "flushers s \<noteq> 0"
  shows "\<exists>s'. progress s s'"
  using assms resume_enabled [of s] flush_signal_enabled [of s] flush_resume_enabled [of s]
  by (auto simp: flush_inv_def flushers_def)

lemma flush_completes:
  assumes "tc_inv size_limit s" and "flush_inv s"
  shows "\<exists>s'. progress\<^sup>*\<^sup>* s s' \<and> flushers s' = 0"
  using assms
proof (induction "flush_measure s" arbitrary: s rule: less_induct)
  case less
  show ?case
  proof (cases "flushers s = 0")
    case False
    then obtain s1 where s1: "progress s s1" using flush_enabled [OF less.prems(2)] by blast
    obtain s' where "progress\<^sup>*\<^sup>* s1 s'" "flushers s' = 0"
      using less.hyps [OF flush_measure_decreases [OF s1 less.prems False]
          tc_inv_progress [OF s1 less.prems(1)] flush_inv_progress [OF s1 less.prems]] by blast
    then show ?thesis using s1 by (auto intro: converse_rtranclp_into_rtranclp)
  qed blast
qed

text \<open>C38. As long as at most one flush waits at a time, and there are fewer than \<open>2 ^ 32\<close> flush requests, a flush always
  gets through, also with spurious wake-ups: while it waits an internal step is enabled, every internal step
  decreases a bound, and the internal steps lead to a state with no flush waiting; meanwhile no thread parks.\<close>

theorem thread_cache_single_flush_completes:
  assumes "n \<le> size_limit" and "(single_step size_limit)\<^sup>*\<^sup>* (tc_init n) s" and "flushers s \<noteq> 0"
  shows "(\<exists>s'. progress s s') \<and> (\<forall>s'. progress s s' \<longrightarrow> flush_measure s' < flush_measure s)
     \<and> (\<exists>s'. progress\<^sup>*\<^sup>* s s' \<and> flushers s' = 0) \<and> waiters s = []"
  using single_reachable_inv [OF assms(1,2)] assms(3) flush_enabled flush_measure_decreases flush_completes
  unfolding flush_inv_def by blast

text \<open>A thread parks, then a flush waits for it.\<close>

definition one_flush :: Thread_cache where
  "one_flush = snd (flush_begin 2 (snd (park_begin 1 (tc_init 1))))"

lemma one_flush_eq:
  "one_flush = (tc_init 1)\<lparr>cached_thread_count := 1, kill_cached_threads := 1, woken := [(1, False)], flush_waiters := [2]\<rparr>"
  by (simp add: one_flush_def tc_ops tc_init_def)

theorem thread_cache_single_flush_completes_witness:
  "\<exists>s'. progress\<^sup>*\<^sup>* one_flush s' \<and> flushers s' = 0"
proof -
  let ?p = "snd (park_begin 1 (tc_init 1))"
  have "single_step 1 (tc_init 1) ?p"
    using regular_step.Park [of 1 "tc_init 1" 1] by (simp add: single_step_def step_def flushers_def few_flushes_def tc_ops tc_init_def)
  moreover have "single_step 1 ?p one_flush"
    using regular_step.Flush [of 1 ?p 2] unfolding one_flush_def [symmetric] one_flush_eq
    by (simp add: single_step_def step_def flushers_def few_flushes_def tc_init_def)
  ultimately have "(single_step 1)\<^sup>*\<^sup>* (tc_init 1) one_flush" by auto
  moreover have "flushers one_flush \<noteq> 0" by (simp add: one_flush_eq flushers_def)
  ultimately show ?thesis using thread_cache_single_flush_completes [of 1 1 one_flush] by blast
qed

text \<open>Once the last parked thread has gone and its signal is spent, a flush that still waits is woken by no regular step, as
  long as the flush requests do not wrap around.\<close>

definition stuck :: "Thread_cache \<Rightarrow> bool" where
  "stuck s \<longleftrightarrow> cached_thread_count s = 0 \<and> conn_list s = [] \<and> waiters s = [] \<and> woken s = [] \<and> flush_signals s = 0
     \<and> flush_woken s = [] \<and> flush_waiters s \<noteq> []"

definition bounded_step :: "nat \<Rightarrow> Thread_cache \<Rightarrow> Thread_cache \<Rightarrow> bool" where
  "bounded_step size_limit s s' \<longleftrightarrow> regular_step size_limit s s' \<and> few_flushes s'"

lemma stuck_progress: "progress s s' \<Longrightarrow> stuck s \<Longrightarrow> stuck s' \<and> flush_waiters s' = flush_waiters s"
  by (induction rule: progress.induct) (auto simp: stuck_def)

lemma stuck_regular:
  "regular_step size_limit s s' \<Longrightarrow> stuck s \<Longrightarrow> kill_cached_threads s \<noteq> 0 \<Longrightarrow> stuck s' \<and> flush_waiters s' = flush_waiters s"
proof (induction rule: regular_step.induct)
  case (Progress s s')
  then show ?case by (blast dest: stuck_progress)
qed (auto simp: stuck_def tc_ops)

lemma stuck_forever:
  "(bounded_step size_limit)\<^sup>*\<^sup>* s s' \<Longrightarrow> stuck s \<Longrightarrow> tc_inv size_limit s \<Longrightarrow> few_flushes s \<Longrightarrow>
   stuck s' \<and> tc_inv size_limit s' \<and> few_flushes s' \<and> flush_waiters s' = flush_waiters s"
proof (induction rule: rtranclp_induct)
  case (step s' s'')
  then have s': "stuck s'" "tc_inv size_limit s'" "few_flushes s'" "flush_waiters s' = flush_waiters s" by blast+
  then have "kill_cached_threads s' \<noteq> 0" by (intro kill_nonzero) (auto simp: stuck_def flushers_def)
  then show ?case using s' step.hyps(2) stuck_regular [of size_limit s' s''] tc_inv_regular [of size_limit s' s'']
    by (auto simp: bounded_step_def)
qed blast

text \<open>Two flushes wait for the same parked thread; it leaves and signals once.\<close>

definition two_flushes :: Thread_cache where
  "two_flushes = (tc_init 1)\<lparr>kill_cached_threads := 1, flush_waiters := [3]\<rparr>"

lemma two_flushes_reach: "reachable 1 two_flushes"
proof -
  let ?s1 = "snd (flush_begin 3 one_flush)"
  have s1: "?s1 = (tc_init 1)\<lparr>cached_thread_count := 1, kill_cached_threads := 2, woken := [(1, False)], flush_waiters := [2, 3]\<rparr>"
    by (simp add: one_flush_eq tc_ops tc_init_def)
  let ?s2 = "snd (park_resume 1 False (?s1\<lparr>woken := []\<rparr>))"
  have s2: "?s2 = (tc_init 1)\<lparr>kill_cached_threads := 2, flush_waiters := [2, 3], flush_signals := 1\<rparr>"
    unfolding s1 by (simp add: tc_ops tc_init_def)
  let ?s3 = "?s2\<lparr>flush_signals := flush_signals ?s2 - 1, flush_waiters := [] @ [3], flush_woken := flush_woken ?s2 @ [2]\<rparr>"
  let ?s4 = "snd (flush_loop 2 (?s3\<lparr>flush_woken := [] @ []\<rparr>))"
  have s4: "?s4 = two_flushes" unfolding s2 by (simp add: two_flushes_def tc_ops tc_init_def)
  have "reachable 1 one_flush" unfolding one_flush_def
    by (rule reachable_regular [OF reachable_regular [OF reachable_init regular_step.Park] regular_step.Flush]) simp
  then have "reachable 1 ?s1" by (rule reachable_regular) (rule regular_step.Flush)
  moreover have "progress ?s1 ?s2" using progress.Resume [of ?s1 "[]" 1 False "[]"] unfolding s1 by (simp add: tc_init_def)
  ultimately have "reachable 1 ?s2" by (blast intro: reachable_regular regular_step.Progress)
  moreover have "progress ?s2 ?s3" unfolding s2 by (rule progress.Flush_Signal) (simp_all add: tc_init_def)
  ultimately have "reachable 1 ?s3" by (blast intro: reachable_regular regular_step.Progress)
  moreover have "progress ?s3 ?s4" unfolding s2 by (rule progress.Flush_Resume) (simp add: tc_init_def)
  ultimately have "reachable 1 ?s4" by (blast intro: reachable_regular regular_step.Progress)
  then show ?thesis by (simp only: s4)
qed

lemma two_flushes_rescued: "\<exists>s. (step 1)\<^sup>*\<^sup>* two_flushes s \<and> flushers s = 0"
proof -
  let ?s1 = "two_flushes\<lparr>flush_waiters := [] @ [], flush_woken := flush_woken two_flushes @ [3]\<rparr>"
  let ?s2 = "snd (flush_loop 3 (?s1\<lparr>flush_woken := [] @ []\<rparr>))"
  have "spurious two_flushes ?s1" by (rule spurious.Flush_Spurious) (simp add: two_flushes_def)
  moreover have "progress ?s1 ?s2" by (rule progress.Flush_Resume) (simp add: two_flushes_def tc_init_def)
  ultimately have "(step 1)\<^sup>*\<^sup>* two_flushes ?s2"
    by (meson step_def regular_step.Progress rtranclp.rtrancl_into_rtrancl rtranclp.rtrancl_refl)
  moreover have "flushers ?s2 = 0" by (simp add: two_flushes_def tc_ops tc_init_def flushers_def)
  ultimately show ?thesis by blast
qed

text \<open>C39. Two flushes at the same time can leave one of them waiting although no thread is parked any more: a parked thread
  that leaves signals only one of the waiting flushes, and as the other one keeps the cache closed no thread will
  park and signal again. There is a reachable state without parked threads in which a flush waits, and in which
  only a spurious wake-up can help it: whatever else happens, for how long it may be, with fewer than \<open>2 ^ 32\<close> flush
  requests at a time, the same flush keeps waiting; after a spurious wake-up it can finish.\<close>

theorem thread_cache_concurrent_flush_hangs:
  "\<exists>s. reachable 1 s \<and> cached_thread_count s = 0 \<and> waiters s = [] \<and> woken s = []
     \<and> flush_waiters ` {s'. (bounded_step 1)\<^sup>*\<^sup>* s s'} = {[3]} \<and> (\<exists>s'. (step 1)\<^sup>*\<^sup>* s s' \<and> flushers s' = 0)"
proof (rule exI [of _ two_flushes], intro conjI)
  show "reachable 1 two_flushes" by (rule two_flushes_reach)
  then have "tc_inv 1 two_flushes" by (rule reachable_inv)
  moreover have "stuck two_flushes" "few_flushes two_flushes" "flush_waiters two_flushes = [3]"
    by (simp_all add: stuck_def few_flushes_def flushers_def two_flushes_def tc_init_def)
  ultimately have f: "flush_waiters s' = [3]" if "(bounded_step 1)\<^sup>*\<^sup>* two_flushes s'" for s'
    using stuck_forever [OF that] by simp
  show "flush_waiters ` {s'. (bounded_step 1)\<^sup>*\<^sup>* two_flushes s'} = {[3]}"
  proof (rule equalityI)
    show "flush_waiters ` {s'. (bounded_step 1)\<^sup>*\<^sup>* two_flushes s'} \<subseteq> {[3]}" using f by auto
    have "[3] = flush_waiters two_flushes" by (simp add: two_flushes_def)
    then show "{[3]} \<subseteq> flush_waiters ` {s'. (bounded_step 1)\<^sup>*\<^sup>* two_flushes s'}" by blast
  qed
  show "\<exists>s'. (step 1)\<^sup>*\<^sup>* two_flushes s' \<and> flushers s' = 0" by (rule two_flushes_rescued)
qed (simp_all add: two_flushes_def tc_init_def)

end
