(* ===== verification/Hash_Filo.thy ===== *)
theory Hash_Filo
  imports Prelude
begin

text \<open>
  The cache of \<^verbatim>\<open>hash_filo.h\<close> that the server uses for host names and privileges: a hash table whose
  entries are also chained in the order of their last use, and which drops the entry at the end of the
  chain when it is full. The hash table \<^verbatim>\<open>HASH\<close> with its functions is not part of the headers; its
  operations are a parameter. The mutex of the class is held by its callers and not modelled.
\<close>

section \<open>The hash table\<close>

text \<open>The operations the cache calls. The insertion returns true when it fails; 0 is the null pointer.\<close>

record ('h, 'k) hash_ops =
  my_hash_init :: 'h
  my_hash_search :: "'h \<Rightarrow> 'k \<Rightarrow> addr"
  my_hash_insert :: "'h \<Rightarrow> addr \<Rightarrow> bool \<times> 'h"
  my_hash_delete :: "'h \<Rightarrow> addr \<Rightarrow> 'h"
  records :: "'h \<Rightarrow> nat"

section \<open>hash\_filo\<close>

text \<open>The function that frees an entry may be null; the list records the entries it was called on, by the class or, as the hash
  table was given the function, by the deletion of an entry. The table frees all its entries when it is cleared, which is
  not recorded.\<close>

record 'h hash_filo =
  m_size :: nat
  free_element :: bool
  init :: bool
  first_link :: addr
  last_link :: addr
  next_used :: "addr \<Rightarrow> addr"
  prev_used :: "addr \<Rightarrow> addr"
  cache :: 'h
  freed :: "addr list"

definition mk_hash_filo :: "'h \<Rightarrow> nat \<Rightarrow> bool \<Rightarrow> 'h hash_filo" where
  "mk_hash_filo zeroed size_arg free_element_arg =
     \<lparr>m_size = size_arg, free_element = free_element_arg, init = False, first_link = 0, last_link = 0, next_used = (\<lambda>_. 0), prev_used = (\<lambda>_. 0),
      cache = zeroed, freed = []\<rparr>"

definition filo_clear :: "('h, 'k) hash_ops \<Rightarrow> 'h hash_filo \<Rightarrow> 'h hash_filo" where
  "filo_clear H f = f\<lparr>init := True, first_link := 0, last_link := 0, cache := my_hash_init H\<rparr>"

text \<open>Writing the links of an entry.\<close>

definition set_next :: "addr \<Rightarrow> addr \<Rightarrow> 'h hash_filo \<Rightarrow> 'h hash_filo" where
  "set_next e v f = f\<lparr>next_used := (next_used f)(e := v)\<rparr>"

definition set_prev :: "addr \<Rightarrow> addr \<Rightarrow> 'h hash_filo \<Rightarrow> 'h hash_filo" where
  "set_prev e v f = f\<lparr>prev_used := (prev_used f)(e := v)\<rparr>"

definition filo_search :: "('h, 'k) hash_ops \<Rightarrow> 'k \<Rightarrow> 'h hash_filo \<Rightarrow> addr \<times> 'h hash_filo" where
  "filo_search H key f =
     (let entry = my_hash_search H (cache f) key
      in if entry \<noteq> 0 \<and> entry \<noteq> first_link f
         then let f = (if entry = last_link f
                       then let f = f\<lparr>last_link := prev_used f (last_link f)\<rparr> in set_next (last_link f) 0 f
                       else let f = set_prev (next_used f entry) (prev_used f entry) f
                            in set_next (prev_used f entry) (next_used f entry) f);
                  f = set_prev entry 0 f;
                  f = set_next entry (first_link f) f;
                  f = set_prev (first_link f) entry f
              in (entry, f\<lparr>first_link := entry\<rparr>)
         else (entry, f))"

text \<open>Dropping the least recently used entry, and putting a new one in front.\<close>

definition filo_evict :: "('h, 'k) hash_ops \<Rightarrow> 'h hash_filo \<Rightarrow> 'h hash_filo" where
  "filo_evict H f =
     (let tmp = last_link f;
          f = f\<lparr>last_link := prev_used f (last_link f)\<rparr>;
          f = (if last_link f \<noteq> 0 then set_next (last_link f) 0 f else f\<lparr>first_link := 0\<rparr>)
      in f\<lparr>cache := my_hash_delete H (cache f) tmp, freed := (if free_element f then tmp # freed f else freed f)\<rparr>)"

definition filo_link :: "addr \<Rightarrow> 'h hash_filo \<Rightarrow> 'h hash_filo" where
  "filo_link entry f =
     (let f = set_prev entry 0 f;
          f = set_next entry (first_link f) f;
          f = (if first_link f \<noteq> 0 then set_prev (first_link f) entry f else f\<lparr>last_link := entry\<rparr>)
      in f\<lparr>first_link := entry\<rparr>)"

definition filo_add :: "('h, 'k) hash_ops \<Rightarrow> addr \<Rightarrow> 'h hash_filo \<Rightarrow> bool \<times> 'h hash_filo" where
  "filo_add H entry f =
     (if m_size f = 0 then (True, f)
      else let f = (if records H (cache f) = m_size f then filo_evict H f else f);
               (fail, h) = my_hash_insert H (cache f) entry;
               f = f\<lparr>cache := h\<rparr>
           in if fail then (True, if free_element f then f\<lparr>freed := entry # freed f\<rparr> else f)
              else (False, filo_link entry f))"

definition filo_resize :: "('h, 'k) hash_ops \<Rightarrow> nat \<Rightarrow> 'h hash_filo \<Rightarrow> 'h hash_filo" where
  "filo_resize H new_size f = filo_clear H (f\<lparr>m_size := new_size\<rparr>)"

section \<open>The used-chain\<close>

text \<open>A stretch of the chain: the entry before it, its entries, and the entry after it.\<close>

fun fseg :: "(addr \<Rightarrow> addr) \<Rightarrow> (addr \<Rightarrow> addr) \<Rightarrow> addr \<Rightarrow> addr list \<Rightarrow> addr \<Rightarrow> bool" where
  "fseg nx pv p [] q \<longleftrightarrow> True"
| "fseg nx pv p (x # xs) q \<longleftrightarrow> pv x = p \<and> nx x = hd (xs @ [q]) \<and> fseg nx pv x xs q"

lemma fseg_append:
  "fseg nx pv p (xs @ ys) q \<longleftrightarrow> fseg nx pv p xs (hd (ys @ [q])) \<and> fseg nx pv (last (p # xs)) ys q"
proof (induction xs arbitrary: p)
  case (Cons x xs)
  then show ?case by (cases xs) auto
qed simp

lemma fseg_frame:
  "(\<And>x. x \<in> set xs \<Longrightarrow> nx' x = nx x) \<Longrightarrow> (\<And>x. x \<in> set xs \<Longrightarrow> pv' x = pv x) \<Longrightarrow>
   fseg nx' pv' p xs q = fseg nx pv p xs q"
  by (induction xs arbitrary: p) auto

lemma fseg_first:
  assumes "fseg nx pv p xs q" and "distinct xs" and "xs \<noteq> []"
  shows "fseg nx (pv(hd xs := p')) p' xs q"
proof -
  obtain y ys where xs: "xs = y # ys" using assms(3) by (cases xs) auto
  have "fseg nx (pv(y := p')) y ys q = fseg nx pv y ys q" using assms(2) xs by (intro fseg_frame) auto
  then show ?thesis using assms(1) xs by simp
qed

lemma fseg_last:
  assumes "fseg nx pv p xs q" and "distinct xs" and "xs \<noteq> []"
  shows "fseg (nx(last xs := q')) pv p xs q'"
proof -
  obtain y ys where xs: "xs = ys @ [y]" using assms(3) by (metis rev_exhaust)
  have "fseg (nx(y := q')) pv p ys y = fseg nx pv p ys y" using assms(2) xs by (intro fseg_frame) auto
  then show ?thesis using assms(1) xs by (simp add: fseg_append)
qed

text \<open>Taking an entry out of the chain, and putting one in front.\<close>

lemma fseg_unlink:
  assumes "fseg nx pv p (xs @ e # ys) q" and "distinct (xs @ e # ys)" and "xs \<noteq> []"
  shows "fseg (nx(last xs := hd (ys @ [q]))) (if ys = [] then pv else pv(hd ys := last xs)) p (xs @ ys) q"
proof -
  have x: "fseg nx pv p xs e" and y: "fseg nx pv e ys q" using assms(1) by (simp_all add: fseg_append)
  have "fseg (nx(last xs := hd (ys @ [q]))) pv p xs (hd (ys @ [q]))"
    using fseg_last [OF x _ assms(3)] assms(2) by simp
  then have 1: "fseg (nx(last xs := hd (ys @ [q]))) (if ys = [] then pv else pv(hd ys := last xs)) p xs (hd (ys @ [q]))"
    using assms(2) by (subst fseg_frame [where nx = "nx(last xs := hd (ys @ [q]))" and pv = pv]) auto
  have "fseg nx (if ys = [] then pv else pv(hd ys := last xs)) (last xs) ys q"
    using fseg_first [OF y, of "last xs"] assms(2) by (cases ys) auto
  then have "fseg (nx(last xs := hd (ys @ [q]))) (if ys = [] then pv else pv(hd ys := last xs)) (last xs) ys q"
    using assms(2) last_in_set [OF assms(3)]
    by (subst fseg_frame [where nx = nx and pv = "if ys = [] then pv else pv(hd ys := last xs)"]) auto
  then show ?thesis using 1 assms(3) by (simp add: fseg_append)
qed

lemma fseg_push:
  assumes "fseg nx pv p xs q" and "distinct xs" and "e \<notin> set xs"
  shows "fseg (nx(e := hd (xs @ [q]))) (if xs = [] then pv(e := p) else pv(e := p, hd xs := e)) p (e # xs) q"
proof (cases xs)
  case (Cons y ys)
  have "fseg nx (pv(y := e)) e xs q" using fseg_first [OF assms(1,2), of e] Cons by simp
  then have "fseg (nx(e := y)) (pv(e := p, y := e)) e xs q"
    using assms(3) Cons by (subst fseg_frame [where nx = nx and pv = "pv(y := e)"]) auto
  then show ?thesis using Cons assms(3) by auto
qed simp

definition filo_chain :: "'h hash_filo \<Rightarrow> addr list \<Rightarrow> bool" where
  "filo_chain f xs \<longleftrightarrow> distinct xs \<and> 0 \<notin> set xs \<and> fseg (next_used f) (prev_used f) 0 xs 0
     \<and> first_link f = hd (xs @ [0]) \<and> last_link f = last (0 # xs)"

section \<open>The contract of the hash table\<close>

text \<open>What the cache relies on: the table holds a finite set of entries, counts them, finds an entry by its
  key, and insertion and deletion change the set.\<close>

definition hash_ok :: "('h, 'k) hash_ops \<Rightarrow> (addr \<Rightarrow> 'k) \<Rightarrow> ('h \<Rightarrow> addr set) \<Rightarrow> bool" where
  "hash_ok H key_of entries \<longleftrightarrow> entries (my_hash_init H) = {}
     \<and> (\<forall>h. finite (entries h) \<and> records H h = card (entries h))
     \<and> (\<forall>h k. my_hash_search H h k \<noteq> 0 \<longrightarrow> my_hash_search H h k \<in> entries h \<and> key_of (my_hash_search H h k) = k)
     \<and> (\<forall>h k. my_hash_search H h k = 0 \<longrightarrow> (\<forall>e \<in> entries h. e \<noteq> 0 \<longrightarrow> key_of e \<noteq> k))
     \<and> (\<forall>h e fail h'. my_hash_insert H h e = (fail, h') \<longrightarrow> entries h' = (if fail then entries h else insert e (entries h)))
     \<and> (\<forall>h e. entries (my_hash_delete H h e) = entries h - {e})"

definition filo_holds :: "('h \<Rightarrow> addr set) \<Rightarrow> 'h hash_filo \<Rightarrow> addr list \<Rightarrow> bool" where
  "filo_holds entries f xs \<longleftrightarrow> filo_chain f xs \<and> set xs = entries (cache f) \<and> length xs \<le> m_size f"

lemma filo_search_move:
  assumes c: "filo_chain f (xs @ e # ys)" and ne: "xs \<noteq> []" and s: "my_hash_search H (cache f) k = e"
  shows "\<exists>f'. filo_search H k f = (e, f') \<and> filo_chain f' (e # xs @ ys) \<and> cache f' = cache f \<and> m_size f' = m_size f"
proof -
  have d: "distinct (xs @ e # ys)" "0 \<notin> set (xs @ e # ys)" and seg: "fseg (next_used f) (prev_used f) 0 (xs @ e # ys) 0"
    and fl: "first_link f = hd xs" "last_link f = last (e # ys)"
    using c ne by (auto simp: filo_chain_def)
  have seg2: "prev_used f e = last xs" "next_used f e = hd (ys @ [0])" using seg ne by (auto simp: fseg_append)
  have e: "e \<noteq> 0" "e \<noteq> hd xs" using d ne by (cases xs; auto)+
  have last: "e = last_link f \<longleftrightarrow> ys = []" using fl d by (cases ys rule: rev_cases) auto
  let ?nx = "(next_used f)(last xs := hd (ys @ [0]))"
  let ?pv = "if ys = [] then prev_used f else (prev_used f)(hd ys := last xs)"
  have mid: "fseg ?nx ?pv 0 (xs @ ys) 0" using fseg_unlink [OF seg d(1) ne] .
  have fin: "fseg (?nx(e := hd xs)) (?pv(e := 0, hd xs := e)) 0 (e # xs @ ys) 0"
    using fseg_push [OF mid, of e] d ne by simp
  define f' where "f' = f\<lparr>next_used := ?nx(e := hd xs), prev_used := ?pv(e := 0, hd xs := e), first_link := e,
     last_link := last (xs @ ys)\<rparr>"
  have "filo_search H k f = (e, f')"
  proof (cases "ys = []")
    case True
    then show ?thesis using s e fl last seg2
      by (simp add: filo_search_def Let_def set_next_def set_prev_def f'_def)
  next
    case False
    have "hd ys \<noteq> e" using d False by (cases ys) auto
    then show ?thesis using False s e fl last seg2 ne
      by (simp add: filo_search_def Let_def set_next_def set_prev_def f'_def)
  qed
  moreover have "filo_chain f' (e # xs @ ys)" using fin d ne by (auto simp: filo_chain_def f'_def)
  ultimately show ?thesis by (auto simp: f'_def)
qed

text \<open>A search that finds nothing or the most recent entry changes nothing.\<close>

lemma filo_search_stay:
  "my_hash_search H (cache f) k = 0 \<or> my_hash_search H (cache f) k = first_link f \<Longrightarrow>
   filo_search H k f = (my_hash_search H (cache f) k, f)"
  by (auto simp: filo_search_def)

text \<open>A table that meets the contract: a list of entries whose keys are their last digits.\<close>

definition sample_hash :: "(addr list, nat) hash_ops" where
  "sample_hash = \<lparr>my_hash_init = [],
     my_hash_search = (\<lambda>h k. case find (\<lambda>e. e \<noteq> 0 \<and> e mod 10 = k) h of Some e \<Rightarrow> e | None \<Rightarrow> 0),
     my_hash_insert = (\<lambda>h e. (False, e # h)), my_hash_delete = (\<lambda>h e. removeAll e h),
     records = (\<lambda>h. length (remdups h))\<rparr>"

lemma sample_hash_ok: "hash_ok sample_hash (\<lambda>e. e mod 10) set"
  unfolding hash_ok_def
proof (intro conjI allI impI)
  have found: "e \<in> set h \<and> e mod 10 = k" if "find (\<lambda>e. e \<noteq> 0 \<and> e mod 10 = k) h = Some e" for h e k
    using that by (induction h) (auto split: if_splits)
  show "my_hash_search sample_hash h k \<in> set h" "my_hash_search sample_hash h k mod 10 = k"
    if "my_hash_search sample_hash h k \<noteq> 0" for h k
    using that found [of k h] by (auto simp: sample_hash_def split: option.splits)
  show "\<forall>e \<in> set h. e \<noteq> 0 \<longrightarrow> e mod 10 \<noteq> k" if "my_hash_search sample_hash h k = 0" for h k
    using that by (auto simp: sample_hash_def find_None_iff find_Some_iff split: option.splits)
qed (auto simp: sample_hash_def length_remdups_card_conv)

definition sample_filo :: "addr list hash_filo" where
  "sample_filo = \<lparr>m_size = 2, free_element = False, init = True, first_link = 21, last_link = 12, next_used = (\<lambda>_. 0)(21 := 12),
     prev_used = (\<lambda>_. 0)(12 := 21), cache = [12, 21], freed = []\<rparr>"

lemma sample_filo_size: "m_size sample_filo = 2"
  by (simp add: sample_filo_def)

lemma sample_filo_holds: "filo_holds set sample_filo [21, 12]"
  by (auto simp: filo_holds_def filo_chain_def sample_filo_def)

text \<open>A search in the cache finds the entry with the key if there is one and makes it the most recently
  used one; the other entries keep their order. A search that finds nothing changes nothing.\<close>

theorem hash_filo_search:
  assumes H: "hash_ok H key_of entries" and f: "filo_holds entries f xs"
  shows "\<exists>e f'. filo_search H k f = (e, f')
     \<and> (if e = 0 then f' = f \<and> (\<forall>x \<in> set xs. key_of x \<noteq> k)
        else e \<in> set xs \<and> key_of e = k \<and> filo_holds entries f' (e # remove1 e xs))"
proof -
  define e where "e = my_hash_search H (cache f) k"
  have c: "filo_chain f xs" "set xs = entries (cache f)" "length xs \<le> m_size f" "0 \<notin> set xs" "distinct xs"
    using f by (auto simp: filo_holds_def filo_chain_def)
  show ?thesis
  proof (cases "e = 0")
    case True
    then have "\<forall>x \<in> set xs. key_of x \<noteq> k" using H c(2,4) unfolding hash_ok_def e_def by metis
    then show ?thesis using True filo_search_stay [of H f k] by (simp add: e_def)
  next
    case False
    then have e: "e \<in> set xs" "key_of e = k" using H c(2) unfolding hash_ok_def e_def by metis+
    then obtain ys zs where xs: "xs = ys @ e # zs" by (meson split_list)
    have rm: "remove1 e xs = ys @ zs" using c(5) xs by (simp add: remove1_append)
    show ?thesis
    proof (cases "ys = []")
      case True
      then have "first_link f = e" using c(1) xs by (simp add: filo_chain_def)
      then show ?thesis using False e rm True xs f filo_search_stay [of H f k] by (simp add: e_def)
    next
      case ne: False
      obtain f' where "filo_search H k f = (e, f')" "filo_chain f' (e # ys @ zs)" "cache f' = cache f" "m_size f' = m_size f"
        using filo_search_move [OF c(1) [unfolded xs] ne e_def [symmetric]] by blast
      moreover have "set (e # ys @ zs) = set xs" "length (e # ys @ zs) = length xs" using xs by auto
      ultimately show ?thesis using False e rm c by (simp add: filo_holds_def)
    qed
  qed
qed

theorem hash_filo_search_witness:
  "\<exists>f'. filo_search sample_hash 2 sample_filo = (12, f') \<and> filo_holds set f' [12, 21]"
proof -
  have "fst (filo_search sample_hash 2 sample_filo) = 12"
    by (simp add: filo_search_def sample_hash_def sample_filo_def Let_def)
  then show ?thesis using hash_filo_search [OF sample_hash_ok sample_filo_holds, of 2] by auto
qed

text \<open>Clearing and resizing empty the cache.\<close>

lemma filo_clear_holds: "hash_ok H key_of entries \<Longrightarrow> filo_holds entries (filo_clear H f) []"
  by (simp add: hash_ok_def filo_holds_def filo_chain_def filo_clear_def)

lemma filo_resize_holds:
  "hash_ok H key_of entries \<Longrightarrow> filo_holds entries (filo_resize H n f) [] \<and> m_size (filo_resize H n f) = n"
  using filo_clear_holds by (simp add: filo_resize_def) (simp add: filo_clear_def)

lemma filo_evict_chain:
  assumes "filo_chain f (xs @ [x])"
  shows "filo_chain (filo_evict H f) xs" and "cache (filo_evict H f) = my_hash_delete H (cache f) x"
    and "m_size (filo_evict H f) = m_size f"
proof -
  have d: "distinct (xs @ [x])" "0 \<notin> set (xs @ [x])" and seg: "fseg (next_used f) (prev_used f) 0 (xs @ [x]) 0"
    and fl: "first_link f = hd (xs @ [x])" "last_link f = x"
    using assms by (auto simp: filo_chain_def hd_append)
  have p: "prev_used f x = last (0 # xs)" and seg': "fseg (next_used f) (prev_used f) 0 xs x"
    using seg by (auto simp: fseg_append)
  show "filo_chain (filo_evict H f) xs"
  proof (cases "xs = []")
    case True
    then show ?thesis using p fl by (simp add: filo_chain_def filo_evict_def Let_def)
  next
    case False
    have "last xs \<noteq> 0" using d(2) last_in_set [OF False] by (metis Un_iff set_append)
    then show ?thesis using False p fl d fseg_last [OF seg' _ False, of 0]
      by (simp add: filo_chain_def filo_evict_def Let_def set_next_def)
  qed
  show "cache (filo_evict H f) = my_hash_delete H (cache f) x" "m_size (filo_evict H f) = m_size f"
    using fl by (simp_all add: filo_evict_def Let_def set_next_def)
qed

lemma filo_link_chain:
  assumes "filo_chain f xs" and "e \<noteq> 0" and "e \<notin> set xs"
  shows "filo_chain (filo_link e f) (e # xs)" and "cache (filo_link e f) = cache f" and "m_size (filo_link e f) = m_size f"
proof -
  have seg: "fseg (next_used f) (prev_used f) 0 xs 0" and d: "distinct xs" "0 \<notin> set xs"
    and fl: "first_link f = hd (xs @ [0])" "last_link f = last (0 # xs)"
    using assms(1) by (auto simp: filo_chain_def)
  show "filo_chain (filo_link e f) (e # xs)"
  proof (cases "xs = []")
    case True
    then show ?thesis using fl assms(2) by (simp add: filo_chain_def filo_link_def Let_def set_next_def set_prev_def)
  next
    case False
    have "hd xs \<noteq> 0" using d(2) False by (cases xs) auto
    then show ?thesis using False fl d assms(2,3) fseg_push [OF seg d(1) assms(3)]
      by (simp add: filo_chain_def filo_link_def Let_def set_next_def set_prev_def)
  qed
  show "cache (filo_link e f) = cache f" "m_size (filo_link e f) = m_size f"
    by (simp_all add: filo_link_def Let_def set_next_def set_prev_def)
qed

lemma filo_link_freed: "freed (filo_link e f) = freed f"
  by (simp add: filo_link_def Let_def set_next_def set_prev_def)

text \<open>C13. Adding an entry puts it in front; when the cache is full the least recently used entry is dropped
  first. A cache of size 0 accepts nothing. When the hash table refuses the entry, the
  cache is as if the entry had not been added, though room was made for it. If there is a function that frees entries,
  it is called for the entry that was dropped and for the entry that was refused, and for no other.\<close>

theorem hash_filo_add:
  assumes H: "hash_ok H key_of entries" and f: "filo_holds entries f xs" and e: "e \<noteq> 0" "e \<notin> set xs"
  shows "\<exists>fail f'. filo_add H e f = (fail, f')
     \<and> (let kept = (if length xs = m_size f then butlast xs else xs)
        in if m_size f = 0 then fail \<and> f' = f
           else (if fail then filo_holds entries f' kept else filo_holds entries f' (e # kept))
             \<and> freed f' = (if free_element f then (if fail then [e] else []) @ drop (length kept) xs @ freed f else freed f))"
proof (cases "m_size f = 0")
  case True
  then show ?thesis by (intro exI [of _ True] exI [of _ f]) (simp add: filo_add_def)
next
  case False
  have c: "filo_chain f xs" "set xs = entries (cache f)" "length xs \<le> m_size f" "distinct xs"
    using f by (auto simp: filo_holds_def filo_chain_def)
  have rec: "records H (cache f) = length xs" using H c(2,4) by (simp add: hash_ok_def distinct_card flip: c(2))
  define g where "g = (if length xs = m_size f then filo_evict H f else f)"
  define kept where "kept = (if length xs = m_size f then butlast xs else xs)"
  have g: "filo_chain g kept" "set kept = entries (cache g)" "m_size g = m_size f" "freed g = (if free_element f then drop (length kept) xs @ freed f else freed f)" "free_element g = free_element f"
  proof -
    have "filo_chain g kept \<and> set kept = entries (cache g) \<and> m_size g = m_size f \<and> freed g = (if free_element f then drop (length kept) xs @ freed f else freed f) \<and> free_element g = free_element f"
    proof (cases "length xs = m_size f")
      case True
      then obtain ys y where xs: "xs = ys @ [y]" using False by (metis length_0_conv rev_exhaust)
      have "filo_chain f (ys @ [y])" using c(1) xs by simp
      note ev = filo_evict_chain [OF this, of H]
      have "entries (cache (filo_evict H f)) = set xs - {y}" using ev(2) H c(2) by (simp add: hash_ok_def)
      moreover have "freed (filo_evict H f) = (if free_element f then y # freed f else freed f)"
        "free_element (filo_evict H f) = free_element f"
        using c(1) xs by (simp_all add: filo_evict_def Let_def set_next_def filo_chain_def)
      ultimately show ?thesis using True xs c(4) ev by (auto simp: g_def kept_def)
    qed (use c in \<open>simp add: g_def kept_def\<close>)
    then show "filo_chain g kept" "set kept = entries (cache g)" "m_size g = m_size f" "freed g = (if free_element f then drop (length kept) xs @ freed f else freed f)" "free_element g = free_element f" by blast+
  qed
  have k: "length kept < m_size f" "e \<notin> set kept"
    using c(3) False e(2) by (auto simp: kept_def dest: in_set_butlastD)
  obtain fail h where ins: "my_hash_insert H (cache g) e = (fail, h)" by fastforce
  then have h: "entries h = (if fail then entries (cache g) else insert e (entries (cache g)))"
    using H by (simp add: hash_ok_def)
  have add: "filo_add H e f = (if fail then (True, if free_element g then g\<lparr>cache := h, freed := e # freed g\<rparr> else g\<lparr>cache := h\<rparr>) else (False, filo_link e (g\<lparr>cache := h\<rparr>)))"
    using False rec ins unfolding filo_add_def by (simp add: g_def Let_def)
  have chain: "filo_chain (g\<lparr>cache := h\<rparr>) kept" "filo_chain (g\<lparr>cache := h, freed := e # freed g\<rparr>) kept"
    using g(1) by (simp_all add: filo_chain_def)
  define f' where "f' = snd (filo_add H e f)"
  have r: "filo_add H e f = (fail, f')" by (simp add: f'_def add)
  have "filo_holds entries f' (if fail then kept else e # kept)"
    using g(2,3) h k filo_link_chain [OF chain(1) e(1) k(2)] chain by (cases fail) (auto simp: f'_def add filo_holds_def)
  moreover have "freed f' = (if free_element f then (if fail then [e] else []) @ drop (length kept) xs @ freed f else freed f)"
    using g(4,5) by (simp add: f'_def add filo_link_freed)
  ultimately show ?thesis unfolding kept_def [symmetric] Let_def using r False
    by (intro exI [of _ fail] exI [of _ f']) (auto split: if_splits)
qed

theorem hash_filo_add_witness:
  "\<exists>f'. filo_add sample_hash 33 sample_filo = (False, f') \<and> filo_holds set f' [33, 21]"
proof -
  obtain fail f' where r: "filo_add sample_hash 33 sample_filo = (fail, f')"
    "fail \<or> filo_holds set f' (33 # butlast [21, 12])"
    using hash_filo_add [OF sample_hash_ok sample_filo_holds, of 33] sample_filo_size
    by (auto simp: Let_def split: if_splits)
  moreover have "\<not> fst (filo_add sample_hash 33 sample_filo)"
    by (simp add: filo_add_def sample_hash_def sample_filo_def Let_def filo_evict_def filo_link_def)
  ultimately show ?thesis by auto
qed

end
