(* ===== verification/Mdl_Key.thy ===== *)
theory Mdl_Key
  imports Prelude "HOL-Library.Sublist" "HOL-Library.List_Lexorder"
begin

text \<open>
  Keys and requests of the metadata locking subsystem of \<^verbatim>\<open>mdl.h\<close>. A key is a buffer that holds the
  namespace of an object, the name of its database and its own name, each name closed by a zero byte.
  A C string is the list of its bytes before the zero. The string function \<^verbatim>\<open>strmake\<close> and the hash function
  are not part of the headers and are parameters.
\<close>

section \<open>Types\<close>

datatype enum_mdl_type =
    MDL_NOT_INITIALIZED | MDL_INTENTION_EXCLUSIVE | MDL_SHARED | MDL_SHARED_HIGH_PRIO | MDL_SHARED_READ
  | MDL_SHARED_WRITE | MDL_SHARED_UPGRADABLE | MDL_SHARED_READ_ONLY | MDL_SHARED_NO_WRITE
  | MDL_SHARED_NO_READ_WRITE | MDL_EXCLUSIVE | MDL_TYPE_END

fun mdl_type_code :: "enum_mdl_type \<Rightarrow> int" where
  "mdl_type_code MDL_NOT_INITIALIZED = - 1"
| "mdl_type_code MDL_INTENTION_EXCLUSIVE = 0"
| "mdl_type_code MDL_SHARED = 1"
| "mdl_type_code MDL_SHARED_HIGH_PRIO = 2"
| "mdl_type_code MDL_SHARED_READ = 3"
| "mdl_type_code MDL_SHARED_WRITE = 4"
| "mdl_type_code MDL_SHARED_UPGRADABLE = 5"
| "mdl_type_code MDL_SHARED_READ_ONLY = 6"
| "mdl_type_code MDL_SHARED_NO_WRITE = 7"
| "mdl_type_code MDL_SHARED_NO_READ_WRITE = 8"
| "mdl_type_code MDL_EXCLUSIVE = 9"
| "mdl_type_code MDL_TYPE_END = 10"

datatype enum_mdl_duration = MDL_STATEMENT | MDL_TRANSACTION | MDL_EXPLICIT | MDL_DURATION_END

datatype enum_mdl_namespace =
  BACKUP | SCHEMA | TABLE | FUNCTION | PROCEDURE | PACKAGE_BODY | TRIGGER | EVENT | USER_LOCK | NAMESPACE_END

definition namespaces :: "enum_mdl_namespace list" where
  "namespaces = [BACKUP, SCHEMA, TABLE, FUNCTION, PROCEDURE, PACKAGE_BODY, TRIGGER, EVENT, USER_LOCK, NAMESPACE_END]"

fun namespace_code :: "enum_mdl_namespace \<Rightarrow> nat" where
  "namespace_code BACKUP = 0"
| "namespace_code SCHEMA = 1"
| "namespace_code TABLE = 2"
| "namespace_code FUNCTION = 3"
| "namespace_code PROCEDURE = 4"
| "namespace_code PACKAGE_BODY = 5"
| "namespace_code TRIGGER = 6"
| "namespace_code EVENT = 7"
| "namespace_code USER_LOCK = 8"
| "namespace_code NAMESPACE_END = 9"

section \<open>MDL\_key\<close>

definition NAME_LEN :: nat where
  "NAME_LEN = 64 * 3"

definition MAX_MDLKEY_LENGTH :: nat where
  "MAX_MDLKEY_LENGTH = 1 + NAME_LEN + 1 + NAME_LEN + 1"

record MDL_key =
  m_length :: nat
  m_db_name_length :: nat
  m_hash_value :: uint32
  m_ptr :: "uchar list"

definition key_length :: "MDL_key \<Rightarrow> nat" where
  "key_length k = m_length k"

text \<open>The C string that starts at an offset of the buffer.\<close>

definition c_string_at :: "uchar list \<Rightarrow> nat \<Rightarrow> uchar list" where
  "c_string_at buf i = takeWhile (\<lambda>c. c \<noteq> 0) (drop i buf)"

definition db_name :: "MDL_key \<Rightarrow> uchar list" where
  "db_name k = c_string_at (m_ptr k) 1"

definition key_name :: "MDL_key \<Rightarrow> uchar list" where
  "key_name k = c_string_at (m_ptr k) (m_db_name_length k + 2)"

definition name_length :: "MDL_key \<Rightarrow> nat" where
  "name_length k = m_length k - m_db_name_length k - 3"

definition mdl_namespace :: "MDL_key \<Rightarrow> enum_mdl_namespace" where
  "mdl_namespace k = namespaces ! unat (hd (m_ptr k))"

text \<open>The parameter \<^verbatim>\<open>strmake\<close> maps the target buffer, an offset, the source string and the length limit to the new
  buffer and the offset of the terminating zero.\<close>

type_synonym strmake_fun = "uchar list \<Rightarrow> nat \<Rightarrow> uchar list \<Rightarrow> nat \<Rightarrow> uchar list \<times> nat"

definition mdl_key_init ::
  "strmake_fun \<Rightarrow> (uchar list \<Rightarrow> uint32) \<Rightarrow> enum_mdl_namespace \<Rightarrow> uchar list \<Rightarrow> uchar list \<Rightarrow> MDL_key \<Rightarrow> MDL_key" where
  "mdl_key_init strmake my_hash_sort mdl_namespace_arg db name_arg k =
     (let buf = (m_ptr k)[0 := of_nat (namespace_code mdl_namespace_arg)];
          (buf, e) = strmake buf 1 db NAME_LEN;
          db_len = (e - 1) mod 2 ^ 16;
          (buf, e) = strmake buf (db_len + 2) name_arg NAME_LEN;
          len = (e + 1) mod 2 ^ 16
      in k\<lparr>m_ptr := buf, m_db_name_length := db_len, m_length := len,
           m_hash_value := my_hash_sort (take (len - 1) (drop 1 buf))\<rparr>)"

definition mdl_key_copy :: "MDL_key \<Rightarrow> MDL_key \<Rightarrow> MDL_key" where
  "mdl_key_copy rhs k =
     k\<lparr>m_ptr := take (m_length rhs) (m_ptr rhs) @ drop (m_length rhs) (m_ptr k),
       m_length := m_length rhs, m_db_name_length := m_db_name_length rhs, m_hash_value := m_hash_value rhs\<rparr>"

definition is_equal :: "MDL_key \<Rightarrow> MDL_key \<Rightarrow> bool" where
  "is_equal k rhs \<longleftrightarrow> m_length k = m_length rhs \<and> take (m_length k) (m_ptr k) = take (m_length k) (m_ptr rhs)"

definition key_cmp :: "MDL_key \<Rightarrow> MDL_key \<Rightarrow> int" where
  "key_cmp k rhs = (let n = min (m_length k) (m_length rhs) in memcmp_list (take n (m_ptr k)) (take n (m_ptr rhs)))"

definition hash_value :: "MDL_key \<Rightarrow> uint32" where
  "hash_value k = m_hash_value k + of_nat (namespace_code (mdl_namespace k))"

definition tc_hash_value :: "MDL_key \<Rightarrow> uint32" where
  "tc_hash_value k = m_hash_value k"

section \<open>MDL\_request and MDL\_ticket\<close>

record MDL_request =
  req_type :: enum_mdl_type
  duration :: enum_mdl_duration
  next_in_list :: addr
  prev_in_list :: addr
  ticket :: addr
  req_key :: MDL_key

definition set_type :: "enum_mdl_type \<Rightarrow> MDL_request \<Rightarrow> MDL_request" where
  "set_type type_arg r = r\<lparr>req_type := type_arg\<rparr>"

text \<open>Returns this request and the one moved from.\<close>

definition move_from :: "MDL_request \<Rightarrow> MDL_request \<Rightarrow> MDL_request \<times> MDL_request" where
  "move_from from_req this =
     (this\<lparr>req_type := req_type from_req, duration := duration from_req, ticket := ticket from_req,
           next_in_list := next_in_list from_req, prev_in_list := prev_in_list from_req,
           req_key := mdl_key_copy (req_key from_req) (req_key this)\<rparr>,
      from_req\<lparr>ticket := 0\<rparr>)"

definition is_write_lock_request :: "MDL_request \<Rightarrow> bool" where
  "is_write_lock_request r \<longleftrightarrow>
     mdl_type_code (req_type r) \<ge> mdl_type_code MDL_SHARED_WRITE \<and> req_type r \<noteq> MDL_SHARED_READ_ONLY"

definition request_assign :: "MDL_request \<Rightarrow> MDL_request \<Rightarrow> MDL_request" where
  "request_assign rhs r = r\<lparr>req_type := MDL_NOT_INITIALIZED, ticket := 0\<rparr>"

definition is_upgradable_or_exclusive :: "enum_mdl_type \<Rightarrow> bool" where
  "is_upgradable_or_exclusive m_type \<longleftrightarrow>
     m_type = MDL_SHARED_UPGRADABLE \<or> m_type = MDL_SHARED_NO_WRITE \<or> m_type = MDL_SHARED_NO_READ_WRITE
     \<or> m_type = MDL_EXCLUSIVE"

section \<open>The bytes of a key\<close>

text \<open>What the library documents of \<^verbatim>\<open>strmake\<close>: at most the given number of bytes are copied, and a zero is
  written behind them.\<close>

definition strmake_ok :: "strmake_fun \<Rightarrow> bool" where
  "strmake_ok strmake \<longleftrightarrow> (\<forall>buf i src n. i + min (length src) n < length buf \<longrightarrow>
     strmake buf i src n = (take i buf @ take n src @ [0] @ drop (i + min (length src) n + 1) buf, i + min (length src) n))"

definition key_bytes :: "enum_mdl_namespace \<Rightarrow> uchar list \<Rightarrow> uchar list \<Rightarrow> uchar list" where
  "key_bytes ns db nm = of_nat (namespace_code ns) # db @ [0] @ nm @ [0]"

text \<open>A name: a C string that is not longer than a name may be.\<close>

definition is_name :: "uchar list \<Rightarrow> bool" where
  "is_name s \<longleftrightarrow> 0 \<notin> set s \<and> length s \<le> NAME_LEN"

definition key_of :: "enum_mdl_namespace \<Rightarrow> uchar list \<Rightarrow> uchar list \<Rightarrow> MDL_key \<Rightarrow> bool" where
  "key_of ns db nm k \<longleftrightarrow> is_name db \<and> is_name nm \<and> m_db_name_length k = length db
     \<and> m_length k = length (key_bytes ns db nm) \<and> length (m_ptr k) = MAX_MDLKEY_LENGTH
     \<and> take (m_length k) (m_ptr k) = key_bytes ns db nm"

lemma take_key:
  "take (length ds + 2) ([x] @ ds @ [c] @ r) = x # ds @ [c]"
  "take (length ds + 3 + length ns) ((x # ds @ [c]) @ ns @ [c] @ r) = x # ds @ [c] @ ns @ [c]"
proof -
  have "take (length (x # ds @ [c] @ ns @ [c])) ((x # ds @ [c] @ ns @ [c]) @ r) = x # ds @ [c] @ ns @ [c]"
    using append_eq_conv_conj [of "x # ds @ [c] @ ns @ [c]" r] by metis
  then show "take (length ds + 3 + length ns) ((x # ds @ [c]) @ ns @ [c] @ r) = x # ds @ [c] @ ns @ [c]"
    by (simp add: numeral_3_eq_3)
qed simp

text \<open>Names that are too long are cut.\<close>

lemma mdl_key_init_key_of:
  assumes S: "strmake_ok strmake" and b: "length (m_ptr k) = MAX_MDLKEY_LENGTH" and z: "0 \<notin> set db" "0 \<notin> set nm"
  shows "key_of ns (take NAME_LEN db) (take NAME_LEN nm) (mdl_key_init strmake hsh ns db nm k)"
proof -
  let ?d = "take NAME_LEN db" and ?n = "take NAME_LEN nm"
  define buf0 where "buf0 = (m_ptr k)[0 := of_nat (namespace_code ns) :: uchar]"
  define buf1 where "buf1 = take 1 buf0 @ ?d @ [0] @ drop (2 + length ?d) buf0"
  define buf2 where "buf2 = take (length ?d + 2) buf1 @ ?n @ [0] @ drop (length ?d + 3 + length ?n) buf1"
  have len: "length ?d \<le> 192" "length ?n \<le> 192" by (auto simp: NAME_LEN_def)
  have b0: "length buf0 = 387" using b by (simp add: buf0_def MAX_MDLKEY_LENGTH_def NAME_LEN_def)
  have b1: "length buf1 = 387" using b0 len by (simp add: buf1_def)
  have s1: "strmake buf0 1 db NAME_LEN = (buf1, 1 + length ?d)"
    using S b0 len unfolding strmake_ok_def by (simp add: buf1_def min.commute)
  have s2: "strmake buf1 (length ?d + 2) nm NAME_LEN = (buf2, length ?d + 2 + length ?n)"
    using S b1 len unfolding strmake_ok_def by (simp add: buf2_def min.commute ac_simps numeral_3_eq_3)
  have "take 1 buf0 = [of_nat (namespace_code ns)]" using b0 by (cases "m_ptr k") (auto simp: buf0_def)
  then have t1: "take (length ?d + 2) buf1 = of_nat (namespace_code ns) # ?d @ [0]"
    unfolding buf1_def by (simp only: take_key(1))
  have "take (length ?d + 3 + length ?n) buf2 = key_bytes ns ?d ?n"
    unfolding buf2_def key_bytes_def t1 by (simp only: take_key(2))
  moreover have "length buf2 = 387" using b1 len by (simp add: buf2_def)
  moreover have m: "length ?d mod 65536 = length ?d" "(length ?d + 3 + length ?n) mod 65536 = length ?d + 3 + length ?n"
    using len by auto
  have "mdl_key_init strmake hsh ns db nm k
      = k\<lparr>m_ptr := buf2, m_db_name_length := length ?d, m_length := length ?d + 3 + length ?n,
          m_hash_value := hsh (take (length ?d + 2 + length ?n) (drop 1 buf2))\<rparr>"
    unfolding mdl_key_init_def buf0_def [symmetric] using s1 s2 m by (simp add: Let_def)
  moreover have "is_name ?d" "is_name ?n" using z by (auto simp: is_name_def dest: in_set_takeD)
  ultimately show ?thesis by (simp add: key_of_def key_bytes_def MAX_MDLKEY_LENGTH_def NAME_LEN_def)
qed

lemma namespace_code_less: "namespace_code ns < 10"
  by (cases ns) simp_all

lemma namespaces_code: "namespaces ! namespace_code ns = ns"
  by (cases ns) (simp_all add: namespaces_def)

lemma namespace_byte: "unat (of_nat (namespace_code ns) :: uchar) = namespace_code ns"
  using namespace_code_less [of ns] by (simp add: unat_of_nat)

lemma namespace_byte_inj: "(of_nat (namespace_code a) :: uchar) = of_nat (namespace_code b) \<longleftrightarrow> a = b"
  by (metis namespace_byte namespaces_code)

lemma takeWhile_zero: "0 \<notin> set xs \<Longrightarrow> takeWhile (\<lambda>c. c \<noteq> 0) (xs @ 0 # ys) = xs"
  by (induction xs) auto

lemma key_of_split:
  assumes "key_of ns db nm k"
  obtains rest where "m_ptr k = of_nat (namespace_code ns) # db @ 0 # nm @ 0 # rest"
proof -
  have "take (m_length k) (m_ptr k) = key_bytes ns db nm" using assms unfolding key_of_def by blast
  then have "m_ptr k = key_bytes ns db nm @ drop (m_length k) (m_ptr k)" by (metis append_take_drop_id)
  then show ?thesis using that by (simp add: key_bytes_def)
qed

text \<open>C34. Initialising a key and reading its parts back gives the namespace and the names, cut to the maximal
  length of a name when they are longer; the names are written within the key buffer. Copying a key
  gives an equal key.\<close>

theorem mdl_key_round_trip:
  assumes "strmake_ok strmake" and "length (m_ptr k) = MAX_MDLKEY_LENGTH" and "0 \<notin> set db" and "0 \<notin> set nm"
    and "length (m_ptr k0) = MAX_MDLKEY_LENGTH"
  shows "let key = mdl_key_init strmake hsh ns db nm k
    in mdl_namespace key = ns \<and> db_name key = take NAME_LEN db \<and> key_name key = take NAME_LEN nm
     \<and> m_db_name_length key = length (take NAME_LEN db) \<and> name_length key = length (take NAME_LEN nm)
     \<and> length (m_ptr key) = MAX_MDLKEY_LENGTH \<and> is_equal (mdl_key_copy key k0) key"
proof -
  define key where "key = mdl_key_init strmake hsh ns db nm k"
  have ko: "key_of ns (take NAME_LEN db) (take NAME_LEN nm) key"
    unfolding key_def by (rule mdl_key_init_key_of [OF assms(1-4)])
  then obtain rest where p: "m_ptr key = of_nat (namespace_code ns) # take NAME_LEN db @ 0 # take NAME_LEN nm @ 0 # rest"
    by (rule key_of_split)
  have z: "0 \<notin> set (take NAME_LEN db)" "0 \<notin> set (take NAME_LEN nm)" using assms(3,4) by (auto dest: in_set_takeD)
  have l: "m_db_name_length key = length (take NAME_LEN db)" "m_length key = length (take NAME_LEN db) + length (take NAME_LEN nm) + 3"
    "length (m_ptr key) = MAX_MDLKEY_LENGTH" "m_length key \<le> length (m_ptr key)"
    using ko by (auto simp: key_of_def key_bytes_def is_name_def MAX_MDLKEY_LENGTH_def NAME_LEN_def)
  have "mdl_namespace key = ns" by (simp add: mdl_namespace_def p namespace_byte namespaces_code)
  moreover have "db_name key = take NAME_LEN db" by (simp only: db_name_def c_string_at_def p) (use z in \<open>simp add: takeWhile_zero\<close>)
  moreover have "drop (m_db_name_length key + 2) (m_ptr key) = take NAME_LEN nm @ 0 # rest" unfolding p l(1) by simp
  then have "key_name key = take NAME_LEN nm" using z by (simp add: key_name_def c_string_at_def takeWhile_zero)
  moreover have "is_equal (mdl_key_copy key k0) key" using l by (simp add: is_equal_def mdl_key_copy_def)
  ultimately show ?thesis using l by (simp add: key_def [symmetric] name_length_def Let_def)
qed

definition sample_strmake :: strmake_fun where
  "sample_strmake buf i src n =
     (take i buf @ take n src @ [0] @ drop (i + min (length src) n + 1) buf, i + min (length src) n)"

lemma sample_strmake_ok: "strmake_ok sample_strmake"
  by (simp add: strmake_ok_def sample_strmake_def)

definition blank_key :: MDL_key where
  "blank_key = \<lparr>m_length = 0, m_db_name_length = 0, m_hash_value = 0, m_ptr = replicate MAX_MDLKEY_LENGTH 0\<rparr>"

theorem mdl_key_round_trip_witness:
  "db_name (mdl_key_init sample_strmake (\<lambda>_. 0) TABLE [98, 105, 98] [108, 105, 118] blank_key) = [98, 105, 98]
   \<and> key_name (mdl_key_init sample_strmake (\<lambda>_. 0) TABLE [98, 105, 98] [108, 105, 118] blank_key) = [108, 105, 118]"
  using mdl_key_round_trip [OF sample_strmake_ok, of blank_key "[98, 105, 98]" "[108, 105, 118]" blank_key "\<lambda>_. 0" TABLE]
  by (simp add: blank_key_def NAME_LEN_def Let_def)

section \<open>The order on keys\<close>

lemma prefix_zero:
  "0 \<notin> set d \<Longrightarrow> 0 \<notin> set d' \<Longrightarrow> prefix (d @ 0 # u) (d' @ 0 # v) \<longleftrightarrow> d = d' \<and> prefix u v"
proof (induction d arbitrary: d')
  case Nil
  then show ?case by (cases d') auto
next
  case (Cons x d)
  then show ?case by (cases d') auto
qed

lemma key_bytes_prefix:
  assumes "is_name db" and "is_name nm" and "is_name db'" and "is_name nm'"
  shows "prefix (key_bytes ns db nm) (key_bytes ns' db' nm') \<longleftrightarrow> ns = ns' \<and> db = db' \<and> nm = nm'"
  using assms prefix_zero [of nm nm' "[]" "[]"]
  by (simp add: key_bytes_def is_name_def prefix_zero namespace_byte_inj)

lemma key_bytes_eq:
  assumes "is_name db" and "is_name nm" and "is_name db'" and "is_name nm'"
  shows "key_bytes ns db nm = key_bytes ns' db' nm' \<longleftrightarrow> ns = ns' \<and> db = db' \<and> nm = nm'"
  using key_bytes_prefix [OF assms, of ns ns'] by auto

text \<open>On lists of which neither is a proper prefix of the other, comparing the common length is the
  lexicographic comparison.\<close>

lemma memcmp_list_cmp3:
  "(prefix xs ys \<or> prefix ys xs \<longrightarrow> xs = ys) \<Longrightarrow> n = min (length xs) (length ys) \<Longrightarrow>
   memcmp_list (take n xs) (take n ys) = cmp3 xs ys"
proof (induction xs arbitrary: ys n)
  case Nil
  then show ?case by (simp add: cmp3_def)
next
  case (Cons x xs)
  show ?case
  proof (cases ys)
    case Nil
    then show ?thesis using Cons.prems by simp
  next
    case ys: (Cons y zs)
    have "memcmp_list (take (min (length xs) (length zs)) xs) (take (min (length xs) (length zs)) zs) = cmp3 xs zs"
      if "x = y" using Cons.prems(1) ys that by (intro Cons.IH) auto
    then show ?thesis using Cons.prems(2) ys by (auto simp: cmp3_def)
  qed
qed

text \<open>Two keys are equal exactly when they name the same object, and the comparison of keys, although it
  looks only at the length they have in common, is the lexicographic order of their bytes: it is zero
  exactly for equal keys.\<close>

theorem mdl_key_order:
  assumes k: "key_of ns db nm k" and r: "key_of ns' db' nm' rhs"
  shows "(is_equal k rhs \<longleftrightarrow> ns = ns' \<and> db = db' \<and> nm = nm')
     \<and> key_cmp k rhs = cmp3 (key_bytes ns db nm) (key_bytes ns' db' nm')
     \<and> (key_cmp k rhs = 0 \<longleftrightarrow> is_equal k rhs)"
proof -
  let ?a = "key_bytes ns db nm" and ?b = "key_bytes ns' db' nm'"
  have n: "is_name db" "is_name nm" "is_name db'" "is_name nm'" and t: "take (m_length k) (m_ptr k) = ?a" "take (m_length rhs) (m_ptr rhs) = ?b"
    and l: "m_length k = length ?a" "m_length rhs = length ?b" using k r by (auto simp: key_of_def)
  have tk: "take j (m_ptr k) = take j ?a" if "j \<le> length ?a" for j using t(1) l(1) that by (metis min.absorb1 take_take)
  have tr: "take j (m_ptr rhs) = take j ?b" if "j \<le> length ?b" for j using t(2) l(2) that by (metis min.absorb1 take_take)
  have "is_equal k rhs \<longleftrightarrow> ?a = ?b"
  proof (cases "length ?a = length ?b")
    case True
    then show ?thesis using l tk [of "length ?a"] tr [of "length ?a"] by (simp add: is_equal_def)
  next
    case False
    then show ?thesis using l by (auto simp: is_equal_def)
  qed
  moreover have "key_cmp k rhs = cmp3 ?a ?b"
    using memcmp_list_cmp3 [of ?a ?b "min (length ?a) (length ?b)"] key_bytes_prefix [OF n, of ns ns']
      key_bytes_prefix [OF n(3,4,1,2), of ns' ns] tk tr l by (auto simp: key_cmp_def Let_def)
  ultimately show ?thesis using key_bytes_eq [OF n, of ns ns'] by simp
qed

theorem mdl_key_order_witness:
  "let k = mdl_key_init sample_strmake (\<lambda>_. 0) TABLE [98] [108] blank_key;
       r = mdl_key_init sample_strmake (\<lambda>_. 0) TABLE [98, 98] [99] blank_key
   in \<not> is_equal k r \<and> key_cmp k r \<noteq> 0"
proof -
  have k: "key_of TABLE [98] [108] (mdl_key_init sample_strmake (\<lambda>_. 0) TABLE [98] [108] blank_key)"
    using mdl_key_init_key_of [OF sample_strmake_ok, of blank_key "[98]" "[108]" TABLE] by (simp add: blank_key_def NAME_LEN_def)
  have r: "key_of TABLE [98, 98] [99] (mdl_key_init sample_strmake (\<lambda>_. 0) TABLE [98, 98] [99] blank_key)"
    using mdl_key_init_key_of [OF sample_strmake_ok, of blank_key "[98, 98]" "[99]" TABLE] by (simp add: blank_key_def NAME_LEN_def)
  show ?thesis using mdl_key_order [OF k r] by (simp add: Let_def key_bytes_def)
qed

end
