(* ===== verification/Sql_Limit.thy ===== *)
theory Sql_Limit
  imports Prelude
begin

text \<open>
  The LIMIT and OFFSET counters of \<^verbatim>\<open>sql_limit.h\<close>. Row counts are unsigned 64-bit integers; the largest
  one, \<^verbatim>\<open>HA_POS_ERROR\<close>, stands for no limit.
\<close>

type_synonym ha_rows = ulonglong

definition HA_POS_ERROR :: ha_rows where
  "HA_POS_ERROR = NOT 0"

record Select_limit_counters =
  select_limit_cnt :: ha_rows
  offset_limit_cnt :: ha_rows
  with_ties :: bool

definition mk_Select_limit_counters :: Select_limit_counters where
  "mk_Select_limit_counters = \<lparr>select_limit_cnt = 0, offset_limit_cnt = 0, with_ties = False\<rparr>"

definition set_limit :: "ha_rows \<Rightarrow> ha_rows \<Rightarrow> bool \<Rightarrow> Select_limit_counters \<Rightarrow> Select_limit_counters" where
  "set_limit limit offset with_ties_arg c =
     (let offset = (if limit = 0 then 0 else offset);
          c = c\<lparr>offset_limit_cnt := offset, select_limit_cnt := limit, with_ties := with_ties_arg\<rparr>
      in if select_limit_cnt c + offset_limit_cnt c \<ge> select_limit_cnt c
         then c\<lparr>select_limit_cnt := select_limit_cnt c + offset_limit_cnt c\<rparr>
         else c\<lparr>select_limit_cnt := HA_POS_ERROR\<rparr>)"

definition set_single_row :: "Select_limit_counters \<Rightarrow> Select_limit_counters" where
  "set_single_row c = c\<lparr>offset_limit_cnt := 0, select_limit_cnt := 1, with_ties := False\<rparr>"

definition is_unlimited :: "Select_limit_counters \<Rightarrow> bool" where
  "is_unlimited c \<longleftrightarrow> select_limit_cnt c = HA_POS_ERROR"

definition set_unlimited :: "Select_limit_counters \<Rightarrow> Select_limit_counters" where
  "set_unlimited c = c\<lparr>select_limit_cnt := HA_POS_ERROR\<rparr>"

definition limit_clear :: "Select_limit_counters \<Rightarrow> Select_limit_counters" where
  "limit_clear c = c\<lparr>select_limit_cnt := HA_POS_ERROR, offset_limit_cnt := 0, with_ties := False\<rparr>"

definition check_offset :: "Select_limit_counters \<Rightarrow> ha_rows \<Rightarrow> bool" where
  "check_offset c sent \<longleftrightarrow> sent < offset_limit_cnt c"

definition remove_offset :: "Select_limit_counters \<Rightarrow> Select_limit_counters" where
  "remove_offset c = c\<lparr>offset_limit_cnt := 0\<rparr>"

definition get_select_limit :: "Select_limit_counters \<Rightarrow> ha_rows" where
  "get_select_limit c = select_limit_cnt c"

definition get_offset_limit :: "Select_limit_counters \<Rightarrow> ha_rows" where
  "get_offset_limit c = offset_limit_cnt c"

definition is_with_ties :: "Select_limit_counters \<Rightarrow> bool" where
  "is_with_ties c \<longleftrightarrow> with_ties c"

section \<open>The window of rows\<close>

text \<open>The positions of the rows that pass the offset test and lie below the limit.\<close>

definition row_window :: "Select_limit_counters \<Rightarrow> nat set" where
  "row_window c = {n. n < 2 ^ 64 \<and> \<not> check_offset c (of_nat n) \<and> n < unat (get_select_limit c)}"

lemma row_window_eq: "row_window c = {unat (offset_limit_cnt c)..<unat (select_limit_cnt c)}"
proof -
  have "unat (select_limit_cnt c) < 2 ^ 64" using unat_less [of "select_limit_cnt c"] by simp
  moreover have "n < 2 ^ 64 \<Longrightarrow> check_offset c (of_nat n) \<longleftrightarrow> n < unat (offset_limit_cnt c)" for n
    by (simp add: check_offset_def word_less_nat_alt unat_of_nat)
  ultimately show ?thesis by (auto simp: row_window_def get_select_limit_def not_less)
qed

lemma no_overflow_iff:
  fixes a b :: ha_rows
  shows "a + b \<ge> a \<longleftrightarrow> unat a + unat b < 2 ^ 64"
proof -
  have l: "unat a < 2 ^ 64" "unat b < 2 ^ 64" using unat_less [of a] unat_less [of b] by simp_all
  have s: "unat (a + b) = (unat a + unat b) mod 2 ^ 64" by (simp add: unat_word_ariths)
  show ?thesis
  proof (cases "unat a + unat b < 2 ^ 64")
    case True
    then show ?thesis using s by (simp add: word_le_nat_alt)
  next
    case False
    then have "unat (a + b) = unat a + unat b - 2 ^ 64" using s l by (simp add: le_mod_geq)
    then show ?thesis using False l by (simp add: word_le_nat_alt)
  qed
qed

text \<open>After \<^verbatim>\<open>set_limit\<close> the rows that are sent are those from the offset on, as many as the limit says; no
  row for the limit 0. When limit and offset together exceed the range of row counts, the query is
  unlimited from the offset on instead of losing rows to the wrap-around.\<close>

theorem set_limit_window:
  "row_window (set_limit limit offset ties c) =
     (if limit = 0 then {}
      else if unat offset + unat limit < 2 ^ 64 then {unat offset..<unat offset + unat limit}
      else {unat offset..<2 ^ 64 - 1})
   \<and> (unat offset + unat limit \<ge> 2 ^ 64 \<longrightarrow> limit = 0 \<or> is_unlimited (set_limit limit offset ties c))"
proof -
  have m: "unat (HA_POS_ERROR) = 2 ^ 64 - 1" by (simp add: HA_POS_ERROR_def unsigned_minus_1_eq_mask mask_eq_exp_minus_1)
  show ?thesis
  proof (cases "limit = 0")
    case True
    then show ?thesis by (simp add: row_window_eq set_limit_def Let_def)
  next
    case False
    show ?thesis
    proof (cases "unat offset + unat limit < 2 ^ 64")
      case True
      then have "unat limit + unat offset < 2 ^ LENGTH(64)" by simp
      then have "unat (limit + offset) = unat offset + unat limit" using unat_add_lem [of limit offset] by linarith
      then show ?thesis using True False no_overflow_iff [of limit offset]
        by (simp add: row_window_eq set_limit_def Let_def add.commute)
    next
      case o: False
      then have "\<not> limit + offset \<ge> limit" using no_overflow_iff [of limit offset] by (simp add: add.commute)
      then show ?thesis using o False m by (simp add: row_window_eq set_limit_def Let_def is_unlimited_def)
    qed
  qed
qed

theorem set_limit_window_witness:
  "row_window (set_limit 3 2 False mk_Select_limit_counters) = {2..<5}"
  using set_limit_window [of 3 2 False mk_Select_limit_counters] by simp

end
