(* ===== verification/Privilege.thy ===== *)
theory Privilege
  imports Bits
begin

text \<open>
  The privileges of \<^verbatim>\<open>privilege.h\<close>: the bits of \<^verbatim>\<open>privilege_t\<close>, the sets of privileges that can be granted on each
  level, the privileges that statements and system variables ask for, and the functions that pack the
  privileges of a database, table, column or routine into the columns of the grant tables and back.
  The operators that the header deletes so that privileges do not mix with integers have no counterpart:
  the model is typed, and a privilege is a 64-bit word.
\<close>

type_synonym privilege_t = ulonglong

section \<open>Bits\<close>

definition NO_ACL :: privilege_t where
  "NO_ACL = 0"

definition SELECT_ACL :: privilege_t where
  "SELECT_ACL = push_bit 0 1"

definition INSERT_ACL :: privilege_t where
  "INSERT_ACL = push_bit 1 1"

definition UPDATE_ACL :: privilege_t where
  "UPDATE_ACL = push_bit 2 1"

definition DELETE_ACL :: privilege_t where
  "DELETE_ACL = push_bit 3 1"

definition CREATE_ACL :: privilege_t where
  "CREATE_ACL = push_bit 4 1"

definition DROP_ACL :: privilege_t where
  "DROP_ACL = push_bit 5 1"

definition RELOAD_ACL :: privilege_t where
  "RELOAD_ACL = push_bit 6 1"

definition SHUTDOWN_ACL :: privilege_t where
  "SHUTDOWN_ACL = push_bit 7 1"

definition PROCESS_ACL :: privilege_t where
  "PROCESS_ACL = push_bit 8 1"

definition FILE_ACL :: privilege_t where
  "FILE_ACL = push_bit 9 1"

definition GRANT_ACL :: privilege_t where
  "GRANT_ACL = push_bit 10 1"

definition REFERENCES_ACL :: privilege_t where
  "REFERENCES_ACL = push_bit 11 1"

definition INDEX_ACL :: privilege_t where
  "INDEX_ACL = push_bit 12 1"

definition ALTER_ACL :: privilege_t where
  "ALTER_ACL = push_bit 13 1"

definition SHOW_DB_ACL :: privilege_t where
  "SHOW_DB_ACL = push_bit 14 1"

definition SUPER_ACL :: privilege_t where
  "SUPER_ACL = push_bit 15 1"

definition CREATE_TMP_ACL :: privilege_t where
  "CREATE_TMP_ACL = push_bit 16 1"

definition LOCK_TABLES_ACL :: privilege_t where
  "LOCK_TABLES_ACL = push_bit 17 1"

definition EXECUTE_ACL :: privilege_t where
  "EXECUTE_ACL = push_bit 18 1"

definition REPL_SLAVE_ACL :: privilege_t where
  "REPL_SLAVE_ACL = push_bit 19 1"

definition BINLOG_MONITOR_ACL :: privilege_t where
  "BINLOG_MONITOR_ACL = push_bit 20 1"

definition CREATE_VIEW_ACL :: privilege_t where
  "CREATE_VIEW_ACL = push_bit 21 1"

definition SHOW_VIEW_ACL :: privilege_t where
  "SHOW_VIEW_ACL = push_bit 22 1"

definition CREATE_PROC_ACL :: privilege_t where
  "CREATE_PROC_ACL = push_bit 23 1"

definition ALTER_PROC_ACL :: privilege_t where
  "ALTER_PROC_ACL = push_bit 24 1"

definition CREATE_USER_ACL :: privilege_t where
  "CREATE_USER_ACL = push_bit 25 1"

definition EVENT_ACL :: privilege_t where
  "EVENT_ACL = push_bit 26 1"

definition TRIGGER_ACL :: privilege_t where
  "TRIGGER_ACL = push_bit 27 1"

definition CREATE_TABLESPACE_ACL :: privilege_t where
  "CREATE_TABLESPACE_ACL = push_bit 28 1"

definition DELETE_HISTORY_ACL :: privilege_t where
  "DELETE_HISTORY_ACL = push_bit 29 1"

definition SET_USER_ACL :: privilege_t where
  "SET_USER_ACL = push_bit 30 1"

definition FEDERATED_ADMIN_ACL :: privilege_t where
  "FEDERATED_ADMIN_ACL = push_bit 31 1"

definition CONNECTION_ADMIN_ACL :: privilege_t where
  "CONNECTION_ADMIN_ACL = push_bit 32 1"

definition READ_ONLY_ADMIN_ACL :: privilege_t where
  "READ_ONLY_ADMIN_ACL = push_bit 33 1"

definition REPL_SLAVE_ADMIN_ACL :: privilege_t where
  "REPL_SLAVE_ADMIN_ACL = push_bit 34 1"

definition REPL_MASTER_ADMIN_ACL :: privilege_t where
  "REPL_MASTER_ADMIN_ACL = push_bit 35 1"

definition BINLOG_ADMIN_ACL :: privilege_t where
  "BINLOG_ADMIN_ACL = push_bit 36 1"

definition BINLOG_REPLAY_ACL :: privilege_t where
  "BINLOG_REPLAY_ACL = push_bit 37 1"

definition SLAVE_MONITOR_ACL :: privilege_t where
  "SLAVE_MONITOR_ACL = push_bit 38 1"

section \<open>Version markers\<close>

definition ALL_KNOWN_BITS :: "privilege_t \<Rightarrow> privilege_t" where
  "ALL_KNOWN_BITS x = x OR (x - 1)"

definition LAST_100304_ACL :: privilege_t where
  "LAST_100304_ACL = DELETE_HISTORY_ACL"

definition LAST_100502_ACL :: privilege_t where
  "LAST_100502_ACL = BINLOG_REPLAY_ACL"

definition LAST_100508_ACL :: privilege_t where
  "LAST_100508_ACL = SLAVE_MONITOR_ACL"

definition LAST_CURRENT_ACL :: privilege_t where
  "LAST_CURRENT_ACL = LAST_100508_ACL"

definition PRIVILEGE_T_MAX_BIT :: uint32 where
  "PRIVILEGE_T_MAX_BIT = my_bit_log2_uint64 LAST_CURRENT_ACL"

definition ALL_KNOWN_ACL_100304 :: privilege_t where
  "ALL_KNOWN_ACL_100304 = ALL_KNOWN_BITS LAST_100304_ACL"

definition ALL_KNOWN_ACL_100502 :: privilege_t where
  "ALL_KNOWN_ACL_100502 = ALL_KNOWN_BITS LAST_100502_ACL"

definition ALL_KNOWN_ACL_100508 :: privilege_t where
  "ALL_KNOWN_ACL_100508 = ALL_KNOWN_BITS LAST_100508_ACL"

definition ALL_KNOWN_ACL_100509 :: privilege_t where
  "ALL_KNOWN_ACL_100509 = ALL_KNOWN_ACL_100508"

definition ALL_KNOWN_ACL :: privilege_t where
  "ALL_KNOWN_ACL = ALL_KNOWN_BITS LAST_CURRENT_ACL"

section \<open>Levels\<close>

definition GLOBAL_SUPER_ADDED_SINCE_USER_TABLE_ACLS :: privilege_t where
  "GLOBAL_SUPER_ADDED_SINCE_USER_TABLE_ACLS = SET_USER_ACL OR FEDERATED_ADMIN_ACL OR CONNECTION_ADMIN_ACL OR READ_ONLY_ADMIN_ACL OR REPL_SLAVE_ADMIN_ACL OR BINLOG_ADMIN_ACL OR BINLOG_REPLAY_ACL"

definition COL_DML_ACLS :: privilege_t where
  "COL_DML_ACLS = SELECT_ACL OR INSERT_ACL OR UPDATE_ACL OR DELETE_ACL"

definition VIEW_ACLS :: privilege_t where
  "VIEW_ACLS = CREATE_VIEW_ACL OR SHOW_VIEW_ACL"

definition STD_TABLE_DDL_ACLS :: privilege_t where
  "STD_TABLE_DDL_ACLS = CREATE_ACL OR DROP_ACL OR ALTER_ACL"

definition ALL_TABLE_DDL_ACLS :: privilege_t where
  "ALL_TABLE_DDL_ACLS = STD_TABLE_DDL_ACLS OR INDEX_ACL"

definition COL_ACLS :: privilege_t where
  "COL_ACLS = SELECT_ACL OR INSERT_ACL OR UPDATE_ACL OR REFERENCES_ACL"

definition PROC_DDL_ACLS :: privilege_t where
  "PROC_DDL_ACLS = CREATE_PROC_ACL OR ALTER_PROC_ACL"

definition SHOW_PROC_ACLS :: privilege_t where
  "SHOW_PROC_ACLS = PROC_DDL_ACLS OR EXECUTE_ACL"

definition TABLE_ACLS :: privilege_t where
  "TABLE_ACLS = COL_DML_ACLS OR ALL_TABLE_DDL_ACLS OR VIEW_ACLS OR GRANT_ACL OR REFERENCES_ACL OR TRIGGER_ACL OR DELETE_HISTORY_ACL"

definition DB_ACLS :: privilege_t where
  "DB_ACLS = TABLE_ACLS OR PROC_DDL_ACLS OR EXECUTE_ACL OR CREATE_TMP_ACL OR LOCK_TABLES_ACL OR EVENT_ACL"

definition PROC_ACLS :: privilege_t where
  "PROC_ACLS = ALTER_PROC_ACL OR EXECUTE_ACL OR GRANT_ACL"

definition GLOBAL_ACLS :: privilege_t where
  "GLOBAL_ACLS = DB_ACLS OR SHOW_DB_ACL OR CREATE_USER_ACL OR CREATE_TABLESPACE_ACL OR SUPER_ACL OR RELOAD_ACL OR SHUTDOWN_ACL OR PROCESS_ACL OR FILE_ACL OR REPL_SLAVE_ACL OR BINLOG_MONITOR_ACL OR GLOBAL_SUPER_ADDED_SINCE_USER_TABLE_ACLS OR REPL_MASTER_ADMIN_ACL OR SLAVE_MONITOR_ACL"

definition DEFAULT_CREATE_PROC_ACLS :: privilege_t where
  "DEFAULT_CREATE_PROC_ACLS = ALTER_PROC_ACL OR EXECUTE_ACL"

definition SHOW_CREATE_TABLE_ACLS :: privilege_t where
  "SHOW_CREATE_TABLE_ACLS = COL_DML_ACLS OR ALL_TABLE_DDL_ACLS OR TRIGGER_ACL OR REFERENCES_ACL OR GRANT_ACL OR VIEW_ACLS"

definition TMP_TABLE_ACLS :: privilege_t where
  "TMP_TABLE_ACLS = COL_DML_ACLS OR ALL_TABLE_DDL_ACLS"

section \<open>Privileges that actions ask for\<close>

text \<open>The constants of the header, and the groups in which it lists them.\<close>

definition PRIV_LOCK_TABLES :: privilege_t where
  "PRIV_LOCK_TABLES = SELECT_ACL OR LOCK_TABLES_ACL"

definition PRIV_DEFINER_CLAUSE :: privilege_t where
  "PRIV_DEFINER_CLAUSE = SET_USER_ACL OR SUPER_ACL"

definition PRIV_REVEAL_MISSING_DEFINER :: privilege_t where
  "PRIV_REVEAL_MISSING_DEFINER = SET_USER_ACL OR SUPER_ACL"

definition object_privileges :: "privilege_t list" where
  "object_privileges =
    [PRIV_LOCK_TABLES,
     PRIV_DEFINER_CLAUSE,
     PRIV_REVEAL_MISSING_DEFINER]"

lemmas object_privileges_defs =
  PRIV_LOCK_TABLES_def
  PRIV_DEFINER_CLAUSE_def
  PRIV_REVEAL_MISSING_DEFINER_def

definition PRIV_DES_DECRYPT_ONE_ARG :: privilege_t where
  "PRIV_DES_DECRYPT_ONE_ARG = SUPER_ACL"

definition PRIV_LOG_BIN_TRUSTED_SP_CREATOR :: privilege_t where
  "PRIV_LOG_BIN_TRUSTED_SP_CREATOR = SUPER_ACL"

definition PRIV_DEBUG :: privilege_t where
  "PRIV_DEBUG = SUPER_ACL"

definition PRIV_SET_GLOBAL_SYSTEM_VARIABLE :: privilege_t where
  "PRIV_SET_GLOBAL_SYSTEM_VARIABLE = SUPER_ACL"

definition PRIV_SET_RESTRICTED_SESSION_SYSTEM_VARIABLE :: privilege_t where
  "PRIV_SET_RESTRICTED_SESSION_SYSTEM_VARIABLE = SUPER_ACL"

definition super_only_privileges :: "privilege_t list" where
  "super_only_privileges =
    [PRIV_DES_DECRYPT_ONE_ARG,
     PRIV_LOG_BIN_TRUSTED_SP_CREATOR,
     PRIV_DEBUG,
     PRIV_SET_GLOBAL_SYSTEM_VARIABLE,
     PRIV_SET_RESTRICTED_SESSION_SYSTEM_VARIABLE]"

lemmas super_only_privileges_defs =
  PRIV_DES_DECRYPT_ONE_ARG_def
  PRIV_LOG_BIN_TRUSTED_SP_CREATOR_def
  PRIV_DEBUG_def
  PRIV_SET_GLOBAL_SYSTEM_VARIABLE_def
  PRIV_SET_RESTRICTED_SESSION_SYSTEM_VARIABLE_def

definition PRIV_SET_SYSTEM_VAR_BINLOG_FORMAT :: privilege_t where
  "PRIV_SET_SYSTEM_VAR_BINLOG_FORMAT = SUPER_ACL OR BINLOG_ADMIN_ACL"

definition PRIV_SET_SYSTEM_VAR_BINLOG_DIRECT_NON_TRANSACTIONAL_UPDATES :: privilege_t where
  "PRIV_SET_SYSTEM_VAR_BINLOG_DIRECT_NON_TRANSACTIONAL_UPDATES = SUPER_ACL OR BINLOG_ADMIN_ACL"

definition PRIV_SET_SYSTEM_VAR_BINLOG_ANNOTATE_ROW_EVENTS :: privilege_t where
  "PRIV_SET_SYSTEM_VAR_BINLOG_ANNOTATE_ROW_EVENTS = SUPER_ACL OR BINLOG_ADMIN_ACL"

definition PRIV_SET_SYSTEM_VAR_BINLOG_ROW_IMAGE :: privilege_t where
  "PRIV_SET_SYSTEM_VAR_BINLOG_ROW_IMAGE = SUPER_ACL OR BINLOG_ADMIN_ACL"

definition PRIV_SET_SYSTEM_VAR_SQL_LOG_BIN :: privilege_t where
  "PRIV_SET_SYSTEM_VAR_SQL_LOG_BIN = SUPER_ACL OR BINLOG_ADMIN_ACL"

definition PRIV_SET_SYSTEM_GLOBAL_VAR_BINLOG_CACHE_SIZE :: privilege_t where
  "PRIV_SET_SYSTEM_GLOBAL_VAR_BINLOG_CACHE_SIZE = SUPER_ACL OR BINLOG_ADMIN_ACL"

definition PRIV_SET_SYSTEM_GLOBAL_VAR_BINLOG_FILE_CACHE_SIZE :: privilege_t where
  "PRIV_SET_SYSTEM_GLOBAL_VAR_BINLOG_FILE_CACHE_SIZE = SUPER_ACL OR BINLOG_ADMIN_ACL"

definition PRIV_SET_SYSTEM_GLOBAL_VAR_BINLOG_STMT_CACHE_SIZE :: privilege_t where
  "PRIV_SET_SYSTEM_GLOBAL_VAR_BINLOG_STMT_CACHE_SIZE = SUPER_ACL OR BINLOG_ADMIN_ACL"

definition PRIV_SET_SYSTEM_GLOBAL_VAR_BINLOG_COMMIT_WAIT_COUNT :: privilege_t where
  "PRIV_SET_SYSTEM_GLOBAL_VAR_BINLOG_COMMIT_WAIT_COUNT = SUPER_ACL OR BINLOG_ADMIN_ACL"

definition PRIV_SET_SYSTEM_GLOBAL_VAR_BINLOG_COMMIT_WAIT_USEC :: privilege_t where
  "PRIV_SET_SYSTEM_GLOBAL_VAR_BINLOG_COMMIT_WAIT_USEC = SUPER_ACL OR BINLOG_ADMIN_ACL"

definition PRIV_SET_SYSTEM_GLOBAL_VAR_BINLOG_ROW_METADATA :: privilege_t where
  "PRIV_SET_SYSTEM_GLOBAL_VAR_BINLOG_ROW_METADATA = SUPER_ACL OR BINLOG_ADMIN_ACL"

definition PRIV_SET_SYSTEM_GLOBAL_VAR_EXPIRE_LOGS_DAYS :: privilege_t where
  "PRIV_SET_SYSTEM_GLOBAL_VAR_EXPIRE_LOGS_DAYS = SUPER_ACL OR BINLOG_ADMIN_ACL"

definition PRIV_SET_SYSTEM_GLOBAL_VAR_LOG_BIN_COMPRESS :: privilege_t where
  "PRIV_SET_SYSTEM_GLOBAL_VAR_LOG_BIN_COMPRESS = SUPER_ACL OR BINLOG_ADMIN_ACL"

definition PRIV_SET_SYSTEM_GLOBAL_VAR_LOG_BIN_COMPRESS_MIN_LEN :: privilege_t where
  "PRIV_SET_SYSTEM_GLOBAL_VAR_LOG_BIN_COMPRESS_MIN_LEN = SUPER_ACL OR BINLOG_ADMIN_ACL"

definition PRIV_SET_SYSTEM_GLOBAL_VAR_LOG_BIN_TRUST_FUNCTION_CREATORS :: privilege_t where
  "PRIV_SET_SYSTEM_GLOBAL_VAR_LOG_BIN_TRUST_FUNCTION_CREATORS = SUPER_ACL OR BINLOG_ADMIN_ACL"

definition PRIV_SET_SYSTEM_GLOBAL_VAR_MAX_BINLOG_CACHE_SIZE :: privilege_t where
  "PRIV_SET_SYSTEM_GLOBAL_VAR_MAX_BINLOG_CACHE_SIZE = SUPER_ACL OR BINLOG_ADMIN_ACL"

definition PRIV_SET_SYSTEM_GLOBAL_VAR_MAX_BINLOG_STMT_CACHE_SIZE :: privilege_t where
  "PRIV_SET_SYSTEM_GLOBAL_VAR_MAX_BINLOG_STMT_CACHE_SIZE = SUPER_ACL OR BINLOG_ADMIN_ACL"

definition PRIV_SET_SYSTEM_GLOBAL_VAR_MAX_BINLOG_SIZE :: privilege_t where
  "PRIV_SET_SYSTEM_GLOBAL_VAR_MAX_BINLOG_SIZE = SUPER_ACL OR BINLOG_ADMIN_ACL"

definition PRIV_SET_SYSTEM_GLOBAL_VAR_SYNC_BINLOG :: privilege_t where
  "PRIV_SET_SYSTEM_GLOBAL_VAR_SYNC_BINLOG = SUPER_ACL OR BINLOG_ADMIN_ACL"

definition binlog_variable_privileges :: "privilege_t list" where
  "binlog_variable_privileges =
    [PRIV_SET_SYSTEM_VAR_BINLOG_FORMAT,
     PRIV_SET_SYSTEM_VAR_BINLOG_DIRECT_NON_TRANSACTIONAL_UPDATES,
     PRIV_SET_SYSTEM_VAR_BINLOG_ANNOTATE_ROW_EVENTS,
     PRIV_SET_SYSTEM_VAR_BINLOG_ROW_IMAGE,
     PRIV_SET_SYSTEM_VAR_SQL_LOG_BIN,
     PRIV_SET_SYSTEM_GLOBAL_VAR_BINLOG_CACHE_SIZE,
     PRIV_SET_SYSTEM_GLOBAL_VAR_BINLOG_FILE_CACHE_SIZE,
     PRIV_SET_SYSTEM_GLOBAL_VAR_BINLOG_STMT_CACHE_SIZE,
     PRIV_SET_SYSTEM_GLOBAL_VAR_BINLOG_COMMIT_WAIT_COUNT,
     PRIV_SET_SYSTEM_GLOBAL_VAR_BINLOG_COMMIT_WAIT_USEC,
     PRIV_SET_SYSTEM_GLOBAL_VAR_BINLOG_ROW_METADATA,
     PRIV_SET_SYSTEM_GLOBAL_VAR_EXPIRE_LOGS_DAYS,
     PRIV_SET_SYSTEM_GLOBAL_VAR_LOG_BIN_COMPRESS,
     PRIV_SET_SYSTEM_GLOBAL_VAR_LOG_BIN_COMPRESS_MIN_LEN,
     PRIV_SET_SYSTEM_GLOBAL_VAR_LOG_BIN_TRUST_FUNCTION_CREATORS,
     PRIV_SET_SYSTEM_GLOBAL_VAR_MAX_BINLOG_CACHE_SIZE,
     PRIV_SET_SYSTEM_GLOBAL_VAR_MAX_BINLOG_STMT_CACHE_SIZE,
     PRIV_SET_SYSTEM_GLOBAL_VAR_MAX_BINLOG_SIZE,
     PRIV_SET_SYSTEM_GLOBAL_VAR_SYNC_BINLOG]"

lemmas binlog_variable_privileges_defs =
  PRIV_SET_SYSTEM_VAR_BINLOG_FORMAT_def
  PRIV_SET_SYSTEM_VAR_BINLOG_DIRECT_NON_TRANSACTIONAL_UPDATES_def
  PRIV_SET_SYSTEM_VAR_BINLOG_ANNOTATE_ROW_EVENTS_def
  PRIV_SET_SYSTEM_VAR_BINLOG_ROW_IMAGE_def
  PRIV_SET_SYSTEM_VAR_SQL_LOG_BIN_def
  PRIV_SET_SYSTEM_GLOBAL_VAR_BINLOG_CACHE_SIZE_def
  PRIV_SET_SYSTEM_GLOBAL_VAR_BINLOG_FILE_CACHE_SIZE_def
  PRIV_SET_SYSTEM_GLOBAL_VAR_BINLOG_STMT_CACHE_SIZE_def
  PRIV_SET_SYSTEM_GLOBAL_VAR_BINLOG_COMMIT_WAIT_COUNT_def
  PRIV_SET_SYSTEM_GLOBAL_VAR_BINLOG_COMMIT_WAIT_USEC_def
  PRIV_SET_SYSTEM_GLOBAL_VAR_BINLOG_ROW_METADATA_def
  PRIV_SET_SYSTEM_GLOBAL_VAR_EXPIRE_LOGS_DAYS_def
  PRIV_SET_SYSTEM_GLOBAL_VAR_LOG_BIN_COMPRESS_def
  PRIV_SET_SYSTEM_GLOBAL_VAR_LOG_BIN_COMPRESS_MIN_LEN_def
  PRIV_SET_SYSTEM_GLOBAL_VAR_LOG_BIN_TRUST_FUNCTION_CREATORS_def
  PRIV_SET_SYSTEM_GLOBAL_VAR_MAX_BINLOG_CACHE_SIZE_def
  PRIV_SET_SYSTEM_GLOBAL_VAR_MAX_BINLOG_STMT_CACHE_SIZE_def
  PRIV_SET_SYSTEM_GLOBAL_VAR_MAX_BINLOG_SIZE_def
  PRIV_SET_SYSTEM_GLOBAL_VAR_SYNC_BINLOG_def

definition PRIV_IGNORE_READ_ONLY :: privilege_t where
  "PRIV_IGNORE_READ_ONLY = READ_ONLY_ADMIN_ACL OR SUPER_ACL"

definition PRIV_SET_SYSTEM_GLOBAL_VAR_READ_ONLY :: privilege_t where
  "PRIV_SET_SYSTEM_GLOBAL_VAR_READ_ONLY = READ_ONLY_ADMIN_ACL OR SUPER_ACL"

definition read_only_privileges :: "privilege_t list" where
  "read_only_privileges =
    [PRIV_IGNORE_READ_ONLY,
     PRIV_SET_SYSTEM_GLOBAL_VAR_READ_ONLY]"

lemmas read_only_privileges_defs =
  PRIV_IGNORE_READ_ONLY_def
  PRIV_SET_SYSTEM_GLOBAL_VAR_READ_ONLY_def

definition PRIV_IGNORE_INIT_CONNECT :: privilege_t where
  "PRIV_IGNORE_INIT_CONNECT = CONNECTION_ADMIN_ACL OR SUPER_ACL"

definition PRIV_IGNORE_MAX_USER_CONNECTIONS :: privilege_t where
  "PRIV_IGNORE_MAX_USER_CONNECTIONS = CONNECTION_ADMIN_ACL OR SUPER_ACL"

definition PRIV_IGNORE_MAX_CONNECTIONS :: privilege_t where
  "PRIV_IGNORE_MAX_CONNECTIONS = CONNECTION_ADMIN_ACL OR SUPER_ACL"

definition PRIV_IGNORE_MAX_PASSWORD_ERRORS :: privilege_t where
  "PRIV_IGNORE_MAX_PASSWORD_ERRORS = CONNECTION_ADMIN_ACL OR SUPER_ACL"

definition PRIV_KILL_OTHER_USER_PROCESS :: privilege_t where
  "PRIV_KILL_OTHER_USER_PROCESS = CONNECTION_ADMIN_ACL OR SUPER_ACL"

definition PRIV_SET_SYSTEM_GLOBAL_VAR_CONNECT_TIMEOUT :: privilege_t where
  "PRIV_SET_SYSTEM_GLOBAL_VAR_CONNECT_TIMEOUT = CONNECTION_ADMIN_ACL OR SUPER_ACL"

definition PRIV_SET_SYSTEM_GLOBAL_VAR_DISCONNECT_ON_EXPIRED_PASSWORD :: privilege_t where
  "PRIV_SET_SYSTEM_GLOBAL_VAR_DISCONNECT_ON_EXPIRED_PASSWORD = CONNECTION_ADMIN_ACL OR SUPER_ACL"

definition PRIV_SET_SYSTEM_GLOBAL_VAR_EXTRA_MAX_CONNECTIONS :: privilege_t where
  "PRIV_SET_SYSTEM_GLOBAL_VAR_EXTRA_MAX_CONNECTIONS = CONNECTION_ADMIN_ACL OR SUPER_ACL"

definition PRIV_SET_SYSTEM_GLOBAL_VAR_INIT_CONNECT :: privilege_t where
  "PRIV_SET_SYSTEM_GLOBAL_VAR_INIT_CONNECT = CONNECTION_ADMIN_ACL OR SUPER_ACL"

definition PRIV_SET_SYSTEM_GLOBAL_VAR_MAX_CONNECTIONS :: privilege_t where
  "PRIV_SET_SYSTEM_GLOBAL_VAR_MAX_CONNECTIONS = CONNECTION_ADMIN_ACL OR SUPER_ACL"

definition PRIV_SET_SYSTEM_GLOBAL_VAR_MAX_CONNECT_ERRORS :: privilege_t where
  "PRIV_SET_SYSTEM_GLOBAL_VAR_MAX_CONNECT_ERRORS = CONNECTION_ADMIN_ACL OR SUPER_ACL"

definition PRIV_SET_SYSTEM_GLOBAL_VAR_MAX_PASSWORD_ERRORS :: privilege_t where
  "PRIV_SET_SYSTEM_GLOBAL_VAR_MAX_PASSWORD_ERRORS = CONNECTION_ADMIN_ACL OR SUPER_ACL"

definition PRIV_SET_SYSTEM_GLOBAL_VAR_PROXY_PROTOCOL_NETWORKS :: privilege_t where
  "PRIV_SET_SYSTEM_GLOBAL_VAR_PROXY_PROTOCOL_NETWORKS = CONNECTION_ADMIN_ACL OR SUPER_ACL"

definition PRIV_SET_SYSTEM_GLOBAL_VAR_SECURE_AUTH :: privilege_t where
  "PRIV_SET_SYSTEM_GLOBAL_VAR_SECURE_AUTH = CONNECTION_ADMIN_ACL OR SUPER_ACL"

definition PRIV_SET_SYSTEM_GLOBAL_VAR_SLOW_LAUNCH_TIME :: privilege_t where
  "PRIV_SET_SYSTEM_GLOBAL_VAR_SLOW_LAUNCH_TIME = CONNECTION_ADMIN_ACL OR SUPER_ACL"

definition PRIV_SET_SYSTEM_GLOBAL_VAR_THREAD_POOL :: privilege_t where
  "PRIV_SET_SYSTEM_GLOBAL_VAR_THREAD_POOL = CONNECTION_ADMIN_ACL OR SUPER_ACL"

definition connection_privileges :: "privilege_t list" where
  "connection_privileges =
    [PRIV_IGNORE_INIT_CONNECT,
     PRIV_IGNORE_MAX_USER_CONNECTIONS,
     PRIV_IGNORE_MAX_CONNECTIONS,
     PRIV_IGNORE_MAX_PASSWORD_ERRORS,
     PRIV_KILL_OTHER_USER_PROCESS,
     PRIV_SET_SYSTEM_GLOBAL_VAR_CONNECT_TIMEOUT,
     PRIV_SET_SYSTEM_GLOBAL_VAR_DISCONNECT_ON_EXPIRED_PASSWORD,
     PRIV_SET_SYSTEM_GLOBAL_VAR_EXTRA_MAX_CONNECTIONS,
     PRIV_SET_SYSTEM_GLOBAL_VAR_INIT_CONNECT,
     PRIV_SET_SYSTEM_GLOBAL_VAR_MAX_CONNECTIONS,
     PRIV_SET_SYSTEM_GLOBAL_VAR_MAX_CONNECT_ERRORS,
     PRIV_SET_SYSTEM_GLOBAL_VAR_MAX_PASSWORD_ERRORS,
     PRIV_SET_SYSTEM_GLOBAL_VAR_PROXY_PROTOCOL_NETWORKS,
     PRIV_SET_SYSTEM_GLOBAL_VAR_SECURE_AUTH,
     PRIV_SET_SYSTEM_GLOBAL_VAR_SLOW_LAUNCH_TIME,
     PRIV_SET_SYSTEM_GLOBAL_VAR_THREAD_POOL]"

lemmas connection_privileges_defs =
  PRIV_IGNORE_INIT_CONNECT_def
  PRIV_IGNORE_MAX_USER_CONNECTIONS_def
  PRIV_IGNORE_MAX_CONNECTIONS_def
  PRIV_IGNORE_MAX_PASSWORD_ERRORS_def
  PRIV_KILL_OTHER_USER_PROCESS_def
  PRIV_SET_SYSTEM_GLOBAL_VAR_CONNECT_TIMEOUT_def
  PRIV_SET_SYSTEM_GLOBAL_VAR_DISCONNECT_ON_EXPIRED_PASSWORD_def
  PRIV_SET_SYSTEM_GLOBAL_VAR_EXTRA_MAX_CONNECTIONS_def
  PRIV_SET_SYSTEM_GLOBAL_VAR_INIT_CONNECT_def
  PRIV_SET_SYSTEM_GLOBAL_VAR_MAX_CONNECTIONS_def
  PRIV_SET_SYSTEM_GLOBAL_VAR_MAX_CONNECT_ERRORS_def
  PRIV_SET_SYSTEM_GLOBAL_VAR_MAX_PASSWORD_ERRORS_def
  PRIV_SET_SYSTEM_GLOBAL_VAR_PROXY_PROTOCOL_NETWORKS_def
  PRIV_SET_SYSTEM_GLOBAL_VAR_SECURE_AUTH_def
  PRIV_SET_SYSTEM_GLOBAL_VAR_SLOW_LAUNCH_TIME_def
  PRIV_SET_SYSTEM_GLOBAL_VAR_THREAD_POOL_def

definition PRIV_STMT_SHOW_BINLOG_STATUS :: privilege_t where
  "PRIV_STMT_SHOW_BINLOG_STATUS = BINLOG_MONITOR_ACL OR SUPER_ACL"

definition PRIV_STMT_SHOW_BINARY_LOGS :: privilege_t where
  "PRIV_STMT_SHOW_BINARY_LOGS = BINLOG_MONITOR_ACL OR SUPER_ACL"

definition PRIV_STMT_PURGE_BINLOG :: privilege_t where
  "PRIV_STMT_PURGE_BINLOG = BINLOG_ADMIN_ACL OR SUPER_ACL"

definition PRIV_STMT_SHOW_BINLOG_EVENTS :: privilege_t where
  "PRIV_STMT_SHOW_BINLOG_EVENTS = BINLOG_MONITOR_ACL"

definition binlog_statement_privileges :: "privilege_t list" where
  "binlog_statement_privileges =
    [PRIV_STMT_SHOW_BINLOG_STATUS,
     PRIV_STMT_SHOW_BINARY_LOGS,
     PRIV_STMT_PURGE_BINLOG,
     PRIV_STMT_SHOW_BINLOG_EVENTS]"

lemmas binlog_statement_privileges_defs =
  PRIV_STMT_SHOW_BINLOG_STATUS_def
  PRIV_STMT_SHOW_BINARY_LOGS_def
  PRIV_STMT_PURGE_BINLOG_def
  PRIV_STMT_SHOW_BINLOG_EVENTS_def

definition PRIV_COM_REGISTER_SLAVE :: privilege_t where
  "PRIV_COM_REGISTER_SLAVE = REPL_SLAVE_ACL"

definition PRIV_COM_BINLOG_DUMP :: privilege_t where
  "PRIV_COM_BINLOG_DUMP = REPL_SLAVE_ACL"

definition PRIV_STMT_SHOW_SLAVE_HOSTS :: privilege_t where
  "PRIV_STMT_SHOW_SLAVE_HOSTS = REPL_MASTER_ADMIN_ACL"

definition PRIV_SET_SYSTEM_GLOBAL_VAR_RPL_SEMI_SYNC_MASTER_ENABLED :: privilege_t where
  "PRIV_SET_SYSTEM_GLOBAL_VAR_RPL_SEMI_SYNC_MASTER_ENABLED = REPL_MASTER_ADMIN_ACL OR SUPER_ACL"

definition PRIV_SET_SYSTEM_GLOBAL_VAR_RPL_SEMI_SYNC_MASTER_TIMEOUT :: privilege_t where
  "PRIV_SET_SYSTEM_GLOBAL_VAR_RPL_SEMI_SYNC_MASTER_TIMEOUT = REPL_MASTER_ADMIN_ACL OR SUPER_ACL"

definition PRIV_SET_SYSTEM_GLOBAL_VAR_RPL_SEMI_SYNC_MASTER_WAIT_NO_SLAVE :: privilege_t where
  "PRIV_SET_SYSTEM_GLOBAL_VAR_RPL_SEMI_SYNC_MASTER_WAIT_NO_SLAVE = REPL_MASTER_ADMIN_ACL OR SUPER_ACL"

definition PRIV_SET_SYSTEM_GLOBAL_VAR_RPL_SEMI_SYNC_MASTER_TRACE_LEVEL :: privilege_t where
  "PRIV_SET_SYSTEM_GLOBAL_VAR_RPL_SEMI_SYNC_MASTER_TRACE_LEVEL = REPL_MASTER_ADMIN_ACL OR SUPER_ACL"

definition PRIV_SET_SYSTEM_GLOBAL_VAR_RPL_SEMI_SYNC_MASTER_WAIT_POINT :: privilege_t where
  "PRIV_SET_SYSTEM_GLOBAL_VAR_RPL_SEMI_SYNC_MASTER_WAIT_POINT = REPL_MASTER_ADMIN_ACL OR SUPER_ACL"

definition PRIV_SET_SYSTEM_GLOBAL_VAR_MASTER_VERIFY_CHECKSUM :: privilege_t where
  "PRIV_SET_SYSTEM_GLOBAL_VAR_MASTER_VERIFY_CHECKSUM = REPL_MASTER_ADMIN_ACL OR SUPER_ACL"

definition PRIV_SET_SYSTEM_GLOBAL_VAR_GTID_BINLOG_STATE :: privilege_t where
  "PRIV_SET_SYSTEM_GLOBAL_VAR_GTID_BINLOG_STATE = REPL_MASTER_ADMIN_ACL OR SUPER_ACL"

definition PRIV_SET_SYSTEM_GLOBAL_VAR_SERVER_ID :: privilege_t where
  "PRIV_SET_SYSTEM_GLOBAL_VAR_SERVER_ID = REPL_MASTER_ADMIN_ACL OR SUPER_ACL"

definition PRIV_SET_SYSTEM_GLOBAL_VAR_GTID_DOMAIN_ID :: privilege_t where
  "PRIV_SET_SYSTEM_GLOBAL_VAR_GTID_DOMAIN_ID = REPL_MASTER_ADMIN_ACL OR SUPER_ACL"

definition master_privileges :: "privilege_t list" where
  "master_privileges =
    [PRIV_COM_REGISTER_SLAVE,
     PRIV_COM_BINLOG_DUMP,
     PRIV_STMT_SHOW_SLAVE_HOSTS,
     PRIV_SET_SYSTEM_GLOBAL_VAR_RPL_SEMI_SYNC_MASTER_ENABLED,
     PRIV_SET_SYSTEM_GLOBAL_VAR_RPL_SEMI_SYNC_MASTER_TIMEOUT,
     PRIV_SET_SYSTEM_GLOBAL_VAR_RPL_SEMI_SYNC_MASTER_WAIT_NO_SLAVE,
     PRIV_SET_SYSTEM_GLOBAL_VAR_RPL_SEMI_SYNC_MASTER_TRACE_LEVEL,
     PRIV_SET_SYSTEM_GLOBAL_VAR_RPL_SEMI_SYNC_MASTER_WAIT_POINT,
     PRIV_SET_SYSTEM_GLOBAL_VAR_MASTER_VERIFY_CHECKSUM,
     PRIV_SET_SYSTEM_GLOBAL_VAR_GTID_BINLOG_STATE,
     PRIV_SET_SYSTEM_GLOBAL_VAR_SERVER_ID,
     PRIV_SET_SYSTEM_GLOBAL_VAR_GTID_DOMAIN_ID]"

lemmas master_privileges_defs =
  PRIV_COM_REGISTER_SLAVE_def
  PRIV_COM_BINLOG_DUMP_def
  PRIV_STMT_SHOW_SLAVE_HOSTS_def
  PRIV_SET_SYSTEM_GLOBAL_VAR_RPL_SEMI_SYNC_MASTER_ENABLED_def
  PRIV_SET_SYSTEM_GLOBAL_VAR_RPL_SEMI_SYNC_MASTER_TIMEOUT_def
  PRIV_SET_SYSTEM_GLOBAL_VAR_RPL_SEMI_SYNC_MASTER_WAIT_NO_SLAVE_def
  PRIV_SET_SYSTEM_GLOBAL_VAR_RPL_SEMI_SYNC_MASTER_TRACE_LEVEL_def
  PRIV_SET_SYSTEM_GLOBAL_VAR_RPL_SEMI_SYNC_MASTER_WAIT_POINT_def
  PRIV_SET_SYSTEM_GLOBAL_VAR_MASTER_VERIFY_CHECKSUM_def
  PRIV_SET_SYSTEM_GLOBAL_VAR_GTID_BINLOG_STATE_def
  PRIV_SET_SYSTEM_GLOBAL_VAR_SERVER_ID_def
  PRIV_SET_SYSTEM_GLOBAL_VAR_GTID_DOMAIN_ID_def

definition PRIV_STMT_START_SLAVE :: privilege_t where
  "PRIV_STMT_START_SLAVE = REPL_SLAVE_ADMIN_ACL OR SUPER_ACL"

definition PRIV_STMT_STOP_SLAVE :: privilege_t where
  "PRIV_STMT_STOP_SLAVE = REPL_SLAVE_ADMIN_ACL OR SUPER_ACL"

definition PRIV_STMT_CHANGE_MASTER :: privilege_t where
  "PRIV_STMT_CHANGE_MASTER = REPL_SLAVE_ADMIN_ACL OR SUPER_ACL"

definition PRIV_STMT_SHOW_SLAVE_STATUS :: privilege_t where
  "PRIV_STMT_SHOW_SLAVE_STATUS = SLAVE_MONITOR_ACL OR SUPER_ACL"

definition PRIV_STMT_SHOW_RELAYLOG_EVENTS :: privilege_t where
  "PRIV_STMT_SHOW_RELAYLOG_EVENTS = SLAVE_MONITOR_ACL"

definition slave_privileges :: "privilege_t list" where
  "slave_privileges =
    [PRIV_STMT_START_SLAVE,
     PRIV_STMT_STOP_SLAVE,
     PRIV_STMT_CHANGE_MASTER,
     PRIV_STMT_SHOW_SLAVE_STATUS,
     PRIV_STMT_SHOW_RELAYLOG_EVENTS]"

lemmas slave_privileges_defs =
  PRIV_STMT_START_SLAVE_def
  PRIV_STMT_STOP_SLAVE_def
  PRIV_STMT_CHANGE_MASTER_def
  PRIV_STMT_SHOW_SLAVE_STATUS_def
  PRIV_STMT_SHOW_RELAYLOG_EVENTS_def

definition PRIV_STMT_BINLOG :: privilege_t where
  "PRIV_STMT_BINLOG = BINLOG_REPLAY_ACL OR SUPER_ACL"

definition PRIV_SET_SYSTEM_SESSION_VAR_GTID_SEQ_NO :: privilege_t where
  "PRIV_SET_SYSTEM_SESSION_VAR_GTID_SEQ_NO = BINLOG_REPLAY_ACL OR SUPER_ACL"

definition PRIV_SET_SYSTEM_SESSION_VAR_PSEUDO_THREAD_ID :: privilege_t where
  "PRIV_SET_SYSTEM_SESSION_VAR_PSEUDO_THREAD_ID = BINLOG_REPLAY_ACL OR SUPER_ACL"

definition PRIV_SET_SYSTEM_SESSION_VAR_SERVER_ID :: privilege_t where
  "PRIV_SET_SYSTEM_SESSION_VAR_SERVER_ID = BINLOG_REPLAY_ACL OR SUPER_ACL"

definition PRIV_SET_SYSTEM_SESSION_VAR_GTID_DOMAIN_ID :: privilege_t where
  "PRIV_SET_SYSTEM_SESSION_VAR_GTID_DOMAIN_ID = BINLOG_REPLAY_ACL OR SUPER_ACL"

definition replay_privileges :: "privilege_t list" where
  "replay_privileges =
    [PRIV_STMT_BINLOG,
     PRIV_SET_SYSTEM_SESSION_VAR_GTID_SEQ_NO,
     PRIV_SET_SYSTEM_SESSION_VAR_PSEUDO_THREAD_ID,
     PRIV_SET_SYSTEM_SESSION_VAR_SERVER_ID,
     PRIV_SET_SYSTEM_SESSION_VAR_GTID_DOMAIN_ID]"

lemmas replay_privileges_defs =
  PRIV_STMT_BINLOG_def
  PRIV_SET_SYSTEM_SESSION_VAR_GTID_SEQ_NO_def
  PRIV_SET_SYSTEM_SESSION_VAR_PSEUDO_THREAD_ID_def
  PRIV_SET_SYSTEM_SESSION_VAR_SERVER_ID_def
  PRIV_SET_SYSTEM_SESSION_VAR_GTID_DOMAIN_ID_def

definition PRIV_SET_SYSTEM_GLOBAL_VAR_REPLICATE_EVENTS_MARKED_FOR_SKIP :: privilege_t where
  "PRIV_SET_SYSTEM_GLOBAL_VAR_REPLICATE_EVENTS_MARKED_FOR_SKIP = REPL_SLAVE_ADMIN_ACL OR SUPER_ACL"

definition PRIV_SET_SYSTEM_GLOBAL_VAR_REPLICATE_DO_DB :: privilege_t where
  "PRIV_SET_SYSTEM_GLOBAL_VAR_REPLICATE_DO_DB = REPL_SLAVE_ADMIN_ACL OR SUPER_ACL"

definition PRIV_SET_SYSTEM_GLOBAL_VAR_REPLICATE_DO_TABLE :: privilege_t where
  "PRIV_SET_SYSTEM_GLOBAL_VAR_REPLICATE_DO_TABLE = REPL_SLAVE_ADMIN_ACL OR SUPER_ACL"

definition PRIV_SET_SYSTEM_GLOBAL_VAR_REPLICATE_IGNORE_DB :: privilege_t where
  "PRIV_SET_SYSTEM_GLOBAL_VAR_REPLICATE_IGNORE_DB = REPL_SLAVE_ADMIN_ACL OR SUPER_ACL"

definition PRIV_SET_SYSTEM_GLOBAL_VAR_REPLICATE_IGNORE_TABLE :: privilege_t where
  "PRIV_SET_SYSTEM_GLOBAL_VAR_REPLICATE_IGNORE_TABLE = REPL_SLAVE_ADMIN_ACL OR SUPER_ACL"

definition PRIV_SET_SYSTEM_GLOBAL_VAR_REPLICATE_WILD_DO_TABLE :: privilege_t where
  "PRIV_SET_SYSTEM_GLOBAL_VAR_REPLICATE_WILD_DO_TABLE = REPL_SLAVE_ADMIN_ACL OR SUPER_ACL"

definition PRIV_SET_SYSTEM_GLOBAL_VAR_REPLICATE_WILD_IGNORE_TABLE :: privilege_t where
  "PRIV_SET_SYSTEM_GLOBAL_VAR_REPLICATE_WILD_IGNORE_TABLE = REPL_SLAVE_ADMIN_ACL OR SUPER_ACL"

definition PRIV_SET_SYSTEM_GLOBAL_VAR_READ_BINLOG_SPEED_LIMIT :: privilege_t where
  "PRIV_SET_SYSTEM_GLOBAL_VAR_READ_BINLOG_SPEED_LIMIT = REPL_SLAVE_ADMIN_ACL OR SUPER_ACL"

definition PRIV_SET_SYSTEM_GLOBAL_VAR_SLAVE_COMPRESSED_PROTOCOL :: privilege_t where
  "PRIV_SET_SYSTEM_GLOBAL_VAR_SLAVE_COMPRESSED_PROTOCOL = REPL_SLAVE_ADMIN_ACL OR SUPER_ACL"

definition PRIV_SET_SYSTEM_GLOBAL_VAR_SLAVE_DDL_EXEC_MODE :: privilege_t where
  "PRIV_SET_SYSTEM_GLOBAL_VAR_SLAVE_DDL_EXEC_MODE = REPL_SLAVE_ADMIN_ACL OR SUPER_ACL"

definition PRIV_SET_SYSTEM_GLOBAL_VAR_SLAVE_DOMAIN_PARALLEL_THREADS :: privilege_t where
  "PRIV_SET_SYSTEM_GLOBAL_VAR_SLAVE_DOMAIN_PARALLEL_THREADS = REPL_SLAVE_ADMIN_ACL OR SUPER_ACL"

definition PRIV_SET_SYSTEM_GLOBAL_VAR_SLAVE_EXEC_MODE :: privilege_t where
  "PRIV_SET_SYSTEM_GLOBAL_VAR_SLAVE_EXEC_MODE = REPL_SLAVE_ADMIN_ACL OR SUPER_ACL"

definition PRIV_SET_SYSTEM_GLOBAL_VAR_SLAVE_MAX_ALLOWED_PACKET :: privilege_t where
  "PRIV_SET_SYSTEM_GLOBAL_VAR_SLAVE_MAX_ALLOWED_PACKET = REPL_SLAVE_ADMIN_ACL OR SUPER_ACL"

definition PRIV_SET_SYSTEM_GLOBAL_VAR_SLAVE_NET_TIMEOUT :: privilege_t where
  "PRIV_SET_SYSTEM_GLOBAL_VAR_SLAVE_NET_TIMEOUT = REPL_SLAVE_ADMIN_ACL OR SUPER_ACL"

definition PRIV_SET_SYSTEM_GLOBAL_VAR_SLAVE_PARALLEL_MAX_QUEUED :: privilege_t where
  "PRIV_SET_SYSTEM_GLOBAL_VAR_SLAVE_PARALLEL_MAX_QUEUED = REPL_SLAVE_ADMIN_ACL OR SUPER_ACL"

definition PRIV_SET_SYSTEM_GLOBAL_VAR_SLAVE_PARALLEL_MODE :: privilege_t where
  "PRIV_SET_SYSTEM_GLOBAL_VAR_SLAVE_PARALLEL_MODE = REPL_SLAVE_ADMIN_ACL OR SUPER_ACL"

definition PRIV_SET_SYSTEM_GLOBAL_VAR_SLAVE_PARALLEL_THREADS :: privilege_t where
  "PRIV_SET_SYSTEM_GLOBAL_VAR_SLAVE_PARALLEL_THREADS = REPL_SLAVE_ADMIN_ACL OR SUPER_ACL"

definition PRIV_SET_SYSTEM_GLOBAL_VAR_SLAVE_PARALLEL_WORKERS :: privilege_t where
  "PRIV_SET_SYSTEM_GLOBAL_VAR_SLAVE_PARALLEL_WORKERS = REPL_SLAVE_ADMIN_ACL OR SUPER_ACL"

definition PRIV_SET_SYSTEM_GLOBAL_VAR_SLAVE_RUN_TRIGGERS_FOR_RBR :: privilege_t where
  "PRIV_SET_SYSTEM_GLOBAL_VAR_SLAVE_RUN_TRIGGERS_FOR_RBR = REPL_SLAVE_ADMIN_ACL OR SUPER_ACL"

definition PRIV_SET_SYSTEM_GLOBAL_VAR_SLAVE_SQL_VERIFY_CHECKSUM :: privilege_t where
  "PRIV_SET_SYSTEM_GLOBAL_VAR_SLAVE_SQL_VERIFY_CHECKSUM = REPL_SLAVE_ADMIN_ACL OR SUPER_ACL"

definition PRIV_SET_SYSTEM_GLOBAL_VAR_SLAVE_TRANSACTION_RETRY_INTERVAL :: privilege_t where
  "PRIV_SET_SYSTEM_GLOBAL_VAR_SLAVE_TRANSACTION_RETRY_INTERVAL = REPL_SLAVE_ADMIN_ACL OR SUPER_ACL"

definition PRIV_SET_SYSTEM_GLOBAL_VAR_SLAVE_TYPE_CONVERSIONS :: privilege_t where
  "PRIV_SET_SYSTEM_GLOBAL_VAR_SLAVE_TYPE_CONVERSIONS = REPL_SLAVE_ADMIN_ACL OR SUPER_ACL"

definition PRIV_SET_SYSTEM_GLOBAL_VAR_INIT_SLAVE :: privilege_t where
  "PRIV_SET_SYSTEM_GLOBAL_VAR_INIT_SLAVE = REPL_SLAVE_ADMIN_ACL OR SUPER_ACL"

definition PRIV_SET_SYSTEM_GLOBAL_VAR_RPL_SEMI_SYNC_SLAVE_ENABLED :: privilege_t where
  "PRIV_SET_SYSTEM_GLOBAL_VAR_RPL_SEMI_SYNC_SLAVE_ENABLED = REPL_SLAVE_ADMIN_ACL OR SUPER_ACL"

definition PRIV_SET_SYSTEM_GLOBAL_VAR_RPL_SEMI_SYNC_SLAVE_TRACE_LEVEL :: privilege_t where
  "PRIV_SET_SYSTEM_GLOBAL_VAR_RPL_SEMI_SYNC_SLAVE_TRACE_LEVEL = REPL_SLAVE_ADMIN_ACL OR SUPER_ACL"

definition PRIV_SET_SYSTEM_GLOBAL_VAR_RPL_SEMI_SYNC_SLAVE_DELAY_MASTER :: privilege_t where
  "PRIV_SET_SYSTEM_GLOBAL_VAR_RPL_SEMI_SYNC_SLAVE_DELAY_MASTER = REPL_SLAVE_ADMIN_ACL OR SUPER_ACL"

definition PRIV_SET_SYSTEM_GLOBAL_VAR_RPL_SEMI_SYNC_SLAVE_KILL_CONN_TIMEOUT :: privilege_t where
  "PRIV_SET_SYSTEM_GLOBAL_VAR_RPL_SEMI_SYNC_SLAVE_KILL_CONN_TIMEOUT = REPL_SLAVE_ADMIN_ACL OR SUPER_ACL"

definition PRIV_SET_SYSTEM_GLOBAL_VAR_RELAY_LOG_PURGE :: privilege_t where
  "PRIV_SET_SYSTEM_GLOBAL_VAR_RELAY_LOG_PURGE = REPL_SLAVE_ADMIN_ACL OR SUPER_ACL"

definition PRIV_SET_SYSTEM_GLOBAL_VAR_RELAY_LOG_RECOVERY :: privilege_t where
  "PRIV_SET_SYSTEM_GLOBAL_VAR_RELAY_LOG_RECOVERY = REPL_SLAVE_ADMIN_ACL OR SUPER_ACL"

definition PRIV_SET_SYSTEM_GLOBAL_VAR_SYNC_MASTER_INFO :: privilege_t where
  "PRIV_SET_SYSTEM_GLOBAL_VAR_SYNC_MASTER_INFO = REPL_SLAVE_ADMIN_ACL OR SUPER_ACL"

definition PRIV_SET_SYSTEM_GLOBAL_VAR_SYNC_RELAY_LOG :: privilege_t where
  "PRIV_SET_SYSTEM_GLOBAL_VAR_SYNC_RELAY_LOG = REPL_SLAVE_ADMIN_ACL OR SUPER_ACL"

definition PRIV_SET_SYSTEM_GLOBAL_VAR_SYNC_RELAY_LOG_INFO :: privilege_t where
  "PRIV_SET_SYSTEM_GLOBAL_VAR_SYNC_RELAY_LOG_INFO = REPL_SLAVE_ADMIN_ACL OR SUPER_ACL"

definition PRIV_SET_SYSTEM_GLOBAL_VAR_GTID_CLEANUP_BATCH_SIZE :: privilege_t where
  "PRIV_SET_SYSTEM_GLOBAL_VAR_GTID_CLEANUP_BATCH_SIZE = REPL_SLAVE_ADMIN_ACL OR SUPER_ACL"

definition PRIV_SET_SYSTEM_GLOBAL_VAR_GTID_IGNORE_DUPLICATES :: privilege_t where
  "PRIV_SET_SYSTEM_GLOBAL_VAR_GTID_IGNORE_DUPLICATES = REPL_SLAVE_ADMIN_ACL OR SUPER_ACL"

definition PRIV_SET_SYSTEM_GLOBAL_VAR_GTID_POS_AUTO_ENGINES :: privilege_t where
  "PRIV_SET_SYSTEM_GLOBAL_VAR_GTID_POS_AUTO_ENGINES = REPL_SLAVE_ADMIN_ACL OR SUPER_ACL"

definition PRIV_SET_SYSTEM_GLOBAL_VAR_GTID_SLAVE_POS :: privilege_t where
  "PRIV_SET_SYSTEM_GLOBAL_VAR_GTID_SLAVE_POS = REPL_SLAVE_ADMIN_ACL OR SUPER_ACL"

definition PRIV_SET_SYSTEM_GLOBAL_VAR_GTID_STRICT_MODE :: privilege_t where
  "PRIV_SET_SYSTEM_GLOBAL_VAR_GTID_STRICT_MODE = REPL_SLAVE_ADMIN_ACL OR SUPER_ACL"

definition slave_variable_privileges :: "privilege_t list" where
  "slave_variable_privileges =
    [PRIV_SET_SYSTEM_GLOBAL_VAR_REPLICATE_EVENTS_MARKED_FOR_SKIP,
     PRIV_SET_SYSTEM_GLOBAL_VAR_REPLICATE_DO_DB,
     PRIV_SET_SYSTEM_GLOBAL_VAR_REPLICATE_DO_TABLE,
     PRIV_SET_SYSTEM_GLOBAL_VAR_REPLICATE_IGNORE_DB,
     PRIV_SET_SYSTEM_GLOBAL_VAR_REPLICATE_IGNORE_TABLE,
     PRIV_SET_SYSTEM_GLOBAL_VAR_REPLICATE_WILD_DO_TABLE,
     PRIV_SET_SYSTEM_GLOBAL_VAR_REPLICATE_WILD_IGNORE_TABLE,
     PRIV_SET_SYSTEM_GLOBAL_VAR_READ_BINLOG_SPEED_LIMIT,
     PRIV_SET_SYSTEM_GLOBAL_VAR_SLAVE_COMPRESSED_PROTOCOL,
     PRIV_SET_SYSTEM_GLOBAL_VAR_SLAVE_DDL_EXEC_MODE,
     PRIV_SET_SYSTEM_GLOBAL_VAR_SLAVE_DOMAIN_PARALLEL_THREADS,
     PRIV_SET_SYSTEM_GLOBAL_VAR_SLAVE_EXEC_MODE,
     PRIV_SET_SYSTEM_GLOBAL_VAR_SLAVE_MAX_ALLOWED_PACKET,
     PRIV_SET_SYSTEM_GLOBAL_VAR_SLAVE_NET_TIMEOUT,
     PRIV_SET_SYSTEM_GLOBAL_VAR_SLAVE_PARALLEL_MAX_QUEUED,
     PRIV_SET_SYSTEM_GLOBAL_VAR_SLAVE_PARALLEL_MODE,
     PRIV_SET_SYSTEM_GLOBAL_VAR_SLAVE_PARALLEL_THREADS,
     PRIV_SET_SYSTEM_GLOBAL_VAR_SLAVE_PARALLEL_WORKERS,
     PRIV_SET_SYSTEM_GLOBAL_VAR_SLAVE_RUN_TRIGGERS_FOR_RBR,
     PRIV_SET_SYSTEM_GLOBAL_VAR_SLAVE_SQL_VERIFY_CHECKSUM,
     PRIV_SET_SYSTEM_GLOBAL_VAR_SLAVE_TRANSACTION_RETRY_INTERVAL,
     PRIV_SET_SYSTEM_GLOBAL_VAR_SLAVE_TYPE_CONVERSIONS,
     PRIV_SET_SYSTEM_GLOBAL_VAR_INIT_SLAVE,
     PRIV_SET_SYSTEM_GLOBAL_VAR_RPL_SEMI_SYNC_SLAVE_ENABLED,
     PRIV_SET_SYSTEM_GLOBAL_VAR_RPL_SEMI_SYNC_SLAVE_TRACE_LEVEL,
     PRIV_SET_SYSTEM_GLOBAL_VAR_RPL_SEMI_SYNC_SLAVE_DELAY_MASTER,
     PRIV_SET_SYSTEM_GLOBAL_VAR_RPL_SEMI_SYNC_SLAVE_KILL_CONN_TIMEOUT,
     PRIV_SET_SYSTEM_GLOBAL_VAR_RELAY_LOG_PURGE,
     PRIV_SET_SYSTEM_GLOBAL_VAR_RELAY_LOG_RECOVERY,
     PRIV_SET_SYSTEM_GLOBAL_VAR_SYNC_MASTER_INFO,
     PRIV_SET_SYSTEM_GLOBAL_VAR_SYNC_RELAY_LOG,
     PRIV_SET_SYSTEM_GLOBAL_VAR_SYNC_RELAY_LOG_INFO,
     PRIV_SET_SYSTEM_GLOBAL_VAR_GTID_CLEANUP_BATCH_SIZE,
     PRIV_SET_SYSTEM_GLOBAL_VAR_GTID_IGNORE_DUPLICATES,
     PRIV_SET_SYSTEM_GLOBAL_VAR_GTID_POS_AUTO_ENGINES,
     PRIV_SET_SYSTEM_GLOBAL_VAR_GTID_SLAVE_POS,
     PRIV_SET_SYSTEM_GLOBAL_VAR_GTID_STRICT_MODE]"

lemmas slave_variable_privileges_defs =
  PRIV_SET_SYSTEM_GLOBAL_VAR_REPLICATE_EVENTS_MARKED_FOR_SKIP_def
  PRIV_SET_SYSTEM_GLOBAL_VAR_REPLICATE_DO_DB_def
  PRIV_SET_SYSTEM_GLOBAL_VAR_REPLICATE_DO_TABLE_def
  PRIV_SET_SYSTEM_GLOBAL_VAR_REPLICATE_IGNORE_DB_def
  PRIV_SET_SYSTEM_GLOBAL_VAR_REPLICATE_IGNORE_TABLE_def
  PRIV_SET_SYSTEM_GLOBAL_VAR_REPLICATE_WILD_DO_TABLE_def
  PRIV_SET_SYSTEM_GLOBAL_VAR_REPLICATE_WILD_IGNORE_TABLE_def
  PRIV_SET_SYSTEM_GLOBAL_VAR_READ_BINLOG_SPEED_LIMIT_def
  PRIV_SET_SYSTEM_GLOBAL_VAR_SLAVE_COMPRESSED_PROTOCOL_def
  PRIV_SET_SYSTEM_GLOBAL_VAR_SLAVE_DDL_EXEC_MODE_def
  PRIV_SET_SYSTEM_GLOBAL_VAR_SLAVE_DOMAIN_PARALLEL_THREADS_def
  PRIV_SET_SYSTEM_GLOBAL_VAR_SLAVE_EXEC_MODE_def
  PRIV_SET_SYSTEM_GLOBAL_VAR_SLAVE_MAX_ALLOWED_PACKET_def
  PRIV_SET_SYSTEM_GLOBAL_VAR_SLAVE_NET_TIMEOUT_def
  PRIV_SET_SYSTEM_GLOBAL_VAR_SLAVE_PARALLEL_MAX_QUEUED_def
  PRIV_SET_SYSTEM_GLOBAL_VAR_SLAVE_PARALLEL_MODE_def
  PRIV_SET_SYSTEM_GLOBAL_VAR_SLAVE_PARALLEL_THREADS_def
  PRIV_SET_SYSTEM_GLOBAL_VAR_SLAVE_PARALLEL_WORKERS_def
  PRIV_SET_SYSTEM_GLOBAL_VAR_SLAVE_RUN_TRIGGERS_FOR_RBR_def
  PRIV_SET_SYSTEM_GLOBAL_VAR_SLAVE_SQL_VERIFY_CHECKSUM_def
  PRIV_SET_SYSTEM_GLOBAL_VAR_SLAVE_TRANSACTION_RETRY_INTERVAL_def
  PRIV_SET_SYSTEM_GLOBAL_VAR_SLAVE_TYPE_CONVERSIONS_def
  PRIV_SET_SYSTEM_GLOBAL_VAR_INIT_SLAVE_def
  PRIV_SET_SYSTEM_GLOBAL_VAR_RPL_SEMI_SYNC_SLAVE_ENABLED_def
  PRIV_SET_SYSTEM_GLOBAL_VAR_RPL_SEMI_SYNC_SLAVE_TRACE_LEVEL_def
  PRIV_SET_SYSTEM_GLOBAL_VAR_RPL_SEMI_SYNC_SLAVE_DELAY_MASTER_def
  PRIV_SET_SYSTEM_GLOBAL_VAR_RPL_SEMI_SYNC_SLAVE_KILL_CONN_TIMEOUT_def
  PRIV_SET_SYSTEM_GLOBAL_VAR_RELAY_LOG_PURGE_def
  PRIV_SET_SYSTEM_GLOBAL_VAR_RELAY_LOG_RECOVERY_def
  PRIV_SET_SYSTEM_GLOBAL_VAR_SYNC_MASTER_INFO_def
  PRIV_SET_SYSTEM_GLOBAL_VAR_SYNC_RELAY_LOG_def
  PRIV_SET_SYSTEM_GLOBAL_VAR_SYNC_RELAY_LOG_INFO_def
  PRIV_SET_SYSTEM_GLOBAL_VAR_GTID_CLEANUP_BATCH_SIZE_def
  PRIV_SET_SYSTEM_GLOBAL_VAR_GTID_IGNORE_DUPLICATES_def
  PRIV_SET_SYSTEM_GLOBAL_VAR_GTID_POS_AUTO_ENGINES_def
  PRIV_SET_SYSTEM_GLOBAL_VAR_GTID_SLAVE_POS_def
  PRIV_SET_SYSTEM_GLOBAL_VAR_GTID_STRICT_MODE_def

definition PRIV_STMT_CREATE_SERVER :: privilege_t where
  "PRIV_STMT_CREATE_SERVER = FEDERATED_ADMIN_ACL OR SUPER_ACL"

definition PRIV_STMT_ALTER_SERVER :: privilege_t where
  "PRIV_STMT_ALTER_SERVER = FEDERATED_ADMIN_ACL OR SUPER_ACL"

definition PRIV_STMT_DROP_SERVER :: privilege_t where
  "PRIV_STMT_DROP_SERVER = FEDERATED_ADMIN_ACL OR SUPER_ACL"

definition federated_privileges :: "privilege_t list" where
  "federated_privileges =
    [PRIV_STMT_CREATE_SERVER,
     PRIV_STMT_ALTER_SERVER,
     PRIV_STMT_DROP_SERVER]"

lemmas federated_privileges_defs =
  PRIV_STMT_CREATE_SERVER_def
  PRIV_STMT_ALTER_SERVER_def
  PRIV_STMT_DROP_SERVER_def

definition PRIV_COM_PROCESS_INFO :: privilege_t where
  "PRIV_COM_PROCESS_INFO = PROCESS_ACL"

definition PRIV_STMT_SHOW_EXPLAIN :: privilege_t where
  "PRIV_STMT_SHOW_EXPLAIN = PROCESS_ACL"

definition PRIV_STMT_SHOW_ENGINE_STATUS :: privilege_t where
  "PRIV_STMT_SHOW_ENGINE_STATUS = PROCESS_ACL"

definition PRIV_STMT_SHOW_ENGINE_MUTEX :: privilege_t where
  "PRIV_STMT_SHOW_ENGINE_MUTEX = PROCESS_ACL"

definition PRIV_STMT_SHOW_PROCESSLIST :: privilege_t where
  "PRIV_STMT_SHOW_PROCESSLIST = PROCESS_ACL"

definition process_privileges :: "privilege_t list" where
  "process_privileges =
    [PRIV_COM_PROCESS_INFO,
     PRIV_STMT_SHOW_EXPLAIN,
     PRIV_STMT_SHOW_ENGINE_STATUS,
     PRIV_STMT_SHOW_ENGINE_MUTEX,
     PRIV_STMT_SHOW_PROCESSLIST]"

lemmas process_privileges_defs =
  PRIV_COM_PROCESS_INFO_def
  PRIV_STMT_SHOW_EXPLAIN_def
  PRIV_STMT_SHOW_ENGINE_STATUS_def
  PRIV_STMT_SHOW_ENGINE_MUTEX_def
  PRIV_STMT_SHOW_PROCESSLIST_def

section \<open>Packing for the grant tables\<close>

definition DB_CHUNK0 :: privilege_t where
  "DB_CHUNK0 = COL_DML_ACLS OR CREATE_ACL OR DROP_ACL"

definition DB_CHUNK1 :: privilege_t where
  "DB_CHUNK1 = GRANT_ACL OR REFERENCES_ACL OR INDEX_ACL OR ALTER_ACL"

definition DB_CHUNK2 :: privilege_t where
  "DB_CHUNK2 = CREATE_TMP_ACL OR LOCK_TABLES_ACL"

definition DB_CHUNK3 :: privilege_t where
  "DB_CHUNK3 = VIEW_ACLS OR PROC_DDL_ACLS"

definition DB_CHUNK4 :: privilege_t where
  "DB_CHUNK4 = EXECUTE_ACL"

definition DB_CHUNK5 :: privilege_t where
  "DB_CHUNK5 = EVENT_ACL OR TRIGGER_ACL"

definition DB_CHUNK6 :: privilege_t where
  "DB_CHUNK6 = DELETE_HISTORY_ACL"

definition fix_rights_for_db :: "privilege_t \<Rightarrow> privilege_t" where
  "fix_rights_for_db A =
     A AND DB_CHUNK0
     OR push_bit 4 A AND DB_CHUNK1
     OR push_bit 6 A AND DB_CHUNK2
     OR push_bit 9 A AND DB_CHUNK3
     OR push_bit 2 A AND DB_CHUNK4
     OR push_bit 9 A AND DB_CHUNK5
     OR push_bit 10 A AND DB_CHUNK6"

definition get_rights_for_db :: "privilege_t \<Rightarrow> privilege_t" where
  "get_rights_for_db A =
     A AND DB_CHUNK0
     OR drop_bit 4 (A AND DB_CHUNK1)
     OR drop_bit 6 (A AND DB_CHUNK2)
     OR drop_bit 9 (A AND DB_CHUNK3)
     OR drop_bit 2 (A AND DB_CHUNK4)
     OR drop_bit 9 (A AND DB_CHUNK5)
     OR drop_bit 10 (A AND DB_CHUNK6)"

definition TBL_CHUNK0 :: privilege_t where
  "TBL_CHUNK0 = DB_CHUNK0"

definition TBL_CHUNK1 :: privilege_t where
  "TBL_CHUNK1 = DB_CHUNK1"

definition TBL_CHUNK2 :: privilege_t where
  "TBL_CHUNK2 = CREATE_VIEW_ACL OR SHOW_VIEW_ACL"

definition TBL_CHUNK3 :: privilege_t where
  "TBL_CHUNK3 = TRIGGER_ACL"

definition TBL_CHUNK4 :: privilege_t where
  "TBL_CHUNK4 = DELETE_HISTORY_ACL"

definition fix_rights_for_table :: "privilege_t \<Rightarrow> privilege_t" where
  "fix_rights_for_table A =
     A AND TBL_CHUNK0
     OR push_bit 4 A AND TBL_CHUNK1
     OR push_bit 11 A AND TBL_CHUNK2
     OR push_bit 15 A AND TBL_CHUNK3
     OR push_bit 16 A AND TBL_CHUNK4"

definition get_rights_for_table :: "privilege_t \<Rightarrow> privilege_t" where
  "get_rights_for_table A =
     A AND TBL_CHUNK0
     OR drop_bit 4 (A AND TBL_CHUNK1)
     OR drop_bit 11 (A AND TBL_CHUNK2)
     OR drop_bit 15 (A AND TBL_CHUNK3)
     OR drop_bit 16 (A AND TBL_CHUNK4)"

definition fix_rights_for_column :: "privilege_t \<Rightarrow> privilege_t" where
  "fix_rights_for_column A =
     (let m = SELECT_ACL OR INSERT_ACL OR UPDATE_ACL in (A AND m) OR push_bit 8 (A AND NOT m))"

definition get_rights_for_column :: "privilege_t \<Rightarrow> privilege_t" where
  "get_rights_for_column A =
     (let m = SELECT_ACL OR INSERT_ACL OR UPDATE_ACL in (A AND m) OR drop_bit 8 A)"

definition fix_rights_for_procedure :: "privilege_t \<Rightarrow> privilege_t" where
  "fix_rights_for_procedure A =
     push_bit 18 A AND EXECUTE_ACL OR push_bit 23 A AND ALTER_PROC_ACL OR push_bit 8 A AND GRANT_ACL"

definition get_rights_for_procedure :: "privilege_t \<Rightarrow> privilege_t" where
  "get_rights_for_procedure A =
     drop_bit 18 (A AND EXECUTE_ACL) OR drop_bit 23 (A AND ALTER_PROC_ACL) OR drop_bit 8 (A AND GRANT_ACL)"

section \<open>Bits of the constants\<close>

lemmas acl_defs =
  NO_ACL_def SELECT_ACL_def INSERT_ACL_def UPDATE_ACL_def DELETE_ACL_def CREATE_ACL_def
  DROP_ACL_def RELOAD_ACL_def SHUTDOWN_ACL_def PROCESS_ACL_def FILE_ACL_def GRANT_ACL_def
  REFERENCES_ACL_def INDEX_ACL_def ALTER_ACL_def SHOW_DB_ACL_def SUPER_ACL_def CREATE_TMP_ACL_def
  LOCK_TABLES_ACL_def EXECUTE_ACL_def REPL_SLAVE_ACL_def BINLOG_MONITOR_ACL_def
  CREATE_VIEW_ACL_def SHOW_VIEW_ACL_def CREATE_PROC_ACL_def ALTER_PROC_ACL_def
  CREATE_USER_ACL_def EVENT_ACL_def TRIGGER_ACL_def CREATE_TABLESPACE_ACL_def
  DELETE_HISTORY_ACL_def SET_USER_ACL_def FEDERATED_ADMIN_ACL_def CONNECTION_ADMIN_ACL_def
  READ_ONLY_ADMIN_ACL_def REPL_SLAVE_ADMIN_ACL_def REPL_MASTER_ADMIN_ACL_def BINLOG_ADMIN_ACL_def
  BINLOG_REPLAY_ACL_def SLAVE_MONITOR_ACL_def

lemmas level_defs =
  GLOBAL_SUPER_ADDED_SINCE_USER_TABLE_ACLS_def COL_DML_ACLS_def VIEW_ACLS_def
  STD_TABLE_DDL_ACLS_def ALL_TABLE_DDL_ACLS_def COL_ACLS_def PROC_DDL_ACLS_def SHOW_PROC_ACLS_def
  TABLE_ACLS_def DB_ACLS_def PROC_ACLS_def GLOBAL_ACLS_def DEFAULT_CREATE_PROC_ACLS_def
  SHOW_CREATE_TABLE_ACLS_def TMP_TABLE_ACLS_def DB_CHUNK0_def DB_CHUNK1_def DB_CHUNK2_def
  DB_CHUNK3_def DB_CHUNK4_def DB_CHUNK5_def DB_CHUNK6_def TBL_CHUNK0_def TBL_CHUNK1_def
  TBL_CHUNK2_def TBL_CHUNK3_def TBL_CHUNK4_def

lemmas action_defs =
  object_privileges_def super_only_privileges_def binlog_variable_privileges_def
  read_only_privileges_def connection_privileges_def binlog_statement_privileges_def
  master_privileges_def slave_privileges_def replay_privileges_def slave_variable_privileges_def
  federated_privileges_def process_privileges_def

lemmas priv_defs =
  object_privileges_defs
  super_only_privileges_defs
  binlog_variable_privileges_defs
  read_only_privileges_defs
  connection_privileges_defs
  binlog_statement_privileges_defs
  master_privileges_defs
  slave_privileges_defs
  replay_privileges_defs
  slave_variable_privileges_defs
  federated_privileges_defs
  process_privileges_defs

text \<open>The constants as numbers, and equality of words bit by bit.\<close>

lemma chunk_values:
  "DB_CHUNK0 = 0x3F" "DB_CHUNK1 = 0x3C00" "DB_CHUNK2 = 0x30000" "DB_CHUNK3 = 0x1E00000"
  "DB_CHUNK4 = 0x40000" "DB_CHUNK5 = 0xC000000" "DB_CHUNK6 = 0x20000000"
  "TBL_CHUNK0 = 0x3F" "TBL_CHUNK1 = 0x3C00" "TBL_CHUNK2 = 0x600000" "TBL_CHUNK3 = 0x8000000" "TBL_CHUNK4 = 0x20000000"
  by (simp_all add: level_defs acl_defs)

lemma level_values:
  "COL_ACLS = 0x807" "TABLE_ACLS = 0x28603C3F" "DB_ACLS = 0x2DE73C3F" "PROC_ACLS = 0x1040400" "GLOBAL_ACLS = 0x7FFFFFFFFF"
  by (simp_all add: level_defs acl_defs)

text \<open>One chunk: the bits of a mask, moved up or down.\<close>

definition spread :: "privilege_t \<Rightarrow> nat \<Rightarrow> privilege_t \<Rightarrow> privilege_t" where
  "spread m k A = push_bit k A AND m"

definition pack :: "privilege_t \<Rightarrow> nat \<Rightarrow> privilege_t \<Rightarrow> privilege_t" where
  "pack m k A = drop_bit k (A AND m)"

lemma spread_or: "spread m k (A OR B) = spread m k A OR spread m k B"
  by (simp add: spread_def push_bit_or bit.conj_disj_distrib2)

lemma pack_or: "pack m k (A OR B) = pack m k A OR pack m k B"
  by (simp add: pack_def drop_bit_or bit.conj_disj_distrib2)

lemma pack_spread: "pack m k (spread m k A) = A AND drop_bit k m"
  by (rule bit_word_eqI) (auto simp: pack_def spread_def bit_simps dest: bit_less_64)

lemma spread_pack: "m AND 2 ^ k - 1 = 0 \<Longrightarrow> spread m k (pack m k A) = A AND m"
proof (rule bit_word_eqI)
  fix n
  assume "m AND 2 ^ k - 1 = 0"
  then have "m AND mask k = 0" by (simp add: mask_eq_exp_minus_1)
  then have "\<not> (bit m n \<and> n < k)" using bit_and_iff [of m "mask k" n] by (auto simp: bit_mask_iff dest: bit_less_64)
  then show "bit (spread m k (pack m k A)) n = bit (A AND m) n"
    by (auto simp: pack_def spread_def bit_simps dest: bit_less_64)
qed

lemma pack_spread_other: "m AND m' = 0 \<Longrightarrow> pack m k (spread m' k' A) = 0"
  by (simp add: pack_def spread_def and.assoc and.commute [of m'])

lemma spread_pack_other:
  assumes "drop_bit k m AND drop_bit k' m' = 0"
  shows "spread m k (pack m' k' A) = 0"
proof (rule bit_word_eqI)
  fix n
  have "\<not> (bit m n \<and> k \<le> n \<and> bit m' (k' + (n - k)))"
    using bit_and_iff [of "drop_bit k m" "drop_bit k' m'" "n - k"] unfolding assms by (auto simp: bit_drop_bit_eq)
  then show "bit (spread m k (pack m' k' A)) n = bit 0 n" by (auto simp: pack_def spread_def bit_simps)
qed

lemmas chunk_laws = spread_or pack_or pack_spread spread_pack pack_spread_other spread_pack_other
  mask_eq_exp_minus_1 bit.conj_disj_distrib [symmetric]

lemma fix_rights_chunks:
  "fix_rights_for_db A = spread 0x3F 0 A OR spread 0x3C00 4 A OR spread 0x30000 6 A OR spread 0x1E00000 9 A
     OR spread 0x40000 2 A OR spread 0xC000000 9 A OR spread 0x20000000 10 A"
  "fix_rights_for_table A = spread 0x3F 0 A OR spread 0x3C00 4 A OR spread 0x600000 11 A OR spread 0x8000000 15 A
     OR spread 0x20000000 16 A"
  "fix_rights_for_procedure A = spread 0x40000 18 A OR spread 0x1000000 23 A OR spread 0x400 8 A"
  by (simp_all add: fix_rights_for_db_def fix_rights_for_table_def fix_rights_for_procedure_def chunk_values
      acl_defs spread_def)

lemma get_rights_chunks:
  "get_rights_for_db A = pack 0x3F 0 A OR pack 0x3C00 4 A OR pack 0x30000 6 A OR pack 0x1E00000 9 A
     OR pack 0x40000 2 A OR pack 0xC000000 9 A OR pack 0x20000000 10 A"
  "get_rights_for_table A = pack 0x3F 0 A OR pack 0x3C00 4 A OR pack 0x600000 11 A OR pack 0x8000000 15 A
     OR pack 0x20000000 16 A"
  "get_rights_for_procedure A = pack 0x40000 18 A OR pack 0x1000000 23 A OR pack 0x400 8 A"
  by (simp_all add: get_rights_for_db_def get_rights_for_table_def get_rights_for_procedure_def chunk_values
      acl_defs pack_def)

section \<open>A column of a grant table\<close>

text \<open>What the code that reads and writes grant tables relies on: packing loses nothing but the
  privileges that do not exist on the level, and both directions work bit by bit.\<close>

locale rights_column =
  fixes fix_rights :: "privilege_t \<Rightarrow> privilege_t"
    and get_rights :: "privilege_t \<Rightarrow> privilege_t"
    and acls :: privilege_t
    and width :: nat
  assumes fix_get: "fix_rights (get_rights A) = A AND acls"
    and get_fix: "get_rights (fix_rights B) = B AND mask width"
    and fix_or: "fix_rights (A OR B) = fix_rights A OR fix_rights B"
    and get_or: "get_rights (A OR B) = get_rights A OR get_rights B"
begin

lemma fix_mono: "bit_set A \<subseteq> bit_set B \<Longrightarrow> bit_set (fix_rights A) \<subseteq> bit_set (fix_rights B)"
  using fix_or [of A B] by (metis Un_absorb1 bit_set_eq_iff bit_set_or Un_upper1)

lemma get_mono: "bit_set A \<subseteq> bit_set B \<Longrightarrow> bit_set (get_rights A) \<subseteq> bit_set (get_rights B)"
  using get_or [of A B] by (metis Un_absorb1 bit_set_eq_iff bit_set_or Un_upper1)

lemma fix_0: "fix_rights 0 = 0" and get_0: "get_rights 0 = 0"
proof -
  have "bit_set (fix_rights 0) \<subseteq> bit_set (fix_rights (get_rights 0))" by (rule fix_mono) simp
  then show f: "fix_rights 0 = 0" by (simp add: fix_get)
  show "get_rights 0 = 0" using get_fix [of 0] f by simp
qed

text \<open>Only the privileges of the level reach the table, and those survive.\<close>

lemma stored_iff: "fix_rights (get_rights A) = A \<longleftrightarrow> bit_set A \<subseteq> bit_set acls"
  using bit_set_eq_iff [of "A AND acls" A] by (auto simp: fix_get)

lemma get_disjoint:
  assumes "bit_set X \<inter> bit_set Y = {}" "bit_set X \<subseteq> bit_set acls"
  shows "bit_set (get_rights X) \<inter> bit_set (get_rights Y) = {}"
proof -
  let ?Z = "get_rights X AND get_rights Y"
  have X: "fix_rights (get_rights X) = X" using assms(2) stored_iff by blast
  have "bit_set (fix_rights ?Z) \<subseteq> bit_set X \<inter> bit_set Y"
    using fix_mono [of ?Z "get_rights X"] fix_mono [of ?Z "get_rights Y"] fix_get [of Y] X by auto
  then have "?Z AND mask width = 0" using assms(1) get_fix [of ?Z] get_0 by (metis bit_set_empty_iff subset_empty)
  moreover have "get_rights X AND mask width = get_rights X" using get_fix [of "get_rights X"] X by simp
  ultimately have "?Z = 0" by (metis and.assoc and.commute)
  then show ?thesis by (simp flip: bit_set_and)
qed

text \<open>Revoking privileges in the packed form revokes exactly those privileges.\<close>

lemma revoke: "fix_rights (get_rights A AND NOT (get_rights B)) = A AND acls AND NOT B"
proof -
  let ?X = "get_rights A AND NOT (get_rights B)" and ?Y = "A AND acls AND NOT B"
  let ?W = "fix_rights ?X AND B AND acls"
  have up: "bit_set (fix_rights ?X) \<subseteq> bit_set (A AND acls)"
    using fix_mono [of ?X "get_rights A"] by (simp add: fix_get)
  have "bit_set (get_rights ?W) \<subseteq> bit_set (get_rights (fix_rights ?X)) \<inter> bit_set (get_rights B)"
    using get_mono [of ?W "fix_rights ?X"] get_mono [of ?W B] by (simp add: inf.coboundedI1 inf.coboundedI2)
  then have "\<not> bit (get_rights ?W) n" for n by (auto simp: get_fix subset_iff bit_not_iff)
  then have "get_rights ?W = 0" by (intro bit_word_eqI) simp
  then have "?W = 0" using fix_get [of ?W] fix_0 by (simp add: and.assoc)
  then have no: "\<not> (bit (fix_rights ?X) n \<and> bit B n \<and> bit acls n)" for n using bit_and_iff [of _ _ n] by (metis bit_0_eq bot_apply bot_bool_def)
  have le: "bit_set (fix_rights ?X) \<subseteq> bit_set ?Y"
  proof
    fix n
    assume n: "n \<in> bit_set (fix_rights ?X)"
    then have "n \<in> bit_set (A AND acls)" using up by (rule rev_subsetD)
    then have "bit A n" "bit acls n" by (simp_all add: bit_and_iff)
    then show "n \<in> bit_set ?Y" using no [of n] n bit_less_64 [of A n] by (simp add: bit_and_iff bit_not_iff)
  qed
  have Y: "fix_rights (get_rights ?Y) = ?Y" by (subst stored_iff) auto
  have "bit_set (get_rights ?Y) \<inter> bit_set (get_rights B) = {}" by (rule get_disjoint) (auto simp: bit_not_iff)
  moreover have "bit_set (get_rights ?Y) \<subseteq> bit_set (get_rights A)" by (rule get_mono) auto
  ultimately have "bit_set (get_rights ?Y) \<subseteq> bit_set ?X" unfolding bit_set_and_not by blast
  then have "bit_set ?Y \<subseteq> bit_set (fix_rights ?X)" using fix_mono [of "get_rights ?Y" ?X] Y by simp
  then show ?thesis using le bit_set_eq_iff by blast
qed

end

lemma db_laws: "fix_rights_for_db (get_rights_for_db A) = A AND DB_ACLS"
  "get_rights_for_db (fix_rights_for_db B) = B AND mask 20"
  by (simp_all add: fix_rights_chunks get_rights_chunks chunk_laws level_values)

lemma table_laws: "fix_rights_for_table (get_rights_for_table A) = A AND TABLE_ACLS"
  "get_rights_for_table (fix_rights_for_table B) = B AND mask 14"
  by (simp_all add: fix_rights_chunks get_rights_chunks chunk_laws level_values)

lemma procedure_laws: "fix_rights_for_procedure (get_rights_for_procedure A) = A AND PROC_ACLS"
  "get_rights_for_procedure (fix_rights_for_procedure B) = B AND mask 3"
  by (simp_all add: fix_rights_chunks get_rights_chunks chunk_laws level_values)

lemma rights_or:
  "fix_rights_for_db (A OR B) = fix_rights_for_db A OR fix_rights_for_db B"
  "get_rights_for_db (A OR B) = get_rights_for_db A OR get_rights_for_db B"
  "fix_rights_for_table (A OR B) = fix_rights_for_table A OR fix_rights_for_table B"
  "get_rights_for_table (A OR B) = get_rights_for_table A OR get_rights_for_table B"
  "fix_rights_for_procedure (A OR B) = fix_rights_for_procedure A OR fix_rights_for_procedure B"
  "get_rights_for_procedure (A OR B) = get_rights_for_procedure A OR get_rights_for_procedure B"
  by (simp_all add: fix_rights_chunks get_rights_chunks spread_or pack_or or.assoc or.left_commute)

interpretation db: rights_column fix_rights_for_db get_rights_for_db DB_ACLS 20
  by unfold_locales (simp_all add: db_laws rights_or)

interpretation tbl: rights_column fix_rights_for_table get_rights_for_table TABLE_ACLS 14
  by unfold_locales (simp_all add: table_laws rights_or)

interpretation prc: rights_column fix_rights_for_procedure get_rights_for_procedure PROC_ACLS 3
  by unfold_locales (simp_all add: procedure_laws rights_or)

text \<open>Columns: the shift is not confined to the chunk, so packing is exact only within the level.\<close>

lemma column_chunks:
  "fix_rights_for_column (B AND mask 4) = spread 7 0 B OR spread 0x800 8 B"
  "fix_rights_for_column (pack 7 0 A OR pack 0x800 8 A) = A AND COL_ACLS"
  "get_rights_for_column (A AND COL_ACLS) = pack 7 0 A OR pack 0x800 8 A"
  "get_rights_for_column (spread 7 0 B OR spread 0x800 8 B) = B AND mask 4"
  using spread_pack [of "0x800" 8 A] pack_spread [where m = "0x800" and k = 8 and A = B]
  by (simp_all add: fix_rights_for_column_def get_rights_for_column_def acl_defs level_values spread_def pack_def Let_def
      push_bit_and drop_bit_and push_bit_or drop_bit_or and.assoc mask_eq_exp_minus_1 bit.conj_disj_distrib2
      flip: bit.conj_disj_distrib)

section \<open>Levels and actions\<close>

definition action_privileges :: "privilege_t list" where
  "action_privileges = object_privileges @ super_only_privileges @ binlog_variable_privileges @ read_only_privileges
     @ connection_privileges @ binlog_statement_privileges @ master_privileges @ slave_privileges @ replay_privileges
     @ slave_variable_privileges @ federated_privileges @ process_privileges"

definition formerly_super_privileges :: "privilege_t list" where
  "formerly_super_privileges = super_only_privileges @ binlog_variable_privileges @ read_only_privileges
     @ connection_privileges @ replay_privileges @ slave_variable_privileges @ federated_privileges"

lemma bit_set_le_iff: "bit_set A \<subseteq> bit_set B \<longleftrightarrow> A AND B = A"
  using bit_set_eq_iff [of "A AND B" A] by auto

lemma PRIVILEGE_T_MAX_BIT_value: "PRIVILEGE_T_MAX_BIT = 38"
  by code_simp

lemma known_values:
  "ALL_KNOWN_ACL_100304 = 0x3FFFFFFF" "ALL_KNOWN_ACL_100502 = 0x3FFFFFFFFF" "ALL_KNOWN_ACL_100509 = 0x7FFFFFFFFF"
  "ALL_KNOWN_ACL = 0x7FFFFFFFFF" "LAST_CURRENT_ACL = 0x4000000000"
  by (simp_all add: ALL_KNOWN_ACL_100304_def ALL_KNOWN_ACL_100502_def ALL_KNOWN_ACL_100509_def ALL_KNOWN_ACL_100508_def
      ALL_KNOWN_ACL_def ALL_KNOWN_BITS_def LAST_100304_ACL_def LAST_100502_ACL_def LAST_100508_ACL_def LAST_CURRENT_ACL_def
      acl_defs)

lemma more_level_values: "TMP_TABLE_ACLS = 0x303F" "SHOW_CREATE_TABLE_ACLS = 0x8603C3F"
  by (simp_all add: level_defs acl_defs)

lemma action_privileges_global: "list_all (\<lambda>p. p \<noteq> NO_ACL \<and> p AND GLOBAL_ACLS = p) action_privileges"
  by (simp add: action_privileges_def action_defs priv_defs level_values acl_defs)

lemma formerly_super: "list_all (\<lambda>p. p AND SUPER_ACL = SUPER_ACL) formerly_super_privileges"
  by (simp add: formerly_super_privileges_def action_defs priv_defs acl_defs)

lemma all_known_bits: "bit_set ALL_KNOWN_ACL = {..38}"
proof -
  have "ALL_KNOWN_ACL = mask 39" by (simp add: known_values mask_eq_exp_minus_1)
  moreover have "bit_set (mask 39 :: privilege_t) = {..<39}" by (rule bit_set_mask) simp
  ultimately show ?thesis using lessThan_Suc_atMost [of 38] by simp
qed

section \<open>Properties\<close>

text \<open>Packing the privileges of a database, table, routine or column into its column of a grant table and reading
  them back keeps exactly the privileges of that level; each number a column can hold stands for one set of
  privileges; and revoking in the packed form revokes exactly the privileges meant.\<close>

theorem grant_columns_round_trip:
  "fix_rights_for_db (get_rights_for_db A) = A AND DB_ACLS
   \<and> get_rights_for_db (fix_rights_for_db B) = B AND mask 20
   \<and> fix_rights_for_table (get_rights_for_table A) = A AND TABLE_ACLS
   \<and> get_rights_for_table (fix_rights_for_table B) = B AND mask 14
   \<and> fix_rights_for_procedure (get_rights_for_procedure A) = A AND PROC_ACLS
   \<and> get_rights_for_procedure (fix_rights_for_procedure B) = B AND mask 3
   \<and> fix_rights_for_column (get_rights_for_column (A AND COL_ACLS)) = A AND COL_ACLS
   \<and> get_rights_for_column (fix_rights_for_column (B AND mask 4)) = B AND mask 4
   \<and> fix_rights_for_db (get_rights_for_db A AND NOT (get_rights_for_db B)) = A AND DB_ACLS AND NOT B
   \<and> fix_rights_for_table (get_rights_for_table A AND NOT (get_rights_for_table B)) = A AND TABLE_ACLS AND NOT B
   \<and> fix_rights_for_procedure (get_rights_for_procedure A AND NOT (get_rights_for_procedure B)) = A AND PROC_ACLS AND NOT B"
  by (intro conjI db.fix_get db.get_fix tbl.fix_get tbl.get_fix prc.fix_get prc.get_fix db.revoke tbl.revoke prc.revoke)
    (simp_all only: column_chunks)

text \<open>The levels of privileges are nested: what can be granted on a column can be granted on its table, what on
  a table on its database, and what on a database globally; the global privileges are all the known ones, the known
  ones of each version are those of the next, and the last known bit is the marker of the current version. Every
  action asks for at least one privilege and for global ones only, and the actions that were reserved for
  \<^verbatim>\<open>SUPER\<close> before version 10.5.2 are all still open to it.\<close>

theorem privilege_levels:
  "bit_set COL_ACLS \<subseteq> bit_set TABLE_ACLS \<and> bit_set TABLE_ACLS \<subseteq> bit_set DB_ACLS \<and> bit_set PROC_ACLS \<subseteq> bit_set DB_ACLS
   \<and> bit_set TMP_TABLE_ACLS \<subseteq> bit_set TABLE_ACLS \<and> bit_set SHOW_CREATE_TABLE_ACLS \<subseteq> bit_set TABLE_ACLS
   \<and> bit_set DB_ACLS \<subseteq> bit_set GLOBAL_ACLS \<and> GLOBAL_ACLS = ALL_KNOWN_ACL
   \<and> bit_set ALL_KNOWN_ACL_100304 \<subseteq> bit_set ALL_KNOWN_ACL_100502
   \<and> bit_set ALL_KNOWN_ACL_100502 \<subseteq> bit_set ALL_KNOWN_ACL_100509 \<and> ALL_KNOWN_ACL_100509 = ALL_KNOWN_ACL
   \<and> push_bit (unat PRIVILEGE_T_MAX_BIT) 1 = LAST_CURRENT_ACL \<and> bit_set ALL_KNOWN_ACL = {..unat PRIVILEGE_T_MAX_BIT}
   \<and> list_all (\<lambda>p. p \<noteq> NO_ACL \<and> p AND GLOBAL_ACLS = p) action_privileges
   \<and> list_all (\<lambda>p. p AND SUPER_ACL = SUPER_ACL) formerly_super_privileges"
  by (simp add: bit_set_le_iff action_privileges_global formerly_super PRIVILEGE_T_MAX_BIT_value all_known_bits)
    (simp add: level_values more_level_values known_values)

end
