(* ===== verification/Bounded_Queue.thy ===== *)
theory Bounded_Queue
  imports Prelude "HOL-Library.Multiset"
begin

text \<open>
  The bounded priority queue of \<^verbatim>\<open>bounded_queue.h\<close>, with which the server sorts for \<^verbatim>\<open>ORDER BY ... LIMIT\<close>, on top of
  the macros of \<^verbatim>\<open>queues.h\<close>. The functions on \<^verbatim>\<open>QUEUE\<close> that the macros and the class call have their code elsewhere
  and are a parameter. The queue holds positions of the array \<^verbatim>\<open>m_sort_keys\<close>; the keys the array points to are a
  memory that \<^verbatim>\<open>push\<close> overwrites.
\<close>

section \<open>QUEUE\<close>

record QUEUE =
  root :: "nat \<Rightarrow> nat"
  elements :: nat
  max_elements :: nat
  max_at_top :: int

definition queue_first_element :: nat where
  "queue_first_element = 1"

definition queue_last_element :: "QUEUE \<Rightarrow> nat" where
  "queue_last_element q = elements q"

definition queue_empty :: "QUEUE \<Rightarrow> bool" where
  "queue_empty q \<longleftrightarrow> elements q = 0"

definition queue_top :: "QUEUE \<Rightarrow> nat" where
  "queue_top q = root q 1"

definition queue_element :: "QUEUE \<Rightarrow> nat \<Rightarrow> nat" where
  "queue_element q i = root q i"

definition queue_end :: "QUEUE \<Rightarrow> nat" where
  "queue_end q = root q (elements q)"

definition queue_set_max_at_top :: "QUEUE \<Rightarrow> bool \<Rightarrow> QUEUE" where
  "queue_set_max_at_top q set_arg = q\<lparr>max_at_top := (if set_arg then - 1 else 1)\<rparr>"

definition queue_remove_all :: "QUEUE \<Rightarrow> QUEUE" where
  "queue_remove_all q = q\<lparr>elements := 0\<rparr>"

definition queue_is_full :: "QUEUE \<Rightarrow> bool" where
  "queue_is_full q \<longleftrightarrow> elements q = max_elements q"

text \<open>The functions. The comparison of two elements is an argument, since it reads the keys they point to; the
  initialisation returns a flag for failure.\<close>

type_synonym queue_compare = "nat \<Rightarrow> nat \<Rightarrow> int"

record queue_funs =
  init_queue :: "nat \<Rightarrow> bool \<Rightarrow> bool \<times> QUEUE"
  queue_insert :: "queue_compare \<Rightarrow> QUEUE \<Rightarrow> nat \<Rightarrow> QUEUE"
  queue_remove :: "queue_compare \<Rightarrow> QUEUE \<Rightarrow> nat \<Rightarrow> nat \<times> QUEUE"
  downheap :: "queue_compare \<Rightarrow> QUEUE \<Rightarrow> nat \<Rightarrow> QUEUE"

definition queue_replace_top :: "queue_funs \<Rightarrow> queue_compare \<Rightarrow> QUEUE \<Rightarrow> QUEUE" where
  "queue_replace_top F c q = downheap F c q 1"

definition queue_remove_top :: "queue_funs \<Rightarrow> queue_compare \<Rightarrow> QUEUE \<Rightarrow> nat \<times> QUEUE" where
  "queue_remove_top F c q = queue_remove F c q queue_first_element"

section \<open>Bounded\_queue\<close>

record ('e, 'k) Bounded_queue =
  m_keys :: "nat \<Rightarrow> 'k"
  m_compare :: "'k \<Rightarrow> 'k \<Rightarrow> int"
  m_keymaker :: "'e \<Rightarrow> 'k"
  m_queue :: QUEUE

definition UINT_MAX :: nat where
  "UINT_MAX = 2 ^ 32 - 1"

text \<open>The comparison the queue functions are given.\<close>

definition key_compare :: "('e, 'k) Bounded_queue \<Rightarrow> queue_compare" where
  "key_compare b i j = m_compare b (m_keys b i) (m_keys b j)"

text \<open>The initialisation: the flag tells that it failed. With no comparison given the one for keys of the given
  length is taken, which is a parameter like the queue functions.\<close>

definition bq_init :: "queue_funs \<Rightarrow> (nat \<Rightarrow> 'k \<Rightarrow> 'k \<Rightarrow> int) \<Rightarrow> nat \<Rightarrow> bool \<Rightarrow> ('k \<Rightarrow> 'k \<Rightarrow> int) option \<Rightarrow> nat
    \<Rightarrow> ('e \<Rightarrow> 'k) \<Rightarrow> (nat \<Rightarrow> 'k) \<Rightarrow> ('e, 'k) Bounded_queue \<Rightarrow> bool \<times> ('e, 'k) Bounded_queue" where
  "bq_init F get_ptr_compare max_elems max_top compare compare_length keymaker sort_keys b =
     (let b = b\<lparr>m_keys := sort_keys, m_keymaker := keymaker\<rparr>
      in if max_elems \<ge> UINT_MAX - 1 then (True, b)
         else let compare = (case compare of None \<Rightarrow> get_ptr_compare compare_length | Some c \<Rightarrow> c);
                  (fail, q) = init_queue F (max_elems + 1) max_top
              in (fail, b\<lparr>m_compare := compare, m_queue := q\<rparr>))"

definition bq_push :: "queue_funs \<Rightarrow> 'e \<Rightarrow> ('e, 'k) Bounded_queue \<Rightarrow> ('e, 'k) Bounded_queue" where
  "bq_push F element b =
     (if queue_is_full (m_queue b)
      then let pq_top = queue_top (m_queue b);
               b = b\<lparr>m_keys := (m_keys b)(pq_top := m_keymaker b element)\<rparr>
           in b\<lparr>m_queue := queue_replace_top F (key_compare b) (m_queue b)\<rparr>
      else let i = elements (m_queue b);
               b = b\<lparr>m_keys := (m_keys b)(i := m_keymaker b element)\<rparr>
           in b\<lparr>m_queue := queue_insert F (key_compare b) (m_queue b) i\<rparr>)"

definition bq_pop :: "queue_funs \<Rightarrow> ('e, 'k) Bounded_queue \<Rightarrow> nat option \<times> ('e, 'k) Bounded_queue" where
  "bq_pop F b =
     (let b = (if queue_is_full (m_queue b)
               then b\<lparr>m_queue := snd (queue_remove F (key_compare b) (m_queue b) 0)\<rparr> else b)
      in if elements (m_queue b) = 0 then (None, b)
         else let (i, q) = queue_remove F (key_compare b) (m_queue b) 0 in (Some i, b\<lparr>m_queue := q\<rparr>))"

definition num_elements :: "('e, 'k) Bounded_queue \<Rightarrow> nat" where
  "num_elements b = elements (m_queue b)"

definition is_initialized :: "('e, 'k) Bounded_queue \<Rightarrow> bool" where
  "is_initialized b \<longleftrightarrow> max_elements (m_queue b) > 0"

section \<open>What the queue functions promise\<close>

text \<open>The elements of a queue, and that its top is one that compares first. A comparison of elements is that of the
  ranks of the keys they point to.\<close>

definition entries :: "QUEUE \<Rightarrow> nat list" where
  "entries q = map (root q) [1..<elements q + 1]"

definition ranked :: "(nat \<Rightarrow> int) \<Rightarrow> queue_compare \<Rightarrow> bool" where
  "ranked r c \<longleftrightarrow> (\<forall>i j. c i j \<le> 0 \<longleftrightarrow> r i \<le> r j)"

text \<open>The contract of a priority queue, for some notion of a heap: initialisation gives an empty heap, insertion below
  the capacity adds an element, and \<^verbatim>\<open>_downheap\<close> of the top restores a heap in which only the key of the top has
  changed; in a heap no element comes before the top, and a heap depends on the keys of its elements only.\<close>

definition queue_funs_ok :: "queue_funs \<Rightarrow> ((nat \<Rightarrow> int) \<Rightarrow> QUEUE \<Rightarrow> bool) \<Rightarrow> bool" where
  "queue_funs_ok F heap \<longleftrightarrow>
     (\<forall>n m q r. init_queue F n m = (False, q) \<longrightarrow>
        elements q = 0 \<and> max_elements q = n \<and> max_at_top q = (if m then - 1 else 1) \<and> heap r q)
   \<and> (\<forall>r c q i. heap r q \<and> ranked r c \<and> elements q < max_elements q \<longrightarrow>
        (let q' = queue_insert F c q i
         in heap r q' \<and> mset (entries q') = add_mset i (mset (entries q)) \<and> max_elements q' = max_elements q
            \<and> max_at_top q' = max_at_top q))
   \<and> (\<forall>r r' c q. heap r q \<and> ranked r' c \<and> 0 < elements q \<and> distinct (entries q) \<and> (\<forall>i. i \<noteq> root q 1 \<longrightarrow> r' i = r i) \<longrightarrow>
        (let q' = downheap F c q 1
         in heap r' q' \<and> mset (entries q') = mset (entries q) \<and> max_elements q' = max_elements q
            \<and> max_at_top q' = max_at_top q))
   \<and> (\<forall>r q i. heap r q \<and> i \<in> set (entries q) \<longrightarrow> max_at_top q * r (root q 1) \<le> max_at_top q * r i)
   \<and> (\<forall>r r' q. heap r q \<and> (\<forall>i \<in> set (entries q). r' i = r i) \<longrightarrow> heap r' q)"

lemma queue_init:
  "queue_funs_ok F heap \<Longrightarrow> init_queue F n m = (False, q) \<Longrightarrow>
     elements q = 0 \<and> max_elements q = n \<and> max_at_top q = (if m then - 1 else 1) \<and> heap r q"
  by (simp add: queue_funs_ok_def)

lemma queue_insert_ok:
  assumes "queue_funs_ok F heap" and "heap r q" and "ranked r c" and "elements q < max_elements q" and "q' = queue_insert F c q i"
  shows "heap r q' \<and> mset (entries q') = add_mset i (mset (entries q)) \<and> max_elements q' = max_elements q
    \<and> max_at_top q' = max_at_top q"
  using assms unfolding queue_funs_ok_def Let_def by blast

lemma queue_downheap_ok:
  assumes "queue_funs_ok F heap" and "heap r q" and "ranked r' c" and "0 < elements q" and "distinct (entries q)"
    and "\<And>i. i \<noteq> root q 1 \<Longrightarrow> r' i = r i" and "q' = downheap F c q 1"
  shows "heap r' q' \<and> mset (entries q') = mset (entries q) \<and> max_elements q' = max_elements q \<and> max_at_top q' = max_at_top q"
  using assms unfolding queue_funs_ok_def Let_def by blast

lemma queue_top_first:
  "queue_funs_ok F heap \<Longrightarrow> heap r q \<Longrightarrow> i \<in> set (entries q) \<Longrightarrow> max_at_top q * r (root q 1) \<le> max_at_top q * r i"
  by (simp add: queue_funs_ok_def)

lemma queue_heap_cong:
  "queue_funs_ok F heap \<Longrightarrow> heap r q \<Longrightarrow> (\<And>i. i \<in> set (entries q) \<Longrightarrow> r' i = r i) \<Longrightarrow> heap r' q"
  unfolding queue_funs_ok_def by blast

lemma length_entries [simp]: "length (entries q) = elements q"
  by (simp add: entries_def)

lemma top_in_entries: "0 < elements q \<Longrightarrow> root q 1 \<in> set (entries q)"
  by (auto simp: entries_def image_iff intro!: bexI [of _ 1] simp del: upt_Suc)

section \<open>The smallest elements of a list\<close>

lemma take_insort: "take n (insort k (take n xs)) = take n (insort k xs)"
  by (induction xs arbitrary: n) (auto simp: take_Cons split: nat.split)

lemma remove_largest:
  assumes "sorted xs" and "n \<le> length xs" and "t \<in># add_mset k (mset (take n xs))"
    and "\<And>x. x \<in># add_mset k (mset (take n xs)) \<Longrightarrow> x \<le> t"
  shows "add_mset k (mset (take n xs)) - {#t#} = mset (take n (insort k xs))"
proof -
  let ?ys = "insort k (take n xs)"
  have m: "mset ?ys = add_mset k (mset (take n xs))" by simp
  have len: "length ?ys = Suc n" using assms(2) by simp
  then obtain zs z where ys: "?ys = zs @ [z]" by (metis length_Suc_conv_rev)
  have "sorted (zs @ [z])" using assms(1) by (metis ys sorted_insort sorted_wrt_take)
  then have "x \<le> z" if "x \<in># mset ?ys" for x using that unfolding ys by (auto simp: sorted_append)
  moreover have "z \<in># mset ?ys" unfolding ys by simp
  ultimately have "t = z" using assms(3,4) unfolding m by (meson order_antisym)
  then have "add_mset k (mset (take n xs)) - {#t#} = mset zs" unfolding m [symmetric] ys by simp
  also have "zs = take n ?ys" using len unfolding ys by simp
  finally show ?thesis by (simp only: take_insort)
qed

lemma sort_snoc: "sort (xs @ [x]) = insort x (sort xs)"
  by (rule properties_for_sort) (simp_all add: sorted_insort)

section \<open>The contents of a bounded queue\<close>

text \<open>The rank of a key in the direction of the queue: the top has the largest.\<close>

definition rank_in :: "('k \<Rightarrow> int) \<Rightarrow> QUEUE \<Rightarrow> 'k \<Rightarrow> int" where
  "rank_in rank q k = - max_at_top q * rank k"

text \<open>A queue for \<open>n\<close> elements after pushing elements with the keys \<open>ks\<close>.\<close>

definition bq_holds :: "((nat \<Rightarrow> int) \<Rightarrow> QUEUE \<Rightarrow> bool) \<Rightarrow> ('k \<Rightarrow> int) \<Rightarrow> int \<Rightarrow> nat \<Rightarrow> 'k list
    \<Rightarrow> ('e, 'k) Bounded_queue \<Rightarrow> bool" where
  "bq_holds heap rank d n ks b \<longleftrightarrow>
     (let q = m_queue b
      in heap (\<lambda>i. rank (m_keys b i)) q \<and> (\<forall>x y. m_compare b x y \<le> 0 \<longleftrightarrow> rank x \<le> rank y)
       \<and> max_at_top q = d \<and> max_elements q = n + 1 \<and> distinct (entries q) \<and> set (entries q) = {..<elements q}
       \<and> image_mset (m_keys b) (mset (entries q)) \<subseteq># mset ks
       \<and> (if length ks \<le> n then elements q = length ks
          else elements q = n + 1 \<and>
            image_mset (\<lambda>i. rank_in rank q (m_keys b i)) (mset (entries q) - {#root q 1#})
              = mset (take n (sort (map (rank_in rank q) ks)))))"

lemma top_removed:
  assumes F: "queue_funs_ok F heap" and h: "heap (\<lambda>i. rank (keys i)) q" and e: "0 < elements q"
    and im: "image_mset (\<lambda>i. rank_in rank q (keys i)) (mset (entries q)) = add_mset (rank_in rank q k) (mset (take n xs))"
    and xs: "sorted xs" "n \<le> length xs"
  shows "image_mset (\<lambda>i. rank_in rank q (keys i)) (mset (entries q) - {#root q 1#}) = mset (take n (insort (rank_in rank q k) xs))"
proof -
  let ?r = "\<lambda>i. rank_in rank q (keys i)"
  have top: "root q 1 \<in># mset (entries q)" using top_in_entries [OF e] by simp
  have "?r i \<le> ?r (root q 1)" if "i \<in> set (entries q)" for i
    using queue_top_first [OF F h that] by (simp add: rank_in_def)
  then have "x \<le> ?r (root q 1)" if "x \<in># add_mset (rank_in rank q k) (mset (take n xs))" for x
    using that unfolding im [symmetric] by auto
  moreover have "?r (root q 1) \<in># add_mset (rank_in rank q k) (mset (take n xs))"
    unfolding im [symmetric] using top by simp
  ultimately show ?thesis using remove_largest [OF xs] im image_mset_Diff [of "{#root q 1#}" "mset (entries q)" ?r] top
    by simp
qed

lemma image_mset_upd:
  "i \<in># M \<Longrightarrow> count M i = 1 \<Longrightarrow> image_mset (f(i := v)) M = add_mset v (image_mset f (M - {#i#}))"
proof -
  assume i: "i \<in># M" "count M i = 1"
  then have M: "M = add_mset i (M - {#i#})" and "i \<notin># M - {#i#}" by (simp_all add: not_in_iff)
  then have "image_mset (f(i := v)) (M - {#i#}) = image_mset f (M - {#i#})" by (intro image_mset_cong) auto
  then show ?thesis by (subst M) simp
qed

lemma bq_holdsD:
  assumes "bq_holds heap rank d n ks b"
  shows "heap (\<lambda>i. rank (m_keys b i)) (m_queue b)" and "\<And>x y. m_compare b x y \<le> 0 \<longleftrightarrow> rank x \<le> rank y"
    and "max_elements (m_queue b) = n + 1"
    and "distinct (entries (m_queue b))" and "set (entries (m_queue b)) = {..<elements (m_queue b)}"
    and "image_mset (m_keys b) (mset (entries (m_queue b))) \<subseteq># mset ks"
    and "length ks \<le> n \<Longrightarrow> elements (m_queue b) = length ks"
    and "n < length ks \<Longrightarrow> elements (m_queue b) = n + 1"
    and "n < length ks \<Longrightarrow> image_mset (\<lambda>i. rank_in rank (m_queue b) (m_keys b i))
      (mset (entries (m_queue b)) - {#root (m_queue b) 1#}) = mset (take n (sort (map (rank_in rank (m_queue b)) ks)))"
    and "max_at_top (m_queue b) = d"
  using assms by (simp_all add: bq_holds_def Let_def)

lemma entries_added:
  assumes "mset (entries q') = add_mset i (mset (entries q))"
  shows "elements q' = Suc (elements q)" "distinct (entries q') \<longleftrightarrow> i \<notin> set (entries q) \<and> distinct (entries q)"
    "set (entries q') = insert i (set (entries q))"
proof -
  have m: "mset (entries q') = mset (i # entries q)" using assms by simp
  show "elements q' = Suc (elements q)" using mset_eq_length [OF m] by simp
  show "distinct (entries q') \<longleftrightarrow> i \<notin> set (entries q) \<and> distinct (entries q)" using mset_eq_imp_distinct_iff [OF m] by simp
  show "set (entries q') = insert i (set (entries q))" using mset_eq_setD [OF m] by simp
qed

lemma push_with_room:
  assumes F: "queue_funs_ok F heap" and b: "bq_holds heap rank d n ks b" and len: "length ks \<le> n"
  shows "bq_holds heap rank d n (ks @ [m_keymaker b e]) (bq_push F e b)"
proof -
  let ?q = "m_queue b" and ?k = "m_keymaker b e"
  let ?i = "elements ?q"
  let ?b = "b\<lparr>m_keys := (m_keys b)(?i := ?k)\<rparr>"
  define q' where "q' = queue_insert F (key_compare ?b) ?q ?i"
  note D = bq_holdsD [OF b]
  have el: "?i = length ks" using D(7) len .
  have push: "bq_push F e b = ?b\<lparr>m_queue := q'\<rparr>"
    using D(3) el len by (simp add: bq_push_def queue_is_full_def q'_def Let_def)
  have hp: "heap (\<lambda>i. rank (m_keys ?b i)) ?q" by (rule queue_heap_cong [OF F D(1)]) (auto simp: D(5))
  have rk: "ranked (\<lambda>i. rank (m_keys ?b i)) (key_compare ?b)" by (simp add: ranked_def key_compare_def D(2))
  have room: "elements ?q < max_elements ?q" using D(3) el len by simp
  note ins = queue_insert_ok [OF F hp rk room q'_def]
  have q': "heap (\<lambda>i. rank (m_keys ?b i)) q'" "mset (entries q') = add_mset ?i (mset (entries ?q))" "max_elements q' = n + 1"
    "max_at_top q' = d"
    using ins D(3,10) by (blast, blast, metis, metis)
  note add = entries_added [OF q'(2)]
  have im: "image_mset (\<lambda>i. f (m_keys ?b i)) (mset (entries q')) = add_mset (f ?k) (image_mset (\<lambda>i. f (m_keys b i)) (mset (entries ?q)))"
    for f :: "_ \<Rightarrow> 'x"
  proof -
    have "i \<noteq> elements ?q" if "i \<in># mset (entries ?q)" for i using that unfolding set_mset_mset D(5) by simp
    then have "image_mset (\<lambda>i. f (m_keys ?b i)) (mset (entries ?q)) = image_mset (\<lambda>i. f (m_keys b i)) (mset (entries ?q))"
      by (intro image_mset_cong) simp
    then show ?thesis unfolding q'(2) by simp
  qed
  have sub: "image_mset (m_keys ?b) (mset (entries q')) \<subseteq># mset (ks @ [?k])" unfolding im [of "\<lambda>x. x"] using D(6) by simp
  have "image_mset (\<lambda>i. rank_in rank q' (m_keys ?b i)) (mset (entries q') - {#root q' 1#})
      = mset (take n (sort (map (rank_in rank q') (ks @ [?k]))))" if "length ks = n"
  proof -
    have "image_mset (m_keys b) (mset (entries ?q)) = mset ks"
      using D(6) el by (metis length_entries size_image_mset size_mset subset_mset.le_imp_less_or_eq mset_subset_size less_irrefl)
    then have "image_mset (\<lambda>i. rank_in rank q' (m_keys b i)) (mset (entries ?q)) = mset (take n (sort (map (rank_in rank q') ks)))"
      using that image_mset.compositionality [of "rank_in rank q'" "m_keys b" "mset (entries ?q)"] by (simp add: comp_def)
    then have "image_mset (\<lambda>i. rank_in rank q' (m_keys ?b i)) (mset (entries q'))
        = add_mset (rank_in rank q' ?k) (mset (take n (sort (map (rank_in rank q') ks))))"
      unfolding im [of "rank_in rank q'"] by simp
    from top_removed [where rank = rank and keys = "m_keys ?b", OF F q'(1) _ this] show ?thesis
      using that add(1) by (simp only: sort_snoc map_append list.map) simp
  qed
  then show ?thesis unfolding bq_holds_def push Let_def
    using q'(1,3,4) D(2,4,5) sub el add len
    by (cases "length ks = n") (auto simp: lessThan_Suc not_le)
qed

lemma push_when_full:
  assumes F: "queue_funs_ok F heap" and b: "bq_holds heap rank d n ks b" and len: "n < length ks"
  shows "bq_holds heap rank d n (ks @ [m_keymaker b e]) (bq_push F e b)"
proof -
  let ?q = "m_queue b" and ?k = "m_keymaker b e"
  let ?t = "root ?q 1"
  let ?b = "b\<lparr>m_keys := (m_keys b)(?t := ?k)\<rparr>"
  define q' where "q' = downheap F (key_compare ?b) ?q 1"
  note D = bq_holdsD [OF b]
  have el: "elements ?q = n + 1" using D(8) len .
  have push: "bq_push F e b = ?b\<lparr>m_queue := q'\<rparr>"
    using D(3) el by (simp add: bq_push_def queue_is_full_def queue_top_def queue_replace_top_def q'_def Let_def)
  have rk: "ranked (\<lambda>i. rank (m_keys ?b i)) (key_compare ?b)" by (simp add: ranked_def key_compare_def D(2))
  have pos: "0 < elements ?q" using el by simp
  have other: "rank (m_keys ?b i) = rank (m_keys b i)" if "i \<noteq> root ?q 1" for i using that by simp
  note dn = queue_downheap_ok [OF F D(1) rk pos D(4) other q'_def]
  have q': "heap (\<lambda>i. rank (m_keys ?b i)) q'" "mset (entries q') = mset (entries ?q)" "max_elements q' = n + 1"
    "max_at_top q' = max_at_top ?q"
    using dn D(3) by (blast, blast, metis, blast)
  have same: "elements q' = n + 1" "distinct (entries q')" "set (entries q') = {..<n + 1}"
    using mset_eq_length [OF q'(2)] mset_eq_imp_distinct_iff [OF q'(2)] mset_eq_setD [OF q'(2)] D(4,5) el by simp_all
  have rin: "rank_in rank q' = rank_in rank ?q" by (simp add: rank_in_def q'(4) fun_eq_iff)
  have t: "?t \<in># mset (entries ?q)" using top_in_entries [OF pos] by simp
  moreover have "count (mset (entries ?q)) ?t = 1" using t D(4) by (simp add: distinct_count_atmost_1)
  ultimately have keys: "image_mset (m_keys ?b) (mset (entries q')) = add_mset ?k (image_mset (m_keys b) (mset (entries ?q) - {#?t#}))"
    using image_mset_upd [of ?t "mset (entries ?q)" "m_keys b" ?k] by (simp add: q'(2))
  have "image_mset (m_keys b) (mset (entries ?q) - {#?t#}) \<subseteq># image_mset (m_keys b) (mset (entries ?q))"
    by (rule image_mset_subseteq_mono) simp
  then have "image_mset (m_keys b) (mset (entries ?q) - {#?t#}) \<subseteq># mset ks" using D(6) by (rule subset_mset.order_trans)
  then have sub: "image_mset (m_keys ?b) (mset (entries q')) \<subseteq># mset (ks @ [?k])" by (simp only: keys) simp
  have "image_mset (\<lambda>i. rank_in rank q' (m_keys ?b i)) (mset (entries q'))
      = image_mset (rank_in rank q') (image_mset (m_keys ?b) (mset (entries q')))"
    by (simp only: image_mset.compositionality comp_def)
  also have "\<dots> = add_mset (rank_in rank q' ?k) (mset (take n (sort (map (rank_in rank q') ks))))"
    using D(9) [OF len] by (simp only: keys rin image_mset_add_mset image_mset.compositionality comp_def)
  finally have im: "image_mset (\<lambda>i. rank_in rank q' (m_keys ?b i)) (mset (entries q'))
      = add_mset (rank_in rank q' ?k) (mset (take n (sort (map (rank_in rank q') ks))))" .
  have "image_mset (\<lambda>i. rank_in rank q' (m_keys ?b i)) (mset (entries q') - {#root q' 1#})
      = mset (take n (insort (rank_in rank q' ?k) (sort (map (rank_in rank q') ks))))"
    by (rule top_removed [where rank = rank and keys = "m_keys ?b", OF F q'(1) _ im]) (use same len in simp_all)
  then have top: "image_mset (\<lambda>i. rank_in rank q' (m_keys ?b i)) (mset (entries q') - {#root q' 1#})
      = mset (take n (sort (map (rank_in rank q') (ks @ [?k]))))" by (simp only: sort_snoc map_append list.map)
  show ?thesis unfolding bq_holds_def push Let_def
    using q'(1,3,4) D(2,10) sub top same len by simp
qed

text \<open>Pushing a sequence of elements.\<close>

definition push_all :: "queue_funs \<Rightarrow> 'e list \<Rightarrow> ('e, 'k) Bounded_queue \<Rightarrow> ('e, 'k) Bounded_queue" where
  "push_all F es b = fold (bq_push F) es b"

lemma m_keymaker_push [simp]: "m_keymaker (bq_push F e b) = m_keymaker b"
  by (simp add: bq_push_def Let_def)

lemma push_all_holds:
  assumes F: "queue_funs_ok F heap"
  shows "bq_holds heap rank d n ks b \<Longrightarrow> bq_holds heap rank d n (ks @ map (m_keymaker b) es) (push_all F es b)"
proof (induction es arbitrary: ks b)
  case (Cons e es)
  have "bq_holds heap rank d n (ks @ [m_keymaker b e]) (bq_push F e b)"
    using push_with_room [OF F Cons.prems] push_when_full [OF F Cons.prems] by (cases "length ks \<le> n") auto
  from Cons.IH [OF this] show ?case by (simp add: push_all_def)
qed (simp add: push_all_def)

lemma bq_init_holds:
  assumes F: "queue_funs_ok F heap" and i: "bq_init F gpc n m (Some c) l km keys b = (False, b')"
    and c: "\<forall>x y. c x y \<le> 0 \<longleftrightarrow> rank x \<le> rank y"
  shows "bq_holds heap rank (if m then - 1 else 1) n [] b'" "m_keymaker b' = km" "n + 2 < 2 ^ 32"
proof -
  obtain q where q: "init_queue F (n + 1) m = (False, q)" "b' = b\<lparr>m_keys := keys, m_keymaker := km, m_compare := c, m_queue := q\<rparr>"
    using i by (auto simp: bq_init_def Let_def split: if_splits prod.splits)
  have "elements q = 0" "max_elements q = n + 1" "max_at_top q = (if m then - 1 else 1)" "heap (\<lambda>i. rank (keys i)) q"
    using queue_init [OF F q(1)] by blast+
  then show "bq_holds heap rank (if m then - 1 else 1) n [] b'" "m_keymaker b' = km"
    using c by (simp_all add: bq_holds_def q(2) entries_def)
  show "n + 2 < 2 ^ 32" using i by (auto simp: bq_init_def UINT_MAX_def Let_def split: if_splits)
qed

section \<open>An instance of the queue functions\<close>

text \<open>A queue that keeps an element that compares first at the top and the others in any order.\<close>

definition sample_queue :: "nat list \<Rightarrow> QUEUE \<Rightarrow> QUEUE" where
  "sample_queue xs q = q\<lparr>root := (\<lambda>i. if 0 < i \<and> i \<le> length xs then xs ! (i - 1) else 0), elements := length xs\<rparr>"

definition sample_first :: "QUEUE \<Rightarrow> queue_compare \<Rightarrow> nat \<Rightarrow> nat \<Rightarrow> nat" where
  "sample_first q c i j = (if (if max_at_top q = 1 then c i j \<le> 0 else c j i \<le> 0) then i else j)"

definition sample_arrange :: "QUEUE \<Rightarrow> queue_compare \<Rightarrow> nat list \<Rightarrow> QUEUE" where
  "sample_arrange q c xs =
     sample_queue (case xs of [] \<Rightarrow> [] | x # ys \<Rightarrow> let b = fold (sample_first q c) ys x in b # remove1 b xs) q"

definition sample_funs :: queue_funs where
  "sample_funs =
     \<lparr>init_queue = (\<lambda>n m. (False, \<lparr>root = (\<lambda>_. 0), elements = 0, max_elements = n, max_at_top = (if m then - 1 else 1)\<rparr>)),
      queue_insert = (\<lambda>c q i. sample_arrange q c (entries q @ [i])),
      queue_remove = (\<lambda>c q i. (root q i, sample_arrange q c (remove1 (root q i) (entries q)))),
      downheap = (\<lambda>c q i. sample_arrange q c (entries q))\<rparr>"

definition sample_heap :: "(nat \<Rightarrow> int) \<Rightarrow> QUEUE \<Rightarrow> bool" where
  "sample_heap r q \<longleftrightarrow> (max_at_top q = 1 \<or> max_at_top q = - 1)
     \<and> (\<forall>i \<in> set (entries q). max_at_top q * r (root q 1) \<le> max_at_top q * r i)"

lemma entries_sample_queue [simp]: "entries (sample_queue xs q) = xs"
  by (rule nth_equalityI) (simp_all add: entries_def sample_queue_def del: upt_Suc)

lemma sample_fold:
  assumes "ranked r c" and "max_at_top q = 1 \<or> max_at_top q = - 1"
  shows "fold (sample_first q c) ys x \<in> insert x (set ys)
    \<and> (\<forall>i \<in> insert x (set ys). max_at_top q * r (fold (sample_first q c) ys x) \<le> max_at_top q * r i)"
proof (induction ys arbitrary: x)
  case (Cons y ys)
  have "max_at_top q * r (sample_first q c y x) \<le> max_at_top q * r y" "max_at_top q * r (sample_first q c y x) \<le> max_at_top q * r x"
    "sample_first q c y x \<in> {x, y}"
    using assms by (auto simp: sample_first_def ranked_def)
  then show ?case using Cons.IH [of "sample_first q c y x"] by fastforce
qed simp

lemma sample_arrange_ok:
  assumes "ranked r c" and "max_at_top q = 1 \<or> max_at_top q = - 1"
  shows "mset (entries (sample_arrange q c xs)) = mset xs" "sample_heap r (sample_arrange q c xs)"
    "max_elements (sample_arrange q c xs) = max_elements q" "max_at_top (sample_arrange q c xs) = max_at_top q"
proof -
  show "max_elements (sample_arrange q c xs) = max_elements q" "max_at_top (sample_arrange q c xs) = max_at_top q"
    by (simp_all add: sample_arrange_def sample_queue_def)
  show m: "mset (entries (sample_arrange q c xs)) = mset xs"
    using sample_fold [OF assms, of "tl xs" "hd xs"] by (cases xs) (auto simp: sample_arrange_def Let_def)
  show "sample_heap r (sample_arrange q c xs)"
  proof (cases xs)
    case (Cons x ys)
    let ?b = "fold (sample_first q c) ys x"
    have "root (sample_arrange q c xs) 1 = ?b" by (simp add: sample_arrange_def sample_queue_def Cons Let_def)
    moreover have "set (entries (sample_arrange q c xs)) = set xs" using mset_eq_setD [OF m] .
    ultimately show ?thesis using sample_fold [OF assms, of ys x] assms(2) Cons
      by (simp add: sample_heap_def sample_arrange_def sample_queue_def)
  qed (use assms(2) in \<open>simp add: sample_heap_def sample_arrange_def sample_queue_def entries_def\<close>)
qed

lemma sample_funs_ok: "queue_funs_ok sample_funs sample_heap"
  unfolding queue_funs_ok_def
proof (intro conjI allI impI)
  fix n m q and r :: "nat \<Rightarrow> int"
  assume "init_queue sample_funs n m = (False, q)"
  then have q: "q = \<lparr>root = (\<lambda>_. 0), elements = 0, max_elements = n, max_at_top = (if m then - 1 else 1)\<rparr>"
    by (simp add: sample_funs_def)
  show "elements q = 0" "max_elements q = n" "max_at_top q = (if m then - 1 else 1)" "sample_heap r q"
    by (simp_all add: q sample_heap_def entries_def)
next
  fix r c q i
  assume "sample_heap r q \<and> ranked r c \<and> elements q < max_elements q"
  then show "let q' = queue_insert sample_funs c q i
     in sample_heap r q' \<and> mset (entries q') = add_mset i (mset (entries q)) \<and> max_elements q' = max_elements q
        \<and> max_at_top q' = max_at_top q"
    using sample_arrange_ok [of r c q "entries q @ [i]"] by (simp add: sample_funs_def sample_heap_def)
next
  fix r r' :: "nat \<Rightarrow> int" and c q
  assume "sample_heap r q \<and> ranked r' c \<and> 0 < elements q \<and> distinct (entries q) \<and> (\<forall>i. i \<noteq> root q 1 \<longrightarrow> r' i = r i)"
  then show "let q' = downheap sample_funs c q 1
     in sample_heap r' q' \<and> mset (entries q') = mset (entries q) \<and> max_elements q' = max_elements q
        \<and> max_at_top q' = max_at_top q"
    using sample_arrange_ok [of r' c q "entries q"] by (simp add: sample_funs_def sample_heap_def)
next
  fix r r' :: "nat \<Rightarrow> int" and q
  assume h: "sample_heap r q \<and> (\<forall>i \<in> set (entries q). r' i = r i)"
  then show "sample_heap r' q" using top_in_entries [of q] by (auto simp: sample_heap_def entries_def)
qed (simp add: sample_heap_def)

section \<open>Properties\<close>

text \<open>C14. A queue initialised for \<open>n\<close> elements keeps the best \<open>n\<close> of all elements pushed. It holds all of them as long
  as there are at most \<open>n\<close>. With more it is full, its top is the one extra element, and the other \<open>n\<close> keys rank as the
  \<open>n\<close> smallest pushed (with the maximum at the top) or the \<open>n\<close> largest (with the minimum at the top); every key it
  holds is one that was pushed. Initialisation succeeds only if \<open>n\<close> plus the extra element is below the range of
  an unsigned 32-bit integer.\<close>

theorem bounded_queue_keeps_best:
  fixes rank :: "'k \<Rightarrow> int"
  assumes F: "queue_funs_ok F heap" and i: "bq_init F get_ptr_compare n max_top (Some c) len km keys b = (False, b0)"
    and c: "\<forall>x y. c x y \<le> 0 \<longleftrightarrow> rank x \<le> rank y"
  shows "let b' = push_all F es b0; q = m_queue b'; ks = map km es; r = (\<lambda>k. if max_top then rank k else - rank k)
    in n + 2 < 2 ^ 32
     \<and> image_mset (m_keys b') (mset (entries q)) \<subseteq># mset ks
     \<and> (if length es \<le> n then num_elements b' = length es \<and> image_mset (m_keys b') (mset (entries q)) = mset ks
        else num_elements b' = n + 1 \<and> queue_is_full q
          \<and> image_mset (\<lambda>i. r (m_keys b' i)) (mset (entries q) - {#queue_top q#}) = mset (take n (sort (map r ks))))"
proof -
  note I = bq_init_holds [OF F i c]
  note D = bq_holdsD [OF push_all_holds [OF F I(1), of es, unfolded I(2) append_Nil]]
  let ?b = "push_all F es b0"
  have r: "rank_in rank (m_queue ?b) = (\<lambda>k. if max_top then rank k else - rank k)"
    by (simp add: rank_in_def D(10) fun_eq_iff)
  have "image_mset (m_keys ?b) (mset (entries (m_queue ?b))) = mset (map km es)" if "length es \<le> n"
    using D(6) D(7) that by (metis length_entries length_map size_image_mset size_mset
        subset_mset.le_imp_less_or_eq mset_subset_size less_irrefl)
  then show ?thesis using I(3) D(3,6,7,8) D(9) [unfolded r]
    by (simp add: Let_def num_elements_def queue_is_full_def queue_top_def)
qed

definition sample_bq :: "(int, int) Bounded_queue" where
  "sample_bq = \<lparr>m_keys = (\<lambda>_. 0), m_compare = (\<lambda>x y. x - y), m_keymaker = (\<lambda>x. x),
     m_queue = \<lparr>root = (\<lambda>_. 0), elements = 0, max_elements = 3, max_at_top = - 1\<rparr>\<rparr>"

theorem bounded_queue_keeps_best_witness:
  "let b' = push_all sample_funs [5, 1, 4, 2, 3] sample_bq
   in num_elements b' = 3 \<and> image_mset (m_keys b') (mset (entries (m_queue b')) - {#queue_top (m_queue b')#}) = {#1, 2#}"
proof -
  have i: "bq_init sample_funs (\<lambda>_ x y. x - y) 2 True (Some (\<lambda>x y. x - y)) 8 (\<lambda>x. x) (\<lambda>_. 0) sample_bq = (False, sample_bq)"
    by (simp add: bq_init_def sample_funs_def sample_bq_def UINT_MAX_def)
  show ?thesis using bounded_queue_keeps_best [OF sample_funs_ok i, of "\<lambda>x. x" "[5, 1, 4, 2, 3]"]
    by (simp add: Let_def)
qed

end
