(* ===== verification/Auto_Inc.thy ===== *)
theory Auto_Inc
  imports Prelude
begin

text \<open>
  The intervals of generated auto-increment values of \<^verbatim>\<open>structs.h\<close>: \<^verbatim>\<open>Discrete_interval\<close> with its 64-bit arithmetic,
  and the list of intervals that a statement consumes one after the other. The objects of the list live in a
  store of addresses, with 0 as the null pointer; a deleted object is recorded. The two functions that append to a
  list have their code elsewhere and are not modelled.
\<close>

section \<open>Discrete\_interval\<close>

definition ULONGLONG_MAX :: ulonglong where
  "ULONGLONG_MAX = - 1"

record Discrete_interval =
  interval_min :: ulonglong
  interval_values :: ulonglong
  interval_max :: ulonglong

definition di_replace :: "ulonglong \<Rightarrow> ulonglong \<Rightarrow> ulonglong \<Rightarrow> Discrete_interval" where
  "di_replace start val incr =
     \<lparr>interval_min = start, interval_values = val,
      interval_max = (if val = ULONGLONG_MAX then val else start + val * incr)\<rparr>"

definition di_default :: Discrete_interval where
  "di_default = di_replace 0 0 0"

text \<open>The flag is false when the interval was extended.\<close>

definition merge_if_contiguous :: "ulonglong \<Rightarrow> ulonglong \<Rightarrow> ulonglong \<Rightarrow> Discrete_interval \<Rightarrow> bool \<times> Discrete_interval" where
  "merge_if_contiguous start val incr d =
     (if interval_max d = start
      then (False, if val = ULONGLONG_MAX then d\<lparr>interval_values := val, interval_max := val\<rparr>
                   else d\<lparr>interval_values := interval_values d + val, interval_max := start + val * incr\<rparr>)
      else (True, d))"

section \<open>Discrete\_intervals\_list\<close>

record di_store =
  interval_at :: "addr \<Rightarrow> Discrete_interval"
  next_in_list :: "addr \<Rightarrow> addr"
  deleted :: "addr list"

record Discrete_intervals_list =
  di_head :: addr
  di_tail :: addr
  di_current :: addr
  di_elements :: uint32

definition set_members :: "addr \<Rightarrow> addr \<Rightarrow> addr \<Rightarrow> uint32 \<Rightarrow> Discrete_intervals_list \<Rightarrow> Discrete_intervals_list" where
  "set_members h t c el l = l\<lparr>di_head := h, di_tail := t, di_current := c, di_elements := el\<rparr>"

definition empty_no_free :: "Discrete_intervals_list \<Rightarrow> Discrete_intervals_list" where
  "empty_no_free l = set_members 0 0 0 0 l"

partial_function (option) empty_loop :: "addr \<Rightarrow> di_store \<Rightarrow> di_store option" where
  "empty_loop i st =
     (if i = 0 then Some st
      else let nxt = next_in_list st i in empty_loop nxt (st\<lparr>deleted := i # deleted st\<rparr>))"

definition di_empty :: "di_store \<Rightarrow> Discrete_intervals_list \<Rightarrow> (di_store \<times> Discrete_intervals_list) option" where
  "di_empty st l = (case empty_loop (di_head l) st of None \<Rightarrow> None | Some st \<Rightarrow> Some (st, empty_no_free l))"

definition copy_shallow :: "Discrete_intervals_list \<Rightarrow> Discrete_intervals_list \<Rightarrow> Discrete_intervals_list" where
  "copy_shallow dli l = l\<lparr>di_head := di_head dli, di_tail := di_tail dli, di_current := di_current dli,
     di_elements := di_elements dli\<rparr>"

text \<open>Returns the list itself and the other one.\<close>

definition di_swap :: "Discrete_intervals_list \<Rightarrow> Discrete_intervals_list \<Rightarrow> Discrete_intervals_list \<times> Discrete_intervals_list" where
  "di_swap l dli =
     (let h = di_head dli; t = di_tail dli; c = di_current dli; el = di_elements dli;
          dli = copy_shallow l dli
      in (set_members h t c el l, dli))"

definition get_next :: "di_store \<Rightarrow> Discrete_intervals_list \<Rightarrow> addr \<times> Discrete_intervals_list" where
  "get_next st l =
     (let tmp = di_current l
      in (tmp, if di_current l \<noteq> 0 then l\<lparr>di_current := next_in_list st (di_current l)\<rparr> else l))"

definition di_minimum :: "di_store \<Rightarrow> Discrete_intervals_list \<Rightarrow> ulonglong" where
  "di_minimum st l = (if di_head l \<noteq> 0 then interval_min (interval_at st (di_head l)) else 0)"

definition di_maximum :: "di_store \<Rightarrow> Discrete_intervals_list \<Rightarrow> ulonglong" where
  "di_maximum st l = (if di_head l \<noteq> 0 then interval_max (interval_at st (di_tail l)) else 0)"

section \<open>Values of an interval\<close>

text \<open>The set an interval stands for, according to the comment of the class.\<close>

definition di_values :: "nat \<Rightarrow> Discrete_interval \<Rightarrow> nat set" where
  "di_values incr d = {unat (interval_min d) + k * incr | k. k < unat (interval_values d)}"

lemma di_values_image: "di_values incr d = (\<lambda>k. unat (interval_min d) + k * incr) ` {..<unat (interval_values d)}"
  by (auto simp: di_values_def)

lemma unat_add_mult:
  assumes "unat a + unat n * unat i < 2 ^ 64"
  shows "unat (a + n * i :: ulonglong) = unat a + unat n * unat i"
proof -
  have "unat n * unat i < 2 ^ 64" using assms by simp
  then have "unat (n * i) = unat n * unat i" by (simp add: unat_word_ariths)
  then show ?thesis using assms by (simp add: unat_word_ariths)
qed

lemma arithmetic_union:
  "{a + k * i | k. k < n} \<union> {(a + n * i) + k * i | k. k < m} = {a + k * i | k. k < (n + m :: nat)}"
proof (intro equalityI subsetI)
  fix x
  assume "x \<in> {a + k * i | k. k < n + m}"
  then obtain k where k: "x = a + k * i" "k < n + m" by blast
  show "x \<in> {a + k * i | k. k < n} \<union> {(a + n * i) + k * i | k. k < m}"
  proof (cases "k < n")
    case False
    then have "x = (a + n * i) + (k - n) * i" "k - n < m" using k by (auto simp: algebra_simps diff_mult_distrib)
    then show ?thesis by blast
  qed (use k in blast)
qed (force simp: algebra_simps intro: exI [of _ "n + _"])

lemma di_values_replace: "di_values i (di_replace a n incr) = {unat a + k * i | k. k < unat n}"
  by (simp add: di_values_def di_replace_def)

lemma le_times: "1 \<le> (i :: nat) \<Longrightarrow> n \<le> n * i"
  by (cases i) auto

text \<open>An interval that is followed immediately by another one.\<close>

lemma replace_maximum:
  assumes "unat a + unat n * unat i < 2 ^ 64" and "0 < i"
  shows "interval_max (di_replace a n i) = a + n * i"
proof (cases "n = ULONGLONG_MAX")
  case True
  have i: "1 \<le> unat i" using assms(2) by (simp add: word_less_nat_alt Suc_le_eq)
  then have "unat n \<le> unat a + unat n * unat i" using le_times [OF i, of "unat n"] by linarith
  moreover have n: "unat n = 2 ^ 64 - 1" using True by (simp add: ULONGLONG_MAX_def unsigned_minus_1_eq_mask mask_eq_exp_minus_1)
  ultimately have "unat a + unat n * unat i = unat n" using assms(1) by simp
  then have "a + n * i = n" using unat_add_mult [OF assms(1)] by (simp add: word_unat_eq_iff)
  then show ?thesis using True by (simp add: di_replace_def)
qed (simp add: di_replace_def)

section \<open>The list as a sequence\<close>

fun chain :: "(addr \<Rightarrow> addr) \<Rightarrow> addr \<Rightarrow> addr list \<Rightarrow> bool" where
  "chain nx p [] \<longleftrightarrow> p = 0"
| "chain nx p (x # xs) \<longleftrightarrow> p = x \<and> x \<noteq> 0 \<and> chain nx (nx x) xs"

text \<open>The results of calling \<^verbatim>\<open>get_next\<close> a number of times.\<close>

primrec consume :: "di_store \<Rightarrow> nat \<Rightarrow> Discrete_intervals_list \<Rightarrow> addr list" where
  "consume st 0 l = []"
| "consume st (Suc n) l = (let (i, l) = get_next st l in i # consume st n l)"

lemma empty_loop_chain:
  "chain (next_in_list st) p xs \<Longrightarrow> empty_loop p st = Some (st\<lparr>deleted := rev xs @ deleted st\<rparr>)"
proof (induction xs arbitrary: p st)
  case (Cons x xs)
  then show ?case using Cons.IH [of "st\<lparr>deleted := x # deleted st\<rparr>" "next_in_list st x"]
    by (subst empty_loop.simps) (simp add: Let_def)
qed (simp add: empty_loop.simps)

lemma consume_end: "di_current l = 0 \<Longrightarrow> consume st n l = replicate n 0"
  by (induction n) (simp_all add: get_next_def)

lemma consume_chain:
  "chain (next_in_list st) (di_current l) xs \<Longrightarrow> consume st (length xs + n) l = xs @ replicate n 0"
proof (induction xs arbitrary: l)
  case (Cons x xs)
  then show ?case using Cons.IH [of "l\<lparr>di_current := next_in_list st x\<rparr>"] by (simp add: get_next_def)
qed (simp add: consume_end)

section \<open>Properties\<close>

text \<open>Reserving more auto-increment values: as long as the values of both stretches fit in 64 bits, an interval
  is extended exactly when the new stretch begins at its excluded bound. It then is the interval that starts
  where it did and has as many values as both together, and it stands for the union of their values;
  otherwise it is unchanged.\<close>

theorem interval_merge:
  assumes "0 < incr" and "unat start + (unat n + unat val) * unat incr < 2 ^ 64"
  shows "let d = di_replace start n incr; (fail, d') = merge_if_contiguous s val incr d; i = unat incr
    in (fail \<longleftrightarrow> s \<noteq> start + n * incr)
     \<and> (if fail then d' = d
        else d' = di_replace start (n + val) incr
          \<and> di_values i d' = di_values i d \<union> di_values i (di_replace s val incr))"
proof -
  have i: "1 \<le> unat incr" using assms(1) by (simp add: word_less_nat_alt Suc_le_eq)
  have "unat n + unat val < 2 ^ 64" using le_times [OF i, of "unat n + unat val"] assms(2) by linarith
  then have nv: "unat (n + val) = unat n + unat val" by (simp add: unat_word_ariths)
  have a: "unat start + unat n * unat incr < 2 ^ 64" using assms(2) by (simp add: algebra_simps)
  have b: "unat start + unat (n + val) * unat incr < 2 ^ 64" using assms(2) by (simp only: nv)
  have m: "interval_max (di_replace start n incr) = start + n * incr" by (rule replace_maximum [OF a assms(1)])
  have e: "start + n * incr + val * incr = start + (n + val) * incr" by (simp add: algebra_simps)
  show ?thesis
  proof (cases "s = start + n * incr")
    case True
    have "unat s + unat val * unat incr < 2 ^ 64" using assms(2) True unat_add_mult [OF a] by (simp add: algebra_simps)
    then have "interval_max (di_replace s val incr) = s + val * incr" by (rule replace_maximum [OF _ assms(1)])
    moreover have "interval_max (di_replace start (n + val) incr) = start + (n + val) * incr"
      by (rule replace_maximum [OF b assms(1)])
    moreover have "n + val = ULONGLONG_MAX" if "val = ULONGLONG_MAX"
    proof -
      have "unat val = 2 ^ 64 - 1" using that by (simp add: ULONGLONG_MAX_def unsigned_minus_1_eq_mask mask_eq_exp_minus_1)
      then have "unat n = 0" using nv unat_less [of "n + val"] by simp
      then show ?thesis using that by (simp add: unat_eq_0)
    qed
    ultimately have d': "snd (merge_if_contiguous s val incr (di_replace start n incr)) = di_replace start (n + val) incr"
      using m True e by (auto simp: merge_if_contiguous_def di_replace_def)
    have "di_values (unat incr) (di_replace start (n + val) incr)
        = di_values (unat incr) (di_replace start n incr) \<union> di_values (unat incr) (di_replace s val incr)"
      using arithmetic_union [of "unat start" "unat incr" "unat n" "unat val"] unat_add_mult [OF a]
      by (simp add: di_values_replace nv True)
    then show ?thesis using d' m True by (simp add: merge_if_contiguous_def split_beta)
  next
    case False
    then show ?thesis using m by (simp add: merge_if_contiguous_def)
  qed
qed

theorem interval_merge_witness:
  "let (fail, d') = merge_if_contiguous 11 3 5 (di_replace 1 2 5) in \<not> fail \<and> di_values 5 d' = {1, 6} \<union> {11, 16, 21}"
proof -
  have v: "di_values 5 (di_replace 1 2 5) = {1, 6}" "di_values 5 (di_replace 11 3 5) = {11, 16, 21}"
    by (simp_all add: di_values_image di_replace_def)
      (simp_all add: numeral_2_eq_2 numeral_3_eq_3 lessThan_Suc insert_commute)
  obtain fail d' where m: "merge_if_contiguous 11 3 5 (di_replace 1 2 5) = (fail, d')" by fastforce
  have "\<not> fail \<and> di_values 5 d' = di_values 5 (di_replace 1 2 5) \<union> di_values 5 (di_replace 11 3 5)"
    using interval_merge [of 5 1 2 3 11] unfolding Let_def m by (simp split: if_splits) metis
  then show ?thesis unfolding m v by simp
qed

text \<open>A list of intervals hands them out in order and then returns null for ever; emptying it returns, deletes
  every interval exactly once, each after its link was read, and leaves a list without elements; swapping
  exchanges two lists completely.\<close>

theorem intervals_list:
  assumes "chain (next_in_list st) (di_head l) xs" and "di_current l = di_head l"
  shows "consume st (length xs + n) l = xs @ replicate n 0
    \<and> di_empty st l = Some (st\<lparr>deleted := rev xs @ deleted st\<rparr>, \<lparr>di_head = 0, di_tail = 0, di_current = 0, di_elements = 0\<rparr>)
    \<and> di_swap l m = (m, l)
    \<and> (xs \<noteq> [] \<longrightarrow> di_minimum st l = interval_min (interval_at st (hd xs)))"
  using consume_chain [of st l xs n] empty_loop_chain [OF assms(1)] assms
  by (cases xs) (simp_all add: di_empty_def empty_no_free_def set_members_def di_swap_def copy_shallow_def di_minimum_def Let_def)

definition sample_di_store :: di_store where
  "sample_di_store = \<lparr>interval_at = (\<lambda>i. di_replace (of_nat i) 1 1), next_in_list = (\<lambda>_. 0)(4 := 9), deleted = []\<rparr>"

definition sample_di_list :: Discrete_intervals_list where
  "sample_di_list = \<lparr>di_head = 4, di_tail = 9, di_current = 4, di_elements = 2\<rparr>"

theorem intervals_list_witness:
  "consume sample_di_store 3 sample_di_list = [4, 9, 0]
    \<and> map_option (deleted \<circ> fst) (di_empty sample_di_store sample_di_list) = Some [9, 4]"
proof -
  have "chain (next_in_list sample_di_store) (di_head sample_di_list) [4, 9]" "di_current sample_di_list = di_head sample_di_list"
    "deleted sample_di_store = []"
    by (simp_all add: sample_di_store_def sample_di_list_def)
  then show ?thesis using intervals_list [of sample_di_store sample_di_list "[4, 9]" 1] by (simp add: numeral_3_eq_3)
qed

end
