(* ===== verification/Sql_Error.thy ===== *)
theory Sql_Error
  imports Sql_Plist
begin

text \<open>
  Conditions and the diagnostics area of \<^verbatim>\<open>sql_error.h\<close>: SQL states and their classes, the identity of a condition,
  the warning information of a statement, and the diagnostics area with its stack of warning informations, which is
  an \<^verbatim>\<open>I_P_List\<close>. The functions whose code is elsewhere (pushing and copying conditions, setting the status) are
  left out, except that clearing a warning information is a parameter of the operation that calls it. The list of
  conditions of one warning information is the sequence it holds.
\<close>

section \<open>Sql\_state\<close>

definition SQLSTATE_LENGTH :: nat where
  "SQLSTATE_LENGTH = 5"

record Sql_state =
  m_sqlstate :: "uchar list"

definition Sql_state_default :: Sql_state where
  "Sql_state_default = \<lparr>m_sqlstate = replicate (SQLSTATE_LENGTH + 1) 0\<rparr>"

definition set_sqlstate :: "uchar list \<Rightarrow> Sql_state \<Rightarrow> Sql_state" where
  "set_sqlstate sqlstate s = s\<lparr>m_sqlstate := take SQLSTATE_LENGTH sqlstate @ [0]\<rparr>"

definition sqlstate_eq :: "Sql_state \<Rightarrow> Sql_state \<Rightarrow> bool" where
  "sqlstate_eq s other \<longleftrightarrow> takeWhile (\<lambda>c. c \<noteq> 0) (m_sqlstate s) = takeWhile (\<lambda>c. c \<noteq> 0) (m_sqlstate other)"

definition has_sql_state :: "Sql_state \<Rightarrow> bool" where
  "has_sql_state s \<longleftrightarrow> m_sqlstate s ! 0 \<noteq> 0"

text \<open>The characters 0, 1 and 2. A character is signed.\<close>

definition is_warning :: "Sql_state \<Rightarrow> bool" where
  "is_warning s \<longleftrightarrow> m_sqlstate s ! 0 = 48 \<and> m_sqlstate s ! 1 = 49"

definition is_not_found :: "Sql_state \<Rightarrow> bool" where
  "is_not_found s \<longleftrightarrow> m_sqlstate s ! 0 = 48 \<and> m_sqlstate s ! 1 = 50"

definition is_exception :: "Sql_state \<Rightarrow> bool" where
  "is_exception s \<longleftrightarrow> m_sqlstate s ! 0 \<noteq> 48 \<or> sint (m_sqlstate s ! 1) > 50"

definition is_sqlstate_completion :: "uchar list \<Rightarrow> bool" where
  "is_sqlstate_completion s \<longleftrightarrow> s ! 0 = 48 \<and> s ! 1 = 48"

section \<open>Identity of a condition\<close>

record Sql_state_errno = Sql_state +
  m_sql_errno :: uint32

definition errno_set :: "uint32 \<Rightarrow> uchar list \<Rightarrow> Sql_state_errno \<Rightarrow> Sql_state_errno" where
  "errno_set sql_errno sqlstate s =
     s\<lparr>m_sql_errno := sql_errno, m_sqlstate := take SQLSTATE_LENGTH sqlstate @ [0]\<rparr>"

definition errno_clear :: "Sql_state_errno \<Rightarrow> Sql_state_errno" where
  "errno_clear s = s\<lparr>m_sql_errno := 0\<rparr>"

datatype enum_warning_level = WARN_LEVEL_NOTE | WARN_LEVEL_WARN | WARN_LEVEL_ERROR | WARN_LEVEL_END

record Sql_condition_identity =
  ident_state :: Sql_state_errno
  m_level :: enum_warning_level
  m_user_condition_value :: addr

definition Sql_condition_identity_new :: "Sql_state_errno \<Rightarrow> enum_warning_level \<Rightarrow> addr \<Rightarrow> Sql_condition_identity" where
  "Sql_condition_identity_new st level ucid = \<lparr>ident_state = st, m_level = level, m_user_condition_value = ucid\<rparr>"

definition identity_clear :: "Sql_condition_identity \<Rightarrow> Sql_condition_identity" where
  "identity_clear c =
     c\<lparr>m_level := WARN_LEVEL_ERROR, ident_state := errno_clear (ident_state c), m_user_condition_value := NULL\<rparr>"

text \<open>The bits of \<^verbatim>\<open>my_time.h\<close> that make a temporal conversion a warning.\<close>

definition MYSQL_TIME_WARN_WARNINGS :: uint32 where
  "MYSQL_TIME_WARN_WARNINGS = 1 OR 2 OR 4 OR 8"

definition time_warn_level :: "uint32 \<Rightarrow> enum_warning_level" where
  "time_warn_level warnings = (if warnings AND MYSQL_TIME_WARN_WARNINGS \<noteq> 0 then WARN_LEVEL_WARN else WARN_LEVEL_NOTE)"

section \<open>Warning\_info\<close>

record Warning_info =
  m_warn_list :: "addr list"
  m_warn_count :: "enum_warning_level \<Rightarrow> uint32"
  m_current_statement_warn_count :: uint32
  m_current_row_for_warning :: ulonglong
  m_warn_id :: ulonglong
  m_error_condition :: addr
  m_allow_unlimited_warnings :: bool
  initialized :: bool
  m_read_only :: bool
  m_marked_sql_conditions :: "addr list"

definition opt_clear :: "(ulonglong \<Rightarrow> Warning_info \<Rightarrow> Warning_info) \<Rightarrow> ulonglong \<Rightarrow> Warning_info \<Rightarrow> Warning_info" where
  "opt_clear clear query_id w = (if query_id \<noteq> m_warn_id w then clear query_id w else w)"

definition reset_for_next_command :: "Warning_info \<Rightarrow> Warning_info" where
  "reset_for_next_command w = w\<lparr>m_current_statement_warn_count := 0\<rparr>"

definition unmark_sql_conditions_from_removal :: "Warning_info \<Rightarrow> Warning_info" where
  "unmark_sql_conditions_from_removal w = w\<lparr>m_marked_sql_conditions := []\<rparr>"

definition mark_condition_for_removal :: "addr \<Rightarrow> Warning_info \<Rightarrow> Warning_info" where
  "mark_condition_for_removal cond w = w\<lparr>m_marked_sql_conditions := m_marked_sql_conditions w @ [cond]\<rparr>"

text \<open>The sum is computed on 32 bits and then widened.\<close>

definition warn_count :: "Warning_info \<Rightarrow> ulonglong" where
  "warn_count w = ucast (m_warn_count w WARN_LEVEL_NOTE + m_warn_count w WARN_LEVEL_ERROR + m_warn_count w WARN_LEVEL_WARN)"

definition error_count :: "Warning_info \<Rightarrow> ulonglong" where
  "error_count w = ucast (m_warn_count w WARN_LEVEL_ERROR)"

definition cond_count :: "Warning_info \<Rightarrow> uint32" where
  "cond_count w = of_nat (length (m_warn_list w))"

definition set_id :: "ulonglong \<Rightarrow> Warning_info \<Rightarrow> Warning_info" where
  "set_id id_arg w = w\<lparr>m_warn_id := id_arg\<rparr>"

definition wi_is_empty :: "Warning_info \<Rightarrow> bool" where
  "wi_is_empty w \<longleftrightarrow> m_warn_list w = []"

definition inc_current_row_for_warning :: "Warning_info \<Rightarrow> Warning_info" where
  "inc_current_row_for_warning w = w\<lparr>m_current_row_for_warning := m_current_row_for_warning w + 1\<rparr>"

text \<open>The argument is a signed integer.\<close>

definition reset_current_row_for_warning :: "uint32 \<Rightarrow> Warning_info \<Rightarrow> Warning_info" where
  "reset_current_row_for_warning n w = w\<lparr>m_current_row_for_warning := scast n\<rparr>"

definition set_read_only :: "bool \<Rightarrow> Warning_info \<Rightarrow> Warning_info" where
  "set_read_only read_only_arg w = w\<lparr>m_read_only := read_only_arg\<rparr>"

definition set_error_condition :: "addr \<Rightarrow> Warning_info \<Rightarrow> Warning_info" where
  "set_error_condition error_condition w = w\<lparr>m_error_condition := error_condition\<rparr>"

definition clear_error_condition :: "Warning_info \<Rightarrow> Warning_info" where
  "clear_error_condition w = w\<lparr>m_error_condition := NULL\<rparr>"

section \<open>Diagnostics\_area\<close>

datatype enum_diagnostics_status = DA_EMPTY | DA_OK | DA_EOF | DA_OK_BULK | DA_EOF_BULK | DA_ERROR | DA_DISABLED

text \<open>The area with the warning informations by address and the links of its stack.\<close>

record Diagnostics_area =
  da_state :: Sql_state_errno
  da_user_condition :: addr
  m_is_sent :: bool
  m_can_overwrite_status :: bool
  m_message :: "uchar list"
  m_affected_rows :: ulonglong
  m_last_insert_id :: ulonglong
  m_statement_warn_count :: uint32
  m_status :: enum_diagnostics_status
  is_bulk_execution :: bool
  wi_at :: "addr \<Rightarrow> Warning_info"
  wi_links :: plinks
  m_wi_stack :: addr

definition set_overwrite_status :: "bool \<Rightarrow> Diagnostics_area \<Rightarrow> Diagnostics_area" where
  "set_overwrite_status can_overwrite_status da = da\<lparr>m_can_overwrite_status := can_overwrite_status\<rparr>"

definition set_is_sent :: "bool \<Rightarrow> Diagnostics_area \<Rightarrow> Diagnostics_area" where
  "set_is_sent is_sent_arg da = da\<lparr>m_is_sent := is_sent_arg\<rparr>"

definition is_set :: "Diagnostics_area \<Rightarrow> bool" where
  "is_set da \<longleftrightarrow> m_status da \<noteq> DA_EMPTY"

definition is_error :: "Diagnostics_area \<Rightarrow> bool" where
  "is_error da \<longleftrightarrow> m_status da = DA_ERROR"

definition is_eof :: "Diagnostics_area \<Rightarrow> bool" where
  "is_eof da \<longleftrightarrow> m_status da = DA_EOF"

definition is_ok :: "Diagnostics_area \<Rightarrow> bool" where
  "is_ok da \<longleftrightarrow> m_status da = DA_OK"

definition is_disabled :: "Diagnostics_area \<Rightarrow> bool" where
  "is_disabled da \<longleftrightarrow> m_status da = DA_DISABLED"

definition set_bulk_execution :: "bool \<Rightarrow> Diagnostics_area \<Rightarrow> Diagnostics_area" where
  "set_bulk_execution bulk da = da\<lparr>is_bulk_execution := bulk\<rparr>"

text \<open>The accessors that are allowed in some states only; elsewhere their assertion fails.\<close>

definition da_message :: "Diagnostics_area \<Rightarrow> uchar list option" where
  "da_message da = (if m_status da \<in> {DA_ERROR, DA_OK, DA_OK_BULK, DA_EOF_BULK} then Some (m_message da) else None)"

definition sql_errno :: "Diagnostics_area \<Rightarrow> uint32 option" where
  "sql_errno da = (if m_status da = DA_ERROR then Some (m_sql_errno (da_state da)) else None)"

definition get_sqlstate :: "Diagnostics_area \<Rightarrow> uchar list option" where
  "get_sqlstate da = (if m_status da = DA_ERROR then Some (m_sqlstate (da_state da)) else None)"

definition affected_rows :: "Diagnostics_area \<Rightarrow> ulonglong option" where
  "affected_rows da = (if m_status da \<in> {DA_OK, DA_OK_BULK} then Some (m_affected_rows da) else None)"

definition last_insert_id :: "Diagnostics_area \<Rightarrow> ulonglong option" where
  "last_insert_id da = (if m_status da \<in> {DA_OK, DA_OK_BULK} then Some (m_last_insert_id da) else None)"

definition statement_warn_count :: "Diagnostics_area \<Rightarrow> uint32 option" where
  "statement_warn_count da =
     (if m_status da \<in> {DA_OK, DA_OK_BULK, DA_EOF, DA_EOF_BULK} then Some (m_statement_warn_count da) else None)"

definition get_error_condition_identity :: "Diagnostics_area \<Rightarrow> Sql_condition_identity option" where
  "get_error_condition_identity da =
     (if m_status da = DA_ERROR
      then Some (Sql_condition_identity_new (da_state da) WARN_LEVEL_ERROR (da_user_condition da)) else None)"

definition increment_warning :: "Diagnostics_area \<Rightarrow> Diagnostics_area" where
  "increment_warning da =
     (if m_status da \<noteq> DA_EMPTY then da\<lparr>m_statement_warn_count := m_statement_warn_count da + 1\<rparr> else da)"

definition push_warning_info :: "addr \<Rightarrow> Diagnostics_area \<Rightarrow> Diagnostics_area" where
  "push_warning_info w da =
     da\<lparr>wi_links := push_front I_P_List_counter I_P_List_fast_push_back (wi_links da) (m_wi_stack da) w\<rparr>"

definition pop_warning_info :: "Diagnostics_area \<Rightarrow> Diagnostics_area" where
  "pop_warning_info da =
     da\<lparr>wi_links := remove I_P_List_counter I_P_List_fast_push_back (wi_links da) (m_wi_stack da)
        (front_p (wi_links da) (m_wi_stack da))\<rparr>"

definition get_warning_info :: "Diagnostics_area \<Rightarrow> addr" where
  "get_warning_info da = front_p (wi_links da) (m_wi_stack da)"

text \<open>The operations that the area passes on to the current warning information.\<close>

definition current_wi :: "Diagnostics_area \<Rightarrow> Warning_info" where
  "current_wi da = wi_at da (get_warning_info da)"

definition upd_current_wi :: "(Warning_info \<Rightarrow> Warning_info) \<Rightarrow> Diagnostics_area \<Rightarrow> Diagnostics_area" where
  "upd_current_wi f da = da\<lparr>wi_at := (wi_at da)(get_warning_info da := f (current_wi da))\<rparr>"

definition set_warning_info_id :: "ulonglong \<Rightarrow> Diagnostics_area \<Rightarrow> Diagnostics_area" where
  "set_warning_info_id i = upd_current_wi (set_id i)"

definition warning_info_id :: "Diagnostics_area \<Rightarrow> ulonglong" where
  "warning_info_id da = m_warn_id (current_wi da)"

definition warning_info_changed :: "Warning_info \<Rightarrow> Diagnostics_area \<Rightarrow> bool" where
  "warning_info_changed w da \<longleftrightarrow> m_warn_id (current_wi da) \<noteq> m_warn_id w"

definition is_warning_info_empty :: "Diagnostics_area \<Rightarrow> bool" where
  "is_warning_info_empty da \<longleftrightarrow> wi_is_empty (current_wi da)"

definition current_statement_warn_count :: "Diagnostics_area \<Rightarrow> ulonglong" where
  "current_statement_warn_count da = ucast (m_current_statement_warn_count (current_wi da))"

definition da_reset_for_next_command :: "Diagnostics_area \<Rightarrow> Diagnostics_area" where
  "da_reset_for_next_command = upd_current_wi reset_for_next_command"

definition clear_warning_info :: "(ulonglong \<Rightarrow> Warning_info \<Rightarrow> Warning_info) \<Rightarrow> ulonglong \<Rightarrow> Diagnostics_area \<Rightarrow> Diagnostics_area" where
  "clear_warning_info clear i = upd_current_wi (clear i)"

definition opt_clear_warning_info :: "(ulonglong \<Rightarrow> Warning_info \<Rightarrow> Warning_info) \<Rightarrow> ulonglong \<Rightarrow> Diagnostics_area \<Rightarrow> Diagnostics_area" where
  "opt_clear_warning_info clear query_id = upd_current_wi (opt_clear clear query_id)"

definition da_inc_current_row_for_warning :: "Diagnostics_area \<Rightarrow> Diagnostics_area" where
  "da_inc_current_row_for_warning = upd_current_wi inc_current_row_for_warning"

definition da_reset_current_row_for_warning :: "uint32 \<Rightarrow> Diagnostics_area \<Rightarrow> Diagnostics_area" where
  "da_reset_current_row_for_warning n = upd_current_wi (reset_current_row_for_warning n)"

definition is_warning_info_read_only :: "Diagnostics_area \<Rightarrow> bool" where
  "is_warning_info_read_only da \<longleftrightarrow> m_read_only (current_wi da)"

definition set_warning_info_read_only :: "bool \<Rightarrow> Diagnostics_area \<Rightarrow> Diagnostics_area" where
  "set_warning_info_read_only b = upd_current_wi (set_read_only b)"

definition da_unmark_sql_conditions_from_removal :: "Diagnostics_area \<Rightarrow> Diagnostics_area" where
  "da_unmark_sql_conditions_from_removal = upd_current_wi unmark_sql_conditions_from_removal"

definition get_error_condition :: "Diagnostics_area \<Rightarrow> addr" where
  "get_error_condition da = m_error_condition (current_wi da)"

section \<open>Classes of SQL states\<close>

text \<open>A valid SQL state: five digits or capital letters.\<close>

definition valid_sqlstate :: "uchar list \<Rightarrow> bool" where
  "valid_sqlstate s \<longleftrightarrow> length s = SQLSTATE_LENGTH \<and> (\<forall>c \<in> set s. 48 \<le> unat c \<and> unat c \<le> 57 \<or> 65 \<le> unat c \<and> unat c \<le> 90)"

lemma sint_small:
  assumes "uint (c :: uchar) < 128"
  shows "sint c = uint c"
proof -
  have "- (2 ^ 7) \<le> uint c" by (rule order_trans [of _ 0]) simp_all
  moreover have "uint c < 2 ^ 7" using assms by simp
  ultimately have "signed_take_bit 7 (uint c) = uint c" by (rule signed_take_bit_int_eq_self)
  then show ?thesis by (simp add: sint_uint)
qed

lemma valid_sqlstate_chars:
  assumes "valid_sqlstate s" and "i < 5"
  shows "48 \<le> unat (s ! i)" "unat (s ! i) \<le> 90"
proof -
  have "s ! i \<in> set s" using assms by (simp add: valid_sqlstate_def SQLSTATE_LENGTH_def)
  then show "48 \<le> unat (s ! i)" "unat (s ! i) \<le> 90" using assms(1) unfolding valid_sqlstate_def by fastforce+
qed

section \<open>The stack of warning informations\<close>

abbreviation "wi_holds da \<equiv> p_holds I_P_List_counter I_P_List_fast_push_back (wi_links da) (m_wi_stack da)"

lemma get_warning_info_front: "wi_holds da (w # ws) \<Longrightarrow> get_warning_info da = w"
  by (simp add: get_warning_info_def front_p_def p_holds_def)

lemma upd_current_wi_frame:
  "wi_links (upd_current_wi f da) = wi_links da" "m_wi_stack (upd_current_wi f da) = m_wi_stack da"
  "m_status (upd_current_wi f da) = m_status da" "da_state (upd_current_wi f da) = da_state da"
  "get_warning_info (upd_current_wi f da) = get_warning_info da"
  "x \<noteq> get_warning_info da \<Longrightarrow> wi_at (upd_current_wi f da) x = wi_at da x"
  "wi_at (upd_current_wi f da) (get_warning_info da) = f (wi_at da (get_warning_info da))"
  by (simp_all add: upd_current_wi_def get_warning_info_def current_wi_def)

lemma fold_upd_frame:
  "wi_links (fold upd_current_wi fs da) = wi_links da \<and> m_wi_stack (fold upd_current_wi fs da) = m_wi_stack da
   \<and> m_status (fold upd_current_wi fs da) = m_status da \<and> da_state (fold upd_current_wi fs da) = da_state da
   \<and> (\<forall>x. x \<noteq> get_warning_info da \<longrightarrow> wi_at (fold upd_current_wi fs da) x = wi_at da x)
   \<and> wi_at (fold upd_current_wi fs da) (get_warning_info da) = fold (\<lambda>f. f) fs (wi_at da (get_warning_info da))"
proof (induction fs arbitrary: da)
  case (Cons f fs)
  show ?case using Cons.IH [of "upd_current_wi f da"] unfolding upd_current_wi_frame(1-5) by (simp add: upd_current_wi_frame)
qed simp

lemma wi_holds_push: "wi_holds da ws \<Longrightarrow> w \<notin> set (m_wi_stack da # ws) \<Longrightarrow> w \<noteq> NULL \<Longrightarrow> wi_holds (push_warning_info w da) (w # ws)"
  by (simp add: push_warning_info_def p_holds_push_front)

lemma wi_holds_pop: "wi_holds da (w # ws) \<Longrightarrow> wi_holds (pop_warning_info da) ws"
  using p_holds_remove [of I_P_List_counter I_P_List_fast_push_back "wi_links da" "m_wi_stack da" "[]" w ws]
    get_warning_info_front [of da w ws]
  by (simp add: pop_warning_info_def get_warning_info_def)

section \<open>Properties\<close>

text \<open>Every valid SQL state belongs to exactly one of the four classes successful completion, warning, not found
  and exception; setting a state stores its five characters with a terminating zero, and two states are equal
  exactly when their five characters are.\<close>

theorem sqlstate_classes:
  assumes "valid_sqlstate s" and "valid_sqlstate t"
  shows "let st = set_sqlstate s x; classes = [is_sqlstate_completion s, is_warning st, is_not_found st, is_exception st]
    in length (filter (\<lambda>c. c) classes) = 1 \<and> has_sql_state st \<and> m_sqlstate st = s @ [0]
     \<and> (sqlstate_eq st (set_sqlstate t y) \<longleftrightarrow> s = t)"
proof -
  have len: "length s = 5" "length t = 5" using assms by (simp_all add: valid_sqlstate_def SQLSTATE_LENGTH_def)
  have m: "m_sqlstate (set_sqlstate s x) = s @ [0]" "m_sqlstate (set_sqlstate t y) = t @ [0]"
    using len by (simp_all add: set_sqlstate_def SQLSTATE_LENGTH_def)
  have nz: "c \<noteq> 0" if "c \<in> set s \<union> set t" for c using that assms by (auto simp: valid_sqlstate_def)
  then have tw: "takeWhile (\<lambda>c. c \<noteq> 0) (s @ [0]) = s" "takeWhile (\<lambda>c. c \<noteq> 0) (t @ [0]) = t"
    by (simp_all add: takeWhile_append)
  have "int 48 \<le> int (unat (s ! 1))" "int (unat (s ! 1)) < int 128"
    using valid_sqlstate_chars [OF assms(1), of 1] by (simp_all only: of_nat_le_iff of_nat_less_iff) simp_all
  then have "48 \<le> uint (s ! 1)" "uint (s ! 1) < 128" by simp_all
  then have "sint (s ! 1) > 50 \<longleftrightarrow> s ! 1 \<noteq> 48 \<and> s ! 1 \<noteq> 49 \<and> s ! 1 \<noteq> 50"
    by (simp add: sint_small word_uint_eq_iff) arith
  moreover have "s ! 0 \<noteq> 0" using nz len by simp
  ultimately show ?thesis using len m tw
    by (auto simp: Let_def is_sqlstate_completion_def is_warning_def is_not_found_def is_exception_def has_sql_state_def
        sqlstate_eq_def nth_append)
qed

text \<open>The state 02000, and 42S02.\<close>

theorem sqlstate_classes_witness:
  "let st = set_sqlstate [48, 50, 48, 48, 48] \<lparr>m_sqlstate = []\<rparr>
   in is_not_found st \<and> \<not> is_exception st \<and> \<not> is_warning st
    \<and> \<not> sqlstate_eq st (set_sqlstate [52, 50, 83, 48, 50] \<lparr>m_sqlstate = []\<rparr>)"
proof -
  have "valid_sqlstate [48, 50, 48, 48, 48]" "valid_sqlstate [52, 50, 83, 48, 50]"
    by (simp_all add: valid_sqlstate_def SQLSTATE_LENGTH_def)
  note c = sqlstate_classes [OF this, of "\<lparr>m_sqlstate = []\<rparr>" "\<lparr>m_sqlstate = []\<rparr>"]
  have "is_not_found (set_sqlstate [48, 50, 48, 48, 48] \<lparr>m_sqlstate = []\<rparr>)"
    by (simp add: is_not_found_def set_sqlstate_def SQLSTATE_LENGTH_def)
  then show ?thesis using c by (auto simp: Let_def split: if_splits)
qed

text \<open>The warning informations of a diagnostics area form a stack: after pushing a new one every operation of the
  area works on it, whatever they are, and popping it makes the previous one current again, with no information but
  the new one changed and the status of the area untouched.\<close>

theorem diagnostics_stack:
  assumes "wi_holds da (w # ws)" and "new \<notin> set (m_wi_stack da # w # ws)" and "new \<noteq> NULL"
  shows "let da1 = push_warning_info new da; da2 = fold upd_current_wi fs da1; da3 = pop_warning_info da2
    in get_warning_info da = w \<and> get_warning_info da1 = new \<and> get_warning_info da2 = new \<and> get_warning_info da3 = w
     \<and> wi_holds da3 (w # ws)
     \<and> wi_at da3 new = fold (\<lambda>f. f) fs (wi_at da new) \<and> (\<forall>x. x \<noteq> new \<longrightarrow> wi_at da3 x = wi_at da x)
     \<and> m_status da3 = m_status da \<and> da_state da3 = da_state da"
proof -
  let ?da1 = "push_warning_info new da"
  let ?da2 = "fold upd_current_wi fs ?da1"
  have h1: "wi_holds ?da1 (new # w # ws)" by (rule wi_holds_push [OF assms])
  have g1: "get_warning_info ?da1 = new" by (rule get_warning_info_front [OF h1])
  note fr = fold_upd_frame [of fs ?da1, unfolded g1]
  have h2: "wi_holds ?da2 (new # w # ws)" using h1 fr by simp
  have h3: "wi_holds (pop_warning_info ?da2) (w # ws)" by (rule wi_holds_pop [OF h2])
  show ?thesis unfolding Let_def
    using get_warning_info_front [OF assms(1)] g1 get_warning_info_front [OF h2] get_warning_info_front [OF h3] h3 fr
    by (simp add: push_warning_info_def pop_warning_info_def)
qed

definition sample_wi :: Warning_info where
  "sample_wi = \<lparr>m_warn_list = [], m_warn_count = (\<lambda>_. 0), m_current_statement_warn_count = 0, m_current_row_for_warning = 1,
     m_warn_id = 7, m_error_condition = NULL, m_allow_unlimited_warnings = False, initialized = True, m_read_only = False,
     m_marked_sql_conditions = []\<rparr>"

definition sample_da :: Diagnostics_area where
  "sample_da = \<lparr>da_state = \<lparr>m_sqlstate = replicate 6 0, m_sql_errno = 0\<rparr>, da_user_condition = NULL, m_is_sent = False,
     m_can_overwrite_status = False, m_message = [], m_affected_rows = 0, m_last_insert_id = 0, m_statement_warn_count = 0,
     m_status = DA_OK, is_bulk_execution = False, wi_at = (\<lambda>_. sample_wi),
     wi_links = push_front I_P_List_counter I_P_List_fast_push_back p_blank 5 20, m_wi_stack = 5\<rparr>"

theorem diagnostics_stack_witness:
  "let da3 = pop_warning_info (fold upd_current_wi [set_id 8, inc_current_row_for_warning] (push_warning_info 21 sample_da))
   in get_warning_info da3 = 20 \<and> m_warn_id (wi_at da3 20) = 7 \<and> m_warn_id (wi_at da3 21) = 8"
proof -
  have "wi_holds sample_da [20]" using p_holds_push_front [OF p_blank_holds, of 20 5] by (simp add: sample_da_def NULL_def)
  from diagnostics_stack [OF this, of 21 "[set_id 8, inc_current_row_for_warning]"] show ?thesis
    by (simp add: Let_def NULL_def sample_da_def sample_wi_def set_id_def inc_current_row_for_warning_def)
qed

text \<open>Clearing a warning information at most once per query: if clearing records the query, the first optional
  clearing in a query clears the information left from an earlier one, and any further one in the same query keeps
  the conditions that were added since.\<close>

theorem opt_clear_once:
  assumes "\<forall>i w. m_warn_id (clear i w) = i" and "m_warn_id w \<noteq> q" and "m_warn_id w' = m_warn_id (opt_clear clear q w)"
  shows "opt_clear clear q w = clear q w \<and> opt_clear clear q w' = w'"
  using assms by (simp add: opt_clear_def)

theorem opt_clear_once_witness:
  "let clear = (\<lambda>i w. sample_wi\<lparr>m_warn_id := i\<rparr>); w = opt_clear clear 8 (sample_wi\<lparr>m_warn_list := [3]\<rparr>)
   in w = clear 8 w \<and> opt_clear clear 8 (w\<lparr>m_warn_list := [4]\<rparr>) = w\<lparr>m_warn_list := [4]\<rparr>"
  using opt_clear_once [of "\<lambda>i w. sample_wi\<lparr>m_warn_id := i\<rparr>" "sample_wi\<lparr>m_warn_list := [3]\<rparr>" 8 "sample_wi\<lparr>m_warn_id := 8, m_warn_list := [4]\<rparr>"]
  by (simp add: Let_def sample_wi_def opt_clear_def)

end
