(* ===== verification/Date_Mode.thy ===== *)
theory Date_Mode
  imports Prelude
begin

text \<open>
  The conversion modes of \<^verbatim>\<open>sql_basic_types.h\<close>, with which temporal values are fetched: the flags for the conversion,
  the mode for rounding fractional seconds, and the mixture of both. The three classes are different types, as in the
  source; their enumerations are stored in 32 bits, and constructors and conversions go through 64-bit integers.
\<close>

section \<open>date\_conv\_mode\_t\<close>

datatype date_conv_mode_t = Date_conv_mode (conv_m_mode: uint32)

definition CONV_NONE :: uint32 where
  "CONV_NONE = 0"

definition FUZZY_DATES :: uint32 where
  "FUZZY_DATES = 1"

definition TIME_ONLY :: uint32 where
  "TIME_ONLY = 4"

definition INTERVAL_hhmmssff :: uint32 where
  "INTERVAL_hhmmssff = 8"

definition INTERVAL_DAY :: uint32 where
  "INTERVAL_DAY = 16"

definition RANGE0_LAST :: uint32 where
  "RANGE0_LAST = INTERVAL_DAY"

definition NO_ZERO_IN_DATE :: uint32 where
  "NO_ZERO_IN_DATE = push_bit 23 1"

definition NO_ZERO_DATE :: uint32 where
  "NO_ZERO_DATE = push_bit 24 1"

definition INVALID_DATES :: uint32 where
  "INVALID_DATES = push_bit 25 1"

definition CONV_KNOWN_MODES :: uint32 where
  "CONV_KNOWN_MODES = FUZZY_DATES OR TIME_ONLY OR INTERVAL_hhmmssff OR INTERVAL_DAY OR NO_ZERO_IN_DATE OR NO_ZERO_DATE
     OR INVALID_DATES"

definition mk_date_conv_mode_t :: "ulonglong \<Rightarrow> date_conv_mode_t" where
  "mk_date_conv_mode_t fuzzydate = Date_conv_mode (ucast fuzzydate)"

definition conv_ulonglong :: "date_conv_mode_t \<Rightarrow> ulonglong" where
  "conv_ulonglong a = ucast (conv_m_mode a)"

definition conv_bool :: "date_conv_mode_t \<Rightarrow> bool" where
  "conv_bool a \<longleftrightarrow> conv_m_mode a \<noteq> 0"

text \<open>The complement is taken on 32 bits and then widened.\<close>

definition conv_not :: "date_conv_mode_t \<Rightarrow> ulonglong" where
  "conv_not a = ucast (NOT (conv_m_mode a))"

definition conv_and :: "date_conv_mode_t \<Rightarrow> date_conv_mode_t \<Rightarrow> date_conv_mode_t" where
  "conv_and a other = mk_date_conv_mode_t (ucast (conv_m_mode a AND conv_m_mode other))"

definition conv_and_ulonglong :: "date_conv_mode_t \<Rightarrow> ulonglong \<Rightarrow> date_conv_mode_t" where
  "conv_and_ulonglong a other = mk_date_conv_mode_t (ucast (conv_m_mode a) AND other)"

definition conv_or :: "date_conv_mode_t \<Rightarrow> date_conv_mode_t \<Rightarrow> date_conv_mode_t" where
  "conv_or a other = mk_date_conv_mode_t (ucast (conv_m_mode a OR conv_m_mode other))"

section \<open>time\_round\_mode\_t\<close>

datatype time_round_mode_t = Time_round_mode (round_m_mode: uint32)

definition FRAC_NONE :: uint32 where
  "FRAC_NONE = 0"

definition FRAC_TRUNCATE :: uint32 where
  "FRAC_TRUNCATE = push_bit 1 RANGE0_LAST"

definition FRAC_ROUND :: uint32 where
  "FRAC_ROUND = push_bit 2 RANGE0_LAST"

definition ROUND_KNOWN_MODES :: uint32 where
  "ROUND_KNOWN_MODES = FRAC_TRUNCATE OR FRAC_ROUND"

text \<open>The constructor with its assertion: no value where it fails.\<close>

definition mk_time_round_mode_t :: "ulonglong \<Rightarrow> time_round_mode_t option" where
  "mk_time_round_mode_t mode =
     (if mode \<in> {ucast FRAC_NONE, ucast FRAC_TRUNCATE, ucast FRAC_ROUND} then Some (Time_round_mode (ucast mode)) else None)"

definition round_ulonglong :: "time_round_mode_t \<Rightarrow> ulonglong" where
  "round_ulonglong a = ucast (round_m_mode a)"

definition round_eq :: "time_round_mode_t \<Rightarrow> time_round_mode_t \<Rightarrow> bool" where
  "round_eq a other \<longleftrightarrow> round_m_mode a = round_m_mode other"

section \<open>date\_mode\_t\<close>

datatype date_mode_t = Date_mode (date_m_mode: uint32)

definition mk_date_mode_t :: "ulonglong \<Rightarrow> date_mode_t" where
  "mk_date_mode_t fuzzydate = Date_mode (ucast fuzzydate)"

definition mode_ulonglong :: "date_mode_t \<Rightarrow> ulonglong" where
  "mode_ulonglong a = ucast (date_m_mode a)"

definition mode_bool :: "date_mode_t \<Rightarrow> bool" where
  "mode_bool a \<longleftrightarrow> date_m_mode a \<noteq> 0"

definition mode_to_conv :: "date_mode_t \<Rightarrow> date_conv_mode_t" where
  "mode_to_conv a = mk_date_conv_mode_t (ucast (date_m_mode a) AND ucast CONV_KNOWN_MODES)"

definition mode_to_round :: "date_mode_t \<Rightarrow> time_round_mode_t option" where
  "mode_to_round a = mk_time_round_mode_t (ucast (date_m_mode a) AND ucast ROUND_KNOWN_MODES)"

definition mode_not :: "date_mode_t \<Rightarrow> ulonglong" where
  "mode_not a = ucast (NOT (date_m_mode a))"

definition mode_is_zero :: "date_mode_t \<Rightarrow> bool" where
  "mode_is_zero a \<longleftrightarrow> date_m_mode a = 0"

definition mode_and :: "date_mode_t \<Rightarrow> date_mode_t \<Rightarrow> date_mode_t" where
  "mode_and a other = mk_date_mode_t (ucast (date_m_mode a AND date_m_mode other))"

definition mode_and_ulonglong :: "date_mode_t \<Rightarrow> ulonglong \<Rightarrow> date_mode_t" where
  "mode_and_ulonglong a other = mk_date_mode_t (ucast (date_m_mode a) AND other)"

definition mode_or :: "date_mode_t \<Rightarrow> date_mode_t \<Rightarrow> date_mode_t" where
  "mode_or a other = mk_date_mode_t (ucast (date_m_mode a OR date_m_mode other))"

definition mode_or_assign_conv :: "date_mode_t \<Rightarrow> date_conv_mode_t \<Rightarrow> date_mode_t" where
  "mode_or_assign_conv a other = Date_mode (ucast (ucast (date_m_mode a) OR conv_ulonglong other))"

section \<open>Mixtures\<close>

definition mode_or_conv :: "date_mode_t \<Rightarrow> date_conv_mode_t \<Rightarrow> date_mode_t" where
  "mode_or_conv a b = mk_date_mode_t (mode_ulonglong a OR conv_ulonglong b)"

definition conv_or_round :: "date_conv_mode_t \<Rightarrow> time_round_mode_t \<Rightarrow> date_mode_t" where
  "conv_or_round a b = mk_date_mode_t (conv_ulonglong a OR round_ulonglong b)"

definition conv_or_mode :: "date_conv_mode_t \<Rightarrow> date_mode_t \<Rightarrow> date_mode_t" where
  "conv_or_mode a b = mk_date_mode_t (conv_ulonglong a OR mode_ulonglong b)"

definition mode_and_conv :: "date_mode_t \<Rightarrow> date_conv_mode_t \<Rightarrow> date_conv_mode_t" where
  "mode_and_conv a b = mk_date_conv_mode_t (mode_ulonglong a AND conv_ulonglong b)"

definition conv_and_mode :: "date_conv_mode_t \<Rightarrow> date_mode_t \<Rightarrow> date_conv_mode_t" where
  "conv_and_mode a b = mk_date_conv_mode_t (conv_ulonglong a AND mode_ulonglong b)"

definition sql_mode_and_conv :: "ulonglong \<Rightarrow> date_conv_mode_t \<Rightarrow> date_conv_mode_t" where
  "sql_mode_and_conv a b = mk_date_conv_mode_t (a AND conv_ulonglong b)"

definition TIME_NO_ZEROS :: date_conv_mode_t where
  "TIME_NO_ZEROS = mk_date_conv_mode_t (ucast (NO_ZERO_DATE OR NO_ZERO_IN_DATE))"

definition TIME_MODE_FOR_XXX_TO_DATE :: date_conv_mode_t where
  "TIME_MODE_FOR_XXX_TO_DATE = mk_date_conv_mode_t (ucast (NO_ZERO_IN_DATE OR NO_ZERO_DATE OR INVALID_DATES))"

definition time_round_modes :: "time_round_mode_t option list" where
  "time_round_modes = [mk_time_round_mode_t (ucast FRAC_NONE), mk_time_round_mode_t (ucast FRAC_TRUNCATE),
     mk_time_round_mode_t (ucast FRAC_ROUND)]"

section \<open>Flags as words\<close>

lemmas flag_defs = CONV_NONE_def FUZZY_DATES_def TIME_ONLY_def INTERVAL_hhmmssff_def INTERVAL_DAY_def RANGE0_LAST_def
  NO_ZERO_IN_DATE_def NO_ZERO_DATE_def INVALID_DATES_def CONV_KNOWN_MODES_def FRAC_NONE_def FRAC_TRUNCATE_def FRAC_ROUND_def
  ROUND_KNOWN_MODES_def

lemma ucast_ucast_32 [simp]: "(ucast (ucast (w :: uint32) :: ulonglong) :: uint32) = w"
  by (rule bit_word_eqI) (simp add: bit_ucast_iff)

lemma ucast_and_64: "(ucast (v AND w :: ulonglong) :: uint32) = ucast v AND ucast w"
  by (rule bit_word_eqI) (simp add: bit_ucast_iff bit_and_iff)

lemma ucast_or_64: "(ucast (v OR w :: ulonglong) :: uint32) = ucast v OR ucast w"
  by (rule bit_word_eqI) (simp add: bit_ucast_iff bit_or_iff)

lemma ucast_and_32: "(ucast v AND ucast w :: ulonglong) = ucast (v AND w :: uint32)"
  by (rule bit_word_eqI) (auto simp add: bit_ucast_iff bit_and_iff)

lemma ucast_eq_32: "(ucast v :: ulonglong) = ucast w \<longleftrightarrow> v = (w :: uint32)"
  by (metis ucast_ucast_32)

lemmas mode_defs = mode_to_conv_def mode_to_round_def mk_date_conv_mode_t_def mk_time_round_mode_t_def mk_date_mode_t_def
  conv_or_round_def conv_ulonglong_def round_ulonglong_def mode_ulonglong_def conv_or_mode_def mode_or_conv_def
  mode_and_conv_def conv_and_mode_def mode_or_assign_conv_def sql_mode_and_conv_def

lemma known_modes_disjoint: "CONV_KNOWN_MODES AND ROUND_KNOWN_MODES = 0" "ROUND_KNOWN_MODES AND CONV_KNOWN_MODES = 0"
  by (simp_all add: flag_defs)

lemma conv_no_round: "x AND CONV_KNOWN_MODES = x \<Longrightarrow> x AND ROUND_KNOWN_MODES = 0"
  by (metis and.assoc known_modes_disjoint(1) and_zero_eq)

lemma round_modes:
  assumes "Some r \<in> set time_round_modes"
  shows "round_m_mode r AND ROUND_KNOWN_MODES = round_m_mode r" "round_m_mode r AND CONV_KNOWN_MODES = 0"
    "mk_time_round_mode_t (ucast (round_m_mode r)) = Some r"
  using assms by (auto simp: time_round_modes_def mk_time_round_mode_t_def flag_defs split: if_splits)

text \<open>The parts of a mixture, as words.\<close>

lemma mode_parts:
  assumes "x AND CONV_KNOWN_MODES = x" and "Some r \<in> set time_round_modes"
  shows "mode_to_conv (Date_mode (x OR round_m_mode r)) = Date_conv_mode x" "mode_to_round (Date_mode (x OR round_m_mode r)) = Some r"
  using assms(1) round_modes [OF assms(2)] conv_no_round [OF assms(1)]
  by (simp_all add: mode_to_conv_def mode_to_round_def mk_date_conv_mode_t_def ucast_and_32 bit.conj_disj_distrib2)

lemma conv_or_round_word: "conv_or_round c r = Date_mode (conv_m_mode c OR round_m_mode r)"
  by (simp add: conv_or_round_def mk_date_mode_t_def conv_ulonglong_def round_ulonglong_def ucast_or_64)

lemma or_conv_word:
  "conv_or_mode d (Date_mode w) = Date_mode (conv_m_mode d OR w)" "mode_or_conv (Date_mode w) d = Date_mode (conv_m_mode d OR w)"
  by (simp_all add: conv_or_mode_def mode_or_conv_def mk_date_mode_t_def conv_ulonglong_def mode_ulonglong_def ucast_or_64 or.commute)

lemma or_known: "x AND K = x \<Longrightarrow> y AND K = y \<Longrightarrow> (y OR x) AND K = (y OR x :: uint32)"
  by (simp add: bit.conj_disj_distrib2)

lemma and_no_zeros:
  "Some r \<in> set time_round_modes \<Longrightarrow> (x OR round_m_mode r) AND conv_m_mode TIME_NO_ZEROS = x AND conv_m_mode TIME_NO_ZEROS"
  by (auto simp: time_round_modes_def mk_time_round_mode_t_def TIME_NO_ZEROS_def mk_date_conv_mode_t_def flag_defs
      bit.conj_disj_distrib2 split: if_splits)

section \<open>Properties\<close>

text \<open>A conversion mode and a rounding mode combined into one can be taken apart again: the conversion part
  has exactly the conversion flags and the rounding part is the rounding mode. Adding conversion flags to a mixture,
  from either side, never changes its rounding; and the flags kept from an SQL mode are those that both have.\<close>

theorem date_mode_parts:
  assumes "conv_m_mode c AND CONV_KNOWN_MODES = conv_m_mode c" and "Some r \<in> set time_round_modes"
  shows "mode_to_conv (conv_or_round c r) = c \<and> mode_to_round (conv_or_round c r) = Some r
     \<and> (\<forall>d. conv_m_mode d AND CONV_KNOWN_MODES = conv_m_mode d \<longrightarrow>
          mode_to_round (conv_or_mode d (conv_or_round c r)) = Some r
        \<and> mode_to_round (mode_or_conv (conv_or_round c r) d) = Some r
        \<and> mode_to_conv (mode_or_conv (conv_or_round c r) d) = conv_or c d)
     \<and> mode_and_conv (conv_or_round c r) TIME_NO_ZEROS = conv_and c TIME_NO_ZEROS"
proof -
  let ?x = "conv_m_mode c"
  note P = mode_parts [OF assms]
  have or: "conv_m_mode d OR (?x OR round_m_mode r) = (conv_m_mode d OR ?x) OR round_m_mode r" for d by (simp add: or.assoc)
  have D: "mode_to_round (Date_mode (conv_m_mode d OR (?x OR round_m_mode r))) = Some r"
    "mode_to_conv (Date_mode (conv_m_mode d OR (?x OR round_m_mode r))) = conv_or c d"
    if "conv_m_mode d AND CONV_KNOWN_MODES = conv_m_mode d" for d
    using mode_parts [OF or_known [OF assms(1) that] assms(2)] unfolding or
    by (simp_all add: conv_or_def mk_date_conv_mode_t_def or.commute)
  have "mode_and_conv (conv_or_round c r) TIME_NO_ZEROS = conv_and c TIME_NO_ZEROS"
    using and_no_zeros [OF assms(2), of ?x]
    by (simp add: conv_or_round_word mode_and_conv_def conv_and_def mk_date_conv_mode_t_def mode_ulonglong_def conv_ulonglong_def
        ucast_and_64)
  then show ?thesis using P D by (simp add: conv_or_round_word or_conv_word)
qed

theorem date_mode_parts_witness:
  "mode_to_round (conv_or_round (mk_date_conv_mode_t 0x800001) (Time_round_mode 64)) = Some (Time_round_mode 64)"
proof -
  have "conv_m_mode (mk_date_conv_mode_t 0x800001) AND CONV_KNOWN_MODES = conv_m_mode (mk_date_conv_mode_t 0x800001)"
    "Some (Time_round_mode 64) \<in> set time_round_modes"
    by (simp_all add: mk_date_conv_mode_t_def flag_defs time_round_modes_def mk_time_round_mode_t_def)
  from date_mode_parts [OF this] show ?thesis by blast
qed

end
