(* ===== verification/Histogram.thy ===== *)
theory Histogram
  imports Byte_Order Complex_Main "HOL-Library.Signed_Division"
begin

text \<open>
  The statistics of \<^verbatim>\<open>sql_statistics.h\<close>: the height-balanced histogram of a column with its search for a
  bucket, the counters that are collected with it, and the values kept for columns and index prefixes.

  A \<^verbatim>\<open>double\<close> is a real number; the result of every floating-point operation is rounded by a function
  \<^verbatim>\<open>rnd\<close>, a parameter of which IEEE 754 promises \<open>rounding_ok\<close>. A conversion of a number outside the range
  of the integer type is undefined in C and an error here, as is a failed debug assertion.
\<close>

section \<open>Floating-point numbers\<close>

datatype c_error = Undefined_cast | Assertion

definition rounding_ok :: "(real \<Rightarrow> real) \<Rightarrow> bool" where
  "rounding_ok rnd \<longleftrightarrow> mono rnd \<and> (\<forall>n. \<bar>n\<bar> \<le> 2 ^ 53 \<longrightarrow> rnd (of_int n) = of_int n)"

definition to_unsigned :: "real \<Rightarrow> c_error + 'a::len word" where
  "to_unsigned x =
     (if - 1 < x \<and> x < 2 ^ LENGTH('a) then Inr (of_int (if x < 0 then 0 else \<lfloor>x\<rfloor>)) else Inl Undefined_cast)"

section \<open>Modes\<close>

datatype Use_stat_tables_mode =
  NEVER | COMPLEMENTARY | PREFERABLY | COMPLEMENTARY_FOR_QUERIES | PREFERABLY_FOR_QUERIES

datatype Histogram_type = SINGLE_PREC_HB | DOUBLE_PREC_HB | JSON_HB | INVALID_HISTOGRAM

definition check_eits_collection_allowed :: "Use_stat_tables_mode \<Rightarrow> bool" where
  "check_eits_collection_allowed mode \<longleftrightarrow> mode = COMPLEMENTARY \<or> mode = PREFERABLY"

definition check_eits_preferred :: "Use_stat_tables_mode \<Rightarrow> bool" where
  "check_eits_preferred mode \<longleftrightarrow> mode = PREFERABLY \<or> mode = PREFERABLY_FOR_QUERIES"

definition histogram_is_usable :: "nat \<Rightarrow> bool" where
  "histogram_is_usable optimizer_use_condition_selectivity \<longleftrightarrow> optimizer_use_condition_selectivity > 3"

section \<open>The binary histogram\<close>

text \<open>\<^verbatim>\<open>values\<close> is the memory behind the pointer of that name, addressed from 0.\<close>

record Histogram_binary =
  hb_type :: Histogram_type
  hb_size :: uchar
  hb_values :: mem

definition prec_factor :: "Histogram_binary \<Rightarrow> c_error + nat" where
  "prec_factor h =
     (case hb_type h of
        SINGLE_PREC_HB \<Rightarrow> Inr (2 ^ 8 - 1)
      | DOUBLE_PREC_HB \<Rightarrow> Inr (2 ^ 16 - 1)
      | _ \<Rightarrow> Inl Assertion)"

definition get_width :: "Histogram_binary \<Rightarrow> c_error + nat" where
  "get_width h =
     (case hb_type h of
        SINGLE_PREC_HB \<Rightarrow> Inr (unat (hb_size h))
      | DOUBLE_PREC_HB \<Rightarrow> Inr (unat (hb_size h) div 2)
      | _ \<Rightarrow> Inl Assertion)"

definition get_value :: "Histogram_binary \<Rightarrow> nat \<Rightarrow> c_error + nat" where
  "get_value h i =
     (case get_width h of
        Inl e \<Rightarrow> Inl e
      | Inr w \<Rightarrow>
          if i < w
          then (case hb_type h of
                  SINGLE_PREC_HB \<Rightarrow> Inr (unat (hb_values h i))
                | DOUBLE_PREC_HB \<Rightarrow> Inr (unat (uint2korr_x86_64 (hb_values h) (i * 2)))
                | _ \<Rightarrow> Inl Assertion)
          else Inl Assertion)"

text \<open>The three loops of \<^verbatim>\<open>find_bucket\<close>: the bisection, the walk to the first and the walk to the last
  bucket with the value.\<close>

partial_function (option) find_loop ::
    "Histogram_binary \<Rightarrow> nat \<Rightarrow> int \<Rightarrow> int \<Rightarrow> int \<Rightarrow> (c_error + nat) option" where
  "find_loop h val lp rp d =
     (let i = nat (lp + d)
      in if d = 0 then Some (Inr i)
         else case get_value h i of
             Inl e \<Rightarrow> Some (Inl e)
           | Inr v \<Rightarrow>
               if val = v then Some (Inr i)
               else if val < v then find_loop h val lp (int i) ((int i - lp) sdiv 2)
               else case get_value h (i + 1) of
                   Inl e \<Rightarrow> Some (Inl e)
                 | Inr v' \<Rightarrow>
                     if val > v' then find_loop h val (int i + 1) rp ((rp - (int i + 1)) sdiv 2)
                     else Some (Inr i))"

fun walk_first :: "Histogram_binary \<Rightarrow> nat \<Rightarrow> nat \<Rightarrow> c_error + nat" where
  "walk_first h val 0 = Inr 0"
| "walk_first h val (Suc i) =
     (case get_value h i of
        Inl e \<Rightarrow> Inl e
      | Inr v \<Rightarrow> if val = v then walk_first h val i else Inr (Suc i))"

function walk_last :: "Histogram_binary \<Rightarrow> nat \<Rightarrow> nat \<Rightarrow> nat \<Rightarrow> c_error + nat" where
  "walk_last h w val i =
     (if i + 1 < w
      then (case get_value h (i + 1) of
              Inl e \<Rightarrow> Inl e
            | Inr v \<Rightarrow> if val = v then walk_last h w val (i + 1) else Inr i)
      else Inr i)"
  by pat_completeness auto
termination by (relation "measure (\<lambda>(h, w, val, i). w - i)") auto

declare walk_last.simps [simp del]

definition find_finish :: "Histogram_binary \<Rightarrow> nat \<Rightarrow> nat \<Rightarrow> bool \<Rightarrow> nat \<Rightarrow> c_error + nat" where
  "find_finish h w val first i =
     (case get_value h i of
        Inl e \<Rightarrow> Inl e
      | Inr v \<Rightarrow>
          (let i = (if val > v \<and> i < w - 1 then i + 1 else i)
           in case get_value h i of
                Inl e \<Rightarrow> Inl e
              | Inr v \<Rightarrow>
                  if val = v then (if first then walk_first h val i else walk_last h w val i)
                  else Inr i))"

definition find_bucket ::
    "(real \<Rightarrow> real) \<Rightarrow> Histogram_binary \<Rightarrow> real \<Rightarrow> bool \<Rightarrow> (c_error + nat) option" where
  "find_bucket rnd h pos first =
     (case (prec_factor h, get_width h) of
        (Inr f, Inr w) \<Rightarrow>
          (case to_unsigned (rnd (pos * real f)) :: c_error + uint32 of
             Inl e \<Rightarrow> Some (Inl e)
           | Inr v \<Rightarrow>
               (case find_loop h (unat v) 0 (int w - 1) (int w div 2) of
                  None \<Rightarrow> None
                | Some (Inl e) \<Rightarrow> Some (Inl e)
                | Some (Inr i) \<Rightarrow> Some (find_finish h w (unat v) first i)))
      | _ \<Rightarrow> Some (Inl Assertion))"

definition set_value :: "(real \<Rightarrow> real) \<Rightarrow> nat \<Rightarrow> real \<Rightarrow> Histogram_binary \<Rightarrow> c_error + Histogram_binary" where
  "set_value rnd i val h =
     (case hb_type h of
        SINGLE_PREC_HB \<Rightarrow>
          (case to_unsigned (rnd (val * real (2 ^ 8 - 1))) :: c_error + uchar of
             Inl e \<Rightarrow> Inl e
           | Inr b \<Rightarrow> Inr (h\<lparr>hb_values := (hb_values h)(i := b)\<rparr>))
      | DOUBLE_PREC_HB \<Rightarrow>
          (case to_unsigned (rnd (val * real (2 ^ 16 - 1))) :: c_error + uint16 of
             Inl e \<Rightarrow> Inl e
           | Inr v \<Rightarrow> Inr (h\<lparr>hb_values := int2store_x86_64 (hb_values h) (i * 2) (ucast v)\<rparr>))
      | _ \<Rightarrow> Inl Assertion)"

definition set_prev_value :: "nat \<Rightarrow> Histogram_binary \<Rightarrow> c_error + Histogram_binary" where
  "set_prev_value i h =
     (case hb_type h of
        SINGLE_PREC_HB \<Rightarrow> Inr (h\<lparr>hb_values := (hb_values h)(i := hb_values h (i - 1))\<rparr>)
      | DOUBLE_PREC_HB \<Rightarrow>
          Inr (h\<lparr>hb_values := int2store_x86_64 (hb_values h) (i * 2) (ucast (uint2korr_x86_64 (hb_values h) (i * 2 - 2)))\<rparr>)
      | _ \<Rightarrow> Inl Assertion)"

section \<open>Counters and column statistics\<close>

record Basic_stats_collector =
  bs_count :: ulonglong
  bs_count_distinct :: ulonglong
  bs_count_distinct_single_occurence :: ulonglong

definition mk_Basic_stats_collector :: Basic_stats_collector where
  "mk_Basic_stats_collector = \<lparr>bs_count = 0, bs_count_distinct = 0, bs_count_distinct_single_occurence = 0\<rparr>"

definition stats_next :: "uint32 \<Rightarrow> Basic_stats_collector \<Rightarrow> Basic_stats_collector" where
  "stats_next elem_cnt s =
     (let s = s\<lparr>bs_count_distinct := bs_count_distinct s + 1\<rparr>;
          s = (if elem_cnt = 1
               then s\<lparr>bs_count_distinct_single_occurence := bs_count_distinct_single_occurence s + 1\<rparr> else s)
      in s\<lparr>bs_count := bs_count s + ucast elem_cnt\<rparr>)"

datatype column_stat_col =
  COLUMN_STAT_DB_NAME | COLUMN_STAT_TABLE_NAME | COLUMN_STAT_COLUMN_NAME | COLUMN_STAT_MIN_VALUE
| COLUMN_STAT_MAX_VALUE | COLUMN_STAT_NULLS_RATIO | COLUMN_STAT_AVG_LENGTH | COLUMN_STAT_AVG_FREQUENCY
| COLUMN_STAT_HIST_SIZE | COLUMN_STAT_HIST_TYPE | COLUMN_STAT_HISTOGRAM | COLUMN_STAT_N_FIELDS

fun stat_col :: "column_stat_col \<Rightarrow> nat" where
  "stat_col COLUMN_STAT_DB_NAME = 0"
| "stat_col COLUMN_STAT_TABLE_NAME = 1"
| "stat_col COLUMN_STAT_COLUMN_NAME = 2"
| "stat_col COLUMN_STAT_MIN_VALUE = 3"
| "stat_col COLUMN_STAT_MAX_VALUE = 4"
| "stat_col COLUMN_STAT_NULLS_RATIO = 5"
| "stat_col COLUMN_STAT_AVG_LENGTH = 6"
| "stat_col COLUMN_STAT_AVG_FREQUENCY = 7"
| "stat_col COLUMN_STAT_HIST_SIZE = 8"
| "stat_col COLUMN_STAT_HIST_TYPE = 9"
| "stat_col COLUMN_STAT_HISTOGRAM = 10"
| "stat_col COLUMN_STAT_N_FIELDS = 11"

record Column_statistics =
  column_stat_nulls :: uint32
  nulls_ratio :: uint32
  avg_length :: ulonglong
  avg_frequency :: ulonglong

definition no_values_provided_bitmap :: uint32 where
  "no_values_provided_bitmap =
     push_bit (stat_col COLUMN_STAT_COLUMN_NAME + 1)
       (push_bit (stat_col COLUMN_STAT_HISTOGRAM - stat_col COLUMN_STAT_COLUMN_NAME) 1 - 1)"

definition set_all_nulls :: "Column_statistics \<Rightarrow> Column_statistics" where
  "set_all_nulls s = s\<lparr>column_stat_nulls := no_values_provided_bitmap\<rparr>"

definition set_not_null :: "nat \<Rightarrow> Column_statistics \<Rightarrow> Column_statistics" where
  "set_not_null stat_field_no s = s\<lparr>column_stat_nulls := column_stat_nulls s AND NOT (push_bit stat_field_no 1)\<rparr>"

definition is_null :: "Column_statistics \<Rightarrow> nat \<Rightarrow> bool" where
  "is_null s stat_field_no \<longleftrightarrow> column_stat_nulls s AND push_bit stat_field_no 1 \<noteq> 0"

definition get_nulls_ratio :: "(real \<Rightarrow> real) \<Rightarrow> Column_statistics \<Rightarrow> real" where
  "get_nulls_ratio rnd s = rnd (rnd (real (unat (nulls_ratio s))) / 100000)"

definition get_avg_length :: "(real \<Rightarrow> real) \<Rightarrow> Column_statistics \<Rightarrow> real" where
  "get_avg_length rnd s = rnd (rnd (real (unat (avg_length s))) / 100000)"

definition get_avg_frequency :: "(real \<Rightarrow> real) \<Rightarrow> Column_statistics \<Rightarrow> real" where
  "get_avg_frequency rnd s = rnd (rnd (real (unat (avg_frequency s))) / 100000)"

definition set_nulls_ratio :: "(real \<Rightarrow> real) \<Rightarrow> real \<Rightarrow> Column_statistics \<Rightarrow> c_error + Column_statistics" where
  "set_nulls_ratio rnd val s = map_sum id (\<lambda>v. s\<lparr>nulls_ratio := v\<rparr>) (to_unsigned (rnd (val * 100000)))"

definition set_avg_length :: "(real \<Rightarrow> real) \<Rightarrow> real \<Rightarrow> Column_statistics \<Rightarrow> c_error + Column_statistics" where
  "set_avg_length rnd val s = map_sum id (\<lambda>v. s\<lparr>avg_length := v\<rparr>) (to_unsigned (rnd (val * 100000)))"

definition set_avg_frequency :: "(real \<Rightarrow> real) \<Rightarrow> real \<Rightarrow> Column_statistics \<Rightarrow> c_error + Column_statistics" where
  "set_avg_frequency rnd val s = map_sum id (\<lambda>v. s\<lparr>avg_frequency := v\<rparr>) (to_unsigned (rnd (val * 100000)))"

definition min_max_values_are_provided :: "Column_statistics \<Rightarrow> bool" where
  "min_max_values_are_provided s \<longleftrightarrow>
     \<not> is_null s (stat_col COLUMN_STAT_MIN_VALUE) \<and> \<not> is_null s (stat_col COLUMN_STAT_MAX_VALUE)"

definition no_stat_values_provided :: "Column_statistics \<Rightarrow> bool" where
  "no_stat_values_provided s \<longleftrightarrow> (if column_stat_nulls s = no_values_provided_bitmap then True else False)"

text \<open>The averages of index prefixes live in an array of the table; an object has a pointer to its part, or none.\<close>

type_synonym Index_statistics = "ulonglong list option"

definition init_avg_frequency :: "ulonglong list option \<Rightarrow> Index_statistics" where
  "init_avg_frequency ptr = ptr"

definition avg_frequency_is_inited :: "Index_statistics \<Rightarrow> bool" where
  "avg_frequency_is_inited s \<longleftrightarrow> s \<noteq> None"

definition index_get_avg_frequency :: "(real \<Rightarrow> real) \<Rightarrow> Index_statistics \<Rightarrow> nat \<Rightarrow> real option" where
  "index_get_avg_frequency rnd s i =
     (case s of
        None \<Rightarrow> None
      | Some xs \<Rightarrow> if i < length xs then Some (rnd (rnd (real (unat (xs ! i))) / 100000)) else None)"

definition index_set_avg_frequency ::
    "(real \<Rightarrow> real) \<Rightarrow> nat \<Rightarrow> real \<Rightarrow> Index_statistics \<Rightarrow> (c_error + Index_statistics) option" where
  "index_set_avg_frequency rnd i val s =
     (case s of
        None \<Rightarrow> None
      | Some xs \<Rightarrow>
          if i < length xs then Some (map_sum id (\<lambda>v. Some (xs[i := v])) (to_unsigned (rnd (val * 100000)))) else None)"

section \<open>The search finds the bucket\<close>

text \<open>The values of the buckets, in order.\<close>

definition hist_holds :: "Histogram_binary \<Rightarrow> nat list \<Rightarrow> bool" where
  "hist_holds h vs \<longleftrightarrow> get_width h = Inr (length vs) \<and> (\<forall>i < length vs. get_value h i = Inr (vs ! i))"

lemma hist_holds_get:
  assumes "hist_holds h vs"
  shows "get_width h = Inr (length vs)"
    and "i < length vs \<Longrightarrow> get_value h i = Inr (vs ! i)"
    and "\<not> i < length vs \<Longrightarrow> get_value h i = Inl Assertion"
  using assms by (auto simp: hist_holds_def get_value_def)

text \<open>What the search is for: the first or the last bucket with the value; where there is none, the first bucket
  above the value, or the last bucket at all.\<close>

definition bucket_of :: "nat list \<Rightarrow> nat \<Rightarrow> bool \<Rightarrow> nat" where
  "bucket_of vs val first =
     (if val \<in> set vs
      then if first then length (filter (\<lambda>v. v < val) vs) else length (filter (\<lambda>v. v \<le> val) vs) - 1
      else min (length (filter (\<lambda>v. v < val) vs)) (length vs - 1))"

lemma filter_prefix_length:
  assumes "k \<le> length vs" "\<And>j. j < k \<Longrightarrow> P (vs ! j)" "\<And>j. k \<le> j \<Longrightarrow> j < length vs \<Longrightarrow> \<not> P (vs ! j)"
  shows "length (filter P vs) = k"
proof -
  have "filter P (take k vs) = take k vs" using assms(1,2)
    by (auto simp: filter_id_conv in_set_conv_nth)
  moreover have "filter P (drop k vs) = []" using assms(1,3)
    by (auto simp: filter_empty_conv in_set_conv_nth)
  ultimately show ?thesis using assms(1) filter_append [of P "take k vs" "drop k vs"]
    by simp
qed

lemma bucket_of_first:
  assumes "sorted vs" "k < length vs" "vs ! k = val" "k = 0 \<or> vs ! (k - 1) < val"
  shows "bucket_of vs val True = k"
proof -
  have "length (filter (\<lambda>v. v < val) vs) = k"
  proof (rule filter_prefix_length)
    show "vs ! j < val" if "j < k" for j
      using that assms sorted_nth_mono [of vs j "k - 1"] by force
    show "\<not> vs ! j < val" if "k \<le> j" "j < length vs" for j
      using that assms sorted_nth_mono [of vs k j] by force
  qed (use assms in simp)
  then show ?thesis using assms by (auto simp: bucket_of_def)
qed

lemma bucket_of_last:
  assumes "sorted vs" "k < length vs" "vs ! k = val" "k + 1 = length vs \<or> val < vs ! (k + 1)"
  shows "bucket_of vs val False = k"
proof -
  have "length (filter (\<lambda>v. v \<le> val) vs) = k + 1"
  proof (rule filter_prefix_length)
    show "vs ! j \<le> val" if "j < k + 1" for j
      using that assms sorted_nth_mono [of vs j k] by force
    show "\<not> vs ! j \<le> val" if "k + 1 \<le> j" "j < length vs" for j
      using that assms sorted_nth_mono [of vs "k + 1" j] by force
  qed (use assms in simp)
  then show ?thesis using assms by (auto simp: bucket_of_def)
qed

lemma bucket_of_absent:
  assumes "sorted vs" "k < length vs" "vs ! k \<noteq> val" "k = 0 \<or> vs ! (k - 1) < val" "k + 1 = length vs \<or> val < vs ! k"
  shows "bucket_of vs val first = k"
proof -
  have below: "vs ! j < val" if "j < k" for j
    using that assms sorted_nth_mono [of vs j "k - 1"] by force
  show ?thesis
  proof (cases "val < vs ! k")
    case True
    have above: "val < vs ! j" if "k \<le> j" "j < length vs" for j
      using that assms True sorted_nth_mono [of vs k j] by force
    have "length (filter (\<lambda>v. v < val) vs) = k"
      by (rule filter_prefix_length) (use assms(2) below above in fastforce)+
    moreover have "val \<notin> set vs"
      using below above by (metis in_set_conv_nth not_le_imp_less order_less_irrefl)
    ultimately show ?thesis using assms by (simp add: bucket_of_def)
  next
    case False
    then have k: "k + 1 = length vs" "vs ! k < val" using assms by auto
    have all: "vs ! j < val" if "j < length vs" for j
      using that k below by (metis less_antisym Suc_eq_plus1)
    then have "length (filter (\<lambda>v. v < val) vs) = length vs" by (intro filter_prefix_length) auto
    moreover have "val \<notin> set vs" using all by (metis in_set_conv_nth order_less_irrefl)
    ultimately show ?thesis using k by (simp add: bucket_of_def)
  qed
qed

text \<open>The state in which the bisection stops.\<close>

definition near_bucket :: "nat list \<Rightarrow> nat \<Rightarrow> nat \<Rightarrow> bool" where
  "near_bucket vs val i \<longleftrightarrow>
     i < length vs \<and> (i = 0 \<or> vs ! i \<le> val) \<and> (length vs \<le> i + 2 \<or> val \<le> vs ! (i + 1))"

lemma sdiv_2: "0 \<le> k \<Longrightarrow> k sdiv 2 = k div (2 :: int)"
  by (cases "k = 0") (simp_all add: signed_divide_int_def)

lemma find_loop_stops:
  assumes "hist_holds h vs" "sorted vs" "vs \<noteq> []"
  shows "0 \<le> lp \<Longrightarrow> lp \<le> rp \<Longrightarrow> rp < int (length vs) \<Longrightarrow>
    lp = 0 \<or> vs ! nat lp < val \<Longrightarrow> rp + 1 = int (length vs) \<or> val < vs ! nat rp \<Longrightarrow>
    d = 0 \<and> rp \<le> lp + 1 \<or> 0 < d \<and> lp + d + 1 \<le> rp \<Longrightarrow>
    \<exists>i. find_loop h val lp rp d = Some (Inr i) \<and> near_bucket vs val i"
proof (induction "nat (rp - lp)" arbitrary: lp rp d rule: less_induct)
  case less
  note get = hist_holds_get [OF assms(1)]
  show ?case
  proof (cases "d = 0")
    case True
    then have "rp \<le> lp + 1" using less.prems by auto
    have "near_bucket vs val (nat lp)"
    proof (cases "rp = lp")
      case True
      have "val \<le> vs ! (nat lp + 1)" if "nat lp + 1 < length vs" "val < vs ! nat lp"
        using that sorted_nth_mono [OF assms(2), of "nat lp" "nat lp + 1"] by simp
      then show ?thesis using less.prems True unfolding near_bucket_def by force
    next
      case False
      then have "nat rp = nat lp + 1" using \<open>rp \<le> lp + 1\<close> less.prems by linarith
      then show ?thesis using less.prems unfolding near_bucket_def by auto
    qed
    then show ?thesis using True by (subst find_loop.simps) simp
  next
    case False
    then have d: "0 < d" "lp + d + 1 \<le> rp" using less.prems by auto
    define i where "i = nat (lp + d)"
    have i: "int i = lp + d" "i < length vs" "i + 1 < length vs" using d less.prems by (auto simp: i_def)
    show ?thesis
    proof (cases "val < vs ! i")
      case True
      have "\<exists>j. find_loop h val lp (int i) ((int i - lp) sdiv 2) = Some (Inr j) \<and> near_bucket vs val j"
        by (rule less.hyps) (use less.prems True d i in \<open>auto simp: sdiv_2 i_def\<close>)
      then show ?thesis using True False i get(2) [of i] by (subst find_loop.simps) (simp add: i_def [symmetric])
    next
      case ge: False
      show ?thesis
      proof (cases "vs ! (i + 1) < val")
        case True
        have "\<exists>j. find_loop h val (int i + 1) rp ((rp - (int i + 1)) sdiv 2) = Some (Inr j) \<and> near_bucket vs val j"
          by (rule less.hyps) (use less.prems True d i in \<open>auto simp: sdiv_2 i_def nat_add_distrib\<close>)
        then show ?thesis using True ge False i get(2) [of i] get(2) [of "i + 1"] sorted_nth_mono [OF assms(2), of i "i + 1"]
          by (subst find_loop.simps) (auto simp: i_def [symmetric])
      next
        case False
        then have "near_bucket vs val i" using ge i by (auto simp: near_bucket_def)
        then show ?thesis using False ge \<open>d \<noteq> 0\<close> i get(2) [of i] get(2) [of "i + 1"]
          by (subst find_loop.simps) (auto simp: i_def [symmetric])
      qed
    qed
  qed
qed

lemma walk_first_ok:
  assumes "hist_holds h vs" "sorted vs"
  shows "i < length vs \<Longrightarrow> vs ! i = val \<Longrightarrow> walk_first h val i = Inr (bucket_of vs val True)"
proof (induction i)
  case 0
  then show ?case using bucket_of_first [of vs 0 val] assms by simp
next
  case (Suc i)
  then show ?case using hist_holds_get(2) [OF assms(1), of i] assms sorted_nth_mono [OF assms(2), of i "Suc i"]
      bucket_of_first [of vs "Suc i" val] by auto
qed

lemma walk_last_ok:
  assumes "hist_holds h vs" "sorted vs"
  shows "i < length vs \<Longrightarrow> vs ! i = val \<Longrightarrow> walk_last h (length vs) val i = Inr (bucket_of vs val False)"
proof (induction "length vs - i" arbitrary: i)
  case (Suc x)
  show ?case
  proof (cases "i + 1 < length vs")
    case True
    then show ?thesis using Suc hist_holds_get(2) [OF assms(1), of "i + 1"] bucket_of_last [of vs i val]
        sorted_nth_mono [OF assms(2), of i "i + 1"] assms by (subst walk_last.simps) auto
  next
    case False
    then show ?thesis using Suc assms bucket_of_last [of vs i val] by (subst walk_last.simps) auto
  qed
qed simp

lemma find_finish_ok:
  assumes "hist_holds h vs" "sorted vs" "near_bucket vs val i"
  shows "find_finish h (length vs) val first i = Inr (bucket_of vs val first)"
proof -
  define j where "j = (if val > vs ! i \<and> i < length vs - 1 then i + 1 else i)"
  have i: "i < length vs" and j: "j < length vs" using assms by (auto simp: near_bucket_def j_def)
  have "bucket_of vs val first = j" if "vs ! j \<noteq> val"
  proof (rule bucket_of_absent)
    show "j = 0 \<or> vs ! (j - 1) < val"
      using that assms i sorted_nth_mono [OF assms(2), of "i - 1" i] by (auto simp: near_bucket_def j_def split: if_splits)
    show "j + 1 = length vs \<or> val < vs ! j"
      using that assms i Suc_leI [OF i] by (auto simp: near_bucket_def j_def split: if_splits)
  qed (use assms j that in auto)
  moreover have "find_finish h (length vs) val first i =
      (if val = vs ! j then (if first then walk_first h val j else walk_last h (length vs) val j) else Inr j)"
    using hist_holds_get(2) [OF assms(1) j] unfolding find_finish_def j_def Let_def
    by (simp add: hist_holds_get(2) [OF assms(1) i])
  ultimately show ?thesis
    using walk_first_ok [OF assms(1,2) j] walk_last_ok [OF assms(1,2) j] by auto
qed

text \<open>The integer that represents a fraction.\<close>

definition frac_value :: "(real \<Rightarrow> real) \<Rightarrow> nat \<Rightarrow> real \<Rightarrow> nat" where
  "frac_value rnd f p = nat \<lfloor>rnd (p * real f)\<rfloor>"

lemma rounding_of_nat:
  assumes "rounding_ok rnd" "n \<le> 2 ^ 53"
  shows "rnd (real n) = real n"
proof -
  have "int n \<le> int (2 ^ 53)" using assms(2) by (rule of_nat_mono)
  then show ?thesis
    using assms(1) [unfolded rounding_ok_def, THEN conjunct2, THEN spec, of "int n"] by simp
qed

lemma rounding_fraction:
  assumes "rounding_ok rnd" "0 \<le> p" "p \<le> 1" "f \<le> 2 ^ 53"
  shows "0 \<le> rnd (p * real f)" "rnd (p * real f) \<le> real f"
proof -
  have "0 \<le> p * real f" "p * real f \<le> real f" using assms by (simp_all add: mult_left_le_one_le)
  then have "rnd 0 \<le> rnd (p * real f)" "rnd (p * real f) \<le> rnd (real f)"
    using assms(1) by (simp_all add: rounding_ok_def mono_def)
  then show "0 \<le> rnd (p * real f)" "rnd (p * real f) \<le> real f"
    using rounding_of_nat [OF assms(1), of 0] rounding_of_nat [OF assms(1,4)] by simp_all
qed

lemma frac_value_le:
  assumes "rounding_ok rnd" "0 \<le> p" "p \<le> 1" "f \<le> 2 ^ 53"
  shows "frac_value rnd f p \<le> f"
  using rounding_fraction [OF assms] by (simp add: frac_value_def floor_le_iff nat_le_iff)

lemma frac_value_mono:
  assumes "rounding_ok rnd" "p \<le> q"
  shows "frac_value rnd f p \<le> frac_value rnd f q"
  using assms by (auto simp: frac_value_def rounding_ok_def mono_def mult_right_mono intro!: nat_mono floor_mono)

lemma to_unsigned_fraction:
  assumes "rounding_ok rnd" "0 \<le> p" "p \<le> 1" "f < 2 ^ LENGTH('a)" "f \<le> 2 ^ 53"
  shows "\<exists>w :: 'a::len word. to_unsigned (rnd (p * real f)) = Inr w \<and> unat w = frac_value rnd f p"
proof -
  note r = rounding_fraction [OF assms(1-3,5)]
  have l: "frac_value rnd f p < 2 ^ LENGTH('a)" using frac_value_le [OF assms(1-3,5)] assms(4) by simp
  have "real f < 2 ^ LENGTH('a)" using assms(4) by (metis of_nat_less_iff of_nat_numeral of_nat_power)
  then have "rnd (p * real f) < 2 ^ LENGTH('a)" using r by linarith
  then have "to_unsigned (rnd (p * real f)) = Inr (of_nat (frac_value rnd f p) :: 'a word)"
    using r by (simp add: to_unsigned_def frac_value_def)
  then show ?thesis using l by (simp add: unat_of_nat take_bit_nat_eq_self)
qed

lemma prec_factor_less: "prec_factor h = Inr f \<Longrightarrow> f < 2 ^ 16"
  by (auto simp: prec_factor_def split: Histogram_type.splits)

lemma find_bucket_eq:
  assumes "rounding_ok rnd" "0 \<le> pos" "pos \<le> 1" "prec_factor h = Inr f" "get_width h = Inr w"
  shows "find_bucket rnd h pos first =
    (case find_loop h (frac_value rnd f pos) 0 (int w - 1) (int w div 2) of
       None \<Rightarrow> None
     | Some (Inl e) \<Rightarrow> Some (Inl e)
     | Some (Inr i) \<Rightarrow> Some (find_finish h w (frac_value rnd f pos) first i))"
proof -
  have "f < 2 ^ 16" by (rule prec_factor_less [OF assms(4)])
  then obtain v :: uint32 where "to_unsigned (rnd (pos * real f)) = Inr v" and v: "unat v = frac_value rnd f pos"
    using to_unsigned_fraction [OF assms(1-3), of f, where 'a = 32] by auto
  then show ?thesis using assms unfolding v [symmetric] by (simp add: find_bucket_def)
qed

lemma find_bucket_exact:
  assumes "rounding_ok rnd" "0 \<le> pos" "pos \<le> 1"
    and "hist_holds h vs" "sorted vs" "vs \<noteq> []" "prec_factor h = Inr f"
    and "length vs = 2 \<longrightarrow> frac_value rnd f pos \<le> vs ! 1"
  shows "find_bucket rnd h pos first = Some (Inr (bucket_of vs (frac_value rnd f pos) first))"
proof -
  define val where "val = frac_value rnd f pos"
  have "\<exists>i. find_loop h val 0 (int (length vs) - 1) (int (length vs) div 2) = Some (Inr i) \<and> near_bucket vs val i"
  proof (cases "length vs = 2")
    case False
    then have "int (length vs) div 2 = 0 \<and> int (length vs) - 1 \<le> 1
        \<or> 0 < int (length vs) div 2 \<and> int (length vs) div 2 + 1 \<le> int (length vs) - 1"
      using \<open>vs \<noteq> []\<close> by (cases "length vs = 1") (auto simp: zdiv_int [symmetric])
    then show ?thesis using assms(6) by (intro find_loop_stops [OF assms(4-6)]) (auto simp: Suc_leI)
  next
    case True
    show ?thesis
    proof (cases "val = vs ! 1")
      case eq: True
      have "near_bucket vs val 1" using True eq by (simp add: near_bucket_def)
      then show ?thesis using True eq hist_holds_get(2) [OF assms(4), of 1] by (subst find_loop.simps) simp
    next
      case False
      then have "val < vs ! 1" using assms(8) True by (simp add: val_def)
      moreover have "\<exists>i. find_loop h val 0 1 0 = Some (Inr i) \<and> near_bucket vs val i"
        by (rule find_loop_stops [OF assms(4-6)]) (use True in auto)
      ultimately show ?thesis using True hist_holds_get(2) [OF assms(4), of 1]
        by (subst find_loop.simps) (simp add: sdiv_2)
    qed
  qed
  then show ?thesis
    using find_bucket_eq [OF assms(1-3,7) hist_holds_get(1) [OF assms(4)]] find_finish_ok [OF assms(4,5)]
    by (auto simp: val_def)
qed

text \<open>On two buckets the first probe is the second bucket, and the comparison with its successor reads the value after
  the end.\<close>

lemma find_bucket_two:
  assumes "rounding_ok rnd" "0 \<le> pos" "pos \<le> 1"
    and "hist_holds h vs" "prec_factor h = Inr f" "length vs = 2" "vs ! 1 < frac_value rnd f pos"
  shows "find_bucket rnd h pos first = Some (Inl Assertion)"
proof -
  have "find_loop h (frac_value rnd f pos) 0 1 1 = Some (Inl Assertion)"
    using assms hist_holds_get(2) [OF assms(4), of 1] hist_holds_get(3) [OF assms(4), of 2]
    by (subst find_loop.simps) (simp add: numeral_2_eq_2)
  then show ?thesis using find_bucket_eq [OF assms(1-3,5) hist_holds_get(1) [OF assms(4)]] assms(6) by simp
qed

text \<open>C8. For a histogram with non-decreasing values and a position between 0 and 1, the search returns, for every
  rounding of the product: the first or the last bucket that holds the value of the position; if no bucket has it, the
  first bucket with a greater value, and the last bucket where there is none. It never reads outside the array, except
  for histograms of two buckets with a value above both, where it reads the value behind the last bucket.\<close>

theorem find_bucket_correct:
  assumes "rounding_ok rnd" "0 \<le> pos" "pos \<le> 1"
    and "hist_holds h vs" "sorted vs" "vs \<noteq> []" "prec_factor h = Inr f"
  shows "find_bucket rnd h pos first =
    Some (if length vs = 2 \<and> vs ! 1 < frac_value rnd f pos then Inl Assertion
          else Inr (bucket_of vs (frac_value rnd f pos) first))"
  using find_bucket_exact [OF assms, of first] find_bucket_two [OF assms(1-4,7), of first] by force

section \<open>Filling the histogram\<close>

lemma uint2korr_int2store:
  "uint2korr_x86_64 (int2store_x86_64 m (i * 2) (ucast v)) (j * 2) = (if j = i then v else uint2korr_x86_64 m (j * 2))"
proof (cases "j = i")
  case True
  have "ucast (take_bit 16 (ucast v :: uint32)) = v" by (rule bit_word_eqI) (auto simp: bit_simps)
  then show ?thesis using True by (simp add: x2.load_store)
next
  case False
  then have "j * 2 + 2 \<le> i * 2 \<or> i * 2 + 2 \<le> j * 2" by linarith
  then show ?thesis using False by (simp add: x2.load_disjoint)
qed

lemma set_value_ok:
  assumes "rounding_ok rnd" "0 \<le> p" "p \<le> 1" "hist_holds h vs" "prec_factor h = Inr f" "i < length vs"
  shows "\<exists>h'. set_value rnd i p h = Inr h' \<and> hist_holds h' (vs[i := frac_value rnd f p]) \<and> prec_factor h' = Inr f"
proof (cases "hb_type h")
  case SINGLE_PREC_HB
  then have "f = 2 ^ 8 - 1" using assms(5) by (simp add: prec_factor_def)
  then obtain v :: uchar where "to_unsigned (rnd (p * real (2 ^ 8 - 1))) = Inr v" "unat v = frac_value rnd f p"
    using to_unsigned_fraction [OF assms(1-3), of "2 ^ 8 - 1", where 'a = 8] by auto
  then show ?thesis using SINGLE_PREC_HB assms
    by (auto simp: set_value_def hist_holds_def get_width_def get_value_def prec_factor_def nth_list_update)
next
  case DOUBLE_PREC_HB
  then have "f = 2 ^ 16 - 1" using assms(5) by (simp add: prec_factor_def)
  then obtain v :: uint16 where "to_unsigned (rnd (p * real (2 ^ 16 - 1))) = Inr v" "unat v = frac_value rnd f p"
    using to_unsigned_fraction [OF assms(1-3), of "2 ^ 16 - 1", where 'a = 16] by auto
  then show ?thesis using DOUBLE_PREC_HB assms
    by (auto simp: uint2korr_int2store set_value_def hist_holds_def get_width_def get_value_def prec_factor_def nth_list_update)
qed (use assms in \<open>simp_all add: prec_factor_def\<close>)

lemma set_prev_value_ok:
  assumes "hist_holds h vs" "0 < i" "i < length vs"
  shows "\<exists>h'. set_prev_value i h = Inr h' \<and> hist_holds h' (vs[i := vs ! (i - 1)]) \<and> prec_factor h' = prec_factor h"
proof (cases "hb_type h")
  case SINGLE_PREC_HB
  moreover have "get_value h (i - 1) = Inr (vs ! (i - 1))" using assms by (auto simp: hist_holds_def)
  ultimately show ?thesis using assms
    by (auto simp: set_prev_value_def hist_holds_def get_width_def get_value_def prec_factor_def nth_list_update split: if_splits)
next
  case DOUBLE_PREC_HB
  have "get_value h (i - 1) = Inr (vs ! (i - 1))" using assms by (auto simp: hist_holds_def)
  moreover have "i * 2 - 2 = (i - 1) * 2" using assms by simp
  ultimately show ?thesis using assms DOUBLE_PREC_HB
    by (auto simp: uint2korr_int2store set_prev_value_def hist_holds_def get_width_def get_value_def prec_factor_def nth_list_update split: if_splits)
qed (use assms in \<open>auto simp: hist_holds_def get_width_def\<close>)

lemma bucket_of_present_first:
  assumes "sorted vs" "i < length vs"
  shows "bucket_of vs (vs ! i) True \<le> i" "vs ! bucket_of vs (vs ! i) True = vs ! i"
proof -
  define j where "j = (LEAST j. vs ! j = vs ! i)"
  have j: "vs ! j = vs ! i" "j \<le> i" unfolding j_def by (rule LeastI, simp) (rule Least_le, simp)
  have "vs ! (j - 1) < vs ! i" if "j \<noteq> 0"
  proof -
    have "vs ! (j - 1) \<noteq> vs ! i" using not_less_Least [of "j - 1" "\<lambda>j. vs ! j = vs ! i"] that by (simp add: j_def)
    then show ?thesis using sorted_nth_mono [OF assms(1), of "j - 1" j] j assms(2) by simp
  qed
  then have "bucket_of vs (vs ! i) True = j" using assms j by (intro bucket_of_first) auto
  then show "bucket_of vs (vs ! i) True \<le> i" "vs ! bucket_of vs (vs ! i) True = vs ! i" using j by simp_all
qed

lemma bucket_of_present_last:
  assumes "sorted vs" "i < length vs"
  shows "i \<le> bucket_of vs (vs ! i) False" "bucket_of vs (vs ! i) False < length vs"
    "vs ! bucket_of vs (vs ! i) False = vs ! i"
proof -
  define P where "P k \<longleftrightarrow> k < length vs \<and> vs ! k = vs ! i" for k
  define k where "k = Greatest P"
  have i: "P i" and bound: "P y \<Longrightarrow> y \<le> length vs" for y using assms by (simp_all add: P_def)
  have k: "P k" "i \<le> k" unfolding k_def using GreatestI_nat [of P, OF i bound] Greatest_le_nat [of P, OF i bound] by auto
  have "vs ! i < vs ! (k + 1)" if "k + 1 \<noteq> length vs"
  proof -
    have "k + 1 < length vs" using k that by (simp add: P_def)
    moreover have "\<not> P (k + 1)" using Greatest_le_nat [of P "k + 1", OF _ bound] by (auto simp: k_def)
    ultimately show ?thesis using sorted_nth_mono [OF assms(1), of k "k + 1"] k by (simp add: P_def)
  qed
  then have "bucket_of vs (vs ! i) False = k" using assms k by (intro bucket_of_last) (auto simp: P_def)
  then show "i \<le> bucket_of vs (vs ! i) False" "bucket_of vs (vs ! i) False < length vs"
    "vs ! bucket_of vs (vs ! i) False = vs ! i" using k by (simp_all add: P_def)
qed

text \<open>A histogram whose buckets hold the values of a non-decreasing sequence of fractions is searched correctly
  for each of them: the bucket of the fraction lies between the first and the last bucket that the search returns, and
  all three hold the same value.\<close>

theorem find_bucket_of_stored:
  assumes "rounding_ok rnd" "prec_factor h = Inr f" "hist_holds h (map (frac_value rnd f) ps)"
    and "sorted ps" "set ps \<subseteq> {0..1}" "length ps \<noteq> 2" "i < length ps"
  shows "\<exists>j k. find_bucket rnd h (ps ! i) True = Some (Inr j) \<and> find_bucket rnd h (ps ! i) False = Some (Inr k)
    \<and> j \<le> i \<and> i \<le> k \<and> k < length ps \<and> get_value h j = get_value h i \<and> get_value h k = get_value h i"
proof -
  define vs where "vs = map (frac_value rnd f) ps"
  have vs: "hist_holds h vs" "length vs = length ps" "i < length vs" using assms by (simp_all add: vs_def)
  have sorted: "sorted vs" using assms(4) unfolding vs_def sorted_map
    by (rule sorted_wrt_mono_rel [rotated]) (rule frac_value_mono [OF assms(1)])
  have val: "vs ! i = frac_value rnd f (ps ! i)" using assms(7) by (simp add: vs_def)
  have p: "0 \<le> ps ! i" "ps ! i \<le> 1" using assms(5,7) by (auto simp: subset_iff)
  have "find_bucket rnd h (ps ! i) first = Some (Inr (bucket_of vs (vs ! i) first))" for first
    unfolding val
    by (rule find_bucket_exact [OF assms(1) p vs(1) sorted _ assms(2)]) (use vs assms(6) in auto)
  then show ?thesis
    using bucket_of_present_first [OF sorted vs(3)] bucket_of_present_last [OF sorted vs(3)] vs hist_holds_get(2) [OF vs(1)]
    by auto
qed

lemma rounding_ok_id: "rounding_ok (\<lambda>x. x)"
  by (simp add: rounding_ok_def mono_def)

definition ex_histogram :: Histogram_binary where
  "ex_histogram = \<lparr>hb_type = SINGLE_PREC_HB, hb_size = 5, hb_values = (\<lambda>i. [0, 51, 51, 51, 204] ! i)\<rparr>"

lemma ex_histogram_holds:
  "prec_factor ex_histogram = Inr 255" "hist_holds ex_histogram [0, 51, 51, 51, 204]"
  "map (frac_value (\<lambda>x. x) 255) [0, 1/5, 1/5, 1/5, 4/5] = [0, 51, 51, 51, 204]"
proof -
  have "get_width ex_histogram = Inr 5" by (simp add: ex_histogram_def get_width_def)
  then show "hist_holds ex_histogram [0, 51, 51, 51, 204]"
    by (auto simp: hist_holds_def get_value_def ex_histogram_def less_Suc_eq)
qed (simp_all add: ex_histogram_def prec_factor_def frac_value_def)

theorem find_bucket_correct_witness:
  "find_bucket (\<lambda>x. x) ex_histogram (1/5) True = Some (Inr 1)
   \<and> find_bucket (\<lambda>x. x) ex_histogram (1/5) False = Some (Inr 3)
   \<and> find_bucket (\<lambda>x. x) ex_histogram 1 True = Some (Inr 4)"
proof -
  note f = find_bucket_correct [OF rounding_ok_id _ _ ex_histogram_holds(2) _ _ ex_histogram_holds(1)]
  have "sorted [0, 51, 51, 51, 204 :: nat]" "[0, 51, 51, 51, 204 :: nat] \<noteq> []" by simp_all
  note g = f [OF _ _ this]
  show ?thesis
    using g [of "1/5" True] g [of "1/5" False] g [of 1 True] by (simp add: frac_value_def bucket_of_def)
qed

theorem find_bucket_of_stored_witness:
  "\<exists>j k. find_bucket (\<lambda>x. x) ex_histogram (1/5) True = Some (Inr j)
    \<and> find_bucket (\<lambda>x. x) ex_histogram (1/5) False = Some (Inr k) \<and> j \<le> 2 \<and> 2 \<le> k"
  using find_bucket_of_stored [OF rounding_ok_id ex_histogram_holds(1), of "[0, 1/5, 1/5, 1/5, 4/5]" 2]
    ex_histogram_holds(2,3) by auto

section \<open>The counters and the columns of the statistics\<close>

lemma unat_stats_count:
  "bs_count (fold stats_next cnts s) = bs_count s + of_nat (\<Sum>c\<leftarrow>cnts. unat c)
   \<and> bs_count_distinct (fold stats_next cnts s) = bs_count_distinct s + of_nat (length cnts)
   \<and> bs_count_distinct_single_occurence (fold stats_next cnts s)
       = bs_count_distinct_single_occurence s + of_nat (length (filter (\<lambda>c. c = 1) cnts))"
  by (induction cnts arbitrary: s) (simp_all add: stats_next_def Let_def algebra_simps)

text \<open>The bits of the missing columns.\<close>

lemma bitmap_bits: "bit_set no_values_provided_bitmap = {3..10}"
proof -
  have "no_values_provided_bitmap = push_bit 3 (mask 8)"
    by (simp add: no_values_provided_bitmap_def mask_eq_exp_minus_1 push_bit_eq_mult)
  moreover have "bit_set (push_bit 3 (mask 8) :: uint32) = {3..10}" by (auto simp: bit_simps)
  ultimately show ?thesis by simp
qed

lemma is_null_iff: "f < 32 \<Longrightarrow> is_null s f \<longleftrightarrow> f \<in> bit_set (column_stat_nulls s)"
  using and_push_bit_1_eq_0_iff [of f "column_stat_nulls s"] by (simp add: is_null_def)

lemma set_not_null_bits:
  "f < 32 \<Longrightarrow> bit_set (column_stat_nulls (set_not_null f s)) = bit_set (column_stat_nulls s) - {f}"
  using bit_set_and_not [of "column_stat_nulls s" "push_bit f 1"] bit_set_push_bit_1 [of f, where 'a = 32]
  by (simp add: set_not_null_def)

lemma fold_set_not_null_bits:
  "set fs \<subseteq> {..<32} \<Longrightarrow>
   bit_set (column_stat_nulls (fold set_not_null fs s)) = bit_set (column_stat_nulls s) - set fs"
  by (induction fs arbitrary: s) (auto simp: set_not_null_bits)

text \<open>After \<^verbatim>\<open>set_all_nulls\<close> and any calls of \<^verbatim>\<open>set_not_null\<close>, a column of the statistics table is reported
  null exactly if it is one of the optional columns and was not set; the statistics are reported missing exactly if no
  optional column was set, and minimum and maximum are provided exactly if both were set.\<close>

theorem column_statistics_nulls:
  fixes s0 :: Column_statistics
  assumes "set fs \<subseteq> {..<32}"
  defines "s \<equiv> fold set_not_null fs (set_all_nulls s0)"
  shows "(\<forall>f < 32. is_null s f \<longleftrightarrow> stat_col COLUMN_STAT_MIN_VALUE \<le> f \<and> f \<le> stat_col COLUMN_STAT_HISTOGRAM \<and> f \<notin> set fs)
    \<and> (no_stat_values_provided s \<longleftrightarrow> set fs \<inter> {stat_col COLUMN_STAT_MIN_VALUE..stat_col COLUMN_STAT_HISTOGRAM} = {})
    \<and> (min_max_values_are_provided s \<longleftrightarrow>
         stat_col COLUMN_STAT_MIN_VALUE \<in> set fs \<and> stat_col COLUMN_STAT_MAX_VALUE \<in> set fs)"
proof -
  have b: "bit_set (column_stat_nulls s) = {3..10} - set fs"
    using fold_set_not_null_bits [OF assms(1)] by (simp add: s_def set_all_nulls_def bitmap_bits)
  then have "no_stat_values_provided s \<longleftrightarrow> {3..10} - set fs = {3..10}"
    using bit_set_eq_iff [of "column_stat_nulls s" no_values_provided_bitmap]
    by (simp add: no_stat_values_provided_def bitmap_bits)
  then have "no_stat_values_provided s \<longleftrightarrow> set fs \<inter> {3..10} = {}" by auto
  then show ?thesis using b by (auto simp: is_null_iff min_max_values_are_provided_def)
qed

theorem column_statistics_nulls_witness:
  "\<not> no_stat_values_provided (fold set_not_null [3, 5] (set_all_nulls
      \<lparr>column_stat_nulls = 0, nulls_ratio = 0, avg_length = 0, avg_frequency = 0\<rparr>))"
  using column_statistics_nulls [of "[3, 5]" "\<lparr>column_stat_nulls = 0, nulls_ratio = 0, avg_length = 0, avg_frequency = 0\<rparr>"]
  by simp

end
