(* ===== verification/Sel_Arg.thy ===== *)
theory Sel_Arg
  imports Prelude
begin

text \<open>
  The intervals of the range optimizer (\<^verbatim>\<open>opt_range.h\<close>): the class \<^verbatim>\<open>SEL_ARG\<close> with its operations on one interval, the
  construction of the keys of a range along the key parts, and \<^verbatim>\<open>QUICK_RANGE\<close> with the end points for the storage
  engine.

  The nodes of a graph live in a store indexed by addresses, 0 is the null pointer. Key images are lists of bytes.
  Parameters are what the header only declares: \<^verbatim>\<open>sel_cmp\<close>, the constructor of an interval (\<open>mk\<close>), \<^verbatim>\<open>Field::key_cmp\<close>, and
  the search for the \<^verbatim>\<open>first\<close> and \<^verbatim>\<open>last\<close> interval of a list. A \<^verbatim>\<open>long\<close> has 32 bits on the bundled build.
\<close>

section \<open>Flags and key parts\<close>

definition NO_MIN_RANGE :: "'a::len word" where "NO_MIN_RANGE = 1"
definition NO_MAX_RANGE :: "'a::len word" where "NO_MAX_RANGE = 2"
definition NEAR_MIN :: "'a::len word" where "NEAR_MIN = 4"
definition NEAR_MAX :: "'a::len word" where "NEAR_MAX = 8"
definition EQ_RANGE :: "'a::len word" where "EQ_RANGE = 32"
definition GEOM_FLAG :: "'a::len word" where "GEOM_FLAG = 128"
definition HA_REVERSE_SORT :: "'a::len word" where "HA_REVERSE_SORT = 128"

lemmas range_flags = NO_MIN_RANGE_def NO_MAX_RANGE_def NEAR_MIN_def NEAR_MAX_def EQ_RANGE_def GEOM_FLAG_def

definition has_flag :: "'a::len word \<Rightarrow> 'a word \<Rightarrow> bool" where
  "has_flag flag f \<longleftrightarrow> flag AND f \<noteq> 0"

record KEY_PART =
  kp_key :: uint16
  kp_part :: uint16
  kp_store_length :: uint16
  kp_length :: uint16
  kp_null_bit :: uchar
  kp_flag :: uchar

definition invert_min_flag :: "uint32 \<Rightarrow> uint32" where
  "invert_min_flag min_flag =
     (let out = min_flag AND NOT (NEAR_MIN OR NO_MIN_RANGE);
          out = (if has_flag min_flag NEAR_MIN then out OR NEAR_MAX else out)
      in if has_flag min_flag NO_MIN_RANGE then out OR NO_MAX_RANGE else out)"

definition invert_max_flag :: "uint32 \<Rightarrow> uint32" where
  "invert_max_flag max_flag =
     (let out = max_flag AND NOT (NEAR_MAX OR NO_MAX_RANGE);
          out = (if has_flag max_flag NEAR_MAX then out OR NEAR_MIN else out)
      in if has_flag max_flag NO_MAX_RANGE then out OR NO_MIN_RANGE else out)"

section \<open>The class SEL\_ARG\<close>

datatype leaf_color = BLACK | RED

datatype sel_type = IMPOSSIBLE | MAYBE | MAYBE_KEY | KEY_RANGE

type_synonym bytes = "uchar list"

record SEL_ARG =
  min_flag :: uchar
  max_flag :: uchar
  maybe_flag :: uchar
  part :: uchar
  maybe_null :: uchar
  max_part_no :: uint16
  elements :: uint32
  use_count :: uint32
  field :: addr
  min_value :: bytes
  max_value :: bytes
  left :: addr
  right :: addr
  next_arg :: addr
  prev_arg :: addr
  parent :: addr
  next_key_part :: addr
  color :: leaf_color
  type :: sel_type
  weight :: uint32

type_synonym sel_cmp = "addr \<Rightarrow> bytes \<Rightarrow> bytes \<Rightarrow> uchar \<Rightarrow> uchar \<Rightarrow> int"
type_synonym sel_ctor = "addr \<Rightarrow> uchar \<Rightarrow> bytes \<Rightarrow> bytes \<Rightarrow> uchar \<Rightarrow> uchar \<Rightarrow> uchar \<Rightarrow> SEL_ARG"

definition mk_degenerate :: "sel_type \<Rightarrow> SEL_ARG \<Rightarrow> SEL_ARG" where
  "mk_degenerate type_arg undef =
     undef\<lparr>min_flag := 0, max_part_no := 0, elements := 1, use_count := 1, left := 0, right := 0,
           next_key_part := 0, color := BLACK, type := type_arg, weight := 1\<rparr>"

definition cmp_min_to_min :: "sel_cmp \<Rightarrow> SEL_ARG \<Rightarrow> SEL_ARG \<Rightarrow> int" where
  "cmp_min_to_min sc a arg = sc (field a) (min_value a) (min_value arg) (min_flag a) (min_flag arg)"

definition cmp_min_to_max :: "sel_cmp \<Rightarrow> SEL_ARG \<Rightarrow> SEL_ARG \<Rightarrow> int" where
  "cmp_min_to_max sc a arg = sc (field a) (min_value a) (max_value arg) (min_flag a) (max_flag arg)"

definition cmp_max_to_max :: "sel_cmp \<Rightarrow> SEL_ARG \<Rightarrow> SEL_ARG \<Rightarrow> int" where
  "cmp_max_to_max sc a arg = sc (field a) (max_value a) (max_value arg) (max_flag a) (max_flag arg)"

definition cmp_max_to_min :: "sel_cmp \<Rightarrow> SEL_ARG \<Rightarrow> SEL_ARG \<Rightarrow> int" where
  "cmp_max_to_min sc a arg = sc (field a) (max_value a) (min_value arg) (max_flag a) (min_flag arg)"

definition is_same :: "sel_cmp \<Rightarrow> SEL_ARG \<Rightarrow> SEL_ARG \<Rightarrow> bool" where
  "is_same sc a arg \<longleftrightarrow>
     (if type a \<noteq> type arg \<or> part a \<noteq> part arg then False
      else if type a \<noteq> KEY_RANGE then True
      else cmp_min_to_min sc a arg = 0 \<and> cmp_max_to_max sc a arg = 0)"

text \<open>The walk of \<^verbatim>\<open>all_same\<close> along two lists of intervals returns where it stops.\<close>

partial_function (option) all_same_walk :: "sel_cmp \<Rightarrow> (addr \<Rightarrow> SEL_ARG) \<Rightarrow> addr \<Rightarrow> addr \<Rightarrow> (addr \<times> addr) option" where
  "all_same_walk sc G cur_arg cmp_arg =
     (if cur_arg \<noteq> 0 \<and> cmp_arg \<noteq> 0 \<and> is_same sc (G cur_arg) (G cmp_arg)
      then all_same_walk sc G (next_arg (G cur_arg)) (next_arg (G cmp_arg))
      else Some (cur_arg, cmp_arg))"

definition all_same :: "sel_cmp \<Rightarrow> (addr \<Rightarrow> addr) \<Rightarrow> (addr \<Rightarrow> SEL_ARG) \<Rightarrow> addr \<Rightarrow> addr \<Rightarrow> bool option" where
  "all_same sc first G this arg =
     (if type (G this) \<noteq> type (G arg) \<or> part (G this) \<noteq> part (G arg) then Some False
      else if type (G this) \<noteq> KEY_RANGE then Some True
      else if arg = this then Some True
      else case all_same_walk sc G (first this) (first arg) of
          None \<Rightarrow> None
        | Some (cur_arg, cmp_arg) \<Rightarrow> Some (if cur_arg \<noteq> 0 \<or> cmp_arg \<noteq> 0 then False else True))"

definition merge_flags :: "SEL_ARG \<Rightarrow> SEL_ARG \<Rightarrow> SEL_ARG" where
  "merge_flags arg a = a\<lparr>maybe_flag := maybe_flag a OR maybe_flag arg\<rparr>"

definition maybe_smaller :: "SEL_ARG \<Rightarrow> SEL_ARG" where
  "maybe_smaller a = a\<lparr>maybe_flag := 1\<rparr>"

text \<open>The first byte of an image that may be null; reading it needs one.\<close>

fun first_byte :: "bytes \<Rightarrow> uchar option" where
  "first_byte [] = None"
| "first_byte (b # _) = Some b"

definition is_null_interval :: "SEL_ARG \<Rightarrow> bool option" where
  "is_null_interval a = (if maybe_null a \<noteq> 0 then map_option (\<lambda>b. b = 1) (first_byte (max_value a)) else Some False)"

definition clone_and :: "sel_cmp \<Rightarrow> sel_ctor \<Rightarrow> SEL_ARG \<Rightarrow> SEL_ARG \<Rightarrow> SEL_ARG" where
  "clone_and sc mk arg a =
     (let (new_min, flag_min) =
            (if cmp_min_to_min sc a arg \<ge> 0 then (min_value a, min_flag a) else (min_value arg, min_flag arg));
          (new_max, flag_max) =
            (if cmp_max_to_max sc a arg \<le> 0 then (max_value a, max_flag a) else (max_value arg, max_flag arg))
      in mk (field a) (part a) new_min new_max flag_min flag_max
           (if maybe_flag a \<noteq> 0 \<and> maybe_flag arg \<noteq> 0 then 1 else 0))"

definition clone_first :: "sel_ctor \<Rightarrow> SEL_ARG \<Rightarrow> SEL_ARG \<Rightarrow> SEL_ARG" where
  "clone_first mk arg a =
     mk (field a) (part a) (min_value a) (min_value arg) (min_flag a)
       (if has_flag (min_flag arg) NEAR_MIN then 0 else NEAR_MAX) (maybe_flag a OR maybe_flag arg)"

definition clone_last :: "sel_ctor \<Rightarrow> SEL_ARG \<Rightarrow> SEL_ARG \<Rightarrow> SEL_ARG" where
  "clone_last mk arg a =
     mk (field a) (part a) (min_value a) (max_value arg) (min_flag a) (max_flag arg) (maybe_flag a OR maybe_flag arg)"

definition full_range :: "uchar \<Rightarrow> bool" where
  "full_range flag \<longleftrightarrow> flag AND (NO_MAX_RANGE OR NO_MIN_RANGE) = NO_MAX_RANGE OR NO_MIN_RANGE"

definition copy_min :: "sel_cmp \<Rightarrow> SEL_ARG \<Rightarrow> SEL_ARG \<Rightarrow> bool \<times> SEL_ARG" where
  "copy_min sc arg a =
     (if cmp_min_to_min sc a arg > 0
      then let a = a\<lparr>min_value := min_value arg, min_flag := min_flag arg\<rparr>
           in if full_range (max_flag a) then (True, a)
              else (False, a\<lparr>maybe_flag := maybe_flag a OR maybe_flag arg\<rparr>)
      else (False, a\<lparr>maybe_flag := maybe_flag a OR maybe_flag arg\<rparr>))"

definition copy_max :: "sel_cmp \<Rightarrow> SEL_ARG \<Rightarrow> SEL_ARG \<Rightarrow> bool \<times> SEL_ARG" where
  "copy_max sc arg a =
     (if cmp_max_to_max sc a arg \<le> 0
      then let a = a\<lparr>max_value := max_value arg, max_flag := max_flag arg\<rparr>
           in if full_range (max_flag a) then (True, a)
              else (False, a\<lparr>maybe_flag := maybe_flag a OR maybe_flag arg\<rparr>)
      else (False, a\<lparr>maybe_flag := maybe_flag a OR maybe_flag arg\<rparr>))"

definition copy_min_to_min :: "SEL_ARG \<Rightarrow> SEL_ARG \<Rightarrow> SEL_ARG" where
  "copy_min_to_min arg a = a\<lparr>min_value := min_value arg, min_flag := min_flag arg\<rparr>"

definition copy_min_to_max :: "SEL_ARG \<Rightarrow> SEL_ARG \<Rightarrow> SEL_ARG" where
  "copy_min_to_max arg a =
     a\<lparr>max_value := min_value arg, max_flag := (if has_flag (min_flag arg) NEAR_MIN then 0 else NEAR_MAX)\<rparr>"

definition copy_max_to_min :: "SEL_ARG \<Rightarrow> SEL_ARG \<Rightarrow> SEL_ARG" where
  "copy_max_to_min arg a =
     a\<lparr>min_value := max_value arg, min_flag := (if has_flag (max_flag arg) NEAR_MAX then 0 else NEAR_MIN)\<rparr>"

definition is_singlepoint :: "(addr \<Rightarrow> bytes \<Rightarrow> bytes \<Rightarrow> int) \<Rightarrow> SEL_ARG \<Rightarrow> bool option" where
  "is_singlepoint key_cmp a =
     (if min_flag a \<noteq> 0 \<or> max_flag a \<noteq> 0 then Some False
      else if maybe_null a \<noteq> 0
      then (case (first_byte (min_value a), first_byte (max_value a)) of
              (Some m, Some n) \<Rightarrow>
                Some (if m \<noteq> n then False
                      else if m \<noteq> 0 then True
                      else key_cmp (field a) (tl (min_value a)) (tl (max_value a)) = 0)
            | _ \<Rightarrow> None)
      else Some (key_cmp (field a) (min_value a) (max_value a) = 0))"

section \<open>Storing the keys of a range\<close>

text \<open>The key buffer is the list of the bytes stored so far. Copying needs an image of the length copied.\<close>

definition store_image :: "SEL_ARG \<Rightarrow> nat \<Rightarrow> bytes \<Rightarrow> bytes \<Rightarrow> bytes option" where
  "store_image a len value buf =
     (case (maybe_null a \<noteq> 0, first_byte value) of
        (True, None) \<Rightarrow> None
      | (True, Some b) \<Rightarrow>
          if b \<noteq> 0 then (if len = 0 then None else Some (buf @ 1 # replicate (len - 1) 0))
          else if len \<le> length value then Some (buf @ take len value) else None
      | (False, _) \<Rightarrow> if len \<le> length value then Some (buf @ take len value) else None)"

definition store_min :: "SEL_ARG \<Rightarrow> nat \<Rightarrow> bytes \<Rightarrow> uint32 \<Rightarrow> (nat \<times> bytes) option" where
  "store_min a len min_key min_key_flag =
     (if has_flag (min_flag a) GEOM_FLAG \<or>
         (\<not> has_flag (min_flag a) NO_MIN_RANGE \<and> \<not> has_flag min_key_flag (NO_MIN_RANGE OR NEAR_MIN))
      then map_option (\<lambda>b. (1, b)) (store_image a len (min_value a) min_key)
      else Some (0, min_key))"

definition store_max :: "SEL_ARG \<Rightarrow> nat \<Rightarrow> bytes \<Rightarrow> uint32 \<Rightarrow> (nat \<times> bytes) option" where
  "store_max a len max_key max_key_flag =
     (if \<not> has_flag (max_flag a) NO_MAX_RANGE \<and> \<not> has_flag max_key_flag (NO_MAX_RANGE OR NEAR_MAX)
      then map_option (\<lambda>b. (1, b)) (store_image a len (max_value a) max_key)
      else Some (0, max_key))"

definition is_desc :: "(nat \<Rightarrow> KEY_PART) \<Rightarrow> SEL_ARG \<Rightarrow> bool" where
  "is_desc kp a \<longleftrightarrow> has_flag (kp_flag (kp (unat (part a)))) HA_REVERSE_SORT"

definition store_min_max ::
    "(nat \<Rightarrow> KEY_PART) \<Rightarrow> SEL_ARG \<Rightarrow> nat \<Rightarrow> bytes \<Rightarrow> uint32 \<Rightarrow> bytes \<Rightarrow> uint32 \<Rightarrow> nat \<Rightarrow> nat
     \<Rightarrow> (bytes \<times> bytes \<times> nat \<times> nat) option" where
  "store_min_max kp a len min_key min_key_flag max_key max_key_flag min_part max_part =
     (if is_desc kp a
      then (case store_min a len max_key min_key_flag of
              None \<Rightarrow> None
            | Some (n, max_key) \<Rightarrow>
                (case store_max a len min_key max_key_flag of
                   None \<Rightarrow> None
                 | Some (m, min_key) \<Rightarrow> Some (min_key, max_key, min_part + m, max_part + n)))
      else (case store_min a len min_key min_key_flag of
              None \<Rightarrow> None
            | Some (n, min_key) \<Rightarrow>
                (case store_max a len max_key max_key_flag of
                   None \<Rightarrow> None
                 | Some (m, max_key) \<Rightarrow> Some (min_key, max_key, min_part + n, max_part + m))))"

definition get_min_flag :: "(nat \<Rightarrow> KEY_PART) \<Rightarrow> SEL_ARG \<Rightarrow> uint32" where
  "get_min_flag kp a = (if is_desc kp a then invert_max_flag (ucast (max_flag a)) else ucast (min_flag a))"

definition get_max_flag :: "(nat \<Rightarrow> KEY_PART) \<Rightarrow> SEL_ARG \<Rightarrow> uint32" where
  "get_max_flag kp a = (if is_desc kp a then invert_min_flag (ucast (min_flag a)) else ucast (max_flag a))"

definition index_order_prev :: "(nat \<Rightarrow> KEY_PART) \<Rightarrow> SEL_ARG \<Rightarrow> addr" where
  "index_order_prev kp a = (if is_desc kp a then next_arg a else prev_arg a)"

definition index_order_next :: "(nat \<Rightarrow> KEY_PART) \<Rightarrow> SEL_ARG \<Rightarrow> addr" where
  "index_order_next kp a = (if is_desc kp a then prev_arg a else next_arg a)"

text \<open>\<^verbatim>\<open>store_min_key\<close> (\<open>mi = True\<close>) and \<^verbatim>\<open>store_max_key\<close> (\<open>mi = False\<close>) call each other.\<close>

partial_function (option) store_key ::
    "(addr \<Rightarrow> addr) \<Rightarrow> (addr \<Rightarrow> addr) \<Rightarrow> (addr \<Rightarrow> SEL_ARG) \<Rightarrow> (nat \<Rightarrow> KEY_PART) \<Rightarrow> uint32 \<Rightarrow> bool \<Rightarrow> bool
     \<Rightarrow> addr \<Rightarrow> bytes \<Rightarrow> uint32 \<Rightarrow> (nat \<times> bytes \<times> uint32) option" where
  "store_key first_arg last_arg G key last_part start_key mi this range_key range_key_flag =
     (let key_tree = G (if mi then first_arg this else last_arg this);
          len = unat (kp_store_length (key (unat (part key_tree))))
      in case (if mi then store_min key_tree len range_key range_key_flag
               else store_max key_tree len range_key range_key_flag) of
           None \<Rightarrow> None
         | Some (res, range_key) \<Rightarrow>
             if res = 0 then Some (0, range_key, range_key_flag)
             else
               let range_key_flag = range_key_flag OR ucast (if mi then min_flag key_tree else max_flag key_tree);
                   nkp = next_key_part key_tree
               in if nkp \<noteq> 0 \<and> type (G nkp) = KEY_RANGE \<and> ucast (part key_tree) \<noteq> last_part \<and>
                     unat (part (G nkp)) = unat (part key_tree) + 1 \<and>
                     \<not> has_flag range_key_flag (if mi then NO_MIN_RANGE OR NEAR_MIN else NO_MAX_RANGE OR NEAR_MAX)
                  then let asc = (\<not> is_desc key key_tree);
                           same = (if mi then start_key = asc else (\<not> start_key \<and> asc) \<or> (start_key \<and> \<not> asc))
                       in if same
                          then Option.bind (store_key first_arg last_arg G key last_part start_key mi nkp range_key range_key_flag)
                                 (\<lambda>(n, range_key, range_key_flag). Some (res + n, range_key, range_key_flag))
                          else Option.bind (store_key first_arg last_arg G key last_part start_key (\<not> mi) nkp range_key
                                       (if mi then invert_min_flag range_key_flag else invert_max_flag range_key_flag))
                                 (\<lambda>(n, range_key, tmp_flag).
                                    Some (res + n, range_key,
                                          if mi then invert_max_flag tmp_flag else invert_min_flag tmp_flag))
                  else Some (res, range_key, range_key_flag))"

definition store_min_key ::
    "(addr \<Rightarrow> addr) \<Rightarrow> (addr \<Rightarrow> addr) \<Rightarrow> (addr \<Rightarrow> SEL_ARG) \<Rightarrow> (nat \<Rightarrow> KEY_PART) \<Rightarrow> uint32 \<Rightarrow> bool
     \<Rightarrow> addr \<Rightarrow> bytes \<Rightarrow> uint32 \<Rightarrow> (nat \<times> bytes \<times> uint32) option" where
  "store_min_key first_arg last_arg G key last_part start_key =
     store_key first_arg last_arg G key last_part start_key True"

definition store_max_key ::
    "(addr \<Rightarrow> addr) \<Rightarrow> (addr \<Rightarrow> addr) \<Rightarrow> (addr \<Rightarrow> SEL_ARG) \<Rightarrow> (nat \<Rightarrow> KEY_PART) \<Rightarrow> uint32 \<Rightarrow> bool
     \<Rightarrow> addr \<Rightarrow> bytes \<Rightarrow> uint32 \<Rightarrow> (nat \<times> bytes \<times> uint32) option" where
  "store_max_key first_arg last_arg G key last_part start_key =
     store_key first_arg last_arg G key last_part start_key False"

definition simple_key :: "SEL_ARG \<Rightarrow> bool" where
  "simple_key a \<longleftrightarrow> next_key_part a = 0 \<and> elements a = 1"

text \<open>The counts of references: \<^verbatim>\<open>increment_use_count\<close> on a node (first argument true) and its loop over a list of
  intervals (first argument false), and the loop of \<^verbatim>\<open>free_tree\<close>.\<close>

partial_function (option) increment_use_count ::
    "(addr \<Rightarrow> addr) \<Rightarrow> bool \<Rightarrow> addr \<Rightarrow> uint32 \<Rightarrow> (addr \<Rightarrow> SEL_ARG) \<Rightarrow> (addr \<Rightarrow> SEL_ARG) option" where
  "increment_use_count first_arg on_node x count G =
     (if on_node
      then (let n = next_key_part (G x)
            in if n \<noteq> 0
               then let G = G(n := (G n)\<lparr>use_count := use_count (G n) + count\<rparr>);
                        count = count * (use_count (G n) - count)
                    in increment_use_count first_arg False (first_arg n) count G
               else Some G)
      else if x = 0 then Some G
      else Option.bind (if next_key_part (G x) \<noteq> 0 then increment_use_count first_arg True x count G else Some G)
             (\<lambda>G. increment_use_count first_arg False (next_arg (G x)) count G))"

definition incr_refs :: "(addr \<Rightarrow> addr) \<Rightarrow> addr \<Rightarrow> (addr \<Rightarrow> SEL_ARG) \<Rightarrow> (addr \<Rightarrow> SEL_ARG) option" where
  "incr_refs first_arg x G =
     map_option (\<lambda>G. G(x := (G x)\<lparr>use_count := use_count (G x) + 1\<rparr>)) (increment_use_count first_arg True x 1 G)"

partial_function (option) incr_refs_walk :: "(addr \<Rightarrow> addr) \<Rightarrow> addr \<Rightarrow> (addr \<Rightarrow> SEL_ARG) \<Rightarrow> (addr \<Rightarrow> SEL_ARG) option" where
  "incr_refs_walk first_arg pos G =
     (if pos = 0 then Some G
      else Option.bind (increment_use_count first_arg True pos 1 G)
             (\<lambda>G. incr_refs_walk first_arg (next_arg (G pos)) G))"

definition incr_refs_all :: "(addr \<Rightarrow> addr) \<Rightarrow> addr \<Rightarrow> (addr \<Rightarrow> SEL_ARG) \<Rightarrow> (addr \<Rightarrow> SEL_ARG) option" where
  "incr_refs_all first_arg x G =
     map_option (\<lambda>G. G(x := (G x)\<lparr>use_count := use_count (G x) + 1\<rparr>)) (incr_refs_walk first_arg (first_arg x) G)"

partial_function (option) free_walk :: "(addr \<Rightarrow> addr) \<Rightarrow> addr \<Rightarrow> (addr \<Rightarrow> SEL_ARG) \<Rightarrow> (addr \<Rightarrow> SEL_ARG) option" where
  "free_walk first_arg pos G =
     (if pos = 0 then Some G
      else let n = next_key_part (G pos)
           in Option.bind
                (if n \<noteq> 0
                 then free_walk first_arg (first_arg n) (G(n := (G n)\<lparr>use_count := use_count (G n) - 1\<rparr>))
                 else Some G)
                (\<lambda>G. free_walk first_arg (next_arg (G pos)) G))"

definition free_tree :: "(addr \<Rightarrow> addr) \<Rightarrow> addr \<Rightarrow> (addr \<Rightarrow> SEL_ARG) \<Rightarrow> (addr \<Rightarrow> SEL_ARG) option" where
  "free_tree first_arg x G = free_walk first_arg (first_arg x) G"

definition parent_ptr_is_left :: "(addr \<Rightarrow> SEL_ARG) \<Rightarrow> addr \<Rightarrow> bool" where
  "parent_ptr_is_left G x \<longleftrightarrow> left (G (parent (G x))) = x"

definition RANGE_MAX_SEL_ARGS :: uint32 where "RANGE_MAX_SEL_ARGS = 16000"

definition statement_should_be_aborted :: "bool \<Rightarrow> bool \<Rightarrow> bool \<Rightarrow> uint32 \<Rightarrow> bool" where
  "statement_should_be_aborted killed is_fatal_error is_error alloced_sel_args \<longleftrightarrow>
     killed \<or> is_fatal_error \<or> is_error \<or> alloced_sel_args > RANGE_MAX_SEL_ARGS"

section \<open>QUICK\_RANGE\<close>

datatype ha_rkey_function =
  HA_READ_KEY_EXACT | HA_READ_KEY_OR_NEXT | HA_READ_KEY_OR_PREV | HA_READ_AFTER_KEY | HA_READ_BEFORE_KEY
| HA_READ_PREFIX | HA_READ_PREFIX_LAST | HA_READ_PREFIX_LAST_OR_PREV | HA_READ_MBR_CONTAIN | HA_READ_MBR_INTERSECT
| HA_READ_MBR_WITHIN | HA_READ_MBR_DISJOINT | HA_READ_MBR_EQUAL

record key_range =
  kr_key :: bytes
  kr_length :: uint32
  kr_keypart_map :: uint32
  kr_flag :: ha_rkey_function

record QUICK_RANGE =
  qr_min_key :: bytes
  qr_max_key :: bytes
  qr_min_length :: uint16
  qr_max_length :: uint16
  qr_flag :: uint16
  qr_min_keypart_map :: uint32
  qr_max_keypart_map :: uint32

text \<open>The constructor copies one byte more than the lengths say.\<close>

definition mk_QUICK_RANGE ::
    "bytes \<Rightarrow> uint32 \<Rightarrow> uint32 \<Rightarrow> bytes \<Rightarrow> uint32 \<Rightarrow> uint32 \<Rightarrow> uint32 \<Rightarrow> QUICK_RANGE option" where
  "mk_QUICK_RANGE min_key min_length min_map max_key max_length max_map flag_arg =
     (if unat (min_length + 1) \<le> length min_key \<and> unat (max_length + 1) \<le> length max_key
      then Some \<lparr>qr_min_key = take (unat (min_length + 1)) min_key, qr_max_key = take (unat (max_length + 1)) max_key,
                 qr_min_length = ucast min_length, qr_max_length = ucast max_length, qr_flag = ucast flag_arg,
                 qr_min_keypart_map = min_map, qr_max_keypart_map = max_map\<rparr>
      else None)"

definition make_min_endpoint :: "QUICK_RANGE \<Rightarrow> key_range" where
  "make_min_endpoint q =
     \<lparr>kr_key = qr_min_key q, kr_length = ucast (qr_min_length q), kr_keypart_map = qr_min_keypart_map q,
      kr_flag = (if has_flag (qr_flag q) NEAR_MIN then HA_READ_AFTER_KEY
                 else if has_flag (qr_flag q) EQ_RANGE then HA_READ_KEY_EXACT else HA_READ_KEY_OR_NEXT)\<rparr>"

definition make_max_endpoint :: "QUICK_RANGE \<Rightarrow> key_range" where
  "make_max_endpoint q =
     \<lparr>kr_key = qr_max_key q, kr_length = ucast (qr_max_length q), kr_keypart_map = qr_max_keypart_map q,
      kr_flag = (if has_flag (qr_flag q) NEAR_MAX then HA_READ_BEFORE_KEY else HA_READ_AFTER_KEY)\<rparr>"

definition make_min_endpoint_prefix :: "QUICK_RANGE \<Rightarrow> uint32 \<Rightarrow> uint32 \<Rightarrow> key_range" where
  "make_min_endpoint_prefix q prefix_length keypart_map =
     (let kr = make_min_endpoint q
      in kr\<lparr>kr_length := min (kr_length kr) prefix_length, kr_keypart_map := kr_keypart_map kr AND keypart_map\<rparr>)"

definition make_max_endpoint_prefix :: "QUICK_RANGE \<Rightarrow> uint32 \<Rightarrow> uint32 \<Rightarrow> key_range" where
  "make_max_endpoint_prefix q prefix_length keypart_map =
     (let kr = make_max_endpoint q
      in kr\<lparr>kr_length := min (kr_length kr) prefix_length, kr_keypart_map := kr_keypart_map kr AND keypart_map\<rparr>)"

section \<open>Intervals as sets of values\<close>

text \<open>The ends of intervals are cuts in the order of the values: before everything, after everything, or at a value
  with the values just above (\<^verbatim>\<open>NEAR_MIN\<close>) or just below (\<^verbatim>\<open>NEAR_MAX\<close>).\<close>

datatype 'k cut = Before_all | At 'k int | After_all

instantiation cut :: (linorder) linorder
begin

fun less_eq_cut :: "'a cut \<Rightarrow> 'a cut \<Rightarrow> bool" where
  "less_eq_cut Before_all _ \<longleftrightarrow> True"
| "less_eq_cut _ After_all \<longleftrightarrow> True"
| "less_eq_cut (At v d) (At w e) \<longleftrightarrow> v < w \<or> v = w \<and> d \<le> e"
| "less_eq_cut _ _ \<longleftrightarrow> False"

definition less_cut :: "'a cut \<Rightarrow> 'a cut \<Rightarrow> bool" where
  "less_cut a b \<longleftrightarrow> a \<le> b \<and> \<not> b \<le> a"

instance
proof
  fix x y z :: "'a cut"
  show "x < y \<longleftrightarrow> x \<le> y \<and> \<not> y \<le> x" by (simp add: less_cut_def)
  show "x \<le> x" by (cases x) auto
  show "x \<le> y \<Longrightarrow> y \<le> z \<Longrightarrow> x \<le> z" by (cases x; cases y; cases z) auto
  show "x \<le> y \<Longrightarrow> y \<le> x \<Longrightarrow> x = y" by (cases x; cases y) auto
  show "x \<le> y \<or> y \<le> x" by (cases x; cases y) auto
qed

end

lemma has_flag_bits [simp]:
  "has_flag (w :: 'a::len word) NO_MIN_RANGE \<longleftrightarrow> bit w 0"
  "2 < LENGTH('a) \<Longrightarrow> has_flag (w :: 'a::len word) NO_MAX_RANGE \<longleftrightarrow> bit w 1"
  "3 < LENGTH('a) \<Longrightarrow> has_flag (w :: 'a::len word) NEAR_MIN \<longleftrightarrow> bit w 2"
  "4 < LENGTH('a) \<Longrightarrow> has_flag (w :: 'a::len word) NEAR_MAX \<longleftrightarrow> bit w 3"
  using and_push_bit_1_eq_0_iff [of 0 w] and_push_bit_1_eq_0_iff [of 1 w]
    and_push_bit_1_eq_0_iff [of 2 w] and_push_bit_1_eq_0_iff [of 3 w]
  by (simp_all add: has_flag_def range_flags)

lemma bit_push_1: "bit (push_bit k 1 :: 'a::len word) n \<longleftrightarrow> n = k \<and> k < LENGTH('a)"
  by (auto simp: bit_simps)

lemma flag_bits:
  "bit (NO_MIN_RANGE :: 'a::len word) n \<longleftrightarrow> n = 0"
  "bit (NO_MAX_RANGE :: 'a::len word) n \<longleftrightarrow> n = 1 \<and> 1 < LENGTH('a)"
  "bit (NEAR_MIN :: 'a::len word) n \<longleftrightarrow> n = 2 \<and> 2 < LENGTH('a)"
  "bit (NEAR_MAX :: 'a::len word) n \<longleftrightarrow> n = 3 \<and> 3 < LENGTH('a)"
  using bit_push_1 [where 'a = 'a, of 0 n] bit_push_1 [where 'a = 'a, of 1 n]
    bit_push_1 [where 'a = 'a, of 2 n] bit_push_1 [where 'a = 'a, of 3 n] by (simp_all add: range_flags)

text \<open>The cut of an end of an interval, for the value that the field reads from an image.\<close>

definition cut_of :: "(bytes \<Rightarrow> 'k::linorder) \<Rightarrow> bytes \<Rightarrow> uchar \<Rightarrow> 'k cut" where
  "cut_of val v flag =
     (if has_flag flag NO_MIN_RANGE then Before_all
      else if has_flag flag NO_MAX_RANGE then After_all
      else At (val v) (if has_flag flag NEAR_MIN then 1 else if has_flag flag NEAR_MAX then - 1 else 0))"

definition single_end :: "uchar \<Rightarrow> bool" where
  "single_end f \<longleftrightarrow> \<not> (has_flag f NO_MIN_RANGE \<and> has_flag f NO_MAX_RANGE) \<and> \<not> (has_flag f NEAR_MIN \<and> has_flag f NEAR_MAX)"

text \<open>What the header relies on of \<^verbatim>\<open>sel_cmp\<close>: it orders the ends of intervals on a field; and of the constructor: it sets
  the members it is given.\<close>

definition sel_cmp_ok :: "(bytes \<Rightarrow> 'k::linorder) \<Rightarrow> addr \<Rightarrow> sel_cmp \<Rightarrow> bool" where
  "sel_cmp_ok val f sc \<longleftrightarrow>
     (\<forall>a b fa fb. single_end fa \<and> single_end fb \<longrightarrow> sgn (sc f a b fa fb) = cmp3 (cut_of val a fa) (cut_of val b fb))"

definition sel_ctor_ok :: "sel_ctor \<Rightarrow> bool" where
  "sel_ctor_ok mk \<longleftrightarrow>
     (\<forall>f p mn mx fmn fmx mf.
        let a = mk f p mn mx fmn fmx mf
        in field a = f \<and> part a = p \<and> min_value a = mn \<and> max_value a = mx \<and> min_flag a = fmn \<and> max_flag a = fmx
           \<and> maybe_flag a = mf)"

text \<open>An interval whose lower end has no flags of upper ends and the other way round; the values in it.\<close>

definition interval_ok :: "SEL_ARG \<Rightarrow> bool" where
  "interval_ok a \<longleftrightarrow>
     \<not> has_flag (min_flag a) NO_MAX_RANGE \<and> \<not> has_flag (min_flag a) NEAR_MAX
     \<and> \<not> has_flag (max_flag a) NO_MIN_RANGE \<and> \<not> has_flag (max_flag a) NEAR_MIN"

definition min_cut :: "(bytes \<Rightarrow> 'k::linorder) \<Rightarrow> SEL_ARG \<Rightarrow> 'k cut" where
  "min_cut val a = cut_of val (min_value a) (min_flag a)"

definition max_cut :: "(bytes \<Rightarrow> 'k::linorder) \<Rightarrow> SEL_ARG \<Rightarrow> 'k cut" where
  "max_cut val a = cut_of val (max_value a) (max_flag a)"

definition interval :: "(bytes \<Rightarrow> 'k::linorder) \<Rightarrow> SEL_ARG \<Rightarrow> 'k set" where
  "interval val a = {x. min_cut val a \<le> At x 0 \<and> At x 0 \<le> max_cut val a}"

lemma interval_iff:
  "x \<in> interval val a \<longleftrightarrow> min_cut val a \<le> At x 0 \<and> At x 0 \<le> max_cut val a"
  by (simp add: interval_def)

text \<open>The set has the meaning that the flags have.\<close>

lemma interval_meaning:
  assumes "interval_ok a"
  shows "x \<in> interval val a \<longleftrightarrow>
    (has_flag (min_flag a) NO_MIN_RANGE \<or>
      (if has_flag (min_flag a) NEAR_MIN then val (min_value a) < x else val (min_value a) \<le> x)) \<and>
    (has_flag (max_flag a) NO_MAX_RANGE \<or>
      (if has_flag (max_flag a) NEAR_MAX then x < val (max_value a) else x \<le> val (max_value a)))"
  using assms by (auto simp: interval_iff min_cut_def max_cut_def cut_of_def interval_ok_def)

lemma interval_ok_single: "interval_ok a \<Longrightarrow> single_end (min_flag a) \<and> single_end (max_flag a)"
  by (simp add: interval_ok_def single_end_def)

lemma sel_cmp_sign:
  assumes "sel_cmp_ok val f sc" "single_end fa" "single_end fb"
  shows "0 \<le> sc f a b fa fb \<longleftrightarrow> cut_of val b fb \<le> cut_of val a fa"
    "sc f a b fa fb \<le> 0 \<longleftrightarrow> cut_of val a fa \<le> cut_of val b fb"
proof -
  have "sgn (sc f a b fa fb) = cmp3 (cut_of val a fa) (cut_of val b fb)" using assms by (simp add: sel_cmp_ok_def)
  then show "0 \<le> sc f a b fa fb \<longleftrightarrow> cut_of val b fb \<le> cut_of val a fa"
    "sc f a b fa fb \<le> 0 \<longleftrightarrow> cut_of val a fa \<le> cut_of val b fb"
    by (auto simp: cmp3_def sgn_if split: if_splits)
qed

lemma cmp_cuts:
  assumes "sel_cmp_ok val (field a) sc" "interval_ok a" "interval_ok b"
  shows "cmp_min_to_min sc a b \<ge> 0 \<longleftrightarrow> min_cut val b \<le> min_cut val a"
    "cmp_min_to_min sc a b \<le> 0 \<longleftrightarrow> min_cut val a \<le> min_cut val b"
    "cmp_max_to_max sc a b \<ge> 0 \<longleftrightarrow> max_cut val b \<le> max_cut val a"
    "cmp_max_to_max sc a b \<le> 0 \<longleftrightarrow> max_cut val a \<le> max_cut val b"
    "cmp_min_to_max sc a b \<le> 0 \<longleftrightarrow> min_cut val a \<le> max_cut val b"
    "cmp_max_to_min sc a b \<ge> 0 \<longleftrightarrow> min_cut val b \<le> max_cut val a"
  unfolding cmp_min_to_min_def cmp_max_to_max_def cmp_min_to_max_def cmp_max_to_min_def min_cut_def max_cut_def
  using interval_ok_single [OF assms(2)] interval_ok_single [OF assms(3)]
  by (auto simp only: sel_cmp_sign [OF assms(1)])

lemma ctor_members:
  assumes "sel_ctor_ok mk"
  shows "field (mk f p mn mx fmn fmx mf) = f" "part (mk f p mn mx fmn fmx mf) = p"
    "min_value (mk f p mn mx fmn fmx mf) = mn" "max_value (mk f p mn mx fmn fmx mf) = mx"
    "min_flag (mk f p mn mx fmn fmx mf) = fmn" "max_flag (mk f p mn mx fmn fmx mf) = fmx"
    "maybe_flag (mk f p mn mx fmn fmx mf) = mf"
  using assms by (simp_all add: sel_ctor_ok_def Let_def)

lemma clone_and_cuts:
  assumes "sel_cmp_ok val (field a) sc" "sel_ctor_ok mk" "interval_ok a" "interval_ok b"
  shows "min_cut val (clone_and sc mk b a) = max (min_cut val a) (min_cut val b)"
    "max_cut val (clone_and sc mk b a) = min (max_cut val a) (max_cut val b)"
    "interval_ok (clone_and sc mk b a)"
proof -
  note c = cmp_cuts [OF assms(1,3,4)] ctor_members [OF assms(2)]
  show "min_cut val (clone_and sc mk b a) = max (min_cut val a) (min_cut val b)"
    by (simp add: clone_and_def c(1,4)) (auto simp: min_cut_def c max_def)
  show "max_cut val (clone_and sc mk b a) = min (max_cut val a) (max_cut val b)"
    by (simp add: clone_and_def c(1,4)) (auto simp: max_cut_def c min_def)
  show "interval_ok (clone_and sc mk b a)"
    using assms(3,4) by (simp add: clone_and_def interval_ok_def c(7-))
qed

text \<open>C4. For every comparison function that orders the ends of intervals, the overlap that \<^verbatim>\<open>clone_and\<close> computes is
  the intersection of the two intervals: with or without ends on either side, open or closed. It is certain exactly if
  one of the two is, and it is again a well-formed interval of the same field and key part.\<close>

theorem clone_and_intersection:
  assumes "sel_cmp_ok val (field a) sc" "sel_ctor_ok mk" "interval_ok a" "interval_ok b"
  shows "interval val (clone_and sc mk b a) = interval val a \<inter> interval val b
    \<and> interval_ok (clone_and sc mk b a)
    \<and> field (clone_and sc mk b a) = field a \<and> part (clone_and sc mk b a) = part a
    \<and> (maybe_flag (clone_and sc mk b a) = 0 \<longleftrightarrow> maybe_flag a = 0 \<or> maybe_flag b = 0)"
  using clone_and_cuts [OF assms] ctor_members [OF assms(2)]
  by (auto simp: interval_def clone_and_def Let_def)

text \<open>Extending an interval.\<close>

lemma copy_cuts:
  assumes "sel_cmp_ok val (field a) sc" "interval_ok a" "interval_ok b"
  shows "min_cut val (snd (copy_min sc b a)) = min (min_cut val a) (min_cut val b)"
    "max_cut val (snd (copy_min sc b a)) = max_cut val a"
    "max_cut val (snd (copy_max sc b a)) = max (max_cut val a) (max_cut val b)"
    "min_cut val (snd (copy_max sc b a)) = min_cut val a"
    "interval_ok (snd (copy_min sc b a))" "interval_ok (snd (copy_max sc b a))"
    "field (snd (copy_min sc b a)) = field a" "field (snd (copy_max sc b a)) = field a"
proof -
  note c = cmp_cuts [OF assms]
  have n: "cmp_min_to_min sc a b > 0 \<longleftrightarrow> \<not> min_cut val a \<le> min_cut val b" using c(2) by linarith
  show "min_cut val (snd (copy_min sc b a)) = min (min_cut val a) (min_cut val b)"
    by (simp add: copy_min_def n) (auto simp: min_cut_def min_def Let_def)
  show "max_cut val (snd (copy_max sc b a)) = max (max_cut val a) (max_cut val b)"
    by (simp add: copy_max_def c(4)) (auto simp: max_cut_def max_def Let_def)
  show "max_cut val (snd (copy_min sc b a)) = max_cut val a" "min_cut val (snd (copy_max sc b a)) = min_cut val a"
    "field (snd (copy_min sc b a)) = field a" "field (snd (copy_max sc b a)) = field a"
    by (simp_all add: copy_min_def copy_max_def max_cut_def min_cut_def Let_def)
  show "interval_ok (snd (copy_min sc b a))" "interval_ok (snd (copy_max sc b a))"
    using assms(2,3) by (simp_all add: copy_min_def copy_max_def interval_ok_def Let_def)
qed

text \<open>If two intervals overlap, extending one of them at both ends with \<^verbatim>\<open>copy_min\<close> and \<^verbatim>\<open>copy_max\<close> gives their
  union, whatever the kinds of the ends.\<close>

theorem copy_min_max_union:
  assumes "sel_cmp_ok val (field a) sc" "interval_ok a" "interval_ok b" "interval val a \<inter> interval val b \<noteq> {}"
  shows "interval val (snd (copy_max sc b (snd (copy_min sc b a)))) = interval val a \<union> interval val b"
proof -
  define a' where "a' = snd (copy_min sc b a)"
  have "interval val (snd (copy_max sc b a')) =
      {x. min (min_cut val a) (min_cut val b) \<le> At x 0 \<and> At x 0 \<le> max (max_cut val a) (max_cut val b)}"
    using copy_cuts [OF assms(1-3)] copy_cuts [of val a' sc b] assms by (simp add: a'_def interval_def)
  moreover obtain y where "min_cut val a \<le> At y 0" "At y 0 \<le> max_cut val a" "min_cut val b \<le> At y 0" "At y 0 \<le> max_cut val b"
    using assms(4) by (auto simp: interval_iff)
  ultimately show ?thesis unfolding a'_def [symmetric] set_eq_iff Un_iff interval_iff
    by (auto simp: min_le_iff_disj le_max_iff_disj intro: order_trans)
qed

text \<open>Cutting an interval at another one.\<close>

lemma clone_first_interval:
  "sel_ctor_ok mk \<Longrightarrow> interval val (clone_first mk b a) = interval val (copy_min_to_max b a)"
  by (simp add: interval_def clone_first_def copy_min_to_max_def min_cut_def max_cut_def ctor_members)

lemma clone_last_interval:
  "sel_ctor_ok mk \<Longrightarrow> x \<in> interval val (clone_last mk b a) \<longleftrightarrow> min_cut val a \<le> At x 0 \<and> At x 0 \<le> max_cut val b"
  by (simp add: interval_def clone_last_def min_cut_def max_cut_def ctor_members)

lemma below_min:
  assumes "interval_ok b" "\<not> has_flag (min_flag b) NO_MIN_RANGE"
  shows "At x 0 \<le> max_cut val (copy_min_to_max b a) \<longleftrightarrow> \<not> min_cut val b \<le> At x 0"
    "min_cut val (copy_min_to_max b a) = min_cut val a"
  using assms by (auto simp: max_cut_def min_cut_def cut_of_def copy_min_to_max_def interval_ok_def flag_bits)

lemma above_max:
  assumes "interval_ok b" "\<not> has_flag (max_flag b) NO_MAX_RANGE"
  shows "min_cut val (copy_max_to_min b a) \<le> At x 0 \<longleftrightarrow> \<not> At x 0 \<le> max_cut val b"
    "max_cut val (copy_max_to_min b a) = max_cut val a"
  using assms by (auto simp: max_cut_def min_cut_def cut_of_def copy_max_to_min_def interval_ok_def flag_bits)

text \<open>When a bounded interval lies inside another one, \<^verbatim>\<open>clone_first\<close> and \<^verbatim>\<open>copy_max_to_min\<close> cut the outer one
  without loss and without overlap: what is below, the inner interval, and what is above are disjoint and together the
  outer interval.\<close>

theorem interval_split:
  assumes "sel_ctor_ok mk" "interval_ok b"
    and "\<not> has_flag (min_flag b) NO_MIN_RANGE" "\<not> has_flag (max_flag b) NO_MAX_RANGE"
    and "interval val b \<subseteq> interval val a" "interval val b \<noteq> {}"
  defines "lower \<equiv> interval val (clone_first mk b a)" and "upper \<equiv> interval val (copy_max_to_min b a)"
  shows "interval val a = lower \<union> interval val b \<union> upper
    \<and> lower \<inter> interval val b = {} \<and> interval val b \<inter> upper = {} \<and> lower \<inter> upper = {}"
proof -
  have below: "x \<in> lower \<longleftrightarrow> min_cut val a \<le> At x 0 \<and> \<not> min_cut val b \<le> At x 0" for x
    using below_min(1) [OF assms(2,3), of x val a] below_min(2) [OF assms(2,3), of val a] by (simp add: lower_def clone_first_interval [OF assms(1)] interval_iff)
  have above: "x \<in> upper \<longleftrightarrow> At x 0 \<le> max_cut val a \<and> \<not> At x 0 \<le> max_cut val b" for x
    using above_max(1) [OF assms(2,4), of val a x] above_max(2) [OF assms(2,4), of val a] by (auto simp: upper_def interval_iff)
  obtain y where y: "min_cut val b \<le> At y 0" "At y 0 \<le> max_cut val b" using assms(6) by (auto simp: interval_iff)
  then have ya: "min_cut val a \<le> At y 0" "At y 0 \<le> max_cut val a" using assms(5) by (auto simp: interval_def)
  have lo: "min_cut val a \<le> At x 0" "At x 0 \<le> max_cut val a" if "x \<in> interval val b" for x
    using assms(5) that by (auto simp: interval_def)
  have "At x 0 \<le> max_cut val a \<and> At x 0 \<le> max_cut val b" if "x \<in> lower" for x
    using that y ya below by (meson linear order_trans)
  moreover have "min_cut val a \<le> At x 0 \<and> min_cut val b \<le> At x 0" if "x \<in> upper" for x
    using that y ya above by (meson linear order_trans)
  ultimately show ?thesis using below above lo unfolding interval_def by blast
qed

text \<open>The test for the full range looks for both flags in the upper end, where one of them never is: the value that
  reports a full range is never returned, not even when the interval has no ends.\<close>

lemma copy_reports_no_full_range:
  assumes "interval_ok a" "interval_ok b"
  shows "\<not> fst (copy_min sc b a)" "\<not> fst (copy_max sc b a)"
proof -
  have "\<not> full_range f" if "\<not> bit f 0" for f :: uchar
  proof
    assume "full_range f"
    then have "bit (f AND (NO_MAX_RANGE OR NO_MIN_RANGE)) 0 = bit (NO_MAX_RANGE OR NO_MIN_RANGE :: uchar) 0"
      unfolding full_range_def by (rule arg_cong)
    then show False using that by (simp add: bit_and_iff bit_or_iff flag_bits)
  qed
  then show "\<not> fst (copy_min sc b a)" "\<not> fst (copy_max sc b a)"
    using assms by (auto simp: copy_min_def copy_max_def Let_def interval_ok_def)
qed

text \<open>Inverting the flags of an end twice gives them back, for flags of lower and of upper ends; and the inverted
  flags say of the upper end what the given ones said of the lower end.\<close>

theorem invert_flags:
  "(\<not> has_flag f NEAR_MAX \<and> \<not> has_flag f NO_MAX_RANGE \<longrightarrow>
      invert_max_flag (invert_min_flag f) = f
      \<and> (has_flag (invert_min_flag f) NEAR_MAX \<longleftrightarrow> has_flag f NEAR_MIN)
      \<and> (has_flag (invert_min_flag f) NO_MAX_RANGE \<longleftrightarrow> has_flag f NO_MIN_RANGE)
      \<and> \<not> has_flag (invert_min_flag f) NEAR_MIN \<and> \<not> has_flag (invert_min_flag f) NO_MIN_RANGE)
   \<and> (\<not> has_flag f NEAR_MIN \<and> \<not> has_flag f NO_MIN_RANGE \<longrightarrow> invert_min_flag (invert_max_flag f) = f)"
proof -
  have mn: "bit (invert_min_flag f) n \<longleftrightarrow>
      (n = 3 \<and> bit f 2) \<or> (n = 1 \<and> bit f 0) \<or> (n \<noteq> 0 \<and> n \<noteq> 2 \<and> bit f n)" for f n
    by (auto simp: invert_min_flag_def Let_def flag_bits bit_and_iff bit_or_iff bit_not_iff dest: bit_less)
  have mx: "bit (invert_max_flag f) n \<longleftrightarrow>
      (n = 2 \<and> bit f 3) \<or> (n = 0 \<and> bit f 1) \<or> (n \<noteq> 1 \<and> n \<noteq> 3 \<and> bit f n)" for f n
    by (auto simp: invert_max_flag_def Let_def flag_bits bit_and_iff bit_or_iff bit_not_iff dest: bit_less)
  have "invert_max_flag (invert_min_flag f) = f" if "\<not> bit f 3" "\<not> bit f 1"
    by (rule bit_word_eqI) (use that in \<open>auto simp only: mn mx\<close>)
  moreover have "invert_min_flag (invert_max_flag f) = f" if "\<not> bit f 2" "\<not> bit f 0"
    by (rule bit_word_eqI) (use that in \<open>auto simp only: mn mx\<close>)
  ultimately show ?thesis using mn by simp
qed

section \<open>Keys stay inside their buffer\<close>

text \<open>All intervals of a list are on the same key part, and the images have the length that the key part says.\<close>

definition graph_parts :: "(addr \<Rightarrow> addr) \<Rightarrow> (addr \<Rightarrow> addr) \<Rightarrow> (addr \<Rightarrow> SEL_ARG) \<Rightarrow> bool" where
  "graph_parts first_arg last_arg G \<longleftrightarrow>
     (\<forall>x. part (G (first_arg x)) = part (G x) \<and> part (G (last_arg x)) = part (G x))"

definition images_ok :: "(nat \<Rightarrow> KEY_PART) \<Rightarrow> (addr \<Rightarrow> SEL_ARG) \<Rightarrow> bool" where
  "images_ok key G \<longleftrightarrow>
     (\<forall>x. let len = unat (kp_store_length (key (unat (part (G x)))))
          in 0 < len \<and> len \<le> length (min_value (G x)) \<and> len \<le> length (max_value (G x)))"

definition parts_length :: "(nat \<Rightarrow> KEY_PART) \<Rightarrow> nat \<Rightarrow> nat \<Rightarrow> nat" where
  "parts_length key p n = (\<Sum>i = p..<p + n. unat (kp_store_length (key i)))"

lemma store_image_ok:
  assumes "0 < len" "len \<le> length v"
  shows "\<exists>b. store_image a len v buf = Some (buf @ b) \<and> length b = len"
proof -
  obtain c cs where "v = c # cs" using assms by (cases v) auto
  then show ?thesis using assms by (auto simp: store_image_def split: bool.splits)
qed

lemma store_end_ok:
  assumes "0 < len" "len \<le> length (min_value a)" "len \<le> length (max_value a)"
  shows "\<exists>n b. (if mi then store_min a len buf f else store_max a len buf f) = Some (n, buf @ b)
    \<and> (n = 0 \<and> b = [] \<or> n = 1 \<and> length b = len)"
  using store_image_ok [of len "min_value a" a buf] store_image_ok [of len "max_value a" a buf] assms
  by (auto simp: store_min_def store_max_def)

lemma parts_length_Suc: "parts_length key p (1 + n) = unat (kp_store_length (key p)) + parts_length key (p + 1) n"
proof -
  have "{p..<p + (1 + n)} = insert p {p + 1..<p + 1 + n}" by auto
  then show ?thesis by (simp add: parts_length_def)
qed

definition key_stored ::
    "(nat \<Rightarrow> KEY_PART) \<Rightarrow> uint32 \<Rightarrow> nat \<Rightarrow> bytes \<Rightarrow> (nat \<times> bytes \<times> uint32) option \<Rightarrow> bool" where
  "key_stored key last_part p buf r \<longleftrightarrow>
     (\<exists>n b f. r = Some (n, buf @ b, f) \<and> length b = parts_length key p n
        \<and> p + n \<le> 256 \<and> (p \<le> unat last_part \<longrightarrow> p + n \<le> unat last_part + 1))"

lemma key_stored_step:
  assumes "key_stored key last_part (p + 1) (buf @ b) r" "length b = unat (kp_store_length (key p))" "p \<noteq> unat last_part"
  shows "key_stored key last_part p buf (Option.bind r (\<lambda>(n, k, f). Some (Suc n, k, g f)))"
proof -
  obtain n c f where r: "r = Some (n, (buf @ b) @ c, f)" and "length c = parts_length key (p + 1) n"
    "p + 1 + n \<le> 256" "p + 1 \<le> unat last_part \<longrightarrow> p + 1 + n \<le> unat last_part + 1"
    using assms(1) by (auto simp: key_stored_def)
  then have "length (b @ c) = parts_length key p (Suc n)" "p + Suc n \<le> 256"
    "p \<le> unat last_part \<longrightarrow> p + Suc n \<le> unat last_part + 1"
    using assms(2,3) parts_length_Suc [of key p n] by auto
  moreover have "Option.bind r (\<lambda>(n, k, f). Some (Suc n, k, g f)) = Some (Suc n, buf @ (b @ c), g f)" by (simp add: r)
  ultimately show ?thesis unfolding key_stored_def by blast
qed

lemma store_key_stored:
  assumes "graph_parts first_arg last_arg G" "images_ok key G"
  shows "key_stored key last_part (unat (part (G this))) buf
    (store_key first_arg last_arg G key last_part start_key mi this buf flag)"
proof (induction "256 - unat (part (G this))" arbitrary: this mi buf flag rule: less_induct)
  case less
  define a where "a = G (if mi then first_arg this else last_arg this)"
  define p where "p = unat (part (G this))"
  define len where "len = unat (kp_store_length (key p))"
  have p: "part a = part (G this)" "unat (part a) = p" using assms(1) by (auto simp: a_def p_def graph_parts_def)
  have "p < 256" using unat_less [of "part (G this)"] by (simp add: p_def)
  have len: "0 < len" "len \<le> length (min_value a)" "len \<le> length (max_value a)"
    using assms(2) [unfolded images_ok_def Let_def, THEN spec, of "if mi then first_arg this else last_arg this"]
    unfolding a_def [symmetric] p(2) len_def by simp_all
  obtain n b where nb: "(if mi then store_min a len buf flag else store_max a len buf flag) = Some (n, buf @ b)"
    and n: "n = 0 \<and> b = [] \<or> n = 1 \<and> length b = len"
    using store_end_ok [OF len, of mi buf flag] by auto
  have unfold: "store_key first_arg last_arg G key last_part start_key mi this buf flag = (if n = 0 then Some (0, buf @ b, flag) else
      let flag = flag OR ucast (if mi then min_flag a else max_flag a); nkp = next_key_part a
      in if nkp \<noteq> 0 \<and> type (G nkp) = KEY_RANGE \<and> ucast (part a) \<noteq> last_part \<and> unat (part (G nkp)) = unat (part a) + 1 \<and>
            \<not> has_flag flag (if mi then NO_MIN_RANGE OR NEAR_MIN else NO_MAX_RANGE OR NEAR_MAX)
         then let asc = (\<not> is_desc key a); same = (if mi then start_key = asc else (\<not> start_key \<and> asc) \<or> (start_key \<and> \<not> asc))
              in if same then Option.bind (store_key first_arg last_arg G key last_part start_key mi nkp (buf @ b) flag)
                          (\<lambda>(m, k, f). Some (n + m, k, f))
                 else Option.bind (store_key first_arg last_arg G key last_part start_key (\<not> mi) nkp (buf @ b)
                          (if mi then invert_min_flag flag else invert_max_flag flag))
                        (\<lambda>(m, k, f). Some (n + m, k, if mi then invert_max_flag f else invert_min_flag f))
         else Some (n, buf @ b, flag))"
    by (subst store_key.simps) (simp only: Let_def a_def [symmetric] p(2) len_def [symmetric] nb option.case prod.case)
  have stop: "key_stored key last_part p buf (Some (n, buf @ b, f))" for f
    using n \<open>p < 256\<close> by (auto simp: key_stored_def parts_length_def len_def)
  have go: "key_stored key last_part p buf
      (Option.bind (store_key first_arg last_arg G key last_part start_key mi' nkp (buf @ b) f) (\<lambda>(m, k, f). Some (n + m, k, g f)))"
    if "n \<noteq> 0" "unat (part (G nkp)) = p + 1" "ucast (part a) \<noteq> last_part" for mi' nkp f g
  proof -
    have "key_stored key last_part (p + 1) (buf @ b) (store_key first_arg last_arg G key last_part start_key mi' nkp (buf @ b) f)"
      using less.hyps [of nkp "buf @ b" mi' f] that(2) \<open>p < 256\<close> by (simp add: p_def)
    moreover have "p \<noteq> unat last_part"
    proof
      assume "p = unat last_part"
      moreover have "unat (part a) < 2 ^ 32" using unat_less [of "part a"] by simp
      ultimately have "unat (ucast (part a) :: uint32) = unat last_part"
        using p(2) by (simp add: unsigned_ucast_eq take_bit_nat_eq_self)
      then show False using that(3) by (simp add: unsigned_word_eqI)
    qed
    ultimately show ?thesis using key_stored_step [of key last_part p buf b _ g] n that(1) by (simp add: len_def)
  qed
  have go_id: "key_stored key last_part p buf
      (Option.bind (store_key first_arg last_arg G key last_part start_key mi' nkp (buf @ b) f) (\<lambda>(m, k, f). Some (n + m, k, f)))"
    if "n \<noteq> 0" "unat (part (G nkp)) = p + 1" "ucast (part a) \<noteq> last_part" for mi' nkp f
    using go [OF that, of mi' f "\<lambda>f. f"] by simp
  have if_intro: "key_stored key last_part p buf (if c then u else v)"
    if "c \<Longrightarrow> key_stored key last_part p buf u" "\<not> c \<Longrightarrow> key_stored key last_part p buf v" for c u v
    using that by simp
  show ?case unfolding unfold p_def [symmetric] Let_def p(2)
  proof (intro if_intro, goal_cases)
    case 1
    then show ?case using stop [of flag] by simp
  next
    case 2
    then show ?case by (intro go_id) auto
  next
    case 3
    then show ?case by (intro go) auto
  next
    case 4
    show ?case by (rule stop)
  qed
qed

text \<open>Building the start or the end of a range along the key parts always ends, through every change between
  lower and upper ends that descending key parts cause. It appends the images of \<open>n\<close> consecutive key parts, not a byte
  more or less than their lengths, and never goes past the last part it was given.\<close>

theorem store_keys_bounded:
  assumes "graph_parts first_arg last_arg G" "images_ok key G"
  shows "\<exists>n b f. (if mi then store_min_key first_arg last_arg G key last_part start_key this buf flag
                 else store_max_key first_arg last_arg G key last_part start_key this buf flag) = Some (n, buf @ b, f)
      \<and> length b = parts_length key (unat (part (G this))) n
      \<and> (unat (part (G this)) \<le> unat last_part \<longrightarrow> unat (part (G this)) + n \<le> unat last_part + 1)"
  using store_key_stored [OF assms, of last_part this buf start_key mi flag]
  by (auto simp: key_stored_def store_min_key_def store_max_key_def)

section \<open>Counting references\<close>

text \<open>A graph without cycles: a rank that falls along both kinds of links.\<close>

definition acyclic_by :: "(addr \<Rightarrow> nat) \<Rightarrow> (addr \<Rightarrow> addr) \<Rightarrow> (addr \<Rightarrow> SEL_ARG) \<Rightarrow> bool" where
  "acyclic_by r first_arg G \<longleftrightarrow>
     (\<forall>x. x \<noteq> 0 \<longrightarrow> (next_arg (G x) \<noteq> 0 \<longrightarrow> r (next_arg (G x)) < r x)
        \<and> (next_key_part (G x) \<noteq> 0 \<and> first_arg (next_key_part (G x)) \<noteq> 0 \<longrightarrow> r (first_arg (next_key_part (G x))) < r x))"

definition same_graph :: "(addr \<Rightarrow> SEL_ARG) \<Rightarrow> (addr \<Rightarrow> SEL_ARG) \<Rightarrow> bool" where
  "same_graph G G' \<longleftrightarrow> (\<forall>x. (G' x)\<lparr>use_count := 0\<rparr> = (G x)\<lparr>use_count := 0\<rparr>)"

lemma same_graph_links:
  assumes "same_graph G G'"
  shows "next_arg (G' x) = next_arg (G x)" "next_key_part (G' x) = next_key_part (G x)"
proof -
  have "(G' x)\<lparr>use_count := 0\<rparr> = (G x)\<lparr>use_count := 0\<rparr>" using assms by (simp add: same_graph_def)
  from arg_cong [OF this, of next_arg] arg_cong [OF this, of next_key_part]
  show "next_arg (G' x) = next_arg (G x)" "next_key_part (G' x) = next_key_part (G x)" by simp_all
qed

lemma same_graph_refl [simp]: "same_graph G G" by (simp add: same_graph_def)

lemma same_graph_trans: "same_graph G H \<Longrightarrow> same_graph H K \<Longrightarrow> same_graph G K" by (simp add: same_graph_def)

lemma same_graph_upd [simp]: "same_graph G (G(n := (G n)\<lparr>use_count := c\<rparr>))" by (simp add: same_graph_def)

lemma same_graph_acyclic: "acyclic_by r first_arg G \<Longrightarrow> same_graph G G' \<Longrightarrow> acyclic_by r first_arg G'"
  by (simp add: acyclic_by_def same_graph_links)

lemma increment_use_count_returns:
  "acyclic_by r first_arg G \<Longrightarrow>
   \<exists>G'. increment_use_count first_arg False x count G = Some G' \<and> same_graph G G'"
proof (induction "r x" arbitrary: x count G rule: less_induct)
  case less
  show ?case
  proof (cases "x = 0")
    case True
    then show ?thesis by (subst increment_use_count.simps) simp
  next
    case x: False
    define n where "n = next_key_part (G x)"
    have walk: "\<exists>G'. increment_use_count first_arg False y c H = Some G' \<and> same_graph H G'"
      if "acyclic_by r first_arg H" "y \<noteq> 0 \<longrightarrow> r y < r x" for y c H
    proof (cases "y = 0")
      case True
      then show ?thesis by (subst increment_use_count.simps) simp
    qed (use that in \<open>auto intro: less.hyps\<close>)
    have "\<exists>H. (if n \<noteq> 0 then increment_use_count first_arg True x count G else Some G) = Some H \<and> same_graph G H"
    proof (cases "n = 0")
      case False
      define H where "H = G(n := (G n)\<lparr>use_count := use_count (G n) + count\<rparr>)"
      have "same_graph G H" by (simp add: H_def)
      moreover from same_graph_acyclic [OF less.prems this]
      have "\<exists>K. increment_use_count first_arg False (first_arg n) (count * (use_count (H n) - count)) H = Some K \<and> same_graph H K"
        by (rule walk) (use less.prems x False in \<open>auto simp: acyclic_by_def n_def\<close>)
      ultimately show ?thesis using False
        by (subst increment_use_count.simps) (auto simp: n_def [symmetric] H_def [symmetric] Let_def intro: same_graph_trans)
    qed simp
    then obtain H where H: "(if n \<noteq> 0 then increment_use_count first_arg True x count G else Some G) = Some H" "same_graph G H"
      by blast
    have "\<exists>K. increment_use_count first_arg False (next_arg (H x)) count H = Some K \<and> same_graph H K"
      by (rule walk [OF same_graph_acyclic [OF less.prems H(2)]])
        (use less.prems x H(2) in \<open>auto simp: acyclic_by_def same_graph_links\<close>)
    then show ?thesis using x H
      by (subst increment_use_count.simps) (auto simp: n_def [symmetric] intro: same_graph_trans)
  qed
qed

lemma free_walk_returns:
  "acyclic_by r first_arg G \<Longrightarrow> \<exists>G'. free_walk first_arg x G = Some G' \<and> same_graph G G'"
proof (induction "r x" arbitrary: x G rule: less_induct)
  case less
  have walk: "\<exists>G'. free_walk first_arg y H = Some G' \<and> same_graph H G'"
    if "acyclic_by r first_arg H" "y \<noteq> 0 \<longrightarrow> r y < r x" for y H
  proof (cases "y = 0")
    case True
    then show ?thesis by (subst free_walk.simps) simp
  qed (use that in \<open>auto intro: less.hyps\<close>)
  show ?case
  proof (cases "x = 0")
    case x: False
    define n where "n = next_key_part (G x)"
    define H where "H = G(n := (G n)\<lparr>use_count := use_count (G n) - 1\<rparr>)"
    have H: "same_graph G H" by (simp add: H_def)
    have "\<exists>K. free_walk first_arg (first_arg n) H = Some K \<and> same_graph H K" if "n \<noteq> 0"
      by (rule walk [OF same_graph_acyclic [OF less.prems H]]) (use less.prems x that in \<open>auto simp: acyclic_by_def n_def\<close>)
    then obtain K where K: "(if n \<noteq> 0 then free_walk first_arg (first_arg n) H else Some G) = Some K" "same_graph G K"
      using H by (cases "n = 0") (auto intro: same_graph_trans)
    have "\<exists>L. free_walk first_arg (next_arg (K x)) K = Some L \<and> same_graph K L"
      by (rule walk [OF same_graph_acyclic [OF less.prems K(2)]])
        (use less.prems x K(2) in \<open>auto simp: acyclic_by_def same_graph_links\<close>)
    then show ?thesis using x K
      by (subst free_walk.simps) (auto simp: n_def [symmetric] H_def [symmetric] Let_def intro: same_graph_trans)
  qed (subst free_walk.simps, simp)
qed

lemma incr_refs_walk_returns:
  "acyclic_by r first_arg G \<Longrightarrow> \<exists>G'. incr_refs_walk first_arg x G = Some G' \<and> same_graph G G'"
proof (induction "r x" arbitrary: x G rule: less_induct)
  case less
  show ?case
  proof (cases "x = 0")
    case x: False
    define n where "n = next_key_part (G x)"
    define H where "H = G(n := (G n)\<lparr>use_count := use_count (G n) + 1\<rparr>)"
    have "same_graph G H" by (simp add: H_def)
    moreover obtain K where "increment_use_count first_arg False (first_arg n) (use_count (H n) - 1) H = Some K" "same_graph H K"
      using increment_use_count_returns [OF same_graph_acyclic [OF less.prems calculation]] by blast
    ultimately have "\<exists>K. increment_use_count first_arg True x 1 G = Some K \<and> same_graph G K"
      by (subst increment_use_count.simps) (auto simp: n_def [symmetric] H_def [symmetric] Let_def intro: same_graph_trans)
    then obtain K where K: "increment_use_count first_arg True x 1 G = Some K" "same_graph G K" by blast
    have "\<exists>L. incr_refs_walk first_arg (next_arg (K x)) K = Some L \<and> same_graph K L"
    proof (cases "next_arg (K x) = 0")
      case True
      then show ?thesis by (subst incr_refs_walk.simps) simp
    next
      case False
      then show ?thesis using less.prems x K(2) same_graph_acyclic [OF less.prems K(2)]
        by (intro less.hyps) (auto simp: acyclic_by_def same_graph_links)
    qed
    then show ?thesis using x K by (subst incr_refs_walk.simps) (auto intro: same_graph_trans)
  qed (subst incr_refs_walk.simps, simp)
qed

text \<open>On every graph of intervals without cycles, counting the references of a tree and freeing it end, and
  they change nothing but the counts of references.\<close>

theorem reference_counting_returns:
  assumes "acyclic_by r first_arg G"
  shows "(\<exists>G'. incr_refs_all first_arg x G = Some G' \<and> same_graph G G')
    \<and> (\<exists>G'. free_tree first_arg x G = Some G' \<and> same_graph G G')"
proof -
  obtain H where "incr_refs_walk first_arg (first_arg x) G = Some H" "same_graph G H"
    using incr_refs_walk_returns [OF assms] by blast
  then show ?thesis using free_walk_returns [OF assms]
    by (auto simp: incr_refs_all_def free_tree_def intro: same_graph_trans)
qed

section \<open>Witnesses\<close>

definition ex_val :: "bytes \<Rightarrow> nat" where
  "ex_val v = (case v of [] \<Rightarrow> 0 | b # _ \<Rightarrow> unat b)"

definition ex_cmp :: sel_cmp where
  "ex_cmp f a b fa fb = cmp3 (cut_of ex_val a fa) (cut_of ex_val b fb)"

definition ex_mk :: sel_ctor where
  "ex_mk f p mn mx fmn fmx mf =
     \<lparr>min_flag = fmn, max_flag = fmx, maybe_flag = mf, part = p, maybe_null = 0, max_part_no = 0, elements = 1, use_count = 1,
      field = f, min_value = mn, max_value = mx, left = 0, right = 0, next_arg = 0, prev_arg = 0, parent = 0,
      next_key_part = 0, color = BLACK, type = KEY_RANGE, weight = 1\<rparr>"

lemma ex_cmp_ok: "sel_cmp_ok ex_val f ex_cmp"
  by (simp add: sel_cmp_ok_def ex_cmp_def cmp3_def)

lemma ex_mk_ok: "sel_ctor_ok ex_mk"
  by (simp add: sel_ctor_ok_def ex_mk_def)

definition ex_a :: SEL_ARG where "ex_a = ex_mk 1 0 [10] [30] 0 0 0"
definition ex_b :: SEL_ARG where "ex_b = ex_mk 1 0 [20] [25] NEAR_MIN NEAR_MAX 0"

lemma ex_ok: "interval_ok ex_a" "interval_ok ex_b" "min_flag ex_b = NEAR_MIN" "max_flag ex_b = NEAR_MAX"
  by (simp_all add: interval_ok_def ex_a_def ex_b_def ex_mk_def flag_bits)

lemma ex_interval: "interval ex_val ex_a = {10..30}" "interval ex_val ex_b = {21..24}"
  using ex_ok(1,2) by (auto simp: set_eq_iff interval_meaning ex_val_def) (auto simp: ex_a_def ex_b_def ex_mk_def flag_bits)

theorem clone_and_intersection_witness: "interval ex_val (clone_and ex_cmp ex_mk ex_b ex_a) = {21..24}"
  using clone_and_intersection [OF ex_cmp_ok ex_mk_ok ex_ok(1,2)] by (simp add: ex_interval)

theorem copy_min_max_union_witness:
  "interval ex_val (snd (copy_max ex_cmp ex_b (snd (copy_min ex_cmp ex_b ex_a)))) = {10..30}"
  using copy_min_max_union [OF ex_cmp_ok ex_ok(1,2)] by (simp add: ex_interval Un_absorb2)

theorem interval_split_witness:
  "{10..30} = interval ex_val (clone_first ex_mk ex_b ex_a) \<union> {21..24} \<union> interval ex_val (copy_max_to_min ex_b ex_a)"
  using interval_split [OF ex_mk_ok ex_ok(2), of ex_val ex_a] by (simp add: ex_interval ex_ok flag_bits)

theorem invert_flags_witness: "invert_max_flag (invert_min_flag 4) = 4"
  using invert_flags [of 4] by (simp add: has_flag_def range_flags)

theorem store_keys_bounded_witness:
  "\<exists>n b f. store_min_key id id (\<lambda>_. ex_a) (\<lambda>_. \<lparr>kp_key = 0, kp_part = 0, kp_store_length = 1, kp_length = 1, kp_null_bit = 0, kp_flag = 0\<rparr>)
     64 True 1 [] 0 = Some (n, b, f) \<and> length b = n"
  using store_keys_bounded [of id id "\<lambda>_. ex_a"
      "\<lambda>_. \<lparr>kp_key = 0, kp_part = 0, kp_store_length = 1, kp_length = 1, kp_null_bit = 0, kp_flag = 0\<rparr>" True 64 True 1 "[]" 0]
  by (auto simp: graph_parts_def images_ok_def parts_length_def ex_a_def ex_mk_def)

theorem reference_counting_returns_witness:
  "\<exists>G'. free_tree id 1 (\<lambda>_. ex_a) = Some G' \<and> same_graph (\<lambda>_. ex_a) G'"
  using reference_counting_returns [of id id "\<lambda>_. ex_a" 1] by (simp add: acyclic_by_def ex_a_def ex_mk_def)

end
