(* ===== verification/Lex_Input.thy ===== *)
theory Lex_Input
  imports Prelude
begin

text \<open>
  The character stream of the SQL scanner (class \<^verbatim>\<open>Lex_input_stream\<close> of \<^verbatim>\<open>sql_lex.h\<close>): reading, skipping and putting back
  characters of the query, with the pre-processed copy that is written while the echo is on.

  The raw buffer and the pre-processed buffer are lists of bytes, and the pointers into them are offsets from their
  starts. A read, a write or a pointer outside a buffer is an absent result.
\<close>

section \<open>The stream\<close>

datatype comment_state = NO_COMMENT | PRESERVE_COMMENT | DISCARD_COMMENT

record Lex_input_stream =
  m_raw :: "uchar list"
  m_ptr :: nat
  m_tok_start :: nat
  m_tok_end :: nat
  m_end_of_query :: nat
  m_tok_start_prev :: nat
  m_echo :: bool
  m_echo_saved :: bool
  m_cpp :: "uchar list"
  m_cpp_ptr :: nat
  m_cpp_tok_start :: nat
  m_cpp_tok_start_prev :: nat
  m_cpp_tok_end :: nat
  m_body_utf8 :: nat
  m_body_utf8_ptr :: nat
  lookahead_token :: int
  in_comment :: comment_state
  in_comment_saved :: comment_state

definition set_echo :: "bool \<Rightarrow> Lex_input_stream \<Rightarrow> Lex_input_stream" where
  "set_echo echo l = l\<lparr>m_echo := echo\<rparr>"

definition save_in_comment_state :: "Lex_input_stream \<Rightarrow> Lex_input_stream" where
  "save_in_comment_state l = l\<lparr>m_echo_saved := m_echo l, in_comment_saved := in_comment l\<rparr>"

definition restore_in_comment_state :: "Lex_input_stream \<Rightarrow> Lex_input_stream" where
  "restore_in_comment_state l = l\<lparr>m_echo := m_echo_saved l, in_comment := in_comment_saved l\<rparr>"

text \<open>Copying \<open>n\<close> bytes from the raw position to the position in the pre-processed buffer.\<close>

definition copy_to_cpp :: "nat \<Rightarrow> Lex_input_stream \<Rightarrow> Lex_input_stream option" where
  "copy_to_cpp n l =
     (if m_ptr l + n \<le> length (m_raw l) \<and> m_cpp_ptr l + n \<le> length (m_cpp l)
      then Some (l\<lparr>m_cpp := take (m_cpp_ptr l) (m_cpp l) @ take n (drop (m_ptr l) (m_raw l)) @ drop (m_cpp_ptr l + n) (m_cpp l),
                   m_cpp_ptr := m_cpp_ptr l + n\<rparr>)
      else None)"

definition advance :: "nat \<Rightarrow> Lex_input_stream \<Rightarrow> Lex_input_stream option" where
  "advance n l = (if m_ptr l + n \<le> length (m_raw l) then Some (l\<lparr>m_ptr := m_ptr l + n\<rparr>) else None)"

definition skip_binary :: "nat \<Rightarrow> Lex_input_stream \<Rightarrow> Lex_input_stream option" where
  "skip_binary n l = Option.bind (if m_echo l then copy_to_cpp n l else Some l) (advance n)"

definition yyPeekn :: "nat \<Rightarrow> Lex_input_stream \<Rightarrow> uchar option" where
  "yyPeekn n l = (if m_ptr l + n < length (m_raw l) then Some (m_raw l ! (m_ptr l + n)) else None)"

definition yyPeek :: "Lex_input_stream \<Rightarrow> uchar option" where
  "yyPeek l = yyPeekn 0 l"

definition yyGet :: "Lex_input_stream \<Rightarrow> (uchar \<times> Lex_input_stream) option" where
  "yyGet l =
     (case yyPeek l of
        None \<Rightarrow> None
      | Some c \<Rightarrow> map_option (\<lambda>l. (c, l)) (Option.bind (if m_echo l then copy_to_cpp 1 l else Some l) (advance 1)))"

definition yyGetLast :: "Lex_input_stream \<Rightarrow> uchar option" where
  "yyGetLast l = (if 0 < m_ptr l \<and> m_ptr l \<le> length (m_raw l) then Some (m_raw l ! (m_ptr l - 1)) else None)"

definition yyUnget :: "Lex_input_stream \<Rightarrow> Lex_input_stream option" where
  "yyUnget l =
     (if 0 < m_ptr l \<and> (m_echo l \<longrightarrow> 0 < m_cpp_ptr l)
      then Some (let l = l\<lparr>m_ptr := m_ptr l - 1\<rparr> in if m_echo l then l\<lparr>m_cpp_ptr := m_cpp_ptr l - 1\<rparr> else l)
      else None)"

definition yySkip :: "Lex_input_stream \<Rightarrow> Lex_input_stream option" where
  "yySkip l = (if m_echo l then Option.bind (copy_to_cpp 1 l) (advance 1) else advance 1 l)"

definition yySkipn :: "nat \<Rightarrow> Lex_input_stream \<Rightarrow> Lex_input_stream option" where
  "yySkipn n l = Option.bind (if m_echo l then copy_to_cpp n l else Some l) (advance n)"

definition yyUnput :: "uchar \<Rightarrow> Lex_input_stream \<Rightarrow> Lex_input_stream option" where
  "yyUnput ch l =
     (if 0 < m_ptr l \<and> m_ptr l \<le> length (m_raw l) \<and> (m_echo l \<longrightarrow> 0 < m_cpp_ptr l)
      then Some (let l = l\<lparr>m_ptr := m_ptr l - 1, m_raw := (m_raw l)[m_ptr l - 1 := ch]\<rparr>
                 in if m_echo l then l\<lparr>m_cpp_ptr := m_cpp_ptr l - 1\<rparr> else l)
      else None)"

definition eof_n :: "nat \<Rightarrow> Lex_input_stream \<Rightarrow> bool" where
  "eof_n n l \<longleftrightarrow> m_ptr l + n \<ge> m_end_of_query l"

definition eof :: "Lex_input_stream \<Rightarrow> bool" where
  "eof l \<longleftrightarrow> m_ptr l \<ge> m_end_of_query l"

definition start_token :: "Lex_input_stream \<Rightarrow> Lex_input_stream" where
  "start_token l =
     l\<lparr>m_tok_start_prev := m_tok_start l, m_tok_start := m_ptr l, m_tok_end := m_ptr l,
       m_cpp_tok_start_prev := m_cpp_tok_start l, m_cpp_tok_start := m_cpp_ptr l, m_cpp_tok_end := m_cpp_ptr l\<rparr>"

definition restart_token :: "Lex_input_stream \<Rightarrow> Lex_input_stream" where
  "restart_token l = l\<lparr>m_tok_start := m_ptr l, m_cpp_tok_start := m_cpp_ptr l\<rparr>"

definition yyLength :: "Lex_input_stream \<Rightarrow> nat option" where
  "yyLength l = (if m_ptr l > m_tok_start l then Some (m_ptr l - m_tok_start l - 1) else None)"

definition has_lookahead :: "Lex_input_stream \<Rightarrow> bool" where
  "has_lookahead l \<longleftrightarrow> lookahead_token l \<ge> 0"

definition get_tok_start :: "Lex_input_stream \<Rightarrow> nat" where
  "get_tok_start l = (if has_lookahead l then m_tok_start_prev l else m_tok_start l)"

definition set_cpp_tok_start :: "nat \<Rightarrow> Lex_input_stream \<Rightarrow> Lex_input_stream" where
  "set_cpp_tok_start pos l = l\<lparr>m_cpp_tok_start := pos\<rparr>"

definition get_tok_end :: "Lex_input_stream \<Rightarrow> nat" where
  "get_tok_end l = m_tok_end l"

definition get_ptr :: "Lex_input_stream \<Rightarrow> nat" where
  "get_ptr l = m_ptr l"

definition get_cpp_tok_start :: "Lex_input_stream \<Rightarrow> nat" where
  "get_cpp_tok_start l = (if has_lookahead l then m_cpp_tok_start_prev l else m_cpp_tok_start l)"

definition get_cpp_tok_end :: "Lex_input_stream \<Rightarrow> nat" where
  "get_cpp_tok_end l = m_cpp_tok_end l"

text \<open>The loop that steps back over white space; \<^verbatim>\<open>my_isspace\<close> of the system character set is a parameter.\<close>

fun rtrim :: "(uchar \<Rightarrow> bool) \<Rightarrow> uchar list \<Rightarrow> nat \<Rightarrow> nat" where
  "rtrim my_isspace buf 0 = 0"
| "rtrim my_isspace buf (Suc p) = (if my_isspace (buf ! p) then rtrim my_isspace buf p else Suc p)"

definition get_cpp_tok_end_rtrim :: "(uchar \<Rightarrow> bool) \<Rightarrow> Lex_input_stream \<Rightarrow> nat" where
  "get_cpp_tok_end_rtrim my_isspace l = rtrim my_isspace (m_cpp l) (m_cpp_tok_end l)"

definition get_cpp_ptr :: "Lex_input_stream \<Rightarrow> nat" where
  "get_cpp_ptr l = m_cpp_ptr l"

definition get_cpp_ptr_rtrim :: "(uchar \<Rightarrow> bool) \<Rightarrow> Lex_input_stream \<Rightarrow> nat" where
  "get_cpp_ptr_rtrim my_isspace l = rtrim my_isspace (m_cpp l) (m_cpp_ptr l)"

definition get_body_utf8_length :: "Lex_input_stream \<Rightarrow> nat" where
  "get_body_utf8_length l = m_body_utf8_ptr l - m_body_utf8 l"

section \<open>Sequences of calls\<close>

datatype lex_call =
  Get | Skip | Skipn nat | Skip_binary nat | Unget | Unput uchar | Set_echo bool | Save | Restore | Start_token | Restart_token

fun lex_step :: "lex_call \<Rightarrow> Lex_input_stream \<Rightarrow> Lex_input_stream option" where
  "lex_step Get l = map_option snd (yyGet l)"
| "lex_step Skip l = yySkip l"
| "lex_step (Skipn n) l = yySkipn n l"
| "lex_step (Skip_binary n) l = skip_binary n l"
| "lex_step Unget l = yyUnget l"
| "lex_step (Unput ch) l = yyUnput ch l"
| "lex_step (Set_echo b) l = Some (set_echo b l)"
| "lex_step Save l = Some (save_in_comment_state l)"
| "lex_step Restore l = Some (restore_in_comment_state l)"
| "lex_step Start_token l = Some (start_token l)"
| "lex_step Restart_token l = Some (restart_token l)"

fun lex_run :: "lex_call list \<Rightarrow> Lex_input_stream \<Rightarrow> Lex_input_stream option" where
  "lex_run [] l = Some l"
| "lex_run (c # cs) l = Option.bind (lex_step c l) (lex_run cs)"

section \<open>What the stream is for\<close>

text \<open>The characters consumed, each with whether it was echoed, and those to come. A character is put back only in
  the echo mode in which it was read; that is what the comments ask of the caller.\<close>

record text_stream =
  consumed :: "(uchar \<times> bool) list"
  upcoming :: "uchar list"
  echo :: bool
  saved :: bool

definition text_take :: "nat \<Rightarrow> text_stream \<Rightarrow> text_stream option" where
  "text_take n t =
     (if n \<le> length (upcoming t)
      then Some (t\<lparr>consumed := consumed t @ map (\<lambda>c. (c, echo t)) (take n (upcoming t)), upcoming := drop n (upcoming t)\<rparr>)
      else None)"

fun text_step :: "lex_call \<Rightarrow> text_stream \<Rightarrow> text_stream option" where
  "text_step Get t = text_take 1 t"
| "text_step Skip t = text_take 1 t"
| "text_step (Skipn n) t = text_take n t"
| "text_step (Skip_binary n) t = text_take n t"
| "text_step Unget t =
     (if consumed t \<noteq> [] \<and> snd (last (consumed t)) = echo t
      then Some (t\<lparr>consumed := butlast (consumed t), upcoming := fst (last (consumed t)) # upcoming t\<rparr>) else None)"
| "text_step (Unput ch) t =
     (if consumed t \<noteq> [] \<and> snd (last (consumed t)) = echo t
      then Some (t\<lparr>consumed := butlast (consumed t), upcoming := ch # upcoming t\<rparr>) else None)"
| "text_step (Set_echo b) t = Some (t\<lparr>echo := b\<rparr>)"
| "text_step Save t = Some (t\<lparr>saved := echo t\<rparr>)"
| "text_step Restore t = Some (t\<lparr>echo := saved t\<rparr>)"
| "text_step Start_token t = Some t"
| "text_step Restart_token t = Some t"

fun text_run :: "lex_call list \<Rightarrow> text_stream \<Rightarrow> text_stream option" where
  "text_run [] t = Some t"
| "text_run (c # cs) t = Option.bind (text_step c t) (text_run cs)"

text \<open>What the comments ask of the caller, at every call of the sequence.\<close>

definition mode_kept :: "lex_call \<Rightarrow> text_stream \<Rightarrow> bool" where
  "mode_kept c t \<longleftrightarrow> (c = Unget \<or> (\<exists>ch. c = Unput ch) \<longrightarrow> consumed t = [] \<or> snd (last (consumed t)) = echo t)"

fun modes_kept :: "lex_call list \<Rightarrow> text_stream \<Rightarrow> bool" where
  "modes_kept [] t = True"
| "modes_kept (c # cs) t = (mode_kept c t \<and> (case text_step c t of None \<Rightarrow> True | Some u \<Rightarrow> modes_kept cs u))"

definition echoed :: "text_stream \<Rightarrow> uchar list" where
  "echoed t = map fst (filter snd (consumed t))"

definition stream_of :: "Lex_input_stream \<Rightarrow> text_stream \<Rightarrow> bool" where
  "stream_of l t \<longleftrightarrow>
     m_raw l = map fst (consumed t) @ upcoming t \<and> m_ptr l = length (consumed t)
     \<and> m_cpp_ptr l = length (echoed t) \<and> take (m_cpp_ptr l) (m_cpp l) = echoed t
     \<and> length (m_raw l) \<le> length (m_cpp l) \<and> m_echo l = echo t \<and> m_echo_saved l = saved t"

lemma echoed_le: "length (echoed t) \<le> length (consumed t)"
  by (simp add: echoed_def)

lemma stream_skipn:
  assumes "stream_of l t" "text_take n t = Some t'"
  shows "\<exists>l'. Option.bind (if m_echo l then copy_to_cpp n l else Some l) (advance n) = Some l' \<and> stream_of l' t'"
proof -
  define cs where "cs = take n (upcoming t)"
  have n: "n \<le> length (upcoming t)"
    and t': "t' = t\<lparr>consumed := consumed t @ map (\<lambda>c. (c, echo t)) cs, upcoming := drop n (upcoming t)\<rparr>"
    using assms(2) by (auto simp: cs_def text_take_def split: if_splits)
  have len: "length cs = n" using n by (simp add: cs_def)
  have raw: "m_raw l = map fst (consumed t) @ cs @ drop n (upcoming t)" "m_ptr l = length (consumed t)"
    using assms(1) by (simp_all add: stream_of_def cs_def)
  then have fit: "m_ptr l + n \<le> length (m_raw l)" "take n (drop (m_ptr l) (m_raw l)) = cs" using len by simp_all
  have e: "echoed t' = echoed t @ (if echo t then cs else [])"
    by (simp add: t' echoed_def filter_map comp_def)
  show ?thesis
  proof (cases "echo t")
    case False
    then show ?thesis using assms(1) raw fit e len by (auto simp: stream_of_def t' advance_def comp_def)
  next
    case True
    then have "m_cpp_ptr l + n \<le> length (m_cpp l)"
      using assms(1) fit echoed_le [of t] unfolding stream_of_def by linarith
    then show ?thesis using assms(1) True raw fit e len
      by (auto simp: stream_of_def t' advance_def copy_to_cpp_def comp_def)
  qed
qed

lemma stream_back:
  assumes "stream_of l t" "consumed t \<noteq> []" "snd (last (consumed t)) = echo t"
  shows "0 < m_ptr l" "m_ptr l \<le> length (m_raw l)" "m_echo l \<longrightarrow> 0 < m_cpp_ptr l"
    "stream_of ((l\<lparr>m_ptr := m_ptr l - 1, m_raw := (m_raw l)[m_ptr l - 1 := ch]\<rparr>)
       \<lparr>m_cpp_ptr := (if m_echo l then m_cpp_ptr l - 1 else m_cpp_ptr l)\<rparr>)
      (t\<lparr>consumed := butlast (consumed t), upcoming := ch # upcoming t\<rparr>)"
proof -
  obtain cs x where "consumed t = cs @ [x]" using assms(2) by (cases "consumed t" rule: rev_cases) auto
  moreover define c where "c = fst x"
  ultimately have cs: "consumed t = cs @ [(c, echo t)]" using assms(3) by (cases x) simp
  have e: "echoed t = map fst (filter snd cs) @ (if echo t then [c] else [])" by (simp add: echoed_def cs)
  show "0 < m_ptr l" "m_ptr l \<le> length (m_raw l)" "m_echo l \<longrightarrow> 0 < m_cpp_ptr l"
    using assms(1) cs e by (auto simp: stream_of_def)
  define es where "es = map fst (filter snd cs)"
  have "take (length (echoed t)) (m_cpp l) = echoed t" using assms(1) by (auto simp: stream_of_def)
  then have "take (length es) (take (length (echoed t)) (m_cpp l)) = take (length es) (echoed t)" by (rule arg_cong)
  then have "take (length es) (m_cpp l) = es" using e by (simp add: es_def [symmetric] min_def split: if_splits)
  then have "take (length (filter snd cs)) (m_cpp l) = map fst (filter snd cs)" by (simp add: es_def)
  then show "stream_of ((l\<lparr>m_ptr := m_ptr l - 1, m_raw := (m_raw l)[m_ptr l - 1 := ch]\<rparr>)
       \<lparr>m_cpp_ptr := (if m_echo l then m_cpp_ptr l - 1 else m_cpp_ptr l)\<rparr>)
      (t\<lparr>consumed := butlast (consumed t), upcoming := ch # upcoming t\<rparr>)"
    using assms(1) cs e by (auto simp: stream_of_def echoed_def list_update_append)
qed

lemma lex_step_refines:
  assumes "stream_of l t" "text_step c t = Some t'"
  shows "\<exists>l'. lex_step c l = Some l' \<and> stream_of l' t'"
proof (cases c)
  case Get
  then have "text_take 1 t = Some t'" using assms(2) by simp
  moreover from this have "\<exists>d. yyPeek l = Some d"
    using assms(1) by (auto simp: yyPeek_def yyPeekn_def stream_of_def text_take_def split: if_splits)
  ultimately show ?thesis using stream_skipn [OF assms(1), of 1 t'] Get by (auto simp: yyGet_def)
next
  case Unget
  then have h: "consumed t \<noteq> []" "snd (last (consumed t)) = echo t"
    and t': "t' = t\<lparr>consumed := butlast (consumed t), upcoming := fst (last (consumed t)) # upcoming t\<rparr>"
    using assms(2) by (auto split: if_splits)
  note b = stream_back [OF assms(1) h]
  have "m_raw l ! (m_ptr l - 1) = fst (last (consumed t))"
    using assms(1) h by (simp add: stream_of_def nth_append last_conv_nth)
  then have "(m_raw l)[m_ptr l - 1 := fst (last (consumed t))] = m_raw l"
    by (metis list_update_id)
  then show ?thesis using b(1,3) b(4) [of "fst (last (consumed t))"] Unget t' by (auto simp: yyUnget_def Let_def)
next
  case (Unput ch)
  then have h: "consumed t \<noteq> []" "snd (last (consumed t)) = echo t"
    and t': "t' = t\<lparr>consumed := butlast (consumed t), upcoming := ch # upcoming t\<rparr>"
    using assms(2) by (auto split: if_splits)
  then show ?thesis using stream_back(1-3) [OF assms(1) h] stream_back(4) [OF assms(1) h, of ch] Unput by (auto simp: yyUnput_def Let_def)
next
  case Skip
  then show ?thesis using stream_skipn [OF assms(1), of 1 t'] assms(2) by (simp add: yySkip_def split: if_splits)
next
  case (Skipn n)
  then show ?thesis using stream_skipn [OF assms(1), of n t'] assms(2) by (simp add: yySkipn_def)
next
  case (Skip_binary n)
  then show ?thesis using stream_skipn [OF assms(1), of n t'] assms(2) by (simp add: skip_binary_def)
qed (use assms in \<open>auto simp: stream_of_def echoed_def set_echo_def save_in_comment_state_def
      restore_in_comment_state_def start_token_def restart_token_def\<close>)

lemma lex_run_refines:
  "stream_of l t \<Longrightarrow> text_run cs t = Some t' \<Longrightarrow> \<exists>l'. lex_run cs l = Some l' \<and> stream_of l' t'"
proof (induction cs arbitrary: l t)
  case (Cons c cs)
  then obtain u where u: "text_step c t = Some u" "text_run cs u = Some t'" by (auto simp: bind_eq_Some_conv)
  then obtain m where "lex_step c l = Some m" "stream_of m u" using lex_step_refines [OF Cons.prems(1)] by blast
  then show ?case using Cons.IH [OF _ u(2)] by simp
qed auto

text \<open>Conversely, a call that the text does not allow leaves the raw buffer.\<close>

lemma lex_step_leaves:
  assumes "stream_of l t" "text_step c t = None" "mode_kept c t"
  shows "lex_step c l = None"
proof -
  have len: "length (m_raw l) = m_ptr l + length (upcoming t)" "m_ptr l = length (consumed t)" using assms(1) by (simp_all add: stream_of_def)
  have take: "Option.bind (if m_echo l then copy_to_cpp n l else Some l) (advance n) = None" if "text_take n t = None" for n
    using that len(1) by (auto simp: text_take_def copy_to_cpp_def advance_def split: if_splits)
  have start: "m_ptr l = 0" if "c = Unget \<or> (\<exists>ch. c = Unput ch)"
    using that assms(2,3) len(2) by (auto simp: mode_kept_def split: if_splits)
  show ?thesis
    using assms(2) take [of 1] take start
    by (cases c) (auto simp: yyGet_def yySkip_def yySkipn_def skip_binary_def yyUnget_def yyUnput_def split: option.splits)
qed

lemma lex_run_leaves:
  "stream_of l t \<Longrightarrow> text_run cs t = None \<Longrightarrow> modes_kept cs t \<Longrightarrow> lex_run cs l = None"
proof (induction cs arbitrary: l t)
  case (Cons c cs)
  show ?case
  proof (cases "text_step c t")
    case None
    then show ?thesis using lex_step_leaves [OF Cons.prems(1)] Cons.prems(3) by simp
  next
    case (Some u)
    then obtain m where "lex_step c l = Some m" "stream_of m u" using lex_step_refines [OF Cons.prems(1)] by blast
    then show ?thesis using Cons.IH [of m u] Cons.prems Some by simp
  qed
qed simp

text \<open>A stream at the start of a query, with a pre-processed buffer as long as the query.\<close>

definition fresh_stream :: "uchar list \<Rightarrow> uchar list \<Rightarrow> Lex_input_stream \<Rightarrow> bool" where
  "fresh_stream query cpp l \<longleftrightarrow>
     m_raw l = query \<and> m_ptr l = 0 \<and> m_cpp l = cpp \<and> m_cpp_ptr l = 0 \<and> length query \<le> length cpp"

text \<open>C15. Whatever sequence of reading, skipping, putting back and switching the echo the scanner performs, as long as
  it puts characters back in the echo mode in which it read them: an access leaves a buffer exactly when the calls
  read past the end of the query or put back more than was read, so never the pre-processed buffer alone. Otherwise the
  raw position is the number of characters consumed, and the pre-processed buffer holds exactly the characters that were
  consumed with the echo on, in order.\<close>

theorem lex_stream_refines:
  assumes "fresh_stream query cpp l"
    and "modes_kept calls \<lparr>consumed = [], upcoming = query, echo = m_echo l, saved = m_echo_saved l\<rparr>"
  shows "case text_run calls \<lparr>consumed = [], upcoming = query, echo = m_echo l, saved = m_echo_saved l\<rparr> of
      None \<Rightarrow> lex_run calls l = None
    | Some t \<Rightarrow> (\<exists>l'. lex_run calls l = Some l' \<and> m_ptr l' = length (consumed t)
        \<and> m_raw l' = map fst (consumed t) @ upcoming t
        \<and> take (m_cpp_ptr l') (m_cpp l') = map fst (filter snd (consumed t)) \<and> m_cpp_ptr l' \<le> m_ptr l')"
proof -
  let ?t = "\<lparr>consumed = [], upcoming = query, echo = m_echo l, saved = m_echo_saved l\<rparr>"
  have s: "stream_of l ?t" using assms(1) by (simp add: stream_of_def fresh_stream_def echoed_def)
  show ?thesis
  proof (cases "text_run calls ?t")
    case None
    then show ?thesis using lex_run_leaves [OF s None assms(2)] by simp
  next
    case (Some t)
    from lex_run_refines [OF s Some] have "\<exists>l'. lex_run calls l = Some l' \<and> m_ptr l' = length (consumed t)
        \<and> m_raw l' = map fst (consumed t) @ upcoming t
        \<and> take (m_cpp_ptr l') (m_cpp l') = map fst (filter snd (consumed t)) \<and> m_cpp_ptr l' \<le> m_ptr l'"
      using echoed_le [of t] by (auto simp: stream_of_def) (auto simp: echoed_def)
    then show ?thesis using Some by simp
  qed
qed

text \<open>A query that is read without echo up to a comment, then echoed, with one character put back.\<close>

definition ex_stream :: Lex_input_stream where
  "ex_stream =
     \<lparr>m_raw = [65, 66, 67, 68], m_ptr = 0, m_tok_start = 0, m_tok_end = 0, m_end_of_query = 4, m_tok_start_prev = 0,
      m_echo = True, m_echo_saved = True, m_cpp = [0, 0, 0, 0], m_cpp_ptr = 0, m_cpp_tok_start = 0, m_cpp_tok_start_prev = 0,
      m_cpp_tok_end = 0, m_body_utf8 = 0, m_body_utf8_ptr = 0, lookahead_token = - 1, in_comment = NO_COMMENT,
      in_comment_saved = NO_COMMENT\<rparr>"

theorem lex_stream_refines_witness:
  "(\<exists>l'. lex_run [Get, Set_echo False, Skip, Set_echo True, Skipn 2, Unget] ex_stream = Some l'
    \<and> m_ptr l' = 3 \<and> take (m_cpp_ptr l') (m_cpp l') = [65, 67]) \<and> lex_run [Skipn 3, Skipn 2] ex_stream = None"
proof -
  have f: "fresh_stream [65, 66, 67, 68] [0, 0, 0, 0] ex_stream" by (simp add: ex_stream_def fresh_stream_def)
  show ?thesis
    using lex_stream_refines [OF f, of "[Get, Set_echo False, Skip, Set_echo True, Skipn 2, Unget]"] lex_stream_refines [OF f, of "[Skipn 3, Skipn 2]"]
    by (auto simp: ex_stream_def text_take_def mode_kept_def simp del: lex_run.simps)
qed

section \<open>Ends of tokens and of the query\<close>

text \<open>The loops that trim white space from the end return the position after the last character that is no
  space: everything behind it up to the given end is white space, and the character before it, if any, is not.\<close>

theorem rtrim_correct:
  "rtrim my_isspace buf p \<le> p
   \<and> (\<forall>i. rtrim my_isspace buf p \<le> i \<and> i < p \<longrightarrow> my_isspace (buf ! i))
   \<and> (rtrim my_isspace buf p = 0 \<or> \<not> my_isspace (buf ! (rtrim my_isspace buf p - 1)))"
  by (induction p) (auto simp: less_Suc_eq)

theorem rtrim_correct_witness: "rtrim (\<lambda>c. c = 32) [65, 32, 66, 32, 32] 5 \<le> 5"
  using rtrim_correct [of "\<lambda>c. c = 32" "[65, 32, 66, 32, 32]" 5] by blast

text \<open>The test for the end of the query with a number of characters holds already when exactly that many are left.\<close>

lemma eof_n_iff: "m_ptr l \<le> m_end_of_query l \<Longrightarrow> eof_n n l \<longleftrightarrow> m_end_of_query l - m_ptr l \<le> n"
  by (auto simp: eof_n_def)

lemma eof_n_exact: "m_end_of_query l = m_ptr l + n \<Longrightarrow> eof_n n l"
  by (simp add: eof_n_def)

text \<open>With a look-ahead token the start of the token before it is reported.\<close>

lemma tok_start_with_lookahead:
  "has_lookahead l \<Longrightarrow> get_tok_start (start_token l) = m_tok_start l \<and> get_cpp_tok_start (start_token l) = m_cpp_tok_start l"
  by (simp add: get_tok_start_def get_cpp_tok_start_def start_token_def has_lookahead_def)

end
