(* ===== verification/Tranx_Alloc.thy ===== *)
theory Tranx_Alloc
  imports Prelude
begin

text \<open>
  The allocator for nodes of active transactions of the semi-synchronous master (\<^verbatim>\<open>semisync_master.h\<close>): a linked list of
  blocks with 16 nodes each, of which the blocks up to the current one are in use.

  Blocks and nodes have addresses in a memory of bytes, so that the comparison of a node with the ends of a block is the
  comparison of addresses. The state holds the set of blocks that are allocated; following a pointer to a block outside
  it is an absent result. What \<^verbatim>\<open>my_malloc\<close> returns is an argument, 0 when it fails.
\<close>

section \<open>Blocks and nodes\<close>

record Tranx_node =
  log_name :: string
  log_pos :: ulonglong
  node_next :: addr
  hash_next :: addr

definition BLOCK_TRANX_NODES :: nat where "BLOCK_TRANX_NODES = 16"

text \<open>512 bytes for the name, the position and two pointers; a block starts with its pointer to the next one.\<close>

definition NODE_SIZE :: nat where "NODE_SIZE = 512 + 8 + 8 + 8"

definition node_addr :: "addr \<Rightarrow> nat \<Rightarrow> addr" where
  "node_addr block i = block + 8 + i * NODE_SIZE"

definition BLOCK_SIZE :: nat where "BLOCK_SIZE = 8 + BLOCK_TRANX_NODES * NODE_SIZE"

record Tranx_node_allocator =
  reserved_blocks :: uint32
  first_block :: addr
  last_block :: addr
  current_block :: addr
  last_node :: int
  block_num :: uint32
  block_next :: "addr \<Rightarrow> addr"
  allocated :: "addr set"
  node_at :: "addr \<Rightarrow> Tranx_node"

definition mk_allocator :: "uint32 \<Rightarrow> (addr \<Rightarrow> Tranx_node) \<Rightarrow> Tranx_node_allocator" where
  "mk_allocator reserved_nodes mem =
     \<lparr>reserved_blocks = reserved_nodes div 16 + (if reserved_nodes mod 16 > 1 then 2 else 1),
      first_block = 0, last_block = 0, current_block = 0, last_node = - 1, block_num = 0,
      block_next = (\<lambda>_. 0), allocated = {}, node_at = mem\<rparr>"

definition next_of :: "Tranx_node_allocator \<Rightarrow> addr \<Rightarrow> addr option" where
  "next_of s b = (if b \<in> allocated s then Some (block_next s b) else None)"

definition set_next :: "addr \<Rightarrow> addr \<Rightarrow> Tranx_node_allocator \<Rightarrow> Tranx_node_allocator option" where
  "set_next b v s = (if b \<in> allocated s then Some (s\<lparr>block_next := (block_next s)(b := v)\<rparr>) else None)"

definition allocate_block :: "addr \<Rightarrow> Tranx_node_allocator \<Rightarrow> (bool \<times> Tranx_node_allocator) option" where
  "allocate_block block s =
     (if block \<noteq> 0
      then let s = s\<lparr>allocated := insert block (allocated s), block_next := (block_next s)(block := 0)\<rparr>
           in Option.bind
                (if first_block s = 0 then Some (s\<lparr>first_block := block\<rparr>) else set_next (last_block s) block s)
                (\<lambda>s. Some (False, s\<lparr>last_block := block, current_block := block, block_num := block_num s + 1\<rparr>))
      else Some (True, s))"

definition init_node :: "Tranx_node \<Rightarrow> Tranx_node" where
  "init_node n = n\<lparr>log_name := '''', log_pos := 0, node_next := 0, hash_next := 0\<rparr>"

definition allocate_node :: "addr \<Rightarrow> Tranx_node_allocator \<Rightarrow> (addr \<times> Tranx_node_allocator) option" where
  "allocate_node malloc s =
     (let block = current_block s
      in Option.bind
           (if last_node s = int BLOCK_TRANX_NODES - 1
            then map_option (\<lambda>n. s\<lparr>current_block := n, last_node := - 1\<rparr>) (next_of s (current_block s))
            else Some s)
           (\<lambda>s. Option.bind (if current_block s = 0 then allocate_block malloc s else Some (False, s))
              (\<lambda>(err, s).
                 if err
                 then Some (0, let s = s\<lparr>current_block := block\<rparr>
                               in if current_block s \<noteq> 0 then s\<lparr>last_node := int BLOCK_TRANX_NODES - 1\<rparr> else s)
                 else if current_block s \<in> allocated s
                 then let s = s\<lparr>last_node := last_node s + 1\<rparr>;
                          node = node_addr (current_block s) (nat (last_node s))
                      in Some (node, s\<lparr>node_at := (node_at s)(node := init_node (node_at s node))\<rparr>)
                 else None)))"

definition free_block :: "addr \<Rightarrow> Tranx_node_allocator \<Rightarrow> Tranx_node_allocator option" where
  "free_block b s =
     (if b \<in> allocated s then Some (s\<lparr>allocated := allocated s - {b}, block_num := block_num s - 1\<rparr>) else None)"

partial_function (option) free_loop :: "addr \<Rightarrow> Tranx_node_allocator \<Rightarrow> (addr \<times> Tranx_node_allocator) option" where
  "free_loop block s =
     (if block_num s > reserved_blocks s \<and> block \<noteq> 0
      then Option.bind (next_of s block) (\<lambda>next. Option.bind (free_block block s) (\<lambda>s. free_loop next s))
      else Some (block, s))"

definition free_blocks :: "Tranx_node_allocator \<Rightarrow> Tranx_node_allocator option" where
  "free_blocks s =
     (if current_block s = 0 then Some s
      else Option.bind (next_of s (current_block s))
        (\<lambda>f. if f = 0 then Some s
             else Option.bind (next_of s f)
               (\<lambda>block. Option.bind (free_loop block s)
                  (\<lambda>(block, s). Option.bind (next_of s (current_block s))
                     (\<lambda>f. Option.bind (set_next f block s)
                        (\<lambda>s. Some (if block = 0 then s\<lparr>last_block := f\<rparr> else s)))))))"

definition free_all_nodes :: "Tranx_node_allocator \<Rightarrow> Tranx_node_allocator option" where
  "free_all_nodes s = free_blocks (s\<lparr>current_block := first_block s, last_node := - 1\<rparr>)"

text \<open>The search for the block of a node: the block and its predecessor, or nothing when the list is exhausted.\<close>

partial_function (option) find_block ::
    "addr \<Rightarrow> addr \<Rightarrow> addr \<Rightarrow> addr \<Rightarrow> Tranx_node_allocator \<Rightarrow> (addr \<times> addr) option option" where
  "find_block node stop prev_block block s =
     (if block = stop then Some None
      else if node_addr block 0 \<le> node \<and> node \<le> node_addr block BLOCK_TRANX_NODES
      then Some (Some (block, prev_block))
      else Option.bind (next_of s block) (\<lambda>next. find_block node stop block next s))"

definition free_nodes_before :: "addr \<Rightarrow> Tranx_node_allocator \<Rightarrow> (int \<times> Tranx_node_allocator) option" where
  "free_nodes_before node s =
     Option.bind (next_of s (current_block s))
       (\<lambda>stop. Option.bind (find_block node stop 0 (first_block s) s)
          (\<lambda>r. case r of
                 None \<Rightarrow> Some (1, s)
               | Some (block, prev_block) \<Rightarrow>
                   if first_block s \<noteq> block
                   then Option.bind (set_next (last_block s) (first_block s) s)
                          (\<lambda>s. let s = s\<lparr>first_block := block, last_block := prev_block\<rparr>
                               in Option.bind (set_next (last_block s) 0 s)
                                    (\<lambda>s. map_option (\<lambda>s. (0, s)) (free_blocks s)))
                   else Some (0, s)))"

text \<open>The destructor.\<close>

partial_function (option) destroy_loop :: "addr \<Rightarrow> Tranx_node_allocator \<Rightarrow> Tranx_node_allocator option" where
  "destroy_loop block s =
     (if block \<noteq> 0
      then Option.bind (next_of s block) (\<lambda>next. Option.bind (free_block block s) (\<lambda>s. destroy_loop next s))
      else Some s)"

definition destroy_allocator :: "Tranx_node_allocator \<Rightarrow> Tranx_node_allocator option" where
  "destroy_allocator s = destroy_loop (first_block s) s"

section \<open>The invariant\<close>

text \<open>\<open>bs\<close> are the blocks in the order of the list and \<open>c\<close> is the index of the current one.\<close>

definition linked :: "(addr \<Rightarrow> addr) \<Rightarrow> addr list \<Rightarrow> bool" where
  "linked nx bs \<longleftrightarrow> (\<forall>i < length bs. nx (bs ! i) = (if Suc i < length bs then bs ! Suc i else 0))"

definition separate :: "addr list \<Rightarrow> bool" where
  "separate bs \<longleftrightarrow> (\<forall>a \<in> set bs. \<forall>b \<in> set bs. a \<noteq> b \<longrightarrow> a + BLOCK_SIZE \<le> b \<or> b + BLOCK_SIZE \<le> a)"

definition alloc_inv :: "Tranx_node_allocator \<Rightarrow> addr list \<Rightarrow> nat \<Rightarrow> bool" where
  "alloc_inv s bs c \<longleftrightarrow>
     distinct bs \<and> 0 \<notin> set bs \<and> linked (block_next s) bs \<and> separate bs \<and> allocated s = set bs
     \<and> first_block s = (if bs = [] then 0 else hd bs)
     \<and> (bs \<noteq> [] \<longrightarrow> last_block s = last bs)
     \<and> unat (block_num s) = length bs
     \<and> - 1 \<le> last_node s \<and> last_node s \<le> 15
     \<and> (if bs = [] then current_block s = 0 \<and> last_node s = - 1 \<and> c = 0
        else c < length bs \<and> current_block s = bs ! c)
     \<and> 0 < reserved_blocks s"

lemma alloc_invD:
  assumes "alloc_inv s bs c"
  shows "distinct bs" "0 \<notin> set bs" "linked (block_next s) bs" "separate bs" "allocated s = set bs"
    "unat (block_num s) = length bs" "- 1 \<le> last_node s" "last_node s \<le> 15"
    "bs \<noteq> [] \<Longrightarrow> c < length bs" "bs \<noteq> [] \<Longrightarrow> current_block s = bs ! c"
    "bs \<noteq> [] \<Longrightarrow> first_block s = hd bs" "bs \<noteq> [] \<Longrightarrow> last_block s = last bs"
  using assms by (simp_all add: alloc_inv_def)

lemma alloc_inv_block:
  assumes "alloc_inv s bs c" "i < length bs"
  shows "bs ! i \<in> allocated s" "bs ! i \<noteq> 0"
    "next_of s (bs ! i) = Some (if Suc i < length bs then bs ! Suc i else 0)"
proof -
  show a: "bs ! i \<in> allocated s" using assms by (simp add: alloc_invD(5))
  then show "bs ! i \<noteq> 0" using alloc_invD(2,5) [OF assms(1)] by metis
  show "next_of s (bs ! i) = Some (if Suc i < length bs then bs ! Suc i else 0)"
    using a alloc_invD(3) [OF assms(1)] assms(2) by (simp add: next_of_def linked_def)
qed

text \<open>The nodes in use, in the order in which they were allocated.\<close>

definition used :: "Tranx_node_allocator \<Rightarrow> addr list \<Rightarrow> nat \<Rightarrow> addr list" where
  "used s bs c =
     (if bs = [] then []
      else concat (map (\<lambda>b. map (node_addr b) [0..<16]) (take c bs)) @ map (node_addr (bs ! c)) [0..<nat (last_node s + 1)])"

section \<open>Lists of blocks\<close>

definition hd0 :: "addr list \<Rightarrow> addr" where
  "hd0 xs = (if xs = [] then 0 else hd xs)"

lemma hd0_simps [simp]: "hd0 [] = 0" "hd0 (x # xs) = x"
  by (simp_all add: hd0_def)

lemma linked_Cons: "linked nx (x # xs) \<longleftrightarrow> nx x = hd0 xs \<and> linked nx xs"
proof
  assume l: "linked nx (x # xs)"
  have "nx x = hd0 xs" using l [unfolded linked_def, rule_format, of 0] by (cases xs) auto
  moreover have "linked nx xs" unfolding linked_def
  proof (intro allI impI)
    fix i assume "i < length xs"
    then show "nx (xs ! i) = (if Suc i < length xs then xs ! Suc i else 0)"
      using l [unfolded linked_def, rule_format, of "Suc i"] by simp
  qed
  ultimately show "nx x = hd0 xs \<and> linked nx xs" by simp
next
  assume r: "nx x = hd0 xs \<and> linked nx xs"
  show "linked nx (x # xs)" unfolding linked_def
  proof (intro allI impI)
    fix i assume "i < length (x # xs)"
    then show "nx ((x # xs) ! i) = (if Suc i < length (x # xs) then (x # xs) ! Suc i else 0)"
      using r by (cases i; cases xs) (auto simp: linked_def)
  qed
qed

lemma linked_Nil [simp]: "linked nx []"
  by (simp add: linked_def)

text \<open>The two parts of a list; only the last link of the first part depends on the second.\<close>

fun seg :: "(addr \<Rightarrow> addr) \<Rightarrow> addr list \<Rightarrow> addr \<Rightarrow> bool" where
  "seg nx [] p \<longleftrightarrow> True"
| "seg nx (x # xs) p \<longleftrightarrow> nx x = (if xs = [] then p else hd xs) \<and> seg nx xs p"

lemma chain_linked_append: "linked nx (xs @ ys) \<longleftrightarrow> seg nx xs (hd0 ys) \<and> linked nx ys"
  by (induction xs) (auto simp: linked_Cons hd0_def)

lemma seg_upd [simp]: "a \<notin> set xs \<Longrightarrow> seg (nx(a := v)) xs p \<longleftrightarrow> seg nx xs p"
  by (induction xs) auto

lemma seg_snoc: "seg nx (xs @ [x]) p \<longleftrightarrow> seg nx xs x \<and> nx x = p"
  by (induction xs) auto

lemma linked_seg: "linked nx xs \<longleftrightarrow> seg nx xs 0"
  using chain_linked_append [of nx xs "[]"] by simp

lemma linked_upd [simp]: "a \<notin> set xs \<Longrightarrow> linked (nx(a := v)) xs \<longleftrightarrow> linked nx xs"
  by (simp add: linked_seg)

lemma seg_redirect:
  assumes "seg nx xs p" "xs \<noteq> []" "distinct xs"
  shows "seg (nx(last xs := q)) xs q"
proof -
  obtain ys x where "xs = ys @ [x]" using assms(2) by (cases xs rule: rev_cases) auto
  then show ?thesis using assms by (simp add: seg_snoc)
qed

lemma hd0_append: "hd0 (xs @ ys) = (if xs = [] then hd0 ys else hd xs)"
  by (simp add: hd0_def)

text \<open>Appending a block, rotating the list, and cutting a piece out behind a block.\<close>

lemma linked_snoc:
  assumes "linked nx bs" "distinct bs" "b \<notin> set bs" "bs \<noteq> []"
  shows "linked (nx(b := 0, last bs := b)) (bs @ [b])"
proof -
  have "seg (nx(b := 0)) bs 0" using assms by (simp add: linked_seg)
  then have "seg (nx(b := 0, last bs := b)) bs b" using assms by (intro seg_redirect) auto
  moreover have "last bs \<noteq> b" using assms by auto
  ultimately show ?thesis by (simp add: chain_linked_append linked_Cons)
qed

lemma linked_rotate:
  assumes "linked nx (xs @ ys)" "distinct (xs @ ys)" "xs \<noteq> []" "ys \<noteq> []"
  shows "linked (nx(last ys := hd xs, last xs := 0)) (ys @ xs)"
proof -
  have s: "seg nx xs (hd ys)" "seg nx ys 0" using assms by (auto simp: chain_linked_append hd0_def simp flip: linked_seg)
  have n: "last ys \<notin> set xs" "last xs \<notin> set ys" using assms last_in_set [OF assms(3)] last_in_set [OF assms(4)] by (auto simp: disjoint_iff)
  have "seg (nx(last ys := hd xs)) ys (hd xs)" using s assms by (intro seg_redirect) auto
  moreover have "seg (nx(last ys := hd xs, last xs := 0)) xs 0" using s n assms by (intro seg_redirect) auto
  ultimately show ?thesis using n assms by (simp add: chain_linked_append hd0_def flip: linked_seg)
qed

lemma linked_cut:
  assumes "linked nx (xs @ f # gs)" "distinct (xs @ f # gs)"
  shows "linked (nx(f := hd0 (drop k gs))) (xs @ f # drop k gs)"
proof -
  have "linked nx gs" "seg nx xs f" using assms(1) by (auto simp: chain_linked_append linked_Cons)
  moreover have "linked nx (drop k gs)" using \<open>linked nx gs\<close> chain_linked_append [of nx "take k gs" "drop k gs"] by simp
  moreover have "f \<notin> set (drop k gs)" using assms(2) by (auto dest: in_set_dropD)
  ultimately show ?thesis using assms(2) by (auto simp: chain_linked_append linked_Cons)
qed

lemma free_loop_frees:
  "linked (block_next s) gs \<Longrightarrow> distinct gs \<Longrightarrow> 0 \<notin> set gs \<Longrightarrow> set gs \<subseteq> allocated s \<Longrightarrow> length gs \<le> unat (block_num s) \<Longrightarrow>
   \<exists>k. free_loop (hd0 gs) s = Some (hd0 (drop k gs),
        s\<lparr>allocated := allocated s - set (take k gs), block_num := block_num s - of_nat k\<rparr>)
     \<and> k \<le> length gs \<and> (k = length gs \<or> unat (block_num s) - k \<le> unat (reserved_blocks s))"
proof (induction gs arbitrary: s)
  case Nil
  have "free_loop 0 s = Some (0, s)" by (subst free_loop.simps) simp
  then show ?case by (intro exI [of _ 0]) simp
next
  case (Cons g gs)
  show ?case
  proof (cases "block_num s > reserved_blocks s")
    case False
    then have "free_loop g s = Some (g, s)" by (subst free_loop.simps) simp
    moreover have "unat (block_num s) \<le> unat (reserved_blocks s)" using False by (simp add: word_less_nat_alt)
    ultimately show ?thesis by (intro exI [of _ 0]) simp
  next
    case True
    define t where "t = s\<lparr>allocated := allocated s - {g}, block_num := block_num s - 1\<rparr>"
    have nz: "block_num s \<noteq> 0" using Cons.prems by auto
    have n: "unat (block_num t) = unat (block_num s) - 1" using nz by (simp add: t_def unat_minus_one)
    have "\<exists>k. free_loop (hd0 gs) t = Some (hd0 (drop k gs),
        t\<lparr>allocated := allocated t - set (take k gs), block_num := block_num t - of_nat k\<rparr>)
     \<and> k \<le> length gs \<and> (k = length gs \<or> unat (block_num t) - k \<le> unat (reserved_blocks t))"
      by (rule Cons.IH) (use Cons.prems n in \<open>auto simp: t_def linked_Cons\<close>)
    then obtain k where k: "free_loop (hd0 gs) t = Some (hd0 (drop k gs),
        t\<lparr>allocated := allocated t - set (take k gs), block_num := block_num t - of_nat k\<rparr>)"
      "k \<le> length gs" "k = length gs \<or> unat (block_num t) - k \<le> unat (reserved_blocks t)" by blast
    have "free_loop g s = free_loop (hd0 gs) t"
      using True Cons.prems by (subst free_loop.simps) (auto simp: next_of_def free_block_def t_def linked_Cons)
    moreover have "allocated s - {g} - set (take k gs) = allocated s - insert g (set (take k gs))" by auto
    ultimately show ?thesis using k n by (intro exI [of _ "Suc k"]) (auto simp: t_def algebra_simps)
  qed
qed

section \<open>Operations keep the invariant\<close>

text \<open>Freeing superfluous blocks keeps the blocks up to the one behind the current one.\<close>

lemma free_blocks_ok:
  assumes "alloc_inv s bs c"
  shows "\<exists>s' bs'. free_blocks s = Some s' \<and> alloc_inv s' bs' c \<and> last_node s' = last_node s \<and> node_at s' = node_at s
    \<and> take (c + 1) bs' = take (c + 1) bs \<and> set bs' \<subseteq> set bs \<and> (bs = [] \<longleftrightarrow> bs' = [])
    \<and> length bs' \<le> max (unat (reserved_blocks s)) (c + 2)"
proof (cases "bs = [] \<or> length bs \<le> c + 1")
  case True
  have "free_blocks s = Some s"
  proof (cases "bs = []")
    case False
    then have "block_next s (bs ! c) = 0" "bs ! c \<in> set bs" "current_block s = bs ! c"
      using True assms by (auto simp: alloc_inv_def linked_def)
    then show ?thesis using assms by (auto simp: free_blocks_def next_of_def alloc_inv_def)
  qed (use assms in \<open>simp add: free_blocks_def alloc_inv_def\<close>)
  then show ?thesis using assms True by (intro exI [of _ s] exI [of _ bs]) auto
next
  case False
  then have bs: "bs \<noteq> []" "c + 1 < length bs" by auto
  define xs where "xs = take (c + 1) bs"
  define f where "f = bs ! (c + 1)"
  define gs where "gs = drop (c + 2) bs"
  have bs_eq: "bs = xs @ f # gs" using bs by (simp add: xs_def f_def gs_def id_take_nth_drop)
  have xs: "length xs = c + 1" "xs ! c = bs ! c" using bs by (simp_all add: xs_def)
  have inv: "distinct bs" "0 \<notin> set bs" "linked (block_next s) bs" "allocated s = set bs" "current_block s = bs ! c"
    "unat (block_num s) = length bs" using assms bs by (simp_all add: alloc_inv_def)
  have "linked (block_next s) gs" "block_next s f = hd0 gs" using inv(3) by (simp_all add: bs_eq chain_linked_append linked_Cons)
  moreover have "length gs \<le> unat (block_num s)" using inv by (simp add: bs_eq)
  ultimately obtain k where k: "free_loop (hd0 gs) s = Some (hd0 (drop k gs),
        s\<lparr>allocated := allocated s - set (take k gs), block_num := block_num s - of_nat k\<rparr>)"
     "k \<le> length gs" "k = length gs \<or> unat (block_num s) - k \<le> unat (reserved_blocks s)"
    using free_loop_frees [of s gs] inv by (auto simp: bs_eq)
  define t where "t = s\<lparr>allocated := allocated s - set (take k gs), block_num := block_num s - of_nat k\<rparr>"
  define bs' where "bs' = xs @ f # drop k gs"
  define s' where "s' = t\<lparr>block_next := (block_next s)(f := hd0 (drop k gs)),
      last_block := (if drop k gs = [] then f else last_block s)\<rparr>"
  have d: "set gs = set (take k gs) \<union> set (drop k gs)" "distinct gs" "set (take k gs) \<inter> set (drop k gs) = {}"
    using inv(1) by (simp_all add: bs_eq set_take_disj_set_drop_if_distinct flip: set_append)
  have sub: "set bs' \<subseteq> set bs" by (auto simp: bs'_def bs_eq dest: in_set_dropD)
  have alloc: "allocated t = set bs'" using inv(1,4) d by (auto simp: t_def bs'_def bs_eq)
  have cur: "current_block s \<in> allocated s" "block_next s (current_block s) = f" "f \<in> allocated s" "f \<noteq> 0"
    "current_block s \<noteq> 0"
  proof -
    show c: "current_block s \<in> allocated s" and f: "f \<in> allocated s" using bs unfolding inv(4,5) f_def by simp_all
    show "f \<noteq> 0" "current_block s \<noteq> 0" using c f inv(2) unfolding inv(4) by metis+
    show "block_next s (current_block s) = f" using inv bs by (simp add: linked_def f_def)
  qed
  have t: "block_next t = block_next s" "current_block t = current_block s" by (simp_all add: t_def)
  have "bs ! c \<in> set xs" using xs nth_mem [of c xs] by simp
  then have curt: "current_block t \<in> allocated t" "f \<in> allocated t"
    unfolding alloc t(2) inv(5) bs'_def by simp_all
  have "0 \<notin> set (drop k gs)" using inv(2) by (auto simp: bs_eq dest: in_set_dropD)
  then have h0: "hd0 (drop k gs) = 0 \<longleftrightarrow> drop k gs = []" by (cases "drop k gs") auto
  have "free_blocks s = Some s'"
    using cur k(1) curt t \<open>block_next s f = hd0 gs\<close> h0
    by (simp add: free_blocks_def next_of_def set_next_def t_def [symmetric]) (simp add: s'_def t_def)
  moreover have "alloc_inv s' bs' c"
  proof -
    have "linked (block_next s') bs'"
      using linked_cut [of "block_next s" xs f gs k] inv(1,3) by (simp add: s'_def bs'_def bs_eq)
    moreover have "distinct bs'" using inv(1) by (auto simp: bs'_def bs_eq dest: in_set_dropD)
    moreover have "separate bs'" "0 \<notin> set bs'" using assms sub inv(2) by (auto simp: alloc_inv_def separate_def)
    moreover have "unat (block_num s') = length bs'"
    proof -
      have "unat (of_nat k :: uint32) = k" using k(2) inv(6) unat_less [of "block_num s"]
        by (simp add: unat_of_nat take_bit_nat_eq_self bs_eq)
      then have "unat (block_num s - of_nat k) = length bs - k" using inv(6) k(2) by (simp add: unat_sub word_le_nat_alt bs_eq)
      then show ?thesis using k(2) by (simp add: s'_def t_def bs'_def bs_eq)
    qed
    moreover have "bs' \<noteq> []" "hd bs' = hd bs" "last bs' = (if drop k gs = [] then f else last bs)" "bs' ! c = bs ! c"
      "c < length bs'"
      using xs by (simp_all add: bs'_def bs_eq hd_append nth_append last_drop)
    ultimately show ?thesis using assms bs alloc by (simp add: alloc_inv_def s'_def t_def)
  qed
  moreover have "length bs' \<le> max (unat (reserved_blocks s)) (c + 2)" using k xs inv(6) by (auto simp: bs'_def bs_eq)
  moreover have "take (c + 1) bs' = take (c + 1) bs" using xs(1) by (simp add: bs'_def bs_eq)
  moreover have "bs' \<noteq> []" "last_node s' = last_node s" "node_at s' = node_at s" by (simp_all add: s'_def t_def bs'_def)
  ultimately show ?thesis using bs(1) sub by blast
qed

lemma used_cong:
  assumes "take (c + 1) bs' = take (c + 1) bs" "bs = [] \<longleftrightarrow> bs' = []" "last_node s' = last_node s"
    "bs \<noteq> [] \<longrightarrow> c < length bs \<and> c < length bs'"
  shows "used s' bs' c = used s bs c"
proof (cases "bs = []")
  case False
  have "take c (take (c + 1) bs') = take c (take (c + 1) bs)" "take (c + 1) bs' ! c = take (c + 1) bs ! c"
    using assms(1) by simp_all
  then show ?thesis using False assms by (simp add: used_def)
qed (use assms in \<open>simp add: used_def\<close>)

lemma node_addr_eq:
  assumes "separate bs" "a \<in> set bs" "b \<in> set bs" "i < 16" "k < 16" "node_addr a i = node_addr b k"
  shows "a = b \<and> i = k"
proof -
  have "i * 536 \<le> 15 * 536" "k * 536 \<le> 15 * 536" using assms(4,5) by simp_all
  then have "a = b" using assms(1-3,6) unfolding separate_def by (force simp: node_addr_def NODE_SIZE_def BLOCK_SIZE_def BLOCK_TRANX_NODES_def)
  then show ?thesis using assms(6) by (simp add: node_addr_def NODE_SIZE_def)
qed

lemma set_used:
  assumes "bs \<noteq> []" "c < length bs"
  shows "set (used s bs c) =
    {node_addr (bs ! j) i |i j. j < c \<and> i < 16} \<union> {node_addr (bs ! c) i |i. i < nat (last_node s + 1)}"
proof -
  have "set (take c bs) = {bs ! j |j. j < c}" using assms(2) by (force simp: in_set_conv_nth)
  then show ?thesis using assms by (auto simp: used_def)
qed

lemma fresh_node:
  assumes "distinct bs" "separate bs" "c < length bs" "i < 16" "nat (last_node s + 1) \<le> i"
  shows "node_addr (bs ! c) i \<notin> set (used s bs c)"
proof
  assume u: "node_addr (bs ! c) i \<in> set (used s bs c)"
  have ne: "bs \<noteq> []" using assms(3) by auto
  have same: "c = j \<and> i = k" if "j < length bs" "k < 16" "node_addr (bs ! c) i = node_addr (bs ! j) k" for j k
    using node_addr_eq [OF assms(2), of "bs ! c" "bs ! j" i k] that assms by (simp add: nth_eq_iff_index_eq)
  from u consider j k where "j < c" "k < 16" "node_addr (bs ! c) i = node_addr (bs ! j) k"
    | k where "k < nat (last_node s + 1)" "node_addr (bs ! c) i = node_addr (bs ! c) k"
    unfolding set_used [OF ne assms(3)] by auto
  then show False
  proof cases
    case 1
    then show False using same [of j k] assms(3) by simp
  next
    case 2
    then show False using same [of c k] assms(3-5) by simp
  qed
qed

text \<open>A new block for the list.\<close>

definition malloc_ok :: "addr \<Rightarrow> Tranx_node_allocator \<Rightarrow> bool" where
  "malloc_ok m s \<longleftrightarrow>
     m = 0 \<or> (\<forall>b \<in> allocated s. m + BLOCK_SIZE \<le> b \<or> b + BLOCK_SIZE \<le> m) \<and> unat (block_num s) < 2 ^ 32 - 1"

lemma allocate_block_ok:
  assumes "alloc_inv s bs c" "malloc_ok m s" "m \<noteq> 0" "s1 = s\<lparr>current_block := 0, last_node := - 1\<rparr>"
  shows "\<exists>s'. allocate_block m s1 = Some (False, s') \<and> alloc_inv s' (bs @ [m]) (length bs) \<and> last_node s' = - 1
    \<and> node_at s' = node_at s \<and> current_block s' = m \<and> m \<in> allocated s'"
proof -
  have m: "m \<notin> set bs" using assms(1-3) by (auto simp: malloc_ok_def alloc_inv_def BLOCK_SIZE_def)
  have sep: "separate (bs @ [m])" using assms(1-3) by (auto simp: malloc_ok_def alloc_inv_def separate_def)
  have num: "unat (block_num s + 1) = length bs + 1"
    using assms(1-3) unat_add_lem [of "block_num s" 1] by (simp add: malloc_ok_def alloc_inv_def)
  show ?thesis
  proof (cases "bs = []")
    case True
    then show ?thesis using assms m sep num by (auto simp: allocate_block_def alloc_inv_def linked_Cons Let_def)
  next
    case False
    have "linked ((block_next s)(m := 0, last bs := m)) (bs @ [m])"
      using assms(1) m False by (intro linked_snoc) (auto simp: alloc_inv_def)
    moreover have "0 \<notin> set bs" using assms(1) by (simp add: alloc_inv_def)
    then have "hd bs \<noteq> 0" "last bs \<in> set bs" using False hd_in_set [OF False] by (metis, simp)
    ultimately show ?thesis using assms m sep num False
      by (auto simp: allocate_block_def alloc_inv_def set_next_def Let_def)
  qed
qed

lemma used_append:
  assumes "alloc_inv s bs c" "bs \<noteq> []" "last_node s < 15"
  shows "used (s\<lparr>last_node := last_node s + 1, node_at := na\<rparr>) bs c = used s bs c @ [node_addr (bs ! c) (nat (last_node s + 1))]"
proof -
  have "nat (last_node s + 1 + 1) = Suc (nat (last_node s + 1))" using alloc_invD(7) [OF assms(1)] by linarith
  then show ?thesis using assms(2) by (simp add: used_def)
qed

text \<open>The state in which there is room in the current block, after moving to the next block or allocating one.\<close>

lemma allocate_node_in_current:
  assumes "alloc_inv s bs c" "bs \<noteq> []" "last_node s < 15"
  defines "n \<equiv> node_addr (current_block s) (nat (last_node s + 1))"
  defines "s' \<equiv> s\<lparr>last_node := last_node s + 1, node_at := (node_at s)(n := init_node (node_at s n))\<rparr>"
  shows "alloc_inv s' bs c \<and> used s' bs c = used s bs c @ [n] \<and> n \<notin> set (used s bs c) \<and> n \<noteq> 0"
proof -
  have c: "c < length bs" "current_block s = bs ! c" using assms(1,2) by (auto simp: alloc_inv_def)
  have "alloc_inv s' bs c" using assms(1,3) by (auto simp: alloc_inv_def s'_def assms(2))
  moreover have "used s' bs c = used s bs c @ [n]" using used_append [OF assms(1-3)] c by (simp add: s'_def n_def)
  moreover have "n \<notin> set (used s bs c)" unfolding n_def c(2)
    by (rule fresh_node) (use assms(1,3) c in \<open>auto simp: alloc_inv_def\<close>)
  ultimately show ?thesis by (simp add: n_def node_addr_def)
qed

lemma allocate_node_ok:
  assumes "alloc_inv s bs c" "malloc_ok m s"
  shows "(\<exists>n s' bs' c'. allocate_node m s = Some (n, s') \<and> alloc_inv s' bs' c' \<and> used s' bs' c' = used s bs c @ [n]
      \<and> n \<notin> set (used s bs c) \<and> n \<noteq> 0 \<and> node_at s' = (node_at s)(n := init_node (node_at s n)))
    \<or> m = 0 \<and> allocate_node m s = Some (0, s)"
proof -
  have finish: ?thesis
    if "alloc_inv t bs' c'" "bs' \<noteq> []" "last_node t < 15" "used t bs' c' = used s bs c" "node_at t = node_at s"
      "allocate_node m s = Some (let t = t\<lparr>last_node := last_node t + 1\<rparr>; n = node_addr (current_block t) (nat (last_node t))
          in (n, t\<lparr>node_at := (node_at t)(n := init_node (node_at t n))\<rparr>))" for t bs' c'
    using allocate_node_in_current [OF that(1-3)] that(4-6) by (auto simp: Let_def)
  show ?thesis
  proof (cases "bs \<noteq> [] \<and> (last_node s < 15 \<or> c + 1 < length bs)")
    case True
    then have c: "c < length bs" "current_block s = bs ! c" "bs ! c \<in> allocated s"
      using alloc_invD(9,10) [OF assms(1)] alloc_inv_block(1) [OF assms(1), of c] by auto
    show ?thesis
    proof (cases "last_node s < 15")
      case lt: True
      have "bs ! c \<noteq> 0" using alloc_inv_block(2) [OF assms(1) c(1)] .
      then show ?thesis using True lt assms(1) c
        by (intro finish [of s bs c]) (auto simp: allocate_node_def BLOCK_TRANX_NODES_def Let_def)
    next
      case False
      define t where "t = s\<lparr>current_block := bs ! (c + 1), last_node := - 1\<rparr>"
      have l: "last_node s = 15" "c + 1 < length bs" using False True alloc_invD(8) [OF assms(1)] by auto
      have nx: "next_of s (bs ! c) = Some (bs ! (c + 1))" using alloc_inv_block(3) [OF assms(1) c(1)] l by simp
      have t: "alloc_inv t bs (c + 1)" using assms(1) l True by (auto simp: alloc_inv_def t_def)
      note nz = alloc_inv_block(1,2) [OF assms(1) l(2)]
      have "used t bs (c + 1) = used s bs c" using True l by (simp add: used_def t_def take_Suc_conv_app_nth)
      then show ?thesis using True t nx nz c l
        by (intro finish [of t bs "c + 1"]) (auto simp: allocate_node_def BLOCK_TRANX_NODES_def Let_def t_def)
    qed
  next
    case False
    define s1 where "s1 = s\<lparr>current_block := 0, last_node := - 1\<rparr>"
    have step: "allocate_node m s = Option.bind (allocate_block m s1)
        (\<lambda>(err, t). if err
           then Some (0, let t = t\<lparr>current_block := current_block s\<rparr>
                         in if current_block t \<noteq> 0 then t\<lparr>last_node := int BLOCK_TRANX_NODES - 1\<rparr> else t)
           else if current_block t \<in> allocated t
           then let t = t\<lparr>last_node := last_node t + 1\<rparr>; node = node_addr (current_block t) (nat (last_node t))
                in Some (node, t\<lparr>node_at := (node_at t)(node := init_node (node_at t node))\<rparr>)
           else None)"
    proof (cases "bs = []")
      case True
      then have "s1 = s" "current_block s = 0" "last_node s = - 1" using assms(1) by (simp_all add: alloc_inv_def s1_def)
      then show ?thesis by (simp add: allocate_node_def BLOCK_TRANX_NODES_def cong: if_cong)
    next
      case ne: False
      then have "last_node s = 15" "next_of s (current_block s) = Some 0"
        using False alloc_invD(8-10) [OF assms(1)] alloc_inv_block(3) [OF assms(1), of c] by auto
      then show ?thesis by (simp add: allocate_node_def BLOCK_TRANX_NODES_def s1_def)
    qed
    show ?thesis
    proof (cases "m = 0")
      case True
      have "current_block s \<noteq> 0 \<longrightarrow> last_node s = 15" "current_block s = 0 \<longrightarrow> last_node s = - 1"
        using False assms(1) alloc_inv_block(2) [OF assms(1), of c] alloc_invD(8-10) [OF assms(1)]
        by (cases "bs = []"; simp add: alloc_inv_def)+
      then have "allocate_node m s = Some (0, s)" unfolding step
        using True by (auto simp: allocate_block_def s1_def BLOCK_TRANX_NODES_def)
      then show ?thesis using True by simp
    next
      case m: False
      obtain t where t: "allocate_block m s1 = Some (False, t)" "alloc_inv t (bs @ [m]) (length bs)" "last_node t = - 1"
        "node_at t = node_at s" "current_block t = m" "m \<in> allocated t"
        using allocate_block_ok [OF assms m s1_def] by blast
      have "used t (bs @ [m]) (length bs) = used s bs c"
      proof (cases "bs = []")
        case ne: False
        then have l: "last_node s = 15" "c + 1 = length bs" using False assms(1) by (auto simp: alloc_inv_def)
        obtain xs x where "bs = xs @ [x]" using ne by (cases bs rule: rev_cases) auto
        then show ?thesis using l t(3) by (simp add: used_def)
      qed (use t(3) in \<open>simp add: used_def\<close>)
      then show ?thesis using t by (intro finish [of t "bs @ [m]" "length bs"]) (auto simp: step Let_def)
    qed
  qed
qed

text \<open>Searching the block of a node, and freeing what lies before it.\<close>

lemma find_block_ok:
  assumes "alloc_inv s bs c" "j \<le> c" "i < 16" "c < length bs"
  defines "stop \<equiv> if Suc c < length bs then bs ! Suc c else 0"
  shows "k \<le> j \<Longrightarrow> find_block (node_addr (bs ! j) i) stop p (bs ! k) s = Some (Some (bs ! j, if k = j then p else bs ! (j - 1)))"
proof (induction "j - k" arbitrary: k p)
  case 0
  have ne: "bs ! j \<noteq> stop"
    using alloc_inv_block(2) [OF assms(1), of j] alloc_invD(1) [OF assms(1)] assms(2,4) by (auto simp: stop_def nth_eq_iff_index_eq)
  have "i * 536 \<le> 15 * 536" using assms(3) by simp
  then show ?case using 0 ne
    by (subst find_block.simps) (simp add: node_addr_def BLOCK_TRANX_NODES_def NODE_SIZE_def)
next
  case (Suc d)
  then have k: "k < j" "k < length bs" using assms by auto
  have ne: "bs ! k \<noteq> stop"
    using alloc_inv_block(2) [OF assms(1) k(2)] alloc_invD(1) [OF assms(1)] assms(2,4) k by (auto simp: stop_def nth_eq_iff_index_eq)
  have "bs ! k \<noteq> bs ! j" using k assms alloc_invD(1) [OF assms(1)] by (simp add: nth_eq_iff_index_eq)
  then have "bs ! k + BLOCK_SIZE \<le> bs ! j \<or> bs ! j + BLOCK_SIZE \<le> bs ! k"
    using alloc_invD(4) [OF assms(1)] k assms(2,4) by (simp add: separate_def)
  moreover have "i * 536 \<le> 15 * 536" using assms(3) by simp
  ultimately have out: "\<not> (node_addr (bs ! k) 0 \<le> node_addr (bs ! j) i \<and> node_addr (bs ! j) i \<le> node_addr (bs ! k) BLOCK_TRANX_NODES)"
    by (auto simp: node_addr_def BLOCK_TRANX_NODES_def NODE_SIZE_def BLOCK_SIZE_def)
  have nx: "next_of s (bs ! k) = Some (bs ! Suc k)"
    using alloc_inv_block(3) [OF assms(1) k(2)] k assms by simp
  have "find_block (node_addr (bs ! j) i) stop p (bs ! k) s = find_block (node_addr (bs ! j) i) stop (bs ! k) (bs ! Suc k) s"
    using ne nx by (subst find_block.simps) (simp only: out if_False, simp)
  then show ?case using Suc(1) [of "Suc k" "bs ! k"] Suc(2) k by (cases "Suc k = j") auto
qed

lemma used_rotate:
  assumes "j \<le> c" "c < length bs" "last_node t = last_node s"
  shows "used t (drop j bs @ take j bs) (c - j) = drop (16 * j) (used s bs c)"
proof -
  define f where "f = (\<lambda>b. map (node_addr b) [0..<16])"
  have "length (concat (map f xs)) = 16 * length xs" for xs by (induction xs) (simp_all add: f_def)
  then have l: "length (concat (map f (take j bs))) = 16 * j" using assms by simp
  have "take c bs = take j bs @ take (c - j) (drop j bs)" using assms by (metis le_add_diff_inverse take_add)
  then have "used s bs c = concat (map f (take j bs)) @ concat (map f (take (c - j) (drop j bs))) @
      map (node_addr (bs ! c)) [0..<nat (last_node s + 1)]"
    using assms(2) by (auto simp: used_def f_def)
  moreover have "used t (drop j bs @ take j bs) (c - j) = concat (map f (take (c - j) (drop j bs))) @
      map (node_addr (bs ! c)) [0..<nat (last_node s + 1)]"
    using assms by (auto simp: used_def f_def nth_append)
  ultimately show ?thesis using l by simp
qed

lemma rotate_ok:
  assumes "alloc_inv s bs c" "0 < j" "j \<le> c" "c < length bs"
  defines "s' \<equiv> s\<lparr>first_block := bs ! j, last_block := bs ! (j - 1), block_next := (block_next s)(last bs := hd bs, bs ! (j - 1) := 0)\<rparr>"
  shows "alloc_inv s' (drop j bs @ take j bs) (c - j)"
proof -
  have j: "j < length bs" "drop j bs \<noteq> []" "take j bs \<noteq> []" using assms by auto
  have ends: "last (drop j bs) = last bs" "hd (take j bs) = hd bs" "last (take j bs) = bs ! (j - 1)" "hd (drop j bs) = bs ! j"
    using j assms(2) by (simp_all add: last_drop hd_take hd_drop_conv_nth last_conv_nth min_def)
  have "linked ((block_next s)(last bs := hd bs, bs ! (j - 1) := 0)) (drop j bs @ take j bs)"
    using linked_rotate [of "block_next s" "take j bs" "drop j bs"] alloc_invD(1,3) [OF assms(1)] j(2,3)
    by (simp add: ends flip: distinct_append)
  moreover have "distinct (drop j bs @ take j bs)"
    using alloc_invD(1) [OF assms(1)] set_take_disj_set_drop_if_distinct [of bs j j] by (auto simp: disjoint_iff)
  moreover have st: "set (drop j bs @ take j bs) = set bs" by (metis append_take_drop_id set_append Un_commute)
  moreover have "separate (drop j bs @ take j bs)" using alloc_invD(4) [OF assms(1)] by (simp only: separate_def st)
  moreover have "(drop j bs @ take j bs) ! (c - j) = bs ! c" "c - j < length (drop j bs @ take j bs)"
    using assms(2-4) diff_less_mono [OF assms(4,3)] by (simp_all add: nth_append)
  ultimately show ?thesis using assms(1) j ends
    by (simp add: alloc_inv_def s'_def split: if_splits)
qed

lemma free_nodes_before_ok:
  assumes "alloc_inv s bs c" "node \<in> set (used s bs c)"
  shows "\<exists>s' bs' c' j. free_nodes_before node s = Some (0, s') \<and> alloc_inv s' bs' c' \<and> node_at s' = node_at s
    \<and> used s' bs' c' = drop (16 * j) (used s bs c) \<and> node \<in> set (used s' bs' c')
    \<and> node \<in> set (take 16 (used s' bs' c'))"
proof -
  have ne: "bs \<noteq> []" using assms(2) by (auto simp: used_def)
  then have c: "c < length bs" "current_block s = bs ! c" "first_block s = hd bs" "last_block s = last bs"
    using alloc_invD(9-12) [OF assms(1)] by simp_all
  obtain j i where ji: "j \<le> c" "i < 16" "j = c \<longrightarrow> i < nat (last_node s + 1)" "node = node_addr (bs ! j) i"
  proof -
    from assms(2) consider j i where "j < c" "i < 16" "node = node_addr (bs ! j) i"
      | i where "i < nat (last_node s + 1)" "node = node_addr (bs ! c) i"
      unfolding set_used [OF ne c(1)] by auto
    then show ?thesis
    proof cases
      case 1
      then show ?thesis by (intro that [of j i]) auto
    next
      case 2
      then show ?thesis using alloc_invD(8) [OF assms(1)] by (intro that [of c i]) auto
    qed
  qed
  define stop where "stop = (if Suc c < length bs then bs ! Suc c else 0)"
  have nx: "next_of s (current_block s) = Some stop" using alloc_inv_block(3) [OF assms(1) c(1)] c(2) by (simp add: stop_def)
  have first: "first_block s = bs ! 0" using c ne by (simp add: hd_conv_nth)
  have find: "find_block node stop 0 (first_block s) s = Some (Some (bs ! j, if j = 0 then 0 else bs ! (j - 1)))"
    using find_block_ok [OF assms(1) ji(1,2) c(1), of 0 0] first ji(4) by (auto simp: stop_def)
  have in_front: "node \<in> set (take 16 (drop (16 * j) (used s bs c)))"
  proof -
    have "drop (16 * j) (used s bs c) = used s (drop j bs @ take j bs) (c - j)" using used_rotate [OF ji(1) c(1), of s s] by simp
    also have "\<dots> = concat (map (\<lambda>b. map (node_addr b) [0..<16]) (take (c - j) (drop j bs))) @
        map (node_addr (bs ! c)) [0..<nat (last_node s + 1)]" using c(1) ji(1) by (auto simp: used_def nth_append)
    finally show ?thesis using ji c(1) alloc_invD(7,8) [OF assms(1)]
      by (cases "j = c") (auto simp: take_Cons' Cons_nth_drop_Suc [symmetric])
  qed
  show ?thesis
  proof (cases "j = 0")
    case True
    then have "free_nodes_before node s = Some (0, s)" using nx find first by (simp add: free_nodes_before_def)
    then show ?thesis using assms in_front True by (intro exI [of _ s] exI [of _ bs] exI [of _ c] exI [of _ 0]) auto
  next
    case False
    define s1 where "s1 = s\<lparr>first_block := bs ! j, last_block := bs ! (j - 1), block_next := (block_next s)(last bs := hd bs, bs ! (j - 1) := 0)\<rparr>"
    define bs1 where "bs1 = drop j bs @ take j bs"
    have inv1: "alloc_inv s1 bs1 (c - j)" using rotate_ok [OF assms(1) _ ji(1) c(1)] False by (simp add: s1_def bs1_def)
    have "bs ! j \<noteq> bs ! 0" using nth_eq_iff_index_eq [OF alloc_invD(1) [OF assms(1)], of j 0] False ji(1) c(1) ne by simp
    moreover have "last bs \<in> allocated s" "bs ! (j - 1) \<in> allocated s"
      using alloc_invD(5) [OF assms(1)] ne ji(1) c(1) by simp_all
    ultimately have step: "free_nodes_before node s = map_option (\<lambda>s. (0, s)) (free_blocks s1)"
      using nx find first False c by (simp add: free_nodes_before_def set_next_def s1_def)
    obtain s' bs' where s': "free_blocks s1 = Some s'" "alloc_inv s' bs' (c - j)" "last_node s' = last_node s1" "node_at s' = node_at s1"
      "take (c - j + 1) bs' = take (c - j + 1) bs1" "bs1 = [] \<longleftrightarrow> bs' = []"
      using free_blocks_ok [OF inv1] by blast
    have "used s' bs' (c - j) = used s1 bs1 (c - j)"
      using s' alloc_invD(9) [OF s'(2)] alloc_invD(9) [OF inv1] by (intro used_cong) auto
    also have "\<dots> = drop (16 * j) (used s bs c)"
      using used_rotate [OF ji(1) c(1), of s1 s] by (simp add: bs1_def s1_def)
    finally show ?thesis using s' step in_front
      by (intro exI [of _ s'] exI [of _ bs'] exI [of _ "c - j"] exI [of _ j]) (auto simp: s1_def dest: in_set_takeD)
  qed
qed

lemma free_all_nodes_ok:
  assumes "alloc_inv s bs c"
  shows "\<exists>s' bs'. free_all_nodes s = Some s' \<and> alloc_inv s' bs' 0 \<and> used s' bs' 0 = []
    \<and> length bs' \<le> max (unat (reserved_blocks s)) 2"
proof -
  define s1 where "s1 = s\<lparr>current_block := first_block s, last_node := - 1\<rparr>"
  have "alloc_inv s1 bs 0" using assms by (auto simp: alloc_inv_def s1_def hd_conv_nth)
  then obtain s' bs' where "free_blocks s1 = Some s'" "alloc_inv s' bs' 0" "last_node s' = - 1"
    "length bs' \<le> max (unat (reserved_blocks s1)) 2"
    using free_blocks_ok [of s1 bs 0] by (auto simp: s1_def)
  then show ?thesis by (intro exI [of _ s'] exI [of _ bs']) (auto simp: free_all_nodes_def s1_def used_def)
qed

lemma destroy_loop_ok:
  "linked (block_next s) bs \<Longrightarrow> distinct bs \<Longrightarrow> 0 \<notin> set bs \<Longrightarrow> set bs \<subseteq> allocated s \<Longrightarrow>
   \<exists>s'. destroy_loop (hd0 bs) s = Some s' \<and> allocated s' = allocated s - set bs \<and> block_num s' = block_num s - of_nat (length bs)"
proof (induction bs arbitrary: s)
  case Nil
  then show ?case by (subst destroy_loop.simps) simp
next
  case (Cons b bs)
  define t where "t = s\<lparr>allocated := allocated s - {b}, block_num := block_num s - 1\<rparr>"
  have "destroy_loop b s = destroy_loop (hd0 bs) t"
    using Cons.prems by (subst destroy_loop.simps) (simp add: next_of_def free_block_def t_def linked_Cons)
  moreover obtain s' where "destroy_loop (hd0 bs) t = Some s'" "allocated s' = allocated t - set bs"
    "block_num s' = block_num t - of_nat (length bs)"
    using Cons.IH [of t] Cons.prems by (auto simp: t_def linked_Cons)
  ultimately show ?case by (auto simp: t_def algebra_simps)
qed

section \<open>The allocator in use\<close>

text \<open>The states that a client reaches, with the nodes it holds in the order of their allocation. Freeing everything
  before a node leaves the client with the nodes from that one on.\<close>

inductive tranx_run :: "Tranx_node_allocator \<Rightarrow> addr list \<Rightarrow> bool" where
  start: "tranx_run (mk_allocator reserved_nodes mem) []"
| allocate: "tranx_run s us \<Longrightarrow> malloc_ok m s \<Longrightarrow> allocate_node m s = Some (n, s') \<Longrightarrow>
    tranx_run s' (if n = 0 then us else us @ [n])"
| free_all: "tranx_run s us \<Longrightarrow> free_all_nodes s = Some s' \<Longrightarrow> tranx_run s' []"
| free_before: "tranx_run s (xs @ node # ys) \<Longrightarrow> free_nodes_before node s = Some (r, s') \<Longrightarrow> tranx_run s' (node # ys)"

definition client_ok :: "Tranx_node_allocator \<Rightarrow> addr list \<Rightarrow> bool" where
  "client_ok s us \<longleftrightarrow> (\<exists>bs c zs. alloc_inv s bs c \<and> used s bs c = zs @ us \<and> distinct (used s bs c))"

lemma mk_allocator_ok: "client_ok (mk_allocator r mem) []"
proof -
  have "unat r div 16 < 2 ^ 32 - 2" using unat_less [of r] by simp
  then have "0 < r div 16 + 1" "0 < r div 16 + 2"
    using unat_add_lem [of "r div 16" 1] unat_add_lem [of "r div 16" 2] by (simp_all add: unat_div word_less_nat_alt)
  then have "alloc_inv (mk_allocator r mem) [] 0" by (simp add: alloc_inv_def mk_allocator_def separate_def)
  then show ?thesis unfolding client_ok_def by (intro exI [of _ "[]"] exI [of _ 0]) (simp add: used_def)
qed

lemma suffix_of_distinct:
  assumes "distinct (zs @ node # ys)" "drop k (zs @ node # ys) = us" "node \<in> set us"
  shows "\<exists>ws. us = ws @ node # ys"
proof -
  have "k \<le> length zs"
  proof (rule ccontr)
    assume "\<not> k \<le> length zs"
    then have "us = drop (k - length zs - 1) ys" using assms(2) by (cases "k - length zs") auto
    then show False using assms(1,3) by (auto dest: in_set_dropD)
  qed
  then show ?thesis using assms(2) by auto
qed

lemma tranx_run_ok: "tranx_run s us \<Longrightarrow> client_ok s us"
proof (induction rule: tranx_run.induct)
  case (start r mem)
  show ?case by (rule mk_allocator_ok)
next
  case (allocate s us m n s')
  then obtain bs c zs where i: "alloc_inv s bs c" "used s bs c = zs @ us" "distinct (used s bs c)" by (auto simp: client_ok_def)
  from allocate_node_ok [OF i(1) allocate.hyps(2)] show ?case
  proof
    assume "\<exists>n s' bs' c'. allocate_node m s = Some (n, s') \<and> alloc_inv s' bs' c' \<and> used s' bs' c' = used s bs c @ [n]
      \<and> n \<notin> set (used s bs c) \<and> n \<noteq> 0 \<and> node_at s' = (node_at s)(n := init_node (node_at s n))"
    then obtain bs' c' where "alloc_inv s' bs' c'" "used s' bs' c' = zs @ (us @ [n])" "n \<noteq> 0" "distinct (used s' bs' c')"
      using allocate.hyps(3) i(2,3) by auto
    then show ?thesis unfolding client_ok_def by (intro exI [of _ bs'] exI [of _ c'] exI [of _ zs]) simp
  next
    assume "m = 0 \<and> allocate_node m s = Some (0, s)"
    then show ?thesis using allocate by simp
  qed
next
  case (free_all s us s')
  then obtain bs c where "alloc_inv s bs c" by (auto simp: client_ok_def)
  from free_all_nodes_ok [OF this] free_all.hyps(2)
  obtain bs' where "alloc_inv s' bs' 0" "used s' bs' 0 = []" by auto
  then show ?case unfolding client_ok_def by (intro exI [of _ bs'] exI [of _ 0] exI [of _ "[]"]) simp
next
  case (free_before s xs node ys r s')
  then obtain bs c zs where i: "alloc_inv s bs c" "used s bs c = zs @ xs @ node # ys" "distinct (used s bs c)"
    by (auto simp: client_ok_def)
  moreover have "node \<in> set (used s bs c)" using i(2) by simp
  ultimately obtain bs' c' j where j: "alloc_inv s' bs' c'" "used s' bs' c' = drop (16 * j) (used s bs c)"
    "node \<in> set (used s' bs' c')"
    using free_nodes_before_ok [OF i(1), of node] free_before.hyps(2) by auto
  have d: "distinct ((zs @ xs) @ node # ys)" "drop (16 * j) ((zs @ xs) @ node # ys) = used s' bs' c'"
    using i(2,3) j(2) by simp_all
  obtain ws where "used s' bs' c' = ws @ node # ys" using suffix_of_distinct [OF d j(3)] by blast
  moreover have "distinct (used s' bs' c')" using i(3) j(2) by simp
  ultimately show ?case using j(1) unfolding client_ok_def by blast
qed

text \<open>C7. Whatever a client does, the nodes it holds are pairwise different and lie in allocated blocks, so that no
  block with a node in use is ever freed; allocating returns a node that is not in use and leaves the other nodes as
  they are, or fails without any change when memory is exhausted; and freeing before any node in use succeeds and finds
  its block.\<close>

theorem tranx_allocator_safe:
  assumes "tranx_run s us"
  shows "distinct us \<and> (\<forall>n \<in> set us. \<exists>b \<in> allocated s. \<exists>i < 16. n = node_addr b i)
    \<and> (\<forall>m. malloc_ok m s \<longrightarrow>
        (\<exists>n s'. allocate_node m s = Some (n, s') \<and> n \<noteq> 0 \<and> n \<notin> set us \<and> node_at s' = (node_at s)(n := init_node (node_at s n)))
        \<or> m = 0 \<and> allocate_node m s = Some (0, s))
    \<and> (\<forall>n \<in> set us. \<exists>s'. free_nodes_before n s = Some (0, s') \<and> node_at s' = node_at s)"
proof -
  obtain bs c zs where i: "alloc_inv s bs c" "used s bs c = zs @ us" "distinct (used s bs c)"
    using tranx_run_ok [OF assms] by (auto simp: client_ok_def)
  have sub: "set us \<subseteq> set (used s bs c)" using i(2) by auto
  have "distinct us" using i by simp
  moreover have "\<forall>n \<in> set us. \<exists>b \<in> allocated s. \<exists>i < 16. n = node_addr b i"
  proof
    fix n assume n: "n \<in> set us"
    then have ne: "bs \<noteq> []" using i(2) by (auto simp: used_def)
    note c = alloc_invD(9) [OF i(1) ne]
    have "n \<in> set (used s bs c)" using n sub by auto
    then consider j k where "j < c" "k < 16" "n = node_addr (bs ! j) k"
      | k where "k < nat (last_node s + 1)" "n = node_addr (bs ! c) k" unfolding set_used [OF ne c] by auto
    then show "\<exists>b \<in> allocated s. \<exists>i < 16. n = node_addr b i"
    proof cases
      case 1
      then show ?thesis using alloc_inv_block(1) [OF i(1), of j] c by auto
    next
      case 2
      then show ?thesis using alloc_inv_block(1) [OF i(1) c] alloc_invD(8) [OF i(1)] by (intro bexI exI [of _ k]) auto
    qed
  qed
  moreover have "(\<exists>n s'. allocate_node m s = Some (n, s') \<and> n \<noteq> 0 \<and> n \<notin> set us \<and> node_at s' = (node_at s)(n := init_node (node_at s n)))
      \<or> m = 0 \<and> allocate_node m s = Some (0, s)" if "malloc_ok m s" for m
    using allocate_node_ok [OF i(1) that] sub by blast
  moreover have "\<exists>s'. free_nodes_before n s = Some (0, s') \<and> node_at s' = node_at s" if "n \<in> set us" for n
    using free_nodes_before_ok [OF i(1), of n] that sub by auto
  ultimately show ?thesis by blast
qed

definition ex_node :: Tranx_node where
  "ex_node = \<lparr>log_name = ''old'', log_pos = 7, node_next = 1, hash_next = 1\<rparr>"

lemma ex_run: "\<exists>n s. n \<noteq> 0 \<and> tranx_run s [n]"
proof -
  define s0 where "s0 = mk_allocator 100 (\<lambda>_. ex_node)"
  have r: "tranx_run s0 []" unfolding s0_def by (rule tranx_run.start)
  have m: "malloc_ok 4096 s0" by (simp add: malloc_ok_def s0_def mk_allocator_def)
  obtain bs c where "alloc_inv s0 bs c" using tranx_run_ok [OF r] by (auto simp: client_ok_def)
  from allocate_node_ok [OF this m] obtain n s' where "allocate_node 4096 s0 = Some (n, s')" "n \<noteq> 0" by auto
  with tranx_run.allocate [OF r m] show ?thesis by fastforce
qed

theorem tranx_allocator_safe_witness:
  "\<exists>n s. n \<noteq> 0 \<and> tranx_run s [n] \<and> (\<exists>s'. free_nodes_before n s = Some (0, s'))"
proof -
  obtain n s where "n \<noteq> 0" "tranx_run s [n]" using ex_run by blast
  then show ?thesis using tranx_allocator_safe [of s "[n]"] by auto
qed

text \<open>The destructor frees exactly the blocks of the list, each once, and its counter ends at zero.\<close>

theorem tranx_destroy:
  assumes "tranx_run s us"
  shows "\<exists>s'. destroy_allocator s = Some s' \<and> allocated s' = {} \<and> block_num s' = 0"
proof -
  obtain bs c where i: "alloc_inv s bs c" using tranx_run_ok [OF assms] by (auto simp: client_ok_def)
  have "first_block s = hd0 bs" using i by (simp add: alloc_inv_def hd0_def)
  moreover have "block_num s = of_nat (length bs)" by (simp flip: alloc_invD(6) [OF i])
  ultimately show ?thesis using destroy_loop_ok [OF alloc_invD(3,1,2) [OF i]] alloc_invD(5) [OF i]
    by (auto simp: destroy_allocator_def)
qed

theorem tranx_destroy_witness:
  "\<exists>s. destroy_allocator (mk_allocator 100 (\<lambda>_. ex_node)) = Some s \<and> allocated s = {}"
  using tranx_destroy [OF tranx_run.start [of 100 "\<lambda>_. ex_node"]] by blast

end
