(* ===== verification/Window_Funcs.thy ===== *)
theory Window_Funcs
  imports Histogram Int_Types
begin

text \<open>
  The window functions of \<^verbatim>\<open>item_windowfunc.h\<close> whose code is in the header: \<^verbatim>\<open>ROW_NUMBER\<close>, \<^verbatim>\<open>CUME_DIST\<close>, \<^verbatim>\<open>PERCENT_RANK\<close>,
  \<^verbatim>\<open>NTILE\<close>, \<^verbatim>\<open>PERCENTILE_DISC\<close> and \<^verbatim>\<open>PERCENTILE_CONT\<close>, the tracker of group borders, and the item that computes a window
  function in three phases. Counts of rows are unsigned 64-bit integers; floating-point results are rounded by \<^verbatim>\<open>rnd\<close> as
  in \<^verbatim>\<open>Histogram\<close>. The values of the argument and of the \<^verbatim>\<open>ORDER BY\<close> item of a row are arguments of \<^verbatim>\<open>add\<close>.
\<close>

section \<open>Borders of groups\<close>

text \<open>\<^verbatim>\<open>test_if_group_changed\<close> compares the cached items with the current row and updates them; it is a parameter, as are
  the comparisons \<^verbatim>\<open>cmp_read_only\<close> of the items.\<close>

record 'c Group_bound_tracker =
  group_fields :: "'c list"
  first_check :: bool

definition tracker_init :: "'c Group_bound_tracker \<Rightarrow> 'c Group_bound_tracker" where
  "tracker_init t = t\<lparr>first_check := True\<rparr>"

definition check_if_next_group ::
    "('c list \<Rightarrow> int \<times> 'c list) \<Rightarrow> 'c Group_bound_tracker \<Rightarrow> bool \<times> 'c Group_bound_tracker" where
  "check_if_next_group test_if_group_changed t =
     (let (i, cs) = test_if_group_changed (group_fields t);
          t = t\<lparr>group_fields := cs\<rparr>
      in if i > - 1 \<or> first_check t then (True, t\<lparr>first_check := False\<rparr>) else (False, t))"

fun compare_items :: "('c \<Rightarrow> int) \<Rightarrow> 'c list \<Rightarrow> int" where
  "compare_items cmp_read_only [] = 0"
| "compare_items cmp_read_only (c # cs) =
     (let res = cmp_read_only c in if res \<noteq> 0 then res else compare_items cmp_read_only cs)"

definition compare_with_cache :: "('c \<Rightarrow> int) \<Rightarrow> 'c Group_bound_tracker \<Rightarrow> int" where
  "compare_with_cache cmp_read_only t = compare_items cmp_read_only (group_fields t)"

section \<open>Row counts\<close>

record Item_sum_row_number = rn_count :: ulonglong

definition row_number_clear :: "Item_sum_row_number \<Rightarrow> Item_sum_row_number" where
  "row_number_clear s = s\<lparr>rn_count := 0\<rparr>"

definition row_number_add :: "Item_sum_row_number \<Rightarrow> bool \<times> Item_sum_row_number" where
  "row_number_add s = (False, s\<lparr>rn_count := rn_count s + 1\<rparr>)"

definition row_number_val_int :: "Item_sum_row_number \<Rightarrow> ulonglong" where
  "row_number_val_int s = rn_count s"

definition calc_val_real :: "(real \<Rightarrow> real) \<Rightarrow> ulonglong \<Rightarrow> ulonglong \<Rightarrow> bool \<times> real" where
  "calc_val_real rnd partition_row_count current_row_count =
     (if partition_row_count = 0 then (True, 0)
      else (False, rnd (rnd (real (unat current_row_count)) / rnd (real (unat partition_row_count)))))"

record Item_sum_percent_rank =
  pr_partition_row_count :: ulonglong
  pr_cur_rank :: ulonglong
  pr_row_number :: ulonglong

definition percent_rank_clear :: "Item_sum_percent_rank \<Rightarrow> Item_sum_percent_rank" where
  "percent_rank_clear s = s\<lparr>pr_cur_rank := 1, pr_row_number := 0\<rparr>"

definition percent_rank_set_partition_row_count :: "ulonglong \<Rightarrow> Item_sum_percent_rank \<Rightarrow> Item_sum_percent_rank" where
  "percent_rank_set_partition_row_count n s = s\<lparr>pr_partition_row_count := n\<rparr>"

definition percent_rank_val_real :: "(real \<Rightarrow> real) \<Rightarrow> Item_sum_percent_rank \<Rightarrow> bool \<times> real" where
  "percent_rank_val_real rnd s =
     (let partition_rows = pr_partition_row_count s
      in (if partition_rows > 0 then False else True,
          if partition_rows > 1
          then rnd (rnd (of_int (sint (pr_cur_rank s - 1))) / rnd (real (unat (partition_rows - 1)))) else 0))"

record Item_sum_cume_dist =
  cd_partition_row_count :: ulonglong
  cd_current_row_count :: ulonglong

definition cume_dist_clear :: "Item_sum_cume_dist \<Rightarrow> Item_sum_cume_dist" where
  "cume_dist_clear s = s\<lparr>cd_current_row_count := 0, cd_partition_row_count := 0\<rparr>"

definition cume_dist_set_partition_row_count :: "ulonglong \<Rightarrow> Item_sum_cume_dist \<Rightarrow> Item_sum_cume_dist" where
  "cume_dist_set_partition_row_count n s = s\<lparr>cd_partition_row_count := n\<rparr>"

definition cume_dist_add :: "Item_sum_cume_dist \<Rightarrow> bool \<times> Item_sum_cume_dist" where
  "cume_dist_add s = (False, s\<lparr>cd_current_row_count := cd_current_row_count s + 1\<rparr>)"

definition cume_dist_val_real :: "(real \<Rightarrow> real) \<Rightarrow> Item_sum_cume_dist \<Rightarrow> bool \<times> real" where
  "cume_dist_val_real rnd s = calc_val_real rnd (cd_partition_row_count s) (cd_current_row_count s)"

section \<open>NTILE\<close>

record Item_sum_ntile =
  nt_partition_row_count :: ulonglong
  nt_current_row_count :: ulonglong
  n_old_val :: ulonglong
  nt_null_value :: bool

datatype window_error = ER_INVALID_NTILE_ARGUMENT | ER_ARGUMENT_OUT_OF_RANGE | ER_ARGUMENT_NOT_CONSTANT

definition ntile_clear :: "Item_sum_ntile \<Rightarrow> Item_sum_ntile" where
  "ntile_clear s = s\<lparr>nt_current_row_count := 0, nt_partition_row_count := 0, n_old_val := 0\<rparr>"

definition ntile_set_partition_row_count :: "ulonglong \<Rightarrow> Item_sum_ntile \<Rightarrow> Item_sum_ntile" where
  "ntile_set_partition_row_count n s = s\<lparr>nt_partition_row_count := n\<rparr>"

definition ntile_add :: "Item_sum_ntile \<Rightarrow> bool \<times> Item_sum_ntile" where
  "ntile_add s = (False, s\<lparr>nt_current_row_count := nt_current_row_count s + 1\<rparr>)"

text \<open>The value, the error reported, and the item afterwards. The division of two \<^verbatim>\<open>longlong\<close> is signed; a division by zero
  has no result.\<close>

definition ntile_val_int ::
    "ulonglong \<Rightarrow> Item_sum_ntile \<Rightarrow> (ulonglong \<times> window_error option \<times> Item_sum_ntile) option" where
  "ntile_val_int num_quantiles s =
     (if nt_partition_row_count s = 0 then Some (0, None, s\<lparr>nt_null_value := True\<rparr>)
      else if sint num_quantiles \<le> 0 \<or> (num_quantiles \<noteq> n_old_val s \<and> n_old_val s > 0)
      then Some (1, Some ER_INVALID_NTILE_ARGUMENT, s)
      else
        let s = s\<lparr>n_old_val := num_quantiles, nt_null_value := False\<rparr>;
            quantile_size = word_of_int (sint (nt_partition_row_count s) sdiv sint num_quantiles) :: ulonglong;
            extra_rows = nt_partition_row_count s - quantile_size * num_quantiles;
            row = nt_current_row_count s
        in if row \<le> extra_rows * (quantile_size + 1)
           then (if quantile_size + 1 = 0 then None else Some ((row - 1) div (quantile_size + 1) + 1, None, s))
           else (if quantile_size = 0 then None else Some ((row - 1 - extra_rows) div quantile_size + 1, None, s)))"

section \<open>PERCENTILE\_DISC and PERCENTILE\_CONT\<close>

text \<open>\<^verbatim>\<open>value\<close> is what the cache of the item holds, absent for \<^verbatim>\<open>NULL\<close>. \<open>arg\<close> is the value of the argument in a row, \<open>item\<close>
  that of the \<^verbatim>\<open>ORDER BY\<close> item.\<close>

record 'v Item_sum_percentile_disc =
  pd_partition_row_count :: ulonglong
  pd_current_row_count :: ulonglong
  pd_value :: "'v option"
  val_calculated :: bool
  pd_first_call :: bool
  pd_prev_value :: real

definition disc_clear :: "'v Item_sum_percentile_disc \<Rightarrow> 'v Item_sum_percentile_disc" where
  "disc_clear s =
     s\<lparr>val_calculated := False, pd_first_call := True, pd_value := None, pd_partition_row_count := 0, pd_current_row_count := 0\<rparr>"

definition disc_set_partition_row_count :: "ulonglong \<Rightarrow> 'v Item_sum_percentile_disc \<Rightarrow> 'v Item_sum_percentile_disc" where
  "disc_set_partition_row_count n s = s\<lparr>pd_partition_row_count := n\<rparr>"

definition disc_take_row ::
    "(real \<Rightarrow> real) \<Rightarrow> real \<Rightarrow> 'v option \<Rightarrow> 'v Item_sum_percentile_disc \<Rightarrow> window_error option \<times> 'v Item_sum_percentile_disc" where
  "disc_take_row rnd arg_val item s =
     (if pd_prev_value s \<noteq> arg_val then (Some ER_ARGUMENT_NOT_CONSTANT, s)
      else if val_calculated s then (None, s)
      else
        let s = s\<lparr>pd_value := item\<rparr>
        in if item = None then (None, s)
           else let s = s\<lparr>pd_current_row_count := pd_current_row_count s + 1\<rparr>;
                    val = snd (calc_val_real rnd (pd_partition_row_count s) (pd_current_row_count s))
                in (None, if val \<ge> pd_prev_value s \<and> \<not> val_calculated s then s\<lparr>val_calculated := True\<rparr> else s))"

definition disc_add ::
    "(real \<Rightarrow> real) \<Rightarrow> real option \<Rightarrow> 'v option \<Rightarrow> 'v Item_sum_percentile_disc \<Rightarrow> window_error option \<times> 'v Item_sum_percentile_disc" where
  "disc_add rnd arg item s =
     (case arg of
        None \<Rightarrow> (None, s)
      | Some arg_val \<Rightarrow>
          if pd_first_call s
          then let s = s\<lparr>pd_prev_value := arg_val\<rparr>
               in if pd_prev_value s > 1 \<or> pd_prev_value s < 0 then (Some ER_ARGUMENT_OUT_OF_RANGE, s)
                  else disc_take_row rnd arg_val item (s\<lparr>pd_first_call := False\<rparr>)
          else disc_take_row rnd arg_val item s)"

definition disc_val :: "real option \<Rightarrow> 'v Item_sum_percentile_disc \<Rightarrow> 'v option" where
  "disc_val arg s = (if pd_partition_row_count s = 0 \<or> arg = None then None else pd_value s)"

record Item_sum_percentile_cont =
  pc_partition_row_count :: ulonglong
  pc_current_row_count :: ulonglong
  floor_value :: "real option"
  ceil_value :: "real option"
  pc_first_call :: bool
  pc_prev_value :: real
  floor_val_calculated :: bool
  ceil_val_calculated :: bool

definition cont_clear :: "Item_sum_percentile_cont \<Rightarrow> Item_sum_percentile_cont" where
  "cont_clear s =
     s\<lparr>pc_first_call := True, floor_value := None, ceil_value := None, floor_val_calculated := False,
       ceil_val_calculated := False, pc_partition_row_count := 0, pc_current_row_count := 0\<rparr>"

definition cont_set_partition_row_count :: "ulonglong \<Rightarrow> Item_sum_percentile_cont \<Rightarrow> Item_sum_percentile_cont" where
  "cont_set_partition_row_count n s = s\<lparr>pc_partition_row_count := n\<rparr>"

text \<open>The row number that the percentile falls on: \<^verbatim>\<open>1 + prev_value * (get_row_count()-1)\<close>.\<close>

definition cont_row :: "(real \<Rightarrow> real) \<Rightarrow> Item_sum_percentile_cont \<Rightarrow> real" where
  "cont_row rnd s = rnd (1 + rnd (pc_prev_value s * rnd (of_int (sint (pc_partition_row_count s - 1)))))"

definition cont_count_row :: "(real \<Rightarrow> real) \<Rightarrow> Item_sum_percentile_cont \<Rightarrow> Item_sum_percentile_cont" where
  "cont_count_row rnd s =
     (let s = s\<lparr>pc_current_row_count := pc_current_row_count s + 1\<rparr>;
          val = cont_row rnd s;
          row = rnd (real (unat (pc_current_row_count s)));
          s = (if \<not> floor_val_calculated s \<and> row = of_int \<lfloor>val\<rfloor> then s\<lparr>floor_val_calculated := True\<rparr> else s)
      in if \<not> ceil_val_calculated s \<and> row = of_int \<lceil>val\<rceil> then s\<lparr>ceil_val_calculated := True\<rparr> else s)"

definition cont_take_row ::
    "(real \<Rightarrow> real) \<Rightarrow> real \<Rightarrow> real option \<Rightarrow> Item_sum_percentile_cont \<Rightarrow> window_error option \<times> Item_sum_percentile_cont" where
  "cont_take_row rnd arg_val item s =
     (if pc_prev_value s \<noteq> arg_val then (Some ER_ARGUMENT_NOT_CONSTANT, s)
      else
        let s = (if \<not> floor_val_calculated s then s\<lparr>floor_value := item\<rparr> else s)
        in if \<not> floor_val_calculated s \<and> item = None then (None, s)
           else
             let s' = (if floor_val_calculated s \<and> \<not> ceil_val_calculated s then s\<lparr>ceil_value := item\<rparr> else s)
             in if floor_val_calculated s \<and> \<not> ceil_val_calculated s \<and> item = None then (None, s')
                else (None, cont_count_row rnd s'))"

definition cont_add ::
    "(real \<Rightarrow> real) \<Rightarrow> real option \<Rightarrow> real option \<Rightarrow> Item_sum_percentile_cont \<Rightarrow> window_error option \<times> Item_sum_percentile_cont" where
  "cont_add rnd arg item s =
     (case arg of
        None \<Rightarrow> (None, s)
      | Some arg_val \<Rightarrow>
          if pc_first_call s
          then let s = s\<lparr>pc_first_call := False, pc_prev_value := arg_val\<rparr>
               in if pc_prev_value s > 1 \<or> pc_prev_value s < 0 then (Some ER_ARGUMENT_OUT_OF_RANGE, s)
                  else cont_take_row rnd arg_val item s
          else cont_take_row rnd arg_val item s)"

text \<open>The result is absent for \<^verbatim>\<open>NULL\<close>; the outer option is for a missing value in the caches.\<close>

definition cont_val_real :: "(real \<Rightarrow> real) \<Rightarrow> real option \<Rightarrow> Item_sum_percentile_cont \<Rightarrow> real option option" where
  "cont_val_real rnd arg s =
     (if pc_partition_row_count s = 0 \<or> arg = None then Some None
      else
        let val = cont_row rnd s
        in if \<lceil>val\<rceil> = \<lfloor>val\<rfloor> then map_option Some (floor_value s)
           else case (floor_value s, ceil_value s) of
                  (Some f, Some c) \<Rightarrow>
                    Some (Some (rnd (rnd (rnd (val - of_int \<lfloor>val\<rfloor>) * c) + rnd (rnd (of_int \<lceil>val\<rceil> - val) * f))))
                | _ \<Rightarrow> None)"

section \<open>Kinds of window functions\<close>

datatype Sumfunctype =
  COUNT_FUNC | COUNT_DISTINCT_FUNC | SUM_FUNC | SUM_DISTINCT_FUNC | AVG_FUNC | AVG_DISTINCT_FUNC | MIN_FUNC | MAX_FUNC
| STD_FUNC | VARIANCE_FUNC | SUM_BIT_FUNC | UDF_SUM_FUNC | GROUP_CONCAT_FUNC | ROW_NUMBER_FUNC | RANK_FUNC
| DENSE_RANK_FUNC | PERCENT_RANK_FUNC | CUME_DIST_FUNC | NTILE_FUNC | FIRST_VALUE_FUNC | LAST_VALUE_FUNC
| NTH_VALUE_FUNC | LEAD_FUNC | LAG_FUNC | PERCENTILE_CONT_FUNC | PERCENTILE_DISC_FUNC | SP_AGGREGATE_FUNC
| JSON_ARRAYAGG_FUNC | JSON_OBJECTAGG_FUNC

definition is_frame_prohibited :: "Sumfunctype \<Rightarrow> bool" where
  "is_frame_prohibited f =
     (case f of ROW_NUMBER_FUNC \<Rightarrow> True | RANK_FUNC \<Rightarrow> True | DENSE_RANK_FUNC \<Rightarrow> True | PERCENT_RANK_FUNC \<Rightarrow> True
      | CUME_DIST_FUNC \<Rightarrow> True | NTILE_FUNC \<Rightarrow> True | PERCENTILE_CONT_FUNC \<Rightarrow> True | PERCENTILE_DISC_FUNC \<Rightarrow> True | _ \<Rightarrow> False)"

definition requires_special_cursors :: "Sumfunctype \<Rightarrow> bool" where
  "requires_special_cursors f =
     (case f of FIRST_VALUE_FUNC \<Rightarrow> True | LAST_VALUE_FUNC \<Rightarrow> True | NTH_VALUE_FUNC \<Rightarrow> True | LAG_FUNC \<Rightarrow> True
      | LEAD_FUNC \<Rightarrow> True | _ \<Rightarrow> False)"

definition requires_partition_size :: "Sumfunctype \<Rightarrow> bool" where
  "requires_partition_size f =
     (case f of PERCENT_RANK_FUNC \<Rightarrow> True | CUME_DIST_FUNC \<Rightarrow> True | NTILE_FUNC \<Rightarrow> True | PERCENTILE_CONT_FUNC \<Rightarrow> True
      | PERCENTILE_DISC_FUNC \<Rightarrow> True | _ \<Rightarrow> False)"

definition requires_peer_size :: "Sumfunctype \<Rightarrow> bool" where
  "requires_peer_size f = (case f of CUME_DIST_FUNC \<Rightarrow> True | _ \<Rightarrow> False)"

definition is_order_list_mandatory :: "Sumfunctype \<Rightarrow> bool" where
  "is_order_list_mandatory f =
     (case f of RANK_FUNC \<Rightarrow> True | DENSE_RANK_FUNC \<Rightarrow> True | PERCENT_RANK_FUNC \<Rightarrow> True | CUME_DIST_FUNC \<Rightarrow> True
      | LAG_FUNC \<Rightarrow> True | LEAD_FUNC \<Rightarrow> True | PERCENTILE_CONT_FUNC \<Rightarrow> True | PERCENTILE_DISC_FUNC \<Rightarrow> True | _ \<Rightarrow> False)"

definition only_single_element_order_list :: "Sumfunctype \<Rightarrow> bool" where
  "only_single_element_order_list f =
     (case f of PERCENTILE_CONT_FUNC \<Rightarrow> True | PERCENTILE_DISC_FUNC \<Rightarrow> True | _ \<Rightarrow> False)"

section \<open>The phases of a window function\<close>

text \<open>\<open>field\<close> and \<open>func\<close> are what the result field and the window function deliver: a value with its null flag.\<close>

record Item_window_func =
  force_return_blank :: bool
  read_value_from_result_field :: bool
  wf_null_value :: bool

definition mk_Item_window_func :: Item_window_func where
  "mk_Item_window_func = \<lparr>force_return_blank = True, read_value_from_result_field = False, wf_null_value = False\<rparr>"

definition set_phase_to_initial :: "Item_window_func \<Rightarrow> Item_window_func" where
  "set_phase_to_initial w = w\<lparr>force_return_blank := True, read_value_from_result_field := False\<rparr>"

definition set_phase_to_computation :: "Item_window_func \<Rightarrow> Item_window_func" where
  "set_phase_to_computation w = w\<lparr>force_return_blank := False, read_value_from_result_field := False\<rparr>"

definition set_phase_to_retrieval :: "Item_window_func \<Rightarrow> Item_window_func" where
  "set_phase_to_retrieval w = w\<lparr>force_return_blank := False, read_value_from_result_field := True\<rparr>"

definition wf_is_null :: "bool \<Rightarrow> bool \<Rightarrow> Item_window_func \<Rightarrow> bool" where
  "wf_is_null field_null func_null w =
     (if force_return_blank w then True else if read_value_from_result_field w then field_null else func_null)"

text \<open>\<^verbatim>\<open>val_real\<close> and \<^verbatim>\<open>val_int\<close> have a number in every case, \<open>zero\<close> in the first phase.\<close>

definition wf_val_num :: "'n \<Rightarrow> 'n \<times> bool \<Rightarrow> 'n \<times> bool \<Rightarrow> Item_window_func \<Rightarrow> 'n \<times> Item_window_func" where
  "wf_val_num zero field func w =
     (if force_return_blank w then (zero, w\<lparr>wf_null_value := True\<rparr>)
      else if read_value_from_result_field w then (fst field, w\<lparr>wf_null_value := snd field\<rparr>)
      else (fst func, w\<lparr>wf_null_value := snd func\<rparr>))"

text \<open>\<^verbatim>\<open>val_str\<close> and \<^verbatim>\<open>val_decimal\<close> return a pointer, null for \<^verbatim>\<open>NULL\<close>; the field is not read when it is null.\<close>

definition wf_val_ptr :: "'n option \<times> bool \<Rightarrow> 'n option \<times> bool \<Rightarrow> Item_window_func \<Rightarrow> 'n option \<times> Item_window_func" where
  "wf_val_ptr field func w =
     (if force_return_blank w then (None, w\<lparr>wf_null_value := True\<rparr>)
      else if read_value_from_result_field w
      then (if snd field then (None, w\<lparr>wf_null_value := True\<rparr>) else (fst field, w\<lparr>wf_null_value := False\<rparr>))
      else (fst func, w\<lparr>wf_null_value := snd func\<rparr>))"

definition wf_get_date :: "bool \<times> bool \<Rightarrow> bool \<times> bool \<Rightarrow> Item_window_func \<Rightarrow> bool \<times> Item_window_func" where
  "wf_get_date field func w =
     (if force_return_blank w then (True, w\<lparr>wf_null_value := True\<rparr>)
      else if read_value_from_result_field w
      then (if snd field then (True, w\<lparr>wf_null_value := True\<rparr>) else (fst field, w\<lparr>wf_null_value := False\<rparr>))
      else (fst func, w\<lparr>wf_null_value := snd func\<rparr>))"

section \<open>NTILE divides the rows evenly\<close>

text \<open>The number of rows in the first \<open>b\<close> of \<open>q\<close> groups of \<open>n\<close> rows, when the first groups get the extra rows.\<close>

definition rows_upto :: "nat \<Rightarrow> nat \<Rightarrow> nat \<Rightarrow> nat" where
  "rows_upto n q b = b * (n div q) + min b (n mod q)"

definition ntile_of :: "nat \<Rightarrow> nat \<Rightarrow> nat \<Rightarrow> nat" where
  "ntile_of n q r =
     (if r \<le> n mod q * (n div q + 1) then (r - 1) div (n div q + 1) + 1 else (r - 1 - n mod q) div (n div q) + 1)"

lemma div_eq_iff_nat: "0 < (d :: nat) \<Longrightarrow> x div d = k \<longleftrightarrow> k * d \<le> x \<and> x < (k + 1) * d"
  by (metis div_nat_eqI dividend_less_times_div less_eq_div_iff_mult_less_eq mult.commute mult_Suc_right Suc_eq_plus1 order_refl add.commute)

lemma extra_rows_le: "n mod q * (n div q + 1) \<le> (n :: nat)"
proof (cases "q = 0")
  case False
  then have "n mod q * (n div q) \<le> q * (n div q)" by (intro mult_le_mono1) (simp add: less_imp_le)
  moreover have "q * (n div q) + n mod q = n" by simp
  moreover have "n mod q * (n div q + 1) = n mod q * (n div q) + n mod q" by simp
  ultimately show ?thesis by linarith
qed simp

lemma ntile_of_iff:
  assumes "0 < q" "1 \<le> r" "r \<le> n" "1 \<le> b" "b \<le> q"
  shows "ntile_of n q r = b \<longleftrightarrow> rows_upto n q (b - 1) < r \<and> r \<le> rows_upto n q b"
proof -
  define d where "d = n div q"
  define e where "e = n mod q"
  obtain a where a: "b = Suc a" using assms(4) by (cases b) auto
  obtain x where x: "r = Suc x" using assms(2) by (cases r) auto
  have up: "rows_upto n q k = k * d + min k e" for k by (simp add: rows_upto_def d_def e_def)
  have mono: "k \<le> l \<Longrightarrow> rows_upto n q k \<le> rows_upto n q l" for k l
    unfolding up by (intro add_mono mult_right_mono) auto
  have top: "rows_upto n q e = e * (d + 1)" by (simp add: up)
  show ?thesis
  proof (cases "r \<le> e * (d + 1)")
    case True
    have t: "ntile_of n q r = x div (d + 1) + 1" using True by (simp add: ntile_of_def x d_def e_def)
    show ?thesis
    proof (cases "b \<le> e")
      case be: True
      have "ntile_of n q r = b \<longleftrightarrow> x div (d + 1) = a" by (simp add: t a)
      also have "\<dots> \<longleftrightarrow> a * (d + 1) \<le> x \<and> x < (a + 1) * (d + 1)" by (rule div_eq_iff_nat) simp
      also have "\<dots> \<longleftrightarrow> rows_upto n q (b - 1) < r \<and> r \<le> rows_upto n q b"
        using be a by (simp add: up x min_absorb1 algebra_simps less_Suc_eq_le)
      finally show ?thesis .
    next
      case False
      have "x < e * (d + 1)" using True x by simp
      then have "x div (d + 1) < e" by (simp add: less_mult_imp_div_less)
      moreover have "rows_upto n q e \<le> rows_upto n q (b - 1)" by (rule mono) (use False in simp)
      then have "r \<le> rows_upto n q (b - 1)" using True unfolding top by (rule order_trans [rotated])
      ultimately show ?thesis using t False by simp
    qed
  next
    case False
    have dpos: "0 < d"
    proof (rule ccontr)
      assume "\<not> 0 < d"
      then have "n = e" using div_mult_mod_eq [of n q] by (simp add: d_def e_def)
      then show False using False assms(3) \<open>\<not> 0 < d\<close> by simp
    qed
    have "e \<le> x" using False x by (simp add: algebra_simps)
    have t: "ntile_of n q r = (x - e) div d + 1" using False by (simp add: ntile_of_def x d_def e_def)
    show ?thesis
    proof (cases "b \<le> e")
      case True
      have "e * d \<le> x - e" using False x by (simp add: algebra_simps)
      then have "e \<le> (x - e) div d" using dpos by (simp add: less_eq_div_iff_mult_less_eq)
      moreover have "rows_upto n q b < r" using False top mono [OF True] by simp
      ultimately show ?thesis using t True by simp
    next
      case be: False
      have "ntile_of n q r = b \<longleftrightarrow> (x - e) div d = a" by (simp add: t a)
      also have "\<dots> \<longleftrightarrow> a * d \<le> x - e \<and> x - e < (a + 1) * d" by (rule div_eq_iff_nat [OF dpos])
      also have "\<dots> \<longleftrightarrow> rows_upto n q (b - 1) < r \<and> r \<le> rows_upto n q b"
        using be a \<open>e \<le> x\<close> by (auto simp: up x min_absorb2 algebra_simps)
      finally show ?thesis .
    qed
  qed
qed

lemma sint_below:
  assumes "unat (w :: ulonglong) < 2 ^ 63"
  shows "sint w = int (unat w)"
proof -
  have "int (unat w) < 2 ^ 63" using assms by (metis of_nat_less_iff of_nat_numeral of_nat_power)
  then show ?thesis by (simp add: sint_uint_64)
qed

lemma u64_less: "unat (w :: ulonglong) < 2 ^ 64"
  using unat_less [of w] by simp

lemma unat_u64: "n < 2 ^ 64 \<Longrightarrow> unat (of_nat n :: ulonglong) = n"
  by (simp add: unat_of_nat take_bit_nat_eq_self)

text \<open>The value of the item on the machine is that of the formula.\<close>

lemma ntile_fields:
  "nt_partition_row_count (s\<lparr>n_old_val := q, nt_null_value := b\<rparr>) = nt_partition_row_count s"
  "nt_current_row_count (s\<lparr>n_old_val := q, nt_null_value := b\<rparr>) = nt_current_row_count s"
  by simp_all

lemma ntile_val_int_eq:
  assumes "unat (nt_partition_row_count s) = n" "0 < n" "n < 2 ^ 63"
    and "unat q = Q" "0 < Q" "Q < 2 ^ 63" "n_old_val s = 0 \<or> n_old_val s = q"
    and "unat (nt_current_row_count s) = r" "1 \<le> r" "r \<le> n"
  shows "ntile_val_int q s = Some (of_nat (ntile_of n Q r), None, s\<lparr>n_old_val := q, nt_null_value := False\<rparr>)"
proof -
  define d where "d = n div Q"
  define e where "e = n mod Q"
  have w: "nt_partition_row_count s = of_nat n" "q = of_nat Q" "nt_current_row_count s = of_nat r"
    using assms(1,4,8) by auto
  have dn: "d \<le> n" "e \<le> n" "e * (d + 1) \<le> n" "d * Q + e = n"
    using extra_rows_le [of n Q] by (simp_all add: d_def e_def)
  have nz: "nt_partition_row_count s \<noteq> 0" using assms(1,2) by auto
  have sq: "sint q = int Q" "sint (nt_partition_row_count s) = int n" using sint_below [of q] sint_below [of "nt_partition_row_count s"] assms by simp_all
  have "int n sdiv int Q = int d" using assms(2,5) by (simp add: signed_divide_int_def d_def zdiv_int)
  then have qs: "word_of_int (sint (nt_partition_row_count s) sdiv sint q) = (of_nat d :: ulonglong)" by (simp add: sq)
  have ex: "nt_partition_row_count s - of_nat d * q = of_nat e"
    unfolding w using dn(4) by (metis add_diff_cancel_left' of_nat_add of_nat_mult)
  have prod: "(of_nat e :: ulonglong) * (of_nat d + 1) = of_nat (e * (d + 1))" by (simp add: algebra_simps)
  have lt: "n < 2 ^ 64" using assms(3) by simp
  have b: "d + 1 < 2 ^ 64" "e * (d + 1) < 2 ^ 64" "r - 1 < 2 ^ 64" "r < 2 ^ 64" "r - 1 - e < 2 ^ 64" "d < 2 ^ 64"
    using dn assms(3,9,10) by simp_all
  have cond: "nt_current_row_count s \<le> of_nat e * (of_nat d + 1) \<longleftrightarrow> r \<le> e * (d + 1)"
    unfolding prod w(3) word_le_nat_alt using unat_u64 [OF b(2)] unat_u64 [OF b(4)] by simp
  have r1: "nt_current_row_count s - 1 = of_nat (r - 1)" unfolding w(3) using assms(9) by (simp add: of_nat_diff)
  have dv: "(of_nat x :: ulonglong) div of_nat y = of_nat (x div y)" if "x < 2 ^ 64" "y < 2 ^ 64" for x y
    using that by (simp add: word_arith_nat_div unat_u64)
  have ok: "\<not> (sint q \<le> 0 \<or> (q \<noteq> n_old_val s \<and> n_old_val s > 0))" using sq(1) assms(5,7) by auto
  have eq: "ntile_val_int q s =
      (if r \<le> e * (d + 1)
       then (if of_nat d + (1 :: ulonglong) = 0 then None
             else Some (of_nat (r - 1) div (of_nat d + 1) + 1, None, s\<lparr>n_old_val := q, nt_null_value := False\<rparr>))
       else (if (of_nat d :: ulonglong) = 0 then None
             else Some ((of_nat (r - 1) - of_nat e) div of_nat d + 1, None, s\<lparr>n_old_val := q, nt_null_value := False\<rparr>)))"
    using nz by (simp only: ntile_val_int_def Let_def ok if_False ntile_fields qs ex cond r1)
  show ?thesis
  proof (cases "r \<le> e * (d + 1)")
    case True
    have "(of_nat d :: ulonglong) + 1 = of_nat (d + 1)" by simp
    moreover have "(of_nat (d + 1) :: ulonglong) \<noteq> 0" using unat_u64 [OF b(1)] by (metis unat_0 add_is_0 one_neq_zero)
    ultimately show ?thesis unfolding eq using True dv [OF b(3,1)]
      by (simp only: if_True if_False ntile_of_def d_def [symmetric] e_def [symmetric] of_nat_add of_nat_1)
  next
    case False
    then have "d \<noteq> 0" using assms(10) dn by (cases d) auto
    then have nzd: "(of_nat d :: ulonglong) \<noteq> 0" using unat_u64 [OF b(6)] by (metis unat_0)
    have "e \<le> r - 1" using False by (simp add: algebra_simps)
    then have "(of_nat (r - 1) :: ulonglong) - of_nat e = of_nat (r - 1 - e)" by (rule of_nat_diff [symmetric])
    then show ?thesis unfolding eq using False nzd dv [OF b(5,6)]
      by (simp only: if_True if_False ntile_of_def d_def [symmetric] e_def [symmetric] of_nat_add of_nat_1)
  qed
qed

lemma rows_upto_mono: "b \<le> c \<Longrightarrow> rows_upto n q b \<le> rows_upto n q c"
  unfolding rows_upto_def by (intro add_mono mult_right_mono) auto

lemma rows_upto_total: "0 < q \<Longrightarrow> rows_upto n q q = n"
  by (simp add: rows_upto_def min_absorb2 less_imp_le)

lemma ntile_of_range: "0 < q \<Longrightarrow> 1 \<le> r \<Longrightarrow> r \<le> n \<Longrightarrow> 1 \<le> ntile_of n q r \<and> ntile_of n q r \<le> q"
proof -
  assume a: "0 < q" "1 \<le> r" "r \<le> n"
  define b where "b = (LEAST b. r \<le> rows_upto n q b)"
  have top: "r \<le> rows_upto n q q" using a rows_upto_total by simp
  have b: "r \<le> rows_upto n q b" "b \<le> q" unfolding b_def 
    using LeastI [of "\<lambda>b. r \<le> rows_upto n q b", OF top] Least_le [of "\<lambda>b. r \<le> rows_upto n q b", OF top] by simp_all
  have "b \<noteq> 0" using b(1) a(2) by (auto simp: rows_upto_def intro!: Nat.gr0I)
  moreover have "\<not> r \<le> rows_upto n q (b - 1)"
    using not_less_Least [of "b - 1" "\<lambda>b. r \<le> rows_upto n q b"] calculation by (simp add: b_def)
  ultimately have "ntile_of n q r = b" using ntile_of_iff [OF a, of b] b by simp
  then show ?thesis using b \<open>b \<noteq> 0\<close> by simp
qed

text \<open>\<^verbatim>\<open>NTILE(q)\<close> over a partition of \<open>n\<close> rows, computed with 64-bit integers: the rows with the value \<open>b\<close> are
  consecutive, group follows group without gap up to the last row, and group \<open>b\<close> has \<open>n div q\<close> rows, one more for the first
  \<open>n mod q\<close> groups. No step overflows and no divisor is zero, not even when there are more groups than rows.\<close>

theorem ntile_divides_evenly:
  assumes "unat (nt_partition_row_count s) = n" "0 < n" "n < 2 ^ 63"
    and "unat q = Q" "0 < Q" "Q < 2 ^ 63" "n_old_val s = 0 \<or> n_old_val s = q"
  defines "val r \<equiv> ntile_val_int q (s\<lparr>nt_current_row_count := of_nat r\<rparr>)"
  shows "(\<forall>b. 1 \<le> b \<and> b \<le> Q \<longrightarrow>
      {r. 1 \<le> r \<and> r \<le> n \<and> (\<exists>t. val r = Some (of_nat b, None, t))} = {rows_upto n Q (b - 1)<..rows_upto n Q b}
      \<and> card {r. 1 \<le> r \<and> r \<le> n \<and> (\<exists>t. val r = Some (of_nat b, None, t))} = n div Q + (if b \<le> n mod Q then 1 else 0))
    \<and> rows_upto n Q 0 = 0 \<and> rows_upto n Q Q = n"
proof -
  have val: "val r = Some (of_nat (ntile_of n Q r), None, s\<lparr>nt_current_row_count := of_nat r, n_old_val := q, nt_null_value := False\<rparr>)"
    if "1 \<le> r" "r \<le> n" for r
  proof -
    have "unat (nt_current_row_count (s\<lparr>nt_current_row_count := of_nat r\<rparr>)) = r"
      using that assms(3) by (simp add: unat_u64)
    then show ?thesis unfolding val_def
      using ntile_val_int_eq [of "s\<lparr>nt_current_row_count := of_nat r\<rparr>" n q Q r] assms that by simp
  qed
  have inj: "(of_nat x :: ulonglong) = of_nat y \<longleftrightarrow> x = y" if "x < 2 ^ 64" "y < 2 ^ 64" for x y
    using that unat_u64 by metis
  have rows: "{r. 1 \<le> r \<and> r \<le> n \<and> (\<exists>t. val r = Some (of_nat b, None, t))} = {rows_upto n Q (b - 1)<..rows_upto n Q b}"
    if b: "1 \<le> b" "b \<le> Q" for b
  proof -
    have eq: "(\<exists>t. val r = Some (of_nat b, None, t)) \<longleftrightarrow> rows_upto n Q (b - 1) < r \<and> r \<le> rows_upto n Q b"
      if "1 \<le> r" "r \<le> n" for r
    proof -
      have "ntile_of n Q r < 2 ^ 64" "b < 2 ^ 64" using ntile_of_range [OF assms(5) that] b assms(6) by simp_all
      then show ?thesis using val [OF that] ntile_of_iff [OF assms(5) that b] inj by auto
    qed
    have le: "rows_upto n Q b \<le> n" using rows_upto_mono [OF b(2), of n Q] rows_upto_total [OF assms(5), of n] by simp
    show ?thesis
    proof (rule set_eqI)
      fix r
      show "r \<in> {r. 1 \<le> r \<and> r \<le> n \<and> (\<exists>t. val r = Some (of_nat b, None, t))} \<longleftrightarrow> r \<in> {rows_upto n Q (b - 1)<..rows_upto n Q b}"
        using eq [of r] le by (cases "1 \<le> r \<and> r \<le> n") (simp_all, linarith)
    qed
  qed
  have "rows_upto n Q b - rows_upto n Q (b - 1) = n div Q + (if b \<le> n mod Q then 1 else 0)" if "1 \<le> b" for b
    using that by (cases b) (auto simp: rows_upto_def min_def)
  then show ?thesis using rows rows_upto_total [OF assms(5), of n] by (simp add: rows_upto_def)
qed

definition ex_ntile :: Item_sum_ntile where
  "ex_ntile = \<lparr>nt_partition_row_count = 10, nt_current_row_count = 0, n_old_val = 0, nt_null_value = False\<rparr>"

theorem ntile_divides_evenly_witness:
  "{r. 1 \<le> r \<and> r \<le> 10 \<and> (\<exists>t. ntile_val_int 4 (ex_ntile\<lparr>nt_current_row_count := of_nat r\<rparr>) = Some (of_nat 2, None, t))} = {3<..6}"
proof -
  have "unat (nt_partition_row_count ex_ntile) = 10" "unat (4 :: ulonglong) = 4" "n_old_val ex_ntile = 0" by (simp_all add: ex_ntile_def)
  then show ?thesis
    using ntile_divides_evenly [of ex_ntile 10 4 4, THEN conjunct1, THEN spec, of 2] by (simp add: rows_upto_def)
qed

section \<open>PERCENTILE\_DISC picks the first value at the percentile\<close>

text \<open>The values that are not null, and the number of the row at which the relative position reaches the percentile.\<close>

definition non_null :: "'v option list \<Rightarrow> 'v list" where
  "non_null items = map the (filter (\<lambda>i. i \<noteq> None) items)"

lemma non_null_snoc [simp]: "non_null (items @ [Some v]) = non_null items @ [v]" "non_null (items @ [None]) = non_null items"
  "non_null [] = []"
  by (simp_all add: non_null_def)

definition rel_pos :: "(real \<Rightarrow> real) \<Rightarrow> nat \<Rightarrow> nat \<Rightarrow> real" where
  "rel_pos rnd n k = rnd (rnd (real k) / rnd (real n))"

definition disc_row :: "(real \<Rightarrow> real) \<Rightarrow> nat \<Rightarrow> real \<Rightarrow> nat" where
  "disc_row rnd n p = (LEAST k. 1 \<le> k \<and> p \<le> rel_pos rnd n k)"

definition disc_run ::
    "(real \<Rightarrow> real) \<Rightarrow> real \<Rightarrow> 'v option list \<Rightarrow> 'v Item_sum_percentile_disc \<Rightarrow> 'v Item_sum_percentile_disc" where
  "disc_run rnd p items s = fold (\<lambda>item s. snd (disc_add rnd (Some p) item s)) items s"

lemma rel_pos_n: "rounding_ok rnd \<Longrightarrow> 0 < n \<Longrightarrow> n \<le> 2 ^ 53 \<Longrightarrow> rel_pos rnd n n = 1"
  using rounding_of_nat [of rnd n] rounding_of_nat [of rnd 1] by (simp add: rel_pos_def)

lemma disc_row_bounds:
  assumes "rounding_ok rnd" "0 < n" "n \<le> 2 ^ 53" "p \<le> 1"
  shows "1 \<le> disc_row rnd n p" "disc_row rnd n p \<le> n" "p \<le> rel_pos rnd n (disc_row rnd n p)"
    "1 \<le> k \<Longrightarrow> k < disc_row rnd n p \<Longrightarrow> rel_pos rnd n k < p"
proof -
  let ?P = "\<lambda>k. 1 \<le> k \<and> p \<le> rel_pos rnd n k"
  have n: "?P n" using rel_pos_n [OF assms(1-3)] assms(2,4) by simp
  show "1 \<le> disc_row rnd n p" "p \<le> rel_pos rnd n (disc_row rnd n p)" using LeastI [of ?P, OF n] by (simp_all add: disc_row_def)
  show "disc_row rnd n p \<le> n" using Least_le [of ?P, OF n] by (simp add: disc_row_def)
  show "rel_pos rnd n k < p" if "1 \<le> k" "k < disc_row rnd n p"
    using not_less_Least [of k ?P] that by (auto simp: disc_row_def not_le)
qed

text \<open>The state after some rows.\<close>

definition disc_inv :: "(real \<Rightarrow> real) \<Rightarrow> nat \<Rightarrow> real \<Rightarrow> 'v option list \<Rightarrow> 'v Item_sum_percentile_disc \<Rightarrow> bool" where
  "disc_inv rnd n p items s \<longleftrightarrow>
     unat (pd_partition_row_count s) = n
     \<and> (if items = [] then pd_first_call s else \<not> pd_first_call s \<and> pd_prev_value s = p)
     \<and> (let vs = non_null items; k = disc_row rnd n p
        in if length vs < k then \<not> val_calculated s \<and> unat (pd_current_row_count s) = length vs
           else val_calculated s \<and> pd_value s = Some (vs ! (k - 1)))"

lemma disc_take_row_inv:
  assumes "rounding_ok rnd" "0 < n" "n \<le> 2 ^ 53" "p \<le> 1"
    and "unat (pd_partition_row_count s) = n" "\<not> pd_first_call s" "pd_prev_value s = p"
    and "if length vs < disc_row rnd n p then \<not> val_calculated s \<and> unat (pd_current_row_count s) = length vs
         else val_calculated s \<and> pd_value s = Some (vs ! (disc_row rnd n p - 1))"
    and "vs = non_null items"
  shows "fst (disc_take_row rnd p item s) = None \<and> disc_inv rnd n p (items @ [item]) (snd (disc_take_row rnd p item s))"
proof (cases "length vs < disc_row rnd n p")
  case False
  then have "disc_take_row rnd p item s = (None, s)" using assms(7,8) by (simp add: disc_take_row_def)
  moreover have "disc_row rnd n p - 1 < length vs" using False disc_row_bounds(1) [OF assms(1-4)] by simp
  ultimately show ?thesis using assms False by (cases item) (auto simp: disc_inv_def Let_def nth_append)
next
  case True
  note b = disc_row_bounds [OF assms(1-4)]
  show ?thesis
  proof (cases item)
    case None
    then show ?thesis using assms True by (simp add: disc_take_row_def disc_inv_def)
  next
    case (Some v)
    have cur: "unat (pd_current_row_count s + 1) = length vs + 1"
      using assms(3,8) True b(2) unat_add_lem [of "pd_current_row_count s" 1] by simp
    have "pd_partition_row_count s \<noteq> 0" using assms(2,5) by auto
    then have val: "snd (calc_val_real rnd (pd_partition_row_count s) (pd_current_row_count s + 1)) = rel_pos rnd n (length vs + 1)"
      using cur assms(5) by (simp add: calc_val_real_def rel_pos_def)
    have "p \<le> rel_pos rnd n (length vs + 1) \<longleftrightarrow> length vs + 1 = disc_row rnd n p"
      using b(3) b(4) [of "length vs + 1"] True by (cases "length vs + 1 = disc_row rnd n p") auto
    then show ?thesis using assms True Some val cur
      by (auto simp: disc_take_row_def disc_inv_def Let_def nth_append)
  qed
qed

lemma disc_run_inv:
  assumes "rounding_ok rnd" "0 < n" "n \<le> 2 ^ 53" "0 \<le> p" "p \<le> 1" "unat m = n"
  shows "disc_inv rnd n p items (disc_run rnd p items (disc_set_partition_row_count m (disc_clear s)))"
proof (induction items rule: rev_induct)
  case Nil
  then show ?case using assms(6) disc_row_bounds(1) [OF assms(1-3,5)]
    by (auto simp: disc_inv_def disc_run_def disc_clear_def disc_set_partition_row_count_def)
next
  case (snoc item items)
  define t where "t = disc_run rnd p items (disc_set_partition_row_count m (disc_clear s))"
  define t' where "t' = (if pd_first_call t then t\<lparr>pd_prev_value := p, pd_first_call := False\<rparr> else t)"
  have "disc_add rnd (Some p) item t = disc_take_row rnd p item t'"
    using assms(4,5) by (auto simp: disc_add_def Let_def t'_def)
  moreover have "fst (disc_take_row rnd p item t') = None \<and> disc_inv rnd n p (items @ [item]) (snd (disc_take_row rnd p item t'))"
    by (rule disc_take_row_inv [OF assms(1-3,5) _ _ _ _ refl])
      (use snoc in \<open>auto simp: disc_inv_def Let_def t_def [symmetric] t'_def split: if_splits\<close>)
  ultimately show ?case by (simp add: disc_run_def t_def)
qed

text \<open>\<^verbatim>\<open>PERCENTILE_DISC(p)\<close> over a partition with \<open>n\<close> values that are not null, in the order of the window and
  with any number of nulls among them: the result is the first value whose relative position \<open>k / n\<close>, as rounded by the
  machine, is at least \<open>p\<close>; such a value exists for every \<open>p\<close> between 0 and 1.\<close>

theorem percentile_disc_correct:
  assumes "rounding_ok rnd" "0 \<le> p" "p \<le> 1"
    and "length (non_null items) = n" "0 < n" "n \<le> 2 ^ 53" "unat m = n"
  shows "disc_val (Some p) (disc_run rnd p items (disc_set_partition_row_count m (disc_clear s)))
      = Some (non_null items ! (disc_row rnd n p - 1))
    \<and> 1 \<le> disc_row rnd n p \<and> disc_row rnd n p \<le> n \<and> p \<le> rel_pos rnd n (disc_row rnd n p)
    \<and> (\<forall>k. 1 \<le> k \<and> k < disc_row rnd n p \<longrightarrow> rel_pos rnd n k < p)"
proof -
  note b = disc_row_bounds [OF assms(1,5,6,3)]
  have "disc_inv rnd n p items (disc_run rnd p items (disc_set_partition_row_count m (disc_clear s)))"
    by (rule disc_run_inv [OF assms(1,5,6,2,3,7)])
  then show ?thesis using b assms(4,5) by (auto simp: disc_inv_def disc_val_def Let_def)
qed

definition ex_disc :: "nat Item_sum_percentile_disc" where
  "ex_disc = \<lparr>pd_partition_row_count = 0, pd_current_row_count = 0, pd_value = None, val_calculated = False,
     pd_first_call = True, pd_prev_value = 0\<rparr>"

theorem percentile_disc_correct_witness:
  "\<exists>k. 1 \<le> k \<and> k \<le> 3 \<and> disc_val (Some (1/2)) (disc_run (\<lambda>x. x) (1/2) [None, Some 10, Some 20, Some 30]
      (disc_set_partition_row_count 3 (disc_clear ex_disc))) = Some ([10, 20, 30] ! (k - 1))"
  using percentile_disc_correct [OF rounding_ok_id, of "1/2" "[None, Some 10, Some 20, Some 30 :: nat option]" 3 3 ex_disc]
  by (auto simp: non_null_def)

section \<open>PERCENTILE\_CONT interpolates between two values\<close>

definition cont_pos :: "(real \<Rightarrow> real) \<Rightarrow> nat \<Rightarrow> real \<Rightarrow> real" where
  "cont_pos rnd n p = rnd (1 + rnd (p * real (n - 1)))"

definition cont_run ::
    "(real \<Rightarrow> real) \<Rightarrow> real \<Rightarrow> real option list \<Rightarrow> Item_sum_percentile_cont \<Rightarrow> Item_sum_percentile_cont" where
  "cont_run rnd p items s = fold (\<lambda>item s. snd (cont_add rnd (Some p) item s)) items s"

lemma rounding_mono: "rounding_ok rnd \<Longrightarrow> x \<le> y \<Longrightarrow> rnd x \<le> rnd y"
  by (simp add: rounding_ok_def mono_def)

lemma cont_pos_bounds:
  assumes "rounding_ok rnd" "0 \<le> p" "p \<le> 1" "0 < n" "n \<le> 2 ^ 53"
  shows "1 \<le> cont_pos rnd n p" "cont_pos rnd n p \<le> real n"
    "1 \<le> nat \<lfloor>cont_pos rnd n p\<rfloor>" "nat \<lfloor>cont_pos rnd n p\<rfloor> \<le> nat \<lceil>cont_pos rnd n p\<rceil>" "nat \<lceil>cont_pos rnd n p\<rceil> \<le> n"
proof -
  have f: "0 \<le> rnd (p * real (n - 1))" "rnd (p * real (n - 1)) \<le> real (n - 1)"
    using rounding_fraction [OF assms(1-3), of "n - 1"] assms(5) by simp_all
  have "rnd 1 \<le> cont_pos rnd n p" unfolding cont_pos_def using f by (intro rounding_mono [OF assms(1)]) simp
  then show lo: "1 \<le> cont_pos rnd n p" using rounding_of_nat [OF assms(1), of 1] by simp
  have "1 + rnd (p * real (n - 1)) \<le> real n" using f(2) assms(4) by (simp add: of_nat_diff)
  then have "cont_pos rnd n p \<le> rnd (real n)" unfolding cont_pos_def by (rule rounding_mono [OF assms(1)])
  then show hi: "cont_pos rnd n p \<le> real n" using rounding_of_nat [OF assms(1,5)] by simp
  show "1 \<le> nat \<lfloor>cont_pos rnd n p\<rfloor>" using lo by linarith
  show "nat \<lfloor>cont_pos rnd n p\<rfloor> \<le> nat \<lceil>cont_pos rnd n p\<rceil>" by (rule nat_mono) (rule floor_le_ceiling)
  show "nat \<lceil>cont_pos rnd n p\<rceil> \<le> n" using hi by linarith
qed

lemma cont_row_eq:
  assumes "rounding_ok rnd" "unat (pc_partition_row_count s) = n" "0 < n" "n \<le> 2 ^ 53" "pc_prev_value s = p"
  shows "cont_row rnd s = cont_pos rnd n p"
proof -
  have "pc_partition_row_count s \<noteq> 0" using assms(2,3) by auto
  then have "unat (pc_partition_row_count s - 1) = n - 1" using assms(2) by (simp add: unat_minus_one)
  then have "sint (pc_partition_row_count s - 1) = int (n - 1)" using assms(4) by (subst sint_below) simp_all
  moreover have "rnd (real (n - 1)) = real (n - 1)" using assms(4) by (intro rounding_of_nat [OF assms(1)]) simp
  ultimately show ?thesis using assms(5) by (simp add: cont_row_def cont_pos_def)
qed

text \<open>The state after the values \<open>vs\<close>, where \<open>f\<close> and \<open>c\<close> are the rows around the position.\<close>

definition cont_inv :: "nat \<Rightarrow> nat \<Rightarrow> nat \<Rightarrow> real list \<Rightarrow> Item_sum_percentile_cont \<Rightarrow> bool" where
  "cont_inv n f c vs s \<longleftrightarrow>
     unat (pc_partition_row_count s) = n
     \<and> (length vs < c \<longrightarrow> unat (pc_current_row_count s) = length vs)
     \<and> (floor_val_calculated s \<longleftrightarrow> f \<le> length vs) \<and> (ceil_val_calculated s \<longleftrightarrow> c \<le> length vs)
     \<and> (f \<le> length vs \<longrightarrow> floor_value s = Some (vs ! (f - 1)))
     \<and> (f < c \<and> c \<le> length vs \<longrightarrow> ceil_value s = Some (vs ! (c - 1)))"

lemma cont_count_row_eq:
  assumes "rounding_ok rnd" "unat (pc_partition_row_count s) = n" "0 < n" "n \<le> 2 ^ 53" "pc_prev_value s = p"
    and "unat (pc_current_row_count s + 1) = r" "r \<le> 2 ^ 53"
    and "of_int \<lfloor>cont_pos rnd n p\<rfloor> = real f" "of_int \<lceil>cont_pos rnd n p\<rceil> = real c"
  shows "cont_count_row rnd s =
    s\<lparr>pc_current_row_count := pc_current_row_count s + 1, floor_val_calculated := floor_val_calculated s \<or> r = f,
      ceil_val_calculated := ceil_val_calculated s \<or> r = c\<rparr>"
proof -
  have pos: "cont_row rnd (s\<lparr>pc_current_row_count := pc_current_row_count s + 1\<rparr>) = cont_pos rnd n p"
    by (rule cont_row_eq [OF assms(1) _ assms(3,4)]) (use assms(2,5) in simp_all)
  have row: "rnd (real (unat (pc_current_row_count s + 1))) = real r"
    unfolding assms(6) by (rule rounding_of_nat [OF assms(1,7)])
  define t where "t = s\<lparr>pc_current_row_count := pc_current_row_count s + 1\<rparr>"
  have "cont_count_row rnd s =
      (let t = (if \<not> floor_val_calculated t \<and> r = f then t\<lparr>floor_val_calculated := True\<rparr> else t)
       in if \<not> ceil_val_calculated t \<and> r = c then t\<lparr>ceil_val_calculated := True\<rparr> else t)"
    unfolding cont_count_row_def Let_def pos assms(8,9) t_def using row by simp
  then show ?thesis by (auto simp: t_def Let_def)
qed

lemma cont_take_row_inv:
  assumes "rounding_ok rnd" "0 \<le> p" "p \<le> 1" "0 < n" "n \<le> 2 ^ 53"
    and "f = nat \<lfloor>cont_pos rnd n p\<rfloor>" "c = nat \<lceil>cont_pos rnd n p\<rceil>"
    and "cont_inv n f c (non_null items) s" "pc_prev_value s = p" "\<not> pc_first_call s"
  shows "cont_inv n f c (non_null (items @ [item])) (snd (cont_take_row rnd p item s))
    \<and> pc_prev_value (snd (cont_take_row rnd p item s)) = p \<and> \<not> pc_first_call (snd (cont_take_row rnd p item s))"
proof -
  define vs where "vs = non_null items"
  note b = cont_pos_bounds [OF assms(1-5), folded assms(6,7)]
  have inv: "cont_inv n f c vs s" using assms(8) by (simp add: vs_def)
  have n: "unat (pc_partition_row_count s) = n" using inv by (simp add: cont_inv_def)
  have fc: "of_int \<lfloor>cont_pos rnd n p\<rfloor> = real f" "of_int \<lceil>cont_pos rnd n p\<rceil> = real c"
    using b(1) assms(6,7) by (auto simp: le_nat_iff)
  show ?thesis
  proof (cases "item = None \<or> c \<le> length vs")
    case True
    then show ?thesis using inv b assms(9,10)
      by (cases item) (auto simp: cont_take_row_def cont_inv_def Let_def cont_count_row_def vs_def [symmetric] nth_append)
  next
    case False
    then obtain v where v: "item = Some v" and lt: "length vs < c" by auto
    have cur: "unat (pc_current_row_count s + 1) = length vs + 1"
      using inv lt b(5) assms(5) unat_add_lem [of "pc_current_row_count s" 1] by (simp add: cont_inv_def)
    have le: "length vs + 1 \<le> 2 ^ 53" using lt b(5) assms(5) by simp
    define s1 where "s1 = (if length vs < f then s\<lparr>floor_value := Some v\<rparr> else s\<lparr>ceil_value := Some v\<rparr>)"
    have flags: "floor_val_calculated s \<longleftrightarrow> f \<le> length vs" "\<not> ceil_val_calculated s" using inv lt by (simp_all add: cont_inv_def)
    then have "cont_take_row rnd p item s = (None, cont_count_row rnd s1)"
      using assms(9) v by (simp add: cont_take_row_def Let_def s1_def not_less)
    moreover have "cont_count_row rnd s1 =
        s1\<lparr>pc_current_row_count := pc_current_row_count s1 + 1, floor_val_calculated := floor_val_calculated s1 \<or> length vs + 1 = f,
          ceil_val_calculated := ceil_val_calculated s1 \<or> length vs + 1 = c\<rparr>"
      by (rule cont_count_row_eq [OF assms(1) _ assms(4,5) _ _ le fc]) (use n assms(9) cur in \<open>simp_all add: s1_def\<close>)
    moreover have "cont_inv n f c (vs @ [v]) (s1\<lparr>pc_current_row_count := pc_current_row_count s1 + 1,
        floor_val_calculated := floor_val_calculated s1 \<or> length vs + 1 = f, ceil_val_calculated := ceil_val_calculated s1 \<or> length vs + 1 = c\<rparr>)"
    proof (cases "length vs < f")
      case True
      then show ?thesis using inv lt b(4) cur flags by (auto simp: cont_inv_def s1_def nth_append)
    next
      case False
      then have "f - 1 < length vs" using b(3) by simp
      then show ?thesis using False inv lt b(4) cur flags by (auto simp: cont_inv_def s1_def nth_append)
    qed
    ultimately show ?thesis using v assms(9,10) by (simp add: vs_def s1_def)
  qed
qed

lemma cont_run_inv:
  assumes "rounding_ok rnd" "0 \<le> p" "p \<le> 1" "0 < n" "n \<le> 2 ^ 53" "unat m = n"
    and "f = nat \<lfloor>cont_pos rnd n p\<rfloor>" "c = nat \<lceil>cont_pos rnd n p\<rceil>"
  shows "cont_inv n f c (non_null items) (cont_run rnd p items (cont_set_partition_row_count m (cont_clear s)))
    \<and> (items \<noteq> [] \<longrightarrow> \<not> pc_first_call (cont_run rnd p items (cont_set_partition_row_count m (cont_clear s)))
        \<and> pc_prev_value (cont_run rnd p items (cont_set_partition_row_count m (cont_clear s))) = p)
    \<and> (items = [] \<longrightarrow> pc_first_call (cont_run rnd p items (cont_set_partition_row_count m (cont_clear s))))"
proof (induction items rule: rev_induct)
  case Nil
  then show ?case using assms(6) cont_pos_bounds(3,4) [OF assms(1-5)] assms(7,8)
    by (auto simp: cont_inv_def cont_run_def cont_clear_def cont_set_partition_row_count_def)
next
  case (snoc item items)
  define t where "t = cont_run rnd p items (cont_set_partition_row_count m (cont_clear s))"
  define t' where "t' = (if pc_first_call t then t\<lparr>pc_first_call := False, pc_prev_value := p\<rparr> else t)"
  have add: "cont_add rnd (Some p) item t = cont_take_row rnd p item t'"
    using assms(2,3) by (auto simp: cont_add_def Let_def t'_def)
  have "cont_inv n f c (non_null items) t" "items \<noteq> [] \<longrightarrow> \<not> pc_first_call t \<and> pc_prev_value t = p" "items = [] \<longrightarrow> pc_first_call t"
    using snoc unfolding t_def by blast+
  then have "cont_inv n f c (non_null items) t'" "pc_prev_value t' = p" "\<not> pc_first_call t'"
    by (cases "items = []"; simp add: t'_def cont_inv_def)+
  from cont_take_row_inv [OF assms(1-5,7,8) this, of item]
  show ?case using add by (simp add: cont_run_def t_def)
qed

text \<open>C17. \<^verbatim>\<open>PERCENTILE_CONT(p)\<close> over a partition with \<open>n\<close> values that are not null, with any number of nulls among
  them: with the position \<open>1 + p (n - 1)\<close>, as rounded by the machine, the result is the value of that row when the position
  is a whole number, and otherwise the rounded interpolation between the values of the rows below and above it. Both rows
  lie in the partition.\<close>

theorem percentile_cont_correct:
  assumes "rounding_ok rnd" "0 \<le> p" "p \<le> 1"
    and "length (non_null items) = n" "0 < n" "n \<le> 2 ^ 53" "unat m = n"
  defines "x \<equiv> cont_pos rnd n p" and "v k \<equiv> non_null items ! (nat k - 1)"
  shows "cont_val_real rnd (Some p) (cont_run rnd p items (cont_set_partition_row_count m (cont_clear s)))
      = Some (Some (if \<lceil>x\<rceil> = \<lfloor>x\<rfloor> then v \<lfloor>x\<rfloor>
          else rnd (rnd (rnd (x - of_int \<lfloor>x\<rfloor>) * v \<lceil>x\<rceil>) + rnd (rnd (of_int \<lceil>x\<rceil> - x) * v \<lfloor>x\<rfloor>))))
    \<and> 1 \<le> \<lfloor>x\<rfloor> \<and> \<lceil>x\<rceil> \<le> int n"
proof -
  define t where "t = cont_run rnd p items (cont_set_partition_row_count m (cont_clear s))"
  note b = cont_pos_bounds [OF assms(1-3,5,6), folded x_def]
  have ne: "items \<noteq> []" using assms(4,5) by auto
  have inv: "cont_inv n (nat \<lfloor>x\<rfloor>) (nat \<lceil>x\<rceil>) (non_null items) t" "pc_prev_value t = p"
    using cont_run_inv [OF assms(1-3,5-7) refl refl, of items s] ne by (simp_all add: t_def x_def)
  then have row: "cont_row rnd t = x" unfolding x_def
    by (intro cont_row_eq [OF assms(1) _ assms(5,6)]) (simp_all add: cont_inv_def)
  have f: "floor_value t = Some (v \<lfloor>x\<rfloor>)" using inv(1) b(4,5) assms(4) by (simp add: cont_inv_def v_def)
  have c: "ceil_value t = Some (v \<lceil>x\<rceil>)" if "\<lceil>x\<rceil> \<noteq> \<lfloor>x\<rfloor>"
  proof -
    have "nat \<lfloor>x\<rfloor> < nat \<lceil>x\<rceil>" using that b(1) floor_le_ceiling [of x] by linarith
    then show ?thesis using inv(1) b(5) assms(4) by (simp add: cont_inv_def v_def)
  qed
  have "pc_partition_row_count t \<noteq> 0" using inv(1) assms(5) by (auto simp: cont_inv_def)
  moreover have "1 \<le> \<lfloor>x\<rfloor>" "\<lceil>x\<rceil> \<le> int n" using b by linarith+
  ultimately show ?thesis using row f c unfolding t_def [symmetric] by (auto simp: cont_val_real_def Let_def)
qed

definition ex_cont :: Item_sum_percentile_cont where
  "ex_cont = \<lparr>pc_partition_row_count = 0, pc_current_row_count = 0, floor_value = None, ceil_value = None,
     pc_first_call = True, pc_prev_value = 0, floor_val_calculated = False, ceil_val_calculated = False\<rparr>"

theorem percentile_cont_correct_witness:
  "cont_val_real (\<lambda>x. x) (Some (1/4)) (cont_run (\<lambda>x. x) (1/4) [None, Some 10, Some 20, Some 30]
     (cont_set_partition_row_count 3 (cont_clear ex_cont))) = Some (Some 15)"
proof -
  have pos: "cont_pos (\<lambda>x. x) 3 (1/4) = 3/2" by (simp add: cont_pos_def)
  have vs: "non_null [None, Some 10, Some 20, Some (30 :: real)] = [10, 20, 30]" by (simp add: non_null_def)
  show ?thesis
    using percentile_cont_correct [OF rounding_ok_id, of "1/4" "[None, Some 10, Some 20, Some 30]" 3 3 ex_cont]
    unfolding pos vs by simp
qed

section \<open>Other functions\<close>

text \<open>\<^verbatim>\<open>PERCENT_RANK\<close> and \<^verbatim>\<open>CUME_DIST\<close> are numbers between 0 and 1 for every rounding, 0 for the first rank and 1
  for the last row, and null only for an empty partition.\<close>

theorem relative_ranks_bounds:
  assumes "rounding_ok rnd" "unat m = n" "0 < n" "n \<le> 2 ^ 53" "unat k = r" "1 \<le> r" "r \<le> n"
  shows "fst (calc_val_real rnd m k) = False \<and> 0 \<le> snd (calc_val_real rnd m k) \<and> snd (calc_val_real rnd m k) \<le> 1
    \<and> (r = n \<longrightarrow> snd (calc_val_real rnd m k) = 1)
    \<and> (let v = percent_rank_val_real rnd \<lparr>pr_partition_row_count = m, pr_cur_rank = k, pr_row_number = i\<rparr>
       in fst v = False \<and> 0 \<le> snd v \<and> snd v \<le> 1 \<and> (r = 1 \<longrightarrow> snd v = 0))"
proof -
  have unit: "0 \<le> rnd (rnd (real a) / rnd (real b)) \<and> rnd (rnd (real a) / rnd (real b)) \<le> 1
      \<and> (a = 0 \<longrightarrow> rnd (rnd (real a) / rnd (real b)) = 0) \<and> (a = b \<longrightarrow> rnd (rnd (real a) / rnd (real b)) = 1)"
    if "a \<le> b" "0 < b" "b \<le> 2 ^ 53" for a b
  proof -
    have "rnd 0 = 0" "rnd 1 = 1" using rounding_of_nat [OF assms(1), of 0] rounding_of_nat [OF assms(1), of 1] by simp_all
    moreover have "rnd (real a) = real a" "rnd (real b) = real b" using that by (simp_all add: rounding_of_nat [OF assms(1)])
    ultimately show ?thesis
      using rounding_mono [OF assms(1), of 0 "real a / real b"] rounding_mono [OF assms(1), of "real a / real b" 1] that by auto
  qed
  have "m \<noteq> 0" "k \<noteq> 0" using assms by auto
  then have um: "unat (m - 1) = n - 1" "unat (k - 1) = r - 1" using assms by (simp_all add: unat_minus_one)
  have "sint (k - 1) = int (r - 1)" using um(2) assms by (subst sint_below) simp_all
  moreover have "m > 1 \<longleftrightarrow> 1 < n" using assms(2) by (simp add: word_less_nat_alt)
  ultimately show ?thesis using unit [of r n] unit [of "r - 1" "n - 1"] um assms \<open>m \<noteq> 0\<close>
    by (auto simp: calc_val_real_def percent_rank_val_real_def Let_def word_neq_0_conv)
qed

theorem relative_ranks_bounds_witness: "snd (calc_val_real (\<lambda>x. x) 3 3) = 1"
  using relative_ranks_bounds [OF rounding_ok_id, of 3 3 3 3] by simp

text \<open>How the kinds of window functions fit together.\<close>

lemma window_kinds:
  "requires_partition_size f \<longrightarrow> is_frame_prohibited f" "requires_peer_size f \<longrightarrow> requires_partition_size f"
  "only_single_element_order_list f \<longrightarrow> is_order_list_mandatory f" "\<not> (is_frame_prohibited f \<and> requires_special_cursors f)"
  by (cases f; simp add: requires_partition_size_def is_frame_prohibited_def requires_peer_size_def
      only_single_element_order_list_def is_order_list_mandatory_def requires_special_cursors_def)+

text \<open>In every phase a value is null exactly if the item says so, and the phases read from nothing, from the
  function, and from the field.\<close>

lemma window_phases:
  "snd (wf_val_num zero field func (set_phase_to_initial w)) = (set_phase_to_initial w)\<lparr>wf_null_value := True\<rparr>"
  "fst (wf_val_num zero field func (set_phase_to_computation w)) = fst func"
  "fst (wf_val_num zero field func (set_phase_to_retrieval w)) = fst field"
  "wf_null_value (snd (wf_val_num zero field func w)) = wf_is_null (snd field) (snd func) w"
  "wf_null_value (snd (wf_val_ptr pfield pfunc w)) = wf_is_null (snd pfield) (snd pfunc) w"
  by (auto simp: wf_val_num_def wf_val_ptr_def wf_is_null_def set_phase_to_initial_def set_phase_to_computation_def
      set_phase_to_retrieval_def)

end
