(* ===== verification/Filesort.thy ===== *)
theory Filesort
  imports Byte_Order
begin

text \<open>
  The sort buffer of \<^verbatim>\<open>filesort\<close> (\<^verbatim>\<open>filesort_utils.h\<close>) and the layout of the records in it (\<^verbatim>\<open>sql_sort.h\<close>): merge chunks,
  packed sort keys, packed addon fields, and the lengths that are read back from a record.

  In the buffer, addresses are integers, 0 is the null pointer, and \<open>pm\<close> holds the pointers that are stored at the 8-byte
  cells of the buffer. The records grow from its start, the pointers to them from its end. Sizes of 32 and 64 bits wrap.
\<close>

section \<open>The sort buffer\<close>

type_synonym cells = "int \<Rightarrow> int"

record Filesort_buffer =
  m_next_rec_ptr :: int
  m_rawmem :: int
  m_record_pointers :: int
  m_sort_keys :: int
  m_num_records :: uint32
  m_record_length :: uint32
  m_sort_length :: uint32
  m_size_in_bytes :: ulonglong
  m_idx :: int

definition mk_Filesort_buffer :: Filesort_buffer where
  "mk_Filesort_buffer =
     \<lparr>m_next_rec_ptr = 0, m_rawmem = 0, m_record_pointers = 0, m_sort_keys = 0, m_num_records = 0, m_record_length = 0,
      m_sort_length = 0, m_size_in_bytes = 0, m_idx = 0\<rparr>"

definition get_sort_keys :: "Filesort_buffer \<Rightarrow> int" where
  "get_sort_keys b = (if m_idx b = 0 then 0 else m_record_pointers b + 8 * (1 - m_idx b))"

function reverse_loop :: "int \<Rightarrow> int \<Rightarrow> int \<Rightarrow> cells \<Rightarrow> cells" where
  "reverse_loop keys count ix pm =
     (if ix \<le> count div 2
      then let tmp = pm (keys + 8 * (count - ix));
               pm = pm(keys + 8 * (count - ix) := pm (keys + 8 * ix));
               pm = pm(keys + 8 * ix := tmp)
           in reverse_loop keys count (ix + 1) pm
      else pm)"
  by auto
termination by (relation "measure (\<lambda>(keys, count, ix, pm). nat (count div 2 + 1 - ix))") auto

definition reverse_record_pointers :: "Filesort_buffer \<Rightarrow> cells \<Rightarrow> cells" where
  "reverse_record_pointers b pm =
     (if m_idx b < 2 then pm else reverse_loop (get_sort_keys b) (m_idx b - 1) 0 pm)"

definition init_next_record_pointer :: "Filesort_buffer \<Rightarrow> Filesort_buffer" where
  "init_next_record_pointer b = b\<lparr>m_idx := 0, m_next_rec_ptr := m_rawmem b, m_sort_keys := 0\<rparr>"

definition get_next_record_pointer :: "Filesort_buffer \<Rightarrow> cells \<Rightarrow> int \<times> Filesort_buffer \<times> cells" where
  "get_next_record_pointer b pm =
     (let retval = m_next_rec_ptr b;
          pm = pm(m_record_pointers b + 8 * (- m_idx b) := m_next_rec_ptr b);
          b = b\<lparr>m_idx := m_idx b + 1\<rparr>;
          b = b\<lparr>m_next_rec_ptr := m_next_rec_ptr b + uint (m_record_length b)\<rparr>
      in (retval, b, pm))"

function init_loop :: "Filesort_buffer \<Rightarrow> cells \<Rightarrow> Filesort_buffer \<times> cells" where
  "init_loop b pm =
     (if m_idx b < uint (m_num_records b)
      then let (_, b, pm) = get_next_record_pointer b pm in init_loop b pm
      else (b, pm))"
  by auto
termination
  by (relation "measure (\<lambda>(b, pm). nat (uint (m_num_records b) - m_idx b))") (auto simp: get_next_record_pointer_def Let_def)

definition init_record_pointers :: "Filesort_buffer \<Rightarrow> cells \<Rightarrow> Filesort_buffer \<times> cells" where
  "init_record_pointers b pm =
     (let (b, pm) = init_loop (init_next_record_pointer b) pm in (b, reverse_record_pointers b pm))"

definition space_used_for_data :: "Filesort_buffer \<Rightarrow> int" where
  "space_used_for_data b = (if m_next_rec_ptr b \<noteq> 0 then m_next_rec_ptr b - m_rawmem b else 0)"

definition spaceleft :: "Filesort_buffer \<Rightarrow> ulonglong" where
  "spaceleft b =
     (let spaceused = word_of_int (m_next_rec_ptr b - m_rawmem b) + word_of_int (m_idx b) * 8
      in m_size_in_bytes b - spaceused)"

definition isfull :: "Filesort_buffer \<Rightarrow> bool" where
  "isfull b =
     (if m_idx b < uint (m_num_records b) then False else spaceleft b < ucast (m_record_length b) + 8)"

definition adjust_next_record_pointer :: "uint32 \<Rightarrow> Filesort_buffer \<Rightarrow> Filesort_buffer" where
  "adjust_next_record_pointer val b = b\<lparr>m_next_rec_ptr := m_next_rec_ptr b - uint (m_record_length b - val)\<rparr>"

definition sort_buffer_size :: "Filesort_buffer \<Rightarrow> ulonglong" where
  "sort_buffer_size b = m_size_in_bytes b"

definition is_allocated :: "Filesort_buffer \<Rightarrow> bool" where
  "is_allocated b \<longleftrightarrow> m_rawmem b \<noteq> 0"

definition reset_buffer :: "Filesort_buffer \<Rightarrow> Filesort_buffer" where
  "reset_buffer b = b\<lparr>m_rawmem := 0\<rparr>"

definition get_sorted_record :: "Filesort_buffer \<Rightarrow> cells \<Rightarrow> nat \<Rightarrow> int" where
  "get_sorted_record b pm ix = pm (m_sort_keys b + 8 * int ix)"

definition get_raw_buf :: "Filesort_buffer \<Rightarrow> int \<times> ulonglong" where
  "get_raw_buf b = (m_rawmem b, m_size_in_bytes b)"

definition set_buffer_sort_length :: "uint32 \<Rightarrow> Filesort_buffer \<Rightarrow> Filesort_buffer" where
  "set_buffer_sort_length val b = b\<lparr>m_sort_length := val\<rparr>"

section \<open>Merge chunks\<close>

record Merge_chunk =
  m_current_key :: int
  m_file_position :: ulonglong
  m_buffer_start :: int
  m_buffer_end :: int
  m_rowcount :: ulonglong
  m_mem_count :: ulonglong
  m_max_keys :: ulonglong

definition mk_Merge_chunk :: Merge_chunk where
  "mk_Merge_chunk =
     \<lparr>m_current_key = 0, m_file_position = 0, m_buffer_start = 0, m_buffer_end = 0, m_rowcount = 0, m_mem_count = 0,
      m_max_keys = 0\<rparr>"

definition set_file_position :: "ulonglong \<Rightarrow> Merge_chunk \<Rightarrow> Merge_chunk" where
  "set_file_position val c = c\<lparr>m_file_position := val\<rparr>"

definition advance_file_position :: "ulonglong \<Rightarrow> Merge_chunk \<Rightarrow> Merge_chunk" where
  "advance_file_position val c = c\<lparr>m_file_position := m_file_position c + val\<rparr>"

definition set_buffer :: "int \<Rightarrow> int \<Rightarrow> Merge_chunk \<Rightarrow> Merge_chunk" where
  "set_buffer start stop c = c\<lparr>m_buffer_start := start, m_buffer_end := stop\<rparr>"

definition set_buffer_start :: "int \<Rightarrow> Merge_chunk \<Rightarrow> Merge_chunk" where
  "set_buffer_start start c = c\<lparr>m_buffer_start := start\<rparr>"

text \<open>The assertion that a buffer is only shortened is an absent result.\<close>

definition set_buffer_end :: "int \<Rightarrow> Merge_chunk \<Rightarrow> Merge_chunk option" where
  "set_buffer_end stop c =
     (if m_buffer_end c = 0 \<or> stop \<le> m_buffer_end c then Some (c\<lparr>m_buffer_end := stop\<rparr>) else None)"

definition init_current_key :: "Merge_chunk \<Rightarrow> Merge_chunk" where
  "init_current_key c = c\<lparr>m_current_key := m_buffer_start c\<rparr>"

definition advance_current_key :: "uint32 \<Rightarrow> Merge_chunk \<Rightarrow> Merge_chunk" where
  "advance_current_key val c = c\<lparr>m_current_key := m_current_key c + uint val\<rparr>"

definition decrement_rowcount :: "ulonglong \<Rightarrow> Merge_chunk \<Rightarrow> Merge_chunk" where
  "decrement_rowcount val c = c\<lparr>m_rowcount := m_rowcount c - val\<rparr>"

definition set_rowcount :: "ulonglong \<Rightarrow> Merge_chunk \<Rightarrow> Merge_chunk" where
  "set_rowcount val c = c\<lparr>m_rowcount := val\<rparr>"

definition set_mem_count :: "ulonglong \<Rightarrow> Merge_chunk \<Rightarrow> Merge_chunk" where
  "set_mem_count val c = c\<lparr>m_mem_count := val\<rparr>"

definition decrement_mem_count :: "Merge_chunk \<Rightarrow> ulonglong \<times> Merge_chunk" where
  "decrement_mem_count c = (let c = c\<lparr>m_mem_count := m_mem_count c - 1\<rparr> in (m_mem_count c, c))"

definition set_max_keys :: "ulonglong \<Rightarrow> Merge_chunk \<Rightarrow> Merge_chunk" where
  "set_max_keys val c = c\<lparr>m_max_keys := val\<rparr>"

definition buffer_size :: "Merge_chunk \<Rightarrow> int" where
  "buffer_size c = m_buffer_end c - m_buffer_start c"

definition merge_freed_buff :: "Merge_chunk \<Rightarrow> Merge_chunk \<Rightarrow> bool \<times> Merge_chunk" where
  "merge_freed_buff mc c =
     (if m_buffer_end mc = m_buffer_start c
      then (True, mc\<lparr>m_buffer_end := m_buffer_end c, m_max_keys := m_max_keys mc + m_max_keys c\<rparr>)
      else if m_buffer_start mc = m_buffer_end c
      then (True, mc\<lparr>m_buffer_start := m_buffer_start c, m_max_keys := m_max_keys mc + m_max_keys c\<rparr>)
      else (False, mc))"

section \<open>Lengths of packed records\<close>

record Addon_fields =
  m_addon_buf :: int
  m_addon_buf_length :: uint32
  af_using_packed_addons :: bool

definition mk_Addon_fields :: Addon_fields where
  "mk_Addon_fields = \<lparr>m_addon_buf = 0, m_addon_buf_length = 0, af_using_packed_addons = False\<rparr>"

text \<open>\<open>malloc\<close> is the address that \<^verbatim>\<open>my_malloc\<close> returns, 0 when it fails.\<close>

definition allocate_addon_buf :: "int \<Rightarrow> uint32 \<Rightarrow> Addon_fields \<Rightarrow> int \<times> Addon_fields" where
  "allocate_addon_buf malloc sz a =
     (let a = a\<lparr>m_addon_buf := malloc\<rparr>;
          a = (if m_addon_buf a \<noteq> 0 then a\<lparr>m_addon_buf_length := sz\<rparr> else a)
      in (m_addon_buf a, a))"

definition free_addon_buff :: "Addon_fields \<Rightarrow> Addon_fields" where
  "free_addon_buff a = a\<lparr>m_addon_buf := 0, m_addon_buf_length := 0\<rparr>"

definition set_using_packed_addons :: "bool \<Rightarrow> Addon_fields \<Rightarrow> Addon_fields" where
  "set_using_packed_addons val a = a\<lparr>af_using_packed_addons := val\<rparr>"

definition can_pack_addon_fields :: "uint32 \<Rightarrow> bool" where
  "can_pack_addon_fields record_length \<longleftrightarrow> record_length \<le> 0xFFFF"

definition addon_size_of_length_field :: uint32 where "addon_size_of_length_field = 2"

definition read_addon_length :: "mem \<Rightarrow> nat \<Rightarrow> uint32" where
  "read_addon_length m p = addon_size_of_length_field + ucast (uint2korr_x86_64 m p)"

definition store_addon_length :: "mem \<Rightarrow> nat \<Rightarrow> uint32 \<Rightarrow> mem" where
  "store_addon_length m p sz = int2store_x86_64 m p (sz - addon_size_of_length_field)"

record Sort_keys =
  sk_using_packed_sortkeys :: bool
  size_of_packable_fields :: uint32
  sort_length_with_original_values :: uint32
  sort_length_with_memcmp_values :: uint32
  parameters_computed :: bool

definition mk_Sort_keys :: Sort_keys where
  "mk_Sort_keys =
     \<lparr>sk_using_packed_sortkeys = False, size_of_packable_fields = 0, sort_length_with_original_values = 0,
      sort_length_with_memcmp_values = 0, parameters_computed = False\<rparr>"

definition set_using_packed_sortkeys :: "bool \<Rightarrow> Sort_keys \<Rightarrow> Sort_keys" where
  "set_using_packed_sortkeys val k = k\<lparr>sk_using_packed_sortkeys := val\<rparr>"

definition set_size_of_packable_fields :: "uint32 \<Rightarrow> Sort_keys \<Rightarrow> Sort_keys" where
  "set_size_of_packable_fields len k = k\<lparr>size_of_packable_fields := len\<rparr>"

definition set_sort_length_with_original_values :: "uint32 \<Rightarrow> Sort_keys \<Rightarrow> Sort_keys" where
  "set_sort_length_with_original_values len k = k\<lparr>sort_length_with_original_values := len\<rparr>"

definition set_sort_length_with_memcmp_values :: "uint32 \<Rightarrow> Sort_keys \<Rightarrow> Sort_keys" where
  "set_sort_length_with_memcmp_values len k = k\<lparr>sort_length_with_memcmp_values := len\<rparr>"

definition increment_size_of_packable_fields :: "uint32 \<Rightarrow> Sort_keys \<Rightarrow> Sort_keys" where
  "increment_size_of_packable_fields len k = k\<lparr>size_of_packable_fields := size_of_packable_fields k + len\<rparr>"

definition increment_original_sort_length :: "uint32 \<Rightarrow> Sort_keys \<Rightarrow> Sort_keys" where
  "increment_original_sort_length len k =
     k\<lparr>sort_length_with_original_values := sort_length_with_original_values k + len\<rparr>"

definition set_parameters_computed :: "bool \<Rightarrow> Sort_keys \<Rightarrow> Sort_keys" where
  "set_parameters_computed val k = k\<lparr>parameters_computed := val\<rparr>"

definition sortkey_size_of_length_field :: uint32 where "sortkey_size_of_length_field = 4"

definition store_sortkey_length :: "mem \<Rightarrow> nat \<Rightarrow> uint32 \<Rightarrow> mem" where
  "store_sortkey_length m p sz = int4store_x86_64 m p (sz - sortkey_size_of_length_field)"

definition read_sortkey_length :: "mem \<Rightarrow> nat \<Rightarrow> uint32" where
  "read_sortkey_length m p = sortkey_size_of_length_field + uint4korr_x86_64 m p"

text \<open>The members of \<^verbatim>\<open>Sort_param\<close> on which the lengths depend. \<open>has_addon_fields\<close> says that the pointer \<^verbatim>\<open>addon_fields\<close> is
  not null.\<close>

record Sort_param =
  rec_length :: uint32
  sort_length :: uint32
  addon_length :: uint32
  res_length :: uint32
  has_addon_fields :: bool
  m_using_packed_addons :: bool
  m_using_packed_sortkeys :: bool
  m_packed_format :: bool

definition using_addon_fields :: "Sort_param \<Rightarrow> bool" where
  "using_addon_fields s \<longleftrightarrow> has_addon_fields s"

definition get_result_length :: "Sort_param \<Rightarrow> mem \<Rightarrow> nat \<Rightarrow> uint32" where
  "get_result_length s m plen = (if \<not> m_using_packed_addons s then res_length s else read_addon_length m plen)"

definition get_addon_length :: "Sort_param \<Rightarrow> mem \<Rightarrow> nat \<Rightarrow> uint32" where
  "get_addon_length s m plen = (if m_using_packed_addons s then read_addon_length m plen else addon_length s)"

definition get_sort_length :: "Sort_param \<Rightarrow> mem \<Rightarrow> nat \<Rightarrow> uint32" where
  "get_sort_length s m plen =
     (if m_using_packed_sortkeys s
      then read_sortkey_length m plen + (if using_addon_fields s then 0 else res_length s)
      else sort_length s)"

definition get_record_length :: "Sort_param \<Rightarrow> mem \<Rightarrow> nat \<Rightarrow> uint32" where
  "get_record_length s m plen =
     (if m_packed_format s
      then let sort_len = get_sort_length s m plen in sort_len + get_addon_length s m (plen + unat sort_len)
      else rec_length s)"

definition get_rec_and_res_len :: "Sort_param \<Rightarrow> mem \<Rightarrow> nat \<Rightarrow> uint32 \<times> uint32" where
  "get_rec_and_res_len s m record_start =
     (if m_packed_format s
      then let sort_len = get_sort_length s m record_start;
               addon_len = get_addon_length s m (record_start + unat sort_len)
           in (sort_len + addon_len, if using_addon_fields s then addon_len else res_length s)
      else (rec_length s, res_length s))"

datatype compare_function = Packed_keys_compare | Ptr_compare uint32

definition get_compare_function :: "Sort_param \<Rightarrow> compare_function" where
  "get_compare_function s = (if m_using_packed_sortkeys s then Packed_keys_compare else Ptr_compare (sort_length s))"

declare reverse_loop.simps [simp del] init_loop.simps [simp del]

section \<open>The buffer holds records and pointers apart\<close>

text \<open>What \<^verbatim>\<open>alloc_sort_buffer\<close> promises: room for the given number of records and pointers, with the array of pointers
  at the end of the buffer.\<close>

definition buffer_ok :: "Filesort_buffer \<Rightarrow> bool" where
  "buffer_ok b \<longleftrightarrow>
     0 < m_rawmem b \<and> uint (m_num_records b) * (uint (m_record_length b) + 8) \<le> uint (m_size_in_bytes b)
     \<and> m_record_pointers b + 8 = m_rawmem b + uint (m_size_in_bytes b)"

definition rec_start :: "Filesort_buffer \<Rightarrow> uint32 list \<Rightarrow> nat \<Rightarrow> int" where
  "rec_start b lens i = m_rawmem b + (\<Sum>l \<leftarrow> take i lens. uint l)"

definition fb_holds :: "Filesort_buffer \<Rightarrow> cells \<Rightarrow> uint32 list \<Rightarrow> bool" where
  "fb_holds b pm lens \<longleftrightarrow>
     buffer_ok b \<and> m_idx b = int (length lens) \<and> (\<forall>l \<in> set lens. l \<le> m_record_length b)
     \<and> m_next_rec_ptr b = rec_start b lens (length lens)
     \<and> (\<forall>i < length lens. pm (m_record_pointers b - 8 * int i) = rec_start b lens i)
     \<and> m_next_rec_ptr b + 8 * m_idx b \<le> m_rawmem b + uint (m_size_in_bytes b)"

text \<open>The caller: as long as the buffer is not full, a record is requested, written, and adjusted to its real length.\<close>

fun fill :: "uint32 list \<Rightarrow> Filesort_buffer \<Rightarrow> cells \<Rightarrow> nat \<times> Filesort_buffer \<times> cells" where
  "fill [] b pm = (0, b, pm)"
| "fill (v # vs) b pm =
     (if isfull b then (0, b, pm)
      else let (_, b, pm) = get_next_record_pointer b pm;
               (n, b, pm) = fill vs (adjust_next_record_pointer v b) pm
           in (Suc n, b, pm))"

lemma sum_lens_le: "\<forall>l \<in> set lens. l \<le> r \<Longrightarrow> (\<Sum>l \<leftarrow> lens. uint l) \<le> int (length lens) * uint (r :: uint32)"
  by (induction lens) (auto simp: word_le_def algebra_simps)

lemma sum_lens_nonneg: "0 \<le> (\<Sum>l \<leftarrow> lens. uint (l :: uint32))"
  by (induction lens) auto

lemma uint_spaceleft:
  assumes "fb_holds b pm lens"
  shows "uint (spaceleft b) = uint (m_size_in_bytes b) - (m_next_rec_ptr b - m_rawmem b + 8 * m_idx b)"
proof -
  define used where "used = m_next_rec_ptr b - m_rawmem b + 8 * m_idx b"
  have "0 \<le> used" "used \<le> uint (m_size_in_bytes b)"
    using assms sum_lens_nonneg [of lens] by (auto simp: fb_holds_def used_def rec_start_def)
  then have "(uint (m_size_in_bytes b) - used) mod 2 ^ 64 = uint (m_size_in_bytes b) - used"
    using uint_lt2p [of "m_size_in_bytes b"] by (intro mod_pos_pos_trivial) auto
  moreover have "spaceleft b = word_of_int (uint (m_size_in_bytes b) - used)"
    by (simp add: spaceleft_def Let_def used_def algebra_simps)
  then have "uint (spaceleft b) = (uint (m_size_in_bytes b) - used) mod 2 ^ 64"
    by (simp only: uint_word_of_int) simp
  ultimately show ?thesis unfolding used_def by simp
qed

lemma room_unless_full:
  assumes h: "fb_holds b pm lens" and f: "\<not> isfull b"
  shows "m_next_rec_ptr b + uint (m_record_length b) + 8 * (m_idx b + 1) \<le> m_rawmem b + uint (m_size_in_bytes b)"
proof (cases "m_idx b < uint (m_num_records b)")
  case True
  have "m_next_rec_ptr b - m_rawmem b \<le> m_idx b * uint (m_record_length b)"
    using h sum_lens_le [of lens "m_record_length b"] by (auto simp: fb_holds_def rec_start_def)
  moreover have "(m_idx b + 1) * (uint (m_record_length b) + 8) \<le> uint (m_num_records b) * (uint (m_record_length b) + 8)"
    using True by (intro mult_right_mono) auto
  ultimately show ?thesis using h by (simp add: fb_holds_def buffer_ok_def algebra_simps)
next
  case False
  have "uint (ucast (m_record_length b) + 8 :: ulonglong) = uint (m_record_length b) + 8"
    using uint_lt2p [of "m_record_length b"] by (simp add: uint_word_ariths unsigned_ucast_eq take_bit_int_eq_self)
  then show ?thesis using False f uint_spaceleft [OF h] by (auto simp: isfull_def word_less_def)
qed

lemma rec_start_snoc:
  "i \<le> length lens \<Longrightarrow> rec_start b (lens @ [v]) i = rec_start b lens i"
  "rec_start b (lens @ [v]) (Suc (length lens)) = rec_start b lens (length lens) + uint v"
  by (simp_all add: rec_start_def)

lemma fill_step:
  assumes h: "fb_holds b pm lens" and f: "\<not> isfull b" and v: "v \<le> m_record_length b"
    and g: "get_next_record_pointer b pm = (r, b', pm')"
  shows "fb_holds (adjust_next_record_pointer v b') pm' (lens @ [v])" "r = m_next_rec_ptr b"
    "c < m_record_pointers b - 8 * m_idx b \<Longrightarrow> pm' c = pm c"
proof -
  have u: "uint (m_record_length b - v) = uint (m_record_length b) - uint v"
    using v by (simp add: uint_sub_if' word_le_def)
  have b': "adjust_next_record_pointer v b' =
      b\<lparr>m_idx := m_idx b + 1, m_next_rec_ptr := m_next_rec_ptr b + uint v\<rparr>"
    "pm' = pm(m_record_pointers b - 8 * m_idx b := m_next_rec_ptr b)" "r = m_next_rec_ptr b"
    using g u by (auto simp: get_next_record_pointer_def adjust_next_record_pointer_def Let_def)
  have "rec_start (b\<lparr>m_idx := i, m_next_rec_ptr := p\<rparr>) = rec_start b" for i p by (simp add: rec_start_def fun_eq_iff)
  then show "fb_holds (adjust_next_record_pointer v b') pm' (lens @ [v])"
    using h v room_unless_full [OF h f] v [unfolded word_le_def]
    by (auto simp: fb_holds_def b' buffer_ok_def rec_start_snoc less_Suc_eq)
  show "r = m_next_rec_ptr b" "c < m_record_pointers b - 8 * m_idx b \<Longrightarrow> pm' c = pm c" by (auto simp: b')
qed

lemma fill_holds:
  assumes "fb_holds b pm lens" "\<forall>v \<in> set vals. v \<le> m_record_length b" "fill vals b pm = (n, b', pm')"
  shows "fb_holds b' pm' (lens @ take n vals) \<and> n \<le> length vals \<and> (n < length vals \<longrightarrow> isfull b')
    \<and> m_rawmem b' = m_rawmem b \<and> m_size_in_bytes b' = m_size_in_bytes b \<and> m_record_length b' = m_record_length b
    \<and> m_num_records b' = m_num_records b \<and> m_record_pointers b' = m_record_pointers b"
  using assms
proof (induction vals arbitrary: b pm lens n)
  case (Cons v vs)
  obtain r b1 pm1 where g: "get_next_record_pointer b pm = (r, b1, pm1)" by (cases "get_next_record_pointer b pm") auto
  then have eqs: "m_rawmem b1 = m_rawmem b" "m_size_in_bytes b1 = m_size_in_bytes b" "m_record_length b1 = m_record_length b"
    "m_num_records b1 = m_num_records b" "m_record_pointers b1 = m_record_pointers b"
    by (auto simp: get_next_record_pointer_def Let_def)
  show ?case
  proof (cases "isfull b")
    case True
    then show ?thesis using Cons.prems by auto
  next
    case False
    then obtain k where k: "fill vs (adjust_next_record_pointer v b1) pm1 = (k, b', pm')" "n = Suc k"
      using Cons.prems(3) g by (auto split: prod.splits)
    have "fb_holds (adjust_next_record_pointer v b1) pm1 (lens @ [v])"
      using fill_step(1) [OF Cons.prems(1) False _ g] Cons.prems(2) by simp
    from Cons.IH [OF this _ k(1)] show ?thesis using Cons.prems(2) eqs k(2)
      by (simp add: adjust_next_record_pointer_def)
  qed
qed simp

lemma init_holds: "buffer_ok b \<Longrightarrow> fb_holds (init_next_record_pointer b) pm []"
  by (simp add: fb_holds_def buffer_ok_def init_next_record_pointer_def rec_start_def)

text \<open>Cell by cell, the loop exchanges the part of the array that it has not reached yet with its mirror image.\<close>

lemma reverse_loop_cells:
  "0 \<le> ix \<Longrightarrow> reverse_loop keys count ix pm (keys + 8 * k) =
     (if ix \<le> k \<and> k \<le> count - ix then pm (keys + 8 * (count - k)) else pm (keys + 8 * k))"
proof (induction keys count ix pm rule: reverse_loop.induct)
  case (1 keys count ix pm)
  show ?case
  proof (cases "ix \<le> count div 2")
    case True
    define pm1 where "pm1 = (pm(keys + 8 * (count - ix) := pm (keys + 8 * ix)))(keys + 8 * ix := pm (keys + 8 * (count - ix)))"
    have "reverse_loop keys count ix pm (keys + 8 * k) = reverse_loop keys count (ix + 1) pm1 (keys + 8 * k)"
      using True by (simp add: reverse_loop.simps [of keys count ix pm] pm1_def Let_def)
    also have "\<dots> = (if ix + 1 \<le> k \<and> k \<le> count - (ix + 1) then pm1 (keys + 8 * (count - k)) else pm1 (keys + 8 * k))"
      unfolding pm1_def using 1(2) by (intro 1(1) [OF True refl refl refl]) simp
    finally show ?thesis using True by (auto simp: pm1_def)
  next
    case False
    then have "\<not> (ix \<le> k \<and> k \<le> count - ix)" by linarith
    with False show ?thesis by (simp only: reverse_loop.simps [of keys count ix pm] if_False)
  qed
qed

lemma reverse_record_pointers_cells:
  assumes "0 \<le> k" "k < m_idx b"
  shows "reverse_record_pointers b pm (get_sort_keys b + 8 * k) = pm (m_record_pointers b - 8 * k)"
proof (cases "m_idx b < 2")
  case True
  then have "m_idx b = 1" "k = 0" using assms by auto
  then show ?thesis by (simp add: reverse_record_pointers_def get_sort_keys_def)
next
  case False
  then show ?thesis using assms
    by (simp add: reverse_record_pointers_def reverse_loop_cells) (simp add: get_sort_keys_def algebra_simps)
qed

text \<open>C6. Whatever records a caller puts into a fresh sort buffer, as long as none is longer than the record length: the
  buffer accepts at least the number of records it was allocated for, and more when they are shorter; a request never
  fails for lack of room while the buffer says it is not full. The records lie one after the other without gaps, they end
  below the pointers to them, and after the reversal the array of sort keys points to them in the order in which they
  came.\<close>

theorem filesort_buffer_packs:
  assumes "buffer_ok b" "\<forall>v \<in> set vals. v \<le> m_record_length b"
    and "fill vals (init_next_record_pointer b) pm = (n, b', pm')"
  defines "lens \<equiv> take n vals" and "limit \<equiv> m_rawmem b + uint (m_size_in_bytes b)"
  shows "min (length vals) (unat (m_num_records b)) \<le> n \<and> n \<le> length vals \<and> (n < length vals \<longrightarrow> isfull b')
    \<and> (\<forall>i < n. reverse_record_pointers b' pm' (get_sort_keys b' + 8 * int i) = rec_start b lens i
        \<and> rec_start b lens (Suc i) = rec_start b lens i + uint (vals ! i))
    \<and> rec_start b lens n + 8 * int n \<le> limit \<and> (0 < n \<longrightarrow> rec_start b lens n \<le> get_sort_keys b')
    \<and> (\<not> isfull b' \<longrightarrow> rec_start b lens n + uint (m_record_length b) + 8 * (int n + 1) \<le> limit)"
proof -
  have f: "fb_holds b' pm' lens" "n \<le> length vals" "n < length vals \<longrightarrow> isfull b'"
    "m_rawmem b' = m_rawmem b" "m_size_in_bytes b' = m_size_in_bytes b" "m_record_length b' = m_record_length b"
    "m_num_records b' = m_num_records b" "m_record_pointers b' = m_record_pointers b"
    using fill_holds [OF init_holds [OF assms(1)] _ assms(3)] assms(2)
    by (auto simp: lens_def init_next_record_pointer_def)
  have r: "rec_start b' lens = rec_start b lens" by (simp add: rec_start_def fun_eq_iff f(4))
  have n: "length lens = n" using f(2) by (simp add: lens_def)
  have idx: "m_idx b' = int n" using f(1) n by (simp add: fb_holds_def)
  have "unat (m_num_records b) \<le> n" if "isfull b'"
  proof -
    have "uint (m_num_records b) \<le> int n" using that idx f(7) by (simp add: isfull_def split: if_splits)
    then show ?thesis by (simp add: nat_le_iff flip: nat_uint_eq)
  qed
  moreover have "reverse_record_pointers b' pm' (get_sort_keys b' + 8 * int i) = rec_start b lens i" if "i < n" for i
    using reverse_record_pointers_cells [of "int i" b' pm'] that f(1) idx n by (simp add: fb_holds_def r)
  moreover have "rec_start b lens (Suc i) = rec_start b lens i + uint (vals ! i)" if "i < n" for i
    using that n by (simp add: rec_start_def take_Suc_conv_app_nth) (simp add: lens_def)
  moreover have "rec_start b lens n + 8 * int n \<le> limit" "buffer_ok b'"
    using f(1) n r by (auto simp: fb_holds_def limit_def f(4,5))
  moreover from this have "0 < n \<longrightarrow> rec_start b lens n \<le> get_sort_keys b'"
    using idx by (auto simp: get_sort_keys_def buffer_ok_def limit_def f(4,5))
  moreover have "\<not> isfull b' \<longrightarrow> rec_start b lens n + uint (m_record_length b) + 8 * (int n + 1) \<le> limit"
    using room_unless_full [OF f(1)] f(1) n by (auto simp: fb_holds_def limit_def f(4-6) r idx)
  ultimately show ?thesis using f(2,3) by auto
qed

lemma init_loop_holds:
  assumes "m_idx b = int k" "k \<le> unat (m_num_records b)"
    and "m_next_rec_ptr b = m_rawmem b + int k * uint (m_record_length b)"
    and "\<forall>i < k. pm (m_record_pointers b - 8 * int i) = m_rawmem b + int i * uint (m_record_length b)"
    and "init_loop b pm = (b', pm')"
  shows "b' = b\<lparr>m_idx := uint (m_num_records b),
                 m_next_rec_ptr := m_rawmem b + uint (m_num_records b) * uint (m_record_length b)\<rparr>
    \<and> (\<forall>i < unat (m_num_records b). pm' (m_record_pointers b - 8 * int i) = m_rawmem b + int i * uint (m_record_length b))"
  using assms
proof (induction b pm arbitrary: k rule: init_loop.induct)
  case (1 b pm)
  obtain r b1 pm1 where g: "get_next_record_pointer b pm = (r, b1, pm1)" by (cases "get_next_record_pointer b pm") auto
  then have eqs: "b1 = b\<lparr>m_idx := m_idx b + 1, m_next_rec_ptr := m_next_rec_ptr b + uint (m_record_length b)\<rparr>"
    "pm1 = pm(m_record_pointers b - 8 * m_idx b := m_next_rec_ptr b)"
    by (auto simp: get_next_record_pointer_def Let_def)
  have u: "uint (m_num_records b) = int (unat (m_num_records b))" by simp
  show ?case
  proof (cases "m_idx b < uint (m_num_records b)")
    case True
    then have "Suc k \<le> unat (m_num_records b)" using 1(2) u by linarith
    moreover have l: "init_loop b1 pm1 = (b', pm')" using 1(6) True g by (simp add: init_loop.simps [of b pm])
    moreover have "m_idx b1 = int (Suc k)" "m_next_rec_ptr b1 = m_rawmem b1 + int (Suc k) * uint (m_record_length b1)"
      "\<forall>i < Suc k. pm1 (m_record_pointers b1 - 8 * int i) = m_rawmem b1 + int i * uint (m_record_length b1)"
      using 1(2,4,5) by (auto simp: eqs less_Suc_eq algebra_simps)
    ultimately have "b' = b1\<lparr>m_idx := uint (m_num_records b1),
                 m_next_rec_ptr := m_rawmem b1 + uint (m_num_records b1) * uint (m_record_length b1)\<rparr>
      \<and> (\<forall>i < unat (m_num_records b1). pm' (m_record_pointers b1 - 8 * int i) = m_rawmem b1 + int i * uint (m_record_length b1))"
      by (intro 1(1) [OF True g [symmetric] refl, where k = "Suc k"]) (simp_all add: eqs(1))
    then show ?thesis by (simp add: eqs(1))
  next
    case False
    then have "int k = uint (m_num_records b)" "k = unat (m_num_records b)" using 1(2,3) u by linarith+
    then show ?thesis using 1(2-6) False by (auto simp: init_loop.simps [of b pm])
  qed
qed

text \<open>Initialising all record pointers ends, and then the array of sort keys points to the given number of records of
  full length, in their order from the start of the buffer, which end below the array.\<close>

theorem init_record_pointers_array:
  assumes "buffer_ok b" "init_record_pointers b pm = (b', pm')" "0 < m_num_records b"
  shows "m_idx b' = uint (m_num_records b)
    \<and> (\<forall>i < unat (m_num_records b). pm' (get_sort_keys b' + 8 * int i) = m_rawmem b + int i * uint (m_record_length b))
    \<and> m_rawmem b + uint (m_num_records b) * uint (m_record_length b) \<le> get_sort_keys b'"
proof -
  define b0 where "b0 = init_next_record_pointer b"
  have b0: "m_idx b0 = int 0" "m_next_rec_ptr b0 = m_rawmem b0 + int 0 * uint (m_record_length b0)"
    "m_rawmem b0 = m_rawmem b" "m_num_records b0 = m_num_records b" "m_record_length b0 = m_record_length b"
    "m_record_pointers b0 = m_record_pointers b"
    by (simp_all add: b0_def init_next_record_pointer_def)
  obtain pm1 where l: "init_loop b0 pm = (b', pm1)" and p: "pm' = reverse_record_pointers b' pm1"
    using assms(2) by (auto simp: init_record_pointers_def b0_def split: prod.splits)
  note h = init_loop_holds [OF b0(1) _ b0(2) _ l]
  have idx: "m_idx b' = uint (m_num_records b)" "m_record_pointers b' = m_record_pointers b" using h by (simp_all add: b0)
  have "pm' (get_sort_keys b' + 8 * int i) = m_rawmem b + int i * uint (m_record_length b)" if "i < unat (m_num_records b)" for i
  proof -
    have "int i < uint (m_num_records b)" using that by (metis of_nat_less_iff uint_nat)
    then show ?thesis using reverse_record_pointers_cells [of "int i" b' pm1] that h by (simp add: p idx b0)
  qed
  moreover have "0 < uint (m_num_records b)" using assms(3) by (simp add: word_less_def)
  moreover from this have "m_rawmem b + uint (m_num_records b) * uint (m_record_length b) \<le> get_sort_keys b'"
    using assms(1) by (simp add: idx get_sort_keys_def buffer_ok_def algebra_simps)
  ultimately show ?thesis by (simp add: idx)
qed

section \<open>Freed merge buffers\<close>

text \<open>A freed chunk is merged into another one exactly if they are adjacent, and then the other one covers both.\<close>

lemma merge_freed_buff_union:
  assumes "m_buffer_start c \<le> m_buffer_end c" "m_buffer_start mc \<le> m_buffer_end mc" "merge_freed_buff mc c = (r, mc')"
  shows "r \<longleftrightarrow> m_buffer_end mc = m_buffer_start c \<or> m_buffer_start mc = m_buffer_end c"
    and "r \<Longrightarrow> {m_buffer_start mc'..<m_buffer_end mc'} = {m_buffer_start mc..<m_buffer_end mc} \<union> {m_buffer_start c..<m_buffer_end c}"
    and "r \<Longrightarrow> buffer_size mc' = buffer_size mc + buffer_size c \<and> m_max_keys mc' = m_max_keys mc + m_max_keys c"
    and "\<not> r \<Longrightarrow> mc' = mc"
  using assms by (auto simp: merge_freed_buff_def buffer_size_def split: if_splits)

section \<open>Packed records are read back\<close>

text \<open>Adding up the lengths of the sort fields, in 32 bits, and the buffer for addons, whose length stays that of an earlier
  buffer when an allocation fails.\<close>

lemma sort_lengths_sum:
  "size_of_packable_fields (fold increment_size_of_packable_fields ls k) = size_of_packable_fields k + sum_list ls"
  "sort_length_with_original_values (fold increment_original_sort_length ls k) = sort_length_with_original_values k + sum_list ls"
  by (induction ls arbitrary: k)
    (simp_all add: increment_size_of_packable_fields_def increment_original_sort_length_def algebra_simps)

lemma addon_buf_states:
  "m_addon_buf_length (snd (allocate_addon_buf 0 sz a)) = m_addon_buf_length a"
  "p \<noteq> 0 \<Longrightarrow> m_addon_buf_length (snd (allocate_addon_buf p sz a)) = sz"
  "free_addon_buff (snd (allocate_addon_buf p sz mk_Addon_fields)) = mk_Addon_fields"
  by (simp_all add: allocate_addon_buf_def free_addon_buff_def mk_Addon_fields_def Let_def)

lemma take_bit_small: "x \<le> 0xFFFF \<Longrightarrow> take_bit 16 x = (x :: uint32)"
  by (simp add: word_unat_eq_iff unsigned_take_bit_eq take_bit_nat_eq_self word_le_nat_alt)

lemma addon_length_round_trip:
  assumes "2 \<le> sz" "sz \<le> 0x10001"
  shows "read_addon_length (store_addon_length m p sz) p = sz"
proof -
  have "sz - 2 \<le> 0xFFFF" using assms by unat_arith
  then have "ucast (ucast (take_bit 16 (sz - 2)) :: uint16) = sz - 2"
    by (subst take_bit_small [symmetric]) (auto intro!: bit_word_eqI simp: bit_simps)
  then show ?thesis by (simp add: read_addon_length_def store_addon_length_def addon_size_of_length_field_def x2.load_store)
qed

lemma sortkey_length_round_trip: "read_sortkey_length (store_sortkey_length m p sz) p = sz"
  using take_bit_length_eq [of "sz - 4"]
  by (simp add: read_sortkey_length_def store_sortkey_length_def sortkey_size_of_length_field_def x4.load_store)

text \<open>A record with a packed key of \<open>k\<close> bytes and packed addons of \<open>a\<close> bytes, length fields included; where the format of a
  part is fixed, its length is that of the parameters. Without addon fields the row reference follows the key.\<close>

definition key_len :: "Sort_param \<Rightarrow> uint32 \<times> uint32 \<Rightarrow> uint32" where
  "key_len s r = (if m_using_packed_sortkeys s then fst r + (if has_addon_fields s then 0 else res_length s) else sort_length s)"

definition addon_len :: "Sort_param \<Rightarrow> uint32 \<times> uint32 \<Rightarrow> uint32" where
  "addon_len s r = (if m_using_packed_addons s then snd r else addon_length s)"

definition record_ok :: "Sort_param \<Rightarrow> uint32 \<times> uint32 \<Rightarrow> bool" where
  "record_ok s r \<longleftrightarrow>
     (m_using_packed_sortkeys s \<longrightarrow> 4 \<le> fst r \<and> unat (fst r) + unat (res_length s) < 2 ^ 32)
     \<and> (m_using_packed_addons s \<longrightarrow> 2 \<le> snd r \<and> snd r \<le> 0x10001)
     \<and> unat (key_len s r) + unat (addon_len s r) < 2 ^ 32"

definition put_record :: "Sort_param \<Rightarrow> uint32 \<times> uint32 \<Rightarrow> nat \<Rightarrow> mem \<Rightarrow> mem" where
  "put_record s r p m =
     (let m = (if m_using_packed_sortkeys s then store_sortkey_length m p (fst r) else m)
      in if m_using_packed_addons s then store_addon_length m (p + unat (key_len s r)) (snd r) else m)"

definition total_len :: "Sort_param \<Rightarrow> uint32 \<times> uint32 \<Rightarrow> nat" where
  "total_len s r = unat (key_len s r) + unat (addon_len s r)"

fun put_records :: "Sort_param \<Rightarrow> (uint32 \<times> uint32) list \<Rightarrow> nat \<Rightarrow> mem \<Rightarrow> mem" where
  "put_records s [] p m = m"
| "put_records s (r # rs) p m = put_records s rs (p + total_len s r) (put_record s r p m)"

fun walk_records :: "Sort_param \<Rightarrow> mem \<Rightarrow> nat \<Rightarrow> nat \<Rightarrow> (nat \<times> uint32 \<times> uint32) list" where
  "walk_records s m p 0 = []"
| "walk_records s m p (Suc n) =
     (let (recl, resl) = get_rec_and_res_len s m p in (p, recl, resl) # walk_records s m (p + unat recl) n)"

fun layout :: "Sort_param \<Rightarrow> nat \<Rightarrow> (uint32 \<times> uint32) list \<Rightarrow> (nat \<times> uint32 \<times> uint32) list" where
  "layout s p [] = []"
| "layout s p (r # rs) =
     (p, of_nat (total_len s r), if has_addon_fields s then addon_len s r else res_length s) # layout s (p + total_len s r) rs"

lemma key_len_ge:
  assumes "record_ok s r" "m_using_packed_sortkeys s"
  shows "4 \<le> unat (key_len s r)"
proof -
  have "4 \<le> unat (fst r)" using assms by (simp add: record_ok_def word_le_nat_alt)
  moreover have "unat (fst r + (if has_addon_fields s then 0 else res_length s)) \<ge> unat (fst r)"
    using assms by (simp add: record_ok_def unat_word_ariths)
  ultimately show ?thesis using assms by (simp add: key_len_def)
qed

lemma put_record_frame:
  assumes "record_ok s r" "q < p \<or> p + total_len s r \<le> q"
  shows "put_record s r p m q = m q"
proof -
  have "m_using_packed_addons s \<Longrightarrow> 2 \<le> unat (addon_len s r)"
    using assms(1) by (simp add: record_ok_def addon_len_def word_le_nat_alt)
  moreover note key_len_ge [OF assms(1)]
  ultimately show ?thesis using assms(2)
    by (auto simp: put_record_def Let_def store_addon_length_def store_sortkey_length_def total_len_def
        x2.store_frame x4.store_frame)
qed

lemma put_records_frame: "\<forall>r \<in> set rs. record_ok s r \<Longrightarrow> q < p \<Longrightarrow> put_records s rs p m q = m q"
  by (induction rs arbitrary: p m) (auto simp: put_record_frame)

lemma get_rec_and_res_len_local:
  assumes "m_packed_format s" "record_ok s r" "\<And>q. p \<le> q \<Longrightarrow> q < p + total_len s r \<Longrightarrow> m' q = put_record s r p m q"
  shows "get_rec_and_res_len s m' p = (of_nat (total_len s r), if has_addon_fields s then addon_len s r else res_length s)"
proof -
  have k: "get_sort_length s m' p = key_len s r"
  proof (cases "m_using_packed_sortkeys s")
    case True
    have "uint4korr_x86_64 m' p = uint4korr_x86_64 (put_record s r p m) p"
      using key_len_ge [OF assms(2) True] by (intro x4.load_local assms(3)) (auto simp: total_len_def)
    also have "\<dots> = uint4korr_x86_64 (store_sortkey_length m p (fst r)) p"
      using key_len_ge [OF assms(2) True] True
      by (intro x4.load_local) (auto simp: put_record_def store_addon_length_def x2.store_frame Let_def)
    finally have "read_sortkey_length m' p = fst r"
      using sortkey_length_round_trip [of m p "fst r"] by (simp add: read_sortkey_length_def)
    then show ?thesis using True by (simp add: get_sort_length_def key_len_def using_addon_fields_def)
  qed (simp add: get_sort_length_def key_len_def)
  have a: "get_addon_length s m' (p + unat (key_len s r)) = addon_len s r"
  proof (cases "m_using_packed_addons s")
    case True
    then have a2: "2 \<le> unat (addon_len s r)" "2 \<le> snd r" "snd r \<le> 0x10001"
      using assms(2) by (auto simp: record_ok_def addon_len_def word_le_nat_alt)
    have "uint2korr_x86_64 m' (p + unat (key_len s r)) = uint2korr_x86_64 (put_record s r p m) (p + unat (key_len s r))"
      using a2(1) by (intro x2.load_local assms(3)) (auto simp: total_len_def)
    then show ?thesis using True addon_length_round_trip [OF a2(2,3)]
      by (simp add: get_addon_length_def read_addon_length_def put_record_def addon_len_def Let_def)
  qed (simp add: get_addon_length_def addon_len_def)
  show ?thesis using assms(1) by (simp add: get_rec_and_res_len_def k a total_len_def using_addon_fields_def Let_def)
qed

lemma walk_record_length: "(q, l, res) \<in> set (walk_records s m p n) \<Longrightarrow> get_record_length s m q = l"
  by (induction n arbitrary: p) (auto simp: get_record_length_def get_rec_and_res_len_def Let_def split: if_splits)

text \<open>C27. Records whose lengths the sorting code has stored one after the other, in any combination of packed and fixed
  keys and addons, are found again by reading the lengths back: the walk visits the start of every record with its
  length and the length of its result, and nothing before the first record is touched.\<close>

theorem packed_records_round_trip:
  assumes "m_packed_format s" "\<forall>r \<in> set rs. record_ok s r"
  shows "walk_records s (put_records s rs p m) p (length rs) = layout s p rs
    \<and> (\<forall>q < p. put_records s rs p m q = m q)
    \<and> (\<forall>(q, recl, resl) \<in> set (layout s p rs). get_record_length s (put_records s rs p m) q = recl)"
proof -
  have w: "walk_records s (put_records s rs p m) p (length rs) = layout s p rs" if "\<forall>r \<in> set rs. record_ok s r" for rs p m
    using that
  proof (induction rs arbitrary: p m)
    case (Cons r rs)
    have "get_rec_and_res_len s (put_records s (r # rs) p m) p =
        (of_nat (total_len s r), if has_addon_fields s then addon_len s r else res_length s)"
      using Cons.prems by (intro get_rec_and_res_len_local [OF assms(1), where m = m]) (auto simp: put_records_frame)
    moreover have "unat (of_nat (total_len s r) :: uint32) = total_len s r"
      using Cons.prems by (simp add: record_ok_def total_len_def unat_word_ariths)
    ultimately show ?case using Cons by simp
  qed simp
  from this [OF assms(2)] show ?thesis
  proof (intro conjI)
    show "\<forall>(q, recl, resl) \<in> set (layout s p rs). get_record_length s (put_records s rs p m) q = recl"
      unfolding w [OF assms(2), symmetric, where m = m] by (auto dest: walk_record_length)
  qed (simp_all add: put_records_frame assms(2))
qed

definition ex_param :: Sort_param where
  "ex_param = \<lparr>rec_length = 0, sort_length = 0, addon_length = 0, res_length = 0, has_addon_fields = True,
     m_using_packed_addons = True, m_using_packed_sortkeys = True, m_packed_format = True\<rparr>"

theorem packed_records_round_trip_witness:
  "walk_records ex_param (put_records ex_param [(7, 5), (4, 2)] 100 (\<lambda>_. 0)) 100 (Suc (Suc 0)) =
     [(100, 12, 5), (112, 6, 2)]"
proof -
  have "layout ex_param 100 [(7, 5), (4, 2)] = [(100, 12, 5), (112, 6, 2)]"
    by (simp add: ex_param_def key_len_def addon_len_def total_len_def)
  then show ?thesis using packed_records_round_trip [of ex_param "[(7, 5), (4, 2)]" 100 "\<lambda>_. 0"]
    by (simp add: ex_param_def record_ok_def key_len_def addon_len_def del: walk_records.simps put_records.simps)
qed

definition ex_buffer :: Filesort_buffer where
  "ex_buffer = mk_Filesort_buffer\<lparr>m_rawmem := 1000, m_record_pointers := 1030, m_num_records := 2, m_record_length := 10,
     m_size_in_bytes := 38\<rparr>"

lemma ex_fill:
  "fill [2, 2, 2, 2] (init_next_record_pointer ex_buffer) (\<lambda>_. 0) =
     (3, ex_buffer\<lparr>m_idx := 3, m_next_rec_ptr := 1006\<rparr>, (\<lambda>_. 0)(1030 := 1000, 1022 := 1002, 1014 := 1004))"
  by (simp add: ex_buffer_def mk_Filesort_buffer_def init_next_record_pointer_def isfull_def spaceleft_def
      get_next_record_pointer_def adjust_next_record_pointer_def Let_def)

theorem filesort_buffer_packs_witness:
  "reverse_record_pointers (ex_buffer\<lparr>m_idx := 3, m_next_rec_ptr := 1006\<rparr>)
     ((\<lambda>_. 0)(1030 := 1000, 1022 := 1002, 1014 := 1004)) 1014 = 1000"
  using filesort_buffer_packs [OF _ _ ex_fill]
  by (auto simp: buffer_ok_def ex_buffer_def mk_Filesort_buffer_def get_sort_keys_def rec_start_def dest!: spec [where x = 0])

theorem init_record_pointers_array_witness:
  "let r = init_record_pointers ex_buffer (\<lambda>_. 0) in snd r (get_sort_keys (fst r) + 8) = 1010"
proof -
  define r where "r = init_record_pointers ex_buffer (\<lambda>_. 0)"
  have "\<forall>i < 2. snd r (get_sort_keys (fst r) + 8 * int i) = 1000 + int i * 10"
    using init_record_pointers_array [of ex_buffer "\<lambda>_. 0" "fst r" "snd r"]
    by (simp add: r_def buffer_ok_def ex_buffer_def mk_Filesort_buffer_def)
  then show ?thesis using r_def by (auto simp: Let_def dest!: spec [where x = 1])
qed

end
