(* ===== verification/Mbr.thy ===== *)
theory Mbr
  imports Prelude Complex_Main
begin

text \<open>
  Minimum bounding rectangles and the data of points (\<^verbatim>\<open>spatial.h\<close>). Coordinates are the finite values of \<^verbatim>\<open>double\<close>, which
  the code only compares, as real numbers; \<^verbatim>\<open>DBL_MAX\<close> is the largest of them. The rectangle is closed, and it is a set of
  points for the specification. \<open>within\<close>, which the header only declares, is an argument of \<^verbatim>\<open>overlaps\<close>, of which nothing is
  assumed.
\<close>

section \<open>The structure MBR\<close>

record MBR =
  xmin :: real
  ymin :: real
  xmax :: real
  ymax :: real

definition DBL_MAX :: real where "DBL_MAX = (2 - 1 / 2 ^ 52) * 2 ^ 1023"

definition mbr_new :: MBR where
  "mbr_new = \<lparr>xmin = DBL_MAX, ymin = DBL_MAX, xmax = - DBL_MAX, ymax = - DBL_MAX\<rparr>"

definition mbr_of :: "real \<Rightarrow> real \<Rightarrow> real \<Rightarrow> real \<Rightarrow> MBR" where
  "mbr_of xmin_arg ymin_arg xmax_arg ymax_arg = \<lparr>xmin = xmin_arg, ymin = ymin_arg, xmax = xmax_arg, ymax = ymax_arg\<rparr>"

definition mbr_of_points :: "real \<times> real \<Rightarrow> real \<times> real \<Rightarrow> MBR" where
  "mbr_of_points p q = \<lparr>xmin = fst p, ymin = snd p, xmax = fst q, ymax = snd q\<rparr>"

definition add_xy :: "real \<Rightarrow> real \<Rightarrow> MBR \<Rightarrow> MBR" where
  "add_xy x y m =
     (let m = (if x < xmin m then m\<lparr>xmin := x\<rparr> else m);
          m = (if x > xmax m then m\<lparr>xmax := x\<rparr> else m);
          m = (if y < ymin m then m\<lparr>ymin := y\<rparr> else m)
      in if y > ymax m then m\<lparr>ymax := y\<rparr> else m)"

definition add_mbr :: "MBR \<Rightarrow> MBR \<Rightarrow> MBR" where
  "add_mbr mbr m =
     (let m = (if xmin mbr < xmin m then m\<lparr>xmin := xmin mbr\<rparr> else m);
          m = (if xmax mbr > xmax m then m\<lparr>xmax := xmax mbr\<rparr> else m);
          m = (if ymin mbr < ymin m then m\<lparr>ymin := ymin mbr\<rparr> else m)
      in if ymax mbr > ymax m then m\<lparr>ymax := ymax mbr\<rparr> else m)"

definition mbr_of_two :: "MBR \<Rightarrow> MBR \<Rightarrow> MBR" where
  "mbr_of_two mbr1 mbr2 = add_mbr mbr2 \<lparr>xmin = xmin mbr1, ymin = ymin mbr1, xmax = xmax mbr1, ymax = ymax mbr1\<rparr>"

text \<open>\<open>rnd\<close> is the rounding of the machine.\<close>

definition mbr_buffer :: "(real \<Rightarrow> real) \<Rightarrow> real \<Rightarrow> MBR \<Rightarrow> MBR" where
  "mbr_buffer rnd d m =
     m\<lparr>xmin := rnd (xmin m - d), ymin := rnd (ymin m - d), xmax := rnd (xmax m + d), ymax := rnd (ymax m + d)\<rparr>"

definition mbr_equals :: "MBR \<Rightarrow> MBR \<Rightarrow> bool" where
  "mbr_equals m mbr \<longleftrightarrow> xmin mbr = xmin m \<and> ymin mbr = ymin m \<and> xmax mbr = xmax m \<and> ymax mbr = ymax m"

definition mbr_disjoint :: "MBR \<Rightarrow> MBR \<Rightarrow> bool" where
  "mbr_disjoint m mbr \<longleftrightarrow> xmin mbr > xmax m \<or> ymin mbr > ymax m \<or> xmax mbr < xmin m \<or> ymax mbr < ymin m"

definition mbr_intersects :: "MBR \<Rightarrow> MBR \<Rightarrow> bool" where
  "mbr_intersects m mbr \<longleftrightarrow> \<not> mbr_disjoint m mbr"

definition mbr_touches :: "MBR \<Rightarrow> MBR \<Rightarrow> bool" where
  "mbr_touches m mbr \<longleftrightarrow>
     (xmin mbr = xmax m \<or> xmax mbr = xmin m)
       \<and> ((ymin mbr \<ge> ymin m \<and> ymin mbr \<le> ymax m) \<or> (ymax mbr \<ge> ymin m \<and> ymax mbr \<le> ymax m))
     \<or> (ymin mbr = ymax m \<or> ymax mbr = ymin m)
       \<and> ((xmin mbr \<ge> xmin m \<and> xmin mbr \<le> xmax m) \<or> (xmax mbr \<ge> xmin m \<and> xmax mbr \<le> xmax m))"

definition mbr_contains :: "MBR \<Rightarrow> MBR \<Rightarrow> bool" where
  "mbr_contains m mbr \<longleftrightarrow> xmin mbr \<ge> xmin m \<and> ymin mbr \<ge> ymin m \<and> xmax mbr \<le> xmax m \<and> ymax mbr \<le> ymax m"

definition inner_point :: "MBR \<Rightarrow> real \<Rightarrow> real \<Rightarrow> bool" where
  "inner_point m x y \<longleftrightarrow> xmin m < x \<and> xmax m > x \<and> ymin m < y \<and> ymax m > y"

definition mbr_dimension :: "MBR \<Rightarrow> int" where
  "mbr_dimension m =
     (if xmin m > xmax m then - 1
      else let d = (if xmin m < xmax m then 1 else 0)
           in if ymin m > ymax m then - 1 else if ymin m < ymax m then d + 1 else d)"

definition mbr_overlaps :: "(MBR \<Rightarrow> MBR \<Rightarrow> bool) \<Rightarrow> MBR \<Rightarrow> MBR \<Rightarrow> bool" where
  "mbr_overlaps mbr_within m mbr =
     (let d = mbr_dimension m
      in if d \<noteq> mbr_dimension mbr \<or> d \<le> 0 \<or> mbr_contains m mbr \<or> mbr_within m mbr then False
         else d = mbr_dimension (mbr_of (max (xmin m) (xmin mbr)) (max (ymin m) (ymin mbr))
                                        (min (xmax m) (xmax mbr)) (min (ymax m) (ymax mbr))))"

definition mbr_valid :: "MBR \<Rightarrow> bool" where
  "mbr_valid m \<longleftrightarrow> xmin m \<le> xmax m \<and> ymin m \<le> ymax m"

section \<open>The data of a geometry\<close>

text \<open>The pointers of a \<^verbatim>\<open>Geometry\<close> are addresses; \<open>float8get\<close> reads a double at an address.\<close>

record Geometry =
  m_data :: int
  m_data_end :: int

definition SIZEOF_STORED_DOUBLE :: uint32 where "SIZEOF_STORED_DOUBLE = 8"

definition POINT_DATA_SIZE :: uint32 where "POINT_DATA_SIZE = SIZEOF_STORED_DOUBLE * 2"

definition WKB_HEADER_SIZE :: uint32 where "WKB_HEADER_SIZE = 1 + 4"

definition set_data_ptr :: "int \<Rightarrow> uint32 \<Rightarrow> Geometry \<Rightarrow> Geometry" where
  "set_data_ptr data data_len g = g\<lparr>m_data := data, m_data_end := data + uint data_len\<rparr>"

definition shift_wkb_header :: "Geometry \<Rightarrow> Geometry" where
  "shift_wkb_header g = g\<lparr>m_data := m_data g + uint WKB_HEADER_SIZE\<rparr>"

definition no_data :: "Geometry \<Rightarrow> int \<Rightarrow> nat \<Rightarrow> bool" where
  "no_data g cur_data data_amount \<longleftrightarrow> cur_data + int data_amount > m_data_end g"

text \<open>The divisor is a 32-bit sum; a division by zero is an absent result.\<close>

definition not_enough_points :: "Geometry \<Rightarrow> int \<Rightarrow> uint32 \<Rightarrow> uint32 \<Rightarrow> bool option" where
  "not_enough_points g data expected_points extra_point_space =
     (if m_data_end g < data then Some True
      else if POINT_DATA_SIZE + extra_point_space = 0 then None
      else Some (uint expected_points > (m_data_end g - data) div uint (POINT_DATA_SIZE + extra_point_space)))"

definition get_xy :: "(int \<Rightarrow> real) \<Rightarrow> Geometry \<Rightarrow> (real \<times> real) option" where
  "get_xy float8get g =
     (let data = m_data g
      in if no_data g data (unat (SIZEOF_STORED_DOUBLE * 2)) then None
         else Some (float8get data, float8get (data + uint SIZEOF_STORED_DOUBLE)))"

definition get_x :: "(int \<Rightarrow> real) \<Rightarrow> Geometry \<Rightarrow> real option" where
  "get_x float8get g = (if no_data g (m_data g) (unat SIZEOF_STORED_DOUBLE) then None else Some (float8get (m_data g)))"

definition get_y :: "(int \<Rightarrow> real) \<Rightarrow> Geometry \<Rightarrow> real option" where
  "get_y float8get g =
     (let data = m_data g
      in if no_data g data (unat (SIZEOF_STORED_DOUBLE * 2)) then None
         else Some (float8get (data + uint SIZEOF_STORED_DOUBLE)))"

definition get_xy_radian :: "(real \<Rightarrow> real) \<Rightarrow> real \<Rightarrow> (int \<Rightarrow> real) \<Rightarrow> Geometry \<Rightarrow> (real \<times> real) option" where
  "get_xy_radian rnd m_pi float8get g =
     (case get_xy float8get g of
        Some (x, y) \<Rightarrow> Some (rnd (rnd (x * m_pi) / 180), rnd (rnd (y * m_pi) / 180))
      | None \<Rightarrow> None)"

text \<open>\<^verbatim>\<open>find_class\<close> by number; \<open>ci\<close> is the table of classes.\<close>

definition find_class :: "(nat \<Rightarrow> 'c option) \<Rightarrow> int \<Rightarrow> 'c option" where
  "find_class ci type_id = (if type_id < 1 \<or> type_id > 7 then None else ci (nat type_id))"

section \<open>Bounding rectangles\<close>

definition region :: "MBR \<Rightarrow> (real \<times> real) set" where
  "region m = {xmin m..xmax m} \<times> {ymin m..ymax m}"

definition inside :: "MBR \<Rightarrow> (real \<times> real) set" where
  "inside m = {xmin m<..<xmax m} \<times> {ymin m<..<ymax m}"

definition finite_point :: "real \<times> real \<Rightarrow> bool" where
  "finite_point p \<longleftrightarrow> - DBL_MAX \<le> fst p \<and> fst p \<le> DBL_MAX \<and> - DBL_MAX \<le> snd p \<and> snd p \<le> DBL_MAX"

definition add_points :: "(real \<times> real) list \<Rightarrow> MBR \<Rightarrow> MBR" where
  "add_points ps m = fold (\<lambda>(x, y). add_xy x y) ps m"

lemma add_xy_bounds:
  "xmin (add_xy x y m) = min (xmin m) x" "xmax (add_xy x y m) = max (xmax m) x"
  "ymin (add_xy x y m) = min (ymin m) y" "ymax (add_xy x y m) = max (ymax m) y"
  by (auto simp: add_xy_def Let_def)

lemma add_mbr_bounds:
  "xmin (add_mbr b m) = min (xmin m) (xmin b)" "xmax (add_mbr b m) = max (xmax m) (xmax b)"
  "ymin (add_mbr b m) = min (ymin m) (ymin b)" "ymax (add_mbr b m) = max (ymax m) (ymax b)"
  by (auto simp: add_mbr_def Let_def)

text \<open>A rectangle bounds another one and a list of points when its four sides do; \<^verbatim>\<open>mbr_new\<close> is the neutral element.\<close>

definition bounds :: "MBR \<Rightarrow> MBR \<Rightarrow> (real \<times> real) list \<Rightarrow> bool" where
  "bounds b m ps \<longleftrightarrow> xmin b \<le> xmin m \<and> ymin b \<le> ymin m \<and> xmax m \<le> xmax b \<and> ymax m \<le> ymax b
     \<and> (\<forall>(x, y) \<in> set ps. xmin b \<le> x \<and> x \<le> xmax b \<and> ymin b \<le> y \<and> y \<le> ymax b)"

lemma add_points_least: "bounds b (add_points ps m) [] \<longleftrightarrow> bounds b m ps"
proof (induction ps arbitrary: m)
  case (Cons p ps)
  have "bounds b (add_points (p # ps) m) [] \<longleftrightarrow> bounds b (add_xy (fst p) (snd p) m) ps"
    using Cons.IH by (simp add: add_points_def case_prod_beta)
  then show ?case by (cases p) (auto simp: bounds_def add_xy_bounds)
qed (simp add: add_points_def)

lemma region_subset_iff:
  "mbr_valid a \<Longrightarrow> region a \<subseteq> region b \<longleftrightarrow> xmin b \<le> xmin a \<and> ymin b \<le> ymin a \<and> xmax a \<le> xmax b \<and> ymax a \<le> ymax b"
  by (auto simp: region_def mbr_valid_def Times_subset_cancel2 times_subset_iff)

lemma region_empty_iff: "region a = {} \<longleftrightarrow> \<not> mbr_valid a"
  by (auto simp: region_def mbr_valid_def)

lemma boundsD: "bounds b m ps \<Longrightarrow> set ps \<subseteq> region b"
  by (auto simp: bounds_def region_def)

lemma bounds_antisym: "bounds a b [] \<Longrightarrow> bounds b a [] \<Longrightarrow> a = b"
  by (simp add: bounds_def)

lemma bounds_new:
  assumes "\<forall>p \<in> set ps. finite_point p" "ps \<noteq> []"
  shows "bounds b mbr_new ps \<longleftrightarrow> set ps \<subseteq> region b"
proof
  assume s: "set ps \<subseteq> region b"
  obtain p where "p \<in> set ps" using assms(2) by (cases ps) auto
  then have "p \<in> region b" "finite_point p" using s assms(1) by auto
  then show "bounds b mbr_new ps" using s by (auto simp: bounds_def region_def finite_point_def mbr_new_def)
qed (rule boundsD)

text \<open>Adding any points with finite coordinates to an empty rectangle gives the smallest rectangle that contains them:
  it contains every point, it lies in every rectangle that does, and neither the order nor repetitions of the points
  matter. Without points the rectangle is not valid.\<close>

theorem mbr_bounds_points:
  assumes "\<forall>p \<in> set ps. finite_point p"
  defines "m \<equiv> add_points ps mbr_new"
  shows "(mbr_valid m \<longleftrightarrow> ps \<noteq> []) \<and> set ps \<subseteq> region m
    \<and> (\<forall>b. set ps \<subseteq> region b \<longrightarrow> region m \<subseteq> region b)
    \<and> (\<forall>qs. set qs = set ps \<longrightarrow> add_points qs mbr_new = m)"
proof (cases "ps = []")
  case True
  have "0 < DBL_MAX" by (simp add: DBL_MAX_def)
  then have "\<not> mbr_valid m" by (simp add: m_def True add_points_def mbr_new_def mbr_valid_def)
  then show ?thesis using True by (auto simp: m_def add_points_def simp flip: region_empty_iff)
next
  case False
  have self: "bounds a a []" for a by (simp add: bounds_def)
  have least: "bounds b (add_points qs mbr_new) [] \<longleftrightarrow> set ps \<subseteq> region b" if "set qs = set ps" for b qs
  proof -
    have "qs \<noteq> []" using that False by auto
    then show ?thesis using that assms(1) bounds_new [of qs b] by (simp add: add_points_least)
  qed
  have p: "set ps \<subseteq> region m" using least [of ps m] self by (simp add: m_def)
  then have "region m \<noteq> {}" using False by auto
  then have "mbr_valid m" by (simp add: region_empty_iff)
  moreover have "region m \<subseteq> region b" if "set ps \<subseteq> region b" for b
    using least [of ps b] that by (auto simp: m_def bounds_def region_def)
  moreover have "add_points qs mbr_new = m" if "set qs = set ps" for qs
  proof (rule bounds_antisym)
    show "bounds (add_points qs mbr_new) m []"
      using least [OF that, of "add_points qs mbr_new"] least [of ps "add_points qs mbr_new"] self by (simp add: m_def)
    show "bounds m (add_points qs mbr_new) []" using least [OF that, of m] p by simp
  qed
  ultimately show ?thesis using p False by auto
qed

section \<open>Relations of rectangles\<close>

lemma inside_empty_iff: "mbr_valid m \<Longrightarrow> inside m \<noteq> {} \<longleftrightarrow> mbr_dimension m = 2"
  by (auto simp: inside_def mbr_dimension_def mbr_valid_def Let_def dest: dense)

lemma interval_meet: "{a..b} \<inter> {c..d} = {} \<longleftrightarrow> max a c > min b (d :: real)"
  by (auto simp: max_def min_def split: if_splits)

lemma region_meet: "region a \<inter> region b = {} \<longleftrightarrow>
    max (xmin a) (xmin b) > min (xmax a) (xmax b) \<or> max (ymin a) (ymin b) > min (ymax a) (ymax b)"
proof -
  have "region a \<inter> region b = ({xmin a..xmax a} \<inter> {xmin b..xmax b}) \<times> ({ymin a..ymax a} \<inter> {ymin b..ymax b})"
    by (auto simp: region_def)
  then show ?thesis by (simp only: Times_empty interval_meet)
qed

lemma open_interval_meet: "{a<..<b} \<inter> {c<..<d} = {} \<longleftrightarrow> max a c \<ge> min b (d :: real)"
proof -
  have "{a<..<b} \<inter> {c<..<d} = {max a c<..<min b d}" by auto
  then show ?thesis by (simp add: not_less del: min_le_iff_disj max.bounded_iff)
qed

lemma inside_meet: "inside a \<inter> inside b = {} \<longleftrightarrow>
    max (xmin a) (xmin b) \<ge> min (xmax a) (xmax b) \<or> max (ymin a) (ymin b) \<ge> min (ymax a) (ymax b)"
proof -
  have "inside a \<inter> inside b =
      ({xmin a<..<xmax a} \<inter> {xmin b<..<xmax b}) \<times> ({ymin a<..<ymax a} \<inter> {ymin b<..<ymax b})"
    by (auto simp: inside_def)
  then show ?thesis by (simp only: Times_empty open_interval_meet)
qed

text \<open>C5. On valid rectangles the tests are the relations of the sets of points: \<^verbatim>\<open>contains\<close> is inclusion, \<^verbatim>\<open>equals\<close> equality,
  \<^verbatim>\<open>disjoint\<close> and \<^verbatim>\<open>intersects\<close> speak of common points, \<^verbatim>\<open>inner_point\<close> of the points inside; \<^verbatim>\<open>add_mbr\<close> gives the smallest
  rectangle around both. Two rectangles with an area overlap exactly if they have inner points in common, the first does not
  contain the second and is not within it, whatever \<^verbatim>\<open>within\<close> decides.\<close>

theorem mbr_relations:
  assumes "mbr_valid a" "mbr_valid b"
  shows "(mbr_contains a b \<longleftrightarrow> region b \<subseteq> region a) \<and> (mbr_equals a b \<longleftrightarrow> region a = region b)
    \<and> (mbr_disjoint a b \<longleftrightarrow> region a \<inter> region b = {}) \<and> (mbr_intersects a b \<longleftrightarrow> region a \<inter> region b \<noteq> {})
    \<and> (inner_point a x y \<longleftrightarrow> (x, y) \<in> inside a)
    \<and> (\<forall>c. region a \<union> region b \<subseteq> region c \<longleftrightarrow> region (add_mbr b a) \<subseteq> region c)
    \<and> (mbr_dimension a = 2 \<and> mbr_dimension b = 2 \<longrightarrow>
        (mbr_overlaps mbr_within a b \<longleftrightarrow>
           inside a \<inter> inside b \<noteq> {} \<and> \<not> region b \<subseteq> region a \<and> \<not> mbr_within a b))"
proof -
  have c: "mbr_contains m n \<longleftrightarrow> region n \<subseteq> region m" if "mbr_valid n" for m n
    using region_subset_iff [OF that] by (auto simp: mbr_contains_def)
  have "mbr_equals a b \<longleftrightarrow> region a = region b"
    using region_subset_iff [OF assms(1), of b] region_subset_iff [OF assms(2), of a]
    by (simp add: mbr_equals_def set_eq_subset) linarith
  moreover have d: "mbr_disjoint a b \<longleftrightarrow> region a \<inter> region b = {}"
    using assms(1,2) by (auto simp: region_meet mbr_disjoint_def mbr_valid_def max_def min_def)
  moreover have "region a \<union> region b \<subseteq> region e \<longleftrightarrow> region (add_mbr b a) \<subseteq> region e" for e
  proof -
    have "mbr_valid (add_mbr b a)" using assms(1,2) by (auto simp: mbr_valid_def add_mbr_bounds)
    then show ?thesis using assms(1,2) by (auto simp: region_subset_iff add_mbr_bounds)
  qed
  moreover have "mbr_overlaps mbr_within a b \<longleftrightarrow>
      inside a \<inter> inside b \<noteq> {} \<and> \<not> region b \<subseteq> region a \<and> \<not> mbr_within a b"
    if "mbr_dimension a = 2" "mbr_dimension b = 2"
  proof -
    define i where "i = mbr_of (max (xmin a) (xmin b)) (max (ymin a) (ymin b)) (min (xmax a) (xmax b)) (min (ymax a) (ymax b))"
    have "mbr_dimension i = 2 \<longleftrightarrow> inside a \<inter> inside b \<noteq> {}"
      unfolding inside_meet by (simp add: i_def mbr_of_def mbr_dimension_def Let_def) linarith
    then show ?thesis using that by (auto simp: mbr_overlaps_def Let_def c assms(1,2) i_def [symmetric])
  qed
  ultimately show ?thesis using c [OF assms(2)] by (auto simp: mbr_intersects_def inner_point_def inside_def)
qed

text \<open>For two rectangles with an area, one of them touches the other, by the test of the code in one of the two
  directions, exactly if they have common points but no common inner points. The test in one direction is not enough: it
  fails when the touching side of the other rectangle is longer at both ends.\<close>

theorem mbr_touches_either_way:
  assumes "mbr_dimension a = 2" "mbr_dimension b = 2"
  shows "mbr_touches a b \<or> mbr_touches b a \<longleftrightarrow> region a \<inter> region b \<noteq> {} \<and> inside a \<inter> inside b = {}"
proof -
  have "xmin a < xmax a" "ymin a < ymax a" "xmin b < xmax b" "ymin b < ymax b"
    using assms by (auto simp: mbr_dimension_def Let_def split: if_splits)
  then show ?thesis unfolding region_meet inside_meet mbr_touches_def max_def min_def by argo
qed

lemma mbr_touches_one_way:
  "mbr_touches (mbr_of 1 0 2 3) (mbr_of 0 1 1 2)" "\<not> mbr_touches (mbr_of 0 1 1 2) (mbr_of 1 0 2 3)"
  by (simp_all add: mbr_touches_def mbr_of_def)

section \<open>Reading points\<close>

lemma div_less_iff_mult:
  assumes "0 < (s :: int)"
  shows "d div s < n \<longleftrightarrow> d < n * s"
proof
  assume "d div s < n"
  then have "(d div s + 1) * s \<le> n * s" using assms by (intro mult_right_mono) auto
  then show "d < n * s" using pos_mod_bound [OF assms, of d] div_mult_mod_eq [of d s] by (simp only: distrib_right)
next
  assume "d < n * s"
  moreover have "d div s * s \<le> d" using pos_mod_sign [OF assms, of d] div_mult_mod_eq [of d s] by linarith
  ultimately have "d div s * s < n * s" by simp
  then show "d div s < n" using assms by simp
qed

text \<open>The test for enough points never overflows, because it divides: it says no exactly if the points with their
  extra space do not fit in front of the end of the data. A point is read only if its coordinates lie before the end.\<close>

theorem point_data_bounds:
  assumes "data \<le> m_data_end g" "unat extra + 16 < 2 ^ 32"
  shows "not_enough_points g data n extra = Some (m_data_end g - data < uint n * (16 + uint extra))
    \<and> (get_xy float8get g \<noteq> None \<longleftrightarrow> m_data g + 16 \<le> m_data_end g)
    \<and> (get_x float8get g \<noteq> None \<longleftrightarrow> m_data g + 8 \<le> m_data_end g)
    \<and> (get_y float8get g \<noteq> None \<longleftrightarrow> m_data g + 16 \<le> m_data_end g)
    \<and> (\<forall>x y. get_xy float8get g = Some (x, y) \<longrightarrow> get_x float8get g = Some x \<and> get_y float8get g = Some y)"
proof -
  have u: "uint (POINT_DATA_SIZE + extra) = 16 + uint extra"
  proof -
    have "int (unat extra + 16) < int (2 ^ 32)" using assms(2) by (simp only: of_nat_less_iff)
    then show ?thesis by (simp add: POINT_DATA_SIZE_def SIZEOF_STORED_DOUBLE_def uint_word_ariths)
  qed
  have "POINT_DATA_SIZE + extra \<noteq> 0"
  proof
    assume "POINT_DATA_SIZE + extra = 0"
    then have "uint (POINT_DATA_SIZE + extra) = 0" by (simp only: unsigned_0)
    then show False using u uint_ge_0 [of extra] by linarith
  qed
  moreover have "0 < 16 + uint extra" using uint_ge_0 [of extra] by linarith
  note div_less_iff_mult [OF this]
  ultimately have "not_enough_points g data n extra = Some (m_data_end g - data < uint n * (16 + uint extra))"
    using assms(1) by (simp add: not_enough_points_def u)
  then show ?thesis by (auto simp: get_xy_def get_x_def get_y_def no_data_def SIZEOF_STORED_DOUBLE_def Let_def split: if_splits)
qed

lemma point_radian: "get_xy_radian rnd m_pi float8get g = None \<longleftrightarrow> get_xy float8get g = None"
  by (auto simp: get_xy_radian_def split: option.splits)

section \<open>Examples\<close>

theorem mbr_bounds_points_witness: "(2, 5) \<in> region (add_points [(1, 7), (2, 5), (4, 3)] mbr_new)"
proof -
  have "(2 :: real) ^ 3 \<le> 1 * 2 ^ 1023" by (simp only: mult_1 power_increasing_iff)
  also have "\<dots> \<le> DBL_MAX" unfolding DBL_MAX_def by (intro mult_right_mono) auto
  finally have "8 \<le> DBL_MAX" by simp
  then have "\<forall>p \<in> set [(1, 7), (2, 5), (4, 3)]. finite_point p" by (simp add: finite_point_def)
  moreover have "(2, 5) \<in> set [(1, 7), (2, 5), (4, 3 :: real)]" by simp
  ultimately show ?thesis using mbr_bounds_points by blast
qed

theorem mbr_relations_witness:
  "inside (mbr_of 0 0 2 2) \<inter> inside (mbr_of 1 1 3 3) \<noteq> {} \<and> mbr_overlaps (\<lambda>m n. mbr_contains n m) (mbr_of 0 0 2 2) (mbr_of 1 1 3 3)"
  using mbr_relations [of "mbr_of 0 0 2 2" "mbr_of 1 1 3 3" 0 0 "\<lambda>m n. mbr_contains n m"]
  by (simp add: mbr_valid_def mbr_of_def mbr_dimension_def mbr_overlaps_def mbr_contains_def)

theorem mbr_touches_either_way_witness:
  "region (mbr_of 0 1 1 2) \<inter> region (mbr_of 1 0 2 3) \<noteq> {} \<and> inside (mbr_of 0 1 1 2) \<inter> inside (mbr_of 1 0 2 3) = {}"
  using mbr_touches_either_way [of "mbr_of 0 1 1 2" "mbr_of 1 0 2 3"] mbr_touches_one_way(1)
  by (simp add: mbr_dimension_def mbr_of_def)

theorem point_data_bounds_witness: "not_enough_points \<lparr>m_data = 100, m_data_end = 132\<rparr> 100 3 0 = Some True"
  using point_data_bounds [of 100 "\<lparr>m_data = 100, m_data_end = 132\<rparr>" 0 3] by simp

end
