(* ===== verification/Json_Trace.thy ===== *)
theory Json_Trace
  imports Prelude
begin

text \<open>
  The parts of \<^verbatim>\<open>my_json_writer.h\<close> that have code: the string with a limit that collects the document, and the classes that
  open and close objects and arrays as their scopes begin and end.

  The methods of \<^verbatim>\<open>Json_writer\<close> have their code elsewhere, so that the effect of an object or an array is the sequence of
  calls that it makes on the writer. A struct without a writer is in the mode in which it ignores its calls. A call
  through a null pointer and the failure of an assertion are absent results.
\<close>

section \<open>A string with a limit\<close>

text \<open>\<^verbatim>\<open>String::append\<close> is the argument \<open>app\<close>; sizes have 64 bits, the length of the string 32.\<close>

record String_with_limit =
  str :: "uchar list"
  size_limit :: ulonglong
  truncated_len :: ulonglong

definition swl_new :: String_with_limit where
  "swl_new = \<lparr>str = [], size_limit = - 1, truncated_len = 0\<rparr>"

definition swl_length :: "String_with_limit \<Rightarrow> ulonglong" where
  "swl_length s = of_nat (length (str s) mod 2 ^ 32)"

text \<open>The assertion compares with the limit that is replaced.\<close>

definition set_size_limit :: "ulonglong \<Rightarrow> String_with_limit \<Rightarrow> String_with_limit option" where
  "set_size_limit limit_arg s = (if swl_length s < size_limit s then Some (s\<lparr>size_limit := limit_arg\<rparr>) else None)"

definition swl_append :: "(uchar list \<Rightarrow> uchar list \<Rightarrow> uchar list) \<Rightarrow> uchar list \<Rightarrow> ulonglong \<Rightarrow> String_with_limit \<Rightarrow> String_with_limit" where
  "swl_append app t sz s =
     (if swl_length s + sz \<le> size_limit s then s\<lparr>str := app (str s) (take (unat sz) t)\<rparr>
      else if swl_length s < size_limit s
      then let bytes_to_add = size_limit s - swl_length s
           in s\<lparr>str := app (str s) (take (unat bytes_to_add) t), truncated_len := truncated_len s + (sz - bytes_to_add)\<rparr>
      else s\<lparr>truncated_len := truncated_len s + sz\<rparr>)"

text \<open>\<^verbatim>\<open>strlen\<close>: the bytes in front of the first zero.\<close>

definition swl_append_cstr :: "(uchar list \<Rightarrow> uchar list \<Rightarrow> uchar list) \<Rightarrow> uchar list \<Rightarrow> String_with_limit \<Rightarrow> String_with_limit" where
  "swl_append_cstr app t s = swl_append app t (of_nat (length (takeWhile (\<lambda>c. c \<noteq> 0) t))) s"

definition swl_append_char :: "(uchar list \<Rightarrow> uchar list \<Rightarrow> uchar list) \<Rightarrow> uchar \<Rightarrow> String_with_limit \<Rightarrow> String_with_limit" where
  "swl_append_char app c s =
     (if swl_length s + 1 > size_limit s then s\<lparr>truncated_len := truncated_len s + 1\<rparr> else s\<lparr>str := app (str s) [c]\<rparr>)"

section \<open>Objects and arrays\<close>

text \<open>The values that are passed on to the writer, by the method that is called; items and tables are pointers, a double is
  its representation.\<close>

datatype json_atom =
  A_bool bool | A_ull ulonglong | A_ll ulonglong | A_double ulonglong | A_str "uchar list" | A_str_len "uchar list" ulonglong
| A_item addr | A_null | A_tab addr | A_table addr

datatype json_call =
  Add_member "uchar list" | Add_atom json_atom | Start_object | End_object | Start_array | End_array

type_synonym json_trace = "json_call list"

record Json_writer_struct =
  my_writer :: bool
  closed :: bool

definition mk_Json_writer_struct :: "bool \<Rightarrow> Json_writer_struct" where
  "mk_Json_writer_struct writer = \<lparr>my_writer = writer, closed = False\<rparr>"

definition trace_started :: "Json_writer_struct \<Rightarrow> bool" where
  "trace_started s \<longleftrightarrow> my_writer s"

definition mk_Json_writer_object :: "bool \<Rightarrow> uchar list option \<Rightarrow> json_trace \<Rightarrow> Json_writer_struct \<times> json_trace" where
  "mk_Json_writer_object writer name tr =
     (let s = mk_Json_writer_struct writer
      in if my_writer s
         then let tr = (case name of Some n \<Rightarrow> tr @ [Add_member n] | None \<Rightarrow> tr) in (s, tr @ [Start_object])
         else (s, tr))"

definition destroy_object :: "Json_writer_struct \<Rightarrow> json_trace \<Rightarrow> Json_writer_struct \<times> json_trace" where
  "destroy_object s tr =
     (let tr = (if my_writer s \<and> \<not> closed s then tr @ [End_object] else tr) in (s\<lparr>closed := True\<rparr>, tr))"

definition add_member :: "Json_writer_struct \<Rightarrow> uchar list \<Rightarrow> json_trace \<Rightarrow> json_trace option" where
  "add_member s name tr = (if my_writer s then Some (tr @ [Add_member name]) else None)"

definition context_add :: "Json_writer_struct \<Rightarrow> json_atom \<Rightarrow> json_trace \<Rightarrow> json_trace option" where
  "context_add s a tr = (if my_writer s then Some (tr @ [Add_atom a]) else None)"

definition object_add_bool :: "Json_writer_struct \<Rightarrow> uchar list \<Rightarrow> bool \<Rightarrow> json_trace \<Rightarrow> json_trace option" where
  "object_add_bool s name value tr =
     (if closed s then None
      else if my_writer s then Option.bind (add_member s name tr) (context_add s (A_bool value))
      else Some tr)"

definition object_add_ull :: "Json_writer_struct \<Rightarrow> uchar list \<Rightarrow> ulonglong \<Rightarrow> json_trace \<Rightarrow> json_trace option" where
  "object_add_ull s name value tr =
     (if closed s then None
      else if my_writer s then Option.bind (add_member s name tr) (context_add s (A_ull value))
      else Some tr)"

definition object_add_int :: "Json_writer_struct \<Rightarrow> uchar list \<Rightarrow> ulonglong \<Rightarrow> json_trace \<Rightarrow> json_trace option" where
  "object_add_int s name value tr =
     (if closed s then None
      else if my_writer s then Option.bind (add_member s name tr) (context_add s (A_ll value))
      else Some tr)"

definition object_add_double :: "Json_writer_struct \<Rightarrow> uchar list \<Rightarrow> ulonglong \<Rightarrow> json_trace \<Rightarrow> json_trace option" where
  "object_add_double s name value tr =
     (if closed s then None
      else if my_writer s then Option.bind (add_member s name tr) (context_add s (A_double value))
      else Some tr)"

definition object_add_str :: "Json_writer_struct \<Rightarrow> uchar list \<Rightarrow> uchar list \<Rightarrow> json_trace \<Rightarrow> json_trace option" where
  "object_add_str s name value tr =
     (if closed s then None
      else if my_writer s then Option.bind (add_member s name tr) (context_add s (A_str value))
      else Some tr)"

text \<open>The overload with a length tests neither the writer nor that the object is open.\<close>

definition object_add_str_len ::
    "Json_writer_struct \<Rightarrow> uchar list \<Rightarrow> uchar list \<Rightarrow> ulonglong \<Rightarrow> json_trace \<Rightarrow> json_trace option" where
  "object_add_str_len s name value num_bytes tr =
     Option.bind (add_member s name tr) (context_add s (A_str_len value num_bytes))"

definition object_add_lex_cstring :: "Json_writer_struct \<Rightarrow> uchar list \<Rightarrow> uchar list \<Rightarrow> ulonglong \<Rightarrow> json_trace \<Rightarrow> json_trace option" where
  "object_add_lex_cstring s name value len tr =
     (if closed s then None
      else if my_writer s then Option.bind (add_member s name tr) (context_add s (A_str_len value len))
      else Some tr)"

definition object_add_item :: "Json_writer_struct \<Rightarrow> uchar list \<Rightarrow> addr \<Rightarrow> json_trace \<Rightarrow> json_trace option" where
  "object_add_item s name value tr =
     (if closed s then None
      else if my_writer s then Option.bind (add_member s name tr) (context_add s (A_item value))
      else Some tr)"

definition object_add_null :: "Json_writer_struct \<Rightarrow> uchar list \<Rightarrow> json_trace \<Rightarrow> json_trace option" where
  "object_add_null s name tr =
     (if closed s then None
      else if my_writer s then Option.bind (add_member s name tr) (context_add s A_null)
      else Some tr)"

definition table_name :: "uchar list" where "table_name = [116, 97, 98, 108, 101]"

definition select_id_name :: "uchar list" where "select_id_name = [115, 101, 108, 101, 99, 116, 95, 105, 100]"

definition fake_name :: "uchar list" where "fake_name = [102, 97, 107, 101]"

definition object_add_table_name_tab :: "Json_writer_struct \<Rightarrow> addr \<Rightarrow> json_trace \<Rightarrow> json_trace option" where
  "object_add_table_name_tab s tab tr =
     (if closed s then None
      else if my_writer s then Option.bind (add_member s table_name tr) (context_add s (A_tab tab))
      else Some tr)"

definition object_add_table_name :: "Json_writer_struct \<Rightarrow> addr \<Rightarrow> json_trace \<Rightarrow> json_trace option" where
  "object_add_table_name s table tr =
     (if closed s then None
      else if my_writer s then Option.bind (add_member s table_name tr) (context_add s (A_table table))
      else Some tr)"

definition FAKE_SELECT_LEX_ID :: uint32 where "FAKE_SELECT_LEX_ID = 0xFFFFFFFF"

definition object_add_select_number :: "Json_writer_struct \<Rightarrow> uint32 \<Rightarrow> json_trace \<Rightarrow> json_trace option" where
  "object_add_select_number s select_number tr =
     (if closed s then None
      else if my_writer s
      then Option.bind (add_member s select_id_name tr)
             (context_add s (if select_number = FAKE_SELECT_LEX_ID then A_str fake_name else A_ll (ucast select_number)))
      else Some tr)"

definition object_end :: "Json_writer_struct \<Rightarrow> json_trace \<Rightarrow> (Json_writer_struct \<times> json_trace) option" where
  "object_end s tr =
     (if closed s then None
      else let tr = (if my_writer s then tr @ [End_object] else tr) in Some (s\<lparr>closed := True\<rparr>, tr))"

definition mk_Json_writer_array :: "bool \<Rightarrow> uchar list option \<Rightarrow> json_trace \<Rightarrow> Json_writer_struct \<times> json_trace" where
  "mk_Json_writer_array writer name tr =
     (let s = mk_Json_writer_struct writer
      in if my_writer s
         then let tr = (case name of Some n \<Rightarrow> tr @ [Add_member n] | None \<Rightarrow> tr) in (s, tr @ [Start_array])
         else (s, tr))"

definition destroy_array :: "Json_writer_struct \<Rightarrow> json_trace \<Rightarrow> Json_writer_struct \<times> json_trace" where
  "destroy_array s tr = (if my_writer s \<and> \<not> closed s then (s\<lparr>closed := True\<rparr>, tr @ [End_array]) else (s, tr))"

definition array_end :: "Json_writer_struct \<Rightarrow> json_trace \<Rightarrow> (Json_writer_struct \<times> json_trace) option" where
  "array_end s tr =
     (if closed s then None
      else let tr = (if my_writer s then tr @ [End_array] else tr) in Some (s\<lparr>closed := True\<rparr>, tr))"

definition array_add_bool :: "Json_writer_struct \<Rightarrow> bool \<Rightarrow> json_trace \<Rightarrow> json_trace option" where
  "array_add_bool s value tr = (if closed s then None else if my_writer s then context_add s (A_bool value) tr else Some tr)"

definition array_add_ull :: "Json_writer_struct \<Rightarrow> ulonglong \<Rightarrow> json_trace \<Rightarrow> json_trace option" where
  "array_add_ull s value tr = (if closed s then None else if my_writer s then context_add s (A_ll value) tr else Some tr)"

definition array_add_ll :: "Json_writer_struct \<Rightarrow> ulonglong \<Rightarrow> json_trace \<Rightarrow> json_trace option" where
  "array_add_ll s value tr = (if closed s then None else if my_writer s then context_add s (A_ll value) tr else Some tr)"

definition array_add_double :: "Json_writer_struct \<Rightarrow> ulonglong \<Rightarrow> json_trace \<Rightarrow> json_trace option" where
  "array_add_double s value tr = (if closed s then None else if my_writer s then context_add s (A_double value) tr else Some tr)"

definition array_add_str :: "Json_writer_struct \<Rightarrow> uchar list \<Rightarrow> json_trace \<Rightarrow> json_trace option" where
  "array_add_str s value tr = (if closed s then None else if my_writer s then context_add s (A_str value) tr else Some tr)"

definition array_add_str_len :: "Json_writer_struct \<Rightarrow> uchar list \<Rightarrow> ulonglong \<Rightarrow> json_trace \<Rightarrow> json_trace option" where
  "array_add_str_len s value num_bytes tr = (if closed s then None else if my_writer s then context_add s (A_str_len value num_bytes) tr else Some tr)"

definition array_add_lex_cstring :: "Json_writer_struct \<Rightarrow> uchar list \<Rightarrow> ulonglong \<Rightarrow> json_trace \<Rightarrow> json_trace option" where
  "array_add_lex_cstring s value len tr = (if closed s then None else if my_writer s then context_add s (A_str_len value len) tr else Some tr)"

definition array_add_item :: "Json_writer_struct \<Rightarrow> addr \<Rightarrow> json_trace \<Rightarrow> json_trace option" where
  "array_add_item s value tr = (if closed s then None else if my_writer s then context_add s (A_item value) tr else Some tr)"

definition array_add_null :: "Json_writer_struct \<Rightarrow> json_trace \<Rightarrow> json_trace option" where
  "array_add_null s tr = (if closed s then None else if my_writer s then context_add s A_null tr else Some tr)"

definition array_add_table_name_tab :: "Json_writer_struct \<Rightarrow> addr \<Rightarrow> json_trace \<Rightarrow> json_trace option" where
  "array_add_table_name_tab s tab tr = (if closed s then None else if my_writer s then context_add s (A_tab tab) tr else Some tr)"

definition array_add_table_name :: "Json_writer_struct \<Rightarrow> addr \<Rightarrow> json_trace \<Rightarrow> json_trace option" where
  "array_add_table_name s table tr = (if closed s then None else if my_writer s then context_add s (A_table table) tr else Some tr)"

section \<open>The contract of a structure\<close>

text \<open>What a scope relies on, for objects and arrays alike: the constructor opens, and the structure is closed exactly
  once by the explicit call or by the destructor.\<close>

locale json_structure =
  fixes mk :: "bool \<Rightarrow> uchar list option \<Rightarrow> json_trace \<Rightarrow> Json_writer_struct \<times> json_trace"
    and destroy :: "Json_writer_struct \<Rightarrow> json_trace \<Rightarrow> Json_writer_struct \<times> json_trace"
    and finish :: "Json_writer_struct \<Rightarrow> json_trace \<Rightarrow> (Json_writer_struct \<times> json_trace) option"
    and start stop :: json_call
  assumes opened: "mk w nm tr =
      (\<lparr>my_writer = w, closed = False\<rparr>, if w then tr @ (case nm of Some n \<Rightarrow> [Add_member n] | None \<Rightarrow> []) @ [start] else tr)"
    and finish_open: "\<not> closed s \<Longrightarrow> finish s tr = Some (s\<lparr>closed := True\<rparr>, if my_writer s then tr @ [stop] else tr)"
    and finish_closed: "closed s \<Longrightarrow> finish s tr = None"
    and destroy_open: "\<not> closed s \<Longrightarrow> snd (destroy s tr) = (if my_writer s then tr @ [stop] else tr)"
    and destroy_closed: "closed s \<Longrightarrow> snd (destroy s tr) = tr"
begin

lemma mk_open: "mk w nm tr = (s, tr') \<Longrightarrow> \<not> closed s \<and> my_writer s = w"
  by (auto simp: opened)

lemma scope_effect:
  assumes "mk w nm tr = (s, tr')" "body s tr' = (if w then Some (tr' @ cs) else if bad then None else Some tr')"
  shows "(let (s, tr) = mk w nm tr
          in Option.bind (body s tr)
               (\<lambda>tr. Option.bind (if e then finish s tr else Some (s, tr)) (\<lambda>(s, tr). Some (snd (destroy s tr))))) =
    (if w then Some (tr @ (case nm of Some n \<Rightarrow> [Add_member n] | None \<Rightarrow> []) @ start # cs @ [stop])
     else if bad then None else Some tr)"
  using assms by (auto simp: opened finish_open destroy_open destroy_closed)

end

interpretation obj: json_structure mk_Json_writer_object destroy_object object_end Start_object End_object
  by unfold_locales
    (auto simp: mk_Json_writer_object_def mk_Json_writer_struct_def object_end_def destroy_object_def Let_def split: option.splits)

interpretation arr: json_structure mk_Json_writer_array destroy_array array_end Start_array End_array
  by unfold_locales
    (auto simp: mk_Json_writer_array_def mk_Json_writer_struct_def array_end_def destroy_array_def Let_def split: option.splits)

section \<open>Scopes produce well-formed documents\<close>

text \<open>A program that builds a document: scopes with values and inner scopes, each closed explicitly or by its
  destructor.\<close>

datatype json_value =
  V_bool bool | V_ull ulonglong | V_int ulonglong | V_double ulonglong | V_str "uchar list" | V_str_len "uchar list" ulonglong
| V_lex "uchar list" ulonglong | V_item addr | V_null

datatype json_scope = Obj "obj_item list" bool | Arr "arr_item list" bool
and obj_item = O_value "uchar list" json_value | O_tab addr | O_table addr | O_select uint32 | O_scope "uchar list" json_scope
and arr_item = R_value json_value | R_tab addr | R_table addr | R_scope json_scope

fun object_add :: "Json_writer_struct \<Rightarrow> uchar list \<Rightarrow> json_value \<Rightarrow> json_trace \<Rightarrow> json_trace option" where
  "object_add s n (V_bool v) = object_add_bool s n v"
| "object_add s n (V_ull v) = object_add_ull s n v"
| "object_add s n (V_int v) = object_add_int s n v"
| "object_add s n (V_double v) = object_add_double s n v"
| "object_add s n (V_str v) = object_add_str s n v"
| "object_add s n (V_str_len v l) = object_add_str_len s n v l"
| "object_add s n (V_lex v l) = object_add_lex_cstring s n v l"
| "object_add s n (V_item v) = object_add_item s n v"
| "object_add s n V_null = object_add_null s n"

fun array_add :: "Json_writer_struct \<Rightarrow> json_value \<Rightarrow> json_trace \<Rightarrow> json_trace option" where
  "array_add s (V_bool v) = array_add_bool s v"
| "array_add s (V_ull v) = array_add_ull s v"
| "array_add s (V_int v) = array_add_ll s v"
| "array_add s (V_double v) = array_add_double s v"
| "array_add s (V_str v) = array_add_str s v"
| "array_add s (V_str_len v l) = array_add_str_len s v l"
| "array_add s (V_lex v l) = array_add_lex_cstring s v l"
| "array_add s (V_item v) = array_add_item s v"
| "array_add s V_null = array_add_null s"

fun run_scope :: "bool \<Rightarrow> uchar list option \<Rightarrow> json_scope \<Rightarrow> json_trace \<Rightarrow> json_trace option"
  and run_obj :: "Json_writer_struct \<Rightarrow> obj_item list \<Rightarrow> json_trace \<Rightarrow> json_trace option"
  and run_arr :: "Json_writer_struct \<Rightarrow> arr_item list \<Rightarrow> json_trace \<Rightarrow> json_trace option" where
  "run_scope writer name (Obj items e) tr =
     (let (s, tr) = mk_Json_writer_object writer name tr
      in Option.bind (run_obj s items tr)
           (\<lambda>tr. Option.bind (if e then object_end s tr else Some (s, tr)) (\<lambda>(s, tr). Some (snd (destroy_object s tr)))))"
| "run_scope writer name (Arr items e) tr =
     (let (s, tr) = mk_Json_writer_array writer name tr
      in Option.bind (run_arr s items tr)
           (\<lambda>tr. Option.bind (if e then array_end s tr else Some (s, tr)) (\<lambda>(s, tr). Some (snd (destroy_array s tr)))))"
| "run_obj s [] tr = Some tr"
| "run_obj s (O_value n v # is) tr = Option.bind (object_add s n v tr) (run_obj s is)"
| "run_obj s (O_tab t # is) tr = Option.bind (object_add_table_name_tab s t tr) (run_obj s is)"
| "run_obj s (O_table t # is) tr = Option.bind (object_add_table_name s t tr) (run_obj s is)"
| "run_obj s (O_select n # is) tr = Option.bind (object_add_select_number s n tr) (run_obj s is)"
| "run_obj s (O_scope n sc # is) tr = Option.bind (run_scope (my_writer s) (Some n) sc tr) (run_obj s is)"
| "run_arr s [] tr = Some tr"
| "run_arr s (R_value v # is) tr = Option.bind (array_add s v tr) (run_arr s is)"
| "run_arr s (R_tab t # is) tr = Option.bind (array_add_table_name_tab s t tr) (run_arr s is)"
| "run_arr s (R_table t # is) tr = Option.bind (array_add_table_name s t tr) (run_arr s is)"
| "run_arr s (R_scope sc # is) tr = Option.bind (run_scope (my_writer s) None sc tr) (run_arr s is)"

text \<open>The document that a program denotes, as a sequence of calls.\<close>

fun value_atom :: "json_value \<Rightarrow> json_atom" where
  "value_atom (V_bool v) = A_bool v"
| "value_atom (V_ull v) = A_ull v"
| "value_atom (V_int v) = A_ll v"
| "value_atom (V_double v) = A_double v"
| "value_atom (V_str v) = A_str v"
| "value_atom (V_str_len v l) = A_str_len v l"
| "value_atom (V_lex v l) = A_str_len v l"
| "value_atom (V_item v) = A_item v"
| "value_atom V_null = A_null"

text \<open>In arrays, unsigned values are written as signed ones.\<close>

fun signed_in_array :: "json_atom \<Rightarrow> json_atom" where
  "signed_in_array (A_ull v) = A_ll v"
| "signed_in_array a = a"

definition select_atom :: "uint32 \<Rightarrow> json_atom" where
  "select_atom n = (if n = FAKE_SELECT_LEX_ID then A_str fake_name else A_ll (ucast n))"

fun scope_calls :: "json_scope \<Rightarrow> json_trace" and obj_calls :: "obj_item list \<Rightarrow> json_trace"
  and arr_calls :: "arr_item list \<Rightarrow> json_trace" where
  "scope_calls (Obj items e) = Start_object # obj_calls items @ [End_object]"
| "scope_calls (Arr items e) = Start_array # arr_calls items @ [End_array]"
| "obj_calls [] = []"
| "obj_calls (O_value n v # is) = Add_member n # Add_atom (value_atom v) # obj_calls is"
| "obj_calls (O_tab t # is) = Add_member table_name # Add_atom (A_tab t) # obj_calls is"
| "obj_calls (O_table t # is) = Add_member table_name # Add_atom (A_table t) # obj_calls is"
| "obj_calls (O_select n # is) = Add_member select_id_name # Add_atom (select_atom n) # obj_calls is"
| "obj_calls (O_scope n sc # is) = Add_member n # scope_calls sc @ obj_calls is"
| "arr_calls [] = []"
| "arr_calls (R_value v # is) = Add_atom (signed_in_array (value_atom v)) # arr_calls is"
| "arr_calls (R_tab t # is) = Add_atom (A_tab t) # arr_calls is"
| "arr_calls (R_table t # is) = Add_atom (A_table t) # arr_calls is"
| "arr_calls (R_scope sc # is) = scope_calls sc @ arr_calls is"

text \<open>Whether a program uses the overload without the test of the writer.\<close>

fun unguarded :: "json_scope \<Rightarrow> bool" and obj_unguarded :: "obj_item list \<Rightarrow> bool" and arr_unguarded :: "arr_item list \<Rightarrow> bool" where
  "unguarded (Obj items e) = obj_unguarded items"
| "unguarded (Arr items e) = arr_unguarded items"
| "obj_unguarded [] = False"
| "obj_unguarded (O_value n v # is) = ((case v of V_str_len _ _ \<Rightarrow> True | _ \<Rightarrow> False) \<or> obj_unguarded is)"
| "obj_unguarded (O_scope n sc # is) = (unguarded sc \<or> obj_unguarded is)"
| "obj_unguarded (_ # is) = obj_unguarded is"
| "arr_unguarded [] = False"
| "arr_unguarded (R_scope sc # is) = (unguarded sc \<or> arr_unguarded is)"
| "arr_unguarded (_ # is) = arr_unguarded is"

text \<open>Well-formed documents: the enclosing structures, innermost first, \<open>True\<close> for an object, and whether a name waits for
  its value.\<close>

definition value_allowed :: "bool list \<Rightarrow> bool \<Rightarrow> bool" where
  "value_allowed ctx pending = (case ctx of [] \<Rightarrow> \<not> pending | c # _ \<Rightarrow> c = pending)"

fun json_step :: "json_call \<Rightarrow> bool list \<times> bool \<Rightarrow> (bool list \<times> bool) option" where
  "json_step (Add_member n) (ctx, pending) = (case ctx of True # _ \<Rightarrow> if pending then None else Some (ctx, True) | _ \<Rightarrow> None)"
| "json_step (Add_atom a) (ctx, pending) = (if value_allowed ctx pending then Some (ctx, False) else None)"
| "json_step Start_object (ctx, pending) = (if value_allowed ctx pending then Some (True # ctx, False) else None)"
| "json_step Start_array (ctx, pending) = (if value_allowed ctx pending then Some (False # ctx, False) else None)"
| "json_step End_object (ctx, pending) = (case ctx of True # cs \<Rightarrow> if pending then None else Some (cs, False) | _ \<Rightarrow> None)"
| "json_step End_array (ctx, pending) = (case ctx of False # cs \<Rightarrow> if pending then None else Some (cs, False) | _ \<Rightarrow> None)"

fun json_run :: "json_trace \<Rightarrow> bool list \<times> bool \<Rightarrow> (bool list \<times> bool) option" where
  "json_run [] st = Some st"
| "json_run (c # cs) st = Option.bind (json_step c st) (json_run cs)"

lemma json_run_append: "json_run (xs @ ys) st = Option.bind (json_run xs st) (json_run ys)"
  by (induction xs arbitrary: st) (auto split: bind_splits)

lemma calls_well_formed:
  "value_allowed ctx p \<Longrightarrow> json_run (scope_calls sc) (ctx, p) = Some (ctx, False)"
  "json_run (obj_calls os) (True # ctx, False) = Some (True # ctx, False)"
  "json_run (arr_calls rs) (False # ctx, False) = Some (False # ctx, False)"
  by (induction sc and os and rs arbitrary: ctx p and ctx and ctx rule: scope_calls_obj_calls_arr_calls.induct)
    (auto simp: json_run_append value_allowed_def)

lemmas add_defs = add_member_def context_add_def object_add_bool_def object_add_ull_def object_add_int_def
  object_add_double_def object_add_str_def object_add_str_len_def object_add_lex_cstring_def object_add_item_def
  object_add_null_def array_add_bool_def array_add_ull_def array_add_ll_def array_add_double_def array_add_str_def
  array_add_str_len_def array_add_lex_cstring_def array_add_item_def array_add_null_def

lemma object_add_call:
  "\<not> closed s \<Longrightarrow> object_add s n v tr =
     (if my_writer s then Some (tr @ [Add_member n, Add_atom (value_atom v)])
      else if (case v of V_str_len _ _ \<Rightarrow> True | _ \<Rightarrow> False) then None else Some tr)"
  by (cases v) (simp_all add: add_defs)

lemma array_add_call:
  "\<not> closed s \<Longrightarrow> array_add s v tr =
     (if my_writer s then Some (tr @ [Add_atom (signed_in_array (value_atom v))]) else Some tr)"
  by (cases v) (simp_all add: add_defs)

lemmas special_add_defs = object_add_table_name_tab_def object_add_table_name_def object_add_select_number_def
  array_add_table_name_tab_def array_add_table_name_def add_member_def context_add_def

lemma run_calls:
  "run_scope w nm sc tr =
     (if w then Some (tr @ (case nm of Some n \<Rightarrow> [Add_member n] | None \<Rightarrow> []) @ scope_calls sc)
      else if unguarded sc then None else Some tr)"
  "\<not> closed s \<Longrightarrow> run_obj s os tr =
     (if my_writer s then Some (tr @ obj_calls os) else if obj_unguarded os then None else Some tr)"
  "\<not> closed s \<Longrightarrow> run_arr s rs tr =
     (if my_writer s then Some (tr @ arr_calls rs) else if arr_unguarded rs then None else Some tr)"
proof (induction w nm sc tr and s os tr and s rs tr rule: run_scope_run_obj_run_arr.induct)
  case (1 writer name items e tr)
  obtain s tr' where m: "mk_Json_writer_object writer name tr = (s, tr')" by fastforce
  then show ?case using obj.scope_effect [OF m, of "\<lambda>s. run_obj s items"] obj.mk_open [OF m] 1 [OF refl m [symmetric]] by simp
next
  case (2 writer name items e tr)
  obtain s tr' where m: "mk_Json_writer_array writer name tr = (s, tr')" by fastforce
  then show ?case using arr.scope_effect [OF m, of "\<lambda>s. run_arr s items"] arr.mk_open [OF m] 2 [OF refl m [symmetric]] by simp
qed (auto simp: object_add_call array_add_call special_add_defs select_atom_def)

text \<open>C16. Every program of nested scopes that writes through these classes produces a well-formed document: names only in
  objects and exactly one before every value there, every object and array closed once, whether by an explicit call or by
  the destructor. Without a writer it has no effect, unless it uses the overload for strings with a length in an object,
  which then follows the null pointer.\<close>

theorem json_scopes_well_formed:
  "run_scope True None sc tr = Some (tr @ scope_calls sc)
   \<and> json_run (scope_calls sc) ([], False) = Some ([], False)
   \<and> run_scope False None sc tr = (if unguarded sc then None else Some tr)"
  using calls_well_formed(1) [of "[]" False] by (simp add: run_calls(1) value_allowed_def)

text \<open>The two findings on the overloads: the crash without a writer, and an unsigned value of an array that is passed on as
  a signed one, unlike in an object.\<close>

lemma object_add_str_len_crashes:
  "run_scope False None (Obj [O_value n (V_str_len v l)] e) tr = None"
  "run_scope False None (Obj [O_value n (V_lex v l)] e) tr = Some tr"
  by (simp_all add: run_calls(1))

lemma array_add_ull_signed:
  "run_scope True None (Arr [R_value (V_ull v)] e) [] = Some [Start_array, Add_atom (A_ll v), End_array]"
  "run_scope True None (Obj [O_value n (V_ull v)] e) [] = Some [Start_object, Add_member n, Add_atom (A_ull v), End_object]"
  by (simp_all add: run_calls(1))

section \<open>The limit\<close>

datatype swl_op = Append "uchar list" | Append_cstr "uchar list" | Append_char uchar

fun swl_do :: "swl_op \<Rightarrow> String_with_limit \<Rightarrow> String_with_limit" where
  "swl_do (Append t) = swl_append (@) t (of_nat (length t))"
| "swl_do (Append_cstr t) = swl_append_cstr (@) t"
| "swl_do (Append_char c) = swl_append_char (@) c"

fun op_bytes :: "swl_op \<Rightarrow> uchar list" where
  "op_bytes (Append t) = t"
| "op_bytes (Append_cstr t) = takeWhile (\<lambda>c. c \<noteq> 0) t"
| "op_bytes (Append_char c) = [c]"

definition swl_holds :: "String_with_limit \<Rightarrow> ulonglong \<Rightarrow> uchar list \<Rightarrow> bool" where
  "swl_holds s L bs \<longleftrightarrow> size_limit s = L \<and> str s = take (unat L) bs \<and> truncated_len s = of_nat (length bs - unat L)"

lemma swl_append_holds:
  assumes "swl_holds s L bs" "length bs + length t < 2 ^ 32" "take (length t) u = t"
  shows "swl_holds (swl_append (@) u (of_nat (length t)) s) L (bs @ t)"
proof -
  define k where "k = length (str s)"
  have k: "k = min (length bs) (unat L)" "k < 2 ^ 32" using assms by (auto simp: k_def swl_holds_def)
  have n: "unat (of_nat (length t) :: ulonglong) = length t" "unat (of_nat k :: ulonglong) = k"
    "unat (of_nat k + of_nat (length t) :: ulonglong) = k + length t"
    using assms(2) k by (simp_all add: unat_of_nat flip: of_nat_add)
  have len: "swl_length s = of_nat k" using k by (simp add: swl_length_def k_def)
  have u: "take j u = take j t" if "j \<le> length t" for j
    using assms(3) that by (metis min.absorb1 take_take)
  consider "k + length t \<le> unat L" | "unat L < k + length t" "k < unat L" | "unat L \<le> k" "unat L < k + length t" by linarith
  then show ?thesis
  proof cases
    case 1
    then have "swl_length s + of_nat (length t) \<le> size_limit s"
      using assms(1) n by (simp add: len word_le_nat_alt swl_holds_def)
    moreover have "length bs + length t - unat L = length bs - unat L" "length t \<le> unat L - length bs"
      using 1 k(1) by (cases "length bs \<le> unat L"; simp)+
    ultimately show ?thesis using assms(1,3) n(1) by (simp add: swl_append_def swl_holds_def)
  next
    case 2
    have d: "unat (L - of_nat k) = unat L - k" using 2 n by (simp add: unat_sub word_le_nat_alt)
    have "\<not> swl_length s + of_nat (length t) \<le> size_limit s" "swl_length s < size_limit s"
      using assms(1) n 2 by (simp_all add: len word_le_nat_alt word_less_nat_alt swl_holds_def)
    moreover have "of_nat (length t) - (L - of_nat k) = (of_nat (length bs + length t - unat L) :: ulonglong)"
      using 2 k by (simp add: of_nat_diff algebra_simps)
    moreover have "take (unat (L - of_nat k)) u = take (unat L - k) t" unfolding d using 2 by (intro u) linarith
    moreover have "k = length bs" using 2 k(1) by linarith
    ultimately show ?thesis using assms(1) 2 by (simp add: swl_append_def swl_holds_def len Let_def)
  next
    case 3
    have "\<not> swl_length s + of_nat (length t) \<le> size_limit s" "\<not> swl_length s < size_limit s"
      using assms(1) n 3 by (simp_all add: len word_le_nat_alt word_less_nat_alt swl_holds_def)
    then show ?thesis using assms(1) 3 k by (simp add: swl_append_def swl_holds_def flip: of_nat_add)
  qed
qed

lemma swl_append_char_eq: "swl_append_char app c s = swl_append app [c] 1 s"
  by (auto simp: swl_append_char_def swl_append_def not_less dest: inc_le)

text \<open>A document with the size limit \<open>L\<close>, built by any sequence of appended strings and characters of less than 4 GB in
  total, holds exactly the first \<open>L\<close> bytes of what was appended, and counts every byte that it left out.\<close>

theorem string_with_limit_truncates:
  assumes "length (concat (map op_bytes ops)) < 2 ^ 32"
  shows "\<exists>s. set_size_limit L swl_new = Some s
    \<and> str (fold swl_do ops s) = take (unat L) (concat (map op_bytes ops))
    \<and> unat (truncated_len (fold swl_do ops s)) = length (concat (map op_bytes ops)) - unat L"
proof -
  have "swl_holds (fold swl_do ops s) L (bs @ concat (map op_bytes ops))"
    if "swl_holds s L bs" "length bs + length (concat (map op_bytes ops)) < 2 ^ 32" for s bs
    using that
  proof (induction ops arbitrary: s bs)
    case (Cons p ops)
    have "swl_holds (swl_do p s) L (bs @ op_bytes p)"
    proof (cases p)
      case (Append_char c)
      then show ?thesis using Cons.prems swl_append_holds [OF Cons.prems(1), of "[c]" "[c]"] by (simp add: swl_append_char_eq)
    qed (use Cons.prems in \<open>auto simp: swl_append_cstr_def takeWhile_eq_take [symmetric] intro!: swl_append_holds\<close>)
    then show ?case using Cons.IH [of "swl_do p s" "bs @ op_bytes p"] Cons.prems(2) by simp
  qed simp
  moreover have "set_size_limit L swl_new = Some (swl_new\<lparr>size_limit := L\<rparr>)"
    by (simp add: set_size_limit_def swl_new_def swl_length_def flip: word_neq_0_conv)
  moreover have "swl_holds (swl_new\<lparr>size_limit := L\<rparr>) L []" by (simp add: swl_holds_def swl_new_def)
  ultimately show ?thesis using assms by (fastforce simp: swl_holds_def unat_of_nat)
qed

theorem string_with_limit_truncates_witness:
  "\<exists>s. set_size_limit 3 swl_new = Some s \<and> str (fold swl_do [Append [65, 66], Append_char 67, Append_cstr [68, 0]] s) = [65, 66, 67]"
  using string_with_limit_truncates [of "[Append [65, 66], Append_char 67, Append_cstr [68, 0]]" 3] by auto

text \<open>The assertion of \<^verbatim>\<open>set_size_limit\<close> does not refuse a limit below the current length.\<close>

lemma set_size_limit_below_length: "set_size_limit 1 (swl_new\<lparr>str := [65, 66, 67]\<rparr>) \<noteq> None"
  by (simp add: set_size_limit_def swl_length_def swl_new_def)

end
