(* ===== verification/Trackers.thy ===== *)
theory Trackers
  imports Histogram
begin

text \<open>
  The trackers behind \<^verbatim>\<open>ANALYZE\<close> (\<^verbatim>\<open>sql_analyze_stmt.h\<close>): time spent, loops, rows read and filtered, what filesort and the
  rowid filter report.

  The reading of the cycle counter is an argument. The two functions on the gap tracker of the thread, which the header
  only declares, are the arguments \<open>process\<close> and \<open>attach\<close> on the state of the thread. Counters have 64 bits, those of the
  rowid filter 32; ratios are rounded reals.
\<close>

section \<open>Time\<close>

record Exec_time_tracker =
  et_count :: ulonglong
  et_cycles :: ulonglong
  et_last_start :: ulonglong
  my_gap_tracker :: addr

definition mk_Exec_time_tracker :: "ulonglong \<Rightarrow> Exec_time_tracker" where
  "mk_Exec_time_tracker garbage = \<lparr>et_count = 0, et_cycles = 0, et_last_start = garbage, my_gap_tracker = 0\<rparr>"

type_synonym 't process_gap = "ulonglong \<Rightarrow> 't \<Rightarrow> 't"
type_synonym 't attach_gap = "addr \<Rightarrow> ulonglong \<Rightarrow> 't \<Rightarrow> 't"

definition cycles_stop_tracking ::
    "'t process_gap \<Rightarrow> 't attach_gap \<Rightarrow> ulonglong \<Rightarrow> Exec_time_tracker \<times> 't \<Rightarrow> Exec_time_tracker \<times> 't" where
  "cycles_stop_tracking process attach now = (\<lambda>(t, thd).
     let t = t\<lparr>et_cycles := et_cycles t + (now - et_last_start t)\<rparr>;
         t = (if now < et_last_start t then t\<lparr>et_cycles := et_cycles t + (- 1)\<rparr> else t);
         thd = process now thd
     in (t, if my_gap_tracker t \<noteq> 0 then attach (my_gap_tracker t) now thd else thd))"

definition start_tracking :: "'t process_gap \<Rightarrow> ulonglong \<Rightarrow> Exec_time_tracker \<times> 't \<Rightarrow> Exec_time_tracker \<times> 't" where
  "start_tracking process now = (\<lambda>(t, thd). let t = t\<lparr>et_last_start := now\<rparr> in (t, process (et_last_start t) thd))"

definition stop_tracking ::
    "'t process_gap \<Rightarrow> 't attach_gap \<Rightarrow> ulonglong \<Rightarrow> Exec_time_tracker \<times> 't \<Rightarrow> Exec_time_tracker \<times> 't" where
  "stop_tracking process attach now = (\<lambda>(t, thd).
     cycles_stop_tracking process attach now (t\<lparr>et_count := et_count t + 1\<rparr>, thd))"

definition get_time_ms :: "(real \<Rightarrow> real) \<Rightarrow> ulonglong \<Rightarrow> Exec_time_tracker \<Rightarrow> real" where
  "get_time_ms rnd frequency t = rnd (rnd (1000 * rnd (real (unat (et_cycles t)))) / rnd (real (unat frequency)))"

definition gap_log_time :: "ulonglong \<Rightarrow> ulonglong \<Rightarrow> ulonglong \<Rightarrow> ulonglong" where
  "gap_log_time start stop cycles = cycles + (stop - start)"

text \<open>\<^verbatim>\<open>Time_and_counter_tracker\<close>: the tracker with its flag; its \<^verbatim>\<open>stop_tracking\<close> does not count.\<close>

record Time_and_counter_tracker =
  base :: Exec_time_tracker
  timed :: bool

definition mk_Time_and_counter_tracker :: "ulonglong \<Rightarrow> bool \<Rightarrow> Time_and_counter_tracker" where
  "mk_Time_and_counter_tracker garbage timed_arg = \<lparr>base = mk_Exec_time_tracker garbage, timed = timed_arg\<rparr>"

definition incr_loops :: "Time_and_counter_tracker \<Rightarrow> Time_and_counter_tracker" where
  "incr_loops t = t\<lparr>base := (base t)\<lparr>et_count := et_count (base t) + 1\<rparr>\<rparr>"

definition tc_stop_tracking ::
    "'t process_gap \<Rightarrow> 't attach_gap \<Rightarrow> ulonglong \<Rightarrow> Time_and_counter_tracker \<times> 't \<Rightarrow> Time_and_counter_tracker \<times> 't" where
  "tc_stop_tracking process attach now = (\<lambda>(t, thd).
     let (b, thd) = cycles_stop_tracking process attach now (base t, thd) in (t\<lparr>base := b\<rparr>, thd))"

definition ANALYZE_START_TRACKING ::
    "'t process_gap \<Rightarrow> ulonglong \<Rightarrow> Time_and_counter_tracker \<times> 't \<Rightarrow> Time_and_counter_tracker \<times> 't" where
  "ANALYZE_START_TRACKING process now = (\<lambda>(t, thd).
     let t = incr_loops t
     in if timed t then let (b, thd) = start_tracking process now (base t, thd) in (t\<lparr>base := b\<rparr>, thd) else (t, thd))"

definition ANALYZE_STOP_TRACKING ::
    "'t process_gap \<Rightarrow> 't attach_gap \<Rightarrow> ulonglong \<Rightarrow> Time_and_counter_tracker \<times> 't \<Rightarrow> Time_and_counter_tracker \<times> 't" where
  "ANALYZE_STOP_TRACKING process attach now = (\<lambda>(t, thd).
     if timed t then tc_stop_tracking process attach now (t, thd) else (t, thd))"

section \<open>Rows\<close>

record Table_access_tracker =
  r_scans :: ulonglong
  r_rows :: ulonglong
  r_rows_after_where :: ulonglong

definition mk_Table_access_tracker :: Table_access_tracker where
  "mk_Table_access_tracker = \<lparr>r_scans = 0, r_rows = 0, r_rows_after_where = 0\<rparr>"

definition has_scans :: "Table_access_tracker \<Rightarrow> bool" where
  "has_scans t \<longleftrightarrow> r_scans t \<noteq> 0"

definition get_avg_rows :: "(real \<Rightarrow> real) \<Rightarrow> Table_access_tracker \<Rightarrow> real" where
  "get_avg_rows rnd t =
     (if r_scans t \<noteq> 0 then rnd (rnd (real (unat (r_rows t))) / rnd (real (unat (r_scans t)))) else 0)"

definition get_filtered_after_where :: "(real \<Rightarrow> real) \<Rightarrow> Table_access_tracker \<Rightarrow> real" where
  "get_filtered_after_where rnd t =
     (if r_rows t > 0 then rnd (rnd (real (unat (r_rows_after_where t))) / rnd (real (unat (r_rows t)))) else 1)"

definition on_scan_init :: "Table_access_tracker \<Rightarrow> Table_access_tracker" where
  "on_scan_init t = t\<lparr>r_scans := r_scans t + 1\<rparr>"

definition on_record_read :: "Table_access_tracker \<Rightarrow> Table_access_tracker" where
  "on_record_read t = t\<lparr>r_rows := r_rows t + 1\<rparr>"

definition on_record_after_where :: "Table_access_tracker \<Rightarrow> Table_access_tracker" where
  "on_record_after_where t = t\<lparr>r_rows_after_where := r_rows_after_where t + 1\<rparr>"

section \<open>Filesort\<close>

record Filesort_tracker =
  time_tracker :: Time_and_counter_tracker
  r_limit :: ulonglong
  r_used_pq :: ulonglong
  r_examined_rows :: ulonglong
  r_sorted_rows :: ulonglong
  r_output_rows :: ulonglong
  sort_passes :: ulonglong
  sort_buffer_size :: ulonglong
  r_using_addons :: bool
  r_packed_addon_fields :: bool
  r_sort_keys_packed :: bool

definition mk_Filesort_tracker :: "ulonglong \<Rightarrow> bool \<Rightarrow> Filesort_tracker" where
  "mk_Filesort_tracker garbage do_timing =
     \<lparr>time_tracker = mk_Time_and_counter_tracker garbage do_timing, r_limit = 0, r_used_pq = 0, r_examined_rows = 0,
      r_sorted_rows = 0, r_output_rows = 0, sort_passes = 0, sort_buffer_size = 0, r_using_addons = False,
      r_packed_addon_fields = False, r_sort_keys_packed = False\<rparr>"

definition report_use ::
    "'t process_gap \<Rightarrow> ulonglong \<Rightarrow> ulonglong \<Rightarrow> Filesort_tracker \<times> 't \<Rightarrow> Filesort_tracker \<times> 't" where
  "report_use process now r_limit_arg = (\<lambda>(f, thd).
     let f = (if et_count (base (time_tracker f)) = 0 then f\<lparr>r_limit := r_limit_arg\<rparr>
              else f\<lparr>r_limit := (if r_limit f \<noteq> r_limit_arg then 0 else r_limit_arg)\<rparr>);
         (t, thd) = ANALYZE_START_TRACKING process now (time_tracker f, thd)
     in (f\<lparr>time_tracker := t\<rparr>, thd))"

definition incr_pq_used :: "Filesort_tracker \<Rightarrow> Filesort_tracker" where
  "incr_pq_used f = f\<lparr>r_used_pq := r_used_pq f + 1\<rparr>"

definition report_row_numbers :: "ulonglong \<Rightarrow> ulonglong \<Rightarrow> ulonglong \<Rightarrow> Filesort_tracker \<Rightarrow> Filesort_tracker" where
  "report_row_numbers examined_rows sorted_rows returned_rows f =
     f\<lparr>r_examined_rows := r_examined_rows f + examined_rows, r_sorted_rows := r_sorted_rows f + sorted_rows,
       r_output_rows := r_output_rows f + returned_rows\<rparr>"

definition report_merge_passes_at_start :: "uint32 \<Rightarrow> Filesort_tracker \<Rightarrow> Filesort_tracker" where
  "report_merge_passes_at_start passes f = f\<lparr>sort_passes := sort_passes f - ucast passes\<rparr>"

definition report_merge_passes_at_end ::
    "'t process_gap \<Rightarrow> 't attach_gap \<Rightarrow> ulonglong \<Rightarrow> uint32 \<Rightarrow> Filesort_tracker \<times> 't \<Rightarrow> Filesort_tracker \<times> 't" where
  "report_merge_passes_at_end process attach now passes = (\<lambda>(f, thd).
     let (t, thd) = ANALYZE_STOP_TRACKING process attach now (time_tracker f, thd)
     in (f\<lparr>time_tracker := t, sort_passes := sort_passes f + ucast passes\<rparr>, thd))"

definition report_sort_buffer_size :: "ulonglong \<Rightarrow> Filesort_tracker \<Rightarrow> Filesort_tracker" where
  "report_sort_buffer_size bufsize f =
     (if sort_buffer_size f \<noteq> 0 then f\<lparr>sort_buffer_size := - 1\<rparr> else f\<lparr>sort_buffer_size := bufsize\<rparr>)"

definition report_addon_fields_format :: "bool \<Rightarrow> Filesort_tracker \<Rightarrow> Filesort_tracker" where
  "report_addon_fields_format addons_packed f = f\<lparr>r_using_addons := True, r_packed_addon_fields := addons_packed\<rparr>"

definition report_sort_keys_format :: "bool \<Rightarrow> Filesort_tracker \<Rightarrow> Filesort_tracker" where
  "report_sort_keys_format sort_keys_packed f = f\<lparr>r_sort_keys_packed := sort_keys_packed\<rparr>"

definition get_r_loops :: "Filesort_tracker \<Rightarrow> ulonglong" where
  "get_r_loops f = et_count (base (time_tracker f))"

text \<open>A division of floating-point numbers by zero has no result here.\<close>

definition get_avg_examined_rows :: "(real \<Rightarrow> real) \<Rightarrow> Filesort_tracker \<Rightarrow> real option" where
  "get_avg_examined_rows rnd f =
     (if get_r_loops f = 0 then None
      else Some (rnd (rnd (real (unat (r_examined_rows f))) / rnd (real (unat (get_r_loops f))))))"

definition get_avg_returned_rows :: "(real \<Rightarrow> real) \<Rightarrow> Filesort_tracker \<Rightarrow> real option" where
  "get_avg_returned_rows rnd f =
     (if get_r_loops f = 0 then None
      else Some (rnd (rnd (real (unat (r_output_rows f))) / rnd (real (unat (get_r_loops f))))))"

definition get_r_filtered :: "(real \<Rightarrow> real) \<Rightarrow> Filesort_tracker \<Rightarrow> real" where
  "get_r_filtered rnd f =
     (if r_examined_rows f > 0
      then rnd (rnd (real (unat (r_sorted_rows f))) / rnd (real (unat (r_examined_rows f)))) else 1)"

section \<open>The rowid filter\<close>

record Rowid_filter_tracker =
  rf_time_tracker :: Time_and_counter_tracker
  container_buff_size :: ulonglong
  container_elements :: uint32
  n_checks :: uint32
  n_positive_checks :: uint32

definition mk_Rowid_filter_tracker :: "ulonglong \<Rightarrow> bool \<Rightarrow> Rowid_filter_tracker" where
  "mk_Rowid_filter_tracker garbage do_timing =
     \<lparr>rf_time_tracker = mk_Time_and_counter_tracker garbage do_timing, container_buff_size = 0, container_elements = 0,
      n_checks = 0, n_positive_checks = 0\<rparr>"

definition rf_start_tracking ::
    "'t process_gap \<Rightarrow> ulonglong \<Rightarrow> Rowid_filter_tracker \<times> 't \<Rightarrow> Rowid_filter_tracker \<times> 't" where
  "rf_start_tracking process now = (\<lambda>(r, thd).
     let (t, thd) = ANALYZE_START_TRACKING process now (rf_time_tracker r, thd) in (r\<lparr>rf_time_tracker := t\<rparr>, thd))"

definition rf_stop_tracking ::
    "'t process_gap \<Rightarrow> 't attach_gap \<Rightarrow> ulonglong \<Rightarrow> Rowid_filter_tracker \<times> 't \<Rightarrow> Rowid_filter_tracker \<times> 't" where
  "rf_stop_tracking process attach now = (\<lambda>(r, thd).
     let (t, thd) = ANALYZE_STOP_TRACKING process attach now (rf_time_tracker r, thd) in (r\<lparr>rf_time_tracker := t\<rparr>, thd))"

text \<open>The product and the quotient have 32 bits before they are stored in a size.\<close>

definition report_container_buff_size :: "uint32 \<Rightarrow> Rowid_filter_tracker \<Rightarrow> Rowid_filter_tracker" where
  "report_container_buff_size elem_size r = r\<lparr>container_buff_size := ucast (container_elements r * elem_size div 8)\<rparr>"

definition increment_checked_elements_count :: "bool \<Rightarrow> Rowid_filter_tracker \<Rightarrow> Rowid_filter_tracker" where
  "increment_checked_elements_count was_checked r =
     (let r = r\<lparr>n_checks := n_checks r + 1\<rparr>
      in if was_checked then r\<lparr>n_positive_checks := n_positive_checks r + 1\<rparr> else r)"

definition increment_container_elements_count :: "Rowid_filter_tracker \<Rightarrow> Rowid_filter_tracker" where
  "increment_container_elements_count r = r\<lparr>container_elements := container_elements r + 1\<rparr>"

definition get_r_selectivity_pct :: "(real \<Rightarrow> real) \<Rightarrow> Rowid_filter_tracker \<Rightarrow> real option" where
  "get_r_selectivity_pct rnd r =
     (if n_checks r = 0 then None
      else Some (rnd (rnd (real (unat (n_positive_checks r))) / rnd (real (unat (n_checks r))))))"

section \<open>Measured time\<close>

fun measure_all ::
    "'t process_gap \<Rightarrow> 't attach_gap \<Rightarrow> (ulonglong \<times> ulonglong) list \<Rightarrow> Exec_time_tracker \<times> 't \<Rightarrow> Exec_time_tracker \<times> 't" where
  "measure_all process attach [] st = st"
| "measure_all process attach ((a, b) # ms) st =
     measure_all process attach ms (stop_tracking process attach b (start_tracking process a st))"

text \<open>After any sequence of measurements the tracker counts them, and its cycles are the sum of the elapsed cycles,
  each computed on a counter of 64 bits that may wrap around in between, less one for every measurement during which it
  did.\<close>

theorem tracked_time:
  "et_count (fst (measure_all process attach ms (t, thd))) = et_count t + of_nat (length ms)
   \<and> et_cycles (fst (measure_all process attach ms (t, thd))) =
       et_cycles t + (\<Sum>(a, b) \<leftarrow> ms. b - a) - of_nat (length (filter (\<lambda>(a, b). b < a) ms))"
proof (induction ms arbitrary: t thd)
  case (Cons m ms)
  obtain a b where m: "m = (a, b)" by fastforce
  define st where "st = stop_tracking process attach b (start_tracking process a (t, thd))"
  have "et_count (fst st) = et_count t + 1" "et_cycles (fst st) = et_cycles t + (b - a) - (if b < a then 1 else 0)"
    by (simp_all add: st_def stop_tracking_def start_tracking_def cycles_stop_tracking_def Let_def)
  moreover have "measure_all process attach (m # ms) (t, thd) = measure_all process attach ms (fst st, snd st)"
    by (simp add: m st_def)
  ultimately show ?case using Cons.IH [of "fst st" "snd st"] by (simp add: m)
qed simp

section \<open>What filesort reports\<close>

definition report_uses :: "'t process_gap \<Rightarrow> (ulonglong \<times> ulonglong) list \<Rightarrow> Filesort_tracker \<times> 't \<Rightarrow> Filesort_tracker \<times> 't" where
  "report_uses process us st = fold (\<lambda>(now, l). report_use process now l) us st"

lemma report_use_fields:
  "et_count (base (time_tracker (fst (report_use process now l (f, thd))))) = et_count (base (time_tracker f)) + 1"
  "r_limit (fst (report_use process now l (f, thd))) =
     (if et_count (base (time_tracker f)) = 0 \<or> r_limit f = l then l else 0)"
  by (auto simp: report_use_def ANALYZE_START_TRACKING_def start_tracking_def incr_loops_def Let_def)

text \<open>After any number of invocations of filesort with limits, none of which is zero, the reported limit is the common
  one if they all had the same, and 0 otherwise.\<close>

theorem reported_limit:
  fixes process :: "'t process_gap" and garbage :: ulonglong and timing :: bool and thd :: 't
  assumes "us \<noteq> []" "\<forall>(now, l) \<in> set us. l \<noteq> 0" "length us < 2 ^ 64"
  defines "f \<equiv> fst (report_uses process us (mk_Filesort_tracker garbage timing, thd))"
  shows "get_r_loops f = of_nat (length us)
    \<and> r_limit f = (if \<forall>(now, l) \<in> set us. l = snd (hd us) then snd (hd us) else 0)"
proof -
  have "get_r_loops (fst (report_uses process us (mk_Filesort_tracker garbage timing, thd))) = of_nat (length us)
    \<and> (us \<noteq> [] \<longrightarrow> r_limit (fst (report_uses process us (mk_Filesort_tracker garbage timing, thd))) =
        (if \<forall>(now, l) \<in> set us. l = snd (hd us) then snd (hd us) else 0))"
    using assms(2,3)
  proof (induction us rule: rev_induct)
    case Nil
    then show ?case
      by (simp add: report_uses_def get_r_loops_def mk_Filesort_tracker_def mk_Time_and_counter_tracker_def mk_Exec_time_tracker_def)
  next
    case (snoc u us)
    obtain now l where u: "u = (now, l)" by fastforce
    obtain g thd' where g: "report_uses process us (mk_Filesort_tracker garbage timing, thd) = (g, thd')" by fastforce
    have r: "report_uses process (us @ [u]) (mk_Filesort_tracker garbage timing, thd) = report_use process now l (g, thd')"
      using g by (simp add: report_uses_def u)
    have c: "et_count (base (time_tracker g)) = of_nat (length us)" using snoc g by (simp add: get_r_loops_def)
    have z: "(of_nat (length us) :: ulonglong) = 0 \<longleftrightarrow> us = []"
      using snoc.prems(2) by (auto simp: word_unat_eq_iff unat_of_nat)
    show ?case
    proof (cases "us = []")
      case True
      then show ?thesis unfolding r using c by (simp add: get_r_loops_def report_use_fields u)
    next
      case False
      have p: "\<forall>(now, l) \<in> set us. l \<noteq> 0" "length us < 2 ^ 64" using snoc.prems by simp_all
      define same where "same \<longleftrightarrow> (\<forall>(now, l) \<in> set us. l = snd (hd us))"
      have ih: "r_limit g = (if same then snd (hd us) else 0)"
        using mp [OF conjunct2 [OF snoc.IH [OF p]] False] unfolding g fst_conv same_def .
      have "snd (hd us) \<noteq> 0" "l \<noteq> 0" using bspec [OF snoc.prems(1), of "hd us"] snoc.prems(1) False by (auto simp: u case_prod_beta)
      moreover have "(\<forall>(now, l) \<in> set (us @ [u]). l = snd (hd (us @ [u]))) \<longleftrightarrow> same \<and> l = snd (hd us)"
        using False unfolding same_def u by (simp only: set_append hd_append if_False ball_Un) simp
      ultimately show ?thesis unfolding r using c z ih False
        by (simp add: get_r_loops_def report_use_fields)
    qed
  qed
  then show ?thesis using assms(1) by (simp add: f_def)
qed

text \<open>The passes of merging are the sum over the invocations, although the counter is below zero in between.\<close>

lemma reported_passes:
  "sort_passes (fold (\<lambda>(p, q) f. fst (report_merge_passes_at_end process attach now q (report_merge_passes_at_start p f, thd))) pqs f)
     = sort_passes f + (\<Sum>(p, q) \<leftarrow> pqs. ucast q - ucast p)"
  by (induction pqs arbitrary: f)
    (auto simp: report_merge_passes_at_end_def report_merge_passes_at_start_def algebra_simps split: prod.splits)

text \<open>A second report of the same buffer size is recorded as several sizes.\<close>

lemma reported_buffer_size_twice:
  "n \<noteq> 0 \<Longrightarrow> sort_buffer_size (report_sort_buffer_size n (report_sort_buffer_size n (mk_Filesort_tracker garbage timing))) = - 1"
  by (simp add: report_sort_buffer_size_def mk_Filesort_tracker_def)

section \<open>Ratios\<close>

lemma ratio_bounds:
  assumes "rounding_ok rnd" "a \<le> b" "0 < b"
  shows "0 \<le> rnd (rnd (real a) / rnd (real b))" "rnd (rnd (real a) / rnd (real b)) \<le> 1"
proof -
  have m: "x \<le> y \<Longrightarrow> rnd x \<le> rnd y" for x y using assms(1) by (simp add: rounding_ok_def mono_def)
  have "rnd 0 = 0" "rnd 1 = 1" using rounding_of_nat [OF assms(1), of 0] rounding_of_nat [OF assms(1), of 1] by simp_all
  moreover have "rnd 0 \<le> rnd (real a)" "rnd (real a) \<le> rnd (real b)" "rnd 1 \<le> rnd (real b)"
    using assms(2,3) by (auto intro: m)
  ultimately have "0 \<le> rnd (real a) / rnd (real b)" "rnd (real a) / rnd (real b) \<le> 1" by auto
  then show "0 \<le> rnd (rnd (real a) / rnd (real b))" "rnd (rnd (real a) / rnd (real b)) \<le> 1"
    using m [of 0] m [of _ 1] \<open>rnd 0 = 0\<close> \<open>rnd 1 = 1\<close> by fastforce+
qed

datatype access = Scan_init | Record_read bool

fun track_access :: "access \<Rightarrow> Table_access_tracker \<Rightarrow> Table_access_tracker" where
  "track_access Scan_init t = on_scan_init t"
| "track_access (Record_read passes) t =
     (let t = on_record_read t in if passes then on_record_after_where t else t)"

lemma track_access_rows:
  "r_rows (fold track_access as t) = r_rows t + of_nat (length (filter (\<lambda>a. a \<noteq> Scan_init) as))"
  "r_rows_after_where (fold track_access as t) = r_rows_after_where t + of_nat (length (filter (\<lambda>a. a = Record_read True) as))"
proof (induction as arbitrary: t)
  case (Cons a as)
  case 1 show ?case using Cons.IH(1) [of "track_access a t"]
    by (cases a) (simp_all add: on_scan_init_def on_record_read_def on_record_after_where_def Let_def)
  case 2 show ?case using Cons.IH(2) [of "track_access a t"]
    by (cases a) (simp_all add: on_scan_init_def on_record_read_def on_record_after_where_def Let_def)
qed simp_all

lemma filter_checks:
  "n_checks (fold increment_checked_elements_count cs r) = n_checks r + of_nat (length cs)"
  "n_positive_checks (fold increment_checked_elements_count cs r) = n_positive_checks r + of_nat (length (filter id cs))"
  by (induction cs arbitrary: r) (simp_all add: increment_checked_elements_count_def Let_def)

text \<open>The observed selectivity of a condition, after fewer than $2^{64}$ rows, and that of a rowid filter, after
  fewer than $2^{32}$ checks, are numbers between 0 and 1 for every rounding.\<close>

theorem observed_selectivities:
  fixes garbage :: ulonglong and timing :: bool
  assumes "rounding_ok rnd" "length as < 2 ^ 64" "length cs < 2 ^ 32" "cs \<noteq> []"
  defines "t \<equiv> fold track_access as mk_Table_access_tracker"
    and "r \<equiv> fold increment_checked_elements_count cs (mk_Rowid_filter_tracker garbage timing)"
  shows "0 \<le> get_filtered_after_where rnd t \<and> get_filtered_after_where rnd t \<le> 1
    \<and> (\<exists>p. get_r_selectivity_pct rnd r = Some p \<and> 0 \<le> p \<and> p \<le> 1)"
proof -
  define n k where "n = length (filter (\<lambda>a. a \<noteq> Scan_init) as)" and "k = length (filter (\<lambda>a. a = Record_read True) as)"
  have "k \<le> n" unfolding n_def k_def
    by (induction as) auto
  moreover have "n < 2 ^ 64" using assms(2) length_filter_le [of "\<lambda>a. a \<noteq> Scan_init" as] unfolding n_def by linarith
  moreover have "r_rows t = of_nat n" "r_rows_after_where t = of_nat k"
    using track_access_rows [of as mk_Table_access_tracker] by (simp_all add: t_def n_def k_def mk_Table_access_tracker_def)
  ultimately have u: "unat (r_rows t) = n" "unat (r_rows_after_where t) = k" by (simp_all add: unat_of_nat)
  have "0 \<le> get_filtered_after_where rnd t \<and> get_filtered_after_where rnd t \<le> 1"
    using ratio_bounds [OF assms(1) \<open>k \<le> n\<close>] by (simp add: get_filtered_after_where_def u word_less_nat_alt)
  moreover have le: "length (filter id cs) \<le> length cs" by (rule length_filter_le)
  moreover have "n_checks r = of_nat (length cs)" "n_positive_checks r = of_nat (length (filter id cs))"
    using filter_checks [of cs "mk_Rowid_filter_tracker garbage timing"] by (simp_all add: r_def mk_Rowid_filter_tracker_def)
  moreover have "length (filter id cs) < 2 ^ 32" using le assms(3) by linarith
  ultimately have v: "unat (n_checks r) = length cs" "unat (n_positive_checks r) = length (filter id cs)"
    using assms(3) by (simp_all add: unat_of_nat)
  then have "n_checks r \<noteq> 0" using assms(4) by (auto simp: word_unat_eq_iff)
  then show ?thesis
    using \<open>0 \<le> get_filtered_after_where rnd t \<and> get_filtered_after_where rnd t \<le> 1\<close>
      ratio_bounds [OF assms(1) le] assms(4)
    by (simp add: get_r_selectivity_pct_def v)
qed

text \<open>The size of a large container wraps around in 32 bits.\<close>

lemma container_size_wraps:
  "container_buff_size (report_container_buff_size 64 ((mk_Rowid_filter_tracker garbage timing)\<lparr>container_elements := 2 ^ 26\<rparr>)) = 0"
  by (simp add: report_container_buff_size_def)

section \<open>Examples\<close>

theorem reported_limit_witness:
  "r_limit (fst (report_uses (\<lambda>_ x. x) [(1, 10), (2, 10), (3, 20)] (mk_Filesort_tracker 0 True, ()))) = 0"
  using reported_limit [of "[(1, 10), (2, 10), (3, 20)]" "\<lambda>_ x. x" 0 True "()"] by simp

theorem observed_selectivities_witness:
  "get_filtered_after_where (\<lambda>x. x) (fold track_access [Scan_init, Record_read True, Record_read False] mk_Table_access_tracker) \<le> 1"
  using observed_selectivities [OF rounding_ok_id, of "[Scan_init, Record_read True, Record_read False]" "[True]" 0 False] by simp

end
