(* ===== verification/Temporal_Values.thy ===== *)
theory Temporal_Values
  imports Int_Types Date_Mode Histogram "HOL-Library.Signed_Division"
begin

text \<open>
  Temporal values: the structures of \<^verbatim>\<open>mysql_time.h\<close>, the inline functions of \<^verbatim>\<open>my_time.h\<close> and \<^verbatim>\<open>sql_time.h\<close>, and of
  \<^verbatim>\<open>sql_type.h\<close> the fixed-point numbers of seconds (\<^verbatim>\<open>Sec6\<close>, \<^verbatim>\<open>Sec9\<close>, \<^verbatim>\<open>Sec6_add\<close>) and the base class
  \<^verbatim>\<open>Temporal\<close>. On the bundled build \<^verbatim>\<open>long\<close> has 32 bits. The functions of \<^verbatim>\<open>my_time.c\<close> and \<^verbatim>\<open>sql_time.cc\<close>, which are
  not part of the repository, are the fields of a record \<open>time_lib\<close> that is an argument of the definitions; the
  predicates with suffix \<open>_ok\<close> state what their names and comments promise. Warnings are the bits of an integer that is
  passed along.
\<close>

section \<open>Structures\<close>

datatype timestamp_type =
  MYSQL_TIMESTAMP_NONE | MYSQL_TIMESTAMP_ERROR | MYSQL_TIMESTAMP_DATE | MYSQL_TIMESTAMP_DATETIME | MYSQL_TIMESTAMP_TIME

fun timestamp_code :: "timestamp_type \<Rightarrow> int" where
  "timestamp_code MYSQL_TIMESTAMP_NONE = - 2"
| "timestamp_code MYSQL_TIMESTAMP_ERROR = - 1"
| "timestamp_code MYSQL_TIMESTAMP_DATE = 0"
| "timestamp_code MYSQL_TIMESTAMP_DATETIME = 1"
| "timestamp_code MYSQL_TIMESTAMP_TIME = 2"

record MYSQL_TIME =
  year :: uint32
  month :: uint32
  day :: uint32
  hour :: uint32
  minute :: uint32
  second :: uint32
  second_part :: uint32
  neg :: bool
  time_type :: timestamp_type

record MYSQL_TIME_STATUS =
  warnings :: uint32
  precision :: uint32
  nanoseconds :: uint32

record timeval =
  tv_sec :: uint32
  tv_usec :: uint32

record time_lib =
  log_10_int :: "nat \<Rightarrow> ulonglong"
  set_zero_time :: "MYSQL_TIME \<Rightarrow> timestamp_type \<Rightarrow> MYSQL_TIME"
  check_time_range :: "MYSQL_TIME \<Rightarrow> uint32 \<Rightarrow> uint32 \<Rightarrow> bool \<times> MYSQL_TIME \<times> uint32"
  number_to_time_only :: "bool \<Rightarrow> ulonglong \<Rightarrow> uint32 \<Rightarrow> uint32 \<Rightarrow> MYSQL_TIME \<Rightarrow> uint32 \<Rightarrow> bool \<times> MYSQL_TIME \<times> uint32"
  number_to_datetime_or_date :: "ulonglong \<Rightarrow> uint32 \<Rightarrow> MYSQL_TIME \<Rightarrow> ulonglong \<Rightarrow> uint32 \<Rightarrow> ulonglong \<times> MYSQL_TIME \<times> uint32"
  calc_time_diff :: "MYSQL_TIME \<Rightarrow> MYSQL_TIME \<Rightarrow> int \<Rightarrow> bool \<times> ulonglong \<times> uint32"
  calc_time_from_sec :: "MYSQL_TIME \<Rightarrow> uint32 \<Rightarrow> uint32 \<Rightarrow> MYSQL_TIME"
  get_date_from_daynr :: "uint32 \<Rightarrow> bool \<times> uint32 \<times> uint32 \<times> uint32"
  calc_daynr :: "uint32 \<Rightarrow> uint32 \<Rightarrow> uint32 \<Rightarrow> uint32"
  pack_time :: "MYSQL_TIME \<Rightarrow> ulonglong"
  check_date_with :: "MYSQL_TIME \<Rightarrow> bool \<Rightarrow> ulonglong \<Rightarrow> uint32 \<Rightarrow> bool \<times> uint32"
  check_datetime_range :: "MYSQL_TIME \<Rightarrow> bool"

section \<open>Limits and inline functions of my\_time.h\<close>

definition TIMESTAMP_MAX_YEAR :: uint32 where "TIMESTAMP_MAX_YEAR = 2038"
definition YY_PART_YEAR :: uint32 where "YY_PART_YEAR = 70"
definition TIMESTAMP_MIN_YEAR :: uint32 where "TIMESTAMP_MIN_YEAR = 1900 + YY_PART_YEAR - 1"
definition MYSQL_TIME_WARN_TRUNCATED :: uint32 where "MYSQL_TIME_WARN_TRUNCATED = 1"
definition MYSQL_TIME_WARN_OUT_OF_RANGE :: uint32 where "MYSQL_TIME_WARN_OUT_OF_RANGE = 2"
definition MYSQL_TIME_NOTE_TRUNCATED :: uint32 where "MYSQL_TIME_NOTE_TRUNCATED = 16"
definition SECONDS_IN_24H :: uint32 where "SECONDS_IN_24H = 86400"
definition TIME_MAX_INTERVAL_HOUR :: uint32 where "TIME_MAX_INTERVAL_HOUR = 87649415"
definition TIME_MAX_INTERVAL_DAY :: uint32 where "TIME_MAX_INTERVAL_DAY = 3652058"
definition TIME_MAX_INTERVAL_DAY_CHAR_LENGTH :: uint32 where "TIME_MAX_INTERVAL_DAY_CHAR_LENGTH = 7"
definition TIME_MAX_HOUR :: uint32 where "TIME_MAX_HOUR = 838"
definition TIME_MAX_MINUTE :: uint32 where "TIME_MAX_MINUTE = 59"
definition TIME_MAX_SECOND :: uint32 where "TIME_MAX_SECOND = 59"
definition TIME_MAX_SECOND_PART :: uint32 where "TIME_MAX_SECOND_PART = 999999"
definition TIME_SECOND_PART_FACTOR :: uint32 where "TIME_SECOND_PART_FACTOR = TIME_MAX_SECOND_PART + 1"
definition TIME_SECOND_PART_DIGITS :: uint32 where "TIME_SECOND_PART_DIGITS = 6"
definition TIME_MAX_VALUE_SECONDS :: uint32 where
  "TIME_MAX_VALUE_SECONDS = TIME_MAX_HOUR * 3600 + TIME_MAX_MINUTE * 60 + TIME_MAX_SECOND"

lemmas time_limits = TIMESTAMP_MAX_YEAR_def YY_PART_YEAR_def TIMESTAMP_MIN_YEAR_def SECONDS_IN_24H_def
  TIME_MAX_INTERVAL_HOUR_def TIME_MAX_INTERVAL_DAY_def TIME_MAX_HOUR_def TIME_MAX_MINUTE_def TIME_MAX_SECOND_def
  TIME_MAX_SECOND_PART_def TIME_SECOND_PART_FACTOR_def TIME_SECOND_PART_DIGITS_def TIME_MAX_VALUE_SECONDS_def

definition my_time_status_init :: "MYSQL_TIME_STATUS \<Rightarrow> MYSQL_TIME_STATUS" where
  "my_time_status_init status = status\<lparr>warnings := 0, precision := 0, nanoseconds := 0\<rparr>"

definition validate_timestamp_range :: "MYSQL_TIME \<Rightarrow> bool" where
  "validate_timestamp_range t \<longleftrightarrow>
     \<not> ((TIMESTAMP_MAX_YEAR < year t \<or> year t < TIMESTAMP_MIN_YEAR)
        \<or> (year t = TIMESTAMP_MAX_YEAR \<and> (1 < month t \<or> 19 < day t))
        \<or> (year t = TIMESTAMP_MIN_YEAR \<and> (month t < 12 \<or> day t < 31)))"

text \<open>Division and remainder of the C language on signed integers.\<close>

definition c_div :: "'a::len word \<Rightarrow> 'a word \<Rightarrow> 'a word" where
  "c_div a b = word_of_int (sint a sdiv sint b)"

definition c_mod :: "'a::len word \<Rightarrow> 'a word \<Rightarrow> 'a word" where
  "c_mod a b = word_of_int (sint a smod sint b)"

definition sec_part_shift :: "time_lib \<Rightarrow> ulonglong \<Rightarrow> uint32 \<Rightarrow> ulonglong" where
  "sec_part_shift L part digits = c_div part (log_10_int L (unat (TIME_SECOND_PART_DIGITS - digits)))"

definition sec_part_unshift :: "time_lib \<Rightarrow> ulonglong \<Rightarrow> uint32 \<Rightarrow> ulonglong" where
  "sec_part_unshift L part digits = part * log_10_int L (unat (TIME_SECOND_PART_DIGITS - digits))"

definition my_time_fraction_remainder :: "time_lib \<Rightarrow> uint32 \<Rightarrow> uint32 \<Rightarrow> uint32" where
  "my_time_fraction_remainder L nr decimals =
     c_mod nr (ucast (log_10_int L (unat (TIME_SECOND_PART_DIGITS - decimals))))"

definition my_datetime_trunc :: "time_lib \<Rightarrow> uint32 \<Rightarrow> MYSQL_TIME \<Rightarrow> MYSQL_TIME" where
  "my_datetime_trunc L decimals ltime =
     ltime\<lparr>second_part := second_part ltime - my_time_fraction_remainder L (second_part ltime) decimals\<rparr>"

definition my_time_trunc :: "time_lib \<Rightarrow> uint32 \<Rightarrow> MYSQL_TIME \<Rightarrow> MYSQL_TIME" where
  "my_time_trunc L decimals ltime =
     (let ltime = ltime\<lparr>second_part := second_part ltime - my_time_fraction_remainder L (second_part ltime) decimals\<rparr>
      in if second_part ltime = 0 \<and> neg ltime \<and> hour ltime = 0 \<and> minute ltime = 0 \<and> second ltime = 0
         then ltime\<lparr>neg := False\<rparr> else ltime)"

definition my_timeval_trunc :: "time_lib \<Rightarrow> uint32 \<Rightarrow> timeval \<Rightarrow> timeval" where
  "my_timeval_trunc L decimals tv = tv\<lparr>tv_usec := tv_usec tv - my_time_fraction_remainder L (tv_usec tv) decimals\<rparr>"

section \<open>Inline functions of sql\_time.h\<close>

definition datetime_to_date :: "MYSQL_TIME \<Rightarrow> MYSQL_TIME" where
  "datetime_to_date ltime =
     ltime\<lparr>second_part := 0, hour := 0, minute := 0, second := 0, time_type := MYSQL_TIMESTAMP_DATE\<rparr>"

definition date_to_datetime :: "MYSQL_TIME \<Rightarrow> MYSQL_TIME" where
  "date_to_datetime ltime = ltime\<lparr>time_type := MYSQL_TIMESTAMP_DATETIME\<rparr>"

definition non_zero_hhmmssuu :: "MYSQL_TIME \<Rightarrow> bool" where
  "non_zero_hhmmssuu ltime \<longleftrightarrow> hour ltime \<noteq> 0 \<or> minute ltime \<noteq> 0 \<or> second ltime \<noteq> 0 \<or> second_part ltime \<noteq> 0"

definition non_zero_YYMMDD :: "MYSQL_TIME \<Rightarrow> bool" where
  "non_zero_YYMMDD ltime \<longleftrightarrow> year ltime \<noteq> 0 \<or> month ltime \<noteq> 0 \<or> day ltime \<noteq> 0"

definition non_zero_date :: "MYSQL_TIME \<Rightarrow> bool" where
  "non_zero_date ltime \<longleftrightarrow>
     non_zero_YYMMDD ltime \<or> (time_type ltime = MYSQL_TIMESTAMP_DATETIME \<and> non_zero_hhmmssuu ltime)"

definition check_date :: "time_lib \<Rightarrow> MYSQL_TIME \<Rightarrow> date_conv_mode_t \<Rightarrow> uint32 \<Rightarrow> bool \<times> uint32" where
  "check_date L ltime flags was_cut =
     check_date_with L ltime (non_zero_date ltime) (conv_ulonglong (conv_and flags TIME_MODE_FOR_XXX_TO_DATE)) was_cut"

section \<open>Sec6 and Sec9\<close>

definition TIME_FUZZY_DATES :: date_conv_mode_t where
  "TIME_FUZZY_DATES = mk_date_conv_mode_t (ucast FUZZY_DATES)"

definition TIME_TIME_ONLY :: date_conv_mode_t where
  "TIME_TIME_ONLY = mk_date_conv_mode_t (ucast TIME_ONLY)"

definition TIME_INTERVAL_hhmmssff :: date_conv_mode_t where
  "TIME_INTERVAL_hhmmssff = mk_date_conv_mode_t (ucast INTERVAL_hhmmssff)"

definition TIME_INTERVAL_DAY :: date_conv_mode_t where
  "TIME_INTERVAL_DAY = mk_date_conv_mode_t (ucast INTERVAL_DAY)"

definition TIME_INVALID_DATES :: date_conv_mode_t where
  "TIME_INVALID_DATES = mk_date_conv_mode_t (ucast INVALID_DATES)"

abbreviation TIME_FRAC_NONE :: time_round_mode_t where "TIME_FRAC_NONE \<equiv> Time_round_mode FRAC_NONE"
abbreviation TIME_FRAC_TRUNCATE :: time_round_mode_t where "TIME_FRAC_TRUNCATE \<equiv> Time_round_mode FRAC_TRUNCATE"
abbreviation TIME_FRAC_ROUND :: time_round_mode_t where "TIME_FRAC_ROUND \<equiv> Time_round_mode FRAC_ROUND"

record Sec6 =
  m_sec :: ulonglong
  m_usec :: uint32
  m_neg :: bool
  m_truncated :: bool

definition make_from_int :: "Longlong_hybrid \<Rightarrow> 'a Sec6_scheme \<Rightarrow> 'a Sec6_scheme" where
  "make_from_int nr s = s\<lparr>m_neg := Int_Types.neg nr, m_sec := hybrid_abs nr, m_usec := 0, m_truncated := False\<rparr>"

definition sec6_reset :: "'a Sec6_scheme \<Rightarrow> 'a Sec6_scheme" where
  "sec6_reset s = s\<lparr>m_sec := 0, m_usec := 0, m_neg := False, m_truncated := False\<rparr>"

definition sec6_add_nanoseconds :: "uint32 \<Rightarrow> 'a Sec6_scheme \<Rightarrow> bool \<times> 'a Sec6_scheme" where
  "sec6_add_nanoseconds n s =
     (if n < 500 then (False, s)
      else let s = s\<lparr>m_usec := m_usec s + (n + 500) div 1000\<rparr>
           in if m_usec s < 1000000 then (False, s)
              else (True, s\<lparr>m_usec := m_usec s mod 1000000\<rparr>))"

definition mk_Sec6 :: "Sec6 \<Rightarrow> Longlong_hybrid \<Rightarrow> Sec6" where
  "mk_Sec6 garbage nr = make_from_int nr garbage"

definition to_interval_hhmmssff_only ::
    "time_lib \<Rightarrow> 'a Sec6_scheme \<Rightarrow> MYSQL_TIME \<Rightarrow> uint32 \<Rightarrow> bool \<times> MYSQL_TIME \<times> uint32" where
  "to_interval_hhmmssff_only L s dest warn =
     number_to_time_only L (m_neg s) (m_sec s) (m_usec s) TIME_MAX_INTERVAL_HOUR dest warn"

definition to_datetime_or_date ::
    "time_lib \<Rightarrow> 'a Sec6_scheme \<Rightarrow> MYSQL_TIME \<Rightarrow> uint32 \<Rightarrow> date_conv_mode_t \<Rightarrow> bool \<times> MYSQL_TIME \<times> uint32" where
  "to_datetime_or_date L s dest warn flags =
     (if m_neg s then (True, dest, MYSQL_TIME_WARN_OUT_OF_RANGE)
      else let (rc, dest, warn) = number_to_datetime_or_date L (m_sec s) (m_usec s) dest
                 (conv_ulonglong (conv_and flags TIME_MODE_FOR_XXX_TO_DATE)) warn
           in (rc = - 1, dest, warn))"

definition to_datetime_or_to_interval_hhmmssff ::
    "time_lib \<Rightarrow> 'a Sec6_scheme \<Rightarrow> MYSQL_TIME \<Rightarrow> uint32 \<Rightarrow> bool \<times> MYSQL_TIME \<times> uint32" where
  "to_datetime_or_to_interval_hhmmssff L s dest warn =
     (if 999999995959 < m_sec s \<and> m_sec s \<le> 99991231235959 \<and> \<not> m_neg s
      then to_datetime_or_date L s dest warn TIME_INVALID_DATES
      else if ucast TIME_MAX_INTERVAL_HOUR < m_sec s div 10000 then (True, dest, MYSQL_TIME_WARN_OUT_OF_RANGE)
      else to_interval_hhmmssff_only L s dest warn)"

definition to_datetime_or_time ::
    "time_lib \<Rightarrow> 'a Sec6_scheme \<Rightarrow> MYSQL_TIME \<Rightarrow> uint32 \<Rightarrow> date_conv_mode_t \<Rightarrow> bool \<times> MYSQL_TIME \<times> uint32" where
  "to_datetime_or_time L s dest warn mode =
     (if 9999999 < m_sec s \<and> m_sec s \<le> 99991231235959 \<and> \<not> m_neg s
      then let (rc, dest, warn) = number_to_datetime_or_date L (m_sec s) (m_usec s) dest
                 (conv_ulonglong (conv_and mode TIME_MODE_FOR_XXX_TO_DATE)) warn
           in (sint rc < 0, dest, warn)
      else number_to_time_only L (m_neg s) (m_sec s) (m_usec s) TIME_MAX_HOUR dest warn)"

definition sec_to_time :: "time_lib \<Rightarrow> 'a Sec6_scheme \<Rightarrow> MYSQL_TIME \<Rightarrow> uint32 \<Rightarrow> uint32 \<Rightarrow> bool \<times> MYSQL_TIME" where
  "sec_to_time L s ltime dec unused =
     (let ltime = set_zero_time L ltime MYSQL_TIMESTAMP_TIME;
          ltime = ltime\<lparr>neg := m_neg s\<rparr>
      in if ucast TIME_MAX_VALUE_SECONDS < m_sec s
         then let ltime = ltime\<lparr>hour := TIME_MAX_HOUR + 1\<rparr>;
                  (_, ltime, _) = check_time_range L ltime dec unused
              in (True, ltime)
         else (False, ltime\<lparr>hour := ucast (m_sec s div 3600), minute := ucast (m_sec s mod 3600) div 60,
                            second := ucast (m_sec s) mod 60, second_part := m_usec s\<rparr>))"

definition sec6_trunc :: "time_lib \<Rightarrow> uint32 \<Rightarrow> 'a Sec6_scheme \<Rightarrow> 'a Sec6_scheme" where
  "sec6_trunc L dec s = s\<lparr>m_usec := m_usec s - my_time_fraction_remainder L (m_usec s) dec\<rparr>"

record Sec9 = Sec6 +
  m_nsec :: uint32

definition sec9_make_from_int :: "Longlong_hybrid \<Rightarrow> Sec9 \<Rightarrow> Sec9" where
  "sec9_make_from_int nr s = (make_from_int nr s)\<lparr>m_nsec := 0\<rparr>"

definition sec9_trunc :: "time_lib \<Rightarrow> uint32 \<Rightarrow> Sec9 \<Rightarrow> Sec9" where
  "sec9_trunc L dec s = sec6_trunc L dec (s\<lparr>m_nsec := 0\<rparr>)"

text \<open>The rounding itself is defined elsewhere.\<close>

definition sec9_round_mode :: "time_lib \<Rightarrow> (uint32 \<Rightarrow> Sec9 \<Rightarrow> Sec9) \<Rightarrow> uint32 \<Rightarrow> time_round_mode_t \<Rightarrow> Sec9 \<Rightarrow> Sec9" where
  "sec9_round_mode L rnd dec mode s = (if round_eq mode TIME_FRAC_TRUNCATE then sec9_trunc L dec s else rnd dec s)"

section \<open>Sec6\_add\<close>

record Sec6_add =
  a_sec :: ulonglong
  a_usec :: uint32
  a_neg :: bool
  a_error :: bool

definition mk_Sec6_add :: "time_lib \<Rightarrow> Sec6_add \<Rightarrow> MYSQL_TIME \<Rightarrow> MYSQL_TIME \<Rightarrow> int \<Rightarrow> Sec6_add" where
  "mk_Sec6_add L garbage ltime1 ltime2 sign =
     (if time_type ltime2 \<noteq> MYSQL_TIMESTAMP_TIME then garbage\<lparr>a_error := True\<rparr>
      else let sign = (if neg ltime1 \<noteq> neg ltime2 then - sign else sign);
               (n, s, u) = calc_time_diff L ltime1 ltime2 (- sign)
           in \<lparr>a_sec = s, a_usec = u, a_neg = (if neg ltime1 \<and> (s \<noteq> 0 \<or> u \<noteq> 0) then \<not> n else n), a_error = False\<rparr>)"

definition zero_time :: "timestamp_type \<Rightarrow> MYSQL_TIME" where
  "zero_time ty = \<lparr>year = 0, month = 0, day = 0, hour = 0, minute = 0, second = 0, second_part = 0, neg = False, time_type = ty\<rparr>"

definition to_hh24mmssff :: "time_lib \<Rightarrow> Sec6_add \<Rightarrow> timestamp_type \<Rightarrow> MYSQL_TIME" where
  "to_hh24mmssff L a tstype =
     (let ltime = zero_time MYSQL_TIMESTAMP_DATE;
          ltime = ltime\<lparr>neg := a_neg a\<rparr>;
          ltime = calc_time_from_sec L ltime (ucast (a_sec a mod ucast SECONDS_IN_24H)) (a_usec a)
      in ltime\<lparr>time_type := tstype\<rparr>)"

definition to_days_abs :: "Sec6_add \<Rightarrow> uint32" where
  "to_days_abs a = ucast (a_sec a div ucast SECONDS_IN_24H)"

text \<open>The final adjustment to the range of \<^verbatim>\<open>TIME\<close>, with a warning to the session, is an argument.\<close>

definition to_time :: "time_lib \<Rightarrow> (MYSQL_TIME \<Rightarrow> uint32 \<Rightarrow> bool \<times> MYSQL_TIME) \<Rightarrow> Sec6_add \<Rightarrow> MYSQL_TIME \<Rightarrow> uint32 \<Rightarrow> bool \<times> MYSQL_TIME" where
  "to_time L adjust_time_range_with_warn a ltime decimals =
     (if a_error a then (True, ltime)
      else let ltime = to_hh24mmssff L a MYSQL_TIMESTAMP_TIME;
               ltime = ltime\<lparr>hour := hour ltime + to_days_abs a * 24\<rparr>
           in adjust_time_range_with_warn ltime decimals)"

definition to_datetime :: "time_lib \<Rightarrow> Sec6_add \<Rightarrow> MYSQL_TIME \<Rightarrow> bool \<times> MYSQL_TIME" where
  "to_datetime L a ltime =
     (if a_error a \<or> a_neg a then (True, ltime)
      else let ltime = to_hh24mmssff L a MYSQL_TIMESTAMP_DATETIME;
               (rc, y, m, d) = get_date_from_daynr L (to_days_abs a);
               ltime = ltime\<lparr>year := y, month := m, day := d\<rparr>
           in (rc \<or> day ltime = 0, ltime))"

section \<open>Year\<close>

record Year =
  m_year :: uint32
  y_truncated :: bool

definition mk_Year :: Year where
  "mk_Year = \<lparr>m_year = 0, y_truncated = False\<rparr>"

definition to_YYYYMMDD :: "Year \<Rightarrow> uint32" where
  "to_YYYYMMDD y = m_year y * 10000"

section \<open>Temporal\<close>

definition is_valid_temporal :: "MYSQL_TIME \<Rightarrow> bool" where
  "is_valid_temporal t \<longleftrightarrow> time_type t \<noteq> MYSQL_TIMESTAMP_NONE"

definition type_name_by_timestamp_type :: "timestamp_type \<Rightarrow> string" where
  "type_name_by_timestamp_type ty =
     (case ty of MYSQL_TIMESTAMP_DATE \<Rightarrow> ''date'' | MYSQL_TIMESTAMP_TIME \<Rightarrow> ''time'' | _ \<Rightarrow> ''datetime'')"

definition conversion_type_name :: "date_mode_t \<Rightarrow> timestamp_type \<Rightarrow> string" where
  "conversion_type_name mode tstype =
     (if 0 \<le> timestamp_code tstype then type_name_by_timestamp_type tstype
      else if conv_bool (mode_and_conv mode (conv_or TIME_INTERVAL_hhmmssff TIME_INTERVAL_DAY)) then ''interval''
      else if conv_bool (mode_and_conv mode TIME_TIME_ONLY) then ''time'' else ''datetime'')"

definition mk_Options :: "date_conv_mode_t \<Rightarrow> time_round_mode_t \<Rightarrow> date_mode_t" where
  "mk_Options flags round_mode = conv_or_round flags round_mode"

definition make_fuzzy_date :: "time_lib \<Rightarrow> date_conv_mode_t \<Rightarrow> MYSQL_TIME \<Rightarrow> MYSQL_TIME" where
  "make_fuzzy_date L fuzzydate t =
     (let tstype = (if \<not> conv_bool (conv_and fuzzydate TIME_FUZZY_DATES) then MYSQL_TIMESTAMP_NONE
                    else if conv_bool (conv_and fuzzydate TIME_TIME_ONLY) then MYSQL_TIMESTAMP_TIME
                    else MYSQL_TIMESTAMP_DATETIME)
      in set_zero_time L t tstype)"

definition temporal_to_double :: "(real \<Rightarrow> real) \<Rightarrow> bool \<Rightarrow> ulonglong \<Rightarrow> uint32 \<Rightarrow> real" where
  "temporal_to_double rnd negate num part =
     (let d = rnd (rnd (real (unat num)) + rnd (rnd (real (unat part)) / real (unat TIME_SECOND_PART_FACTOR)))
      in if negate then - d else d)"

definition make_from_out_of_range :: "MYSQL_TIME \<Rightarrow> MYSQL_TIME \<times> uint32" where
  "make_from_out_of_range t = (t\<lparr>time_type := MYSQL_TIMESTAMP_NONE\<rparr>, MYSQL_TIME_WARN_OUT_OF_RANGE)"

text \<open>Conversions of numbers: \<open>convert\<close> is \<^verbatim>\<open>Sec6::convert_to_mysql_time\<close>, and \<open>add_round\<close> is
  \<^verbatim>\<open>add_nanoseconds_with_round\<close>.\<close>

type_synonym convert_fun = "Sec6 \<Rightarrow> date_mode_t \<Rightarrow> MYSQL_TIME \<Rightarrow> uint32 \<Rightarrow> bool \<times> MYSQL_TIME \<times> uint32"
type_synonym add_round_fun = "date_conv_mode_t \<Rightarrow> uint32 \<Rightarrow> MYSQL_TIME \<Rightarrow> uint32 \<Rightarrow> bool \<times> MYSQL_TIME \<times> uint32"

definition temporal_add_nanoseconds ::
    "add_round_fun \<Rightarrow> date_mode_t \<Rightarrow> uint32 \<Rightarrow> MYSQL_TIME \<Rightarrow> uint32 \<Rightarrow> bool \<times> MYSQL_TIME \<times> uint32" where
  "temporal_add_nanoseconds add_round mode nsec t warn =
     (if mode_to_round mode = Some TIME_FRAC_ROUND then add_round (mode_to_conv mode) nsec t warn else (False, t, warn))"

definition make_from_sec6 ::
    "time_lib \<Rightarrow> convert_fun \<Rightarrow> Sec6 \<Rightarrow> date_mode_t \<Rightarrow> MYSQL_TIME \<Rightarrow> 'a MYSQL_TIME_STATUS_scheme \<Rightarrow> MYSQL_TIME \<times> 'a MYSQL_TIME_STATUS_scheme" where
  "make_from_sec6 L convert nr mode t st =
     (let (rc, t, w) = convert nr mode t (warnings st)
      in (if rc then make_fuzzy_date L (mode_to_conv mode) t else t, st\<lparr>warnings := w\<rparr>))"

definition make_from_sec9 ::
    "time_lib \<Rightarrow> convert_fun \<Rightarrow> add_round_fun \<Rightarrow> Sec9 \<Rightarrow> date_mode_t \<Rightarrow> MYSQL_TIME \<Rightarrow> 'a MYSQL_TIME_STATUS_scheme
      \<Rightarrow> MYSQL_TIME \<times> 'a MYSQL_TIME_STATUS_scheme" where
  "make_from_sec9 L convert add_round nr mode t st =
     (let (rc, t, w) = convert (Sec6.truncate nr) mode t (warnings st);
          (rc, t, w) = (if rc then (True, t, w) else temporal_add_nanoseconds add_round mode (m_nsec nr) t w)
      in (if rc then make_fuzzy_date L (mode_to_conv mode) t else t, st\<lparr>warnings := w\<rparr>))"

text \<open>Conversions of strings: which of the functions is called, and with which bounds on the hours.\<close>

datatype string_conversion =
    Datetime_or_date_or_interval_day ulonglong uint32 uint32
  | Datetime_or_date_or_interval_hhmmssff ulonglong uint32 uint32
  | Datetime_or_date_or_time ulonglong uint32 uint32
  | Datetime_or_date ulonglong

definition ascii_to_datetime_or_date_or_interval_DDhhmmssff :: "date_mode_t \<Rightarrow> string_conversion" where
  "ascii_to_datetime_or_date_or_interval_DDhhmmssff mode =
     (let cflags = conv_ulonglong (mode_and_conv mode TIME_MODE_FOR_XXX_TO_DATE)
      in if conv_bool (mode_and_conv mode TIME_INTERVAL_DAY)
         then Datetime_or_date_or_interval_day cflags TIME_MAX_INTERVAL_HOUR TIME_MAX_INTERVAL_HOUR
         else Datetime_or_date_or_interval_hhmmssff cflags TIME_MAX_INTERVAL_HOUR TIME_MAX_INTERVAL_HOUR)"

definition ascii_to_datetime_or_date_or_time :: "date_mode_t \<Rightarrow> string_conversion" where
  "ascii_to_datetime_or_date_or_time fuzzydate =
     Datetime_or_date_or_time (conv_ulonglong (mode_and_conv fuzzydate TIME_MODE_FOR_XXX_TO_DATE)) TIME_MAX_HOUR (- 1)"

definition ascii_to_datetime_or_date :: "date_mode_t \<Rightarrow> string_conversion" where
  "ascii_to_datetime_or_date fuzzydate = Datetime_or_date (conv_ulonglong (mode_and_conv fuzzydate TIME_MODE_FOR_XXX_TO_DATE))"

definition ascii_to_temporal :: "date_mode_t \<Rightarrow> string_conversion" where
  "ascii_to_temporal mode =
     (if conv_bool (mode_and_conv mode (conv_or TIME_INTERVAL_hhmmssff TIME_INTERVAL_DAY))
      then ascii_to_datetime_or_date_or_interval_DDhhmmssff mode
      else if conv_bool (mode_and_conv mode TIME_TIME_ONLY) then ascii_to_datetime_or_date_or_time mode
      else ascii_to_datetime_or_date mode)"

definition has_valid_mmssff :: "MYSQL_TIME \<Rightarrow> bool" where
  "has_valid_mmssff t \<longleftrightarrow> minute t \<le> TIME_MAX_MINUTE \<and> second t \<le> TIME_MAX_SECOND \<and> second_part t \<le> TIME_MAX_SECOND_PART"

definition has_zero_YYYYMM :: "MYSQL_TIME \<Rightarrow> bool" where
  "has_zero_YYYYMM t \<longleftrightarrow> year t = 0 \<and> month t = 0"

definition has_zero_YYYYMMDD :: "MYSQL_TIME \<Rightarrow> bool" where
  "has_zero_YYYYMMDD t \<longleftrightarrow> year t = 0 \<and> month t = 0 \<and> day t = 0"

definition time_hhmmssff_set_max :: "uint32 \<Rightarrow> MYSQL_TIME \<Rightarrow> MYSQL_TIME" where
  "time_hhmmssff_set_max max_hour t =
     t\<lparr>hour := max_hour, minute := TIME_MAX_MINUTE, second := TIME_MAX_SECOND, second_part := TIME_MAX_SECOND_PART\<rparr>"

definition add_nanoseconds_ssff :: "uint32 \<Rightarrow> MYSQL_TIME \<Rightarrow> bool \<times> MYSQL_TIME" where
  "add_nanoseconds_ssff n t =
     (if n < 500 then (False, t)
      else let t = t\<lparr>second_part := second_part t + (n + 500) div 1000\<rparr>
           in if second_part t < 1000000 then (False, t)
              else let t = t\<lparr>second_part := second_part t mod 1000000\<rparr>
                   in if second t < 59 then (False, t\<lparr>second := second t + 1\<rparr>) else (True, t\<lparr>second := 0\<rparr>))"

definition add_nanoseconds_mmssff :: "uint32 \<Rightarrow> MYSQL_TIME \<Rightarrow> bool \<times> MYSQL_TIME" where
  "add_nanoseconds_mmssff n t =
     (let (c, t) = add_nanoseconds_ssff n t
      in if \<not> c then (False, t)
         else if minute t < 59 then (False, t\<lparr>minute := minute t + 1\<rparr>) else (True, t\<lparr>minute := 0\<rparr>))"

definition fraction_remainder :: "time_lib \<Rightarrow> MYSQL_TIME \<Rightarrow> uint32 \<Rightarrow> uint32" where
  "fraction_remainder L t dec = my_time_fraction_remainder L (second_part t) dec"

section \<open>Rounding up to microseconds\<close>

text \<open>What the functions that add nanoseconds have in common: a number below a limit, to which the microseconds are
  added; the function tells whether the limit was passed.\<close>

locale rounding_carry =
  fixes total :: "'s \<Rightarrow> nat" and limit :: nat and valid :: "'s \<Rightarrow> bool" and add :: "uint32 \<Rightarrow> 's \<Rightarrow> bool \<times> 's"
  assumes total_less: "valid s \<Longrightarrow> total s < limit"
    and add_valid: "valid s \<Longrightarrow> n \<le> 1000000000 \<Longrightarrow> valid (snd (add n s))"
    and add_total: "valid s \<Longrightarrow> n \<le> 1000000000 \<Longrightarrow>
      total (snd (add n s)) + (if fst (add n s) then limit else 0) = total s + (unat n + 500) div 1000"
begin

lemma carry_iff: "valid s \<Longrightarrow> n \<le> 1000000000 \<Longrightarrow> fst (add n s) \<longleftrightarrow> limit \<le> total s + (unat n + 500) div 1000"
  using add_total [of s n] total_less [OF add_valid [of s n]] by (auto split: if_splits)

lemma total_mod: "valid s \<Longrightarrow> n \<le> 1000000000 \<Longrightarrow> total (snd (add n s)) = (total s + (unat n + 500) div 1000) mod limit"
  using add_total [of s n] total_less [OF add_valid [of s n]]
  by (metis (full_types) add.right_neutral mod_add_self2 mod_less)

end

lemma unat_add_micro:
  assumes "unat (u :: uint32) < 1000000" "n \<le> (1000000000 :: uint32)"
  shows "unat (u + (n + 500) div 1000) = unat u + (unat n + 500) div 1000"
proof -
  have n: "unat n \<le> 1000000000" using assms(2) by (simp add: word_le_nat_alt)
  then have "unat (n + 500) = unat n + 500" by (simp add: unat_word_ariths)
  then have d: "unat ((n + 500) div 1000) = (unat n + 500) div 1000" by (simp add: unat_div_distrib)
  then show ?thesis using assms(1) n by (simp add: unat_word_ariths)
qed

lemma micro_small: "unat (n :: uint32) < 500 \<Longrightarrow> (unat n + 500) div 1000 = 0"
  by simp

lemma micro_le: "n \<le> (1000000000 :: uint32) \<Longrightarrow> (unat n + 500) div 1000 \<le> 1000000"
  by (simp add: word_le_nat_alt)

text \<open>One step of all of them: the microseconds after the addition.\<close>

lemma micro_step:
  assumes "unat (u :: uint32) < 1000000" "n \<le> (1000000000 :: uint32)"
  defines "v \<equiv> u + (n + 500) div 1000"
  shows "n < 500 \<Longrightarrow> (unat n + 500) div 1000 = 0"
    and "v < 1000000 \<longleftrightarrow> unat u + (unat n + 500) div 1000 < 1000000"
    and "unat v = unat u + (unat n + 500) div 1000"
    and "1000000 \<le> unat v \<Longrightarrow> unat (v mod 1000000) + 1000000 = unat v"
    and "unat (v mod 1000000) < 1000000"
proof -
  show "n < 500 \<Longrightarrow> (unat n + 500) div 1000 = 0" by (simp add: word_less_nat_alt)
  show v: "unat v = unat u + (unat n + 500) div 1000" using unat_add_micro [OF assms(1,2)] by (simp add: v_def)
  then show "v < 1000000 \<longleftrightarrow> unat u + (unat n + 500) div 1000 < 1000000" by (simp add: word_less_nat_alt)
  have "unat v < 2000000" using v assms(1) micro_le [OF assms(2)] by linarith
  then show "1000000 \<le> unat v \<Longrightarrow> unat (v mod 1000000) + 1000000 = unat v"
    by (simp add: unat_mod_distrib le_mod_geq)
  show "unat (v mod 1000000) < 1000000" by (simp add: unat_mod_distrib)
qed

interpretation sec6: rounding_carry "\<lambda>s. unat (m_usec s)" 1000000 "\<lambda>s. m_usec s < 1000000" sec6_add_nanoseconds
proof (unfold_locales, goal_cases)
  case (1 s)
  then show ?case by (simp add: word_less_nat_alt)
next
  case (2 s n)
  then show ?case using micro_step [of "m_usec s" n]
    by (auto simp: sec6_add_nanoseconds_def Let_def word_less_nat_alt)
next
  case (3 s n)
  then show ?case using micro_step [of "m_usec s" n]
    by (auto simp: sec6_add_nanoseconds_def Let_def word_less_nat_alt)
qed


definition ssff_total :: "MYSQL_TIME \<Rightarrow> nat" where
  "ssff_total t = unat (second t) * 1000000 + unat (second_part t)"

definition mmssff_total :: "MYSQL_TIME \<Rightarrow> nat" where
  "mmssff_total t = (unat (minute t) * 60 + unat (second t)) * 1000000 + unat (second_part t)"

lemma unat_le_59: "w \<le> (59 :: uint32) \<longleftrightarrow> unat w < 60"
  by (simp add: word_le_nat_alt less_Suc_eq_le [symmetric])

lemma unat_le_999999: "w \<le> (999999 :: uint32) \<longleftrightarrow> unat w < 1000000"
  by (simp add: word_le_nat_alt less_Suc_eq_le [symmetric])

lemma unat_succ_59: "unat (w :: uint32) < 59 \<Longrightarrow> unat (w + 1) = unat w + 1"
  by (simp add: unat_word_ariths)

lemmas mmssff_simps = has_valid_mmssff_def time_limits unat_le_59 unat_le_999999 ssff_total_def mmssff_total_def

lemma add_nanoseconds_ssff_cases:
  assumes "second t \<le> 59" "second_part t \<le> 999999" "n \<le> 1000000000"
  obtains u where "unat u = unat (second_part t) + (unat n + 500) div 1000" "unat u < 1000000"
      "add_nanoseconds_ssff n t = (False, t\<lparr>second_part := u\<rparr>)"
    | u where "unat u + 1000000 = unat (second_part t) + (unat n + 500) div 1000" "unat u < 1000000" "second t < 59"
      "add_nanoseconds_ssff n t = (False, t\<lparr>second_part := u, second := second t + 1\<rparr>)"
    | u where "unat u + 1000000 = unat (second_part t) + (unat n + 500) div 1000" "unat u < 1000000" "second t = 59"
      "add_nanoseconds_ssff n t = (True, t\<lparr>second_part := u, second := 0\<rparr>)"
proof -
  let ?v = "second_part t + (n + 500) div 1000"
  have p: "unat (second_part t) < 1000000" using assms(2) by (simp add: unat_le_999999)
  note m = micro_step [OF p assms(3)]
  consider "n < 500" | "\<not> n < 500" "?v < 1000000" | "\<not> n < 500" "\<not> ?v < 1000000" "second t < 59"
    | "\<not> n < 500" "\<not> ?v < 1000000" "second t = 59"
    using assms(1) by fastforce
  then show thesis
  proof cases
    case 1
    then show ?thesis using m(1) p that(1) [of "second_part t"] by (simp add: add_nanoseconds_ssff_def)
  next
    case 2
    then show ?thesis using m(2,3) that(1) [of ?v] by (simp add: add_nanoseconds_ssff_def)
  next
    case 3
    then have "1000000 \<le> unat ?v" by (simp add: word_less_nat_alt)
    with 3 show ?thesis using m(3-5) that(2) [of "?v mod 1000000"] by (simp add: add_nanoseconds_ssff_def Let_def)
  next
    case 4
    then have "1000000 \<le> unat ?v" by (simp add: word_less_nat_alt)
    with 4 show ?thesis using m(3-5) that(3) [of "?v mod 1000000"] by (simp add: add_nanoseconds_ssff_def Let_def)
  qed
qed

lemma ssff_step:
  assumes "second t \<le> 59" "second_part t \<le> 999999" "n \<le> 1000000000"
  shows "second (snd (add_nanoseconds_ssff n t)) \<le> 59 \<and> second_part (snd (add_nanoseconds_ssff n t)) \<le> 999999
      \<and> minute (snd (add_nanoseconds_ssff n t)) = minute t"
    and "ssff_total (snd (add_nanoseconds_ssff n t)) + (if fst (add_nanoseconds_ssff n t) then 60000000 else 0)
      = ssff_total t + (unat n + 500) div 1000"
proof -
  have s: "second t < 59 \<Longrightarrow> unat (second t + 1) = unat (second t) + 1" "second t < 59 \<Longrightarrow> unat (second t) < 59"
    using unat_succ_59 [of "second t"] by (simp_all add: word_less_nat_alt)
  show "second (snd (add_nanoseconds_ssff n t)) \<le> 59 \<and> second_part (snd (add_nanoseconds_ssff n t)) \<le> 999999
      \<and> minute (snd (add_nanoseconds_ssff n t)) = minute t"
    using assms s by (cases rule: add_nanoseconds_ssff_cases [OF assms]) (simp_all add: unat_le_59 unat_le_999999)
  show "ssff_total (snd (add_nanoseconds_ssff n t)) + (if fst (add_nanoseconds_ssff n t) then 60000000 else 0)
      = ssff_total t + (unat n + 500) div 1000"
    using s by (cases rule: add_nanoseconds_ssff_cases [OF assms]) (simp_all add: ssff_total_def)
qed

interpretation ssff: rounding_carry ssff_total 60000000 "\<lambda>t. second t \<le> 59 \<and> second_part t \<le> 999999" add_nanoseconds_ssff
proof (unfold_locales, goal_cases)
  case (1 t)
  then show ?case by (simp add: mmssff_simps)
qed (use ssff_step in blast)+

lemma mmssff_step:
  assumes "has_valid_mmssff t" "n \<le> 1000000000"
  shows "has_valid_mmssff (snd (add_nanoseconds_mmssff n t))"
    and "mmssff_total (snd (add_nanoseconds_mmssff n t)) + (if fst (add_nanoseconds_mmssff n t) then 3600000000 else 0)
      = mmssff_total t + (unat n + 500) div 1000"
proof -
  obtain c u where u: "add_nanoseconds_ssff n t = (c, u)" by fastforce
  have v: "second t \<le> 59" "second_part t \<le> 999999" "unat (minute t) < 60" using assms(1) by (simp_all add: mmssff_simps)
  note s = ssff_step [OF v(1,2) assms(2), unfolded u, simplified]
  have i: "minute t < 59 \<Longrightarrow> unat (minute t + 1) = unat (minute t) + 1" "minute t < 59 \<Longrightarrow> unat (minute t) < 59"
    "\<not> minute t < 59 \<Longrightarrow> unat (minute t) = 59"
    using unat_succ_59 [of "minute t"] v(3) by (simp_all add: word_less_nat_alt)
  show "has_valid_mmssff (snd (add_nanoseconds_mmssff n t))"
    using s i v(3) by (simp add: add_nanoseconds_mmssff_def u has_valid_mmssff_def time_limits unat_le_59)
  show "mmssff_total (snd (add_nanoseconds_mmssff n t)) + (if fst (add_nanoseconds_mmssff n t) then 3600000000 else 0)
      = mmssff_total t + (unat n + 500) div 1000"
    using s i by (cases c) (auto simp: add_nanoseconds_mmssff_def u mmssff_total_def ssff_total_def)
qed

interpretation mmssff: rounding_carry mmssff_total 3600000000 has_valid_mmssff add_nanoseconds_mmssff
proof (unfold_locales, goal_cases)
  case (1 t)
  then show ?case by (simp add: mmssff_simps)
qed (use mmssff_step in blast)+

section \<open>Truncation to a number of digits\<close>

definition log_10_ok :: "time_lib \<Rightarrow> bool" where
  "log_10_ok L \<longleftrightarrow> (\<forall>i < 20. log_10_int L i = 10 ^ i)"

definition unit_of :: "uint32 \<Rightarrow> nat" where
  "unit_of dec = 10 ^ (6 - unat dec)"

lemma log_10_unit:
  assumes "log_10_ok L" "dec \<le> 6"
  shows "unat (log_10_int L (unat (TIME_SECOND_PART_DIGITS - dec))) = unit_of dec" "unit_of dec \<in> {1 .. 1000000}"
proof -
  have d: "unat dec \<le> 6" "unat (6 - dec) = 6 - unat dec" using assms(2) by (simp_all add: word_le_nat_alt unat_sub)
  then have i: "6 - unat dec \<in> {0, 1, 2, 3, 4, 5, 6}" by auto
  then show "unat (log_10_int L (unat (TIME_SECOND_PART_DIGITS - dec))) = unit_of dec"
    using assms(1) d by (auto simp: log_10_ok_def unit_of_def time_limits)
  show "unit_of dec \<in> {1 .. 1000000}" using i by (auto simp: unit_of_def)
qed

lemma smod_of_nat: "int a smod int b = int (a mod b)"
  by (cases "a = 0") (simp_all add: smod_int_alt_def zmod_int)

lemma fraction_remainder_mod:
  assumes "log_10_ok L" "dec \<le> 6" "unat u < 2 ^ 31"
  shows "unat (my_time_fraction_remainder L u dec) = unat u mod unit_of dec"
proof -
  let ?l = "log_10_int L (unat (TIME_SECOND_PART_DIGITS - dec))"
  have l: "unat (ucast ?l :: uint32) = unit_of dec"
    using log_10_unit [OF assms(1,2)] by (simp add: unsigned_ucast_eq take_bit_nat_eq_self)
  have m: "unat u mod unit_of dec < 2 ^ 31" using mod_less_eq_dividend [of "unat u" "unit_of dec"] assms(3) by linarith
  have "sint u = int (unat u)" "sint (ucast ?l :: uint32) = int (unit_of dec)"
    using l log_10_unit(2) [OF assms(1,2)] assms(3) sint_small_32 [of u] sint_small_32 [of "ucast ?l"] by simp_all
  then have "sint u smod sint (ucast ?l :: uint32) = int (unat u mod unit_of dec)" by (simp only: smod_of_nat)
  then show ?thesis using m by (simp add: my_time_fraction_remainder_def c_mod_def unat_of_nat)
qed

text \<open>What the truncating functions have in common.\<close>

locale truncation =
  fixes L :: time_lib and usec :: "'s \<Rightarrow> uint32" and trunc :: "uint32 \<Rightarrow> 's \<Rightarrow> 's"
  assumes usec_trunc: "usec (trunc dec s) = usec s - my_time_fraction_remainder L (usec s) dec"
begin

lemma truncated:
  assumes "log_10_ok L" "dec \<le> 6" "unat (usec s) < 2 ^ 31"
  shows "unat (usec (trunc dec s)) = unat (usec s) div unit_of dec * unit_of dec"
proof -
  have "unat (my_time_fraction_remainder L (usec s) dec) \<le> unat (usec s)"
    using fraction_remainder_mod [OF assms] by simp
  then show ?thesis using fraction_remainder_mod [OF assms] div_mult_mod_eq [of "unat (usec s)" "unit_of dec"]
    by (simp add: usec_trunc unat_sub word_le_nat_alt minus_mod_eq_div_mult)
qed

lemma truncated_bounds:
  assumes "log_10_ok L" "dec \<le> 6" "unat (usec s) < 2 ^ 31"
  shows "unat (usec (trunc dec s)) \<le> unat (usec s)" "unat (usec s) < unat (usec (trunc dec s)) + unit_of dec"
proof -
  have "0 < unit_of dec" by (simp add: unit_of_def)
  then show "unat (usec (trunc dec s)) \<le> unat (usec s)" "unat (usec s) < unat (usec (trunc dec s)) + unit_of dec"
    using truncated [OF assms] by (simp_all add: dividend_less_div_times add.commute)
qed

end

interpretation sec6_trunc: truncation L m_usec "sec6_trunc L" for L
  by unfold_locales (simp add: sec6_trunc_def)

interpretation datetime_trunc: truncation L second_part "my_datetime_trunc L" for L
  by unfold_locales (simp add: my_datetime_trunc_def)

interpretation time_trunc: truncation L second_part "my_time_trunc L" for L
  by unfold_locales (simp add: my_time_trunc_def Let_def)

interpretation timeval_trunc: truncation L tv_usec "my_timeval_trunc L" for L
  by unfold_locales (simp add: my_timeval_trunc_def)

section \<open>Elapsed seconds as a time\<close>

definition set_zero_ok :: "time_lib \<Rightarrow> bool" where
  "set_zero_ok L \<longleftrightarrow> (\<forall>t ty. set_zero_time L t ty = zero_time ty)"

text \<open>Out of range, \<^verbatim>\<open>check_time_range\<close> sets the time to the largest value with the given number of digits.\<close>

definition check_time_range_ok :: "time_lib \<Rightarrow> bool" where
  "check_time_range_ok L \<longleftrightarrow>
     (\<forall>t dec w. TIME_MAX_HOUR < hour t \<longrightarrow> has_zero_YYYYMMDD t \<longrightarrow> has_valid_mmssff t \<longrightarrow> dec \<le> 6 \<longrightarrow>
        fst (snd (check_time_range L t dec w)) =
          t\<lparr>hour := TIME_MAX_HOUR, minute := TIME_MAX_MINUTE, second := TIME_MAX_SECOND,
            second_part := of_nat (1000000 - unit_of dec)\<rparr>)"

definition hms_usecs :: "MYSQL_TIME \<Rightarrow> nat" where
  "hms_usecs t = ((unat (hour t) * 60 + unat (minute t)) * 60 + unat (second t)) * 1000000 + unat (second_part t)"

definition valid_time :: "MYSQL_TIME \<Rightarrow> bool" where
  "valid_time t \<longleftrightarrow> time_type t = MYSQL_TIMESTAMP_TIME \<and> has_zero_YYYYMMDD t \<and> has_valid_mmssff t \<and> hour t \<le> TIME_MAX_HOUR"

lemma unat_ucast_32: "unat (w :: ulonglong) < 2 ^ 32 \<Longrightarrow> unat (ucast w :: uint32) = unat w"
  by (simp add: unsigned_ucast_eq take_bit_nat_eq_self)

lemma hms_split: "(s div 3600 * 60 + s mod 3600 div 60) * 60 + s mod 60 = (s :: nat)"
proof -
  have "s mod 60 = s mod 3600 mod 60" by (simp add: mod_mod_cancel)
  then have "(s div 3600 * 60 + s mod 3600 div 60) * 60 + s mod 60
      = s div 3600 * 3600 + (s mod 3600 div 60 * 60 + s mod 3600 mod 60)"
    by (simp only: add_mult_distrib mult.assoc add.assoc)
  then show ?thesis by (simp only: div_mult_mod_eq)
qed

lemma sec_to_time_value:
  fixes t0 :: MYSQL_TIME and unused :: uint32
  assumes "set_zero_ok L" "check_time_range_ok L" "dec \<le> 6" "m_usec s \<le> TIME_MAX_SECOND_PART"
  defines "t \<equiv> snd (sec_to_time L s t0 dec unused)"
  shows "(fst (sec_to_time L s t0 dec unused) \<longleftrightarrow> 3020399 < unat (m_sec s))
    \<and> valid_time t \<and> neg t = m_neg s
    \<and> hms_usecs t = (if unat (m_sec s) \<le> 3020399 then unat (m_sec s) * 1000000 + unat (m_usec s)
        else 3020399 * 1000000 + (1000000 - unit_of dec))"
proof -
  have limit: "ucast TIME_MAX_VALUE_SECONDS < m_sec s \<longleftrightarrow> 3020399 < unat (m_sec s)"
    by (simp add: time_limits word_less_nat_alt)
  have z: "set_zero_time L t0 MYSQL_TIMESTAMP_TIME = zero_time MYSQL_TIMESTAMP_TIME" using assms(1) by (simp add: set_zero_ok_def)
  show ?thesis
  proof (cases "3020399 < unat (m_sec s)")
    case True
    let ?x = "(zero_time MYSQL_TIMESTAMP_TIME)\<lparr>neg := m_neg s, hour := TIME_MAX_HOUR + 1\<rparr>"
    let ?max = "?x\<lparr>hour := TIME_MAX_HOUR, minute := TIME_MAX_MINUTE, second := TIME_MAX_SECOND,
      second_part := of_nat (1000000 - unit_of dec)\<rparr>"
    have "fst (snd (check_time_range L ?x dec unused)) = ?max"
      using assms(2,3)
      by (simp add: check_time_range_ok_def zero_time_def has_zero_YYYYMMDD_def has_valid_mmssff_def time_limits)
    then have r: "sec_to_time L s t0 dec unused = (True, ?max)"
      using True limit by (simp add: sec_to_time_def z Let_def split_beta)
    have u: "unit_of dec \<in> {1 .. 1000000}"
    proof -
      have "6 - unat dec \<in> {0, 1, 2, 3, 4, 5, 6}" by auto
      then show ?thesis by (auto simp: unit_of_def)
    qed
    then have "unat (of_nat (1000000 - unit_of dec) :: uint32) = 1000000 - unit_of dec" by (intro unat_of_nat_32) simp
    then show ?thesis using True u
      by (simp add: t_def r valid_time_def has_zero_YYYYMMDD_def mmssff_simps hms_usecs_def zero_time_def)
  next
    case False
    then have b: "unat (m_sec s) < 2 ^ 32" "unat (m_sec s div 3600) < 2 ^ 32" "unat (m_sec s mod 3600) < 2 ^ 32"
      by (simp_all add: unat_div_distrib unat_mod_distrib)
    let ?t = "(zero_time MYSQL_TIMESTAMP_TIME)\<lparr>neg := m_neg s, hour := ucast (m_sec s div 3600),
      minute := ucast (m_sec s mod 3600) div 60, second := ucast (m_sec s) mod 60, second_part := m_usec s\<rparr>"
    have r: "sec_to_time L s t0 dec unused = (False, ?t)" using False limit by (simp add: sec_to_time_def z Let_def)
    have f: "unat (hour ?t) = unat (m_sec s) div 3600" "unat (minute ?t) = unat (m_sec s) mod 3600 div 60"
      "unat (second ?t) = unat (m_sec s) mod 60"
      using b by (simp_all add: unat_ucast_32 unat_div_distrib unat_mod_distrib)
    have "hms_usecs ?t = unat (m_sec s) * 1000000 + unat (m_usec s)"
      unfolding hms_usecs_def f using hms_split [of "unat (m_sec s)"] by simp
    moreover have "minute ?t \<le> 59" "second ?t \<le> 59" unfolding unat_le_59 f by (simp_all add: div_less_iff_less_mult)
    moreover have "hour ?t \<le> 838" using f(1) False div_le_mono [of "unat (m_sec s)" 3020399 3600] by (simp add: word_le_nat_alt)
    ultimately show ?thesis using False assms(4) unfolding t_def r
      by (simp add: valid_time_def has_zero_YYYYMMDD_def has_valid_mmssff_def time_limits zero_time_def)
  qed
qed

section \<open>Sums and differences of times\<close>

text \<open>The absolute value of a time, or of a date with a time counted from the year 0, in microseconds; the value with
  its sign.\<close>

definition abs_usecs :: "time_lib \<Rightarrow> MYSQL_TIME \<Rightarrow> nat" where
  "abs_usecs L t =
     (if time_type t = MYSQL_TIMESTAMP_TIME then unat (day t) else unat (calc_daynr L (year t) (month t) (day t))) * 86400000000
     + hms_usecs t"

definition with_sign :: "bool \<Rightarrow> nat \<Rightarrow> int" where
  "with_sign n a = (if n then - int a else int a)"

lemma abs_with_sign: "\<bar>with_sign n a\<bar> = int a"
  by (simp add: with_sign_def)

lemma with_sign_less: "with_sign n a < 0 \<Longrightarrow> n"
  by (cases n) (simp_all add: with_sign_def)

text \<open>A date with a time, or a date, whose parts are in their ranges.\<close>

definition valid_datetime :: "time_lib \<Rightarrow> MYSQL_TIME \<Rightarrow> bool" where
  "valid_datetime L t \<longleftrightarrow> time_type t \<in> {MYSQL_TIMESTAMP_DATE, MYSQL_TIMESTAMP_DATETIME} \<and> \<not> neg t \<and> has_valid_mmssff t
     \<and> hour t < 24 \<and> unat (calc_daynr L (year t) (month t) (day t)) \<le> 3652424"

text \<open>What is documented of the functions: \<^verbatim>\<open>calc_time_diff\<close> adds or subtracts absolute values and tells whether the
  result is negative; \<^verbatim>\<open>calc_time_from_sec\<close> splits the seconds of a day; the number of a day and its date are inverse.\<close>

definition calc_time_diff_ok :: "time_lib \<Rightarrow> bool" where
  "calc_time_diff_ok L \<longleftrightarrow>
     (\<forall>t1 t2 l n s u. (valid_time t1 \<or> valid_datetime L t1) \<longrightarrow> valid_time t2 \<longrightarrow> l \<in> {1, - 1} \<longrightarrow>
        calc_time_diff L t1 t2 l = (n, s, u) \<longrightarrow>
        unat u < 1000000 \<and> with_sign n (unat s * 1000000 + unat u) = int (abs_usecs L t1) - l * int (abs_usecs L t2))"

definition calc_time_from_sec_ok :: "time_lib \<Rightarrow> bool" where
  "calc_time_from_sec_ok L \<longleftrightarrow>
     (\<forall>t s u. s < 86400 \<longrightarrow>
        calc_time_from_sec L t s u = t\<lparr>hour := s div 3600, minute := s mod 3600 div 60, second := s mod 60, second_part := u\<rparr>)"

definition daynr_ok :: "time_lib \<Rightarrow> bool" where
  "daynr_ok L \<longleftrightarrow> (\<forall>d y m dd. get_date_from_daynr L d = (False, y, m, dd) \<longrightarrow> dd \<noteq> 0 \<longrightarrow> calc_daynr L y m dd = d)"

definition signed_usecs :: "time_lib \<Rightarrow> MYSQL_TIME \<Rightarrow> int" where
  "signed_usecs L t = with_sign (neg t) (abs_usecs L t)"

definition sum_usecs :: "Sec6_add \<Rightarrow> int" where
  "sum_usecs a = with_sign (a_neg a) (unat (a_sec a) * 1000000 + unat (a_usec a))"

text \<open>The sign logic of the constructor.\<close>

lemma sec6_add_value:
  fixes garbage :: Sec6_add
  assumes "calc_time_diff_ok L" "valid_time t1 \<or> valid_datetime L t1" "valid_time t2" "sign \<in> {1, - 1}"
  defines "a \<equiv> mk_Sec6_add L garbage t1 t2 sign"
  shows "\<not> a_error a" "unat (a_usec a) < 1000000" "sum_usecs a = signed_usecs L t1 + sign * signed_usecs L t2"
proof -
  define sg where "sg = (if neg t1 \<noteq> neg t2 then - sign else sign)"
  obtain n s u where d: "calc_time_diff L t1 t2 (- sg) = (n, s, u)" by (metis surj_pair)
  have "- sg \<in> {1, - 1}" using assms(4) by (auto simp: sg_def)
  then have v: "unat u < 1000000" "with_sign n (unat s * 1000000 + unat u) = int (abs_usecs L t1) + sg * int (abs_usecs L t2)"
    using assms(1) [unfolded calc_time_diff_ok_def, rule_format, OF assms(2,3) _ d] by simp_all
  have a: "a = \<lparr>a_sec = s, a_usec = u, a_neg = (if neg t1 \<and> (s \<noteq> 0 \<or> u \<noteq> 0) then \<not> n else n), a_error = False\<rparr>"
    using assms(3) d by (simp add: a_def mk_Sec6_add_def valid_time_def sg_def)
  show "\<not> a_error a" "unat (a_usec a) < 1000000" using v(1) by (simp_all add: a)
  have z: "\<not> (s \<noteq> 0 \<or> u \<noteq> 0) \<Longrightarrow> unat s * 1000000 + unat u = 0" by simp
  have "sum_usecs a = (if neg t1 then - 1 else 1) * with_sign n (unat s * 1000000 + unat u)"
    using z by (auto simp: a sum_usecs_def with_sign_def)
  also have "\<dots> = signed_usecs L t1 + sign * signed_usecs L t2"
    unfolding v(2) using assms(4) by (auto simp: signed_usecs_def with_sign_def sg_def)
  finally show "sum_usecs a = signed_usecs L t1 + sign * signed_usecs L t2" .
qed

text \<open>The time of day, and the days before it.\<close>

lemma to_hh24mmssff_parts:
  assumes "calc_time_from_sec_ok L" "unat (a_usec a) < 1000000"
  shows "has_valid_mmssff (to_hh24mmssff L a ty)" "time_type (to_hh24mmssff L a ty) = ty" "neg (to_hh24mmssff L a ty) = a_neg a"
    "has_zero_YYYYMMDD (to_hh24mmssff L a ty)" "hour (to_hh24mmssff L a ty) < 24"
    "hms_usecs (to_hh24mmssff L a ty) = unat (a_sec a) mod 86400 * 1000000 + unat (a_usec a)"
proof -
  define s :: uint32 where "s = ucast (a_sec a mod ucast SECONDS_IN_24H)"
  have s: "unat s = unat (a_sec a) mod 86400"
    using mod_less_divisor [of 86400 "unat (a_sec a)"]
    by (simp add: s_def time_limits unsigned_ucast_eq unat_mod_distrib take_bit_nat_eq_self)
  then have "s < 86400" by (simp add: word_less_nat_alt)
  then have t: "to_hh24mmssff L a ty = (zero_time ty)\<lparr>neg := a_neg a, hour := s div 3600, minute := s mod 3600 div 60,
      second := s mod 60, second_part := a_usec a\<rparr>"
    using assms(1) by (simp add: to_hh24mmssff_def calc_time_from_sec_ok_def s_def [symmetric] zero_time_def)
  have f: "unat (s div 3600) = unat s div 3600" "unat (s mod 3600 div 60) = unat s mod 3600 div 60" "unat (s mod 60) = unat s mod 60"
    by (simp_all add: unat_div_distrib unat_mod_distrib)
  show "time_type (to_hh24mmssff L a ty) = ty" "neg (to_hh24mmssff L a ty) = a_neg a" "has_zero_YYYYMMDD (to_hh24mmssff L a ty)"
    by (simp_all add: t zero_time_def has_zero_YYYYMMDD_def)
  show "has_valid_mmssff (to_hh24mmssff L a ty)" using assms(2)
    by (simp add: t has_valid_mmssff_def time_limits unat_le_59 unat_le_999999 f div_less_iff_less_mult)
  show "hour (to_hh24mmssff L a ty) < 24" using s by (simp add: t word_less_nat_alt f div_less_iff_less_mult)
  show "hms_usecs (to_hh24mmssff L a ty) = unat (a_sec a) mod 86400 * 1000000 + unat (a_usec a)"
    using hms_split [of "unat s"] by (simp add: t hms_usecs_def f s)
qed

lemma day_split: "s div 86400 * 86400000000 + (s mod 86400 * 1000000 + u) = (s :: nat) * 1000000 + u"
proof -
  have "s div 86400 * 86400000000 + s mod 86400 * 1000000 = (s div 86400 * 86400 + s mod 86400) * 1000000"
    by (simp only: add_mult_distrib mult.assoc)
  then show ?thesis by (simp only: div_mult_mod_eq add.assoc [symmetric])
qed

lemma valid_time_less: "valid_time t \<Longrightarrow> abs_usecs L t < 839 * 3600000000"
proof -
  assume v: "valid_time t"
  then have "unat (hour t) < 839" by (simp add: valid_time_def time_limits word_le_nat_alt)
  then show ?thesis using v by (simp add: valid_time_def abs_usecs_def has_zero_YYYYMMDD_def hms_usecs_def mmssff_simps)
qed

lemma valid_datetime_less: "valid_datetime L t \<Longrightarrow> abs_usecs L t < 3652425 * 86400000000"
  by (auto simp: valid_datetime_def abs_usecs_def hms_usecs_def mmssff_simps word_less_nat_alt)

lemma sum_days:
  assumes "\<bar>sum_usecs a\<bar> < 3652500 * 86400000000"
  shows "unat (to_days_abs a) = unat (a_sec a) div 86400" "unat (to_days_abs a) < 3652500"
proof -
  have "int (unat (a_sec a) * 1000000 + unat (a_usec a)) < int (3652500 * 86400000000)"
    using assms by (simp only: sum_usecs_def abs_with_sign)
  then have "unat (a_sec a) * 1000000 + unat (a_usec a) < 3652500 * 86400000000" by (simp only: of_nat_less_iff)
  then have "unat (a_sec a) < 3652500 * 86400" by linarith
  then have d: "unat (a_sec a) div 86400 < 3652500" by (simp add: div_less_iff_less_mult)
  then show "unat (to_days_abs a) = unat (a_sec a) div 86400" "unat (to_days_abs a) < 3652500"
    by (simp_all add: to_days_abs_def time_limits unsigned_ucast_eq unat_div_distrib take_bit_nat_eq_self)
qed

text \<open>C12. The sum or the difference of two times, of either sign, is computed exactly, and handed to the adjustment to the
  range of \<^verbatim>\<open>TIME\<close> as a time with valid minutes and seconds.\<close>

theorem addtime_correct:
  fixes garbage :: Sec6_add and t0 :: MYSQL_TIME
  assumes "calc_time_diff_ok L" "calc_time_from_sec_ok L" "valid_time t1" "valid_time t2" "sign \<in> {1, - 1}"
  shows "\<exists>t. to_time L adjust (mk_Sec6_add L garbage t1 t2 sign) t0 dec = adjust t dec
    \<and> time_type t = MYSQL_TIMESTAMP_TIME \<and> has_zero_YYYYMMDD t \<and> has_valid_mmssff t
    \<and> signed_usecs L t = signed_usecs L t1 + sign * signed_usecs L t2"
proof -
  define a where "a = mk_Sec6_add L garbage t1 t2 sign"
  note v = sec6_add_value [OF assms(1) disjI1 [OF assms(3)] assms(4,5), of garbage, folded a_def]
  note p = to_hh24mmssff_parts [OF assms(2) v(2), of MYSQL_TIMESTAMP_TIME]
  define t where "t = (to_hh24mmssff L a MYSQL_TIMESTAMP_TIME)\<lparr>hour := hour (to_hh24mmssff L a MYSQL_TIMESTAMP_TIME) + to_days_abs a * 24\<rparr>"
  have "\<bar>sum_usecs a\<bar> \<le> int (abs_usecs L t1) + int (abs_usecs L t2)"
    unfolding v(3) using assms(5) by (auto simp: signed_usecs_def with_sign_def)
  then have "\<bar>sum_usecs a\<bar> < 3652500 * 86400000000"
    using valid_time_less [OF assms(3), of L] valid_time_less [OF assms(4), of L] by linarith
  note d = sum_days [OF this]
  have "unat (hour t) = unat (hour (to_hh24mmssff L a MYSQL_TIMESTAMP_TIME)) + unat (a_sec a) div 86400 * 24"
    using p(5) d by (simp add: t_def unat_word_ariths word_less_nat_alt)
  then have "hms_usecs t = unat (a_sec a) div 86400 * 86400000000 + hms_usecs (to_hh24mmssff L a MYSQL_TIMESTAMP_TIME)"
    by (simp add: t_def hms_usecs_def algebra_simps)
  then have h: "hms_usecs t = unat (a_sec a) * 1000000 + unat (a_usec a)" unfolding p(6) by (simp only: day_split)
  have "signed_usecs L t = sum_usecs a"
    using p(2-4) h by (simp add: signed_usecs_def abs_usecs_def sum_usecs_def t_def has_zero_YYYYMMDD_def)
  moreover have "to_time L adjust a t0 dec = adjust t dec" using v(1) by (simp add: to_time_def t_def Let_def)
  moreover have "time_type t = MYSQL_TIMESTAMP_TIME" "has_zero_YYYYMMDD t" "has_valid_mmssff t"
    using p(1,2,4) by (simp_all add: t_def has_zero_YYYYMMDD_def has_valid_mmssff_def)
  ultimately show ?thesis unfolding a_def [symmetric] v(3) [symmetric] by (intro exI [of _ t] conjI)
qed

text \<open>A time added to or subtracted from a date gives a date with exactly that distance, unless the result is negative
  or has no date, which is reported.\<close>

theorem datetime_addtime_correct:
  fixes garbage :: Sec6_add and t0 :: MYSQL_TIME
  assumes "calc_time_diff_ok L" "calc_time_from_sec_ok L" "daynr_ok L"
    and "valid_datetime L t1" "valid_time t2" "sign \<in> {1, - 1}"
  defines "a \<equiv> mk_Sec6_add L garbage t1 t2 sign"
  shows "(signed_usecs L t1 + sign * signed_usecs L t2 < 0 \<longrightarrow> fst (to_datetime L a t0))
    \<and> (\<not> fst (to_datetime L a t0) \<longrightarrow>
        time_type (snd (to_datetime L a t0)) = MYSQL_TIMESTAMP_DATETIME \<and> has_valid_mmssff (snd (to_datetime L a t0))
        \<and> hour (snd (to_datetime L a t0)) < 24
        \<and> signed_usecs L (snd (to_datetime L a t0)) = signed_usecs L t1 + sign * signed_usecs L t2)"
proof -
  note v = sec6_add_value [OF assms(1) disjI2 [OF assms(4)] assms(5,6), of garbage, folded a_def]
  note p = to_hh24mmssff_parts [OF assms(2) v(2), of MYSQL_TIMESTAMP_DATETIME]
  have "\<bar>sum_usecs a\<bar> \<le> int (abs_usecs L t1) + int (abs_usecs L t2)"
    unfolding v(3) using assms(6) by (auto simp: signed_usecs_def with_sign_def)
  then have "\<bar>sum_usecs a\<bar> < 3652500 * 86400000000"
    using valid_datetime_less [OF assms(4)] valid_time_less [OF assms(5), of L] by linarith
  note d = sum_days [OF this]
  have neg: "signed_usecs L t1 + sign * signed_usecs L t2 < 0 \<Longrightarrow> a_neg a"
    unfolding v(3) [symmetric] sum_usecs_def by (rule with_sign_less)
  obtain rc y m dd where g: "get_date_from_daynr L (to_days_abs a) = (rc, y, m, dd)" by (metis surj_pair)
  let ?t = "(to_hh24mmssff L a MYSQL_TIMESTAMP_DATETIME)\<lparr>year := y, month := m, day := dd\<rparr>"
  have ok: "to_datetime L a t0 = (False, ?t)" "\<not> a_neg a" "\<not> rc" "dd \<noteq> 0" if "\<not> fst (to_datetime L a t0)"
    using that v(1) by (auto simp: to_datetime_def g split: if_splits)
  have s: "signed_usecs L ?t = sum_usecs a" if "\<not> a_neg a" "\<not> rc" "dd \<noteq> 0"
  proof -
    have "calc_daynr L y m dd = to_days_abs a" using assms(3) g that by (auto simp: daynr_ok_def)
    then have "abs_usecs L ?t = unat (a_sec a) * 1000000 + unat (a_usec a)"
      using p(2,6) d(1) day_split [of "unat (a_sec a)"] by (simp add: abs_usecs_def hms_usecs_def)
    then show ?thesis using p(3) that(1) by (simp add: signed_usecs_def sum_usecs_def)
  qed
  have f: "has_valid_mmssff ?t" "time_type ?t = MYSQL_TIMESTAMP_DATETIME" "hour ?t < 24"
    using p(1,2,5) by (simp_all add: has_valid_mmssff_def)
  show ?thesis
  proof (cases "fst (to_datetime L a t0)")
    case False
    note k = ok [OF False]
    have "\<not> sum_usecs a < 0" using neg k(2) unfolding v(3) by blast
    then show ?thesis unfolding k(1) fst_conv snd_conv v(3) [symmetric] using f s [OF k(2-4)] by blast
  qed simp
qed

section \<open>Examples\<close>

text \<open>Functions with the documented behaviour; days are numbered as if all months had 31 days.\<close>

definition model_check_time_range :: "MYSQL_TIME \<Rightarrow> uint32 \<Rightarrow> uint32 \<Rightarrow> bool \<times> MYSQL_TIME \<times> uint32" where
  "model_check_time_range t dec w =
     (if TIME_MAX_HOUR < hour t
      then (False, t\<lparr>hour := TIME_MAX_HOUR, minute := TIME_MAX_MINUTE, second := TIME_MAX_SECOND,
              second_part := of_nat (1000000 - unit_of dec)\<rparr>, w OR MYSQL_TIME_WARN_OUT_OF_RANGE)
      else (False, t, w))"

definition model_daynr :: "uint32 \<Rightarrow> uint32 \<Rightarrow> uint32 \<Rightarrow> uint32" where
  "model_daynr y m d = (y * 12 + m) * 31 + d"

definition model_date :: "uint32 \<Rightarrow> bool \<times> uint32 \<times> uint32 \<times> uint32" where
  "model_date n =
     (let d = n mod 31; m = n div 31 mod 12; y = n div 372 in (model_daynr y m d \<noteq> n, y, m, d))"

definition base_lib :: time_lib where
  "base_lib = \<lparr>log_10_int = (\<lambda>i. 10 ^ i), set_zero_time = (\<lambda>_ ty. zero_time ty), check_time_range = model_check_time_range,
     number_to_time_only = (\<lambda>_ _ _ _ t w. (True, t, w)), number_to_datetime_or_date = (\<lambda>_ _ t _ w. (- 1, t, w)),
     calc_time_diff = (\<lambda>_ _ _. (False, 0, 0)),
     calc_time_from_sec = (\<lambda>t s u. t\<lparr>hour := s div 3600, minute := s mod 3600 div 60, second := s mod 60, second_part := u\<rparr>),
     get_date_from_daynr = model_date, calc_daynr = model_daynr,
     pack_time = (\<lambda>t. of_int (with_sign (neg t) (hms_usecs t))), check_date_with = (\<lambda>_ _ _ w. (False, w)),
     check_datetime_range = (\<lambda>t. \<not> (hour t < 24 \<and> has_valid_mmssff t))\<rparr>"

definition model_diff :: "MYSQL_TIME \<Rightarrow> MYSQL_TIME \<Rightarrow> int \<Rightarrow> bool \<times> ulonglong \<times> uint32" where
  "model_diff t1 t2 l =
     (let d = int (abs_usecs base_lib t1) - l * int (abs_usecs base_lib t2)
      in (d < 0, of_nat (nat \<bar>d\<bar> div 1000000), of_nat (nat \<bar>d\<bar> mod 1000000)))"

definition model_lib :: time_lib where
  "model_lib = base_lib\<lparr>calc_time_diff := model_diff\<rparr>"

lemma model_abs: "abs_usecs model_lib t = abs_usecs base_lib t" "valid_datetime model_lib t = valid_datetime base_lib t"
  by (simp_all add: abs_usecs_def valid_datetime_def model_lib_def)

lemma model_diff_ok: "calc_time_diff_ok model_lib"
  unfolding calc_time_diff_ok_def model_abs
proof (intro allI impI)
  fix t1 t2 l n s u
  assume a: "valid_time t1 \<or> valid_datetime base_lib t1" "valid_time t2" "l \<in> {1, - 1}" "calc_time_diff model_lib t1 t2 l = (n, s, u)"
  define d where "d = int (abs_usecs base_lib t1) - l * int (abs_usecs base_lib t2)"
  have "abs_usecs base_lib t1 < 3652425 * 86400000000" "abs_usecs base_lib t2 < 839 * 3600000000"
    using a(1,2) valid_time_less [of t1 base_lib] valid_datetime_less [of base_lib t1] valid_time_less [of t2 base_lib] by auto
  then have "\<bar>d\<bar> < 3652500 * 86400000000" using a(3) by (auto simp: d_def)
  then have "nat \<bar>d\<bar> < 3652500 * 86400000000" by linarith
  then have b: "nat \<bar>d\<bar> div 1000000 < 3652500 * 86400" by (simp add: div_less_iff_less_mult)
  have m: "nat \<bar>d\<bar> mod 1000000 < 1000000" by simp
  have f: "n \<longleftrightarrow> d < 0" "s = of_nat (nat \<bar>d\<bar> div 1000000)" "u = of_nat (nat \<bar>d\<bar> mod 1000000)"
    using a(4) by (simp_all add: model_lib_def model_diff_def d_def Let_def)
  have "unat s = nat \<bar>d\<bar> div 1000000" using b unfolding f(2) by (simp add: unat_of_nat)
  moreover have u: "unat u = nat \<bar>d\<bar> mod 1000000" using m unfolding f(3) by (intro unat_of_nat_32) simp
  ultimately have "unat s * 1000000 + unat u = nat \<bar>d\<bar>" by (simp only: div_mult_mod_eq)
  then show "unat u < 1000000 \<and> with_sign n (unat s * 1000000 + unat u) =
      int (abs_usecs base_lib t1) - l * int (abs_usecs base_lib t2)"
    using u m unfolding f(1) d_def [symmetric] by (simp add: with_sign_def)
qed

lemma model_lib_ok:
  "log_10_ok model_lib" "set_zero_ok model_lib" "check_time_range_ok model_lib" "calc_time_from_sec_ok model_lib" "daynr_ok model_lib"
  by (auto simp: log_10_ok_def set_zero_ok_def check_time_range_ok_def calc_time_from_sec_ok_def daynr_ok_def model_lib_def
      base_lib_def model_check_time_range_def model_date_def Let_def)

definition hm_time :: "bool \<Rightarrow> uint32 \<Rightarrow> uint32 \<Rightarrow> MYSQL_TIME" where
  "hm_time n h m = (zero_time MYSQL_TIMESTAMP_TIME)\<lparr>neg := n, hour := h, minute := m\<rparr>"

lemmas hm_simps = hm_time_def zero_time_def valid_time_def has_zero_YYYYMMDD_def has_valid_mmssff_def time_limits
  signed_usecs_def abs_usecs_def with_sign_def hms_usecs_def

theorem addtime_correct_witness:
  "\<exists>t. to_time model_lib (\<lambda>t d. (False, t)) (mk_Sec6_add model_lib \<lparr>a_sec = 0, a_usec = 0, a_neg = False, a_error = False\<rparr>
        (hm_time True 1 0) (hm_time False 0 30) 1) (zero_time MYSQL_TIMESTAMP_DATE) 6 = (False, t)
     \<and> signed_usecs model_lib t = - 1800000000"
  using addtime_correct [OF model_diff_ok model_lib_ok(4), of "hm_time True 1 0" "hm_time False 0 30" 1 "\<lambda>t d. (False, t)"
      "\<lparr>a_sec = 0, a_usec = 0, a_neg = False, a_error = False\<rparr>" "zero_time MYSQL_TIMESTAMP_DATE" 6]
  by (auto simp: hm_simps)

theorem datetime_addtime_correct_witness:
  "signed_usecs model_lib (snd (to_datetime model_lib
     (mk_Sec6_add model_lib \<lparr>a_sec = 0, a_usec = 0, a_neg = False, a_error = False\<rparr>
        ((zero_time MYSQL_TIMESTAMP_DATETIME)\<lparr>day := 3\<rparr>) (hm_time False 1 0) (- 1)) (zero_time MYSQL_TIMESTAMP_DATE)))
   = 3 * 86400000000 - 3600000000"
  using datetime_addtime_correct [OF model_diff_ok model_lib_ok(4,5), of "(zero_time MYSQL_TIMESTAMP_DATETIME)\<lparr>day := 3\<rparr>"
      "hm_time False 1 0" "- 1" "\<lparr>a_sec = 0, a_usec = 0, a_neg = False, a_error = False\<rparr>" "zero_time MYSQL_TIMESTAMP_DATE"]
  by (simp add: hm_simps valid_datetime_def mk_Sec6_add_def to_datetime_def to_hh24mmssff_def to_days_abs_def model_lib_def
      base_lib_def model_diff_def model_daynr_def model_date_def Let_def)

end
