(* ===== verification/Temporal_Types.thy ===== *)
theory Temporal_Types
  imports Temporal_Values
begin

text \<open>
  The classes of \<^verbatim>\<open>sql_type.h\<close> for temporal values of SQL: \<^verbatim>\<open>Temporal_hybrid\<close>, \<^verbatim>\<open>Extract_source\<close>,
  \<^verbatim>\<open>Interval_DDhhmmssff\<close>, \<^verbatim>\<open>Time\<close>, \<^verbatim>\<open>Date\<close>, \<^verbatim>\<open>Datetime\<close>, \<^verbatim>\<open>Timestamp\<close> and \<^verbatim>\<open>Timestamp_or_zero_datetime\<close>. They add no
  members to \<^verbatim>\<open>MYSQL_TIME\<close>, so that a value is that structure and a constructor a function that produces it. Functions
  whose code is not in the repository are arguments: those of \<open>time_lib\<close>, the rounding of each class, and the printing
  of numbers for warnings. Assertions on the validity of values are not part of the code; they are proved.
\<close>

section \<open>Conversions of class Temporal with warnings\<close>

record Warn = MYSQL_TIME_STATUS +
  err_buffer :: string

definition make_from_double ::
    "time_lib \<Rightarrow> convert_fun \<Rightarrow> add_round_fun \<Rightarrow> (real \<Rightarrow> Sec9) \<Rightarrow> (real \<Rightarrow> string) \<Rightarrow> real \<Rightarrow> date_mode_t \<Rightarrow> MYSQL_TIME \<Rightarrow> Warn
      \<Rightarrow> MYSQL_TIME \<times> Warn" where
  "make_from_double L convert add_round sec9 set_double nr mode t warn =
     (let (t, warn) = make_from_sec9 L convert add_round (sec9 nr) mode t warn
      in (t, if warnings warn \<noteq> 0 then warn\<lparr>err_buffer := set_double nr\<rparr> else warn))"

definition make_from_longlong_hybrid ::
    "time_lib \<Rightarrow> convert_fun \<Rightarrow> Sec6 \<Rightarrow> (Longlong_hybrid \<Rightarrow> string) \<Rightarrow> Longlong_hybrid \<Rightarrow> date_mode_t \<Rightarrow> MYSQL_TIME \<Rightarrow> Warn
      \<Rightarrow> MYSQL_TIME \<times> Warn" where
  "make_from_longlong_hybrid L convert garbage set_longlong nr mode t warn =
     (let (t, warn) = make_from_sec6 L convert (mk_Sec6 garbage nr) mode t warn
      in (t, if warnings warn \<noteq> 0 then warn\<lparr>err_buffer := set_longlong nr\<rparr> else warn))"

definition make_from_decimal ::
    "time_lib \<Rightarrow> convert_fun \<Rightarrow> add_round_fun \<Rightarrow> ('d \<Rightarrow> Sec9) \<Rightarrow> ('d \<Rightarrow> string) \<Rightarrow> 'd \<Rightarrow> date_mode_t \<Rightarrow> MYSQL_TIME \<Rightarrow> Warn
      \<Rightarrow> MYSQL_TIME \<times> Warn" where
  "make_from_decimal L convert add_round sec9 set_decimal nr mode t warn =
     (let (t, warn) = make_from_sec9 L convert add_round (sec9 nr) mode t warn
      in (t, if warnings warn \<noteq> 0 then warn\<lparr>err_buffer := set_decimal nr\<rparr> else warn))"

section \<open>Temporal\_hybrid\<close>

definition hybrid_from_string ::
    "('s \<Rightarrow> date_mode_t \<Rightarrow> MYSQL_TIME \<Rightarrow> Warn \<Rightarrow> MYSQL_TIME \<times> Warn) \<Rightarrow> 's option \<Rightarrow> date_mode_t \<Rightarrow> MYSQL_TIME \<Rightarrow> Warn
      \<Rightarrow> MYSQL_TIME \<times> Warn" where
  "hybrid_from_string make_from_str str mode t warn =
     (case str of None \<Rightarrow> (t\<lparr>time_type := MYSQL_TIMESTAMP_NONE\<rparr>, warn) | Some s \<Rightarrow> make_from_str s mode t warn)"

definition hybrid_from_longlong_null ::
    "time_lib \<Rightarrow> convert_fun \<Rightarrow> Sec6 \<Rightarrow> (Longlong_hybrid \<Rightarrow> string) \<Rightarrow> Longlong_hybrid_null \<Rightarrow> date_mode_t \<Rightarrow> MYSQL_TIME \<Rightarrow> Warn
      \<Rightarrow> MYSQL_TIME \<times> Warn" where
  "hybrid_from_longlong_null L convert garbage set_longlong nr fuzzydate t warn =
     (if m_hybrid_is_null nr then (t\<lparr>time_type := MYSQL_TIMESTAMP_NONE\<rparr>, warn)
      else make_from_longlong_hybrid L convert garbage set_longlong (Longlong_hybrid.truncate nr) fuzzydate t warn)"

record Double_null =
  d_value :: real
  d_is_null :: bool

definition hybrid_from_double_null ::
    "time_lib \<Rightarrow> convert_fun \<Rightarrow> add_round_fun \<Rightarrow> (real \<Rightarrow> Sec9) \<Rightarrow> (real \<Rightarrow> string) \<Rightarrow> Double_null \<Rightarrow> date_mode_t \<Rightarrow> MYSQL_TIME \<Rightarrow> Warn
      \<Rightarrow> MYSQL_TIME \<times> Warn" where
  "hybrid_from_double_null L convert add_round sec9 set_double nr mode t warn =
     (if d_is_null nr then (t\<lparr>time_type := MYSQL_TIMESTAMP_NONE\<rparr>, warn)
      else make_from_double L convert add_round sec9 set_double (d_value nr) mode t warn)"

definition hybrid_from_decimal ::
    "time_lib \<Rightarrow> convert_fun \<Rightarrow> add_round_fun \<Rightarrow> ('d \<Rightarrow> Sec9) \<Rightarrow> ('d \<Rightarrow> string) \<Rightarrow> 'd option \<Rightarrow> date_mode_t \<Rightarrow> MYSQL_TIME \<Rightarrow> Warn
      \<Rightarrow> MYSQL_TIME \<times> Warn" where
  "hybrid_from_decimal L convert add_round sec9 set_decimal nr mode t warn =
     (case nr of None \<Rightarrow> (t\<lparr>time_type := MYSQL_TIMESTAMP_NONE\<rparr>, warn)
      | Some d \<Rightarrow> make_from_decimal L convert add_round sec9 set_decimal d mode t warn)"

definition copy_valid_value_to_mysql_time :: "MYSQL_TIME \<Rightarrow> bool \<times> MYSQL_TIME" where
  "copy_valid_value_to_mysql_time t = (False, t)"

definition hybrid_to_longlong :: "(MYSQL_TIME \<Rightarrow> ulonglong) \<Rightarrow> MYSQL_TIME \<Rightarrow> ulonglong" where
  "hybrid_to_longlong TIME_to_ulonglong t =
     (if \<not> is_valid_temporal t then 0 else let v = TIME_to_ulonglong t in if neg t then - v else v)"

definition hybrid_to_double :: "(MYSQL_TIME \<Rightarrow> real) \<Rightarrow> MYSQL_TIME \<Rightarrow> real" where
  "hybrid_to_double TIME_to_double t = (if is_valid_temporal t then TIME_to_double t else 0)"

section \<open>Extract\_source\<close>

text \<open>An \<^verbatim>\<open>int\<close> is a word of 32 bits and a \<^verbatim>\<open>longlong\<close> one of 64 bits, both read with their sign.\<close>

definition time_to_daytime_interval :: "MYSQL_TIME \<Rightarrow> MYSQL_TIME" where
  "time_to_daytime_interval t = (let t = t\<lparr>day := hour t div 24\<rparr> in t\<lparr>hour := hour t mod 24\<rparr>)"

definition is_valid_extract_source_slow :: "MYSQL_TIME \<Rightarrow> bool" where
  "is_valid_extract_source_slow t \<longleftrightarrow>
     is_valid_temporal t \<and> hour t < 24 \<and> (has_zero_YYYYMM t \<or> time_type t \<noteq> MYSQL_TIMESTAMP_TIME)"

definition extract_is_valid_value_slow :: "MYSQL_TIME \<Rightarrow> bool" where
  "extract_is_valid_value_slow t \<longleftrightarrow> time_type t = MYSQL_TIMESTAMP_NONE \<or> is_valid_extract_source_slow t"

definition mk_Extract_source :: "MYSQL_TIME \<Rightarrow> MYSQL_TIME" where
  "mk_Extract_source t = (if time_type t = MYSQL_TIMESTAMP_TIME then time_to_daytime_interval t else t)"

definition ex_sign :: "MYSQL_TIME \<Rightarrow> uint32" where
  "ex_sign t = (if neg t then - 1 else 1)"

definition ex_day :: "MYSQL_TIME \<Rightarrow> uint32" where
  "ex_day t = day t * ex_sign t"

definition ex_hour :: "MYSQL_TIME \<Rightarrow> uint32" where
  "ex_hour t = hour t * ex_sign t"

definition ex_minute :: "MYSQL_TIME \<Rightarrow> uint32" where
  "ex_minute t = minute t * ex_sign t"

definition ex_second :: "MYSQL_TIME \<Rightarrow> uint32" where
  "ex_second t = second t * ex_sign t"

definition ex_microsecond :: "MYSQL_TIME \<Rightarrow> uint32" where
  "ex_microsecond t = second_part t * ex_sign t"

definition ex_year_month :: "MYSQL_TIME \<Rightarrow> uint32" where
  "ex_year_month t = year t * 100 + month t"

definition ex_quarter :: "MYSQL_TIME \<Rightarrow> uint32" where
  "ex_quarter t = (month t + 2) div 3"

definition second_microsecond :: "MYSQL_TIME \<Rightarrow> ulonglong" where
  "second_microsecond t = scast (ex_second t) * 1000000 + scast (ex_microsecond t)"

definition day_hour :: "MYSQL_TIME \<Rightarrow> ulonglong" where
  "day_hour t = scast (ex_day t) * 100 + scast (ex_hour t)"

definition day_minute :: "MYSQL_TIME \<Rightarrow> ulonglong" where
  "day_minute t = day_hour t * 100 + scast (ex_minute t)"

definition day_second :: "MYSQL_TIME \<Rightarrow> ulonglong" where
  "day_second t = day_minute t * 100 + scast (ex_second t)"

definition day_microsecond :: "MYSQL_TIME \<Rightarrow> ulonglong" where
  "day_microsecond t = day_second t * 1000000 + scast (ex_microsecond t)"

definition hour_minute :: "MYSQL_TIME \<Rightarrow> uint32" where
  "hour_minute t = ex_hour t * 100 + ex_minute t"

definition hour_second :: "MYSQL_TIME \<Rightarrow> uint32" where
  "hour_second t = hour_minute t * 100 + ex_second t"

definition hour_microsecond :: "MYSQL_TIME \<Rightarrow> ulonglong" where
  "hour_microsecond t = scast (hour_second t) * 1000000 + scast (ex_microsecond t)"

definition minute_second :: "MYSQL_TIME \<Rightarrow> uint32" where
  "minute_second t = ex_minute t * 100 + ex_second t"

definition minute_microsecond :: "MYSQL_TIME \<Rightarrow> ulonglong" where
  "minute_microsecond t = scast (minute_second t) * 1000000 + scast (ex_microsecond t)"

section \<open>Interval\_DDhhmmssff\<close>

definition is_valid_interval_DDhhmmssff_slow :: "MYSQL_TIME \<Rightarrow> bool" where
  "is_valid_interval_DDhhmmssff_slow t \<longleftrightarrow> time_type t = MYSQL_TIMESTAMP_TIME \<and> has_zero_YYYYMMDD t \<and> has_valid_mmssff t"

definition is_valid_interval_DDhhmmssff :: "MYSQL_TIME \<Rightarrow> bool" where
  "is_valid_interval_DDhhmmssff t \<longleftrightarrow> time_type t = MYSQL_TIMESTAMP_TIME"

definition interval_is_valid_value :: "MYSQL_TIME \<Rightarrow> bool" where
  "interval_is_valid_value t \<longleftrightarrow> time_type t = MYSQL_TIMESTAMP_NONE \<or> is_valid_interval_DDhhmmssff t"

definition max_useful_hour :: uint32 where
  "max_useful_hour = TIME_MAX_INTERVAL_HOUR"

definition max_int_part_char_length :: uint32 where
  "max_int_part_char_length = 1 + TIME_MAX_INTERVAL_DAY_CHAR_LENGTH + 1 + 8"

definition max_char_length :: "uint32 \<Rightarrow> uint32" where
  "max_char_length fsp = max_int_part_char_length + (if fsp \<noteq> 0 then 1 else 0) + fsp"

section \<open>Time\<close>

datatype datetime_to_time_mode_t =
    DATETIME_TO_TIME_DISALLOW
  | DATETIME_TO_TIME_YYYYMMDD_000000DD_MIX_TO_HOURS
  | DATETIME_TO_TIME_YYYYMMDD_TRUNCATE
  | DATETIME_TO_TIME_YYYYMMDD_00000000_ONLY
  | DATETIME_TO_TIME_MINUS_CURRENT_DATE

record Time_Options =
  opt_mode :: date_mode_t
  datetime_to_time_mode :: datetime_to_time_mode_t

definition default_datetime_to_time_mode :: datetime_to_time_mode_t where
  "default_datetime_to_time_mode = DATETIME_TO_TIME_YYYYMMDD_000000DD_MIX_TO_HOURS"

definition mk_Time_Options :: "date_conv_mode_t \<Rightarrow> time_round_mode_t \<Rightarrow> datetime_to_time_mode_t \<Rightarrow> Time_Options" where
  "mk_Time_Options fuzzydate round_mode dtmode = \<lparr>opt_mode = mk_Options fuzzydate round_mode, datetime_to_time_mode = dtmode\<rparr>"

definition time_default_flags_for_get_date :: date_conv_mode_t where
  "time_default_flags_for_get_date = conv_or TIME_TIME_ONLY TIME_INVALID_DATES"

definition time_comparison_flags_for_get_date :: date_conv_mode_t where
  "time_comparison_flags_for_get_date = conv_or (conv_or TIME_TIME_ONLY TIME_INVALID_DATES) TIME_FUZZY_DATES"

definition Time_Options_thd :: "time_round_mode_t \<Rightarrow> Time_Options" where
  "Time_Options_thd default_round_mode =
     mk_Time_Options time_default_flags_for_get_date default_round_mode default_datetime_to_time_mode"

definition Options_for_cast :: "time_round_mode_t \<Rightarrow> Time_Options" where
  "Options_for_cast default_round_mode =
     mk_Time_Options time_default_flags_for_get_date default_round_mode DATETIME_TO_TIME_YYYYMMDD_TRUNCATE"

definition Options_for_cast_mode :: "date_mode_t \<Rightarrow> time_round_mode_t \<Rightarrow> Time_Options" where
  "Options_for_cast_mode mode default_round_mode =
     mk_Time_Options (conv_or time_default_flags_for_get_date (mode_and_conv mode TIME_FUZZY_DATES)) default_round_mode
       DATETIME_TO_TIME_YYYYMMDD_TRUNCATE"

definition Options_for_round :: "time_round_mode_t \<Rightarrow> Time_Options" where
  "Options_for_round round_mode = mk_Time_Options time_default_flags_for_get_date round_mode DATETIME_TO_TIME_DISALLOW"

definition Time_Options_cmp :: "time_round_mode_t \<Rightarrow> Time_Options" where
  "Time_Options_cmp default_round_mode =
     mk_Time_Options time_comparison_flags_for_get_date default_round_mode default_datetime_to_time_mode"

definition is_valid_time_slow :: "MYSQL_TIME \<Rightarrow> bool" where
  "is_valid_time_slow t \<longleftrightarrow> time_type t = MYSQL_TIMESTAMP_TIME \<and> has_zero_YYYYMMDD t \<and> has_valid_mmssff t"

definition time_is_valid_value_slow :: "MYSQL_TIME \<Rightarrow> bool" where
  "time_is_valid_value_slow t \<longleftrightarrow> time_type t = MYSQL_TIMESTAMP_NONE \<or> is_valid_time_slow t"

definition hhmmssff_copy :: "MYSQL_TIME \<Rightarrow> MYSQL_TIME \<Rightarrow> MYSQL_TIME" where
  "hhmmssff_copy src t = t\<lparr>hour := hour src, minute := minute src, second := second src, second_part := second_part src\<rparr>"

definition datetime_to_time_YYYYMMDD_000000DD_mix_to_hours ::
    "uint32 \<Rightarrow> uint32 \<Rightarrow> uint32 \<Rightarrow> MYSQL_TIME \<Rightarrow> uint32 \<Rightarrow> MYSQL_TIME \<times> uint32" where
  "datetime_to_time_YYYYMMDD_000000DD_mix_to_hours from_year from_month from_day t warn =
     (if from_year \<noteq> 0 \<or> from_month \<noteq> 0 then (t, warn OR MYSQL_TIME_NOTE_TRUNCATED)
      else (t\<lparr>hour := hour t + from_day * 24\<rparr>, warn))"

text \<open>The difference to the current date: \<open>diff\<close> is \<^verbatim>\<open>calc_time_diff\<close> with a time as its result, \<open>current_date\<close> is what
  \<^verbatim>\<open>set_current_date\<close> stores for the session.\<close>

definition datetime_to_time_minus_current_date ::
    "time_lib \<Rightarrow> (MYSQL_TIME \<Rightarrow> MYSQL_TIME \<Rightarrow> int \<Rightarrow> MYSQL_TIME) \<Rightarrow> MYSQL_TIME \<Rightarrow> MYSQL_TIME \<Rightarrow> MYSQL_TIME" where
  "datetime_to_time_minus_current_date L diff current_date t =
     (let tmp = diff t current_date 1; (_, t, _) = check_time_range L tmp TIME_SECOND_PART_DIGITS 0 in t)"

definition valid_datetime_to_valid_time ::
    "time_lib \<Rightarrow> (MYSQL_TIME \<Rightarrow> MYSQL_TIME \<Rightarrow> int \<Rightarrow> MYSQL_TIME) \<Rightarrow> MYSQL_TIME \<Rightarrow> Time_Options \<Rightarrow> MYSQL_TIME \<Rightarrow> uint32
      \<Rightarrow> MYSQL_TIME \<times> uint32" where
  "valid_datetime_to_valid_time L diff current_date opt t warn =
     (if datetime_to_time_mode opt = DATETIME_TO_TIME_MINUS_CURRENT_DATE
      then (datetime_to_time_minus_current_date L diff current_date t, warn)
      else let (t, warn) =
                 (if datetime_to_time_mode opt = DATETIME_TO_TIME_YYYYMMDD_000000DD_MIX_TO_HOURS
                  then datetime_to_time_YYYYMMDD_000000DD_mix_to_hours (year t) (month t) (day t) t warn else (t, warn))
           in (t\<lparr>year := 0, month := 0, day := 0, time_type := MYSQL_TIMESTAMP_TIME\<rparr>, warn))"

definition valid_MYSQL_TIME_to_valid_value ::
    "time_lib \<Rightarrow> (MYSQL_TIME \<Rightarrow> MYSQL_TIME \<Rightarrow> int \<Rightarrow> MYSQL_TIME) \<Rightarrow> MYSQL_TIME \<Rightarrow> Time_Options \<Rightarrow> MYSQL_TIME \<Rightarrow> uint32
      \<Rightarrow> MYSQL_TIME \<times> uint32" where
  "valid_MYSQL_TIME_to_valid_value L diff current_date opt t warn =
     (if time_type t = MYSQL_TIMESTAMP_DATE \<or> time_type t = MYSQL_TIMESTAMP_DATETIME
      then if datetime_to_time_mode opt = DATETIME_TO_TIME_YYYYMMDD_00000000_ONLY
              \<and> (year t \<noteq> 0 \<or> month t \<noteq> 0 \<or> day t \<noteq> 0)
           then make_from_out_of_range t
           else if datetime_to_time_mode opt = DATETIME_TO_TIME_DISALLOW then make_from_out_of_range t
           else valid_datetime_to_valid_time L diff current_date opt t warn
      else if time_type t = MYSQL_TIMESTAMP_ERROR then (set_zero_time L t MYSQL_TIMESTAMP_TIME, warn)
      else (t, warn))"

definition adjust_time_range_or_invalidate :: "time_lib \<Rightarrow> MYSQL_TIME \<Rightarrow> uint32 \<Rightarrow> MYSQL_TIME \<times> uint32" where
  "adjust_time_range_or_invalidate L t warn =
     (let (rc, t, warn) = check_time_range L t TIME_SECOND_PART_DIGITS warn
      in (if rc then t\<lparr>time_type := MYSQL_TIMESTAMP_NONE\<rparr> else t, warn))"

definition mk_Time :: "MYSQL_TIME \<Rightarrow> MYSQL_TIME" where
  "mk_Time garbage = garbage\<lparr>time_type := MYSQL_TIMESTAMP_NONE\<rparr>"

definition Time_from_ltime ::
    "time_lib \<Rightarrow> (MYSQL_TIME \<Rightarrow> MYSQL_TIME \<Rightarrow> int \<Rightarrow> MYSQL_TIME) \<Rightarrow> MYSQL_TIME \<Rightarrow> Time_Options \<Rightarrow> MYSQL_TIME \<Rightarrow> MYSQL_TIME" where
  "Time_from_ltime L diff current_date opt ltime = fst (valid_MYSQL_TIME_to_valid_value L diff current_date opt ltime 0)"

text \<open>The constructor from a string gets the result of the conversion: whether it failed, the value and the warnings.\<close>

definition Time_from_string ::
    "time_lib \<Rightarrow> (MYSQL_TIME \<Rightarrow> MYSQL_TIME \<Rightarrow> int \<Rightarrow> MYSQL_TIME) \<Rightarrow> MYSQL_TIME \<Rightarrow> Time_Options \<Rightarrow> bool \<times> MYSQL_TIME \<times> uint32
      \<Rightarrow> MYSQL_TIME \<times> uint32" where
  "Time_from_string L diff current_date opt = (\<lambda>(rc, t, warn).
     if rc then (t\<lparr>time_type := MYSQL_TIMESTAMP_NONE\<rparr>, warn) else valid_MYSQL_TIME_to_valid_value L diff current_date opt t warn)"

definition Time_from_Sec6 ::
    "time_lib \<Rightarrow> (MYSQL_TIME \<Rightarrow> MYSQL_TIME \<Rightarrow> int \<Rightarrow> MYSQL_TIME) \<Rightarrow> MYSQL_TIME \<Rightarrow> 'a Sec6_scheme \<Rightarrow> Time_Options \<Rightarrow> MYSQL_TIME \<Rightarrow> uint32
      \<Rightarrow> MYSQL_TIME \<times> uint32" where
  "Time_from_Sec6 L diff current_date nr opt t warn =
     (let (rc, t, warn) = to_datetime_or_time L nr t warn TIME_INVALID_DATES;
          t = (if rc then t\<lparr>time_type := MYSQL_TIMESTAMP_NONE\<rparr> else t)
      in valid_MYSQL_TIME_to_valid_value L diff current_date opt t warn)"

definition is_valid_time :: "MYSQL_TIME \<Rightarrow> bool" where
  "is_valid_time t \<longleftrightarrow> time_type t = MYSQL_TIMESTAMP_TIME"

definition Time_from_Sec9 ::
    "time_lib \<Rightarrow> (uint32 \<Rightarrow> uint32 \<Rightarrow> MYSQL_TIME \<Rightarrow> uint32 \<Rightarrow> MYSQL_TIME \<times> uint32)
      \<Rightarrow> (MYSQL_TIME \<Rightarrow> MYSQL_TIME \<Rightarrow> int \<Rightarrow> MYSQL_TIME) \<Rightarrow> MYSQL_TIME \<Rightarrow> Sec9 \<Rightarrow> Time_Options \<Rightarrow> MYSQL_TIME \<Rightarrow> uint32
      \<Rightarrow> MYSQL_TIME \<times> uint32" where
  "Time_from_Sec9 L round_or_set_max_nsec diff current_date nr opt t warn =
     (let (t, warn) = Time_from_Sec6 L diff current_date nr opt t warn
      in if is_valid_time t \<and> mode_to_round (opt_mode opt) = Some TIME_FRAC_ROUND
         then round_or_set_max_nsec 6 (m_nsec nr) t warn else (t, warn))"

definition time_copy_to_mysql_time :: "MYSQL_TIME \<Rightarrow> MYSQL_TIME \<Rightarrow> bool \<times> MYSQL_TIME" where
  "time_copy_to_mysql_time t ltime =
     (if time_type t = MYSQL_TIMESTAMP_NONE then (True, ltime\<lparr>time_type := MYSQL_TIMESTAMP_NONE\<rparr>) else (False, t))"

definition time_to_packed :: "time_lib \<Rightarrow> MYSQL_TIME \<Rightarrow> ulonglong" where
  "time_to_packed L t = (if is_valid_time t then pack_time L t else 0)"

definition time_cmp :: "time_lib \<Rightarrow> MYSQL_TIME \<Rightarrow> MYSQL_TIME \<Rightarrow> int" where
  "time_cmp L t other =
     (let p0 = time_to_packed L t; p1 = time_to_packed L other
      in if sint p0 < sint p1 then - 1 else if sint p1 < sint p0 then 1 else 0)"

definition to_seconds_abs :: "MYSQL_TIME \<Rightarrow> ulonglong" where
  "to_seconds_abs t = ucast (hour t * 3600 + minute t * 60 + second t)"

definition to_seconds :: "MYSQL_TIME \<Rightarrow> ulonglong" where
  "to_seconds t = (if neg t then - to_seconds_abs t else to_seconds_abs t)"

definition time_to_longlong :: "(MYSQL_TIME \<Rightarrow> ulonglong) \<Rightarrow> MYSQL_TIME \<Rightarrow> ulonglong" where
  "time_to_longlong TIME_to_ulonglong_time t =
     (if \<not> is_valid_time t then 0 else let v = TIME_to_ulonglong_time t in if neg t then - v else v)"

definition time_to_double :: "(real \<Rightarrow> real) \<Rightarrow> (MYSQL_TIME \<Rightarrow> ulonglong) \<Rightarrow> MYSQL_TIME \<Rightarrow> real" where
  "time_to_double rnd TIME_to_ulonglong_time t =
     (if \<not> is_valid_time t then 0 else temporal_to_double rnd (neg t) (TIME_to_ulonglong_time t) (second_part t))"

definition time_trunc :: "time_lib \<Rightarrow> uint32 \<Rightarrow> MYSQL_TIME \<Rightarrow> MYSQL_TIME" where
  "time_trunc L dec t = (if is_valid_time t then my_time_trunc L dec t else t)"

definition time_ceiling ::
    "time_lib \<Rightarrow> (uint32 \<Rightarrow> uint32 \<Rightarrow> MYSQL_TIME \<Rightarrow> uint32 \<Rightarrow> MYSQL_TIME \<times> uint32) \<Rightarrow> MYSQL_TIME \<Rightarrow> uint32 \<Rightarrow> MYSQL_TIME \<times> uint32" where
  "time_ceiling L round_or_set_max_nsec t warn =
     (if is_valid_time t
      then if neg t then (my_time_trunc L 0 t, warn)
           else if second_part t \<noteq> 0 then round_or_set_max_nsec 0 999999999 t warn else (t, warn)
      else (t, warn))"

definition time_floor ::
    "time_lib \<Rightarrow> (uint32 \<Rightarrow> uint32 \<Rightarrow> MYSQL_TIME \<Rightarrow> uint32 \<Rightarrow> MYSQL_TIME \<times> uint32) \<Rightarrow> MYSQL_TIME \<Rightarrow> uint32 \<Rightarrow> MYSQL_TIME \<times> uint32" where
  "time_floor L round_or_set_max_nsec t warn =
     (if is_valid_time t
      then if \<not> neg t then (my_time_trunc L 0 t, warn)
           else if second_part t \<noteq> 0 then round_or_set_max_nsec 0 999999999 t warn else (t, warn)
      else (t, warn))"

definition time_round ::
    "(uint32 \<Rightarrow> MYSQL_TIME \<Rightarrow> uint32 \<Rightarrow> MYSQL_TIME \<times> uint32) \<Rightarrow> uint32 \<Rightarrow> MYSQL_TIME \<Rightarrow> uint32 \<Rightarrow> MYSQL_TIME \<times> uint32" where
  "time_round round_or_set_max dec t warn = (if is_valid_time t then round_or_set_max dec t warn else (t, warn))"

definition time_round_mode ::
    "time_lib \<Rightarrow> (uint32 \<Rightarrow> MYSQL_TIME \<Rightarrow> uint32 \<Rightarrow> MYSQL_TIME \<times> uint32) \<Rightarrow> uint32 \<Rightarrow> time_round_mode_t \<Rightarrow> MYSQL_TIME \<Rightarrow> uint32
      \<Rightarrow> MYSQL_TIME \<times> uint32" where
  "time_round_mode L round_or_set_max dec mode t warn =
     (if round_m_mode mode = FRAC_NONE then (time_trunc L dec t, warn)
      else if round_m_mode mode = FRAC_TRUNCATE then (time_trunc L dec t, warn)
      else if round_m_mode mode = FRAC_ROUND then time_round round_or_set_max dec t warn
      else (t, warn))"

text \<open>An integer out of the range of \<^verbatim>\<open>TIME\<close> has become the largest time, which is truncated independently of the mode.\<close>

definition Time_from_hybrid_dec ::
    "time_lib \<Rightarrow> (MYSQL_TIME \<Rightarrow> MYSQL_TIME \<Rightarrow> int \<Rightarrow> MYSQL_TIME) \<Rightarrow> MYSQL_TIME \<Rightarrow> Sec6 \<Rightarrow> Longlong_hybrid \<Rightarrow> Time_Options \<Rightarrow> uint32
      \<Rightarrow> MYSQL_TIME \<Rightarrow> uint32 \<Rightarrow> MYSQL_TIME \<times> uint32" where
  "Time_from_hybrid_dec L diff current_date garbage nr opt dec t warn =
     (let (t, warn) = Time_from_Sec6 L diff current_date (mk_Sec6 garbage nr) opt t warn in (time_trunc L dec t, warn))"

section \<open>Temporal\_with\_date\<close>

definition twd_daynr :: "time_lib \<Rightarrow> MYSQL_TIME \<Rightarrow> uint32" where
  "twd_daynr L t = calc_daynr L (year t) (month t) (day t)"

definition twd_weekday :: "time_lib \<Rightarrow> (uint32 \<Rightarrow> bool \<Rightarrow> uint32) \<Rightarrow> bool \<Rightarrow> MYSQL_TIME \<Rightarrow> uint32" where
  "twd_weekday L calc_weekday sunday_first_day_of_week t = calc_weekday (twd_daynr L t) sunday_first_day_of_week"

definition twd_dayofyear :: "time_lib \<Rightarrow> MYSQL_TIME \<Rightarrow> uint32" where
  "twd_dayofyear L t = twd_daynr L t - calc_daynr L (year t) 1 1 + 1"

definition twd_quarter :: "MYSQL_TIME \<Rightarrow> uint32" where
  "twd_quarter t = (month t + 2) div 3"

definition twd_week :: "(MYSQL_TIME \<Rightarrow> uint32 \<Rightarrow> uint32 \<times> uint32) \<Rightarrow> uint32 \<Rightarrow> MYSQL_TIME \<Rightarrow> uint32" where
  "twd_week calc_week week_behaviour t = fst (calc_week t week_behaviour)"

definition twd_yearweek :: "(MYSQL_TIME \<Rightarrow> uint32 \<Rightarrow> uint32 \<times> uint32) \<Rightarrow> uint32 \<Rightarrow> MYSQL_TIME \<Rightarrow> uint32" where
  "twd_yearweek calc_week week_behaviour t = (let (week, y) = calc_week t week_behaviour in week + y * 100)"

definition mk_Temporal_with_date :: "MYSQL_TIME \<Rightarrow> MYSQL_TIME" where
  "mk_Temporal_with_date garbage = garbage\<lparr>time_type := MYSQL_TIMESTAMP_NONE\<rparr>"

definition Temporal_with_date_Sec6 ::
    "time_lib \<Rightarrow> 'a Sec6_scheme \<Rightarrow> date_mode_t \<Rightarrow> MYSQL_TIME \<Rightarrow> uint32 \<Rightarrow> MYSQL_TIME \<times> uint32" where
  "Temporal_with_date_Sec6 L nr flags t warn =
     (let (rc, t, warn) = to_datetime_or_date L nr t warn (mode_to_conv flags)
      in (if rc then t\<lparr>time_type := MYSQL_TIMESTAMP_NONE\<rparr> else t, warn))"

definition Temporal_with_date_string :: "bool \<times> MYSQL_TIME \<Rightarrow> MYSQL_TIME" where
  "Temporal_with_date_string = (\<lambda>(rc, t). if rc then t\<lparr>time_type := MYSQL_TIMESTAMP_NONE\<rparr> else t)"

definition twd_comparison_flags_for_get_date :: date_conv_mode_t where
  "twd_comparison_flags_for_get_date = conv_or TIME_INVALID_DATES TIME_FUZZY_DATES"

section \<open>Date\<close>

definition is_valid_date_slow :: "time_lib \<Rightarrow> MYSQL_TIME \<Rightarrow> bool" where
  "is_valid_date_slow L t \<longleftrightarrow> \<not> check_datetime_range L t"

definition date_is_valid_value_slow :: "time_lib \<Rightarrow> MYSQL_TIME \<Rightarrow> bool" where
  "date_is_valid_value_slow L t \<longleftrightarrow> time_type t = MYSQL_TIMESTAMP_NONE \<or> is_valid_date_slow L t"

text \<open>From an item: the argument is what its conversion returned.\<close>

definition Date_from_item :: "MYSQL_TIME \<Rightarrow> MYSQL_TIME" where
  "Date_from_item t = (if time_type t = MYSQL_TIMESTAMP_DATETIME then datetime_to_date t else t)"

definition Date_from_temporal :: "MYSQL_TIME \<Rightarrow> MYSQL_TIME" where
  "Date_from_temporal d = datetime_to_date d"

definition is_valid_date :: "MYSQL_TIME \<Rightarrow> bool" where
  "is_valid_date t \<longleftrightarrow> time_type t = MYSQL_TIMESTAMP_DATE"

definition date_check_date :: "time_lib \<Rightarrow> date_conv_mode_t \<Rightarrow> MYSQL_TIME \<Rightarrow> uint32 \<Rightarrow> bool \<times> uint32" where
  "date_check_date L flags t w =
     check_date_with L t (year t \<noteq> 0 \<or> month t \<noteq> 0 \<or> day t \<noteq> 0) (conv_ulonglong (conv_and flags TIME_MODE_FOR_XXX_TO_DATE)) w"

definition date_copy_to_mysql_time :: "MYSQL_TIME \<Rightarrow> MYSQL_TIME \<Rightarrow> bool \<times> MYSQL_TIME" where
  "date_copy_to_mysql_time t ltime =
     (if time_type t = MYSQL_TIMESTAMP_NONE then (True, ltime\<lparr>time_type := MYSQL_TIMESTAMP_NONE\<rparr>) else (False, t))"

definition date_to_longlong :: "(MYSQL_TIME \<Rightarrow> ulonglong) \<Rightarrow> MYSQL_TIME \<Rightarrow> ulonglong" where
  "date_to_longlong TIME_to_ulonglong_date t = (if is_valid_date t then TIME_to_ulonglong_date t else 0)"

definition date_to_double :: "(real \<Rightarrow> real) \<Rightarrow> (MYSQL_TIME \<Rightarrow> ulonglong) \<Rightarrow> MYSQL_TIME \<Rightarrow> real" where
  "date_to_double rnd TIME_to_ulonglong_date t = rnd (of_int (sint (date_to_longlong TIME_to_ulonglong_date t)))"

section \<open>Datetime\<close>

type_synonym roi_fun = "uint32 \<Rightarrow> MYSQL_TIME \<Rightarrow> uint32 \<Rightarrow> MYSQL_TIME \<times> uint32"
type_synonym roi_nsec_fun = "uint32 \<Rightarrow> uint32 \<Rightarrow> MYSQL_TIME \<Rightarrow> uint32 \<Rightarrow> MYSQL_TIME \<times> uint32"

definition date_to_datetime_if_needed :: "MYSQL_TIME \<Rightarrow> MYSQL_TIME" where
  "date_to_datetime_if_needed t = (if time_type t = MYSQL_TIMESTAMP_DATE then date_to_datetime t else t)"

definition is_valid_datetime :: "MYSQL_TIME \<Rightarrow> bool" where
  "is_valid_datetime t \<longleftrightarrow> time_type t = MYSQL_TIMESTAMP_DATETIME"

definition Datetime_from_item :: "MYSQL_TIME \<Rightarrow> MYSQL_TIME" where
  "Datetime_from_item t = date_to_datetime_if_needed t"

definition Datetime_Sec6 ::
    "time_lib \<Rightarrow> 'a Sec6_scheme \<Rightarrow> date_mode_t \<Rightarrow> MYSQL_TIME \<Rightarrow> uint32 \<Rightarrow> MYSQL_TIME \<times> uint32" where
  "Datetime_Sec6 L nr flags t warn =
     (let (t, warn) = Temporal_with_date_Sec6 L nr flags t warn in (date_to_datetime_if_needed t, warn))"

definition Datetime_Sec9 ::
    "time_lib \<Rightarrow> roi_nsec_fun \<Rightarrow> Sec9 \<Rightarrow> date_mode_t \<Rightarrow> MYSQL_TIME \<Rightarrow> uint32 \<Rightarrow> MYSQL_TIME \<times> uint32" where
  "Datetime_Sec9 L round_or_invalidate_nsec nr fuzzydate t warn =
     (let (t, warn) = Datetime_Sec6 L nr fuzzydate t warn
      in if is_valid_datetime t \<and> mode_to_round fuzzydate = Some TIME_FRAC_ROUND
         then round_or_invalidate_nsec 6 (m_nsec nr) t warn else (t, warn))"

definition Datetime_hybrid ::
    "time_lib \<Rightarrow> Sec6 \<Rightarrow> Longlong_hybrid \<Rightarrow> date_mode_t \<Rightarrow> MYSQL_TIME \<Rightarrow> uint32 \<Rightarrow> MYSQL_TIME \<times> uint32" where
  "Datetime_hybrid L garbage nr mode t warn = Datetime_Sec6 L (mk_Sec6 garbage nr) mode t warn"

definition Datetime_zero :: "time_lib \<Rightarrow> Sec6 \<Rightarrow> MYSQL_TIME \<Rightarrow> uint32 \<Rightarrow> MYSQL_TIME" where
  "Datetime_zero L garbage t warn = fst (Datetime_hybrid L garbage (mk_hybrid 0 False) (mk_date_mode_t 0) t warn)"

definition datetime_check_date :: "time_lib \<Rightarrow> date_conv_mode_t \<Rightarrow> MYSQL_TIME \<Rightarrow> uint32 \<Rightarrow> bool \<times> uint32" where
  "datetime_check_date L flags t w =
     check_date_with L t (year t \<noteq> 0 \<or> month t \<noteq> 0 \<or> day t \<noteq> 0) (conv_ulonglong (conv_and flags TIME_MODE_FOR_XXX_TO_DATE)) w"

definition hhmmssff_is_zero :: "MYSQL_TIME \<Rightarrow> bool" where
  "hhmmssff_is_zero t \<longleftrightarrow> hour t = 0 \<and> minute t = 0 \<and> second t = 0 \<and> second_part t = 0"

definition hhmmss_to_seconds_abs :: "MYSQL_TIME \<Rightarrow> ulonglong" where
  "hhmmss_to_seconds_abs t = ucast (hour t * 3600 + minute t * 60 + second t)"

definition hhmmss_to_seconds :: "MYSQL_TIME \<Rightarrow> ulonglong" where
  "hhmmss_to_seconds t = (if neg t then - hhmmss_to_seconds_abs t else hhmmss_to_seconds_abs t)"

definition datetime_to_seconds :: "time_lib \<Rightarrow> MYSQL_TIME \<Rightarrow> ulonglong" where
  "datetime_to_seconds L t = hhmmss_to_seconds t + ucast (twd_daynr L t) * 24 * 3600"

definition datetime_copy_to_mysql_time :: "MYSQL_TIME \<Rightarrow> MYSQL_TIME \<Rightarrow> bool \<times> MYSQL_TIME" where
  "datetime_copy_to_mysql_time t ltime =
     (if time_type t = MYSQL_TIMESTAMP_NONE then (True, ltime\<lparr>time_type := MYSQL_TIMESTAMP_NONE\<rparr>) else (False, t))"

definition datetime_copy_to_mysql_time_type :: "MYSQL_TIME \<Rightarrow> MYSQL_TIME \<Rightarrow> timestamp_type \<Rightarrow> bool \<times> MYSQL_TIME" where
  "datetime_copy_to_mysql_time_type t ltime ty =
     (let (rc, ltime) = datetime_copy_to_mysql_time t ltime
      in if rc then (True, ltime) else (False, ltime\<lparr>time_type := ty\<rparr>))"

definition datetime_to_longlong :: "(MYSQL_TIME \<Rightarrow> ulonglong) \<Rightarrow> MYSQL_TIME \<Rightarrow> ulonglong" where
  "datetime_to_longlong TIME_to_ulonglong_datetime t = (if is_valid_datetime t then TIME_to_ulonglong_datetime t else 0)"

definition datetime_to_double :: "(real \<Rightarrow> real) \<Rightarrow> (MYSQL_TIME \<Rightarrow> ulonglong) \<Rightarrow> MYSQL_TIME \<Rightarrow> real" where
  "datetime_to_double rnd TIME_to_ulonglong_datetime t =
     (if \<not> is_valid_datetime t then 0 else temporal_to_double rnd (neg t) (TIME_to_ulonglong_datetime t) (second_part t))"

definition datetime_to_packed :: "time_lib \<Rightarrow> MYSQL_TIME \<Rightarrow> ulonglong" where
  "datetime_to_packed L t = (if is_valid_datetime t then pack_time L t else 0)"

definition datetime_trunc :: "time_lib \<Rightarrow> uint32 \<Rightarrow> MYSQL_TIME \<Rightarrow> MYSQL_TIME" where
  "datetime_trunc L dec t = (if is_valid_datetime t then my_datetime_trunc L dec t else t)"

definition datetime_ceiling :: "roi_nsec_fun \<Rightarrow> MYSQL_TIME \<Rightarrow> uint32 \<Rightarrow> MYSQL_TIME \<times> uint32" where
  "datetime_ceiling round_or_invalidate_nsec t warn =
     (if is_valid_datetime t \<and> second_part t \<noteq> 0 then round_or_invalidate_nsec 0 999999999 t warn else (t, warn))"

definition datetime_round :: "roi_fun \<Rightarrow> uint32 \<Rightarrow> MYSQL_TIME \<Rightarrow> uint32 \<Rightarrow> MYSQL_TIME \<times> uint32" where
  "datetime_round round_or_invalidate dec t warn = (if is_valid_datetime t then round_or_invalidate dec t warn else (t, warn))"

definition datetime_round_mode ::
    "time_lib \<Rightarrow> roi_fun \<Rightarrow> uint32 \<Rightarrow> time_round_mode_t \<Rightarrow> MYSQL_TIME \<Rightarrow> uint32 \<Rightarrow> MYSQL_TIME \<times> uint32" where
  "datetime_round_mode L round_or_invalidate dec mode t warn =
     (if round_m_mode mode = FRAC_NONE then (datetime_trunc L dec t, warn)
      else if round_m_mode mode = FRAC_TRUNCATE then (datetime_trunc L dec t, warn)
      else if round_m_mode mode = FRAC_ROUND then datetime_round round_or_invalidate dec t warn
      else (t, warn))"

section \<open>Timestamp\<close>

definition mk_Timestamp :: "uint32 \<Rightarrow> uint32 \<Rightarrow> timeval" where
  "mk_Timestamp timestamp sec_part = \<lparr>tv_sec = timestamp, tv_usec = sec_part\<rparr>"

definition add_nanoseconds_usec :: "uint32 \<Rightarrow> timeval \<Rightarrow> bool \<times> timeval" where
  "add_nanoseconds_usec n tv =
     (if n < 500 then (False, tv)
      else let tv = tv\<lparr>tv_usec := tv_usec tv + (n + 500) div 1000\<rparr>
           in if sint (tv_usec tv) < 1000000 then (False, tv)
              else (True, tv\<lparr>tv_usec := c_mod (tv_usec tv) 1000000\<rparr>))"

definition timestamp_cmp :: "timeval \<Rightarrow> timeval \<Rightarrow> int" where
  "timestamp_cmp a other =
     (if sint (tv_sec a) < sint (tv_sec other) then - 1
      else if sint (tv_sec other) < sint (tv_sec a) then 1
      else if sint (tv_usec a) < sint (tv_usec other) then - 1
      else if sint (tv_usec other) < sint (tv_usec a) then 1 else 0)"

definition timestamp_fraction_remainder :: "time_lib \<Rightarrow> timeval \<Rightarrow> uint32 \<Rightarrow> uint32" where
  "timestamp_fraction_remainder L tv dec = my_time_fraction_remainder L (tv_usec tv) dec"

definition timestamp_trunc :: "time_lib \<Rightarrow> uint32 \<Rightarrow> timeval \<Rightarrow> timeval" where
  "timestamp_trunc L dec tv = my_timeval_trunc L dec tv"

definition timestamp_round_mode ::
    "time_lib \<Rightarrow> (uint32 \<Rightarrow> timeval \<Rightarrow> uint32 \<Rightarrow> timeval \<times> uint32) \<Rightarrow> uint32 \<Rightarrow> time_round_mode_t \<Rightarrow> timeval \<Rightarrow> uint32
      \<Rightarrow> timeval \<times> uint32" where
  "timestamp_round_mode L round_or_set_max dec mode tv warn =
     (if round_m_mode mode = FRAC_NONE then (timestamp_trunc L dec tv, warn)
      else if round_m_mode mode = FRAC_TRUNCATE then (timestamp_trunc L dec tv, warn)
      else if round_m_mode mode = FRAC_ROUND then round_or_set_max dec tv warn
      else (tv, warn))"

record Timestamp_or_zero_datetime = timeval +
  m_is_zero_datetime :: bool

definition mk_zero_datetime :: Timestamp_or_zero_datetime where
  "mk_zero_datetime = \<lparr>tv_sec = 0, tv_usec = 0, m_is_zero_datetime = True\<rparr>"

text \<open>The native form is a string of bytes, empty for the zero datetime; \<open>native_timestamp\<close> decodes the others.\<close>

definition zero_datetime_from_native :: "(uchar list \<Rightarrow> timeval) \<Rightarrow> uchar list \<Rightarrow> Timestamp_or_zero_datetime" where
  "zero_datetime_from_native native_timestamp native =
     (let tm = (if length native \<noteq> 0 then native_timestamp native else mk_Timestamp 0 0)
      in \<lparr>tv_sec = tv_sec tm, tv_usec = tv_usec tm, m_is_zero_datetime = (length native = 0)\<rparr>)"

definition zero_datetime_trunc :: "time_lib \<Rightarrow> uint32 \<Rightarrow> Timestamp_or_zero_datetime \<Rightarrow> Timestamp_or_zero_datetime" where
  "zero_datetime_trunc L decimals z =
     (if \<not> m_is_zero_datetime z
      then z\<lparr>tv_usec := tv_usec (timestamp_trunc L decimals (timeval.truncate z))\<rparr> else z)"

definition zero_datetime_cmp :: "Timestamp_or_zero_datetime \<Rightarrow> Timestamp_or_zero_datetime \<Rightarrow> int" where
  "zero_datetime_cmp z other =
     (if m_is_zero_datetime z then (if m_is_zero_datetime other then 0 else - 1)
      else if m_is_zero_datetime other then 1
      else timestamp_cmp (timeval.truncate z) (timeval.truncate other))"

definition zero_datetime_to_datetime :: "MYSQL_TIME \<Rightarrow> (timeval \<Rightarrow> MYSQL_TIME) \<Rightarrow> Timestamp_or_zero_datetime \<Rightarrow> MYSQL_TIME" where
  "zero_datetime_to_datetime zero datetime_of z = (if m_is_zero_datetime z then zero else datetime_of (timeval.truncate z))"

section \<open>Rounding up\<close>

interpretation timestamp: rounding_carry "\<lambda>tv. unat (tv_usec tv)" 1000000 "\<lambda>tv. tv_usec tv < 1000000" add_nanoseconds_usec
proof -
  have step: "tv_usec (snd (add_nanoseconds_usec n tv)) < 1000000
      \<and> unat (tv_usec (snd (add_nanoseconds_usec n tv))) + (if fst (add_nanoseconds_usec n tv) then 1000000 else 0)
        = unat (tv_usec tv) + (unat n + 500) div 1000"
    if a: "tv_usec tv < 1000000" "n \<le> 1000000000" for tv n
  proof -
    let ?v = "tv_usec tv + (n + 500) div 1000"
    have u: "unat (tv_usec tv) < 1000000" using a(1) by (simp add: word_less_nat_alt)
    note m = micro_step [OF u a(2)]
    have b: "unat ?v \<le> 2000000" using m(3) u micro_le [OF a(2)] by linarith
    then have s: "sint ?v = int (unat ?v)" by (intro sint_small_32) simp
    then have c: "sint ?v < 1000000 \<longleftrightarrow> unat ?v < 1000000" by (simp only: s) linarith
    have "sint (1000000 :: uint32) = int 1000000" by simp
    then have "c_mod ?v 1000000 = of_nat (unat ?v mod 1000000)" unfolding c_mod_def s by (simp only: smod_of_nat) simp
    also have "\<dots> = ?v mod 1000000" by (simp add: word_unat_eq_iff unat_of_nat unat_mod_distrib)
    finally have "c_mod ?v 1000000 = ?v mod 1000000" .
    then show ?thesis using u m c by (auto simp: add_nanoseconds_usec_def Let_def word_less_nat_alt)
  qed
  show "rounding_carry (\<lambda>tv. unat (tv_usec tv)) 1000000 (\<lambda>tv. tv_usec tv < 1000000) add_nanoseconds_usec"
    by unfold_locales (use step in \<open>auto simp: word_less_nat_alt\<close>)
qed

text \<open>Nanoseconds are rounded to microseconds and added in all classes alike: to the microseconds of a number of
  seconds, to those of a timestamp, and to minutes, seconds and microseconds of a time. The result is the sum modulo
  the limit of the field, and the carry is reported exactly when the limit is reached.\<close>

theorem nanoseconds_carry:
  assumes "n \<le> 1000000000" "m_usec s < 1000000" "tv_usec tv < 1000000" "has_valid_mmssff t"
  defines "r \<equiv> (unat n + 500) div 1000"
  shows "(fst (sec6_add_nanoseconds n s) \<longleftrightarrow> 1000000 \<le> unat (m_usec s) + r)
    \<and> unat (m_usec (snd (sec6_add_nanoseconds n s))) = (unat (m_usec s) + r) mod 1000000
    \<and> (fst (add_nanoseconds_usec n tv) \<longleftrightarrow> 1000000 \<le> unat (tv_usec tv) + r)
    \<and> unat (tv_usec (snd (add_nanoseconds_usec n tv))) = (unat (tv_usec tv) + r) mod 1000000
    \<and> (fst (add_nanoseconds_mmssff n t) \<longleftrightarrow> 3600000000 \<le> mmssff_total t + r)
    \<and> mmssff_total (snd (add_nanoseconds_mmssff n t)) = (mmssff_total t + r) mod 3600000000
    \<and> has_valid_mmssff (snd (add_nanoseconds_mmssff n t))"
  unfolding r_def
  using sec6.carry_iff [OF assms(2,1)] sec6.total_mod [OF assms(2,1)] timestamp.carry_iff [OF assms(3,1)]
    timestamp.total_mod [OF assms(3,1)] mmssff.carry_iff [OF assms(4,1)] mmssff.total_mod [OF assms(4,1)]
    mmssff.add_valid [OF assms(4,1)]
  by blast

section \<open>Truncation\<close>

lemma multiple_div: "0 < d \<Longrightarrow> (q * (d * k) + u) div d * d = q * (d * k) + u div d * (d :: nat)"
proof -
  assume d: "0 < d"
  have "q * (d * k) + u = u + d * (q * k)" by simp
  then have "(q * (d * k) + u) div d = q * k + u div d" using d by (metis div_mult_self2 less_numeral_extra(3))
  then show ?thesis by (simp add: algebra_simps)
qed

text \<open>Truncating a time gives the largest multiple of the unit of the last digit that is not larger, as an absolute
  value; the time stays valid, truncating again changes nothing, and a time that becomes zero is not negative.\<close>

theorem time_truncated:
  assumes "log_10_ok L" "dec \<le> 6" "is_valid_time_slow t"
  defines "t' \<equiv> time_trunc L dec t"
  shows "is_valid_time_slow t' \<and> hms_usecs t' = hms_usecs t div unit_of dec * unit_of dec
    \<and> (neg t' \<longleftrightarrow> neg t \<and> hms_usecs t' \<noteq> 0) \<and> time_trunc L dec t' = t'"
proof -
  have v: "second_part t \<le> 999999" "second t \<le> 59" "minute t \<le> 59" "time_type t = MYSQL_TIMESTAMP_TIME" "has_zero_YYYYMMDD t"
    using assms(3) by (simp_all add: is_valid_time_slow_def has_valid_mmssff_def time_limits)
  have u: "unat (second_part t) < 1000000" using v(1) by (simp add: unat_le_999999)
  define u' where "u' = second_part t - my_time_fraction_remainder L (second_part t) dec"
  have u': "unat u' = unat (second_part t) div unit_of dec * unit_of dec"
    using datetime_trunc.truncated [OF assms(1,2), of t] u by (simp add: u'_def my_datetime_trunc_def)
  obtain k where k: "1000000 = unit_of dec * k" and pos: "0 < unit_of dec"
  proof
    have "6 - unat dec \<in> {0, 1, 2, 3, 4, 5, 6}" by auto
    then show "1000000 = unit_of dec * (1000000 div unit_of dec)" "0 < unit_of dec" by (auto simp: unit_of_def)
  qed
  have le: "unat u' \<le> unat (second_part t)" unfolding u' by simp
  have t': "t' = t\<lparr>second_part := u', neg := neg t \<and> \<not> (u' = 0 \<and> hour t = 0 \<and> minute t = 0 \<and> second t = 0)\<rparr>"
    using v(4) by (cases t) (auto simp: t'_def time_trunc_def is_valid_time_def my_time_trunc_def Let_def u'_def)
  have valid: "is_valid_time_slow t'"
    using v le u by (simp add: t' is_valid_time_slow_def has_valid_mmssff_def has_zero_YYYYMMDD_def time_limits unat_le_999999)
  have f: "hour t' = hour t" "minute t' = minute t" "second t' = second t" "second_part t' = u'" by (simp_all add: t')
  have hms: "hms_usecs t' = hms_usecs t div unit_of dec * unit_of dec"
    using multiple_div [OF pos, of "(unat (hour t) * 60 + unat (minute t)) * 60 + unat (second t)" k "unat (second_part t)"]
    unfolding hms_usecs_def f u' k [symmetric] by (rule sym)
  have ng: "neg t' \<longleftrightarrow> neg t \<and> hms_usecs t' \<noteq> 0" by (auto simp: t' hms_usecs_def unat_eq_0)
  have "my_time_fraction_remainder L u' dec = 0"
    using fraction_remainder_mod [OF assms(1,2), OF order.strict_trans1 [OF le, of "2 ^ 31"]] u by (simp add: u' unat_eq_0)
  then have "time_trunc L dec t' = t'"
    using v(4) by (simp add: t' time_trunc_def is_valid_time_def my_time_trunc_def Let_def)
  with valid hms ng show ?thesis by blast
qed

section \<open>Seconds\<close>

lemma seconds_bound: "h \<le> 838 \<Longrightarrow> m \<le> 59 \<Longrightarrow> s \<le> 59 \<Longrightarrow> (h * 60 + m) * 60 + s < (3020400 :: nat)"
  by (simp add: algebra_simps)

lemma unat_seconds:
  assumes "hour t \<le> TIME_MAX_HOUR" "has_valid_mmssff t"
  shows "unat (hour t * 3600 + minute t * 60 + second t) = (unat (hour t) * 60 + unat (minute t)) * 60 + unat (second t)"
    "unat (hour t * 3600 + minute t * 60 + second t) < 3020400"
proof -
  have b: "unat (hour t) \<le> 838" "unat (minute t) \<le> 59" "unat (second t) \<le> 59"
    using assms by (simp_all add: has_valid_mmssff_def time_limits word_le_nat_alt)
  then show e: "unat (hour t * 3600 + minute t * 60 + second t) = (unat (hour t) * 60 + unat (minute t)) * 60 + unat (second t)"
    by (simp add: unat_word_ariths)
  show "unat (hour t * 3600 + minute t * 60 + second t) < 3020400" unfolding e using b by (rule seconds_bound)
qed

lemma sint_with_sign:
  assumes "unat (w :: ulonglong) < 2 ^ 63"
  shows "sint (if n then - w else w) = with_sign n (unat w)"
proof (cases "n \<and> w \<noteq> 0")
  case True
  have u: "uint w = int (unat w)" by simp
  have b: "uint w < 2 ^ 63" using iffD2 [OF of_nat_less_iff [where 'a = int], OF assms] by simp
  have "uint w \<noteq> 0" using True by (simp add: word_uint_eq_iff)
  moreover have "0 \<le> uint w" by simp
  ultimately have "sint (- w) = - uint w" using b by (simp add: sint_uint_64 uint_uminus_64)
  then show ?thesis using True by (simp add: with_sign_def)
next
  case False
  then show ?thesis using sint_small_64 [OF assms] by (auto simp: with_sign_def)
qed

lemma to_seconds_value:
  assumes "hour t \<le> TIME_MAX_HOUR" "has_valid_mmssff t"
  shows "sint (to_seconds t) = with_sign (neg t) (hms_usecs t div 1000000)"
proof -
  have "unat (second_part t) < 1000000" using assms(2) by (simp add: mmssff_simps)
  then have h: "hms_usecs t div 1000000 = (unat (hour t) * 60 + unat (minute t)) * 60 + unat (second t)" by (simp add: hms_usecs_def)
  have u: "unat (to_seconds_abs t) = hms_usecs t div 1000000"
    using unat_seconds [OF assms] unfolding h to_seconds_abs_def by (simp add: unsigned_ucast_eq take_bit_nat_eq_self)
  then have "unat (to_seconds_abs t) < 2 ^ 63" using unat_seconds [OF assms] unfolding h by simp
  from sint_with_sign [OF this, of "neg t"] show ?thesis by (simp add: to_seconds_def u)
qed

text \<open>C18. A number of seconds that is within the range of \<^verbatim>\<open>TIME\<close> is recovered, with its sign, from the time that it is
  converted to; a larger one gives the largest time.\<close>

theorem seconds_round_trip:
  fixes t0 :: MYSQL_TIME and unused :: uint32
  assumes "set_zero_ok L" "check_time_range_ok L" "dec \<le> 6" "m_usec s \<le> TIME_MAX_SECOND_PART"
  shows "sint (to_seconds (snd (sec_to_time L s t0 dec unused))) = with_sign (m_neg s) (min (unat (m_sec s)) 3020399)"
proof -
  note c = sec_to_time_value [OF assms, of t0 unused]
  have v: "hour (snd (sec_to_time L s t0 dec unused)) \<le> TIME_MAX_HOUR" "has_valid_mmssff (snd (sec_to_time L s t0 dec unused))"
    using c by (simp_all add: valid_time_def)
  have u: "unat (m_usec s) < 1000000" using assms(4) by (simp add: time_limits unat_le_999999)
  have "6 - unat dec \<in> {0, 1, 2, 3, 4, 5, 6}" by auto
  then have r: "1000000 - unit_of dec < 1000000" by (auto simp: unit_of_def)
  have "hms_usecs (snd (sec_to_time L s t0 dec unused)) =
      (if unat (m_sec s) \<le> 3020399 then unat (m_sec s) * 1000000 + unat (m_usec s) else 3020399 * 1000000 + (1000000 - unit_of dec))"
    using c by blast
  then have "hms_usecs (snd (sec_to_time L s t0 dec unused)) div 1000000 = min (unat (m_sec s)) 3020399"
    using u r by (cases "unat (m_sec s) \<le> 3020399") (simp_all add: div_mult_self3)
  then show ?thesis using to_seconds_value [OF v] c by simp
qed

section \<open>Dates as times\<close>

text \<open>A valid date with or without a time, as far as the conversion depends on it.\<close>

definition datetime_like :: "MYSQL_TIME \<Rightarrow> bool" where
  "datetime_like t \<longleftrightarrow> (time_type t = MYSQL_TIMESTAMP_DATE \<or> time_type t = MYSQL_TIMESTAMP_DATETIME) \<and> \<not> neg t
     \<and> day t < 32 \<and> hour t < 24 \<and> has_valid_mmssff t"

text \<open>The difference of two dates is a time with valid minutes and seconds, and a time within its range is kept.\<close>

definition diff_ok :: "(MYSQL_TIME \<Rightarrow> MYSQL_TIME \<Rightarrow> int \<Rightarrow> MYSQL_TIME) \<Rightarrow> bool" where
  "diff_ok diff \<longleftrightarrow> (\<forall>t u. datetime_like t \<longrightarrow> datetime_like u \<longrightarrow> is_valid_time_slow (diff t u 1))"

definition time_range_kept :: "time_lib \<Rightarrow> bool" where
  "time_range_kept L \<longleftrightarrow> (\<forall>t w. valid_time t \<longrightarrow> check_time_range L t 6 w = (False, t, w))"

lemma checked_range_valid:
  assumes "check_time_range_ok L" "time_range_kept L" "is_valid_time_slow t"
  shows "valid_time (fst (snd (check_time_range L t 6 w)))"
proof (cases "hour t \<le> TIME_MAX_HOUR")
  case True
  then have "valid_time t" using assms(3) by (simp add: valid_time_def is_valid_time_slow_def)
  then show ?thesis using assms(2) by (simp add: time_range_kept_def)
next
  case False
  then have "fst (snd (check_time_range L t 6 w)) = t\<lparr>hour := TIME_MAX_HOUR, minute := TIME_MAX_MINUTE, second := TIME_MAX_SECOND,
      second_part := of_nat (1000000 - unit_of 6)\<rparr>"
    using assms(1,3) by (simp add: check_time_range_ok_def is_valid_time_slow_def not_le)
  then show ?thesis using assms(3)
    by (simp add: valid_time_def is_valid_time_slow_def has_zero_YYYYMMDD_def has_valid_mmssff_def time_limits unit_of_def)
qed

lemma mixed_hours:
  assumes "datetime_like t"
  shows "unat (hour t + day t * 24) = unat (hour t) + unat (day t) * 24" "hour t + day t * 24 \<le> TIME_MAX_HOUR" "hour t \<le> TIME_MAX_HOUR"
proof -
  have b: "unat (day t) \<le> 31" "unat (hour t) \<le> 23" using assms by (simp_all add: datetime_like_def word_less_nat_alt)
  then show u: "unat (hour t + day t * 24) = unat (hour t) + unat (day t) * 24" by (simp add: unat_word_ariths)
  show "hour t + day t * 24 \<le> TIME_MAX_HOUR" using b by (simp add: time_limits word_le_nat_alt u)
  show "hour t \<le> TIME_MAX_HOUR" using b by (simp add: time_limits word_le_nat_alt)
qed

text \<open>C11. A date with a time is converted to a valid \<^verbatim>\<open>TIME\<close> value in every mode, or to no value with a warning: dates are
  refused, or only those that are not zero, or are dropped, or their days are added as hours when year and month are
  zero and dropped with a note otherwise, or the distance to the current date is taken.\<close>

theorem datetime_to_time:
  fixes warn :: uint32 and opt :: Time_Options
  assumes "check_time_range_ok L" "time_range_kept L" "diff_ok diff" "datetime_like current_date" "datetime_like t"
  defines "r \<equiv> valid_MYSQL_TIME_to_valid_value L diff current_date opt t warn"
  shows "case datetime_to_time_mode opt of
      DATETIME_TO_TIME_DISALLOW \<Rightarrow> time_type (fst r) = MYSQL_TIMESTAMP_NONE \<and> snd r = MYSQL_TIME_WARN_OUT_OF_RANGE
    | DATETIME_TO_TIME_YYYYMMDD_000000DD_MIX_TO_HOURS \<Rightarrow> valid_time (fst r)
        \<and> (if year t = 0 \<and> month t = 0 then hms_usecs (fst r) = unat (day t) * 86400000000 + hms_usecs t \<and> snd r = warn
           else hms_usecs (fst r) = hms_usecs t \<and> snd r = warn OR MYSQL_TIME_NOTE_TRUNCATED)
    | DATETIME_TO_TIME_YYYYMMDD_TRUNCATE \<Rightarrow> valid_time (fst r) \<and> hms_usecs (fst r) = hms_usecs t \<and> snd r = warn
    | DATETIME_TO_TIME_YYYYMMDD_00000000_ONLY \<Rightarrow>
        (if has_zero_YYYYMMDD t then valid_time (fst r) \<and> hms_usecs (fst r) = hms_usecs t \<and> snd r = warn
         else time_type (fst r) = MYSQL_TIMESTAMP_NONE \<and> snd r = MYSQL_TIME_WARN_OUT_OF_RANGE)
    | DATETIME_TO_TIME_MINUS_CURRENT_DATE \<Rightarrow> valid_time (fst r) \<and> snd r = warn"
proof -
  note h = mixed_hours [OF assms(5)]
  have ty: "time_type t = MYSQL_TIMESTAMP_DATE \<or> time_type t = MYSQL_TIMESTAMP_DATETIME" "has_valid_mmssff t"
    using assms(5) by (simp_all add: datetime_like_def)
  define z where "z = t\<lparr>year := 0, month := 0, day := 0, time_type := MYSQL_TIMESTAMP_TIME\<rparr>"
  have z: "valid_time z" "hms_usecs z = hms_usecs t"
    using ty(2) h(3) by (simp_all add: z_def valid_time_def has_zero_YYYYMMDD_def has_valid_mmssff_def hms_usecs_def)
  have mixed: "valid_time (z\<lparr>hour := hour t + day t * 24\<rparr>)"
    "hms_usecs (z\<lparr>hour := hour t + day t * 24\<rparr>) = unat (day t) * 86400000000 + hms_usecs t"
    using z(1) h(1,2) by (simp_all add: z_def valid_time_def has_zero_YYYYMMDD_def has_valid_mmssff_def hms_usecs_def algebra_simps)
  have zz: "z\<lparr>hour := hour t + day t * 24\<rparr> = t\<lparr>hour := hour t + day t * 24, year := 0, month := 0, day := 0, time_type := MYSQL_TIMESTAMP_TIME\<rparr>"
    by (simp add: z_def)
  have m: "valid_time (datetime_to_time_minus_current_date L diff current_date t)"
    using checked_range_valid [OF assms(1,2), of "diff t current_date 1" 0] assms(3-5)
    by (simp add: datetime_to_time_minus_current_date_def diff_ok_def time_limits split_beta)
  show ?thesis
  proof (cases "datetime_to_time_mode opt")
    case DATETIME_TO_TIME_YYYYMMDD_000000DD_MIX_TO_HOURS
    then show ?thesis using ty(1) z mixed unfolding zz
      by (auto simp: r_def valid_MYSQL_TIME_to_valid_value_def valid_datetime_to_valid_time_def z_def
          datetime_to_time_YYYYMMDD_000000DD_mix_to_hours_def)
  qed (use ty(1) z m in \<open>auto simp: r_def valid_MYSQL_TIME_to_valid_value_def valid_datetime_to_valid_time_def
      make_from_out_of_range_def has_zero_YYYYMMDD_def z_def\<close>)
qed

section \<open>Order of timestamps\<close>

definition timestamp_key :: "timeval \<Rightarrow> int" where
  "timestamp_key tv = sint (tv_sec tv) * 1000000 + int (unat (tv_usec tv))"

text \<open>Timestamps whose microseconds are below a million compare like their distance to the epoch, and the zero datetime
  is before all of them.\<close>

theorem timestamp_order:
  assumes "tv_usec a < 1000000" "tv_usec b < 1000000"
  shows "zero_datetime_cmp a b =
    (if m_is_zero_datetime a \<or> m_is_zero_datetime b then cmp3 (m_is_zero_datetime b) (m_is_zero_datetime a)
     else cmp3 (timestamp_key (timeval.truncate a)) (timestamp_key (timeval.truncate b)))"
proof -
  have u: "unat (tv_usec a) < 1000000" "unat (tv_usec b) < 1000000" using assms by (simp_all add: word_less_nat_alt)
  then have s: "sint (tv_usec a) = int (unat (tv_usec a))" "sint (tv_usec b) = int (unat (tv_usec b))"
    by (simp_all add: sint_small_32 del: of_nat_unat)
  have key: "timestamp_key (timeval.truncate a) = sint (tv_sec a) * 1000000 + sint (tv_usec a)"
    "timestamp_key (timeval.truncate b) = sint (tv_sec b) * 1000000 + sint (tv_usec b)"
    "0 \<le> sint (tv_usec a)" "sint (tv_usec a) < 1000000" "0 \<le> sint (tv_usec b)" "sint (tv_usec b) < 1000000"
    using u by (simp_all only: timestamp_key_def s) (simp_all add: timeval.truncate_def)
  have "timestamp_cmp (timeval.truncate a) (timeval.truncate b)
      = cmp3 (timestamp_key (timeval.truncate a)) (timestamp_key (timeval.truncate b))"
    using key(3-6) unfolding key(1,2) cmp3_def timestamp_cmp_def by (auto simp: timeval.truncate_def)
  then show ?thesis by (simp add: zero_datetime_cmp_def cmp3_def)
qed

section \<open>Fields of an extract source\<close>

lemma with_sign_step: "with_sign n x * int k + with_sign n y = with_sign n (x * k + y)"
  by (simp add: with_sign_def)

lemma with_sign_bounds: "int x < b \<Longrightarrow> - b \<le> with_sign n x" "int x < b \<Longrightarrow> with_sign n x < b"
  by (auto simp: with_sign_def)

lemma sint_of_int_range:
  "- (2 ^ (LENGTH('a) - 1)) \<le> v \<Longrightarrow> v < 2 ^ (LENGTH('a) - 1) \<Longrightarrow> sint (of_int v :: 'a::len word) = v"
  by (simp add: sint_sbintrunc' signed_take_bit_int_eq_self)

lemma sint_digits:
  fixes a b :: "'a::len word"
  assumes "sint a = with_sign n x" "sint b = with_sign n y" "x * k + y < 2 ^ (LENGTH('a) - 1)"
  shows "sint (a * of_nat k + b) = with_sign n (x * k + y)"
proof -
  let ?v = "with_sign n (x * k + y)"
  have "a * of_nat k + b = of_int (sint a * int k + sint b)" by simp
  then have "a * of_nat k + b = of_int ?v" unfolding assms(1,2) with_sign_step .
  moreover have "int (x * k + y) < 2 ^ (LENGTH('a) - 1)" using assms(3) by (metis of_nat_less_iff of_nat_numeral of_nat_power)
  then have "- (2 ^ (LENGTH('a) - 1)) \<le> ?v" "?v < 2 ^ (LENGTH('a) - 1)" by (rule with_sign_bounds)+
  ultimately show ?thesis by (simp add: sint_of_int_range)
qed

lemma sint_ex_field:
  assumes "unat (w :: uint32) < 2 ^ 31"
  shows "sint (w * ex_sign t) = with_sign (neg t) (unat w)"
proof -
  have "w * ex_sign t = of_int (with_sign (neg t) (unat w))" by (simp add: ex_sign_def with_sign_def)
  moreover have "int (unat w) < 2 ^ 31" using assms by (metis of_nat_less_iff of_nat_numeral of_nat_power)
  then have "- (2 ^ 31) \<le> with_sign (neg t) (unat w)" "with_sign (neg t) (unat w) < 2 ^ 31" by (rule with_sign_bounds)+
  ultimately show ?thesis by (simp add: sint_of_int_range)
qed

lemmas digits_64 = sint_digits [where 'a = 64, simplified]
lemmas digits_32 = sint_digits [where 'a = 32, simplified]

definition extractable :: "MYSQL_TIME \<Rightarrow> bool" where
  "extractable t \<longleftrightarrow> has_valid_mmssff t
     \<and> (if time_type t = MYSQL_TIMESTAMP_TIME then has_zero_YYYYMM t \<and> hour t \<le> TIME_MAX_INTERVAL_HOUR
        else time_type t \<noteq> MYSQL_TIMESTAMP_NONE \<and> hour t < 24 \<and> day t < 32)"

lemma extract_bounds:
  assumes "extractable t"
  defines "e \<equiv> mk_Extract_source t"
  shows "unat (day e) \<le> 3652058" "unat (hour e) \<le> 23" "unat (minute e) \<le> 59" "unat (second e) \<le> 59" "unat (second_part e) \<le> 999999"
    "is_valid_extract_source_slow e" "neg e = neg t"
    "time_type t = MYSQL_TIMESTAMP_TIME \<Longrightarrow> unat (day e) * 24 + unat (hour e) = unat (hour t)"
proof -
  have "unat (hour t) div 24 \<le> 3652058" if "hour t \<le> TIME_MAX_INTERVAL_HOUR"
    using div_le_mono [of "unat (hour t)" 87649415 24] that by (simp add: time_limits word_le_nat_alt)
  moreover have "unat (hour t) mod 24 < 24" by simp
  then have "unat (hour t) mod 24 \<le> 23" by linarith
  ultimately show "unat (day e) \<le> 3652058" "unat (hour e) \<le> 23" "unat (minute e) \<le> 59" "unat (second e) \<le> 59"
    "unat (second_part e) \<le> 999999" "is_valid_extract_source_slow e" "neg e = neg t"
    "time_type t = MYSQL_TIMESTAMP_TIME \<Longrightarrow> unat (day e) * 24 + unat (hour e) = unat (hour t)"
    using assms(1)
    by (auto simp: e_def extractable_def mk_Extract_source_def time_to_daytime_interval_def Let_def has_valid_mmssff_def
        time_limits word_le_nat_alt word_less_nat_alt unat_div_distrib unat_mod_distrib is_valid_extract_source_slow_def
        is_valid_temporal_def has_zero_YYYYMM_def split: if_splits)
qed

text \<open>The parts of a time or of a date that are extracted together are decimal numbers with two digits for hours,
  minutes and seconds and six for microseconds, with the sign of the time; a time has become days and hours.\<close>

theorem extract_fields:
  assumes "extractable t"
  defines "e \<equiv> mk_Extract_source t"
    and "d \<equiv> unat (day (mk_Extract_source t))" and "h \<equiv> unat (hour (mk_Extract_source t))" and "m \<equiv> unat (minute t)"
    and "s \<equiv> unat (second t)" and "u \<equiv> unat (second_part t)"
  shows "is_valid_extract_source_slow e \<and> (time_type t = MYSQL_TIMESTAMP_TIME \<longrightarrow> d * 24 + h = unat (hour t))
    \<and> sint (day_microsecond e) = with_sign (neg t) ((((d * 100 + h) * 100 + m) * 100 + s) * 1000000 + u)
    \<and> sint (day_second e) = with_sign (neg t) (((d * 100 + h) * 100 + m) * 100 + s)
    \<and> sint (hour_microsecond e) = with_sign (neg t) (((h * 100 + m) * 100 + s) * 1000000 + u)
    \<and> sint (hour_second e) = with_sign (neg t) ((h * 100 + m) * 100 + s)
    \<and> sint (minute_microsecond e) = with_sign (neg t) ((m * 100 + s) * 1000000 + u)
    \<and> sint (second_microsecond e) = with_sign (neg t) (s * 1000000 + u)"
proof -
  note b = extract_bounds [OF assms(1), folded e_def d_def h_def]
  have eq: "d = unat (day e)" "h = unat (hour e)" "m = unat (minute e)" "s = unat (second e)" "u = unat (second_part e)"
    by (simp_all add: d_def h_def m_def s_def u_def e_def mk_Extract_source_def time_to_daytime_interval_def Let_def)
  note bounds = b(1-5) [folded eq]
  have f: "sint (ex_day e) = with_sign (neg t) d" "sint (ex_hour e) = with_sign (neg t) h"
    "sint (ex_minute e) = with_sign (neg t) m" "sint (ex_second e) = with_sign (neg t) s"
    "sint (ex_microsecond e) = with_sign (neg t) u"
    using sint_ex_field [of _ e] bounds unfolding eq ex_day_def ex_hour_def ex_minute_def ex_second_def ex_microsecond_def b(7) by simp_all
  note w = f [folded sint_scast_32]
  have dh: "sint (day_hour e) = with_sign (neg t) (d * 100 + h)"
    using digits_64 [OF w(1,2), of 100] bounds by (simp add: day_hour_def)
  have dm: "sint (day_minute e) = with_sign (neg t) ((d * 100 + h) * 100 + m)"
    using digits_64 [OF dh w(3), of 100] bounds by (simp add: day_minute_def)
  have ds: "sint (day_second e) = with_sign (neg t) (((d * 100 + h) * 100 + m) * 100 + s)"
    using digits_64 [OF dm w(4), of 100] bounds by (simp add: day_second_def)
  have du: "sint (day_microsecond e) = with_sign (neg t) ((((d * 100 + h) * 100 + m) * 100 + s) * 1000000 + u)"
    using digits_64 [OF ds w(5), of 1000000] bounds by (simp add: day_microsecond_def)
  have hm: "sint (hour_minute e) = with_sign (neg t) (h * 100 + m)"
    using digits_32 [OF f(2,3), of 100] bounds by (simp add: hour_minute_def)
  have hs: "sint (hour_second e) = with_sign (neg t) ((h * 100 + m) * 100 + s)"
    using digits_32 [OF hm f(4), of 100] bounds by (simp add: hour_second_def)
  have hu: "sint (hour_microsecond e) = with_sign (neg t) (((h * 100 + m) * 100 + s) * 1000000 + u)"
    using digits_64 [OF hs [folded sint_scast_32] w(5), of 1000000] bounds by (simp add: hour_microsecond_def)
  have ms: "sint (minute_second e) = with_sign (neg t) (m * 100 + s)"
    using digits_32 [OF f(3,4), of 100] bounds by (simp add: minute_second_def)
  have mu: "sint (minute_microsecond e) = with_sign (neg t) ((m * 100 + s) * 1000000 + u)"
    using digits_64 [OF ms [folded sint_scast_32] w(5), of 1000000] bounds by (simp add: minute_microsecond_def)
  have su: "sint (second_microsecond e) = with_sign (neg t) (s * 1000000 + u)"
    using digits_64 [OF w(4,5), of 1000000] bounds by (simp add: second_microsecond_def)
  show ?thesis using b(6,8) du ds hu hs mu su by blast
qed

section \<open>The range of timestamps\<close>

fun not_after :: "nat \<times> nat \<times> nat \<Rightarrow> nat \<times> nat \<times> nat \<Rightarrow> bool" where
  "not_after (y, m, d) (y', m', d') \<longleftrightarrow> y < y' \<or> y = y' \<and> (m < m' \<or> m = m' \<and> d \<le> d')"

text \<open>The rough test for the range of \<^verbatim>\<open>TIMESTAMP\<close> accepts exactly the days from 1969-12-31 to 2038-01-19.\<close>

theorem timestamp_range_exact:
  assumes "1 \<le> unat (month t)" "unat (month t) \<le> 12" "unat (day t) \<le> 31"
  shows "validate_timestamp_range t \<longleftrightarrow>
    not_after (1969, 12, 31) (unat (year t), unat (month t), unat (day t))
    \<and> not_after (unat (year t), unat (month t), unat (day t)) (2038, 1, 19)"
proof -
  have y: "year t = 2038 \<longleftrightarrow> unat (year t) = 2038" "year t = 1969 \<longleftrightarrow> unat (year t) = 1969" by (simp_all add: word_unat_eq_iff)
  have "validate_timestamp_range t \<longleftrightarrow> \<not> ((2038 < unat (year t) \<or> unat (year t) < 1969)
      \<or> (unat (year t) = 2038 \<and> (1 < unat (month t) \<or> 19 < unat (day t)))
      \<or> (unat (year t) = 1969 \<and> (unat (month t) < 12 \<or> unat (day t) < 31)))"
    by (simp add: validate_timestamp_range_def time_limits y word_less_nat_alt)
  then show ?thesis using assms by auto
qed

section \<open>Examples\<close>

lemma model_range_kept: "time_range_kept model_lib"
  by (auto simp: time_range_kept_def model_lib_def base_lib_def model_check_time_range_def valid_time_def)

theorem nanoseconds_carry_witness:
  "fst (add_nanoseconds_mmssff 500 ((hm_time False 3 59)\<lparr>second := 59, second_part := 999999\<rparr>))"
  using nanoseconds_carry [of 500 "\<lparr>m_sec = 0, m_usec = 0, m_neg = False, m_truncated = False\<rparr>" "\<lparr>tv_sec = 0, tv_usec = 0\<rparr>"
      "(hm_time False 3 59)\<lparr>second := 59, second_part := 999999\<rparr>"]
  by (simp add: hm_simps mmssff_total_def)

theorem time_truncated_witness:
  "\<not> neg (time_trunc model_lib 3 ((hm_time True 0 0)\<lparr>second_part := 999\<rparr>))"
  using time_truncated [OF model_lib_ok(1), of 3 "(hm_time True 0 0)\<lparr>second_part := 999\<rparr>"]
  by (simp add: hm_simps is_valid_time_slow_def unit_of_def)

theorem seconds_round_trip_witness:
  "sint (to_seconds (snd (sec_to_time model_lib \<lparr>m_sec = 4000, m_usec = 5, m_neg = True, m_truncated = False\<rparr>
     (zero_time MYSQL_TIMESTAMP_DATE) 6 0))) = - 4000"
  using seconds_round_trip [OF model_lib_ok(2,3), of 6 "\<lparr>m_sec = 4000, m_usec = 5, m_neg = True, m_truncated = False\<rparr>"
      "zero_time MYSQL_TIMESTAMP_DATE" 0]
  by (simp add: time_limits with_sign_def)

theorem datetime_to_time_witness:
  "hms_usecs (fst (valid_MYSQL_TIME_to_valid_value model_lib (\<lambda>_ _ _. hm_time False 0 0) (zero_time MYSQL_TIMESTAMP_DATE)
     (Time_Options_thd TIME_FRAC_NONE) ((zero_time MYSQL_TIMESTAMP_DATETIME)\<lparr>day := 31, hour := 23\<rparr>) 0)) = 767 * 3600000000"
  using datetime_to_time [OF model_lib_ok(3) model_range_kept, of "\<lambda>_ _ _. hm_time False 0 0" "zero_time MYSQL_TIMESTAMP_DATE"
      "(zero_time MYSQL_TIMESTAMP_DATETIME)\<lparr>day := 31, hour := 23\<rparr>" "Time_Options_thd TIME_FRAC_NONE" 0]
  by (simp add: diff_ok_def datetime_like_def is_valid_time_slow_def hm_simps Time_Options_thd_def mk_Time_Options_def
      default_datetime_to_time_mode_def)

theorem timestamp_order_witness:
  "zero_datetime_cmp mk_zero_datetime \<lparr>tv_sec = - 1, tv_usec = 5, m_is_zero_datetime = False\<rparr> = - 1"
  using timestamp_order [of mk_zero_datetime "\<lparr>tv_sec = - 1, tv_usec = 5, m_is_zero_datetime = False\<rparr>"]
  by (simp add: mk_zero_datetime_def cmp3_def)

theorem extract_fields_witness:
  "sint (day_second (mk_Extract_source (hm_time True 27 5))) = - 1030500"
  using extract_fields [of "hm_time True 27 5"]
  by (simp add: extractable_def has_zero_YYYYMM_def hm_simps mk_Extract_source_def time_to_daytime_interval_def)

theorem timestamp_range_exact_witness:
  "validate_timestamp_range \<lparr>year = 2038, month = 1, day = 19, hour = 3, minute = 14, second = 7, second_part = 0, neg = False,
     time_type = MYSQL_TIMESTAMP_DATETIME\<rparr>"
  using timestamp_range_exact [of "\<lparr>year = 2038, month = 1, day = 19, hour = 3, minute = 14, second = 7, second_part = 0,
      neg = False, time_type = MYSQL_TIMESTAMP_DATETIME\<rparr>"]
  by simp

end
