(* ===== verification/Fixed_Bin.thy ===== *)
theory Fixed_Bin
  imports Prelude
begin

text \<open>
  The common code for data types with a binary representation of fixed size, such as UUID and INET6:
  \<^verbatim>\<open>sql_type_fixedbin_storage.h\<close> with the default storage, and \<^verbatim>\<open>sql_type_fixedbin.h\<close> with the bundle of classes that is
  built over an implementation of a type. The implementation is a template parameter; here it is a record of its
  functions, and a locale states the laws that the comments on the storage promise. Items are described by what the code
  asks of them: whether they have the type, their binary value, their value as a string, and their flags. An allocation
  that fails is an argument \<open>oom\<close> of the functions that allocate, and a list collects the warnings of the session; appending to
  a string that already exists succeeds.
\<close>

type_synonym bytes = "uchar list"

section \<open>The default storage\<close>

definition set_zero :: "nat \<Rightarrow> bytes" where
  "set_zero native_len = replicate native_len 0"

definition mk_FixedBinTypeStorage :: "nat \<Rightarrow> bytes \<Rightarrow> bytes" where
  "mk_FixedBinTypeStorage native_len str = (if length str \<noteq> native_len then set_zero native_len else str)"

definition storage_cmp :: "bytes \<Rightarrow> bytes \<Rightarrow> int" where
  "storage_cmp a b = memcmp_list a b"

definition storage_memory_to_record :: "nat \<Rightarrow> bytes \<Rightarrow> bytes" where
  "storage_memory_to_record native_len src = take native_len src"

definition storage_record_to_memory :: "nat \<Rightarrow> bytes \<Rightarrow> bytes" where
  "storage_record_to_memory native_len src = take native_len src"

fun only_zero_bytes :: "bytes \<Rightarrow> bool" where
  "only_zero_bytes [] \<longleftrightarrow> True"
| "only_zero_bytes (b # bs) \<longleftrightarrow> (if b \<noteq> 0 then False else only_zero_bytes bs)"

definition KEY_pack_flags :: "nat \<Rightarrow> uint32" where
  "KEY_pack_flags column_nr = 0"

section \<open>Implementations, strings and items\<close>

datatype charset = Charset_bin | Charset_ascii | Charset_nonascii

record fbt_string =
  str_ptr :: bytes
  str_charset :: charset

text \<open>\<open>ascii_to_fbt\<close> gets the text and the buffer, and returns whether it failed and the new buffer.\<close>

record fbt_impl =
  binary_length :: nat
  max_char_length :: nat
  memory_to_record :: "bytes \<Rightarrow> bytes"
  record_to_memory :: "bytes \<Rightarrow> bytes"
  impl_cmp :: "bytes \<Rightarrow> bytes \<Rightarrow> int"
  ascii_to_fbt :: "bytes \<Rightarrow> bytes \<Rightarrow> bool \<times> bytes"
  impl_to_string :: "bytes \<Rightarrow> bytes"
  type_name :: bytes

text \<open>An implementation over the default storage, which adds the textual form.\<close>

definition storage_impl :: "nat \<Rightarrow> nat \<Rightarrow> (bytes \<Rightarrow> bytes \<Rightarrow> bool \<times> bytes) \<Rightarrow> (bytes \<Rightarrow> bytes) \<Rightarrow> bytes \<Rightarrow> fbt_impl" where
  "storage_impl native_len max_len asc str nm =
     \<lparr>binary_length = native_len, max_char_length = max_len, memory_to_record = storage_memory_to_record native_len,
      record_to_memory = storage_record_to_memory native_len, impl_cmp = storage_cmp, ascii_to_fbt = asc, impl_to_string = str,
      type_name = nm\<rparr>"

record item_src =
  is_fbt :: bool
  native_value :: "bytes option"
  str_value :: "fbt_string option"
  maybe_null :: bool
  const_item :: bool
  is_expensive :: bool

type_synonym copier = "nat \<Rightarrow> bytes \<Rightarrow> bytes"

section \<open>Fbt\<close>

definition character_string_to_fbt :: "fbt_impl \<Rightarrow> copier \<Rightarrow> fbt_string \<Rightarrow> bytes \<Rightarrow> bool \<times> bytes" where
  "character_string_to_fbt I well_formed_copy str buf =
     (if str_charset str = Charset_nonascii
      then ascii_to_fbt I (well_formed_copy (max_char_length I + 1) (str_ptr str)) buf
      else ascii_to_fbt I (str_ptr str) buf)"

definition make_from_character_or_binary_string ::
    "fbt_impl \<Rightarrow> copier \<Rightarrow> fbt_string \<Rightarrow> bool \<Rightarrow> bytes \<Rightarrow> fbt_string list \<Rightarrow> bool \<times> bytes \<times> fbt_string list" where
  "make_from_character_or_binary_string I well_formed_copy str warn buf ws =
     (if str_charset str \<noteq> Charset_bin
      then let (rc, buf) = character_string_to_fbt I well_formed_copy str buf
           in (rc, buf, if rc \<and> warn then ws @ [str] else ws)
      else if length (str_ptr str) \<noteq> binary_length I then (True, buf, if warn then ws @ [str] else ws)
      else (False, str_ptr str, ws))"

definition make_from_item ::
    "fbt_impl \<Rightarrow> copier \<Rightarrow> item_src \<Rightarrow> bool \<Rightarrow> bytes \<Rightarrow> fbt_string list \<Rightarrow> bool \<times> bytes \<times> fbt_string list" where
  "make_from_item I well_formed_copy item warn buf ws =
     (if is_fbt item
      then case native_value item of None \<Rightarrow> (True, buf, ws) | Some tmp \<Rightarrow> (False, take (binary_length I) tmp, ws)
      else case str_value item of None \<Rightarrow> (True, buf, ws)
           | Some str \<Rightarrow> make_from_character_or_binary_string I well_formed_copy str warn buf ws)"

definition binary_to_fbt :: "fbt_impl \<Rightarrow> bytes \<Rightarrow> bytes \<Rightarrow> bool \<times> bytes" where
  "binary_to_fbt I str buf = (if length str \<noteq> binary_length I then (True, buf) else (False, str))"

definition fbt_zero :: "fbt_impl \<Rightarrow> bytes" where
  "fbt_zero I = set_zero (binary_length I)"

definition fbt_record_to_memory :: "fbt_impl \<Rightarrow> bytes \<Rightarrow> bytes" where
  "fbt_record_to_memory I p = record_to_memory I p"

definition to_record :: "fbt_impl \<Rightarrow> bytes \<Rightarrow> bytes" where
  "to_record I m = memory_to_record I m"

definition to_binary :: "bool \<Rightarrow> bytes \<Rightarrow> fbt_string option" where
  "to_binary oom m = (if oom then None else Some \<lparr>str_ptr = m, str_charset = Charset_bin\<rparr>)"

definition to_native :: "bool \<Rightarrow> bytes \<Rightarrow> bytes option" where
  "to_native oom m = (if oom then None else Some m)"

definition fbt_to_string :: "fbt_impl \<Rightarrow> bool \<Rightarrow> bytes \<Rightarrow> fbt_string option" where
  "fbt_to_string I oom m = (if oom then None else Some \<lparr>str_ptr = impl_to_string I m, str_charset = Charset_ascii\<rparr>)"

definition fbt_cmp :: "fbt_impl \<Rightarrow> bytes \<Rightarrow> bytes \<Rightarrow> int" where
  "fbt_cmp I m other = impl_cmp I m other"

section \<open>Fbt\_null\<close>

record Fbt_null =
  fn_value :: bytes
  fn_null :: bool

definition Fbt_null_text :: "fbt_impl \<Rightarrow> copier \<Rightarrow> bytes \<Rightarrow> fbt_string \<Rightarrow> Fbt_null" where
  "Fbt_null_text I well_formed_copy garbage str =
     (let (rc, buf) = character_string_to_fbt I well_formed_copy str garbage in \<lparr>fn_value = buf, fn_null = rc\<rparr>)"

definition Fbt_null_binary :: "fbt_impl \<Rightarrow> bytes \<Rightarrow> bytes \<Rightarrow> Fbt_null" where
  "Fbt_null_binary I garbage str = (let (rc, buf) = binary_to_fbt I str garbage in \<lparr>fn_value = buf, fn_null = rc\<rparr>)"

definition Fbt_null_item :: "fbt_impl \<Rightarrow> copier \<Rightarrow> bytes \<Rightarrow> item_src \<Rightarrow> bool \<Rightarrow> fbt_string list \<Rightarrow> Fbt_null \<times> fbt_string list" where
  "Fbt_null_item I well_formed_copy garbage item warn ws =
     (let (rc, buf, ws) = make_from_item I well_formed_copy item warn garbage ws in (\<lparr>fn_value = buf, fn_null = rc\<rparr>, ws))"

definition fix_fields_maybe_null_on_conversion_to_fbt :: "fbt_impl \<Rightarrow> copier \<Rightarrow> bytes \<Rightarrow> item_src \<Rightarrow> bool" where
  "fix_fields_maybe_null_on_conversion_to_fbt I well_formed_copy garbage item =
     (if maybe_null item then True
      else if is_fbt item then False
      else if \<not> const_item item \<or> is_expensive item then True
      else fn_null (fst (Fbt_null_item I well_formed_copy garbage item False [])))"

section \<open>Type\_handler\_fbt\<close>

definition character_or_binary_string_to_native ::
    "fbt_impl \<Rightarrow> copier \<Rightarrow> bytes \<Rightarrow> bool \<Rightarrow> fbt_string \<Rightarrow> fbt_string list \<Rightarrow> bytes option \<times> fbt_string list" where
  "character_or_binary_string_to_native I well_formed_copy garbage oom str ws =
     (if str_charset str = Charset_bin
      then if length (str_ptr str) \<noteq> binary_length I \<or> oom then (None, ws @ [str]) else (Some (str_ptr str), ws)
      else let tmp = Fbt_null_text I well_formed_copy garbage str;
               ws = (if fn_null tmp then ws @ [str] else ws)
           in (if fn_null tmp then None else to_native oom (fn_value tmp), ws))"

text \<open>The comparison of a stored field with an item; \<open>field_native\<close> is the value of the field.\<close>

definition stored_field_cmp_to_item ::
    "fbt_impl \<Rightarrow> copier \<Rightarrow> bytes \<Rightarrow> bytes option \<Rightarrow> item_src \<Rightarrow> fbt_string list \<Rightarrow> int \<times> fbt_string list" where
  "stored_field_cmp_to_item I well_formed_copy garbage field_native item ws =
     (let (ni, ws) = Fbt_null_item I well_formed_copy garbage item True ws
      in if fn_null ni then (0, ws)
         else case field_native of None \<Rightarrow> (0, ws) | Some tmp \<Rightarrow> (- fbt_cmp I (fn_value ni) tmp, ws))"

definition Item_decimal_precision :: "fbt_impl \<Rightarrow> nat" where
  "Item_decimal_precision I = (binary_length I * 8 + 7) div 10 * 3"

definition partition_field_append_value ::
    "fbt_impl \<Rightarrow> copier \<Rightarrow> bytes \<Rightarrow> bool \<Rightarrow> bytes \<Rightarrow> item_src \<Rightarrow> fbt_string list \<Rightarrow> (bool \<times> bytes) \<times> fbt_string list" where
  "partition_field_append_value I well_formed_copy garbage oom dest item ws =
     (let (fbt, ws) = Fbt_null_item I well_formed_copy garbage item True ws
      in if fn_null fbt then ((True, dest), ws)
         else case fbt_to_string I oom (fn_value fbt) of None \<Rightarrow> ((True, dest), ws)
              | Some s \<Rightarrow> ((False, dest @ [39] @ str_ptr s @ [39]), ws))"

definition make_sort_key_part :: "fbt_impl \<Rightarrow> bool \<Rightarrow> bool \<Rightarrow> bytes \<Rightarrow> bytes" where
  "make_sort_key_part I item_maybe_null null_value native =
     (if item_maybe_null
      then if null_value then replicate (binary_length I + 1) 0 else 1 # memory_to_record I native
      else memory_to_record I native)"

definition make_packed_sort_key_part :: "fbt_impl \<Rightarrow> bool \<Rightarrow> bool \<Rightarrow> bytes \<Rightarrow> bytes \<times> nat" where
  "make_packed_sort_key_part I item_maybe_null null_value native =
     (if item_maybe_null
      then if null_value then ([0], 0) else (1 # memory_to_record I native, length native)
      else (memory_to_record I native, length native))"

definition calc_pack_length :: "fbt_impl \<Rightarrow> nat" where
  "calc_pack_length I = binary_length I"

definition Item_param_val_native ::
    "fbt_impl \<Rightarrow> copier \<Rightarrow> bytes \<Rightarrow> bool \<Rightarrow> fbt_string option \<Rightarrow> bytes option" where
  "Item_param_val_native I well_formed_copy garbage oom str =
     (case str of None \<Rightarrow> None
      | Some s \<Rightarrow> let tmp = Fbt_null_text I well_formed_copy garbage s
                  in if fn_null tmp then None else to_native oom (fn_value tmp))"

datatype const_item_result = Item_null | Item_literal_fbt bytes

definition make_const_item_for_comparison ::
    "fbt_impl \<Rightarrow> copier \<Rightarrow> bytes \<Rightarrow> item_src \<Rightarrow> fbt_string list \<Rightarrow> const_item_result \<times> fbt_string list" where
  "make_const_item_for_comparison I well_formed_copy garbage src ws =
     (let (tmp, ws) = Fbt_null_item I well_formed_copy garbage src True ws
      in (if fn_null tmp then Item_null else Item_literal_fbt (fn_value tmp), ws))"

definition cmp_native :: "fbt_impl \<Rightarrow> bytes \<Rightarrow> bytes \<Rightarrow> int" where
  "cmp_native I a b = impl_cmp I a b"

definition Item_eq_value ::
    "fbt_impl \<Rightarrow> copier \<Rightarrow> bytes \<Rightarrow> item_src \<Rightarrow> item_src \<Rightarrow> fbt_string list \<Rightarrow> bool \<times> fbt_string list" where
  "Item_eq_value I well_formed_copy garbage a b ws =
     (let (na, ws) = Fbt_null_item I well_formed_copy garbage a True ws;
          (nb, ws) = Fbt_null_item I well_formed_copy garbage b True ws
      in (\<not> fn_null na \<and> \<not> fn_null nb \<and> fbt_cmp I (fn_value na) (fn_value nb) = 0, ws))"

text \<open>Whether a hybrid function can be null on account of its arguments; \<^verbatim>\<open>IFNULL\<close> does not test the first.\<close>

fun any_maybe_null :: "fbt_impl \<Rightarrow> copier \<Rightarrow> bytes \<Rightarrow> item_src list \<Rightarrow> bool \<Rightarrow> bool" where
  "any_maybe_null I c garbage [] attr = attr"
| "any_maybe_null I c garbage (item # items) attr =
     (if fix_fields_maybe_null_on_conversion_to_fbt I c garbage item then True else any_maybe_null I c garbage items attr)"

definition Item_hybrid_func_fix_attributes :: "fbt_impl \<Rightarrow> copier \<Rightarrow> bytes \<Rightarrow> bool \<Rightarrow> item_src list \<Rightarrow> bool \<Rightarrow> bool" where
  "Item_hybrid_func_fix_attributes I c garbage is_ifnull items type_maybe_null =
     any_maybe_null I c garbage (drop (if is_ifnull then 1 else 0) items) type_maybe_null"

definition Item_val_native_with_conversion ::
    "fbt_impl \<Rightarrow> copier \<Rightarrow> bytes \<Rightarrow> bool \<Rightarrow> item_src \<Rightarrow> fbt_string list \<Rightarrow> bytes option \<times> fbt_string list" where
  "Item_val_native_with_conversion I well_formed_copy garbage oom item ws =
     (if is_fbt item then (native_value item, ws)
      else case str_value item of None \<Rightarrow> (None, ws)
           | Some str \<Rightarrow> character_or_binary_string_to_native I well_formed_copy garbage oom str ws)"

definition Item_val_bool :: "item_src \<Rightarrow> bool" where
  "Item_val_bool item = (case native_value item of None \<Rightarrow> False | Some tmp \<Rightarrow> \<not> only_zero_bytes tmp)"

definition Item_func_hybrid_field_type_val_str :: "fbt_impl \<Rightarrow> bytes \<Rightarrow> bool \<Rightarrow> item_src \<Rightarrow> fbt_string option" where
  "Item_func_hybrid_field_type_val_str I garbage oom item =
     (case native_value item of None \<Rightarrow> None
      | Some native \<Rightarrow> let tmp = Fbt_null_binary I garbage native
                       in if fn_null tmp then None else fbt_to_string I oom (fn_value tmp))"

section \<open>cmp\_item\_fbt\<close>

definition UNKNOWN :: int where "UNKNOWN = - 1"

record cmp_item_fbt =
  ci_native :: bytes
  ci_null_value :: bool

definition mk_cmp_item_fbt :: "fbt_impl \<Rightarrow> bool \<Rightarrow> cmp_item_fbt" where
  "mk_cmp_item_fbt I garbage = \<lparr>ci_native = fbt_zero I, ci_null_value = garbage\<rparr>"

definition store_value :: "fbt_impl \<Rightarrow> copier \<Rightarrow> bytes \<Rightarrow> item_src \<Rightarrow> cmp_item_fbt \<Rightarrow> fbt_string list \<Rightarrow> cmp_item_fbt \<times> fbt_string list" where
  "store_value I well_formed_copy garbage item ci ws =
     (let (rc, buf, ws) = make_from_item I well_formed_copy item True garbage ws
      in (ci\<lparr>ci_null_value := rc, ci_native := buf\<rparr>, ws))"

definition cmp_item_cmp :: "fbt_impl \<Rightarrow> copier \<Rightarrow> bytes \<Rightarrow> item_src \<Rightarrow> cmp_item_fbt \<Rightarrow> fbt_string list \<Rightarrow> int \<times> fbt_string list" where
  "cmp_item_cmp I well_formed_copy garbage arg ci ws =
     (let (tmp, ws) = Fbt_null_item I well_formed_copy garbage arg True ws
      in (if ci_null_value ci \<or> fn_null tmp then UNKNOWN
          else if fbt_cmp I (ci_native ci) (fn_value tmp) \<noteq> 0 then 1 else 0, ws))"

definition cmp_item_compare :: "fbt_impl \<Rightarrow> cmp_item_fbt \<Rightarrow> cmp_item_fbt \<Rightarrow> int" where
  "cmp_item_compare I ci other = fbt_cmp I (ci_native ci) (ci_native other)"

section \<open>Field\_fbt\<close>

text \<open>A field: the bytes of its record, whether it has a null bit and the bit, whether the table makes it nullable and whether
  the row is a complemented one, whether the session counts cut fields, and the warnings.\<close>

record Field_fbt =
  fld_ptr :: bytes
  fld_has_null_ptr :: bool
  fld_null_bit :: bool
  fld_table_maybe_null :: bool
  fld_null_row :: bool
  fld_count_cuted :: bool
  fld_warnings :: "fbt_string list"

definition field_set_null :: "Field_fbt \<Rightarrow> Field_fbt" where
  "field_set_null f = (if fld_has_null_ptr f then f\<lparr>fld_null_bit := True\<rparr> else f)"

definition field_set_notnull :: "Field_fbt \<Rightarrow> Field_fbt" where
  "field_set_notnull f = (if fld_has_null_ptr f then f\<lparr>fld_null_bit := False\<rparr> else f)"

definition field_maybe_null :: "Field_fbt \<Rightarrow> bool" where
  "field_maybe_null f \<longleftrightarrow> fld_has_null_ptr f \<or> fld_table_maybe_null f"

definition field_is_null :: "Field_fbt \<Rightarrow> bool" where
  "field_is_null f \<longleftrightarrow> (if fld_has_null_ptr f then fld_null_bit f else fld_null_row f)"

definition field_is_real_null :: "Field_fbt \<Rightarrow> bool" where
  "field_is_real_null f \<longleftrightarrow> fld_has_null_ptr f \<and> fld_null_bit f"

definition set_min_value :: "fbt_impl \<Rightarrow> Field_fbt \<Rightarrow> Field_fbt" where
  "set_min_value I f = f\<lparr>fld_ptr := replicate (binary_length I) 0\<rparr>"

definition set_max_value :: "fbt_impl \<Rightarrow> Field_fbt \<Rightarrow> Field_fbt" where
  "set_max_value I f = f\<lparr>fld_ptr := replicate (binary_length I) 0xFF\<rparr>"

definition store_warning :: "fbt_string \<Rightarrow> Field_fbt \<Rightarrow> Field_fbt" where
  "store_warning str f = (if \<not> fld_count_cuted f then f else f\<lparr>fld_warnings := fld_warnings f @ [str]\<rparr>)"

definition set_null_with_warn :: "fbt_string \<Rightarrow> Field_fbt \<Rightarrow> int \<times> Field_fbt" where
  "set_null_with_warn str f = (1, field_set_null (store_warning str f))"

definition set_min_value_with_warn :: "fbt_impl \<Rightarrow> fbt_string \<Rightarrow> Field_fbt \<Rightarrow> int \<times> Field_fbt" where
  "set_min_value_with_warn I str f = (1, set_min_value I (store_warning str f))"

definition set_max_value_with_warn :: "fbt_impl \<Rightarrow> fbt_string \<Rightarrow> Field_fbt \<Rightarrow> int \<times> Field_fbt" where
  "set_max_value_with_warn I str f = (1, set_max_value I (store_warning str f))"

definition store_fbt_null_with_warn :: "fbt_impl \<Rightarrow> Fbt_null \<Rightarrow> fbt_string \<Rightarrow> Field_fbt \<Rightarrow> int \<times> Field_fbt" where
  "store_fbt_null_with_warn I fbt err f =
     (if fn_null fbt
      then if field_maybe_null f then set_null_with_warn err f else set_min_value_with_warn I err f
      else (0, f\<lparr>fld_ptr := to_record I (fn_value fbt)\<rparr>))"

definition field_cmp :: "bytes \<Rightarrow> bytes \<Rightarrow> int" where
  "field_cmp a b = memcmp_list a b"

definition sort_string :: "Field_fbt \<Rightarrow> bytes" where
  "sort_string f = fld_ptr f"

definition field_val_native :: "fbt_impl \<Rightarrow> bool \<Rightarrow> Field_fbt \<Rightarrow> bytes option" where
  "field_val_native I oom f = (if oom then None else Some (record_to_memory I (fld_ptr f)))"

definition field_to_fbt :: "fbt_impl \<Rightarrow> Field_fbt \<Rightarrow> bytes" where
  "field_to_fbt I f = fbt_record_to_memory I (fld_ptr f)"

definition field_val_str :: "fbt_impl \<Rightarrow> bool \<Rightarrow> Field_fbt \<Rightarrow> fbt_string option" where
  "field_val_str I oom f = fbt_to_string I oom (field_to_fbt I f)"

definition field_val_bool :: "Field_fbt \<Rightarrow> bool" where
  "field_val_bool f \<longleftrightarrow> \<not> only_zero_bytes (fld_ptr f)"

definition store_native :: "fbt_impl \<Rightarrow> bytes \<Rightarrow> Field_fbt \<Rightarrow> int \<times> Field_fbt" where
  "store_native I v f = (0, f\<lparr>fld_ptr := memory_to_record I v\<rparr>)"

definition store_text :: "fbt_impl \<Rightarrow> copier \<Rightarrow> bytes \<Rightarrow> fbt_string \<Rightarrow> Field_fbt \<Rightarrow> int \<times> Field_fbt" where
  "store_text I well_formed_copy garbage str f = store_fbt_null_with_warn I (Fbt_null_text I well_formed_copy garbage str) str f"

definition store_binary :: "fbt_impl \<Rightarrow> bytes \<Rightarrow> bytes \<Rightarrow> Field_fbt \<Rightarrow> int \<times> Field_fbt" where
  "store_binary I garbage str f =
     store_fbt_null_with_warn I (Fbt_null_binary I garbage str) \<lparr>str_ptr = str, str_charset = Charset_bin\<rparr> f"

definition field_store :: "fbt_impl \<Rightarrow> copier \<Rightarrow> bytes \<Rightarrow> fbt_string \<Rightarrow> Field_fbt \<Rightarrow> int \<times> Field_fbt" where
  "field_store I well_formed_copy garbage str f =
     (if str_charset str = Charset_bin then store_binary I garbage (str_ptr str) f
      else store_text I well_formed_copy garbage str f)"

definition store_hex_hybrid :: "fbt_impl \<Rightarrow> bytes \<Rightarrow> bytes \<Rightarrow> Field_fbt \<Rightarrow> int \<times> Field_fbt" where
  "store_hex_hybrid I garbage str f = store_binary I garbage str f"

text \<open>Numbers and times cannot be stored; \<open>err\<close> is their text for the warning.\<close>

definition store_decimal :: "fbt_impl \<Rightarrow> fbt_string \<Rightarrow> Field_fbt \<Rightarrow> int \<times> Field_fbt" where
  "store_decimal I err f = set_min_value_with_warn I err f"

definition store_longlong :: "fbt_impl \<Rightarrow> fbt_string \<Rightarrow> Field_fbt \<Rightarrow> int \<times> Field_fbt" where
  "store_longlong I err f = set_min_value_with_warn I err f"

definition store_double :: "fbt_impl \<Rightarrow> fbt_string \<Rightarrow> Field_fbt \<Rightarrow> int \<times> Field_fbt" where
  "store_double I err f = set_min_value_with_warn I err f"

definition store_time_dec :: "fbt_impl \<Rightarrow> fbt_string \<Rightarrow> Field_fbt \<Rightarrow> int \<times> Field_fbt" where
  "store_time_dec I err f = set_min_value_with_warn I err f"

text \<open>An item with the type of the field is stored through its binary value; \<open>save_str_in_field\<close> and
  \<open>set_field_to_null_with_conversions\<close> are code of other files.\<close>

definition Item_save_in_field ::
    "fbt_impl \<Rightarrow> (bool \<Rightarrow> Field_fbt \<Rightarrow> int \<times> Field_fbt) \<Rightarrow> (bool \<Rightarrow> Field_fbt \<Rightarrow> int \<times> Field_fbt) \<Rightarrow> bool \<Rightarrow> item_src \<Rightarrow> bool \<Rightarrow> Field_fbt
     \<Rightarrow> int \<times> Field_fbt" where
  "Item_save_in_field I set_field_to_null_with_conversions save_str_in_field same_type item no_conversions f =
     (if same_type
      then case native_value item of None \<Rightarrow> set_field_to_null_with_conversions no_conversions f
           | Some tmp \<Rightarrow> store_native I tmp (field_set_notnull f)
      else save_str_in_field no_conversions f)"

definition field_hash :: "(bytes \<Rightarrow> uint32 \<times> uint32 \<Rightarrow> uint32 \<times> uint32) \<Rightarrow> Field_fbt \<Rightarrow> uint32 \<times> uint32 \<Rightarrow> uint32 \<times> uint32" where
  "field_hash hash_record f = (\<lambda>(nr, nr2).
     if field_is_null f then (nr XOR (push_bit 1 nr OR 1), nr2) else hash_record (fld_ptr f) (nr, nr2))"

text \<open>What the range optimizer infers from a comparison of the field with a value that was stored in it.\<close>

datatype scalar_comparison_op = SCALAR_CMP_EQ | SCALAR_CMP_EQUAL | SCALAR_CMP_LT | SCALAR_CMP_LE | SCALAR_CMP_GE | SCALAR_CMP_GT
datatype mm_leaf = No_leaf | Null_element | Impossible | Leaf

definition get_mm_leaf :: "bool \<Rightarrow> (Field_fbt \<Rightarrow> int \<times> Field_fbt) \<Rightarrow> scalar_comparison_op \<Rightarrow> Field_fbt \<Rightarrow> mm_leaf \<times> Field_fbt" where
  "get_mm_leaf can_optimize save op f =
     (if \<not> can_optimize then (No_leaf, f)
      else let (err, f) = save f
           in if (op \<noteq> SCALAR_CMP_EQUAL \<and> field_is_real_null f) \<or> err < 0 then (Null_element, f)
              else if err > 0 then (if op = SCALAR_CMP_EQ \<or> op = SCALAR_CMP_EQUAL then Impossible else No_leaf, f)
              else (Leaf, f))"

section \<open>Items\<close>

definition typecast_val_str ::
    "fbt_impl \<Rightarrow> copier \<Rightarrow> bytes \<Rightarrow> bool \<Rightarrow> item_src \<Rightarrow> fbt_string list \<Rightarrow> (fbt_string option \<times> bool) \<times> fbt_string list" where
  "typecast_val_str I well_formed_copy garbage oom arg ws =
     (let (tmp, ws) = Fbt_null_item I well_formed_copy garbage arg True ws;
          r = (if fn_null tmp then None else fbt_to_string I oom (fn_value tmp))
      in ((r, r = None), ws))"

definition typecast_val_native ::
    "fbt_impl \<Rightarrow> copier \<Rightarrow> bytes \<Rightarrow> bool \<Rightarrow> item_src \<Rightarrow> fbt_string list \<Rightarrow> (bytes option \<times> bool) \<times> fbt_string list" where
  "typecast_val_native I well_formed_copy garbage oom arg ws =
     (let (tmp, ws) = Fbt_null_item I well_formed_copy garbage arg True ws;
          r = (if fn_null tmp then None else to_native oom (fn_value tmp))
      in ((r, r = None), ws))"

text \<open>The name of the function, with the bytes of the buffer behind it up to the length that is returned.\<close>

definition cast_as :: bytes where
  "cast_as = [99, 97, 115, 116, 95, 97, 115, 95]"

definition func_name_cstring :: "fbt_impl \<Rightarrow> uchar \<Rightarrow> bytes \<times> nat" where
  "func_name_cstring I garbage =
     (let len = 9 + length (type_name I) + 1 in (take len (cast_as @ type_name I @ [0] @ [garbage]), len))"

record Item_cache_fbt =
  c_value :: bytes
  c_null_value :: bool
  c_value_cached :: bool

text \<open>\<open>example\<close> is what the conversion of the cached item returns, if there is one.\<close>

definition cache_value :: "bytes option option \<Rightarrow> Item_cache_fbt \<Rightarrow> bool \<times> Item_cache_fbt" where
  "cache_value example c =
     (case example of None \<Rightarrow> (False, c)
      | Some v \<Rightarrow> (True, c\<lparr>c_value_cached := True, c_null_value := (v = None), c_value := (case v of None \<Rightarrow> c_value c | Some b \<Rightarrow> b)\<rparr>))"

definition has_value :: "bytes option option \<Rightarrow> Item_cache_fbt \<Rightarrow> bool \<times> Item_cache_fbt" where
  "has_value example c =
     (if c_value_cached c then (\<not> c_null_value c, c)
      else let (rc, c) = cache_value example c in (rc \<and> \<not> c_null_value c, c))"

definition cache_val_native :: "bool \<Rightarrow> bytes option option \<Rightarrow> Item_cache_fbt \<Rightarrow> bytes option \<times> Item_cache_fbt" where
  "cache_val_native oom example c =
     (let (h, c) = has_value example c in (if \<not> h then None else if oom then None else Some (c_value c), c))"

definition cache_val_str :: "fbt_impl \<Rightarrow> bytes \<Rightarrow> bool \<Rightarrow> bytes option option \<Rightarrow> Item_cache_fbt \<Rightarrow> fbt_string option \<times> Item_cache_fbt" where
  "cache_val_str I garbage oom example c =
     (let (h, c) = has_value example c
      in (if \<not> h then None
          else let tmp = Fbt_null_binary I garbage (c_value c)
               in if fn_null tmp then None else fbt_to_string I oom (fn_value tmp), c))"

definition literal_val_str :: "fbt_impl \<Rightarrow> bool \<Rightarrow> bytes \<Rightarrow> fbt_string option" where
  "literal_val_str I oom m = fbt_to_string I oom m"

definition literal_val_native :: "bool \<Rightarrow> bytes \<Rightarrow> bytes option" where
  "literal_val_native oom m = to_native oom m"

record Item_copy_fbt =
  cp_value :: bytes
  cp_null_value :: bool

definition item_copy :: "item_src \<Rightarrow> Item_copy_fbt \<Rightarrow> Item_copy_fbt" where
  "item_copy item c =
     (case native_value item of None \<Rightarrow> c\<lparr>cp_null_value := True\<rparr> | Some b \<Rightarrow> c\<lparr>cp_null_value := False, cp_value := b\<rparr>)"

definition copy_val_native :: "bool \<Rightarrow> Item_copy_fbt \<Rightarrow> bytes option" where
  "copy_val_native oom c = (if cp_null_value c then None else if oom then None else Some (cp_value c))"

definition copy_val_str :: "fbt_impl \<Rightarrow> bytes \<Rightarrow> bool \<Rightarrow> Item_copy_fbt \<Rightarrow> fbt_string option" where
  "copy_val_str I garbage oom c =
     (if cp_null_value c then None
      else let tmp = Fbt_null_binary I garbage (cp_value c)
           in if fn_null tmp then None else fbt_to_string I oom (fn_value tmp))"

section \<open>in\_fbt\<close>

record in_fbt =
  in_base :: "bytes list"
  in_value :: bytes

definition mk_in_fbt :: "fbt_impl \<Rightarrow> nat \<Rightarrow> in_fbt" where
  "mk_in_fbt I elements = \<lparr>in_base = replicate elements (replicate (binary_length I) 0), in_value = fbt_zero I\<rparr>"

definition cmp_fbt :: "fbt_impl \<Rightarrow> bytes \<Rightarrow> bytes \<Rightarrow> int" where
  "cmp_fbt I a b = fbt_cmp I a b"

definition in_set :: "fbt_impl \<Rightarrow> copier \<Rightarrow> bytes \<Rightarrow> nat \<Rightarrow> item_src \<Rightarrow> in_fbt \<Rightarrow> fbt_string list \<Rightarrow> in_fbt \<times> fbt_string list" where
  "in_set I well_formed_copy garbage pos item v ws =
     (let (val, ws) = Fbt_null_item I well_formed_copy garbage item True ws
      in (v\<lparr>in_base := (in_base v)[pos := if fn_null val then fbt_zero I else fn_value val]\<rparr>, ws))"

definition in_get_value :: "fbt_impl \<Rightarrow> copier \<Rightarrow> bytes \<Rightarrow> item_src \<Rightarrow> in_fbt \<Rightarrow> fbt_string list \<Rightarrow> (bool \<times> in_fbt) \<times> fbt_string list" where
  "in_get_value I well_formed_copy garbage item v ws =
     (let (val, ws) = Fbt_null_item I well_formed_copy garbage item True ws
      in (if fn_null val then (False, v) else (True, v\<lparr>in_value := fn_value val\<rparr>), ws))"

definition value_to_item :: "nat \<Rightarrow> in_fbt \<Rightarrow> bytes option" where
  "value_to_item pos v = (if pos < length (in_base v) then Some (in_base v ! pos) else None)"

section \<open>Type\_collection\_fbt\<close>

datatype type_handler = Th_fbt | Th_null | Th_varchar | Th_string | Th_tiny_blob | Th_blob | Th_medium_blob | Th_long_blob
  | Th_hex_hybrid | Th_other nat

type_synonym agg_pair = "type_handler \<times> type_handler \<times> type_handler"

definition pair_eq :: "agg_pair \<Rightarrow> type_handler \<Rightarrow> type_handler \<Rightarrow> bool" where
  "pair_eq p handler1 handler2 \<longleftrightarrow> fst p = handler1 \<and> fst (snd p) = handler2"

fun find_handler_in_array :: "agg_pair list \<Rightarrow> type_handler \<Rightarrow> type_handler \<Rightarrow> bool \<Rightarrow> type_handler option" where
  "find_handler_in_array [] h1 h2 commutative = None"
| "find_handler_in_array (p # ps) h1 h2 commutative =
     (if pair_eq p h1 h2 then Some (snd (snd p))
      else if commutative \<and> pair_eq p h2 h1 then Some (snd (snd p))
      else find_handler_in_array ps h1 h2 commutative)"

definition aggregate_common :: "type_handler \<Rightarrow> type_handler \<Rightarrow> type_handler option" where
  "aggregate_common a b = (if a = b then Some a else None)"

definition aggregate_if_string :: "type_handler \<Rightarrow> type_handler \<Rightarrow> type_handler option" where
  "aggregate_if_string a b =
     find_handler_in_array
       [(Th_fbt, Th_null, Th_fbt), (Th_fbt, Th_varchar, Th_fbt), (Th_fbt, Th_string, Th_fbt), (Th_fbt, Th_tiny_blob, Th_fbt),
        (Th_fbt, Th_blob, Th_fbt), (Th_fbt, Th_medium_blob, Th_fbt), (Th_fbt, Th_long_blob, Th_fbt), (Th_fbt, Th_hex_hybrid, Th_fbt)]
       a b True"

definition aggregate_for_result :: "type_handler \<Rightarrow> type_handler \<Rightarrow> type_handler option" where
  "aggregate_for_result a b = (case aggregate_common a b of Some h \<Rightarrow> Some h | None \<Rightarrow> aggregate_if_string a b)"

definition aggregate_for_min_max :: "type_handler \<Rightarrow> type_handler \<Rightarrow> type_handler option" where
  "aggregate_for_min_max a b = aggregate_for_result a b"

definition aggregate_for_comparison :: "type_handler \<Rightarrow> type_handler \<Rightarrow> type_handler option" where
  "aggregate_for_comparison a b =
     (case aggregate_common a b of Some h \<Rightarrow> Some h
      | None \<Rightarrow> find_handler_in_array [(Th_fbt, Th_null, Th_fbt), (Th_fbt, Th_long_blob, Th_fbt)] a b True)"

definition aggregate_for_num_op :: "type_handler \<Rightarrow> type_handler \<Rightarrow> type_handler option" where
  "aggregate_for_num_op a b = None"

section \<open>What an implementation promises\<close>

text \<open>The storage: the two representations have the same fixed size and determine each other, zero is represented by zeros,
  and the bytes of the record are comparable by \<^verbatim>\<open>memcmp\<close>.\<close>

locale fbt_storage =
  fixes I :: fbt_impl
  assumes record_length: "length m = binary_length I \<Longrightarrow> length (memory_to_record I m) = binary_length I"
    and memory_length: "length r = binary_length I \<Longrightarrow> length (record_to_memory I r) = binary_length I"
    and memory_record_memory: "length m = binary_length I \<Longrightarrow> record_to_memory I (memory_to_record I m) = m"
    and record_memory_record: "length r = binary_length I \<Longrightarrow> memory_to_record I (record_to_memory I r) = r"
    and record_zero: "memory_to_record I (replicate (binary_length I) 0) = replicate (binary_length I) 0"
    and record_comparable: "length m = binary_length I \<Longrightarrow> length m' = binary_length I \<Longrightarrow>
      sgn (impl_cmp I m m') = memcmp_list (memory_to_record I m) (memory_to_record I m')"
begin

lemma record_inj:
  "length m = binary_length I \<Longrightarrow> length m' = binary_length I \<Longrightarrow> memory_to_record I m = memory_to_record I m' \<longleftrightarrow> m = m'"
  by (metis memory_record_memory)

lemma cmp_0_iff: "length m = binary_length I \<Longrightarrow> length m' = binary_length I \<Longrightarrow> impl_cmp I m m' = 0 \<longleftrightarrow> m = m'"
  using record_comparable [of m m'] memcmp_list_0_iff [of "memory_to_record I m" "memory_to_record I m'"]
  by (simp add: record_length record_inj sgn_if split: if_splits)

lemma cmp_swap:
  "length m = binary_length I \<Longrightarrow> length m' = binary_length I \<Longrightarrow> sgn (impl_cmp I m m') = - sgn (impl_cmp I m' m)"
  by (simp add: record_comparable memcmp_list_swap [of "memory_to_record I m"])

lemma cmp_trans:
  assumes "length a = binary_length I" "length b = binary_length I" "length c = binary_length I"
    and "impl_cmp I a b \<le> 0" "impl_cmp I b c \<le> 0"
  shows "impl_cmp I a c \<le> 0"
proof -
  have le: "impl_cmp I x y \<le> 0 \<longleftrightarrow> memcmp_list (memory_to_record I x) (memory_to_record I y) \<le> 0"
    if "length x = binary_length I" "length y = binary_length I" for x y
    using record_comparable [OF that] by (auto simp: sgn_if split: if_splits)
  show ?thesis using assms memcmp_list_trans [of "memory_to_record I a" "memory_to_record I b" "memory_to_record I c"]
    by (simp add: le record_length)
qed

lemma cmp_zero_least: "length m = binary_length I \<Longrightarrow> impl_cmp I (fbt_zero I) m \<le> 0"
  using record_comparable [of "fbt_zero I" m] memcmp_list_zeros [of "binary_length I" "memory_to_record I m"]
  by (simp add: fbt_zero_def set_zero_def record_zero sgn_if split: if_splits)

end

text \<open>The textual form: a text that is accepted gives a value that does not depend on the old contents of the buffer, and
  the text of a value is accepted and gives the value back.\<close>

locale fbt_contract = fbt_storage +
  assumes text_buffer: "length buf = binary_length I \<Longrightarrow> length buf' = binary_length I \<Longrightarrow>
      fst (ascii_to_fbt I s buf) = fst (ascii_to_fbt I s buf')
      \<and> (fst (ascii_to_fbt I s buf) \<or> snd (ascii_to_fbt I s buf) = snd (ascii_to_fbt I s buf'))"
    and text_length: "length buf = binary_length I \<Longrightarrow> length (snd (ascii_to_fbt I s buf)) = binary_length I"
    and text_back: "length m = binary_length I \<Longrightarrow> length buf = binary_length I \<Longrightarrow>
      ascii_to_fbt I (impl_to_string I m) buf = (False, m)"
    and text_fits: "length m = binary_length I \<Longrightarrow> length (impl_to_string I m) \<le> max_char_length I"

text \<open>The default storage keeps the contract of the storage, whatever the textual form.\<close>

lemma storage_impl_sel [simp]:
  "binary_length (storage_impl n k asc str nm) = n" "max_char_length (storage_impl n k asc str nm) = k"
  "memory_to_record (storage_impl n k asc str nm) = take n" "record_to_memory (storage_impl n k asc str nm) = take n"
  "impl_cmp (storage_impl n k asc str nm) = memcmp_list" "ascii_to_fbt (storage_impl n k asc str nm) = asc"
  "impl_to_string (storage_impl n k asc str nm) = str" "type_name (storage_impl n k asc str nm) = nm"
  by (simp_all add: storage_impl_def fun_eq_iff storage_memory_to_record_def storage_record_to_memory_def storage_cmp_def)

interpretation default_storage: fbt_storage "storage_impl native_len max_len asc str nm"
  by unfold_locales (simp_all add: memcmp_list_sgn)

text \<open>A textual form over the default storage: two hexadecimal digits for each byte.\<close>

definition hex_digit :: "uchar \<Rightarrow> uchar" where
  "hex_digit d = (if d < 10 then 48 + d else 87 + d)"

definition hex_value :: "uchar \<Rightarrow> uchar option" where
  "hex_value c = (if 48 \<le> c \<and> c \<le> 57 then Some (c - 48) else if 97 \<le> c \<and> c \<le> 102 then Some (c - 87) else None)"

definition hex_text :: "bytes \<Rightarrow> bytes" where
  "hex_text m = concat (map (\<lambda>b. [hex_digit (b div 16), hex_digit (b mod 16)]) m)"

fun hex_parse :: "bytes \<Rightarrow> bytes option" where
  "hex_parse [] = Some []"
| "hex_parse [c] = None"
| "hex_parse (c # d # s) =
     (case (hex_value c, hex_value d, hex_parse s) of (Some h, Some l, Some m) \<Rightarrow> Some ((h * 16 + l) # m) | _ \<Rightarrow> None)"

definition hex_impl :: "nat \<Rightarrow> fbt_impl" where
  "hex_impl n = storage_impl n (2 * n)
     (\<lambda>s buf. case hex_parse s of Some m \<Rightarrow> if length m = n then (False, m) else (True, buf) | None \<Rightarrow> (True, buf)) hex_text []"

lemma hex_value_digit: "d < 16 \<Longrightarrow> hex_value (hex_digit d) = Some d"
proof -
  assume "d < 16"
  then have "unat d < 16" by (simp add: word_less_nat_alt)
  then have "unat d \<in> set [0..<16]" by simp
  then have "d \<in> of_nat ` set [0..<16]" by (rule image_eqI [rotated]) simp
  then show ?thesis by (auto simp: hex_value_def hex_digit_def upt_rec)
qed

lemma byte_halves: "(b :: uchar) div 16 < 16" "b mod 16 < 16" "b div 16 * 16 + b mod 16 = b"
proof -
  have "unat b < 256" using unsigned_less [of b] by simp
  then show "b div 16 < 16" by (simp add: word_less_nat_alt unat_div)
  show "b mod 16 < 16" by (simp add: word_less_nat_alt unat_mod)
  show "b div 16 * 16 + b mod 16 = b" by (rule div_mult_mod_eq)
qed

lemma hex_parse_text: "hex_parse (hex_text m) = Some m"
  by (induction m) (simp_all add: hex_text_def hex_value_digit byte_halves)

lemma length_hex_text: "length (hex_text m) = 2 * length m"
  by (induction m) (simp_all add: hex_text_def)

interpretation hex: fbt_contract "hex_impl n"
  unfolding hex_impl_def
  by unfold_locales (auto simp: hex_parse_text length_hex_text split: option.splits)

section \<open>What strings and items denote\<close>

definition fbt_denotes :: "fbt_impl \<Rightarrow> copier \<Rightarrow> fbt_string \<Rightarrow> bytes option" where
  "fbt_denotes I c str =
     (if str_charset str = Charset_bin then if length (str_ptr str) = binary_length I then Some (str_ptr str) else None
      else let text = (if str_charset str = Charset_nonascii then c (max_char_length I + 1) (str_ptr str) else str_ptr str)
           in case ascii_to_fbt I text (fbt_zero I) of (rc, m) \<Rightarrow> if rc then None else Some m)"

definition item_denotes :: "fbt_impl \<Rightarrow> copier \<Rightarrow> item_src \<Rightarrow> bytes option" where
  "item_denotes I c item =
     (if is_fbt item then native_value item else case str_value item of None \<Rightarrow> None | Some str \<Rightarrow> fbt_denotes I c str)"

definition item_warnings :: "fbt_impl \<Rightarrow> copier \<Rightarrow> item_src \<Rightarrow> fbt_string list" where
  "item_warnings I c item =
     (if is_fbt item then []
      else case str_value item of None \<Rightarrow> [] | Some str \<Rightarrow> if fbt_denotes I c str = None then [str] else [])"

definition item_ok :: "fbt_impl \<Rightarrow> item_src \<Rightarrow> bool" where
  "item_ok I item \<longleftrightarrow> (case native_value item of None \<Rightarrow> True | Some m \<Rightarrow> length m = binary_length I)"

definition null_to_option :: "Fbt_null \<Rightarrow> bytes option" where
  "null_to_option n = (if fn_null n then None else Some (fn_value n))"

lemma null_to_option_None: "null_to_option n = None \<longleftrightarrow> fn_null n"
  by (simp add: null_to_option_def)

lemma null_to_option_Some: "null_to_option n = Some m \<longleftrightarrow> \<not> fn_null n \<and> fn_value n = m"
  by (simp add: null_to_option_def)

context fbt_contract
begin

lemma text_independent:
  assumes "length buf = binary_length I"
  shows "fst (ascii_to_fbt I s buf) = fst (ascii_to_fbt I s (fbt_zero I))"
    and "\<not> fst (ascii_to_fbt I s buf) \<Longrightarrow> snd (ascii_to_fbt I s buf) = snd (ascii_to_fbt I s (fbt_zero I))"
  using text_buffer [OF assms, of "fbt_zero I" s] by (auto simp: fbt_zero_def set_zero_def)

lemma text_denotes:
  assumes "length g = binary_length I" "str_charset str \<noteq> Charset_bin"
  shows "null_to_option (Fbt_null_text I c g str) = fbt_denotes I c str"
  using text_independent [OF assms(1)] assms(2)
  by (auto simp: null_to_option_def Fbt_null_text_def character_string_to_fbt_def fbt_denotes_def Let_def split_beta)

lemma binary_denotes:
  "null_to_option (Fbt_null_binary I g s) = (if length s = binary_length I then Some s else None)"
  by (simp add: null_to_option_def Fbt_null_binary_def binary_to_fbt_def)

lemma denotes_length: "fbt_denotes I c str = Some m \<Longrightarrow> length m = binary_length I"
  using text_length [of "fbt_zero I"]
  by (auto simp: fbt_denotes_def fbt_zero_def set_zero_def split_beta Let_def split: if_splits)

lemma item_length: "item_ok I item \<Longrightarrow> item_denotes I c item = Some m \<Longrightarrow> length m = binary_length I"
  by (auto simp: item_denotes_def item_ok_def denotes_length split: if_splits option.splits)

lemma string_conversion:
  assumes "length g = binary_length I"
  shows "fst (make_from_character_or_binary_string I c str warn g ws) \<longleftrightarrow> fbt_denotes I c str = None"
    and "fbt_denotes I c str = Some m \<Longrightarrow> fst (snd (make_from_character_or_binary_string I c str warn g ws)) = m"
    and "snd (snd (make_from_character_or_binary_string I c str warn g ws)) =
      (if warn \<and> fbt_denotes I c str = None then ws @ [str] else ws)"
  using text_independent [OF assms]
  by (auto simp: make_from_character_or_binary_string_def character_string_to_fbt_def fbt_denotes_def split_beta Let_def
      split: if_splits)

lemma item_conversion:
  assumes "length g = binary_length I" "item_ok I item"
  shows "fst (make_from_item I c item True g ws) \<longleftrightarrow> item_denotes I c item = None"
    and "item_denotes I c item = Some m \<Longrightarrow> fst (snd (make_from_item I c item True g ws)) = m"
    and "snd (snd (make_from_item I c item True g ws)) = ws @ item_warnings I c item"
  using assms(2)
  by (auto simp: string_conversion [OF assms(1)] make_from_item_def item_denotes_def item_warnings_def item_ok_def split: option.splits if_splits)

lemma Fbt_null_item_value:
  assumes "length g = binary_length I" "item_ok I item"
  shows "Fbt_null_item I c g item True ws =
      (fst (Fbt_null_item I c g item True ws), ws @ item_warnings I c item)"
    and "null_to_option (fst (Fbt_null_item I c g item True ws)) = item_denotes I c item"
  using item_conversion [OF assms, of c] by (auto simp: Fbt_null_item_def null_to_option_def split_beta)

end

section \<open>Storing and loading\<close>

definition store_outcome :: "fbt_impl \<Rightarrow> fbt_string \<Rightarrow> bytes option \<Rightarrow> Field_fbt \<Rightarrow> int \<times> Field_fbt" where
  "store_outcome I str denoted f =
     (case denoted of Some m \<Rightarrow> (0, f\<lparr>fld_ptr := memory_to_record I m\<rparr>)
      | None \<Rightarrow> (1, let f' = f\<lparr>fld_warnings := fld_warnings f @ (if fld_count_cuted f then [str] else [])\<rparr>
                    in if fld_has_null_ptr f then f'\<lparr>fld_null_bit := True\<rparr>
                       else if fld_table_maybe_null f then f' else f'\<lparr>fld_ptr := replicate (binary_length I) 0\<rparr>))"

lemma store_outcome_from:
  "store_fbt_null_with_warn I n str f = store_outcome I str (null_to_option n) f"
  by (cases f) (simp add: store_outcome_def store_fbt_null_with_warn_def null_to_option_def to_record_def field_maybe_null_def
      set_null_with_warn_def set_min_value_with_warn_def store_warning_def field_set_null_def set_min_value_def Let_def)

context fbt_contract
begin

lemma store_eq:
  assumes "length g = binary_length I"
  shows "field_store I c g str f = store_outcome I str (fbt_denotes I c str) f"
  using assms text_denotes [OF assms, of str c]
  by (cases str) (auto simp: field_store_def store_binary_def store_text_def store_outcome_from binary_denotes fbt_denotes_def)

lemma loaded_text_stored:
  assumes "length g = binary_length I" "length (fld_ptr f) = binary_length I" "field_val_str I False f = Some str"
  shows "field_store I c g str f' = (0, f'\<lparr>fld_ptr := fld_ptr f\<rparr>)" and "length (str_ptr str) \<le> max_char_length I"
  using assms text_back [of "record_to_memory I (fld_ptr f)" "fbt_zero I"] text_fits
  by (auto simp: store_eq field_val_str_def field_to_fbt_def fbt_record_to_memory_def fbt_to_string_def fbt_denotes_def
      fbt_zero_def set_zero_def memory_length record_memory_record store_outcome_def)

end

text \<open>C19. Storing a string in a field. A binary string denotes a value if it has the size of the type, another string if
  its text is accepted by the type. If the string denotes a value, the record gets the representation of the value, the
  result is 0, nothing else of the field changes, no matter what the temporary buffer held before, and the value read
  back is the one denoted. If not, the result is 1, a warning is added when the session counts cut fields, and: a field
  with a null bit becomes NULL and keeps its bytes; a field without null bit in a table that can be null-complemented
  keeps everything; any other field gets the minimum value.\<close>

theorem fbt_store_outcome:
  assumes "fbt_contract I" and "length garbage = binary_length I"
  shows "field_store I c garbage str f = store_outcome I str (fbt_denotes I c str) f
    \<and> (\<forall>m. fbt_denotes I c str = Some m \<longrightarrow>
         length m = binary_length I
         \<and> field_val_native I False (snd (field_store I c garbage str f)) = Some m
         \<and> field_cmp (fld_ptr (snd (field_store I c garbage str f))) (memory_to_record I m) = 0)"
proof -
  have rec_len: "length (memory_to_record I m) = binary_length I" if "fbt_denotes I c str = Some m" for m
    using that fbt_contract.denotes_length [OF assms(1)] fbt_storage.record_length [OF fbt_contract.axioms(1) [OF assms(1)]] by simp
  show ?thesis
    using fbt_contract.denotes_length [OF assms(1), of c str]
      fbt_storage.memory_record_memory [OF fbt_contract.axioms(1) [OF assms(1)]] rec_len
    by (auto simp: fbt_contract.store_eq [OF assms] store_outcome_def field_val_native_def field_cmp_def memcmp_list_0_iff)
qed

text \<open>The text of the value of a field fits in the buffer for it, and storing it in any field of the type succeeds and
  gives that field the same bytes; the same holds for the native value. Whether the value counts as true is whether it is
  not the minimum value.\<close>

theorem fbt_field_round_trip:
  assumes "fbt_contract I" and "length garbage = binary_length I" and "length (fld_ptr f) = binary_length I"
  shows "case field_val_str I False f of None \<Rightarrow> False
    | Some str \<Rightarrow> length (str_ptr str) \<le> max_char_length I
        \<and> field_store I c garbage str f' = (0, f'\<lparr>fld_ptr := fld_ptr f\<rparr>)"
    and "case field_val_native I False f of None \<Rightarrow> False
    | Some m \<Rightarrow> length m = binary_length I \<and> store_native I m f' = (0, f'\<lparr>fld_ptr := fld_ptr f\<rparr>)"
    and "field_val_bool f \<longleftrightarrow> fld_ptr f \<noteq> fld_ptr (set_min_value I f)"
proof -
  note st = fbt_contract.axioms(1) [OF assms(1)]
  have zero: "only_zero_bytes r \<longleftrightarrow> r = replicate (length r) 0" for r by (induction r) auto
  show "case field_val_str I False f of None \<Rightarrow> False
    | Some str \<Rightarrow> length (str_ptr str) \<le> max_char_length I \<and> field_store I c garbage str f' = (0, f'\<lparr>fld_ptr := fld_ptr f\<rparr>)"
    using fbt_contract.loaded_text_stored [OF assms]
    by (auto simp: field_val_str_def fbt_to_string_def)
  show "case field_val_native I False f of None \<Rightarrow> False
    | Some m \<Rightarrow> length m = binary_length I \<and> store_native I m f' = (0, f'\<lparr>fld_ptr := fld_ptr f\<rparr>)"
    using assms(3) by (simp add: field_val_native_def store_native_def fbt_storage.memory_length [OF st] fbt_storage.record_memory_record [OF st])
  show "field_val_bool f \<longleftrightarrow> fld_ptr f \<noteq> fld_ptr (set_min_value I f)"
    using assms(3) zero [of "fld_ptr f"] by (simp add: field_val_bool_def set_min_value_def)
qed

section \<open>Order and equality\<close>

definition nulls_first :: "fbt_impl \<Rightarrow> bytes option \<Rightarrow> bytes option \<Rightarrow> int" where
  "nulls_first I a b = (case (a, b) of (None, None) \<Rightarrow> 0 | (None, Some _) \<Rightarrow> - 1 | (Some _, None) \<Rightarrow> 1
     | (Some x, Some y) \<Rightarrow> sgn (cmp_native I x y))"

definition sort_key_of :: "fbt_impl \<Rightarrow> bytes option \<Rightarrow> bytes" where
  "sort_key_of I a = (case a of None \<Rightarrow> make_sort_key_part I True True [] | Some m \<Rightarrow> make_sort_key_part I True False m)"

text \<open>C29. The keys that filesort makes of nullable values have one byte more than the values, and \<^verbatim>\<open>memcmp\<close> on them gives
  NULL first and then the order of the values. For values that cannot be NULL, the keys have the size of the values and the
  order is the same. Both agree with the order of the records of the fields in which the values are stored, and the sort
  string of a field is its key.\<close>

theorem fbt_sort_keys:
  assumes "fbt_contract I" and "\<And>m. a = Some m \<Longrightarrow> length m = binary_length I" and "\<And>m. b = Some m \<Longrightarrow> length m = binary_length I"
  shows "length (sort_key_of I a) = binary_length I + 1
    \<and> memcmp_list (sort_key_of I a) (sort_key_of I b) = nulls_first I a b
    \<and> (case (a, b) of (Some x, Some y) \<Rightarrow>
         memcmp_list (make_sort_key_part I False False x) (make_sort_key_part I False False y) = nulls_first I a b
         \<and> field_cmp (fld_ptr (snd (store_native I x f))) (fld_ptr (snd (store_native I y f'))) = nulls_first I a b
         \<and> sort_string (snd (store_native I x f)) = make_sort_key_part I False False x
       | _ \<Rightarrow> True)"
proof -
  note st = fbt_contract.axioms(1) [OF assms(1)]
  show ?thesis
    using assms(2,3) fbt_storage.record_length [OF st] fbt_storage.record_comparable [OF st]
    by (cases a; cases b) (simp_all add: sort_key_of_def nulls_first_def make_sort_key_part_def cmp_native_def field_cmp_def
        store_native_def sort_string_def memcmp_list_0_iff)
qed

text \<open>The comparisons of items. The comparator of \<^verbatim>\<open>IN\<close> stores one item and compares it with another: the answer is
  unknown if one of the two does not denote a value, and otherwise 0 or 1 for equal or different values. Equality of items
  holds if both denote the same value. Each item that is not converted adds one warning for each conversion. The comparison
  of a stored field with an item has the sign of the comparison of the records.\<close>

theorem fbt_item_comparison:
  assumes "fbt_contract I" and "length g = binary_length I" and "item_ok I a" and "item_ok I b"
  shows "(let (ci, ws1) = store_value I c g a ci0 ws in cmp_item_cmp I c g b ci ws1) =
      ((case (item_denotes I c a, item_denotes I c b) of (Some x, Some y) \<Rightarrow> if x = y then 0 else 1 | _ \<Rightarrow> UNKNOWN),
       ws @ item_warnings I c a @ item_warnings I c b)"
    and "Item_eq_value I c g a b ws =
      (item_denotes I c a \<noteq> None \<and> item_denotes I c a = item_denotes I c b, ws @ item_warnings I c a @ item_warnings I c b)"
    and "length (fld_ptr f) = binary_length I \<Longrightarrow>
      sgn (fst (stored_field_cmp_to_item I c g (field_val_native I False f) a ws)) =
      (case item_denotes I c a of None \<Rightarrow> 0 | Some x \<Rightarrow> field_cmp (fld_ptr f) (memory_to_record I x))"
proof -
  note st = fbt_contract.axioms(1) [OF assms(1)]
  note A = fbt_contract.item_conversion [OF assms(1,2,3), of c] and B = fbt_contract.item_conversion [OF assms(1,2,4), of c]
  note la = fbt_contract.item_length [OF assms(1,3), of c] and lb = fbt_contract.item_length [OF assms(1,4), of c]
  show "(let (ci, ws1) = store_value I c g a ci0 ws in cmp_item_cmp I c g b ci ws1) =
      ((case (item_denotes I c a, item_denotes I c b) of (Some x, Some y) \<Rightarrow> if x = y then 0 else 1 | _ \<Rightarrow> UNKNOWN),
       ws @ item_warnings I c a @ item_warnings I c b)"
    by (auto simp: store_value_def cmp_item_cmp_def Fbt_null_item_def split_beta Let_def A B la lb fbt_cmp_def
        fbt_storage.cmp_0_iff [OF st] split: option.splits)
  show "Item_eq_value I c g a b ws =
      (item_denotes I c a \<noteq> None \<and> item_denotes I c a = item_denotes I c b, ws @ item_warnings I c a @ item_warnings I c b)"
    by (cases "item_denotes I c a"; cases "item_denotes I c b")
      (auto simp: Item_eq_value_def Fbt_null_item_def split_beta Let_def A B la lb fbt_cmp_def fbt_storage.cmp_0_iff [OF st])
  assume f: "length (fld_ptr f) = binary_length I"
  show "sgn (fst (stored_field_cmp_to_item I c g (field_val_native I False f) a ws)) =
      (case item_denotes I c a of None \<Rightarrow> 0 | Some x \<Rightarrow> field_cmp (fld_ptr f) (memory_to_record I x))"
    using f memcmp_list_swap [of "fld_ptr f"]
    by (auto simp: stored_field_cmp_to_item_def Fbt_null_item_def field_val_native_def split_beta Let_def A la fbt_cmp_def field_cmp_def
        sgn_minus fbt_storage.record_comparable [OF st] fbt_storage.memory_length [OF st] fbt_storage.record_memory_record [OF st]
        split: option.splits)
qed

text \<open>The array of \<^verbatim>\<open>IN\<close>: an element that was set is the value of the item, or zero for an item without value, and the other
  elements stay; the order of the elements is a total preorder in which equal elements are the same.\<close>

lemma in_set_get:
  assumes "fbt_contract I" and "length g = binary_length I" and "item_ok I item" and "pos < length (in_base v)"
  shows "value_to_item k (fst (in_set I c g pos item v ws)) =
    (if k = pos then Some (case item_denotes I c item of None \<Rightarrow> fbt_zero I | Some m \<Rightarrow> m) else value_to_item k v)"
  using assms(4) fbt_contract.item_conversion [OF assms(1,2,3), of c]
  by (auto simp: in_set_def value_to_item_def Fbt_null_item_def split_beta Let_def split: option.splits)

lemma in_get_value_eq:
  assumes "fbt_contract I" and "length g = binary_length I" and "item_ok I item"
  shows "fst (in_get_value I c g item v ws) =
    (case item_denotes I c item of None \<Rightarrow> (False, v) | Some m \<Rightarrow> (True, v\<lparr>in_value := m\<rparr>))"
  using fbt_contract.item_conversion [OF assms(1,2,3), of c]
  by (auto simp: in_get_value_def Fbt_null_item_def split_beta Let_def split: option.splits)

lemma cmp_fbt_order:
  assumes "fbt_contract I" and "length x = binary_length I" "length y = binary_length I" "length z = binary_length I"
  shows "cmp_fbt I x y = 0 \<longleftrightarrow> x = y" and "sgn (cmp_fbt I x y) = - sgn (cmp_fbt I y x)"
    and "cmp_fbt I x y \<le> 0 \<Longrightarrow> cmp_fbt I y z \<le> 0 \<Longrightarrow> cmp_fbt I x z \<le> 0"
    and "cmp_fbt I (fbt_zero I) x \<le> 0"
proof -
  note st = fbt_contract.axioms(1) [OF assms(1)]
  show "cmp_fbt I x y = 0 \<longleftrightarrow> x = y" by (simp add: cmp_fbt_def fbt_cmp_def fbt_storage.cmp_0_iff [OF st] assms)
  show "sgn (cmp_fbt I x y) = - sgn (cmp_fbt I y x)" unfolding cmp_fbt_def fbt_cmp_def by (rule fbt_storage.cmp_swap [OF st assms(2,3)])
  show "cmp_fbt I x y \<le> 0 \<Longrightarrow> cmp_fbt I y z \<le> 0 \<Longrightarrow> cmp_fbt I x z \<le> 0"
    unfolding cmp_fbt_def fbt_cmp_def by (rule fbt_storage.cmp_trans [OF st assms(2-4)])
  show "cmp_fbt I (fbt_zero I) x \<le> 0" unfolding cmp_fbt_def fbt_cmp_def by (rule fbt_storage.cmp_zero_least [OF st assms(2)])
qed

section \<open>Range optimizer\<close>

text \<open>What the range optimizer infers from the comparison of a column with a string constant, which it stores in the
  field: a constant that denotes a value gives a leaf. A constant that does not, gives for a column with a null bit the
  null element for every comparison but \<^verbatim>\<open><=>\<close>, for which it gives an impossible condition; for another column an
  impossible condition for the two equalities and nothing for the inequalities.\<close>

theorem fbt_range_leaf:
  assumes "fbt_contract I" and "length garbage = binary_length I"
  shows "fst (get_mm_leaf can_optimize (\<lambda>f. field_store I c garbage str (field_set_notnull f)) op f) =
    (if \<not> can_optimize then No_leaf
     else if fbt_denotes I c str \<noteq> None then Leaf
     else if fld_has_null_ptr f then if op = SCALAR_CMP_EQUAL then Impossible else Null_element
     else if op = SCALAR_CMP_EQ \<or> op = SCALAR_CMP_EQUAL then Impossible else No_leaf)"
  by (auto simp: get_mm_leaf_def fbt_contract.store_eq [OF assms] store_outcome_def field_set_notnull_def field_is_real_null_def Let_def)

section \<open>Caches, copies and casts\<close>

text \<open>A cache asks the cached item once: later calls give the same answer whatever the item has become.\<close>

lemma cache_once:
  assumes "c_value_cached c \<or> example \<noteq> None"
  shows "has_value example' (snd (has_value example c)) = has_value example c"
  using assms by (auto simp: has_value_def cache_value_def split_beta Let_def)

lemma cache_value_of:
  "\<not> c_value_cached c \<Longrightarrow> cache_val_native False (Some v) c =
     (v, c\<lparr>c_value_cached := True, c_null_value := (v = None), c_value := (case v of None \<Rightarrow> c_value c | Some b \<Rightarrow> b)\<rparr>)"
  by (auto simp: cache_val_native_def has_value_def cache_value_def split: option.splits)

lemma copy_value_of: "copy_val_native False (item_copy item cp) = native_value item"
  by (auto simp: copy_val_native_def item_copy_def split: option.splits)

text \<open>The casts: the value is NULL exactly if the argument denotes no value, and the text of the cast denotes its native
  value.\<close>

lemma typecast_values:
  assumes "fbt_contract I" and "length g = binary_length I" and "item_ok I arg"
  shows "typecast_val_native I c g False arg ws =
      ((item_denotes I c arg, item_denotes I c arg = None), ws @ item_warnings I c arg)"
    and "case fst (fst (typecast_val_str I c g False arg ws)) of None \<Rightarrow> item_denotes I c arg = None
      | Some str \<Rightarrow> fbt_denotes I c str = item_denotes I c arg"
  using fbt_contract.item_conversion [OF assms, of c] fbt_contract.item_length [OF assms(1,3), of c]
    fbt_contract.text_back [OF assms(1), of _ "fbt_zero I"]
  by (auto simp: typecast_val_native_def typecast_val_str_def to_native_def fbt_to_string_def Fbt_null_item_def split_beta Let_def
      fbt_denotes_def fbt_zero_def set_zero_def)

text \<open>The name of the cast function that is returned has two bytes more than the name: the terminating zero and a byte that
  was never written.\<close>

lemma func_name_too_long:
  "func_name_cstring I garbage = (cast_as @ type_name I @ [0, garbage], length (cast_as @ type_name I) + 2)"
  by (simp add: func_name_cstring_def cast_as_def Let_def)

text \<open>If the conversion of no argument can give NULL, the attribute that was computed before is kept, and an argument of
  the type that cannot be NULL never changes it.\<close>

lemma any_maybe_null_eq:
  "any_maybe_null I c g items attr \<longleftrightarrow> (\<exists>item \<in> set items. fix_fields_maybe_null_on_conversion_to_fbt I c g item) \<or> attr"
  by (induction items) auto

lemma conversion_not_null:
  assumes "fbt_contract I" and "length g = binary_length I" and "item_ok I item"
    and "\<not> fix_fields_maybe_null_on_conversion_to_fbt I c g item" and "native_value item \<noteq> None"
  shows "item_denotes I c item \<noteq> None"
  using assms(4,5) fbt_contract.string_conversion(1) [OF assms(1,2), of c _ False "[]"]
  by (auto simp: fix_fields_maybe_null_on_conversion_to_fbt_def Fbt_null_item_def make_from_item_def item_denotes_def split_beta
      split: if_splits option.splits)

section \<open>Aggregation\<close>

text \<open>The aggregation of types does not depend on the order of the arguments, gives the type or the common type of both
  arguments, and types that can be compared can be mixed in a result with the same type.\<close>

lemma find_handler_commutes: "find_handler_in_array ps a b True = find_handler_in_array ps b a True"
proof (induction ps)
  case (Cons p ps)
  then show ?case by (cases "pair_eq p a b"; cases "pair_eq p b a") (simp_all only: find_handler_in_array.simps if_True if_False simp_thms)
qed (simp only: find_handler_in_array.simps)

lemma aggregation_commutes:
  "aggregate_for_result a b = aggregate_for_result b a" "aggregate_for_min_max a b = aggregate_for_min_max b a"
  "aggregate_for_comparison a b = aggregate_for_comparison b a"
  unfolding aggregate_for_result_def aggregate_for_min_max_def aggregate_for_comparison_def aggregate_common_def
    aggregate_if_string_def find_handler_commutes [of _ a b]
  by (simp_all del: find_handler_in_array.simps)

lemma aggregation_result:
  "aggregate_for_result a b = Some h \<Longrightarrow> h \<in> {a, b} \<and> (h = Th_fbt \<or> a = b)"
  "aggregate_for_comparison a b = Some h \<Longrightarrow> aggregate_for_result a b = Some h"
  by (auto simp: aggregate_for_result_def aggregate_for_comparison_def aggregate_common_def aggregate_if_string_def pair_eq_def
      split: if_splits)

section \<open>Examples\<close>

lemma hex_contract: "fbt_contract (hex_impl n)"
  by (rule hex.fbt_contract_axioms)

lemma replicate_numeral_2: "replicate 2 x = [x, x]"
  by (simp add: eval_nat_numeral)

lemma hex_impl_sel [simp]: "binary_length (hex_impl n) = n" "memory_to_record (hex_impl n) = take n"
  "record_to_memory (hex_impl n) = take n" "impl_cmp (hex_impl n) = memcmp_list" "impl_to_string (hex_impl n) = hex_text"
  "max_char_length (hex_impl n) = 2 * n"
  by (simp_all add: hex_impl_def)

definition example_field :: "bool \<Rightarrow> Field_fbt" where
  "example_field nullable = \<lparr>fld_ptr = [7, 7], fld_has_null_ptr = nullable, fld_null_bit = False, fld_table_maybe_null = False,
     fld_null_row = False, fld_count_cuted = True, fld_warnings = []\<rparr>"

theorem fbt_store_outcome_witness:
  "field_store (hex_impl 2) (\<lambda>n s. take n s) [0, 0] \<lparr>str_ptr = [49, 50, 97, 98], str_charset = Charset_ascii\<rparr> (example_field True)
     = (0, (example_field True)\<lparr>fld_ptr := [18, 171]\<rparr>)
   \<and> fst (field_store (hex_impl 2) (\<lambda>n s. take n s) [0, 0] \<lparr>str_ptr = [1], str_charset = Charset_bin\<rparr> (example_field False)) = 1"
proof -
  have "fbt_denotes (hex_impl 2) (\<lambda>n s. take n s) \<lparr>str_ptr = [49, 50, 97, 98], str_charset = Charset_ascii\<rparr> = Some [18, 171]"
    "fbt_denotes (hex_impl 2) (\<lambda>n s. take n s) \<lparr>str_ptr = [1], str_charset = Charset_bin\<rparr> = None"
    by (simp_all add: fbt_denotes_def hex_impl_def hex_value_def)
  then show ?thesis
    using fbt_store_outcome [OF hex_contract [of 2], of "[0, 0]" "\<lambda>n s. take n s", THEN conjunct1]
    by (simp add: store_outcome_def)
qed

theorem fbt_field_round_trip_witness:
  "field_val_bool (example_field True)"
  using fbt_field_round_trip(3) [OF hex_contract [of 2], of "[0, 0]" "example_field True"]
  by (simp add: example_field_def set_min_value_def replicate_numeral_2)

theorem fbt_sort_keys_witness:
  "memcmp_list (sort_key_of (hex_impl 2) None) (sort_key_of (hex_impl 2) (Some [0, 0])) = - 1"
  using fbt_sort_keys [OF hex_contract [of 2], of None "Some [0, 0]" "example_field True" "example_field True"]
  by (simp add: nulls_first_def)

theorem fbt_item_comparison_witness:
  "fst (Item_eq_value (hex_impl 2) (\<lambda>n s. s) [0, 0]
     \<lparr>is_fbt = True, native_value = Some [18, 171], str_value = None, maybe_null = False, const_item = True, is_expensive = False\<rparr>
     \<lparr>is_fbt = False, native_value = None, str_value = Some \<lparr>str_ptr = [49, 50, 97, 98], str_charset = Charset_ascii\<rparr>,
      maybe_null = False, const_item = True, is_expensive = False\<rparr> [])"
  using fbt_item_comparison(2) [OF hex_contract [of 2], of "[0, 0]"
      "\<lparr>is_fbt = True, native_value = Some [18, 171], str_value = None, maybe_null = False, const_item = True, is_expensive = False\<rparr>"
      "\<lparr>is_fbt = False, native_value = None, str_value = Some \<lparr>str_ptr = [49, 50, 97, 98], str_charset = Charset_ascii\<rparr>,
        maybe_null = False, const_item = True, is_expensive = False\<rparr>" "\<lambda>n s. s" "[]"]
  by (simp add: item_ok_def item_denotes_def fbt_denotes_def hex_impl_def hex_value_def)

theorem fbt_range_leaf_witness:
  "fst (get_mm_leaf True (\<lambda>f. field_store (hex_impl 2) (\<lambda>n s. s) [0, 0] \<lparr>str_ptr = [1], str_charset = Charset_bin\<rparr>
     (field_set_notnull f)) SCALAR_CMP_LT (example_field True)) = Null_element"
  using fbt_range_leaf [OF hex_contract [of 2], of "[0, 0]" True "\<lambda>n s. s" "\<lparr>str_ptr = [1], str_charset = Charset_bin\<rparr>" SCALAR_CMP_LT
      "example_field True"]
  by (simp add: fbt_denotes_def example_field_def)

end
