(* ===== verification/Session.thy ===== *)
theory Session
  imports Prelude
begin

text \<open>
  The state of a session, the class \<^verbatim>\<open>THD\<close> of \<^verbatim>\<open>sql_class.h\<close>, and the transaction data of \<^verbatim>\<open>handler.h\<close> in it: the time of a
  statement, kills, transactions with their engines, the format of the binary log, generated keys, timeouts, and the
  classes that change the session while they exist. Times are those of the bundled build, where \<^verbatim>\<open>long\<close> has 32 bits. The
  clocks are arguments of the operations that read them. Locking, which makes each operation on the kill state atomic,
  is implicit, and instrumentation is left out.
\<close>

section \<open>Types\<close>

type_synonym my_time_t = "32 word"

datatype killed_state = NOT_KILLED | KILL_HARD_BIT | KILL_BAD_DATA | KILL_BAD_DATA_HARD | KILL_QUERY | KILL_QUERY_HARD
  | ABORT_QUERY | ABORT_QUERY_HARD | KILL_TIMEOUT | KILL_TIMEOUT_HARD | KILL_SLAVE_SAME_ID | KILL_CONNECTION
  | KILL_CONNECTION_HARD | KILL_SYSTEM_THREAD | KILL_SYSTEM_THREAD_HARD | KILL_SERVER | KILL_SERVER_HARD
  | KILL_WAIT_TIMEOUT | KILL_WAIT_TIMEOUT_HARD

fun killed_code :: "killed_state \<Rightarrow> nat" where
  "killed_code NOT_KILLED = 0"
| "killed_code KILL_HARD_BIT = 1"
| "killed_code KILL_BAD_DATA = 2"
| "killed_code KILL_BAD_DATA_HARD = 3"
| "killed_code KILL_QUERY = 4"
| "killed_code KILL_QUERY_HARD = 5"
| "killed_code ABORT_QUERY = 6"
| "killed_code ABORT_QUERY_HARD = 7"
| "killed_code KILL_TIMEOUT = 8"
| "killed_code KILL_TIMEOUT_HARD = 9"
| "killed_code KILL_SLAVE_SAME_ID = 10"
| "killed_code KILL_CONNECTION = 12"
| "killed_code KILL_CONNECTION_HARD = 13"
| "killed_code KILL_SYSTEM_THREAD = 14"
| "killed_code KILL_SYSTEM_THREAD_HARD = 15"
| "killed_code KILL_SERVER = 16"
| "killed_code KILL_SERVER_HARD = 17"
| "killed_code KILL_WAIT_TIMEOUT = 18"
| "killed_code KILL_WAIT_TIMEOUT_HARD = 19"

lemma killed_code_inj: "killed_code a = killed_code b \<longleftrightarrow> a = b"
  by (cases a; cases b) simp_all

text \<open>The code compares kill states by their numbers.\<close>

instantiation killed_state :: linorder
begin

definition less_eq_killed_state :: "killed_state \<Rightarrow> killed_state \<Rightarrow> bool" where
  "less_eq_killed_state a b \<longleftrightarrow> killed_code a \<le> killed_code b"

definition less_killed_state :: "killed_state \<Rightarrow> killed_state \<Rightarrow> bool" where
  "less_killed_state a b \<longleftrightarrow> killed_code a < killed_code b"

instance
  by standard (auto simp: less_eq_killed_state_def less_killed_state_def killed_code_inj)

end

lemmas killed_order = less_eq_killed_state_def less_killed_state_def

definition killed_mask_hard :: "killed_state \<Rightarrow> nat" where
  "killed_mask_hard k = nat (int (killed_code k) AND NOT (int (killed_code KILL_HARD_BIT)))"

datatype binlog_format = BINLOG_FORMAT_MIXED | BINLOG_FORMAT_STMT | BINLOG_FORMAT_ROW | BINLOG_FORMAT_UNSPEC

datatype check_fields = CHECK_FIELD_IGNORE | CHECK_FIELD_EXPRESSION | CHECK_FIELD_WARN | CHECK_FIELD_ERROR_FOR_NULL

datatype secure_timestamp = SECTIME_NO | SECTIME_SUPER | SECTIME_REPL | SECTIME_YES

fun secure_code :: "secure_timestamp \<Rightarrow> nat" where
  "secure_code SECTIME_NO = 0"
| "secure_code SECTIME_SUPER = 1"
| "secure_code SECTIME_REPL = 2"
| "secure_code SECTIME_YES = 3"

text \<open>The engines that take part in a transaction are linked objects; \<open>m_ht\<close> is 0 for an object that is not in use.\<close>

record Ha_trx_info =
  m_next :: addr
  m_ht :: addr
  m_flags :: uchar

record THD_TRANS =
  no_2pc :: bool
  ha_list :: addr
  modified_non_trans_table :: bool
  m_unsafe_rollback_flags :: uint32

record THD =
  sys_sec :: my_time_t
  sys_sec_part :: uint32
  sys_start :: ulonglong
  user_time :: ulonglong
  start_time :: my_time_t
  start_time_sec_part :: uint32
  query_start_sec_part_used :: bool
  start_utime :: ulonglong
  utime_after_lock :: ulonglong
  utime_after_query :: ulonglong
  trans_start_time :: "my_time_t \<times> uint32"
  sql_mode :: ulonglong
  option_bits :: ulonglong
  long_query_time :: ulonglong
  server_status :: uint32
  slave_thread :: bool
  killed :: killed_state
  killed_err :: "(int \<times> string) option"
  mysys_abort :: bool
  is_slave_error :: bool
  accessed_rows_and_keys :: ulonglong
  limit_rows_examined_cnt :: ulonglong
  trans_stmt :: THD_TRANS
  trans_all :: THD_TRANS
  abort_on_warning :: bool
  count_cuted_fields :: check_fields
  security_ctx :: addr
  variables_binlog_format :: binlog_format
  current_stmt_binlog_format :: binlog_format
  in_sub_stmt :: uint32
  has_temporary_tables :: bool
  first_successful_insert_id_in_prev_stmt :: ulonglong
  first_successful_insert_id_in_prev_stmt_for_binlog :: ulonglong
  first_successful_insert_id_in_cur_stmt :: ulonglong
  stmt_depends_on_first_successful_insert_id_in_prev_stmt :: bool
  idle_write_transaction_timeout :: uint32
  idle_readonly_transaction_timeout :: uint32
  idle_transaction_timeout :: uint32
  net_wait_timeout :: uint32

section \<open>Time of a statement\<close>

definition HRTIME_RESOLUTION :: ulonglong where "HRTIME_RESOLUTION = 1000000"
definition MAX_SECOND_PART :: uint32 where "MAX_SECOND_PART = 999999"

definition hrtime_to_time :: "ulonglong \<Rightarrow> ulonglong" where
  "hrtime_to_time X = X div HRTIME_RESOLUTION"

definition hrtime_to_my_time :: "ulonglong \<Rightarrow> my_time_t" where
  "hrtime_to_my_time X = ucast (hrtime_to_time X)"

definition hrtime_sec_part :: "ulonglong \<Rightarrow> uint32" where
  "hrtime_sec_part X = ucast (X mod HRTIME_RESOLUTION)"

definition hrtime_from_time :: "my_time_t \<Rightarrow> ulonglong" where
  "hrtime_from_time X = scast X * HRTIME_RESOLUTION"

definition query_start :: "THD \<Rightarrow> my_time_t" where
  "query_start s = start_time s"

definition query_start_sec_part :: "THD \<Rightarrow> uint32 \<times> THD" where
  "query_start_sec_part s = (start_time_sec_part s, s\<lparr>query_start_sec_part_used := True\<rparr>)"

definition set_system_time :: "ulonglong \<Rightarrow> THD \<Rightarrow> THD" where
  "set_system_time hrtime s =
     (let sec = hrtime_to_my_time hrtime; sec_part = hrtime_sec_part hrtime
      in if sint sec > sint (sys_sec s) \<or> (sec = sys_sec s \<and> sec_part > sys_sec_part s) \<or> hrtime < sys_start s
         then s\<lparr>sys_sec := sec, sys_sec_part := sec_part, sys_start := hrtime\<rparr>
         else if sys_sec_part s < MAX_SECOND_PART then s\<lparr>sys_sec_part := sys_sec_part s + 1\<rparr>
         else s\<lparr>sys_sec := sys_sec s + 1, sys_sec_part := 0\<rparr>)"

definition set_start_time :: "ulonglong \<Rightarrow> THD \<Rightarrow> THD" where
  "set_start_time hrtime s =
     (if user_time s \<noteq> 0
      then s\<lparr>start_time := hrtime_to_my_time (user_time s), start_time_sec_part := hrtime_sec_part (user_time s)\<rparr>
      else let s = set_system_time hrtime s in s\<lparr>start_time := sys_sec s, start_time_sec_part := sys_sec_part s\<rparr>)"

definition set_time :: "ulonglong \<Rightarrow> ulonglong \<Rightarrow> THD \<Rightarrow> THD" where
  "set_time hrtime utime s = (set_start_time hrtime s)\<lparr>utime_after_lock := utime, start_utime := utime\<rparr>"

definition set_time_hrtime :: "ulonglong \<Rightarrow> ulonglong \<Rightarrow> ulonglong \<Rightarrow> THD \<Rightarrow> THD" where
  "set_time_hrtime hrtime utime t s = set_time hrtime utime (s\<lparr>user_time := t\<rparr>)"

definition force_set_time :: "my_time_t \<Rightarrow> uint32 \<Rightarrow> THD \<Rightarrow> THD" where
  "force_set_time t sec_part s =
     s\<lparr>sys_sec := t, start_time := t, sys_sec_part := sec_part, start_time_sec_part := sec_part\<rparr>"

definition set_time_repl :: "secure_timestamp \<Rightarrow> ulonglong \<Rightarrow> ulonglong \<Rightarrow> my_time_t \<Rightarrow> uint32 \<Rightarrow> THD \<Rightarrow> THD" where
  "set_time_repl opt_secure_timestamp hrtime utime t sec_part s =
     (if secure_code opt_secure_timestamp > secure_code (if slave_thread s then SECTIME_REPL else SECTIME_SUPER)
      then set_time hrtime utime s
      else let s = (if sec_part \<le> MAX_SECOND_PART then force_set_time t sec_part s
                    else if t \<noteq> sys_sec s then force_set_time t 0 s
                    else s\<lparr>start_time := t, sys_sec_part := sys_sec_part s + 1, start_time_sec_part := sys_sec_part s + 1\<rparr>)
           in s\<lparr>user_time := hrtime_from_time (start_time s) + ucast (start_time_sec_part s),
                utime_after_lock := utime, start_utime := utime\<rparr>)"

definition set_time_after_lock :: "ulonglong \<Rightarrow> THD \<Rightarrow> THD" where
  "set_time_after_lock utime s = s\<lparr>utime_after_lock := utime\<rparr>"

definition set_time_for_next_stage :: "ulonglong \<Rightarrow> THD \<Rightarrow> THD" where
  "set_time_for_next_stage utime s = s\<lparr>utime_after_query := utime\<rparr>"

definition SERVER_STATUS_IN_TRANS :: uint32 where "SERVER_STATUS_IN_TRANS = 1"
definition SERVER_QUERY_WAS_SLOW :: uint32 where "SERVER_QUERY_WAS_SLOW = 2048"
definition SERVER_STATUS_IN_TRANS_READONLY :: uint32 where "SERVER_STATUS_IN_TRANS_READONLY = 8192"

definition update_server_status :: "ulonglong \<Rightarrow> THD \<Rightarrow> THD" where
  "update_server_status utime s =
     (let s = set_time_for_next_stage utime s
      in if utime_after_query s \<ge> utime_after_lock s + long_query_time s
         then s\<lparr>server_status := server_status s OR SERVER_QUERY_WAS_SLOW\<rparr> else s)"

definition OPTION_BIN_LOG :: ulonglong where "OPTION_BIN_LOG = push_bit 18 1"
definition OPTION_NOT_AUTOCOMMIT :: ulonglong where "OPTION_NOT_AUTOCOMMIT = push_bit 19 1"
definition OPTION_BEGIN :: ulonglong where "OPTION_BEGIN = push_bit 20 1"
definition OPTION_BIN_TMP_LOG_OFF :: ulonglong where "OPTION_BIN_TMP_LOG_OFF = push_bit 42 1"

definition in_multi_stmt_transaction_mode :: "THD \<Rightarrow> bool" where
  "in_multi_stmt_transaction_mode s \<longleftrightarrow> option_bits s AND (OPTION_NOT_AUTOCOMMIT OR OPTION_BEGIN) \<noteq> 0"

definition in_active_multi_stmt_transaction :: "THD \<Rightarrow> bool" where
  "in_active_multi_stmt_transaction s \<longleftrightarrow> server_status s AND SERVER_STATUS_IN_TRANS \<noteq> 0"

definition transaction_time :: "THD \<Rightarrow> (my_time_t \<times> uint32) \<times> THD" where
  "transaction_time s =
     (let s = (if \<not> in_multi_stmt_transaction_mode s
               then let (usec, s) = query_start_sec_part s in s\<lparr>trans_start_time := (query_start s, usec)\<rparr> else s)
      in (trans_start_time s, s))"

section \<open>Kills\<close>

definition set_killed_no_mutex :: "bool \<Rightarrow> killed_state \<Rightarrow> int \<Rightarrow> string \<Rightarrow> THD \<Rightarrow> THD" where
  "set_killed_no_mutex oom killed_arg killed_errno_arg killed_err_msg_arg s =
     (if killed s \<le> killed_arg
      then let s = s\<lparr>killed := killed_arg\<rparr>
           in if killed_errno_arg \<noteq> 0
              then s\<lparr>killed_err := (if oom then None else Some (killed_errno_arg, take 255 killed_err_msg_arg))\<rparr> else s
      else s)"

definition set_killed :: "bool \<Rightarrow> killed_state \<Rightarrow> int \<Rightarrow> string \<Rightarrow> THD \<Rightarrow> THD" where
  "set_killed oom killed_arg killed_errno_arg killed_err_msg_arg s =
     set_killed_no_mutex oom killed_arg killed_errno_arg killed_err_msg_arg s"

definition check_limit_rows_examined :: "THD \<Rightarrow> THD" where
  "check_limit_rows_examined s =
     (let s = s\<lparr>accessed_rows_and_keys := accessed_rows_and_keys s + 1\<rparr>
      in if accessed_rows_and_keys s > limit_rows_examined_cnt s then set_killed False ABORT_QUERY 0 [] s else s)"

text \<open>\<open>reset_killed\<close> is code of another file.\<close>

definition reset_kill_query :: "(THD \<Rightarrow> THD) \<Rightarrow> THD \<Rightarrow> THD" where
  "reset_kill_query reset_killed s = (if killed s < KILL_CONNECTION then (reset_killed s)\<lparr>mysys_abort := False\<rparr> else s)"

text \<open>\<open>reset_da\<close> resets the diagnostics area.\<close>

definition clear_error :: "(THD \<Rightarrow> THD) \<Rightarrow> (THD \<Rightarrow> THD) \<Rightarrow> (THD \<Rightarrow> bool) \<Rightarrow> bool \<Rightarrow> THD \<Rightarrow> THD" where
  "clear_error reset_killed reset_da is_error clear_diagnostics s =
     (let s = (if is_error s \<or> clear_diagnostics then reset_da s else s)\<lparr>is_slave_error := False\<rparr>
      in if killed s = KILL_BAD_DATA then reset_killed s else s)"

section \<open>Transactions\<close>

definition TRX_READ_ONLY :: uchar where "TRX_READ_ONLY = 0"
definition TRX_READ_WRITE :: uchar where "TRX_READ_WRITE = 1"

definition MODIFIED_NON_TRANS_TABLE :: uint32 where "MODIFIED_NON_TRANS_TABLE = 1"
definition CREATED_TEMP_TABLE :: uint32 where "CREATED_TEMP_TABLE = 2"
definition DROPPED_TEMP_TABLE :: uint32 where "DROPPED_TEMP_TABLE = 4"
definition DID_WAIT :: uint32 where "DID_WAIT = 8"
definition DID_DDL :: uint32 where "DID_DDL = 16"
definition EXECUTED_TABLE_ADMIN_CMD :: uint32 where "EXECUTED_TABLE_ADMIN_CMD = 32"

definition trans_reset :: "THD_TRANS \<Rightarrow> THD_TRANS" where
  "trans_reset t = t\<lparr>no_2pc := False, modified_non_trans_table := False, m_unsafe_rollback_flags := 0\<rparr>"

definition trans_is_empty :: "THD_TRANS \<Rightarrow> bool" where
  "trans_is_empty t \<longleftrightarrow> ha_list t = 0"

definition mark_modified_non_trans_temp_table :: "THD_TRANS \<Rightarrow> THD_TRANS" where
  "mark_modified_non_trans_temp_table t = t\<lparr>m_unsafe_rollback_flags := m_unsafe_rollback_flags t OR MODIFIED_NON_TRANS_TABLE\<rparr>"

definition has_modified_non_trans_temp_table :: "THD_TRANS \<Rightarrow> bool" where
  "has_modified_non_trans_temp_table t \<longleftrightarrow> m_unsafe_rollback_flags t AND MODIFIED_NON_TRANS_TABLE \<noteq> 0"

definition mark_executed_table_admin_cmd :: "THD_TRANS \<Rightarrow> THD_TRANS" where
  "mark_executed_table_admin_cmd t = t\<lparr>m_unsafe_rollback_flags := m_unsafe_rollback_flags t OR EXECUTED_TABLE_ADMIN_CMD\<rparr>"

definition trans_executed_admin_cmd :: "THD_TRANS \<Rightarrow> bool" where
  "trans_executed_admin_cmd t \<longleftrightarrow> m_unsafe_rollback_flags t AND EXECUTED_TABLE_ADMIN_CMD \<noteq> 0"

definition mark_created_temp_table :: "THD_TRANS \<Rightarrow> THD_TRANS" where
  "mark_created_temp_table t = t\<lparr>m_unsafe_rollback_flags := m_unsafe_rollback_flags t OR CREATED_TEMP_TABLE\<rparr>"

definition mark_dropped_temp_table :: "THD_TRANS \<Rightarrow> THD_TRANS" where
  "mark_dropped_temp_table t = t\<lparr>m_unsafe_rollback_flags := m_unsafe_rollback_flags t OR DROPPED_TEMP_TABLE\<rparr>"

definition has_created_dropped_temp_table :: "THD_TRANS \<Rightarrow> bool" where
  "has_created_dropped_temp_table t \<longleftrightarrow> m_unsafe_rollback_flags t AND (CREATED_TEMP_TABLE OR DROPPED_TEMP_TABLE) \<noteq> 0"

definition mark_trans_did_wait :: "THD_TRANS \<Rightarrow> THD_TRANS" where
  "mark_trans_did_wait t = t\<lparr>m_unsafe_rollback_flags := m_unsafe_rollback_flags t OR DID_WAIT\<rparr>"

definition trans_did_wait :: "THD_TRANS \<Rightarrow> bool" where
  "trans_did_wait t \<longleftrightarrow> m_unsafe_rollback_flags t AND DID_WAIT \<noteq> 0"

definition mark_trans_did_ddl :: "THD_TRANS \<Rightarrow> THD_TRANS" where
  "mark_trans_did_ddl t = t\<lparr>m_unsafe_rollback_flags := m_unsafe_rollback_flags t OR DID_DDL\<rparr>"

definition trans_did_ddl :: "THD_TRANS \<Rightarrow> bool" where
  "trans_did_ddl t \<longleftrightarrow> m_unsafe_rollback_flags t AND DID_DDL \<noteq> 0"

definition merge_unsafe_rollback_flags :: "THD \<Rightarrow> THD" where
  "merge_unsafe_rollback_flags s =
     (let s = (if modified_non_trans_table (trans_stmt s)
               then s\<lparr>trans_all := (trans_all s)\<lparr>modified_non_trans_table := True\<rparr>\<rparr> else s)
      in s\<lparr>trans_all := (trans_all s)\<lparr>m_unsafe_rollback_flags := m_unsafe_rollback_flags (trans_all s) OR
           (m_unsafe_rollback_flags (trans_stmt s) AND
            (MODIFIED_NON_TRANS_TABLE OR DID_WAIT OR CREATED_TEMP_TABLE OR DROPPED_TEMP_TABLE OR DID_DDL OR
             EXECUTED_TABLE_ADMIN_CMD))\<rparr>\<rparr>)"

text \<open>The store of the engine data; a step to an object that is not in use trips an assertion and is an absent result.\<close>

type_synonym trx_store = "addr \<Rightarrow> Ha_trx_info"

definition trx_reset :: "addr \<Rightarrow> trx_store \<Rightarrow> trx_store" where
  "trx_reset a st = st(a := \<lparr>m_next = 0, m_ht = 0, m_flags = 0\<rparr>)"

definition is_started :: "trx_store \<Rightarrow> addr \<Rightarrow> bool" where
  "is_started st a \<longleftrightarrow> m_ht (st a) \<noteq> 0"

definition register_ha :: "addr \<Rightarrow> THD_TRANS \<Rightarrow> addr \<Rightarrow> trx_store \<Rightarrow> trx_store \<times> THD_TRANS" where
  "register_ha a trn ht_arg st =
     (st(a := \<lparr>m_next = ha_list trn, m_ht = ht_arg, m_flags = TRX_READ_ONLY\<rparr>), trn\<lparr>ha_list := a\<rparr>)"

definition set_trx_read_write :: "addr \<Rightarrow> trx_store \<Rightarrow> trx_store" where
  "set_trx_read_write a st = st(a := (st a)\<lparr>m_flags := m_flags (st a) OR TRX_READ_WRITE\<rparr>)"

definition info_is_trx_read_write :: "trx_store \<Rightarrow> addr \<Rightarrow> bool" where
  "info_is_trx_read_write st a \<longleftrightarrow> m_flags (st a) AND TRX_READ_WRITE \<noteq> 0"

definition coalesce_trx_with :: "addr \<Rightarrow> addr \<Rightarrow> trx_store \<Rightarrow> trx_store" where
  "coalesce_trx_with a stmt_trx st = (if info_is_trx_read_write st stmt_trx then set_trx_read_write a st else st)"

definition trx_next :: "trx_store \<Rightarrow> addr \<Rightarrow> addr option" where
  "trx_next st a = (if is_started st a then Some (m_next (st a)) else None)"

partial_function (option) any_read_write :: "trx_store \<Rightarrow> addr \<Rightarrow> bool option" where
  "any_read_write st ha_info =
     (if ha_info = 0 then Some False
      else if info_is_trx_read_write st ha_info then Some True
      else case trx_next st ha_info of None \<Rightarrow> None | Some a \<Rightarrow> any_read_write st a)"

declare any_read_write.simps [code]

definition is_trx_read_write :: "trx_store \<Rightarrow> THD_TRANS \<Rightarrow> bool option" where
  "is_trx_read_write st t = any_read_write st (ha_list t)"

definition get_net_wait_timeout :: "trx_store \<Rightarrow> THD \<Rightarrow> uint32 option" where
  "get_net_wait_timeout st s =
     (if in_active_multi_stmt_transaction s
      then case is_trx_read_write st (trans_all s) of None \<Rightarrow> None
           | Some rw \<Rightarrow>
               Some (if rw \<and> idle_write_transaction_timeout s > 0 then idle_write_transaction_timeout s
                     else if \<not> rw \<and> idle_readonly_transaction_timeout s > 0 then idle_readonly_transaction_timeout s
                     else if idle_transaction_timeout s > 0 then idle_transaction_timeout s
                     else net_wait_timeout s)
      else Some (net_wait_timeout s))"

text \<open>\<open>release\<close> releases the metadata locks of the transaction.\<close>

definition release_transactional_locks :: "(THD \<Rightarrow> THD) \<Rightarrow> THD \<Rightarrow> THD" where
  "release_transactional_locks release s =
     (if server_status s AND (SERVER_STATUS_IN_TRANS OR SERVER_STATUS_IN_TRANS_READONLY) = 0 then release s else s)"

section \<open>SQL modes\<close>

definition MODE_NO_BACKSLASH_ESCAPES :: ulonglong where "MODE_NO_BACKSLASH_ESCAPES = push_bit 20 1"
definition MODE_STRICT_TRANS_TABLES :: ulonglong where "MODE_STRICT_TRANS_TABLES = push_bit 21 1"
definition MODE_STRICT_ALL_TABLES :: ulonglong where "MODE_STRICT_ALL_TABLES = push_bit 22 1"

definition is_strict_mode :: "THD \<Rightarrow> bool" where
  "is_strict_mode s \<longleftrightarrow> sql_mode s AND (MODE_STRICT_TRANS_TABLES OR MODE_STRICT_ALL_TABLES) \<noteq> 0"

definition backslash_escapes :: "THD \<Rightarrow> bool" where
  "backslash_escapes s \<longleftrightarrow> \<not> sql_mode s AND MODE_NO_BACKSLASH_ESCAPES \<noteq> 0"

definition really_abort_on_warning :: "THD \<Rightarrow> bool" where
  "really_abort_on_warning s \<longleftrightarrow>
     abort_on_warning s \<and> (\<not> modified_non_trans_table (trans_stmt s) \<or> sql_mode s AND MODE_STRICT_ALL_TABLES \<noteq> 0)"

section \<open>Format of the binary log\<close>

definition is_current_stmt_binlog_format_row :: "THD \<Rightarrow> bool" where
  "is_current_stmt_binlog_format_row s \<longleftrightarrow> current_stmt_binlog_format s = BINLOG_FORMAT_ROW"

definition is_current_stmt_binlog_disabled :: "bool \<Rightarrow> THD \<Rightarrow> bool" where
  "is_current_stmt_binlog_disabled log_is_open s \<longleftrightarrow> option_bits s AND OPTION_BIN_LOG = 0 \<or> \<not> log_is_open"

definition wsrep_binlog_format :: "THD \<Rightarrow> binlog_format" where
  "wsrep_binlog_format s = variables_binlog_format s"

definition get_binlog_format :: "THD \<Rightarrow> binlog_format \<times> binlog_format" where
  "get_binlog_format s = (variables_binlog_format s, current_stmt_binlog_format s)"

definition set_binlog_format :: "binlog_format \<Rightarrow> binlog_format \<Rightarrow> THD \<Rightarrow> THD" where
  "set_binlog_format format current_format s =
     s\<lparr>variables_binlog_format := format, current_stmt_binlog_format := current_format\<rparr>"

definition set_binlog_format_stmt :: "THD \<Rightarrow> THD" where
  "set_binlog_format_stmt s = s\<lparr>variables_binlog_format := BINLOG_FORMAT_STMT, current_stmt_binlog_format := BINLOG_FORMAT_STMT\<rparr>"

definition set_current_stmt_binlog_format :: "binlog_format \<Rightarrow> THD \<Rightarrow> THD" where
  "set_current_stmt_binlog_format format s = s\<lparr>current_stmt_binlog_format := format\<rparr>"

definition set_current_stmt_binlog_format_row :: "THD \<Rightarrow> THD" where
  "set_current_stmt_binlog_format_row s = s\<lparr>current_stmt_binlog_format := BINLOG_FORMAT_ROW\<rparr>"

definition set_current_stmt_binlog_format_row_if_mixed :: "THD \<Rightarrow> THD" where
  "set_current_stmt_binlog_format_row_if_mixed s =
     (if wsrep_binlog_format s = BINLOG_FORMAT_MIXED \<and> in_sub_stmt s = 0 then set_current_stmt_binlog_format_row s else s)"

definition set_current_stmt_binlog_format_stmt :: "THD \<Rightarrow> binlog_format \<times> THD" where
  "set_current_stmt_binlog_format_stmt s =
     (let orig_format = current_stmt_binlog_format s in (orig_format, s\<lparr>current_stmt_binlog_format := BINLOG_FORMAT_STMT\<rparr>))"

definition restore_stmt_binlog_format :: "binlog_format \<Rightarrow> THD \<Rightarrow> THD" where
  "restore_stmt_binlog_format format s = s\<lparr>current_stmt_binlog_format := format\<rparr>"

definition reset_current_stmt_binlog_format_row :: "THD \<Rightarrow> THD" where
  "reset_current_stmt_binlog_format_row s =
     (if in_sub_stmt s = 0
      then if wsrep_binlog_format s = BINLOG_FORMAT_ROW then set_current_stmt_binlog_format_row s
           else if \<not> has_temporary_tables s then snd (set_current_stmt_binlog_format_stmt s) else s
      else s)"

section \<open>Generated keys\<close>

definition record_first_successful_insert_id_in_cur_stmt :: "ulonglong \<Rightarrow> THD \<Rightarrow> THD" where
  "record_first_successful_insert_id_in_cur_stmt id_arg s =
     (if first_successful_insert_id_in_cur_stmt s = 0 then s\<lparr>first_successful_insert_id_in_cur_stmt := id_arg\<rparr> else s)"

definition read_first_successful_insert_id_in_prev_stmt :: "THD \<Rightarrow> ulonglong \<times> THD" where
  "read_first_successful_insert_id_in_prev_stmt s =
     (let s = (if \<not> stmt_depends_on_first_successful_insert_id_in_prev_stmt s
               then s\<lparr>first_successful_insert_id_in_prev_stmt_for_binlog := first_successful_insert_id_in_prev_stmt s,
                      stmt_depends_on_first_successful_insert_id_in_prev_stmt := True\<rparr> else s)
      in (first_successful_insert_id_in_prev_stmt s, s))"

section \<open>Changes for the time of a scope\<close>

text \<open>For each class, what the constructor saves and does, and what the destructor does with the saved value.\<close>

definition Sql_mode_save :: "THD \<Rightarrow> ulonglong" where
  "Sql_mode_save s = sql_mode s"

definition Sql_mode_save_end :: "ulonglong \<Rightarrow> THD \<Rightarrow> THD" where
  "Sql_mode_save_end old_mode s = s\<lparr>sql_mode := old_mode\<rparr>"

definition Sql_mode_instant_set :: "ulonglong \<Rightarrow> THD \<Rightarrow> ulonglong \<times> THD" where
  "Sql_mode_instant_set temporary_value s = (Sql_mode_save s, s\<lparr>sql_mode := temporary_value\<rparr>)"

definition Sql_mode_instant_remove :: "ulonglong \<Rightarrow> THD \<Rightarrow> ulonglong \<times> THD" where
  "Sql_mode_instant_remove temporary_remove_flags s =
     (Sql_mode_save s, s\<lparr>sql_mode := sql_mode s AND NOT temporary_remove_flags\<rparr>)"

definition Switch_to_definer_security_ctx :: "addr \<Rightarrow> THD \<Rightarrow> addr \<times> THD" where
  "Switch_to_definer_security_ctx table_security_ctx s =
     (security_ctx s, if table_security_ctx \<noteq> 0 then s\<lparr>security_ctx := table_security_ctx\<rparr> else s)"

definition Switch_to_definer_security_ctx_end :: "addr \<Rightarrow> THD \<Rightarrow> THD" where
  "Switch_to_definer_security_ctx_end m_sctx s = s\<lparr>security_ctx := m_sctx\<rparr>"

definition Abort_on_warning_instant_set :: "bool \<Rightarrow> THD \<Rightarrow> bool \<times> THD" where
  "Abort_on_warning_instant_set temporary_value s = (abort_on_warning s, s\<lparr>abort_on_warning := temporary_value\<rparr>)"

definition Abort_on_warning_instant_set_end :: "bool \<Rightarrow> THD \<Rightarrow> THD" where
  "Abort_on_warning_instant_set_end save s = s\<lparr>abort_on_warning := save\<rparr>"

definition Check_level_instant_set :: "check_fields \<Rightarrow> THD \<Rightarrow> check_fields \<times> THD" where
  "Check_level_instant_set temporary_value s = (count_cuted_fields s, s\<lparr>count_cuted_fields := temporary_value\<rparr>)"

definition Check_level_instant_set_end :: "check_fields \<Rightarrow> THD \<Rightarrow> THD" where
  "Check_level_instant_set_end level s = s\<lparr>count_cuted_fields := level\<rparr>"

record Sp_eval_expr_state =
  m_count_cuted_fields :: check_fields
  m_abort_on_warning :: bool
  m_stmt_modified_non_trans_table :: bool

definition eval_start :: "THD \<Rightarrow> THD" where
  "eval_start s = s\<lparr>count_cuted_fields := CHECK_FIELD_ERROR_FOR_NULL, abort_on_warning := is_strict_mode s,
     trans_stmt := (trans_stmt s)\<lparr>modified_non_trans_table := False\<rparr>\<rparr>"

definition eval_stop :: "Sp_eval_expr_state \<Rightarrow> THD \<Rightarrow> THD" where
  "eval_stop e s = s\<lparr>count_cuted_fields := m_count_cuted_fields e, abort_on_warning := m_abort_on_warning e,
     trans_stmt := (trans_stmt s)\<lparr>modified_non_trans_table := m_stmt_modified_non_trans_table e\<rparr>\<rparr>"

definition mk_Sp_eval_expr_state :: "THD \<Rightarrow> Sp_eval_expr_state \<times> THD" where
  "mk_Sp_eval_expr_state s =
     (\<lparr>m_count_cuted_fields = count_cuted_fields s, m_abort_on_warning = abort_on_warning s,
       m_stmt_modified_non_trans_table = modified_non_trans_table (trans_stmt s)\<rparr>, eval_start s)"

definition mk_ScopedStatementReplication :: "THD \<Rightarrow> binlog_format \<times> THD" where
  "mk_ScopedStatementReplication s = set_current_stmt_binlog_format_stmt s"

definition ScopedStatementReplication_end :: "binlog_format \<Rightarrow> THD \<Rightarrow> THD" where
  "ScopedStatementReplication_end saved_binlog_format s = restore_stmt_binlog_format saved_binlog_format s"

definition tmp_disable_binlog :: "THD \<Rightarrow> ulonglong \<times> THD" where
  "tmp_disable_binlog s =
     (option_bits s, s\<lparr>option_bits := (option_bits s AND NOT OPTION_BIN_LOG) OR OPTION_BIN_TMP_LOG_OFF\<rparr>)"

definition reenable_binlog :: "ulonglong \<Rightarrow> THD \<Rightarrow> THD" where
  "reenable_binlog save_options s = s\<lparr>option_bits := save_options\<rparr>"

section \<open>Time moves forward\<close>

definition sys_usecs :: "THD \<Rightarrow> int" where
  "sys_usecs s = sint (sys_sec s) * 1000000 + uint (sys_sec_part s)"

definition start_usecs :: "THD \<Rightarrow> int" where
  "start_usecs s = sint (start_time s) * 1000000 + uint (start_time_sec_part s)"

definition time_ok :: "THD \<Rightarrow> bool" where
  "time_ok s \<longleftrightarrow> sys_sec_part s \<le> MAX_SECOND_PART"

lemma hrtime_parts:
  assumes "uint h < 2 ^ 31 * 1000000"
  shows "sint (hrtime_to_my_time h) = uint h div 1000000" and "uint (hrtime_sec_part h) = uint h mod 1000000"
proof -
  have d: "uint (h div 1000000) = uint h div 1000000" "uint (h mod 1000000) = uint h mod 1000000"
    by (simp_all add: uint_div uint_mod)
  have b: "uint h div 1000000 < 2 ^ 31" "0 \<le> uint h div 1000000" "uint h mod 1000000 < 1000000" "0 \<le> uint h mod 1000000"
    using assms uint_ge_0 [of h] by (simp_all add: pos_imp_zdiv_nonneg_iff)
  have m: "uint h div 1000000 mod 2 ^ 32 = uint h div 1000000" "uint h mod 1000000 mod 2 ^ 32 = uint h mod 1000000"
    using b by (auto intro!: mod_pos_pos_trivial)
  have u: "uint (hrtime_to_my_time h) = uint h div 1000000"
    using m(1) by (simp add: hrtime_to_my_time_def hrtime_to_time_def HRTIME_RESOLUTION_def unsigned_ucast_eq d take_bit_eq_mod)
  then have "unat (hrtime_to_my_time h) < 2 ^ 31" using b by (simp add: unat_eq_nat_uint nat_less_iff)
  then show "sint (hrtime_to_my_time h) = uint h div 1000000" using u by (simp add: sint_small_32)
  show "uint (hrtime_sec_part h) = uint h mod 1000000"
    using m(2) by (simp add: hrtime_sec_part_def HRTIME_RESOLUTION_def unsigned_ucast_eq d take_bit_eq_mod)
qed

lemma second_part_bound: "(w :: uint32) \<le> MAX_SECOND_PART \<longleftrightarrow> uint w < 1000000"
  by (simp add: MAX_SECOND_PART_def word_le_def) linarith

lemma second_part_less: "(w :: uint32) < MAX_SECOND_PART \<longleftrightarrow> uint w < 999999"
  by (simp add: MAX_SECOND_PART_def word_less_def)

lemma sint_add_one_32: "sint (w :: 32 word) < 2 ^ 31 - 1 \<Longrightarrow> sint (w + 1) = sint w + 1"
  using sint_greater_eq [of w]
  by (simp add: sint_word_ariths signed_take_bit_int_eq_self)

lemma usec_order:
  "0 \<le> r \<Longrightarrow> r < 1000000 \<Longrightarrow> 0 \<le> q \<Longrightarrow> q < 1000000 \<Longrightarrow>
    (d > e \<or> (d = e \<and> r > q)) \<longleftrightarrow> d * 1000000 + r > e * 1000000 + (q :: int)"
  by arith

text \<open>The system time of the session takes over a clock that has advanced, and otherwise advances itself by a microsecond;
  a clock that was set back before the last time taken over is followed.\<close>

lemma set_system_time_usecs:
  assumes ok: "time_ok s" and h: "uint h < 2 ^ 31 * 1000000" and b: "sys_usecs s < (2 ^ 31 - 1) * 1000000"
  shows "sys_usecs (set_system_time h s) = (if h < sys_start s then uint h else max (uint h) (sys_usecs s + 1))"
    and "time_ok (set_system_time h s)"
    and "sys_start (set_system_time h s) = (if h < sys_start s \<or> sys_usecs s < uint h then h else sys_start s)"
proof -
  note p = hrtime_parts [OF h]
  have parts: "uint (sys_sec_part s) < 1000000" "0 \<le> uint (sys_sec_part s)" using ok by (simp_all add: time_ok_def second_part_bound)
  have taken: "sint (hrtime_to_my_time h) > sint (sys_sec s) \<or> (hrtime_to_my_time h = sys_sec s \<and> hrtime_sec_part h > sys_sec_part s)
      \<longleftrightarrow> uint h > sys_usecs s"
  proof -
    have "hrtime_to_my_time h = sys_sec s \<longleftrightarrow> uint h div 1000000 = sint (sys_sec s)" using p(1) by (metis signed_word_eqI)
    moreover have "hrtime_sec_part h > sys_sec_part s \<longleftrightarrow> uint h mod 1000000 > uint (sys_sec_part s)" using p(2) by (simp add: word_less_def)
    ultimately show ?thesis
      using usec_order [of "uint h mod 1000000" "uint (sys_sec_part s)" "sint (sys_sec s)" "uint h div 1000000"] parts p(1)
      by (simp add: sys_usecs_def)
  qed
  have next_sec: "sint (sys_sec s + 1) = sint (sys_sec s) + 1"
  proof (rule sint_add_one_32)
    have "sint (sys_sec s) * 1000000 + uint (sys_sec_part s) < 2147483647000000" using b by (simp add: sys_usecs_def)
    then have "sint (sys_sec s) < 2147483647" using parts by linarith
    then show "sint (sys_sec s) < 2 ^ 31 - 1" by simp
  qed
  have next_part: "uint (sys_sec_part s + 1) = uint (sys_sec_part s) + 1"
    using parts by (simp add: uint_word_ariths take_bit_eq_mod)
  show "sys_usecs (set_system_time h s) = (if h < sys_start s then uint h else max (uint h) (sys_usecs s + 1))"
  proof (cases "uint h > sys_usecs s \<or> h < sys_start s")
    case True
    then have "set_system_time h s = s\<lparr>sys_sec := hrtime_to_my_time h, sys_sec_part := hrtime_sec_part h, sys_start := h\<rparr>"
      using taken by (auto simp: set_system_time_def Let_def)
    then show ?thesis using True p by (auto simp: sys_usecs_def)
  next
    case False
    then have "set_system_time h s = (if sys_sec_part s < MAX_SECOND_PART then s\<lparr>sys_sec_part := sys_sec_part s + 1\<rparr>
         else s\<lparr>sys_sec := sys_sec s + 1, sys_sec_part := 0\<rparr>)"
      using taken by (auto simp: set_system_time_def Let_def)
    moreover have "\<not> sys_sec_part s < MAX_SECOND_PART \<longleftrightarrow> uint (sys_sec_part s) = 999999"
      using parts by (simp add: second_part_less) linarith
    ultimately show ?thesis using False next_sec next_part by (auto simp: sys_usecs_def)
  qed
  show "time_ok (set_system_time h s)"
    using ok p(2) next_part by (auto simp: set_system_time_def time_ok_def Let_def second_part_bound second_part_less)
  show "sys_start (set_system_time h s) = (if h < sys_start s \<or> sys_usecs s < uint h then h else sys_start s)"
    using taken by (auto simp: set_system_time_def Let_def)
qed

lemma set_start_time_system:
  "user_time s = 0 \<Longrightarrow> set_start_time h s = (set_system_time h s)\<lparr>start_time := sys_sec (set_system_time h s),
     start_time_sec_part := sys_sec_part (set_system_time h s)\<rparr>"
  by (simp add: set_start_time_def Let_def)

lemma user_time_system [simp]: "user_time (set_system_time h s) = user_time s"
  by (simp add: set_system_time_def Let_def)

text \<open>The times at which a sequence of statements starts, given what the clock shows at each.\<close>

fun statement_times :: "ulonglong list \<Rightarrow> THD \<Rightarrow> int list" where
  "statement_times [] s = []"
| "statement_times (h # hs) s = (let s' = set_start_time h s in start_usecs s' # statement_times hs s')"

text \<open>What the times are, in microseconds: a clock that shows more than the last time, or less than it showed when it was last
  taken over, is taken over; otherwise the time is one microsecond after the last one.\<close>

fun clock_times :: "int \<Rightarrow> int \<Rightarrow> int list \<Rightarrow> int list" where
  "clock_times taken prev [] = []"
| "clock_times taken prev (h # hs) =
     (if h < taken \<or> prev < h then h # clock_times h h hs else (prev + 1) # clock_times taken (prev + 1) hs)"

lemma clock_times_length [simp]: "length (clock_times taken prev hs) = length hs"
  by (induction hs arbitrary: taken prev) auto

lemma clock_times_not_before: "list_all2 (\<le>) hs (clock_times taken prev hs)"
  by (induction hs arbitrary: taken prev) auto

text \<open>A time that is not after the one before it shows that the clock was set back.\<close>

lemma clock_times_back:
  "i < length hs \<Longrightarrow> (prev # clock_times taken prev hs) ! Suc i \<le> (prev # clock_times taken prev hs) ! i \<Longrightarrow>
   hs ! i < taken \<or> (\<exists>j < i. hs ! i < hs ! j)"
proof (induction hs arbitrary: taken prev i)
  case (Cons h hs)
  show ?case
  proof (cases i)
    case 0
    then show ?thesis using Cons.prems by (auto split: if_splits)
  next
    case (Suc k)
    define taken' prev' where "taken' = (if h < taken \<or> prev < h then h else taken)"
      and "prev' = (if h < taken \<or> prev < h then h else prev + 1)"
    have "hs ! k < taken' \<or> (\<exists>j < k. hs ! k < hs ! j)"
      using Cons.IH [of k prev' taken'] Cons.prems Suc by (auto simp: taken'_def prev'_def split: if_splits)
    then show ?thesis
    proof
      assume "hs ! k < taken'"
      then have "hs ! k < taken \<or> hs ! k < h" by (auto simp: taken'_def split: if_splits)
      then show ?thesis using Suc by (metis nth_Cons_0 nth_Cons_Suc zero_less_Suc)
    next
      assume "\<exists>j < k. hs ! k < hs ! j"
      then show ?thesis using Suc by (metis Suc_less_eq nth_Cons_Suc)
    qed
  qed
qed simp

lemma statement_times_clock:
  assumes "time_ok s" and "user_time s = 0" and "sys_start s = start0" and "\<And>h. h \<in> set hs \<Longrightarrow> uint h \<le> B"
    and "sys_usecs s \<le> B" and "B + int (length hs) < (2 ^ 31 - 1) * 1000000"
  shows "statement_times hs s = clock_times (uint start0) (sys_usecs s) (map uint hs) \<and> time_ok (fold set_start_time hs s)"
  using assms
proof (induction hs arbitrary: s B start0)
  case (Cons h hs)
  define t where "t = set_start_time h s"
  have t: "t = (set_system_time h s)\<lparr>start_time := sys_sec (set_system_time h s), start_time_sec_part := sys_sec_part (set_system_time h s)\<rparr>"
    using Cons.prems(2) by (simp add: t_def set_start_time_system)
  have b: "uint h \<le> B" "B + int (length hs) + 1 < 2147483647000000" using Cons.prems(4,6) by (auto simp: add.assoc)
  have "uint h < 2 ^ 31 * 1000000" "sys_usecs s < (2 ^ 31 - 1) * 1000000" using b Cons.prems(5) by simp_all
  note u = set_system_time_usecs [OF Cons.prems(1) this]
  have st: "start_usecs t = sys_usecs t" "sys_usecs t = sys_usecs (set_system_time h s)" "time_ok t" "user_time t = 0"
    "sys_start t = sys_start (set_system_time h s)"
    using Cons.prems(2) u(2) by (simp_all add: t start_usecs_def sys_usecs_def time_ok_def)
  have m: "sys_usecs t = (if uint h < uint start0 \<or> sys_usecs s < uint h then uint h else sys_usecs s + 1)"
    using u(1) Cons.prems(3) by (auto simp: st word_less_def)
  have n: "uint (sys_start t) = (if uint h < uint start0 \<or> sys_usecs s < uint h then uint h else uint start0)"
    using u(3) Cons.prems(3) by (auto simp: st word_less_def)
  have "statement_times hs t = clock_times (uint (sys_start t)) (sys_usecs t) (map uint hs) \<and> time_ok (fold set_start_time hs t)"
  proof (rule Cons.IH [where B = "B + 1"])
    show "uint x \<le> B + 1" if "x \<in> set hs" for x using Cons.prems(4) [of x] that by simp
    show "sys_usecs t \<le> B + 1" using m b(1) Cons.prems(5) by (auto split: if_splits)
  qed (use st b in simp_all)
  then show ?case using m n st(1) by (auto simp: t_def [symmetric] Let_def)
qed simp

lemma statement_times_user:
  assumes "user_time s \<noteq> 0" and "uint (user_time s) < 2 ^ 31 * 1000000"
  shows "statement_times hs s = replicate (length hs) (uint (user_time s)) \<and> sys_usecs (fold set_start_time hs s) = sys_usecs s"
  using assms
proof (induction hs arbitrary: s)
  case (Cons h hs)
  define t where "t = set_start_time h s"
  have t: "t = s\<lparr>start_time := hrtime_to_my_time (user_time s), start_time_sec_part := hrtime_sec_part (user_time s)\<rparr>"
    using Cons.prems(1) by (simp add: t_def set_start_time_def)
  have "start_usecs t = uint (user_time s)" using hrtime_parts [OF Cons.prems(2)] by (simp add: t start_usecs_def)
  moreover have "user_time t = user_time s" "sys_usecs t = sys_usecs s" by (simp_all add: t sys_usecs_def)
  ultimately show ?case using Cons.IH [of t] Cons.prems by (simp add: t_def [symmetric] Let_def)
qed simp

text \<open>C10. The start times of the statements of a session, for whatever the clock shows, up to the year 2038 of the type
  \<^verbatim>\<open>my_time_t\<close> of 32 bits. When the user has set a time, every statement starts at it. Otherwise the times are exactly
  those of \<open>clock_times\<close>: the clock is followed when it advances and when it is set back, and otherwise a microsecond is
  added. So no statement starts before the clock, every statement starts after the one before it unless the clock was set
  back below an earlier reading, and the microseconds stay below a million.\<close>

theorem statement_times_follow_clock:
  assumes "time_ok s" and "\<And>h. h \<in> set hs \<Longrightarrow> uint h \<le> B" and "sys_usecs s \<le> B"
    and "B + int (length hs) < (2 ^ 31 - 1) * 1000000" and "uint (user_time s) < 2 ^ 31 * 1000000"
  shows "if user_time s \<noteq> 0 then statement_times hs s = replicate (length hs) (uint (user_time s))
    else statement_times hs s = clock_times (uint (sys_start s)) (sys_usecs s) (map uint hs)
      \<and> list_all2 (\<lambda>h t. uint h \<le> t) hs (statement_times hs s)
      \<and> (\<forall>i < length hs. (sys_usecs s # statement_times hs s) ! Suc i \<le> (sys_usecs s # statement_times hs s) ! i \<longrightarrow>
            hs ! i < sys_start s \<or> (\<exists>j < i. hs ! i < hs ! j))
      \<and> time_ok (fold set_start_time hs s)"
proof (cases "user_time s = 0")
  case True
  note c = statement_times_clock [OF assms(1) True refl assms(2-4)]
  have "list_all2 (\<lambda>h t. uint h \<le> t) hs (statement_times hs s)"
    using clock_times_not_before [of "map uint hs"] c by (simp add: list_all2_map1)
  moreover have "hs ! i < sys_start s \<or> (\<exists>j < i. hs ! i < hs ! j)"
    if "i < length hs" "(sys_usecs s # statement_times hs s) ! Suc i \<le> (sys_usecs s # statement_times hs s) ! i" for i
    using clock_times_back [of i "map uint hs" "sys_usecs s" "uint (sys_start s)"] that c by (auto simp: word_less_def)
  ultimately show ?thesis using True c by auto
qed (use statement_times_user assms(5) in auto)

lemma hrtime_from_parts:
  assumes "0 \<le> sint t" and "p \<le> MAX_SECOND_PART"
  shows "uint (hrtime_from_time t + ucast p) = sint t * 1000000 + uint p"
proof -
  have t: "sint t < 2 ^ 31" using sint_less [of t] by simp
  have p: "uint p < 1000000" using assms(2) by (simp add: second_part_bound)
  have "scast t = (word_of_int (sint t) :: ulonglong)" "ucast p = (word_of_int (uint p) :: ulonglong)" by simp_all
  then have "hrtime_from_time t + ucast p = word_of_int (sint t * 1000000 + uint p)"
    unfolding hrtime_from_time_def HRTIME_RESOLUTION_def by (simp only: of_int_add of_int_mult of_int_numeral)
  moreover have "uint (word_of_int x :: ulonglong) = x" if "0 \<le> x" "x < 2 ^ 64" for x
    using that by (simp add: uint_word_of_int)
  moreover have "sint t * 1000000 + uint p < 2 ^ 64" "0 \<le> sint t * 1000000 + uint p" using t p assms(1) by simp_all
  ultimately show ?thesis by (simp only:)
qed

text \<open>The time of a replicated event that carries its microseconds is the time of the statement, and stays it for the
  statements that follow until another time is set: it is written to the time of the user, from which it is read back.\<close>

theorem replicated_time_kept:
  fixes h u h' u' :: ulonglong
  assumes "secure_code opt \<le> secure_code (if slave_thread s then SECTIME_REPL else SECTIME_SUPER)"
    and "0 \<le> sint t" and "p \<le> MAX_SECOND_PART" and "t \<noteq> 0 \<or> p \<noteq> 0"
  defines "s' \<equiv> set_time_repl opt h u t p s"
  shows "start_time s' = t \<and> start_time_sec_part s' = p \<and> sys_usecs s' = start_usecs s' \<and> time_ok s'
    \<and> (let s'' = set_time h' u' s' in start_time s'' = t \<and> start_time_sec_part s'' = p \<and> sys_usecs s'' = sys_usecs s')"
proof -
  have ut: "user_time s' = hrtime_from_time t + ucast p"
    and st: "start_time s' = t" "start_time_sec_part s' = p" "sys_sec s' = t" "sys_sec_part s' = p"
    using assms(1,3) by (simp_all add: s'_def set_time_repl_def force_set_time_def Let_def)
  have p: "uint p < 1000000" using assms(3) by (simp add: second_part_bound)
  have v: "uint (user_time s') = sint t * 1000000 + uint p" unfolding ut by (rule hrtime_from_parts [OF assms(2,3)])
  have "user_time s' \<noteq> 0"
  proof
    assume "user_time s' = 0"
    then have "sint t * 1000000 + uint p = 0" using v by simp
    then have "sint t = 0" "uint p = 0" using assms(2) uint_ge_0 [of p] by linarith+
    then show False using assms(4) by (metis signed_0 signed_word_eqI uint_0_iff)
  qed
  moreover have "uint (user_time s') < 2 ^ 31 * 1000000" using v p sint_less [of t] by simp
  note hrtime_parts [OF this]
  then have "sint (hrtime_to_my_time (user_time s')) = sint t" "uint (hrtime_sec_part (user_time s')) = uint p" using v p by simp_all
  then have "hrtime_to_my_time (user_time s') = t \<and> hrtime_sec_part (user_time s') = p"
    by (metis signed_word_eqI word_uint_eqI)
  ultimately show ?thesis
    using st assms(3) by (simp add: set_time_def set_start_time_def Let_def sys_usecs_def start_usecs_def time_ok_def)
qed

text \<open>An event without microseconds in the second of the session counts the microseconds up with no bound: after
  999999 the session has a million microseconds.\<close>

lemma missing_microseconds_overflow:
  assumes "secure_code opt \<le> secure_code (if slave_thread s then SECTIME_REPL else SECTIME_SUPER)"
    and "\<not> p \<le> MAX_SECOND_PART" and "sys_sec_part s = MAX_SECOND_PART"
  shows "start_time_sec_part (set_time_repl opt h u (sys_sec s) p s) = 1000000 \<and> \<not> time_ok (set_time_repl opt h u (sys_sec s) p s)"
  using assms by (simp add: set_time_repl_def Let_def time_ok_def MAX_SECOND_PART_def)

text \<open>The slow-query mark: with a timer that does not run backwards and limits that do not overflow, a statement is marked
  exactly if it took at least the limit after it got its locks.\<close>

lemma slow_query_mark:
  assumes "uint (utime_after_lock s) + uint (long_query_time s) < 2 ^ 64"
  shows "server_status (update_server_status now s) =
    (if uint now - uint (utime_after_lock s) \<ge> uint (long_query_time s) then server_status s OR SERVER_QUERY_WAS_SLOW
     else server_status s)"
  using assms by (auto simp: update_server_status_def set_time_for_next_stage_def Let_def word_le_def uint_word_ariths)

section \<open>Kills are never weakened\<close>

definition apply_kills :: "(killed_state \<times> int \<times> string) list \<Rightarrow> THD \<Rightarrow> THD" where
  "apply_kills ks s = fold (\<lambda>(k, errno, msg). set_killed False k errno msg) ks s"

lemma killed_set_killed: "killed (set_killed oom k e m s) = max (killed s) k"
  by (simp add: set_killed_def set_killed_no_mutex_def Let_def max_def)

lemma killed_check_limit: "killed (check_limit_rows_examined s) =
    (if accessed_rows_and_keys s + 1 > limit_rows_examined_cnt s then max (killed s) ABORT_QUERY else killed s)"
  by (simp add: check_limit_rows_examined_def Let_def killed_set_killed)

text \<open>C20. However the kills of a session are interleaved, its state is the strongest of them, and the error that is reported
  is that of the last kill with an error number among those that were not weaker than all before. A kill of the
  connection survives the reset at the end of a query and the clearing of errors; a weaker one does not keep the reset from
  being called.\<close>

theorem kills_never_weakened:
  "killed (apply_kills ks s) = fold max (map fst ks) (killed s)
   \<and> (\<forall>k \<in> set (map fst ks). k \<le> killed (apply_kills ks s)) \<and> killed s \<le> killed (apply_kills ks s)
   \<and> killed_err (apply_kills (ks @ [(k, errno, msg)]) s) =
       (if killed (apply_kills ks s) \<le> k \<and> errno \<noteq> 0 then Some (errno, take 255 msg) else killed_err (apply_kills ks s))
   \<and> reset_kill_query reset (apply_kills ks s) =
       (if fold max (map fst ks) (killed s) \<ge> KILL_CONNECTION then apply_kills ks s
        else (reset (apply_kills ks s))\<lparr>mysys_abort := False\<rparr>)"
proof -
  have k: "killed (apply_kills ks s) = fold max (map fst ks) (killed s)" for ks s
    by (induction ks arbitrary: s) (auto simp: apply_kills_def killed_set_killed max.commute)
  have f: "x \<in> set xs \<or> x \<le> a \<Longrightarrow> x \<le> fold max xs a" for x a :: killed_state and xs
  proof (induction xs arbitrary: a)
    case (Cons y ys)
    have "x \<in> set ys \<or> x \<le> max y a" using Cons.prems by (auto simp: le_max_iff_disj)
    then show ?case using Cons.IH [of "max y a"] by simp
  qed simp
  have "killed_err (apply_kills (ks @ [(k, errno, msg)]) s) =
       (if killed (apply_kills ks s) \<le> k \<and> errno \<noteq> 0 then Some (errno, take 255 msg) else killed_err (apply_kills ks s))"
    by (simp add: apply_kills_def set_killed_def set_killed_no_mutex_def Let_def)
  then show ?thesis using f by (simp add: k reset_kill_query_def not_less)
qed

lemma clear_error_keeps_connection_kill:
  assumes "killed (reset_da s) = killed s" and "killed s \<noteq> KILL_BAD_DATA"
  shows "killed (clear_error reset_killed reset_da is_error diag s) = killed s"
  using assms by (simp add: clear_error_def Let_def)

text \<open>The limit of examined rows: a statement is aborted by the first row above the limit and not before, unless a
  stronger kill is already there.\<close>

theorem rows_examined_limit:
  assumes "accessed_rows_and_keys s = 0" and "n < 2 ^ 64"
  shows "killed ((check_limit_rows_examined ^^ n) s) =
      (if unat (limit_rows_examined_cnt s) < n then max (killed s) ABORT_QUERY else killed s)"
proof -
  have "killed ((check_limit_rows_examined ^^ n) s) =
        (if unat (limit_rows_examined_cnt s) < n then max (killed s) ABORT_QUERY else killed s)
      \<and> accessed_rows_and_keys ((check_limit_rows_examined ^^ n) s) = of_nat n
      \<and> limit_rows_examined_cnt ((check_limit_rows_examined ^^ n) s) = limit_rows_examined_cnt s"
    using assms(2)
  proof (induction n)
    case (Suc n)
    define t where "t = (check_limit_rows_examined ^^ n) s"
    have "limit_rows_examined_cnt s < of_nat (Suc n) \<longleftrightarrow> unat (limit_rows_examined_cnt s) < Suc n"
      using Suc.prems by (simp add: word_less_nat_alt unat_of_nat del: of_nat_Suc)
    then have "limit_rows_examined_cnt s < of_nat n + 1 \<longleftrightarrow> unat (limit_rows_examined_cnt s) < Suc n"
      by (simp add: add.commute)
    then have "killed (check_limit_rows_examined t) =
        (if unat (limit_rows_examined_cnt s) < Suc n then max (killed t) ABORT_QUERY else killed t)"
      using Suc t_def by (simp add: killed_check_limit)
    moreover have "accessed_rows_and_keys (check_limit_rows_examined t) = accessed_rows_and_keys t + 1"
      "limit_rows_examined_cnt (check_limit_rows_examined t) = limit_rows_examined_cnt t"
      by (simp_all add: check_limit_rows_examined_def set_killed_def set_killed_no_mutex_def Let_def)
    ultimately show ?case using Suc t_def by (auto simp: max.assoc)
  qed (use assms in simp)
  then show ?thesis by blast
qed

section \<open>Transactions\<close>

fun ha_chain :: "trx_store \<Rightarrow> addr \<Rightarrow> addr list \<Rightarrow> bool" where
  "ha_chain st p [] \<longleftrightarrow> p = 0"
| "ha_chain st p (x # xs) \<longleftrightarrow> p = x \<and> x \<noteq> 0 \<and> is_started st x \<and> ha_chain st (m_next (st x)) xs"

lemma ha_chain_cong: "\<forall>x \<in> set xs. st' x = st x \<Longrightarrow> ha_chain st' p xs = ha_chain st p xs"
  by (induction xs arbitrary: p) (auto simp: is_started_def)

lemma any_read_write_chain: "ha_chain st p xs \<Longrightarrow> any_read_write st p = Some (\<exists>x \<in> set xs. info_is_trx_read_write st x)"
proof (induction xs arbitrary: p)
  case Nil
  then show ?case by (subst any_read_write.simps) simp
next
  case (Cons x xs)
  then show ?case by (subst any_read_write.simps) (auto simp: trx_next_def)
qed

text \<open>The list of the engines of a transaction: the question whether the transaction writes is answered, and answered with
  yes exactly if one of the engines is marked. An engine that is registered becomes the first of the list, is not marked,
  and changes neither the others nor the answer; merging a statement into the transaction adds what the statement did.\<close>

theorem transaction_engines:
  assumes "ha_chain st (ha_list t) xs" and "a \<notin> set xs" and "a \<noteq> 0" and "ht \<noteq> 0"
  shows "is_trx_read_write st t = Some (\<exists>x \<in> set xs. info_is_trx_read_write st x)
    \<and> (let (st', t') = register_ha a t ht st
       in ha_chain st' (ha_list t') (a # xs) \<and> is_trx_read_write st' t' = is_trx_read_write st t
          \<and> is_trx_read_write (set_trx_read_write a st') t' = Some True
          \<and> is_trx_read_write (coalesce_trx_with a x st') t' =
              Some (info_is_trx_read_write st' x \<or> (\<exists>y \<in> set xs. info_is_trx_read_write st y)))"
proof -
  define st' where "st' = st(a := \<lparr>m_next = ha_list t, m_ht = ht, m_flags = TRX_READ_ONLY\<rparr>)"
  have c: "ha_chain st' a (a # xs)"
    using assms ha_chain_cong [of xs st' st "ha_list t"] by (auto simp: st'_def is_started_def)
  have rw: "info_is_trx_read_write st' y = info_is_trx_read_write st y" if "y \<in> set xs" for y
    using that assms(2) by (auto simp: st'_def info_is_trx_read_write_def)
  have na: "\<not> info_is_trx_read_write st' a" by (simp add: st'_def info_is_trx_read_write_def TRX_READ_ONLY_def)
  define st2 where "st2 = set_trx_read_write a st'"
  have c2: "ha_chain st2 a (a # xs)"
    using c assms(2) ha_chain_cong [of xs st2 st' "m_next (st' a)"] by (auto simp: st2_def set_trx_read_write_def is_started_def)
  have a2: "info_is_trx_read_write st2 a"
  proof -
    have "bit ((w OR 1) AND (1 :: uchar)) 0" for w by (simp add: bit_and_iff bit_or_iff bit_1_iff)
    then have "(w OR 1) AND (1 :: uchar) \<noteq> 0" for w by (metis bit_0_eq bot_apply bot_bool_def)
    then show ?thesis by (simp add: st2_def set_trx_read_write_def info_is_trx_read_write_def TRX_READ_WRITE_def)
  qed
  show ?thesis
    using any_read_write_chain [OF assms(1)] any_read_write_chain [OF c] any_read_write_chain [OF c2] c rw na a2
    by (auto simp: register_ha_def is_trx_read_write_def coalesce_trx_with_def st'_def [symmetric] st2_def [symmetric])
qed

lemmas rollback_flags = MODIFIED_NON_TRANS_TABLE_def CREATED_TEMP_TABLE_def DROPPED_TEMP_TABLE_def DID_WAIT_def DID_DDL_def
  EXECUTED_TABLE_ADMIN_CMD_def

lemmas rollback_queries = has_modified_non_trans_temp_table_def trans_executed_admin_cmd_def has_created_dropped_temp_table_def
  trans_did_wait_def trans_did_ddl_def

text \<open>Merging the flags of a statement into those of the transaction: afterwards the transaction has every mark that the
  statement or the transaction had before, and no other.\<close>

theorem unsafe_flags_merged:
  defines "q \<equiv> \<lambda>s. trans_all (merge_unsafe_rollback_flags s)"
  shows "modified_non_trans_table (q s) = (modified_non_trans_table (trans_stmt s) \<or> modified_non_trans_table (trans_all s))
    \<and> has_modified_non_trans_temp_table (q s) = (has_modified_non_trans_temp_table (trans_stmt s) \<or> has_modified_non_trans_temp_table (trans_all s))
    \<and> has_created_dropped_temp_table (q s) = (has_created_dropped_temp_table (trans_stmt s) \<or> has_created_dropped_temp_table (trans_all s))
    \<and> trans_did_wait (q s) = (trans_did_wait (trans_stmt s) \<or> trans_did_wait (trans_all s))
    \<and> trans_did_ddl (q s) = (trans_did_ddl (trans_stmt s) \<or> trans_did_ddl (trans_all s))
    \<and> trans_executed_admin_cmd (q s) = (trans_executed_admin_cmd (trans_stmt s) \<or> trans_executed_admin_cmd (trans_all s))
    \<and> ha_list (q s) = ha_list (trans_all s) \<and> trans_stmt (merge_unsafe_rollback_flags s) = trans_stmt s"
proof -
  have m: "m_unsafe_rollback_flags (q s) = m_unsafe_rollback_flags (trans_all s) OR (m_unsafe_rollback_flags (trans_stmt s) AND 63)"
    by (simp add: q_def merge_unsafe_rollback_flags_def Let_def rollback_flags)
  have d: "(a OR (b AND 63)) AND f \<noteq> 0 \<longleftrightarrow> b AND f \<noteq> 0 \<or> a AND f \<noteq> 0" if "63 AND f = f" for a b f :: uint32
  proof -
    have "(a OR (b AND 63)) AND f = (a AND f) OR (b AND f)" by (simp only: bit.conj_disj_distrib2 and.assoc that)
    then show ?thesis by (auto simp: or_eq_0_iff)
  qed
  have D: "m_unsafe_rollback_flags (q s) AND f \<noteq> 0 \<longleftrightarrow>
      m_unsafe_rollback_flags (trans_stmt s) AND f \<noteq> 0 \<or> m_unsafe_rollback_flags (trans_all s) AND f \<noteq> 0"
    if "f \<in> {1, 6, 8, 16, 32}" for f
    unfolding m using that by (intro d) auto
  have six: "CREATED_TEMP_TABLE OR DROPPED_TEMP_TABLE = 6" by (simp add: rollback_flags)
  have "modified_non_trans_table (q s) = (modified_non_trans_table (trans_stmt s) \<or> modified_non_trans_table (trans_all s))"
    "ha_list (q s) = ha_list (trans_all s)" "trans_stmt (merge_unsafe_rollback_flags s) = trans_stmt s"
    by (simp_all add: q_def merge_unsafe_rollback_flags_def Let_def)
  then show ?thesis
    using D [of 1] D [of 6] D [of 8] D [of 16] D [of 32]
    unfolding rollback_queries six unfolding rollback_flags by (simp only: insert_iff simp_thms)
qed

text \<open>The timeout of the connection: outside of a transaction it is the general one; inside, the special ones replace it when they
  are set. It is 0 only if the general one is.\<close>

lemma net_wait_timeout_choice:
  assumes "ha_chain st (ha_list (trans_all s)) xs"
  shows "\<exists>t. get_net_wait_timeout st s = Some t \<and> (t = 0 \<longrightarrow> net_wait_timeout s = 0)
      \<and> (\<not> in_active_multi_stmt_transaction s \<longrightarrow> t = net_wait_timeout s)"
  using any_read_write_chain [OF assms]
  by (auto simp: get_net_wait_timeout_def is_trx_read_write_def word_gt_0)

section \<open>Format of the binary log\<close>

datatype binlog_op = Row_if_mixed | Set_row | Reset_row | Set_stmt | Scoped_stmt "THD \<Rightarrow> THD"

fun binlog_step :: "binlog_op \<Rightarrow> THD \<Rightarrow> THD" where
  "binlog_step Row_if_mixed s = set_current_stmt_binlog_format_row_if_mixed s"
| "binlog_step Set_row s = set_current_stmt_binlog_format_row s"
| "binlog_step Reset_row s = reset_current_stmt_binlog_format_row s"
| "binlog_step Set_stmt s = set_binlog_format_stmt s"
| "binlog_step (Scoped_stmt body) s =
     (let (saved, s1) = mk_ScopedStatementReplication s in ScopedStatementReplication_end saved (body s1))"

definition row_or_stmt :: "THD \<Rightarrow> bool" where
  "row_or_stmt s \<longleftrightarrow> current_stmt_binlog_format s \<in> {BINLOG_FORMAT_STMT, BINLOG_FORMAT_ROW}"

lemmas binlog_defs = set_current_stmt_binlog_format_row_if_mixed_def set_current_stmt_binlog_format_row_def
  reset_current_stmt_binlog_format_row_def set_binlog_format_stmt_def mk_ScopedStatementReplication_def
  ScopedStatementReplication_end_def set_current_stmt_binlog_format_stmt_def restore_stmt_binlog_format_def Let_def

text \<open>The format in which a statement is logged is always row or statement, however it is switched. A switch in a
  sub-statement has no effect on it, a reset keeps the row format while there are temporary tables, and code that is
  replicated as statements leaves the format as it was.\<close>

theorem binlog_format_row_or_stmt:
  assumes "row_or_stmt s"
  shows "row_or_stmt (fold binlog_step ops s)"
    and "in_sub_stmt s \<noteq> 0 \<Longrightarrow> op \<in> {Row_if_mixed, Reset_row} \<Longrightarrow> binlog_step op s = s"
    and "has_temporary_tables s \<Longrightarrow> is_current_stmt_binlog_format_row s \<Longrightarrow> is_current_stmt_binlog_format_row (binlog_step Reset_row s)"
    and "current_stmt_binlog_format (binlog_step (Scoped_stmt body) s) = current_stmt_binlog_format s"
proof -
  have "row_or_stmt s \<Longrightarrow> row_or_stmt (binlog_step op s)" for op s
    by (cases op) (auto simp: row_or_stmt_def binlog_defs)
  then show "row_or_stmt (fold binlog_step ops s)" using assms by (induction ops arbitrary: s) simp_all
qed (auto simp: binlog_defs is_current_stmt_binlog_format_row_def)

section \<open>Generated keys\<close>

text \<open>The first key that is generated by a statement is kept; the key that is logged for the previous statement is the
  one that was current when it was first read.\<close>

lemma first_insert_id_wins:
  "first_successful_insert_id_in_cur_stmt (fold record_first_successful_insert_id_in_cur_stmt ids s) =
     (case filter (\<lambda>i. i \<noteq> 0) (first_successful_insert_id_in_cur_stmt s # ids) of [] \<Rightarrow> 0 | i # _ \<Rightarrow> i)"
proof -
  have keep: "first_successful_insert_id_in_cur_stmt s \<noteq> 0 \<Longrightarrow>
      first_successful_insert_id_in_cur_stmt (fold record_first_successful_insert_id_in_cur_stmt ids s) = first_successful_insert_id_in_cur_stmt s"
    for s ids by (induction ids arbitrary: s) (simp_all add: record_first_successful_insert_id_in_cur_stmt_def)
  show ?thesis
  proof (induction ids arbitrary: s)
    case (Cons i ids)
    then show ?case using keep by (auto simp: record_first_successful_insert_id_in_cur_stmt_def)
  qed simp
qed

lemma insert_id_for_binlog:
  assumes "\<not> stmt_depends_on_first_successful_insert_id_in_prev_stmt s"
  defines "s' \<equiv> snd (read_first_successful_insert_id_in_prev_stmt s)"
  shows "first_successful_insert_id_in_prev_stmt_for_binlog s' = fst (read_first_successful_insert_id_in_prev_stmt s)"
    and "snd (read_first_successful_insert_id_in_prev_stmt (s'\<lparr>first_successful_insert_id_in_prev_stmt := n\<rparr>)) =
      s'\<lparr>first_successful_insert_id_in_prev_stmt := n\<rparr>"
  using assms(1) by (simp_all add: s'_def read_first_successful_insert_id_in_prev_stmt_def Let_def)

section \<open>Scopes restore what they change\<close>

text \<open>What the classes that change the session for a scope promise: entering changes a part of the session, of which
  \<open>view\<close> is the value and \<open>put\<close> the update, and leaving puts back the value that it had at entry, whatever happened inside.\<close>

locale scoped_change =
  fixes enter :: "'a \<Rightarrow> THD \<Rightarrow> 'b \<times> THD" and leave :: "'b \<Rightarrow> THD \<Rightarrow> THD" and view :: "THD \<Rightarrow> 'v" and put :: "'v \<Rightarrow> THD \<Rightarrow> THD"
  assumes enter_put: "\<exists>v. snd (enter a s) = put v s"
    and leave_put: "leave (fst (enter a s)) s' = put (view s) s'"
    and put_put: "put v (put w s) = put v s"
    and put_view: "put (view s) s = s"
    and view_put: "view (put v s) = v"
begin

fun nested :: "'a list \<Rightarrow> (THD \<Rightarrow> THD) \<Rightarrow> THD \<Rightarrow> THD" where
  "nested [] body s = body s"
| "nested (a # as) body s = leave (fst (enter a s)) (nested as body (snd (enter a s)))"

lemma nested_view: "as \<noteq> [] \<Longrightarrow> view (nested as body s) = view s"
  by (cases as) (simp_all add: leave_put view_put)

lemma nested_put: "(\<And>s. \<exists>v. body s = put v s) \<Longrightarrow> \<exists>v. nested as body s = put v s"
proof (induction as arbitrary: s)
  case (Cons a as)
  obtain v where "snd (enter a s) = put v s" using enter_put by blast
  moreover obtain w where "nested as body (put v s) = put w (put v s)" using Cons by blast
  ultimately show ?case by (auto simp: leave_put put_put)
qed simp

lemma nested_identity: "as \<noteq> [] \<Longrightarrow> (\<And>s. \<exists>v. body s = put v s) \<Longrightarrow> nested as body s = s"
  using nested_put [of body as s] nested_view [of as body s] by (metis put_view view_put)

end

interpretation mode_set: scoped_change Sql_mode_instant_set Sql_mode_save_end sql_mode "\<lambda>v s. s\<lparr>sql_mode := v\<rparr>"
  by unfold_locales (auto simp: Sql_mode_instant_set_def Sql_mode_save_end_def Sql_mode_save_def)

interpretation mode_remove: scoped_change Sql_mode_instant_remove Sql_mode_save_end sql_mode "\<lambda>v s. s\<lparr>sql_mode := v\<rparr>"
  by unfold_locales (auto simp: Sql_mode_instant_remove_def Sql_mode_save_end_def Sql_mode_save_def)

interpretation definer: scoped_change Switch_to_definer_security_ctx Switch_to_definer_security_ctx_end security_ctx
    "\<lambda>v s. s\<lparr>security_ctx := v\<rparr>"
proof (unfold_locales, goal_cases)
  case (1 a s)
  have "snd (Switch_to_definer_security_ctx a s) = s\<lparr>security_ctx := if a = 0 then security_ctx s else a\<rparr>"
    by (simp add: Switch_to_definer_security_ctx_def)
  then show ?case by (rule exI)
qed (auto simp: Switch_to_definer_security_ctx_def Switch_to_definer_security_ctx_end_def)

interpretation warning_abort: scoped_change Abort_on_warning_instant_set Abort_on_warning_instant_set_end abort_on_warning
    "\<lambda>v s. s\<lparr>abort_on_warning := v\<rparr>"
  by unfold_locales (auto simp: Abort_on_warning_instant_set_def Abort_on_warning_instant_set_end_def)

interpretation check_level: scoped_change Check_level_instant_set Check_level_instant_set_end count_cuted_fields
    "\<lambda>v s. s\<lparr>count_cuted_fields := v\<rparr>"
  by unfold_locales (auto simp: Check_level_instant_set_def Check_level_instant_set_end_def)

interpretation statement_replication: scoped_change "\<lambda>_ :: unit. mk_ScopedStatementReplication" ScopedStatementReplication_end
    current_stmt_binlog_format "\<lambda>v s. s\<lparr>current_stmt_binlog_format := v\<rparr>"
  by unfold_locales (auto simp: binlog_defs)

interpretation binlog_off: scoped_change "\<lambda>_ :: unit. tmp_disable_binlog" reenable_binlog option_bits "\<lambda>v s. s\<lparr>option_bits := v\<rparr>"
  by unfold_locales (auto simp: tmp_disable_binlog_def reenable_binlog_def)

definition eval_view :: "THD \<Rightarrow> check_fields \<times> bool \<times> bool" where
  "eval_view s = (count_cuted_fields s, abort_on_warning s, modified_non_trans_table (trans_stmt s))"

definition eval_put :: "check_fields \<times> bool \<times> bool \<Rightarrow> THD \<Rightarrow> THD" where
  "eval_put v s = (case v of (c, a, m) \<Rightarrow> s\<lparr>count_cuted_fields := c, abort_on_warning := a,
     trans_stmt := (trans_stmt s)\<lparr>modified_non_trans_table := m\<rparr>\<rparr>)"

interpretation eval_state: scoped_change "\<lambda>_ :: unit. mk_Sp_eval_expr_state" eval_stop eval_view eval_put
  by unfold_locales
    (auto simp: mk_Sp_eval_expr_state_def eval_stop_def eval_start_def eval_view_def eval_put_def)

text \<open>The classes that change the session for a scope: whatever the code in the scope does to the SQL mode, the
  security context, the handling of warnings, the check level of fields, the state for expressions of stored programs, the
  log format or the options, they have their former values after the scope, however many scopes are nested; and if the
  code inside changes only that part of the session, the session is exactly what it was.\<close>

theorem scopes_restore:
  assumes "as \<noteq> []" and "ms \<noteq> []" and "n > 0"
  shows "sql_mode (mode_set.nested ms body s) = sql_mode s
    \<and> sql_mode (mode_remove.nested ms body s) = sql_mode s
    \<and> security_ctx (definer.nested as body s) = security_ctx s
    \<and> option_bits (binlog_off.nested (replicate n ()) body s) = option_bits s
    \<and> current_stmt_binlog_format (statement_replication.nested (replicate n ()) body s) = current_stmt_binlog_format s
    \<and> eval_view (eval_state.nested (replicate n ()) body s) = eval_view s
    \<and> mode_set.nested ms (\<lambda>s. s\<lparr>sql_mode := f s\<rparr>) s = s
    \<and> binlog_off.nested (replicate n ()) (\<lambda>s. s\<lparr>option_bits := f s\<rparr>) s = s
    \<and> eval_state.nested (replicate n ()) (\<lambda>s. eval_put (g s) s) s = s"
proof -
  have r: "replicate n () \<noteq> []" using assms(3) by simp
  show ?thesis
    by (intro conjI mode_set.nested_view [OF assms(2)] mode_remove.nested_view [OF assms(2)] definer.nested_view [OF assms(1)]
        binlog_off.nested_view [OF r] statement_replication.nested_view [OF r] eval_state.nested_view [OF r]
        mode_set.nested_identity [OF assms(2)] binlog_off.nested_identity [OF r] eval_state.nested_identity [OF r])
      (rule exI, rule refl)+
qed

section \<open>Examples\<close>

definition example_trans :: THD_TRANS where
  "example_trans = \<lparr>no_2pc = False, ha_list = 0, modified_non_trans_table = False, m_unsafe_rollback_flags = 0\<rparr>"

definition example_session :: THD where
  "example_session =
    \<lparr>sys_sec = 0, sys_sec_part = 0, sys_start = 0, user_time = 0, start_time = 0, start_time_sec_part = 0,
     query_start_sec_part_used = False, start_utime = 0, utime_after_lock = 0, utime_after_query = 0,
     trans_start_time = (0, 0), sql_mode = 0, option_bits = 0, long_query_time = 0, server_status = 0,
     slave_thread = False, killed = NOT_KILLED, killed_err = None, mysys_abort = False, is_slave_error = False, accessed_rows_and_keys = 0,
     limit_rows_examined_cnt = 0, trans_stmt = example_trans, trans_all = example_trans, abort_on_warning = False,
     count_cuted_fields = CHECK_FIELD_IGNORE, security_ctx = 0, variables_binlog_format = BINLOG_FORMAT_MIXED,
     current_stmt_binlog_format = BINLOG_FORMAT_STMT, in_sub_stmt = 0, has_temporary_tables = False,
     first_successful_insert_id_in_prev_stmt = 0, first_successful_insert_id_in_prev_stmt_for_binlog = 0,
     first_successful_insert_id_in_cur_stmt = 0, stmt_depends_on_first_successful_insert_id_in_prev_stmt = False,
     idle_write_transaction_timeout = 0, idle_readonly_transaction_timeout = 0, idle_transaction_timeout = 0,
     net_wait_timeout = 0\<rparr>"

theorem statement_times_follow_clock_witness:
  "statement_times [5000000, 5000000, 4000000, 4000000] (example_session\<lparr>sys_sec := 5, sys_start := 5000000\<rparr>)
     = [5000001, 5000002, 4000000, 4000001]"
proof -
  define s where "s = example_session\<lparr>sys_sec := 5, sys_start := 5000000\<rparr>"
  have "time_ok s" "sys_usecs s = 5000000" "user_time s = 0" "sys_start s = 5000000"
    by (simp_all add: s_def example_session_def time_ok_def sys_usecs_def)
  moreover have b: "uint h \<le> 5000000" if "h \<in> set [5000000, 5000000, 4000000, 4000000]" for h :: ulonglong using that by auto
  have "time_ok s \<Longrightarrow> sys_usecs s = 5000000 \<Longrightarrow> user_time s = 0 \<Longrightarrow>
      statement_times [5000000, 5000000, 4000000, 4000000] s = clock_times (uint (sys_start s)) 5000000 [5000000, 5000000, 4000000, 4000000]"
    using statement_times_follow_clock [of s "[5000000, 5000000, 4000000, 4000000]" 5000000, OF _ b]
    by (simp del: statement_times.simps clock_times.simps)
  ultimately show ?thesis by (simp add: s_def [symmetric] del: statement_times.simps)
qed

theorem replicated_time_kept_witness:
  "start_time (set_time 0 0 (set_time_repl SECTIME_NO 0 0 7 42 example_session)) = 7"
  using replicated_time_kept [of SECTIME_NO example_session 7 42 0 0 0 0]
  by (simp add: Let_def MAX_SECOND_PART_def)

theorem kills_never_weakened_witness:
  "killed (apply_kills [(KILL_CONNECTION, 0, []), (KILL_QUERY, 0, [])] example_session) = KILL_CONNECTION"
  using kills_never_weakened [of "[(KILL_CONNECTION, 0, []), (KILL_QUERY, 0, [])]" example_session KILL_QUERY 0 "[]" "\<lambda>s. s"]
  by (simp add: example_session_def max_def killed_order)

theorem rows_examined_limit_witness:
  "killed ((check_limit_rows_examined ^^ 2) (example_session\<lparr>limit_rows_examined_cnt := 1\<rparr>)) = ABORT_QUERY"
  using rows_examined_limit [of "example_session\<lparr>limit_rows_examined_cnt := 1\<rparr>" 2]
  by (simp add: example_session_def max_def killed_order)

theorem transaction_engines_witness:
  "is_trx_read_write (\<lambda>_. \<lparr>m_next = 0, m_ht = 1, m_flags = 1\<rparr>) (example_trans\<lparr>ha_list := 4\<rparr>) = Some True"
  using transaction_engines [of "\<lambda>_. \<lparr>m_next = 0, m_ht = 1, m_flags = 1\<rparr>" "example_trans\<lparr>ha_list := 4\<rparr>" "[4]" 5 1 4]
  by (simp add: is_started_def info_is_trx_read_write_def TRX_READ_WRITE_def)

theorem scopes_restore_witness:
  "mode_set.nested [3, 4] (\<lambda>s. s\<lparr>sql_mode := sql_mode s + 1\<rparr>) example_session = example_session"
  using scopes_restore [of "[1]" "[3, 4]" 1 "\<lambda>s. s" example_session "\<lambda>s. sql_mode s + 1" "\<lambda>s. eval_view s"] by simp

end
