(* ===== verification/Session_Async.thy ===== *)
theory Session_Async
  imports Prelude
begin

text \<open>
  Two parts of \<^verbatim>\<open>sql_class.h\<close> in which sessions wait for each other: \<^verbatim>\<open>thd_async_state\<close>, the counter of operations that have
  to finish before a response is sent, and \<^verbatim>\<open>wait_for_commit\<close>, the lists of commits that wait for an earlier one. The
  sections under the mutex of the counter are functions, and their interleavings, with signals and spurious wake-ups, a
  step relation; the counter is an \<^verbatim>\<open>int\<close> of 32 bits, of which the code asserts that it is not negative. The pool that resumes a session, and the slow paths of the waits for
  commits, are code of other files.
\<close>

section \<open>Pending operations\<close>

datatype async_code = NONE | SUSPENDED | RESUMED

text \<open>Where the thread of the session is: it works on a command, it has seen pending operations without the lock, it waits for
  the signal, it was woken, it has left the session to the pool, or it has come through the wait or the suspension and
  answers the client.\<close>

datatype owner_pc = Working | Checked | Waiting | Woken | Suspended | Responding

record thd_async_state =
  m_state :: async_code
  m_pending_ops :: "32 word"
  owner :: owner_pc
  resume_calls :: nat

definition mk_thd_async_state :: thd_async_state where
  "mk_thd_async_state = \<lparr>m_state = NONE, m_pending_ops = 0, owner = Working, resume_calls = 0\<rparr>"

definition try_suspend :: "thd_async_state \<Rightarrow> bool \<times> thd_async_state" where
  "try_suspend s = (if m_pending_ops s \<noteq> 0 then (True, s\<lparr>m_state := SUSPENDED\<rparr>) else (False, s))"

definition inc_pending_ops :: "thd_async_state \<Rightarrow> thd_async_state" where
  "inc_pending_ops s = s\<lparr>m_pending_ops := m_pending_ops s + 1\<rparr>"

definition cond_signal :: "thd_async_state \<Rightarrow> thd_async_state" where
  "cond_signal s = (if owner s = Waiting then s\<lparr>owner := Woken\<rparr> else s)"

definition dec_pending_ops :: "thd_async_state \<Rightarrow> (32 word \<times> async_code) \<times> thd_async_state" where
  "dec_pending_ops s =
     (let s = s\<lparr>m_pending_ops := m_pending_ops s - 1\<rparr>; ret = m_pending_ops s;
          s = (if ret = 0 then cond_signal s else s)
      in ((ret, m_state s), s))"

definition pending_ops :: "thd_async_state \<Rightarrow> 32 word" where
  "pending_ops s = m_pending_ops s"

text \<open>\<^verbatim>\<open>wait_for_pending_ops\<close> in three parts: the test without the lock, and the loop, which is entered with the lock and again
  after each wake-up. The thread that returns from it goes on to answer.\<close>

definition wait_begin :: "thd_async_state \<Rightarrow> thd_async_state" where
  "wait_begin s = (if pending_ops s = 0 then s\<lparr>owner := Responding\<rparr> else s\<lparr>owner := Checked\<rparr>)"

definition wait_loop :: "thd_async_state \<Rightarrow> thd_async_state" where
  "wait_loop s = (if m_pending_ops s \<noteq> 0 then s\<lparr>owner := Waiting\<rparr> else s\<lparr>owner := Responding\<rparr>)"

text \<open>The steps. Only the thread of the session starts operations, while it works on a command, and by the assertion of the
  class the counter does not become negative by it. The caller of \<^verbatim>\<open>dec_pending_ops\<close> that gets 0 and
  \<^verbatim>\<open>SUSPENDED\<close> calls the pool to resume the session, which is counted in \<open>resume_calls\<close>.\<close>

definition finish_op :: "thd_async_state \<Rightarrow> thd_async_state" where
  "finish_op s = (case dec_pending_ops s of (r, s') \<Rightarrow> if r = (0, SUSPENDED) then s'\<lparr>resume_calls := resume_calls s' + 1\<rparr> else s')"

inductive async_progress :: "thd_async_state \<Rightarrow> thd_async_state \<Rightarrow> bool" where
  Finish: "sint (m_pending_ops s) > 0 \<Longrightarrow> async_progress s (finish_op s)"
| Lock: "owner s = Checked \<Longrightarrow> async_progress s (wait_loop s)"
| Recheck: "owner s = Woken \<Longrightarrow> async_progress s (wait_loop s)"
| Resume: "owner s = Suspended \<Longrightarrow> resume_calls s > 0 \<Longrightarrow>
    async_progress s (s\<lparr>owner := Responding, m_state := NONE, resume_calls := resume_calls s - 1\<rparr>)"

inductive async_step :: "thd_async_state \<Rightarrow> thd_async_state \<Rightarrow> bool" where
  Progress: "async_progress s s' \<Longrightarrow> async_step s s'"
| Start: "owner s = Working \<Longrightarrow> sint (m_pending_ops (inc_pending_ops s)) \<ge> 0 \<Longrightarrow> async_step s (inc_pending_ops s)"
| Suspend: "owner s = Working \<Longrightarrow> try_suspend s = (True, s') \<Longrightarrow> async_step s (s'\<lparr>owner := Suspended\<rparr>)"
| Refuse: "owner s = Working \<Longrightarrow> try_suspend s = (False, s') \<Longrightarrow> async_step s (s'\<lparr>owner := Responding\<rparr>)"
| Wait: "owner s = Working \<Longrightarrow> async_step s (wait_begin s)"
| Next_Command: "owner s = Responding \<Longrightarrow> async_step s (s\<lparr>owner := Working\<rparr>)"
| Spurious: "owner s = Waiting \<Longrightarrow> async_step s (s\<lparr>owner := Woken\<rparr>)"

inductive_cases async_progressE: "async_progress s s'"
inductive_cases async_stepE: "async_step s s'"

definition async_reachable :: "thd_async_state \<Rightarrow> bool" where
  "async_reachable s \<longleftrightarrow> async_step\<^sup>*\<^sup>* mk_thd_async_state s"

section \<open>Lists of waiting commits\<close>

record wait_for_commit =
  subsequent_commits_list :: addr
  next_subsequent_commit :: addr
  waitee :: addr
  wakeup_error :: int

type_synonym wfc_store = "addr \<Rightarrow> wait_for_commit"

text \<open>A pointer to a link: to the head of the list of a commit, or to the link field of one.\<close>

datatype link_cell = Head addr | Next addr

fun link_get :: "wfc_store \<Rightarrow> link_cell \<Rightarrow> addr" where
  "link_get st (Head a) = subsequent_commits_list (st a)"
| "link_get st (Next a) = next_subsequent_commit (st a)"

fun link_put :: "link_cell \<Rightarrow> addr \<Rightarrow> wfc_store \<Rightarrow> wfc_store" where
  "link_put (Head a) v st = st(a := (st a)\<lparr>subsequent_commits_list := v\<rparr>)"
| "link_put (Next a) v st = st(a := (st a)\<lparr>next_subsequent_commit := v\<rparr>)"

partial_function (option) unlink_commit :: "addr \<Rightarrow> link_cell \<Rightarrow> wfc_store \<Rightarrow> wfc_store option" where
  "unlink_commit this next_ptr_ptr st =
     (let cur = link_get st next_ptr_ptr
      in if cur = 0 then Some st
         else if cur = this then Some (link_put next_ptr_ptr (next_subsequent_commit (st this)) st)
         else unlink_commit this (Next cur) st)"

declare unlink_commit.simps [code]

definition remove_from_list :: "addr \<Rightarrow> link_cell \<Rightarrow> wfc_store \<Rightarrow> wfc_store option" where
  "remove_from_list this next_ptr_ptr st =
     (case unlink_commit this next_ptr_ptr st of None \<Rightarrow> None | Some st \<Rightarrow> Some (st(this := (st this)\<lparr>waitee := 0\<rparr>)))"

text \<open>The functions with a quick test before the slow path; \<open>slow\<close> is that path. The wait also reports whether an error
  is raised.\<close>

definition wait_for_prior_commit :: "(addr \<Rightarrow> wfc_store \<Rightarrow> (int \<times> bool) \<times> wfc_store) \<Rightarrow> addr \<Rightarrow> wfc_store \<Rightarrow> (int \<times> bool) \<times> wfc_store" where
  "wait_for_prior_commit slow this st =
     (if waitee (st this) \<noteq> 0 then slow this st else ((wakeup_error (st this), wakeup_error (st this) \<noteq> 0), st))"

definition wakeup_subsequent_commits :: "(addr \<Rightarrow> int \<Rightarrow> wfc_store \<Rightarrow> wfc_store) \<Rightarrow> addr \<Rightarrow> int \<Rightarrow> wfc_store \<Rightarrow> wfc_store" where
  "wakeup_subsequent_commits slow this wakeup_error_arg st =
     (if subsequent_commits_list (st this) \<noteq> 0 then slow this wakeup_error_arg st else st)"

definition unregister_wait_for_prior_commit :: "(addr \<Rightarrow> wfc_store \<Rightarrow> wfc_store) \<Rightarrow> addr \<Rightarrow> wfc_store \<Rightarrow> wfc_store" where
  "unregister_wait_for_prior_commit slow this st =
     (if waitee (st this) \<noteq> 0 then slow this st else st(this := (st this)\<lparr>wakeup_error := 0\<rparr>))"

section \<open>No response before the operations are finished\<close>

definition async_inv :: "thd_async_state \<Rightarrow> bool" where
  "async_inv s \<longleftrightarrow> sint (m_pending_ops s) \<ge> 0 \<and> (owner s = Waiting \<longrightarrow> m_pending_ops s \<noteq> 0)
     \<and> (owner s = Responding \<longrightarrow> m_pending_ops s = 0)
     \<and> m_state s = (if owner s = Suspended then SUSPENDED else NONE)
     \<and> resume_calls s = (if owner s = Suspended \<and> m_pending_ops s = 0 then 1 else 0)"

lemmas async_ops = try_suspend_def inc_pending_ops_def cond_signal_def dec_pending_ops_def pending_ops_def wait_begin_def
  wait_loop_def finish_op_def mk_thd_async_state_def Let_def

lemma counter_dec: "sint (w :: 32 word) > 0 \<Longrightarrow> sint (w - 1) = sint w - 1"
  using sint_less [of w] by (simp add: sint_word_ariths signed_take_bit_int_eq_self)

lemma counter_zero: "sint (w :: 32 word) = 0 \<longleftrightarrow> w = 0"
  by (metis signed_word_eqI sint_0)

lemma counter_pos: "sint (w :: 32 word) \<ge> 0 \<Longrightarrow> w \<noteq> 0 \<Longrightarrow> sint w > 0"
  using counter_zero [of w] by linarith

lemma async_inv_progress: "async_progress s s' \<Longrightarrow> async_inv s \<Longrightarrow> async_inv s'"
proof (erule async_progressE, goal_cases)
  case 1
  then show ?case using counter_dec [of "m_pending_ops s"] by (auto simp: async_inv_def async_ops split: if_splits)
qed (auto simp: async_inv_def async_ops split: if_splits)

lemma async_inv_step: "async_step s s' \<Longrightarrow> async_inv s \<Longrightarrow> async_inv s'"
  by (erule async_stepE) (auto simp: async_inv_def async_ops dest: async_inv_progress split: if_splits)

lemma async_inv_reachable: "async_reachable s \<Longrightarrow> async_inv s"
  unfolding async_reachable_def
proof (induction rule: rtranclp_induct)
  case base
  show ?case by (simp add: async_inv_def mk_thd_async_state_def)
qed (rule async_inv_step)

text \<open>Every step that needs no decision from outside comes closer to the answer.\<close>

definition async_measure :: "thd_async_state \<Rightarrow> nat" where
  "async_measure s = 2 * nat (sint (m_pending_ops s)) + (if owner s \<in> {Checked, Woken, Suspended} then 1 else 0)"

lemma async_progress_decreases: "async_progress s s' \<Longrightarrow> async_inv s \<Longrightarrow> async_measure s' < async_measure s"
proof (erule async_progressE, goal_cases)
  case 1
  then show ?case using counter_dec [of "m_pending_ops s"]
    by (auto simp: async_inv_def async_measure_def async_ops nat_diff_distrib split: if_splits)
qed (auto simp: async_inv_def async_measure_def async_ops split: if_splits)

lemma async_progress_enabled: "async_inv s \<Longrightarrow> owner s \<notin> {Working, Responding} \<Longrightarrow> \<exists>s'. async_progress s s'"
proof (cases "owner s")
  case Suspended
  moreover assume "async_inv s"
  ultimately have "sint (m_pending_ops s) > 0 \<or> resume_calls s > 0" using counter_pos [of "m_pending_ops s"] by (auto simp: async_inv_def)
  then show ?thesis using Suspended by (blast intro: async_progress.intros)
next
  case Waiting
  moreover assume "async_inv s"
  ultimately have "sint (m_pending_ops s) > 0" using counter_pos [of "m_pending_ops s"] by (auto simp: async_inv_def)
  then show ?thesis by (blast intro: async_progress.intros)
qed (auto intro: async_progress.intros)

lemma async_progress_keeps: "async_progress s s' \<Longrightarrow> owner s \<notin> {Working, Responding} \<Longrightarrow> owner s' \<noteq> Working"
  by (erule async_progressE) (auto simp: async_ops split: if_splits)

lemma async_progress_terminates:
  "async_inv s \<Longrightarrow> owner s \<noteq> Working \<Longrightarrow> \<exists>s'. async_progress\<^sup>*\<^sup>* s s' \<and> owner s' = Responding"
proof (induction s rule: measure_induct_rule [of async_measure])
  case (less s)
  show ?case
  proof (cases "owner s = Responding")
    case False
    then have o: "owner s \<notin> {Working, Responding}" using less.prems(2) by simp
    then obtain s1 where s1: "async_progress s s1" using async_progress_enabled less.prems(1) by blast
    then obtain s' where "async_progress\<^sup>*\<^sup>* s1 s'" "owner s' = Responding"
      using less.IH [OF async_progress_decreases [OF s1 less.prems(1)] async_inv_progress [OF s1 less.prems(1)] async_progress_keeps [OF s1 o]]
      by blast
    then show ?thesis using s1 by (blast intro: converse_rtranclp_into_rtranclp)
  qed blast
qed

text \<open>C9. Pending operations of a session, in every interleaving of the session, the threads that finish operations, signals
  and spurious wake-ups. A session answers its client, after the wait or after having been suspended, only when no
  operation is pending. No wake-up is lost: a session that waits has pending operations. A suspended session is resumed
  by exactly one thread, the one that finishes the last operation. From every state in which the session waits or is
  suspended, the operations that finish and the threads that were woken bring it to its answer, after a number of steps
  that is bounded.\<close>

theorem async_pending_ops:
  assumes "async_reachable s"
  shows "(owner s = Responding \<longrightarrow> m_pending_ops s = 0)
    \<and> (owner s = Waiting \<longrightarrow> sint (m_pending_ops s) > 0)
    \<and> resume_calls s = (if owner s = Suspended \<and> m_pending_ops s = 0 then 1 else 0)
    \<and> (owner s \<notin> {Working, Responding} \<longrightarrow> (\<exists>s'. async_progress s s'))
    \<and> (\<forall>s'. async_progress s s' \<longrightarrow> async_measure s' < async_measure s)
    \<and> (owner s \<noteq> Working \<longrightarrow> (\<exists>s'. async_progress\<^sup>*\<^sup>* s s' \<and> owner s' = Responding))"
proof -
  have i: "async_inv s" using assms by (rule async_inv_reachable)
  then have "owner s = Waiting \<longrightarrow> sint (m_pending_ops s) > 0" using counter_pos [of "m_pending_ops s"] by (auto simp: async_inv_def)
  then show ?thesis
    using i async_progress_enabled [OF i] async_progress_decreases [OF _ i] async_progress_terminates [OF i]
    by (simp add: async_inv_def)
qed

section \<open>Removal from the list of a commit\<close>

lemmas link_simps = link_get.simps link_put.simps

declare link_simps [simp del]

fun commit_chain :: "wfc_store \<Rightarrow> link_cell \<Rightarrow> addr list \<Rightarrow> bool" where
  "commit_chain st c [] \<longleftrightarrow> link_get st c = 0"
| "commit_chain st c (x # xs) \<longleftrightarrow> link_get st c = x \<and> x \<noteq> 0 \<and> commit_chain st (Next x) xs"

lemma link_get_put: "link_get (link_put c v st) d = (if c = d then v else link_get st d)"
  by (cases c; cases d) (auto simp: link_simps)

lemma commit_chain_cong:
  "link_get st' c' = link_get st c \<Longrightarrow> \<forall>x \<in> set xs. link_get st' (Next x) = link_get st (Next x) \<Longrightarrow>
   commit_chain st' c' xs = commit_chain st c xs"
proof (induction xs arbitrary: c c')
  case (Cons x xs)
  then show ?case using Cons.IH [of "Next x" "Next x"] by auto
qed simp

lemma link_put_fields: "waitee (link_put c v st a) = waitee (st a)" "wakeup_error (link_put c v st a) = wakeup_error (st a)"
  by (cases c; simp add: link_simps)+

lemma unlink_commit_chain:
  assumes "commit_chain st c xs" and "distinct xs" and "\<forall>x \<in> set xs. c \<noteq> Next x"
  shows "\<exists>st'. unlink_commit this c st = Some st' \<and> commit_chain st' c (remove1 this xs)
    \<and> (\<forall>d. d \<noteq> c \<and> d \<notin> Next ` set xs \<longrightarrow> link_get st' d = link_get st d)
    \<and> (\<forall>a. waitee (st' a) = waitee (st a) \<and> wakeup_error (st' a) = wakeup_error (st a))"
  using assms
proof (induction xs arbitrary: c)
  case Nil
  then show ?case by (subst unlink_commit.simps) simp
next
  case (Cons x xs)
  show ?case
  proof (cases "x = this")
    case True
    define st' where "st' = link_put c (next_subsequent_commit (st this)) st"
    have u: "unlink_commit this c st = Some st'" using Cons.prems True by (subst unlink_commit.simps) (simp add: st'_def)
    have "link_get st' c = link_get st (Next x)" using True by (simp add: st'_def link_get_put) (simp add: link_get.simps)
    moreover have "\<forall>y \<in> set xs. link_get st' (Next y) = link_get st (Next y)" using Cons.prems by (auto simp: st'_def link_get_put)
    ultimately have "commit_chain st' c xs = commit_chain st (Next x) xs" by (rule commit_chain_cong)
    then show ?thesis using u Cons.prems True by (auto simp: st'_def link_get_put link_put_fields)
  next
    case False
    have u: "unlink_commit this c st = unlink_commit this (Next x) st" using Cons.prems False by (subst unlink_commit.simps) simp
    have "commit_chain st (Next x) xs" "distinct xs" "\<forall>y \<in> set xs. Next x \<noteq> Next y" using Cons.prems by auto
    from Cons.IH [OF this] obtain st' where st': "unlink_commit this (Next x) st = Some st'" "commit_chain st' (Next x) (remove1 this xs)"
      "\<forall>d. d \<noteq> Next x \<and> d \<notin> Next ` set xs \<longrightarrow> link_get st' d = link_get st d"
      "\<forall>a. waitee (st' a) = waitee (st a) \<and> wakeup_error (st' a) = wakeup_error (st a)" by blast
    have "link_get st' c = x" using st'(3) Cons.prems by auto
    then show ?thesis using u st' Cons.prems False by auto
  qed
qed

text \<open>A commit that gives up waiting is taken out of the list of the commit it waited for, wherever it is in it; the loop
  ends, the others stay in the list in their order, no other list and no other registration changes, and the commit waits
  for nobody.\<close>

theorem commit_removed_from_list:
  assumes "commit_chain st (Head w) xs" and "distinct xs"
  shows "\<exists>st'. remove_from_list this (Head w) st = Some st' \<and> commit_chain st' (Head w) (remove1 this xs)
    \<and> waitee (st' this) = 0
    \<and> (\<forall>a. (a \<noteq> this \<longrightarrow> waitee (st' a) = waitee (st a)) \<and> wakeup_error (st' a) = wakeup_error (st a))
    \<and> (\<forall>v. v \<noteq> w \<longrightarrow> subsequent_commits_list (st' v) = subsequent_commits_list (st v))
    \<and> (\<forall>v. v \<notin> set xs \<longrightarrow> next_subsequent_commit (st' v) = next_subsequent_commit (st v))"
proof -
  from unlink_commit_chain [OF assms, of this] obtain st1 where st1: "unlink_commit this (Head w) st = Some st1"
    "commit_chain st1 (Head w) (remove1 this xs)"
    "\<forall>d. d \<noteq> Head w \<and> d \<notin> Next ` set xs \<longrightarrow> link_get st1 d = link_get st d"
    "\<forall>a. waitee (st1 a) = waitee (st a) \<and> wakeup_error (st1 a) = wakeup_error (st a)" by auto
  define st' where "st' = st1(this := (st1 this)\<lparr>waitee := 0\<rparr>)"
  have l: "link_get st' d = link_get st1 d" for d by (cases d) (auto simp: st'_def link_get.simps)
  have "subsequent_commits_list (st' v) = subsequent_commits_list (st v)" if "v \<noteq> w" for v
    using st1(3) [rule_format, of "Head v"] l [of "Head v"] that by (auto simp: link_get.simps)
  moreover have "next_subsequent_commit (st' v) = next_subsequent_commit (st v)" if "v \<notin> set xs" for v
    using st1(3) [rule_format, of "Next v"] l [of "Next v"] that by (auto simp: link_get.simps)
  moreover have "commit_chain st' (Head w) (remove1 this xs)" using st1(2) l by (subst commit_chain_cong [of _ _ st1 "Head w"]) auto
  ultimately show ?thesis using st1 by (auto simp: remove_from_list_def st'_def)
qed

section \<open>Examples\<close>

text \<open>An operation is started, and the session waits for it.\<close>

definition waiting_session :: thd_async_state where
  "waiting_session = wait_loop (wait_begin (inc_pending_ops mk_thd_async_state))"

theorem async_pending_ops_witness:
  "owner waiting_session = Waiting \<and> sint (m_pending_ops waiting_session) > 0 \<and>
   (\<exists>s'. async_progress\<^sup>*\<^sup>* waiting_session s' \<and> owner s' = Responding)"
proof -
  let ?s1 = "inc_pending_ops mk_thd_async_state"
  have "async_step mk_thd_async_state ?s1" by (rule async_step.Start) (simp_all add: async_ops)
  moreover have "async_step ?s1 (wait_begin ?s1)" by (rule async_step.Wait) (simp add: async_ops)
  moreover have "async_step (wait_begin ?s1) waiting_session" unfolding waiting_session_def
    by (rule async_step.Progress, rule async_progress.Lock) (simp add: async_ops)
  ultimately have "async_reachable waiting_session" unfolding async_reachable_def by (meson rtranclp.rtrancl_into_rtrancl rtranclp.rtrancl_refl)
  moreover have "owner waiting_session = Waiting" by (simp add: waiting_session_def async_ops)
  ultimately show ?thesis using async_pending_ops [of waiting_session] by simp
qed

theorem commit_removed_from_list_witness:
  "\<exists>st'. remove_from_list 2 (Head 1)
      (\<lambda>a. \<lparr>subsequent_commits_list = if a = 1 then 3 else 0, next_subsequent_commit = if a = 3 then 2 else 0, waitee = 1, wakeup_error = 0\<rparr>)
      = Some st' \<and> commit_chain st' (Head 1) [3]"
proof -
  have "commit_chain (\<lambda>a. \<lparr>subsequent_commits_list = if a = 1 then 3 else 0, next_subsequent_commit = if a = 3 then 2 else 0,
      waitee = 1, wakeup_error = 0\<rparr>) (Head 1) [3, 2]" by (simp add: link_get.simps)
  from commit_removed_from_list [OF this, of 2] show ?thesis by fastforce
qed

end
