(* ===== verification/Qualified_Names.thy ===== *)
theory Qualified_Names
  imports Prelude
begin

text \<open>
  Names with a database of \<^verbatim>\<open>sql_class.h\<close>, \<^verbatim>\<open>Database_qualified_name\<close>, and the removal of doubled quotes from an identifier,
  \<^verbatim>\<open>THD::quote_unescape\<close>. A string with a length is a list of characters; the database of a name is absent if its pointer
  is null. An allocation that fails is an argument \<open>oom\<close>.
\<close>

section \<open>C strings\<close>

definition NUL :: char where "NUL = CHR 0x00"

text \<open>The position of a character before the terminating zero, and what \<^verbatim>\<open>%.*s\<close> prints.\<close>

fun strchr :: "string \<Rightarrow> char \<Rightarrow> nat option" where
  "strchr [] c = None"
| "strchr (x # xs) c = (if x = c then Some 0 else if x = NUL then None else map_option Suc (strchr xs c))"

definition print_limited :: "string \<Rightarrow> string" where
  "print_limited s = takeWhile (\<lambda>c. c \<noteq> NUL) s"

text \<open>\<^verbatim>\<open>my_snprintf\<close> is an argument, a function of the size of the buffer and the whole output. It stores what fits before the
  terminating zero and returns its length.\<close>

type_synonym snprintf_fun = "nat \<Rightarrow> string \<Rightarrow> string"

definition snprintf_ok :: "snprintf_fun \<Rightarrow> bool" where
  "snprintf_ok f \<longleftrightarrow> (\<forall>n out. n > 0 \<longrightarrow> f n out = take (n - 1) out)"

section \<open>Database\_qualified\_name\<close>

record qualified_name =
  m_db :: "string option"
  m_name :: string

definition db_text :: "qualified_name \<Rightarrow> string" where
  "db_text q = (case m_db q of None \<Rightarrow> [] | Some d \<Rightarrow> d)"

definition name_eq :: "bool \<Rightarrow> (bool \<Rightarrow> string \<Rightarrow> string \<Rightarrow> int) \<Rightarrow> qualified_name \<Rightarrow> qualified_name \<Rightarrow> bool" where
  "name_eq lower_case_table_names strnncoll q other \<longleftrightarrow>
     length (db_text q) = length (db_text other) \<and> length (m_name q) = length (m_name other)
     \<and> strnncoll lower_case_table_names (db_text q) (db_text other) = 0
     \<and> strnncoll lower_case_table_names (m_name q) (m_name other) = 0"

definition split :: "string \<Rightarrow> qualified_name" where
  "split txt =
     (case strchr txt CHR ''.'' of None \<Rightarrow> \<lparr>m_db = None, m_name = txt\<rparr>
      | Some dblen \<Rightarrow> \<lparr>m_db = Some (take dblen txt), m_name = drop (dblen + 1) txt\<rparr>)"

definition make_qname_buffer :: "snprintf_fun \<Rightarrow> nat \<Rightarrow> qualified_name \<Rightarrow> string" where
  "make_qname_buffer my_snprintf dstlen q = my_snprintf dstlen (print_limited (db_text q) @ ''.'' @ print_limited (m_name q))"

text \<open>The length that is set, and the text that is printed.\<close>

definition make_qname :: "bool \<Rightarrow> qualified_name \<Rightarrow> bool \<times> nat \<times> string" where
  "make_qname oom q =
     (let dot = (if length (db_text q) \<noteq> 0 then 1 else 0); len = length (db_text q) + dot + length (m_name q)
      in if oom then (True, len, [])
         else (False, len, (if length (db_text q) \<noteq> 0 then print_limited (db_text q) else []) @ take dot ''.'' @ print_limited (m_name q)))"

definition make_package_routine_name :: "snprintf_fun \<Rightarrow> bool \<Rightarrow> string \<Rightarrow> string \<Rightarrow> qualified_name \<Rightarrow> bool \<times> qualified_name" where
  "make_package_routine_name my_snprintf oom package routine q =
     (let len = length package + 1 + length routine + 1
      in if oom then (True, q)
         else (False, q\<lparr>m_name := my_snprintf len (print_limited package @ ''.'' @ print_limited routine)\<rparr>))"

definition make_package_routine_name_db :: "snprintf_fun \<Rightarrow> bool \<Rightarrow> bool \<Rightarrow> string \<Rightarrow> string \<Rightarrow> string \<Rightarrow> qualified_name \<Rightarrow> bool \<times> qualified_name" where
  "make_package_routine_name_db my_snprintf oom oom_db db package routine q =
     (let (rc, q) = make_package_routine_name my_snprintf oom package routine q
      in if rc then (True, q) else if oom_db then (True, q\<lparr>m_db := None\<rparr>) else (False, q\<lparr>m_db := Some db\<rparr>))"

section \<open>Quotes\<close>

fun drop_doubled :: "char \<Rightarrow> string \<Rightarrow> string" where
  "drop_doubled quote [] = []"
| "drop_doubled quote (c # cs) = c # drop_doubled quote (if c = quote then tl cs else cs)"

definition quote_unescape :: "bool \<Rightarrow> char \<Rightarrow> string \<Rightarrow> bool \<times> string" where
  "quote_unescape oom quote src = (if oom then (True, []) else (False, drop_doubled quote src))"

section \<open>Round trips\<close>

lemma print_limited_id: "NUL \<notin> set s \<Longrightarrow> print_limited s = s"
  by (auto simp: print_limited_def takeWhile_eq_all_conv)

lemma strchr_append: "c \<notin> set xs \<Longrightarrow> NUL \<notin> set xs \<Longrightarrow> strchr (xs @ c # ys) c = Some (length xs)"
  by (induction xs) auto

lemma strchr_absent: "c \<notin> set xs \<Longrightarrow> strchr xs c = None"
  by (induction xs) auto

lemma strchr_Some: "strchr xs c = Some n \<Longrightarrow> n < length xs \<and> xs ! n = c \<and> c \<notin> set (take n xs)"
  by (induction xs arbitrary: n) (auto split: if_splits simp: nth_Cons')

text \<open>A qualified name that is printed and split again is recovered, if the database has a name without dots and there are
  no zero bytes; a name without database is recovered if it has no dots. The length that is set is that of the text. In the
  other direction, every text is recovered from its parts unless the database part is empty.\<close>

theorem qualified_name_round_trip:
  assumes "NUL \<notin> set (db_text q)" and "NUL \<notin> set (m_name q)"
    and "case m_db q of None \<Rightarrow> CHR ''.'' \<notin> set (m_name q) | Some d \<Rightarrow> d \<noteq> [] \<and> CHR ''.'' \<notin> set d"
  shows "case make_qname False q of (rc, len, txt) \<Rightarrow> \<not> rc \<and> length txt = len \<and> split txt = q"
proof (cases "m_db q")
  case None
  then show ?thesis using assms
    by (cases q) (auto simp: make_qname_def db_text_def split_def strchr_absent print_limited_id Let_def)
next
  case (Some d)
  then have d: "d \<noteq> []" "CHR ''.'' \<notin> set d" "NUL \<notin> set d" using assms by (simp_all add: db_text_def)
  have "split (d @ CHR ''.'' # m_name q) = \<lparr>m_db = Some d, m_name = m_name q\<rparr>"
    using strchr_append [OF d(2,3), of "m_name q"] by (simp add: split_def)
  then show ?thesis using Some d assms(2) by (cases q) (auto simp: make_qname_def db_text_def print_limited_id Let_def)
qed

lemma split_then_print:
  assumes "NUL \<notin> set txt" and "m_db (split txt) \<noteq> Some []"
  shows "make_qname False (split txt) = (False, length txt, txt)"
proof (cases "strchr txt CHR ''.''")
  case None
  then show ?thesis using assms by (simp add: split_def make_qname_def db_text_def print_limited_id)
next
  case (Some n)
  then have n: "n < length txt" "txt ! n = CHR ''.''" using strchr_Some by auto
  have "txt = take n txt @ txt ! n # drop (Suc n) txt" using n(1) by (rule id_take_nth_drop)
  moreover have "NUL \<notin> set (take n txt)" "NUL \<notin> set (drop (Suc n) txt)" using assms(1) by (auto dest: in_set_takeD in_set_dropD)
  ultimately show ?thesis using Some n assms(2) by (auto simp: split_def make_qname_def db_text_def print_limited_id Let_def)
qed

text \<open>A database whose name contains a dot is not recovered.\<close>

lemma split_dotted_database:
  "case make_qname False \<lparr>m_db = Some ''a.b'', m_name = ''c''\<rparr> of (rc, len, txt) \<Rightarrow> split txt = \<lparr>m_db = Some ''a'', m_name = ''b.c''\<rparr>"
  by (simp add: make_qname_def db_text_def print_limited_def split_def Let_def NUL_def)

text \<open>The buffer for the name of a routine of a package has room for all of it.\<close>

lemma package_routine_fits:
  assumes "snprintf_ok f" and "NUL \<notin> set package" and "NUL \<notin> set routine"
  shows "make_package_routine_name f False package routine q = (False, q\<lparr>m_name := package @ ''.'' @ routine\<rparr>)"
  using assms by (simp add: make_package_routine_name_def snprintf_ok_def print_limited_id)

lemma qname_buffer_prefix:
  assumes "snprintf_ok f" and "0 < n" and "NUL \<notin> set (db_text q)" and "NUL \<notin> set (m_name q)"
  shows "make_qname_buffer f n q = take (n - 1) (db_text q @ ''.'' @ m_name q)"
  using assms by (simp add: make_qname_buffer_def snprintf_ok_def print_limited_id)

text \<open>Equality of names is an equivalence if equality in the collation is, and finer: names of different lengths are different.\<close>

lemma name_eq_equivalence:
  assumes "\<And>l a. coll l a a = 0" and "\<And>l a b. coll l a b = 0 \<Longrightarrow> coll l b a = (0 :: int)"
    and "\<And>l a b c. coll l a b = 0 \<Longrightarrow> coll l b c = 0 \<Longrightarrow> coll l a c = 0"
  shows "name_eq l coll p p" and "name_eq l coll p q \<Longrightarrow> name_eq l coll q p"
    and "name_eq l coll p q \<Longrightarrow> name_eq l coll q r \<Longrightarrow> name_eq l coll p r"
proof -
  show "name_eq l coll p p" by (simp add: name_eq_def assms(1))
  show "name_eq l coll q p" if "name_eq l coll p q"
    using that assms(2) [of l "db_text p" "db_text q"] assms(2) [of l "m_name p" "m_name q"] unfolding name_eq_def by simp
  show "name_eq l coll p r" if "name_eq l coll p q" "name_eq l coll q r"
    using that assms(3) [of l "db_text p" "db_text q" "db_text r"] assms(3) [of l "m_name p" "m_name q" "m_name r"]
    unfolding name_eq_def by simp
qed

definition quote_escape :: "char \<Rightarrow> string \<Rightarrow> string" where
  "quote_escape quote s = concat (map (\<lambda>c. if c = quote then [quote, quote] else [c]) s)"

text \<open>Doubled quotes are removed: the identifier that was escaped comes back, for every quote character. For every input,
  well formed or not, the result is not longer than the source, for which the memory is sized.\<close>

theorem quote_round_trip:
  "quote_unescape False quote (quote_escape quote s) = (False, s) \<and> length (snd (quote_unescape oom quote src)) \<le> length src"
proof -
  have "drop_doubled quote (quote_escape quote s) = s" by (induction s) (auto simp: quote_escape_def)
  moreover have "length (drop_doubled quote src) \<le> length src"
    by (induction quote src rule: drop_doubled.induct) (auto split: if_splits)
  ultimately show ?thesis by (simp add: quote_unescape_def)
qed

section \<open>Examples\<close>

theorem qualified_name_round_trip_witness:
  "split (snd (snd (make_qname False \<lparr>m_db = Some ''d'', m_name = ''t.x''\<rparr>))) = \<lparr>m_db = Some ''d'', m_name = ''t.x''\<rparr>"
  using qualified_name_round_trip [of "\<lparr>m_db = Some ''d'', m_name = ''t.x''\<rparr>"]
  by (simp add: db_text_def NUL_def split_beta)

end
