(* ===== verification/Xids.thy ===== *)
theory Xids
  imports Byte_Order Fixed_Bin
begin

text \<open>
  Transaction identifiers: the struct \<^verbatim>\<open>xid_t\<close> of \<^verbatim>\<open>handler.h\<close> and the text form that the XA events of
  \<^verbatim>\<open>log_event.h\<close> log. An identifier is held in the memory layout of the struct on the bundled build, where \<^verbatim>\<open>long\<close> has 32
  bits and bytes are stored low byte first: two operations, \<^verbatim>\<open>key\<close> and the copying \<^verbatim>\<open>set\<close>, work on that layout. A copy or
  comparison that would leave the 128 bytes of \<^verbatim>\<open>data\<close> is the value \<^const>\<open>None\<close>.
\<close>

section \<open>Data\<close>

abbreviation XIDDATASIZE :: nat where
  "XIDDATASIZE \<equiv> 128"

abbreviation MYSQL_XID_PREFIX :: "uchar list" where
  "MYSQL_XID_PREFIX \<equiv> [77, 121, 83, 81, 76, 88, 105, 100]"

abbreviation MYSQL_XID_PREFIX_LEN :: nat where
  "MYSQL_XID_PREFIX_LEN \<equiv> 8"

abbreviation MYSQL_XID_OFFSET :: nat where
  "MYSQL_XID_OFFSET \<equiv> MYSQL_XID_PREFIX_LEN + 4"

abbreviation MYSQL_XID_GTRID_LEN :: nat where
  "MYSQL_XID_GTRID_LEN \<equiv> MYSQL_XID_OFFSET + 8"

record xid_t =
  formatID :: "32 word"
  gtrid_length :: "32 word"
  bqual_length :: "32 word"
  xid_data :: "uchar list"

text \<open>The bytes of a word in memory, the word in a block of memory, and \<^verbatim>\<open>memcpy\<close> into a block.\<close>

definition le_bytes :: "nat \<Rightarrow> 'a::len word \<Rightarrow> uchar list" where
  "le_bytes n w = map (\<lambda>i. ucast (drop_bit (8 * i) w)) [0..<n]"

definition le_word :: "nat \<Rightarrow> uchar list \<Rightarrow> 'a::len word" where
  "le_word n bs = le_load n (nth bs) 0"

definition memcpy_into :: "uchar list \<Rightarrow> nat \<Rightarrow> uchar list \<Rightarrow> uchar list option" where
  "memcpy_into blk off bs =
     (if off + length bs \<le> length blk then Some (take off blk @ bs @ drop (off + length bs) blk) else None)"

text \<open>A length of type \<^verbatim>\<open>long\<close> where a \<^verbatim>\<open>size_t\<close> is expected.\<close>

definition size_of_long :: "32 word \<Rightarrow> nat" where
  "size_of_long n = unat (scast n :: ulonglong)"

definition xid_image :: "xid_t \<Rightarrow> uchar list" where
  "xid_image x = le_bytes 4 (formatID x) @ le_bytes 4 (gtrid_length x) @ le_bytes 4 (bqual_length x) @ xid_data x"

definition xid_of_image :: "uchar list \<Rightarrow> xid_t" where
  "xid_of_image m = \<lparr>formatID = le_word 4 m, gtrid_length = le_word 4 (drop 4 m), bqual_length = le_word 4 (drop 8 m),
     xid_data = drop 12 m\<rparr>"

section \<open>Operations\<close>

definition is_null :: "xid_t \<Rightarrow> bool" where
  "is_null x \<longleftrightarrow> formatID x = - 1"

definition set_null :: "xid_t \<Rightarrow> xid_t" where
  "set_null x = x\<lparr>formatID := - 1\<rparr>"

definition key_length :: "xid_t \<Rightarrow> 32 word" where
  "key_length x = ucast ((4 :: ulonglong) + 4 + scast (gtrid_length x) + scast (bqual_length x))"

definition xid_length :: "xid_t \<Rightarrow> 32 word" where
  "xid_length x = 4 + key_length x"

text \<open>The memory that \<^verbatim>\<open>key()\<close> points to.\<close>

definition xid_key :: "xid_t \<Rightarrow> uchar list" where
  "xid_key x = drop 4 (xid_image x)"

definition xid_eq_parts :: "xid_t \<Rightarrow> 32 word \<Rightarrow> 32 word \<Rightarrow> uchar list \<Rightarrow> bool option" where
  "xid_eq_parts x g b d =
     (if \<not> is_null x \<and> g = gtrid_length x \<and> b = bqual_length x
      then (let n = size_of_long (g + b) in
        if n \<le> length d \<and> n \<le> length (xid_data x) then Some (memcmp_list (take n d) (take n (xid_data x)) = 0) else None)
      else Some False)"

definition xid_eq :: "xid_t \<Rightarrow> xid_t \<Rightarrow> bool option" where
  "xid_eq x y =
     (if \<not> is_null y then xid_eq_parts x (gtrid_length y) (bqual_length y) (xid_data y) else Some False)"

definition xid_set :: "xid_t \<Rightarrow> xid_t \<Rightarrow> xid_t option" where
  "xid_set y x =
     (let n = unat (xid_length y) in
      if n \<le> length (xid_image y) \<and> n \<le> length (xid_image x)
      then Some (xid_of_image (take n (xid_image y) @ drop n (xid_image x))) else None)"

definition xid_set_parts ::
  "32 word \<Rightarrow> uchar list \<Rightarrow> 32 word \<Rightarrow> uchar list \<Rightarrow> 32 word \<Rightarrow> xid_t \<Rightarrow> xid_t option" where
  "xid_set_parts f g gl b bl x =
     (let d = xid_data x in
      case (if gl \<noteq> 0 then if size_of_long gl \<le> length g then memcpy_into d 0 (take (size_of_long gl) g) else None else Some d) of
        None \<Rightarrow> None
      | Some d \<Rightarrow>
         (case (if bl \<noteq> 0 then if size_of_long bl \<le> length b then memcpy_into d (size_of_long gl) (take (size_of_long bl) b) else None
                else Some d) of
            None \<Rightarrow> None
          | Some d \<Rightarrow> Some \<lparr>formatID = f, gtrid_length = gl, bqual_length = bl, xid_data = d\<rparr>))"

definition xid_set_data :: "32 word \<Rightarrow> 32 word \<Rightarrow> uchar list \<Rightarrow> xid_t \<Rightarrow> xid_t option" where
  "xid_set_data g b d x =
     (let n = size_of_long (g + b) in
      if n \<le> length d
      then map_option (\<lambda>m. \<lparr>formatID = 1, gtrid_length = g, bqual_length = b, xid_data = m\<rparr>)
             (memcpy_into (xid_data x) 0 (take n d))
      else None)"

definition xid_set_my :: "ulonglong \<Rightarrow> 32 word \<Rightarrow> xid_t \<Rightarrow> xid_t option" where
  "xid_set_my xid trx_server_id x =
     (case xid_set_data (of_nat MYSQL_XID_PREFIX_LEN) 0 MYSQL_XID_PREFIX (x\<lparr>formatID := 1\<rparr>) of
        None \<Rightarrow> None
      | Some x \<Rightarrow>
         (case memcpy_into (xid_data x) MYSQL_XID_PREFIX_LEN (le_bytes 4 trx_server_id) of
            None \<Rightarrow> None
          | Some d \<Rightarrow>
             (case memcpy_into d MYSQL_XID_OFFSET (le_bytes 8 xid) of
                None \<Rightarrow> None
              | Some d \<Rightarrow> Some (x\<lparr>xid_data := d, gtrid_length := of_nat MYSQL_XID_GTRID_LEN\<rparr>))))"

definition quick_get_my_xid :: "xid_t \<Rightarrow> ulonglong" where
  "quick_get_my_xid x = le_word 8 (drop MYSQL_XID_OFFSET (xid_data x))"

definition get_my_xid :: "xid_t \<Rightarrow> ulonglong" where
  "get_my_xid x =
     (if gtrid_length x = of_nat MYSQL_XID_GTRID_LEN \<and> bqual_length x = 0 \<and>
         memcmp_list (take MYSQL_XID_PREFIX_LEN (xid_data x)) MYSQL_XID_PREFIX = 0
      then quick_get_my_xid x else 0)"

definition get_trx_server_id :: "xid_t \<Rightarrow> 32 word" where
  "get_trx_server_id x = le_word 4 (drop MYSQL_XID_PREFIX_LEN (xid_data x))"

section \<open>The text of an identifier\<close>

definition dig_vec_lower :: "uchar list" where
  "dig_vec_lower = map of_nat ([48..<58] @ [97..<123])"

function xid_hex_loop :: "uchar list \<Rightarrow> int \<Rightarrow> int \<Rightarrow> uchar list" where
  "xid_hex_loop dat i n =
     (if i < n
      then dig_vec_lower ! unat (drop_bit 4 (dat ! nat i)) # dig_vec_lower ! unat (dat ! nat i AND 15)
           # xid_hex_loop dat (i + 1) n
      else [])"
  by pat_completeness auto
termination by (relation "measure (\<lambda>(_, i, n). nat (n - i))") auto

declare xid_hex_loop.simps [simp del]

text \<open>The digits that \<^verbatim>\<open>%lu\<close> prints.\<close>

fun dec_text :: "nat \<Rightarrow> uchar list" where
  "dec_text n = (if n < 10 then [48 + of_nat n] else dec_text (n div 10) @ [48 + of_nat (n mod 10)])"

declare dec_text.simps [simp del]

definition serialize_xid :: "32 word \<Rightarrow> 32 word \<Rightarrow> 32 word \<Rightarrow> uchar list \<Rightarrow> uchar list" where
  "serialize_xid fmt gln bln dat =
     [88, 39] @ xid_hex_loop dat 0 (sint gln) @ [39, 44, 88, 39] @
     xid_hex_loop dat (max 0 (sint gln)) (sint gln + sint bln) @ [39, 44] @ dec_text (unat fmt)"

definition ser_buf_size :: nat where
  "ser_buf_size = 8 + 2 * XIDDATASIZE + 4 * 4 + 1"

definition xid_serialize :: "xid_t \<Rightarrow> uchar list" where
  "xid_serialize x = serialize_xid (formatID x) (gtrid_length x) (bqual_length x) (xid_data x)"

record XA_prepare_log_event =
  m_xid :: xid_t
  one_phase :: bool

definition XA_prepare_is_valid :: "XA_prepare_log_event \<Rightarrow> bool" where
  "XA_prepare_is_valid e \<longleftrightarrow> formatID (m_xid e) \<noteq> - 1"

definition XA_prepare_get_data_size :: "XA_prepare_log_event \<Rightarrow> 32 word" where
  "XA_prepare_get_data_size e = 12 + gtrid_length (m_xid e) + bqual_length (m_xid e)"

abbreviation XA_COMMIT :: "uchar list" where
  "XA_COMMIT \<equiv> [88, 65, 32, 67, 79, 77, 77, 73, 84, 32]"

abbreviation ONE_PHASE :: "uchar list" where
  "ONE_PHASE \<equiv> [32, 79, 78, 69, 32, 80, 72, 65, 83, 69]"

abbreviation XA_PREPARE :: "uchar list" where
  "XA_PREPARE \<equiv> [88, 65, 32, 80, 82, 69, 80, 65, 82, 69, 32]"

definition XA_query_size :: nat where
  "XA_query_size = length (XA_COMMIT @ tl ONE_PHASE) + 1 + 1 + ser_buf_size"

definition XA_prepare_get_query :: "XA_prepare_log_event \<Rightarrow> uchar list" where
  "XA_prepare_get_query e =
     (if one_phase e then XA_COMMIT @ xid_serialize (m_xid e) @ ONE_PHASE else XA_PREPARE @ xid_serialize (m_xid e))"

section \<open>Recovery\<close>

type_synonym Binlog_offset = "32 word \<times> ulonglong"

definition MAX_Binlog_offset :: Binlog_offset where
  "MAX_Binlog_offset = (- 1, - 1)"

record xid_recovery_member =
  member_xid :: ulonglong
  in_engine_prepare :: "32 word"
  decided_to_commit :: bool
  binlog_coord :: Binlog_offset
  full_xid :: "addr option"
  member_server_id :: "32 word"

definition new_recovery_member :: "ulonglong \<Rightarrow> 32 word \<Rightarrow> bool \<Rightarrow> addr option \<Rightarrow> 32 word \<Rightarrow> xid_recovery_member" where
  "new_recovery_member xid prepare decided full server_id =
     \<lparr>member_xid = xid, in_engine_prepare = prepare, decided_to_commit = decided, binlog_coord = MAX_Binlog_offset,
      full_xid = full, member_server_id = server_id\<rparr>"

section \<open>Well-formed identifiers\<close>

definition wf_xid :: "xid_t \<Rightarrow> bool" where
  "wf_xid x \<longleftrightarrow> length (xid_data x) = XIDDATASIZE \<and> unat (gtrid_length x) + unat (bqual_length x) \<le> XIDDATASIZE"

definition xid_gtrid :: "xid_t \<Rightarrow> uchar list" where
  "xid_gtrid x = take (unat (gtrid_length x)) (xid_data x)"

definition xid_bqual :: "xid_t \<Rightarrow> uchar list" where
  "xid_bqual x = take (unat (bqual_length x)) (drop (unat (gtrid_length x)) (xid_data x))"

section \<open>Bytes and words\<close>

lemma length_le_bytes [simp]: "length (le_bytes n w) = n"
  by (simp add: le_bytes_def)

lemma le_word_append [simp]: "length bs = n \<Longrightarrow> le_word n (bs @ cs) = le_word n bs"
  by (rule bit_word_eqI) (auto simp: le_word_def bits_of nth_append)

lemma le_word_take [simp]: "le_word n (take n bs) = le_word n bs"
  by (rule bit_word_eqI) (auto simp: le_word_def bits_of)

lemma le_word_bytes [simp]: "LENGTH('a::len) \<le> 8 * n \<Longrightarrow> le_word n (le_bytes n w) = (w :: 'a word)"
  by (rule bit_word_eqI) (auto simp: le_word_def le_bytes_def bits_of bit_simps)

lemma le_bytes_word:
  assumes n: "n \<le> length bs" "8 * n \<le> LENGTH('a::len)"
  shows "le_bytes n (le_word n bs :: 'a word) = take n bs"
proof (rule nth_equalityI)
  fix i assume i: "i < length (le_bytes n (le_word n bs :: 'a word))"
  show "le_bytes n (le_word n bs :: 'a word) ! i = take n bs ! i"
  proof (rule bit_word_eqI)
    fix k assume "k < LENGTH(8)"
    then have "k < 8" by simp
    then have "(8 * i + k) div 8 = i" "(8 * i + k) mod 8 = k" "8 * i + k < 8 * n" using i by auto
    then show "bit (le_bytes n (le_word n bs :: 'a word) ! i) k = bit (take n bs ! i) k"
      using i n \<open>k < 8\<close> by (simp add: le_bytes_def le_word_def bits_of bit_simps)
  qed
qed (use n in simp)

lemma le_bytes_inj: "LENGTH('a::len) \<le> 8 * n \<Longrightarrow> le_bytes n v = le_bytes n w \<longleftrightarrow> v = (w :: 'a word)"
  by (metis le_word_bytes)

lemma scast_long_small:
  assumes "unat (n :: 32 word) < 2 ^ 31" shows "scast n = (of_nat (unat n) :: ulonglong)"
  using sint_small_32 [OF assms] by (metis of_int_sint of_int_of_nat_eq)

lemma size_of_long_small [simp]:
  assumes "unat n < 2 ^ 31" shows "size_of_long n = unat n"
  unfolding size_of_long_def scast_long_small [OF assms] unat_of_nat using assms by simp

lemma unat_add_small: "unat (g :: 32 word) + unat b \<le> XIDDATASIZE \<Longrightarrow> unat (g + b) = unat g + unat b"
  by (simp add: unat_word_ariths)

lemma wf_xidD:
  assumes "wf_xid x"
  shows "length (xid_data x) = XIDDATASIZE" "unat (gtrid_length x) + unat (bqual_length x) \<le> XIDDATASIZE"
    "size_of_long (gtrid_length x + bqual_length x) = unat (gtrid_length x) + unat (bqual_length x)"
  using assms by (simp_all add: wf_xid_def unat_add_small)

lemma key_length_wf:
  assumes "wf_xid x" shows "unat (key_length x) = 8 + unat (gtrid_length x) + unat (bqual_length x)"
proof -
  let ?n = "8 + unat (gtrid_length x) + unat (bqual_length x)"
  have b: "unat (gtrid_length x) + unat (bqual_length x) \<le> XIDDATASIZE" using assms by (rule wf_xidD)
  then have "scast (gtrid_length x) = (of_nat (unat (gtrid_length x)) :: ulonglong)"
    "scast (bqual_length x) = (of_nat (unat (bqual_length x)) :: ulonglong)" by (simp_all add: scast_long_small)
  then have "(4 :: ulonglong) + 4 + scast (gtrid_length x) + scast (bqual_length x) = of_nat ?n" by simp
  then have "key_length x = ucast (of_nat ?n :: ulonglong)" by (simp only: key_length_def)
  also have "\<dots> = of_nat ?n" using b unfolding unsigned_of_nat by (subst take_bit_nat_eq_self) simp_all
  finally show ?thesis using b by (simp only: unat_of_nat) simp
qed

lemma xid_length_wf:
  assumes "wf_xid x" shows "unat (xid_length x) = 12 + unat (gtrid_length x) + unat (bqual_length x)"
proof -
  have "unat (gtrid_length x) + unat (bqual_length x) \<le> XIDDATASIZE" using assms by (rule wf_xidD)
  then show ?thesis using key_length_wf [OF assms] by (simp add: xid_length_def unat_word_ariths)
qed

lemma length_xid_image [simp]: "length (xid_image x) = 12 + length (xid_data x)"
  by (simp add: xid_image_def)

lemma take_xid_key:
  "wf_xid x \<Longrightarrow> take (unat (key_length x)) (xid_key x) =
     le_bytes 4 (gtrid_length x) @ le_bytes 4 (bqual_length x) @ take (unat (gtrid_length x) + unat (bqual_length x)) (xid_data x)"
  by (simp add: key_length_wf xid_key_def xid_image_def)

lemma xid_of_image_image: "length (xid_data x) = n \<Longrightarrow> xid_of_image (xid_image x) = x"
  by (simp add: xid_of_image_def xid_image_def)

section \<open>Equality\<close>

lemma xid_eq_wf:
  assumes "wf_xid x" "wf_xid y" "\<not> is_null x" "\<not> is_null y"
  shows "xid_eq x y = Some (gtrid_length x = gtrid_length y \<and> bqual_length x = bqual_length y \<and>
     take (unat (gtrid_length x) + unat (bqual_length x)) (xid_data x) = take (unat (gtrid_length y) + unat (bqual_length y)) (xid_data y))"
  using assms wf_xidD [OF assms(1)] wf_xidD [OF assms(2)]
  by (auto simp: xid_eq_def xid_eq_parts_def Let_def memcmp_list_0_iff)

lemma xid_eq_key:
  assumes "wf_xid x" "wf_xid y"
  shows "xid_eq x y = Some (\<not> is_null x \<and> \<not> is_null y \<and>
    take (unat (key_length x)) (xid_key x) = take (unat (key_length y)) (xid_key y))"
proof (cases "is_null x \<or> is_null y")
  case True
  then show ?thesis by (auto simp: xid_eq_def xid_eq_parts_def)
next
  case False
  then show ?thesis
    using assms xid_eq_wf [of x y] by (auto simp: take_xid_key le_bytes_inj)
qed

text \<open>C28. Two identifiers that are not null are equal exactly when their hash keys, the bytes from \<^verbatim>\<open>gtrid_length\<close> on that
  \<^verbatim>\<open>key()\<close> and \<^verbatim>\<open>key_length()\<close> delimit, are the same; the format number takes no part. A null identifier equals none.\<close>

theorem xid_eq_iff_key:
  assumes "wf_xid x" "wf_xid y"
  shows "xid_eq x y = Some (\<not> is_null x \<and> \<not> is_null y \<and>
    take (unat (key_length x)) (xid_key x) = take (unat (key_length y)) (xid_key y))"
  using assms by (rule xid_eq_key)

theorem xid_eq_iff_key_witness:
  "xid_eq \<lparr>formatID = 1, gtrid_length = 1, bqual_length = 1, xid_data = 7 # 8 # replicate 126 0\<rparr>
     \<lparr>formatID = 5, gtrid_length = 1, bqual_length = 1, xid_data = 7 # 8 # replicate 126 9\<rparr> = Some True"
  by (subst xid_eq_iff_key) (simp_all add: wf_xid_def take_xid_key is_null_def)

text \<open>The copying \<^verbatim>\<open>set\<close> gives an identifier of the same format and the same key, although it copies only the bytes in use,
  and the copy is well-formed: the copy of an identifier that is not null equals it.\<close>

theorem xid_set_copies:
  assumes "wf_xid y" "length (xid_data x) = XIDDATASIZE"
  shows "\<exists>z. xid_set y x = Some z \<and> wf_xid z \<and> formatID z = formatID y \<and> gtrid_length z = gtrid_length y \<and>
    bqual_length z = bqual_length y \<and> xid_gtrid z = xid_gtrid y \<and> xid_bqual z = xid_bqual y \<and>
    xid_eq z y = Some (\<not> is_null y)"
proof -
  let ?n = "unat (gtrid_length y) + unat (bqual_length y)"
  let ?z = "y\<lparr>xid_data := take ?n (xid_data y) @ drop ?n (xid_data x)\<rparr>"
  have l: "length (xid_data y) = XIDDATASIZE" "?n \<le> XIDDATASIZE" using assms(1) by (rule wf_xidD)+
  have "take (12 + ?n) (xid_image y) @ drop (12 + ?n) (xid_image x) = xid_image ?z"
    by (simp add: xid_image_def)
  then have s: "xid_set y x = Some ?z"
    using assms(2) l by (simp add: xid_set_def Let_def xid_length_wf [OF assms(1)] xid_of_image_image add.assoc)
  have w: "wf_xid ?z" using l assms(2) by (simp add: wf_xid_def)
  have "xid_gtrid ?z = xid_gtrid y" "xid_bqual ?z = xid_bqual y" using l by (simp_all add: xid_gtrid_def xid_bqual_def take_drop)
  moreover have "xid_eq ?z y = Some (\<not> is_null y)"
    unfolding xid_eq_key [OF w assms(1)] using l by (auto simp: take_xid_key w assms(1) is_null_def)
  ultimately show ?thesis using s w by auto
qed

theorem xid_set_copies_witness:
  "\<exists>z. xid_set \<lparr>formatID = 5, gtrid_length = 1, bqual_length = 1, xid_data = 7 # 8 # replicate 126 9\<rparr>
      \<lparr>formatID = - 1, gtrid_length = 0, bqual_length = 0, xid_data = replicate 128 3\<rparr> = Some z \<and> xid_bqual z = [8]"
proof -
  have "wf_xid \<lparr>formatID = 5, gtrid_length = 1, bqual_length = 1, xid_data = 7 # 8 # replicate 126 9\<rparr>"
    by (simp add: wf_xid_def)
  from xid_set_copies [OF this, of "\<lparr>formatID = - 1, gtrid_length = 0, bqual_length = 0, xid_data = replicate 128 3\<rparr>"]
  show ?thesis by (auto simp: xid_bqual_def)
qed

section \<open>Identifiers of the server\<close>

lemma memcpy_into_Some: "off + length bs \<le> length blk \<Longrightarrow> memcpy_into blk off bs = Some (take off blk @ bs @ drop (off + length bs) blk)"
  by (simp add: memcpy_into_def)

lemma xid_set_my_Some:
  assumes "length (xid_data x) = XIDDATASIZE"
  shows "xid_set_my n sid x = Some \<lparr>formatID = 1, gtrid_length = of_nat MYSQL_XID_GTRID_LEN, bqual_length = 0,
    xid_data = MYSQL_XID_PREFIX @ le_bytes 4 sid @ le_bytes 8 n @ drop MYSQL_XID_GTRID_LEN (xid_data x)\<rparr>"
  using assms by (simp add: xid_set_my_def xid_set_data_def Let_def memcpy_into_Some)

text \<open>C36. An identifier that the server makes for a transaction of its own gives back the number of the transaction and the
  server that made it, is well-formed and not null. Conversely, an identifier that yields a number other than 0 is equal to the
  one the server makes from that number and server.\<close>

theorem my_xid_round_trip:
  assumes "length (xid_data x) = XIDDATASIZE"
  shows "(\<exists>y. xid_set_my n sid x = Some y \<and> wf_xid y \<and> \<not> is_null y \<and> get_my_xid y = n \<and> get_trx_server_id y = sid) \<and>
    (\<forall>z. wf_xid z \<longrightarrow> \<not> is_null z \<longrightarrow> get_my_xid z \<noteq> 0 \<longrightarrow>
      (\<exists>y. xid_set_my (get_my_xid z) (get_trx_server_id z) x = Some y \<and> xid_eq z y = Some True))"
proof
  let ?y = "\<lambda>n sid. \<lparr>formatID = 1, gtrid_length = of_nat MYSQL_XID_GTRID_LEN, bqual_length = 0,
    xid_data = MYSQL_XID_PREFIX @ le_bytes 4 sid @ le_bytes 8 n @ drop MYSQL_XID_GTRID_LEN (xid_data x)\<rparr>"
  have y: "wf_xid (?y n sid) \<and> \<not> is_null (?y n sid)" for n sid using assms by (simp add: wf_xid_def is_null_def)
  have "get_my_xid (?y n sid) = n" "get_trx_server_id (?y n sid) = sid"
    by (simp_all add: get_my_xid_def quick_get_my_xid_def get_trx_server_id_def)
  with y show "\<exists>y. xid_set_my n sid x = Some y \<and> wf_xid y \<and> \<not> is_null y \<and> get_my_xid y = n \<and> get_trx_server_id y = sid"
    by (simp add: xid_set_my_Some [OF assms])
  show "\<forall>z. wf_xid z \<longrightarrow> \<not> is_null z \<longrightarrow> get_my_xid z \<noteq> 0 \<longrightarrow>
      (\<exists>y. xid_set_my (get_my_xid z) (get_trx_server_id z) x = Some y \<and> xid_eq z y = Some True)"
  proof (intro allI impI)
    fix z assume z: "wf_xid z" "\<not> is_null z" "get_my_xid z \<noteq> 0"
    then have l: "length (xid_data z) = XIDDATASIZE" by (simp add: wf_xid_def)
    have g: "gtrid_length z = 20" "bqual_length z = 0" "take 8 (xid_data z) = MYSQL_XID_PREFIX"
      "get_my_xid z = le_word 8 (take 8 (drop 12 (xid_data z)))"
      using z(3) l by (auto simp: get_my_xid_def quick_get_my_xid_def memcmp_list_0_iff split: if_splits)
    have t: "get_trx_server_id z = le_word 4 (take 4 (drop 8 (xid_data z)))"
      by (simp add: get_trx_server_id_def)
    have "take 20 (xid_data z) = take 8 (xid_data z) @ take 4 (drop 8 (xid_data z)) @ take 8 (drop 12 (xid_data z))"
      using take_add [of 8 12 "xid_data z"] take_add [of 4 8 "drop 8 (xid_data z)"] by simp
    then have "take 20 (xid_data z) = MYSQL_XID_PREFIX @ le_bytes 4 (get_trx_server_id z) @ le_bytes 8 (get_my_xid z)"
      using l by (simp add: g t le_bytes_word)
    then have "xid_eq z (?y (get_my_xid z) (get_trx_server_id z)) = Some True"
      using z by (subst xid_eq_key) (simp_all add: take_xid_key g(1,2) is_null_def wf_xid_def assms)
    then show "\<exists>y. xid_set_my (get_my_xid z) (get_trx_server_id z) x = Some y \<and> xid_eq z y = Some True"
      by (simp add: xid_set_my_Some [OF assms])
  qed
qed

theorem my_xid_round_trip_witness:
  "\<exists>y. xid_set_my 77 3 \<lparr>formatID = - 1, gtrid_length = 0, bqual_length = 0, xid_data = replicate 128 0\<rparr> = Some y \<and>
     get_my_xid y = 77 \<and> get_trx_server_id y = 3"
  using my_xid_round_trip [of "\<lparr>formatID = - 1, gtrid_length = 0, bqual_length = 0, xid_data = replicate 128 0\<rparr>" 77 3] by auto

section \<open>The text form\<close>

lemma dig_vec_lower_hex: "d < 16 \<Longrightarrow> dig_vec_lower ! unat d = hex_digit d"
proof -
  assume "d < 16"
  then have "unat d < 16" by (simp add: word_less_nat_alt)
  then have "unat d \<in> set [0..<16]" by simp
  then have "d \<in> of_nat ` set [0..<16]" by (rule image_eqI [rotated]) simp
  then show ?thesis by (auto simp: dig_vec_lower_def hex_digit_def upt_rec)
qed

lemma byte_nibbles: "drop_bit 4 (b :: uchar) = b div 16" "b AND 15 = b mod 16"
proof -
  show "drop_bit 4 b = b div 16" by (simp add: drop_bit_eq_div)
  have "b AND mask 4 = b mod 2 ^ 4" by (simp only: take_bit_eq_mask [symmetric] take_bit_eq_mod)
  then show "b AND 15 = b mod 16" by (simp add: mask_eq_exp_minus_1)
qed

lemma xid_hex_loop_text:
  "nat n \<le> length dat \<Longrightarrow> 0 \<le> i \<Longrightarrow> xid_hex_loop dat i n = hex_text (drop (nat i) (take (nat n) dat))"
proof (induction dat i n rule: xid_hex_loop.induct)
  case (1 dat i n)
  show ?case
  proof (cases "i < n")
    case True
    then have "drop (nat i) (take (nat n) dat) = dat ! nat i # drop (nat (i + 1)) (take (nat n) dat)"
      using 1(2,3) Cons_nth_drop_Suc [of "nat i" "take (nat n) dat"] by (simp add: nat_add_distrib)
    then show ?thesis
      using True 1 by (subst xid_hex_loop.simps) (simp add: hex_text_def byte_nibbles dig_vec_lower_hex byte_halves)
  next
    case False
    then show ?thesis using 1(3) by (subst xid_hex_loop.simps) (simp add: hex_text_def)
  qed
qed

lemma dec_text_length: "n < 10 ^ Suc k \<Longrightarrow> length (dec_text n) \<le> Suc k"
proof (induction k arbitrary: n)
  case 0
  then show ?case by (simp add: dec_text.simps)
next
  case (Suc k)
  then have "n div 10 < 10 ^ Suc k" by simp
  from Suc.IH [OF this] show ?case by (subst dec_text.simps) simp
qed

definition dec_value :: "uchar list \<Rightarrow> nat" where
  "dec_value s = foldl (\<lambda>v c. 10 * v + unat (c - 48)) 0 s"

lemma dec_value_text: "dec_value (dec_text n) = n"
proof (induction n rule: dec_text.induct)
  case (1 n)
  have "unat (of_nat k :: uchar) = k" if "k < 10" for k using that by (simp add: unat_of_nat)
  then show ?case using 1 by (subst dec_text.simps) (simp add: dec_value_def)
qed

lemma hex_text_no_quote: "c \<in> set (hex_text m) \<Longrightarrow> c \<noteq> 39"
proof (induction m)
  case (Cons b m)
  have "hex_digit d \<noteq> 39" if "d < 16" for d
    using hex_value_digit [OF that] by (auto simp: hex_value_def)
  then show ?case using Cons byte_halves [of b] by (auto simp: hex_text_def)
qed (simp add: hex_text_def)

text \<open>Reading the text form: the digits up to the second quote, those up to the fourth, and the number after the comma.\<close>

definition parse_xid :: "uchar list \<Rightarrow> (nat \<times> uchar list \<times> uchar list) option" where
  "parse_xid s =
     (let g = takeWhile (\<lambda>c. c \<noteq> 39) (drop 2 s);
          s = drop 4 (dropWhile (\<lambda>c. c \<noteq> 39) (drop 2 s));
          b = takeWhile (\<lambda>c. c \<noteq> 39) s;
          s = drop 2 (dropWhile (\<lambda>c. c \<noteq> 39) s)
      in case (hex_parse g, hex_parse b) of (Some g, Some b) \<Rightarrow> Some (dec_value s, g, b) | _ \<Rightarrow> None)"

lemma takeWhile_hex_text [simp]:
  "takeWhile (\<lambda>c. c \<noteq> 39) (hex_text m @ 39 # s) = hex_text m" "dropWhile (\<lambda>c. c \<noteq> 39) (hex_text m @ 39 # s) = 39 # s"
  using hex_text_no_quote [of _ m] by (auto simp: takeWhile_append dropWhile_append)

lemma xid_serialize_text:
  assumes "wf_xid x"
  shows "xid_serialize x =
    [88, 39] @ hex_text (xid_gtrid x) @ [39, 44, 88, 39] @ hex_text (xid_bqual x) @ [39, 44] @ dec_text (unat (formatID x))"
proof -
  note w = wf_xidD [OF assms]
  have s: "sint (gtrid_length x) = int (unat (gtrid_length x))" "sint (bqual_length x) = int (unat (bqual_length x))"
    using w(2) by (simp_all add: sint_small_32)
  have g: "xid_hex_loop (xid_data x) 0 (int (unat (gtrid_length x))) = hex_text (xid_gtrid x)"
    using w(1,2) by (subst xid_hex_loop_text) (simp_all add: xid_gtrid_def)
  have b: "xid_hex_loop (xid_data x) (int (unat (gtrid_length x))) (int (unat (gtrid_length x)) + int (unat (bqual_length x)))
      = hex_text (xid_bqual x)"
    using w(1,2) by (subst xid_hex_loop_text) (simp_all add: xid_bqual_def nat_add_distrib drop_take del: uint_nonnegative)
  show ?thesis unfolding xid_serialize_def serialize_xid_def s using g b by simp
qed

text \<open>The text form of a well-formed identifier can be read back: it holds the format number and both parts of the
  identifier, so two identifiers with the same text are the same.\<close>

theorem xid_text_round_trip:
  assumes "wf_xid x"
  shows "parse_xid (xid_serialize x) = Some (unat (formatID x), xid_gtrid x, xid_bqual x)"
  by (simp add: xid_serialize_text [OF assms] parse_xid_def hex_parse_text dec_value_text)

theorem xid_text_round_trip_witness:
  "parse_xid (xid_serialize \<lparr>formatID = 5, gtrid_length = 1, bqual_length = 2, xid_data = [171, 7, 8] @ replicate 125 9\<rparr>) =
     Some (5, [171], [7, 8])"
  by (subst xid_text_round_trip) (simp_all add: wf_xid_def xid_gtrid_def xid_bqual_def)

lemma xid_serialize_length: "wf_xid x \<Longrightarrow> length (xid_serialize x) + 1 \<le> ser_buf_size"
proof -
  assume w: "wf_xid x"
  have "unat (formatID x) < 10 ^ Suc 9" using unat_less [of "formatID x"] by simp
  then have "length (dec_text (unat (formatID x))) \<le> Suc 9" by (rule dec_text_length)
  moreover have "length (xid_gtrid x) + length (xid_bqual x) \<le> XIDDATASIZE"
    using wf_xidD(2) [OF w] by (simp add: xid_gtrid_def xid_bqual_def)
  ultimately show ?thesis by (simp add: xid_serialize_text [OF w] length_hex_text ser_buf_size_def)
qed

text \<open>C21. The texts that the XA events write fit their buffers, the closing zero included: the identifier itself, and the
  statement \<^verbatim>\<open>XA PREPARE\<close> or \<^verbatim>\<open>XA COMMIT ... ONE PHASE\<close> that holds it, whose last byte is not needed.\<close>

theorem xa_texts_fit:
  assumes "wf_xid (m_xid e)"
  shows "length (xid_serialize (m_xid e)) + 1 \<le> ser_buf_size \<and> length (XA_prepare_get_query e) + 1 < XA_query_size"
  using xid_serialize_length [OF assms] by (simp add: XA_prepare_get_query_def XA_query_size_def)

theorem xa_texts_fit_witness:
  "length (XA_prepare_get_query \<lparr>m_xid = \<lparr>formatID = - 1, gtrid_length = 64, bqual_length = 64, xid_data = replicate 128 255\<rparr>,
     one_phase = True\<rparr>) + 1 < XA_query_size"
  using xa_texts_fit [of "\<lparr>m_xid = \<lparr>formatID = - 1, gtrid_length = 64, bqual_length = 64, xid_data = replicate 128 255\<rparr>,
     one_phase = True\<rparr>"] by (simp add: wf_xid_def)

section \<open>Other facts\<close>

text \<open>Setting an identifier from its parts stores both of them, and fails nowhere when they fit together.\<close>

theorem xid_set_from_parts:
  assumes "length (xid_data x) = XIDDATASIZE" "unat gl \<le> length g" "unat bl \<le> length b" "unat gl + unat bl \<le> XIDDATASIZE"
  shows "\<exists>y. xid_set_parts f g gl b bl x = Some y \<and> wf_xid y \<and> formatID y = f \<and>
    xid_gtrid y = take (unat gl) g \<and> xid_bqual y = take (unat bl) b"
proof -
  let ?y = "\<lparr>formatID = f, gtrid_length = gl, bqual_length = bl,
    xid_data = take (unat gl) g @ take (unat bl) b @ drop (unat gl + unat bl) (xid_data x)\<rparr>"
  have "xid_set_parts f g gl b bl x = Some ?y"
    using assms by (auto simp: xid_set_parts_def Let_def memcpy_into_Some min_def add.commute)
  then show ?thesis using assms by (auto simp: wf_xid_def xid_gtrid_def xid_bqual_def min_def)
qed

theorem xid_set_from_parts_witness:
  "\<exists>y. xid_set_parts 9 [1, 2] 2 [3] 1 \<lparr>formatID = - 1, gtrid_length = 0, bqual_length = 0, xid_data = replicate 128 0\<rparr> = Some y \<and>
     xid_gtrid y = [1, 2] \<and> xid_bqual y = [3]"
  using xid_set_from_parts [of "\<lparr>formatID = - 1, gtrid_length = 0, bqual_length = 0, xid_data = replicate 128 0\<rparr>" 2 "[1, 2]" 1 "[3]" 9]
  by auto

text \<open>A transaction of the recovery list starts at the largest offset there is, so any offset read from a log is not after it.\<close>

lemma recovery_starts_at_maximum:
  "fst off < fst (binlog_coord (new_recovery_member x p d f s)) \<or>
   fst off = fst (binlog_coord (new_recovery_member x p d f s)) \<and> snd off \<le> snd (binlog_coord (new_recovery_member x p d f s))"
  by (auto simp: new_recovery_member_def MAX_Binlog_offset_def word_order.extremum order.not_eq_order_implies_strict)

end
