(* ===== verification/Log_Event_Types.thy ===== *)
theory Log_Event_Types
  imports Session
begin

text \<open>
  Events of the binary log, from \<^verbatim>\<open>log_event.h\<close>: the numbers of the event types and the tests on them, and the part that is
  common to all events, \<^verbatim>\<open>Log_event\<close>, with its time, its buffer, its cache and the order of writing. The classes of events are
  in the theory that follows. The functions that other files define are arguments of the definitions that call them.
\<close>

section \<open>Types of events\<close>

datatype Log_event_type =
  UNKNOWN_EVENT | START_EVENT_V3 | QUERY_EVENT | STOP_EVENT | ROTATE_EVENT | INTVAR_EVENT | LOAD_EVENT | SLAVE_EVENT
  | CREATE_FILE_EVENT | APPEND_BLOCK_EVENT | EXEC_LOAD_EVENT | DELETE_FILE_EVENT | NEW_LOAD_EVENT | RAND_EVENT
  | USER_VAR_EVENT | FORMAT_DESCRIPTION_EVENT | XID_EVENT | BEGIN_LOAD_QUERY_EVENT | EXECUTE_LOAD_QUERY_EVENT
  | TABLE_MAP_EVENT | PRE_GA_WRITE_ROWS_EVENT | PRE_GA_UPDATE_ROWS_EVENT | PRE_GA_DELETE_ROWS_EVENT
  | WRITE_ROWS_EVENT_V1 | UPDATE_ROWS_EVENT_V1 | DELETE_ROWS_EVENT_V1 | INCIDENT_EVENT | HEARTBEAT_LOG_EVENT
  | IGNORABLE_LOG_EVENT | ROWS_QUERY_LOG_EVENT | WRITE_ROWS_EVENT | UPDATE_ROWS_EVENT | DELETE_ROWS_EVENT
  | GTID_LOG_EVENT | ANONYMOUS_GTID_LOG_EVENT | PREVIOUS_GTIDS_LOG_EVENT | TRANSACTION_CONTEXT_EVENT
  | VIEW_CHANGE_EVENT | XA_PREPARE_LOG_EVENT | MYSQL_EVENTS_END | ANNOTATE_ROWS_EVENT | BINLOG_CHECKPOINT_EVENT
  | GTID_EVENT | GTID_LIST_EVENT | START_ENCRYPTION_EVENT | QUERY_COMPRESSED_EVENT | WRITE_ROWS_COMPRESSED_EVENT_V1
  | UPDATE_ROWS_COMPRESSED_EVENT_V1 | DELETE_ROWS_COMPRESSED_EVENT_V1 | WRITE_ROWS_COMPRESSED_EVENT
  | UPDATE_ROWS_COMPRESSED_EVENT | DELETE_ROWS_COMPRESSED_EVENT | ENUM_END_EVENT

fun event_code :: "Log_event_type \<Rightarrow> nat" where
  "event_code UNKNOWN_EVENT = 0"
| "event_code START_EVENT_V3 = 1"
| "event_code QUERY_EVENT = 2"
| "event_code STOP_EVENT = 3"
| "event_code ROTATE_EVENT = 4"
| "event_code INTVAR_EVENT = 5"
| "event_code LOAD_EVENT = 6"
| "event_code SLAVE_EVENT = 7"
| "event_code CREATE_FILE_EVENT = 8"
| "event_code APPEND_BLOCK_EVENT = 9"
| "event_code EXEC_LOAD_EVENT = 10"
| "event_code DELETE_FILE_EVENT = 11"
| "event_code NEW_LOAD_EVENT = 12"
| "event_code RAND_EVENT = 13"
| "event_code USER_VAR_EVENT = 14"
| "event_code FORMAT_DESCRIPTION_EVENT = 15"
| "event_code XID_EVENT = 16"
| "event_code BEGIN_LOAD_QUERY_EVENT = 17"
| "event_code EXECUTE_LOAD_QUERY_EVENT = 18"
| "event_code TABLE_MAP_EVENT = 19"
| "event_code PRE_GA_WRITE_ROWS_EVENT = 20"
| "event_code PRE_GA_UPDATE_ROWS_EVENT = 21"
| "event_code PRE_GA_DELETE_ROWS_EVENT = 22"
| "event_code WRITE_ROWS_EVENT_V1 = 23"
| "event_code UPDATE_ROWS_EVENT_V1 = 24"
| "event_code DELETE_ROWS_EVENT_V1 = 25"
| "event_code INCIDENT_EVENT = 26"
| "event_code HEARTBEAT_LOG_EVENT = 27"
| "event_code IGNORABLE_LOG_EVENT = 28"
| "event_code ROWS_QUERY_LOG_EVENT = 29"
| "event_code WRITE_ROWS_EVENT = 30"
| "event_code UPDATE_ROWS_EVENT = 31"
| "event_code DELETE_ROWS_EVENT = 32"
| "event_code GTID_LOG_EVENT = 33"
| "event_code ANONYMOUS_GTID_LOG_EVENT = 34"
| "event_code PREVIOUS_GTIDS_LOG_EVENT = 35"
| "event_code TRANSACTION_CONTEXT_EVENT = 36"
| "event_code VIEW_CHANGE_EVENT = 37"
| "event_code XA_PREPARE_LOG_EVENT = 38"
| "event_code MYSQL_EVENTS_END = 39"
| "event_code ANNOTATE_ROWS_EVENT = 160"
| "event_code BINLOG_CHECKPOINT_EVENT = 161"
| "event_code GTID_EVENT = 162"
| "event_code GTID_LIST_EVENT = 163"
| "event_code START_ENCRYPTION_EVENT = 164"
| "event_code QUERY_COMPRESSED_EVENT = 165"
| "event_code WRITE_ROWS_COMPRESSED_EVENT_V1 = 166"
| "event_code UPDATE_ROWS_COMPRESSED_EVENT_V1 = 167"
| "event_code DELETE_ROWS_COMPRESSED_EVENT_V1 = 168"
| "event_code WRITE_ROWS_COMPRESSED_EVENT = 169"
| "event_code UPDATE_ROWS_COMPRESSED_EVENT = 170"
| "event_code DELETE_ROWS_COMPRESSED_EVENT = 171"
| "event_code ENUM_END_EVENT = 172"

lemma event_code_inj: "event_code a = event_code b \<longleftrightarrow> a = b"
  by (cases a; cases b) simp_all

text \<open>The code compares event types by their numbers.\<close>

instantiation Log_event_type :: linorder
begin

definition less_eq_Log_event_type :: "Log_event_type \<Rightarrow> Log_event_type \<Rightarrow> bool" where
  "less_eq_Log_event_type a b \<longleftrightarrow> event_code a \<le> event_code b"

definition less_Log_event_type :: "Log_event_type \<Rightarrow> Log_event_type \<Rightarrow> bool" where
  "less_Log_event_type a b \<longleftrightarrow> event_code a < event_code b"

instance
  by standard (auto simp: less_eq_Log_event_type_def less_Log_event_type_def event_code_inj)

end

definition MARIA_EVENTS_BEGIN :: Log_event_type where
  "MARIA_EVENTS_BEGIN = ANNOTATE_ROWS_EVENT"

definition LOG_EVENT_TYPES :: nat where
  "LOG_EVENT_TYPES = event_code ENUM_END_EVENT - 1"

datatype enum_logged_status = LOGGED_TABLE_MAP | LOGGED_ROW_EVENT | LOGGED_NO_DATA | LOGGED_CRITICAL

definition LOG_EVENT_IS_QUERY :: "Log_event_type \<Rightarrow> bool" where
  "LOG_EVENT_IS_QUERY t \<longleftrightarrow> t = QUERY_EVENT \<or> t = QUERY_COMPRESSED_EVENT"

definition LOG_EVENT_IS_WRITE_ROW :: "Log_event_type \<Rightarrow> bool" where
  "LOG_EVENT_IS_WRITE_ROW t \<longleftrightarrow> t = WRITE_ROWS_EVENT \<or> t = WRITE_ROWS_EVENT_V1 \<or>
     t = WRITE_ROWS_COMPRESSED_EVENT \<or> t = WRITE_ROWS_COMPRESSED_EVENT_V1"

definition LOG_EVENT_IS_UPDATE_ROW :: "Log_event_type \<Rightarrow> bool" where
  "LOG_EVENT_IS_UPDATE_ROW t \<longleftrightarrow> t = UPDATE_ROWS_EVENT \<or> t = UPDATE_ROWS_EVENT_V1 \<or>
     t = UPDATE_ROWS_COMPRESSED_EVENT \<or> t = UPDATE_ROWS_COMPRESSED_EVENT_V1"

definition LOG_EVENT_IS_DELETE_ROW :: "Log_event_type \<Rightarrow> bool" where
  "LOG_EVENT_IS_DELETE_ROW t \<longleftrightarrow> t = DELETE_ROWS_EVENT \<or> t = DELETE_ROWS_EVENT_V1 \<or>
     t = DELETE_ROWS_COMPRESSED_EVENT \<or> t = DELETE_ROWS_COMPRESSED_EVENT_V1"

definition LOG_EVENT_IS_ROW_COMPRESSED :: "Log_event_type \<Rightarrow> bool" where
  "LOG_EVENT_IS_ROW_COMPRESSED t \<longleftrightarrow> t = WRITE_ROWS_COMPRESSED_EVENT \<or> t = WRITE_ROWS_COMPRESSED_EVENT_V1 \<or>
     t = UPDATE_ROWS_COMPRESSED_EVENT \<or> t = UPDATE_ROWS_COMPRESSED_EVENT_V1 \<or>
     t = DELETE_ROWS_COMPRESSED_EVENT \<or> t = DELETE_ROWS_COMPRESSED_EVENT_V1"

definition LOG_EVENT_IS_ROW_V2 :: "Log_event_type \<Rightarrow> bool" where
  "LOG_EVENT_IS_ROW_V2 t \<longleftrightarrow> (t \<ge> WRITE_ROWS_EVENT \<and> t \<le> DELETE_ROWS_EVENT) \<or>
     (t \<ge> WRITE_ROWS_COMPRESSED_EVENT \<and> t \<le> DELETE_ROWS_COMPRESSED_EVENT)"

definition is_part_of_group :: "Log_event_type \<Rightarrow> bool" where
  "is_part_of_group t \<longleftrightarrow>
     t \<in> {GTID_EVENT, INTVAR_EVENT, RAND_EVENT, USER_VAR_EVENT, TABLE_MAP_EVENT, ANNOTATE_ROWS_EVENT}"

definition is_group_event :: "Log_event_type \<Rightarrow> bool" where
  "is_group_event t \<longleftrightarrow>
     t \<notin> {START_EVENT_V3, STOP_EVENT, ROTATE_EVENT, SLAVE_EVENT, FORMAT_DESCRIPTION_EVENT, INCIDENT_EVENT,
       HEARTBEAT_LOG_EVENT, BINLOG_CHECKPOINT_EVENT, GTID_LIST_EVENT, START_ENCRYPTION_EVENT}"

lemmas event_tests = LOG_EVENT_IS_QUERY_def LOG_EVENT_IS_WRITE_ROW_def LOG_EVENT_IS_UPDATE_ROW_def LOG_EVENT_IS_DELETE_ROW_def
  LOG_EVENT_IS_ROW_COMPRESSED_def LOG_EVENT_IS_ROW_V2_def less_eq_Log_event_type_def less_Log_event_type_def

section \<open>The part common to all events\<close>

datatype enum_skip_reason = EVENT_SKIP_NOT | EVENT_SKIP_IGNORE | EVENT_SKIP_COUNT

datatype enum_event_cache_type = EVENT_INVALID_CACHE | EVENT_STMT_CACHE | EVENT_TRANSACTIONAL_CACHE | EVENT_NO_CACHE
  | EVENT_CACHE_COUNT

record Log_event =
  log_pos :: ulonglong
  temp_buf :: "addr option"
  event_owns_temp_buf :: bool
  when_time :: my_time_t
  when_sec_part :: uint32
  event_server_id :: uint32
  event_flags :: uint16
  cache_type :: enum_event_cache_type

definition LOG_EVENT_ARTIFICIAL_F :: uint16 where "LOG_EVENT_ARTIFICIAL_F = 0x20"
definition LOG_EVENT_RELAY_LOG_F :: uint16 where "LOG_EVENT_RELAY_LOG_F = 0x40"
definition LOG_EVENT_IGNORABLE_F :: uint16 where "LOG_EVENT_IGNORABLE_F = 0x80"
definition LOG_EVENT_SKIP_REPLICATION_F :: uint16 where "LOG_EVENT_SKIP_REPLICATION_F = 0x8000"

text \<open>The session of the event, the session of the current thread and the clock are arguments.\<close>

definition get_time :: "THD option \<Rightarrow> THD option \<Rightarrow> ulonglong \<Rightarrow> Log_event \<Rightarrow> my_time_t \<times> Log_event" where
  "get_time thd current_thd my_hrtime e =
     (if when_time e \<noteq> 0 then (when_time e, e)
      else case thd of
        Some t \<Rightarrow> (start_time t, e\<lparr>when_time := start_time t, when_sec_part := start_time_sec_part t\<rparr>)
      | None \<Rightarrow>
         (case current_thd of
            Some t \<Rightarrow> (start_time t, e\<lparr>when_time := start_time t, when_sec_part := start_time_sec_part t\<rparr>)
          | None \<Rightarrow> (hrtime_to_my_time my_hrtime,
              e\<lparr>when_time := hrtime_to_my_time my_hrtime, when_sec_part := hrtime_sec_part my_hrtime\<rparr>)))"

definition set_artificial_event :: "Log_event \<Rightarrow> Log_event" where
  "set_artificial_event e = e\<lparr>event_flags := event_flags e OR LOG_EVENT_ARTIFICIAL_F\<rparr>"

definition set_relay_log_event :: "Log_event \<Rightarrow> Log_event" where
  "set_relay_log_event e = e\<lparr>event_flags := event_flags e OR LOG_EVENT_RELAY_LOG_F\<rparr>"

definition is_artificial_event :: "Log_event \<Rightarrow> bool" where
  "is_artificial_event e \<longleftrightarrow> event_flags e AND LOG_EVENT_ARTIFICIAL_F \<noteq> 0"

definition is_relay_log_event :: "Log_event \<Rightarrow> bool" where
  "is_relay_log_event e \<longleftrightarrow> event_flags e AND LOG_EVENT_RELAY_LOG_F \<noteq> 0"

definition use_trans_cache :: "Log_event \<Rightarrow> bool" where
  "use_trans_cache e \<longleftrightarrow> cache_type e = EVENT_TRANSACTIONAL_CACHE"

definition set_direct_logging :: "Log_event \<Rightarrow> Log_event" where
  "set_direct_logging e = e\<lparr>cache_type := EVENT_NO_CACHE\<rparr>"

definition use_direct_logging :: "Log_event \<Rightarrow> bool" where
  "use_direct_logging e \<longleftrightarrow> cache_type e = EVENT_NO_CACHE"

definition register_temp_buf :: "addr option \<Rightarrow> bool \<Rightarrow> Log_event \<Rightarrow> Log_event" where
  "register_temp_buf buf must_free e = e\<lparr>temp_buf := buf, event_owns_temp_buf := must_free\<rparr>"

text \<open>The buffers that are freed, and the event.\<close>

definition free_temp_buf :: "Log_event \<Rightarrow> addr list \<times> Log_event" where
  "free_temp_buf e =
     (case temp_buf e of
        Some p \<Rightarrow> (if event_owns_temp_buf e then [p] else [], e\<lparr>temp_buf := None\<rparr>)
      | None \<Rightarrow> ([], e))"

text \<open>Writing an event: header, post-header, body and footer in turn, each of them giving the error flag, until one fails.\<close>

definition then_write :: "('w \<Rightarrow> bool \<times> 'w) \<Rightarrow> ('w \<Rightarrow> bool \<times> 'w) \<Rightarrow> 'w \<Rightarrow> bool \<times> 'w" where
  "then_write f g w = (case f w of (err, w) \<Rightarrow> if err then (True, w) else g w)"

definition event_write ::
  "('w \<Rightarrow> bool \<times> 'w) \<Rightarrow> ('w \<Rightarrow> bool \<times> 'w) \<Rightarrow> ('w \<Rightarrow> bool \<times> 'w) \<Rightarrow> ('w \<Rightarrow> bool \<times> 'w) \<Rightarrow> 'w \<Rightarrow> bool \<times> 'w" where
  "event_write header data_header data_body footer =
     then_write header (then_write data_header (then_write data_body footer))"

text \<open>\<^verbatim>\<open>Log_event_writer::write\<close>: the status of the event is added whether or not the write succeeds.\<close>

definition writer_write :: "('w \<Rightarrow> bool \<times> 'w) \<Rightarrow> (enum_logged_status \<Rightarrow> 'w \<Rightarrow> 'w) \<Rightarrow> enum_logged_status \<Rightarrow> 'w \<Rightarrow> bool \<times> 'w" where
  "writer_write ev_write add_status status w = (case ev_write w of (res, w) \<Rightarrow> (res, add_status status w))"

section \<open>Properties\<close>

definition row_operation :: "Log_event_type \<Rightarrow> bool \<times> bool \<times> bool" where
  "row_operation t = (LOG_EVENT_IS_WRITE_ROW t, LOG_EVENT_IS_UPDATE_ROW t, LOG_EVENT_IS_DELETE_ROW t)"

text \<open>The tests on the types of row events fit together: an event writes, updates or deletes, never two of them; each compressed
  row event and each event of version 2 does one of them; and the arithmetic on type numbers that turns a compressed type into the
  type of the event inside it gives the uncompressed type of the same operation and the same version.\<close>

theorem row_event_tests:
  "row_operation t \<in> {(False, False, False), (True, False, False), (False, True, False), (False, False, True)} \<and>
   (LOG_EVENT_IS_ROW_COMPRESSED t \<or> LOG_EVENT_IS_ROW_V2 t \<longrightarrow> row_operation t \<noteq> (False, False, False)) \<and>
   (LOG_EVENT_IS_ROW_COMPRESSED t \<longrightarrow>
     (\<exists>u. event_code u = (if LOG_EVENT_IS_ROW_V2 t
          then event_code t - event_code WRITE_ROWS_COMPRESSED_EVENT + event_code WRITE_ROWS_EVENT
          else event_code t - event_code WRITE_ROWS_COMPRESSED_EVENT_V1 + event_code WRITE_ROWS_EVENT_V1) \<and>
        row_operation u = row_operation t \<and> \<not> LOG_EVENT_IS_ROW_COMPRESSED u \<and> (LOG_EVENT_IS_ROW_V2 u \<longleftrightarrow> LOG_EVENT_IS_ROW_V2 t)))"
proof (intro conjI impI)
  show "row_operation t \<in> {(False, False, False), (True, False, False), (False, True, False), (False, False, True)}"
    by (auto simp: row_operation_def event_tests)
  show "row_operation t \<noteq> (False, False, False)" if "LOG_EVENT_IS_ROW_COMPRESSED t \<or> LOG_EVENT_IS_ROW_V2 t"
    using that by (cases t) (simp_all add: row_operation_def event_tests)
  assume "LOG_EVENT_IS_ROW_COMPRESSED t"
  then have "t \<in> {WRITE_ROWS_COMPRESSED_EVENT, WRITE_ROWS_COMPRESSED_EVENT_V1, UPDATE_ROWS_COMPRESSED_EVENT,
      UPDATE_ROWS_COMPRESSED_EVENT_V1, DELETE_ROWS_COMPRESSED_EVENT, DELETE_ROWS_COMPRESSED_EVENT_V1}"
    by (simp add: event_tests)
  then obtain u where u: "(t, u) \<in> {(WRITE_ROWS_COMPRESSED_EVENT, WRITE_ROWS_EVENT), (WRITE_ROWS_COMPRESSED_EVENT_V1, WRITE_ROWS_EVENT_V1),
      (UPDATE_ROWS_COMPRESSED_EVENT, UPDATE_ROWS_EVENT), (UPDATE_ROWS_COMPRESSED_EVENT_V1, UPDATE_ROWS_EVENT_V1),
      (DELETE_ROWS_COMPRESSED_EVENT, DELETE_ROWS_EVENT), (DELETE_ROWS_COMPRESSED_EVENT_V1, DELETE_ROWS_EVENT_V1)}" by auto
  show "\<exists>u. event_code u = (if LOG_EVENT_IS_ROW_V2 t
          then event_code t - event_code WRITE_ROWS_COMPRESSED_EVENT + event_code WRITE_ROWS_EVENT
          else event_code t - event_code WRITE_ROWS_COMPRESSED_EVENT_V1 + event_code WRITE_ROWS_EVENT_V1) \<and>
        row_operation u = row_operation t \<and> \<not> LOG_EVENT_IS_ROW_COMPRESSED u \<and> (LOG_EVENT_IS_ROW_V2 u \<longleftrightarrow> LOG_EVENT_IS_ROW_V2 t)"
    by (rule exI [of _ u]) (use u in \<open>auto simp: row_operation_def event_tests\<close>)
qed

theorem row_event_tests_witness: "row_operation UPDATE_ROWS_COMPRESSED_EVENT = (False, True, False)"
  using row_event_tests [of UPDATE_ROWS_COMPRESSED_EVENT] by (simp add: row_operation_def event_tests)

text \<open>A part of a group belongs to a group; every type that is written has a length in the table of the format description event,
  whose size is stored in one byte.\<close>

lemma part_of_group_is_group_event: "is_part_of_group t \<Longrightarrow> is_group_event t"
  by (auto simp: is_part_of_group_def is_group_event_def)

lemma event_types_fit: "t \<noteq> ENUM_END_EVENT \<Longrightarrow> event_code t \<le> LOG_EVENT_TYPES" "LOG_EVENT_TYPES < 2 ^ 8"
  by (cases t; simp add: LOG_EVENT_TYPES_def) (simp add: LOG_EVENT_TYPES_def)

text \<open>The time of an event is fixed when it is first read: it is the start of the statement of its session, else of the
  current session, else the clock, and later reads give the same seconds and leave the microseconds alone, whatever the session and
  the clock show by then. (A session whose statement started at second 0 is the exception, since 0 stands for no time.)\<close>

theorem event_time_fixed:
  assumes "get_time thd cur hr e = (t, e')" "t \<noteq> 0"
  shows "when_time e' = t \<and> get_time thd2 cur2 hr2 e' = (t, e') \<and>
    (when_time e = 0 \<longrightarrow> (t, when_sec_part e') =
       (case thd of Some s \<Rightarrow> (start_time s, start_time_sec_part s)
        | None \<Rightarrow> (case cur of Some s \<Rightarrow> (start_time s, start_time_sec_part s) | None \<Rightarrow> (hrtime_to_my_time hr, hrtime_sec_part hr))))"
  using assms by (auto simp: get_time_def split: if_splits option.splits)

theorem event_time_fixed_witness:
  "let e = \<lparr>log_pos = 4, temp_buf = None, event_owns_temp_buf = False, when_time = 0, when_sec_part = 0, event_server_id = 1,
       event_flags = 0, cache_type = EVENT_STMT_CACHE\<rparr>
   in get_time None None 99000000 (snd (get_time None None 5000007 e)) = (5, e\<lparr>when_time := 5, when_sec_part := 7\<rparr>)"
proof -
  let ?e = "\<lparr>log_pos = 4, temp_buf = None, event_owns_temp_buf = False, when_time = 0, when_sec_part = 0, event_server_id = 1,
       event_flags = 0, cache_type = EVENT_STMT_CACHE\<rparr>"
  have g: "get_time None None 5000007 ?e = (5, ?e\<lparr>when_time := 5, when_sec_part := 7\<rparr>)"
    by (simp add: get_time_def hrtime_to_my_time_def hrtime_to_time_def hrtime_sec_part_def HRTIME_RESOLUTION_def)
  from event_time_fixed [OF this, of None None 99000000] g show ?thesis by (simp add: Let_def)
qed

text \<open>Freeing the buffer of an event a second time frees nothing, and a buffer that the event does not own is never freed.\<close>

lemma temp_buf_freed_once:
  "free_temp_buf e = (fs, e') \<Longrightarrow> fst (free_temp_buf e') = [] \<and> temp_buf e' = None \<and>
     (set fs = (if event_owns_temp_buf e then set_option (temp_buf e) else {}))"
  by (auto simp: free_temp_buf_def split: option.splits)

text \<open>Writing an event stops at the first part that fails and reports it; without a failure all four parts are written in
  order.\<close>

theorem event_write_outcome:
  "event_write h d b f w =
     (let (e1, w1) = h w; (e2, w2) = d w1; (e3, w3) = b w2; (e4, w4) = f w3
      in if e1 then (True, w1) else if e2 then (True, w2) else if e3 then (True, w3) else (e4, w4))"
  by (simp add: event_write_def then_write_def Let_def split: prod.splits)

end
