(* ===== verification/Log_Events.thy ===== *)
theory Log_Events
  imports Xids Log_Event_Types
begin

text \<open>
  The classes of binary log events of \<^verbatim>\<open>log_event.h\<close> with the virtual functions that the header defines, the options of
  \<^verbatim>\<open>LOAD DATA\<close>, server versions, the keywords of transactions, the flags of row events, and the encryption data of
  \<^verbatim>\<open>rpl_constants.h\<close>. An event is a value of the datatype of its class, with the members that these functions read; a pointer
  that they only compare with 0 is a truth value. The constructors that read events and the functions \<^verbatim>\<open>write\<close> and
  \<^verbatim>\<open>do_apply_event\<close> are in files that are not part of the sources.
\<close>

section \<open>Options of LOAD DATA\<close>

record sql_ex_info =
  cached_new_format :: "32 word"
  field_term_len :: uchar
  enclosed_len :: uchar
  line_term_len :: uchar
  line_start_len :: uchar
  escaped_len :: uchar

definition force_new_format :: "sql_ex_info \<Rightarrow> sql_ex_info" where
  "force_new_format x = x\<lparr>cached_new_format := 1\<rparr>"

definition new_format :: "sql_ex_info \<Rightarrow> bool \<times> sql_ex_info" where
  "new_format x =
     (if cached_new_format x \<noteq> - 1 then (cached_new_format x \<noteq> 0, x)
      else let b = (field_term_len x > 1 \<or> enclosed_len x > 1 \<or> line_term_len x > 1 \<or> line_start_len x > 1 \<or> escaped_len x > 1)
        in (b, x\<lparr>cached_new_format := (if b then 1 else 0)\<rparr>))"

definition ex_data_size :: "sql_ex_info \<Rightarrow> 32 word \<times> sql_ex_info" where
  "ex_data_size x =
     (case new_format x of (b, x) \<Rightarrow>
        (if b then ucast (field_term_len x) + ucast (enclosed_len x) + ucast (line_term_len x) +
           ucast (line_start_len x) + ucast (escaped_len x) + 6 else 7, x))"

section \<open>Versions\<close>

record Version =
  m_ver :: "uchar list"

definition mk_Version :: "uchar \<Rightarrow> uchar \<Rightarrow> uchar \<Rightarrow> Version" where
  "mk_Version v0 v1 v2 = \<lparr>m_ver = [v0, v1, v2]\<rparr>"

definition version_cmp :: "Version \<Rightarrow> Version \<Rightarrow> int" where
  "version_cmp v w = memcmp_list (m_ver v) (m_ver w)"

definition version_at :: "Version \<Rightarrow> nat \<Rightarrow> uchar option" where
  "version_at v i = (if i < 3 then Some (m_ver v ! i) else None)"

definition version_less :: "Version \<Rightarrow> Version \<Rightarrow> bool" where "version_less v w \<longleftrightarrow> version_cmp v w < 0"
definition version_greater :: "Version \<Rightarrow> Version \<Rightarrow> bool" where "version_greater v w \<longleftrightarrow> version_cmp v w > 0"
definition version_less_eq :: "Version \<Rightarrow> Version \<Rightarrow> bool" where "version_less_eq v w \<longleftrightarrow> version_cmp v w \<le> 0"
definition version_greater_eq :: "Version \<Rightarrow> Version \<Rightarrow> bool" where "version_greater_eq v w \<longleftrightarrow> version_cmp v w \<ge> 0"

definition version_is_valid :: "Version \<Rightarrow> bool" where
  "version_is_valid v \<longleftrightarrow> \<not> (m_ver v ! 0 = 0 \<and> m_ver v ! 1 = 0 \<and> m_ver v ! 2 = 0)"

section \<open>Queries\<close>

text \<open>Whether \<^verbatim>\<open>strncmp\<close> and \<^verbatim>\<open>strncasecmp\<close> find two zero-terminated strings equal; the strings are given without the zero.\<close>

fun strncmp_eq :: "nat \<Rightarrow> uchar list \<Rightarrow> uchar list \<Rightarrow> bool" where
  "strncmp_eq 0 s t = True"
| "strncmp_eq (Suc n) [] [] = True"
| "strncmp_eq (Suc n) (c # s) (d # t) = (c = d \<and> strncmp_eq n s t)"
| "strncmp_eq (Suc n) _ _ = False"

definition to_lower :: "uchar \<Rightarrow> uchar" where
  "to_lower c = (if 65 \<le> c \<and> c \<le> 90 then c + 32 else c)"

definition strncasecmp_eq :: "nat \<Rightarrow> uchar list \<Rightarrow> uchar list \<Rightarrow> bool" where
  "strncasecmp_eq n s t = strncmp_eq n (map to_lower s) (map to_lower t)"

abbreviation KW_BEGIN :: "uchar list" where "KW_BEGIN \<equiv> [66, 69, 71, 73, 78]"
abbreviation KW_COMMIT :: "uchar list" where "KW_COMMIT \<equiv> [67, 79, 77, 77, 73, 84]"
abbreviation KW_SAVEPOINT :: "uchar list" where "KW_SAVEPOINT \<equiv> [83, 65, 86, 69, 80, 79, 73, 78, 84]"
abbreviation KW_ROLLBACK :: "uchar list" where "KW_ROLLBACK \<equiv> [82, 79, 76, 76, 66, 65, 67, 75]"

definition is_trans_keyword :: "uchar list \<Rightarrow> uint32 \<Rightarrow> bool" where
  "is_trans_keyword query q_len \<longleftrightarrow>
     strncmp_eq (unat q_len) query KW_BEGIN \<or> strncmp_eq (unat q_len) query KW_COMMIT \<or>
     strncasecmp_eq 9 query KW_SAVEPOINT \<or> strncasecmp_eq 8 query KW_ROLLBACK"

definition query_is_begin :: "uchar list \<Rightarrow> bool" where "query_is_begin query \<longleftrightarrow> query = KW_BEGIN"
definition query_is_commit :: "uchar list \<Rightarrow> bool" where "query_is_commit query \<longleftrightarrow> query = KW_COMMIT"
definition query_is_rollback :: "uchar list \<Rightarrow> bool" where "query_is_rollback query \<longleftrightarrow> query = KW_ROLLBACK"

section \<open>Encryption of the log\<close>

abbreviation BINLOG_CRYPTO_SCHEME_LENGTH :: nat where "BINLOG_CRYPTO_SCHEME_LENGTH \<equiv> 1"
abbreviation BINLOG_KEY_VERSION_LENGTH :: nat where "BINLOG_KEY_VERSION_LENGTH \<equiv> 4"
abbreviation BINLOG_IV_LENGTH :: nat where "BINLOG_IV_LENGTH \<equiv> 16"
abbreviation BINLOG_NONCE_LENGTH :: nat where "BINLOG_NONCE_LENGTH \<equiv> BINLOG_IV_LENGTH - 4"

record Binlog_crypt_data =
  crypt_scheme :: uint32
  crypt_key_version :: uint32
  crypt_key_length :: uint32
  crypt_ctx_size :: uint32
  crypt_key :: "uchar list"
  crypt_nonce :: "uchar list"

text \<open>The encryption service gives the size of a context, and an error number, the key and its length. The buffer of the key has
  32 bytes.\<close>

definition crypt_init ::
  "(uint32 \<Rightarrow> uint32) \<Rightarrow> (uint32 \<Rightarrow> uchar list \<Rightarrow> uint32 \<Rightarrow> uint32 \<times> uchar list \<times> uint32) \<Rightarrow> uint32 \<Rightarrow> uint32
     \<Rightarrow> Binlog_crypt_data \<Rightarrow> uint32 \<times> Binlog_crypt_data" where
  "crypt_init encryption_ctx_size encryption_key_get sch kv c =
     (case encryption_key_get kv (crypt_key c) 32 of (err, key, len) \<Rightarrow>
        (err, c\<lparr>crypt_scheme := sch, crypt_ctx_size := encryption_ctx_size kv, crypt_key_version := kv,
           crypt_key_length := len, crypt_key := key\<rparr>))"

definition set_iv :: "Binlog_crypt_data \<Rightarrow> uint32 \<Rightarrow> uchar list" where
  "set_iv c offs = take BINLOG_NONCE_LENGTH (crypt_nonce c) @ le_bytes 4 offs"

definition copy_crypto_data :: "Binlog_crypt_data \<Rightarrow> Binlog_crypt_data \<Rightarrow> Binlog_crypt_data" where
  "copy_crypto_data other_data c = other_data"

definition reset_crypto :: "Binlog_crypt_data \<Rightarrow> Binlog_crypt_data" where
  "reset_crypto c = c\<lparr>crypt_scheme := 0\<rparr>"

section \<open>Classes of events\<close>

datatype Incident = INCIDENT_NONE | INCIDENT_LOST_EVENTS | INCIDENT_COUNT

fun incident_code :: "Incident \<Rightarrow> nat" where
  "incident_code INCIDENT_NONE = 0"
| "incident_code INCIDENT_LOST_EVENTS = 1"
| "incident_code INCIDENT_COUNT = 2"

record Load_log_event =
  load_has_table_name :: bool
  load_fname :: "addr option"
  load_local_fname :: bool
  load_table_name_len :: uint32
  load_db_len :: uint32
  load_fname_len :: uint32
  load_num_fields :: uint32
  load_field_block_len :: uint32
  load_sql_ex :: sql_ex_info

record Format_description =
  fd_binlog_version :: uint16
  fd_common_header_len :: uchar
  fd_has_post_header_len :: bool
  fd_server_version :: Version

record Rows_log_event =
  rows_m_type :: Log_event_type
  rows_m_flags :: uint16
  rows_has_buf :: bool
  rows_has_cols :: bool
  rows_has_cols_ai :: bool
  rows_data_size :: uint32

text \<open>The sizes of row events, and type, size and validity of annotations, come from functions of other files; here they are
  members.\<close>

datatype log_event =
    Query_log_event bool
  | Query_compressed_log_event bool
  | Load_event Load_log_event
  | Start_log_event_v3 uchar
  | Start_encryption_log_event uint32 uint32 "uchar list"
  | Format_description_log_event Format_description
  | Intvar_log_event uchar ulonglong
  | Rand_log_event ulonglong ulonglong
  | Xid_log_event ulonglong
  | XA_prepare_event XA_prepare_log_event
  | User_var_log_event bool
  | Stop_log_event
  | Rotate_log_event bool uint32
  | Binlog_checkpoint_log_event bool uint32
  | Gtid_log_event ulonglong uchar
  | Gtid_list_log_event uint32 bool
  | Create_file_log_event Load_log_event bool bool uint32 bool
  | Append_block_log_event bool uint32
  | Delete_file_log_event uint32
  | Execute_load_log_event uint32
  | Begin_load_query_log_event bool uint32
  | Execute_load_query_log_event bool uint32
  | Unknown_log_event
  | Annotate_rows_log_event Log_event_type uint32 bool
  | Table_map_log_event bool ulonglong
  | Write_rows_log_event Rows_log_event
  | Update_rows_log_event Rows_log_event
  | Delete_rows_log_event Rows_log_event
  | Incident_log_event Incident ulonglong
  | Ignorable_log_event
  | Heartbeat_log_event bool uint32 ulonglong

subsection \<open>Virtual functions\<close>

definition load_get_type_code :: "Load_log_event \<Rightarrow> Log_event_type \<times> Load_log_event" where
  "load_get_type_code l =
     (case new_format (load_sql_ex l) of (b, ex) \<Rightarrow> (if b then NEW_LOAD_EVENT else LOAD_EVENT, l\<lparr>load_sql_ex := ex\<rparr>))"

definition load_get_data_size :: "Load_log_event \<Rightarrow> uint32 \<times> Load_log_event" where
  "load_get_data_size l =
     (case ex_data_size (load_sql_ex l) of (n, ex) \<Rightarrow>
        (load_table_name_len l + load_db_len l + 2 + load_fname_len l + 18 + n + load_field_block_len l + load_num_fields l,
         l\<lparr>load_sql_ex := ex\<rparr>))"

definition set_fname_outside_temp_buf :: "addr option \<Rightarrow> ulonglong \<Rightarrow> Load_log_event \<Rightarrow> Load_log_event" where
  "set_fname_outside_temp_buf afname alen l = l\<lparr>load_fname := afname, load_fname_len := ucast alen, load_local_fname := True\<rparr>"

definition check_fname_outside_temp_buf :: "Load_log_event \<Rightarrow> bool" where
  "check_fname_outside_temp_buf l = load_local_fname l"

fun get_type_code :: "log_event \<Rightarrow> Log_event_type \<times> log_event" where
  "get_type_code (Query_log_event q) = (QUERY_EVENT, Query_log_event q)"
| "get_type_code (Query_compressed_log_event q) = (QUERY_COMPRESSED_EVENT, Query_compressed_log_event q)"
| "get_type_code (Load_event l) = (case load_get_type_code l of (t, l) \<Rightarrow> (t, Load_event l))"
| "get_type_code (Start_log_event_v3 v) = (START_EVENT_V3, Start_log_event_v3 v)"
| "get_type_code (Start_encryption_log_event c k n) = (START_ENCRYPTION_EVENT, Start_encryption_log_event c k n)"
| "get_type_code (Format_description_log_event f) = (FORMAT_DESCRIPTION_EVENT, Format_description_log_event f)"
| "get_type_code (Intvar_log_event t v) = (INTVAR_EVENT, Intvar_log_event t v)"
| "get_type_code (Rand_log_event a b) = (RAND_EVENT, Rand_log_event a b)"
| "get_type_code (Xid_log_event x) = (XID_EVENT, Xid_log_event x)"
| "get_type_code (XA_prepare_event x) = (XA_PREPARE_LOG_EVENT, XA_prepare_event x)"
| "get_type_code (User_var_log_event n) = (USER_VAR_EVENT, User_var_log_event n)"
| "get_type_code Stop_log_event = (STOP_EVENT, Stop_log_event)"
| "get_type_code (Rotate_log_event i l) = (ROTATE_EVENT, Rotate_log_event i l)"
| "get_type_code (Binlog_checkpoint_log_event n l) = (BINLOG_CHECKPOINT_EVENT, Binlog_checkpoint_log_event n l)"
| "get_type_code (Gtid_log_event s f) = (GTID_EVENT, Gtid_log_event s f)"
| "get_type_code (Gtid_list_log_event c l) = (GTID_LIST_EVENT, Gtid_list_log_event c l)"
| "get_type_code (Create_file_log_event l fake blk len old) =
     (if fake then case load_get_type_code l of (t, l) \<Rightarrow> (t, Create_file_log_event l fake blk len old)
      else (CREATE_FILE_EVENT, Create_file_log_event l fake blk len old))"
| "get_type_code (Append_block_log_event b l) = (APPEND_BLOCK_EVENT, Append_block_log_event b l)"
| "get_type_code (Delete_file_log_event f) = (DELETE_FILE_EVENT, Delete_file_log_event f)"
| "get_type_code (Execute_load_log_event f) = (EXEC_LOAD_EVENT, Execute_load_log_event f)"
| "get_type_code (Begin_load_query_log_event b l) = (BEGIN_LOAD_QUERY_EVENT, Begin_load_query_log_event b l)"
| "get_type_code (Execute_load_query_log_event q f) = (EXECUTE_LOAD_QUERY_EVENT, Execute_load_query_log_event q f)"
| "get_type_code Unknown_log_event = (UNKNOWN_EVENT, Unknown_log_event)"
| "get_type_code (Annotate_rows_log_event t n v) = (t, Annotate_rows_log_event t n v)"
| "get_type_code (Table_map_log_event m n) = (TABLE_MAP_EVENT, Table_map_log_event m n)"
| "get_type_code (Write_rows_log_event r) = (rows_m_type r, Write_rows_log_event r)"
| "get_type_code (Update_rows_log_event r) = (rows_m_type r, Update_rows_log_event r)"
| "get_type_code (Delete_rows_log_event r) = (rows_m_type r, Delete_rows_log_event r)"
| "get_type_code (Incident_log_event i l) = (INCIDENT_EVENT, Incident_log_event i l)"
| "get_type_code Ignorable_log_event = (IGNORABLE_LOG_EVENT, Ignorable_log_event)"
| "get_type_code (Heartbeat_log_event i l p) = (HEARTBEAT_LOG_EVENT, Heartbeat_log_event i l p)"

fun get_general_type_code :: "log_event \<Rightarrow> Log_event_type option" where
  "get_general_type_code (Write_rows_log_event r) = Some WRITE_ROWS_EVENT"
| "get_general_type_code (Update_rows_log_event r) = Some UPDATE_ROWS_EVENT"
| "get_general_type_code (Delete_rows_log_event r) = Some DELETE_ROWS_EVENT"
| "get_general_type_code _ = None"

definition FL_GROUP_COMMIT_ID :: uchar where "FL_GROUP_COMMIT_ID = 2"

abbreviation FORMAT_DESCRIPTION_HEADER_LEN :: nat where
  "FORMAT_DESCRIPTION_HEADER_LEN \<equiv> 2 + 50 + 4 + 1 + LOG_EVENT_TYPES"

text \<open>A class without a function of its own has that of \<^verbatim>\<open>Log_event\<close>, which gives 0.\<close>

fun get_data_size :: "log_event \<Rightarrow> uint32 \<times> log_event" where
  "get_data_size (Load_event l) = (case load_get_data_size l of (n, l) \<Rightarrow> (n, Load_event l))"
| "get_data_size (Start_log_event_v3 v) = (2 + 50 + 4, Start_log_event_v3 v)"
| "get_data_size (Start_encryption_log_event c k n) =
     (of_nat (BINLOG_CRYPTO_SCHEME_LENGTH + BINLOG_KEY_VERSION_LENGTH + BINLOG_NONCE_LENGTH), Start_encryption_log_event c k n)"
| "get_data_size (Format_description_log_event f) = (of_nat FORMAT_DESCRIPTION_HEADER_LEN, Format_description_log_event f)"
| "get_data_size (Intvar_log_event t v) = (9, Intvar_log_event t v)"
| "get_data_size (Rand_log_event a b) = (16, Rand_log_event a b)"
| "get_data_size (Xid_log_event x) = (8, Xid_log_event x)"
| "get_data_size (XA_prepare_event x) = (XA_prepare_get_data_size x, XA_prepare_event x)"
| "get_data_size (Rotate_log_event i l) = (l + 8, Rotate_log_event i l)"
| "get_data_size (Binlog_checkpoint_log_event n l) = (l + 4, Binlog_checkpoint_log_event n l)"
| "get_data_size (Gtid_log_event s f) = (19 + (if f AND FL_GROUP_COMMIT_ID \<noteq> 0 then 2 else 0), Gtid_log_event s f)"
| "get_data_size (Gtid_list_log_event c l) = (if c = 0 then 4 + 2 else 4 + c * 16, Gtid_list_log_event c l)"
| "get_data_size (Create_file_log_event l fake blk len old) =
     (case load_get_data_size l of (n, l) \<Rightarrow> (if fake then n else n + 4 + 1 + len, Create_file_log_event l fake blk len old))"
| "get_data_size (Append_block_log_event b l) = (l + 4, Append_block_log_event b l)"
| "get_data_size (Delete_file_log_event f) = (4, Delete_file_log_event f)"
| "get_data_size (Execute_load_log_event f) = (4, Execute_load_log_event f)"
| "get_data_size (Begin_load_query_log_event b l) = (l + 4, Begin_load_query_log_event b l)"
| "get_data_size (Annotate_rows_log_event t n v) = (n, Annotate_rows_log_event t n v)"
| "get_data_size (Table_map_log_event m n) = (ucast n, Table_map_log_event m n)"
| "get_data_size (Write_rows_log_event r) = (rows_data_size r, Write_rows_log_event r)"
| "get_data_size (Update_rows_log_event r) = (rows_data_size r, Update_rows_log_event r)"
| "get_data_size (Delete_rows_log_event r) = (rows_data_size r, Delete_rows_log_event r)"
| "get_data_size (Incident_log_event i l) = (2 + 1 + ucast l, Incident_log_event i l)"
| "get_data_size e = (0, e)"

definition header_is_valid :: "Format_description \<Rightarrow> bool" where
  "header_is_valid f \<longleftrightarrow>
     fd_common_header_len f \<ge> (if fd_binlog_version f = 1 then 13 else 19) \<and> fd_has_post_header_len f"

definition rows_is_valid :: "Rows_log_event \<Rightarrow> bool" where
  "rows_is_valid r \<longleftrightarrow> rows_has_buf r \<and> rows_has_cols r"

fun event_is_valid :: "log_event \<Rightarrow> bool" where
  "event_is_valid (Query_log_event q) = q"
| "event_is_valid (Query_compressed_log_event q) = q"
| "event_is_valid (Load_event l) = load_has_table_name l"
| "event_is_valid (Start_log_event_v3 v) = (v \<noteq> 0)"
| "event_is_valid (Start_encryption_log_event c k n) = (c = 1)"
| "event_is_valid (Format_description_log_event f) = (header_is_valid f \<and> version_is_valid (fd_server_version f))"
| "event_is_valid (XA_prepare_event x) = XA_prepare_is_valid x"
| "event_is_valid (User_var_log_event n) = n"
| "event_is_valid (Rotate_log_event i l) = i"
| "event_is_valid (Binlog_checkpoint_log_event n l) = n"
| "event_is_valid (Gtid_log_event s f) = (s \<noteq> 0)"
| "event_is_valid (Gtid_list_log_event c l) = l"
| "event_is_valid (Create_file_log_event l fake blk len old) = (old \<or> blk)"
| "event_is_valid (Append_block_log_event b l) = b"
| "event_is_valid (Delete_file_log_event f) = (f \<noteq> 0)"
| "event_is_valid (Execute_load_log_event f) = (f \<noteq> 0)"
| "event_is_valid (Begin_load_query_log_event b l) = b"
| "event_is_valid (Execute_load_query_log_event q f) = (q \<and> f \<noteq> 0)"
| "event_is_valid (Annotate_rows_log_event t n v) = v"
| "event_is_valid (Table_map_log_event m n) = m"
| "event_is_valid (Write_rows_log_event r) = rows_is_valid r"
| "event_is_valid (Update_rows_log_event r) = (rows_is_valid r \<and> rows_has_cols_ai r)"
| "event_is_valid (Delete_rows_log_event r) = rows_is_valid r"
| "event_is_valid (Incident_log_event i l) = (incident_code i > incident_code INCIDENT_NONE \<and> incident_code i < incident_code INCIDENT_COUNT)"
| "event_is_valid (Heartbeat_log_event i l p) = (i \<and> l \<le> 512 - 1 \<and> p \<ge> 4)"
| "event_is_valid _ = True"

definition STMT_END_F :: uint16 where "STMT_END_F = 1"

definition rows_set_flags :: "uint16 \<Rightarrow> Rows_log_event \<Rightarrow> Rows_log_event" where
  "rows_set_flags f r = r\<lparr>rows_m_flags := rows_m_flags r OR f\<rparr>"

definition rows_clear_flags :: "uint16 \<Rightarrow> Rows_log_event \<Rightarrow> Rows_log_event" where
  "rows_clear_flags f r = r\<lparr>rows_m_flags := rows_m_flags r AND NOT f\<rparr>"

definition rows_get_flags :: "Rows_log_event \<Rightarrow> uint16 \<Rightarrow> uint16" where
  "rows_get_flags r f = rows_m_flags r AND f"

definition rows_update_flags :: "mem \<Rightarrow> nat \<Rightarrow> nat \<Rightarrow> Rows_log_event \<Rightarrow> mem" where
  "rows_update_flags m buf flags_pos r = int2store m (buf + flags_pos) (ucast (rows_m_flags r))"

definition rows_is_part_of_group :: "Rows_log_event \<Rightarrow> bool" where
  "rows_is_part_of_group r \<longleftrightarrow> rows_get_flags r STMT_END_F \<noteq> 0"

fun event_is_part_of_group :: "log_event \<Rightarrow> bool" where
  "event_is_part_of_group (Intvar_log_event t v) = True"
| "event_is_part_of_group (Rand_log_event a b) = True"
| "event_is_part_of_group (User_var_log_event n) = True"
| "event_is_part_of_group (Annotate_rows_log_event t n v) = True"
| "event_is_part_of_group (Table_map_log_event m n) = True"
| "event_is_part_of_group (Write_rows_log_event r) = rows_is_part_of_group r"
| "event_is_part_of_group (Update_rows_log_event r) = rows_is_part_of_group r"
| "event_is_part_of_group (Delete_rows_log_event r) = rows_is_part_of_group r"
| "event_is_part_of_group _ = False"

fun logged_status :: "log_event \<Rightarrow> enum_logged_status" where
  "logged_status (Gtid_log_event s f) = LOGGED_NO_DATA"
| "logged_status (Annotate_rows_log_event t n v) = LOGGED_NO_DATA"
| "logged_status (Table_map_log_event m n) = LOGGED_TABLE_MAP"
| "logged_status (Write_rows_log_event r) = LOGGED_ROW_EVENT"
| "logged_status (Update_rows_log_event r) = LOGGED_ROW_EVENT"
| "logged_status (Delete_rows_log_event r) = LOGGED_ROW_EVENT"
| "logged_status _ = LOGGED_CRITICAL"

fun get_header_len :: "log_event \<Rightarrow> ulonglong \<Rightarrow> ulonglong" where
  "get_header_len (Start_log_event_v3 v) l = 19"
| "get_header_len (Format_description_log_event f) l = 19"
| "get_header_len (Rotate_log_event i n) l = 19"
| "get_header_len _ l = l"

text \<open>Skipping by a slave, for the classes whose function is in the header.\<close>

fun do_shall_skip :: "uint32 \<Rightarrow> uint32 \<Rightarrow> log_event \<Rightarrow> enum_skip_reason option" where
  "do_shall_skip global_server_id server_id (Start_log_event_v3 v) =
     Some (if server_id = global_server_id then EVENT_SKIP_IGNORE else EVENT_SKIP_NOT)"
| "do_shall_skip global_server_id server_id Stop_log_event =
     Some (if server_id = global_server_id then EVENT_SKIP_IGNORE else EVENT_SKIP_NOT)"
| "do_shall_skip global_server_id server_id (Start_encryption_log_event c k n) = Some EVENT_SKIP_NOT"
| "do_shall_skip global_server_id server_id _ = None"

subsection \<open>Row events\<close>

datatype slave_run_triggers = SLAVE_RUN_TRIGGERS_FOR_RBR_NO | SLAVE_RUN_TRIGGERS_FOR_RBR_YES
  | SLAVE_RUN_TRIGGERS_FOR_RBR_LOGGING | SLAVE_RUN_TRIGGERS_FOR_RBR_ENFORCE

definition do_invoke_trigger :: "slave_run_triggers \<Rightarrow> bool \<Rightarrow> bool" where
  "do_invoke_trigger slave_run master_had_triggers \<longleftrightarrow>
     (slave_run \<noteq> SLAVE_RUN_TRIGGERS_FOR_RBR_NO \<and> \<not> master_had_triggers) \<or> slave_run = SLAVE_RUN_TRIGGERS_FOR_RBR_ENFORCE"

definition read_write_bitmaps_cmp :: "('b \<Rightarrow> 'b \<Rightarrow> bool) \<Rightarrow> 'b \<Rightarrow> 'b \<Rightarrow> 'b \<Rightarrow> 'b \<Rightarrow> log_event \<Rightarrow> bool" where
  "read_write_bitmaps_cmp bitmap_cmp cols cols_ai read_set rpl_write_set e =
     (if get_general_type_code e = Some DELETE_ROWS_EVENT then bitmap_cmp cols read_set
      else if get_general_type_code e = Some UPDATE_ROWS_EVENT then bitmap_cmp cols read_set \<and> bitmap_cmp cols_ai rpl_write_set
      else if get_general_type_code e = Some WRITE_ROWS_EVENT then bitmap_cmp cols rpl_write_set
      else False)"

text \<open>Unpacking is refused when the current row starts behind the end of the rows.\<close>

definition HA_ERR_CORRUPT_EVENT :: int where "HA_ERR_CORRUPT_EVENT = 171"

definition unpack_current_row :: "(addr \<Rightarrow> 's \<Rightarrow> int \<times> 's) \<Rightarrow> addr \<Rightarrow> addr \<Rightarrow> 's \<Rightarrow> int \<times> 's" where
  "unpack_current_row unpack_row curr_row rows_end s =
     (if curr_row \<le> rows_end then unpack_row curr_row s else (HA_ERR_CORRUPT_EVENT, s))"

definition is_auto_inc_in_extra_columns :: "nat option \<Rightarrow> nat \<Rightarrow> bool" where
  "is_auto_inc_in_extra_columns next_number_field_index width =
     (case next_number_field_index of None \<Rightarrow> False | Some i \<Rightarrow> i \<ge> width)"

subsection \<open>Constructors\<close>

text \<open>The constructor of the common part, which another file defines, gives the first argument.\<close>

definition mk_direct :: "bool \<Rightarrow> Log_event \<Rightarrow> Log_event" where
  "mk_direct direct base = (if direct then base\<lparr>cache_type := EVENT_NO_CACHE\<rparr> else base)"

definition mk_Intvar :: "Log_event \<Rightarrow> uchar \<Rightarrow> ulonglong \<Rightarrow> bool \<Rightarrow> Log_event \<times> log_event" where
  "mk_Intvar base type_arg val_arg direct = (mk_direct direct base, Intvar_log_event type_arg val_arg)"

definition mk_Rand :: "Log_event \<Rightarrow> ulonglong \<Rightarrow> ulonglong \<Rightarrow> bool \<Rightarrow> Log_event \<times> log_event" where
  "mk_Rand base seed1 seed2 direct = (mk_direct direct base, Rand_log_event seed1 seed2)"

definition mk_Xid :: "Log_event \<Rightarrow> ulonglong \<Rightarrow> bool \<Rightarrow> Log_event \<times> log_event" where
  "mk_Xid base x direct = (mk_direct direct base, Xid_log_event x)"

definition mk_Start_encryption :: "Log_event \<Rightarrow> uint32 \<Rightarrow> uint32 \<Rightarrow> uchar list \<Rightarrow> Log_event \<times> log_event" where
  "mk_Start_encryption base crypto_scheme key_version nonce =
     (base\<lparr>cache_type := EVENT_NO_CACHE\<rparr>, Start_encryption_log_event crypto_scheme key_version (take BINLOG_NONCE_LENGTH nonce))"

definition mk_Incident :: "Log_event \<Rightarrow> Incident \<Rightarrow> Log_event \<times> log_event" where
  "mk_Incident base incident =
     ((set_direct_logging base)\<lparr>event_flags := event_flags base AND NOT LOG_EVENT_SKIP_REPLICATION_F\<rparr>, Incident_log_event incident 0)"

text \<open>The event with a message allocates a copy of it; without memory the incident becomes none.\<close>

definition mk_Incident_msg :: "bool \<Rightarrow> Log_event \<Rightarrow> Incident \<Rightarrow> ulonglong \<Rightarrow> Log_event \<times> log_event" where
  "mk_Incident_msg malloc_ok base incident msg_length =
     (if \<not> malloc_ok then (base, Incident_log_event INCIDENT_NONE 0)
      else ((set_direct_logging base)\<lparr>event_flags := event_flags base AND NOT LOG_EVENT_SKIP_REPLICATION_F\<rparr>,
        Incident_log_event incident msg_length))"

text \<open>The body of the event that starts encryption, over the \<^verbatim>\<open>write_data\<close> of the writer.\<close>

definition start_encryption_write_data_body ::
  "(uchar list \<Rightarrow> 'w \<Rightarrow> bool \<times> 'w) \<Rightarrow> uint32 \<Rightarrow> uint32 \<Rightarrow> uchar list \<Rightarrow> 'w \<Rightarrow> bool \<times> 'w" where
  "start_encryption_write_data_body write_data crypto_scheme key_version nonce =
     then_write (write_data [ucast crypto_scheme])
       (then_write (write_data (le_bytes 4 key_version)) (write_data (take BINLOG_NONCE_LENGTH nonce)))"

section \<open>Properties\<close>

lemma int4store_le_bytes: "map (int4store m p v) [p..<p + 4] = le_bytes 4 v"
  by (rule nth_equalityI) (auto simp: int4store_def le_bytes_def nth_append numeral_eq_Suc less_Suc_eq)

text \<open>The body of the event that starts encryption has the size that the event announces in its header: when no write fails,
  exactly that many bytes are added, and they hold the scheme, the key version low byte first, and the nonce. The writer adds what
  it is given when it succeeds.\<close>

theorem start_encryption_body:
  assumes adds: "\<And>bs w w'. write_data bs w = (False, w') \<Longrightarrow> written w' = written w @ bs"
    and body: "start_encryption_write_data_body write_data scheme version nonce w = (False, w')"
    and nonce: "length nonce = BINLOG_NONCE_LENGTH"
  shows "written w' = written w @ ucast scheme # le_bytes 4 version @ nonce \<and>
    length (written w') = length (written w) + unat (fst (get_data_size (Start_encryption_log_event scheme version nonce))) \<and>
    le_word 4 (drop (length (written w) + 1) (written w')) = version"
proof -
  have "written w' = written w @ ucast scheme # le_bytes 4 version @ nonce"
    using body nonce by (auto simp: start_encryption_write_data_body_def then_write_def dest!: adds split: prod.splits if_splits)
  then show ?thesis using nonce by simp
qed

theorem start_encryption_body_witness:
  "snd (start_encryption_write_data_body (\<lambda>bs w. (False, w @ bs)) 1 7 (replicate 12 5) []) = 1 # le_bytes 4 (7 :: uint32) @ replicate 12 5"
proof -
  have "start_encryption_write_data_body (\<lambda>bs w. (False, w @ bs)) 1 7 (replicate 12 5) [] =
      (False, snd (start_encryption_write_data_body (\<lambda>bs w. (False, w @ bs)) 1 7 (replicate 12 5) []))"
    by (simp add: start_encryption_write_data_body_def then_write_def)
  from start_encryption_body [OF _ this, of "\<lambda>w. w"] show ?thesis by simp
qed

lemma rows_is_part_of_group_iff: "rows_is_part_of_group r \<longleftrightarrow> bit (rows_m_flags r) 0"
  using and_push_bit_1_eq_0_iff [of 0 "rows_m_flags r"]
  by (simp add: rows_is_part_of_group_def rows_get_flags_def STMT_END_F_def)

text \<open>The test that an object is a part of its group agrees with the test on its type for every class except the events of
  global transaction identifiers and the row events: the former are a part by their type only, and for the latter the object is a
  part exactly when it is the last of its statement, while by its type it never is.\<close>

theorem part_of_group_tests:
  assumes "\<And>t n v. e = Annotate_rows_log_event t n v \<Longrightarrow> t = ANNOTATE_ROWS_EVENT"
    and "\<And>r. e \<in> {Write_rows_log_event r, Update_rows_log_event r, Delete_rows_log_event r} \<Longrightarrow> row_operation (rows_m_type r) \<noteq> (False, False, False)"
  shows "is_part_of_group (fst (get_type_code e)) =
    (case e of Gtid_log_event s f \<Rightarrow> True
     | Write_rows_log_event r \<Rightarrow> False | Update_rows_log_event r \<Rightarrow> False | Delete_rows_log_event r \<Rightarrow> False
     | _ \<Rightarrow> event_is_part_of_group e) \<and>
   (\<forall>r. e = Write_rows_log_event r \<or> e = Update_rows_log_event r \<or> e = Delete_rows_log_event r \<longrightarrow>
      event_is_part_of_group e = bit (rows_m_flags r) 0)"
proof -
  have row: "\<not> is_part_of_group t" if "row_operation t \<noteq> (False, False, False)" for t
    using that by (auto simp: row_operation_def event_tests is_part_of_group_def)
  have load: "\<not> is_part_of_group (fst (load_get_type_code l))" for l
    by (simp add: load_get_type_code_def is_part_of_group_def split: prod.splits)
  show ?thesis
    using assms row load
    by (cases e) (auto simp: is_part_of_group_def rows_is_part_of_group_iff case_prod_unfold)
qed

theorem part_of_group_tests_witness:
  "is_part_of_group (fst (get_type_code (Gtid_log_event 1 0))) \<and> \<not> event_is_part_of_group (Gtid_log_event 1 0)"
  using part_of_group_tests [of "Gtid_log_event 1 0"] by simp

text \<open>A server's version numbers compare as the number they spell in base 256, and the four comparisons are those of a total order.\<close>

definition version_number :: "Version \<Rightarrow> nat" where
  "version_number v = 65536 * unat (m_ver v ! 0) + 256 * unat (m_ver v ! 1) + unat (m_ver v ! 2)"

lemma version_cmp_number:
  "version_cmp (mk_Version a b c) (mk_Version a' b' c') =
     cmp3 (version_number (mk_Version a b c)) (version_number (mk_Version a' b' c'))"
proof -
  have "unat b < 256" "unat c < 256" "unat b' < 256" "unat c' < 256"
    using unat_less [of b] unat_less [of c] unat_less [of b'] unat_less [of c'] by simp_all
  then show ?thesis
    by (auto simp: version_cmp_def mk_Version_def cmp3_def version_number_def word_less_nat_alt word_unat_eq_iff)
qed

text \<open>Versions are ordered by their three numbers, the first one first: the comparison operators of the class agree with the
  order of the numbers that the versions spell in base 256.\<close>

theorem version_order:
  fixes a b c a' b' c' :: uchar
  defines "v \<equiv> mk_Version a b c" and "w \<equiv> mk_Version a' b' c'"
  shows "(version_less v w \<longleftrightarrow> version_number v < version_number w) \<and>
    (version_greater v w \<longleftrightarrow> version_number v > version_number w) \<and>
    (version_less_eq v w \<longleftrightarrow> version_number v \<le> version_number w) \<and>
    (version_greater_eq v w \<longleftrightarrow> version_number v \<ge> version_number w)"
  unfolding v_def w_def version_less_def version_greater_def version_less_eq_def version_greater_eq_def version_cmp_number
  by (auto simp: cmp3_def)

lemma strncmp_eq_prefix: "strncmp_eq (length s) s t \<longleftrightarrow> (\<exists>r. t = s @ r)"
proof (induction s arbitrary: t)
  case (Cons c s)
  then show ?case by (cases t) auto
qed simp

lemma strncmp_eq_whole: "length t = n \<Longrightarrow> strncmp_eq n s t \<longleftrightarrow> take n s = t"
proof (induction t arbitrary: s n)
  case (Cons c t)
  then show ?case by (cases s; cases n) auto
qed simp

text \<open>A query counts as a keyword of a transaction when it is \<^verbatim>\<open>BEGIN\<close> or \<^verbatim>\<open>COMMIT\<close> or, since the length of the query bounds the
  comparison, any beginning of them, the empty query included; or when it begins with \<^verbatim>\<open>SAVEPOINT\<close> or \<^verbatim>\<open>ROLLBACK\<close> in
  any case of letters, whatever follows.\<close>

theorem trans_keywords:
  assumes "length query < 2 ^ 32"
  shows "is_trans_keyword query (of_nat (length query)) \<longleftrightarrow>
    (\<exists>r. KW_BEGIN = query @ r) \<or> (\<exists>r. KW_COMMIT = query @ r) \<or>
    take 9 (map to_lower query) = map to_lower KW_SAVEPOINT \<or> take 8 (map to_lower query) = map to_lower KW_ROLLBACK"
proof -
  have "unat (of_nat (length query) :: uint32) = length query" using assms by (rule unat_of_nat_32)
  moreover have "strncasecmp_eq 9 query KW_SAVEPOINT \<longleftrightarrow> take 9 (map to_lower query) = map to_lower KW_SAVEPOINT"
    unfolding strncasecmp_eq_def by (rule strncmp_eq_whole) simp
  moreover have "strncasecmp_eq 8 query KW_ROLLBACK \<longleftrightarrow> take 8 (map to_lower query) = map to_lower KW_ROLLBACK"
    unfolding strncasecmp_eq_def by (rule strncmp_eq_whole) simp
  ultimately show ?thesis by (simp only: is_trans_keyword_def strncmp_eq_prefix)
qed

theorem trans_keywords_witness: "is_trans_keyword [] 0 \<and> is_trans_keyword [67, 79, 77] 3 \<and> \<not> is_trans_keyword [66, 69, 88] 3"
  using trans_keywords [of "[]"] trans_keywords [of "[67, 79, 77]"] trans_keywords [of "[66, 69, 88]"]
  by (simp add: to_lower_def)

text \<open>C35. The size of the options of \<^verbatim>\<open>LOAD DATA\<close> and the type of the event agree on the format, in whatever order they are asked: the
  format is decided at the first question and kept. The size is 7 in the old format, which is chosen by default only when each of the
  five strings has at most one byte, and in the new format one byte for each length, one for the flags, and the strings.\<close>

theorem load_format_agrees:
  assumes "load_get_type_code l = (t, l')" "ex_data_size (load_sql_ex l) = (n, ex)"
  shows "fst (ex_data_size (load_sql_ex l')) = n \<and> load_get_type_code (l\<lparr>load_sql_ex := ex\<rparr>) = (t, l') \<and>
    load_get_type_code l' = (t, l') \<and>
    (t = LOAD_EVENT \<longrightarrow> n = 7) \<and>
    (t = NEW_LOAD_EVENT \<longrightarrow> unat n = unat (field_term_len ex) + unat (enclosed_len ex) + unat (line_term_len ex) +
       unat (line_start_len ex) + unat (escaped_len ex) + 6) \<and>
    (cached_new_format (load_sql_ex l) = - 1 \<and> t = LOAD_EVENT \<longrightarrow>
       field_term_len ex \<le> 1 \<and> enclosed_len ex \<le> 1 \<and> line_term_len ex \<le> 1 \<and> line_start_len ex \<le> 1 \<and> escaped_len ex \<le> 1)"
proof -
  let ?x = "load_sql_ex l"
  have b: "unat c < 256" for c :: uchar using unat_less [of c] by simp
  have u: "unat (ucast c :: uint32) = unat c" for c :: uchar using b [of c] by (simp add: unsigned_ucast_eq take_bit_nat_eq_self)
  have s: "unat (ucast (field_term_len x) + ucast (enclosed_len x) + ucast (line_term_len x) + ucast (line_start_len x)
      + ucast (escaped_len x) + 6 :: uint32) = unat (field_term_len x) + unat (enclosed_len x) + unat (line_term_len x) +
       unat (line_start_len x) + unat (escaped_len x) + 6" for x
    using b [of "field_term_len x"] b [of "enclosed_len x"] b [of "line_term_len x"] b [of "line_start_len x"] b [of "escaped_len x"]
    by (simp add: unat_word_ariths u)
  obtain f x where x: "new_format ?x = (f, x)" by fastforce
  then have nx: "new_format x = (f, x)" by (auto simp: new_format_def Let_def split: if_splits)
  have l: "t = (if f then NEW_LOAD_EVENT else LOAD_EVENT)" "l' = l\<lparr>load_sql_ex := x\<rparr>" "ex = x"
    "n = (if f then ucast (field_term_len x) + ucast (enclosed_len x) + ucast (line_term_len x) +
           ucast (line_start_len x) + ucast (escaped_len x) + 6 else 7)"
    using assms x by (auto simp: load_get_type_code_def ex_data_size_def)
  have "cached_new_format ?x = - 1 \<Longrightarrow> \<not> f \<Longrightarrow> field_term_len x \<le> 1 \<and> enclosed_len x \<le> 1 \<and> line_term_len x \<le> 1 \<and>
      line_start_len x \<le> 1 \<and> escaped_len x \<le> 1"
    using x by (auto simp: new_format_def Let_def not_less)
  then show ?thesis using nx by (auto simp: l s load_get_type_code_def ex_data_size_def)
qed

theorem load_format_agrees_witness:
  "load_get_type_code \<lparr>load_has_table_name = True, load_fname = None, load_local_fname = False, load_table_name_len = 1, load_db_len = 1,
     load_fname_len = 1, load_num_fields = 0, load_field_block_len = 0,
     load_sql_ex = snd (ex_data_size \<lparr>cached_new_format = - 1, field_term_len = 2, enclosed_len = 1, line_term_len = 1,
       line_start_len = 0, escaped_len = 1\<rparr>)\<rparr> =
   (NEW_LOAD_EVENT, \<lparr>load_has_table_name = True, load_fname = None, load_local_fname = False, load_table_name_len = 1, load_db_len = 1,
     load_fname_len = 1, load_num_fields = 0, load_field_block_len = 0,
     load_sql_ex = \<lparr>cached_new_format = 1, field_term_len = 2, enclosed_len = 1, line_term_len = 1, line_start_len = 0, escaped_len = 1\<rparr>\<rparr>)"
  using load_format_agrees [of "\<lparr>load_has_table_name = True, load_fname = None, load_local_fname = False, load_table_name_len = 1, load_db_len = 1,
     load_fname_len = 1, load_num_fields = 0, load_field_block_len = 0,
     load_sql_ex = \<lparr>cached_new_format = - 1, field_term_len = 2, enclosed_len = 1, line_term_len = 1, line_start_len = 0, escaped_len = 1\<rparr>\<rparr>"]
  by (simp add: load_get_type_code_def ex_data_size_def new_format_def)

text \<open>An incident event with a message is valid exactly when its memory could be allocated and the incident is a real one; a valid
  one is logged directly and never marked to be skipped by replication, whatever marks the event had before.\<close>

theorem incident_events:
  assumes "mk_Incident_msg malloc_ok base i n = (b, e)"
  shows "(event_is_valid e \<longleftrightarrow> malloc_ok \<and> i = INCIDENT_LOST_EVENTS) \<and>
    (event_is_valid e \<longrightarrow> use_direct_logging b \<and> event_flags b AND LOG_EVENT_SKIP_REPLICATION_F = 0 \<and>
       (\<forall>k. k \<noteq> 15 \<longrightarrow> bit (event_flags b) k = bit (event_flags base) k))"
proof -
  have "bit_set (push_bit 15 1 :: uint16) = {15}" by (rule bit_set_push_bit_1) simp
  then have f: "bit_set LOG_EVENT_SKIP_REPLICATION_F = {15}" by (simp add: LOG_EVENT_SKIP_REPLICATION_F_def)
  then have g: "bit LOG_EVENT_SKIP_REPLICATION_F k \<longleftrightarrow> k = 15" for k by (metis bit_set_iff singleton_iff)
  have "(w AND NOT LOG_EVENT_SKIP_REPLICATION_F) AND LOG_EVENT_SKIP_REPLICATION_F = 0" for w
    by (rule bit_word_eqI) (simp add: bit_simps g)
  moreover have "k \<noteq> 15 \<Longrightarrow> bit (w AND NOT LOG_EVENT_SKIP_REPLICATION_F) k = bit w k" for w k
    by (auto simp: bit_simps g dest: bit_imp_le_length)
  moreover have "event_is_valid (Incident_log_event i n) \<longleftrightarrow> i = INCIDENT_LOST_EVENTS" by (cases i) simp_all
  ultimately show ?thesis
    using assms by (auto simp: mk_Incident_msg_def use_direct_logging_def set_direct_logging_def simp del: event_is_valid.simps
      split: if_splits) simp_all
qed

theorem incident_events_witness:
  "let e = \<lparr>log_pos = 4, temp_buf = None, event_owns_temp_buf = False, when_time = 0, when_sec_part = 0, event_server_id = 1,
       event_flags = 0x8001, cache_type = EVENT_STMT_CACHE\<rparr>
   in bit (event_flags (fst (mk_Incident_msg True e INCIDENT_LOST_EVENTS 3))) 0"
proof -
  let ?e = "\<lparr>log_pos = 4, temp_buf = None, event_owns_temp_buf = False, when_time = 0, when_sec_part = 0, event_server_id = 1,
       event_flags = 0x8001, cache_type = EVENT_STMT_CACHE\<rparr> :: Log_event"
  have "mk_Incident_msg True ?e INCIDENT_LOST_EVENTS 3 =
      (fst (mk_Incident_msg True ?e INCIDENT_LOST_EVENTS 3), snd (mk_Incident_msg True ?e INCIDENT_LOST_EVENTS 3))" by simp
  from incident_events [OF this] show ?thesis by (simp add: Let_def)
qed

text \<open>The flags of a row event are those set and not cleared since; writing them into the buffer of the event and reading two
  bytes there gives them back.\<close>

theorem rows_flags:
  "rows_get_flags (rows_clear_flags g (rows_set_flags f r)) h = (rows_m_flags r OR f) AND NOT g AND h \<and>
   uint2korr (rows_update_flags m buf pos r) (buf + pos) = rows_m_flags r \<and>
   (\<forall>p. p \<noteq> buf + pos \<longrightarrow> p \<noteq> buf + pos + 1 \<longrightarrow> rows_update_flags m buf pos r p = m p)"
proof -
  have "uint2korr (rows_update_flags m buf pos r) (buf + pos) = rows_m_flags r"
    by (rule bit_word_eqI)
      (auto simp: uint2korr_def rows_update_flags_def int2store_def bit_simps dest: bit_less_16)
  then show ?thesis
    by (simp add: rows_get_flags_def rows_clear_flags_def rows_set_flags_def rows_update_flags_def int2store_def and.assoc)
qed

text \<open>The initial vector for a position of the log has the length the cipher needs, begins with the nonce, and is different for
  each position.\<close>

theorem iv_of_position:
  assumes "length (crypt_nonce c) = BINLOG_NONCE_LENGTH"
  shows "length (set_iv c offs) = BINLOG_IV_LENGTH \<and> take BINLOG_NONCE_LENGTH (set_iv c offs) = crypt_nonce c \<and>
    (set_iv c offs = set_iv c offs2 \<longleftrightarrow> offs = offs2)"
  using assms by (simp add: set_iv_def le_bytes_inj)

theorem iv_of_position_witness:
  "length (set_iv \<lparr>crypt_scheme = 1, crypt_key_version = 1, crypt_key_length = 16, crypt_ctx_size = 0, crypt_key = replicate 32 0,
     crypt_nonce = replicate 12 7\<rparr> 100) = 16"
  using iv_of_position [of "\<lparr>crypt_scheme = 1, crypt_key_version = 1, crypt_key_length = 16, crypt_ctx_size = 0, crypt_key = replicate 32 0,
     crypt_nonce = replicate 12 7\<rparr>" 100 0] by simp

text \<open>The announced size of a list of transaction identifiers is right as an \<^verbatim>\<open>int\<close> below \<open>2 ^ 27\<close> identifiers, and leaves the 6
  bytes that replacing the event needs; with as many as that it is negative, although the format has 28 bits for their number.\<close>

lemma gtid_list_size:
  assumes "unat c < 2 ^ 27"
  shows "sint (fst (get_data_size (Gtid_list_log_event c l))) = (if c = 0 then 6 else 4 + 16 * int (unat c))"
proof -
  have "unat (4 + c * 16) = 4 + 16 * unat c" using assms by (simp add: unat_word_ariths)
  then show ?thesis using assms sint_small_32 [of "4 + c * 16"] by auto
qed

lemma gtid_list_size_overflow: "sint (fst (get_data_size (Gtid_list_log_event (2 ^ 27) l))) = - (2 ^ 31) + 4"
  by simp

end
