(* ===== verification/My_Decimal.thy ===== *)
theory My_Decimal
  imports Prelude
begin

text \<open>
  The fixed-size decimal numbers of the server, from \<^verbatim>\<open>my_decimal.h\<close>, \<^verbatim>\<open>decimal.h\<close> and \<^verbatim>\<open>my_decimal_limits.h\<close>. An object holds the
  header of a \<^verbatim>\<open>decimal_t\<close> (digits before and behind the point, length of the buffer, sign, address of the digits) and a buffer of its
  own; its member \<^verbatim>\<open>own\<close> stands for the address of that buffer, which does not change. The arithmetic of \<^verbatim>\<open>strings/decimal.c\<close> is not
  part of the sources: an operation of it is an argument that gives an error number and the result. Warnings are the error numbers
  that were reported.
\<close>

section \<open>Limits and errors\<close>

abbreviation DECIMAL_BUFF_LENGTH :: nat where "DECIMAL_BUFF_LENGTH \<equiv> 9"
abbreviation DECIMAL_MAX_PRECISION :: uint16 where "DECIMAL_MAX_PRECISION \<equiv> 9 * 9 - 8 * 2"
abbreviation DECIMAL_MAX_SCALE :: uint16 where "DECIMAL_MAX_SCALE \<equiv> 38"
abbreviation DECIMAL_NOT_SPECIFIED :: uint16 where "DECIMAL_NOT_SPECIFIED \<equiv> 39"

definition E_DEC_OVERFLOW :: "32 word" where "E_DEC_OVERFLOW = 2"
definition E_DEC_FATAL_ERROR :: "32 word" where "E_DEC_FATAL_ERROR = 30"

section \<open>Lengths and precisions\<close>

definition my_decimal_size :: "(uint16 \<Rightarrow> uint16 \<Rightarrow> uint32) \<Rightarrow> uint16 \<Rightarrow> uint16 \<Rightarrow> uint32" where
  "my_decimal_size decimal_size precision scale = decimal_size precision scale + 1"

definition my_decimal_int_part :: "uint16 \<Rightarrow> uint16 \<Rightarrow> uint16" where
  "my_decimal_int_part precision decimals = precision - (if decimals = DECIMAL_NOT_SPECIFIED then 0 else decimals)"

definition my_decimal_length_to_precision :: "uint16 \<Rightarrow> uint16 \<Rightarrow> bool \<Rightarrow> uint16" where
  "my_decimal_length_to_precision len scale unsigned_flag =
     len - (if scale > 0 then 1 else 0) - (if unsigned_flag \<or> len = 0 then 0 else 1)"

definition my_decimal_precision_to_length_no_truncation :: "uint16 \<Rightarrow> uint16 \<Rightarrow> bool \<Rightarrow> uint16" where
  "my_decimal_precision_to_length_no_truncation precision scale unsigned_flag =
     precision + (if scale > 0 then 1 else 0) + (if unsigned_flag \<or> precision = 0 then 0 else 1)"

definition my_decimal_precision_to_length :: "uint16 \<Rightarrow> uint16 \<Rightarrow> bool \<Rightarrow> uint16" where
  "my_decimal_precision_to_length precision scale unsigned_flag =
     my_decimal_precision_to_length_no_truncation
       (if precision > DECIMAL_MAX_PRECISION then DECIMAL_MAX_PRECISION else precision) scale unsigned_flag"

section \<open>Objects\<close>

record decimal_t =
  intg :: "32 word"
  frac_digits :: "32 word"
  dec_len :: "32 word"
  dec_sign :: bool
  buf :: addr

record my_decimal = decimal_t +
  own :: addr
  buffer :: "32 word list"

text \<open>A new object at an address; the contents of its buffer and the rest of the header are whatever the memory held.\<close>

definition decimal_init :: "my_decimal \<Rightarrow> my_decimal" where
  "decimal_init d = d\<lparr>dec_len := of_nat DECIMAL_BUFF_LENGTH, buf := own d\<rparr>"

definition copy_my_decimal :: "addr \<Rightarrow> my_decimal \<Rightarrow> my_decimal" where
  "copy_my_decimal a rhs =
     (let d = decimal_init \<lparr>intg = intg rhs, frac_digits = frac_digits rhs, dec_len = dec_len rhs, dec_sign = dec_sign rhs,
        buf = buf rhs, own = a, buffer = replicate DECIMAL_BUFF_LENGTH 0\<rparr>
      in d\<lparr>buffer := take DECIMAL_BUFF_LENGTH (buffer rhs)\<rparr>)"

definition fix_buffer_pointer :: "my_decimal \<Rightarrow> my_decimal" where
  "fix_buffer_pointer d = d\<lparr>buf := own d\<rparr>"

definition assign_my_decimal :: "my_decimal \<Rightarrow> my_decimal \<Rightarrow> my_decimal" where
  "assign_my_decimal d rhs =
     (if own d = own rhs then d
      else fix_buffer_pointer (d\<lparr>intg := intg rhs, frac_digits := frac_digits rhs, dec_len := dec_len rhs, dec_sign := dec_sign rhs,
        buf := buf rhs, buffer := take DECIMAL_BUFF_LENGTH (buffer rhs)\<rparr>))"

definition set_sign :: "bool \<Rightarrow> my_decimal \<Rightarrow> my_decimal" where
  "set_sign s d = d\<lparr>dec_sign := s\<rparr>"

definition precision :: "my_decimal \<Rightarrow> uint16" where
  "precision d = ucast (intg d + frac_digits d)"

definition set_zero :: "my_decimal \<Rightarrow> my_decimal" where
  "set_zero d = d\<lparr>buffer := (buffer d)[0 := 0], intg := 1, frac_digits := 0, dec_sign := False\<rparr>"

text \<open>\<^verbatim>\<open>swap\<close>: a third object at address \<open>t\<close> takes the first value.\<close>

definition swap :: "addr \<Rightarrow> my_decimal \<Rightarrow> my_decimal \<Rightarrow> my_decimal \<times> my_decimal" where
  "swap t a b =
     (let dummy = decimal_init \<lparr>intg = 0, frac_digits = 0, dec_len = 0, dec_sign = False, buf = 0, own = t,
        buffer = replicate DECIMAL_BUFF_LENGTH 0\<rparr>;
          dummy = assign_my_decimal dummy a;
          a = assign_my_decimal a b;
          b = assign_my_decimal b dummy
      in (a, b))"

definition decimal_string_size :: "my_decimal \<Rightarrow> uint32" where
  "decimal_string_size d =
     (if intg d \<noteq> 0 then intg d else 1) + frac_digits d + (if sint (frac_digits d) > 0 then 1 else 0) + 2"

definition my_decimal_string_length :: "my_decimal \<Rightarrow> uint32" where
  "my_decimal_string_length d = decimal_string_size d"

definition my_decimal_max_length :: "my_decimal \<Rightarrow> uint32" where
  "my_decimal_max_length d = decimal_string_size d - 1"

definition my_decimal2decimal :: "my_decimal \<Rightarrow> my_decimal \<Rightarrow> my_decimal" where
  "my_decimal2decimal from_dec to_dec = assign_my_decimal to_dec from_dec"

text \<open>The digits of the source are given as the memory behind its pointer; reading behind their end is \<^const>\<open>None\<close>.\<close>

definition decimal2my_decimal :: "decimal_t \<Rightarrow> 32 word list \<Rightarrow> my_decimal \<Rightarrow> my_decimal option" where
  "decimal2my_decimal f digits d =
     (let n = unat (dec_len d) in
      if n \<le> length digits \<and> n \<le> length (buffer d)
      then Some (d\<lparr>intg := intg f, frac_digits := frac_digits f, dec_sign := dec_sign f,
        buffer := take n digits @ drop n (buffer d)\<rparr>)
      else None)"

section \<open>Results\<close>

type_synonym warnings = "32 word list"

definition check_result :: "32 word \<Rightarrow> 32 word \<Rightarrow> warnings \<Rightarrow> 32 word \<times> warnings" where
  "check_result msk res ws = (res, if res AND msk \<noteq> 0 then ws @ [res] else ws)"

definition max_my_decimal :: "(uint16 \<Rightarrow> uint16 \<Rightarrow> my_decimal \<Rightarrow> my_decimal) \<Rightarrow> uint16 \<Rightarrow> uint16 \<Rightarrow> my_decimal \<Rightarrow> my_decimal" where
  "max_my_decimal max_decimal prec fr d = max_decimal prec fr d"

definition max_internal_decimal :: "(uint16 \<Rightarrow> uint16 \<Rightarrow> my_decimal \<Rightarrow> my_decimal) \<Rightarrow> my_decimal \<Rightarrow> my_decimal" where
  "max_internal_decimal max_decimal d = max_my_decimal max_decimal DECIMAL_MAX_PRECISION 0 d"

definition check_result_and_overflow ::
  "(uint16 \<Rightarrow> uint16 \<Rightarrow> my_decimal \<Rightarrow> my_decimal) \<Rightarrow> 32 word \<Rightarrow> 32 word \<times> my_decimal \<Rightarrow> warnings \<Rightarrow> 32 word \<times> my_decimal \<times> warnings" where
  "check_result_and_overflow max_decimal msk r ws =
     (case r of (res, val) \<Rightarrow>
        (case check_result msk res ws of (checked, ws) \<Rightarrow>
           if checked AND E_DEC_OVERFLOW \<noteq> 0
           then (res, set_sign (dec_sign val) (max_internal_decimal max_decimal (fix_buffer_pointer val)), ws)
           else (res, val, ws)))"

text \<open>The operations on two numbers: the function of the library is given the operands and the object for the result.\<close>

type_synonym decimal_op = "my_decimal \<Rightarrow> my_decimal \<Rightarrow> my_decimal \<Rightarrow> 32 word \<times> my_decimal"

record decimal_lib =
  max_decimal :: "uint16 \<Rightarrow> uint16 \<Rightarrow> my_decimal \<Rightarrow> my_decimal"
  decimal_add :: decimal_op
  decimal_sub :: decimal_op
  decimal_mul :: decimal_op
  decimal_div :: "32 word \<Rightarrow> decimal_op"
  decimal_mod :: decimal_op
  decimal_is_zero :: "my_decimal \<Rightarrow> bool"
  decimal_cmp :: "my_decimal \<Rightarrow> my_decimal \<Rightarrow> int"
  decimal_round :: "my_decimal \<Rightarrow> my_decimal \<Rightarrow> int \<Rightarrow> nat \<Rightarrow> 32 word \<times> my_decimal"
  bin2decimal :: "uchar list \<Rightarrow> uint16 \<Rightarrow> uint16 \<Rightarrow> my_decimal \<Rightarrow> 32 word \<times> my_decimal"
  string2decimal :: "uchar list \<Rightarrow> my_decimal \<Rightarrow> 32 word \<times> my_decimal"
  ulonglong2decimal :: "ulonglong \<Rightarrow> my_decimal \<Rightarrow> 32 word \<times> my_decimal"
  longlong2decimal :: "64 word \<Rightarrow> my_decimal \<Rightarrow> 32 word \<times> my_decimal"

definition my_decimal_add :: "decimal_lib \<Rightarrow> 32 word \<Rightarrow> my_decimal \<Rightarrow> my_decimal \<Rightarrow> my_decimal \<Rightarrow> warnings \<Rightarrow> 32 word \<times> my_decimal \<times> warnings" where
  "my_decimal_add L msk res a b = check_result_and_overflow (max_decimal L) msk (decimal_add L a b res)"

definition my_decimal_sub :: "decimal_lib \<Rightarrow> 32 word \<Rightarrow> my_decimal \<Rightarrow> my_decimal \<Rightarrow> my_decimal \<Rightarrow> warnings \<Rightarrow> 32 word \<times> my_decimal \<times> warnings" where
  "my_decimal_sub L msk res a b = check_result_and_overflow (max_decimal L) msk (decimal_sub L a b res)"

definition my_decimal_mul :: "decimal_lib \<Rightarrow> 32 word \<Rightarrow> my_decimal \<Rightarrow> my_decimal \<Rightarrow> my_decimal \<Rightarrow> warnings \<Rightarrow> 32 word \<times> my_decimal \<times> warnings" where
  "my_decimal_mul L msk res a b = check_result_and_overflow (max_decimal L) msk (decimal_mul L a b res)"

definition my_decimal_div ::
  "decimal_lib \<Rightarrow> 32 word \<Rightarrow> my_decimal \<Rightarrow> my_decimal \<Rightarrow> my_decimal \<Rightarrow> 32 word \<Rightarrow> warnings \<Rightarrow> 32 word \<times> my_decimal \<times> warnings" where
  "my_decimal_div L msk res a b div_scale_inc =
     check_result_and_overflow (max_decimal L) msk (decimal_div L div_scale_inc a b res)"

definition my_decimal_mod :: "decimal_lib \<Rightarrow> 32 word \<Rightarrow> my_decimal \<Rightarrow> my_decimal \<Rightarrow> my_decimal \<Rightarrow> warnings \<Rightarrow> 32 word \<times> my_decimal \<times> warnings" where
  "my_decimal_mod L msk res a b = check_result_and_overflow (max_decimal L) msk (decimal_mod L a b res)"

definition str2my_decimal :: "decimal_lib \<Rightarrow> 32 word \<Rightarrow> uchar list \<Rightarrow> my_decimal \<Rightarrow> warnings \<Rightarrow> 32 word \<times> my_decimal \<times> warnings" where
  "str2my_decimal L msk str d = check_result_and_overflow (max_decimal L) msk (string2decimal L str d)"

definition int2my_decimal :: "decimal_lib \<Rightarrow> 32 word \<Rightarrow> 64 word \<Rightarrow> bool \<Rightarrow> my_decimal \<Rightarrow> warnings \<Rightarrow> 32 word \<times> my_decimal \<times> warnings" where
  "int2my_decimal L msk i unsigned_flag d ws =
     (case (if unsigned_flag then ulonglong2decimal L i d else longlong2decimal L i d) of (res, d) \<Rightarrow>
        case check_result msk res ws of (res, ws) \<Rightarrow> (res, d, ws))"

definition binary2my_decimal ::
  "decimal_lib \<Rightarrow> 32 word \<Rightarrow> uchar list \<Rightarrow> my_decimal \<Rightarrow> uint16 \<Rightarrow> uint16 \<Rightarrow> warnings \<Rightarrow> 32 word \<times> my_decimal \<times> warnings" where
  "binary2my_decimal L msk bin d prec scale ws =
     (case bin2decimal L bin prec scale d of (res, d) \<Rightarrow> case check_result msk res ws of (res, ws) \<Rightarrow> (res, d, ws))"

definition new_my_decimal_of_binary ::
  "decimal_lib \<Rightarrow> my_decimal \<Rightarrow> uchar list \<Rightarrow> uint16 \<Rightarrow> uint16 \<Rightarrow> warnings \<Rightarrow> my_decimal \<times> warnings" where
  "new_my_decimal_of_binary L d bin prec scale ws =
     (case bin2decimal L bin prec scale (decimal_init d) of (res, d) \<Rightarrow> (d, snd (check_result E_DEC_FATAL_ERROR res ws)))"

definition round_to :: "decimal_lib \<Rightarrow> my_decimal \<Rightarrow> my_decimal \<Rightarrow> int \<Rightarrow> nat \<Rightarrow> 32 word \<Rightarrow> warnings \<Rightarrow> 32 word \<times> my_decimal \<times> warnings" where
  "round_to L d to_dec scale md msk ws =
     (case decimal_round L d to_dec scale md of (res, r) \<Rightarrow> case check_result msk res ws of (res, ws) \<Rightarrow> (res, r, ws))"

definition my_decimal_set_zero :: "my_decimal \<Rightarrow> int \<times> my_decimal" where
  "my_decimal_set_zero d = (0, set_zero d)"

definition my_decimal_is_zero :: "decimal_lib \<Rightarrow> my_decimal \<Rightarrow> bool" where
  "my_decimal_is_zero L d = decimal_is_zero L d"

definition to_bool :: "decimal_lib \<Rightarrow> my_decimal \<Rightarrow> bool" where
  "to_bool L d = (\<not> decimal_is_zero L d)"

definition my_decimal_cmp :: "decimal_lib \<Rightarrow> my_decimal \<Rightarrow> my_decimal \<Rightarrow> int" where
  "my_decimal_cmp L a b = decimal_cmp L a b"

definition to_xlonglong :: "(bool \<Rightarrow> my_decimal \<Rightarrow> 64 word) \<Rightarrow> my_decimal \<Rightarrow> 64 word" where
  "to_xlonglong to_longlong d = to_longlong (\<not> dec_sign d) d"

definition my_decimal_neg :: "decimal_lib \<Rightarrow> my_decimal \<Rightarrow> my_decimal" where
  "my_decimal_neg L d =
     (if decimal_is_zero L d then d\<lparr>dec_sign := False\<rparr> else d\<lparr>dec_sign := (\<not> dec_sign d)\<rparr>)"

section \<open>Well-formed numbers\<close>

text \<open>The digits of an object are in its own buffer; what it stands for is the rest of it.\<close>

definition wf_decimal :: "my_decimal \<Rightarrow> bool" where
  "wf_decimal d \<longleftrightarrow> buf d = own d \<and> dec_len d = of_nat DECIMAL_BUFF_LENGTH \<and> length (buffer d) = DECIMAL_BUFF_LENGTH"

definition content :: "my_decimal \<Rightarrow> 32 word \<times> 32 word \<times> bool \<times> 32 word list" where
  "content d = (intg d, frac_digits d, dec_sign d, buffer d)"

named_theorems decimal_objects \<open>definitions of the operations on objects\<close>
lemmas [decimal_objects] = wf_decimal_def content_def copy_my_decimal_def decimal_init_def assign_my_decimal_def fix_buffer_pointer_def
  set_sign_def set_zero_def

section \<open>Properties\<close>

text \<open>Copying, assigning and swapping well-formed numbers moves the values between the objects and leaves every object with its
  digits in its own buffer, also when a number is assigned to itself or swapped with itself.\<close>

theorem decimal_copies:
  assumes "wf_decimal a" "wf_decimal b" "t \<noteq> own a" "t \<noteq> own b" "own a = own b \<longrightarrow> a = b"
  shows "wf_decimal (copy_my_decimal t a) \<and> content (copy_my_decimal t a) = content a \<and> own (copy_my_decimal t a) = t \<and>
    wf_decimal (assign_my_decimal a b) \<and> content (assign_my_decimal a b) = content b \<and> own (assign_my_decimal a b) = own a \<and>
    (case swap t a b of (a', b') \<Rightarrow> wf_decimal a' \<and> wf_decimal b' \<and> own a' = own a \<and> own b' = own b \<and>
       content a' = content b \<and> content b' = content a)"
  using assms by (auto simp: decimal_objects swap_def Let_def)

theorem decimal_copies_witness:
  "let a = \<lparr>intg = 1, frac_digits = 0, dec_len = 9, dec_sign = True, buf = 1, own = 1, buffer = replicate 9 7\<rparr>;
       b = \<lparr>intg = 2, frac_digits = 3, dec_len = 9, dec_sign = False, buf = 2, own = 2, buffer = replicate 9 8\<rparr>
   in content (snd (swap 3 a b)) = (1, 0, True, replicate 9 7)"
  using decimal_copies [of "\<lparr>intg = 1, frac_digits = 0, dec_len = 9, dec_sign = True, buf = 1, own = 1, buffer = replicate 9 7\<rparr>"
    "\<lparr>intg = 2, frac_digits = 3, dec_len = 9, dec_sign = False, buf = 2, own = 2, buffer = replicate 9 8\<rparr>" 3]
  by (auto simp: wf_decimal_def content_def Let_def split: prod.splits)

text \<open>What an operation gives, from the error number and the value of the library.\<close>

definition saturated :: "decimal_lib \<Rightarrow> 32 word \<Rightarrow> warnings \<Rightarrow> 32 word \<times> my_decimal \<Rightarrow> 32 word \<times> my_decimal \<times> warnings" where
  "saturated L msk ws r =
     (fst r,
      if fst r AND E_DEC_OVERFLOW = 0 then snd r
      else (max_decimal L 65 0 ((snd r)\<lparr>buf := own (snd r)\<rparr>))\<lparr>dec_sign := dec_sign (snd r)\<rparr>,
      if fst r AND msk \<noteq> 0 then ws @ [fst r] else ws)"

lemma check_result_and_overflow_saturated: "check_result_and_overflow (max_decimal L) msk r ws = saturated L msk ws r"
  by (cases r) (simp add: saturated_def check_result_and_overflow_def check_result_def max_internal_decimal_def max_my_decimal_def
    set_sign_def fix_buffer_pointer_def)

text \<open>Arithmetic reports the error number of the library, and adds a warning for it exactly when the mask asks for it. The result
  is that of the library unless it overflowed; then it is the largest number with 65 digits, with the sign of the true result.\<close>

theorem decimal_overflow_saturates:
  "my_decimal_add L msk r a b ws = saturated L msk ws (decimal_add L a b r) \<and>
   my_decimal_sub L msk r a b ws = saturated L msk ws (decimal_sub L a b r) \<and>
   my_decimal_mul L msk r a b ws = saturated L msk ws (decimal_mul L a b r) \<and>
   my_decimal_div L msk r a b inc ws = saturated L msk ws (decimal_div L inc a b r) \<and>
   my_decimal_mod L msk r a b ws = saturated L msk ws (decimal_mod L a b r) \<and>
   str2my_decimal L msk str r ws = saturated L msk ws (string2decimal L str r)"
  by (simp add: my_decimal_add_def my_decimal_sub_def my_decimal_mul_def my_decimal_div_def my_decimal_mod_def str2my_decimal_def
    check_result_and_overflow_saturated)

text \<open>Length and precision of a column determine each other: the length that belongs to a precision gives the precision back, and
  so does the precision of a length that has room for the sign and the point it needs. A length without that room does not: signed
  with a point and one character, the precision wraps around.\<close>

theorem length_precision_round_trip:
  assumes "unat p + 2 < 2 ^ 16" "p \<noteq> 0 \<or> s = 0"
    and "unat n > (if s > 0 then 1 else 0) + (if u then 0 else 1)"
  shows "my_decimal_length_to_precision (my_decimal_precision_to_length_no_truncation p s u) s u = p \<and>
    my_decimal_precision_to_length_no_truncation (my_decimal_length_to_precision n s u) s u = n \<and>
    my_decimal_length_to_precision 1 1 False = 65535"
proof (intro conjI)
  have add: "unat (p + 1) = unat p + 1" "unat (p + 1 + 1) = unat p + 2" using assms(1) by (simp_all add: unat_word_ariths)
  then have nz: "p + 1 \<noteq> 0" "p + 1 + 1 \<noteq> 0" by (metis add_is_0 one_neq_zero unat_0, metis add_is_0 numeral_One unat_0 zero_neq_numeral)
  have two: "p + 2 = p + 1 + 1" by simp
  show "my_decimal_length_to_precision (my_decimal_precision_to_length_no_truncation p s u) s u = p"
    using assms(2) nz by (auto simp: my_decimal_length_to_precision_def my_decimal_precision_to_length_no_truncation_def two)
  have n: "n \<noteq> 0" using assms(3) by (auto split: if_splits)
  have sub: "n - 1 \<noteq> 0" if "unat n > 1" using that by (metis eq_iff_diff_eq_0 nat_neq_iff unat_1)
  have sub2: "n - 1 - 1 \<noteq> 0" if "unat n > 2"
  proof
    assume "n - 1 - 1 = 0"
    then have "n = 2" by (simp add: diff_diff_eq)
    then show False using that by simp
  qed
  show "my_decimal_precision_to_length_no_truncation (my_decimal_length_to_precision n s u) s u = n"
    using assms(3) n sub sub2
    by (auto simp: my_decimal_length_to_precision_def my_decimal_precision_to_length_no_truncation_def split: if_splits)
  show "my_decimal_length_to_precision 1 1 False = 65535" by (simp add: my_decimal_length_to_precision_def)
qed

theorem length_precision_round_trip_witness:
  "my_decimal_length_to_precision (my_decimal_precision_to_length_no_truncation 10 2 False) 2 False = 10"
  using length_precision_round_trip [where p = 10 and s = 2 and n = 12 and u = False] by simp

text \<open>The buffer for the text of a number is large enough for its digits, a sign, a point when there are digits behind it, a zero
  before the point when there is none, and the end; with the digits that a buffer can hold it is at most 85 bytes.\<close>

theorem decimal_string_size_bounds:
  assumes "unat (intg d) + unat (frac_digits d) \<le> 9 * DECIMAL_BUFF_LENGTH"
  shows "unat (decimal_string_size d) =
      max 1 (unat (intg d)) + unat (frac_digits d) + (if frac_digits d = 0 then 0 else 1) + 1 + 1 \<and>
    unat (my_decimal_max_length d) + 1 = unat (my_decimal_string_length d) \<and>
    unat (my_decimal_string_length d) \<le> 9 * DECIMAL_BUFF_LENGTH + 4"
proof -
  have b: "unat (frac_digits d) < 2 ^ 31" "unat (intg d) < 2 ^ 31" using assms by simp_all
  have p: "(sint (frac_digits d) > 0) = (frac_digits d \<noteq> 0)"
    by (simp only: sint_small_32 [OF b(1)] of_nat_0_less_iff unat_gt_0)
  have z: "(x \<noteq> 0) = (0 < unat x)" for x :: "32 word" by (simp add: unat_gt_0)
  have s: "unat (decimal_string_size d) =
      max 1 (unat (intg d)) + unat (frac_digits d) + (if frac_digits d = 0 then 0 else 1) + 1 + 1"
    using assms by (auto simp: decimal_string_size_def p unat_word_ariths z max_def)
  have "unat (decimal_string_size d - 1) = unat (decimal_string_size d) - 1"
    using s by (intro unat_minus_one) auto
  then show ?thesis using s assms by (auto simp: my_decimal_max_length_def my_decimal_string_length_def max_def)
qed

theorem decimal_string_size_bounds_witness:
  "unat (decimal_string_size \<lparr>intg = 0, frac_digits = 2, dec_len = 9, dec_sign = True, buf = 1, own = 1, buffer = replicate 9 7\<rparr>) = 6"
  using decimal_string_size_bounds [of "\<lparr>intg = 0, frac_digits = 2, dec_len = 9, dec_sign = True, buf = 1, own = 1, buffer = replicate 9 7\<rparr>"]
  by simp

text \<open>Copying a \<^verbatim>\<open>decimal_t\<close> into a well-formed number reads as many digits as the target has. When the source has fewer, which the
  assertion of the function allows, it reads behind their end.\<close>

lemma decimal2my_decimal_reads:
  assumes "wf_decimal d"
  shows "decimal2my_decimal f digits d = None \<longleftrightarrow> length digits < DECIMAL_BUFF_LENGTH"
    "DECIMAL_BUFF_LENGTH \<le> length digits \<Longrightarrow>
       \<exists>e. decimal2my_decimal f digits d = Some e \<and> wf_decimal e \<and>
         content e = (intg f, frac_digits f, dec_sign f, take DECIMAL_BUFF_LENGTH digits)"
  using assms by (auto simp: decimal2my_decimal_def decimal_objects Let_def)

text \<open>Negation keeps zero without a sign and is its own inverse elsewhere, where being zero does not depend on the sign.\<close>

lemma decimal_neg_twice:
  assumes "\<And>d s. decimal_is_zero L (d\<lparr>dec_sign := s\<rparr>) = decimal_is_zero L d"
  shows "my_decimal_neg L (my_decimal_neg L d) = (if decimal_is_zero L d then d\<lparr>dec_sign := False\<rparr> else d)"
  using assms [where d = d and s = "\<not> dec_sign d"] assms [where d = d and s = False] by (simp add: my_decimal_neg_def)

end
