(* ===== verification/Record_Fields.thy ===== *)
theory Record_Fields
  imports Byte_Order
begin

text \<open>
  Fields of a record in memory, from \<^verbatim>\<open>field.h\<close> and \<^verbatim>\<open>my_compare.h\<close>: bits that share bytes with the null bits, lengths in keys,
  numbers in a variable number of bytes, the null bit and the value of a field, packing and unpacking of integers, and the
  lengths and pointers of strings and blobs. The record is the memory of the theory of byte orders; address 0 is the null pointer.
  Functions that the headers only declare are arguments.
\<close>

section \<open>Bits and lengths in keys and records\<close>

text \<open>The arithmetic of \<^verbatim>\<open>get_rec_bits\<close> and \<^verbatim>\<open>set_rec_bits\<close> is that of \<^verbatim>\<open>int\<close>, the results are cut to a byte.\<close>

definition get_rec_bits :: "mem \<Rightarrow> nat \<Rightarrow> nat \<Rightarrow> nat \<Rightarrow> uchar" where
  "get_rec_bits m p ofs len =
     (let val = ucast (m p) :: uint16;
          val = if ofs + len > 8 then val OR ucast (push_bit 8 (ucast (m (p + 1)) :: uint32)) else val
      in ucast (drop_bit ofs (ucast val :: uint32) AND (push_bit len 1 - 1)))"

definition set_rec_bits :: "uint16 \<Rightarrow> mem \<Rightarrow> nat \<Rightarrow> nat \<Rightarrow> nat \<Rightarrow> mem" where
  "set_rec_bits bits m p ofs len =
     (let m = m(p := ucast (((ucast (m p) :: uint32) AND NOT (push_bit ofs (push_bit len 1 - 1))) OR push_bit ofs (ucast bits)))
      in if ofs + len > 8
         then m(p + 1 := ucast (((ucast (m (p + 1)) :: uint32) AND NOT (push_bit (len + ofs - 8) 1 - 1)) OR drop_bit (8 - ofs) (ucast bits)))
         else m)"

definition clr_rec_bits :: "mem \<Rightarrow> nat \<Rightarrow> nat \<Rightarrow> nat \<Rightarrow> mem" where
  "clr_rec_bits m p ofs len = set_rec_bits 0 m p ofs len"

text \<open>The macros on key lengths: the length and the key pointer behind it.\<close>

definition get_key_length :: "mem \<Rightarrow> nat \<Rightarrow> uint32 \<times> nat" where
  "get_key_length m key =
     (if m key \<noteq> 255 then (ucast (m key), key + 1) else (ucast (mi_uint2korr m (key + 1)), key + 3))"

definition get_key_length_rdonly :: "mem \<Rightarrow> nat \<Rightarrow> uint32" where
  "get_key_length_rdonly m key = (if m key \<noteq> 255 then ucast (m key) else ucast (mi_uint2korr m (key + 1)))"

definition get_key_pack_length :: "mem \<Rightarrow> nat \<Rightarrow> uint32 \<times> nat \<times> nat" where
  "get_key_pack_length m key =
     (if m key \<noteq> 255 then (ucast (m key), 1, key + 1) else (ucast (mi_uint2korr m (key + 1)), 3, key + 3))"

definition store_key_length_inc :: "mem \<Rightarrow> nat \<Rightarrow> uint32 \<Rightarrow> mem \<times> nat" where
  "store_key_length_inc m key len =
     (if len < 255 then (m(key := ucast len), key + 1) else (mi_int2store (m(key := 255)) (key + 1) len, key + 3))"

definition size_to_store_key_length :: "uint32 \<Rightarrow> nat" where
  "size_to_store_key_length len = (if len < 255 then 1 else 3)"

section \<open>Numbers in a variable number of bytes\<close>

definition get_enum_pack_length :: "nat \<Rightarrow> nat" where
  "get_enum_pack_length elements = (if elements < 256 then 1 else 2)"

definition get_set_pack_length :: "nat \<Rightarrow> nat" where
  "get_set_pack_length elements = (let len = (elements + 7) div 8 in if len > 4 then 8 else len)"

definition number_storage_requirement :: "uint32 \<Rightarrow> nat" where
  "number_storage_requirement n = (if n < 256 then 1 else if n < 65536 then 2 else if n < 16777216 then 3 else 4)"

definition store_bigendian :: "ulonglong \<Rightarrow> mem \<Rightarrow> nat \<Rightarrow> nat \<Rightarrow> mem" where
  "store_bigendian num m p bytes =
     (if bytes = 1 then mi_int1store m p (ucast num)
      else if bytes = 2 then mi_int2store m p (ucast num)
      else if bytes = 3 then mi_int3store m p (ucast num)
      else if bytes = 4 then mi_int4store m p (ucast num)
      else if bytes = 5 then mi_int5store m p num
      else if bytes = 6 then mi_int6store m p num
      else if bytes = 7 then mi_int7store m p num
      else if bytes = 8 then mi_int8store m p num
      else m)"

definition read_bigendian :: "mem \<Rightarrow> nat \<Rightarrow> nat \<Rightarrow> ulonglong" where
  "read_bigendian m p bytes =
     (if bytes = 1 then ucast (mi_uint1korr m p)
      else if bytes = 2 then ucast (mi_uint2korr m p)
      else if bytes = 3 then ucast (mi_uint3korr m p)
      else if bytes = 4 then ucast (mi_uint4korr m p)
      else if bytes = 5 then mi_uint5korr m p
      else if bytes = 6 then mi_uint6korr m p
      else if bytes = 7 then mi_uint7korr m p
      else if bytes = 8 then mi_sint8korr m p
      else 0)"

definition store_lowendian :: "ulonglong \<Rightarrow> mem \<Rightarrow> nat \<Rightarrow> nat \<Rightarrow> mem" where
  "store_lowendian num m p bytes =
     (if bytes = 1 then m(p := ucast num)
      else if bytes = 2 then int2store m p (ucast num)
      else if bytes = 3 then int3store m p (ucast num)
      else if bytes = 4 then int4store m p (ucast num)
      else if bytes = 8 then int8store m p num
      else m)"

definition read_lowendian :: "mem \<Rightarrow> nat \<Rightarrow> nat \<Rightarrow> ulonglong" where
  "read_lowendian m p bytes =
     (if bytes = 1 then ucast (m p)
      else if bytes = 2 then ucast (uint2korr m p)
      else if bytes = 3 then ucast (uint3korr m p)
      else if bytes = 4 then ucast (uint4korr m p)
      else if bytes = 8 then sint8korr m p
      else 0)"

text \<open>\<^verbatim>\<open>longlong_from_hex_hybrid\<close>: the last eight bytes of a string as a number.\<close>

function hex_hybrid_loop :: "mem \<Rightarrow> nat \<Rightarrow> nat \<Rightarrow> ulonglong \<Rightarrow> ulonglong" where
  "hex_hybrid_loop m q e v = (if q < e then hex_hybrid_loop m (q + 1) e (push_bit 8 v + ucast (m q)) else v)"
  by pat_completeness auto
termination by (relation "measure (\<lambda>(_, q, e, _). e - q)") auto

declare hex_hybrid_loop.simps [simp del]

definition longlong_from_hex_hybrid :: "mem \<Rightarrow> nat \<Rightarrow> nat \<Rightarrow> ulonglong" where
  "longlong_from_hex_hybrid m str len = hex_hybrid_loop m (str + len - min len 8) (str + len) 0"

section \<open>Fields\<close>

record TABLE =
  record0 :: nat
  null_row :: bool
  table_maybe_null :: bool

record Field =
  ptr :: nat
  null_ptr :: nat
  null_bit :: uchar
  field_length :: uint32
  field_flags :: uint32

text \<open>The distance of two pointers, cut to an \<^verbatim>\<open>uint\<close>.\<close>

definition pointer_diff :: "nat \<Rightarrow> nat \<Rightarrow> uint32" where
  "pointer_diff p q = word_of_int (int p - int q)"

definition is_null :: "mem \<Rightarrow> TABLE \<Rightarrow> Field \<Rightarrow> int \<Rightarrow> bool" where
  "is_null m t f row_offset =
     (if null_ptr f \<noteq> 0 then m (nat (int (null_ptr f) + row_offset)) AND null_bit f \<noteq> 0 else null_row t)"

definition is_real_null :: "mem \<Rightarrow> Field \<Rightarrow> int \<Rightarrow> bool" where
  "is_real_null m f row_offset \<longleftrightarrow> null_ptr f \<noteq> 0 \<and> m (nat (int (null_ptr f) + row_offset)) AND null_bit f \<noteq> 0"

definition maybe_null_in_table :: "TABLE \<Rightarrow> Field \<Rightarrow> bool" where
  "maybe_null_in_table t f \<longleftrightarrow> null_ptr f \<ge> record0 t \<and> null_ptr f \<le> ptr f"

definition is_null_in_record :: "mem \<Rightarrow> TABLE \<Rightarrow> Field \<Rightarrow> nat \<Rightarrow> bool" where
  "is_null_in_record m t f rec =
     (if maybe_null_in_table t f then m (rec + unat (pointer_diff (null_ptr f) (record0 t))) AND null_bit f \<noteq> 0 else False)"

definition set_null :: "Field \<Rightarrow> int \<Rightarrow> mem \<Rightarrow> mem" where
  "set_null f row_offset m =
     (let a = nat (int (null_ptr f) + row_offset) in if null_ptr f \<noteq> 0 then m(a := m a OR null_bit f) else m)"

definition set_notnull :: "Field \<Rightarrow> int \<Rightarrow> mem \<Rightarrow> mem" where
  "set_notnull f row_offset m =
     (let a = nat (int (null_ptr f) + row_offset) in if null_ptr f \<noteq> 0 then m(a := m a AND NOT (null_bit f)) else m)"

definition maybe_null :: "TABLE \<Rightarrow> Field \<Rightarrow> bool" where
  "maybe_null t f \<longleftrightarrow> null_ptr f \<noteq> 0 \<or> table_maybe_null t"

definition real_maybe_null :: "Field \<Rightarrow> bool" where
  "real_maybe_null f \<longleftrightarrow> null_ptr f \<noteq> 0"

definition null_offset :: "Field \<Rightarrow> nat \<Rightarrow> uint32" where
  "null_offset f rec = pointer_diff (null_ptr f) rec"

definition set_null_ptr :: "nat \<Rightarrow> uint32 \<Rightarrow> Field \<Rightarrow> Field" where
  "set_null_ptr p b f = f\<lparr>null_ptr := p, null_bit := ucast b\<rparr>"

definition move_field :: "nat \<Rightarrow> nat \<Rightarrow> uchar \<Rightarrow> Field \<Rightarrow> Field" where
  "move_field p np nb f = f\<lparr>ptr := p, null_ptr := np, null_bit := nb\<rparr>"

definition move_field_offset :: "int \<Rightarrow> Field \<Rightarrow> Field" where
  "move_field_offset ptr_diff f =
     (let f = f\<lparr>ptr := nat (int (ptr f) + ptr_diff)\<rparr>
      in if null_ptr f \<noteq> 0 then f\<lparr>null_ptr := nat (int (null_ptr f) + ptr_diff)\<rparr> else f)"

definition field_offset :: "Field \<Rightarrow> nat \<Rightarrow> uint32" where
  "field_offset f rec = pointer_diff (ptr f) rec"

definition ptr_in_record :: "TABLE \<Rightarrow> Field \<Rightarrow> nat \<Rightarrow> nat" where
  "ptr_in_record t f rec = nat (int rec + (int (ptr f) - int (record0 t)))"

text \<open>Reading a value elsewhere: the pointer of the field is moved and put back.\<close>

definition val_int_offset :: "(Field \<Rightarrow> 64 word) \<Rightarrow> nat \<Rightarrow> Field \<Rightarrow> 64 word \<times> Field" where
  "val_int_offset val_int row_offset f =
     (let f = f\<lparr>ptr := ptr f + row_offset\<rparr>; tmp = val_int f in (tmp, f\<lparr>ptr := ptr f - row_offset\<rparr>))"

definition val_int_at :: "(Field \<Rightarrow> 64 word) \<Rightarrow> nat \<Rightarrow> Field \<Rightarrow> 64 word \<times> Field" where
  "val_int_at val_int new_ptr f =
     (let old_ptr = ptr f; f = f\<lparr>ptr := new_ptr\<rparr>; return_value = val_int f in (return_value, f\<lparr>ptr := old_ptr\<rparr>))"

definition copy_bytes :: "mem \<Rightarrow> nat \<Rightarrow> nat \<Rightarrow> nat \<Rightarrow> mem" where
  "copy_bytes m d s n = (\<lambda>a. if d \<le> a \<and> a < d + n then m (s + (a - d)) else m a)"

definition zero_bytes :: "mem \<Rightarrow> nat \<Rightarrow> nat \<Rightarrow> mem" where
  "zero_bytes m d n = (\<lambda>a. if d \<le> a \<and> a < d + n then 0 else m a)"

definition field_reset :: "nat \<Rightarrow> Field \<Rightarrow> mem \<Rightarrow> mem" where
  "field_reset pack_length f m = zero_bytes m (ptr f) pack_length"

definition get_image :: "nat \<Rightarrow> nat \<Rightarrow> nat \<Rightarrow> mem \<Rightarrow> mem" where
  "get_image buff len ptr_arg m = copy_bytes m buff ptr_arg len"

definition set_image :: "Field \<Rightarrow> nat \<Rightarrow> nat \<Rightarrow> mem \<Rightarrow> mem" where
  "set_image f buff len m = copy_bytes m (ptr f) buff len"

text \<open>The length of a value: a short string of fixed length without its trailing spaces.\<close>

fun strip_loop :: "mem \<Rightarrow> nat \<Rightarrow> nat \<Rightarrow> nat" where
  "strip_loop m str 0 = 0"
| "strip_loop m str (Suc n) = (if m (str + n) = 32 then strip_loop m str n else Suc n)"

definition value_length :: "mem \<Rightarrow> bool \<Rightarrow> bool \<Rightarrow> nat \<Rightarrow> nat \<Rightarrow> Field \<Rightarrow> nat" where
  "value_length m zero_pack type_is_string pack_length data_length f =
     (if \<not> zero_pack \<and> type_is_string \<and> pack_length \<ge> 4 \<and> pack_length < 256 then strip_loop m (ptr f) pack_length
      else data_length)"

text \<open>Keeping the smallest and the largest value seen so far in another field.\<close>

definition update_min :: "(mem \<Rightarrow> nat \<Rightarrow> nat \<Rightarrow> int) \<Rightarrow> nat \<Rightarrow> Field \<Rightarrow> Field \<Rightarrow> bool \<Rightarrow> mem \<Rightarrow> bool \<times> mem" where
  "update_min cmp pack_length f min_val force_update m =
     (let update_fl = force_update \<or> cmp m (ptr f) (ptr min_val) < 0
      in (update_fl, if update_fl then copy_bytes (set_notnull min_val 0 m) (ptr min_val) (ptr f) pack_length else m))"

definition update_max :: "(mem \<Rightarrow> nat \<Rightarrow> nat \<Rightarrow> int) \<Rightarrow> nat \<Rightarrow> Field \<Rightarrow> Field \<Rightarrow> bool \<Rightarrow> mem \<Rightarrow> bool \<times> mem" where
  "update_max cmp pack_length f max_val force_update m =
     (let update_fl = force_update \<or> cmp m (ptr f) (ptr max_val) > 0
      in (update_fl, if update_fl then copy_bytes (set_notnull max_val 0 m) (ptr max_val) (ptr f) pack_length else m))"

definition FIELD_FLAGS_STORAGE_MEDIA :: nat where "FIELD_FLAGS_STORAGE_MEDIA = 22"
definition FIELD_FLAGS_COLUMN_FORMAT :: nat where "FIELD_FLAGS_COLUMN_FORMAT = 24"

definition field_storage_type :: "Field \<Rightarrow> uint32" where
  "field_storage_type f = drop_bit FIELD_FLAGS_STORAGE_MEDIA (field_flags f) AND 3"

definition set_storage_type :: "uint32 \<Rightarrow> Field \<Rightarrow> Field" where
  "set_storage_type s f = f\<lparr>field_flags := field_flags f OR push_bit FIELD_FLAGS_STORAGE_MEDIA s\<rparr>"

definition column_format :: "Field \<Rightarrow> uint32" where
  "column_format f = drop_bit FIELD_FLAGS_COLUMN_FORMAT (field_flags f) AND 3"

definition set_column_format :: "uint32 \<Rightarrow> Field \<Rightarrow> Field" where
  "set_column_format c f = f\<lparr>field_flags := field_flags f OR push_bit FIELD_FLAGS_COLUMN_FORMAT c\<rparr>"

section \<open>Packing of integers\<close>

definition pack_int :: "nat \<Rightarrow> nat \<Rightarrow> nat \<Rightarrow> mem \<Rightarrow> nat \<times> mem" where
  "pack_int d s n m = (d + n, copy_bytes m d s n)"

definition unpack_int :: "nat \<Rightarrow> nat \<Rightarrow> nat \<Rightarrow> nat \<Rightarrow> mem \<Rightarrow> nat \<times> mem" where
  "unpack_int d s from_end n m = (if s + n > from_end then (0, m) else (s + n, copy_bytes m d s n))"

definition tiny_pack :: "nat \<Rightarrow> nat \<Rightarrow> mem \<Rightarrow> nat \<times> mem" where
  "tiny_pack d s m = (d + 1, m(d := m s))"

definition tiny_unpack :: "nat \<Rightarrow> nat \<Rightarrow> nat \<Rightarrow> mem \<Rightarrow> nat \<times> mem" where
  "tiny_unpack d s from_end m = (if s = from_end then (0, m) else (s + 1, m(d := m s)))"

definition short_pack :: "nat \<Rightarrow> nat \<Rightarrow> mem \<Rightarrow> nat \<times> mem" where "short_pack d s m = pack_int d s 2 m"
definition short_unpack :: "nat \<Rightarrow> nat \<Rightarrow> nat \<Rightarrow> mem \<Rightarrow> nat \<times> mem" where "short_unpack d s e m = unpack_int d s e 2 m"
definition long_pack :: "nat \<Rightarrow> nat \<Rightarrow> mem \<Rightarrow> nat \<times> mem" where "long_pack d s m = pack_int d s 4 m"
definition long_unpack :: "nat \<Rightarrow> nat \<Rightarrow> nat \<Rightarrow> mem \<Rightarrow> nat \<times> mem" where "long_unpack d s e m = unpack_int d s e 4 m"
definition longlong_pack :: "nat \<Rightarrow> nat \<Rightarrow> mem \<Rightarrow> nat \<times> mem" where "longlong_pack d s m = pack_int d s 8 m"
definition longlong_unpack :: "nat \<Rightarrow> nat \<Rightarrow> nat \<Rightarrow> mem \<Rightarrow> nat \<times> mem" where "longlong_unpack d s e m = unpack_int d s e 8 m"

definition longlong_reset :: "Field \<Rightarrow> mem \<Rightarrow> mem" where
  "longlong_reset f m = zero_bytes m (ptr f) 8"

definition tiny_max_int_value :: "bool \<Rightarrow> ulonglong" where
  "tiny_max_int_value unsigned_flag = (if unsigned_flag then 0xFF else 0x7F)"
definition short_max_int_value :: "bool \<Rightarrow> ulonglong" where
  "short_max_int_value unsigned_flag = (if unsigned_flag then 0xFFFF else 0x7FFF)"
definition medium_max_int_value :: "bool \<Rightarrow> ulonglong" where
  "medium_max_int_value unsigned_flag = (if unsigned_flag then 0xFFFFFF else 0x7FFFFF)"
definition long_max_int_value :: "bool \<Rightarrow> ulonglong" where
  "long_max_int_value unsigned_flag = (if unsigned_flag then 0xFFFFFFFF else 0x7FFFFFFF)"
definition longlong_max_int_value :: "bool \<Rightarrow> ulonglong" where
  "longlong_max_int_value unsigned_flag = (if unsigned_flag then 0xFFFFFFFFFFFFFFFF else 0x7FFFFFFFFFFFFFFF)"

definition field_val_uint :: "64 word \<Rightarrow> ulonglong" where
  "field_val_uint nr = (if sint nr < 0 then 0 else nr)"

definition int_val_uint :: "bool \<Rightarrow> 64 word \<Rightarrow> ulonglong" where
  "int_val_uint unsigned_flag nr = (if sint nr < 0 \<and> \<not> unsigned_flag then 0 else nr)"

section \<open>Strings and blobs\<close>

definition string_pack_length_from_metadata :: "uint32 \<Rightarrow> uint32 \<Rightarrow> uint32" where
  "string_pack_length_from_metadata row_pack_length field_metadata =
     (if field_metadata = 0 then row_pack_length
      else ((drop_bit 4 field_metadata AND 0x300) XOR 0x300) + (field_metadata AND 0xff))"

definition enum_pack_length_from_metadata :: "uint32 \<Rightarrow> uint32" where
  "enum_pack_length_from_metadata field_metadata = field_metadata AND 0xff"

record Field_varstring = Field +
  length_bytes :: uint32

definition varstring_get_data :: "Field_varstring \<Rightarrow> nat \<Rightarrow> nat" where
  "varstring_get_data f ptr_arg = ptr_arg + unat (length_bytes f)"

definition varstring_get_length :: "mem \<Rightarrow> Field_varstring \<Rightarrow> nat \<Rightarrow> uint32" where
  "varstring_get_length m f ptr_arg = (if length_bytes f = 1 then ucast (m ptr_arg) else ucast (uint2korr m ptr_arg))"

definition varstring_store_length :: "Field_varstring \<Rightarrow> uint32 \<Rightarrow> mem \<Rightarrow> mem" where
  "varstring_store_length f number m =
     (if length_bytes f = 1 then m(ptr f := ucast number) else int2store m (ptr f) number)"

definition varstring_reset :: "Field_varstring \<Rightarrow> mem \<Rightarrow> mem" where
  "varstring_reset f m = zero_bytes m (ptr f) (unat (field_length f + length_bytes f))"

definition varstring_pack_length :: "Field_varstring \<Rightarrow> uint32" where
  "varstring_pack_length f = field_length f + length_bytes f"

definition varstring_sort_suffix_length :: "bool \<Rightarrow> Field_varstring \<Rightarrow> uint32" where
  "varstring_sort_suffix_length charset_is_bin f = (if charset_is_bin then length_bytes f else 0)"

definition varstring_sort_length :: "bool \<Rightarrow> Field_varstring \<Rightarrow> uint32" where
  "varstring_sort_length charset_is_bin f = field_length f + varstring_sort_suffix_length charset_is_bin f"

record Field_blob = Field +
  packlength :: uint32

definition blob_packlength :: "bool \<Rightarrow> uint32 \<Rightarrow> uint32" where
  "blob_packlength set_packlength len_arg = (if set_packlength then of_nat (number_storage_requirement len_arg) else 4)"

definition blob_max_data_length :: "Field_blob \<Rightarrow> uint32" where
  "blob_max_data_length f = ucast (push_bit (unat (packlength f * 8)) (1 :: ulonglong) - 1)"

definition blob_pack_length :: "Field_blob \<Rightarrow> uint32" where
  "blob_pack_length f = packlength f + 8"

definition blob_reset :: "Field_blob \<Rightarrow> mem \<Rightarrow> mem" where
  "blob_reset f m = zero_bytes m (ptr f) (unat (packlength f) + 8)"

text \<open>Pointers are stored in their native order, low byte first.\<close>

definition blob_get_ptr :: "mem \<Rightarrow> Field_blob \<Rightarrow> nat \<Rightarrow> ulonglong" where
  "blob_get_ptr m f ptr_arg = le_load 8 m (ptr_arg + unat (packlength f))"

definition blob_set_ptr :: "Field_blob \<Rightarrow> nat \<Rightarrow> ulonglong \<Rightarrow> mem \<Rightarrow> mem" where
  "blob_set_ptr f len data m =
     le_store 8 (copy_bytes m (ptr f) len (unat (packlength f))) (ptr f + unat (packlength f)) data"

definition blob_set_ptr_offset :: "(nat \<Rightarrow> uint32 \<Rightarrow> uint32 \<Rightarrow> mem \<Rightarrow> mem) \<Rightarrow> Field_blob \<Rightarrow> int \<Rightarrow> uint32 \<Rightarrow> ulonglong \<Rightarrow> mem \<Rightarrow> mem" where
  "blob_set_ptr_offset store_length f ptr_diff len data m =
     (let ptr_ofs = nat (int (ptr f) + ptr_diff)
      in le_store 8 (store_length ptr_ofs (packlength f) len m) (ptr_ofs + unat (packlength f)) data)"

section \<open>Bit fields\<close>

record Field_bit = Field +
  bit_ptr :: nat
  bit_ofs :: uchar
  bit_len :: uint32
  bytes_in_rec :: uint32

definition bit_reset :: "Field_bit \<Rightarrow> mem \<Rightarrow> mem" where
  "bit_reset f m =
     (let m = zero_bytes m (ptr f) (unat (bytes_in_rec f))
      in if bit_ptr f \<noteq> 0 \<and> bit_len f > 0 then clr_rec_bits m (bit_ptr f) (unat (bit_ofs f)) (unat (bit_len f)) else m)"

definition bit_pack_length :: "Field_bit \<Rightarrow> uint32" where
  "bit_pack_length f = (field_length f + 7) div 8"

definition bit_row_pack_length :: "Field_bit \<Rightarrow> uint32" where
  "bit_row_pack_length f = bytes_in_rec f + (if bit_len f > 0 then 1 else 0)"

definition set_bit_ptr :: "nat \<Rightarrow> uchar \<Rightarrow> Field_bit \<Rightarrow> Field_bit" where
  "set_bit_ptr p ofs f = f\<lparr>bit_ptr := p, bit_ofs := ofs\<rparr>"

definition bit_move_field_offset :: "int \<Rightarrow> Field_bit \<Rightarrow> Field_bit" where
  "bit_move_field_offset ptr_diff f =
     (let f = f\<lparr>ptr := nat (int (ptr f) + ptr_diff)\<rparr>;
          f = if null_ptr f \<noteq> 0 then f\<lparr>null_ptr := nat (int (null_ptr f) + ptr_diff)\<rparr> else f
      in if bit_ptr f \<noteq> 0 then f\<lparr>bit_ptr := nat (int (bit_ptr f) + ptr_diff)\<rparr> else f)"

text \<open>Reading and storing a number are functions of the fields; both numbers are compared as signed ones.\<close>

definition bit_update_min ::
  "(Field \<Rightarrow> mem \<Rightarrow> 64 word) \<Rightarrow> (Field \<Rightarrow> 64 word \<Rightarrow> mem \<Rightarrow> mem) \<Rightarrow> Field \<Rightarrow> Field \<Rightarrow> bool \<Rightarrow> mem \<Rightarrow> bool \<times> mem" where
  "bit_update_min val_int store f min_val force_update m =
     (let val = val_int f m; update_fl = force_update \<or> sint val < sint (val_int min_val m)
      in (update_fl, if update_fl then store min_val val (set_notnull min_val 0 m) else m))"

definition bit_update_max ::
  "(Field \<Rightarrow> mem \<Rightarrow> 64 word) \<Rightarrow> (Field \<Rightarrow> 64 word \<Rightarrow> mem \<Rightarrow> mem) \<Rightarrow> Field \<Rightarrow> Field \<Rightarrow> bool \<Rightarrow> mem \<Rightarrow> bool \<times> mem" where
  "bit_update_max val_int store f max_val force_update m =
     (let val = val_int f m; update_fl = force_update \<or> sint val > sint (val_int max_val m)
      in (update_fl, if update_fl then store max_val val (set_notnull max_val 0 m) else m))"

definition bit_type_info_metadata :: "Field_bit \<Rightarrow> uint16" where
  "bit_type_info_metadata f = ucast ((field_length f AND 7) OR push_bit 8 (field_length f div 8))"

section \<open>Definitions of columns\<close>

text \<open>The number of digits behind the point that a field for floating-point numbers has, and whether it is not fixed: the constructors
  change their parameter after the base class has been constructed with it.\<close>

definition FLOATING_POINT_DECIMALS :: uint16 where "FLOATING_POINT_DECIMALS = 31"
definition NOT_FIXED_DEC :: uint16 where "NOT_FIXED_DEC = 39"

definition real_decimals :: "uint16 \<Rightarrow> uint16 \<times> bool" where
  "real_decimals dec_arg = (dec_arg, dec_arg \<ge> FLOATING_POINT_DECIMALS)"

definition float_decimals :: "uint16 \<Rightarrow> uint16 \<times> bool" where
  "float_decimals dec_arg =
     (let base = real_decimals dec_arg;
          dec_arg = (if dec_arg \<ge> FLOATING_POINT_DECIMALS then NOT_FIXED_DEC else dec_arg)
      in base)"

definition char_to_byte_length_safe :: "ulonglong \<Rightarrow> uint32 \<Rightarrow> uint32" where
  "char_to_byte_length_safe char_length mbmaxlen =
     (let tmp = char_length * ucast mbmaxlen in if tmp > 0xFFFFFFFF then 0xFFFFFFFF else ucast tmp)"

definition max_char_length :: "bool \<Rightarrow> ulonglong \<Rightarrow> uint32 \<Rightarrow> uint32 \<Rightarrow> uint32" where
  "max_char_length type_is_blob len mbminlen mbmaxlen =
     (if type_is_blob then ucast (len div ucast mbminlen) else ucast (len div ucast mbmaxlen))"

definition max_octet_length :: "bool \<Rightarrow> ulonglong \<Rightarrow> uint32 \<Rightarrow> uint32 \<Rightarrow> uint32 \<Rightarrow> uint32" where
  "max_octet_length type_is_blob len from_mbminlen from_mbmaxlen to_mbmaxlen =
     char_to_byte_length_safe (ucast (max_char_length type_is_blob len from_mbminlen from_mbmaxlen)) to_mbmaxlen"

definition temporal_dec :: "ulonglong \<Rightarrow> uint32 \<Rightarrow> uint32" where
  "temporal_dec len intlen = ucast (if len > ucast intlen then len - ucast intlen - 1 else 0)"

text \<open>The largest and the total number of characters of the values of an \<^verbatim>\<open>ENUM\<close> or \<^verbatim>\<open>SET\<close>, from the numbers for each value.\<close>

fun interval_lengths :: "uint32 list \<Rightarrow> uint32 \<times> uint32 \<Rightarrow> uint32 \<times> uint32" where
  "interval_lengths [] acc = acc"
| "interval_lengths (n # ns) (mx, tot) = interval_lengths ns (if mx < n then n else mx, tot + n)"

definition calculate_interval_lengths :: "uint32 list \<Rightarrow> uint32 \<times> uint32" where
  "calculate_interval_lengths ns = interval_lengths ns (0, 0)"

abbreviation MAX_FIELD_WIDTH :: ulonglong where "MAX_FIELD_WIDTH \<equiv> 255 * 3 + 1"

definition prepare_interval_field_calc_length :: "bool \<Rightarrow> uint32 list \<Rightarrow> ulonglong" where
  "prepare_interval_field_calc_length type_is_set ns =
     (let len = (if type_is_set then ucast (snd (calculate_interval_lengths ns) + (of_nat (length ns) - 1))
                 else ucast (fst (calculate_interval_lengths ns)))
      in if len > MAX_FIELD_WIDTH - 1 then MAX_FIELD_WIDTH - 1 else len)"

section \<open>Bits of records\<close>

text \<open>The bits of two bytes of the record, counted from the first.\<close>

definition rec_bit :: "mem \<Rightarrow> nat \<Rightarrow> nat \<Rightarrow> bool" where
  "rec_bit m p j = (if j < 8 then bit (m p) j else bit (m (p + 1)) (j - 8))"

lemma exp_minus_1: "2 ^ n - 1 = (mask n :: 'a::len word)"
  by (simp add: mask_eq_exp_minus_1)

lemma take_bit_of_small: "unat (w :: 'a::len word) < 2 ^ n \<Longrightarrow> take_bit n w = w"
  by (simp add: word_unat_eq_iff unsigned_take_bit_eq take_bit_nat_eq_self)

lemma ucast_back:
  "unat (w :: 'a::len word) < 2 ^ LENGTH('b::len) \<Longrightarrow> ucast (ucast w :: 'b word) = w"
  using take_bit_of_small [of w "LENGTH('b)"] by (metis (mono_tags) bit_take_bit_iff bit_ucast_iff bit_word_eqI)

lemma bit_get_rec_bits:
  assumes "ofs < 8" "len \<le> 8"
  shows "bit (get_rec_bits m p ofs len) i \<longleftrightarrow> i < len \<and> rec_bit m p (ofs + i)"
  using assms by (auto simp: get_rec_bits_def Let_def exp_minus_1 rec_bit_def bit_simps dest: bit_less_8)

lemma rec_bit_set_rec_bits:
  assumes "ofs < 8" "0 < len" "len \<le> 8" "j < 16" "take_bit len bits = bits"
  shows "rec_bit (set_rec_bits bits m p ofs len) p j \<longleftrightarrow> (if ofs \<le> j \<and> j < ofs + len then bit bits (j - ofs) else rec_bit m p j)"
proof -
  have b: "bit bits k \<Longrightarrow> k < len" for k by (metis assms(5) bit_take_bit_iff)
  show ?thesis
    using assms(1-4) b [of "j - ofs"]
    by (auto simp: set_rec_bits_def Let_def exp_minus_1 rec_bit_def bit_simps dest: bit_less_8 bit_less_16)
qed

text \<open>C25. A few bits stored in a record at any position inside a byte, crossing into the next byte or not, read back as they are, and
  all other bits of both bytes and all other bytes keep their values: null bits that share the bytes are not touched.\<close>

theorem rec_bits_round_trip:
  assumes "ofs < 8" "0 < len" "len \<le> 8" "unat bits < 2 ^ len"
  shows "get_rec_bits (set_rec_bits bits m p ofs len) p ofs len = ucast bits \<and>
    (\<forall>j < 16. \<not> (ofs \<le> j \<and> j < ofs + len) \<longrightarrow> rec_bit (set_rec_bits bits m p ofs len) p j = rec_bit m p j) \<and>
    (\<forall>q. q \<noteq> p \<longrightarrow> q \<noteq> p + 1 \<longrightarrow> set_rec_bits bits m p ofs len q = m q)"
proof (intro conjI allI impI)
  have t: "take_bit len bits = bits" using assms(4) by (rule take_bit_of_small)
  note r = rec_bit_set_rec_bits [OF assms(1-3) _ t]
  show "get_rec_bits (set_rec_bits bits m p ofs len) p ofs len = ucast bits"
  proof (rule bit_word_eqI)
    fix i assume "i < LENGTH(8)"
    have "bit bits i \<Longrightarrow> i < len" by (metis t bit_take_bit_iff)
    then show "bit (get_rec_bits (set_rec_bits bits m p ofs len) p ofs len) i = bit (ucast bits :: uchar) i"
      using assms \<open>i < LENGTH(8)\<close> by (auto simp: bit_get_rec_bits r bit_simps)
  qed
  show "rec_bit (set_rec_bits bits m p ofs len) p j = rec_bit m p j" if "j < 16" "\<not> (ofs \<le> j \<and> j < ofs + len)" for j
    using that by (auto simp: r)
  show "set_rec_bits bits m p ofs len q = m q" if "q \<noteq> p" "q \<noteq> p + 1" for q
    using that by (simp add: set_rec_bits_def Let_def)
qed

theorem rec_bits_round_trip_witness: "get_rec_bits (set_rec_bits 5 (\<lambda>_. 255) 10 6 3) 10 6 3 = 5"
  using rec_bits_round_trip [of 6 3 5 "\<lambda>_. 255" 10] by simp

text \<open>The length of a key part is stored in one byte below 255 and in three from there on; it reads back, and both the writer and
  the reader stand behind it.\<close>

theorem key_length_round_trip:
  assumes "unat n < 2 ^ 16" "store_key_length_inc m key n = (m', key')"
  shows "get_key_length m' key = (n, key') \<and> get_key_length_rdonly m' key = n \<and>
    get_key_pack_length m' key = (n, size_to_store_key_length n, key') \<and> key' = key + size_to_store_key_length n"
proof (cases "n < 255")
  case True
  then have n: "unat n < 255" by (simp add: word_less_nat_alt)
  have u: "ucast (ucast n :: uchar) = n"
    using n by (intro ucast_back) simp
  have "(ucast n :: uchar) \<noteq> 255"
  proof
    assume "(ucast n :: uchar) = 255"
    then have "unat (ucast (ucast n :: uchar) :: uint32) = 255" by simp
    then show False using n u by simp
  qed
  with True u show ?thesis
    using assms(2) by (auto simp: store_key_length_inc_def get_key_length_def get_key_length_rdonly_def get_key_pack_length_def
      size_to_store_key_length_def)
next
  case False
  have "ucast (ucast n :: uint16) = n"
    using assms(1) by (intro ucast_back) simp
  moreover have "mi_uint2korr (mi_int2store (m(key := 255)) (key + 1) n) (key + 1) = ucast n"
    using mi2.load_store [of "m(key := 255)" "key + 1" n] by (simp add: word_cut)
  moreover have "mi_int2store (m(key := 255)) (key + 1) n key = 255"
    using mi2.store_frame [of key "key + 1" "m(key := 255)" n] by simp
  ultimately show ?thesis
    using False assms(2) by (auto simp: store_key_length_inc_def get_key_length_def get_key_length_rdonly_def get_key_pack_length_def
      size_to_store_key_length_def)
qed

theorem key_length_round_trip_witness: "fst (get_key_length (fst (store_key_length_inc (\<lambda>_. 0) 4 300)) 4) = 300"
  using key_length_round_trip [of 300 "\<lambda>_. 0" 4 "fst (store_key_length_inc (\<lambda>_. 0) 4 300)" "snd (store_key_length_inc (\<lambda>_. 0) 4 300)"]
  by simp

section \<open>Numbers in a variable number of bytes\<close>

lemma be_store_ucast:
  "LENGTH('b::len) \<ge> 8 * n \<Longrightarrow> be_store n m p (ucast (v :: 'a::len word) :: 'b word) = be_store n m p v"
  by (rule ext) (auto simp: be_store_apply intro!: bit_word_eqI simp: bit_simps)

lemma le_store_ucast:
  "LENGTH('b::len) \<ge> 8 * n \<Longrightarrow> le_store n m p (ucast (v :: 'a::len word) :: 'b word) = le_store n m p v"
  by (rule ext) (auto simp: le_store_apply intro!: bit_word_eqI simp: bit_simps)

lemma ucast_be_load: "LENGTH('b::len) \<ge> 8 * n \<Longrightarrow> ucast (be_load n m p :: 'b word) = (be_load n m p :: 'a::len word)"
  by (rule bit_word_eqI) (auto simp: bits_of bit_simps)

lemma ucast_le_load: "LENGTH('b::len) \<ge> 8 * n \<Longrightarrow> ucast (le_load n m p :: 'b word) = (le_load n m p :: 'a::len word)"
  by (rule bit_word_eqI) (auto simp: bits_of bit_simps)

lemma read_bigendian_eq:
  assumes "1 \<le> n" "n \<le> 8" shows "read_bigendian m p n = be_load n m p"
proof -
  have "n = 1 \<or> n = 2 \<or> n = 3 \<or> n = 4 \<or> n = 5 \<or> n = 6 \<or> n = 7 \<or> n = 8" using assms by linarith
  then show ?thesis
    by (elim disjE) (simp_all add: read_bigendian_def mi_sint8korr_def mi_uint1korr_def mi_korr_be_load ucast_be_load del: be_load_numeral)
qed

lemma store_bigendian_eq:
  assumes "1 \<le> n" "n \<le> 8" shows "store_bigendian v m p n = be_store n m p v"
proof -
  have "n = 1 \<or> n = 2 \<or> n = 3 \<or> n = 4 \<or> n = 5 \<or> n = 6 \<or> n = 7 \<or> n = 8" using assms by linarith
  then show ?thesis
    by (elim disjE) (simp_all add: store_bigendian_def mi_store_be_store be_store_ucast del: be_store_numeral be_store.simps)
qed

lemma read_lowendian_eq:
  assumes "n \<in> {1, 2, 3, 4, 8}" shows "read_lowendian m p n = le_load n m p"
  using assms by (elim insertE emptyE)
    (simp_all add: read_lowendian_def sint8korr_def korr_le_load ucast_le_load del: le_load_numeral)

lemma store_lowendian_eq:
  assumes "n \<in> {1, 2, 3, 4, 8}" shows "store_lowendian v m p n = le_store n m p v"
  using assms by (elim insertE emptyE)
    (simp_all add: store_lowendian_def store_le_store le_store_ucast del: le_store_numeral)

text \<open>A number stored in 1 to 8 bytes, high byte first, or in 1, 2, 3, 4 or 8 bytes, low byte first, reads back as its lowest bytes,
  and no other byte changes; stored high byte first, numbers that fit compare byte by byte as they do by value.\<close>

theorem variable_bytes_round_trip:
  assumes "1 \<le> n" "n \<le> 8"
  shows "read_bigendian (store_bigendian v m p n) p n = take_bit (8 * n) v \<and>
    (\<forall>q. q < p \<or> p + n \<le> q \<longrightarrow> store_bigendian v m p n q = m q) \<and>
    (unat v < 2 ^ (8 * n) \<and> unat w < 2 ^ (8 * n) \<longrightarrow>
       memcmp n (store_bigendian v m p n) p (store_bigendian w m' p' n) p' = cmp3 (unat v) (unat w)) \<and>
    (n \<in> {1, 2, 3, 4, 8} \<longrightarrow> read_lowendian (store_lowendian v m p n) p n = take_bit (8 * n) v \<and>
       (\<forall>q. q < p \<or> p + n \<le> q \<longrightarrow> store_lowendian v m p n q = m q))"
proof (intro conjI allI impI)
  note eqs = read_bigendian_eq [OF assms] store_bigendian_eq [OF assms]
  show "read_bigendian (store_bigendian v m p n) p n = take_bit (8 * n) v" by (simp add: eqs be_load_be_store)
  show "store_bigendian v m p n q = m q" if "q < p \<or> p + n \<le> q" for q using that by (auto simp: eqs be_store_apply)
  show "memcmp n (store_bigendian v m p n) p (store_bigendian w m' p' n) p' = cmp3 (unat v) (unat w)"
    if "unat v < 2 ^ (8 * n) \<and> unat w < 2 ^ (8 * n)"
  proof -
    have "be_value n (be_store n m p v) p = unat v" if "unat v < 2 ^ (8 * n)" for m p and v :: ulonglong
    proof -
      have "unat (be_load n (be_store n m p v) p :: ulonglong) = be_value n (be_store n m p v) p"
        by (rule unat_be_load) (use assms in simp)
      then show ?thesis using take_bit_of_small [OF that] by (simp add: be_load_be_store)
    qed
    with that show ?thesis by (simp add: eqs memcmp_be_value)
  qed
  assume n: "n \<in> {1, 2, 3, 4, 8}"
  show "read_lowendian (store_lowendian v m p n) p n = take_bit (8 * n) v"
    by (simp add: read_lowendian_eq [OF n] store_lowendian_eq [OF n] le_load_le_store)
  show "store_lowendian v m p n q = m q" if "q < p \<or> p + n \<le> q" for q
    using that by (auto simp: store_lowendian_eq [OF n] le_store_apply)
qed

theorem variable_bytes_round_trip_witness: "read_bigendian (store_bigendian 0x123456 (\<lambda>_. 0) 7 2) 7 2 = 0x3456"
  using variable_bytes_round_trip [of 2 "0x123456" "\<lambda>_. 0" 7 0 "\<lambda>_. 0" 0] by simp

lemma hex_hybrid_loop_be_load:
  assumes "q \<le> e"
  shows "hex_hybrid_loop m q e v = push_bit (8 * (e - q)) v + be_load (e - q) m q"
  using assms
proof (induction "e - q" arbitrary: q v)
  case 0
  then show ?case by (subst hex_hybrid_loop.simps) simp
next
  case (Suc k)
  then have q: "q < e" "e - (q + 1) = k" "e - q = Suc k" by auto
  have b: "push_bit (8 * k) (ucast (m q)) + be_load k m (Suc q) = (push_bit (8 * k) (ucast (m q)) OR be_load k m (Suc q) :: ulonglong)"
    by (rule disjunctive_add) (auto simp: bits_of bit_simps)
  have "hex_hybrid_loop m q e v = hex_hybrid_loop m (q + 1) e (push_bit 8 v + ucast (m q))"
    using q by (subst hex_hybrid_loop.simps) simp
  also have "\<dots> = push_bit (8 * k) (push_bit 8 v + ucast (m q)) + be_load k m (q + 1)"
    using Suc.hyps(1) [of "q + 1" "push_bit 8 v + ucast (m q)"] q by simp
  also have "\<dots> = push_bit (8 * Suc k) v + (push_bit (8 * k) (ucast (m q)) + be_load k m (q + 1))"
    by (simp add: push_bit_add add.assoc add.commute [of 8])
  finally show ?case by (simp add: q b)
qed

text \<open>The number of a hexadecimal literal is that of its last eight bytes, high byte first: for a literal of up to eight bytes what
  \<^verbatim>\<open>read_bigendian\<close> gives, and a longer one loses its first bytes.\<close>

theorem hex_hybrid_value:
  "longlong_from_hex_hybrid m str len =
     (if len = 0 then 0 else if len \<le> 8 then read_bigendian m str len else read_bigendian m (str + len - 8) 8)"
proof -
  have "longlong_from_hex_hybrid m str len = be_load (min len 8) m (str + len - min len 8)"
    using hex_hybrid_loop_be_load [of "str + len - min len 8" "str + len" m 0]
    by (auto simp: longlong_from_hex_hybrid_def min_def simp del: be_load_numeral)
  then show ?thesis by (auto simp: read_bigendian_eq min_def simp del: be_load_numeral)
qed

text \<open>The number of bytes for the length of a blob is the smallest that is enough: the length is at most what the blob can hold, and
  one byte less could not hold it.\<close>

theorem blob_length_bytes:
  assumes "packlength f = blob_packlength True n"
  shows "n \<le> blob_max_data_length f \<and> 1 \<le> unat (packlength f) \<and> unat (packlength f) \<le> 4 \<and>
    (unat (packlength f) > 1 \<longrightarrow> 2 ^ (8 * (unat (packlength f) - 1)) \<le> unat n)"
  using assms unat_less [of n]
  by (auto simp: blob_packlength_def number_storage_requirement_def blob_max_data_length_def word_less_nat_alt word_le_nat_alt)

theorem blob_length_bytes_witness:
  "\<not> 255 < blob_max_data_length \<lparr>ptr = 0, null_ptr = 0, null_bit = 0, field_length = 0, field_flags = 0, packlength = 1\<rparr> \<and>
   (200 :: uint32) \<le> blob_max_data_length \<lparr>ptr = 0, null_ptr = 0, null_bit = 0, field_length = 0, field_flags = 0, packlength = 1\<rparr>"
  using blob_length_bytes [of "\<lparr>ptr = 0, null_ptr = 0, null_bit = 0, field_length = 0, field_flags = 0, packlength = 1\<rparr>" 200]
  by (simp add: blob_packlength_def number_storage_requirement_def blob_max_data_length_def)

text \<open>The bytes of a \<^verbatim>\<open>SET\<close> hold all its elements, and are one of the sizes that integers have.\<close>

lemma set_pack_length:
  assumes "elements \<le> 64"
  shows "elements \<le> 8 * get_set_pack_length elements" "0 < elements \<Longrightarrow> get_set_pack_length elements \<in> {1, 2, 3, 4, 8}"
  using assms by (auto simp: get_set_pack_length_def Let_def)

section \<open>Fields in a record\<close>

text \<open>A field with a null bit has exactly one bit in it.\<close>

definition wf_null_bit :: "Field \<Rightarrow> bool" where
  "wf_null_bit f \<longleftrightarrow> (\<exists>k < 8. null_bit f = push_bit k 1)"

text \<open>Marking a field null or not null is seen by that field in that row and by no other: a field with another null bit or in
  another byte, the same field in another row, and all values are unchanged. A field without a null bit never becomes null.\<close>

theorem null_bits_independent:
  assumes "wf_null_bit f" "wf_null_bit g"
    and "nat (int (null_ptr g) + r') \<noteq> nat (int (null_ptr f) + r) \<or> null_bit g \<noteq> null_bit f"
  shows "(is_real_null (set_null f r m) f r \<longleftrightarrow> null_ptr f \<noteq> 0) \<and> \<not> is_real_null (set_notnull f r m) f r \<and>
    is_real_null (set_null f r m) g r' = is_real_null m g r' \<and> is_real_null (set_notnull f r m) g r' = is_real_null m g r' \<and>
    (\<forall>a. a \<noteq> nat (int (null_ptr f) + r) \<longrightarrow> set_null f r m a = m a \<and> set_notnull f r m a = m a)"
proof -
  obtain k l where k: "k < 8" "null_bit f = push_bit k 1" and l: "l < 8" "null_bit g = push_bit l 1"
    using assms(1,2) by (auto simp: wf_null_bit_def)
  have s: "(w AND push_bit i 1 \<noteq> 0) = bit w i" if "i < 8" for w :: uchar and i
    using that by (simp add: and_push_bit_1_eq_0_iff del: push_bit_of_1)
  have "bit (w OR push_bit k 1) l \<longleftrightarrow> bit w l \<or> l = k" "bit (w AND NOT (push_bit k 1)) l \<longleftrightarrow> bit w l \<and> l \<noteq> k"
    "bit (w OR push_bit k 1) k" "\<not> bit (w AND NOT (push_bit k 1)) k" for w :: uchar
    using k(1) l(1) by (auto simp: bit_simps)
  then show ?thesis
    using assms(3) k l by (auto simp: is_real_null_def set_null_def set_notnull_def Let_def s simp del: push_bit_of_1)
qed

theorem null_bits_independent_witness:
  "let f = \<lparr>ptr = 11, null_ptr = 10, null_bit = 1, field_length = 1, field_flags = 0\<rparr>;
       g = \<lparr>ptr = 12, null_ptr = 10, null_bit = 4, field_length = 1, field_flags = 0\<rparr>
   in is_real_null (set_null f 0 (\<lambda>_. 4)) f 0 \<and> is_real_null (set_notnull f 0 (\<lambda>_. 4)) g 0"
proof -
  let ?f = "\<lparr>ptr = 11, null_ptr = 10, null_bit = 1, field_length = 1, field_flags = 0\<rparr>"
  let ?g = "\<lparr>ptr = 12, null_ptr = 10, null_bit = 4, field_length = 1, field_flags = 0\<rparr>"
  have "wf_null_bit ?f" by (simp add: wf_null_bit_def exI [of _ 0])
  moreover have "wf_null_bit ?g" by (simp add: wf_null_bit_def exI [of _ 2])
  ultimately show ?thesis
    using null_bits_independent [of ?f ?g 0 0 "\<lambda>_. 4"] by (simp add: is_real_null_def)
qed

section \<open>Smallest and largest values\<close>

text \<open>What \<^verbatim>\<open>update_min\<close> and \<^verbatim>\<open>update_max\<close> rely on: a comparison of two values of the same size in memory that is the order of some
  key, and a key that depends on the bytes of the value only.\<close>

locale value_order =
  fixes cmp :: "mem \<Rightarrow> nat \<Rightarrow> nat \<Rightarrow> int" and n :: nat and key :: "mem \<Rightarrow> nat \<Rightarrow> 'k::linorder"
  assumes cmp_less: "cmp m a b < 0 \<longleftrightarrow> key m a < key m b"
    and cmp_greater: "cmp m a b > 0 \<longleftrightarrow> key m b < key m a"
    and key_cong: "(\<And>i. i < n \<Longrightarrow> m (a + i) = m' (b + i)) \<Longrightarrow> key m a = key m' b"
begin

lemma key_copy:
  assumes "null_ptr g = 0 \<or> null_ptr g < ptr f \<or> ptr f + n \<le> null_ptr g"
  shows "key (copy_bytes (set_notnull g 0 m) (ptr g) (ptr f) n) (ptr g) = key m (ptr f)"
  by (rule key_cong) (use assms in \<open>auto simp: copy_bytes_def set_notnull_def Let_def\<close>)

lemma update_min_key:
  assumes "null_ptr g = 0 \<or> null_ptr g < ptr f \<or> ptr f + n \<le> null_ptr g"
  shows "key (snd (update_min cmp n f g force m)) (ptr g) = (if force then key m (ptr f) else min (key m (ptr f)) (key m (ptr g)))"
  using key_copy [OF assms] by (auto simp: update_min_def Let_def cmp_less min_def)

lemma update_max_key:
  assumes "null_ptr g = 0 \<or> null_ptr g < ptr f \<or> ptr f + n \<le> null_ptr g"
  shows "key (snd (update_max cmp n f g force m)) (ptr g) = (if force then key m (ptr f) else max (key m (ptr f)) (key m (ptr g)))"
  using key_copy [OF assms] by (auto simp: update_max_def Let_def cmp_greater max_def)

end

text \<open>Values that are compared byte by byte, as \<^verbatim>\<open>sql_type_fixedbin.h\<close> compares its fields.\<close>

definition cmp_bytes :: "nat \<Rightarrow> mem \<Rightarrow> nat \<Rightarrow> nat \<Rightarrow> int" where
  "cmp_bytes n m a b = memcmp n m a m b"

lemma be_value_cong: "(\<And>i. i < n \<Longrightarrow> m (a + i) = m' (b + i)) \<Longrightarrow> be_value n m a = be_value n m' b"
proof (induction n arbitrary: a b)
  case (Suc n)
  have "be_value n m (Suc a) = be_value n m' (Suc b)"
    using Suc.prems [of "Suc i" for i] by (intro Suc.IH) simp
  then show ?case using Suc.prems [of 0] by simp
qed simp

interpretation bytes_order: value_order "cmp_bytes n" n "be_value n"
  by unfold_locales (auto simp: cmp_bytes_def memcmp_be_value cmp3_def intro: be_value_cong)

text \<open>For values that are compared byte by byte, updating the smallest or largest value with the value of a field leaves the minimum
  or maximum of both, or the value itself when the update is forced; an update makes the target not null, and the value of the field is
  kept wherever the two fields and the null bit are apart.\<close>

theorem min_max_of_bytes:
  assumes "null_ptr g \<noteq> 0 \<longrightarrow> null_ptr g < ptr f \<or> ptr f + n \<le> null_ptr g"
    and "null_ptr g \<noteq> 0 \<longrightarrow> null_ptr g < ptr g \<or> ptr g + n \<le> null_ptr g"
    and "ptr g + n \<le> ptr f \<or> ptr f + n \<le> ptr g"
  shows "be_value n (snd (update_min (cmp_bytes n) n f g force m)) (ptr g) =
      (if force then be_value n m (ptr f) else min (be_value n m (ptr f)) (be_value n m (ptr g))) \<and>
    be_value n (snd (update_max (cmp_bytes n) n f g force m)) (ptr g) =
      (if force then be_value n m (ptr f) else max (be_value n m (ptr f)) (be_value n m (ptr g))) \<and>
    (fst (update_min (cmp_bytes n) n f g force m) \<longrightarrow> \<not> is_real_null (snd (update_min (cmp_bytes n) n f g force m)) g 0) \<and>
    (fst (update_max (cmp_bytes n) n f g force m) \<longrightarrow> \<not> is_real_null (snd (update_max (cmp_bytes n) n f g force m)) g 0) \<and>
    be_value n (snd (update_min (cmp_bytes n) n f g force m)) (ptr f) = be_value n m (ptr f) \<and>
    be_value n (snd (update_max (cmp_bytes n) n f g force m)) (ptr f) = be_value n m (ptr f)"
proof (intro conjI impI)
  have a: "null_ptr g = 0 \<or> null_ptr g < ptr f \<or> ptr f + n \<le> null_ptr g" using assms(1) by auto
  show "be_value n (snd (update_min (cmp_bytes n) n f g force m)) (ptr g) =
      (if force then be_value n m (ptr f) else min (be_value n m (ptr f)) (be_value n m (ptr g)))"
    by (rule bytes_order.update_min_key [OF a])
  show "be_value n (snd (update_max (cmp_bytes n) n f g force m)) (ptr g) =
      (if force then be_value n m (ptr f) else max (be_value n m (ptr f)) (be_value n m (ptr g)))"
    by (rule bytes_order.update_max_key [OF a])
  have k: "copy_bytes (set_notnull g 0 m) (ptr g) (ptr f) n (null_ptr g) AND null_bit g = 0" if "null_ptr g \<noteq> 0"
    using assms(2) that by (auto simp: copy_bytes_def set_notnull_def Let_def and.assoc)
  show "\<not> is_real_null (snd (update_min (cmp_bytes n) n f g force m)) g 0" if "fst (update_min (cmp_bytes n) n f g force m)"
    using that k by (auto simp: update_min_def Let_def is_real_null_def)
  show "\<not> is_real_null (snd (update_max (cmp_bytes n) n f g force m)) g 0" if "fst (update_max (cmp_bytes n) n f g force m)"
    using that k by (auto simp: update_max_def Let_def is_real_null_def)
  have c: "be_value n (copy_bytes (set_notnull g 0 m) (ptr g) (ptr f) n) (ptr f) = be_value n m (ptr f)"
    by (rule be_value_cong) (use a assms(3) in \<open>auto simp: copy_bytes_def set_notnull_def Let_def\<close>)
  show "be_value n (snd (update_min (cmp_bytes n) n f g force m)) (ptr f) = be_value n m (ptr f)" using c by (simp add: update_min_def Let_def)
  show "be_value n (snd (update_max (cmp_bytes n) n f g force m)) (ptr f) = be_value n m (ptr f)" using c by (simp add: update_max_def Let_def)
qed

theorem min_max_of_bytes_witness:
  "let f = \<lparr>ptr = 11, null_ptr = 10, null_bit = 1, field_length = 1, field_flags = 0\<rparr>;
       g = \<lparr>ptr = 21, null_ptr = 20, null_bit = 1, field_length = 1, field_flags = 0\<rparr>;
       m = (\<lambda>_. 9)(11 := 3, 20 := 1)
   in be_value 1 (snd (update_min (cmp_bytes 1) 1 f g False m)) 21 = 3"
  using min_max_of_bytes [of "\<lparr>ptr = 21, null_ptr = 20, null_bit = 1, field_length = 1, field_flags = 0\<rparr>"
    "\<lparr>ptr = 11, null_ptr = 10, null_bit = 1, field_length = 1, field_flags = 0\<rparr>" 1 False "(\<lambda>_. 9)(11 := 3, 20 := 1)"]
  by simp

text \<open>The smallest of two bit fields is that of signed numbers: a value with all 64 bits set counts as less than zero.\<close>

lemma bit_update_min_signed:
  "fst (bit_update_min (\<lambda>f _. if ptr f = 1 then - 1 else 0) st \<lparr>ptr = 1, null_ptr = 0, null_bit = 0, field_length = 64, field_flags = 0\<rparr>
     \<lparr>ptr = 9, null_ptr = 0, null_bit = 0, field_length = 64, field_flags = 0\<rparr> False m)"
  by (simp add: bit_update_min_def Let_def)

section \<open>Packing\<close>

text \<open>An integer that is packed and unpacked again into another place comes back as it was, and both sides move on by its size;
  a packed value that is cut off is not read: the result is the null pointer and nothing changes.\<close>

theorem pack_int_round_trip:
  assumes "pack_int d s n m = (d', m')" "d + n \<le> e" "t + n \<le> d \<or> d + n \<le> t"
  shows "d' = d + n \<and> fst (unpack_int t d e n m') = d' \<and>
    (\<forall>i < n. snd (unpack_int t d e n m') (t + i) = m (s + i)) \<and>
    (e' < d + n \<longrightarrow> unpack_int t d e' n m' = (0, m'))"
  using assms by (auto simp: pack_int_def unpack_int_def copy_bytes_def)

theorem pack_int_round_trip_witness:
  "snd (short_unpack 30 20 22 (snd (short_pack 20 10 (\<lambda>a. of_nat a)))) 31 = 11"
  using pack_int_round_trip [of 20 10 2 "\<lambda>a. of_nat a" 22 "copy_bytes (\<lambda>a. of_nat a) 20 10 2" 22 30 0]
  by (simp add: pack_int_def short_pack_def short_unpack_def) (auto dest: spec [of _ "1 :: nat"])

text \<open>The length of a string in front of its data.\<close>

lemma varstring_length_stored:
  assumes "length_bytes f = 1 \<and> unat k < 2 ^ 8 \<or> length_bytes f = 2 \<and> unat k < 2 ^ 16"
  shows "varstring_get_length (varstring_store_length f k m) f (ptr f) = k"
    "varstring_get_data f (ptr f) \<le> a \<Longrightarrow> varstring_store_length f k m a = m a"
proof -
  have "ucast (ucast k :: uchar) = k" if "unat k < 2 ^ 8" using that by (intro ucast_back) simp
  moreover have "ucast (ucast k :: uint16) = k" if "unat k < 2 ^ 16" using that by (intro ucast_back) simp
  ultimately show "varstring_get_length (varstring_store_length f k m) f (ptr f) = k"
    using assms le2.load_store [of m "ptr f" k] by (auto simp: varstring_get_length_def varstring_store_length_def word_cut)
  show "varstring_store_length f k m a = m a" if "varstring_get_data f (ptr f) \<le> a"
    using assms that le2.store_frame [of a "ptr f" m k] by (auto simp: varstring_get_data_def varstring_store_length_def)
qed

text \<open>The pointer of a blob behind the bytes of its length.\<close>

lemma blob_pointer_stored:
  "blob_get_ptr (blob_set_ptr f len data m) f (ptr f) = data"
  "ptr f \<le> a \<Longrightarrow> a < ptr f + unat (packlength f) \<Longrightarrow> blob_set_ptr f len data m a = m (len + (a - ptr f))"
  by (simp_all add: blob_get_ptr_def blob_set_ptr_def le_load_le_store le_store_apply copy_bytes_def take_bit_word_eq_self
    del: le_load_numeral le_store_numeral)

lemma strip_loop_spaces:
  "strip_loop m p n \<le> n" "strip_loop m p n \<le> i \<Longrightarrow> i < n \<Longrightarrow> m (p + i) = 32"
  "0 < strip_loop m p n \<Longrightarrow> m (p + strip_loop m p n - 1) \<noteq> 32"
  by (induction n) (auto simp: less_Suc_eq split: if_splits)

text \<open>The length of a short string of fixed length leaves out exactly its trailing spaces: every byte behind it is a space, and the
  last byte in front, if there is one, is not.\<close>

theorem value_length_strips:
  assumes "value_length m False True n dl f = k" "4 \<le> n" "n < 256"
  shows "k \<le> n \<and> (\<forall>i. k \<le> i \<longrightarrow> i < n \<longrightarrow> m (ptr f + i) = 32) \<and> (0 < k \<longrightarrow> m (ptr f + k - 1) \<noteq> 32)"
  using assms strip_loop_spaces [of m "ptr f" n] by (auto simp: value_length_def)

theorem value_length_strips_witness:
  "value_length ((\<lambda>_. 32)(101 := 65)) False True 4 0 \<lparr>ptr = 100, null_ptr = 0, null_bit = 0, field_length = 4, field_flags = 0\<rparr> = 2"
proof -
  let ?k = "value_length ((\<lambda>_. 32)(101 := 65)) False True 4 0 \<lparr>ptr = 100, null_ptr = 0, null_bit = 0, field_length = 4, field_flags = 0\<rparr>"
  have k: "?k \<le> 4" "\<forall>i. ?k \<le> i \<longrightarrow> i < 4 \<longrightarrow> ((\<lambda>_. 32)(101 := 65 :: uchar)) (100 + i) = 32"
    "0 < ?k \<longrightarrow> ((\<lambda>_. 32)(101 := 65 :: uchar)) (100 + ?k - 1) \<noteq> 32"
    using value_length_strips [OF refl, of 4 "(\<lambda>_. 32)(101 := 65)" 0
      "\<lparr>ptr = 100, null_ptr = 0, null_bit = 0, field_length = 4, field_flags = 0\<rparr>"] by simp_all
  have "1 < ?k" using k(2) [rule_format, of 1] by (cases "1 < ?k") simp_all
  with k(3) show ?thesis by (simp split: if_splits)
qed

text \<open>Flags of the column: two bits for the storage and two for the format, set once.\<close>

lemma storage_and_format_flags:
  assumes "take_bit 2 s = s" "take_bit 2 c = c" "field_storage_type f = 0" "column_format f = 0"
  shows "field_storage_type (set_column_format c (set_storage_type s f)) = s"
    "column_format (set_storage_type s (set_column_format c f)) = c"
proof -
  have b: "bit s i \<Longrightarrow> i < 2" "bit c i \<Longrightarrow> i < 2" for i using assms(1,2) by (metis bit_take_bit_iff)+
  have three: "(3 :: uint32) = mask 2" by (simp add: mask_eq_exp_minus_1)
  have z: "\<not> bit (field_flags f) (22 + i)" "\<not> bit (field_flags f) (24 + i)" if "i < 2" for i
  proof -
    have "\<not> bit (field_storage_type f) i" "\<not> bit (column_format f) i" using assms(3,4) by simp_all
    then show "\<not> bit (field_flags f) (22 + i)" "\<not> bit (field_flags f) (24 + i)"
      using that by (auto simp: field_storage_type_def column_format_def FIELD_FLAGS_STORAGE_MEDIA_def FIELD_FLAGS_COLUMN_FORMAT_def
        three bit_simps)
  qed
  show "field_storage_type (set_column_format c (set_storage_type s f)) = s"
    by (rule bit_word_eqI) (use z in \<open>auto dest: b simp: field_storage_type_def set_column_format_def set_storage_type_def
      FIELD_FLAGS_STORAGE_MEDIA_def FIELD_FLAGS_COLUMN_FORMAT_def three bit_simps\<close>)
  show "column_format (set_storage_type s (set_column_format c f)) = c"
    by (rule bit_word_eqI) (use z in \<open>auto dest: b simp: column_format_def set_column_format_def set_storage_type_def
      FIELD_FLAGS_STORAGE_MEDIA_def FIELD_FLAGS_COLUMN_FORMAT_def three bit_simps\<close>)
qed

text \<open>The constructors of the floating-point fields leave the number of digits as it was given.\<close>

lemma float_decimals_unchanged: "float_decimals dec_arg = (dec_arg, dec_arg \<ge> 31)"
  by (simp add: float_decimals_def real_decimals_def FLOATING_POINT_DECIMALS_def)

section \<open>Fields in other records\<close>

text \<open>C26. There are three ways to look at a field in another record of its table, and they agree: the null bit at the same place of that
  record, the null bit at the distance of the records, and the null bit of the field moved by that distance, whose value is at
  \<^verbatim>\<open>ptr_in_record\<close>. Moving the field back restores it.\<close>

theorem field_in_other_record:
  assumes "maybe_null_in_table t f" "0 < record0 t" "0 < rec" "null_ptr f - record0 t < 2 ^ 32"
  shows "is_null_in_record m t f rec = is_real_null m f (int rec - int (record0 t)) \<and>
    is_null_in_record m t f rec = is_real_null m (move_field_offset (int rec - int (record0 t)) f) 0 \<and>
    ptr (move_field_offset (int rec - int (record0 t)) f) = ptr_in_record t f rec \<and>
    null_offset (move_field_offset (int rec - int (record0 t)) f) rec = null_offset f (record0 t) \<and>
    move_field_offset (int (record0 t) - int rec) (move_field_offset (int rec - int (record0 t)) f) = f"
proof -
  have o: "record0 t \<le> null_ptr f" "null_ptr f \<le> ptr f" "null_ptr f \<noteq> 0" using assms(1,2) by (auto simp: maybe_null_in_table_def)
  have d: "unat (pointer_diff (null_ptr f) (record0 t)) = null_ptr f - record0 t"
  proof -
    have "int (null_ptr f) - int (record0 t) = int (null_ptr f - record0 t)" using o(1) by simp
    then have "pointer_diff (null_ptr f) (record0 t) = of_nat (null_ptr f - record0 t)" by (simp only: pointer_diff_def of_int_of_nat_eq)
    then show ?thesis using assms(4) by (simp add: unsigned_of_nat take_bit_nat_eq_self)
  qed
  let ?d = "int rec - int (record0 t)"
  have a: "nat (int (null_ptr f) + ?d) = rec + (null_ptr f - record0 t)" "nat (int (ptr f) + ?d) = rec + (ptr f - record0 t)"
    using o by linarith+
  have g: "move_field_offset ?d f = f\<lparr>ptr := rec + (ptr f - record0 t), null_ptr := rec + (null_ptr f - record0 t)\<rparr>"
    using o(3) by (simp add: move_field_offset_def Let_def a)
  have n: "is_null_in_record m t f rec = (m (rec + (null_ptr f - record0 t)) AND null_bit f \<noteq> 0)"
    using assms(1) by (simp add: is_null_in_record_def d)
  show ?thesis
  proof (intro conjI)
    show "is_null_in_record m t f rec = is_real_null m f ?d" using o(3) by (simp add: n is_real_null_def a)
    show "is_null_in_record m t f rec = is_real_null m (move_field_offset ?d f) 0"
      using assms(3) by (simp add: n is_real_null_def g nat_add_distrib)
    show "ptr (move_field_offset ?d f) = ptr_in_record t f rec" using o by (simp add: g ptr_in_record_def)
    show "null_offset (move_field_offset ?d f) rec = null_offset f (record0 t)"
      using o(1) by (simp add: g null_offset_def pointer_diff_def of_nat_diff)
    have "nat (int (rec + (null_ptr f - record0 t)) + (int (record0 t) - int rec)) = null_ptr f"
      "nat (int (rec + (ptr f - record0 t)) + (int (record0 t) - int rec)) = ptr f" using o by linarith+
    then show "move_field_offset (int (record0 t) - int rec) (move_field_offset ?d f) = f"
      using assms(3) by (simp add: g) (simp add: move_field_offset_def Let_def)
  qed
qed

theorem field_in_other_record_witness:
  "let f = \<lparr>ptr = 103, null_ptr = 100, null_bit = 2, field_length = 1, field_flags = 0\<rparr>;
       t = \<lparr>record0 = 100, null_row = False, table_maybe_null = False\<rparr>
   in is_null_in_record ((\<lambda>_. 0)(200 := 2)) t f 200 = is_real_null ((\<lambda>_. 0)(200 := 2)) f 100"
  using field_in_other_record [of "\<lparr>record0 = 100, null_row = False, table_maybe_null = False\<rparr>"
    "\<lparr>ptr = 103, null_ptr = 100, null_bit = 2, field_length = 1, field_flags = 0\<rparr>" 200 "(\<lambda>_. 0)(200 := 2)"]
  by (simp add: maybe_null_in_table_def)

section \<open>Lengths of columns\<close>

lemma interval_lengths_sums:
  assumes "unat tot + sum_list (map unat ns) < 2 ^ 32"
  shows "unat (snd (interval_lengths ns (mx, tot))) = unat tot + sum_list (map unat ns)"
    "unat (fst (interval_lengths ns (mx, tot))) = Max (set (map unat (mx # ns)))"
proof -
  have "unat (snd (interval_lengths ns (mx, tot))) = unat tot + sum_list (map unat ns) \<and>
    unat (fst (interval_lengths ns (mx, tot))) = Max (set (map unat (mx # ns)))"
    using assms
  proof (induction ns arbitrary: mx tot)
    case (Cons n ns)
    have t: "unat (tot + n) = unat tot + unat n" using Cons.prems by (simp add: unat_word_ariths)
    have "Max (set (map unat ((if mx < n then n else mx) # ns))) = Max (set (map unat (mx # n # ns)))"
      by (cases "ns = []") (auto simp: word_less_nat_alt max_def)
    then show ?case using Cons.IH [of "tot + n" "if mx < n then n else mx"] Cons.prems t by simp
  qed simp
  then show "unat (snd (interval_lengths ns (mx, tot))) = unat tot + sum_list (map unat ns)"
    "unat (fst (interval_lengths ns (mx, tot))) = Max (set (map unat (mx # ns)))" by simp_all
qed

text \<open>The length of an \<^verbatim>\<open>ENUM\<close> column is that of its longest value, and the length of a \<^verbatim>\<open>SET\<close> column that of all its values with a
  comma between any two, both at most 765 characters.\<close>

theorem interval_field_lengths:
  assumes "ns \<noteq> []" "sum_list (map unat ns) + length ns < 2 ^ 32"
  shows "unat (prepare_interval_field_calc_length False ns) = min 765 (Max (set (map unat ns))) \<and>
    unat (prepare_interval_field_calc_length True ns) = min 765 (sum_list (map unat ns) + (length ns - 1))"
proof
  have s: "unat (snd (calculate_interval_lengths ns)) = sum_list (map unat ns)"
    "unat (fst (calculate_interval_lengths ns)) = Max (set (map unat (0 # ns)))"
    using interval_lengths_sums [of 0 ns 0] assms(2) by (simp_all add: calculate_interval_lengths_def)
  have m: "Max (set (map unat (0 # ns))) = Max (set (map unat ns))" using assms(1) by simp
  have unat_ucast_up: "unat (ucast w :: ulonglong) = unat w" for w :: uint32
    by (simp add: unsigned_ucast_eq take_bit_nat_eq_self less_trans [OF unat_less])
  have cut: "unat (if (ucast w :: ulonglong) > MAX_FIELD_WIDTH - 1 then MAX_FIELD_WIDTH - 1 else ucast w) = min 765 (unat w)" for w :: uint32
    by (auto simp: word_less_nat_alt min_def unat_ucast_up)
  show "unat (prepare_interval_field_calc_length False ns) = min 765 (Max (set (map unat ns)))"
    using cut [of "fst (calculate_interval_lengths ns)"] by (simp only: prepare_interval_field_calc_length_def Let_def s(2) m if_False)
  have "of_nat (length ns) - 1 = (of_nat (length ns - 1) :: uint32)" using assms(1) by (simp add: of_nat_diff Suc_le_eq)
  then have "unat (snd (calculate_interval_lengths ns) + (of_nat (length ns) - 1)) = sum_list (map unat ns) + (length ns - 1)"
    using assms(2) s(1) by (simp add: unat_word_ariths unat_of_nat)
  then show "unat (prepare_interval_field_calc_length True ns) = min 765 (sum_list (map unat ns) + (length ns - 1))"
    using cut [of "snd (calculate_interval_lengths ns) + (of_nat (length ns) - 1)"] by (simp only: prepare_interval_field_calc_length_def Let_def if_True)
qed

theorem interval_field_lengths_witness: "unat (prepare_interval_field_calc_length True [3, 5, 2]) = 12"
  using interval_field_lengths [of "[3, 5, 2]"] by simp

end
