(* ===== verification/Library_Rules.thy ===== *)
theory Library_Rules
  imports Prelude
begin

text \<open>
  The lending rules of the library application under \<^verbatim>\<open>poc_articles\<close>: the validators of loans and
  reservations, the API controller for reservations, the actions and forms of the librarians with what their
  controllers do when an entity is saved or deleted, registration, the update of a profile, and the paging of the
  catalogue. The database is the lists of its rows, with the constraints of the migrations; a request is one step on
  it, and requests are processed one after the other. Persisting, the forms and the query language are those of the
  frameworks: a form saves an entity only when its validators report nothing, and deleting a book or a member deletes
  its reservations (\<^verbatim>\<open>orphanRemoval\<close>). The rows of books, authors and categories, the fixtures and the upgrade of a password hash at the login are not modelled. A null reference
  is \<^const>\<open>None\<close>; the messages are written without accents.
\<close>

section \<open>Entities\<close>

record Emprunt =
  e_id :: "nat option"
  dateEmprunt :: "nat option"
  dateRetour :: "nat option"
  e_utilisateur :: "nat option"
  e_livre :: "nat option"

record Reservations =
  r_id :: "nat option"
  dateResa :: "nat option"
  r_utilisateur :: "nat option"
  r_livre :: "nat option"

record Utilisateur =
  u_id :: "nat option"
  email :: string
  roles :: "string list"
  nom :: string
  prenom :: string
  password :: string
  dateAdhesion :: "nat option"
  adressePostale :: "string option"
  numTel :: "string option"

record database =
  emprunts :: "Emprunt list"
  reservations :: "Reservations list"
  utilisateurs :: "Utilisateur list"
  next_emprunt :: nat
  next_reservation :: nat
  next_utilisateur :: nat

section \<open>Validators\<close>

datatype violation = MaxEmprunts | LivreIndisponible | MaxResa | DejaReserve | DejaEmprunte

definition other_id :: "nat option \<Rightarrow> nat option \<Rightarrow> bool" where
  "other_id row_id value_id \<longleftrightarrow> row_id \<noteq> Some (case value_id of None \<Rightarrow> 0 | Some i \<Rightarrow> i)"

definition validate_emprunt :: "database \<Rightarrow> Emprunt \<Rightarrow> violation list" where
  "validate_emprunt db v =
     (if e_utilisateur v = None \<or> e_livre v = None then []
      else if dateRetour v \<noteq> None then []
      else
        (if length [e \<leftarrow> emprunts db. e_utilisateur e = e_utilisateur v \<and> dateRetour e = None \<and> other_id (e_id e) (e_id v)] \<ge> 5
         then [MaxEmprunts] else [])
        @ (if length [e \<leftarrow> emprunts db. e_livre e = e_livre v \<and> dateRetour e = None \<and> other_id (e_id e) (e_id v)] > 0
           then [LivreIndisponible] else []))"

definition validate_reservation :: "database \<Rightarrow> Reservations \<Rightarrow> violation list" where
  "validate_reservation db v =
     (if r_utilisateur v = None \<or> r_livre v = None then []
      else
        (if length [r \<leftarrow> reservations db. r_utilisateur r = r_utilisateur v \<and> other_id (r_id r) (r_id v)] \<ge> 3
         then [MaxResa] else [])
        @ (if length [r \<leftarrow> reservations db. r_livre r = r_livre v \<and> other_id (r_id r) (r_id v)] > 0
           then [DejaReserve] else [])
        @ (if length [e \<leftarrow> emprunts db. e_livre e = r_livre v \<and> dateRetour e = None] > 0
           then [DejaEmprunte] else []))"

section \<open>Persisting\<close>

text \<open>The constraints of the tables, and what a controller can raise.\<close>

datatype db_error = NotNullViolation | UniqueViolation | ForeignKeyViolation

datatype app_error = LogicException string | AccessDenied string | NullReference | NotFound | Database db_error

text \<open>Every table generates its own keys.\<close>

definition persist_emprunt :: "Emprunt \<Rightarrow> database \<Rightarrow> database" where
  "persist_emprunt e db =
     db\<lparr>emprunts := emprunts db @ [e\<lparr>e_id := Some (next_emprunt db)\<rparr>], next_emprunt := next_emprunt db + 1\<rparr>"

definition persist_reservation :: "Reservations \<Rightarrow> database \<Rightarrow> database" where
  "persist_reservation r db =
     db\<lparr>reservations := reservations db @ [r\<lparr>r_id := Some (next_reservation db)\<rparr>], next_reservation := next_reservation db + 1\<rparr>"

definition update_emprunt :: "Emprunt \<Rightarrow> database \<Rightarrow> database" where
  "update_emprunt e db = db\<lparr>emprunts := map (\<lambda>x. if e_id x = e_id e then e else x) (emprunts db)\<rparr>"

definition update_reservation :: "Reservations \<Rightarrow> database \<Rightarrow> database" where
  "update_reservation r db = db\<lparr>reservations := map (\<lambda>x. if r_id x = r_id r then r else x) (reservations db)\<rparr>"

definition remove_reservation :: "Reservations \<Rightarrow> database \<Rightarrow> database" where
  "remove_reservation r db = db\<lparr>reservations := [x \<leftarrow> reservations db. r_id x \<noteq> r_id r]\<rparr>"

section \<open>Reservations of members\<close>

text \<open>A response: its status code.\<close>

type_synonym status = nat

definition reservation_create :: "nat \<Rightarrow> nat \<Rightarrow> nat \<Rightarrow> database \<Rightarrow> status \<times> database" where
  "reservation_create user livre now db =
     (if length [r \<leftarrow> reservations db. r_utilisateur r = Some user] \<ge> 3 then (409, db)
      else if find (\<lambda>r. r_livre r = Some livre) (reservations db) \<noteq> None then (409, db)
      else if find (\<lambda>e. e_livre e = Some livre \<and> dateRetour e = None) (emprunts db) \<noteq> None then (409, db)
      else (201, persist_reservation
                   \<lparr>r_id = None, dateResa = Some now, r_utilisateur = Some user, r_livre = Some livre\<rparr> db))"

definition reservation_index :: "nat \<Rightarrow> database \<Rightarrow> Reservations list" where
  "reservation_index user db = [r \<leftarrow> reservations db. r_utilisateur r = Some user]"

definition reservation_delete :: "nat \<Rightarrow> Reservations \<Rightarrow> database \<Rightarrow> status \<times> database" where
  "reservation_delete user reservation db =
     (if r_utilisateur reservation \<noteq> Some user then (403, db) else (200, remove_reservation reservation db))"

section \<open>Actions of the librarians\<close>

datatype flash = Danger string | Warning string | Success string | Violation violation

definition transformerEnEmprunt :: "nat \<Rightarrow> nat \<Rightarrow> database \<Rightarrow> flash \<times> database" where
  "transformerEnEmprunt ident now db =
     (case find (\<lambda>r. r_id r = Some ident) (reservations db) of
        None \<Rightarrow> (Danger ''Reservation introuvable.'', db)
      | Some reservation \<Rightarrow>
          let emprunt = \<lparr>e_id = None, dateEmprunt = Some now, dateRetour = None,
                         e_utilisateur = r_utilisateur reservation, e_livre = r_livre reservation\<rparr>
          in case validate_emprunt db emprunt of
               v # vs \<Rightarrow> (Violation v, db)
             | [] \<Rightarrow> (Success ''La reservation a bien ete transformee en emprunt actif.'',
                      remove_reservation reservation (persist_emprunt emprunt db)))"

definition rendreLivre :: "nat \<Rightarrow> nat \<Rightarrow> database \<Rightarrow> flash \<times> database" where
  "rendreLivre ident now db =
     (case find (\<lambda>e. e_id e = Some ident) (emprunts db) of
        None \<Rightarrow> (Danger ''Emprunt introuvable.'', db)
      | Some emprunt \<Rightarrow>
          if dateRetour emprunt \<noteq> None then (Warning ''Ce livre a deja ete retourne.'', db)
          else (Success ''Le retour du livre a bien ete enregistre.'',
                update_emprunt (emprunt\<lparr>dateRetour := Some now\<rparr>) db))"

section \<open>Forms of the librarians\<close>

text \<open>\<^verbatim>\<open>Livre::getIsEmprunte\<close> and \<^verbatim>\<open>Livre::getIsReserve\<close>, over the rows of the book.\<close>

definition getIsEmprunte :: "nat \<Rightarrow> database \<Rightarrow> bool" where
  "getIsEmprunte livre db = list_ex (\<lambda>emprunt. dateRetour emprunt = None) [e \<leftarrow> emprunts db. e_livre e = Some livre]"

definition getIsReserve :: "nat \<Rightarrow> database \<Rightarrow> bool" where
  "getIsReserve livre db \<longleftrightarrow> [r \<leftarrow> reservations db. r_livre r = Some livre] \<noteq> []"

text \<open>\<^verbatim>\<open>EmpruntCrudController::persistEntity\<close>: the date is filled in, the checks are repeated, and a reservation of the member
  for the book is removed with the loan that takes its place.\<close>

definition persistEntity :: "nat \<Rightarrow> Emprunt \<Rightarrow> database \<Rightarrow> app_error + database" where
  "persistEntity now entityInstance db =
     (let entityInstance = (if dateEmprunt entityInstance = None then entityInstance\<lparr>dateEmprunt := Some now\<rparr> else entityInstance)
      in case e_livre entityInstance of None \<Rightarrow> Inl NullReference
         | Some livre \<Rightarrow>
           if getIsEmprunte livre db then Inl (LogicException ''Impossible : Ce livre est deja emprunte.'')
           else case e_utilisateur entityInstance of None \<Rightarrow> Inl NullReference
             | Some utilisateur \<Rightarrow>
               let empruntsEnCours = length [e \<leftarrow> emprunts db. e_utilisateur e = Some utilisateur \<and> dateRetour e = None]
               in if empruntsEnCours \<ge> 5 then Inl (LogicException ''Impossible : L'adherent a atteint son quota de 5 emprunts.'')
                  else let db = (case find (\<lambda>r. r_livre r = Some livre \<and> r_utilisateur r = Some utilisateur) (reservations db) of
                                   None \<Rightarrow> db | Some reservation \<Rightarrow> remove_reservation reservation db)
                       in Inr (persist_emprunt entityInstance db))"

text \<open>The result of sending a form: it is shown again with the violations, the controller or the database raises an error, or
  the entity is saved. The identifier is not a field of the forms.\<close>

datatype form_result = Refused "violation list" | Failed app_error | Saved

definition form_new_emprunt :: "nat \<Rightarrow> Emprunt \<Rightarrow> database \<Rightarrow> form_result \<times> database" where
  "form_new_emprunt now e db =
     (let e = e\<lparr>e_id := None\<rparr>
      in if validate_emprunt db e \<noteq> [] then (Refused (validate_emprunt db e), db)
         else case persistEntity now e db of Inl err \<Rightarrow> (Failed err, db) | Inr db' \<Rightarrow> (Saved, db'))"

definition form_edit_emprunt :: "Emprunt \<Rightarrow> database \<Rightarrow> form_result \<times> database" where
  "form_edit_emprunt e db =
     (if e_id e \<notin> e_id ` set (emprunts db) then (Failed NotFound, db)
      else if validate_emprunt db e \<noteq> [] then (Refused (validate_emprunt db e), db)
      else if e_utilisateur e = None \<or> e_livre e = None \<or> dateEmprunt e = None then (Failed (Database NotNullViolation), db)
      else (Saved, update_emprunt e db))"

definition form_new_reservation :: "Reservations \<Rightarrow> database \<Rightarrow> form_result \<times> database" where
  "form_new_reservation r db =
     (let r = r\<lparr>r_id := None\<rparr>
      in if validate_reservation db r \<noteq> [] then (Refused (validate_reservation db r), db)
         else if r_utilisateur r = None \<or> r_livre r = None \<or> dateResa r = None then (Failed (Database NotNullViolation), db)
         else (Saved, persist_reservation r db))"

definition form_edit_reservation :: "Reservations \<Rightarrow> database \<Rightarrow> form_result \<times> database" where
  "form_edit_reservation r db =
     (if r_id r \<notin> r_id ` set (reservations db) then (Failed NotFound, db)
      else if validate_reservation db r \<noteq> [] then (Refused (validate_reservation db r), db)
      else if r_utilisateur r = None \<or> r_livre r = None \<or> dateResa r = None then (Failed (Database NotNullViolation), db)
      else (Saved, update_reservation r db))"

text \<open>Deleting. A book or a member with loans, open or returned, cannot be deleted; otherwise the reservations go with it.\<close>

definition delete_emprunt :: "nat \<Rightarrow> database \<Rightarrow> database" where
  "delete_emprunt ident db = db\<lparr>emprunts := [e \<leftarrow> emprunts db. e_id e \<noteq> Some ident]\<rparr>"

definition delete_reservation :: "nat \<Rightarrow> database \<Rightarrow> database" where
  "delete_reservation ident db = db\<lparr>reservations := [r \<leftarrow> reservations db. r_id r \<noteq> Some ident]\<rparr>"

definition delete_livre :: "nat \<Rightarrow> database \<Rightarrow> app_error + database" where
  "delete_livre livre db =
     (if [e \<leftarrow> emprunts db. e_livre e = Some livre] \<noteq> [] then Inl (Database ForeignKeyViolation)
      else Inr (db\<lparr>reservations := [r \<leftarrow> reservations db. r_livre r \<noteq> Some livre]\<rparr>))"

definition deleteEntity :: "bool \<Rightarrow> nat \<Rightarrow> database \<Rightarrow> app_error + database" where
  "deleteEntity role_admin ident db =
     (if \<not> role_admin then Inl (AccessDenied ''Seul un administrateur peut supprimer un compte.'')
      else if [e \<leftarrow> emprunts db. e_utilisateur e = Some ident] \<noteq> [] then Inl (Database ForeignKeyViolation)
      else Inr (db\<lparr>reservations := [r \<leftarrow> reservations db. r_utilisateur r \<noteq> Some ident],
                    utilisateurs := [u \<leftarrow> utilisateurs db. u_id u \<noteq> Some ident]\<rparr>))"

section \<open>Accounts\<close>

text \<open>A decoded request body; a missing field is the empty string, which \<^verbatim>\<open>empty\<close> does not tell apart.\<close>

record register_data =
  d_email :: string
  d_password :: string
  d_nom :: string
  d_prenom :: string

text \<open>PHP's \<^verbatim>\<open>empty\<close> on a string.\<close>

definition php_empty :: "string \<Rightarrow> bool" where
  "php_empty s \<longleftrightarrow> s = [] \<or> s = ''0''"

text \<open>The table of users: the date of membership may not be null and the email is unique.\<close>

definition insert_utilisateur :: "Utilisateur \<Rightarrow> database \<Rightarrow> db_error + database" where
  "insert_utilisateur u db =
     (if dateAdhesion u = None then Inl NotNullViolation
      else if \<exists>x \<in> set (utilisateurs db). email x = email u then Inl UniqueViolation
      else Inr (db\<lparr>utilisateurs := utilisateurs db @ [u\<lparr>u_id := Some (next_utilisateur db)\<rparr>], next_utilisateur := next_utilisateur db + 1\<rparr>))"

definition register :: "(string \<Rightarrow> string) \<Rightarrow> register_data \<Rightarrow> database \<Rightarrow> db_error + status \<times> database" where
  "register hashPassword d db =
     (if php_empty (d_email d) \<or> php_empty (d_password d) \<or> php_empty (d_nom d) \<or> php_empty (d_prenom d)
      then Inr (400, db)
      else let user = \<lparr>u_id = None, email = d_email d, roles = [], nom = d_nom d, prenom = d_prenom d,
                       password = hashPassword (d_password d), dateAdhesion = None,
                       adressePostale = None, numTel = None\<rparr>
           in case insert_utilisateur user db of
                Inl err \<Rightarrow> Inl err
              | Inr db \<Rightarrow> Inr (201, db))"

text \<open>\<^verbatim>\<open>UtilisateurCrudController\<close>: a password is stored as its hash; one that was left empty stays as it was. A librarian
  cannot save an account with the role of a librarian or administrator.\<close>

definition getRoles :: "Utilisateur \<Rightarrow> string list" where
  "getRoles u = rev (remdups (rev (roles u @ [''ROLE_USER''])))"

definition persist_account :: "(string \<Rightarrow> string) \<Rightarrow> Utilisateur \<Rightarrow> database \<Rightarrow> db_error + database" where
  "persist_account hashPassword u db =
     insert_utilisateur (if \<not> php_empty (password u) then u\<lparr>password := hashPassword (password u)\<rparr> else u) db"

definition update_account :: "bool \<Rightarrow> (string \<Rightarrow> string) \<Rightarrow> Utilisateur \<Rightarrow> database \<Rightarrow> app_error + database" where
  "update_account role_admin hashPassword u db =
     (case find (\<lambda>x. u_id x = u_id u) (utilisateurs db) of None \<Rightarrow> Inl NotFound
      | Some original \<Rightarrow>
        if \<not> role_admin \<and> (''ROLE_ADMIN'' \<in> set (getRoles u) \<or> ''ROLE_BIBLIO'' \<in> set (getRoles u))
        then Inl (AccessDenied ''Vous n'avez pas les droits pour modifier cet utilisateur.'')
        else let u = (if \<not> php_empty (password u) then u\<lparr>password := hashPassword (password u)\<rparr>
                      else u\<lparr>password := password original\<rparr>)
             in if dateAdhesion u = None then Inl (Database NotNullViolation)
                else if \<exists>x \<in> set (utilisateurs db). u_id x \<noteq> u_id u \<and> email x = email u then Inl (Database UniqueViolation)
                else Inr (db\<lparr>utilisateurs := map (\<lambda>x. if u_id x = u_id u then u else x) (utilisateurs db)\<rparr>))"

record update_data =
  n_email :: "string option"
  n_adressePostale :: "string option"
  n_numTel :: "string option"

definition update_utilisateur :: "Utilisateur \<Rightarrow> database \<Rightarrow> database" where
  "update_utilisateur u db = db\<lparr>utilisateurs := map (\<lambda>x. if u_id x = u_id u then u else x) (utilisateurs db)\<rparr>"

text \<open>The user is absent when nobody is logged in, the data when the body is not valid.\<close>

definition updateMe :: "Utilisateur option \<Rightarrow> update_data option \<Rightarrow> database \<Rightarrow> status \<times> database" where
  "updateMe user data db =
     (case user of None \<Rightarrow> (401, db)
      | Some user \<Rightarrow>
        case data of None \<Rightarrow> (400, db)
        | Some d \<Rightarrow>
          let changes = (case n_email d of Some m \<Rightarrow> m \<noteq> email user | None \<Rightarrow> False)
          in if changes \<and> find (\<lambda>x. email x = the (n_email d)) (utilisateurs db) \<noteq> None then (409, db)
             else let user = (if changes then user\<lparr>email := the (n_email d)\<rparr> else user);
                      user = (case n_adressePostale d of Some a \<Rightarrow> user\<lparr>adressePostale := Some a\<rparr> | None \<Rightarrow> user);
                      user = (case n_numTel d of Some t \<Rightarrow> user\<lparr>numTel := Some t\<rparr> | None \<Rightarrow> user)
                  in (200, update_utilisateur user db))"

section \<open>Paging the catalogue\<close>

text \<open>Pages are numbered from 1.\<close>

definition page_data :: "'a list \<Rightarrow> nat \<Rightarrow> nat \<Rightarrow> 'a list" where
  "page_data results page limit = (let offset = (page - 1) * limit in take limit (drop offset results))"

definition totalPages :: "'a list \<Rightarrow> nat \<Rightarrow> nat" where
  "totalPages results limit =
     (let pages = (length results + limit - 1) div limit in if pages > 0 then pages else 1)"

section \<open>Requests\<close>

text \<open>The steps of the application that can change the database: requests of members, actions of librarians, and the forms
  and deletions of the administration. A request that fails changes nothing.\<close>

inductive request :: "database \<Rightarrow> database \<Rightarrow> bool" where
  Create: "request db (snd (reservation_create user livre now db))"
| Delete: "r \<in> set (reservations db) \<Longrightarrow> request db (snd (reservation_delete user r db))"
| Transform: "request db (snd (transformerEnEmprunt ident now db))"
| Return: "request db (snd (rendreLivre ident now db))"
| New_Emprunt: "request db (snd (form_new_emprunt now e db))"
| Edit_Emprunt: "request db (snd (form_edit_emprunt e db))"
| New_Reservation: "request db (snd (form_new_reservation r db))"
| Edit_Reservation: "request db (snd (form_edit_reservation r db))"
| Delete_Emprunt: "request db (delete_emprunt ident db)"
| Delete_Reservation: "request db (delete_reservation ident db)"
| Delete_Livre: "delete_livre livre db = Inr db' \<Longrightarrow> request db db'"
| Delete_Utilisateur: "deleteEntity role_admin ident db = Inr db' \<Longrightarrow> request db db'"
| Register: "register hashPassword d db = Inr (st, db') \<Longrightarrow> request db db'"
| Update_Me: "request db (snd (updateMe user data db))"
| New_Utilisateur: "persist_account hashPassword u db = Inr db' \<Longrightarrow> request db db'"
| Edit_Utilisateur: "update_account role_admin hashPassword u db = Inr db' \<Longrightarrow> request db db'"

section \<open>Tables with generated keys\<close>

text \<open>Rows have distinct positive keys below the next one to be generated.\<close>

definition rows_ok :: "('r \<Rightarrow> nat option) \<Rightarrow> nat \<Rightarrow> 'r list \<Rightarrow> bool" where
  "rows_ok rid n rows \<longleftrightarrow> distinct (map rid rows) \<and> (\<forall>x \<in> set rows. \<exists>i. rid x = Some i \<and> 0 < i \<and> i < n)"

definition quota :: "('r \<Rightarrow> bool) \<Rightarrow> nat \<Rightarrow> 'r list \<Rightarrow> bool" where
  "quota P m rows \<longleftrightarrow> length (filter P rows) \<le> m"

locale keyed_table =
  fixes rid :: "'r \<Rightarrow> nat option"
    and with_id :: "nat \<Rightarrow> 'r \<Rightarrow> 'r"
  assumes rid_with_id [simp]: "rid (with_id i r) = Some i"
begin

lemma rows_ok_append: "rows_ok rid n rows \<Longrightarrow> 0 < n \<Longrightarrow> rows_ok rid (n + 1) (rows @ [with_id n r])"
  by (fastforce simp: rows_ok_def)

lemma rows_ok_filter: "rows_ok rid n rows \<Longrightarrow> rows_ok rid n (filter Q rows)"
  by (auto simp: rows_ok_def distinct_map inj_on_def)

lemma rows_ok_replace:
  assumes "rows_ok rid n rows" and "rid v \<in> rid ` set rows"
  shows "rows_ok rid n (map (\<lambda>x. if rid x = rid v then v else x) rows)"
proof -
  have m: "map rid (map (\<lambda>x. if rid x = rid v then v else x) rows) = map rid rows" by (auto simp: o_def)
  show ?thesis using assms unfolding rows_ok_def m by auto
qed

text \<open>A key that no row has yet does not exclude any row.\<close>

lemma other_id_new: "rows_ok rid n rows \<Longrightarrow> x \<in> set rows \<Longrightarrow> other_id (rid x) None"
  by (auto simp: rows_ok_def other_id_def)

lemma other_id_old: "rid v = Some i \<Longrightarrow> other_id (rid x) (rid v) \<longleftrightarrow> rid x \<noteq> rid v"
  by (simp add: other_id_def)

lemma quota_filter: "quota P m rows \<Longrightarrow> quota P m (filter Q rows)"
proof -
  have "length (filter P (filter Q rows)) \<le> length (filter P rows)"
    by (induction rows) auto
  then show "quota P m rows \<Longrightarrow> quota P m (filter Q rows)" by (simp add: quota_def)
qed

lemma quota_append:
  assumes "rows_ok rid n rows" and "quota P m rows" and "P v \<Longrightarrow> length [x \<leftarrow> rows. P x \<and> other_id (rid x) None] < m"
  shows "quota P m (rows @ [v])"
proof -
  have "[x \<leftarrow> rows. P x \<and> other_id (rid x) None] = filter P rows"
    using other_id_new [OF assms(1)] by (auto intro: filter_cong)
  then show ?thesis using assms(2,3) by (auto simp: quota_def)
qed

lemma replace_count:
  "distinct (map rid rows) \<Longrightarrow>
   length (filter P (map (\<lambda>x. if rid x = rid v then v else x) rows))
     \<le> length [x \<leftarrow> rows. P x \<and> rid x \<noteq> rid v] + (if P v then 1 else 0)"
proof (induction rows)
  case (Cons x rows)
  show ?case
  proof (cases "rid x = rid v")
    case True
    then have n: "rid y \<noteq> rid v" if "y \<in> set rows" for y using Cons.prems that by (auto simp: image_iff)
    then have "map (\<lambda>x. if rid x = rid v then v else x) rows = rows" by (intro map_idI) simp
    moreover have "[x \<leftarrow> rows. P x \<and> rid x \<noteq> rid v] = filter P rows" using n by (intro filter_cong) auto
    ultimately show ?thesis using True by simp
  next
    case False
    then show ?thesis using Cons by (auto split: if_splits)
  qed
qed simp

lemma quota_replace:
  assumes "rows_ok rid n rows" and "quota P m rows" and "rid v \<in> rid ` set rows"
    and "P v \<Longrightarrow> length [x \<leftarrow> rows. P x \<and> other_id (rid x) (rid v)] < m"
  shows "quota P m (map (\<lambda>x. if rid x = rid v then v else x) rows)"
proof -
  obtain i where i: "rid v = Some i" using assms(1,3) by (force simp: rows_ok_def)
  have "length [x \<leftarrow> rows. P x \<and> rid x \<noteq> rid v] \<le> length (filter P rows)" by (induction rows) auto
  then show ?thesis using replace_count [of rows P v] assms(1,2,4) other_id_old [OF i]
    by (cases "P v") (auto simp: quota_def rows_ok_def)
qed

end

interpretation em: keyed_table e_id "\<lambda>i e. e\<lparr>e_id := Some i\<rparr>"
  by unfold_locales simp

interpretation re: keyed_table r_id "\<lambda>i r. r\<lparr>r_id := Some i\<rparr>"
  by unfold_locales simp

section \<open>The lending limits\<close>

definition loans_of :: "nat \<Rightarrow> Emprunt \<Rightarrow> bool" where
  "loans_of u e \<longleftrightarrow> e_utilisateur e = Some u \<and> dateRetour e = None"

definition loans_for :: "nat \<Rightarrow> Emprunt \<Rightarrow> bool" where
  "loans_for l e \<longleftrightarrow> e_livre e = Some l \<and> dateRetour e = None"

definition reserved_by :: "nat \<Rightarrow> Reservations \<Rightarrow> bool" where
  "reserved_by u r \<longleftrightarrow> r_utilisateur r = Some u"

definition reserved_for :: "nat \<Rightarrow> Reservations \<Rightarrow> bool" where
  "reserved_for l r \<longleftrightarrow> r_livre r = Some l"

definition limits_ok :: "database \<Rightarrow> bool" where
  "limits_ok db \<longleftrightarrow> rows_ok e_id (next_emprunt db) (emprunts db) \<and> rows_ok r_id (next_reservation db) (reservations db) \<and> 0 < next_emprunt db \<and> 0 < next_reservation db
     \<and> (\<forall>e \<in> set (emprunts db). e_utilisateur e \<noteq> None \<and> e_livre e \<noteq> None)
     \<and> (\<forall>r \<in> set (reservations db). r_utilisateur r \<noteq> None \<and> r_livre r \<noteq> None)
     \<and> (\<forall>u. quota (loans_of u) 5 (emprunts db)) \<and> (\<forall>l. quota (loans_for l) 1 (emprunts db))
     \<and> (\<forall>u. quota (reserved_by u) 3 (reservations db)) \<and> (\<forall>l. quota (reserved_for l) 1 (reservations db))"

lemma validate_emprunt_ok:
  assumes "validate_emprunt db e = []"
  shows "loans_of u e \<Longrightarrow> e_livre e \<noteq> None \<Longrightarrow> length [x \<leftarrow> emprunts db. loans_of u x \<and> other_id (e_id x) (e_id e)] < 5"
    and "loans_for l e \<Longrightarrow> e_utilisateur e \<noteq> None \<Longrightarrow> length [x \<leftarrow> emprunts db. loans_for l x \<and> other_id (e_id x) (e_id e)] < 1"
  using assms by (auto simp: validate_emprunt_def loans_of_def loans_for_def split: if_splits)

lemma validate_reservation_ok:
  assumes "validate_reservation db r = []"
  shows "reserved_by u r \<Longrightarrow> r_livre r \<noteq> None \<Longrightarrow> length [x \<leftarrow> reservations db. reserved_by u x \<and> other_id (r_id x) (r_id r)] < 3"
    and "reserved_for l r \<Longrightarrow> r_utilisateur r \<noteq> None \<Longrightarrow> length [x \<leftarrow> reservations db. reserved_for l x \<and> other_id (r_id x) (r_id r)] < 1"
  using assms by (auto simp: validate_reservation_def reserved_by_def reserved_for_def split: if_splits)

text \<open>Saving a validated entity, new or edited, and removing one keep the limits.\<close>

lemma limits_persist_emprunt:
  assumes db: "limits_ok db" and v: "validate_emprunt db e = []" and e: "e_id e = None" "e_utilisateur e \<noteq> None" "e_livre e \<noteq> None"
  shows "limits_ok (persist_emprunt e db)"
proof -
  have r: "rows_ok e_id (next_emprunt db) (emprunts db)" using db by (simp add: limits_ok_def)
  note ok = validate_emprunt_ok [OF v, unfolded e(1)]
  have "quota (loans_of u) 5 (emprunts db @ [e\<lparr>e_id := Some (next_emprunt db)\<rparr>])" for u
    using db e(3) ok(1) [of u] by (intro em.quota_append [OF r]) (auto simp: limits_ok_def loans_of_def)
  moreover have "quota (loans_for l) 1 (emprunts db @ [e\<lparr>e_id := Some (next_emprunt db)\<rparr>])" for l
    using db e(2) ok(2) [of l] by (intro em.quota_append [OF r]) (auto simp: limits_ok_def loans_for_def)
  ultimately show ?thesis using db e em.rows_ok_append [OF r, of e]
    by (auto simp: limits_ok_def persist_emprunt_def)
qed

lemma limits_persist_reservation:
  assumes db: "limits_ok db" and v: "validate_reservation db e = []" and e: "r_id e = None" "r_utilisateur e \<noteq> None" "r_livre e \<noteq> None"
  shows "limits_ok (persist_reservation e db)"
proof -
  have r: "rows_ok r_id (next_reservation db) (reservations db)" using db by (simp add: limits_ok_def)
  note ok = validate_reservation_ok [OF v, unfolded e(1)]
  have "quota (reserved_by u) 3 (reservations db @ [e\<lparr>r_id := Some (next_reservation db)\<rparr>])" for u
    using db e(3) ok(1) [of u] by (intro re.quota_append [OF r]) (auto simp: limits_ok_def reserved_by_def)
  moreover have "quota (reserved_for l) 1 (reservations db @ [e\<lparr>r_id := Some (next_reservation db)\<rparr>])" for l
    using db e(2) ok(2) [of l] by (intro re.quota_append [OF r]) (auto simp: limits_ok_def reserved_for_def)
  ultimately show ?thesis using db e re.rows_ok_append [OF r, of e]
    by (auto simp: limits_ok_def persist_reservation_def)
qed

lemma limits_update_emprunt:
  assumes db: "limits_ok db" and v: "validate_emprunt db e = []" and e: "e_id e \<in> e_id ` set (emprunts db)"
    "e_utilisateur e \<noteq> None" "e_livre e \<noteq> None"
  shows "limits_ok (update_emprunt e db)"
proof -
  have r: "rows_ok e_id (next_emprunt db) (emprunts db)" using db by (simp add: limits_ok_def)
  have "quota (loans_of u) 5 (map (\<lambda>x. if e_id x = e_id e then e else x) (emprunts db))" for u
    using db validate_emprunt_ok(1) [OF v] e(3) by (intro em.quota_replace [OF r _ e(1)]) (auto simp: limits_ok_def)
  moreover have "quota (loans_for l) 1 (map (\<lambda>x. if e_id x = e_id e then e else x) (emprunts db))" for l
    using db validate_emprunt_ok(2) [OF v] e(2) by (intro em.quota_replace [OF r _ e(1)]) (auto simp: limits_ok_def)
  ultimately show ?thesis using db e em.rows_ok_replace [OF r e(1)] by (auto simp: limits_ok_def update_emprunt_def)
qed

lemma limits_update_reservation:
  assumes db: "limits_ok db" and v: "validate_reservation db e = []" and e: "r_id e \<in> r_id ` set (reservations db)"
    "r_utilisateur e \<noteq> None" "r_livre e \<noteq> None"
  shows "limits_ok (update_reservation e db)"
proof -
  have r: "rows_ok r_id (next_reservation db) (reservations db)" using db by (simp add: limits_ok_def)
  have "quota (reserved_by u) 3 (map (\<lambda>x. if r_id x = r_id e then e else x) (reservations db))" for u
    using db validate_reservation_ok(1) [OF v] e(3) by (intro re.quota_replace [OF r _ e(1)]) (auto simp: limits_ok_def)
  moreover have "quota (reserved_for l) 1 (map (\<lambda>x. if r_id x = r_id e then e else x) (reservations db))" for l
    using db validate_reservation_ok(2) [OF v] e(2) by (intro re.quota_replace [OF r _ e(1)]) (auto simp: limits_ok_def)
  ultimately show ?thesis using db e re.rows_ok_replace [OF r e(1)] by (auto simp: limits_ok_def update_reservation_def)
qed

lemma limits_remove_reservation: "limits_ok db \<Longrightarrow> limits_ok (remove_reservation r db)"
  by (auto simp: limits_ok_def remove_reservation_def intro: re.rows_ok_filter re.quota_filter)

lemma limits_delete:
  "limits_ok db \<Longrightarrow> limits_ok (db\<lparr>emprunts := filter P (emprunts db)\<rparr>)"
  "limits_ok db \<Longrightarrow> limits_ok (db\<lparr>reservations := filter Q (reservations db)\<rparr>)"
  by (auto simp: limits_ok_def intro: em.rows_ok_filter em.quota_filter re.rows_ok_filter re.quota_filter)

text \<open>Only the rows of loans and reservations count for the limits.\<close>

lemma limits_accounts: "limits_ok (db\<lparr>utilisateurs := us\<rparr>) = limits_ok db" "limits_ok (db\<lparr>next_utilisateur := n\<rparr>) = limits_ok db"
  by (simp_all add: limits_ok_def)

lemma validate_emprunt_cong:
  "emprunts db' = emprunts db \<Longrightarrow> validate_emprunt db' (e\<lparr>dateEmprunt := d\<rparr>) = validate_emprunt db e"
  by (simp add: validate_emprunt_def)

text \<open>What the controller saves for a new loan that has passed its validator.\<close>

lemma persistEntity_cases:
  assumes "persistEntity now e db = Inr db'"
  obtains d db1 where "db' = persist_emprunt (e\<lparr>dateEmprunt := d\<rparr>) db1" "db1 = db \<or> (\<exists>r. db1 = remove_reservation r db)"
    "e_livre e \<noteq> None" "e_utilisateur e \<noteq> None"
proof -
  define f where "f = (if dateEmprunt e = None then e\<lparr>dateEmprunt := Some now\<rparr> else e)"
  have f: "f = e\<lparr>dateEmprunt := dateEmprunt f\<rparr>" "e_livre f = e_livre e" "e_utilisateur f = e_utilisateur e" by (auto simp: f_def)
  have "\<exists>db1. db' = persist_emprunt f db1 \<and> (db1 = db \<or> (\<exists>r. db1 = remove_reservation r db)) \<and> e_livre f \<noteq> None \<and> e_utilisateur f \<noteq> None"
    using assms by (auto simp: persistEntity_def f_def [symmetric] Let_def split: option.splits if_splits)
  then show thesis using that f by metis
qed

lemma limits_form_new_emprunt:
  assumes "limits_ok db" shows "limits_ok (snd (form_new_emprunt now e db))"
proof -
  let ?e = "e\<lparr>e_id := None\<rparr>"
  show ?thesis
  proof (cases "validate_emprunt db ?e = []")
    case True
    show ?thesis
    proof (cases "persistEntity now ?e db")
      case (Inr db')
      then obtain d db1 where p: "db' = persist_emprunt (?e\<lparr>dateEmprunt := d\<rparr>) db1" "db1 = db \<or> (\<exists>r. db1 = remove_reservation r db)"
        "e_livre ?e \<noteq> None" "e_utilisateur ?e \<noteq> None" by (rule persistEntity_cases)
      have "emprunts db1 = emprunts db" "limits_ok db1" using p(2) assms limits_remove_reservation by (auto simp: remove_reservation_def)
      then have "limits_ok (persist_emprunt (?e\<lparr>dateEmprunt := d\<rparr>) db1)"
        using p(3,4) True validate_emprunt_cong [of db1 db d ?e] by (intro limits_persist_emprunt) auto
      then show ?thesis using p(1) Inr True by (simp add: form_new_emprunt_def Let_def)
    qed (use assms True in \<open>simp add: form_new_emprunt_def Let_def\<close>)
  qed (use assms in \<open>simp add: form_new_emprunt_def Let_def\<close>)
qed

lemma find_None_filter: "find P xs = None \<longleftrightarrow> filter P xs = []"
  by (induction xs) auto

lemma find_in_set: "find P xs = Some x \<Longrightarrow> x \<in> set xs \<and> P x"
  by (induction xs) (auto split: if_splits)

text \<open>The checks of the API are those of the validator.\<close>

lemma reservation_create_validates:
  assumes "limits_ok db"
  shows "fst (reservation_create user livre now db) = 201 \<longleftrightarrow>
     validate_reservation db \<lparr>r_id = None, dateResa = Some now, r_utilisateur = Some user, r_livre = Some livre\<rparr> = []"
proof -
  have r: "rows_ok r_id (next_reservation db) (reservations db)" using assms by (simp add: limits_ok_def)
  have o: "[x \<leftarrow> reservations db. Q x \<and> other_id (r_id x) None] = filter Q (reservations db)" for Q
    using re.other_id_new [OF r] by (auto intro: filter_cong)
  show ?thesis by (simp add: reservation_create_def validate_reservation_def find_None_filter o)
qed

lemma limits_request:
  assumes "request db db'" and db: "limits_ok db"
  shows "limits_ok db'"
  using assms
proof (induction rule: request.induct)
  case (Create db user livre now)
  let ?r = "\<lparr>r_id = None, dateResa = Some now, r_utilisateur = Some user, r_livre = Some livre\<rparr>"
  show ?case
  proof (cases "fst (reservation_create user livre now db) = 201")
    case True
    then have "validate_reservation db ?r = []" using reservation_create_validates [OF Create] by simp
    moreover have "snd (reservation_create user livre now db) = persist_reservation ?r db"
      using True by (auto simp: reservation_create_def split: if_splits)
    ultimately show ?thesis using limits_persist_reservation [OF Create, of ?r] by simp
  next
    case False
    then have "snd (reservation_create user livre now db) = db" by (auto simp: reservation_create_def)
    then show ?thesis using Create by simp
  qed
next
  case (Transform db ident now)
  show ?case
  proof (cases "find (\<lambda>r. r_id r = Some ident) (reservations db)")
    case None
    then show ?thesis using Transform by (simp add: transformerEnEmprunt_def)
  next
    case (Some r)
    let ?e = "\<lparr>e_id = None, dateEmprunt = Some now, dateRetour = None, e_utilisateur = r_utilisateur r, e_livre = r_livre r\<rparr>"
    show ?thesis
    proof (cases "validate_emprunt db ?e")
      case Nil
      have "r \<in> set (reservations db)" using Some find_in_set by metis
      then have "r_utilisateur r \<noteq> None" "r_livre r \<noteq> None" using Transform by (auto simp: limits_ok_def)
      then have "limits_ok (persist_emprunt ?e db)" using limits_persist_emprunt [OF Transform Nil] by simp
      then show ?thesis using Some Nil limits_remove_reservation by (simp add: transformerEnEmprunt_def Let_def)
    next
      case (Cons v vs)
      then show ?thesis using Some Transform by (simp add: transformerEnEmprunt_def Let_def)
    qed
  qed
next
  case (Return db ident now)
  show ?case
  proof (cases "find (\<lambda>e. e_id e = Some ident) (emprunts db)")
    case None
    then show ?thesis using Return by (simp add: rendreLivre_def)
  next
    case (Some e)
    let ?e = "e\<lparr>dateRetour := Some now\<rparr>"
    have e: "e \<in> set (emprunts db)" using Some find_in_set by metis
    then have "e_utilisateur ?e \<noteq> None" "e_livre ?e \<noteq> None" "e_id ?e \<in> e_id ` set (emprunts db)"
      using Return by (auto simp: limits_ok_def)
    moreover have "validate_emprunt db ?e = []" by (simp add: validate_emprunt_def)
    ultimately have "limits_ok (update_emprunt ?e db)" using limits_update_emprunt [OF Return] by blast
    then show ?thesis using Some Return by (simp add: rendreLivre_def)
  qed
next
  case (New_Emprunt db now e)
  then show ?case by (rule limits_form_new_emprunt)
next
  case (Edit_Emprunt db e)
  then show ?case using limits_update_emprunt [of db e] by (auto simp: form_edit_emprunt_def)
next
  case (New_Reservation db r)
  then show ?case using limits_persist_reservation [of db "r\<lparr>r_id := None\<rparr>"] by (auto simp: form_new_reservation_def Let_def)
next
  case (Edit_Reservation db r)
  then show ?case using limits_update_reservation [of db r] by (auto simp: form_edit_reservation_def)
next
  case (Update_Me db user data)
  then show ?case by (auto simp: updateMe_def update_utilisateur_def limits_accounts Let_def split: option.splits)
next
  case (Delete_Utilisateur role_admin ident db db')
  let ?us = "[u \<leftarrow> utilisateurs db. u_id u \<noteq> Some ident]"
  have "db' = (db\<lparr>reservations := [r \<leftarrow> reservations db. r_utilisateur r \<noteq> Some ident]\<rparr>)\<lparr>utilisateurs := ?us\<rparr>"
    using Delete_Utilisateur(1) by (auto simp: deleteEntity_def split: if_splits)
  then show ?case using limits_delete(2) [OF Delete_Utilisateur(2)] by (simp only: limits_accounts)
qed (auto simp: reservation_delete_def delete_emprunt_def delete_reservation_def delete_livre_def register_def insert_utilisateur_def
       persist_account_def update_account_def limits_accounts Let_def
     intro: limits_remove_reservation limits_delete split: if_splits option.splits sum.splits)

definition empty_db :: database where
  "empty_db = \<lparr>emprunts = [], reservations = [], utilisateurs = [], next_emprunt = 1, next_reservation = 1, next_utilisateur = 1\<rparr>"

lemma limits_empty: "limits_ok empty_db"
  by (simp add: limits_ok_def empty_db_def rows_ok_def quota_def)

lemma limits_reachable: "request\<^sup>*\<^sup>* empty_db db \<Longrightarrow> limits_ok db"
  by (induction rule: rtranclp_induct) (auto simp: limits_empty intro: limits_request)

text \<open>C1. Whatever requests members, librarians and administrators make, one after the other, with the forms, actions and deletions
  of the application, no member ever has more than five open loans or more than three reservations, and no book is on loan
  twice or reserved twice.\<close>

theorem library_limits:
  assumes "request\<^sup>*\<^sup>* empty_db db"
  shows "length [e \<leftarrow> emprunts db. e_utilisateur e = Some u \<and> dateRetour e = None] \<le> 5
     \<and> length [e \<leftarrow> emprunts db. e_livre e = Some l \<and> dateRetour e = None] \<le> 1
     \<and> length [r \<leftarrow> reservations db. r_utilisateur r = Some u] \<le> 3
     \<and> length [r \<leftarrow> reservations db. r_livre r = Some l] \<le> 1"
  using limits_reachable [OF assms]
  by (auto simp: limits_ok_def quota_def loans_of_def loans_for_def reserved_by_def reserved_for_def cong: filter_cong)

definition one_reservation :: database where
  "one_reservation = snd (reservation_create 7 42 0 empty_db)"

lemma one_reservation_reachable: "request\<^sup>*\<^sup>* empty_db one_reservation"
  unfolding one_reservation_def by (rule r_into_rtranclp) (rule request.Create)

lemma one_reservation_eq:
  "one_reservation = empty_db\<lparr>reservations := [\<lparr>r_id = Some 1, dateResa = Some 0, r_utilisateur = Some 7, r_livre = Some 42\<rparr>], next_reservation := 2\<rparr>"
  by (simp add: one_reservation_def reservation_create_def empty_db_def persist_reservation_def)

text \<open>A member who has reserved a book borrows it and four others; the reservation is gone, and the limit is reached.\<close>

definition lend :: "nat \<Rightarrow> database \<Rightarrow> database" where
  "lend livre db = snd (form_new_emprunt 9 \<lparr>e_id = None, dateEmprunt = None, dateRetour = None, e_utilisateur = Some 7, e_livre = Some livre\<rparr> db)"

definition five_loans :: database where
  "five_loans = lend 46 (lend 45 (lend 44 (lend 43 (lend 42 one_reservation))))"

lemma five_loans_reachable: "request\<^sup>*\<^sup>* empty_db five_loans"
proof -
  have l: "request\<^sup>*\<^sup>* empty_db (lend l db)" if "request\<^sup>*\<^sup>* empty_db db" for l db
    using that unfolding lend_def by (rule rtranclp.rtrancl_into_rtrancl) (rule request.New_Emprunt)
  show ?thesis unfolding five_loans_def by (intro l one_reservation_reachable)
qed

lemmas lending = form_new_emprunt_def persistEntity_def validate_emprunt_def getIsEmprunte_def persist_emprunt_def
  remove_reservation_def other_id_def Let_def

lemma five_loans_eq:
  "five_loans = empty_db\<lparr>emprunts := map (\<lambda>i. \<lparr>e_id = Some i, dateEmprunt = Some 9, dateRetour = None, e_utilisateur = Some 7,
     e_livre = Some (41 + i)\<rparr>) [1, 2, 3, 4, 5], next_emprunt := 6, next_reservation := 2\<rparr>"
  by (simp add: five_loans_def lend_def one_reservation_eq empty_db_def lending)

theorem library_limits_witness:
  "length [e \<leftarrow> emprunts five_loans. e_utilisateur e = Some 7 \<and> dateRetour e = None] \<le> 5
   \<and> map e_livre (emprunts five_loans) = [Some 42, Some 43, Some 44, Some 45, Some 46] \<and> reservations five_loans = []
   \<and> lend 47 five_loans = five_loans"
  using library_limits [OF five_loans_reachable, of 7 42]
  by (simp add: lend_def five_loans_eq empty_db_def lending)

text \<open>The checks of the controller, for a new loan that was not returned yet, are those of the validator, so that the form never
  ends in an exception for them: the loan is saved exactly when the book is not on loan and the member has fewer than
  five open loans, with the date filled in, and the reservation of the member for the book is gone.\<close>

theorem new_loan_outcome:
  assumes "request\<^sup>*\<^sup>* empty_db db" and "e_utilisateur e = Some u" "e_livre e = Some l" "dateRetour e = None"
  shows "case form_new_emprunt now e db of (res, db') \<Rightarrow>
     if getIsEmprunte l db \<or> length [x \<leftarrow> emprunts db. e_utilisateur x = Some u \<and> dateRetour x = None] \<ge> 5
     then (\<exists>vs. res = Refused vs \<and> vs \<noteq> []) \<and> db' = db
     else res = Saved \<and> emprunts db' = emprunts db @ [e\<lparr>e_id := Some (next_emprunt db),
            dateEmprunt := Some (case dateEmprunt e of None \<Rightarrow> now | Some d \<Rightarrow> d)\<rparr>]
        \<and> reservations db' = [r \<leftarrow> reservations db. \<not> (r_livre r = Some l \<and> r_utilisateur r = Some u)]"
proof -
  have ok: "limits_ok db" using assms(1) by (rule limits_reachable)
  then have rows: "rows_ok e_id (next_emprunt db) (emprunts db)" "rows_ok r_id (next_reservation db) (reservations db)" "quota (reserved_for l) 1 (reservations db)"
    by (simp_all add: limits_ok_def)
  have o: "[x \<leftarrow> emprunts db. P x \<and> other_id (e_id x) None] = filter P (emprunts db)" for P
    using em.other_id_new [OF rows(1)] by (auto intro: filter_cong)
  have lent: "getIsEmprunte l db \<longleftrightarrow> [x \<leftarrow> emprunts db. e_livre x = Some l \<and> dateRetour x = None] \<noteq> []"
    by (auto simp: getIsEmprunte_def list_ex_iff filter_empty_conv)
  have v: "validate_emprunt db (e\<lparr>e_id := None\<rparr>) = [] \<longleftrightarrow>
      \<not> getIsEmprunte l db \<and> length [x \<leftarrow> emprunts db. e_utilisateur x = Some u \<and> dateRetour x = None] < 5"
    using assms(2-4) o [of "\<lambda>x. e_utilisateur x = Some u \<and> dateRetour x = None"] o [of "\<lambda>x. e_livre x = Some l \<and> dateRetour x = None"]
    by (auto simp: validate_emprunt_def lent)
  have gone: "[x \<leftarrow> reservations db. r_id x \<noteq> r_id r] = [x \<leftarrow> reservations db. \<not> (r_livre x = Some l \<and> r_utilisateur x = Some u)]"
    if f: "find (\<lambda>r. r_livre r = Some l \<and> r_utilisateur r = Some u) (reservations db) = Some r" for r
  proof (rule filter_cong [OF refl])
    fix x assume x: "x \<in> set (reservations db)"
    have r: "r \<in> set (reservations db)" "r_livre r = Some l" "r_utilisateur r = Some u" using find_in_set [OF f] by auto
    have "x = r" if "r_livre x = Some l"
    proof -
      have "x \<in> set (filter (reserved_for l) (reservations db))" "r \<in> set (filter (reserved_for l) (reservations db))"
        using x r that by (simp_all add: reserved_for_def)
      moreover have "length (filter (reserved_for l) (reservations db)) \<le> 1" using rows(3) by (simp add: quota_def)
      ultimately show ?thesis by (cases "filter (reserved_for l) (reservations db)") auto
    qed
    moreover have "x = r" if "r_id x = r_id r" using rows(2) x r(1) that by (auto simp: rows_ok_def distinct_map inj_on_def)
    ultimately show "(r_id x \<noteq> r_id r) = (\<not> (r_livre x = Some l \<and> r_utilisateur x = Some u))" using r by auto
  qed
  have none: "[x \<leftarrow> reservations db. \<not> (r_livre x = Some l \<and> r_utilisateur x = Some u)] = reservations db"
    if "find (\<lambda>r. r_livre r = Some l \<and> r_utilisateur r = Some u) (reservations db) = None"
    using that by (auto simp: find_None_iff intro: filter_True)
  show ?thesis
  proof (cases "validate_emprunt db (e\<lparr>e_id := None\<rparr>) = []")
    case True
    then have "\<not> getIsEmprunte l db" "\<not> length [x \<leftarrow> emprunts db. e_utilisateur x = Some u \<and> dateRetour x = None] \<ge> 5" using v by auto
    then show ?thesis using True assms(2,3) gone none
      by (auto simp: form_new_emprunt_def persistEntity_def persist_emprunt_def remove_reservation_def Let_def split: option.splits)
  next
    case False
    then show ?thesis using v by (auto simp: form_new_emprunt_def Let_def)
  qed
qed

theorem new_loan_outcome_witness:
  "fst (form_new_emprunt 9 \<lparr>e_id = None, dateEmprunt = None, dateRetour = None, e_utilisateur = Some 7, e_livre = Some 42\<rparr> one_reservation) = Saved"
  using new_loan_outcome [OF one_reservation_reachable, of "\<lparr>e_id = None, dateEmprunt = None, dateRetour = None, e_utilisateur = Some 7, e_livre = Some 42\<rparr>" 7 42 9]
  by (auto simp: getIsEmprunte_def one_reservation_eq empty_db_def split: prod.splits)

text \<open>A loan that was already returned passes the validator, but the controller refuses it while the book is on loan.\<close>

lemma past_loan_refused:
  "validate_emprunt five_loans \<lparr>e_id = None, dateEmprunt = Some 1, dateRetour = Some 2, e_utilisateur = Some 8, e_livre = Some 42\<rparr> = []"
  "form_new_emprunt 9 \<lparr>e_id = None, dateEmprunt = Some 1, dateRetour = Some 2, e_utilisateur = Some 8, e_livre = Some 42\<rparr> five_loans
     = (Failed (LogicException ''Impossible : Ce livre est deja emprunte.''), five_loans)"
  by (simp_all add: five_loans_eq empty_db_def lending)

text \<open>The API for reservations applies the same rules as the validator of the administration: it creates the
  reservation, for the user and the book, exactly when the validator reports nothing, and otherwise
  answers with a conflict and changes nothing. Only the member who made a reservation can cancel it.\<close>

theorem reservation_api_agrees:
  assumes "request\<^sup>*\<^sup>* empty_db db"
  shows "let r = \<lparr>r_id = None, dateResa = Some now, r_utilisateur = Some user, r_livre = Some livre\<rparr>
     in (if validate_reservation db r = [] then reservation_create user livre now db = (201, persist_reservation r db)
         else reservation_create user livre now db = (409, db))
      \<and> (\<forall>x. r_utilisateur x \<noteq> Some user \<longrightarrow> reservation_delete user x db = (403, db))"
  using reservation_create_validates [OF limits_reachable [OF assms], of user livre now]
  by (auto simp: Let_def reservation_create_def reservation_delete_def split: if_splits)

theorem reservation_api_agrees_witness:
  "reservation_create 8 42 1 one_reservation = (409, one_reservation)"
proof -
  have "validate_reservation one_reservation \<lparr>r_id = None, dateResa = Some 1, r_utilisateur = Some 8, r_livre = Some 42\<rparr> \<noteq> []"
    by (simp add: validate_reservation_def one_reservation_eq other_id_def)
  then show ?thesis
    using reservation_api_agrees [OF one_reservation_reachable, where user = 8 and livre = 42 and now = 1]
    by (auto simp: Let_def split: if_splits)
qed

text \<open>The rule that a book on loan cannot be reserved is one-sided: the validator of loans does not look at
  reservations, so a librarian can lend a reserved book to another member; afterwards the reservation
  cannot be turned into a loan until the book is back.\<close>

theorem reserved_book_can_be_lent:
  "\<exists>db. request\<^sup>*\<^sup>* empty_db db
     \<and> [r_utilisateur r. r \<leftarrow> reservations db, r_livre r = Some 42] = [Some 7]
     \<and> [e_utilisateur e. e \<leftarrow> emprunts db, e_livre e = Some 42 \<and> dateRetour e = None] = [Some 8]
     \<and> transformerEnEmprunt 1 5 db = (Violation LivreIndisponible, db)"
proof -
  let ?e = "\<lparr>e_id = None, dateEmprunt = Some 3, dateRetour = None, e_utilisateur = Some 8, e_livre = Some 42\<rparr>"
  let ?db = "persist_emprunt ?e one_reservation"
  have "?db = snd (form_new_emprunt 3 ?e one_reservation)"
    by (simp add: one_reservation_eq empty_db_def lending)
  then have "request one_reservation ?db" by (simp only: request.New_Emprunt)
  then have "request\<^sup>*\<^sup>* empty_db ?db" using one_reservation_reachable by auto
  then show ?thesis
    by (intro exI [of _ ?db]) (simp add: one_reservation_eq persist_emprunt_def empty_db_def transformerEnEmprunt_def
        validate_emprunt_def other_id_def Let_def)
qed

text \<open>Registration cannot succeed: it never sets the date of membership, which the table does not allow to be
  null, so a request with all fields ends in a database error and one with a missing field in
  status 400.\<close>

theorem register_never_succeeds:
  "register hashPassword d db = Inr (400, db) \<or> register hashPassword d db = Inl NotNullViolation"
  by (simp add: register_def insert_utilisateur_def Let_def)

text \<open>The test for an empty password takes the password \<^verbatim>\<open>0\<close> for one: it is stored without being hashed.\<close>

lemma password_zero_not_hashed:
  assumes "dateAdhesion u = Some d" and "password u = ''0''" and "utilisateurs db = []"
  shows "\<exists>db'. persist_account hashPassword u db = Inr db' \<and> map password (utilisateurs db') = [''0'']"
  using assms by (simp add: persist_account_def insert_utilisateur_def php_empty_def)

text \<open>Updating a profile keeps the emails of all accounts different: a change to an email that is in use is
  answered with a conflict, and everything else changes the row of the user only.\<close>

theorem update_me_keeps_emails_unique:
  assumes "distinct (map email (utilisateurs db))" and "distinct (map u_id (utilisateurs db))" and "user \<in> set (utilisateurs db)"
  shows "distinct (map email (utilisateurs (snd (updateMe (Some user) data db))))"
proof -
  have upd: "distinct (map email (map (\<lambda>x. if u_id x = u_id user then v else x) (utilisateurs db)))"
    if v: "email v = email user \<or> email v \<notin> email ` set (utilisateurs db)" for v
  proof -
    obtain xs ys where db: "utilisateurs db = xs @ user # ys" using assms(3) by (meson split_list)
    have "u_id x \<noteq> u_id user" if "x \<in> set xs \<union> set ys" for x using assms(2) that unfolding db by (force simp: image_iff)
    then have "map (\<lambda>x. if u_id x = u_id user then v else x) xs = xs" "map (\<lambda>x. if u_id x = u_id user then v else x) ys = ys"
      by (auto intro: map_idI)
    then have "map (\<lambda>x. if u_id x = u_id user then v else x) (utilisateurs db) = xs @ v # ys" by (simp add: db)
    moreover have un: "email user \<notin> email ` (set xs \<union> set ys)" and "distinct (map email xs)" "distinct (map email ys)"
      "email ` set xs \<inter> email ` set ys = {}" using assms(1) by (auto simp: db)
    moreover have "email v \<notin> email ` (set xs \<union> set ys)" using v
    proof
      assume "email v = email user"
      then show ?thesis using un by simp
    next
      assume "email v \<notin> email ` set (utilisateurs db)"
      then show ?thesis unfolding db by (simp add: image_Un)
    qed
    ultimately show ?thesis by (simp add: image_Un)
  qed
  show ?thesis
  proof (cases data)
    case (Some d)
    then show ?thesis using assms(1) find_None_iff [of "\<lambda>x. email x = the (n_email d)" "utilisateurs db"]
      by (auto simp: updateMe_def Let_def update_utilisateur_def simp del: map_map intro!: upd split: option.splits)
  qed (use assms(1) in \<open>simp add: updateMe_def\<close>)
qed

definition alice :: Utilisateur where
  "alice = \<lparr>u_id = Some 1, email = ''a@b'', roles = [], nom = ''A'', prenom = ''A'', password = ''x'', dateAdhesion = Some 0,
     adressePostale = None, numTel = None\<rparr>"

theorem update_me_keeps_emails_unique_witness:
  "distinct (map email (utilisateurs (snd (updateMe (Some alice)
     (Some \<lparr>n_email = Some ''c@d'', n_adressePostale = None, n_numTel = None\<rparr>) (empty_db\<lparr>utilisateurs := [alice]\<rparr>)))))"
  by (rule update_me_keeps_emails_unique) simp_all

lemma concat_pages:
  assumes "0 < limit"
  shows "concat (map (\<lambda>p. take limit (drop (p * limit) xs)) [0..<n]) = take (n * limit) xs"
proof (induction n)
  case (Suc n)
  then show ?case using take_add [of "n * limit" limit xs] by (simp add: add.commute)
qed simp

text \<open>The pages of the catalogue, from the first to the announced last one, contain every search result exactly
  once and in order, and a page past the last one is empty.\<close>

theorem catalogue_pages_cover:
  assumes "0 < limit"
  shows "concat (map (\<lambda>page. page_data results page limit) [1..<totalPages results limit + 1]) = results
     \<and> (\<forall>page > totalPages results limit. page_data results page limit = [])"
proof -
  let ?n = "totalPages results limit"
  have "length results + limit - 1 < ((length results + limit - 1) div limit + 1) * limit"
    using assms dividend_less_times_div [of limit "length results + limit - 1"] by (simp add: mult.commute)
  then have len: "length results \<le> ?n * limit" by (auto simp: totalPages_def Let_def)
  have "map (\<lambda>page. page_data results page limit) [1..<?n + 1] = map (\<lambda>p. take limit (drop (p * limit) results)) [0..<?n]"
    by (simp add: page_data_def map_Suc_upt [symmetric] del: upt_Suc)
  then have "concat (map (\<lambda>page. page_data results page limit) [1..<?n + 1]) = results"
    using concat_pages [OF assms, of results ?n] len by (simp del: upt_Suc)
  moreover have "page_data results page limit = []" if "page > ?n" for page
  proof -
    have "?n * limit \<le> (page - 1) * limit" using that by (intro mult_le_mono1) simp
    then have "length results \<le> (page - 1) * limit" using len by (rule order_trans [rotated])
    then show ?thesis by (simp add: page_data_def)
  qed
  ultimately show ?thesis by blast
qed

theorem catalogue_pages_cover_witness:
  "concat (map (\<lambda>page. page_data ''abcde'' page 2) [1..<totalPages ''abcde'' 2 + 1]) = ''abcde'' \<and> totalPages ''abcde'' 2 = 3"
proof
  show "concat (map (\<lambda>page. page_data ''abcde'' page 2) [1..<totalPages ''abcde'' 2 + 1]) = ''abcde''"
    using catalogue_pages_cover [OF zero_less_numeral [of "num.Bit0 num.One"], of "''abcde''"] by blast
qed (simp add: totalPages_def)

end
