(* ===== verification/Spec2Isabelle.thy ===== *)
theory Spec2Isabelle
  imports Bits Byte_Order Int_Types Sql_Bitmap Ilist Sql_List Bubble_Sort Sql_I_List Sql_Ilink Sql_Plist Lifo_Buffer Arrays
    Sql_String Thread_Cache Hash_Filo Mdl_Key Sql_Limit Privilege Bounded_Queue Auto_Inc Sql_Error Date_Mode Histogram Sel_Arg Lex_Input
    Tranx_Alloc Window_Funcs Filesort Mbr Json_Trace Trackers Temporal_Values Temporal_Types Fixed_Bin Session Session_Async
    Qualified_Names Xids Log_Event_Types Log_Events My_Decimal Record_Fields Library_Rules
begin

text \<open>
  \<^bold>\<open>The program.\<close> The repository is a library manager: a Symfony application (\<^verbatim>\<open>src/poc_articles\<close>) with an Angular
  client (\<^verbatim>\<open>src/front_articles\<close>) over a bundled MariaDB (\<^verbatim>\<open>src/mariadb-fp\<close>), of which the repository holds the server
  headers with their inline code under \<^verbatim>\<open>include/mysql/server\<close>. Loans and reservations of the application are rows of
  the database. The headers are the ground the server stands on: integers and bytes, containers, strings, caches, and
  the data of locks, privileges and diagnostics. This development models the parts of the headers that have code, and
  the rules of the application.

  \<^bold>\<open>Theories and sources\<close> (headers are relative to \<^verbatim>\<open>include/mysql/server\<close> or its directory \<^verbatim>\<open>private\<close>).

  \<^item> \<^verbatim>\<open>Prelude\<close>: machine integers as words, sets of bits, three-way comparison, the shared collections of rules.
  \<^item> \<^verbatim>\<open>Bits\<close> (\<^verbatim>\<open>my_bit.h\<close>): logarithm, population count, rounding up, reversal and search of bits, against their
    mathematical meaning.
  \<^item> \<^verbatim>\<open>Byte_Order\<close> (\<^verbatim>\<open>byte_order_generic.h\<close>, \<^verbatim>\<open>byte_order_generic_x86_64.h\<close>, \<^verbatim>\<open>myisampack.h\<close>): all reads and stores
    of integers in both byte orders. A locale states what a codec promises; the macros interpret it. The optimised and
    the generic macros are equal, storing and reading are inverse, and big-endian keys compare like their values.
  \<^item> \<^verbatim>\<open>Int_Types\<close> (\<^verbatim>\<open>sql_type_int.h\<close>): nullable and signed-or-unsigned 64-bit values.
  \<^item> \<^verbatim>\<open>Sql_Bitmap\<close> (\<^verbatim>\<open>sql_bitmap.h\<close>): bitmaps as arrays of 64-bit elements refine finite sets; the iterator.
  \<^item> \<^verbatim>\<open>Intrusive_List\<close>, \<^verbatim>\<open>Ilist\<close> (\<^verbatim>\<open>ilist.h\<close>): the contract of an intrusive list as a locale, and the list with a
    sentinel as its first instance.
  \<^item> \<^verbatim>\<open>Cells\<close>, \<^verbatim>\<open>Sql_List\<close>, \<^verbatim>\<open>Bubble_Sort\<close>, \<^verbatim>\<open>Sql_I_List\<close>, \<^verbatim>\<open>Sql_Ilink\<close> (\<^verbatim>\<open>sql_list.h\<close>): chains through cells that hold
    pointers, on which all list classes of the header are modelled, with their iterators and \<^verbatim>\<open>bubble_sort\<close>.
  \<^item> \<^verbatim>\<open>Sql_Plist\<close> (\<^verbatim>\<open>sql_plist.h\<close>): the list with counting and insertion policies, another instance of the contract.
  \<^item> \<^verbatim>\<open>Lifo_Buffer\<close> (\<^verbatim>\<open>sql_lifo_buffer.h\<close>): buffers that grow forwards or backwards; a locale for both directions.
  \<^item> \<^verbatim>\<open>Arrays\<close> (\<^verbatim>\<open>sql_array.h\<close>, \<^verbatim>\<open>span.h\<close>, \<^verbatim>\<open>mem_root_array.h\<close>): views of memory and the growing array.
  \<^item> \<^verbatim>\<open>Sql_String\<close> (\<^verbatim>\<open>sql_string.h\<close>): strings over a heap of blocks in which every access out of bounds, to freed memory
    or outside the block is an absent result.
  \<^item> \<^verbatim>\<open>Thread_Cache\<close> (\<^verbatim>\<open>thread_cache.h\<close>): the critical sections of \<^verbatim>\<open>park\<close>, \<^verbatim>\<open>enqueue\<close> and \<^verbatim>\<open>flush\<close> as functions, the
    interleavings of threads, signals, timeouts, spurious wake-ups and changes of the cache size as a step relation.
  \<^item> \<^verbatim>\<open>Hash_Filo\<close> (\<^verbatim>\<open>hash_filo.h\<close>): the least-recently-used cache.
  \<^item> \<^verbatim>\<open>Mdl_Key\<close> (\<^verbatim>\<open>mdl.h\<close>): types, keys and requests of metadata locks.
  \<^item> \<^verbatim>\<open>Sql_Limit\<close> (\<^verbatim>\<open>sql_limit.h\<close>): the counters for \<^verbatim>\<open>LIMIT\<close> and \<^verbatim>\<open>OFFSET\<close>.
  \<^item> \<^verbatim>\<open>Privilege\<close> (\<^verbatim>\<open>privilege.h\<close>): privileges, their levels and their packed form in the grant tables; a locale for a
    column of a grant table.
  \<^item> \<^verbatim>\<open>Bounded_Queue\<close> (\<^verbatim>\<open>bounded_queue.h\<close>, \<^verbatim>\<open>queues.h\<close>): the queue that keeps the best elements.
  \<^item> \<^verbatim>\<open>Auto_Inc\<close> (\<^verbatim>\<open>structs.h\<close>): intervals of auto-increment values.
  \<^item> \<^verbatim>\<open>Sql_Error\<close> (\<^verbatim>\<open>sql_error.h\<close>): SQL states, conditions, and the diagnostics area over \<^verbatim>\<open>Sql_Plist\<close>.
  \<^item> \<^verbatim>\<open>Date_Mode\<close> (\<^verbatim>\<open>sql_basic_types.h\<close>): the modes for temporal conversions.
  \<^item> \<^verbatim>\<open>Histogram\<close> (\<^verbatim>\<open>sql_statistics.h\<close>): histograms of columns and the statistics of tables; the search for the bucket of a value.
  \<^item> \<^verbatim>\<open>Sel_Arg\<close> (\<^verbatim>\<open>opt_range.h\<close>, \<^verbatim>\<open>my_base.h\<close>): the intervals of the range optimizer: comparison of their ends, intersection, union and
    splitting, and the keys that are stored for a range.
  \<^item> \<^verbatim>\<open>Lex_Input\<close> (\<^verbatim>\<open>sql_lex.h\<close>): the input stream of the lexical scanner with its pre-processed copy.
  \<^item> \<^verbatim>\<open>Tranx_Alloc\<close> (\<^verbatim>\<open>semisync_master.h\<close>): the block allocator of the nodes of transactions.
  \<^item> \<^verbatim>\<open>Window_Funcs\<close> (\<^verbatim>\<open>item_windowfunc.h\<close>): window functions: ranks, \<^verbatim>\<open>NTILE\<close>, percentiles.
  \<^item> \<^verbatim>\<open>Filesort\<close> (\<^verbatim>\<open>filesort_utils.h\<close>, \<^verbatim>\<open>sql_sort.h\<close>): the sort buffer, merge chunks, and records with packed keys and fields.
  \<^item> \<^verbatim>\<open>Mbr\<close> (\<^verbatim>\<open>spatial.h\<close>): bounding rectangles and the reading of points.
  \<^item> \<^verbatim>\<open>Json_Trace\<close> (\<^verbatim>\<open>my_json_writer.h\<close>): the string with a limit and the scopes of objects and arrays of the trace; a locale for both
    kinds of scope.
  \<^item> \<^verbatim>\<open>Trackers\<close> (\<^verbatim>\<open>sql_analyze_stmt.h\<close>): the counters of \<^verbatim>\<open>ANALYZE\<close>.
  \<^item> \<^verbatim>\<open>Temporal_Values\<close> (\<^verbatim>\<open>mysql_time.h\<close>, \<^verbatim>\<open>my_time.h\<close>, \<^verbatim>\<open>sql_time.h\<close>, \<^verbatim>\<open>sql_type.h\<close>): temporal structures and their limits, numbers of seconds, sums of
    times, and the base class \<^verbatim>\<open>Temporal\<close>; locales for what the functions that round up and those that truncate share.
  \<^item> \<^verbatim>\<open>Temporal_Types\<close> (\<^verbatim>\<open>sql_type.h\<close>): the classes for \<^verbatim>\<open>TIME\<close>, \<^verbatim>\<open>DATE\<close>, \<^verbatim>\<open>DATETIME\<close>, \<^verbatim>\<open>TIMESTAMP\<close>, intervals and sources of
    \<^verbatim>\<open>EXTRACT\<close>.
  \<^item> \<^verbatim>\<open>Fixed_Bin\<close> (\<^verbatim>\<open>sql_type_fixedbin.h\<close>, \<^verbatim>\<open>sql_type_fixedbin_storage.h\<close>): data types with a binary representation of fixed size, their
    conversions, fields, comparators, sort keys, items and aggregation, over an implementation whose contract is a locale.
  \<^item> \<^verbatim>\<open>Session\<close> (\<^verbatim>\<open>sql_class.h\<close>, \<^verbatim>\<open>handler.h\<close>, \<^verbatim>\<open>my_sys.h\<close>): the state of a session: the time of its statements, kills, transactions
    and their engines, log format, generated keys and timeouts; a locale for the classes that change it for a scope.
  \<^item> \<^verbatim>\<open>Session_Async\<close> (\<^verbatim>\<open>sql_class.h\<close>): pending operations of a session as a step relation, lists of waiting commits.
  \<^item> \<^verbatim>\<open>Qualified_Names\<close> (\<^verbatim>\<open>sql_class.h\<close>): names with a database, doubled quotes.
  \<^item> \<^verbatim>\<open>Xids\<close> (\<^verbatim>\<open>handler.h\<close>, \<^verbatim>\<open>log_event.h\<close>): identifiers of distributed transactions in their memory layout, those that the server makes
    itself, and the text form of the XA events.
  \<^item> \<^verbatim>\<open>Log_Event_Types\<close>, \<^verbatim>\<open>Log_Events\<close> (\<^verbatim>\<open>log_event.h\<close>, \<^verbatim>\<open>rpl_constants.h\<close>): types of binary log events and the part common to all events; the
    classes of events with their virtual functions, versions, keywords of transactions, flags of row events, encryption data.
  \<^item> \<^verbatim>\<open>My_Decimal\<close> (\<^verbatim>\<open>my_decimal.h\<close>, \<^verbatim>\<open>decimal.h\<close>): decimal numbers with a buffer of their own, their copies, lengths and precisions, and
    what is done with errors and overflow of the decimal library.
  \<^item> \<^verbatim>\<open>Record_Fields\<close> (\<^verbatim>\<open>field.h\<close>, \<^verbatim>\<open>my_compare.h\<close>): fields in the memory of a record: bits, null bits, lengths and numbers in a variable
    number of bytes, packing, moving between records; a locale for the order of values with which the smallest and largest are kept.
  \<^item> \<^verbatim>\<open>Library_Rules\<close> (PHP code of \<^verbatim>\<open>src/poc_articles/src\<close>): validators, controllers, actions, the saving of forms and
    deletions as functions on the rows of the database, requests as a step relation, and a locale for tables with generated keys.

  \<^bold>\<open>Correspondence.\<close> A class is a record and a method a function on it; objects that are linked live in a store
  indexed by addresses, with 0 for the null pointer. Integers have their width where overflow can matter. A result that
  the code reports by a flag is returned in a pair. Loops that end only on well-formed structures are
  \<^theory_text>\<open>partial_function (option)\<close>, and the theorems state that they return; the few functions with fuel (walks that use
  an iterator while the list changes) are stated for every fuel above the number of elements. Debug assertions are
  hypotheses or absent results, and the release build is modelled elsewhere.

  \<^bold>\<open>Parameters.\<close> Functions that the headers only declare are arguments, with what is documented of them as a named
  predicate: the reallocation of strings (\<^verbatim>\<open>realloc_ok\<close>), the hash table (\<^verbatim>\<open>hash_ok\<close>), the queue functions
  (\<^verbatim>\<open>queue_funs_ok\<close>), \<^verbatim>\<open>strmake\<close> (\<^verbatim>\<open>strmake_ok\<close>), memory allocation (\<^verbatim>\<open>malloc_ok\<close>, \<^verbatim>\<open>buffer_ok\<close>), the memory root,
  comparison functions (total preorders), the comparison and construction of ranges (\<^verbatim>\<open>sel_cmp_ok\<close>, \<^verbatim>\<open>sel_ctor_ok\<close>), the
  rounding of floating-point operations (\<^verbatim>\<open>rounding_ok\<close>: monotone, exact on small integers), and the functions on temporal
  values, a record \<^verbatim>\<open>time_lib\<close> with one predicate for each function that is relied upon, and the implementation of a
  data type of fixed size (\<^verbatim>\<open>fbt_contract\<close>). For each there is a concrete
  function that satisfies the predicate, used in the witnesses. Functions of which nothing is relied upon are arguments
  without a hypothesis: the cycle counter and the attribution of gaps, \<^verbatim>\<open>within\<close> of rectangles, the printing of numbers.

  \<^bold>\<open>What is shown.\<close> Refinement of sets, sequences, stacks, caches and queues by the containers; round trips of the
  byte, key and privilege encodings; invariants and progress of the thread cache in every interleaving, and the
  situation in which two concurrent flushes leave one waiting until a spurious wake-up; bounds and wrap-around of sizes and lengths,
  with the exact conditions under which \<^verbatim>\<open>append_with_step\<close> and \<^verbatim>\<open>Mem_root_array::reserve\<close> leave their buffers; the
  intersection and union of ranges as sets of keys, the right bucket of a histogram, even division by \<^verbatim>\<open>NTILE\<close> and
  percentiles between the neighbouring rows; a sort buffer in which records and pointers never meet, and records that are
  found again; relations of rectangles as those of sets of points; well-formed traces; exact sums of times, exact carries
  and truncation, conversions between dates, times and seconds in every mode; the outcome of every store in a field of a fixed-size
  type and sort keys that order like the values; start times of statements that follow the clock, one microsecond
  apart while it stands still, and the user's setting, kills that are never weakened, and sessions that are neither answered too early nor left waiting; transaction identifiers that are equal when
  their hash keys are and texts of them that fit their buffers; events whose announced type and size agree; bits of a record that share
  bytes and do not disturb each other, and fields that are found at the same place in every record; and the limits of loans and reservations
  under any sequence of API calls, forms, actions and deletions, which are processed one at a time.

  \<^bold>\<open>Not modelled.\<close> Functions whose code is not in the repository (the sources of the server, the frameworks); classes
  that are declarations of such functions with accessors, which is most of \<^verbatim>\<open>sql_class.h\<close>, \<^verbatim>\<open>item.h\<close>, \<^verbatim>\<open>field.h\<close>,
  \<^verbatim>\<open>handler.h\<close>, \<^verbatim>\<open>sql_lex.h\<close> and the type handlers of \<^verbatim>\<open>sql_type.h\<close>; parsing and printing of
  temporal values and the calendar; the client, templates, the frameworks behind the forms, fixtures and configuration; instrumentation and debug output. In
  \<^verbatim>\<open>sql_bitmap.h\<close> the routine \<^verbatim>\<open>print\<close>, in \<^verbatim>\<open>sql_array.h\<close> the class \<^verbatim>\<open>Dynamic_array\<close>, which forwards to functions outside.
  Also left out are the slices of \<^verbatim>\<open>gcalc_slicescan.h\<close>, the comparison code of
  \<^verbatim>\<open>item_cmpfunc.h\<close>, the attributes and collations of \<^verbatim>\<open>sql_type.h\<close> and the character functions of \<^verbatim>\<open>m_ctype.h\<close>: their inline code
  forwards to functions and tables of the sources of the server, so that a model would consist of parameters.
\<close>

end
